(* ===== verification/Song_Prelude.thy ===== *)
theory Song_Prelude
  imports Main "HOL-Library.Word" "HOL-Library.AList"
begin

text \<open>
  What every component of the model shares: the machine integers of
  \<^verbatim>\<open>include/song/types.hpp\<close>, the exceptions of \<^verbatim>\<open>include/song/error.hpp\<close> as values,
  the two ways a C++ function is modelled (a pure result that may be an exception, and a
  state-passing step whose state survives the exception), little-endian byte strings, and
  the hash maps of the standard library with their laws as a locale.
\<close>

unbundle bit_operations_syntax

named_theorems codec_simps \<open>equations that run encoders and decoders on known bytes\<close>
named_theorems step_defs \<open>the operations of a component, unfolded when a step is analysed\<close>

section \<open>Integers\<close>

text \<open>Signed integers are kept as their two's complement bit pattern and read with \<open>sint\<close>;
  \<open>float\<close> and \<open>double\<close> are only ever copied bit for bit, so they are their bit pattern.\<close>

type_synonym byte = "8 word"
type_synonym u8 = "8 word"
type_synonym u16 = "16 word"
type_synonym u32 = "32 word"
type_synonym u64 = "64 word"
type_synonym i8 = "8 word"
type_synonym i16 = "16 word"
type_synonym i32 = "32 word"
type_synonym i64 = "64 word"
type_synonym f32 = "32 word"
type_synonym f64 = "64 word"

definition size_max :: nat where
  "size_max = 2 ^ 64 - 1"

section \<open>Exceptions and results\<close>

text \<open>
  The first five constructors are the exception classes of the library, all derived from
  \<^verbatim>\<open>std::exception\<close>. \<open>ForeignExn\<close> is a thrown value that is not (user code may throw
  anything). \<open>Undefined\<close> marks a step the C++ standard gives no meaning to (a read outside
  an object, a signed overflow), and \<open>Diverges\<close> a call that does not return (a loop that
  never ends, a system call that blocks for ever); neither can be caught.
\<close>

datatype exn =
    RuntimeError string
  | ProtocolError string
  | ServiceError string
  | VersionMismatchError string
  | SecurityError string
  | ForeignExn
  | Undefined string
  | Diverges

fun std_exception :: "exn \<Rightarrow> bool" where
  "std_exception (RuntimeError m) = True"
| "std_exception (ProtocolError m) = True"
| "std_exception (ServiceError m) = True"
| "std_exception (VersionMismatchError m) = True"
| "std_exception (SecurityError m) = True"
| "std_exception _ = False"

fun catchable :: "exn \<Rightarrow> bool" where
  "catchable (Undefined m) = False"
| "catchable Diverges = False"
| "catchable _ = True"

fun what :: "exn \<Rightarrow> string" where
  "what (RuntimeError m) = m"
| "what (ProtocolError m) = m"
| "what (ServiceError m) = m"
| "what (VersionMismatchError m) = m"
| "what (SecurityError m) = ''Security error: '' @ m"
| "what _ = ''''"

lemma std_exception_catchable [simp, intro]: "std_exception e \<Longrightarrow> catchable e"
  by (cases e) auto

type_synonym 'a res = "exn + 'a"

definition rbind :: "'a res \<Rightarrow> ('a \<Rightarrow> 'b res) \<Rightarrow> 'b res" where
  "rbind m k = (case m of Inl e \<Rightarrow> Inl e | Inr x \<Rightarrow> k x)"

lemma rbind_simps [simp]:
  "rbind (Inl e) k = Inl e"
  "rbind (Inr x) k = k x"
  by (simp_all add: rbind_def)

lemma rbind_eq_Inr: "rbind m k = Inr y \<longleftrightarrow> (\<exists>x. m = Inr x \<and> k x = Inr y)"
  by (cases m) auto

lemma rbind_eq_Inl: "rbind m k = Inl e \<longleftrightarrow> m = Inl e \<or> (\<exists>x. m = Inr x \<and> k x = Inl e)"
  by (cases m) auto

text \<open>A step on a state that may throw: the state reached is kept on both outcomes, because
  a C++ exception does not undo what was done before it.\<close>

type_synonym ('s, 'a) step = "'s \<Rightarrow> 'a res \<times> 's"

definition sret :: "'a \<Rightarrow> ('s, 'a) step" where
  "sret x = (\<lambda>s. (Inr x, s))"

definition sthrow :: "exn \<Rightarrow> ('s, 'a) step" where
  "sthrow e = (\<lambda>s. (Inl e, s))"

definition sbind :: "('s, 'a) step \<Rightarrow> ('a \<Rightarrow> ('s, 'b) step) \<Rightarrow> ('s, 'b) step" where
  "sbind m k = (\<lambda>s. case m s of (Inl e, s') \<Rightarrow> (Inl e, s') | (Inr x, s') \<Rightarrow> k x s')"

definition slift :: "'a res \<Rightarrow> ('s, 'a) step" where
  "slift r = (\<lambda>s. (r, s))"

definition smodify :: "('s \<Rightarrow> 's) \<Rightarrow> ('s, unit) step" where
  "smodify f = (\<lambda>s. (Inr (), f s))"

definition sget :: "('s \<Rightarrow> 'a) \<Rightarrow> ('s, 'a) step" where
  "sget f = (\<lambda>s. (Inr (f s), s))"

definition scatch :: "(exn \<Rightarrow> bool) \<Rightarrow> ('s, 'a) step \<Rightarrow> (exn \<Rightarrow> ('s, 'a) step) \<Rightarrow> ('s, 'a) step" where
  "scatch p m h = (\<lambda>s. case m s of
      (Inl e, s') \<Rightarrow> if p e then h e s' else (Inl e, s')
    | (Inr x, s') \<Rightarrow> (Inr x, s'))"

lemmas monad_defs = sret_def sthrow_def slift_def smodify_def sget_def

lemma sbind_apply: "sbind m k s = (case m s of (Inl e, s') \<Rightarrow> (Inl e, s') | (Inr x, s') \<Rightarrow> k x s')"
  by (simp add: sbind_def)

lemma scatch_apply: "scatch p m h s = (case m s of
      (Inl e, s') \<Rightarrow> if p e then h e s' else (Inl e, s')
    | (Inr x, s') \<Rightarrow> (Inr x, s'))"
  by (simp add: scatch_def)

text \<open>What a step does to its state on every outcome, as a preorder between the state before and
  after: the composite steps inherit it from their parts.\<close>

definition keeps :: "('s \<Rightarrow> 's \<Rightarrow> bool) \<Rightarrow> ('s, 'a) step \<Rightarrow> bool" where
  "keeps R m \<longleftrightarrow> (\<forall>s. R s (snd (m s)))"

lemma keepsI [intro]: "(\<And>s. R s (snd (m s))) \<Longrightarrow> keeps R m"
  by (simp add: keeps_def)

lemma keeps_apply: "keeps R m \<Longrightarrow> R s (snd (m s))"
  by (simp add: keeps_def)

lemma keepsD: "keeps R m \<Longrightarrow> m s = (r, s') \<Longrightarrow> R s s'"
  by (metis keeps_def snd_conv)

locale step_preorder =
  fixes R :: "'s \<Rightarrow> 's \<Rightarrow> bool"
  assumes R_refl: "R s s"
    and R_trans: "R a b \<Longrightarrow> R b c \<Longrightarrow> R a c"
begin

lemma keeps_pure: "keeps R (sret x)" "keeps R (sthrow e)" "keeps R (slift r)" "keeps R (sget f)"
  by (auto simp: keeps_def monad_defs R_refl)

lemma keeps_sbind: "keeps R m \<Longrightarrow> (\<And>x. keeps R (k x)) \<Longrightarrow> keeps R (sbind m k)"
  by (auto simp: keeps_def sbind_apply split: prod.splits sum.splits intro: R_trans) (metis R_trans snd_conv)

lemma keeps_scatch: "keeps R m \<Longrightarrow> (\<And>e. keeps R (h e)) \<Longrightarrow> keeps R (scatch p m h)"
  by (auto simp: keeps_def scatch_apply split: prod.splits sum.splits intro: R_trans) (metis R_trans snd_conv)+

end

section \<open>Text and bytes\<close>

definition bytes_of :: "string \<Rightarrow> byte list" where
  "bytes_of s = map (\<lambda>c. word_of_nat (of_char c)) s"

definition string_of :: "byte list \<Rightarrow> string" where
  "string_of bs = map (\<lambda>b. char_of (unat b)) bs"

lemma length_bytes_of [simp]: "length (bytes_of s) = length s"
  by (simp add: bytes_of_def)

lemma of_char_less_256: "(of_char c :: nat) < 256"
  using nat_of_char_less_256 .

lemma string_of_bytes_of [simp]: "string_of (bytes_of s) = s"
proof -
  have "char_of (unat (word_of_nat (of_char c) :: byte)) = c" for c
    using of_char_less_256 [of c] by (simp add: unat_of_nat)
  then show ?thesis
    by (simp add: string_of_def bytes_of_def comp_def)
qed

text \<open>Decimal text of a number, as \<^verbatim>\<open>std::to_string\<close> gives it for an unsigned value.\<close>

fun dec_string :: "nat \<Rightarrow> string" where
  "dec_string n = (if n < 10 then [char_of (48 + n)]
     else dec_string (n div 10) @ [char_of (48 + n mod 10)])"

declare dec_string.simps [simp del]

text \<open>The same for a signed value.\<close>

definition int_string :: "int \<Rightarrow> string" where
  "int_string i = (if i < 0 then ''-'' @ dec_string (nat (- i)) else dec_string (nat i))"

section \<open>Little-endian byte strings\<close>

text \<open>What \<^verbatim>\<open>memcpy\<close> of an integer writes and reads on the architectures the library is
  built for (the \<^verbatim>\<open>static_assert\<close> of \<^verbatim>\<open>src/buffer.cpp\<close> refuses the others).\<close>

fun le_bytes :: "nat \<Rightarrow> 'a::len word \<Rightarrow> byte list" where
  "le_bytes 0 w = []"
| "le_bytes (Suc n) w = ucast w # le_bytes n (drop_bit 8 w)"

fun of_le :: "byte list \<Rightarrow> 'a::len word" where
  "of_le [] = 0"
| "of_le (b # bs) = (ucast b) OR (push_bit 8 (of_le bs))"

lemma length_le_bytes [simp]: "length (le_bytes n w) = n"
  by (induction n w rule: le_bytes.induct) auto

text \<open>Encoded words stay symbolic in proofs; \<open>le_compute\<close> evaluates them.\<close>

lemmas le_compute = le_bytes.simps of_le.simps

lemma le_widths:
  "le_bytes (Suc 0) w = [ucast w]"
  "le_bytes 1 w = [ucast w]"
  "le_bytes 2 w = [ucast w, ucast (drop_bit 8 w)]"
  "le_bytes 4 w = [ucast w, ucast (drop_bit 8 w), ucast (drop_bit 16 w), ucast (drop_bit 24 w)]"
  by (simp_all add: numeral_eq_Suc le_bytes.simps)

lemma of_le_le_bytes_mask: "of_le (le_bytes n w) = take_bit (8 * n) (w :: 'a::len word)"
proof (induction n arbitrary: w)
  case 0
  show ?case by simp
next
  case (Suc n)
  have "ucast (ucast w :: byte) OR push_bit 8 (take_bit (8 * n) (drop_bit 8 w)) = take_bit (8 + 8 * n) w"
    by (rule bit_word_eqI) (auto simp: bit_simps)
  with Suc.IH show ?case by simp
qed

lemma of_le_le_bytes [simp]:
  assumes "LENGTH('a::len) \<le> 8 * n"
  shows "of_le (le_bytes n w) = (w :: 'a word)"
  using assms by (simp add: of_le_le_bytes_mask take_bit_word_eq_self)

lemma le_bytes_of_le:
  assumes "length bs = n" and "8 * n \<le> LENGTH('a::len)"
  shows "le_bytes n (of_le bs :: 'a word) = bs"
  using assms
proof (induction bs arbitrary: n)
  case Nil
  then show ?case by simp
next
  case (Cons b bs)
  then obtain m where n: "n = Suc m" and m: "length bs = m" and len: "8 + 8 * m \<le> LENGTH('a)"
    by (cases n) auto
  have lo: "ucast (ucast b OR push_bit 8 (of_le bs) :: 'a word) = b"
    by (rule bit_word_eqI) (use len in \<open>auto simp: bit_simps\<close>)
  have tk: "take_bit (8 * m) (of_le bs :: 'a word) = of_le bs"
    using Cons.IH [of m] m len of_le_le_bytes_mask [of m "of_le bs :: 'a word"] by simp
  have hi: "drop_bit 8 (ucast b OR push_bit 8 (of_le bs) :: 'a word) = of_le bs"
  proof (rule bit_word_eqI)
    fix k assume k: "k < LENGTH('a)"
    have b8: "\<not> bit b (8 + k)" by (simp add: bit_word.rep_eq)
    have "bit (of_le bs :: 'a word) k \<Longrightarrow> k < 8 * m"
      by (subst (asm) tk [symmetric]) (simp add: bit_simps)
    then show "bit (drop_bit 8 (ucast b OR push_bit 8 (of_le bs) :: 'a word)) k
        \<longleftrightarrow> bit (of_le bs :: 'a word) k"
      using len k b8 by (auto simp: bit_simps)
  qed
  show ?case
    using Cons.IH [of m] m len by (simp only: n le_bytes.simps of_le.simps lo hi)
qed

declare le_bytes.simps [simp del] and of_le.simps [simp del]

section \<open>Hash maps\<close>

text \<open>
  \<^verbatim>\<open>std::unordered_map\<close> and \<^verbatim>\<open>std::map\<close> are association lists with one entry per key; the
  list's order stands for the iteration order, about which nothing is assumed. The locale
  states what the components rely on.
\<close>

locale key_store =
  fixes find :: "'m \<Rightarrow> 'k \<Rightarrow> 'v option"
    and put :: "'k \<Rightarrow> 'v \<Rightarrow> 'm \<Rightarrow> 'm"
    and erase :: "'k \<Rightarrow> 'm \<Rightarrow> 'm"
    and empty :: "'m"
  assumes find_empty: "find empty k = None"
    and find_put: "find (put k v m) = (find m)(k \<mapsto> v)"
    and find_erase: "find (erase k m) = (find m)(k := None)"
begin

lemma find_put_same: "find (put k v m) k = Some v"
  by (simp add: find_put)

lemma find_put_other: "j \<noteq> k \<Longrightarrow> find (put k v m) j = find m j"
  by (simp add: find_put)

lemma find_erase_same: "find (erase k m) k = None"
  by (simp add: find_erase)

lemma find_erase_other: "j \<noteq> k \<Longrightarrow> find (erase k m) j = find m j"
  by (simp add: find_erase)

lemma dom_put: "dom (find (put k v m)) = insert k (dom (find m))"
  by (simp add: find_put)

lemma dom_erase: "dom (find (erase k m)) = dom (find m) - {k}"
  by (simp add: find_erase)

lemma put_then_erase: "find m k = None \<Longrightarrow> find (erase k (put k v m)) = find m"
  by (auto simp: find_put find_erase)

end

interpretation hm: key_store map_of AList.update AList.delete "[]"
  by unfold_locales (simp_all add: update_conv' delete_conv')

lemma map_of_filter_distinct:
  "distinct (map fst al) \<Longrightarrow>
    map_of (filter P al) k = (case map_of al k of None \<Rightarrow> None | Some v \<Rightarrow> if P (k, v) then Some v else None)"
proof (induction al)
  case Nil
  then show ?case by simp
next
  case (Cons a al)
  have "map_of al (fst a) = None"
    using Cons.prems by (simp add: map_of_eq_None_iff)
  then show ?case
    using Cons by (cases a) (auto split: option.splits)
qed

lemma distinct_map_fst_filter: "distinct (map fst al) \<Longrightarrow> distinct (map fst (filter P al))"
  by (induction al) auto

end
