(* ===== verification/Song_Buffer.thy ===== *)
theory Song_Buffer
  imports Song_Prelude
begin

text \<open>
  \<^verbatim>\<open>include/song/buffer.hpp\<close> and \<^verbatim>\<open>src/buffer.cpp\<close>: the growable byte buffer with inline
  storage, its moves, its guarded reads and writes, and the encoders and decoders of the
  primitive types, strings, byte arrays and (nested) arrays. The section on laws states what
  an encoder and its decoder promise each other as the locale \<open>codec\<close> and interprets it
  for every pair of functions here.
\<close>

section \<open>The buffer\<close>

text \<open>
  \<open>contents\<close> are the bytes \<open>[0, size_)\<close>, so \<open>size_\<close> is their number. \<open>inline\<close> says that
  \<open>data_\<close> points to the 4096 byte array inside the object.
\<close>

record buffer =
  contents :: "byte list"
  capacity :: nat
  inline :: bool
  read_pos :: nat

definition k_inline_size :: nat where
  "k_inline_size = 4096"

definition buffer_new :: buffer where
  "buffer_new = \<lparr>contents = [], capacity = k_inline_size, inline = True, read_pos = 0\<rparr>"

abbreviation size_of :: "buffer \<Rightarrow> nat" where
  "size_of b \<equiv> length (contents b)"

definition buffer_reset :: "buffer \<Rightarrow> buffer" where
  "buffer_reset b = b\<lparr>contents := [], read_pos := 0\<rparr>"

definition reset_read :: "buffer \<Rightarrow> buffer" where
  "reset_read b = b\<lparr>read_pos := 0\<rparr>"

definition has_data :: "buffer \<Rightarrow> bool" where
  "has_data b \<longleftrightarrow> read_pos b < size_of b"

definition remaining :: "buffer \<Rightarrow> nat" where
  "remaining b = size_of b - read_pos b"

text \<open>The move constructor returns the new buffer and what is left in the source.\<close>

definition buffer_move :: "buffer \<Rightarrow> buffer \<times> buffer" where
  "buffer_move other =
    (\<lparr>contents = contents other, capacity = capacity other, inline = inline other,
       read_pos = read_pos other\<rparr>,
     (if inline other then other else other\<lparr>inline := True, capacity := k_inline_size\<rparr>)
       \<lparr>contents := [], read_pos := 0\<rparr>)"

text \<open>Move assignment frees what the target held; assigning a buffer to itself does nothing.\<close>

definition buffer_move_assign :: "bool \<Rightarrow> buffer \<Rightarrow> buffer \<Rightarrow> buffer \<times> buffer" where
  "buffer_move_assign same this other = (if same then (this, this) else buffer_move other)"

section \<open>Growing\<close>

text \<open>The doubling loop of \<^verbatim>\<open>ensure_capacity\<close> on 64-bit sizes; \<open>None\<close> is a loop that does
  not end.\<close>

partial_function (option) grow_capacity :: "nat \<Rightarrow> nat \<Rightarrow> nat option" where
  "grow_capacity c required =
    (if c < required then grow_capacity ((c * 2) mod 2 ^ 64) required else Some c)"

definition k_max_capacity :: nat where
  "k_max_capacity = size_max div 2"

definition ensure_capacity :: "nat \<Rightarrow> buffer \<Rightarrow> buffer res" where
  "ensure_capacity required b =
    (if required \<le> capacity b then Inr b
     else if required > k_max_capacity
     then Inl (RuntimeError ''Buffer capacity overflow: requested size too large'')
     else case grow_capacity (capacity b) required of
       None \<Rightarrow> Inl Diverges
     | Some c \<Rightarrow> Inr (b\<lparr>capacity := c, inline := False\<rparr>))"

definition buffer_write :: "byte list \<Rightarrow> buffer \<Rightarrow> buffer res" where
  "buffer_write xs b =
    (if length xs > 0 \<and> size_of b > size_max - length xs
     then Inl (RuntimeError ''Buffer write overflow: size + len exceeds maximum'')
     else rbind (ensure_capacity (size_of b + length xs) b)
       (\<lambda>b'. Inr (b'\<lparr>contents := contents b' @ xs\<rparr>)))"

text \<open>A decoder consumes from the read position and returns the buffer it leaves.\<close>

type_synonym 'a decoder = "buffer \<Rightarrow> ('a \<times> buffer) res"
type_synonym 'a encoder = "'a \<Rightarrow> buffer \<Rightarrow> buffer res"

definition buffer_read :: "nat \<Rightarrow> byte list decoder" where
  "buffer_read len b =
    (if len > size_of b \<or> read_pos b > size_of b - len
     then Inl (RuntimeError ''Buffer underflow: attempted to read beyond buffer size'')
     else Inr (take len (drop (read_pos b) (contents b)), b\<lparr>read_pos := read_pos b + len\<rparr>))"

definition dreturn :: "'a \<Rightarrow> 'a decoder" where
  "dreturn x = (\<lambda>b. Inr (x, b))"

definition dfail :: "exn \<Rightarrow> 'a decoder" where
  "dfail e = (\<lambda>b. Inl e)"

definition dbind :: "'a decoder \<Rightarrow> ('a \<Rightarrow> 'b decoder) \<Rightarrow> 'b decoder" where
  "dbind d k = (\<lambda>b. case d b of Inl e \<Rightarrow> Inl e | Inr (x, b') \<Rightarrow> k x b')"

section \<open>Primitive encoders and decoders\<close>

definition encode_bool :: "bool encoder" where
  "encode_bool v = buffer_write [if v then 1 else 0]"

definition encode_i8 :: "i8 encoder" where
  "encode_i8 v = buffer_write (le_bytes 1 v)"

definition encode_i16 :: "i16 encoder" where
  "encode_i16 v = buffer_write (le_bytes 2 v)"

definition encode_i32 :: "i32 encoder" where
  "encode_i32 v = buffer_write (le_bytes 4 v)"

definition encode_i64 :: "i64 encoder" where
  "encode_i64 v = buffer_write (le_bytes 8 v)"

definition encode_u8 :: "u8 encoder" where
  "encode_u8 v = buffer_write (le_bytes 1 v)"

definition encode_u16 :: "u16 encoder" where
  "encode_u16 v = buffer_write (le_bytes 2 v)"

definition encode_u32 :: "u32 encoder" where
  "encode_u32 v = buffer_write (le_bytes 4 v)"

definition encode_u64 :: "u64 encoder" where
  "encode_u64 v = buffer_write (le_bytes 8 v)"

definition encode_f32 :: "f32 encoder" where
  "encode_f32 v = buffer_write (le_bytes 4 v)"

definition encode_f64 :: "f64 encoder" where
  "encode_f64 v = buffer_write (le_bytes 8 v)"

definition k_max_string_size :: nat where
  "k_max_string_size = 1 * 1024 * 1024"

definition k_max_bytes_size :: nat where
  "k_max_bytes_size = 1 * 1024 * 1024"

definition k_max_array_count :: nat where
  "k_max_array_count = 1 * 1024 * 1024"

definition encode_string :: "string encoder" where
  "encode_string v b =
    (if length v > k_max_string_size then Inl (RuntimeError ''String too large to encode'')
     else rbind (encode_u32 (word_of_nat (length v)) b) (buffer_write (bytes_of v)))"

definition encode_bytes :: "byte list encoder" where
  "encode_bytes v b =
    (if length v > k_max_bytes_size then Inl (RuntimeError ''Byte array too large to encode'')
     else rbind (encode_u32 (word_of_nat (length v)) b) (buffer_write v))"

definition decode_bool :: "bool decoder" where
  "decode_bool = dbind (buffer_read 1) (\<lambda>bs. dreturn (of_le bs \<noteq> (0 :: u8)))"

definition decode_i8 :: "i8 decoder" where
  "decode_i8 = dbind (buffer_read 1) (\<lambda>bs. dreturn (of_le bs))"

definition decode_i16 :: "i16 decoder" where
  "decode_i16 = dbind (buffer_read 2) (\<lambda>bs. dreturn (of_le bs))"

definition decode_i32 :: "i32 decoder" where
  "decode_i32 = dbind (buffer_read 4) (\<lambda>bs. dreturn (of_le bs))"

definition decode_i64 :: "i64 decoder" where
  "decode_i64 = dbind (buffer_read 8) (\<lambda>bs. dreturn (of_le bs))"

definition decode_u8 :: "u8 decoder" where
  "decode_u8 = dbind (buffer_read 1) (\<lambda>bs. dreturn (of_le bs))"

definition decode_u16 :: "u16 decoder" where
  "decode_u16 = dbind (buffer_read 2) (\<lambda>bs. dreturn (of_le bs))"

definition decode_u32 :: "u32 decoder" where
  "decode_u32 = dbind (buffer_read 4) (\<lambda>bs. dreturn (of_le bs))"

definition decode_u64 :: "u64 decoder" where
  "decode_u64 = dbind (buffer_read 8) (\<lambda>bs. dreturn (of_le bs))"

definition decode_f32 :: "f32 decoder" where
  "decode_f32 = dbind (buffer_read 4) (\<lambda>bs. dreturn (of_le bs))"

definition decode_f64 :: "f64 decoder" where
  "decode_f64 = dbind (buffer_read 8) (\<lambda>bs. dreturn (of_le bs))"

definition decode_string :: "string decoder" where
  "decode_string = dbind decode_u32 (\<lambda>len.
    if unat len > k_max_string_size then dfail (RuntimeError ''String too large'')
    else dbind (buffer_read (unat len)) (\<lambda>bs. dreturn (string_of bs)))"

definition decode_bytes :: "byte list decoder" where
  "decode_bytes = dbind decode_u32 (\<lambda>len.
    if unat len > k_max_bytes_size then dfail (RuntimeError ''Byte array too large'')
    else buffer_read (unat len))"

section \<open>Arrays\<close>

text \<open>
  The element type \<open>T\<close> of \<^verbatim>\<open>encode_array<T>\<close> and \<^verbatim>\<open>decode_array<T>\<close>, over which the
  templates branch at compile time, and the values such an element can have. The compiler
  rejects every other \<open>T\<close> (\<^verbatim>\<open>static_assert\<close>); \<open>encode_elem\<close> has no meaning on a value that
  is not of the type.
\<close>

datatype elem_type =
    TBool | TI8 | TI16 | TI32 | TI64 | TU8 | TU16 | TU32 | TU64 | TF32 | TF64 | TString
  | TVec elem_type

datatype elem =
    VBool bool | V8 "8 word" | V16 "16 word" | V32 "32 word" | V64 "64 word" | VString string
  | VVec "elem list"

primrec has_type :: "elem_type \<Rightarrow> elem \<Rightarrow> bool" where
  "has_type TBool = (\<lambda>v. case v of VBool x \<Rightarrow> True | _ \<Rightarrow> False)"
| "has_type TI8 = (\<lambda>v. case v of V8 x \<Rightarrow> True | _ \<Rightarrow> False)"
| "has_type TI16 = (\<lambda>v. case v of V16 x \<Rightarrow> True | _ \<Rightarrow> False)"
| "has_type TI32 = (\<lambda>v. case v of V32 x \<Rightarrow> True | _ \<Rightarrow> False)"
| "has_type TI64 = (\<lambda>v. case v of V64 x \<Rightarrow> True | _ \<Rightarrow> False)"
| "has_type TU8 = (\<lambda>v. case v of V8 x \<Rightarrow> True | _ \<Rightarrow> False)"
| "has_type TU16 = (\<lambda>v. case v of V16 x \<Rightarrow> True | _ \<Rightarrow> False)"
| "has_type TU32 = (\<lambda>v. case v of V32 x \<Rightarrow> True | _ \<Rightarrow> False)"
| "has_type TU64 = (\<lambda>v. case v of V64 x \<Rightarrow> True | _ \<Rightarrow> False)"
| "has_type TF32 = (\<lambda>v. case v of V32 x \<Rightarrow> True | _ \<Rightarrow> False)"
| "has_type TF64 = (\<lambda>v. case v of V64 x \<Rightarrow> True | _ \<Rightarrow> False)"
| "has_type TString = (\<lambda>v. case v of VString x \<Rightarrow> True | _ \<Rightarrow> False)"
| "has_type (TVec t) = (\<lambda>v. case v of VVec vs \<Rightarrow> list_all (has_type t) vs | _ \<Rightarrow> False)"

text \<open>The loop over the elements, for any element encoder or decoder.\<close>

fun encode_seq :: "('a encoder) \<Rightarrow> 'a list encoder" where
  "encode_seq enc [] b = Inr b"
| "encode_seq enc (v # vs) b = rbind (enc v b) (encode_seq enc vs)"

fun decode_seq :: "'a decoder \<Rightarrow> nat \<Rightarrow> 'a list decoder" where
  "decode_seq dec 0 = dreturn []"
| "decode_seq dec (Suc n) = dbind dec (\<lambda>x. dbind (decode_seq dec n) (\<lambda>xs. dreturn (x # xs)))"

definition encode_counted :: "('a encoder) \<Rightarrow> 'a list encoder" where
  "encode_counted enc vs b =
    (if length vs > k_max_array_count then Inl (RuntimeError ''Array too large'')
     else rbind (encode_u32 (word_of_nat (length vs)) b) (encode_seq enc vs))"

definition decode_counted :: "'a decoder \<Rightarrow> 'a list decoder" where
  "decode_counted dec = dbind decode_u32 (\<lambda>count.
    if unat count > k_max_array_count then dfail (RuntimeError ''Array too large'')
    else decode_seq dec (unat count))"

definition bad_elem :: "buffer \<Rightarrow> buffer res" where
  "bad_elem b = Inl (Undefined ''value is not of the element type'')"

primrec encode_elem :: "elem_type \<Rightarrow> elem encoder" where
  "encode_elem TBool = (\<lambda>v. case v of VBool x \<Rightarrow> encode_bool x | _ \<Rightarrow> bad_elem)"
| "encode_elem TI8 = (\<lambda>v. case v of V8 x \<Rightarrow> encode_i8 x | _ \<Rightarrow> bad_elem)"
| "encode_elem TI16 = (\<lambda>v. case v of V16 x \<Rightarrow> encode_i16 x | _ \<Rightarrow> bad_elem)"
| "encode_elem TI32 = (\<lambda>v. case v of V32 x \<Rightarrow> encode_i32 x | _ \<Rightarrow> bad_elem)"
| "encode_elem TI64 = (\<lambda>v. case v of V64 x \<Rightarrow> encode_i64 x | _ \<Rightarrow> bad_elem)"
| "encode_elem TU8 = (\<lambda>v. case v of V8 x \<Rightarrow> encode_u8 x | _ \<Rightarrow> bad_elem)"
| "encode_elem TU16 = (\<lambda>v. case v of V16 x \<Rightarrow> encode_u16 x | _ \<Rightarrow> bad_elem)"
| "encode_elem TU32 = (\<lambda>v. case v of V32 x \<Rightarrow> encode_u32 x | _ \<Rightarrow> bad_elem)"
| "encode_elem TU64 = (\<lambda>v. case v of V64 x \<Rightarrow> encode_u64 x | _ \<Rightarrow> bad_elem)"
| "encode_elem TF32 = (\<lambda>v. case v of V32 x \<Rightarrow> encode_f32 x | _ \<Rightarrow> bad_elem)"
| "encode_elem TF64 = (\<lambda>v. case v of V64 x \<Rightarrow> encode_f64 x | _ \<Rightarrow> bad_elem)"
| "encode_elem TString = (\<lambda>v. case v of VString x \<Rightarrow> encode_string x | _ \<Rightarrow> bad_elem)"
| "encode_elem (TVec t) = (\<lambda>v. case v of VVec vs \<Rightarrow> encode_counted (encode_elem t) vs | _ \<Rightarrow> bad_elem)"

primrec decode_elem :: "elem_type \<Rightarrow> elem decoder" where
  "decode_elem TBool = dbind decode_bool (\<lambda>v. dreturn (VBool v))"
| "decode_elem TI8 = dbind decode_i8 (\<lambda>v. dreturn (V8 v))"
| "decode_elem TI16 = dbind decode_i16 (\<lambda>v. dreturn (V16 v))"
| "decode_elem TI32 = dbind decode_i32 (\<lambda>v. dreturn (V32 v))"
| "decode_elem TI64 = dbind decode_i64 (\<lambda>v. dreturn (V64 v))"
| "decode_elem TU8 = dbind decode_u8 (\<lambda>v. dreturn (V8 v))"
| "decode_elem TU16 = dbind decode_u16 (\<lambda>v. dreturn (V16 v))"
| "decode_elem TU32 = dbind decode_u32 (\<lambda>v. dreturn (V32 v))"
| "decode_elem TU64 = dbind decode_u64 (\<lambda>v. dreturn (V64 v))"
| "decode_elem TF32 = dbind decode_f32 (\<lambda>v. dreturn (V32 v))"
| "decode_elem TF64 = dbind decode_f64 (\<lambda>v. dreturn (V64 v))"
| "decode_elem TString = dbind decode_string (\<lambda>v. dreturn (VString v))"
| "decode_elem (TVec t) = dbind (decode_counted (decode_elem t)) (\<lambda>vs. dreturn (VVec vs))"

definition encode_array :: "elem_type \<Rightarrow> elem list encoder" where
  "encode_array t = encode_counted (encode_elem t)"

definition decode_array :: "elem_type \<Rightarrow> elem list decoder" where
  "decode_array t = decode_counted (decode_elem t)"

section \<open>Well-formed buffers\<close>

text \<open>What the class keeps true: a positive 64-bit capacity that holds the contents, a read
  position inside them, and 4096 bytes whenever the storage is inline.\<close>

definition buffer_ok :: "buffer \<Rightarrow> bool" where
  "buffer_ok b \<longleftrightarrow> 0 < capacity b \<and> capacity b < 2 ^ 64 \<and> size_of b \<le> capacity b
     \<and> read_pos b \<le> size_of b \<and> (inline b \<longrightarrow> capacity b = k_inline_size)"

definition unread :: "buffer \<Rightarrow> byte list" where
  "unread b = drop (read_pos b) (contents b)"

definition advance :: "nat \<Rightarrow> buffer \<Rightarrow> buffer" where
  "advance n b = b\<lparr>read_pos := read_pos b + n\<rparr>"

text \<open>There is room for \<open>n\<close> more bytes below the limit \<^verbatim>\<open>ensure_capacity\<close> enforces.\<close>

definition room :: "nat \<Rightarrow> buffer \<Rightarrow> bool" where
  "room n b \<longleftrightarrow> buffer_ok b \<and> size_of b + n \<le> k_max_capacity"

text \<open>The buffer after a write that succeeds.\<close>

definition appended :: "byte list \<Rightarrow> buffer \<Rightarrow> buffer" where
  "appended xs b = (if size_of b + length xs \<le> capacity b then b
     else b\<lparr>capacity := the (grow_capacity (capacity b) (size_of b + length xs)), inline := False\<rparr>)
     \<lparr>contents := contents b @ xs\<rparr>"

lemma buffer_ok_new [simp, intro]: "buffer_ok buffer_new"
  by (simp add: buffer_ok_def buffer_new_def k_inline_size_def)

lemma k_max_capacity_eq: "k_max_capacity = 9223372036854775807"
  by (simp add: k_max_capacity_def size_max_def)

lemma grow_capacity_step:
  assumes "0 < c" and "c < required" and "required \<le> k_max_capacity"
  shows "grow_capacity c required = grow_capacity (c * 2) required"
proof -
  have "c * 2 < 2 ^ 64"
    using assms by (simp add: k_max_capacity_eq)
  then show ?thesis
    using assms by (subst grow_capacity.simps) simp
qed

lemma grow_capacity_done: "required \<le> c \<Longrightarrow> grow_capacity c required = Some c"
  by (subst grow_capacity.simps) simp

lemma grow_capacity_returns:
  assumes "0 < c" and "required \<le> k_max_capacity"
  shows "\<exists>c'. grow_capacity c required = Some c' \<and> required \<le> c' \<and> c \<le> c'
    \<and> (c' = c \<or> c' < 2 * required) \<and> (\<exists>k. c' = c * 2 ^ k)"
  using assms
proof (induction "required - c" arbitrary: c rule: less_induct)
  case less
  show ?case
  proof (cases "required \<le> c")
    case True
    then show ?thesis by (auto simp: grow_capacity_done intro: exI [where x = 0])
  next
    case False
    then have "required - c * 2 < required - c" and "0 < c * 2"
      using less.prems by auto
    from less.hyps [OF this less.prems(2)] obtain c'
      where c': "grow_capacity (c * 2) required = Some c'" "required \<le> c'" "c * 2 \<le> c'"
        "c' = c * 2 \<or> c' < 2 * required" "\<exists>k. c' = c * 2 * 2 ^ k"
      by blast
    from c'(5) obtain k where k: "c' = c * 2 * 2 ^ k" by blast
    have "\<exists>k. c' = c * 2 ^ k"
      using k by (intro exI [where x = "Suc k"]) simp
    moreover have "c' = c \<or> c' < 2 * required"
      using c'(4) False by linarith
    moreover have "grow_capacity c required = grow_capacity (c * 2) required"
      using False less.prems by (simp add: grow_capacity_step)
    moreover have "c \<le> c'"
      using c'(3) by linarith
    ultimately show ?thesis
      using c'(1,2) by (intro exI [where x = c']) auto
  qed
qed

lemma grow_capacity_grow:
  assumes "0 < c" and "r \<le> r'" and "r' \<le> k_max_capacity"
  shows "grow_capacity (the (grow_capacity c r)) r' = grow_capacity c r'"
  using assms
proof (induction "r - c" arbitrary: c rule: less_induct)
  case less
  show ?case
  proof (cases "r \<le> c")
    case True
    then show ?thesis by (simp add: grow_capacity_done)
  next
    case False
    then have "r - c * 2 < r - c" and "0 < c * 2"
      using less.prems by auto
    from less.hyps [OF this less.prems(2,3)] False less.prems
    show ?thesis by (simp add: grow_capacity_step)
  qed
qed

lemma contents_appended [simp]: "contents (appended xs b) = contents b @ xs"
  by (simp add: appended_def)

lemma read_pos_appended [simp]: "read_pos (appended xs b) = read_pos b"
  by (simp add: appended_def)

lemma appended_Nil [simp]: "buffer_ok b \<Longrightarrow> appended [] b = b"
  by (simp add: appended_def buffer_ok_def)

lemma unread_appended: "buffer_ok b \<Longrightarrow> unread (appended xs b) = unread b @ xs"
  by (simp add: unread_def buffer_ok_def)

lemma buffer_ok_appended [simp]:
  assumes "room (length xs) b"
  shows "buffer_ok (appended xs b)"
proof -
  have "0 < capacity b" and "size_of b + length xs \<le> k_max_capacity"
    using assms by (simp_all add: room_def buffer_ok_def)
  from grow_capacity_returns [OF this] obtain c'
    where "grow_capacity (capacity b) (size_of b + length xs) = Some c'"
      "size_of b + length xs \<le> c'" "capacity b \<le> c'"
      "c' = capacity b \<or> c' < 2 * (size_of b + length xs)"
    by blast
  with assms show ?thesis
    by (auto simp: room_def buffer_ok_def appended_def k_max_capacity_eq)
qed

lemma room_appended [simp]:
  "room (length xs + n) b \<Longrightarrow> room n (appended xs b)"
  using buffer_ok_appended [of xs b] by (simp add: room_def)

lemma room_mono: "room n b \<Longrightarrow> m \<le> n \<Longrightarrow> room m b"
  by (simp add: room_def)

lemma room_ok [dest]: "room n b \<Longrightarrow> buffer_ok b"
  by (simp add: room_def)

lemma room_new: "n \<le> k_max_capacity \<Longrightarrow> room n buffer_new"
  by (simp add: room_def) (simp add: buffer_new_def)

lemma appended_appended:
  assumes "room (length xs + length ys) b"
  shows "appended ys (appended xs b) = appended (xs @ ys) b"
proof -
  have pos: "0 < capacity b" and max: "size_of b + (length xs + length ys) \<le> k_max_capacity"
    using assms by (simp_all add: room_def buffer_ok_def)
  have "grow_capacity (the (grow_capacity (capacity b) (size_of b + length xs)))
      (size_of b + (length xs + length ys)) = grow_capacity (capacity b) (size_of b + (length xs + length ys))"
    by (rule grow_capacity_grow [OF pos _ max]) simp
  moreover obtain c1 where "grow_capacity (capacity b) (size_of b + length xs) = Some c1"
      "size_of b + length xs \<le> c1"
    using grow_capacity_returns [OF pos, of "size_of b + length xs"] max by auto
  moreover have "size_of b + (length xs + length ys) \<le> c1 \<Longrightarrow>
      grow_capacity (capacity b) (size_of b + (length xs + length ys)) = Some c1"
    using calculation by (simp add: grow_capacity_done)
  ultimately show ?thesis
    by (auto simp: appended_def add.assoc)
qed

lemma buffer_write_appended:
  assumes "room (length xs) b"
  shows "buffer_write xs b = Inr (appended xs b)"
proof -
  have pos: "0 < capacity b" and max: "size_of b + length xs \<le> k_max_capacity"
    using assms by (simp_all add: room_def buffer_ok_def)
  then obtain c' where "grow_capacity (capacity b) (size_of b + length xs) = Some c'"
    using grow_capacity_returns by blast
  with max show ?thesis
    by (auto simp: buffer_write_def ensure_capacity_def appended_def k_max_capacity_eq size_max_def)
qed

text \<open>A write on a well-formed buffer either appends or throws, and always returns.\<close>

lemma buffer_write_cases:
  assumes "buffer_ok b" and "length xs \<le> size_max"
  shows "if size_of b + length xs \<le> max (capacity b) k_max_capacity
    then buffer_write xs b = Inr (appended xs b)
    else \<exists>m. buffer_write xs b = Inl (RuntimeError m)"
proof (cases "size_of b + length xs \<le> k_max_capacity")
  case True
  with assms show ?thesis
    by (simp add: buffer_write_appended room_def max_def)
next
  case False
  with assms show ?thesis
    by (auto simp: buffer_write_def ensure_capacity_def appended_def k_max_capacity_eq size_max_def
        buffer_ok_def max_def)
qed

lemma contents_advance [simp]: "contents (advance n b) = contents b"
  by (simp add: advance_def)

lemma read_pos_advance [simp]: "read_pos (advance n b) = read_pos b + n"
  by (simp add: advance_def)

lemma advance_advance [simp]: "advance n (advance m b) = advance (m + n) b"
  by (simp add: advance_def add.assoc)

lemma advance_0 [simp]: "advance 0 b = b"
  by (simp add: advance_def)

lemma unread_advance [simp]: "unread (advance n b) = drop n (unread b)"
  by (simp add: unread_def add.commute)

lemma buffer_ok_advance [simp]: "buffer_ok b \<Longrightarrow> n \<le> length (unread b) \<Longrightarrow> buffer_ok (advance n b)"
  by (auto simp: buffer_ok_def unread_def advance_def)

lemma buffer_read_unread:
  "buffer_ok b \<Longrightarrow> buffer_read n b =
    (if n \<le> length (unread b) then Inr (take n (unread b), advance n b)
     else Inl (RuntimeError ''Buffer underflow: attempted to read beyond buffer size''))"
  by (auto simp: buffer_read_def unread_def advance_def buffer_ok_def)

lemma buffer_ok_reset_read [simp]: "buffer_ok b \<Longrightarrow> buffer_ok (reset_read b)"
  by (simp add: buffer_ok_def reset_read_def)

lemma buffer_ok_reset [simp]: "buffer_ok b \<Longrightarrow> buffer_ok (buffer_reset b)"
  by (simp add: buffer_ok_def buffer_reset_def)

lemma unread_reset_read [simp]: "unread (reset_read b) = contents b"
  by (simp add: unread_def reset_read_def)

lemma contents_reset_read [simp]: "contents (reset_read b) = contents b"
  by (simp add: reset_read_def)

lemma contents_new [simp]: "contents buffer_new = []"
  by (simp add: buffer_new_def)

lemma contents_reset [simp]: "contents (buffer_reset b) = []"
  by (simp add: buffer_reset_def)

lemma unread_new [simp]: "unread buffer_new = []"
  by (simp add: buffer_new_def unread_def)

lemma dbind_simps:
  "dbind d k b = (case d b of Inl e \<Rightarrow> Inl e | Inr (x, b') \<Rightarrow> k x b')"
  "dreturn x b = Inr (x, b)"
  "dfail e b = Inl e"
  by (simp_all add: dbind_def dreturn_def dfail_def)

section \<open>Laws of encoders and decoders\<close>

text \<open>
  What an encoder and its decoder promise: on an admissible value the encoder appends the
  value's representation, and the decoder, where that representation comes next, returns the
  value and moves the read position past it.
\<close>

locale codec =
  fixes enc :: "'a \<Rightarrow> buffer \<Rightarrow> buffer res"
    and dec :: "buffer \<Rightarrow> ('a \<times> buffer) res"
    and repr :: "'a \<Rightarrow> byte list"
    and ok :: "'a \<Rightarrow> bool"
  assumes enc_appends: "ok x \<Longrightarrow> room (length (repr x)) b \<Longrightarrow> enc x b = Inr (appended (repr x) b)"
    and dec_consumes: "ok x \<Longrightarrow> buffer_ok b \<Longrightarrow> unread b = repr x @ rest \<Longrightarrow>
      dec b = Inr (x, advance (length (repr x)) b)"
begin

lemma round_trip:
  assumes "ok x" and "room (length (repr x)) b" and "unread b = []"
  shows "\<exists>b'. enc x b = Inr b' \<and> dec b' = Inr (x, advance (length (repr x)) b')
    \<and> contents b' = contents b @ repr x \<and> unread (advance (length (repr x)) b') = []"
  using assms enc_appends [of x b] dec_consumes [of x "appended (repr x) b" "[]"]
  by (auto simp: unread_appended room_def)

lemma uniquely_decodable:
  assumes "ok x" and "ok y" and "repr x @ r = repr y @ s" and "length (repr x @ r) \<le> k_max_capacity"
  shows "x = y \<and> r = s"
proof -
  let ?b = "appended (repr x @ r) buffer_new"
  have b: "buffer_ok ?b" and u: "unread ?b = repr x @ r"
    using assms(4) by (simp_all add: room_new unread_appended)
  have "dec ?b = Inr (x, advance (length (repr x)) ?b)" "dec ?b = Inr (y, advance (length (repr y)) ?b)"
    using dec_consumes [OF assms(1) b u] dec_consumes [OF assms(2) b] u assms(3) by auto
  then show ?thesis using assms(3) by auto
qed

lemma encode_seq_appends:
  "list_all ok xs \<Longrightarrow> room (length (concat (map repr xs))) b \<Longrightarrow>
    encode_seq enc xs b = Inr (appended (concat (map repr xs)) b)"
proof (induction xs arbitrary: b)
  case Nil
  then show ?case by (simp add: room_def)
next
  case (Cons x xs)
  from Cons.prems(2) have r: "room (length (repr x) + length (concat (map repr xs))) b" by simp
  then have "encode_seq enc xs (appended (repr x) b)
      = Inr (appended (concat (map repr xs)) (appended (repr x) b))"
    using Cons.prems(1) by (intro Cons.IH) simp_all
  with r Cons.prems(1) enc_appends [of x b] show ?case
    by (simp add: room_mono appended_appended)
qed

lemma decode_seq_consumes:
  "list_all ok xs \<Longrightarrow> buffer_ok b \<Longrightarrow> unread b = concat (map repr xs) @ rest \<Longrightarrow>
    decode_seq dec (length xs) b = Inr (xs, advance (length (concat (map repr xs))) b)"
proof (induction xs arbitrary: b)
  case Nil
  then show ?case by (simp add: dreturn_def)
next
  case (Cons x xs)
  let ?b = "advance (length (repr x)) b"
  have "dec b = Inr (x, ?b)"
    using Cons.prems by (intro dec_consumes) auto
  moreover have "decode_seq dec (length xs) ?b = Inr (xs, advance (length (concat (map repr xs))) ?b)"
    using Cons.prems by (intro Cons.IH) auto
  ultimately show ?case by (simp add: dbind_simps)
qed

end

text \<open>A decoder of a fixed number of bytes, all of which are somebody's representation: it
  fails exactly when fewer bytes are left, and re-encoding what it read gives them back.\<close>

locale fixed_codec = codec enc dec repr ok
  for enc :: "'a \<Rightarrow> buffer \<Rightarrow> buffer res" and dec repr ok +
  fixes width :: nat
  assumes width: "length (repr x) = width"
    and all_ok: "ok x"
    and dec_enough: "buffer_ok b \<Longrightarrow> width \<le> length (unread b) \<Longrightarrow>
      \<exists>x. dec b = Inr (x, advance width b) \<and> repr x = take width (unread b)"
    and dec_short: "buffer_ok b \<Longrightarrow> length (unread b) < width \<Longrightarrow>
      dec b = Inl (RuntimeError ''Buffer underflow: attempted to read beyond buffer size'')"
begin

lemma dec_succeeds_iff:
  "buffer_ok b \<Longrightarrow> (\<exists>x b'. dec b = Inr (x, b')) \<longleftrightarrow> width \<le> length (unread b)"
  using dec_enough [of b] dec_short [of b] by (cases "width \<le> length (unread b)") auto

lemma dec_Inr:
  assumes "buffer_ok b" and "dec b = Inr (x, b')"
  shows "b' = advance width b \<and> unread b = repr x @ unread b' \<and> buffer_ok b'"
proof -
  have "width \<le> length (unread b)"
    using assms dec_succeeds_iff by blast
  with assms dec_enough [of b] show ?thesis
    by auto
qed

lemma dec_Inl: "buffer_ok b \<Longrightarrow> dec b = Inl e \<Longrightarrow> length (unread b) < width \<and> std_exception e"
  using dec_enough [of b] dec_short [of b] by (cases "width \<le> length (unread b)") auto

end

subsection \<open>Running encoders and decoders\<close>

lemma write_run [codec_simps]:
  "buffer_ok b \<Longrightarrow> size_of b + length xs \<le> k_max_capacity \<Longrightarrow> buffer_write xs b = Inr (appended xs b)"
  by (simp add: buffer_write_appended room_def)

lemma appended_run [codec_simps]:
  "buffer_ok b \<Longrightarrow> size_of b + length xs \<le> k_max_capacity \<Longrightarrow> buffer_ok (appended xs b)"
  "buffer_ok b \<Longrightarrow> size_of b + length xs + length ys \<le> k_max_capacity \<Longrightarrow>
    appended ys (appended xs b) = appended (xs @ ys) b"
  by (simp_all add: appended_appended room_def add.assoc)

lemmas encode_defs = encode_bool_def encode_i8_def encode_i16_def encode_i32_def encode_i64_def
  encode_u8_def encode_u16_def encode_u32_def encode_u64_def encode_f32_def encode_f64_def

lemmas decode_defs = decode_bool_def decode_i8_def decode_i16_def decode_i32_def decode_i64_def
  decode_u8_def decode_u16_def decode_u32_def decode_u64_def decode_f32_def decode_f64_def

lemma decode_run [codec_simps]:
  assumes "buffer_ok b" and "unread b = xs @ rest"
  shows "length xs = 1 \<Longrightarrow> decode_u8 b = Inr (of_le xs, advance 1 b)"
    "length xs = 2 \<Longrightarrow> decode_u16 b = Inr (of_le xs, advance 2 b)"
    "length xs = 4 \<Longrightarrow> decode_u32 b = Inr (of_le xs, advance 4 b)"
    "length xs = 4 \<Longrightarrow> decode_i32 b = Inr (of_le xs, advance 4 b)"
  using assms by (simp_all add: decode_defs dbind_simps buffer_read_unread)

lemma of_le_singleton: "(of_le [x] :: u8) = x"
  by (simp add: le_compute)

interpretation u8: fixed_codec encode_u8 decode_u8 "le_bytes 1" "\<lambda>_. True" 1
  by unfold_locales
    (auto simp: encode_defs decode_defs dbind_simps buffer_read_unread buffer_write_appended le_bytes_of_le)

interpretation u16: fixed_codec encode_u16 decode_u16 "le_bytes 2" "\<lambda>_. True" 2
  by unfold_locales
    (auto simp: encode_defs decode_defs dbind_simps buffer_read_unread buffer_write_appended le_bytes_of_le)

interpretation u32: fixed_codec encode_u32 decode_u32 "le_bytes 4" "\<lambda>_. True" 4
  by unfold_locales
    (auto simp: encode_defs decode_defs dbind_simps buffer_read_unread buffer_write_appended le_bytes_of_le)

interpretation u64: fixed_codec encode_u64 decode_u64 "le_bytes 8" "\<lambda>_. True" 8
  by unfold_locales
    (auto simp: encode_defs decode_defs dbind_simps buffer_read_unread buffer_write_appended le_bytes_of_le)

interpretation i8: fixed_codec encode_i8 decode_i8 "le_bytes 1" "\<lambda>_. True" 1
  by unfold_locales
    (auto simp: encode_defs decode_defs dbind_simps buffer_read_unread buffer_write_appended le_bytes_of_le)

interpretation i16: fixed_codec encode_i16 decode_i16 "le_bytes 2" "\<lambda>_. True" 2
  by unfold_locales
    (auto simp: encode_defs decode_defs dbind_simps buffer_read_unread buffer_write_appended le_bytes_of_le)

interpretation i32: fixed_codec encode_i32 decode_i32 "le_bytes 4" "\<lambda>_. True" 4
  by unfold_locales
    (auto simp: encode_defs decode_defs dbind_simps buffer_read_unread buffer_write_appended le_bytes_of_le)

interpretation i64: fixed_codec encode_i64 decode_i64 "le_bytes 8" "\<lambda>_. True" 8
  by unfold_locales
    (auto simp: encode_defs decode_defs dbind_simps buffer_read_unread buffer_write_appended le_bytes_of_le)

interpretation f32: fixed_codec encode_f32 decode_f32 "le_bytes 4" "\<lambda>_. True" 4
  by unfold_locales
    (auto simp: encode_defs decode_defs dbind_simps buffer_read_unread buffer_write_appended le_bytes_of_le)

interpretation f64: fixed_codec encode_f64 decode_f64 "le_bytes 8" "\<lambda>_. True" 8
  by unfold_locales
    (auto simp: encode_defs decode_defs dbind_simps buffer_read_unread buffer_write_appended le_bytes_of_le)

interpretation boolean: codec encode_bool decode_bool "\<lambda>v. [if v then 1 else 0]" "\<lambda>_. True"
  by unfold_locales
    (auto simp: encode_defs decode_defs dbind_simps buffer_read_unread buffer_write_appended of_le_singleton)

subsection \<open>Strings, byte arrays, arrays\<close>

definition length_prefix :: "nat \<Rightarrow> byte list" where
  "length_prefix n = le_bytes 4 (word_of_nat n :: u32)"

definition string_repr :: "string \<Rightarrow> byte list" where
  "string_repr s = length_prefix (length s) @ bytes_of s"

definition string_ok :: "string \<Rightarrow> bool" where
  "string_ok s \<longleftrightarrow> length s \<le> k_max_string_size"

definition byte_array_repr :: "byte list \<Rightarrow> byte list" where
  "byte_array_repr bs = length_prefix (length bs) @ bs"

definition byte_array_ok :: "byte list \<Rightarrow> bool" where
  "byte_array_ok bs \<longleftrightarrow> length bs \<le> k_max_bytes_size"

definition counted_repr :: "('a \<Rightarrow> byte list) \<Rightarrow> 'a list \<Rightarrow> byte list" where
  "counted_repr repr xs = length_prefix (length xs) @ concat (map repr xs)"

definition counted_ok :: "('a \<Rightarrow> bool) \<Rightarrow> 'a list \<Rightarrow> bool" where
  "counted_ok ok xs \<longleftrightarrow> list_all ok xs \<and> length xs \<le> k_max_array_count"

lemmas size_limits = k_max_string_size_def k_max_bytes_size_def k_max_array_count_def

lemma length_length_prefix [simp]: "length (length_prefix n) = 4"
  by (simp add: length_prefix_def)

lemma of_le_length_prefix [simp]: "(of_le (length_prefix n) :: u32) = word_of_nat n"
  by (simp add: length_prefix_def)

lemma unat_length32: "n \<le> 1048576 \<Longrightarrow> unat (word_of_nat n :: u32) = n"
  by (simp add: unat_of_nat)

lemma encode_length_run [codec_simps]:
  "buffer_ok b \<Longrightarrow> size_of b + 4 \<le> k_max_capacity \<Longrightarrow>
    encode_u32 (word_of_nat n) b = Inr (appended (length_prefix n) b)"
  by (simp add: encode_defs length_prefix_def codec_simps)

lemma decode_length_run [codec_simps]:
  "buffer_ok b \<Longrightarrow> unread b = length_prefix n @ rest \<Longrightarrow>
    decode_u32 b = Inr (word_of_nat n, advance 4 b)"
  using decode_run(3) [of b "length_prefix n" rest] by simp

interpretation str: codec encode_string decode_string string_repr string_ok
  by unfold_locales
    (auto simp: encode_string_def decode_string_def string_repr_def string_ok_def size_limits room_def
      dbind_simps codec_simps buffer_read_unread unat_length32)

interpretation byte_array: codec encode_bytes decode_bytes byte_array_repr byte_array_ok
  by unfold_locales
    (auto simp: encode_bytes_def decode_bytes_def byte_array_repr_def byte_array_ok_def size_limits room_def
      dbind_simps codec_simps buffer_read_unread unat_length32)

lemma codec_counted:
  assumes "codec enc dec repr ok"
  shows "codec (encode_counted enc) (decode_counted dec) (counted_repr repr) (counted_ok ok)"
proof
  fix xs b
  assume ok: "counted_ok ok xs" and room: "room (length (counted_repr repr xs)) b"
  let ?b = "appended (length_prefix (length xs)) b"
  have "encode_seq enc xs ?b = Inr (appended (concat (map repr xs)) ?b)"
    using ok room by (intro codec.encode_seq_appends [OF assms]) (auto simp: counted_ok_def counted_repr_def)
  then show "encode_counted enc xs b = Inr (appended (counted_repr repr xs) b)"
    using ok room by (auto simp: encode_counted_def counted_ok_def counted_repr_def room_def codec_simps)
next
  fix xs b rest
  assume ok: "counted_ok ok xs" and b: "buffer_ok b" and u: "unread b = counted_repr repr xs @ rest"
  have "decode_seq dec (length xs) (advance 4 b)
      = Inr (xs, advance (length (concat (map repr xs))) (advance 4 b))"
    using ok b u by (intro codec.decode_seq_consumes [OF assms]) (auto simp: counted_ok_def counted_repr_def)
  then show "decode_counted dec b = Inr (xs, advance (length (counted_repr repr xs)) b)"
    using ok b u
    by (simp add: decode_counted_def counted_ok_def counted_repr_def size_limits dbind_simps codec_simps
        unat_length32 add.commute)
qed

text \<open>The bytes of an element of a type, and the values the library can carry: of the type,
  with every string and every (nested) array within its limit.\<close>

primrec elem_repr :: "elem_type \<Rightarrow> elem \<Rightarrow> byte list" where
  "elem_repr TBool = (\<lambda>v. case v of VBool x \<Rightarrow> [if x then 1 else 0] | _ \<Rightarrow> [])"
| "elem_repr TI8 = (\<lambda>v. case v of V8 x \<Rightarrow> le_bytes 1 x | _ \<Rightarrow> [])"
| "elem_repr TI16 = (\<lambda>v. case v of V16 x \<Rightarrow> le_bytes 2 x | _ \<Rightarrow> [])"
| "elem_repr TI32 = (\<lambda>v. case v of V32 x \<Rightarrow> le_bytes 4 x | _ \<Rightarrow> [])"
| "elem_repr TI64 = (\<lambda>v. case v of V64 x \<Rightarrow> le_bytes 8 x | _ \<Rightarrow> [])"
| "elem_repr TU8 = (\<lambda>v. case v of V8 x \<Rightarrow> le_bytes 1 x | _ \<Rightarrow> [])"
| "elem_repr TU16 = (\<lambda>v. case v of V16 x \<Rightarrow> le_bytes 2 x | _ \<Rightarrow> [])"
| "elem_repr TU32 = (\<lambda>v. case v of V32 x \<Rightarrow> le_bytes 4 x | _ \<Rightarrow> [])"
| "elem_repr TU64 = (\<lambda>v. case v of V64 x \<Rightarrow> le_bytes 8 x | _ \<Rightarrow> [])"
| "elem_repr TF32 = (\<lambda>v. case v of V32 x \<Rightarrow> le_bytes 4 x | _ \<Rightarrow> [])"
| "elem_repr TF64 = (\<lambda>v. case v of V64 x \<Rightarrow> le_bytes 8 x | _ \<Rightarrow> [])"
| "elem_repr TString = (\<lambda>v. case v of VString x \<Rightarrow> string_repr x | _ \<Rightarrow> [])"
| "elem_repr (TVec t) = (\<lambda>v. case v of VVec vs \<Rightarrow> counted_repr (elem_repr t) vs | _ \<Rightarrow> [])"

primrec elem_ok :: "elem_type \<Rightarrow> elem \<Rightarrow> bool" where
  "elem_ok TBool = has_type TBool"
| "elem_ok TI8 = has_type TI8"
| "elem_ok TI16 = has_type TI16"
| "elem_ok TI32 = has_type TI32"
| "elem_ok TI64 = has_type TI64"
| "elem_ok TU8 = has_type TU8"
| "elem_ok TU16 = has_type TU16"
| "elem_ok TU32 = has_type TU32"
| "elem_ok TU64 = has_type TU64"
| "elem_ok TF32 = has_type TF32"
| "elem_ok TF64 = has_type TF64"
| "elem_ok TString = (\<lambda>v. case v of VString x \<Rightarrow> string_ok x | _ \<Rightarrow> False)"
| "elem_ok (TVec t) = (\<lambda>v. case v of VVec vs \<Rightarrow> counted_ok (elem_ok t) vs | _ \<Rightarrow> False)"

lemmas word_enc_appends = boolean.enc_appends u8.enc_appends u16.enc_appends u32.enc_appends
  u64.enc_appends i8.enc_appends i16.enc_appends i32.enc_appends i64.enc_appends f32.enc_appends
  f64.enc_appends

lemmas word_dec_consumes = boolean.dec_consumes u8.dec_consumes u16.dec_consumes u32.dec_consumes
  u64.dec_consumes i8.dec_consumes i16.dec_consumes i32.dec_consumes i64.dec_consumes
  f32.dec_consumes f64.dec_consumes

lemma codec_elem: "codec (encode_elem t) (decode_elem t) (elem_repr t) (elem_ok t)"
proof (induction t)
  case TString
  show ?case
    by unfold_locales (auto split: elem.splits simp: dbind_simps str.enc_appends str.dec_consumes)
next
  case (TVec t)
  note c = codec_counted [OF TVec.IH]
  show ?case
    by unfold_locales
      (auto split: elem.splits simp: dbind_simps codec.enc_appends [OF c] codec.dec_consumes [OF c])
qed (unfold_locales, auto split: elem.splits simp: dbind_simps word_enc_appends word_dec_consumes)+

interpretation array: codec "encode_array t" "decode_array t" "counted_repr (elem_repr t)"
    "counted_ok (elem_ok t)" for t
  unfolding encode_array_def decode_array_def by (rule codec_counted [OF codec_elem])

subsection \<open>Composing fixed-width codecs\<close>

lemma rbind_assoc: "rbind (rbind m f) g = rbind m (\<lambda>x. rbind (f x) g)"
  by (cases m) simp_all

lemma dbind_assoc: "dbind (dbind d f) k = dbind d (\<lambda>x. dbind (f x) k)"
  by (auto simp: dbind_def fun_eq_iff split: sum.splits)

lemma dbind_dreturn: "dbind (dreturn x) k = k x"
  by (simp add: dbind_def dreturn_def fun_eq_iff)

definition encode_pair :: "'a encoder \<Rightarrow> 'b encoder \<Rightarrow> ('a \<times> 'b) encoder" where
  "encode_pair e1 e2 p b = rbind (e1 (fst p) b) (e2 (snd p))"

definition decode_pair :: "'a decoder \<Rightarrow> 'b decoder \<Rightarrow> ('a \<times> 'b) decoder" where
  "decode_pair d1 d2 = dbind d1 (\<lambda>x. dbind d2 (\<lambda>y. dreturn (x, y)))"

definition pair_repr :: "('a \<Rightarrow> byte list) \<Rightarrow> ('b \<Rightarrow> byte list) \<Rightarrow> 'a \<times> 'b \<Rightarrow> byte list" where
  "pair_repr r1 r2 p = r1 (fst p) @ r2 (snd p)"

lemma codec_pair:
  assumes c1: "codec e1 d1 r1 ok1" and c2: "codec e2 d2 r2 ok2"
  shows "codec (encode_pair e1 e2) (decode_pair d1 d2) (pair_repr r1 r2) (\<lambda>p. ok1 (fst p) \<and> ok2 (snd p))"
proof
  fix p b
  assume ok: "ok1 (fst p) \<and> ok2 (snd p)" and room: "room (length (pair_repr r1 r2 p)) b"
  then have "e1 (fst p) b = Inr (appended (r1 (fst p)) b)"
    by (intro codec.enc_appends [OF c1]) (auto simp: pair_repr_def intro: room_mono)
  moreover have "e2 (snd p) (appended (r1 (fst p)) b)
      = Inr (appended (r2 (snd p)) (appended (r1 (fst p)) b))"
    using ok room by (intro codec.enc_appends [OF c2]) (auto simp: pair_repr_def)
  ultimately show "encode_pair e1 e2 p b = Inr (appended (pair_repr r1 r2 p) b)"
    using room by (simp add: encode_pair_def pair_repr_def appended_appended)
next
  fix p b rest
  assume ok: "ok1 (fst p) \<and> ok2 (snd p)" and b: "buffer_ok b" and u: "unread b = pair_repr r1 r2 p @ rest"
  let ?b = "advance (length (r1 (fst p))) b"
  have "d1 b = Inr (fst p, ?b)"
    using ok b u by (intro codec.dec_consumes [OF c1]) (auto simp: pair_repr_def)
  moreover have "d2 ?b = Inr (snd p, advance (length (r2 (snd p))) ?b)"
    using ok b u by (intro codec.dec_consumes [OF c2, where rest = rest]) (auto simp: pair_repr_def)
  ultimately show "decode_pair d1 d2 b = Inr (p, advance (length (pair_repr r1 r2 p)) b)"
    by (simp add: decode_pair_def dbind_simps pair_repr_def)
qed

lemma fixed_codec_pair:
  assumes f1: "fixed_codec e1 d1 r1 ok1 n1" and f2: "fixed_codec e2 d2 r2 ok2 n2"
  shows "fixed_codec (encode_pair e1 e2) (decode_pair d1 d2) (pair_repr r1 r2)
    (\<lambda>p. ok1 (fst p) \<and> ok2 (snd p)) (n1 + n2)"
proof (intro fixed_codec.intro fixed_codec_axioms.intro)
  show "codec (encode_pair e1 e2) (decode_pair d1 d2) (pair_repr r1 r2) (\<lambda>p. ok1 (fst p) \<and> ok2 (snd p))"
    by (intro codec_pair fixed_codec.axioms(1) [OF f1] fixed_codec.axioms(1) [OF f2])
next
  fix p show "length (pair_repr r1 r2 p) = n1 + n2"
    by (simp add: pair_repr_def fixed_codec.width [OF f1] fixed_codec.width [OF f2])
next
  fix p show "ok1 (fst p) \<and> ok2 (snd p)"
    by (simp add: fixed_codec.all_ok [OF f1] fixed_codec.all_ok [OF f2])
next
  fix b assume b: "buffer_ok b" and len: "n1 + n2 \<le> length (unread b)"
  then obtain x where x: "d1 b = Inr (x, advance n1 b)" "r1 x = take n1 (unread b)"
    using fixed_codec.dec_enough [OF f1, of b] by auto
  have "buffer_ok (advance n1 b)" and "n2 \<le> length (unread (advance n1 b))"
    using b len by auto
  from fixed_codec.dec_enough [OF f2 this] obtain y
    where "d2 (advance n1 b) = Inr (y, advance n2 (advance n1 b))"
      "r2 y = take n2 (unread (advance n1 b))"
    by blast
  with x show "\<exists>p. decode_pair d1 d2 b = Inr (p, advance (n1 + n2) b)
      \<and> pair_repr r1 r2 p = take (n1 + n2) (unread b)"
    by (auto simp: decode_pair_def dbind_simps pair_repr_def take_add intro!: exI [where x = "(x, y)"])
next
  fix b assume b: "buffer_ok b" and len: "length (unread b) < n1 + n2"
  show "decode_pair d1 d2 b = Inl (RuntimeError ''Buffer underflow: attempted to read beyond buffer size'')"
  proof (cases "length (unread b) < n1")
    case True
    then show ?thesis
      by (simp add: decode_pair_def dbind_simps fixed_codec.dec_short [OF f1 b])
  next
    case False
    then obtain x where "d1 b = Inr (x, advance n1 b)"
      using fixed_codec.dec_enough [OF f1 b] by auto
    with False len b show ?thesis
      by (simp add: decode_pair_def dbind_simps fixed_codec.dec_short [OF f2])
  qed
qed

text \<open>A record is the tuple of its fields, up to a bijection.\<close>

lemma fixed_codec_iso:
  assumes f: "fixed_codec enc dec repr ok n" and gf: "\<And>x. g (f x) = x" and fg: "\<And>y. f (g y) = y"
  shows "fixed_codec (\<lambda>x. enc (f x)) (dbind dec (\<lambda>y. dreturn (g y))) (\<lambda>x. repr (f x)) (\<lambda>_. True) n"
proof (intro fixed_codec.intro fixed_codec_axioms.intro codec.intro)
  fix x b assume "room (length (repr (f x))) b"
  then show "enc (f x) b = Inr (appended (repr (f x)) b)"
    by (intro codec.enc_appends [OF fixed_codec.axioms(1) [OF f]]) (simp add: fixed_codec.all_ok [OF f])
next
  fix x b rest assume "buffer_ok b" and "unread b = repr (f x) @ rest"
  then have "dec b = Inr (f x, advance (length (repr (f x))) b)"
    by (intro codec.dec_consumes [OF fixed_codec.axioms(1) [OF f]]) (simp add: fixed_codec.all_ok [OF f])
  then show "dbind dec (\<lambda>y. dreturn (g y)) b = Inr (x, advance (length (repr (f x))) b)"
    by (simp add: dbind_simps gf)
next
  fix x show "length (repr (f x)) = n" by (rule fixed_codec.width [OF f])
next
  fix b assume "buffer_ok b" and "n \<le> length (unread b)"
  then obtain y where "dec b = Inr (y, advance n b)" "repr y = take n (unread b)"
    using fixed_codec.dec_enough [OF f, of b] by auto
  then show "\<exists>x. dbind dec (\<lambda>y. dreturn (g y)) b = Inr (x, advance n b) \<and> repr (f x) = take n (unread b)"
    by (auto simp: dbind_simps fg intro!: exI [where x = "g y"])
next
  fix b assume "buffer_ok b" and "length (unread b) < n"
  then show "dbind dec (\<lambda>y. dreturn (g y)) b
      = Inl (RuntimeError ''Buffer underflow: attempted to read beyond buffer size'')"
    by (simp add: dbind_simps fixed_codec.dec_short [OF f])
qed simp

lemma fixed_codec_eqI:
  "fixed_codec enc dec repr ok n \<Longrightarrow> enc' = enc \<Longrightarrow> dec' = dec \<Longrightarrow> repr' = repr \<Longrightarrow>
    ok' = ok \<Longrightarrow> n' = n \<Longrightarrow> fixed_codec enc' dec' repr' ok' n'"
  by simp

lemma encode_pair_eq: "encode_pair e1 e2 p = (\<lambda>b. rbind (e1 (fst p) b) (e2 (snd p)))"
  by (simp add: encode_pair_def fun_eq_iff)

lemmas chain_simps = encode_pair_eq decode_pair_def pair_repr_def rbind_assoc dbind_assoc dbind_dreturn
  fun_eq_iff

section \<open>Decoders on arbitrary bytes\<close>

text \<open>A decoder is safe when on any well-formed buffer it either throws a standard exception or
  moves the read position forward inside the contents and returns a value of the wanted kind.\<close>

definition safe_decoder :: "'a decoder \<Rightarrow> ('a \<Rightarrow> bool) \<Rightarrow> bool" where
  "safe_decoder dec P \<longleftrightarrow> (\<forall>b. buffer_ok b \<longrightarrow>
     (case dec b of Inl e \<Rightarrow> std_exception e
      | Inr (v, b') \<Rightarrow> P v \<and> (\<exists>n. n \<le> length (unread b) \<and> b' = advance n b)))"

lemma safe_decoderD:
  assumes "safe_decoder dec P" and "buffer_ok b"
  shows "dec b = Inl e \<Longrightarrow> std_exception e"
    and "dec b = Inr (v, b') \<Longrightarrow> P v \<and> buffer_ok b' \<and> (\<exists>n. n \<le> length (unread b) \<and> b' = advance n b)"
  using assms by (auto simp: safe_decoder_def dest!: spec [of _ b])

lemma safe_dreturn: "P v \<Longrightarrow> safe_decoder (dreturn v) P"
  by (auto simp: safe_decoder_def dreturn_def intro!: exI [of _ 0])

lemma safe_dfail: "std_exception e \<Longrightarrow> safe_decoder (dfail e) P"
  by (simp add: safe_decoder_def dfail_def)

lemma safe_dbind:
  assumes "safe_decoder d P" and "\<And>v. P v \<Longrightarrow> safe_decoder (k v) Q"
  shows "safe_decoder (dbind d k) Q"
  unfolding safe_decoder_def
proof (intro allI impI)
  fix b assume b: "buffer_ok b"
  show "case dbind d k b of Inl e \<Rightarrow> std_exception e
      | Inr (v, b') \<Rightarrow> Q v \<and> (\<exists>n. n \<le> length (unread b) \<and> b' = advance n b)"
  proof (cases "d b")
    case (Inl e)
    then show ?thesis using safe_decoderD(1) [OF assms(1) b] by (simp add: dbind_def)
  next
    case (Inr p)
    obtain v b1 where p: "p = (v, b1)" by fastforce
    obtain n where n: "P v" "buffer_ok b1" "n \<le> length (unread b)" "b1 = advance n b"
      using safe_decoderD(2) [OF assms(1) b] Inr p by blast
    show ?thesis
    proof (cases "k v b1")
      case (Inl e)
      then show ?thesis
        using safe_decoderD(1) [OF assms(2) [OF n(1)] n(2)] Inr p by (simp add: dbind_def)
    next
      case (Inr q)
      obtain x b2 where q: "q = (x, b2)" by fastforce
      obtain m where m: "Q x" "m \<le> length (unread b1)" "b2 = advance m b1"
        using safe_decoderD(2) [OF assms(2) [OF n(1)] n(2)] Inr q by blast
      then show ?thesis
        using Inr q \<open>d b = Inr p\<close> p n by (auto simp: dbind_def intro!: exI [of _ "n + m"])
    qed
  qed
qed

lemma safe_mono: "safe_decoder d P \<Longrightarrow> (\<And>v. P v \<Longrightarrow> Q v) \<Longrightarrow> safe_decoder d Q"
  by (fastforce simp: safe_decoder_def split: sum.splits)

lemma safe_read: "safe_decoder (buffer_read n) (\<lambda>bs. length bs = n)"
  by (auto simp: safe_decoder_def buffer_read_unread)

lemma safe_words:
  "safe_decoder decode_bool (\<lambda>_. True)" "safe_decoder decode_i8 (\<lambda>_. True)" "safe_decoder decode_i16 (\<lambda>_. True)"
  "safe_decoder decode_i32 (\<lambda>_. True)" "safe_decoder decode_i64 (\<lambda>_. True)" "safe_decoder decode_u8 (\<lambda>_. True)"
  "safe_decoder decode_u16 (\<lambda>_. True)" "safe_decoder decode_u32 (\<lambda>_. True)" "safe_decoder decode_u64 (\<lambda>_. True)"
  "safe_decoder decode_f32 (\<lambda>_. True)" "safe_decoder decode_f64 (\<lambda>_. True)"
  unfolding decode_defs by (rule safe_dbind [OF safe_read]; simp add: safe_dreturn)+

lemma length_string_of [simp]: "length (string_of bs) = length bs"
  by (simp add: string_of_def)

lemma safe_string: "safe_decoder decode_string string_ok"
  unfolding decode_string_def
  by (rule safe_dbind [OF safe_words(8)])
    (auto simp: safe_dfail string_ok_def intro!: safe_dbind [OF safe_read] safe_dreturn)

lemma safe_seq: "safe_decoder dec P \<Longrightarrow> safe_decoder (decode_seq dec n) (\<lambda>vs. list_all P vs \<and> length vs = n)"
  by (induction n) (auto intro!: safe_dbind safe_dreturn)

lemma safe_counted: "safe_decoder dec P \<Longrightarrow> safe_decoder (decode_counted dec) (counted_ok P)"
  unfolding decode_counted_def
  by (rule safe_dbind [OF safe_words(8)])
    (auto simp: safe_dfail counted_ok_def intro!: safe_mono [OF safe_seq])

lemma safe_elem: "safe_decoder (decode_elem t) (elem_ok t)"
proof (induction t)
  case TString
  show ?case by (auto intro!: safe_dbind [OF safe_string] safe_dreturn)
next
  case (TVec t)
  show ?case by (auto intro!: safe_dbind [OF safe_counted [OF TVec]] safe_dreturn)
qed (auto intro!: safe_dbind safe_words safe_dreturn)

section \<open>Properties\<close>

text \<open>Claim C9. Arrays of any element type, nested to any depth, come back as they were: a sequence
  of arrays within the limits, encoded one after the other into a fresh buffer, is decoded to
  the same sequence, and nothing is left.\<close>

theorem arrays_round_trip:
  assumes "list_all (counted_ok (elem_ok t)) vss"
    and "length (concat (map (counted_repr (elem_repr t)) vss)) \<le> k_max_capacity"
  shows "\<exists>b b'. encode_seq (encode_array t) vss buffer_new = Inr b
    \<and> contents b = concat (map (counted_repr (elem_repr t)) vss)
    \<and> decode_seq (decode_array t) (length vss) b = Inr (vss, b') \<and> remaining b' = 0"
proof -
  let ?bs = "concat (map (counted_repr (elem_repr t)) vss)"
  let ?b = "appended ?bs buffer_new"
  have r: "room (length ?bs) buffer_new" using assms(2) by (rule room_new)
  have u: "unread ?b = ?bs" using r by (auto simp: unread_appended)
  have "decode_seq (decode_array t) (length vss) ?b = Inr (vss, advance (length ?bs) ?b)"
    using array.decode_seq_consumes [OF assms(1), where b = ?b and rest = "[]"] r u by simp
  moreover have "remaining (advance (length ?bs) ?b) = 0"
    by (simp add: remaining_def)
  ultimately show ?thesis
    using array.encode_seq_appends [OF assms(1) r] by auto
qed

theorem arrays_round_trip_witness:
  "\<exists>b b'. encode_seq (encode_array (TVec TString)) [[VVec [VString ''a'', VString []], VVec []]] buffer_new = Inr b
    \<and> decode_seq (decode_array (TVec TString)) 1 b = Inr ([[VVec [VString ''a'', VString []], VVec []]], b')
    \<and> remaining b' = 0"
  using arrays_round_trip [of "TVec TString" "[[VVec [VString ''a'', VString []], VVec []]]"]
  by (simp add: counted_ok_def counted_repr_def string_ok_def string_repr_def size_limits k_max_capacity_eq)
    blast

text \<open>Claim C33. Decoding an array of any type from arbitrary bytes is safe: it never reads outside
  the buffer and never hangs; it throws a standard exception, or returns values of the type
  within the library's limits on strings and arrays, having moved the read position forward
  over bytes of the buffer.\<close>

theorem decode_array_safe:
  assumes "buffer_ok b"
  shows "case decode_array t b of
      Inl e \<Rightarrow> std_exception e
    | Inr (vs, b') \<Rightarrow> list_all (elem_ok t) vs \<and> length vs \<le> k_max_array_count \<and> buffer_ok b' \<and> contents b' = contents b
        \<and> read_pos b \<le> read_pos b' \<and> read_pos b' \<le> size_of b"
proof -
  have safe: "safe_decoder (decode_array t) (counted_ok (elem_ok t))"
    unfolding decode_array_def by (rule safe_counted [OF safe_elem])
  show ?thesis
    using safe_decoderD [OF safe assms]
    by (fastforce simp: counted_ok_def buffer_ok_def split: sum.splits)
qed

theorem decode_array_safe_witness:
  "\<exists>e. decode_array (TVec TU16) (appended [255, 255, 255, 255] buffer_new) = Inl e \<and> std_exception e"
proof -
  let ?b = "appended [255, 255, 255, 255] buffer_new"
  have b: "buffer_ok ?b" by (simp add: room_new k_max_capacity_eq)
  have "unread ?b = [255, 255, 255, 255] @ []" by (simp add: unread_appended room_ok [OF room_new [of 0]])
  from decode_run(3) [OF b this] have "decode_array (TVec TU16) ?b = Inl (RuntimeError ''Array too large'')"
    by (simp add: decode_array_def decode_counted_def dbind_simps le_compute size_limits)
  with decode_array_safe [OF b, of "TVec TU16"] show ?thesis by simp
qed

text \<open>A write to a well-formed buffer always returns. It appends exactly the bytes, keeps
  the buffer well formed and leaves the read position alone, and when it has to grow takes a
  capacity that is large enough and less than twice what is needed; or, when the bytes do not
  fit into the largest capacity, it throws.\<close>

theorem buffer_write_grows:
  assumes "buffer_ok b" and "length xs \<le> size_max"
  shows "case buffer_write xs b of
      Inr b' \<Rightarrow> contents b' = contents b @ xs \<and> buffer_ok b' \<and> read_pos b' = read_pos b
        \<and> (if size_of b + length xs \<le> capacity b then capacity b' = capacity b \<and> inline b' = inline b
           else capacity b' < 2 * (size_of b + length xs) \<and> \<not> inline b')
    | Inl e \<Rightarrow> std_exception e \<and> size_of b + length xs > max (capacity b) k_max_capacity"
proof (cases "size_of b + length xs \<le> capacity b")
  case True
  with assms show ?thesis
    by (auto simp: buffer_write_def ensure_capacity_def size_max_def buffer_ok_def)
next
  case False
  show ?thesis
  proof (cases "size_of b + length xs \<le> k_max_capacity")
    case True
    with False assms have r: "room (length xs) b" by (simp add: room_def)
    obtain c where c: "grow_capacity (capacity b) (size_of b + length xs) = Some c"
      "c = capacity b \<or> c < 2 * (size_of b + length xs)" "size_of b + length xs \<le> c"
      using grow_capacity_returns [of "capacity b" "size_of b + length xs"] assms(1) True by (auto simp: buffer_ok_def)
    with False r show ?thesis
      by (simp add: buffer_write_appended) (auto simp: appended_def)
  next
    case big: False
    with False assms buffer_write_cases [OF assms] show ?thesis by (auto split: if_splits)
  qed
qed

end
