(* ===== verification/Song_Wire.thy ===== *)
theory Song_Wire
  imports Song_Buffer
begin

text \<open>
  \<^verbatim>\<open>include/song/wire.hpp\<close> and \<^verbatim>\<open>src/wire.cpp\<close>: the constants of the wire protocol, its
  packed structures with their encoders and decoders, and the functions that build whole
  messages. An enumeration with a fixed underlying type may hold any value of that type
  (\<^verbatim>\<open>static_cast<MsgType>(decode_u8(buf))\<close>), so the enumerations are words and their
  enumerators constants.
\<close>

unbundle bit_operations_syntax

section \<open>Constants\<close>

definition k_magic :: u32 where
  "k_magic = 0x534F4E47"

definition make_version :: "u8 \<Rightarrow> u8 \<Rightarrow> u16" where
  "make_version major minor = (push_bit 8 (ucast major)) OR ucast minor"

definition k_current_version :: u16 where
  "k_current_version = make_version 1 1"

definition k_first_version :: u16 where
  "k_first_version = make_version 1 0"

type_synonym msg_type = u8

definition mt_init :: msg_type where "mt_init = 0x01"
definition mt_call :: msg_type where "mt_call = 0x02"
definition mt_result :: msg_type where "mt_result = 0x03"
definition mt_error :: msg_type where "mt_error = 0x04"
definition mt_stream :: msg_type where "mt_stream = 0x05"
definition mt_stream_end :: msg_type where "mt_stream_end = 0x06"
definition mt_ping :: msg_type where "mt_ping = 0x07"
definition mt_shutdown :: msg_type where "mt_shutdown = 0x08"
definition mt_create :: msg_type where "mt_create = 0x09"
definition mt_release :: msg_type where "mt_release = 0x0A"
definition mt_prop_get :: msg_type where "mt_prop_get = 0x0B"
definition mt_prop_set :: msg_type where "mt_prop_set = 0x0C"
definition mt_init_ack :: msg_type where "mt_init_ack = 0x0D"
definition mt_prop_subscribe :: msg_type where "mt_prop_subscribe = 0x0E"
definition mt_prop_unsubscribe :: msg_type where "mt_prop_unsubscribe = 0x0F"
definition mt_prop_notify :: msg_type where "mt_prop_notify = 0x10"
definition mt_object_call :: msg_type where "mt_object_call = 0x11"

lemmas msg_type_defs = mt_init_def mt_call_def mt_result_def mt_error_def mt_stream_def
  mt_stream_end_def mt_ping_def mt_shutdown_def mt_create_def mt_release_def mt_prop_get_def
  mt_prop_set_def mt_init_ack_def mt_prop_subscribe_def mt_prop_unsubscribe_def
  mt_prop_notify_def mt_object_call_def

type_synonym msg_flags = u8

definition mf_none :: msg_flags where "mf_none = 0x00"
definition mf_compressed :: msg_flags where "mf_compressed = 0x01"
definition mf_encrypted :: msg_flags where "mf_encrypted = 0x02"

definition has_flag :: "msg_flags \<Rightarrow> msg_flags \<Rightarrow> bool" where
  "has_flag flags flag \<longleftrightarrow> flags AND flag \<noteq> mf_none"

type_synonym capability = u32

definition cap_none :: capability where "cap_none = 0"
definition cap_streaming :: capability where "cap_streaming = 0x01"
definition cap_compression :: capability where "cap_compression = 0x02"
definition cap_tls :: capability where "cap_tls = 0x04"
definition cap_properties :: capability where "cap_properties = 0x08"
definition cap_objects :: capability where "cap_objects = 0x10"
definition cap_oneway :: capability where "cap_oneway = 0x20"
definition cap_hmac :: capability where "cap_hmac = 0x40"
definition cap_ext_0 :: capability where "cap_ext_0 = 0x00010000"
definition cap_vendor_0 :: capability where "cap_vendor_0 = 0x01000000"

definition has_capability :: "capability \<Rightarrow> capability \<Rightarrow> bool" where
  "has_capability s c \<longleftrightarrow> s AND c \<noteq> cap_none"

definition k_max_payload_size :: nat where
  "k_max_payload_size = 16 * 1024 * 1024"

section \<open>Packed structures\<close>

record header =
  hdr_magic :: u32
  hdr_flags :: msg_flags
  hdr_type :: msg_type
  hdr_reserved :: u16
  hdr_payload_size :: u32
  hdr_sequence_id :: u32

type_synonym method_flags = u16

record method_descriptor =
  md_service_id :: u16
  md_method_id :: u16
  md_flags :: method_flags
  md_reserved :: u16

record init_message =
  im_magic :: u32
  im_first_version :: u16
  im_current_version :: u16
  im_capabilities :: u32
  im_method_count :: u32

record object_ref =
  or_type_id :: u32
  or_object_id :: i32

record object_create_header =
  och_type_id :: u32
  och_constructor_id :: u16
  och_reserved :: u16

record object_release_header =
  orh_type_id :: u32
  orh_object_id :: i32

record property_header =
  ph_type_id :: u32
  ph_object_id :: i32
  ph_property_id :: u16
  ph_reserved :: u16

record object_method_header =
  omh_type_id :: u32
  omh_object_id :: i32
  omh_method_id :: u16
  omh_reserved :: u16

section \<open>Encoders and decoders\<close>

definition encode_header :: "header encoder" where
  "encode_header hdr b =
    rbind (encode_u32 (hdr_magic hdr) b) (\<lambda>b.
    rbind (encode_u8 (hdr_flags hdr) b) (\<lambda>b.
    rbind (encode_u8 (hdr_type hdr) b) (\<lambda>b.
    rbind (encode_u16 (hdr_reserved hdr) b) (\<lambda>b.
    rbind (encode_u32 (hdr_payload_size hdr) b) (\<lambda>b.
    encode_u32 (hdr_sequence_id hdr) b)))))"

definition decode_header :: "header decoder" where
  "decode_header =
    dbind decode_u32 (\<lambda>magic.
    dbind decode_u8 (\<lambda>flags.
    dbind decode_u8 (\<lambda>type.
    dbind decode_u16 (\<lambda>reserved.
    dbind decode_u32 (\<lambda>payload_size.
    dbind decode_u32 (\<lambda>sequence_id.
    dreturn \<lparr>hdr_magic = magic, hdr_flags = flags, hdr_type = type, hdr_reserved = reserved,
      hdr_payload_size = payload_size, hdr_sequence_id = sequence_id\<rparr>))))))"

definition decode_header_validated :: "header decoder" where
  "decode_header_validated = dbind decode_header (\<lambda>hdr.
    if hdr_magic hdr \<noteq> k_magic
    then dfail (ProtocolError ''Invalid magic number in message header'')
    else if unat (hdr_payload_size hdr) > k_max_payload_size
    then dfail (ProtocolError ''Payload size exceeds maximum'')
    else dreturn hdr)"

definition encode_init :: "init_message encoder" where
  "encode_init msg b =
    rbind (encode_u32 (im_magic msg) b) (\<lambda>b.
    rbind (encode_u16 (im_first_version msg) b) (\<lambda>b.
    rbind (encode_u16 (im_current_version msg) b) (\<lambda>b.
    rbind (encode_u32 (im_capabilities msg) b) (\<lambda>b.
    encode_u32 (im_method_count msg) b))))"

definition decode_init :: "init_message decoder" where
  "decode_init =
    dbind decode_u32 (\<lambda>magic.
    if magic \<noteq> k_magic then dfail (ProtocolError ''Invalid magic in init message'') else
    dbind decode_u16 (\<lambda>first_version.
    dbind decode_u16 (\<lambda>current_version.
    dbind decode_u32 (\<lambda>capabilities.
    dbind decode_u32 (\<lambda>method_count.
    dreturn \<lparr>im_magic = magic, im_first_version = first_version,
      im_current_version = current_version, im_capabilities = capabilities,
      im_method_count = method_count\<rparr>)))))"

definition encode_method_descriptor :: "method_descriptor encoder" where
  "encode_method_descriptor desc b =
    rbind (encode_u16 (md_service_id desc) b) (\<lambda>b.
    rbind (encode_u16 (md_method_id desc) b) (\<lambda>b.
    rbind (encode_u16 (md_flags desc) b) (\<lambda>b.
    encode_u16 (md_reserved desc) b)))"

definition decode_method_descriptor :: "method_descriptor decoder" where
  "decode_method_descriptor =
    dbind decode_u16 (\<lambda>service_id.
    dbind decode_u16 (\<lambda>method_id.
    dbind decode_u16 (\<lambda>flags.
    dbind decode_u16 (\<lambda>reserved.
    dreturn \<lparr>md_service_id = service_id, md_method_id = method_id, md_flags = flags,
      md_reserved = reserved\<rparr>))))"

definition encode_method_call :: "u16 \<Rightarrow> u16 \<Rightarrow> buffer \<Rightarrow> buffer \<Rightarrow> buffer res" where
  "encode_method_call service_id method_id args b =
    rbind (encode_u16 service_id b) (\<lambda>b.
    rbind (encode_u16 method_id b) (\<lambda>b.
    buffer_write (contents args) b))"

definition decode_method_call_header :: "(u16 \<times> u16) decoder" where
  "decode_method_call_header =
    dbind decode_u16 (\<lambda>service_id.
    dbind decode_u16 (\<lambda>method_id.
    dreturn (service_id, method_id)))"

definition encode_object_ref :: "object_ref encoder" where
  "encode_object_ref ref b =
    rbind (encode_u32 (or_type_id ref) b) (\<lambda>b. encode_i32 (or_object_id ref) b)"

definition decode_object_ref :: "object_ref decoder" where
  "decode_object_ref =
    dbind decode_u32 (\<lambda>type_id.
    dbind decode_i32 (\<lambda>object_id.
    dreturn \<lparr>or_type_id = type_id, or_object_id = object_id\<rparr>))"

definition encode_object_create :: "u32 \<Rightarrow> u16 \<Rightarrow> buffer \<Rightarrow> buffer \<Rightarrow> buffer res" where
  "encode_object_create type_id constructor_id args b =
    rbind (encode_u32 type_id b) (\<lambda>b.
    rbind (encode_u16 constructor_id b) (\<lambda>b.
    rbind (encode_u16 0 b) (\<lambda>b.
    buffer_write (contents args) b)))"

definition decode_object_create_header :: "object_create_header decoder" where
  "decode_object_create_header =
    dbind decode_u32 (\<lambda>type_id.
    dbind decode_u16 (\<lambda>constructor_id.
    dbind decode_u16 (\<lambda>reserved.
    dreturn \<lparr>och_type_id = type_id, och_constructor_id = constructor_id, och_reserved = reserved\<rparr>)))"

definition encode_object_release :: "u32 \<Rightarrow> i32 \<Rightarrow> buffer \<Rightarrow> buffer res" where
  "encode_object_release type_id object_id b =
    rbind (encode_u32 type_id b) (\<lambda>b. encode_i32 object_id b)"

definition decode_object_release_header :: "object_release_header decoder" where
  "decode_object_release_header =
    dbind decode_u32 (\<lambda>type_id.
    dbind decode_i32 (\<lambda>object_id.
    dreturn \<lparr>orh_type_id = type_id, orh_object_id = object_id\<rparr>))"

definition encode_property_get :: "u32 \<Rightarrow> i32 \<Rightarrow> u16 \<Rightarrow> buffer \<Rightarrow> buffer res" where
  "encode_property_get type_id object_id property_id b =
    rbind (encode_u32 type_id b) (\<lambda>b.
    rbind (encode_i32 object_id b) (\<lambda>b.
    rbind (encode_u16 property_id b) (\<lambda>b.
    encode_u16 0 b)))"

definition encode_property_set :: "u32 \<Rightarrow> i32 \<Rightarrow> u16 \<Rightarrow> buffer \<Rightarrow> buffer \<Rightarrow> buffer res" where
  "encode_property_set type_id object_id property_id val b =
    rbind (encode_u32 type_id b) (\<lambda>b.
    rbind (encode_i32 object_id b) (\<lambda>b.
    rbind (encode_u16 property_id b) (\<lambda>b.
    rbind (encode_u16 0 b) (\<lambda>b.
    buffer_write (contents val) b))))"

definition decode_property_header :: "property_header decoder" where
  "decode_property_header =
    dbind decode_u32 (\<lambda>type_id.
    dbind decode_i32 (\<lambda>object_id.
    dbind decode_u16 (\<lambda>property_id.
    dbind decode_u16 (\<lambda>reserved.
    dreturn \<lparr>ph_type_id = type_id, ph_object_id = object_id, ph_property_id = property_id,
      ph_reserved = reserved\<rparr>))))"

definition encode_object_method :: "u32 \<Rightarrow> i32 \<Rightarrow> u16 \<Rightarrow> buffer \<Rightarrow> buffer \<Rightarrow> buffer res" where
  "encode_object_method type_id object_id method_id args b =
    rbind (encode_u32 type_id b) (\<lambda>b.
    rbind (encode_i32 object_id b) (\<lambda>b.
    rbind (encode_u16 method_id b) (\<lambda>b.
    rbind (encode_u16 0 b) (\<lambda>b.
    buffer_write (contents args) b))))"

definition decode_object_method_header :: "object_method_header decoder" where
  "decode_object_method_header =
    dbind decode_u32 (\<lambda>type_id.
    dbind decode_i32 (\<lambda>object_id.
    dbind decode_u16 (\<lambda>method_id.
    dbind decode_u16 (\<lambda>reserved.
    dreturn \<lparr>omh_type_id = type_id, omh_object_id = object_id, omh_method_id = method_id,
      omh_reserved = reserved\<rparr>))))"

section \<open>Whole messages\<close>

text \<open>The part every builder repeats: a header for the payload, then the payload. The
  payload's size is cut to 32 bits.\<close>

definition framed :: "msg_type \<Rightarrow> u32 \<Rightarrow> buffer \<Rightarrow> buffer res" where
  "framed type sequence_id payload =
    rbind (encode_header \<lparr>hdr_magic = k_magic, hdr_flags = mf_none, hdr_type = type,
        hdr_reserved = 0, hdr_payload_size = word_of_nat (size_of payload),
        hdr_sequence_id = sequence_id\<rparr> buffer_new)
      (\<lambda>b. buffer_write (contents payload) b)"

definition header_only :: "msg_type \<Rightarrow> u32 \<Rightarrow> buffer res" where
  "header_only type sequence_id =
    encode_header \<lparr>hdr_magic = k_magic, hdr_flags = mf_none, hdr_type = type, hdr_reserved = 0,
      hdr_payload_size = 0, hdr_sequence_id = sequence_id\<rparr> buffer_new"

definition create_init_message :: "u16 \<Rightarrow> u16 \<Rightarrow> u32 \<Rightarrow> buffer res" where
  "create_init_message first_version current_version capabilities =
    rbind (encode_init \<lparr>im_magic = k_magic, im_first_version = first_version,
        im_current_version = current_version, im_capabilities = capabilities,
        im_method_count = 0\<rparr> buffer_new)
      (framed mt_init 0)"

definition create_init_message_methods ::
    "u16 \<Rightarrow> u16 \<Rightarrow> u32 \<Rightarrow> method_descriptor list \<Rightarrow> buffer res" where
  "create_init_message_methods first_version current_version capabilities methods =
    rbind (encode_init \<lparr>im_magic = k_magic, im_first_version = first_version,
        im_current_version = current_version, im_capabilities = capabilities,
        im_method_count = word_of_nat (length methods)\<rparr> buffer_new) (\<lambda>payload.
    rbind (encode_seq encode_method_descriptor methods payload)
      (framed mt_init 0))"

definition create_call_message :: "u32 \<Rightarrow> u16 \<Rightarrow> u16 \<Rightarrow> buffer \<Rightarrow> buffer res" where
  "create_call_message sequence_id service_id method_id args =
    rbind (encode_method_call service_id method_id args buffer_new) (framed mt_call sequence_id)"

definition create_result_message :: "u32 \<Rightarrow> buffer \<Rightarrow> buffer res" where
  "create_result_message sequence_id result = framed mt_result sequence_id result"

definition create_error_message :: "u32 \<Rightarrow> u16 \<Rightarrow> string \<Rightarrow> buffer res" where
  "create_error_message sequence_id code message =
    rbind (encode_u16 code buffer_new) (\<lambda>payload.
    rbind (encode_string message payload) (framed mt_error sequence_id))"

definition create_shutdown_message :: "buffer res" where
  "create_shutdown_message = header_only mt_shutdown 0"

definition create_init_ack_message :: "u16 \<Rightarrow> u16 \<Rightarrow> u32 \<Rightarrow> buffer res" where
  "create_init_ack_message first_version current_version capabilities =
    rbind (encode_init \<lparr>im_magic = k_magic, im_first_version = first_version,
        im_current_version = current_version, im_capabilities = capabilities,
        im_method_count = 0\<rparr> buffer_new)
      (framed mt_init_ack 0)"

definition create_stream_message :: "u32 \<Rightarrow> buffer \<Rightarrow> buffer res" where
  "create_stream_message sequence_id chunk =
    rbind (encode_header \<lparr>hdr_magic = k_magic, hdr_flags = mf_none, hdr_type = mt_stream,
        hdr_reserved = 0, hdr_payload_size = word_of_nat (size_of chunk),
        hdr_sequence_id = sequence_id\<rparr> buffer_new)
      (\<lambda>b. if size_of chunk > 0 then buffer_write (contents chunk) b else Inr b)"

definition create_stream_end_message :: "u32 \<Rightarrow> buffer res" where
  "create_stream_end_message sequence_id = header_only mt_stream_end sequence_id"

definition create_object_create_message :: "u32 \<Rightarrow> u32 \<Rightarrow> u16 \<Rightarrow> buffer \<Rightarrow> buffer res" where
  "create_object_create_message sequence_id type_id constructor_id args =
    rbind (encode_object_create type_id constructor_id args buffer_new) (framed mt_create sequence_id)"

definition create_object_release_message :: "u32 \<Rightarrow> i32 \<Rightarrow> buffer res" where
  "create_object_release_message type_id object_id =
    rbind (encode_object_release type_id object_id buffer_new) (framed mt_release 0)"

definition create_property_get_message :: "u32 \<Rightarrow> u32 \<Rightarrow> i32 \<Rightarrow> u16 \<Rightarrow> buffer res" where
  "create_property_get_message sequence_id type_id object_id property_id =
    rbind (encode_property_get type_id object_id property_id buffer_new)
      (framed mt_prop_get sequence_id)"

definition create_property_set_message :: "u32 \<Rightarrow> u32 \<Rightarrow> i32 \<Rightarrow> u16 \<Rightarrow> buffer \<Rightarrow> buffer res" where
  "create_property_set_message sequence_id type_id object_id property_id val =
    rbind (encode_property_set type_id object_id property_id val buffer_new)
      (framed mt_prop_set sequence_id)"

definition create_object_method_message :: "u32 \<Rightarrow> u32 \<Rightarrow> i32 \<Rightarrow> u16 \<Rightarrow> buffer \<Rightarrow> buffer res" where
  "create_object_method_message sequence_id type_id object_id method_id args =
    rbind (encode_object_method type_id object_id method_id args buffer_new)
      (framed mt_object_call sequence_id)"

definition create_property_subscribe_message :: "u32 \<Rightarrow> i32 \<Rightarrow> u16 \<Rightarrow> buffer res" where
  "create_property_subscribe_message type_id object_id property_id =
    rbind (encode_property_get type_id object_id property_id buffer_new) (framed mt_prop_subscribe 0)"

definition create_property_unsubscribe_message :: "u32 \<Rightarrow> i32 \<Rightarrow> u16 \<Rightarrow> buffer res" where
  "create_property_unsubscribe_message type_id object_id property_id =
    rbind (encode_property_get type_id object_id property_id buffer_new) (framed mt_prop_unsubscribe 0)"

definition create_property_notify_message :: "u32 \<Rightarrow> i32 \<Rightarrow> u16 \<Rightarrow> buffer \<Rightarrow> buffer res" where
  "create_property_notify_message type_id object_id property_id val =
    rbind (encode_property_set type_id object_id property_id val buffer_new) (framed mt_prop_notify 0)"

section \<open>Laws of the packed structures\<close>

definition header_repr :: "header \<Rightarrow> byte list" where
  "header_repr h = le_bytes 4 (hdr_magic h) @ le_bytes 1 (hdr_flags h) @ le_bytes 1 (hdr_type h)
    @ le_bytes 2 (hdr_reserved h) @ le_bytes 4 (hdr_payload_size h) @ le_bytes 4 (hdr_sequence_id h)"

definition init_repr :: "init_message \<Rightarrow> byte list" where
  "init_repr m = le_bytes 4 (im_magic m) @ le_bytes 2 (im_first_version m)
    @ le_bytes 2 (im_current_version m) @ le_bytes 4 (im_capabilities m) @ le_bytes 4 (im_method_count m)"

definition descriptor_repr :: "method_descriptor \<Rightarrow> byte list" where
  "descriptor_repr d = le_bytes 2 (md_service_id d) @ le_bytes 2 (md_method_id d)
    @ le_bytes 2 (md_flags d) @ le_bytes 2 (md_reserved d)"

definition call_header_repr :: "u16 \<times> u16 \<Rightarrow> byte list" where
  "call_header_repr p = le_bytes 2 (fst p) @ le_bytes 2 (snd p)"

definition object_ref_repr :: "object_ref \<Rightarrow> byte list" where
  "object_ref_repr r = le_bytes 4 (or_type_id r) @ le_bytes 4 (or_object_id r)"

definition create_header_repr :: "object_create_header \<Rightarrow> byte list" where
  "create_header_repr h = le_bytes 4 (och_type_id h) @ le_bytes 2 (och_constructor_id h)
    @ le_bytes 2 (och_reserved h)"

definition release_header_repr :: "object_release_header \<Rightarrow> byte list" where
  "release_header_repr h = le_bytes 4 (orh_type_id h) @ le_bytes 4 (orh_object_id h)"

definition property_header_repr :: "property_header \<Rightarrow> byte list" where
  "property_header_repr h = le_bytes 4 (ph_type_id h) @ le_bytes 4 (ph_object_id h)
    @ le_bytes 2 (ph_property_id h) @ le_bytes 2 (ph_reserved h)"

definition method_header_repr :: "object_method_header \<Rightarrow> byte list" where
  "method_header_repr h = le_bytes 4 (omh_type_id h) @ le_bytes 4 (omh_object_id h)
    @ le_bytes 2 (omh_method_id h) @ le_bytes 2 (omh_reserved h)"

lemmas fc_u8 = u8.fixed_codec_axioms
lemmas fc_u16 = u16.fixed_codec_axioms
lemmas fc_u32 = u32.fixed_codec_axioms
lemmas fc_i32 = i32.fixed_codec_axioms

interpretation header: fixed_codec encode_header decode_header header_repr "\<lambda>_. True" 16
  by (rule fixed_codec_eqI [OF fixed_codec_iso [OF
      fixed_codec_pair [OF fc_u32 fixed_codec_pair [OF fc_u8 fixed_codec_pair [OF fc_u8
      fixed_codec_pair [OF fc_u16 fixed_codec_pair [OF fc_u32 fc_u32]]]]],
      where f = "\<lambda>h. (hdr_magic h, hdr_flags h, hdr_type h, hdr_reserved h, hdr_payload_size h,
        hdr_sequence_id h)"
      and g = "\<lambda>(m, f, t, r, p, s). \<lparr>hdr_magic = m, hdr_flags = f, hdr_type = t, hdr_reserved = r,
        hdr_payload_size = p, hdr_sequence_id = s\<rparr>"]])
    (auto simp: encode_header_def decode_header_def header_repr_def chain_simps)

interpretation descriptor: fixed_codec encode_method_descriptor decode_method_descriptor
    descriptor_repr "\<lambda>_. True" 8
  by (rule fixed_codec_eqI [OF fixed_codec_iso [OF
      fixed_codec_pair [OF fc_u16 fixed_codec_pair [OF fc_u16 fixed_codec_pair [OF fc_u16 fc_u16]]],
      where f = "\<lambda>d. (md_service_id d, md_method_id d, md_flags d, md_reserved d)"
      and g = "\<lambda>(s, m, f, r). \<lparr>md_service_id = s, md_method_id = m, md_flags = f, md_reserved = r\<rparr>"]])
    (auto simp: encode_method_descriptor_def decode_method_descriptor_def descriptor_repr_def chain_simps)

definition encode_call_header :: "(u16 \<times> u16) encoder" where
  "encode_call_header p b = rbind (encode_u16 (fst p) b) (encode_u16 (snd p))"

interpretation call_header: fixed_codec encode_call_header decode_method_call_header
    call_header_repr "\<lambda>_. True" 4
  by (rule fixed_codec_eqI [OF fixed_codec_iso [OF fixed_codec_pair [OF fc_u16 fc_u16],
      where f = "\<lambda>p. p" and g = "\<lambda>p. p"]])
    (auto simp: encode_call_header_def decode_method_call_header_def call_header_repr_def chain_simps)

interpretation object_reference: fixed_codec encode_object_ref decode_object_ref object_ref_repr "\<lambda>_. True" 8
  by (rule fixed_codec_eqI [OF fixed_codec_iso [OF fixed_codec_pair [OF fc_u32 fc_i32],
      where f = "\<lambda>r. (or_type_id r, or_object_id r)"
      and g = "\<lambda>(t, i). \<lparr>or_type_id = t, or_object_id = i\<rparr>"]])
    (auto simp: encode_object_ref_def decode_object_ref_def object_ref_repr_def chain_simps)

definition encode_create_header :: "object_create_header encoder" where
  "encode_create_header h b = rbind (encode_u32 (och_type_id h) b) (\<lambda>b.
    rbind (encode_u16 (och_constructor_id h) b) (\<lambda>b. encode_u16 (och_reserved h) b))"

interpretation create_header: fixed_codec encode_create_header decode_object_create_header
    create_header_repr "\<lambda>_. True" 8
  by (rule fixed_codec_eqI [OF fixed_codec_iso [OF
      fixed_codec_pair [OF fc_u32 fixed_codec_pair [OF fc_u16 fc_u16]],
      where f = "\<lambda>h. (och_type_id h, och_constructor_id h, och_reserved h)"
      and g = "\<lambda>(t, c, r). \<lparr>och_type_id = t, och_constructor_id = c, och_reserved = r\<rparr>"]])
    (auto simp: encode_create_header_def decode_object_create_header_def create_header_repr_def chain_simps)

definition encode_release_header :: "object_release_header encoder" where
  "encode_release_header h = encode_object_release (orh_type_id h) (orh_object_id h)"

interpretation release_header: fixed_codec encode_release_header decode_object_release_header
    release_header_repr "\<lambda>_. True" 8
  by (rule fixed_codec_eqI [OF fixed_codec_iso [OF fixed_codec_pair [OF fc_u32 fc_i32],
      where f = "\<lambda>h. (orh_type_id h, orh_object_id h)"
      and g = "\<lambda>(t, i). \<lparr>orh_type_id = t, orh_object_id = i\<rparr>"]])
    (auto simp: encode_release_header_def encode_object_release_def decode_object_release_header_def
      release_header_repr_def chain_simps)

definition encode_property_header :: "property_header encoder" where
  "encode_property_header h b = rbind (encode_u32 (ph_type_id h) b) (\<lambda>b.
    rbind (encode_i32 (ph_object_id h) b) (\<lambda>b. rbind (encode_u16 (ph_property_id h) b) (\<lambda>b.
    encode_u16 (ph_reserved h) b)))"

interpretation property_hdr: fixed_codec encode_property_header decode_property_header
    property_header_repr "\<lambda>_. True" 12
  by (rule fixed_codec_eqI [OF fixed_codec_iso [OF
      fixed_codec_pair [OF fc_u32 fixed_codec_pair [OF fc_i32 fixed_codec_pair [OF fc_u16 fc_u16]]],
      where f = "\<lambda>h. (ph_type_id h, ph_object_id h, ph_property_id h, ph_reserved h)"
      and g = "\<lambda>(t, i, p, r). \<lparr>ph_type_id = t, ph_object_id = i, ph_property_id = p, ph_reserved = r\<rparr>"]])
    (auto simp: encode_property_header_def decode_property_header_def property_header_repr_def chain_simps)

definition encode_method_header :: "object_method_header encoder" where
  "encode_method_header h b = rbind (encode_u32 (omh_type_id h) b) (\<lambda>b.
    rbind (encode_i32 (omh_object_id h) b) (\<lambda>b. rbind (encode_u16 (omh_method_id h) b) (\<lambda>b.
    encode_u16 (omh_reserved h) b)))"

interpretation method_header: fixed_codec encode_method_header decode_object_method_header
    method_header_repr "\<lambda>_. True" 12
  by (rule fixed_codec_eqI [OF fixed_codec_iso [OF
      fixed_codec_pair [OF fc_u32 fixed_codec_pair [OF fc_i32 fixed_codec_pair [OF fc_u16 fc_u16]]],
      where f = "\<lambda>h. (omh_type_id h, omh_object_id h, omh_method_id h, omh_reserved h)"
      and g = "\<lambda>(t, i, m, r). \<lparr>omh_type_id = t, omh_object_id = i, omh_method_id = m, omh_reserved = r\<rparr>"]])
    (auto simp: encode_method_header_def decode_object_method_header_def method_header_repr_def chain_simps)

text \<open>The init message is no fixed-width codec: its decoder rejects a wrong magic number.\<close>

lemma length_init_repr [simp]: "length (init_repr m) = 16"
  by (simp add: init_repr_def)

interpretation init: codec encode_init decode_init init_repr "\<lambda>m. im_magic m = k_magic"
proof
  fix m b assume "room (length (init_repr m)) b"
  then show "encode_init m b = Inr (appended (init_repr m) b)"
    by (simp add: encode_init_def encode_defs init_repr_def room_def codec_simps)
next
  fix m :: init_message and b rest
  assume "im_magic m = k_magic" and "buffer_ok b" and "unread b = init_repr m @ rest"
  then show "decode_init b = Inr (m, advance (length (init_repr m)) b)"
    by (simp add: decode_init_def dbind_simps init_repr_def codec_simps)
qed

section \<open>What the message builders produce\<close>

named_theorems message_simps \<open>the bytes of a message a builder of the protocol makes\<close>

definition plain_header :: "msg_type \<Rightarrow> u32 \<Rightarrow> nat \<Rightarrow> header" where
  "plain_header type sequence_id n = \<lparr>hdr_magic = k_magic, hdr_flags = mf_none, hdr_type = type,
     hdr_reserved = 0, hdr_payload_size = word_of_nat n, hdr_sequence_id = sequence_id\<rparr>"

text \<open>The bytes on the wire of a message with this type, sequence id and payload, and the
  buffer that holds just them.\<close>

definition wire_message :: "msg_type \<Rightarrow> u32 \<Rightarrow> byte list \<Rightarrow> byte list" where
  "wire_message type sequence_id payload =
    header_repr (plain_header type sequence_id (length payload)) @ payload"

definition message_buffer :: "msg_type \<Rightarrow> u32 \<Rightarrow> byte list \<Rightarrow> buffer" where
  "message_buffer type sequence_id payload = appended (wire_message type sequence_id payload) buffer_new"

text \<open>No buffer of a real machine comes near this bound; it keeps the sizes below the limit
  at which \<^verbatim>\<open>ensure_capacity\<close> throws.\<close>

definition sendable :: "byte list \<Rightarrow> bool" where
  "sendable bs \<longleftrightarrow> length bs + 64 \<le> k_max_capacity"

lemma length_header_repr [simp]: "length (header_repr h) = 16"
  by (rule header.width)

lemma length_wire_message [simp]: "length (wire_message t s p) = 16 + length p"
  by (simp add: wire_message_def)

lemma contents_message_buffer [simp]: "contents (message_buffer t s p) = wire_message t s p"
  by (simp add: message_buffer_def)

lemma unread_message_buffer [simp]: "unread (message_buffer t s p) = wire_message t s p"
  by (simp add: message_buffer_def unread_appended)

lemma buffer_ok_message_buffer [simp]: "length p + 16 \<le> k_max_capacity \<Longrightarrow> buffer_ok (message_buffer t s p)"
  by (simp add: message_buffer_def room_new)

lemma framed_run:
  assumes "size_of payload + 16 \<le> k_max_capacity"
  shows "framed t s payload = Inr (message_buffer t s (contents payload))"
  using assms header.enc_appends [of "plain_header t s (size_of payload)" buffer_new]
  by (simp add: framed_def plain_header_def message_buffer_def wire_message_def codec_simps room_new)

lemma header_only_run [message_simps]: "header_only t s = Inr (message_buffer t s [])"
  using header.enc_appends [of "plain_header t s 0" buffer_new]
  by (simp add: header_only_def plain_header_def message_buffer_def wire_message_def room_new
      k_max_capacity_eq)

text \<open>Reading the header of a message back leaves its payload.\<close>

lemma decode_header_message [message_simps]:
  assumes "buffer_ok b" and "unread b = wire_message t s p"
  shows "decode_header b = Inr (plain_header t s (length p), advance 16 b)"
  using header.dec_consumes [where x = "plain_header t s (length p)" and b = b and rest = p] assms
  by (simp add: wire_message_def)

lemma plain_header_simps [simp]:
  "hdr_magic (plain_header t s n) = k_magic"
  "hdr_flags (plain_header t s n) = mf_none"
  "hdr_type (plain_header t s n) = t"
  "hdr_payload_size (plain_header t s n) = word_of_nat n"
  "hdr_sequence_id (plain_header t s n) = s"
  by (simp_all add: plain_header_def)

lemma decode_header_validated_message [message_simps]:
  assumes "buffer_ok b" and "unread b = wire_message t s p" and "length p \<le> k_max_payload_size"
  shows "decode_header_validated b = Inr (plain_header t s (length p), advance 16 b)"
proof -
  have "unat (word_of_nat (length p) :: u32) = length p"
    using assms(3) by (simp add: unat_of_nat k_max_payload_size_def)
  with assms show ?thesis
    by (simp add: decode_header_validated_def dbind_simps decode_header_message)
qed

lemma drop_wire_message [simp]: "drop 16 (wire_message t s p) = p"
  by (simp add: wire_message_def)

lemma create_messages [message_simps]:
  "sendable (contents args) \<Longrightarrow>
    create_call_message s sid mid args
      = Inr (message_buffer mt_call s (call_header_repr (sid, mid) @ contents args))"
  "sendable (contents args) \<Longrightarrow>
    create_result_message s args = Inr (message_buffer mt_result s (contents args))"
  "sendable (contents args) \<Longrightarrow>
    create_stream_message s args = Inr (message_buffer mt_stream s (contents args))"
  "string_ok m \<Longrightarrow>
    create_error_message s c m = Inr (message_buffer mt_error s (le_bytes 2 c @ string_repr m))"
  "create_shutdown_message = Inr (message_buffer mt_shutdown 0 [])"
  "create_stream_end_message s = Inr (message_buffer mt_stream_end s [])"
proof -
  assume "sendable (contents args)"
  then show "create_call_message s sid mid args
      = Inr (message_buffer mt_call s (call_header_repr (sid, mid) @ contents args))"
    by (simp add: create_call_message_def encode_method_call_def encode_defs codec_simps sendable_def
        call_header_repr_def framed_run)
next
  assume "sendable (contents args)"
  then show "create_result_message s args = Inr (message_buffer mt_result s (contents args))"
    by (simp add: create_result_message_def framed_run sendable_def)
next
  assume "sendable (contents args)"
  then show "create_stream_message s args = Inr (message_buffer mt_stream s (contents args))"
    using header.enc_appends [of "plain_header mt_stream s (size_of args)" buffer_new]
    by (auto simp: create_stream_message_def plain_header_def message_buffer_def wire_message_def
        codec_simps room_new sendable_def)
next
  assume "string_ok m"
  then show "create_error_message s c m = Inr (message_buffer mt_error s (le_bytes 2 c @ string_repr m))"
    by (simp add: create_error_message_def encode_defs codec_simps str.enc_appends room_def
        k_max_capacity_eq framed_run string_repr_def string_ok_def size_limits)
qed (simp_all add: create_shutdown_message_def create_stream_end_message_def message_simps)

lemma create_init_messages [message_simps]:
  "create_init_message f c caps = Inr (message_buffer mt_init 0
      (init_repr \<lparr>im_magic = k_magic, im_first_version = f, im_current_version = c,
        im_capabilities = caps, im_method_count = 0\<rparr>))"
  "create_init_ack_message f c caps = Inr (message_buffer mt_init_ack 0
      (init_repr \<lparr>im_magic = k_magic, im_first_version = f, im_current_version = c,
        im_capabilities = caps, im_method_count = 0\<rparr>))"
  by (simp_all add: create_init_message_def create_init_ack_message_def init.enc_appends room_new
      k_max_capacity_eq framed_run)

lemma length_descriptors [simp]: "length (concat (map descriptor_repr ds)) = 8 * length ds"
  by (induction ds) (simp_all add: descriptor.width)

lemma create_init_message_methods_run [message_simps]:
  assumes "8 * length ms + 64 \<le> k_max_capacity"
  shows "create_init_message_methods f c caps ms = Inr (message_buffer mt_init 0
      (init_repr \<lparr>im_magic = k_magic, im_first_version = f, im_current_version = c,
        im_capabilities = caps, im_method_count = word_of_nat (length ms)\<rparr>
       @ concat (map descriptor_repr ms)))"
  using assms
  by (simp add: create_init_message_methods_def init.enc_appends room_def k_max_capacity_eq
      descriptor.encode_seq_appends list.pred_True framed_run codec_simps)

lemma create_object_messages [message_simps]:
  "sendable (contents args) \<Longrightarrow>
    create_object_create_message s t c args = Inr (message_buffer mt_create s
      (create_header_repr \<lparr>och_type_id = t, och_constructor_id = c, och_reserved = 0\<rparr> @ contents args))"
  "create_object_release_message t i = Inr (message_buffer mt_release 0
      (release_header_repr \<lparr>orh_type_id = t, orh_object_id = i\<rparr>))"
  "sendable (contents args) \<Longrightarrow>
    create_object_method_message s t i m args = Inr (message_buffer mt_object_call s
      (method_header_repr \<lparr>omh_type_id = t, omh_object_id = i, omh_method_id = m, omh_reserved = 0\<rparr>
       @ contents args))"
  by (simp_all add: create_object_create_message_def encode_object_create_def
      create_object_release_message_def encode_object_release_def create_object_method_message_def
      encode_object_method_def encode_defs codec_simps sendable_def k_max_capacity_eq framed_run
      create_header_repr_def release_header_repr_def method_header_repr_def)

lemma create_property_messages [message_simps]:
  "create_property_get_message s t i p = Inr (message_buffer mt_prop_get s
      (property_header_repr \<lparr>ph_type_id = t, ph_object_id = i, ph_property_id = p, ph_reserved = 0\<rparr>))"
  "create_property_subscribe_message t i p = Inr (message_buffer mt_prop_subscribe 0
      (property_header_repr \<lparr>ph_type_id = t, ph_object_id = i, ph_property_id = p, ph_reserved = 0\<rparr>))"
  "create_property_unsubscribe_message t i p = Inr (message_buffer mt_prop_unsubscribe 0
      (property_header_repr \<lparr>ph_type_id = t, ph_object_id = i, ph_property_id = p, ph_reserved = 0\<rparr>))"
  "sendable (contents v) \<Longrightarrow>
    create_property_set_message s t i p v = Inr (message_buffer mt_prop_set s
      (property_header_repr \<lparr>ph_type_id = t, ph_object_id = i, ph_property_id = p, ph_reserved = 0\<rparr>
       @ contents v))"
  "sendable (contents v) \<Longrightarrow>
    create_property_notify_message t i p v = Inr (message_buffer mt_prop_notify 0
      (property_header_repr \<lparr>ph_type_id = t, ph_object_id = i, ph_property_id = p, ph_reserved = 0\<rparr>
       @ contents v))"
  by (simp_all add: create_property_get_message_def create_property_subscribe_message_def
      create_property_unsubscribe_message_def create_property_set_message_def
      create_property_notify_message_def encode_property_get_def encode_property_set_def
      encode_defs codec_simps sendable_def k_max_capacity_eq framed_run property_header_repr_def)

section \<open>Properties\<close>

text \<open>The validated header decoder accepts a message exactly when 16 bytes are there, they
  begin with the magic number and declare at most 16 MB, and then returns the header whose
  encoding these bytes are; otherwise it throws a standard exception.\<close>

theorem header_accepted_iff:
  assumes "buffer_ok b"
  shows "((\<exists>h b'. decode_header_validated b = Inr (h, b')) \<longleftrightarrow>
      16 \<le> length (unread b) \<and> (of_le (take 4 (unread b)) :: u32) = k_magic
      \<and> unat (of_le (take 4 (drop 8 (unread b))) :: u32) \<le> k_max_payload_size)
    \<and> (case decode_header_validated b of
      Inr (h, b') \<Rightarrow> encode_header h buffer_new = Inr (appended (take 16 (unread b)) buffer_new) \<and> b' = advance 16 b
    | Inl e \<Rightarrow> std_exception e)"
proof (cases "16 \<le> length (unread b)")
  case True
  then obtain h where h: "decode_header b = Inr (h, advance 16 b)" "header_repr h = take 16 (unread b)"
    using header.dec_enough [OF assms] by blast
  have "hdr_magic h = of_le (take 4 (header_repr h))" "hdr_payload_size h = of_le (take 4 (drop 8 (header_repr h)))"
    by (simp_all add: header_repr_def)
  then have f: "hdr_magic h = of_le (take 4 (unread b))" "hdr_payload_size h = of_le (take 4 (drop 8 (unread b)))"
    by (simp_all add: h(2) drop_take)
  have "encode_header h buffer_new = Inr (appended (take 16 (unread b)) buffer_new)"
    using header.enc_appends [of h buffer_new] h(2) by (simp add: room_new k_max_capacity_eq)
  with True show ?thesis
    by (simp add: decode_header_validated_def dbind_simps h(1) f)
next
  case False
  with header.dec_short [OF assms] show ?thesis
    by (simp add: decode_header_validated_def dbind_simps)
qed

text \<open>Every request the client builds is read back by the service as it was meant: the
  header carries the message type and the sequence id, the decoder of the request's own header
  gives the ids, and what is left are the arguments.\<close>

theorem requests_round_trip:
  assumes "length (contents args) + 12 \<le> k_max_payload_size"
  shows "(\<exists>m b. create_call_message s sid mid args = Inr m
      \<and> decode_header_validated m = Inr (plain_header mt_call s (length (contents args) + 4), advance 16 m)
      \<and> decode_method_call_header (advance 16 m) = Inr ((sid, mid), b) \<and> unread b = contents args)
    \<and> (\<exists>m b. create_object_create_message s t c args = Inr m
      \<and> decode_header_validated m = Inr (plain_header mt_create s (length (contents args) + 8), advance 16 m)
      \<and> decode_object_create_header (advance 16 m) = Inr (\<lparr>och_type_id = t, och_constructor_id = c, och_reserved = 0\<rparr>, b)
      \<and> unread b = contents args)
    \<and> (\<exists>m b. create_property_set_message s t i p args = Inr m
      \<and> decode_header_validated m = Inr (plain_header mt_prop_set s (length (contents args) + 12), advance 16 m)
      \<and> decode_property_header (advance 16 m)
        = Inr (\<lparr>ph_type_id = t, ph_object_id = i, ph_property_id = p, ph_reserved = 0\<rparr>, b) \<and> unread b = contents args)
    \<and> (\<exists>m b. create_object_method_message s t i mid args = Inr m
      \<and> decode_header_validated m = Inr (plain_header mt_object_call s (length (contents args) + 12), advance 16 m)
      \<and> decode_object_method_header (advance 16 m)
        = Inr (\<lparr>omh_type_id = t, omh_object_id = i, omh_method_id = mid, omh_reserved = 0\<rparr>, b) \<and> unread b = contents args)"
proof -
  have send: "sendable (contents args)"
    using assms by (simp add: sendable_def k_max_capacity_eq k_max_payload_size_def)
  have rd: "decode_header_validated (message_buffer ty s (h @ contents args))
        = Inr (plain_header ty s (length (contents args) + length h), advance 16 (message_buffer ty s (h @ contents args)))
      \<and> buffer_ok (advance 16 (message_buffer ty s (h @ contents args)))
      \<and> unread (advance 16 (message_buffer ty s (h @ contents args))) = h @ contents args" if "length h \<le> 12" for ty s h
    using that assms
    by (subst decode_header_validated_message [where p = "h @ contents args"])
      (simp_all add: k_max_capacity_eq k_max_payload_size_def add.commute)
  note simps = create_messages create_object_messages create_property_messages send
    call_header.width create_header.width property_hdr.width method_header.width
  note codecs = call_header.dec_consumes [where x = "(sid, mid)" and rest = "contents args"]
    create_header.dec_consumes [where x = "\<lparr>och_type_id = t, och_constructor_id = c, och_reserved = 0\<rparr>" and rest = "contents args"]
    property_hdr.dec_consumes [where x = "\<lparr>ph_type_id = t, ph_object_id = i, ph_property_id = p, ph_reserved = 0\<rparr>" and rest = "contents args"]
    method_header.dec_consumes [where x = "\<lparr>omh_type_id = t, omh_object_id = i, omh_method_id = mid, omh_reserved = 0\<rparr>" and rest = "contents args"]
  show ?thesis
    using rd [of "call_header_repr (sid, mid)" mt_call s]
      rd [of "create_header_repr \<lparr>och_type_id = t, och_constructor_id = c, och_reserved = 0\<rparr>" mt_create s]
      rd [of "property_header_repr \<lparr>ph_type_id = t, ph_object_id = i, ph_property_id = p, ph_reserved = 0\<rparr>" mt_prop_set s]
      rd [of "method_header_repr \<lparr>omh_type_id = t, omh_object_id = i, omh_method_id = mid, omh_reserved = 0\<rparr>" mt_object_call s]
    by (simp add: simps codecs del: advance_advance)
qed

text \<open>Messages are self-delimiting: two sequences of messages that give the same bytes on the
  wire are the same sequence, so however a stream is cut into reads it can be taken apart in
  one way only.\<close>

theorem message_stream_unambiguous:
  assumes "\<forall>(ty, s, p) \<in> set ms. length p \<le> k_max_payload_size"
    and "\<forall>(ty, s, p) \<in> set ns. length p \<le> k_max_payload_size"
    and "concat (map (\<lambda>(ty, s, p). wire_message ty s p) ms) = concat (map (\<lambda>(ty, s, p). wire_message ty s p) ns)"
  shows "ms = ns"
  using assms
proof (induction ms arbitrary: ns)
  case Nil
  then show ?case by (cases ns) (auto simp: wire_message_def dest!: arg_cong [where f = length])
next
  case (Cons m ms)
  obtain ty s p where m: "m = (ty, s, p)" by (metis prod_cases3)
  obtain n ns' where n: "ns = n # ns'"
    using Cons.prems(3) m by (cases ns) (auto simp: wire_message_def dest!: arg_cong [where f = length])
  obtain ty' s' p' where n': "n = (ty', s', p')" by (metis prod_cases3)
  let ?h = "plain_header ty s (length p)" and ?h' = "plain_header ty' s' (length p')"
  have eq: "header_repr ?h @ p @ concat (map (\<lambda>(ty, s, p). wire_message ty s p) ms)
      = header_repr ?h' @ p' @ concat (map (\<lambda>(ty, s, p). wire_message ty s p) ns')"
    using Cons.prems(3) m n n' by (simp add: wire_message_def)
  then have "header_repr ?h = header_repr ?h'" and rest: "p @ concat (map (\<lambda>(ty, s, p). wire_message ty s p) ms)
      = p' @ concat (map (\<lambda>(ty, s, p). wire_message ty s p) ns')"
    by (simp_all add: append_eq_append_conv)
  then have "?h = ?h'"
    using header.uniquely_decodable [where x = ?h and y = ?h' and r = "[]" and s = "[]"] by (simp add: k_max_capacity_eq)
  then have "ty = ty'" "s = s'" and "(word_of_nat (length p) :: u32) = word_of_nat (length p')"
    by (simp_all add: plain_header_def)
  moreover have "unat (word_of_nat (length p) :: u32) = length p" "unat (word_of_nat (length p') :: u32) = length p'"
    using Cons.prems(1,2) m n n' by (simp_all add: unat_of_nat k_max_payload_size_def)
  ultimately have "length p = length p'" by metis
  with rest have "p = p'" "concat (map (\<lambda>(ty, s, p). wire_message ty s p) ms) = concat (map (\<lambda>(ty, s, p). wire_message ty s p) ns')"
    by simp_all
  with Cons.IH [of ns'] Cons.prems(1,2) m n n' \<open>ty = ty'\<close> \<open>s = s'\<close> show ?case by simp
qed

end
