(* ===== verification/Song_Transport.thy ===== *)
theory Song_Transport
  imports Song_Wire
begin

text \<open>
  \<^verbatim>\<open>include/song/transport.hpp\<close>, \<^verbatim>\<open>src/transport.cpp\<close> and \<^verbatim>\<open>src/pipe.cpp\<close>: pipes, the pipe
  and TCP transports and the TCP listener, over a scripted kernel. What \<^verbatim>\<open>read\<close>, \<^verbatim>\<open>recv\<close>,
  \<^verbatim>\<open>write\<close>, \<^verbatim>\<open>send\<close> and \<^verbatim>\<open>poll\<close> do next is a list of events, any of them: data cut into
  pieces at will, interruptions, errors, the end of the stream. The locale \<open>message_source\<close>
  states what the layers above rely on, and is interpreted for both transports.
\<close>

section \<open>The kernel\<close>

text \<open>An error number, with the text \<^verbatim>\<open>strerror\<close> has for it. \<^verbatim>\<open>EINTR\<close> is an event of its own.\<close>

datatype errno = ETIMEDOUT | EBADF | EINPROGRESS | EOther string

fun strerror :: "errno \<Rightarrow> string" where
  "strerror ETIMEDOUT = ''Connection timed out''"
| "strerror EBADF = ''Bad file descriptor''"
| "strerror EINPROGRESS = ''Operation now in progress''"
| "strerror (EOther s) = s"

text \<open>\<open>RdData []\<close> is the end of the stream, \<open>WrAccept k\<close> a call that takes at most \<open>k\<close> bytes,
  \<open>PollReady err in\<close> a poll that returns with \<^verbatim>\<open>POLLERR\<close> and \<^verbatim>\<open>POLLIN\<close> set or not. A read or
  write with no event left blocks for ever; a poll with none left times out.\<close>

datatype read_event = RdData "byte list" | RdIntr | RdError errno
datatype write_event = WrAccept nat | WrIntr | WrError errno
datatype poll_event = PollTimeout | PollIntr | PollError errno | PollReady bool bool

text \<open>Text between apostrophes.\<close>

definition quoted :: "string \<Rightarrow> string" where
  "quoted s = [CHR 0x27] @ s @ [CHR 0x27]"

datatype sock_option = NonBlocking | Blocking | NoDelay | ReuseAddr

record sys =
  reads :: "read_event list"
  writes :: "write_event list"
  polls :: "poll_event list"
  written :: "byte list"
  closed :: "int list"
  options :: "(int \<times> sock_option) list"

datatype io = IoData "byte list" | IoIntr | IoFail errno | IoBlocks

text \<open>One \<^verbatim>\<open>read\<close> or \<^verbatim>\<open>recv\<close> of at most \<open>n\<close> bytes. The end of the stream stays the end.\<close>

fun sys_read :: "nat \<Rightarrow> read_event list \<Rightarrow> io \<times> read_event list" where
  "sys_read n [] = (IoBlocks, [])"
| "sys_read n (RdIntr # es) = (IoIntr, es)"
| "sys_read n (RdError e # es) = (IoFail e, es)"
| "sys_read n (RdData bs # es) =
    (IoData (take n bs),
     if bs = [] then RdData [] # es else if length bs \<le> n then es else RdData (drop n bs) # es)"

text \<open>The loop \<^verbatim>\<open>do { r = poll(..); } while (r < 0 && errno == EINTR)\<close>.\<close>

fun poll_loop :: "poll_event list \<Rightarrow> poll_event \<times> poll_event list" where
  "poll_loop [] = (PollTimeout, [])"
| "poll_loop (PollIntr # es) = poll_loop es"
| "poll_loop (e # es) = (e, es)"

definition sys_close :: "int \<Rightarrow> sys \<Rightarrow> sys" where
  "sys_close fd s = s\<lparr>closed := fd # closed s\<rparr>"

definition sys_option :: "int \<Rightarrow> sock_option \<Rightarrow> sys \<Rightarrow> sys" where
  "sys_option fd o' s = s\<lparr>options := (fd, o') # options s\<rparr>"

section \<open>Pipes\<close>

record pipe =
  read_fd :: int
  write_fd :: int

definition pipe_valid :: "pipe \<Rightarrow> bool" where
  "pipe_valid p \<longleftrightarrow> read_fd p \<ge> 0 \<or> write_fd p \<ge> 0"

definition pipe_move :: "pipe \<Rightarrow> pipe \<times> pipe" where
  "pipe_move other = (\<lparr>read_fd = read_fd other, write_fd = write_fd other\<rparr>,
     other\<lparr>read_fd := -1, write_fd := -1\<rparr>)"

definition pipe_close_read :: "pipe \<Rightarrow> sys \<Rightarrow> pipe \<times> sys" where
  "pipe_close_read p s = (if read_fd p \<ge> 0 then (p\<lparr>read_fd := -1\<rparr>, sys_close (read_fd p) s) else (p, s))"

definition pipe_close_write :: "pipe \<Rightarrow> sys \<Rightarrow> pipe \<times> sys" where
  "pipe_close_write p s = (if write_fd p \<ge> 0 then (p\<lparr>write_fd := -1\<rparr>, sys_close (write_fd p) s) else (p, s))"

definition pipe_close :: "pipe \<Rightarrow> sys \<Rightarrow> pipe \<times> sys" where
  "pipe_close p s = (case pipe_close_read p s of (p', s') \<Rightarrow> pipe_close_write p' s')"

definition pipe_move_assign :: "bool \<Rightarrow> pipe \<Rightarrow> pipe \<Rightarrow> sys \<Rightarrow> (pipe \<times> pipe) \<times> sys" where
  "pipe_move_assign same this other s =
    (if same then ((this, this), s) else case pipe_close this s of (_, s') \<Rightarrow> (pipe_move other, s'))"

text \<open>\<^verbatim>\<open>create_pair\<close>: \<^verbatim>\<open>fds\<close> is what \<^verbatim>\<open>pipe(2)\<close> returned.\<close>

definition pipe_create_pair :: "(int \<times> int) option \<Rightarrow> (pipe \<times> pipe) res" where
  "pipe_create_pair fds = (case fds of
      None \<Rightarrow> Inl (RuntimeError ''Failed to create pipe'')
    | Some (r, w) \<Rightarrow> Inr (\<lparr>read_fd = r, write_fd = -1\<rparr>, \<lparr>read_fd = -1, write_fd = w\<rparr>))"

fun uninterrupted_read :: "nat \<Rightarrow> read_event list \<Rightarrow> io \<times> read_event list" where
  "uninterrupted_read n (RdIntr # es) = uninterrupted_read n es"
| "uninterrupted_read n es = sys_read n es"

definition pipe_read :: "pipe \<Rightarrow> nat \<Rightarrow> read_event list \<Rightarrow> io \<times> read_event list" where
  "pipe_read p n es = (if read_fd p < 0 then (IoFail EBADF, es) else uninterrupted_read n es)"

definition pipe_read_timeout :: "pipe \<Rightarrow> nat \<Rightarrow> sys \<Rightarrow> io \<times> sys" where
  "pipe_read_timeout p n s =
    (if read_fd p < 0 then (IoFail EBADF, s)
     else case poll_loop (polls s) of (ev, ps) \<Rightarrow>
       (case ev of
          PollError e \<Rightarrow> (IoFail e, s\<lparr>polls := ps\<rparr>)
        | PollTimeout \<Rightarrow> (IoFail ETIMEDOUT, s\<lparr>polls := ps\<rparr>)
        | _ \<Rightarrow> (case uninterrupted_read n (reads s) of (r, es) \<Rightarrow> (r, s\<lparr>polls := ps, reads := es\<rparr>))))"

text \<open>A write that returns how many bytes were taken, or why none could be.\<close>

datatype write_result = Wrote nat | WrFail errno | WrBlocks

fun uninterrupted_write :: "nat \<Rightarrow> write_event list \<Rightarrow> write_result \<times> write_event list" where
  "uninterrupted_write n [] = (WrBlocks, [])"
| "uninterrupted_write n (WrIntr # es) = uninterrupted_write n es"
| "uninterrupted_write n (WrError e # es) = (WrFail e, es)"
| "uninterrupted_write n (WrAccept k # es) = (Wrote (min k n), es)"

definition pipe_write :: "pipe \<Rightarrow> nat \<Rightarrow> write_event list \<Rightarrow> write_result \<times> write_event list" where
  "pipe_write p n es = (if write_fd p < 0 then (WrFail EBADF, es) else uninterrupted_write n es)"

lemma uninterrupted_write_shorter:
  "uninterrupted_write n es = (Wrote k, es') \<Longrightarrow> length es' < length es \<and> k \<le> n"
  by (induction n es rule: uninterrupted_write.induct) auto

lemma pipe_write_shorter: "pipe_write p n es = (Wrote k, es') \<Longrightarrow> length es' < length es \<and> k \<le> n"
  by (auto simp: pipe_write_def split: if_splits dest: uninterrupted_write_shorter)

section \<open>The pipe transport\<close>

record pipe_transport =
  to_peer :: pipe
  from_peer :: pipe

definition pt_is_connected :: "pipe_transport \<Rightarrow> bool" where
  "pt_is_connected t \<longleftrightarrow> pipe_valid (to_peer t) \<and> pipe_valid (from_peer t)"

definition pt_close :: "pipe_transport \<Rightarrow> sys \<Rightarrow> pipe_transport \<times> sys" where
  "pt_close t s = (case pipe_close (to_peer t) s of (p, s1) \<Rightarrow>
     (case pipe_close (from_peer t) s1 of (q, s2) \<Rightarrow> (\<lparr>to_peer = p, from_peer = q\<rparr>, s2)))"

definition pt_move :: "pipe_transport \<Rightarrow> pipe_transport \<times> pipe_transport" where
  "pt_move other = (case (pipe_move (to_peer other), pipe_move (from_peer other)) of
     ((p, p'), (q, q')) \<Rightarrow> (\<lparr>to_peer = p, from_peer = q\<rparr>, \<lparr>to_peer = p', from_peer = q'\<rparr>))"

definition pt_move_assign :: "bool \<Rightarrow> pipe_transport \<Rightarrow> pipe_transport \<Rightarrow> sys
    \<Rightarrow> (pipe_transport \<times> pipe_transport) \<times> sys" where
  "pt_move_assign same this other s =
    (if same then ((this, this), s)
     else case pipe_move_assign False (to_peer this) (to_peer other) s of
       ((p, p'), s) \<Rightarrow> (case pipe_move_assign False (from_peer this) (from_peer other) s of
         ((q, q'), s) \<Rightarrow> ((\<lparr>to_peer = p, from_peer = q\<rparr>, \<lparr>to_peer = p', from_peer = q'\<rparr>), s)))"

text \<open>The loop of \<^verbatim>\<open>send\<close>: \<open>data\<close> is what is left of the message from \<^verbatim>\<open>offset\<close> on.\<close>

function pt_send_loop :: "pipe \<Rightarrow> byte list \<Rightarrow> write_event list \<Rightarrow> byte list
    \<Rightarrow> unit res \<times> write_event list \<times> byte list" where
  "pt_send_loop p data es out =
    (if data = [] then (Inr (), es, out)
     else case pipe_write p (length data) es of
       (WrFail e, es') \<Rightarrow> (Inl (ServiceError (''PipeTransport: write failed: '' @ strerror e)), es', out)
     | (WrBlocks, es') \<Rightarrow> (Inl Diverges, es', out)
     | (Wrote k, es') \<Rightarrow> pt_send_loop p (drop k data) es' (out @ take k data))"
  by pat_completeness auto
termination
  by (relation "measure (\<lambda>(p, data, es, out). length es)") (auto dest!: pipe_write_shorter [OF sym])

declare pt_send_loop.simps [simp del]

definition pt_send :: "pipe_transport \<Rightarrow> buffer \<Rightarrow> (sys, unit) step" where
  "pt_send t msg s =
    (if \<not> pt_is_connected t then (Inl (ServiceError ''PipeTransport: not connected''), s)
     else case pt_send_loop (to_peer t) (contents msg) (writes s) (written s) of
       (r, ws, out) \<Rightarrow> (r, s\<lparr>writes := ws, written := out\<rparr>))"

text \<open>The bytes of the header go into the buffer, and are decoded from it.\<close>

definition store_header :: "byte list \<Rightarrow> buffer \<Rightarrow> (header \<times> buffer) res" where
  "store_header bs msg = rbind (buffer_write bs msg) (\<lambda>m. decode_header (reset_read m))"

text \<open>How a loop that fills \<open>n\<close> bytes from the stream ends.\<close>

datatype fill = Filled "byte list" | FillEof | FillFail errno | FillBlocks

lemma uninterrupted_read_shorter:
  "uninterrupted_read n es = (IoData bs, es') \<Longrightarrow> length bs \<le> n"
  by (induction n es rule: uninterrupted_read.induct) (auto split: if_splits)

function pt_fill :: "pipe \<Rightarrow> nat \<Rightarrow> byte list \<Rightarrow> read_event list \<Rightarrow> fill \<times> read_event list" where
  "pt_fill p n got es =
    (if n \<le> length got then (Filled got, es)
     else case pipe_read p (n - length got) es of
       (IoData bs, es') \<Rightarrow> if bs = [] then (FillEof, es') else pt_fill p n (got @ bs) es'
     | (IoFail e, es') \<Rightarrow> (FillFail e, es')
     | (_, es') \<Rightarrow> (FillBlocks, es'))"
  by pat_completeness auto
termination
  by (relation "measure (\<lambda>(p, n, got, es). n - length got)") (auto intro!: diff_less_mono2)

declare pt_fill.simps [simp del]

text \<open>\<^verbatim>\<open>receive\<close>: \<open>timeout_ms < 0\<close> blocks. The state is the caller's buffer and the kernel.\<close>

definition pt_receive :: "pipe_transport \<Rightarrow> int \<Rightarrow> (buffer \<times> sys, bool) step" where
  "pt_receive t timeout_ms = (\<lambda>(msg, s).
    if \<not> pt_is_connected t then (Inr False, msg, s)
    else
      let msg = buffer_reset msg;
          (n, s) = (if timeout_ms \<ge> 0 then pipe_read_timeout (from_peer t) 16 s
            else case pipe_read (from_peer t) 16 (reads s) of (n, es) \<Rightarrow> (n, s\<lparr>reads := es\<rparr>))
      in case n of
        IoFail e \<Rightarrow> (Inl (ServiceError (if e = ETIMEDOUT then ''PipeTransport: read timeout''
            else ''PipeTransport: read failed: '' @ strerror e)), msg, s)
      | IoData bs \<Rightarrow>
          if bs = [] then (Inr False, msg, s)
          else if length bs \<noteq> 16
          then (Inl (ProtocolError ''PipeTransport: incomplete header received''), msg, s)
          else (case store_header bs msg of
            Inl e \<Rightarrow> (Inl e, msg, s)
          | Inr (hdr, msg) \<Rightarrow>
              if hdr_payload_size hdr > 0 then
                if unat (hdr_payload_size hdr) > k_max_payload_size
                then (Inl (ProtocolError ''PipeTransport: payload size exceeds maximum''), msg, s)
                else (case pt_fill (from_peer t) (unat (hdr_payload_size hdr)) [] (reads s) of
                  (Filled payload, es) \<Rightarrow>
                    (case buffer_write payload msg of
                      Inl e \<Rightarrow> (Inl e, msg, s\<lparr>reads := es\<rparr>)
                    | Inr msg \<Rightarrow> (Inr True, reset_read msg, s\<lparr>reads := es\<rparr>))
                | (FillEof, es) \<Rightarrow>
                    (Inl (ServiceError ''PipeTransport: pipe closed during payload read''), msg, s\<lparr>reads := es\<rparr>)
                | (FillFail e, es) \<Rightarrow>
                    (Inl (ServiceError ''PipeTransport: failed to read payload''), msg, s\<lparr>reads := es\<rparr>)
                | (FillBlocks, es) \<Rightarrow> (Inl Diverges, msg, s\<lparr>reads := es\<rparr>))
              else (Inr True, reset_read msg, s))
      | _ \<Rightarrow> (Inl Diverges, msg, s))"

section \<open>The TCP transport\<close>

record tcp =
  tcp_sock :: int
  tcp_peer_addr :: string
  tcp_peer_port :: u16

definition tcp_new :: tcp where
  "tcp_new = \<lparr>tcp_sock = -1, tcp_peer_addr = [], tcp_peer_port = 0\<rparr>"

definition tcp_is_connected :: "tcp \<Rightarrow> bool" where
  "tcp_is_connected t \<longleftrightarrow> tcp_sock t \<ge> 0"

definition tcp_close :: "(tcp \<times> sys) \<Rightarrow> tcp \<times> sys" where
  "tcp_close = (\<lambda>(t, s).
    (\<lparr>tcp_sock = (if tcp_sock t \<ge> 0 then -1 else tcp_sock t), tcp_peer_addr = [], tcp_peer_port = 0\<rparr>,
     if tcp_sock t \<ge> 0 then sys_close (tcp_sock t) s else s))"

text \<open>A moved-from string is unspecified; the standard libraries in use leave it empty.\<close>

definition tcp_move :: "tcp \<Rightarrow> tcp \<times> tcp" where
  "tcp_move other = (\<lparr>tcp_sock = tcp_sock other, tcp_peer_addr = tcp_peer_addr other,
      tcp_peer_port = tcp_peer_port other\<rparr>,
    \<lparr>tcp_sock = -1, tcp_peer_addr = [], tcp_peer_port = 0\<rparr>)"

definition tcp_move_assign :: "bool \<Rightarrow> tcp \<Rightarrow> tcp \<Rightarrow> sys \<Rightarrow> (tcp \<times> tcp) \<times> sys" where
  "tcp_move_assign same this other s =
    (if same then ((this, this), s)
     else case tcp_close (this, s) of (_, s') \<Rightarrow> (tcp_move other, s'))"

text \<open>What the calls of \<^verbatim>\<open>connect\<close> return: \<^verbatim>\<open>getaddrinfo\<close>, \<^verbatim>\<open>socket\<close>, \<^verbatim>\<open>fcntl\<close>, \<^verbatim>\<open>connect\<close>,
  \<^verbatim>\<open>getsockopt\<close> and the pending socket error it reports.\<close>

record connect_calls =
  cc_resolve :: "string option"
  cc_socket :: "errno + int"
  cc_flags_ok :: bool
  cc_connect :: "errno option"
  cc_getsockopt :: "errno option"
  cc_so_error :: "errno option"

definition tcp_connect :: "connect_calls \<Rightarrow> string \<Rightarrow> u16 \<Rightarrow> int \<Rightarrow> (tcp \<times> sys, unit) step" where
  "tcp_connect c host port timeout_ms ts =
    (let ts = tcp_close ts in
     case cc_resolve c of
       Some m \<Rightarrow>
         (Inl (ServiceError (''TcpTransport: failed to resolve host '' @ quoted host @ '': '' @ m)), ts)
     | None \<Rightarrow>
       (case cc_socket c of
          Inl e \<Rightarrow> (Inl (ServiceError (''TcpTransport: failed to create socket: '' @ strerror e)),
                    ((fst ts)\<lparr>tcp_sock := -1\<rparr>, snd ts))
        | Inr fd \<Rightarrow>
          let t = (fst ts)\<lparr>tcp_sock := fd\<rparr>;
              nb = (timeout_ms > 0 \<and> cc_flags_ok c);
              s = (if nb then sys_option fd NonBlocking (snd ts) else snd ts);
              whom = host @ '':'' @ dec_string (unat port);
              failed = (\<lambda>m s. (Inl (ServiceError m), tcp_close (t, s)));
              connected = (\<lambda>s. (Inr (), t\<lparr>tcp_peer_addr := host, tcp_peer_port := port\<rparr>,
                 sys_option fd NoDelay (if nb then sys_option fd Blocking s else s)))
          in case cc_connect c of
            None \<Rightarrow> connected s
          | Some e \<Rightarrow>
            if e = EINPROGRESS \<and> timeout_ms > 0
            then (case poll_loop (polls s) of (ev, ps) \<Rightarrow>
              let s = s\<lparr>polls := ps\<rparr> in
              case ev of
                PollTimeout \<Rightarrow> failed (''TcpTransport: connection timeout to '' @ whom) s
              | PollError pe \<Rightarrow> failed (''TcpTransport: poll failed: '' @ strerror pe) s
              | _ \<Rightarrow>
                (case cc_getsockopt c of
                   Some ge \<Rightarrow> failed (''TcpTransport: getsockopt failed: '' @ strerror ge) s
                 | None \<Rightarrow>
                   (case cc_so_error c of
                      Some se \<Rightarrow> failed (''TcpTransport: connection failed to '' @ whom @ '': '' @ strerror se) s
                    | None \<Rightarrow> connected s)))
            else failed (''TcpTransport: connection failed to '' @ whom @ '': '' @ strerror e) s))"

fun tcp_send_loop :: "byte list \<Rightarrow> write_event list \<Rightarrow> byte list \<Rightarrow> unit res \<times> write_event list \<times> byte list" where
  "tcp_send_loop [] es out = (Inr (), es, out)"
| "tcp_send_loop (d # ds) [] out = (Inl Diverges, [], out)"
| "tcp_send_loop (d # ds) (WrIntr # es) out = tcp_send_loop (d # ds) es out"
| "tcp_send_loop (d # ds) (WrError e # es) out =
    (Inl (ServiceError (''TcpTransport: send failed: '' @ strerror e)), es, out)"
| "tcp_send_loop (d # ds) (WrAccept k # es) out =
    (if k = 0 then (Inl (ServiceError ''TcpTransport: connection closed''), es, out)
     else tcp_send_loop (drop k (d # ds)) es (out @ take k (d # ds)))"

definition tcp_send :: "tcp \<Rightarrow> buffer \<Rightarrow> (sys, unit) step" where
  "tcp_send t msg s =
    (if tcp_sock t < 0 then (Inl (ServiceError ''TcpTransport: not connected''), s)
     else case tcp_send_loop (contents msg) (writes s) (written s) of
       (r, ws, out) \<Rightarrow> (r, s\<lparr>writes := ws, written := out\<rparr>))"

text \<open>The two loops of \<^verbatim>\<open>receive\<close> around \<^verbatim>\<open>recv\<close>, which go on after \<^verbatim>\<open>EINTR\<close>.\<close>

lemma sys_read_shorter: "sys_read n es = (IoIntr, es') \<Longrightarrow> length es' < length es"
  by (cases "(n, es)" rule: sys_read.cases) auto

function tcp_fill :: "nat \<Rightarrow> byte list \<Rightarrow> read_event list \<Rightarrow> fill \<times> read_event list" where
  "tcp_fill n got es =
    (if n \<le> length got then (Filled got, es)
     else case sys_read (n - length got) es of
       (IoData bs, es') \<Rightarrow> if bs = [] then (FillEof, es') else tcp_fill n (got @ bs) es'
     | (IoIntr, es') \<Rightarrow> tcp_fill n got es'
     | (IoFail e, es') \<Rightarrow> (FillFail e, es')
     | (IoBlocks, es') \<Rightarrow> (FillBlocks, es'))"
  by pat_completeness auto
termination
  by (relation "measures [\<lambda>(n, got, es). n - length got, \<lambda>(n, got, es). length es]")
    (auto intro!: diff_less_mono2 dest!: sys_read_shorter [OF sym])

declare tcp_fill.simps [simp del]

text \<open>The wait at the start of \<^verbatim>\<open>receive\<close>: an error, or whether to go on.\<close>

definition tcp_wait :: "int \<Rightarrow> (sys, bool) step" where
  "tcp_wait timeout_ms s =
    (if timeout_ms < 0 then (Inr True, s)
     else case poll_loop (polls s) of (ev, ps) \<Rightarrow>
       (case ev of
          PollTimeout \<Rightarrow> (Inl (ServiceError ''TcpTransport: read timeout''), s\<lparr>polls := ps\<rparr>)
        | PollError e \<Rightarrow> (Inl (ServiceError (''TcpTransport: poll failed: '' @ strerror e)), s\<lparr>polls := ps\<rparr>)
        | PollReady err inp \<Rightarrow> (Inr (\<not> (err \<and> \<not> inp)), s\<lparr>polls := ps\<rparr>)
        | PollIntr \<Rightarrow> (Inl Diverges, s\<lparr>polls := ps\<rparr>)))"

definition tcp_receive :: "tcp \<Rightarrow> int \<Rightarrow> (buffer \<times> sys, bool) step" where
  "tcp_receive t timeout_ms = (\<lambda>(msg, s).
    if tcp_sock t < 0 then (Inr False, msg, s)
    else case tcp_wait timeout_ms s of
      (Inl e, s) \<Rightarrow> (Inl e, msg, s)
    | (Inr False, s) \<Rightarrow> (Inr False, msg, s)
    | (Inr True, s) \<Rightarrow>
      let msg = buffer_reset msg in
      (case tcp_fill 16 [] (reads s) of
        (FillEof, es) \<Rightarrow> (Inr False, msg, s\<lparr>reads := es\<rparr>)
      | (FillFail e, es) \<Rightarrow>
          (Inl (ServiceError (''TcpTransport: recv failed: '' @ strerror e)), msg, s\<lparr>reads := es\<rparr>)
      | (FillBlocks, es) \<Rightarrow> (Inl Diverges, msg, s\<lparr>reads := es\<rparr>)
      | (Filled bs, es) \<Rightarrow>
        (case store_header bs msg of
          Inl e \<Rightarrow> (Inl e, msg, s\<lparr>reads := es\<rparr>)
        | Inr (hdr, msg) \<Rightarrow>
          if hdr_payload_size hdr > 0 then
            if unat (hdr_payload_size hdr) > k_max_payload_size
            then (Inl (ProtocolError ''TcpTransport: payload size exceeds maximum''), msg, s\<lparr>reads := es\<rparr>)
            else (case tcp_fill (unat (hdr_payload_size hdr)) [] es of
              (Filled payload, es) \<Rightarrow>
                (case buffer_write payload msg of
                  Inl e \<Rightarrow> (Inl e, msg, s\<lparr>reads := es\<rparr>)
                | Inr msg \<Rightarrow> (Inr True, reset_read msg, s\<lparr>reads := es\<rparr>))
            | (FillEof, es) \<Rightarrow>
                (Inl (ServiceError ''TcpTransport: connection closed during payload read''), msg, s\<lparr>reads := es\<rparr>)
            | (FillFail e, es) \<Rightarrow>
                (Inl (ServiceError ''TcpTransport: failed to read payload''), msg, s\<lparr>reads := es\<rparr>)
            | (FillBlocks, es) \<Rightarrow> (Inl Diverges, msg, s\<lparr>reads := es\<rparr>))
          else (Inr True, reset_read msg, s\<lparr>reads := es\<rparr>))))"

section \<open>The TCP listener\<close>

record listener =
  lst_sock :: int
  lst_port :: u16

definition lst_new :: listener where
  "lst_new = \<lparr>lst_sock = -1, lst_port = 0\<rparr>"

definition lst_is_listening :: "listener \<Rightarrow> bool" where
  "lst_is_listening l \<longleftrightarrow> lst_sock l \<ge> 0"

definition lst_close :: "(listener \<times> sys) \<Rightarrow> listener \<times> sys" where
  "lst_close = (\<lambda>(l, s).
    (\<lparr>lst_sock = (if lst_sock l \<ge> 0 then -1 else lst_sock l), lst_port = 0\<rparr>,
     if lst_sock l \<ge> 0 then sys_close (lst_sock l) s else s))"

definition lst_move :: "listener \<Rightarrow> listener \<times> listener" where
  "lst_move other = (\<lparr>lst_sock = lst_sock other, lst_port = lst_port other\<rparr>,
     \<lparr>lst_sock = -1, lst_port = 0\<rparr>)"

definition lst_move_assign :: "bool \<Rightarrow> listener \<Rightarrow> listener \<Rightarrow> sys \<Rightarrow> (listener \<times> listener) \<times> sys" where
  "lst_move_assign same this other s =
    (if same then ((this, this), s)
     else case lst_close (this, s) of (_, s') \<Rightarrow> (lst_move other, s'))"

text \<open>What the calls of \<^verbatim>\<open>listen\<close> return; \<open>lc_pton\<close> says that the bind address parses.\<close>

record listen_calls =
  lc_socket :: "errno + int"
  lc_pton :: bool
  lc_bind :: "errno option"
  lc_getsockname :: "errno + u16"
  lc_listen :: "errno option"

definition lst_listen :: "listen_calls \<Rightarrow> u16 \<Rightarrow> string \<Rightarrow> (listener \<times> sys, unit) step" where
  "lst_listen c port bind_address ls =
    (let ls = lst_close ls in
     case lc_socket c of
       Inl e \<Rightarrow> (Inl (ServiceError (''TcpListener: failed to create socket: '' @ strerror e)),
                 ((fst ls)\<lparr>lst_sock := -1\<rparr>, snd ls))
     | Inr fd \<Rightarrow>
       let l = (fst ls)\<lparr>lst_sock := fd\<rparr>;
           s = sys_option fd ReuseAddr (snd ls)
       in if bind_address \<noteq> [] \<and> \<not> lc_pton c
       then (Inl (ServiceError (''TcpListener: invalid bind address '' @ quoted bind_address)), lst_close (l, s))
       else (case lc_bind c of
         Some e \<Rightarrow> (Inl (ServiceError (''TcpListener: failed to bind to port '' @ dec_string (unat port)
             @ '': '' @ strerror e)), lst_close (l, s))
       | None \<Rightarrow>
         (case (if port = 0 then lc_getsockname c else Inr port) of
            Inl e \<Rightarrow> (Inl (ServiceError (''TcpListener: getsockname failed: '' @ strerror e)), lst_close (l, s))
          | Inr p \<Rightarrow>
            let l = l\<lparr>lst_port := p\<rparr> in
            (case lc_listen c of
               Some e \<Rightarrow> (Inl (ServiceError (''TcpListener: failed to listen: '' @ strerror e)), lst_close (l, s))
             | None \<Rightarrow> (Inr (), l, s)))))"

text \<open>\<^verbatim>\<open>accept\<close>: the call's socket and peer, or its error.\<close>

definition lst_accept :: "listener \<Rightarrow> errno + (int \<times> string \<times> u16) \<Rightarrow> int \<Rightarrow> (sys, tcp option) step" where
  "lst_accept l conn timeout_ms s =
    (let accept = (\<lambda>s. case conn of
        Inl e \<Rightarrow> (Inl (ServiceError (''TcpListener: accept failed: '' @ strerror e)), s)
      | Inr (fd, addr, port) \<Rightarrow>
          (Inr (Some \<lparr>tcp_sock = fd, tcp_peer_addr = addr, tcp_peer_port = port\<rparr>), sys_option fd NoDelay s))
     in if lst_sock l < 0 then (Inl (ServiceError ''TcpListener: not listening''), s)
     else if timeout_ms < 0 then accept s
     else case poll_loop (polls s) of (ev, ps) \<Rightarrow>
       (case ev of
          PollTimeout \<Rightarrow> (Inr None, s\<lparr>polls := ps\<rparr>)
        | PollError e \<Rightarrow> (Inl (ServiceError (''TcpListener: poll failed: '' @ strerror e)), s\<lparr>polls := ps\<rparr>)
        | _ \<Rightarrow> accept (s\<lparr>polls := ps\<rparr>)))"

section \<open>What a stream still holds\<close>

text \<open>
  The bytes that can be read before the stream ends, fails or blocks, and which of the three
  then happens. A result that depends on these two only does not depend on how the kernel
  cut the data into pieces, or on the interruptions.
\<close>

fun buffered :: "read_event list \<Rightarrow> byte list" where
  "buffered [] = []"
| "buffered (RdIntr # es) = buffered es"
| "buffered (RdError e # es) = []"
| "buffered (RdData bs # es) = (if bs = [] then [] else bs @ buffered es)"

fun stream_end :: "read_event list \<Rightarrow> fill" where
  "stream_end [] = FillBlocks"
| "stream_end (RdIntr # es) = stream_end es"
| "stream_end (RdError e # es) = FillFail e"
| "stream_end (RdData bs # es) = (if bs = [] then FillEof else stream_end es)"

lemma stream_end_not_filled [simp]: "stream_end es \<noteq> Filled bs"
  by (induction es rule: stream_end.induct) auto

definition read_spec :: "nat \<Rightarrow> io \<times> read_event list \<Rightarrow> read_event list \<Rightarrow> bool" where
  "read_spec n r es = (case r of
      (IoData bs, es') \<Rightarrow> if bs = [] then buffered es = [] \<and> stream_end es = FillEof
        else length bs \<le> n \<and> buffered es = bs @ buffered es' \<and> stream_end es' = stream_end es
    | (IoIntr, es') \<Rightarrow> buffered es' = buffered es \<and> stream_end es' = stream_end es
    | (IoFail e, es') \<Rightarrow> buffered es = [] \<and> stream_end es = FillFail e
    | (IoBlocks, es') \<Rightarrow> buffered es = [] \<and> stream_end es = FillBlocks)"

lemma read_spec_sys_read: "0 < n \<Longrightarrow> read_spec n (sys_read n es) es"
  by (cases "(n, es)" rule: sys_read.cases)
    (auto simp: read_spec_def min_def append_assoc [symmetric] simp del: append_assoc)

lemma read_spec_uninterrupted: "0 < n \<Longrightarrow> read_spec n (uninterrupted_read n es) es"
proof (induction n es rule: uninterrupted_read.induct)
  case (1 n es)
  then have "read_spec n (uninterrupted_read n es) es" by simp
  then show ?case by (simp add: read_spec_def split: prod.splits io.splits)
qed (simp_all add: read_spec_sys_read del: sys_read.simps)

lemma uninterrupted_read_no_intr: "uninterrupted_read n es \<noteq> (IoIntr, es')"
  by (induction n es rule: uninterrupted_read.induct) auto

definition fill_spec :: "nat \<Rightarrow> byte list \<Rightarrow> read_event list \<Rightarrow> fill \<times> read_event list \<Rightarrow> bool" where
  "fill_spec n got es r =
    (if n \<le> length got + length (buffered es)
     then fst r = Filled (got @ take (n - length got) (buffered es))
       \<and> buffered (snd r) = drop (n - length got) (buffered es) \<and> stream_end (snd r) = stream_end es
     else fst r = stream_end es)"

lemma fill_spec_more:
  assumes "fill_spec n (got @ bs) es' r" and "buffered es = bs @ buffered es'"
    and "stream_end es' = stream_end es" and "length bs \<le> n - length got" and "\<not> n \<le> length got"
  shows "fill_spec n got es r"
  using assms by (auto simp: fill_spec_def)

lemma tcp_fill_spec: "fill_spec n got es (tcp_fill n got es)"
proof (induction n got es rule: tcp_fill.induct)
  case (1 n got es)
  show ?case
  proof (cases "n \<le> length got")
    case True
    then show ?thesis by (simp add: tcp_fill.simps fill_spec_def)
  next
    case False
    then have "read_spec (n - length got) (sys_read (n - length got) es) es"
      by (simp add: read_spec_sys_read)
    with False 1 show ?thesis
      by (subst tcp_fill.simps)
        (auto simp: read_spec_def fill_spec_def split: prod.splits io.splits if_splits)
  qed
qed

lemma pt_fill_spec: "0 \<le> read_fd p \<Longrightarrow> fill_spec n got es (pt_fill p n got es)"
proof (induction p n got es rule: pt_fill.induct)
  case (1 p n got es)
  show ?case
  proof (cases "n \<le> length got")
    case True
    then show ?thesis by (simp add: pt_fill.simps fill_spec_def)
  next
    case False
    then have "read_spec (n - length got) (pipe_read p (n - length got) es) es"
      using 1(2) by (simp add: read_spec_uninterrupted pipe_read_def)
    moreover have "pipe_read p (n - length got) es \<noteq> (IoIntr, es')" for es'
      using 1(2) by (simp add: pipe_read_def uninterrupted_read_no_intr)
    ultimately show ?thesis
      using False 1
      by (subst pt_fill.simps)
        (auto simp: read_spec_def fill_spec_def split: prod.splits io.splits if_splits)
  qed
qed

section \<open>What receiving does to the stream\<close>

definition declared_payload :: "byte list \<Rightarrow> nat" where
  "declared_payload bs = unat (of_le (take 4 (drop 8 bs)) :: u32)"

text \<open>Receiving as a function of the bytes still in the stream and of how it ends: a message
  is a 16 byte header and as many bytes as it declares.\<close>

definition parse_frame :: "string \<Rightarrow> string \<Rightarrow> byte list \<Rightarrow> fill \<Rightarrow> byte list option res" where
  "parse_frame name gone bs fin =
    (if length bs < 16
     then (case fin of FillEof \<Rightarrow> Inr None
        | FillFail e \<Rightarrow> Inl (ServiceError (name @ '': recv failed: '' @ strerror e))
        | _ \<Rightarrow> Inl Diverges)
     else if declared_payload bs > k_max_payload_size
     then Inl (ProtocolError (name @ '': payload size exceeds maximum''))
     else if length bs < 16 + declared_payload bs
     then (case fin of FillEof \<Rightarrow> Inl (ServiceError (name @ '': '' @ gone @ '' closed during payload read''))
        | FillFail e \<Rightarrow> Inl (ServiceError (name @ '': failed to read payload''))
        | _ \<Rightarrow> Inl Diverges)
     else Inr (Some (take (16 + declared_payload bs) bs)))"

lemma header_payload: "hdr_payload_size h = of_le (take 4 (drop 8 (header_repr h)))"
  by (simp add: header_repr_def)

lemma store_header_run:
  assumes "buffer_ok msg" and "contents msg = []" and "length bs = 16"
  shows "\<exists>h. store_header bs msg = Inr (h, advance 16 (reset_read (appended bs msg)))
    \<and> header_repr h = bs \<and> unat (hdr_payload_size h) = declared_payload bs"
proof -
  let ?m = "reset_read (appended bs msg)"
  have m: "buffer_ok ?m" "unread ?m = bs"
    using assms by (simp_all add: codec_simps k_max_capacity_eq)
  then obtain h where h: "decode_header ?m = Inr (h, advance 16 ?m)" "header_repr h = bs"
    using header.dec_enough [of ?m] assms(3) by auto
  moreover have "hdr_payload_size h = of_le (take 4 (drop 8 bs))"
    using header_payload [of h] h(2) by simp
  ultimately show ?thesis
    using assms by (simp add: store_header_def codec_simps k_max_capacity_eq declared_payload_def)
qed

lemma read_pos_reset_read [simp]: "read_pos (reset_read b) = 0"
  by (simp add: reset_read_def)

lemma declared_payload_take: "12 \<le> n \<Longrightarrow> declared_payload (take n bs) = declared_payload bs"
  by (simp add: declared_payload_def drop_take min_def)

lemma declared_payload_wire [simp]:
  "length p \<le> k_max_payload_size \<Longrightarrow> declared_payload (wire_message t q p @ rest) = length p"
  by (simp add: declared_payload_def wire_message_def header_repr_def unat_of_nat k_max_payload_size_def)

lemma after_header:
  assumes "buffer_ok msg" and "length hb = 16" and "length payload \<le> k_max_payload_size"
  defines "m \<equiv> advance 16 (reset_read (appended hb (buffer_reset msg)))"
  shows "buffer_write payload m = Inr (appended payload m)"
    and "contents (reset_read (appended payload m)) = hb @ payload"
    and "buffer_ok (reset_read (appended payload m))"
    and "buffer_ok m"
proof -
  have "room (16 + length payload) (buffer_reset msg)"
    using assms(1,3) by (simp add: room_def k_max_capacity_eq k_max_payload_size_def)
  then have hb: "room (length payload) (appended hb (buffer_reset msg))"
    using assms(2) by simp
  then have "buffer_ok (appended hb (buffer_reset msg))" by (rule room_ok)
  then have m: "buffer_ok m" using assms(2) by (simp add: m_def)
  have "room (length payload) m"
    using m assms(2,3) by (simp add: room_def m_def k_max_capacity_eq k_max_payload_size_def)
  then show "buffer_write payload m = Inr (appended payload m)"
    and "buffer_ok (reset_read (appended payload m))" and "buffer_ok m"
    using m by (simp_all add: buffer_write_appended)
  show "contents (reset_read (appended payload m)) = hb @ payload" by (simp add: m_def)
qed

text \<open>How a call's result compares with the one expected of the stream.\<close>

definition received :: "byte list option res \<Rightarrow> sys \<Rightarrow> bool res \<times> buffer \<times> sys \<Rightarrow> bool" where
  "received want s r = (case want of
      Inl e \<Rightarrow> fst r = Inl e
    | Inr None \<Rightarrow> fst r = Inr False
    | Inr (Some m) \<Rightarrow> fst r = Inr True \<and> contents (fst (snd r)) = m \<and> read_pos (fst (snd r)) = 0
        \<and> buffer_ok (fst (snd r)) \<and> buffered (reads (snd (snd r))) = drop (length m) (buffered (reads s))
        \<and> stream_end (reads (snd (snd r))) = stream_end (reads s))"

lemma tcp_receive_spec:
  assumes "0 \<le> tcp_sock t" and "timeout_ms < 0" and "buffer_ok msg"
  shows "received (parse_frame ''TcpTransport'' ''connection'' (buffered (reads s)) (stream_end (reads s))) s
    (tcp_receive t timeout_ms (msg, s))"
proof -
  let ?bs = "buffered (reads s)" and ?fin = "stream_end (reads s)"
  obtain f es where f: "tcp_fill 16 [] (reads s) = (f, es)" by fastforce
  have spec: "fill_spec 16 [] (reads s) (f, es)"
    using tcp_fill_spec [of 16 "[]" "reads s"] f by simp
  show ?thesis
  proof (cases "length ?bs < 16")
    case True
    then have "f = ?fin" using spec by (simp add: fill_spec_def)
    with True f assms show ?thesis
      by (cases ?fin) (auto simp: received_def parse_frame_def tcp_receive_def tcp_wait_def)
  next
    case False
    let ?hb = "take 16 ?bs"
    from False have hb: "f = Filled ?hb" "buffered es = drop 16 ?bs" "stream_end es = ?fin" "length ?hb = 16"
      using spec by (simp_all add: fill_spec_def)
    obtain h where h: "store_header ?hb (buffer_reset msg)
        = Inr (h, advance 16 (reset_read (appended ?hb (buffer_reset msg))))"
      and n: "unat (hdr_payload_size h) = declared_payload ?bs"
      using store_header_run [of "buffer_reset msg" ?hb] hb(4) assms(3)
      by (auto simp: declared_payload_take)
    show ?thesis
    proof (cases "declared_payload ?bs > k_max_payload_size")
      case True
      then have "hdr_payload_size h > 0"
        using n by (simp add: word_less_nat_alt)
      with True False f hb h n assms show ?thesis
        by (simp add: received_def parse_frame_def tcp_receive_def tcp_wait_def)
    next
      case small: False
      obtain g es' where g: "tcp_fill (declared_payload ?bs) [] es = (g, es')" by fastforce
      have spec': "fill_spec (declared_payload ?bs) [] es (g, es')"
        using tcp_fill_spec [of "declared_payload ?bs" "[]" es] g by simp
      show ?thesis
      proof (cases "length ?bs < 16 + declared_payload ?bs")
        case True
        then have "g = ?fin" using spec' hb False by (simp add: fill_spec_def split: if_splits)
        moreover have "hdr_payload_size h > 0"
          using True False n by (simp add: word_less_nat_alt)
        ultimately show ?thesis
          using True False small f g hb h n assms
          by (cases ?fin) (auto simp: received_def parse_frame_def tcp_receive_def tcp_wait_def)
      next
        case enough: False
        let ?p = "take (declared_payload ?bs) (drop 16 ?bs)"
        have g': "g = Filled ?p" "buffered es' = drop (declared_payload ?bs) (drop 16 ?bs)"
            "stream_end es' = ?fin"
          using spec' hb enough by (auto simp: fill_spec_def split: if_splits)
        have p: "length ?p = declared_payload ?bs" using enough by simp
        note W = after_header [OF assms(3) hb(4), of ?p]
        show ?thesis
        proof (cases "hdr_payload_size h > 0")
          case True
          with False small enough f g g' hb h n assms W p show ?thesis
            by (simp add: received_def parse_frame_def tcp_receive_def tcp_wait_def take_add
                add.commute [where a = "declared_payload ?bs"])
        next
          case zero: False
          then have "declared_payload ?bs = 0" using n by (simp add: word_less_nat_alt)
          moreover have "buffer_ok (appended ?hb (buffer_reset msg))"
            using assms(3) hb(4) by (simp add: codec_simps k_max_capacity_eq)
          ultimately show ?thesis
            using zero False f hb h n assms
            by (simp add: received_def parse_frame_def tcp_receive_def tcp_wait_def)
        qed
      qed
    qed
  qed
qed

section \<open>The contract of a message source\<close>

text \<open>
  What the layers above rely on: a source that holds the bytes of a frame and then more
  delivers exactly that frame and holds the rest, and one that holds nothing reports the end
  of the stream.
\<close>

definition is_frame :: "byte list \<Rightarrow> bool" where
  "is_frame m \<longleftrightarrow> declared_payload m \<le> k_max_payload_size \<and> length m = 16 + declared_payload m"

lemma is_frame_wire_message: "length p \<le> k_max_payload_size \<Longrightarrow> is_frame (wire_message t q p)"
  using declared_payload_wire [of p t q "[]"] by (simp add: is_frame_def)

lemma declared_payload_append: "12 \<le> length m \<Longrightarrow> declared_payload (m @ rest) = declared_payload m"
  by (simp add: declared_payload_def)

lemma is_frame_prefix:
  assumes "is_frame m" and "is_frame m'" and "m @ rest = m' @ rest'"
  shows "m = m' \<and> rest = rest'"
proof -
  have "declared_payload (m @ rest) = declared_payload m" "declared_payload (m' @ rest') = declared_payload m'"
    using assms(1,2) by (auto simp: is_frame_def intro!: declared_payload_append)
  then have "length m = length m'"
    using assms by (simp add: is_frame_def)
  with assms(3) show ?thesis by simp
qed

text \<open>Calls \<^verbatim>\<open>receive\<close> on one buffer until the stream ends or \<open>n\<close> messages are in.\<close>

fun receive_many :: "(buffer \<times> 's, bool) step \<Rightarrow> nat \<Rightarrow> (buffer \<times> 's, byte list list) step" where
  "receive_many recv 0 ms = (Inr [], ms)"
| "receive_many recv (Suc n) ms = (case recv ms of
      (Inl e, ms') \<Rightarrow> (Inl e, ms')
    | (Inr False, ms') \<Rightarrow> (Inr [], ms')
    | (Inr True, ms') \<Rightarrow> sbind (receive_many recv n) (\<lambda>rest. sret (contents (fst ms') # rest)) ms')"

locale message_source =
  fixes recv :: "(buffer \<times> 's, bool) step"
    and holds :: "'s \<Rightarrow> byte list \<Rightarrow> bool"
  assumes recv_frame: "buffer_ok msg \<Longrightarrow> is_frame m \<Longrightarrow> holds s (m @ rest) \<Longrightarrow>
      \<exists>msg' s'. recv (msg, s) = (Inr True, msg', s') \<and> contents msg' = m \<and> read_pos msg' = 0
        \<and> buffer_ok msg' \<and> holds s' rest"
    and recv_end: "buffer_ok msg \<Longrightarrow> holds s [] \<Longrightarrow> fst (recv (msg, s)) = Inr False"
begin

text \<open>Frames come out complete, in order and each once, whatever the buffer held before.\<close>

lemma receive_all:
  assumes "buffer_ok msg" and "list_all is_frame fs" and "holds s (concat fs)" and "length fs < n"
  shows "fst (receive_many recv n (msg, s)) = Inr fs"
  using assms
proof (induction fs arbitrary: n msg s)
  case Nil
  then obtain k where n: "n = Suc k" by (cases n) auto
  have "fst (recv (msg, s)) = Inr False" using Nil by (simp add: recv_end)
  then show ?case by (cases "recv (msg, s)") (simp add: n)
next
  case (Cons f fs)
  then obtain k where n: "n = Suc k" and k: "length fs < k" by (cases n) auto
  from Cons.prems recv_frame [of msg f s "concat fs"] obtain msg' s'
    where r: "recv (msg, s) = (Inr True, msg', s')" "contents msg' = f" "buffer_ok msg'" "holds s' (concat fs)"
    by auto
  have "fst (receive_many recv k (msg', s')) = Inr fs"
    using Cons.prems(2) r k by (intro Cons.IH) simp_all
  then show ?case
    using r by (cases "receive_many recv k (msg', s')") (simp add: n sbind_apply sret_def)
qed

lemma receive_first:
  assumes "buffer_ok msg" and "is_frame m" and "holds s (m @ rest)"
  obtains msg' s' where "recv (msg, s) = (Inr True, msg', s')" "unread msg' = m" "buffer_ok msg'" "holds s' rest"
  using recv_frame [OF assms] by (auto simp: unread_def)

end

text \<open>A TCP transport is such a source however the kernel delivers the bytes.\<close>

definition tcp_holds :: "sys \<Rightarrow> byte list \<Rightarrow> bool" where
  "tcp_holds s bs \<longleftrightarrow> buffered (reads s) = bs \<and> stream_end (reads s) = FillEof"

lemma parse_frame_frame:
  "is_frame m \<Longrightarrow> parse_frame name gone (m @ rest) e = Inr (Some m)"
  by (auto simp: parse_frame_def is_frame_def declared_payload_append)

lemma tcp_message_source:
  assumes "0 \<le> tcp_sock t" and "timeout_ms < 0"
  shows "message_source (tcp_receive t timeout_ms) tcp_holds"
proof
  fix msg m s rest
  assume "buffer_ok msg" and "is_frame m" and "tcp_holds s (m @ rest)"
  then show "\<exists>msg' s'. tcp_receive t timeout_ms (msg, s) = (Inr True, msg', s') \<and> contents msg' = m
      \<and> read_pos msg' = 0 \<and> buffer_ok msg' \<and> tcp_holds s' rest"
    using tcp_receive_spec [OF assms, of msg s]
    by (cases "tcp_receive t timeout_ms (msg, s)")
      (auto simp: tcp_holds_def received_def parse_frame_frame)
next
  fix msg s
  assume "buffer_ok msg" and "tcp_holds s []"
  then show "fst (tcp_receive t timeout_ms (msg, s)) = Inr False"
    using tcp_receive_spec [OF assms, of msg s] by (simp add: tcp_holds_def received_def parse_frame_def)
qed

interpretation tcp_src: message_source "tcp_receive \<lparr>tcp_sock = int fd, tcp_peer_addr = addr, tcp_peer_port = port\<rparr> (-1)" tcp_holds
  for fd addr port
  by (rule tcp_message_source) simp_all

text \<open>A pipe transport reads the header with one call, so it is a message source only when
  each message arrives in one piece.\<close>

definition uninterrupted :: "read_event list \<Rightarrow> read_event list" where
  "uninterrupted es = filter (\<lambda>e. e \<noteq> RdIntr) es"

definition pipe_holds :: "sys \<Rightarrow> byte list \<Rightarrow> bool" where
  "pipe_holds s bs \<longleftrightarrow> (\<exists>ms. list_all is_frame ms \<and> bs = concat ms
     \<and> uninterrupted (reads s) = map RdData ms @ [RdData []])"

lemma uninterrupted_read_uninterrupted:
  "uninterrupted_read n es = (r, es') \<Longrightarrow> sys_read n (uninterrupted es) = (r, uninterrupted es')"
  by (induction n es rule: uninterrupted_read.induct) (auto simp: uninterrupted_def)

lemma uninterrupted_read_step:
  assumes "uninterrupted es = RdData bs # tail" and "bs \<noteq> []"
  shows "\<exists>es'. uninterrupted_read n es = (IoData (take n bs), es')
    \<and> uninterrupted es' = (if length bs \<le> n then tail else RdData (drop n bs) # tail)"
proof -
  obtain r es' where r: "uninterrupted_read n es = (r, es')" by fastforce
  with uninterrupted_read_uninterrupted [OF r] assms show ?thesis by auto
qed

lemma pt_fill_step:
  assumes "0 \<le> read_fd p" and "uninterrupted es = RdData bs # tail" and "bs \<noteq> []"
  shows "\<exists>es'. pt_fill p (length bs) [] es = (Filled bs, es') \<and> uninterrupted es' = tail"
proof -
  obtain es' where "uninterrupted_read (length bs) es = (IoData bs, es')" "uninterrupted es' = tail"
    using uninterrupted_read_step [OF assms(2,3), of "length bs"] by auto
  with assms(1,3) show ?thesis
    by (subst pt_fill.simps) (simp add: pipe_read_def pt_fill.simps)
qed

lemma pt_receive_piece:
  assumes t: "pt_is_connected t" "0 \<le> read_fd (from_peer t)" and "timeout_ms < 0" and msg: "buffer_ok msg"
    and m: "is_frame m" and es: "uninterrupted (reads s) = RdData m # tail"
  shows "\<exists>msg' s'. pt_receive t timeout_ms (msg, s) = (Inr True, msg', s') \<and> contents msg' = m
    \<and> read_pos msg' = 0 \<and> buffer_ok msg' \<and> uninterrupted (reads s') = tail"
proof -
  let ?p = "drop 16 m"
  have len: "length m = 16 + declared_payload m" "length ?p = declared_payload m" "length ?p \<le> k_max_payload_size"
    and ne: "m \<noteq> []"
    using m by (auto simp: is_frame_def)
  obtain es1 where r: "uninterrupted_read 16 (reads s) = (IoData (take 16 m), es1)"
    and es1: "uninterrupted es1 = (if length m \<le> 16 then tail else RdData ?p # tail)"
    using uninterrupted_read_step [OF es ne, of 16] by auto
  obtain h where h: "store_header (take 16 m) (buffer_reset msg)
      = Inr (h, advance 16 (reset_read (appended (take 16 m) (buffer_reset msg))))"
    and n: "unat (hdr_payload_size h) = declared_payload m"
    using store_header_run [of "buffer_reset msg" "take 16 m"] len(1) msg
    by (auto simp: declared_payload_take)
  have hb: "length (take 16 m) = 16" using len(1) by simp
  show ?thesis
  proof (cases "declared_payload m = 0")
    case True
    then have "m = take 16 m" using len(1) by simp
    moreover have "\<not> hdr_payload_size h > 0" using n True by (simp add: word_less_nat_alt)
    moreover have "buffer_ok (appended (take 16 m) (buffer_reset msg))"
      using msg hb by (simp add: codec_simps k_max_capacity_eq)
    ultimately show ?thesis
      using assms r es1 h hb True len(1)
      by (simp add: pt_receive_def pipe_read_def Let_def ne)
  next
    case False
    then have pos: "hdr_payload_size h > 0" using n by (simp add: word_less_nat_alt)
    have p: "?p \<noteq> []" using False len by auto
    with es1 len obtain es2 where f: "pt_fill (from_peer t) (length ?p) [] es1 = (Filled ?p, es2)"
      and es2: "uninterrupted es2 = tail"
      using pt_fill_step [OF t(2), of es1 ?p tail] False by auto
    note W = after_header [OF msg hb len(3)]
    from False pos f es2 r h hb n len t assms(3) W show ?thesis
      by (simp add: pt_receive_def pipe_read_def Let_def ne)
  qed
qed

lemma pipe_message_source:
  assumes t: "pt_is_connected t" "0 \<le> read_fd (from_peer t)" and "timeout_ms < 0"
  shows "message_source (pt_receive t timeout_ms) pipe_holds"
proof
  fix msg m s rest
  assume msg: "buffer_ok msg" and m: "is_frame m" and "pipe_holds s (m @ rest)"
  then obtain ms where ms: "list_all is_frame ms" "m @ rest = concat ms"
    "uninterrupted (reads s) = map RdData ms @ [RdData []]"
    by (auto simp: pipe_holds_def)
  from m ms(2) obtain m' ms' where ms': "ms = m' # ms'"
    by (cases ms) (auto simp: is_frame_def)
  with is_frame_prefix [OF m, of m' rest "concat ms'"] ms have "m' = m" "rest = concat ms'" by auto
  with pt_receive_piece [OF t assms(3) msg m, of s "map RdData ms' @ [RdData []]"] ms ms'
  show "\<exists>msg' s'. pt_receive t timeout_ms (msg, s) = (Inr True, msg', s') \<and> contents msg' = m
      \<and> read_pos msg' = 0 \<and> buffer_ok msg' \<and> pipe_holds s' rest"
    by (auto simp: pipe_holds_def)
next
  fix msg s
  assume "buffer_ok msg" and "pipe_holds s []"
  then obtain ms where "list_all is_frame ms" "[] = concat ms" "uninterrupted (reads s) = map RdData ms @ [RdData []]"
    by (auto simp: pipe_holds_def)
  then have "uninterrupted (reads s) = [RdData []]"
    by (cases ms) (auto simp: is_frame_def)
  then have "fst (uninterrupted_read 16 (reads s)) = IoData []"
    using uninterrupted_read_uninterrupted [of 16 "reads s"]
    by (cases "uninterrupted_read 16 (reads s)") auto
  with assms show "fst (pt_receive t timeout_ms (msg, s)) = Inr False"
    by (cases "uninterrupted_read 16 (reads s)") (simp add: pt_receive_def pipe_read_def Let_def)
qed

interpretation pipe_src: message_source "pt_receive
    \<lparr>to_peer = \<lparr>read_fd = -1, write_fd = int w\<rparr>, from_peer = \<lparr>read_fd = int r, write_fd = -1\<rparr>\<rparr> (-1)" pipe_holds
  for r w
  by (rule pipe_message_source) (simp_all add: pt_is_connected_def pipe_valid_def)

section \<open>Sending\<close>

text \<open>Whatever the kernel accepts, what has gone out is a prefix of the message, and all of it
  exactly when \<^verbatim>\<open>send\<close> returns.\<close>

lemma sent_more:
  assumes "drop k data = sent @ rest" and "out' = (out @ take k data) @ sent" and "P \<longleftrightarrow> rest = []"
  shows "\<exists>sent rest. data = sent @ rest \<and> out' = out @ sent \<and> (P \<longleftrightarrow> rest = [])"
proof (intro exI conjI)
  show "data = (take k data @ sent) @ rest"
    using append_take_drop_id [of k data] assms(1) by simp
qed (use assms in simp_all)

lemma tcp_send_loop_prefix:
  "tcp_send_loop data es out = (r, es', out') \<Longrightarrow>
    \<exists>sent rest. data = sent @ rest \<and> out' = out @ sent \<and> (r = Inr () \<longleftrightarrow> rest = [])"
proof (induction data es out rule: tcp_send_loop.induct)
  case (5 d ds k es out)
  show ?case
  proof (cases "k = 0")
    case True
    then show ?thesis using 5 by auto
  next
    case False
    with 5 obtain sent rest where "drop k (d # ds) = sent @ rest" "out' = (out @ take k (d # ds)) @ sent"
      "r = Inr () \<longleftrightarrow> rest = []" by auto
    then show ?thesis by (rule sent_more)
  qed
qed auto

lemma pt_send_loop_prefix:
  "pt_send_loop p data es out = (r, es', out') \<Longrightarrow>
    \<exists>sent rest. data = sent @ rest \<and> out' = out @ sent \<and> (r = Inr () \<longleftrightarrow> rest = [])"
proof (induction p data es out rule: pt_send_loop.induct)
  case (1 p data es out)
  show ?case
  proof (cases "data = []")
    case True
    with 1(2) show ?thesis by (simp add: pt_send_loop.simps)
  next
    case False
    show ?thesis
    proof (cases "\<exists>k es1. pipe_write p (length data) es = (Wrote k, es1)")
      case True
      then obtain k es1 where w: "pipe_write p (length data) es = (Wrote k, es1)" by blast
      with False 1(2) have "pt_send_loop p (drop k data) es1 (out @ take k data) = (r, es', out')"
        by (subst (asm) pt_send_loop.simps) simp
      with False w 1(1) obtain sent rest where "drop k data = sent @ rest"
        "out' = (out @ take k data) @ sent" "r = Inr () \<longleftrightarrow> rest = []" by (metis prod.collapse)
      then show ?thesis by (rule sent_more)
    next
      case stuck: False
      with False 1(2) show ?thesis
        by (subst (asm) pt_send_loop.simps) (auto split: prod.splits write_result.splits)
    qed
  qed
qed

definition sent_prefix :: "('s \<Rightarrow> byte list) \<Rightarrow> byte list \<Rightarrow> 's \<Rightarrow> unit res \<times> 's \<Rightarrow> bool" where
  "sent_prefix out data s r \<longleftrightarrow> (\<exists>sent rest. data = sent @ rest \<and> out (snd r) = out s @ sent
     \<and> (fst r = Inr () \<longrightarrow> rest = []))"

lemma tcp_send_prefix: "sent_prefix written (contents msg) s (tcp_send t msg s)"
proof (cases "tcp_sock t < 0")
  case True
  then show ?thesis by (simp add: tcp_send_def sent_prefix_def)
next
  case False
  obtain r ws out where "tcp_send_loop (contents msg) (writes s) (written s) = (r, ws, out)"
    by (metis prod_cases3)
  with False tcp_send_loop_prefix [OF this] show ?thesis by (auto simp: tcp_send_def sent_prefix_def)
qed

lemma pt_send_prefix: "sent_prefix written (contents msg) s (pt_send t msg s)"
proof (cases "pt_is_connected t")
  case False
  then show ?thesis by (simp add: pt_send_def sent_prefix_def)
next
  case True
  obtain r ws out where "pt_send_loop (to_peer t) (contents msg) (writes s) (written s) = (r, ws, out)"
    by (metis prod_cases3)
  with True pt_send_loop_prefix [OF this] show ?thesis by (auto simp: pt_send_def sent_prefix_def)
qed

text \<open>What a sink relies on: \<open>image\<close> is what a message looks like in the stream, \<open>out\<close> what has
  been written to it. Both transports are such sinks and send the message as it is.\<close>

fun send_many :: "(buffer \<Rightarrow> ('s, unit) step) \<Rightarrow> buffer list \<Rightarrow> ('s, unit) step" where
  "send_many send [] s = (Inr (), s)"
| "send_many send (b # bs) s = sbind (send b) (\<lambda>_. send_many send bs) s"

locale message_sink =
  fixes send :: "buffer \<Rightarrow> ('s, unit) step"
    and out :: "'s \<Rightarrow> byte list"
    and image :: "buffer \<Rightarrow> byte list"
  assumes send_prefix: "sent_prefix out (image b) s (send b s)"
begin

lemma send_done: "send b s = (Inr (), s') \<Longrightarrow> out s' = out s @ image b"
  using send_prefix [of b s] by (auto simp: sent_prefix_def)

lemma send_all: "send_many send bs s = (Inr (), s') \<Longrightarrow> out s' = out s @ concat (map image bs)"
proof (induction bs arbitrary: s)
  case Nil
  then show ?case by simp
next
  case (Cons b bs)
  then obtain s1 where "send b s = (Inr (), s1)" "send_many send bs s1 = (Inr (), s')"
    by (auto simp: sbind_apply split: prod.splits sum.splits)
  with Cons.IH [of s1] send_done [of b s s1] show ?case by simp
qed

end

interpretation tcp_snk: message_sink "tcp_send t" written contents for t
  by unfold_locales (rule tcp_send_prefix)

interpretation pipe_snk: message_sink "pt_send t" written contents for t
  by unfold_locales (rule pt_send_prefix)

lemma sys_close_simps [simp]:
  "closed (sys_close fd s) = fd # closed s" "reads (sys_close fd s) = reads s"
  "writes (sys_close fd s) = writes s" "polls (sys_close fd s) = polls s"
  "written (sys_close fd s) = written s" "options (sys_close fd s) = options s"
  by (simp_all add: sys_close_def)

lemma sys_option_simps [simp]:
  "closed (sys_option fd o' s) = closed s" "reads (sys_option fd o' s) = reads s"
  "polls (sys_option fd o' s) = polls s" "options (sys_option fd o' s) = (fd, o') # options s"
  by (simp_all add: sys_option_def)

text \<open>The descriptors of a TCP transport: what it holds, and what \<^verbatim>\<open>connect\<close> opened.\<close>

definition opened :: "connect_calls \<Rightarrow> int set" where
  "opened c = (if cc_resolve c = None then (case cc_socket c of Inl e \<Rightarrow> {} | Inr fd \<Rightarrow> {fd}) else {})"

lemma tcp_connect_cases:
  assumes "tcp_connect c host port timeout_ms (t, s) = (r, t', s')"
    and "\<And>fd. cc_socket c = Inr fd \<Longrightarrow> 0 \<le> fd"
  shows "case r of
      Inr u \<Rightarrow> opened c = {tcp_sock t'} \<and> tcp_is_connected t' \<and> tcp_peer_addr t' = host
        \<and> tcp_peer_port t' = port \<and> set (closed s') = set (closed s) \<union> {fd. fd = tcp_sock t \<and> 0 \<le> fd}
    | Inl e \<Rightarrow> (\<exists>m. e = ServiceError m) \<and> \<not> tcp_is_connected t' \<and> tcp_peer_addr t' = []
        \<and> tcp_peer_port t' = 0
        \<and> set (closed s') = set (closed s) \<union> {fd. fd = tcp_sock t \<and> 0 \<le> fd} \<union> opened c"
proof (cases "cc_resolve c")
  case (Some m)
  then show ?thesis
    using assms by (auto simp: tcp_connect_def Let_def tcp_close_def opened_def tcp_is_connected_def)
next
  case None
  note R = this
  show ?thesis
  proof (cases "cc_socket c")
    case (Inl e)
    then show ?thesis
      using assms R by (auto simp: tcp_connect_def Let_def tcp_close_def opened_def tcp_is_connected_def)
  next
    case (Inr fd)
    then have "0 \<le> fd" using assms(2) by simp
    then show ?thesis
      using assms(1) R Inr
      by (auto simp: tcp_connect_def Let_def tcp_close_def opened_def tcp_is_connected_def
          split: option.splits prod.splits poll_event.splits if_splits)
  qed
qed

section \<open>Properties\<close>

text \<open>The bytes of the shutdown message, used to run the transports on concrete data.\<close>

lemma shutdown_bytes:
  "wire_message mt_shutdown 0 [] = [71, 78, 79, 83, 0, 8, 0, 0, 0, 0, 0, 0, 0, 0, 0, 0]"
  by (simp add: wire_message_def header_repr_def plain_header_def k_magic_def msg_type_defs mf_none_def
      le_widths)

lemma is_frame_shutdown: "is_frame (wire_message mt_shutdown 0 [])"
  by (simp add: is_frame_wire_message)

lemma wire_message_nonempty: "wire_message t q p \<noteq> []"
  using length_wire_message [of t q p] by (metis add_eq_0_iff_both_eq_0 list.size(3) zero_neq_numeral)

text \<open>Claim C4. End to end over TCP: if every \<^verbatim>\<open>TcpTransport::send\<close> of a list of messages
  returned, then a peer that reads the written bytes, however the kernels cut the writes and
  the reads into pieces and interrupt them, gets from \<^verbatim>\<open>TcpTransport::receive\<close> exactly these
  messages, complete and in order, and then the end of the stream.\<close>

theorem tcp_transfer:
  assumes "send_many (tcp_send a) msgs s = (Inr (), s')" and "written s = []"
    and "list_all (\<lambda>b. is_frame (contents b)) msgs"
    and "buffered (reads r) = written s'" and "stream_end (reads r) = FillEof"
    and "0 \<le> tcp_sock b" and "timeout_ms < 0" and "buffer_ok buf" and "length msgs < n"
  shows "fst (receive_many (tcp_receive b timeout_ms) n (buf, r)) = Inr (map contents msgs)"
proof -
  have source: "message_source (tcp_receive b timeout_ms) tcp_holds"
    by (rule tcp_message_source [OF assms(6,7)])
  have "written s' = concat (map contents msgs)"
    using tcp_snk.send_all [OF assms(1)] assms(2) by simp
  then have "tcp_holds r (concat (map contents msgs))"
    using assms(4,5) by (simp add: tcp_holds_def)
  then show ?thesis
    using assms(3,8,9) by (intro message_source.receive_all [OF source]) (simp_all add: list.pred_map comp_def)
qed

theorem tcp_transfer_witness:
  "let m = message_buffer mt_shutdown 0 [];
       s = \<lparr>reads = [], writes = [WrIntr, WrAccept 10, WrAccept 100, WrAccept 16], polls = [], written = [],
         closed = [], options = []\<rparr>;
       r = \<lparr>reads = [RdData (take 5 (wire_message mt_shutdown 0 [])), RdIntr,
           RdData (drop 5 (wire_message mt_shutdown 0 []) @ take 1 (wire_message mt_shutdown 0 [])),
           RdData (drop 1 (wire_message mt_shutdown 0 [])), RdData []],
         writes = [], polls = [], written = [], closed = [], options = []\<rparr>
   in fst (receive_many (tcp_receive \<lparr>tcp_sock = 3, tcp_peer_addr = [], tcp_peer_port = 0\<rparr> (-1)) 3 (buffer_new, r))
     = Inr [contents m, contents m]"
proof -
  let ?m = "message_buffer mt_shutdown 0 []" and ?w = "wire_message mt_shutdown 0 []"
  let ?s = "\<lparr>reads = [], writes = [WrIntr, WrAccept 10, WrAccept 100, WrAccept 16], polls = [], written = [],
         closed = [], options = []\<rparr>"
  have w: "?w = take 10 ?w @ drop 10 ?w" "length (take 10 ?w) = 10"
    by simp_all
  have "send_many (tcp_send \<lparr>tcp_sock = 4, tcp_peer_addr = [], tcp_peer_port = 0\<rparr>) [?m, ?m] ?s
      = (Inr (), ?s\<lparr>writes := [], written := ?w @ ?w\<rparr>)"
    by (simp add: tcp_send_def sbind_apply shutdown_bytes del: wire_message_def)
  from tcp_transfer [OF this, where b = "\<lparr>tcp_sock = 3, tcp_peer_addr = [], tcp_peer_port = 0\<rparr>"
      and timeout_ms = "-1" and buf = buffer_new and n = 3]
  show ?thesis
    unfolding Let_def by (simp add: is_frame_shutdown wire_message_nonempty)
qed

text \<open>Claim C32. \<^verbatim>\<open>TcpTransport::receive\<close> without a timeout is the parser \<open>parse_frame\<close> of the
  bytes the stream holds: every branch (a complete message, the end of the stream, a read
  error, a declared payload over \<^verbatim>\<open>kMaxPayloadSize\<close>, a stream that ends inside a message)
  is decided by those bytes and by how the stream ends, and a received message leaves
  exactly the bytes after it.\<close>

theorem tcp_receive_refines_parser:
  assumes "tcp_is_connected t" and "timeout_ms < 0" and "buffer_ok msg"
  shows "received (parse_frame ''TcpTransport'' ''connection'' (buffered (reads s)) (stream_end (reads s))) s
    (tcp_receive t timeout_ms (msg, s))"
  using assms by (intro tcp_receive_spec) (simp_all add: tcp_is_connected_def)

theorem tcp_receive_refines_parser_witness:
  "received (Inl (ServiceError ''TcpTransport: recv failed: Connection timed out''))
     \<lparr>reads = [RdData [1, 2, 3], RdIntr, RdError ETIMEDOUT], writes = [], polls = [], written = [], closed = [], options = []\<rparr>
     (tcp_receive \<lparr>tcp_sock = 3, tcp_peer_addr = [], tcp_peer_port = 0\<rparr> (-1) (buffer_new,
       \<lparr>reads = [RdData [1, 2, 3], RdIntr, RdError ETIMEDOUT], writes = [], polls = [], written = [], closed = [], options = []\<rparr>))"
  using tcp_receive_refines_parser [of "\<lparr>tcp_sock = 3, tcp_peer_addr = [], tcp_peer_port = 0\<rparr>" "-1" buffer_new
      "\<lparr>reads = [RdData [1, 2, 3], RdIntr, RdError ETIMEDOUT], writes = [], polls = [], written = [], closed = [], options = []\<rparr>"]
  by (simp add: tcp_is_connected_def parse_frame_def)

text \<open>A send that fails half way never corrupts the stream: what both transports have
  written is always a prefix of the message, and all of it when \<^verbatim>\<open>send\<close> returns.\<close>

theorem send_writes_a_prefix:
  "sent_prefix written (contents msg) s (tcp_send t msg s)
    \<and> sent_prefix written (contents msg) s (pt_send p msg s)"
  using tcp_send_prefix pt_send_prefix by blast

text \<open>The two transports disagree on a header that arrives in two pieces:
  \<^verbatim>\<open>TcpTransport::receive\<close> waits for the rest and delivers the message, while
  \<^verbatim>\<open>PipeTransport::receive\<close>, which reads the header with one call, throws a
  \<^verbatim>\<open>ProtocolError\<close> and leaves the stream in the middle of a message.\<close>

theorem pipe_rejects_split_header:
  assumes "is_frame m" and "0 < k" and "k < 16" and "buffer_ok msg"
    and "pt_is_connected p" and "0 \<le> read_fd (from_peer p)" and "tcp_is_connected t"
    and "reads s = [RdData (take k m), RdData (drop k m), RdData []]"
  shows "pt_receive p (-1) (msg, s)
        = (Inl (ProtocolError ''PipeTransport: incomplete header received''), buffer_reset msg,
           s\<lparr>reads := [RdData (drop k m), RdData []]\<rparr>)
      \<and> (\<exists>msg' s'. tcp_receive t (-1) (msg, s) = (Inr True, msg', s') \<and> contents msg' = m)"
proof
  have len: "16 \<le> length m" using assms(1) by (simp add: is_frame_def)
  then have ne: "take k m \<noteq> []" "length (take k m) \<noteq> 16" "drop k m \<noteq> []"
    using assms(2,3) by auto
  then show "pt_receive p (-1) (msg, s)
        = (Inl (ProtocolError ''PipeTransport: incomplete header received''), buffer_reset msg,
           s\<lparr>reads := [RdData (drop k m), RdData []]\<rparr>)"
    using assms len by (simp add: pt_receive_def pipe_read_def Let_def min_def split: if_splits)
  have "tcp_holds s (m @ [])"
    using ne assms(8) by (simp add: tcp_holds_def)
  with message_source.recv_frame [OF tcp_message_source assms(4,1), of t "-1" s "[]"] assms(7)
  show "\<exists>msg' s'. tcp_receive t (-1) (msg, s) = (Inr True, msg', s') \<and> contents msg' = m"
    by (auto simp: tcp_is_connected_def)
qed

text \<open>\<^verbatim>\<open>TcpTransport::connect\<close> leaks no descriptor: a socket the transport held before is
  closed; when it returns, the transport owns the one socket it opened, with the peer's
  address; when it throws, which is a \<^verbatim>\<open>ServiceError\<close>, the transport is not connected and
  every socket it opened is closed.\<close>

theorem tcp_connect_no_leak:
  assumes "tcp_connect c host port timeout_ms (t, s) = (r, t', s')"
    and "\<And>fd. cc_socket c = Inr fd \<Longrightarrow> 0 \<le> fd"
  shows "case r of
      Inr u \<Rightarrow> opened c = {tcp_sock t'} \<and> tcp_is_connected t' \<and> tcp_peer_addr t' = host
        \<and> tcp_peer_port t' = port \<and> set (closed s') = set (closed s) \<union> {fd. fd = tcp_sock t \<and> 0 \<le> fd}
    | Inl e \<Rightarrow> (\<exists>m. e = ServiceError m) \<and> \<not> tcp_is_connected t' \<and> tcp_peer_addr t' = []
        \<and> tcp_peer_port t' = 0
        \<and> set (closed s') = set (closed s) \<union> {fd. fd = tcp_sock t \<and> 0 \<le> fd} \<union> opened c"
  by (rule tcp_connect_cases [OF assms])

end
