(* ===== verification/Song_Net.thy ===== *)
theory Song_Net
  imports Song_Transport
begin

text \<open>
  The ports the upper layers talk through. \<open>net\<close> is the network as a service sees it: a
  transport is a number, \<^verbatim>\<open>send\<close> delivers a whole message or throws. \<open>link\<close> is the one
  connection of a client. The raw descriptors of the pipe mode are driven by the loops
  \<^verbatim>\<open>write_all\<close> and \<^verbatim>\<open>read_all\<close> of \<^verbatim>\<open>src/runtime.cpp\<close> and \<^verbatim>\<open>src/stream.cpp\<close>. The locale
  \<open>message_port\<close> is what the message handlers need of a port to reply on.
\<close>

section \<open>Raw descriptors\<close>

fun write_all_loop :: "byte list \<Rightarrow> write_event list \<Rightarrow> byte list \<Rightarrow> bool res \<times> write_event list \<times> byte list" where
  "write_all_loop [] es out = (Inr True, es, out)"
| "write_all_loop (d # ds) [] out = (Inl Diverges, [], out)"
| "write_all_loop (d # ds) (WrIntr # es) out = write_all_loop (d # ds) es out"
| "write_all_loop (d # ds) (WrError e # es) out = (Inr False, es, out)"
| "write_all_loop (d # ds) (WrAccept k # es) out =
    write_all_loop (drop k (d # ds)) es (out @ take k (d # ds))"

definition write_all :: "byte list \<Rightarrow> (sys, bool) step" where
  "write_all data s = (case write_all_loop data (writes s) (written s) of
     (r, ws, out) \<Rightarrow> (r, s\<lparr>writes := ws, written := out\<rparr>))"

text \<open>\<^verbatim>\<open>read_all\<close> is the loop of the TCP transport with one way to fail: \<open>None\<close>.\<close>

definition read_all :: "nat \<Rightarrow> (sys, byte list option) step" where
  "read_all n s = (case tcp_fill n [] (reads s) of
      (Filled bs, es) \<Rightarrow> (Inr (Some bs), s\<lparr>reads := es\<rparr>)
    | (FillBlocks, es) \<Rightarrow> (Inl Diverges, s\<lparr>reads := es\<rparr>)
    | (_, es) \<Rightarrow> (Inr None, s\<lparr>reads := es\<rparr>))"

text \<open>A write whose failure nobody looks at.\<close>

definition fd_reply :: "buffer \<Rightarrow> (sys, unit) step" where
  "fd_reply msg s = sbind (write_all (contents msg)) (\<lambda>_. sret ()) s"

section \<open>Ports\<close>

text \<open>\<open>n_sent\<close> are the messages that got through, with their transport; \<open>n_faults\<close> says for
  each coming send whether it throws, and a send with no entry does not.\<close>

type_synonym tid = nat

record net =
  n_sent :: "(tid \<times> buffer) list"
  n_faults :: "exn option list"

definition net_send :: "tid \<Rightarrow> buffer \<Rightarrow> (net, unit) step" where
  "net_send t msg n = (case n_faults n of
      Some e # fs \<Rightarrow> (Inl e, n\<lparr>n_faults := fs\<rparr>)
    | None # fs \<Rightarrow> (Inr (), n\<lparr>n_sent := n_sent n @ [(t, msg)], n_faults := fs\<rparr>)
    | [] \<Rightarrow> (Inr (), n\<lparr>n_sent := n_sent n @ [(t, msg)]\<rparr>))"

text \<open>What one \<^verbatim>\<open>receive\<close> does: a message, the end of the connection, an exception.\<close>

datatype recv_event = RecvMsg buffer | RecvEnd | RecvThrow exn

record link =
  l_up :: bool
  l_sent :: "buffer list"
  l_faults :: "exn option list"
  l_inbox :: "recv_event list"

definition link_send :: "buffer \<Rightarrow> (link, unit) step" where
  "link_send msg l = (case l_faults l of
      Some e # fs \<Rightarrow> (Inl e, l\<lparr>l_faults := fs\<rparr>)
    | None # fs \<Rightarrow> (Inr (), l\<lparr>l_sent := l_sent l @ [msg], l_faults := fs\<rparr>)
    | [] \<Rightarrow> (Inr (), l\<lparr>l_sent := l_sent l @ [msg]\<rparr>))"

definition link_receive :: "(link, buffer option) step" where
  "link_receive l = (case l_inbox l of
      [] \<Rightarrow> (Inl Diverges, l)
    | RecvMsg b # es \<Rightarrow> (Inr (Some b), l\<lparr>l_inbox := es\<rparr>)
    | RecvEnd # es \<Rightarrow> (Inr None, l\<lparr>l_inbox := es\<rparr>)
    | RecvThrow e # es \<Rightarrow> (Inl e, l\<lparr>l_inbox := es\<rparr>))"

text \<open>The bytes that went out on one transport.\<close>

definition sent_to :: "tid \<Rightarrow> net \<Rightarrow> byte list" where
  "sent_to t n = concat (map (\<lambda>(t', m). contents m) (filter (\<lambda>(t', m). t' = t) (n_sent n)))"

section \<open>The contract of a port\<close>

text \<open>
  \<open>outgoing s\<close> are the bytes that have left on the port and \<open>ready n s\<close> says that it will take
  \<open>n\<close> more bytes. A message sent on a ready port leaves whole.
\<close>

locale message_port =
  fixes send :: "buffer \<Rightarrow> ('s, unit) step"
    and outgoing :: "'s \<Rightarrow> byte list"
    and ready :: "nat \<Rightarrow> 's \<Rightarrow> bool"
  assumes send_ready: "ready (length (contents b) + n) s \<Longrightarrow>
      \<exists>s'. send b s = (Inr (), s') \<and> outgoing s' = outgoing s @ contents b \<and> ready n s'"
    and ready_mono: "ready n s \<Longrightarrow> m \<le> n \<Longrightarrow> ready m s"
begin

lemma sendE:
  assumes "ready n s" and "length (contents b) \<le> n"
  obtains s' where "send b s = (Inr (), s')" "outgoing s' = outgoing s @ contents b"
    "ready (n - length (contents b)) s'"
  using assms send_ready [of b "n - length (contents b)" s] by auto

text \<open>A batch of messages leaves in order.\<close>

fun send_batch :: "buffer list \<Rightarrow> ('s, unit) step" where
  "send_batch [] s = (Inr (), s)"
| "send_batch (b # bs) s = sbind (send b) (\<lambda>_. send_batch bs) s"

lemma send_batch_ready:
  "ready (length (concat (map contents bs)) + n) s \<Longrightarrow>
    \<exists>s'. send_batch bs s = (Inr (), s') \<and> outgoing s' = outgoing s @ concat (map contents bs) \<and> ready n s'"
proof (induction bs arbitrary: s)
  case Nil
  then show ?case by simp
next
  case (Cons b bs)
  then obtain s1 where "send b s = (Inr (), s1)" "outgoing s1 = outgoing s @ contents b"
    "ready (length (concat (map contents bs)) + n) s1"
    using send_ready [of b "length (concat (map contents bs)) + n" s] by (auto simp: add.assoc)
  with Cons.IH [of s1] show ?case by (auto simp: sbind_apply)
qed

end

interpretation net_port: message_port "net_send t" "sent_to t" "\<lambda>n s. n_faults s = []" for t
  by unfold_locales (auto simp: net_send_def sent_to_def)

text \<open>A descriptor is ready for \<open>n\<close> bytes when its writes never fail and there are enough of
  them: each takes at least one byte.\<close>

fun accepting :: "nat \<Rightarrow> write_event list \<Rightarrow> bool" where
  "accepting n [] = (n = 0)"
| "accepting n (WrIntr # es) = accepting n es"
| "accepting n (WrError e # es) = (n = 0)"
| "accepting n (WrAccept k # es) = (n = 0 \<or> 0 < k \<and> accepting (n - 1) es)"

lemma accepting_0 [simp]: "accepting 0 es"
  by (induction es rule: accepting.induct [where P = "\<lambda>_. accepting 0"]) auto

lemma accepting_mono: "accepting n es \<Longrightarrow> m \<le> n \<Longrightarrow> accepting m es"
proof (induction n es arbitrary: m rule: accepting.induct)
  case (4 n k es)
  then show ?case by (cases "m = 0") auto
qed auto

lemma write_all_loop_accepting:
  "accepting (length data + n) es \<Longrightarrow>
    \<exists>es'. write_all_loop data es out = (Inr True, es', out @ data) \<and> accepting n es'"
proof (induction data es out rule: write_all_loop.induct)
  case (5 d ds k es out)
  then have k: "0 < k" and acc: "accepting (length ds + n) es" by auto
  have "accepting (length (drop k (d # ds)) + n) es"
    using acc k by (elim accepting_mono) auto
  with 5 show ?case by simp
qed auto

interpretation fd_port: message_port fd_reply written "\<lambda>n s. accepting n (writes s)"
proof
  fix b n and s :: sys
  assume "accepting (size_of b + n) (writes s)"
  then show "\<exists>s'. fd_reply b s = (Inr (), s') \<and> written s' = written s @ contents b \<and> accepting n (writes s')"
    using write_all_loop_accepting [of "contents b" n "writes s" "written s"]
    by (auto simp: fd_reply_def write_all_def sbind_apply sret_def)
qed (rule accepting_mono)

end
