(* ===== verification/Song_Object.thy ===== *)
theory Song_Object
  imports Song_Buffer
begin

text \<open>
  \<^verbatim>\<open>include/song/object.hpp\<close> and \<^verbatim>\<open>src/object.cpp\<close>: server-side objects with their
  reference counts and the registry that numbers, finds and destroys them. An object is a
  value of the registry, which owns it; the state of its subclass is the type \<open>'o\<close>, and what
  factories and callbacks may change besides is the state \<open>'u\<close> of the service's own code.
\<close>

section \<open>Objects\<close>

type_synonym 'u notify_callback = "u32 \<Rightarrow> i32 \<Rightarrow> u16 \<Rightarrow> buffer \<Rightarrow> 'u \<Rightarrow> unit res \<times> 'u"

text \<open>\<open>ob_fanout\<close> says that \<^verbatim>\<open>sub_registry_\<close> points to the runtime's subscription registry. The
  count is an \<^verbatim>\<open>std::atomic<int>\<close>, which wraps.\<close>

record ('o, 'u) object =
  ob_id :: i32
  ob_type :: u32
  ob_refs :: "32 word"
  ob_registered :: bool
  ob_callback :: "'u notify_callback option"
  ob_fanout :: bool
  ob_state :: 'o

definition object_new :: "'o \<Rightarrow> ('o, 'u) object" where
  "object_new st = \<lparr>ob_id = 0, ob_type = 0, ob_refs = 1, ob_registered = False, ob_callback = None,
     ob_fanout = False, ob_state = st\<rparr>"

definition object_is_null :: "('o, 'u) object \<Rightarrow> bool" where
  "object_is_null obj \<longleftrightarrow> ob_id obj = 0"

definition object_init :: "i32 \<Rightarrow> u32 \<Rightarrow> ('o, 'u) object \<Rightarrow> ('o, 'u) object" where
  "object_init oid type_id obj = obj\<lparr>ob_id := oid, ob_type := type_id, ob_registered := True\<rparr>"

definition object_add_ref :: "('o, 'u) object \<Rightarrow> ('o, 'u) object" where
  "object_add_ref obj = obj\<lparr>ob_refs := ob_refs obj + 1\<rparr>"

definition object_release :: "('o, 'u) object \<Rightarrow> bool \<times> ('o, 'u) object" where
  "object_release obj = (ob_refs obj = 1, obj\<lparr>ob_refs := ob_refs obj - 1\<rparr>)"

section \<open>The registry\<close>

text \<open>A factory may throw and may return null. \<open>destroyed\<close> records the objects deleted.\<close>

type_synonym ('o, 'u) factory = "u16 \<Rightarrow> buffer \<Rightarrow> 'u \<Rightarrow> ('o, 'u) object option res \<times> 'u"

record ('o, 'u) object_registry =
  objects :: "(i32 \<times> ('o, 'u) object) list"
  factories :: "(u32 \<times> ('o, 'u) factory) list"
  next_id :: i32
  destroyed :: "i32 list"

definition registry_new :: "('o, 'u) object_registry" where
  "registry_new = \<lparr>objects = [], factories = [], next_id = -1, destroyed = []\<rparr>"

definition has_factories :: "('o, 'u) object_registry \<Rightarrow> bool" where
  "has_factories r \<longleftrightarrow> factories r \<noteq> []"

definition register_factory :: "u32 \<Rightarrow> ('o, 'u) factory \<Rightarrow> ('o, 'u) object_registry \<Rightarrow> ('o, 'u) object_registry" where
  "register_factory type_id f r = r\<lparr>factories := AList.update type_id f (factories r)\<rparr>"

text \<open>\<^verbatim>\<open>i32 id = next_id_--\<close>, whose decrement overflows at the smallest value.\<close>

definition take_id :: "(('o, 'u) object_registry, i32) step" where
  "take_id r = (if sint (next_id r) = - (2 ^ 31) then (Inl (Undefined ''object id overflow''), r)
     else (Inr (next_id r), r\<lparr>next_id := next_id r - 1\<rparr>))"

definition add_object :: "i32 \<Rightarrow> ('o, 'u) object \<Rightarrow> ('o, 'u) object_registry \<Rightarrow> ('o, 'u) object_registry" where
  "add_object oid obj r = r\<lparr>objects := AList.update oid obj (objects r)\<rparr>"

definition create_object :: "u32 \<Rightarrow> u16 \<Rightarrow> buffer \<Rightarrow> (('o, 'u) object_registry \<times> 'u, i32) step" where
  "create_object type_id constructor_id args = (\<lambda>(r, u).
    case map_of (factories r) type_id of
      None \<Rightarrow> (Inl (ServiceError (''Unknown type ID: '' @ dec_string (unat type_id))), r, u)
    | Some factory \<Rightarrow>
      (case factory constructor_id args u of
        (Inl e, u) \<Rightarrow> (Inl e, r, u)
      | (Inr None, u) \<Rightarrow>
          (Inl (ServiceError (''Factory returned null for type ID: '' @ dec_string (unat type_id))), r, u)
      | (Inr (Some obj), u) \<Rightarrow>
          (case take_id r of
            (Inl e, r) \<Rightarrow> (Inl e, r, u)
          | (Inr oid, r) \<Rightarrow> (Inr oid, add_object oid (object_init oid type_id obj) r, u))))"

definition register_object :: "('o, 'u) object option \<Rightarrow> (('o, 'u) object_registry, i32) step" where
  "register_object obj r = (case obj of
      None \<Rightarrow> (Inl (ServiceError ''Cannot register null object''), r)
    | Some obj \<Rightarrow>
      (case take_id r of
        (Inl e, r) \<Rightarrow> (Inl e, r)
      | (Inr oid, r) \<Rightarrow> (Inr oid, add_object oid (object_init oid 0 obj) r)))"

definition get_object :: "i32 \<Rightarrow> ('o, 'u) object_registry \<Rightarrow> ('o, 'u) object option" where
  "get_object oid r = map_of (objects r) oid"

definition registry_add_ref :: "i32 \<Rightarrow> ('o, 'u) object_registry \<Rightarrow> bool \<times> ('o, 'u) object_registry" where
  "registry_add_ref oid r = (case map_of (objects r) oid of
      Some obj \<Rightarrow> (True, add_object oid (object_add_ref obj) r)
    | None \<Rightarrow> (False, r))"

definition registry_release :: "i32 \<Rightarrow> ('o, 'u) object_registry \<Rightarrow> ('o, 'u) object_registry" where
  "registry_release oid r = (case map_of (objects r) oid of
      Some obj \<Rightarrow>
        (case object_release obj of
          (True, _) \<Rightarrow> r\<lparr>objects := AList.delete oid (objects r), destroyed := oid # destroyed r\<rparr>
        | (False, obj) \<Rightarrow> add_object oid obj r)
    | None \<Rightarrow> r)"

definition registry_size :: "('o, 'u) object_registry \<Rightarrow> nat" where
  "registry_size r = length (objects r)"

definition registry_contains :: "i32 \<Rightarrow> ('o, 'u) object_registry \<Rightarrow> bool" where
  "registry_contains oid r \<longleftrightarrow> map_of (objects r) oid \<noteq> None"

definition registry_clear :: "('o, 'u) object_registry \<Rightarrow> ('o, 'u) object_registry" where
  "registry_clear r = r\<lparr>objects := [], destroyed := map fst (objects r) @ destroyed r\<rparr>"

section \<open>Invariant\<close>

text \<open>Every id ever given out is negative and above \<open>next_id\<close>; an object is stored under its own
  id, once, with a positive count; and a destroyed object is not in the registry.\<close>

definition registry_ok :: "('o, 'u) object_registry \<Rightarrow> bool" where
  "registry_ok r \<longleftrightarrow> distinct (map fst (objects r)) \<and> distinct (destroyed r) \<and> sint (next_id r) < 0
     \<and> (\<forall>(oid, obj) \<in> set (objects r). ob_id obj = oid \<and> 0 < ob_refs obj)
     \<and> (\<forall>oid \<in> fst ` set (objects r) \<union> set (destroyed r). sint (next_id r) < sint oid \<and> sint oid < 0)
     \<and> fst ` set (objects r) \<inter> set (destroyed r) = {}"

text \<open>What matters of a registry: the reference count of each live object.\<close>

definition refs_of :: "('o, 'u) object_registry \<Rightarrow> i32 \<Rightarrow> 32 word option" where
  "refs_of r = map_option ob_refs \<circ> map_of (objects r)"

lemma registry_ok_new [simp]: "registry_ok registry_new"
  by (simp add: registry_ok_def registry_new_def)

lemma refs_of_new [simp]: "refs_of registry_new = Map.empty"
  by (simp add: refs_of_def registry_new_def fun_eq_iff)

lemma sint_pred:
  fixes w :: i32
  assumes "sint w \<noteq> - (2 ^ 31)"
  shows "sint (w - 1) = sint w - 1"
proof -
  have "- (2 ^ 31) \<le> sint w" "sint w < 2 ^ 31"
    using sint_ge [of w] sint_lt [of w] by simp_all
  with assms show ?thesis
    by (simp add: sint_sbintrunc' signed_take_bit_int_eq_self sint_word_ariths)
qed

text \<open>The entries of a list updated at a key.\<close>

lemma set_update_distinct:
  "distinct (map fst al) \<Longrightarrow> set (AList.update k v al) = insert (k, v) {p \<in> set al. fst p \<noteq> k}"
proof (induction al)
  case Nil
  then show ?case by simp
next
  case (Cons a al)
  then show ?case by (cases a) (force simp: image_iff)
qed

lemma registry_ok_get:
  assumes "registry_ok r" and "get_object oid r = Some obj"
  shows "ob_id obj = oid \<and> 0 < ob_refs obj \<and> sint (next_id r) < sint oid \<and> sint oid < 0 \<and> oid \<notin> set (destroyed r)"
proof -
  have "(oid, obj) \<in> set (objects r)" using assms(2) by (simp add: get_object_def map_of_SomeD)
  with assms(1) show ?thesis by (force simp: registry_ok_def)
qed

lemma registry_ok_replace:
  assumes "registry_ok r" and "get_object oid r = Some obj" and "ob_id obj' = oid" and "0 < ob_refs obj'"
  shows "registry_ok (add_object oid obj' r)"
proof -
  have "(oid, obj) \<in> set (objects r)" using assms(2) by (simp add: get_object_def map_of_SomeD)
  then have "oid \<in> fst ` set (objects r)" by force
  then have "fst ` set (AList.update oid obj' (objects r)) = fst ` set (objects r)"
    using assms(1) by (auto simp: registry_ok_def set_update_distinct image_iff)
  with assms show ?thesis
    by (auto simp: registry_ok_def add_object_def set_update_distinct distinct_update)
qed

lemma registry_ok_add:
  assumes "registry_ok r" and "take_id r = (Inr oid, r')" and "ob_id obj = oid" and "0 < ob_refs obj"
  shows "registry_ok (add_object oid obj r')" and "refs_of r oid = None" and "oid \<notin> set (destroyed r)"
    and "sint oid < 0" and "refs_of (add_object oid obj r') = (refs_of r)(oid \<mapsto> ob_refs obj)"
proof -
  from assms(2) have oid: "oid = next_id r" "sint (next_id r) \<noteq> - (2 ^ 31)"
    and r': "r' = r\<lparr>next_id := next_id r - 1\<rparr>"
    by (auto simp: take_id_def split: if_splits)
  then have n: "sint (next_id r - 1) = sint (next_id r) - 1" by (intro sint_pred)
  have fresh: "oid \<notin> fst ` set (objects r) \<union> set (destroyed r)"
    using assms(1) oid by (auto simp: registry_ok_def)
  then show "refs_of r oid = None" and "oid \<notin> set (destroyed r)"
    by (auto simp: refs_of_def map_of_eq_None_iff)
  show "sint oid < 0" using assms(1) oid by (simp add: registry_ok_def)
  have s: "set (AList.update oid obj (objects r)) = insert (oid, obj) (set (objects r))"
    using assms(1) fresh by (force simp: registry_ok_def set_update_distinct)
  have lt: "sint (next_id r) - 1 < sint j \<and> sint j < 0"
    if "j = oid \<or> j \<in> fst ` set (objects r) \<union> set (destroyed r)" for j
  proof -
    have "j = oid \<or> sint (next_id r) < sint j \<and> sint j < 0"
      using that assms(1) unfolding registry_ok_def by blast
    moreover have "sint (next_id r) < 0" using assms(1) by (simp add: registry_ok_def)
    ultimately show ?thesis using oid(1) by auto
  qed
  show "registry_ok (add_object oid obj r')"
    unfolding registry_ok_def
  proof (intro conjI)
    show "\<forall>j\<in>fst ` set (objects (add_object oid obj r')) \<union> set (destroyed (add_object oid obj r')).
        sint (next_id (add_object oid obj r')) < sint j \<and> sint j < 0"
      using lt by (auto simp: add_object_def r' s n)
  qed (use assms(1,3,4) fresh in \<open>auto simp: registry_ok_def add_object_def r' s n distinct_update\<close>)
  show "refs_of (add_object oid obj r') = (refs_of r)(oid \<mapsto> ob_refs obj)"
    by (simp add: refs_of_def add_object_def r' update_conv' fun_eq_iff)
qed

section \<open>What the operations do\<close>

lemma refs_of_get: "refs_of r oid = map_option ob_refs (get_object oid r)"
  by (simp add: refs_of_def get_object_def)

lemma refs_of_replace:
  "refs_of (add_object oid obj r) = (refs_of r)(oid \<mapsto> ob_refs obj)"
  by (simp add: refs_of_def add_object_def update_conv' fun_eq_iff)

lemma registry_release_ok:
  assumes "registry_ok r"
  shows "registry_ok (registry_release oid r)"
proof (cases "get_object oid r")
  case None
  with assms show ?thesis by (simp add: registry_release_def get_object_def)
next
  case (Some obj)
  note g = registry_ok_get [OF assms Some]
  show ?thesis
  proof (cases "ob_refs obj = 1")
    case True
    with Some have "registry_release oid r
        = r\<lparr>objects := AList.delete oid (objects r), destroyed := oid # destroyed r\<rparr>"
      by (simp add: registry_release_def get_object_def object_release_def)
    then have "objects (registry_release oid r) = filter (\<lambda>(k, v). oid \<noteq> k) (objects r)"
      and d: "destroyed (registry_release oid r) = oid # destroyed r"
      and n: "next_id (registry_release oid r) = next_id r"
      by (simp_all add: AList.delete_eq)
    then have o': "objects (registry_release oid r) = filter (\<lambda>p. fst p \<noteq> oid) (objects r)"
      by (auto intro: filter_cong)
    have "fst ` set (filter (\<lambda>p. fst p \<noteq> oid) (objects r)) = fst ` set (objects r) - {oid}"
      by auto
    then show ?thesis
      using assms g unfolding registry_ok_def o' d n by (auto simp: distinct_map_fst_filter)
  next
    case False
    then have "0 < ob_refs obj - 1"
      using g by (metis word_neq_0_conv right_minus_eq)
    with False Some g assms show ?thesis
      using registry_ok_replace [OF assms Some, of "obj\<lparr>ob_refs := ob_refs obj - 1\<rparr>"]
      by (simp add: registry_release_def get_object_def object_release_def)
  qed
qed

text \<open>Release on the counts: one less, and gone at zero.\<close>

lemma refs_of_release:
  "refs_of (registry_release oid r) = (refs_of r)(oid := (case refs_of r oid of
      Some n \<Rightarrow> if n = 1 then None else Some (n - 1) | None \<Rightarrow> None))"
proof (cases "map_of (objects r) oid")
  case None
  then show ?thesis by (auto simp: registry_release_def refs_of_def)
next
  case (Some obj)
  then show ?thesis
    by (auto simp: registry_release_def refs_of_def object_release_def add_object_def update_conv'
        delete_conv' fun_eq_iff)
qed

lemma destroyed_release:
  "destroyed (registry_release oid r) =
    (if refs_of r oid = Some 1 then oid # destroyed r else destroyed r)"
  by (auto simp: registry_release_def refs_of_def object_release_def add_object_def split: option.splits)

lemma refs_of_add_ref:
  "registry_add_ref oid r = (b, r') \<Longrightarrow> b \<longleftrightarrow> refs_of r oid \<noteq> None"
  "registry_add_ref oid r = (b, r') \<Longrightarrow> refs_of r' = (refs_of r)(oid := map_option (\<lambda>n. n + 1) (refs_of r oid))"
  by (auto simp: registry_add_ref_def refs_of_def add_object_def object_add_ref_def update_conv'
      fun_eq_iff split: option.splits)

lemma registry_add_ref_ok:
  assumes "registry_ok r" and "refs_of r oid \<noteq> Some (- 1)"
  shows "registry_ok (snd (registry_add_ref oid r))"
proof (cases "get_object oid r")
  case None
  with assms show ?thesis by (simp add: registry_add_ref_def get_object_def)
next
  case (Some obj)
  note g = registry_ok_get [OF assms(1) Some]
  have "ob_refs obj \<noteq> - 1" using Some assms(2) by (simp add: refs_of_get)
  then have "0 < ob_refs obj + 1"
    by (metis word_neq_0_conv eq_neg_iff_add_eq_0)
  with g Some show ?thesis
    using registry_ok_replace [OF assms(1) Some, of "obj\<lparr>ob_refs := ob_refs obj + 1\<rparr>"]
    by (simp add: registry_add_ref_def get_object_def object_add_ref_def)
qed

lemma registry_ok_register_factory [simp]: "registry_ok (register_factory t f r) = registry_ok r"
  by (simp add: registry_ok_def register_factory_def)

lemma registry_clear_ok:
  assumes "registry_ok r"
  shows "registry_ok (registry_clear r)"
  using assms by (force simp: registry_ok_def registry_clear_def)

text \<open>Creating: the new id was never in use, and every error leaves the registry alone.\<close>

lemma take_id_cases:
  "take_id r = (Inl e, r') \<Longrightarrow> r' = r \<and> \<not> catchable e"
  by (auto simp: take_id_def split: if_splits)

lemma create_object_Inl:
  "create_object t c args (r, u) = (Inl e, r', u') \<Longrightarrow> r' = r"
  by (auto simp: create_object_def take_id_def split: option.splits prod.splits sum.splits if_splits)

lemma create_object_Inr:
  assumes "create_object t c args (r, u) = (Inr oid, r', u')"
  obtains f obj r1 where "map_of (factories r) t = Some f" "f c args u = (Inr (Some obj), u')"
    "take_id r = (Inr oid, r1)" "r' = add_object oid (object_init oid t obj) r1"
  using assms by (auto simp: create_object_def split: option.splits prod.splits sum.splits)

definition factory_fresh :: "('o, 'u) factory \<Rightarrow> bool" where
  "factory_fresh f \<longleftrightarrow> (\<forall>c args u. case fst (f c args u) of
     Inr (Some obj) \<Rightarrow> ob_refs obj = 1 | _ \<Rightarrow> True)"

lemma create_object_ok:
  assumes "create_object t c args (r, u) = (res, r', u')" and "registry_ok r"
    and "\<And>f. map_of (factories r) t = Some f \<Longrightarrow> factory_fresh f"
  shows "registry_ok r'"
proof (cases res)
  case (Inl e)
  with assms create_object_Inl [of t c args r u e r' u'] show ?thesis by simp
next
  case (Inr oid)
  with assms(1) obtain f obj r1 where f: "map_of (factories r) t = Some f"
    "f c args u = (Inr (Some obj), u')" "take_id r = (Inr oid, r1)"
    "r' = add_object oid (object_init oid t obj) r1"
    by (auto elim: create_object_Inr)
  have "ob_refs obj = 1" using assms(3) [OF f(1)] f(2)
    unfolding factory_fresh_def by (auto dest!: spec [of _ c] spec [of _ args] spec [of _ u])
  with registry_ok_add(1) [OF assms(2) f(3), of "object_init oid t obj"] f(4)
  show ?thesis by (simp add: object_init_def)
qed

lemma register_object_ok:
  assumes "register_object obj r = (res, r')" and "registry_ok r"
    and "\<And>ob. obj = Some ob \<Longrightarrow> ob_refs ob = 1"
  shows "registry_ok r'"
proof (cases "obj = None \<or> (\<exists>e. res = Inl e)")
  case True
  with assms show ?thesis
    by (auto simp: register_object_def take_id_def split: prod.splits sum.splits if_splits option.splits)
next
  case False
  then obtain ob oid where o: "obj = Some ob" "res = Inr oid" by (cases res) auto
  with assms(1) obtain r1 where r: "take_id r = (Inr oid, r1)" "r' = add_object oid (object_init oid 0 ob) r1"
    by (auto simp: register_object_def split: prod.splits sum.splits)
  with registry_ok_add(1) [OF assms(2) r(1), of "object_init oid 0 ob"] assms(3) [OF o(1)]
  show ?thesis by (simp add: object_init_def)
qed

section \<open>Properties\<close>

text \<open>The states a registry goes through: any sequence of its operations, by any clients.\<close>

inductive registry_reachable :: "('o, 'u) object_registry \<Rightarrow> bool" where
  start: "registry_reachable registry_new"
| factory: "registry_reachable r \<Longrightarrow> factory_fresh f \<Longrightarrow> registry_reachable (register_factory t f r)"
| create: "registry_reachable r \<Longrightarrow> create_object t c args (r, u) = (res, r', u') \<Longrightarrow> registry_reachable r'"
| register: "registry_reachable r \<Longrightarrow> (\<And>ob. obj = Some ob \<Longrightarrow> ob_refs ob = 1) \<Longrightarrow>
    register_object obj r = (res, r') \<Longrightarrow> registry_reachable r'"
| add_ref: "registry_reachable r \<Longrightarrow> refs_of r oid \<noteq> Some (- 1) \<Longrightarrow>
    registry_reachable (snd (registry_add_ref oid r))"
| release: "registry_reachable r \<Longrightarrow> registry_reachable (registry_release oid r)"
| clear: "registry_reachable r \<Longrightarrow> registry_reachable (registry_clear r)"

lemma factories_unchanged:
  "create_object t c args (r, u) = (res, r', u') \<Longrightarrow> factories r' = factories r"
  "register_object obj r = (res', r') \<Longrightarrow> factories r' = factories r"
  "factories (snd (registry_add_ref oid r)) = factories r"
  "factories (registry_release oid r) = factories r"
  "factories (registry_clear r) = factories r"
  by (auto simp: create_object_def register_object_def registry_add_ref_def registry_release_def
      registry_clear_def take_id_def add_object_def
      split: option.splits prod.splits sum.splits if_splits bool.splits)

text \<open>Claim C7. In every state an object registry can reach, through any sequence of its
  operations, ids are negative, every object is stored once under its own id with a positive
  reference count, all ids given out lie above the next one (so that a new id is never one
  used before), and no object is destroyed twice or found after its destruction.\<close>

theorem registry_invariant:
  assumes "registry_reachable r"
  shows "registry_ok r"
proof -
  have "registry_ok r \<and> (\<forall>t f. map_of (factories r) t = Some f \<longrightarrow> factory_fresh f)"
    using assms
  proof (induction rule: registry_reachable.induct)
    case start
    then show ?case by (simp add: registry_new_def flip: registry_new_def)
      (simp add: registry_new_def)
  next
    case (factory r f t)
    then show ?case by (simp add: register_factory_def update_conv' registry_ok_def)
  next
    case (create r t c args u res r' u')
    then show ?case using create_object_ok [OF create(2)] factories_unchanged(1) [OF create(2)] by simp
  next
    case (register r obj res r')
    then show ?case using register_object_ok [OF register(3)] factories_unchanged(2) [OF register(3)] by simp
  next
    case (add_ref r oid)
    then show ?case by (simp add: registry_add_ref_ok factories_unchanged)
  next
    case (release r oid)
    then show ?case by (simp add: registry_release_ok factories_unchanged)
  next
    case (clear r)
    then show ?case by (simp add: registry_clear_ok factories_unchanged)
  qed
  then show ?thesis by simp
qed

definition unit_factory :: "(unit, unit) factory" where
  "unit_factory c args u = (if c = 0 then (Inr (Some (object_new ())), u)
     else if c = 1 then (Inr None, u) else (Inl (RuntimeError ''no such constructor''), u))"

lemma unit_factory_fresh: "factory_fresh unit_factory"
  by (simp add: factory_fresh_def unit_factory_def object_new_def)

theorem registry_invariant_witness:
  "registry_ok (registry_release (-1) (fst (snd (create_object 7 0 buffer_new
     (register_factory 7 unit_factory registry_new, ())))))"
proof -
  obtain res r' u' where c: "create_object 7 0 buffer_new (register_factory 7 unit_factory registry_new, ())
      = (res, r', u')" by (metis prod_cases3)
  have "registry_reachable (registry_release (-1) r')"
    by (intro registry_reachable.release
      registry_reachable.create [OF registry_reachable.factory [OF registry_reachable.start unit_factory_fresh] c])
  then have "registry_ok (registry_release (-1) r')" by (rule registry_invariant)
  then show ?thesis using c by simp
qed

text \<open>\<^verbatim>\<open>create_object\<close> on every branch: an unknown type, a factory that throws and one
  that returns null throw the documented errors and leave the registry as it was; otherwise
  the object gets the next id, negative and never used before, and is found under it with the
  count the factory left, every other object being untouched.\<close>

theorem create_object_behaviour:
  assumes "registry_ok r"
  shows "case create_object t c args (r, u) of (res, r', u') \<Rightarrow>
    (case map_of (factories r) t of
      None \<Rightarrow> res = Inl (ServiceError (''Unknown type ID: '' @ dec_string (unat t))) \<and> r' = r \<and> u' = u
    | Some f \<Rightarrow> u' = snd (f c args u) \<and>
      (case fst (f c args u) of
        Inl e \<Rightarrow> res = Inl e \<and> r' = r
      | Inr None \<Rightarrow> res = Inl (ServiceError (''Factory returned null for type ID: '' @ dec_string (unat t))) \<and> r' = r
      | Inr (Some obj) \<Rightarrow>
          if sint (next_id r) = - (2 ^ 31) then \<not> catchable (projl res) \<and> r' = r
          else res = Inr (next_id r) \<and> sint (next_id r) < 0 \<and> next_id r \<notin> set (destroyed r)
            \<and> get_object (next_id r) r = None
            \<and> get_object (next_id r) r' = Some (object_init (next_id r) t obj)
            \<and> (\<forall>j. j \<noteq> next_id r \<longrightarrow> get_object j r' = get_object j r)))"
proof (cases "map_of (factories r) t")
  case None
  then show ?thesis by (simp add: create_object_def)
next
  case (Some f)
  have fresh: "sint (next_id r) < 0" "next_id r \<notin> fst ` set (objects r) \<union> set (destroyed r)"
    using assms unfolding registry_ok_def by auto
  then have "map_of (objects r) (next_id r) = None" by (simp add: map_of_eq_None_iff)
  with Some fresh show ?thesis
    by (auto simp: create_object_def take_id_def get_object_def add_object_def update_conv'
        split: prod.splits sum.splits option.splits)
qed

section \<open>Reference counting as a refinement\<close>

text \<open>The operations of a registry in the order its clients make them, on any ids and in any
  interleaving, and what the caller sees of each.\<close>

datatype ('o, 'u) ref_op = RcCreate u32 u16 buffer | RcRegister "('o, 'u) object option"
  | RcAddRef i32 | RcRelease i32 | RcClear

datatype ref_outcome = Created i32 | Failed | Found bool | NoResult

fun ref_step :: "('o, 'u) ref_op \<Rightarrow> ('o, 'u) object_registry \<times> 'u \<Rightarrow> ref_outcome \<times> ('o, 'u) object_registry \<times> 'u" where
  "ref_step (RcCreate t c args) s = (case create_object t c args s of
      (Inr oid, s) \<Rightarrow> (Created oid, s) | (Inl e, s) \<Rightarrow> (Failed, s))"
| "ref_step (RcRegister obj) (r, u) = (case register_object obj r of
      (Inr oid, r) \<Rightarrow> (Created oid, r, u) | (Inl e, r) \<Rightarrow> (Failed, r, u))"
| "ref_step (RcAddRef oid) (r, u) = (case registry_add_ref oid r of (b, r) \<Rightarrow> (Found b, r, u))"
| "ref_step (RcRelease oid) (r, u) = (NoResult, registry_release oid r, u)"
| "ref_step RcClear (r, u) = (NoResult, registry_clear r, u)"

fun ref_run :: "('o, 'u) ref_op list \<Rightarrow> ('o, 'u) object_registry \<times> 'u \<Rightarrow> ref_outcome list \<times> ('o, 'u) object_registry \<times> 'u" where
  "ref_run [] s = ([], s)"
| "ref_run (op # ops) s = (case ref_step op s of (x, s) \<Rightarrow> case ref_run ops s of (xs, s) \<Rightarrow> (x # xs, s))"

text \<open>The specification: a table of counts and the set of ids that were destroyed. A step is
  possible only with the outcome the table dictates, and a new id only if it was never used.\<close>

type_synonym ref_table = "(i32 \<Rightarrow> nat option) \<times> i32 set"

fun table_step :: "('o, 'u) ref_op \<Rightarrow> ref_outcome \<Rightarrow> ref_table \<Rightarrow> ref_table option" where
  "table_step (RcCreate t c args) (Created oid) (m, gone) =
     (if m oid = None \<and> oid \<notin> gone then Some (m(oid \<mapsto> 1), gone) else None)"
| "table_step (RcCreate t c args) Failed s = Some s"
| "table_step (RcRegister obj) (Created oid) (m, gone) =
     (if obj \<noteq> None \<and> m oid = None \<and> oid \<notin> gone then Some (m(oid \<mapsto> 1), gone) else None)"
| "table_step (RcRegister obj) Failed s = Some s"
| "table_step (RcAddRef oid) (Found b) (m, gone) = (case m oid of
      None \<Rightarrow> if b then None else Some (m, gone)
    | Some n \<Rightarrow> if b then Some (m(oid \<mapsto> n + 1), gone) else None)"
| "table_step (RcRelease oid) NoResult (m, gone) = (case m oid of
      None \<Rightarrow> Some (m, gone)
    | Some n \<Rightarrow> if n = 1 then Some (m(oid := None), insert oid gone) else Some (m(oid \<mapsto> n - 1), gone))"
| "table_step RcClear NoResult (m, gone) = Some (Map.empty, gone \<union> dom m)"
| "table_step _ _ _ = None"

fun table_run :: "('o, 'u) ref_op list \<Rightarrow> ref_outcome list \<Rightarrow> ref_table \<Rightarrow> ref_table option" where
  "table_run [] [] s = Some s"
| "table_run (op # ops) (x # xs) s = Option.bind (table_step op x s) (table_run ops xs)"
| "table_run _ _ _ = None"

definition ref_table_of :: "('o, 'u) object_registry \<Rightarrow> ref_table" where
  "ref_table_of r = ((\<lambda>oid. map_option unat (refs_of r oid)), set (destroyed r))"

definition counted_ok :: "nat \<Rightarrow> ('o, 'u) object_registry \<Rightarrow> bool" where
  "counted_ok k r \<longleftrightarrow> registry_ok r \<and> (\<forall>t f. map_of (factories r) t = Some f \<longrightarrow> factory_fresh f)
     \<and> k < 2 ^ 32 \<and> (\<forall>oid n. refs_of r oid = Some n \<longrightarrow> unat n + k < 2 ^ 32)"

definition ref_op_ok :: "('o, 'u) ref_op \<Rightarrow> bool" where
  "ref_op_ok op \<longleftrightarrow> (case op of RcRegister (Some obj) \<Rightarrow> ob_refs obj = 1 | _ \<Rightarrow> True)"

text \<open>An object under a new id.\<close>

lemma table_add:
  assumes "counted_ok (Suc k) r" and "take_id r = (Inr oid, r1)" and "ob_id obj = oid" and "ob_refs obj = 1"
  shows "fst (ref_table_of r) oid = None \<and> oid \<notin> snd (ref_table_of r)
    \<and> ref_table_of (add_object oid obj r1) = ((fst (ref_table_of r))(oid \<mapsto> 1), snd (ref_table_of r))
    \<and> counted_ok k (add_object oid obj r1)"
proof -
  have r: "registry_ok r" using assms(1) by (simp add: counted_ok_def)
  note a = registry_ok_add [OF r assms(2), of obj, unfolded assms(3,4)]
  have d: "destroyed r1 = destroyed r" "factories r1 = factories r"
    using assms(2) by (auto simp: take_id_def split: if_splits)
  have "ref_table_of (add_object oid obj r1) = ((fst (ref_table_of r))(oid \<mapsto> 1), snd (ref_table_of r))"
    using a(5) d(1) by (auto simp: ref_table_of_def fun_eq_iff) (simp_all add: add_object_def)
  moreover have "counted_ok k (add_object oid obj r1)"
    using assms(1) a(1,5) d(2) by (fastforce simp: counted_ok_def add_object_def)
  ultimately show ?thesis using a(2,3) by (simp add: ref_table_of_def)
qed

lemma counted_ok_less: "counted_ok (Suc k) r \<Longrightarrow> counted_ok k r"
  by (fastforce simp: counted_ok_def)

text \<open>One operation.\<close>

lemma ref_step_refines:
  assumes "counted_ok (Suc k) r" and "ref_op_ok op" and "ref_step op (r, u) = (x, r', u')"
  shows "table_step op x (ref_table_of r) = Some (ref_table_of r') \<and> counted_ok k r'"
proof (cases op)
  case (RcCreate t c args)
  obtain res r1 u1 where c: "create_object t c args (r, u) = (res, r1, u1)" by (rule prod_cases3)
  show ?thesis
  proof (cases res)
    case (Inl e)
    then show ?thesis
      using assms(1,3) RcCreate c create_object_Inl [of t c args r u e r1 u1] counted_ok_less [OF assms(1)]
      by (cases "ref_table_of r") simp
  next
    case (Inr oid)
    with c obtain f obj r2 where f: "map_of (factories r) t = Some f" "f c args u = (Inr (Some obj), u1)"
      "take_id r = (Inr oid, r2)" "r1 = add_object oid (object_init oid t obj) r2"
      by (auto elim: create_object_Inr)
    have "factory_fresh f" using assms(1) f(1) by (auto simp: counted_ok_def)
    then have "ob_refs obj = 1" using f(2)
      unfolding factory_fresh_def by (auto dest!: spec [of _ c] spec [of _ args] spec [of _ u])
    with table_add [OF assms(1) f(3), of "object_init oid t obj"] show ?thesis
      using assms(3) RcCreate c Inr f(4) by (cases "ref_table_of r") (auto simp: object_init_def)
  qed
next
  case (RcRegister obj)
  obtain res r1 where c: "register_object obj r = (res, r1)" by (rule prod.exhaust)
  show ?thesis
  proof (cases res)
    case (Inl e)
    then have "r1 = r" using c by (auto simp: register_object_def take_id_def split: option.splits if_splits prod.splits sum.splits)
    then show ?thesis
      using assms(1,3) RcRegister c Inl counted_ok_less [OF assms(1)] by (cases "ref_table_of r") simp
  next
    case (Inr oid)
    with c obtain ob r2 where f: "obj = Some ob" "take_id r = (Inr oid, r2)" "r1 = add_object oid (object_init oid 0 ob) r2"
      by (auto simp: register_object_def split: option.splits prod.splits sum.splits)
    with table_add [OF assms(1) f(2), of "object_init oid 0 ob"] show ?thesis
      using assms(2,3) RcRegister c Inr by (cases "ref_table_of r") (auto simp: object_init_def ref_op_ok_def)
  qed
next
  case (RcAddRef oid)
  obtain b r1 where c: "registry_add_ref oid r = (b, r1)" by (rule prod.exhaust)
  note a = refs_of_add_ref [OF c]
  have eq: "destroyed r1 = destroyed r" "factories r1 = factories r"
    using c factories_unchanged(3) [of oid r]
    by (auto simp: registry_add_ref_def add_object_def split: option.splits)
  have room: "unat (n + 1) = unat n + 1 \<and> unat n + 1 + k < 2 ^ 32" if "refs_of r oid = Some n" for n
  proof -
    have "unat n + Suc k < 2 ^ 32" using assms(1) that by (auto simp: counted_ok_def)
    then show ?thesis by (simp add: unat_word_ariths)
  qed
  then have "refs_of r oid \<noteq> Some (- 1)" using room [of "- 1"] by auto
  then have "registry_ok r1"
    using assms(1) c registry_add_ref_ok [of r oid] by (simp add: counted_ok_def)
  then have ok: "counted_ok k r1"
    using counted_ok_less [OF assms(1)] a(2) room eq(2) by (auto simp: counted_ok_def split: if_splits)
  show ?thesis
  proof (cases "refs_of r oid")
    case None
    then have "refs_of r1 = refs_of r" using a(2) by (auto simp: fun_eq_iff)
    with None a(1) c ok eq assms(3) RcAddRef show ?thesis by (auto simp: ref_table_of_def)
  next
    case (Some n)
    then have "ref_table_of r1 = ((fst (ref_table_of r))(oid \<mapsto> unat n + 1), set (destroyed r))"
      using a(2) room eq(1) by (simp add: ref_table_of_def fun_eq_iff)
    with Some a(1) c ok assms(3) RcAddRef show ?thesis by (auto simp: ref_table_of_def)
  qed
next
  case (RcRelease oid)
  then have r': "r' = registry_release oid r" "x = NoResult" using assms(3) by simp_all
  have pos: "0 < n" if "refs_of r oid = Some n" for n
    using that assms(1) registry_ok_get [of r oid] by (auto simp: refs_of_get counted_ok_def)
  have less: "n \<noteq> 1 \<Longrightarrow> unat (n - 1) = unat n - 1" if "refs_of r oid = Some n" for n
    using pos [OF that] by (simp add: unat_minus_one word_neq_0_conv)
  have le: "unat (n - 1) \<le> unat n" if "refs_of r oid = Some n" for n
    using pos [OF that] by (simp add: unat_minus_one word_neq_0_conv)
  have "registry_ok r'" using assms(1) r' registry_release_ok [of r oid] by (simp add: counted_ok_def)
  then have "counted_ok k r'"
    using counted_ok_less [OF assms(1)] r'(1) factories_unchanged(4) [of oid r] le
    by (fastforce simp: counted_ok_def refs_of_release split: if_splits option.splits)
  moreover have "unat n = 1 \<longleftrightarrow> n = 1" for n :: "32 word"
    using unat_arith_simps(3) [of n 1] by simp
  ultimately show ?thesis
    using RcRelease r' less
    by (auto simp: ref_table_of_def refs_of_release destroyed_release fun_eq_iff split: option.splits)
next
  case RcClear
  then have r': "r' = registry_clear r" "x = NoResult" using assms(3) by simp_all
  moreover have "counted_ok k r'"
    using assms(1) r' registry_clear_ok [of r] by (auto simp: counted_ok_def refs_of_def registry_clear_def)
  moreover have "dom (\<lambda>oid. map_option unat (refs_of r oid)) = fst ` set (objects r)"
    by (auto simp: refs_of_def dom_def map_of_eq_None_iff)
  ultimately show ?thesis
    using RcClear by (auto simp: ref_table_of_def registry_clear_def refs_of_def)
qed

text \<open>Claim C37. The registry implements a table of reference counts. For any sequence of its
  operations by any number of clients, on any ids, what the callers see and what the registry
  becomes is what the table says: a new object gets an id that was never used before, with
  count one; \<^verbatim>\<open>add_ref\<close> adds one and says whether the id exists; \<^verbatim>\<open>release\<close> takes one away
  and destroys the object exactly when the count was one; \<^verbatim>\<open>clear\<close> destroys all; and every
  other entry stays as it is. (Counts stay below \<open>2 ^ 32\<close>, and factories return objects with
  one reference, as the constructor makes them.)\<close>

theorem refcount_lifecycle:
  assumes "registry_ok r" and "\<forall>t f. map_of (factories r) t = Some f \<longrightarrow> factory_fresh f"
    and "length ops < 2 ^ 32" and "\<forall>oid n. refs_of r oid = Some n \<longrightarrow> unat n + length ops < 2 ^ 32"
    and "list_all ref_op_ok ops" and "ref_run ops (r, u) = (xs, r', u')"
  shows "table_run ops xs (ref_table_of r) = Some (ref_table_of r')"
proof -
  have "counted_ok (length ops) r" using assms(1-4) by (simp add: counted_ok_def)
  then show ?thesis using assms(5,6)
  proof (induction ops arbitrary: r u xs)
    case Nil
    then show ?case by simp
  next
    case (Cons op ops)
    obtain x r1 u1 where s: "ref_step op (r, u) = (x, r1, u1)" by (rule prod_cases3)
    with Cons.prems(3) obtain ys where ys: "ref_run ops (r1, u1) = (ys, r', u')" "xs = x # ys"
      by (auto split: prod.splits)
    have "counted_ok (Suc (length ops)) r" "ref_op_ok op" using Cons.prems by simp_all
    with ref_step_refines [OF this s] Cons.IH [OF _ _ ys(1)] Cons.prems(2) ys(2) show ?case by simp
  qed
qed

text \<open>Two objects with interleaved references: the first goes with its second release, the
  second stays.\<close>

theorem refcount_lifecycle_witness:
  "let ops = [RcCreate 7 0 buffer_new, RcAddRef (-1), RcRegister (Some (object_new ())), RcRelease (-1),
        RcAddRef (-2), RcRelease (-1), RcAddRef (-1)];
       (xs, r', u') = ref_run ops (register_factory 7 unit_factory registry_new, ())
   in xs = [Created (-1), Found True, Created (-2), NoResult, Found True, NoResult, Found False]
     \<and> ref_table_of r' = ([-2 \<mapsto> 2], {-1})"
proof -
  let ?r = "register_factory 7 unit_factory registry_new :: (unit, unit) object_registry"
  let ?ops = "[RcCreate 7 0 buffer_new, RcAddRef (-1), RcRegister (Some (object_new ())), RcRelease (-1),
        RcAddRef (-2), RcRelease (-1), RcAddRef (-1)] :: (unit, unit) ref_op list"
  let ?xs = "[Created (-1), Found True, Created (-2), NoResult, Found True, NoResult, Found False]"
  obtain r' u' where run: "ref_run ?ops (?r, ()) = (?xs, r', u')"
    by (simp add: create_object_def register_factory_def registry_new_def unit_factory_def take_id_def
        object_new_def object_init_def add_object_def registry_add_ref_def object_add_ref_def register_object_def
        registry_release_def object_release_def)
  have t: "ref_table_of ?r = (Map.empty, {})"
    by (simp add: ref_table_of_def refs_of_def register_factory_def registry_new_def)
  have "table_run ?ops ?xs (ref_table_of ?r) = Some (ref_table_of r')"
  proof (rule refcount_lifecycle [OF _ _ _ _ _ run])
    show "registry_ok ?r" by simp
    show "\<forall>t f. map_of (factories ?r) t = Some f \<longrightarrow> factory_fresh f"
      using unit_factory_fresh by (simp add: register_factory_def registry_new_def)
    show "\<forall>oid n. refs_of ?r oid = Some n \<longrightarrow> unat n + length ?ops < 2 ^ 32"
      by (simp add: refs_of_def register_factory_def registry_new_def)
  qed (simp_all add: ref_op_ok_def object_new_def)
  then have "ref_table_of r' = ([-2 \<mapsto> 2], {-1})"
    unfolding t by (simp add: eq_commute numeral_2_eq_2)
  with run show ?thesis by simp
qed

end
