(* ===== verification/Song_Subscription.thy ===== *)
theory Song_Subscription
  imports Song_Net Song_Object
begin

text \<open>
  \<^verbatim>\<open>include/song/subscription.hpp\<close> and \<^verbatim>\<open>src/subscription.cpp\<close>: who is subscribed to which
  property of which object, and the fan-out of a change to the subscribers' transports; and
  \<^verbatim>\<open>Object::notify_property\<close>, which starts it. The abstract view is a set of subscriptions.
\<close>

section \<open>The registry\<close>

type_synonym sid = nat
type_synonym sub_key = "i32 \<times> u16"
type_synonym subs = "(sub_key \<times> (sid \<times> tid) list) list"

definition subscribe :: "sid \<Rightarrow> i32 \<Rightarrow> u16 \<Rightarrow> tid \<Rightarrow> subs \<Rightarrow> subs" where
  "subscribe subscriber oid pid transport m =
    (let key = (oid, pid);
         subscribers = (case map_of m key of None \<Rightarrow> [] | Some v \<Rightarrow> v)
     in if list_ex (\<lambda>s. fst s = subscriber) subscribers
        then AList.update key subscribers m
        else AList.update key (subscribers @ [(subscriber, transport)]) m)"

definition unsubscribe :: "sid \<Rightarrow> i32 \<Rightarrow> u16 \<Rightarrow> subs \<Rightarrow> subs" where
  "unsubscribe subscriber oid pid m = (case map_of m (oid, pid) of
      None \<Rightarrow> m
    | Some v \<Rightarrow>
        let v = filter (\<lambda>s. fst s \<noteq> subscriber) v
        in if v = [] then AList.delete (oid, pid) m else AList.update (oid, pid) v m)"

text \<open>The loop over the map erases the entries that become empty.\<close>

fun unsubscribe_all :: "sid \<Rightarrow> subs \<Rightarrow> subs" where
  "unsubscribe_all subscriber [] = []"
| "unsubscribe_all subscriber ((k, v) # m) =
    (let v = filter (\<lambda>s. fst s \<noteq> subscriber) v
     in if v = [] then unsubscribe_all subscriber m else (k, v) # unsubscribe_all subscriber m)"

definition subscriber_count :: "i32 \<Rightarrow> u16 \<Rightarrow> subs \<Rightarrow> nat" where
  "subscriber_count oid pid m = (case map_of m (oid, pid) of None \<Rightarrow> 0 | Some v \<Rightarrow> length v)"

definition total_subscriptions :: "subs \<Rightarrow> nat" where
  "total_subscriptions m = foldl (\<lambda>total (k, v). total + length v) 0 m"

text \<open>The sends of \<^verbatim>\<open>notify\<close>, over any way to send to a transport; \<^verbatim>\<open>catch (...)\<close> takes every
  exception.\<close>

fun send_targets :: "(tid \<Rightarrow> buffer \<Rightarrow> ('s, unit) step) \<Rightarrow> buffer \<Rightarrow> tid list \<Rightarrow> ('s, unit) step" where
  "send_targets send msg [] = sret ()"
| "send_targets send msg (t # ts) =
    sbind (scatch catchable (send t msg) (\<lambda>e. sret ())) (\<lambda>_. send_targets send msg ts)"

definition sub_notify :: "(tid \<Rightarrow> buffer \<Rightarrow> ('s, unit) step) \<Rightarrow> u32 \<Rightarrow> i32 \<Rightarrow> u16 \<Rightarrow> buffer \<Rightarrow> subs
    \<Rightarrow> ('s, unit) step" where
  "sub_notify send type_id oid pid val m =
    sbind (slift (create_property_notify_message type_id oid pid val)) (\<lambda>notify_msg.
    case map_of m (oid, pid) of
      None \<Rightarrow> sret ()
    | Some v \<Rightarrow> send_targets send notify_msg (map snd v))"

text \<open>\<^verbatim>\<open>Object::notify_property\<close>: the subscription registry if the object has it, else its
  callback, else nothing.\<close>

definition notify_property :: "(tid \<Rightarrow> buffer \<Rightarrow> ('s, unit) step) \<Rightarrow> subs \<Rightarrow> ('o, 'u) object \<Rightarrow> u16 \<Rightarrow> buffer
    \<Rightarrow> ('s \<times> 'u, unit) step" where
  "notify_property send m obj pid val = (\<lambda>(s, u).
    if ob_fanout obj
    then (case sub_notify send (ob_type obj) (ob_id obj) pid val m s of (r, s) \<Rightarrow> (r, s, u))
    else (case ob_callback obj of
        Some cb \<Rightarrow> (case cb (ob_type obj) (ob_id obj) pid val u of (r, u) \<Rightarrow> (r, s, u))
      | None \<Rightarrow> (Inr (), s, u)))"

section \<open>The subscriptions as a set\<close>

definition subs_ok :: "subs \<Rightarrow> bool" where
  "subs_ok m \<longleftrightarrow> distinct (map fst m) \<and> (\<forall>(k, v) \<in> set m. v \<noteq> [] \<and> distinct (map fst v))"

definition subscribed :: "subs \<Rightarrow> (sid \<times> tid \<times> sub_key) set" where
  "subscribed m = {(s, t, k). \<exists>v. map_of m k = Some v \<and> (s, t) \<in> set v}"

lemma subs_ok_Nil [simp]: "subs_ok []"
  by (simp add: subs_ok_def)

lemma subscribed_Nil [simp]: "subscribed [] = {}"
  by (simp add: subscribed_def)

lemma subs_ok_entry: "subs_ok m \<Longrightarrow> map_of m k = Some v \<Longrightarrow> v \<noteq> [] \<and> distinct (map fst v)"
  by (auto simp: subs_ok_def dest: map_of_SomeD)

lemma subs_ok_update:
  "subs_ok m \<Longrightarrow> v \<noteq> [] \<Longrightarrow> distinct (map fst v) \<Longrightarrow> subs_ok (AList.update k v m)"
  by (auto simp: subs_ok_def set_update_distinct distinct_update)

lemma subs_ok_delete: "subs_ok m \<Longrightarrow> subs_ok (AList.delete k m)"
  by (auto simp: subs_ok_def AList.delete_eq distinct_map_fst_filter)

lemma subscribed_update:
  "subscribed (AList.update k v m) = {(s, t, j). if j = k then (s, t) \<in> set v else (s, t, j) \<in> subscribed m}"
  by (auto simp: subscribed_def update_conv')

lemma subscribed_delete:
  "subscribed (AList.delete k m) = {(s, t, j). j \<noteq> k \<and> (s, t, j) \<in> subscribed m}"
  by (auto simp: subscribed_def AList.delete_conv')

lemma subscribe_ok:
  assumes "subs_ok m"
  shows "subs_ok (subscribe s oid pid t m)"
    and "subscribed (subscribe s oid pid t m) =
      (if \<exists>t'. (s, t', oid, pid) \<in> subscribed m then subscribed m
       else insert (s, t, oid, pid) (subscribed m))"
proof -
  let ?k = "(oid, pid)"
  show "subs_ok (subscribe s oid pid t m)"
    using assms subs_ok_entry [OF assms, of ?k]
    by (auto simp: subscribe_def Let_def list_ex_iff split: option.splits intro!: subs_ok_update)
  show "subscribed (subscribe s oid pid t m) =
      (if \<exists>t'. (s, t', oid, pid) \<in> subscribed m then subscribed m
       else insert (s, t, oid, pid) (subscribed m))"
  proof (cases "map_of m ?k")
    case None
    then show ?thesis
      by (auto simp: subscribe_def subscribed_update) (auto simp: subscribed_def)
  next
    case (Some v)
    show ?thesis
    proof (cases "\<exists>t'. (s, t') \<in> set v")
      case True
      with Some show ?thesis
        by (auto simp: subscribe_def list_ex_iff subscribed_update) (auto simp: subscribed_def)
    next
      case False
      with Some show ?thesis
        by (auto simp: subscribe_def list_ex_iff subscribed_update) (auto simp: subscribed_def)
    qed
  qed
qed

lemma unsubscribe_ok:
  assumes "subs_ok m"
  shows "subs_ok (unsubscribe s oid pid m)"
    and "subscribed (unsubscribe s oid pid m) = {(s', t, k) \<in> subscribed m. \<not> (s' = s \<and> k = (oid, pid))}"
proof -
  have d: "distinct (map fst v) \<Longrightarrow> distinct (map fst (filter (\<lambda>p. fst p \<noteq> s) v))" for v :: "(sid \<times> tid) list"
    by (rule distinct_map_fst_filter)
  show "subs_ok (unsubscribe s oid pid m)"
    using assms subs_ok_entry [OF assms, of "(oid, pid)"] d
    by (auto simp: unsubscribe_def Let_def split: option.splits intro!: subs_ok_update subs_ok_delete)
  show "subscribed (unsubscribe s oid pid m) = {(s', t, k) \<in> subscribed m. \<not> (s' = s \<and> k = (oid, pid))}"
  proof (cases "map_of m (oid, pid)")
    case None
    then show ?thesis by (auto simp: unsubscribe_def subscribed_def)
  next
    case (Some v)
    then show ?thesis
      by (auto simp: unsubscribe_def Let_def subscribed_update subscribed_delete filter_empty_conv)
        (auto simp: subscribed_def)
  qed
qed

lemma map_of_unsubscribe_all:
  "distinct (map fst m) \<Longrightarrow> map_of (unsubscribe_all s m) k = (case map_of m k of
      None \<Rightarrow> None
    | Some v \<Rightarrow> let v = filter (\<lambda>p. fst p \<noteq> s) v in if v = [] then None else Some v)"
proof (induction s m rule: unsubscribe_all.induct)
  case (1 s)
  then show ?case by simp
next
  case (2 s j v m)
  then have "map_of m j = None" by (simp add: map_of_eq_None_iff)
  with 2 show ?case by (auto simp: Let_def)
qed

lemma unsubscribe_all_filter:
  "unsubscribe_all s m = filter (\<lambda>p. snd p \<noteq> []) (map (\<lambda>p. (fst p, filter (\<lambda>x. fst x \<noteq> s) (snd p))) m)"
  by (induction s m rule: unsubscribe_all.induct) (simp_all add: Let_def)

lemma keys_unsubscribe_all:
  "distinct (map fst m) \<Longrightarrow> distinct (map fst (unsubscribe_all s m))"
  unfolding unsubscribe_all_filter by (rule distinct_map_fst_filter) (simp add: comp_def)

lemma unsubscribe_all_ok:
  assumes "subs_ok m"
  shows "subs_ok (unsubscribe_all s m)"
    and "subscribed (unsubscribe_all s m) = {(s', t, k) \<in> subscribed m. s' \<noteq> s}"
proof -
  have d: "distinct (map fst m)" using assms by (simp add: subs_ok_def)
  show "subs_ok (unsubscribe_all s m)"
    unfolding subs_ok_def
  proof (intro conjI ballI)
    fix p assume p: "p \<in> set (unsubscribe_all s m)"
    then have "map_of (unsubscribe_all s m) (fst p) = Some (snd p)"
      using keys_unsubscribe_all [OF d] by simp
    then obtain v where "map_of m (fst p) = Some v" "snd p = filter (\<lambda>p. fst p \<noteq> s) v" "snd p \<noteq> []"
      using d by (auto simp: map_of_unsubscribe_all Let_def split: option.splits if_splits)
    with subs_ok_entry [OF assms] show "case p of (k, v) \<Rightarrow> v \<noteq> [] \<and> distinct (map fst v)"
      by (auto simp: split_beta distinct_map_fst_filter)
  qed (use keys_unsubscribe_all [OF d] in simp)
  show "subscribed (unsubscribe_all s m) = {(s', t, k) \<in> subscribed m. s' \<noteq> s}"
    unfolding subscribed_def map_of_unsubscribe_all [OF d] Let_def
    by (auto simp del: map_of_eq_Some_iff simp: filter_empty_conv split: option.splits) force
qed

lemma subscribed_Cons:
  assumes "k \<notin> fst ` set m"
  shows "subscribed ((k, v) # m) = (\<lambda>(s, t). (s, t, k)) ` set v \<union> subscribed m"
proof -
  have "map_of m k = None" using assms by (simp add: map_of_eq_None_iff)
  then show ?thesis by (auto simp: subscribed_def image_iff split: if_splits)
qed

lemma finite_subscribed: "finite (subscribed m)"
proof (induction m)
  case (Cons p m)
  have "subscribed (p # m) \<subseteq> (\<lambda>(s, t). (s, t, fst p)) ` set (snd p) \<union> subscribed m"
    by (auto simp: subscribed_def image_iff split: if_splits)
  with Cons show ?case by (meson finite_UnI finite_imageI finite_set finite_subset)
qed simp

lemma total_subscriptions_card: "subs_ok m \<Longrightarrow> total_subscriptions m = card (subscribed m)"
proof -
  have fold: "foldl (\<lambda>total (k, v). total + length v) n m = n + sum_list (map (length \<circ> snd) m)" for n :: nat
    by (induction m arbitrary: n) (auto simp: split_beta)
  have "subs_ok m \<Longrightarrow> sum_list (map (length \<circ> snd) m) = card (subscribed m)"
  proof (induction m)
    case (Cons p m)
    obtain k v where p: "p = (k, v)" by fastforce
    with Cons.prems have k: "k \<notin> fst ` set m" "distinct (map fst v)" "subs_ok m"
      by (auto simp: subs_ok_def)
    have "inj_on (\<lambda>(s, t). (s, t, k)) (set v)" by (auto simp: inj_on_def)
    then have "card ((\<lambda>(s, t). (s, t, k)) ` set v) = length v"
      using k(2) by (simp add: card_image distinct_card distinct_map)
    moreover have "map_of m k = None" using k(1) by (simp add: map_of_eq_None_iff)
    then have "(\<lambda>(s, t). (s, t, k)) ` set v \<inter> subscribed m = {}"
      by (auto simp: subscribed_def)
    ultimately show ?case
      using Cons.IH k p by (simp add: subscribed_Cons card_Un_disjoint finite_subscribed)
  qed simp
  then show "subs_ok m \<Longrightarrow> total_subscriptions m = card (subscribed m)"
    by (simp add: total_subscriptions_def fold)
qed

lemma subscriber_count_card:
  assumes "subs_ok m"
  shows "subscriber_count oid pid m = card {(s, t). (s, t, oid, pid) \<in> subscribed m}"
proof (cases "map_of m (oid, pid)")
  case None
  then show ?thesis by (simp add: subscriber_count_def subscribed_def)
next
  case (Some v)
  then have "{(s, t). (s, t, oid, pid) \<in> subscribed m} = set v" by (auto simp: subscribed_def)
  with Some subs_ok_entry [OF assms Some] show ?thesis
    by (simp add: subscriber_count_def distinct_card distinct_map)
qed

section \<open>Fan-out\<close>

text \<open>The targets that get the message when the coming sends turn out as \<open>fs\<close> says.\<close>

fun delivered :: "exn option list \<Rightarrow> tid list \<Rightarrow> tid list" where
  "delivered fs [] = []"
| "delivered [] (t # ts) = t # delivered [] ts"
| "delivered (None # fs) (t # ts) = t # delivered fs ts"
| "delivered (Some e # fs) (t # ts) = delivered fs ts"

lemma send_targets_net:
  "(\<forall>e. Some e \<in> set (n_faults n) \<longrightarrow> catchable e) \<Longrightarrow>
    send_targets net_send msg ts n = (Inr (), n\<lparr>n_sent := n_sent n @ map (\<lambda>t. (t, msg)) (delivered (n_faults n) ts),
      n_faults := drop (length ts) (n_faults n)\<rparr>)"
proof (induction "n_faults n" ts arbitrary: n rule: delivered.induct)
  case (1 n)
  then show ?case by (simp add: sret_def)
next
  case (2 t ts n)
  then have f: "n_faults n = []" by simp
  from 2(1) [of "n\<lparr>n_sent := n_sent n @ [(t, msg)]\<rparr>"] f show ?case
    by (simp add: sbind_apply scatch_apply net_send_def f)
next
  case (3 fs t ts n)
  then have f: "n_faults n = None # fs" by simp
  from 3(1) [of "n\<lparr>n_sent := n_sent n @ [(t, msg)], n_faults := fs\<rparr>"] 3(3) f show ?case
    by (simp add: sbind_apply scatch_apply net_send_def)
next
  case (4 e fs t ts n)
  then have f: "n_faults n = Some e # fs" by simp
  then have "catchable e" using 4(3) by simp
  with 4(1) [of "n\<lparr>n_faults := fs\<rparr>"] 4(3) f show ?case
    by (simp add: sbind_apply scatch_apply net_send_def sret_def)
qed

definition notify_message :: "u32 \<Rightarrow> i32 \<Rightarrow> u16 \<Rightarrow> buffer \<Rightarrow> buffer" where
  "notify_message type_id oid pid val = message_buffer mt_prop_notify 0
     (property_header_repr \<lparr>ph_type_id = type_id, ph_object_id = oid, ph_property_id = pid, ph_reserved = 0\<rparr>
      @ contents val)"

lemma notify_message_run:
  "sendable (contents val) \<Longrightarrow>
    create_property_notify_message type_id oid pid val = Inr (notify_message type_id oid pid val)"
  by (simp add: create_property_messages notify_message_def)

definition targets :: "i32 \<Rightarrow> u16 \<Rightarrow> subs \<Rightarrow> tid list" where
  "targets oid pid m = (case map_of m (oid, pid) of None \<Rightarrow> [] | Some v \<Rightarrow> map snd v)"

lemma sub_notify_run:
  assumes "sendable (contents val)"
  shows "sub_notify send type_id oid pid val m = send_targets send (notify_message type_id oid pid val) (targets oid pid m)"
  using assms
  by (auto simp: sub_notify_def fun_eq_iff sbind_apply slift_def notify_message_run targets_def split: option.splits)

section \<open>Properties\<close>

text \<open>Claim C31. The subscription registry implements a set of subscriptions: subscribing adds one
  unless this subscriber already has the property, unsubscribing removes one,
  \<^verbatim>\<open>unsubscribe_all\<close> removes all of a subscriber's and nobody else's, the two counters are
  the cardinalities, and the representation invariant (no duplicate subscriber, no empty
  list) is kept.\<close>

theorem subscriptions_refine_set:
  assumes "subs_ok m"
  shows "subs_ok (subscribe s oid pid t m) \<and> subs_ok (unsubscribe s oid pid m) \<and> subs_ok (unsubscribe_all s m)
    \<and> subscribed (subscribe s oid pid t m) =
        (if \<exists>t'. (s, t', oid, pid) \<in> subscribed m then subscribed m
         else insert (s, t, oid, pid) (subscribed m))
    \<and> subscribed (unsubscribe s oid pid m) = {(s', t, k) \<in> subscribed m. \<not> (s' = s \<and> k = (oid, pid))}
    \<and> subscribed (unsubscribe_all s m) = {(s', t, k) \<in> subscribed m. s' \<noteq> s}
    \<and> total_subscriptions m = card (subscribed m)
    \<and> subscriber_count oid pid m = card {(s, t). (s, t, oid, pid) \<in> subscribed m}"
  using subscribe_ok [OF assms] unsubscribe_ok [OF assms] unsubscribe_all_ok [OF assms]
    total_subscriptions_card [OF assms] subscriber_count_card [OF assms]
  by simp

theorem subscriptions_refine_set_witness:
  "subscribed (unsubscribe_all 1 (subscribe 2 (-1) 5 20 (subscribe 1 (-1) 5 10 []))) = {(2, 20, -1, 5)}"
proof -
  have ok: "subs_ok (subscribe 1 (-1) 5 10 [])"
    using subscriptions_refine_set [of "[]" 1 "-1" 5 10] by simp
  have ok2: "subs_ok (subscribe 2 (-1) 5 20 (subscribe 1 (-1) 5 10 []))"
    using subscriptions_refine_set [OF ok, of 2 "-1" 5 20] by simp
  have "subscribed (subscribe 2 (-1) 5 20 (subscribe 1 (-1) 5 10 [])) = {(1, 10, -1, 5), (2, 20, -1, 5)}"
    using subscriptions_refine_set [OF ok, of 2 "-1" 5 20] subscriptions_refine_set [of "[]" 1 "-1" 5 10] by auto
  with subscriptions_refine_set [OF ok2, of 1] show ?thesis by auto
qed

text \<open>Claim C8. A change of a property is pushed to every current subscriber of that property and
  to nobody else: one notification each, in the order of subscription, and a transport that
  throws costs only its own subscriber the message; \<^verbatim>\<open>notify\<close> itself never throws.\<close>

theorem notify_reaches_subscribers:
  assumes "subs_ok m" and "sendable (contents val)" and "\<forall>e. Some e \<in> set (n_faults n) \<longrightarrow> catchable e"
  shows "sub_notify net_send type_id oid pid val m n = (Inr (),
      n\<lparr>n_sent := n_sent n @ map (\<lambda>t. (t, notify_message type_id oid pid val))
          (delivered (n_faults n) (targets oid pid m)),
        n_faults := drop (subscriber_count oid pid m) (n_faults n)\<rparr>)
    \<and> set (targets oid pid m) = {t. \<exists>s. (s, t, oid, pid) \<in> subscribed m}"
proof
  have "length (targets oid pid m) = subscriber_count oid pid m"
    by (simp add: targets_def subscriber_count_def split: option.splits)
  then show "sub_notify net_send type_id oid pid val m n = (Inr (),
      n\<lparr>n_sent := n_sent n @ map (\<lambda>t. (t, notify_message type_id oid pid val))
          (delivered (n_faults n) (targets oid pid m)),
        n_faults := drop (subscriber_count oid pid m) (n_faults n)\<rparr>)"
    using assms by (simp add: sub_notify_run send_targets_net)
  show "set (targets oid pid m) = {t. \<exists>s. (s, t, oid, pid) \<in> subscribed m}"
    by (force simp: targets_def subscribed_def split: option.splits)
qed

theorem notify_reaches_subscribers_witness:
  "n_sent (snd (sub_notify net_send 9 (-1) 5 buffer_new (subscribe 2 (-1) 5 20 (subscribe 1 (-1) 5 10 []))
      \<lparr>n_sent = [], n_faults = [Some (ServiceError ''gone'')]\<rparr>))
    = [(20, notify_message 9 (-1) 5 buffer_new)]"
proof -
  have "subs_ok (subscribe 2 (-1) 5 20 (subscribe 1 (-1) 5 10 []))"
    by (simp add: subscribe_ok)
  from notify_reaches_subscribers [OF this, of buffer_new
      "\<lparr>n_sent = [], n_faults = [Some (ServiceError ''gone'')]\<rparr>" 9 "-1" 5]
  show ?thesis by (simp add: sendable_def k_max_capacity_eq targets_def subscribe_def)
qed

end
