(* ===== verification/Song_Stream.thy ===== *)
theory Song_Stream
  imports Song_Net
begin

text \<open>
  \<^verbatim>\<open>include/song/stream.hpp\<close> and \<^verbatim>\<open>src/stream.cpp\<close>: the service's stream writer, over a
  transport or a raw descriptor, and the client's stream reader. What a streaming dispatcher
  does to its writer is a list of operations.
\<close>

section \<open>The writer\<close>

text \<open>How the I/O state \<open>'io\<close> sends a message on a transport, which throws on failure, and
  writes one to a descriptor, which reports it.\<close>

record 'io wires =
  on_transport :: "tid \<Rightarrow> buffer \<Rightarrow> ('io, unit) step"
  on_fd :: "int \<Rightarrow> buffer \<Rightarrow> ('io, bool) step"

definition net_wires :: "net wires" where
  "net_wires = \<lparr>on_transport = net_send, on_fd = (\<lambda>fd msg. sret True)\<rparr>"

definition fd_wires :: "sys wires" where
  "fd_wires = \<lparr>on_transport = (\<lambda>t msg. sret ()), on_fd = (\<lambda>fd msg. write_all (contents msg))\<rparr>"

record writer =
  w_transport :: "tid option"
  w_fd :: int
  w_sequence_id :: u32
  w_ended :: bool

definition writer_on_transport :: "tid \<Rightarrow> u32 \<Rightarrow> writer" where
  "writer_on_transport t seq = \<lparr>w_transport = Some t, w_fd = -1, w_sequence_id = seq, w_ended = False\<rparr>"

definition writer_on_fd :: "int \<Rightarrow> u32 \<Rightarrow> writer" where
  "writer_on_fd fd seq = \<lparr>w_transport = None, w_fd = fd, w_sequence_id = seq, w_ended = False\<rparr>"

definition writer_write :: "'io wires \<Rightarrow> buffer \<Rightarrow> (writer \<times> 'io, unit) step" where
  "writer_write wires chunk = (\<lambda>(w, io).
    if w_ended w then (Inl (ServiceError ''StreamWriter: cannot write after stream ended''), w, io)
    else case create_stream_message (w_sequence_id w) chunk of
      Inl e \<Rightarrow> (Inl e, w, io)
    | Inr msg \<Rightarrow>
      (case w_transport w of
        Some t \<Rightarrow> (case on_transport wires t msg io of (r, io) \<Rightarrow> (r, w, io))
      | None \<Rightarrow>
          if w_fd w \<ge> 0
          then (case on_fd wires (w_fd w) msg io of
              (Inl e, io) \<Rightarrow> (Inl e, w, io)
            | (Inr sent, io) \<Rightarrow>
                (if sent then Inr () else Inl (ServiceError ''StreamWriter: write failed''), w, io))
          else (Inr (), w, io)))"

definition writer_abort :: "writer \<Rightarrow> writer" where
  "writer_abort w = w\<lparr>w_ended := True\<rparr>"

definition writer_end :: "'io wires \<Rightarrow> (writer \<times> 'io, unit) step" where
  "writer_end wires = (\<lambda>(w, io).
    if w_ended w then (Inr (), w, io)
    else let w = w\<lparr>w_ended := True\<rparr> in
      case create_stream_end_message (w_sequence_id w) of
        Inl e \<Rightarrow> (Inl e, w, io)
      | Inr msg \<Rightarrow>
        (case w_transport w of
          Some t \<Rightarrow> (case on_transport wires t msg io of (r, io) \<Rightarrow> (r, w, io))
        | None \<Rightarrow>
            if w_fd w \<ge> 0
            then (case on_fd wires (w_fd w) msg io of
                (Inl e, io) \<Rightarrow> (Inl e, w, io)
              | (Inr sent, io) \<Rightarrow> (Inr (), w, io))
            else (Inr (), w, io)))"

text \<open>The destructor, and what move assignment does to its target, end the stream and swallow
  what that throws.\<close>

definition writer_destroy :: "'io wires \<Rightarrow> (writer \<times> 'io, unit) step" where
  "writer_destroy wires = (\<lambda>(w, io).
    if \<not> w_ended w then scatch catchable (writer_end wires) (\<lambda>e. sret ()) (w, io) else (Inr (), w, io))"

definition writer_move :: "writer \<Rightarrow> writer \<times> writer" where
  "writer_move other = (other, other\<lparr>w_ended := True\<rparr>)"

definition writer_move_assign :: "'io wires \<Rightarrow> bool \<Rightarrow> writer \<Rightarrow> writer \<Rightarrow> ('io, writer \<times> writer) step" where
  "writer_move_assign wires same this other io =
    (if same then (Inr (this, this), io)
     else case writer_destroy wires (this, io) of
       (Inl e, _, io) \<Rightarrow> (Inl e, io)
     | (Inr _, _, io) \<Rightarrow> (Inr (writer_move other), io))"

section \<open>Streaming dispatchers\<close>

datatype stream_op = SwWrite buffer | SwEnd | SwAbort

text \<open>A dispatcher is given the method and the request, and does some operations on the writer,
  of which the first that throws ends it, and then returns or throws by itself.\<close>

type_synonym 'u stream_dispatcher = "u16 \<Rightarrow> buffer \<Rightarrow> 'u \<Rightarrow> (stream_op list \<times> unit res) \<times> 'u"

fun run_stream_ops :: "'io wires \<Rightarrow> stream_op list \<Rightarrow> (writer \<times> 'io, unit) step" where
  "run_stream_ops wires [] = sret ()"
| "run_stream_ops wires (SwWrite chunk # ops) =
    sbind (writer_write wires chunk) (\<lambda>_. run_stream_ops wires ops)"
| "run_stream_ops wires (SwEnd # ops) = sbind (writer_end wires) (\<lambda>_. run_stream_ops wires ops)"
| "run_stream_ops wires (SwAbort # ops) =
    sbind (smodify (\<lambda>(w, io). (writer_abort w, io))) (\<lambda>_. run_stream_ops wires ops)"

section \<open>The reader\<close>

record reader =
  r_chunks :: "buffer list"
  r_index :: nat
  r_sequence_id :: u32
  r_complete :: bool

definition reader_new :: "u32 \<Rightarrow> reader" where
  "reader_new seq = \<lparr>r_chunks = [], r_index = 0, r_sequence_id = seq, r_complete = False\<rparr>"

definition reader_add_chunk :: "buffer \<Rightarrow> reader \<Rightarrow> reader" where
  "reader_add_chunk chunk r = r\<lparr>r_chunks := r_chunks r @ [chunk]\<rparr>"

definition reader_set_complete :: "reader \<Rightarrow> reader" where
  "reader_set_complete r = r\<lparr>r_complete := True\<rparr>"

definition reader_next :: "reader \<Rightarrow> bool" where
  "reader_next r = (if r_index r < length (r_chunks r) then True else False)"

definition reader_chunk :: "(reader, buffer) step" where
  "reader_chunk r =
    (if r_index r \<ge> length (r_chunks r) then (Inl (ServiceError ''StreamReader: no chunk available''), r)
     else (Inr (r_chunks r ! r_index r), r\<lparr>r_index := r_index r + 1\<rparr>))"

definition reader_chunk_const :: "reader \<Rightarrow> buffer res" where
  "reader_chunk_const r =
    (if r_index r \<ge> length (r_chunks r) then Inl (ServiceError ''StreamReader: no chunk available'')
     else Inr (r_chunks r ! r_index r))"

text \<open>The client's loop \<^verbatim>\<open>while (reader.next()) { ... reader.chunk() ... }\<close>.\<close>

function drain :: "reader \<Rightarrow> buffer list \<times> reader" where
  "drain r = (if reader_next r
     then (case reader_chunk r of
         (Inr c, r') \<Rightarrow> (case drain r' of (cs, r'') \<Rightarrow> (c # cs, r''))
       | (Inl e, r') \<Rightarrow> ([], r'))
     else ([], r))"
  by pat_completeness auto
termination
  by (relation "measure (\<lambda>r. length (r_chunks r) - r_index r)") (auto simp: reader_chunk_def split: if_splits)

declare drain.simps [simp del]

lemma drain_all: "fst (drain r) = drop (r_index r) (r_chunks r)"
proof (induction r rule: drain.induct)
  case (1 r)
  show ?case
  proof (cases "r_index r < length (r_chunks r)")
    case True
    then have "reader_chunk r = (Inr (r_chunks r ! r_index r), r\<lparr>r_index := r_index r + 1\<rparr>)"
      by (simp add: reader_chunk_def)
    moreover have "reader_next r" using True by (simp add: reader_next_def)
    ultimately show ?thesis
      using 1 True by (subst drain.simps) (simp add: split_beta Cons_nth_drop_Suc)
  next
    case False
    then show ?thesis by (subst drain.simps) (simp add: reader_next_def)
  qed
qed

section \<open>What a writer sends\<close>

text \<open>A writer transmits on a port: the two functions below are its \<^verbatim>\<open>write\<close> and \<^verbatim>\<open>end\<close>
  without the guards.\<close>

definition transmit :: "'io wires \<Rightarrow> writer \<Rightarrow> buffer \<Rightarrow> ('io, unit) step" where
  "transmit wires w msg io = (case w_transport w of
      Some t \<Rightarrow> on_transport wires t msg io
    | None \<Rightarrow> if w_fd w \<ge> 0 then sbind (on_fd wires (w_fd w) msg)
        (\<lambda>sent. if sent then sret () else sthrow (ServiceError ''StreamWriter: write failed'')) io
      else (Inr (), io))"

lemma writer_write_transmit:
  "\<not> w_ended w \<Longrightarrow> sendable (contents chunk) \<Longrightarrow> writer_write wires chunk (w, io) =
    (case transmit wires w (message_buffer mt_stream (w_sequence_id w) (contents chunk)) io of (r, io) \<Rightarrow> (r, w, io))"
  by (auto simp: writer_write_def message_simps transmit_def sbind_apply monad_defs
      split: option.splits prod.splits sum.splits)

lemma writer_end_transmit:
  assumes "\<not> w_ended w" and "transmit wires w (message_buffer mt_stream_end (w_sequence_id w) []) io = (Inr (), io')"
  shows "writer_end wires (w, io) = (Inr (), w\<lparr>w_ended := True\<rparr>, io')"
  using assms
  by (auto simp: writer_end_def message_simps transmit_def sbind_apply monad_defs Let_def
      split: option.splits prod.splits sum.splits if_splits)

text \<open>The bytes of a stream: a message for each chunk.\<close>

definition stream_bytes :: "u32 \<Rightarrow> buffer list \<Rightarrow> byte list" where
  "stream_bytes seq chunks = concat (map (\<lambda>c. wire_message mt_stream seq (contents c)) chunks)"

context message_port
begin

lemma run_writes:
  assumes "send = transmit wires w" and "\<not> w_ended w" and "list_all (\<lambda>c. sendable (contents c)) chunks"
    and "ready (length (stream_bytes (w_sequence_id w) chunks) + n) io"
  shows "\<exists>io'. run_stream_ops wires (map SwWrite chunks) (w, io) = (Inr (), w, io')
    \<and> outgoing io' = outgoing io @ stream_bytes (w_sequence_id w) chunks \<and> ready n io'"
  using assms(3,4)
proof (induction chunks arbitrary: io)
  case Nil
  then show ?case by (simp add: stream_bytes_def sret_def)
next
  case (Cons c cs)
  let ?m = "message_buffer mt_stream (w_sequence_id w) (contents c)"
  have "ready (length (contents ?m) + (length (stream_bytes (w_sequence_id w) cs) + n)) io"
    using Cons.prems(2) by (simp add: stream_bytes_def add.assoc)
  then obtain io1 where s: "send ?m io = (Inr (), io1)" "outgoing io1 = outgoing io @ contents ?m"
    "ready (length (stream_bytes (w_sequence_id w) cs) + n) io1"
    using send_ready by blast
  with Cons.prems(1) assms(1,2) have "writer_write wires c (w, io) = (Inr (), w, io1)"
    by (simp add: writer_write_transmit)
  with s Cons.IH [of io1] Cons.prems(1) show ?case
    by (auto simp: sbind_apply stream_bytes_def)
qed

text \<open>The end goes out once: by \<^verbatim>\<open>end\<close> if the dispatcher calls it, by the destructor if not, and
  not at all after \<^verbatim>\<open>abort\<close>.\<close>

lemma destroy_ends:
  assumes "send = transmit wires w" and "ready (16 + n) io"
  shows "\<exists>io'. writer_destroy wires (w, io) = (Inr (), w\<lparr>w_ended := True\<rparr>, io')
    \<and> outgoing io' = outgoing io @ (if w_ended w then [] else wire_message mt_stream_end (w_sequence_id w) [])
    \<and> ready n io'"
proof (cases "w_ended w")
  case True
  then have "w\<lparr>w_ended := True\<rparr> = w" by simp
  with True assms(2) ready_mono [of "16 + n" io n] show ?thesis by (simp add: writer_destroy_def)
next
  case False
  let ?m = "message_buffer mt_stream_end (w_sequence_id w) []"
  obtain io1 where "send ?m io = (Inr (), io1)" "outgoing io1 = outgoing io @ contents ?m" "ready n io1"
    using send_ready [of ?m n io] assms(2) by auto
  with False assms(1) show ?thesis
    by (simp add: writer_destroy_def scatch_apply writer_end_transmit)
qed

end

section \<open>The two kinds of writer are ports\<close>

lemma transmit_net: "transmit net_wires (writer_on_transport t seq) = net_send t"
  by (simp add: transmit_def writer_on_transport_def net_wires_def fun_eq_iff)

interpretation net_writer: message_port "transmit net_wires (writer_on_transport t seq)" "sent_to t"
    "\<lambda>n s. n_faults s = []" for t seq
  unfolding transmit_net by (rule net_port.message_port_axioms)

lemma fd_writer_port: "message_port (transmit fd_wires (writer_on_fd (int fd) seq)) written (\<lambda>n s. accepting n (writes s))"
proof
  fix b n and s :: sys
  assume "accepting (size_of b + n) (writes s)"
  then show "\<exists>s'. transmit fd_wires (writer_on_fd (int fd) seq) b s = (Inr (), s')
      \<and> written s' = written s @ contents b \<and> accepting n (writes s')"
    using write_all_loop_accepting [of "contents b" n "writes s" "written s"]
    by (auto simp: transmit_def writer_on_fd_def fd_wires_def write_all_def sbind_apply sret_def)
qed (rule accepting_mono)

interpretation fd_writer: message_port "transmit fd_wires (writer_on_fd (int fd) seq)" written
    "\<lambda>n s. accepting n (writes s)" for fd seq
  by (rule fd_writer_port)

lemma run_stream_ops_ended:
  "w_ended w \<Longrightarrow> \<exists>r w'. run_stream_ops wires ops (w, io) = (r, w', io) \<and> w_ended w'"
  by (induction wires ops arbitrary: w rule: run_stream_ops.induct)
    (auto simp: sbind_apply monad_defs writer_write_def writer_end_def writer_abort_def)

section \<open>Properties\<close>

text \<open>Claim C29. A streaming dispatcher that writes its chunks and returns makes the service send, on
  a transport or on a descriptor, one stream message per chunk in order and then one
  end-of-stream message, all with the sequence id of the call.\<close>

theorem stream_sends_chunks_then_end:
  assumes "list_all (\<lambda>c. sendable (contents c)) chunks"
  shows "(n_faults n = [] \<longrightarrow> (\<exists>w' n'.
      sbind (run_stream_ops net_wires (map SwWrite chunks)) (\<lambda>_. writer_destroy net_wires)
        (writer_on_transport t seq, n) = (Inr (), w', n') \<and> w_ended w'
      \<and> sent_to t n' = sent_to t n @ stream_bytes seq chunks @ wire_message mt_stream_end seq []))
    \<and> (accepting (length (stream_bytes seq chunks) + 16) (writes s) \<longrightarrow> (\<exists>w' s'.
      sbind (run_stream_ops fd_wires (map SwWrite chunks)) (\<lambda>_. writer_destroy fd_wires)
        (writer_on_fd (int fd) seq, s) = (Inr (), w', s') \<and> w_ended w'
      \<and> written s' = written s @ stream_bytes seq chunks @ wire_message mt_stream_end seq []))"
proof (intro conjI impI)
  let ?w = "writer_on_transport t seq"
  assume f: "n_faults n = []"
  have w: "\<not> w_ended ?w" "w_sequence_id ?w = seq" by (simp_all add: writer_on_transport_def)
  from net_writer.run_writes [OF refl w(1) assms, where io = n] f obtain n1 where
    "run_stream_ops net_wires (map SwWrite chunks) (?w, n) = (Inr (), ?w, n1)"
    "sent_to t n1 = sent_to t n @ stream_bytes seq chunks" "n_faults n1 = []"
    by (auto simp: w)
  with net_writer.destroy_ends [OF refl, where io = n1 and t = t and seq = seq] w
  show "\<exists>w' n'. sbind (run_stream_ops net_wires (map SwWrite chunks)) (\<lambda>_. writer_destroy net_wires)
        (?w, n) = (Inr (), w', n') \<and> w_ended w'
      \<and> sent_to t n' = sent_to t n @ stream_bytes seq chunks @ wire_message mt_stream_end seq []"
    by (auto simp: sbind_apply)
next
  let ?w = "writer_on_fd (int fd) seq"
  assume f: "accepting (length (stream_bytes seq chunks) + 16) (writes s)"
  have w: "\<not> w_ended ?w" "w_sequence_id ?w = seq" by (simp_all add: writer_on_fd_def)
  from fd_writer.run_writes [OF refl w(1) assms, where n = 16 and io = s] f obtain s1 where
    "run_stream_ops fd_wires (map SwWrite chunks) (?w, s) = (Inr (), ?w, s1)"
    "written s1 = written s @ stream_bytes seq chunks" "accepting 16 (writes s1)"
    by (auto simp: w)
  with fd_writer.destroy_ends [OF refl, where n = 0 and io = s1 and fd = fd and seq = seq] w
  show "\<exists>w' s'. sbind (run_stream_ops fd_wires (map SwWrite chunks)) (\<lambda>_. writer_destroy fd_wires)
        (?w, s) = (Inr (), w', s') \<and> w_ended w'
      \<and> written s' = written s @ stream_bytes seq chunks @ wire_message mt_stream_end seq []"
    by (auto simp: sbind_apply)
qed

theorem stream_sends_chunks_then_end_witness:
  "\<exists>w' n'. sbind (run_stream_ops net_wires (map SwWrite [buffer_new, buffer_new])) (\<lambda>_. writer_destroy net_wires)
        (writer_on_transport 3 7, \<lparr>n_sent = [], n_faults = []\<rparr>) = (Inr (), w', n') \<and> w_ended w'
      \<and> sent_to 3 n' = wire_message mt_stream 7 [] @ wire_message mt_stream 7 [] @ wire_message mt_stream_end 7 []"
  using stream_sends_chunks_then_end [of "[buffer_new, buffer_new]" "\<lparr>n_sent = [], n_faults = []\<rparr>" 3 7]
  by (simp add: sendable_def k_max_capacity_eq sent_to_def stream_bytes_def)

text \<open>An ended stream stays silent: once \<^verbatim>\<open>end\<close> or \<^verbatim>\<open>abort\<close> was called, whatever else is
  done to the writer, its destruction included, sends nothing, and a further \<^verbatim>\<open>write\<close> throws. So
  the end of a stream is sent at most once, and never after \<^verbatim>\<open>abort\<close>.\<close>

lemma ended_stream_is_silent:
  assumes "w_ended w"
  shows "\<exists>r w'. run_stream_ops wires ops (w, io) = (r, w', io) \<and> w_ended w'
      \<and> writer_destroy wires (w', io) = (Inr (), w', io)
      \<and> writer_write wires chunk (w', io)
        = (Inl (ServiceError ''StreamWriter: cannot write after stream ended''), w', io)"
  using run_stream_ops_ended [OF assms, of wires ops io] by (auto simp: writer_destroy_def writer_write_def)

text \<open>A reader hands out the chunks added to it, in order, each once: the loop over
  \<^verbatim>\<open>next\<close> and \<^verbatim>\<open>chunk\<close> ends with all of them read. It is \<^verbatim>\<open>chunk\<close> that advances: \<^verbatim>\<open>next\<close> is a
  test, and the \<^verbatim>\<open>const\<close> overload of \<^verbatim>\<open>chunk\<close> gives the same chunk without advancing.\<close>

theorem reader_drains_all:
  "fst (drain (reader_set_complete (fold reader_add_chunk chunks (reader_new seq)))) = chunks
   \<and> reader_next r = (\<exists>c. reader_chunk_const r = Inr c)
   \<and> fst (reader_chunk r) = reader_chunk_const r
   \<and> r_index (snd (reader_chunk r)) = r_index r + (if reader_next r then 1 else 0)"
proof -
  have "r_chunks (fold reader_add_chunk cs q) = r_chunks q @ cs \<and> r_index (fold reader_add_chunk cs q) = r_index q"
    for cs q
    by (induction cs arbitrary: q) (simp_all add: reader_add_chunk_def)
  then show ?thesis
    by (simp add: drain_all reader_set_complete_def reader_new_def reader_next_def reader_chunk_def
        reader_chunk_const_def)
qed

end
