(* ===== verification/Song_Runtime.thy ===== *)
theory Song_Runtime
  imports Song_Subscription Song_Stream
begin

text \<open>
  \<^verbatim>\<open>include/song/runtime.hpp\<close> and \<^verbatim>\<open>src/runtime.cpp\<close>: the service runtime. Its registration
  functions and capabilities, the handlers of every message type on both paths (a transport,
  and the pipe mode's standard output), the loop that serves a transport, and the pipe mode's
  main loop. The service's own code is a parameter: dispatchers, factories and the virtual
  methods of objects are functions over a state \<open>'u\<close> of their own and, for an object, its
  state \<open>'o\<close>; an object's method also says which properties it notifies while it runs. What
  replies go out on is any port; the locale of \<^theory_text>\<open>Song_Net\<close> is its contract.
\<close>

unbundle bit_operations_syntax

section \<open>State\<close>

type_synonym 'u dispatcher = "u16 \<Rightarrow> buffer \<Rightarrow> 'u \<Rightarrow> buffer res \<times> 'u"

type_synonym ('o, 'u) op_result = "(u16 \<times> buffer) list \<times> buffer res \<times> 'o \<times> 'u"

text \<open>The virtual methods; the request of \<^verbatim>\<open>prop_set\<close> and \<^verbatim>\<open>dispatch\<close> is the payload.\<close>

record ('o, 'u) object_code =
  oc_prop_get :: "u16 \<Rightarrow> 'o \<Rightarrow> 'u \<Rightarrow> ('o, 'u) op_result"
  oc_prop_set :: "u16 \<Rightarrow> buffer \<Rightarrow> 'o \<Rightarrow> 'u \<Rightarrow> ('o, 'u) op_result"
  oc_dispatch :: "u16 \<Rightarrow> buffer \<Rightarrow> 'o \<Rightarrow> 'u \<Rightarrow> ('o, 'u) op_result"

record ('o, 'u, 'io) runtime =
  rt_dispatchers :: "(u16 \<times> 'u dispatcher) list"
  rt_stream_dispatchers :: "(u16 \<times> 'u stream_dispatcher) list"
  rt_methods :: "method_descriptor list"
  rt_registry :: "('o, 'u) object_registry"
  rt_subs :: subs
  rt_local_caps :: u32
  rt_ext_names :: "string list"
  rt_next_slot :: nat
  rt_user :: 'u
  rt_io :: 'io
  rt_warnings :: "string list"

definition runtime_new :: "'u \<Rightarrow> 'io \<Rightarrow> ('o, 'u, 'io) runtime" where
  "runtime_new u io = \<lparr>rt_dispatchers = [], rt_stream_dispatchers = [], rt_methods = [],
     rt_registry = registry_new, rt_subs = [], rt_local_caps = 0, rt_ext_names = replicate 8 [],
     rt_next_slot = 0, rt_user = u, rt_io = io, rt_warnings = []\<rparr>"

text \<open>What a connection has created and subscribed to.\<close>

record conn =
  tracked :: "i32 list"
  conn_subs :: "(i32 \<times> u16) set"

definition conn_new :: conn where
  "conn_new = \<lparr>tracked = [], conn_subs = {}\<rparr>"

section \<open>Registration and capabilities\<close>

definition register_dispatcher :: "u16 \<Rightarrow> 'u dispatcher \<Rightarrow> ('o, 'u, 'io) runtime \<Rightarrow> ('o, 'u, 'io) runtime" where
  "register_dispatcher service d rt = rt\<lparr>rt_dispatchers := AList.update service d (rt_dispatchers rt)\<rparr>"

definition register_stream_dispatcher ::
    "u16 \<Rightarrow> 'u stream_dispatcher \<Rightarrow> ('o, 'u, 'io) runtime \<Rightarrow> ('o, 'u, 'io) runtime" where
  "register_stream_dispatcher service d rt =
    rt\<lparr>rt_stream_dispatchers := AList.update service d (rt_stream_dispatchers rt)\<rparr>"

definition set_capability :: "capability \<Rightarrow> ('o, 'u, 'io) runtime \<Rightarrow> ('o, 'u, 'io) runtime" where
  "set_capability cap rt = rt\<lparr>rt_local_caps := rt_local_caps rt OR cap\<rparr>"

definition clear_capability :: "capability \<Rightarrow> ('o, 'u, 'io) runtime \<Rightarrow> ('o, 'u, 'io) runtime" where
  "clear_capability cap rt = rt\<lparr>rt_local_caps := rt_local_caps rt AND NOT cap\<rparr>"

definition capabilities :: "('o, 'u, 'io) runtime \<Rightarrow> u32" where
  "capabilities rt =
    (let caps = rt_local_caps rt;
         caps = (if rt_stream_dispatchers rt \<noteq> [] then caps OR cap_streaming else caps);
         caps = (if has_factories (rt_registry rt) then caps OR cap_objects else caps)
     in caps)"

text \<open>The index of the first of the used slots that holds the name.\<close>

fun find_slot :: "string \<Rightarrow> string list \<Rightarrow> nat option" where
  "find_slot name [] = None"
| "find_slot name (n # ns) = (if n = name then Some 0 else map_option Suc (find_slot name ns))"

definition register_extension :: "string \<Rightarrow> (('o, 'u, 'io) runtime, capability) step" where
  "register_extension name rt =
    (if rt_next_slot rt \<ge> 8
     then (Inl (RuntimeError ''All 8 extension capability slots are in use''), rt)
     else case find_slot name (take (rt_next_slot rt) (rt_ext_names rt)) of
       Some i \<Rightarrow> (Inr (push_bit i cap_ext_0), rt)
     | None \<Rightarrow>
         let slot = rt_next_slot rt;
             rt = rt\<lparr>rt_next_slot := slot + 1, rt_ext_names := (rt_ext_names rt)[slot := name]\<rparr>;
             bit = push_bit slot cap_ext_0
         in (Inr bit, set_capability bit rt))"

definition has_extension :: "string \<Rightarrow> ('o, 'u, 'io) runtime \<Rightarrow> bool" where
  "has_extension name rt \<longleftrightarrow> find_slot name (take (rt_next_slot rt) (rt_ext_names rt)) \<noteq> None"

definition register_method :: "u16 \<Rightarrow> u16 \<Rightarrow> method_flags \<Rightarrow> ('o, 'u, 'io) runtime \<Rightarrow> ('o, 'u, 'io) runtime" where
  "register_method service method flags rt =
    rt\<lparr>rt_methods := rt_methods rt @ [\<lparr>md_service_id = service, md_method_id = method, md_flags = flags,
      md_reserved = 0\<rparr>]\<rparr>"

definition runtime_register_factory ::
    "u32 \<Rightarrow> ('o, 'u) factory \<Rightarrow> ('o, 'u, 'io) runtime \<Rightarrow> ('o, 'u, 'io) runtime" where
  "runtime_register_factory type_id f rt = rt\<lparr>rt_registry := register_factory type_id f (rt_registry rt)\<rparr>"

definition service_count :: "('o, 'u, 'io) runtime \<Rightarrow> nat" where
  "service_count rt = length (rt_dispatchers rt)"

definition method_count :: "('o, 'u, 'io) runtime \<Rightarrow> nat" where
  "method_count rt = length (rt_methods rt)"

definition get_service_ids :: "('o, 'u, 'io) runtime \<Rightarrow> u16 list" where
  "get_service_ids rt = map fst (rt_dispatchers rt)"

definition has_service :: "u16 \<Rightarrow> ('o, 'u, 'io) runtime \<Rightarrow> bool" where
  "has_service service rt \<longleftrightarrow> map_of (rt_dispatchers rt) service \<noteq> None"

definition has_method :: "u16 \<Rightarrow> u16 \<Rightarrow> ('o, 'u, 'io) runtime \<Rightarrow> bool" where
  "has_method service method rt \<longleftrightarrow>
    list_ex (\<lambda>m. md_service_id m = service \<and> md_method_id m = method) (rt_methods rt)"

section \<open>Replies\<close>

definition ec_unknown_service :: u16 where "ec_unknown_service = 2"
definition ec_unknown_method :: u16 where "ec_unknown_method = 3"
definition ec_object_not_found :: u16 where "ec_object_not_found = 300"
definition ec_object_creation_failed :: u16 where "ec_object_creation_failed = 301"
definition ec_property_error :: u16 where "ec_property_error = 302"

lemmas error_codes = ec_unknown_service_def ec_unknown_method_def ec_object_not_found_def
  ec_object_creation_failed_def ec_property_error_def

definition lift_io :: "('io, 'a) step \<Rightarrow> (('o, 'u, 'io) runtime, 'a) step" where
  "lift_io m rt = (case m (rt_io rt) of (r, io) \<Rightarrow> (r, rt\<lparr>rt_io := io\<rparr>))"

text \<open>Both kinds of reply: a message is built and sent the way the path sends.\<close>

definition send_error :: "(buffer \<Rightarrow> ('io, unit) step) \<Rightarrow> u32 \<Rightarrow> u16 \<Rightarrow> string
    \<Rightarrow> (('o, 'u, 'io) runtime, unit) step" where
  "send_error reply seq code text =
    sbind (slift (create_error_message seq code text)) (\<lambda>m. lift_io (reply m))"

definition send_result :: "(buffer \<Rightarrow> ('io, unit) step) \<Rightarrow> u32 \<Rightarrow> buffer
    \<Rightarrow> (('o, 'u, 'io) runtime, unit) step" where
  "send_result reply seq response =
    sbind (slift (create_result_message seq response)) (\<lambda>m. lift_io (reply m))"

definition send_init_confirmation_transport :: "'io wires \<Rightarrow> tid \<Rightarrow> (('o, 'u, 'io) runtime, unit) step" where
  "send_init_confirmation_transport wires t rt =
    sbind (slift (create_init_message_methods k_first_version k_current_version (capabilities rt) (rt_methods rt)))
      (\<lambda>m. scatch catchable (lift_io (on_transport wires t m)) (\<lambda>e. sret ())) rt"

section \<open>The handlers\<close>

text \<open>A call of a streaming service. The writer lives on the stack of the handler: its
  destructor ends the stream when the dispatcher returns or throws something foreign, and the
  handler of a standard exception aborts it first.\<close>

definition stream_call :: "'io wires \<Rightarrow> (buffer \<Rightarrow> ('io, unit) step) \<Rightarrow> writer \<Rightarrow> 'u stream_dispatcher
    \<Rightarrow> u16 \<Rightarrow> buffer \<Rightarrow> (('o, 'u, 'io) runtime, unit) step" where
  "stream_call wires reply w d method_id payload rt =
    (case d method_id payload (rt_user rt) of ((ops, outcome), u) \<Rightarrow>
     let rt = rt\<lparr>rt_user := u\<rparr> in
     case sbind (run_stream_ops wires ops) (\<lambda>_. slift outcome) (w, rt_io rt) of
       (Inr _, w, io) \<Rightarrow>
         (case writer_destroy wires (w, io) of (r, w, io) \<Rightarrow> (r, rt\<lparr>rt_io := io\<rparr>))
     | (Inl e, w, io) \<Rightarrow>
         if std_exception e
         then (let w = writer_abort w in
           send_error reply (w_sequence_id w) ec_unknown_method (what e) (rt\<lparr>rt_io := io\<rparr>))
         else if catchable e
         then (case writer_destroy wires (w, io) of
             (Inl e', w, io) \<Rightarrow> (Inl e', rt\<lparr>rt_io := io\<rparr>)
           | (Inr _, w, io) \<Rightarrow> (Inl e, rt\<lparr>rt_io := io\<rparr>))
         else (Inl e, rt\<lparr>rt_io := io\<rparr>))"

definition run_dispatcher :: "'u dispatcher \<Rightarrow> u16 \<Rightarrow> buffer \<Rightarrow> (('o, 'u, 'io) runtime, buffer) step" where
  "run_dispatcher d method_id payload rt =
    (case d method_id payload (rt_user rt) of (r, u) \<Rightarrow> (r, rt\<lparr>rt_user := u\<rparr>))"

definition handle_call :: "'io wires \<Rightarrow> (buffer \<Rightarrow> ('io, unit) step) \<Rightarrow> (u32 \<Rightarrow> writer) \<Rightarrow> header \<Rightarrow> buffer
    \<Rightarrow> (('o, 'u, 'io) runtime, unit) step" where
  "handle_call wires reply make_writer hdr payload rt =
    (case decode_method_call_header payload of
      Inl e \<Rightarrow> (Inl e, rt)
    | Inr ((service_id, method_id), payload) \<Rightarrow>
      (case map_of (rt_stream_dispatchers rt) service_id of
        Some d \<Rightarrow> stream_call wires reply (make_writer (hdr_sequence_id hdr)) d method_id payload rt
      | None \<Rightarrow>
        (case map_of (rt_dispatchers rt) service_id of
          None \<Rightarrow> send_error reply (hdr_sequence_id hdr) ec_unknown_service ''Unknown service ID'' rt
        | Some d \<Rightarrow>
            scatch std_exception
              (sbind (run_dispatcher d method_id payload) (send_result reply (hdr_sequence_id hdr)))
              (\<lambda>e. send_error reply (hdr_sequence_id hdr) ec_unknown_method (what e)) rt)))"

text \<open>The notifications an object's method makes, and then its outcome; its new state is in the
  registry either way.\<close>

fun run_notes :: "'io wires \<Rightarrow> ('o, 'u) object \<Rightarrow> (u16 \<times> buffer) list \<Rightarrow> (('o, 'u, 'io) runtime, unit) step" where
  "run_notes wires obj [] = sret ()"
| "run_notes wires obj ((pid, val) # notes) =
    sbind (\<lambda>rt. case notify_property (on_transport wires) (rt_subs rt) obj pid val (rt_io rt, rt_user rt) of
        (r, io, u) \<Rightarrow> (r, rt\<lparr>rt_io := io, rt_user := u\<rparr>))
      (\<lambda>_. run_notes wires obj notes)"

definition object_op :: "'io wires \<Rightarrow> ('o \<Rightarrow> 'u \<Rightarrow> ('o, 'u) op_result) \<Rightarrow> ('o, 'u) object
    \<Rightarrow> (('o, 'u, 'io) runtime, buffer) step" where
  "object_op wires op obj rt =
    (case op (ob_state obj) (rt_user rt) of (notes, r, st, u) \<Rightarrow>
     sbind (run_notes wires obj notes) (\<lambda>_. slift r)
       (rt\<lparr>rt_registry := add_object (ob_id obj) (obj\<lparr>ob_state := st\<rparr>) (rt_registry rt), rt_user := u\<rparr>))"

text \<open>The common part of property get, property set and object call: \<open>code\<close> is the error code of
  a failure, \<open>op\<close> the virtual method with its arguments.\<close>

definition object_request :: "'io wires \<Rightarrow> (buffer \<Rightarrow> ('io, unit) step) \<Rightarrow> u32 \<Rightarrow> u16 \<Rightarrow> i32
    \<Rightarrow> ('o \<Rightarrow> 'u \<Rightarrow> ('o, 'u) op_result) \<Rightarrow> (('o, 'u, 'io) runtime, unit) step" where
  "object_request wires reply seq code oid op =
    scatch std_exception
      (\<lambda>rt. case get_object oid (rt_registry rt) of
          None \<Rightarrow> send_error reply seq ec_object_not_found ''Object not found'' rt
        | Some obj \<Rightarrow> sbind (object_op wires op obj) (send_result reply seq) rt)
      (\<lambda>e. send_error reply seq code (what e))"

definition handle_prop_get :: "'io wires \<Rightarrow> ('o, 'u) object_code \<Rightarrow> (buffer \<Rightarrow> ('io, unit) step) \<Rightarrow> header
    \<Rightarrow> buffer \<Rightarrow> (('o, 'u, 'io) runtime, unit) step" where
  "handle_prop_get wires code reply hdr payload rt = (case decode_property_header payload of
      Inl e \<Rightarrow> (Inl e, rt)
    | Inr (h, payload) \<Rightarrow> object_request wires reply (hdr_sequence_id hdr) ec_property_error (ph_object_id h)
        (oc_prop_get code (ph_property_id h)) rt)"

definition handle_prop_set :: "'io wires \<Rightarrow> ('o, 'u) object_code \<Rightarrow> (buffer \<Rightarrow> ('io, unit) step) \<Rightarrow> header
    \<Rightarrow> buffer \<Rightarrow> (('o, 'u, 'io) runtime, unit) step" where
  "handle_prop_set wires code reply hdr payload rt = (case decode_property_header payload of
      Inl e \<Rightarrow> (Inl e, rt)
    | Inr (h, payload) \<Rightarrow> object_request wires reply (hdr_sequence_id hdr) ec_property_error (ph_object_id h)
        (oc_prop_set code (ph_property_id h) payload) rt)"

definition handle_object_call :: "'io wires \<Rightarrow> ('o, 'u) object_code \<Rightarrow> (buffer \<Rightarrow> ('io, unit) step) \<Rightarrow> header
    \<Rightarrow> buffer \<Rightarrow> (('o, 'u, 'io) runtime, unit) step" where
  "handle_object_call wires code reply hdr payload rt = (case decode_object_method_header payload of
      Inl e \<Rightarrow> (Inl e, rt)
    | Inr (h, payload) \<Rightarrow> object_request wires reply (hdr_sequence_id hdr) ec_unknown_method (omh_object_id h)
        (oc_dispatch code (omh_method_id h) payload) rt)"

text \<open>Steps on the runtime alone, beside the connection's records.\<close>

definition on_rt :: "(('o, 'u, 'io) runtime, 'a) step \<Rightarrow> (('o, 'u, 'io) runtime \<times> conn, 'a) step" where
  "on_rt m = (\<lambda>(rt, c). case m rt of (r, rt) \<Rightarrow> (r, rt, c))"

text \<open>The new object is tracked for the connection before anything is sent about it.\<close>

definition create_tracked :: "object_create_header \<Rightarrow> buffer \<Rightarrow> (('o, 'u, 'io) runtime \<times> conn, i32) step" where
  "create_tracked h payload =
    sbind (on_rt (\<lambda>rt. case create_object (och_type_id h) (och_constructor_id h) payload
          (rt_registry rt, rt_user rt) of (r, reg, u) \<Rightarrow> (r, rt\<lparr>rt_registry := reg, rt_user := u\<rparr>))) (\<lambda>oid.
    sbind (smodify (\<lambda>(rt, c). (rt, c\<lparr>tracked := List.insert oid (tracked c)\<rparr>))) (\<lambda>_. sret oid))"

definition handle_create :: "(buffer \<Rightarrow> ('io, unit) step) \<Rightarrow> header \<Rightarrow> buffer
    \<Rightarrow> (('o, 'u, 'io) runtime \<times> conn, unit) step" where
  "handle_create reply hdr payload s = (case decode_object_create_header payload of
      Inl e \<Rightarrow> (Inl e, s)
    | Inr (h, payload) \<Rightarrow>
        scatch std_exception
          (sbind (create_tracked h payload) (\<lambda>oid.
           sbind (slift (encode_object_ref \<lparr>or_type_id = och_type_id h, or_object_id = oid\<rparr> buffer_new)) (\<lambda>response.
           on_rt (send_result reply (hdr_sequence_id hdr) response))))
          (\<lambda>e. on_rt (send_error reply (hdr_sequence_id hdr) ec_object_creation_failed (what e))) s)"

definition handle_release :: "buffer \<Rightarrow> (('o, 'u, 'io) runtime \<times> conn, unit) step" where
  "handle_release payload = (\<lambda>(rt, c). case decode_object_release_header payload of
      Inl e \<Rightarrow> (Inl e, rt, c)
    | Inr (h, payload) \<Rightarrow>
        (Inr (), rt\<lparr>rt_registry := registry_release (orh_object_id h) (rt_registry rt)\<rparr>,
         c\<lparr>tracked := removeAll (orh_object_id h) (tracked c)\<rparr>))"

definition set_subscription_registry :: "i32 \<Rightarrow> ('o, 'u) object_registry \<Rightarrow> ('o, 'u) object_registry" where
  "set_subscription_registry oid r = (case get_object oid r of
      None \<Rightarrow> r
    | Some obj \<Rightarrow> add_object oid (obj\<lparr>ob_fanout := True\<rparr>) r)"

text \<open>The subscriber is the transport's address.\<close>

definition handle_subscribe :: "tid \<Rightarrow> buffer \<Rightarrow> (('o, 'u, 'io) runtime \<times> conn, unit) step" where
  "handle_subscribe t payload = (\<lambda>(rt, c). case decode_property_header payload of
      Inl e \<Rightarrow> (Inl e, rt, c)
    | Inr (h, payload) \<Rightarrow>
        (Inr (), rt\<lparr>rt_subs := subscribe t (ph_object_id h) (ph_property_id h) t (rt_subs rt),
            rt_registry := set_subscription_registry (ph_object_id h) (rt_registry rt)\<rparr>,
         c\<lparr>conn_subs := insert (ph_object_id h, ph_property_id h) (conn_subs c)\<rparr>))"

definition handle_unsubscribe :: "tid \<Rightarrow> buffer \<Rightarrow> (('o, 'u, 'io) runtime \<times> conn, unit) step" where
  "handle_unsubscribe t payload = (\<lambda>(rt, c). case decode_property_header payload of
      Inl e \<Rightarrow> (Inl e, rt, c)
    | Inr (h, payload) \<Rightarrow>
        (Inr (), rt\<lparr>rt_subs := unsubscribe t (ph_object_id h) (ph_property_id h) (rt_subs rt)\<rparr>,
         c\<lparr>conn_subs := conn_subs c - {(ph_object_id h, ph_property_id h)}\<rparr>))"

section \<open>Dispatch on the message type\<close>

definition handle_message :: "'io wires \<Rightarrow> ('o, 'u) object_code \<Rightarrow> header \<Rightarrow> buffer \<Rightarrow> tid
    \<Rightarrow> (('o, 'u, 'io) runtime \<times> conn, unit) step" where
  "handle_message wires code hdr payload t =
    (let reply = on_transport wires t in
     if hdr_type hdr = mt_prop_subscribe then handle_subscribe t payload
     else if hdr_type hdr = mt_prop_unsubscribe then handle_unsubscribe t payload
     else if hdr_type hdr = mt_call
     then on_rt (handle_call wires reply (writer_on_transport t) hdr payload)
     else if hdr_type hdr = mt_create then handle_create reply hdr payload
     else if hdr_type hdr = mt_release then handle_release payload
     else if hdr_type hdr = mt_prop_get then on_rt (handle_prop_get wires code reply hdr payload)
     else if hdr_type hdr = mt_prop_set then on_rt (handle_prop_set wires code reply hdr payload)
     else if hdr_type hdr = mt_object_call then on_rt (handle_object_call wires code reply hdr payload)
     else sret ())"

definition pipe_push_warning :: string where
  "pipe_push_warning = ''prop_subscribe/unsubscribe ignored: property push is unsupported over the pipe transport; serve over --tcp''"

definition handle_message_fd :: "('o, 'u) object_code \<Rightarrow> header \<Rightarrow> buffer \<Rightarrow> int
    \<Rightarrow> (('o, 'u, sys) runtime \<times> conn, unit) step" where
  "handle_message_fd code hdr payload out_fd =
    (if hdr_type hdr = mt_call
     then on_rt (handle_call fd_wires fd_reply (writer_on_fd out_fd) hdr payload)
     else if hdr_type hdr = mt_create then handle_create fd_reply hdr payload
     else if hdr_type hdr = mt_release then handle_release payload
     else if hdr_type hdr = mt_prop_get then on_rt (handle_prop_get fd_wires code fd_reply hdr payload)
     else if hdr_type hdr = mt_prop_set then on_rt (handle_prop_set fd_wires code fd_reply hdr payload)
     else if hdr_type hdr = mt_object_call then on_rt (handle_object_call fd_wires code fd_reply hdr payload)
     else if hdr_type hdr = mt_prop_subscribe \<or> hdr_type hdr = mt_prop_unsubscribe
     then on_rt (smodify (\<lambda>rt. rt\<lparr>rt_warnings := rt_warnings rt @ [pipe_push_warning]\<rparr>))
     else sret ())"

section \<open>Serving\<close>

fun release_connection_objects :: "i32 list \<Rightarrow> ('o, 'u) object_registry \<Rightarrow> ('o, 'u) object_registry" where
  "release_connection_objects [] r = r"
| "release_connection_objects (oid # oids) r = release_connection_objects oids (registry_release oid r)"

text \<open>What the loop does on its three ways out.\<close>

definition disconnect :: "tid \<Rightarrow> ('o, 'u, 'io) runtime \<times> conn \<Rightarrow> ('o, 'u, 'io) runtime" where
  "disconnect t = (\<lambda>(rt, c). rt\<lparr>rt_registry := release_connection_objects (tracked c) (rt_registry rt),
     rt_subs := unsubscribe_all t (rt_subs rt)\<rparr>)"

text \<open>The loop over the results of \<^verbatim>\<open>receive\<close> on transport \<open>t\<close>; when they are used up, the next
  call blocks for ever. An exception leaves the loop without any of its ways out.\<close>

fun client_loop_from :: "'io wires \<Rightarrow> ('o, 'u) object_code \<Rightarrow> tid \<Rightarrow> recv_event list
    \<Rightarrow> ('o, 'u, 'io) runtime \<times> conn \<Rightarrow> unit res \<times> ('o, 'u, 'io) runtime" where
  "client_loop_from wires code t [] s = (Inl Diverges, fst s)"
| "client_loop_from wires code t (RecvThrow e # evs) s = (Inl e, fst s)"
| "client_loop_from wires code t (RecvEnd # evs) s = (Inr (), disconnect t s)"
| "client_loop_from wires code t (RecvMsg msg # evs) s =
    (case decode_header msg of
      Inl e \<Rightarrow> (Inl e, fst s)
    | Inr (hdr, msg) \<Rightarrow>
        if hdr_magic hdr \<noteq> k_magic then (Inr (), disconnect t s)
        else if hdr_type hdr = mt_shutdown then (Inr (), disconnect t s)
        else if hdr_type hdr = mt_init_ack then client_loop_from wires code t evs s
        else (case handle_message wires code hdr msg t s of
            (Inl e, s) \<Rightarrow> (Inl e, fst s)
          | (Inr _, s) \<Rightarrow> client_loop_from wires code t evs s))"

definition client_loop :: "'io wires \<Rightarrow> ('o, 'u) object_code \<Rightarrow> tid \<Rightarrow> recv_event list
    \<Rightarrow> (('o, 'u, 'io) runtime, unit) step" where
  "client_loop wires code t evs rt =
    (case send_init_confirmation_transport wires t rt of
      (Inl e, rt) \<Rightarrow> (Inl e, rt)
    | (Inr _, rt) \<Rightarrow> client_loop_from wires code t evs (rt, conn_new))"

text \<open>\<^verbatim>\<open>run_tcp\<close> on an open listener: the clients it accepts one after the other, each with what
  its transport will receive; then the next accept blocks. Whatever a client's loop throws is
  swallowed.\<close>

fun run_tcp_clients :: "'io wires \<Rightarrow> ('o, 'u) object_code \<Rightarrow> (tid \<times> recv_event list) list
    \<Rightarrow> (('o, 'u, 'io) runtime, unit) step" where
  "run_tcp_clients wires code [] rt = (Inl Diverges, rt)"
| "run_tcp_clients wires code ((t, evs) # clients) rt =
    sbind (scatch catchable (client_loop wires code t evs) (\<lambda>e. sret ()))
      (\<lambda>_. run_tcp_clients wires code clients) rt"

text \<open>The pipe mode: the result is the exit code of the process. \<open>fuel\<close> bounds the number of
  messages; running out of it counts as not returning.\<close>

definition send_init_confirmation_fd :: "(('o, 'u, sys) runtime, bool) step" where
  "send_init_confirmation_fd rt =
    sbind (slift (create_init_message_methods k_first_version k_current_version (capabilities rt) (rt_methods rt)))
      (\<lambda>m. lift_io (write_all (contents m))) rt"

definition release_all :: "('o, 'u, 'io) runtime \<times> conn \<Rightarrow> ('o, 'u, 'io) runtime" where
  "release_all = (\<lambda>(rt, c). rt\<lparr>rt_registry := release_connection_objects (tracked c) (rt_registry rt)\<rparr>)"

fun run_loop :: "nat \<Rightarrow> ('o, 'u) object_code \<Rightarrow> ('o, 'u, sys) runtime \<times> conn \<Rightarrow> nat res \<times> ('o, 'u, sys) runtime" where
  "run_loop 0 code s = (Inl Diverges, fst s)"
| "run_loop (Suc fuel) code (rt, c) =
    (case lift_io (read_all 16) rt of
      (Inl e, rt) \<Rightarrow> (Inl e, rt)
    | (Inr None, rt) \<Rightarrow> (Inr 0, release_all (rt, c))
    | (Inr (Some bs), rt) \<Rightarrow>
      (case rbind (buffer_write bs buffer_new) (\<lambda>b. decode_header (reset_read b)) of
        Inl e \<Rightarrow> (Inl e, rt)
      | Inr (hdr, _) \<Rightarrow>
        if hdr_magic hdr \<noteq> k_magic then (Inr 1, release_all (rt, c))
        else if hdr_type hdr = mt_shutdown then (Inr 0, release_all (rt, c))
        else if hdr_type hdr = mt_init_ack
        then (if hdr_payload_size hdr > 0
          then (case lift_io (read_all (unat (hdr_payload_size hdr))) rt of
              (Inl e, rt) \<Rightarrow> (Inl e, rt)
            | (Inr _, rt) \<Rightarrow> run_loop fuel code (rt, c))
          else run_loop fuel code (rt, c))
        else
          (case (if hdr_payload_size hdr > 0 then lift_io (read_all (unat (hdr_payload_size hdr))) rt
                 else (Inr (Some []), rt)) of
            (Inl e, rt) \<Rightarrow> (Inl e, rt)
          | (Inr None, rt) \<Rightarrow> (Inr 1, release_all (rt, c))
          | (Inr (Some payload_buf), rt) \<Rightarrow>
            (case (if hdr_payload_size hdr > 0
                   then rbind (buffer_write payload_buf buffer_new) (\<lambda>b. Inr (reset_read b)) else Inr buffer_new) of
              Inl e \<Rightarrow> (Inl e, rt)
            | Inr payload \<Rightarrow>
              (case handle_message_fd code hdr payload 1 (rt, c) of
                (Inl e, rt, c) \<Rightarrow> (Inl e, rt)
              | (Inr _, rt, c) \<Rightarrow> run_loop fuel code (rt, c))))))"

definition run_pipe :: "nat \<Rightarrow> ('o, 'u) object_code \<Rightarrow> (('o, 'u, sys) runtime, nat) step" where
  "run_pipe fuel code rt = (case send_init_confirmation_fd rt of
      (Inl e, rt) \<Rightarrow> (Inl e, rt)
    | (Inr sent, rt) \<Rightarrow> if \<not> sent then (Inr 1, rt) else run_loop fuel code (rt, conn_new))"

section \<open>The replies, on any port\<close>

definition error_bytes :: "u32 \<Rightarrow> u16 \<Rightarrow> string \<Rightarrow> byte list" where
  "error_bytes seq code text = wire_message mt_error seq (le_bytes 2 code @ string_repr text)"

text \<open>The one message that answers a request whose handler produced \<open>r\<close>.\<close>

definition answer :: "u32 \<Rightarrow> u16 \<Rightarrow> buffer res \<Rightarrow> byte list" where
  "answer seq code r = (case r of
      Inr b \<Rightarrow> wire_message mt_result seq (contents b)
    | Inl e \<Rightarrow> error_bytes seq code (what e))"

text \<open>Outcomes that can be answered: a result of a possible size, or a standard exception whose
  text is short enough to encode.\<close>

definition answerable :: "buffer res \<Rightarrow> bool" where
  "answerable r \<longleftrightarrow> (case r of Inr b \<Rightarrow> sendable (contents b) | Inl e \<Rightarrow> std_exception e \<and> string_ok (what e))"

lemma length_error_bytes [simp]: "length (error_bytes seq code text) = 22 + length text"
  by (simp add: error_bytes_def string_repr_def)

context message_port
begin

lemma send_result_ready:
  assumes "sendable (contents b)" and "ready (16 + length (contents b) + n) (rt_io rt)"
  shows "\<exists>io. send_result send seq b rt = (Inr (), rt\<lparr>rt_io := io\<rparr>)
    \<and> outgoing io = outgoing (rt_io rt) @ wire_message mt_result seq (contents b) \<and> ready n io"
  using assms send_ready [of "message_buffer mt_result seq (contents b)" n "rt_io rt"]
  by (auto simp: send_result_def sbind_apply slift_def create_messages lift_io_def)

lemma send_error_ready:
  assumes "string_ok text" and "ready (22 + length text + n) (rt_io rt)"
  shows "\<exists>io. send_error send seq code text rt = (Inr (), rt\<lparr>rt_io := io\<rparr>)
    \<and> outgoing io = outgoing (rt_io rt) @ error_bytes seq code text \<and> ready n io"
  using assms send_ready [of "message_buffer mt_error seq (le_bytes 2 code @ string_repr text)" n "rt_io rt"]
  by (auto simp: send_error_def sbind_apply slift_def create_messages lift_io_def error_bytes_def string_repr_def)

text \<open>The shape shared by the handlers: try to compute and send a result, answer a standard
  exception with an error.\<close>

lemma try_reply:
  assumes "m rt = (r, rt')" and "answerable r" and "ready (length (answer seq code r) + n) (rt_io rt')"
  shows "\<exists>io. scatch std_exception (sbind m (send_result send seq))
      (\<lambda>e. send_error send seq code (what e)) rt = (Inr (), rt'\<lparr>rt_io := io\<rparr>)
    \<and> outgoing io = outgoing (rt_io rt') @ answer seq code r \<and> ready n io"
proof (cases r)
  case (Inl e)
  with assms send_error_ready [of "what e" n rt' seq code] show ?thesis
    by (simp add: scatch_apply sbind_apply answerable_def answer_def)
next
  case (Inr b)
  with assms send_result_ready [of b n rt' seq] show ?thesis
    by (auto simp: scatch_apply sbind_apply answerable_def answer_def)
qed

lemma handle_call_reply:
  assumes payload: "buffer_ok payload" "unread payload = call_header_repr (sid, mid) @ args"
    and plain: "map_of (rt_stream_dispatchers rt) sid = None"
    and d: "map_of (rt_dispatchers rt) sid = Some d" "d mid (advance 4 payload) (rt_user rt) = (r, u)"
    and r: "answerable r"
    and "ready (length (answer (hdr_sequence_id hdr) ec_unknown_method r) + n) (rt_io rt)"
  shows "\<exists>io. handle_call wires send mk hdr payload rt = (Inr (), rt\<lparr>rt_user := u, rt_io := io\<rparr>)
    \<and> outgoing io = outgoing (rt_io rt) @ answer (hdr_sequence_id hdr) ec_unknown_method r \<and> ready n io"
proof -
  have dec: "decode_method_call_header payload = Inr ((sid, mid), advance 4 payload)"
    using call_header.dec_consumes [where x = "(sid, mid)" and b = payload and rest = args] payload by (simp add: call_header.width)
  have "run_dispatcher d mid (advance 4 payload) rt = (r, rt\<lparr>rt_user := u\<rparr>)"
    by (simp add: run_dispatcher_def d(2))
  from try_reply [where m = "run_dispatcher d mid (advance 4 payload)" and rt = rt, OF this r, where seq = "hdr_sequence_id hdr" and code = ec_unknown_method and n = n] assms(7)
  show ?thesis by (simp add: handle_call_def dec plain d(1))
qed

lemma handle_call_unknown:
  assumes payload: "buffer_ok payload" "unread payload = call_header_repr (sid, mid) @ args"
    and "map_of (rt_stream_dispatchers rt) sid = None" "map_of (rt_dispatchers rt) sid = None"
    and "ready (40 + n) (rt_io rt)"
  shows "\<exists>io. handle_call wires send mk hdr payload rt = (Inr (), rt\<lparr>rt_io := io\<rparr>)
    \<and> outgoing io = outgoing (rt_io rt)
        @ error_bytes (hdr_sequence_id hdr) ec_unknown_service ''Unknown service ID'' \<and> ready n io"
proof -
  have dec: "decode_method_call_header payload = Inr ((sid, mid), advance 4 payload)"
    using call_header.dec_consumes [where x = "(sid, mid)" and b = payload and rest = args] payload by (simp add: call_header.width)
  have "string_ok ''Unknown service ID''" by (simp add: string_ok_def size_limits)
  from send_error_ready [OF this, of n rt "hdr_sequence_id hdr" ec_unknown_service] assms(3-5)
  show ?thesis by (simp add: handle_call_def dec)
qed

lemma object_request_reply:
  assumes o: "get_object oid (rt_registry rt) = Some obj" "ob_id obj = oid"
    and op: "op (ob_state obj) (rt_user rt) = ([], r, st, u)"
    and r: "answerable r" and "ready (length (answer seq code r) + n) (rt_io rt)"
  shows "\<exists>io. object_request wires send seq code oid op rt
      = (Inr (), rt\<lparr>rt_registry := add_object oid (obj\<lparr>ob_state := st\<rparr>) (rt_registry rt), rt_user := u, rt_io := io\<rparr>)
    \<and> outgoing io = outgoing (rt_io rt) @ answer seq code r \<and> ready n io"
proof -
  let ?rt = "rt\<lparr>rt_registry := add_object oid (obj\<lparr>ob_state := st\<rparr>) (rt_registry rt), rt_user := u\<rparr>"
  have "object_op wires op obj rt = (r, ?rt)"
    using o(2) by (simp add: object_op_def op sbind_apply monad_defs)
  from try_reply [where m = "object_op wires op obj" and rt = rt, OF this r, where seq = seq and code = code and n = n]
    assms(5)
  show ?thesis by (simp add: object_request_def scatch_apply o(1))
qed

lemma object_request_missing:
  assumes "get_object oid (rt_registry rt) = None" and "ready (38 + n) (rt_io rt)"
  shows "\<exists>io. object_request wires send seq code oid op rt = (Inr (), rt\<lparr>rt_io := io\<rparr>)
    \<and> outgoing io = outgoing (rt_io rt) @ error_bytes seq ec_object_not_found ''Object not found'' \<and> ready n io"
proof -
  have "string_ok ''Object not found''" by (simp add: string_ok_def size_limits)
  from send_error_ready [OF this, of n rt seq ec_object_not_found] assms
  show ?thesis by (auto simp: object_request_def scatch_apply)
qed

end

text \<open>What an object request does, on a port where \<open>outgoing\<close> are the bytes that left and
  \<open>ready n\<close> says that \<open>n\<close> more are taken: \<open>done\<close> is the handler's result. The object's method
  runs once, its notifications go out, then its outcome: an exception of a notification, or
  what the method returned or threw.\<close>

definition request_handled :: "('io \<Rightarrow> byte list) \<Rightarrow> (nat \<Rightarrow> 'io \<Rightarrow> bool) \<Rightarrow> 'io wires \<Rightarrow> u32 \<Rightarrow> u16 \<Rightarrow> i32
    \<Rightarrow> ('o \<Rightarrow> 'u \<Rightarrow> ('o, 'u) op_result) \<Rightarrow> ('o, 'u, 'io) runtime \<Rightarrow> unit res \<times> ('o, 'u, 'io) runtime \<Rightarrow> bool" where
  "request_handled outgoing ready wires seq code oid op rt after \<longleftrightarrow>
    (case get_object oid (rt_registry rt) of
      None \<Rightarrow> ready (length (error_bytes seq 300 ''Object not found'')) (rt_io rt) \<longrightarrow>
        (\<exists>io. after = (Inr (), rt\<lparr>rt_io := io\<rparr>)
          \<and> outgoing io = outgoing (rt_io rt) @ error_bytes seq 300 ''Object not found'')
    | Some obj \<Rightarrow>
      (case op (ob_state obj) (rt_user rt) of (ns, r, st, u) \<Rightarrow>
       case run_notes wires obj ns
           (rt\<lparr>rt_registry := add_object oid (obj\<lparr>ob_state := st\<rparr>) (rt_registry rt), rt_user := u\<rparr>) of (pushed, rt2) \<Rightarrow>
       let out = (case pushed of Inr _ \<Rightarrow> r | Inl e \<Rightarrow> Inl e) in
         rt_registry rt2 = add_object oid (obj\<lparr>ob_state := st\<rparr>) (rt_registry rt)
         \<and> (answerable out \<and> ready (length (answer seq code out)) (rt_io rt) \<longrightarrow>
             (\<exists>io. after = (Inr (), rt2\<lparr>rt_io := io\<rparr>) \<and> outgoing io = outgoing (rt_io rt2) @ answer seq code out))
         \<and> (\<forall>e. out = Inl e \<and> std_exception e \<and> \<not> string_ok (what e) \<longrightarrow>
             after = (Inl (RuntimeError ''String too large to encode''), rt2))
         \<and> (\<forall>e. out = Inl e \<and> \<not> std_exception e \<longrightarrow> after = (Inl e, rt2))))"

lemma run_notes_registry:
  "run_notes wires obj ns rt = (r, rt') \<Longrightarrow> rt_registry rt' = rt_registry rt"
proof (induction ns arbitrary: rt)
  case Nil
  then show ?case by (simp add: sret_def)
next
  case (Cons a ns)
  then show ?case by (cases a) (auto simp: sbind_apply split: prod.splits sum.splits)
qed

text \<open>Notifications over pipes go nowhere, and those to transports that work leave them working.\<close>

lemma run_notes_fd: "run_notes fd_wires obj ns rt = (r, rt') \<Longrightarrow> rt_io rt' = rt_io rt"
proof (induction ns arbitrary: rt)
  case Nil
  then show ?case by (simp add: sret_def)
next
  case (Cons a ns)
  obtain pid val where a: "a = (pid, val)" by fastforce
  have s: "send_targets (\<lambda>t msg. sret ()) msg ts s = (Inr (), s)" for msg ts and s :: sys
    by (induction ts) (simp_all add: sret_def sbind_apply scatch_apply)
  have n: "snd (sub_notify (\<lambda>t msg. sret ()) ty oid pid val m s) = s" for ty oid m and s :: sys
    by (cases "create_property_notify_message ty oid pid val")
      (auto simp: sub_notify_def sbind_apply slift_def sret_def s [unfolded sret_def] split: option.splits)
  from Cons a show ?case
    by (auto simp: sbind_apply notify_property_def fd_wires_def split: prod.splits sum.splits if_splits option.splits)
      (metis (no_types, lifting) n snd_conv runtime.select_convs)+
qed

lemma run_notes_net:
  "run_notes net_wires obj ns rt = (r, rt') \<Longrightarrow> n_faults (rt_io rt) = [] \<Longrightarrow> n_faults (rt_io rt') = []"
proof (induction ns arbitrary: rt)
  case Nil
  then show ?case by (simp add: sret_def)
next
  case (Cons a ns)
  obtain pid val where a: "a = (pid, val)" by fastforce
  have n: "n_faults (snd (sub_notify net_send ty oid pid val m s)) = []" if "n_faults s = []" for ty oid m s
    using that
    by (cases "create_property_notify_message ty oid pid val")
      (auto simp: sub_notify_def sbind_apply slift_def sret_def send_targets_net split: option.splits)
  let ?step = "notify_property (on_transport net_wires) (rt_subs rt) obj pid val (rt_io rt, rt_user rt)"
  obtain r1 io u where s: "?step = (r1, io, u)" by (rule prod_cases3)
  have "n_faults io = []"
    using s Cons.prems(2) n [of "rt_io rt" "ob_type obj" "ob_id obj" "rt_subs rt"]
    by (auto simp: notify_property_def net_wires_def split: prod.splits if_splits option.splits)
  with Cons a s show ?case by (cases r1) (auto simp: sbind_apply)
qed

context message_port
begin

lemma object_request_handled:
  fixes rt :: "('o, 'u, 's) runtime"
  assumes "\<And>obj. get_object oid (rt_registry rt) = Some obj \<Longrightarrow> ob_id obj = oid"
    and "\<And>(obj :: ('o, 'u) object) ns (rt1 :: ('o, 'u, 's) runtime) r rt2 n.
      run_notes wires obj ns rt1 = (r, rt2) \<Longrightarrow> ready n (rt_io rt1) \<Longrightarrow> ready n (rt_io rt2)"
  shows "request_handled outgoing ready wires seq code oid op rt (object_request wires send seq code oid op rt)"
proof (cases "get_object oid (rt_registry rt)")
  case None
  with object_request_missing [OF None, where n = 0 and seq = seq and wires = wires and code = code and op = op] show ?thesis
    by (auto simp: request_handled_def ec_object_not_found_def)
next
  case (Some obj)
  obtain ns r st u where op: "op (ob_state obj) (rt_user rt) = (ns, r, st, u)" by (rule prod_cases4)
  let ?rt = "rt\<lparr>rt_registry := add_object oid (obj\<lparr>ob_state := st\<rparr>) (rt_registry rt), rt_user := u\<rparr>"
  obtain pushed rt2 where n: "run_notes wires obj ns ?rt = (pushed, rt2)" by (rule prod.exhaust)
  let ?out = "case pushed of Inr _ \<Rightarrow> r | Inl e \<Rightarrow> Inl e"
  have o: "object_op wires op obj rt = (?out, rt2)"
    using assms(1) [OF Some] n by (cases pushed) (simp_all add: object_op_def op sbind_apply slift_def)
  have req: "object_request wires send seq code oid op rt
      = scatch std_exception (sbind (object_op wires op obj) (send_result send seq))
          (\<lambda>e. send_error send seq code (what e)) rt"
    by (simp add: object_request_def scatch_apply Some)
  have ans: "\<exists>io. object_request wires send seq code oid op rt = (Inr (), rt2\<lparr>rt_io := io\<rparr>)
      \<and> outgoing io = outgoing (rt_io rt2) @ answer seq code ?out"
    if "answerable ?out" "ready (length (answer seq code ?out)) (rt_io rt)"
    using try_reply [where m = "object_op wires op obj" and rt = rt, OF o that(1), where seq = seq and code = code and n = 0]
      assms(2) [OF n, of "length (answer seq code ?out)"] that(2) unfolding req by auto
  have long: "object_request wires send seq code oid op rt = (Inl (RuntimeError ''String too large to encode''), rt2)"
    if "?out = Inl e" "std_exception e" "\<not> string_ok (what e)" for e
  proof -
    have "create_error_message seq code (what e) = Inl (RuntimeError ''String too large to encode'')"
      using that(3) by (simp add: create_error_message_def encode_string_def string_ok_def word_enc_appends room_def k_max_capacity_eq)
    then show ?thesis
      using that o unfolding req by (simp add: scatch_apply sbind_apply send_error_def slift_def)
  qed
  have foreign: "object_request wires send seq code oid op rt = (Inl e, rt2)"
    if "?out = Inl e" "\<not> std_exception e" for e
    using that o unfolding req by (simp add: scatch_apply sbind_apply)
  show ?thesis
    using ans long foreign run_notes_registry [OF n]
    unfolding request_handled_def Some option.case op prod.case n Let_def by simp
qed

end

section \<open>What the handlers leave alone\<close>

text \<open>A step keeps the service's tables when it changes neither who is registered, nor any
  reference count, nor any subscription.\<close>

definition same_tables :: "('o, 'u, 'io) runtime \<Rightarrow> ('o, 'u, 'io) runtime \<Rightarrow> bool" where
  "same_tables rt rt' \<longleftrightarrow> rt_dispatchers rt' = rt_dispatchers rt
     \<and> rt_stream_dispatchers rt' = rt_stream_dispatchers rt \<and> rt_methods rt' = rt_methods rt
     \<and> rt_subs rt' = rt_subs rt \<and> factories (rt_registry rt') = factories (rt_registry rt)
     \<and> refs_of (rt_registry rt') = refs_of (rt_registry rt)
     \<and> destroyed (rt_registry rt') = destroyed (rt_registry rt)
     \<and> (registry_ok (rt_registry rt) \<longrightarrow> registry_ok (rt_registry rt'))"

interpretation tables: step_preorder same_tables
  by unfold_locales (auto simp: same_tables_def)

lemma keeps_lift_io: "keeps same_tables (lift_io m)"
  by (auto simp: keeps_def same_tables_def lift_io_def split: prod.splits)

lemma keeps_send_error: "keeps same_tables (send_error reply seq code text)"
  unfolding send_error_def by (intro tables.keeps_sbind tables.keeps_pure keeps_lift_io)

lemma keeps_send_result: "keeps same_tables (send_result reply seq b)"
  unfolding send_result_def by (intro tables.keeps_sbind tables.keeps_pure keeps_lift_io)

lemma same_tables_io_user [simp]:
  "same_tables rt (rt\<lparr>rt_user := u\<rparr>)" "same_tables rt (rt\<lparr>rt_io := io\<rparr>)"
  "same_tables rt (rt\<lparr>rt_io := io, rt_user := u\<rparr>)" "same_tables rt (rt\<lparr>rt_user := u, rt_io := io\<rparr>)"
  by (simp_all add: same_tables_def)

lemmas reply_tables [simp] = keeps_apply [OF keeps_send_error] keeps_apply [OF keeps_send_result]
  keeps_apply [OF keeps_lift_io]

lemma keeps_stream_call: "keeps same_tables (stream_call wires reply w d mid payload)"
proof (rule keepsI)
  fix rt :: "('a, 'b, 'c) runtime"
  have err: "same_tables rt (snd (send_error reply seq code m (rt\<lparr>rt_user := u, rt_io := io\<rparr>)))" for seq code m u io
    by (rule tables.R_trans [OF same_tables_io_user(4) reply_tables(1)])
  show "same_tables rt (snd (stream_call wires reply w d mid payload rt))"
    by (auto simp: stream_call_def Let_def err split: prod.splits sum.splits)
qed

lemma keeps_run_dispatcher: "keeps same_tables (run_dispatcher d mid b)"
  by (auto simp: keeps_def run_dispatcher_def split: prod.splits)

lemmas call_tables = keeps_apply [OF keeps_stream_call]
  keeps_apply [OF tables.keeps_scatch [OF tables.keeps_sbind [OF keeps_run_dispatcher keeps_send_result] keeps_send_error]]

lemma keeps_handle_call: "keeps same_tables (handle_call wires reply mk hdr payload)"
  by (rule keepsI)
    (auto simp: handle_call_def tables.R_refl call_tables split: prod.splits sum.splits option.splits)

lemma keeps_run_notes: "keeps same_tables (run_notes wires obj ns)"
proof (induction wires obj ns rule: run_notes.induct)
  case (1 wires obj)
  show ?case by (simp add: tables.keeps_pure)
next
  case (2 wires obj pid val ns)
  then show ?case
    by (simp only: run_notes.simps)
      (intro tables.keeps_sbind; auto simp: keeps_def split: prod.splits)
qed

lemma refs_of_same:
  "get_object oid r = Some obj \<Longrightarrow> ob_refs obj' = ob_refs obj \<Longrightarrow> refs_of (add_object oid obj' r) = refs_of r"
  by (auto simp: refs_of_replace refs_of_get fun_eq_iff)

lemma add_object_simps [simp]:
  "factories (add_object oid obj r) = factories r" "destroyed (add_object oid obj r) = destroyed r"
  by (simp_all add: add_object_def)

lemma same_tables_replace:
  assumes "get_object oid (rt_registry rt) = Some obj" and "ob_refs obj' = ob_refs obj" and "ob_id obj' = ob_id obj"
  shows "same_tables rt (rt\<lparr>rt_registry := add_object oid obj' (rt_registry rt)\<rparr>)"
    and "same_tables rt (rt\<lparr>rt_registry := add_object oid obj' (rt_registry rt), rt_user := u\<rparr>)"
  using assms registry_ok_replace [OF _ assms(1), of obj'] registry_ok_get [OF _ assms(1)]
  by (auto simp: same_tables_def refs_of_same)

text \<open>An object's method runs on the object found under the id, which is its own.\<close>

lemma object_request_tables:
  assumes "registry_ok (rt_registry rt)"
  shows "same_tables rt (snd (object_request wires reply seq code oid op rt))"
proof -
  let ?attempt = "\<lambda>rt. case get_object oid (rt_registry rt) of
          None \<Rightarrow> send_error reply seq ec_object_not_found ''Object not found'' rt
        | Some obj \<Rightarrow> sbind (object_op wires op obj) (send_result reply seq) rt"
  have main: "same_tables rt (snd (?attempt rt))"
  proof (cases "get_object oid (rt_registry rt)")
    case None
    then show ?thesis by simp
  next
    case (Some obj)
    obtain ns r st u where op: "op (ob_state obj) (rt_user rt) = (ns, r, st, u)" by (metis prod_cases4)
    let ?rt = "rt\<lparr>rt_registry := add_object oid (obj\<lparr>ob_state := st\<rparr>) (rt_registry rt), rt_user := u\<rparr>"
    have "ob_id obj = oid" using registry_ok_get [OF assms Some] by simp
    then have "sbind (object_op wires op obj) (send_result reply seq) rt
        = sbind (sbind (run_notes wires obj ns) (\<lambda>_. slift r)) (send_result reply seq) ?rt"
      by (simp add: sbind_def object_op_def op)
    moreover have "same_tables ?rt (snd (sbind (sbind (run_notes wires obj ns) (\<lambda>_. slift r)) (send_result reply seq) ?rt))"
      by (rule keeps_apply) (intro tables.keeps_sbind keeps_run_notes tables.keeps_pure keeps_send_result)
    moreover have "same_tables rt ?rt" using Some by (intro same_tables_replace) simp_all
    ultimately show ?thesis using Some tables.R_trans by (simp del: reply_tables) blast
  qed
  obtain r rt1 where r: "?attempt rt = (r, rt1)" by fastforce
  then have "same_tables rt rt1" using main by simp
  moreover have "same_tables rt1 (snd (send_error reply seq code (what e) rt1))" for e
    by simp
  ultimately show ?thesis
    using r by (cases r) (auto simp: object_request_def scatch_apply intro: tables.R_trans [OF _ reply_tables(1)])
qed

section \<open>The invariant of a session\<close>

text \<open>While a connection is served: the tables are well formed, and every live object that was
  not there when the connection began is tracked by it, with the one reference of its
  creation.\<close>

definition session_ok :: "i32 set \<Rightarrow> ('o, 'u, 'io) runtime \<times> conn \<Rightarrow> bool" where
  "session_ok old = (\<lambda>(rt, c). registry_ok (rt_registry rt) \<and> subs_ok (rt_subs rt)
     \<and> (\<forall>t f. map_of (factories (rt_registry rt)) t = Some f \<longrightarrow> factory_fresh f)
     \<and> (\<forall>oid n. refs_of (rt_registry rt) oid = Some n \<and> oid \<notin> old \<longrightarrow> n = 1 \<and> oid \<in> set (tracked c)))"

text \<open>Keeping the invariant is a preorder on the states of a session.\<close>

definition session_pre :: "i32 set \<Rightarrow> ('o, 'u, 'io) runtime \<times> conn \<Rightarrow> ('o, 'u, 'io) runtime \<times> conn \<Rightarrow> bool" where
  "session_pre old s s' \<longleftrightarrow> (session_ok old s \<longrightarrow> session_ok old s')"

interpretation session: step_preorder "session_pre old" for old
  by unfold_locales (auto simp: session_pre_def)

lemma session_ok_same:
  "session_ok old (rt, c) \<Longrightarrow> same_tables rt rt' \<Longrightarrow> session_ok old (rt', c)"
  by (auto simp: session_ok_def same_tables_def)

lemma session_on_rt:
  assumes "\<And>rt. registry_ok (rt_registry rt) \<Longrightarrow> same_tables rt (snd (m rt))"
  shows "keeps (session_pre old) (on_rt m)"
proof (rule keepsI)
  fix s :: "('a, 'b, 'c) runtime \<times> conn"
  obtain rt c where s: "s = (rt, c)" by fastforce
  have "session_ok old (rt, c) \<Longrightarrow> session_ok old (snd (m rt), c)"
    using assms [of rt] session_ok_same [of old rt c "snd (m rt)"] by (auto simp: session_ok_def)
  then show "session_pre old s (snd (on_rt m s))"
    by (simp add: s session_pre_def on_rt_def split_beta)
qed

lemma session_on_rt_keeps: "keeps same_tables m \<Longrightarrow> keeps (session_pre old) (on_rt m)"
  by (rule session_on_rt) (simp add: keeps_def)

lemma session_release: "keeps (session_pre old) (handle_release payload)"
proof (rule keepsI)
  fix s :: "('a, 'b, 'c) runtime \<times> conn"
  show "session_pre old s (snd (handle_release payload s))"
    by (cases s; cases "decode_object_release_header payload")
      (auto simp: session_pre_def handle_release_def session_ok_def registry_release_ok factories_unchanged
        refs_of_release split: if_splits option.splits)
qed

lemma refs_of_set_subscription [simp]: "refs_of (set_subscription_registry oid r) = refs_of r"
  by (auto simp: set_subscription_registry_def refs_of_same split: option.splits)

lemma set_subscription_ok:
  "registry_ok r \<Longrightarrow> registry_ok (set_subscription_registry oid r)"
  "factories (set_subscription_registry oid r) = factories r"
proof -
  show "registry_ok (set_subscription_registry oid r)" if "registry_ok r"
  proof (cases "get_object oid r")
    case (Some obj)
    with registry_ok_replace [OF that Some, of "obj\<lparr>ob_fanout := True\<rparr>"] registry_ok_get [OF that Some]
    show ?thesis by (simp add: set_subscription_registry_def)
  qed (simp add: set_subscription_registry_def that)
  show "factories (set_subscription_registry oid r) = factories r"
    by (simp add: set_subscription_registry_def split: option.splits)
qed

lemma session_subscribe: "keeps (session_pre old) (handle_subscribe t payload)"
proof (rule keepsI)
  fix s :: "('a, 'b, 'c) runtime \<times> conn"
  show "session_pre old s (snd (handle_subscribe t payload s))"
    by (cases s; cases "decode_property_header payload")
      (auto simp: session_pre_def handle_subscribe_def session_ok_def subscribe_ok(1) set_subscription_ok)
qed

lemma session_unsubscribe: "keeps (session_pre old) (handle_unsubscribe t payload)"
proof (rule keepsI)
  fix s :: "('a, 'b, 'c) runtime \<times> conn"
  show "session_pre old s (snd (handle_unsubscribe t payload s))"
    by (cases s; cases "decode_property_header payload")
      (auto simp: session_pre_def handle_unsubscribe_def session_ok_def unsubscribe_ok(1))
qed

lemma session_create_tracked: "keeps (session_pre old) (create_tracked h payload)"
proof (rule keepsI)
  fix s :: "('a, 'b, 'c) runtime \<times> conn"
  obtain rt c where s: "s = (rt, c)" by fastforce
  obtain r reg u where cr: "create_object (och_type_id h) (och_constructor_id h) payload (rt_registry rt, rt_user rt)
      = (r, reg, u)" by (metis prod_cases3)
  show "session_pre old s (snd (create_tracked h payload s))"
  proof (cases r)
    case (Inl e)
    with cr have "reg = rt_registry rt" by (intro create_object_Inl) simp
    with Inl s cr show ?thesis
      by (auto simp: session_pre_def create_tracked_def sbind_apply on_rt_def session_ok_def)
  next
    case (Inr oid)
    obtain f obj r1 where f: "map_of (factories (rt_registry rt)) (och_type_id h) = Some f"
      "f (och_constructor_id h) payload (rt_user rt) = (Inr (Some obj), u)"
      "take_id (rt_registry rt) = (Inr oid, r1)" "reg = add_object oid (object_init oid (och_type_id h) obj) r1"
      using cr Inr by (auto elim!: create_object_Inr)
    show ?thesis
      unfolding session_pre_def
    proof
      assume ok: "session_ok old s"
      then have "factory_fresh f" using f(1) s by (auto simp: session_ok_def)
      then have one: "ob_refs obj = 1" using f(2)
        unfolding factory_fresh_def
        by (auto dest!: spec [of _ "och_constructor_id h"] spec [of _ payload] spec [of _ "rt_user rt"])
      then have refs: "refs_of reg = (refs_of (rt_registry rt))(oid \<mapsto> 1)"
        using registry_ok_add(5) [OF _ f(3), of "object_init oid (och_type_id h) obj"] ok s f(4)
        by (simp add: session_ok_def object_init_def)
      have "registry_ok reg" "factories reg = factories (rt_registry rt)"
        using create_object_ok [OF cr] factories_unchanged(1) [OF cr] ok s by (auto simp: session_ok_def)
      with ok refs show "session_ok old (snd (create_tracked h payload s))"
        using Inr s cr by (auto simp: create_tracked_def sbind_apply on_rt_def monad_defs session_ok_def split: if_splits)
    qed
  qed
qed

lemma session_create: "keeps (session_pre old) (handle_create reply hdr payload)"
proof (rule keepsI)
  fix s :: "('a, 'b, 'c) runtime \<times> conn"
  have "keeps (session_pre old) (scatch std_exception
          (sbind (create_tracked h payload) (\<lambda>oid.
           sbind (slift (encode_object_ref \<lparr>or_type_id = och_type_id h, or_object_id = oid\<rparr> buffer_new)) (\<lambda>response.
           on_rt (send_result reply (hdr_sequence_id hdr) response))))
          (\<lambda>e. on_rt (send_error reply (hdr_sequence_id hdr) ec_object_creation_failed (what e)))
       :: (('a, 'b, 'c) runtime \<times> conn, unit) step)" for h payload
    by (intro session.keeps_scatch session.keeps_sbind session_create_tracked session.keeps_pure
        session_on_rt_keeps keeps_send_result keeps_send_error)
  note k = keeps_apply [OF this]
  show "session_pre old s (snd (handle_create reply hdr payload s))"
    by (cases "decode_object_create_header payload") (simp_all add: handle_create_def session.R_refl k split_beta)
qed

lemma session_object_handlers:
  "keeps (session_pre old) (on_rt (handle_prop_get wires code reply hdr payload))"
  "keeps (session_pre old) (on_rt (handle_prop_set wires code reply hdr payload))"
  "keeps (session_pre old) (on_rt (handle_object_call wires code reply hdr payload))"
  by (rule session_on_rt;
      auto simp: handle_prop_get_def handle_prop_set_def handle_object_call_def tables.R_refl
        object_request_tables split: sum.splits prod.splits)+

lemma session_handle_message: "keeps (session_pre old) (handle_message wires code hdr payload t)"
  unfolding handle_message_def Let_def
  by (auto intro: session_subscribe session_unsubscribe session_create session_release session_object_handlers
      session_on_rt_keeps [OF keeps_handle_call] session.keeps_pure)

text \<open>Cleaning up releases what is tracked and forgets the subscriber.\<close>

lemma release_connection_objects_ok:
  "registry_ok r \<Longrightarrow> registry_ok (release_connection_objects oids r)"
  by (induction oids r rule: release_connection_objects.induct) (auto simp: registry_release_ok)

lemma refs_of_release_connection:
  "refs_of (release_connection_objects oids r) oid = Some n \<Longrightarrow>
    \<exists>m. refs_of r oid = Some m \<and> (m = 1 \<longrightarrow> oid \<notin> set oids)"
proof (induction oids r rule: release_connection_objects.induct)
  case (2 j oids r)
  then show ?case
    by (auto simp: refs_of_release split: if_splits option.splits)
qed auto

lemma disconnect_cleans:
  assumes "session_ok old s"
  shows "dom (refs_of (rt_registry (disconnect t s))) \<subseteq> old"
    and "subscribed (rt_subs (disconnect t s)) = {(s', t', k) \<in> subscribed (rt_subs (fst s)). s' \<noteq> t}"
    and "registry_ok (rt_registry (disconnect t s))" and "subs_ok (rt_subs (disconnect t s))"
proof -
  obtain rt c where s: "s = (rt, c)" by fastforce
  show "dom (refs_of (rt_registry (disconnect t s))) \<subseteq> old"
  proof
    fix oid assume "oid \<in> dom (refs_of (rt_registry (disconnect t s)))"
    then obtain n where "refs_of (release_connection_objects (tracked c) (rt_registry rt)) oid = Some n"
      by (auto simp: s disconnect_def)
    then obtain m where "refs_of (rt_registry rt) oid = Some m" "m = 1 \<longrightarrow> oid \<notin> set (tracked c)"
      using refs_of_release_connection by blast
    with assms show "oid \<in> old" by (auto simp: s session_ok_def)
  qed
  show "subscribed (rt_subs (disconnect t s)) = {(s', t', k) \<in> subscribed (rt_subs (fst s)). s' \<noteq> t}"
    and "registry_ok (rt_registry (disconnect t s))" and "subs_ok (rt_subs (disconnect t s))"
    using assms by (auto simp: s disconnect_def session_ok_def unsubscribe_all_ok release_connection_objects_ok)
qed

lemma client_loop_from_cleans:
  assumes "session_ok old s" and "client_loop_from wires code t evs s = (Inr (), rt')"
  shows "dom (refs_of (rt_registry rt')) \<subseteq> old \<and> (\<forall>t' k. (t, t', k) \<notin> subscribed (rt_subs rt'))
    \<and> registry_ok (rt_registry rt') \<and> subs_ok (rt_subs rt')"
  using assms
proof (induction evs arbitrary: s)
  case Nil
  then show ?case by simp
next
  case (Cons ev evs)
  show ?case
  proof (cases ev)
    case (RecvThrow e)
    with Cons.prems show ?thesis by simp
  next
    case RecvEnd
    with Cons.prems disconnect_cleans [OF Cons.prems(1), of t] show ?thesis by auto
  next
    case (RecvMsg msg)
    show ?thesis
    proof (cases "decode_header msg")
      case (Inl e)
      with Cons.prems RecvMsg show ?thesis by simp
    next
      case (Inr p)
      obtain hdr m where p: "p = (hdr, m)" by fastforce
      obtain r s' where h: "handle_message wires code hdr m t s = (r, s')"
        by (rule prod.exhaust)
      have "session_ok old s'"
        using keepsD [OF session_handle_message h, of old] Cons.prems(1) by (simp add: session_pre_def)
      with Cons.IH [of s'] Cons.IH [OF Cons.prems(1)] Cons.prems RecvMsg Inr p h
        disconnect_cleans [OF Cons.prems(1), of t]
      show ?thesis by (auto split: if_splits sum.splits)
    qed
  qed
qed

section \<open>Properties\<close>

text \<open>Claim C2. A call to a registered service is answered exactly once, with the call's sequence
  id, on both paths: a dispatcher that returns has its response sent as a result, one that
  throws a standard exception has its text sent as an error with code 3; apart from the
  service's own state nothing else changes, and the transport and pipe handlers send the same
  bytes.\<close>

theorem call_answered_once:
  assumes "hdr_type hdr = mt_call"
    and "buffer_ok payload" and "unread payload = call_header_repr (sid, mid) @ args"
    and "map_of (rt_stream_dispatchers rt) sid = None" and "map_of (rt_dispatchers rt) sid = Some d"
    and "d mid (advance 4 payload) (rt_user rt) = (r, u)" and "answerable r"
    and "n_faults (rt_io rt) = []"
    and "rt_stream_dispatchers rt' = rt_stream_dispatchers rt" and "rt_dispatchers rt' = rt_dispatchers rt"
    and "rt_user rt' = rt_user rt"
    and "accepting (length (answer (hdr_sequence_id hdr) ec_unknown_method r)) (writes (rt_io rt'))"
  shows "(\<exists>io. handle_message net_wires code hdr payload t (rt, c) = (Inr (), rt\<lparr>rt_user := u, rt_io := io\<rparr>, c)
      \<and> sent_to t io = sent_to t (rt_io rt) @ answer (hdr_sequence_id hdr) ec_unknown_method r)
    \<and> (\<exists>io. handle_message_fd code' hdr payload 1 (rt', c') = (Inr (), rt'\<lparr>rt_user := u, rt_io := io\<rparr>, c')
      \<and> written io = written (rt_io rt') @ answer (hdr_sequence_id hdr) ec_unknown_method r)"
proof
  have d: "d mid (advance 4 payload) (rt_user rt') = (r, u)" using assms(6,11) by simp
  show "\<exists>io. handle_message net_wires code hdr payload t (rt, c) = (Inr (), rt\<lparr>rt_user := u, rt_io := io\<rparr>, c)
      \<and> sent_to t io = sent_to t (rt_io rt) @ answer (hdr_sequence_id hdr) ec_unknown_method r"
    using net_port.handle_call_reply [OF assms(2-7), where hdr = hdr and wires = net_wires and mk = "writer_on_transport t" and t = t] assms(1,8)
    by (auto simp: handle_message_def on_rt_def msg_type_defs net_wires_def)
  show "\<exists>io. handle_message_fd code' hdr payload 1 (rt', c') = (Inr (), rt'\<lparr>rt_user := u, rt_io := io\<rparr>, c')
      \<and> written io = written (rt_io rt') @ answer (hdr_sequence_id hdr) ec_unknown_method r"
    using fd_port.handle_call_reply [where payload = payload and sid = sid and mid = mid and args = args
        and rt = rt' and d = d and r = r and u = u and hdr = hdr and n = 0 and wires = fd_wires
        and mk = "writer_on_fd 1"] d assms(1-5,7,9,10,12)
    by (auto simp: handle_message_fd_def on_rt_def msg_type_defs)
qed

text \<open>A small service: method 0 echoes its request, method 1 throws.\<close>

definition echo :: "unit dispatcher" where
  "echo m req u = (if m = 0 then (Inr req, u) else (Inl (RuntimeError ''no such method''), u))"

definition no_code :: "(unit, unit) object_code" where
  "no_code = \<lparr>oc_prop_get = (\<lambda>p o' u. ([], Inr buffer_new, o', u)),
     oc_prop_set = (\<lambda>p v o' u. ([(p, v)], Inr buffer_new, o', u)),
     oc_dispatch = (\<lambda>m v o' u. ([], Inl (RuntimeError ''no method''), o', u))\<rparr>"

definition quiet_net :: net where
  "quiet_net = \<lparr>n_sent = [], n_faults = []\<rparr>"

definition wide_fd :: sys where
  "wide_fd = \<lparr>reads = [], writes = replicate 64 (WrAccept 100), polls = [], written = [], closed = [], options = []\<rparr>"

definition demo_call :: buffer where
  "demo_call = appended (call_header_repr (5, 1)) buffer_new"

lemma demo_call_ok: "buffer_ok demo_call" "unread demo_call = call_header_repr (5, 1) @ []"
  by (simp_all add: demo_call_def call_header.width codec_simps k_max_capacity_eq unread_appended)

lemma accepting_replicate: "0 < k \<Longrightarrow> accepting n (replicate m (WrAccept k)) \<longleftrightarrow> n \<le> m"
  by (induction m arbitrary: n) auto

theorem call_answered_once_witness:
  "let hdr = plain_header mt_call 9 4; rt = register_dispatcher 5 echo (runtime_new () quiet_net)
   in \<exists>io. handle_message net_wires no_code hdr demo_call 3 (rt, conn_new) = (Inr (), rt\<lparr>rt_io := io\<rparr>, conn_new)
     \<and> sent_to 3 io = error_bytes 9 3 ''no such method''"
proof -
  let ?rt = "register_dispatcher 5 echo (runtime_new () quiet_net) :: (unit, unit, net) runtime"
  let ?rt' = "register_dispatcher 5 echo (runtime_new () wide_fd) :: (unit, unit, sys) runtime"
  have a: "answerable (Inl (RuntimeError ''no such method''))"
    by (simp add: answerable_def string_ok_def size_limits)
  have e: "echo 1 (advance 4 demo_call) (rt_user ?rt) = (Inl (RuntimeError ''no such method''), ())"
    by (simp add: echo_def)
  have d: "map_of (rt_stream_dispatchers ?rt) 5 = None" "map_of (rt_dispatchers ?rt) 5 = Some echo"
    "n_faults (rt_io ?rt) = []" "rt_stream_dispatchers ?rt' = rt_stream_dispatchers ?rt"
    "rt_dispatchers ?rt' = rt_dispatchers ?rt" "rt_user ?rt' = rt_user ?rt"
    by (simp_all add: register_dispatcher_def runtime_new_def quiet_net_def)
  have acc: "accepting (length (answer (hdr_sequence_id (plain_header mt_call 9 4)) ec_unknown_method
      (Inl (RuntimeError ''no such method'')))) (writes (rt_io ?rt'))"
    by (simp add: answer_def register_dispatcher_def runtime_new_def wide_fd_def accepting_replicate)
  have "\<exists>io. handle_message net_wires no_code (plain_header mt_call 9 4) demo_call 3 (?rt, conn_new)
      = (Inr (), ?rt\<lparr>rt_user := (), rt_io := io\<rparr>, conn_new)
      \<and> sent_to 3 io = sent_to 3 (rt_io ?rt) @ answer 9 ec_unknown_method (Inl (RuntimeError ''no such method''))"
    using call_answered_once [OF plain_header_simps(3) demo_call_ok d(1,2) e a d(3-6) acc] by simp
  then show ?thesis
    by (simp add: Let_def answer_def ec_unknown_method_def register_dispatcher_def runtime_new_def
        quiet_net_def sent_to_def)
qed

text \<open>What an object request asks for: the object, the error code of a failure and the virtual
  method with its arguments.\<close>

definition object_request_of :: "('o, 'u) object_code \<Rightarrow> header \<Rightarrow> buffer
    \<Rightarrow> (i32 \<times> u16 \<times> ('o \<Rightarrow> 'u \<Rightarrow> ('o, 'u) op_result)) option" where
  "object_request_of code hdr payload =
    (if hdr_type hdr = mt_prop_get
     then (case decode_property_header payload of Inl e \<Rightarrow> None
       | Inr (h, _) \<Rightarrow> Some (ph_object_id h, 302, oc_prop_get code (ph_property_id h)))
     else if hdr_type hdr = mt_prop_set
     then (case decode_property_header payload of Inl e \<Rightarrow> None
       | Inr (h, v) \<Rightarrow> Some (ph_object_id h, 302, oc_prop_set code (ph_property_id h) v))
     else if hdr_type hdr = mt_object_call
     then (case decode_object_method_header payload of Inl e \<Rightarrow> None
       | Inr (h, args) \<Rightarrow> Some (omh_object_id h, 3, oc_dispatch code (omh_method_id h) args))
     else None)"

lemma handle_message_object_request:
  assumes "object_request_of code hdr payload = Some (oid, ec, op)"
  shows "handle_message wires code hdr payload t
    = on_rt (object_request wires (on_transport wires t) (hdr_sequence_id hdr) ec oid op)"
  using assms
  by (auto simp: object_request_of_def handle_message_def Let_def msg_type_defs handle_prop_get_def error_codes
      handle_prop_set_def handle_object_call_def on_rt_def fun_eq_iff split: if_splits sum.splits)

lemma handle_message_fd_object_request:
  assumes "object_request_of code hdr payload = Some (oid, ec, op)"
  shows "handle_message_fd code hdr payload fd
    = on_rt (object_request fd_wires fd_reply (hdr_sequence_id hdr) ec oid op)"
  using assms
  by (auto simp: object_request_of_def handle_message_fd_def Let_def msg_type_defs handle_prop_get_def error_codes
      handle_prop_set_def handle_object_call_def on_rt_def fun_eq_iff split: if_splits sum.splits)

text \<open>Claim C34. Property gets, property sets and object calls, over a transport and over a pipe:
  an object that does not exist gets error 300. For one that does, the virtual method runs once
  and its new state is stored, its notifications go out in order, and then the outcome (what the
  method returned or threw, or what a notification threw) is answered with exactly one message,
  the result or an error with code 302 for the properties and 3 for the calls, while nothing else
  of the service and nothing of the connection changes. Two outcomes are not answered: an
  exception that is no standard exception leaves the handler as it is, and one whose text is too
  long to encode leaves it as the encoder's exception; the new state is stored there too.\<close>

theorem object_requests_answered:
  assumes "object_request_of code hdr payload = Some (oid, ec, op)"
    and "registry_ok (rt_registry rt)" and "registry_ok (rt_registry rt')"
  shows "\<exists>after after'. handle_message net_wires code hdr payload t (rt, c) = (fst after, snd after, c)
    \<and> request_handled (sent_to t) (\<lambda>n io. n_faults io = []) net_wires (hdr_sequence_id hdr) ec oid op rt after
    \<and> handle_message_fd code hdr payload fd (rt', c') = (fst after', snd after', c')
    \<and> request_handled written (\<lambda>n io. accepting n (writes io)) fd_wires (hdr_sequence_id hdr) ec oid op rt' after'"
proof -
  let ?net = "object_request net_wires (net_send t) (hdr_sequence_id hdr) ec oid op rt"
  let ?fd = "object_request fd_wires fd_reply (hdr_sequence_id hdr) ec oid op rt'"
  have "request_handled (sent_to t) (\<lambda>n io. n_faults io = []) net_wires (hdr_sequence_id hdr) ec oid op rt ?net"
    using registry_ok_get [OF assms(2)] run_notes_net by (intro net_port.object_request_handled) blast+
  moreover have "request_handled written (\<lambda>n io. accepting n (writes io)) fd_wires (hdr_sequence_id hdr) ec oid op rt' ?fd"
    by (rule fd_port.object_request_handled) (simp_all add: registry_ok_get [OF assms(3)] run_notes_fd)
  moreover have "handle_message net_wires code hdr payload t (rt, c) = (fst ?net, snd ?net, c)"
    "handle_message_fd code hdr payload fd (rt', c') = (fst ?fd, snd ?fd, c')"
    by (simp_all add: handle_message_object_request [OF assms(1)] handle_message_fd_object_request [OF assms(1)]
        on_rt_def net_wires_def split_beta)
  ultimately show ?thesis by blast
qed

definition demo_get :: buffer where
  "demo_get = appended (property_header_repr \<lparr>ph_type_id = 7, ph_object_id = -1, ph_property_id = 5, ph_reserved = 0\<rparr>) buffer_new"

lemma demo_get_decode:
  "decode_property_header demo_get
    = Inr (\<lparr>ph_type_id = 7, ph_object_id = -1, ph_property_id = 5, ph_reserved = 0\<rparr>, advance 12 demo_get)"
proof -
  let ?h = "\<lparr>ph_type_id = 7, ph_object_id = -1, ph_property_id = 5, ph_reserved = 0\<rparr>"
  have "buffer_ok demo_get" "unread demo_get = property_header_repr ?h @ []"
    by (simp_all add: demo_get_def property_hdr.width codec_simps k_max_capacity_eq unread_appended)
  from property_hdr.dec_consumes [OF TrueI this] show ?thesis by (simp add: property_hdr.width)
qed

text \<open>How a streaming call ends tells the client what happened: if the dispatcher returns,
  its chunks are followed by the end of the stream; if it throws a standard exception, by an
  error with its text and by no end of stream, so that a failed stream is never taken for a
  complete one.\<close>

theorem stream_call_outcome:
  assumes "list_all (\<lambda>c. sendable (contents c)) chunks" and "n_faults (rt_io rt) = []"
    and "d mid payload (rt_user rt) = ((map SwWrite chunks, outcome), u)"
    and "case outcome of Inr _ \<Rightarrow> True | Inl e \<Rightarrow> std_exception e \<and> string_ok (what e)"
  shows "\<exists>io. stream_call net_wires (net_send t) (writer_on_transport t seq) d mid payload rt
      = (Inr (), rt\<lparr>rt_user := u, rt_io := io\<rparr>)
    \<and> sent_to t io = sent_to t (rt_io rt) @ stream_bytes seq chunks
      @ (case outcome of Inr _ \<Rightarrow> wire_message mt_stream_end seq [] | Inl e \<Rightarrow> error_bytes seq 3 (what e))"
proof -
  let ?w = "writer_on_transport t seq"
  have w: "\<not> w_ended ?w" "w_sequence_id ?w = seq" by (simp_all add: writer_on_transport_def)
  from net_writer.run_writes [OF refl w(1) assms(1), where io = "rt_io rt"] assms(2) obtain n1 where
    run: "run_stream_ops net_wires (map SwWrite chunks) (?w, rt_io rt) = (Inr (), ?w, n1)"
    "sent_to t n1 = sent_to t (rt_io rt) @ stream_bytes seq chunks" "n_faults n1 = []"
    by (auto simp: w)
  show ?thesis
  proof (cases outcome)
    case (Inl e)
    with assms(4) have e: "std_exception e" "string_ok (what e)" by simp_all
    let ?rt = "rt\<lparr>rt_user := u, rt_io := n1\<rparr>"
    from net_port.send_error_ready [OF e(2), where rt = ?rt and seq = seq and code = ec_unknown_method and t = t] run(3)
    obtain io where "send_error (net_send t) seq ec_unknown_method (what e) ?rt = (Inr (), ?rt\<lparr>rt_io := io\<rparr>)"
      "sent_to t io = sent_to t n1 @ error_bytes seq ec_unknown_method (what e)" by auto
    with run Inl e w show ?thesis
      by (intro exI [of _ io]) (simp add: stream_call_def assms(3) sbind_apply slift_def writer_abort_def error_codes)
  next
    case (Inr x)
    with run net_writer.destroy_ends [OF refl, where io = n1 and t = t and seq = seq] w show ?thesis
      by (auto simp: stream_call_def assms(3) sbind_apply slift_def)
  qed
qed

text \<open>A property set on an object with subscribers is pushed before it is answered: every
  transport subscribed to the property gets one notification with the new value, and then the
  client that made the request gets its result.\<close>

theorem property_set_pushes:
  assumes "object_request_of code hdr payload = Some (oid, ec, op)"
    and "registry_ok (rt_registry rt)" and "n_faults (rt_io rt) = []"
    and "get_object oid (rt_registry rt) = Some obj" and "ob_fanout obj"
    and "op (ob_state obj) (rt_user rt) = ([(pid, val)], Inr response, st, u)"
    and "sendable (contents val)" and "sendable (contents response)"
  shows "\<exists>rt'. handle_message net_wires code hdr payload t (rt, c) = (Inr (), rt', c)
    \<and> n_sent (rt_io rt') = n_sent (rt_io rt)
      @ map (\<lambda>t. (t, notify_message (ob_type obj) oid pid val)) (targets oid pid (rt_subs rt))
      @ [(t, message_buffer mt_result (hdr_sequence_id hdr) (contents response))]"
proof -
  have o: "ob_id obj = oid" using registry_ok_get [OF assms(2,4)] by simp
  have del: "delivered [] ts = ts" for ts by (induction ts) simp_all
  show ?thesis
    using assms(3-8) o
    by (simp add: handle_message_object_request [OF assms(1)] on_rt_def net_wires_def object_request_def
        scatch_apply sbind_apply object_op_def notify_property_def sub_notify_run send_targets_net del
        monad_defs send_result_def create_messages lift_io_def net_send_def)
qed


definition watched :: "(unit, unit) object" where
  "watched = (object_init (-1) 7 (object_new ()))\<lparr>ob_fanout := True\<rparr>"

definition demo_objects :: "(unit, unit, net) runtime" where
  "demo_objects = (runtime_new () quiet_net)\<lparr>rt_subs := subscribe 4 (-1) 5 4 [],
     rt_registry := registry_new\<lparr>objects := [(-1, watched)], next_id := -2\<rparr>\<rparr>"

lemma demo_objects_ok: "registry_ok (rt_registry demo_objects)"
  by (simp add: demo_objects_def registry_ok_def registry_new_def watched_def object_init_def object_new_def
      runtime_new_def)

text \<open>A property set by a client that watches the property: it gets the notification, then the
  result.\<close>

theorem object_requests_answered_witness:
  "\<exists>rt. handle_message net_wires no_code (plain_header mt_prop_set 9 12) demo_get 4 (demo_objects, conn_new)
      = (Inr (), rt, conn_new)
    \<and> sent_to 4 (rt_io rt) = contents (notify_message 7 (-1) 5 (advance 12 demo_get)) @ wire_message mt_result 9 []
    \<and> get_object (-1) (rt_registry rt) = Some watched"
proof -
  let ?hdr = "plain_header mt_prop_set 9 12" and ?v = "advance 12 demo_get"
  let ?op = "oc_prop_set no_code 5 ?v"
  let ?rt = "demo_objects" and ?fd = "runtime_new () wide_fd :: (unit, unit, sys) runtime"
  have q: "object_request_of no_code ?hdr demo_get = Some (-1, 302, ?op)"
    by (simp add: object_request_of_def demo_get_decode msg_type_defs)
  have g: "get_object (-1) (rt_registry ?rt) = Some watched" "?op (ob_state watched) (rt_user ?rt) = ([(5, ?v)], Inr buffer_new, (), ())"
    "watched\<lparr>ob_state := ()\<rparr> = watched" "n_faults (rt_io ?rt) = []"
    by (simp_all add: demo_objects_def runtime_new_def get_object_def no_code_def watched_def object_init_def object_new_def
        quiet_net_def)
  have m: "ob_fanout watched" "ob_id watched = -1" "ob_type watched = 7" "rt_subs ?rt = subscribe 4 (-1) 5 4 []"
    "n_sent (rt_io ?rt) = []" "contents ?v = contents demo_get" "size_of demo_get = 12"
    by (simp_all add: watched_def object_init_def demo_objects_def runtime_new_def quiet_net_def demo_get_def property_hdr.width)
  have ts: "targets (-1) 5 (subscribe 4 (-1) 5 4 []) = [4]"
    by (simp add: targets_def subscribe_def)
  have v: "sendable (contents ?v)" by (simp add: m sendable_def k_max_capacity_eq)
  let ?rt1 = "?rt\<lparr>rt_registry := add_object (-1) watched (rt_registry ?rt), rt_user := ()\<rparr>"
  let ?rt2 = "?rt1\<lparr>rt_io := (rt_io ?rt)\<lparr>n_sent := [(4, notify_message 7 (-1) 5 ?v)]\<rparr>\<rparr>"
  have n: "run_notes net_wires watched [(5, ?v)] ?rt1 = (Inr (), ?rt2)"
    using g(4) by (simp add: sbind_apply notify_property_def sub_notify_run [OF v] m ts net_wires_def scatch_apply
        net_send_def sret_def)
  have ok: "registry_ok (rt_registry ?fd)" by (simp add: runtime_new_def)
  from object_requests_answered [OF q demo_objects_ok ok, where t = 4 and c = conn_new and fd = 1 and c' = conn_new]
  obtain after where h: "handle_message net_wires no_code ?hdr demo_get 4 (?rt, conn_new) = (fst after, snd after, conn_new)"
    "request_handled (sent_to 4) (\<lambda>n io. n_faults io = []) net_wires 9 302 (-1) ?op ?rt after"
    unfolding plain_header_simps by blast
  have "answerable (Inr buffer_new)" by (simp add: answerable_def sendable_def k_max_capacity_eq)
  with h(2) obtain io where io: "after = (Inr (), ?rt2\<lparr>rt_io := io\<rparr>)" "sent_to 4 io = sent_to 4 (rt_io ?rt2) @ answer 9 302 (Inr buffer_new)"
    unfolding request_handled_def g(1) option.case g(2) prod.case g(3) n Let_def sum.case using g(4) by blast
  then have "sent_to 4 io = contents (notify_message 7 (-1) 5 ?v) @ wire_message mt_result 9 []"
    by (simp add: sent_to_def answer_def)
  moreover have "get_object (-1) (rt_registry (?rt2\<lparr>rt_io := io\<rparr>)) = Some watched"
    by (simp add: get_object_def add_object_def update_conv')
  ultimately show ?thesis using h(1) io(1) by simp
qed

lemma keeps_send_init: "keeps same_tables (send_init_confirmation_transport wires t)"
  unfolding send_init_confirmation_transport_def
  by (rule keepsI, rule keeps_apply)
    (intro tables.keeps_sbind tables.keeps_scatch tables.keeps_pure keeps_lift_io)

text \<open>Claim C6. When a connection's loop returns, because the client disconnected, asked for
  shutdown or sent a wrong magic number, nothing of the connection is left: no object exists
  that did not exist before (each that the client created and did not release has been
  released), and the subscriber has no subscription; the tables are still well formed.\<close>

theorem client_loop_cleans_up:
  assumes "client_loop wires code t evs rt = (Inr (), rt')"
    and "registry_ok (rt_registry rt)" and "subs_ok (rt_subs rt)"
    and "\<And>ty f. map_of (factories (rt_registry rt)) ty = Some f \<Longrightarrow> factory_fresh f"
  shows "dom (refs_of (rt_registry rt')) \<subseteq> dom (refs_of (rt_registry rt))
    \<and> (\<forall>t' k. (t, t', k) \<notin> subscribed (rt_subs rt'))
    \<and> registry_ok (rt_registry rt') \<and> subs_ok (rt_subs rt')"
proof -
  obtain r rt1 where i: "send_init_confirmation_transport wires t rt = (r, rt1)"
    by (rule prod.exhaust)
  have "same_tables rt rt1" using keeps_send_init [of wires t] i by (rule keepsD)
  moreover have "session_ok (dom (refs_of (rt_registry rt))) (rt, conn_new)"
    using assms(2-4) by (auto simp: session_ok_def)
  ultimately have "session_ok (dom (refs_of (rt_registry rt))) (rt1, conn_new)"
    by (rule session_ok_same [rotated])
  moreover have "client_loop_from wires code t evs (rt1, conn_new) = (Inr (), rt')"
    using assms(1) i by (cases r) (simp_all add: client_loop_def)
  ultimately show ?thesis by (rule client_loop_from_cleans)
qed


theorem client_loop_cleans_up_witness:
  "\<exists>rt'. client_loop net_wires no_code 4 [RecvEnd] demo_objects = (Inr (), rt')
    \<and> (\<forall>t' k. (4, t', k) \<notin> subscribed (rt_subs rt'))"
proof -
  obtain r rt' where l: "client_loop net_wires no_code 4 [RecvEnd] demo_objects = (r, rt')"
    by (rule prod.exhaust)
  have "r = Inr ()"
    using l
    by (auto simp: client_loop_def send_init_confirmation_transport_def create_init_message_methods_run
        demo_objects_def runtime_new_def quiet_net_def sbind_apply slift_def scatch_apply lift_io_def
        net_wires_def net_send_def k_max_capacity_eq)
  moreover have "subs_ok (rt_subs demo_objects)" "factories (rt_registry demo_objects) = []"
    by (simp_all add: demo_objects_def subscribe_ok registry_new_def runtime_new_def)
  ultimately show ?thesis
    using client_loop_cleans_up [of net_wires no_code 4 "[RecvEnd]" demo_objects rt'] l demo_objects_ok by simp
qed

text \<open>The loop's state after messages that it handled and that did not make it leave.\<close>

fun served :: "'io wires \<Rightarrow> ('o, 'u) object_code \<Rightarrow> tid \<Rightarrow> recv_event list
    \<Rightarrow> ('o, 'u, 'io) runtime \<times> conn \<Rightarrow> (('o, 'u, 'io) runtime \<times> conn) option" where
  "served wires code t [] s = Some s"
| "served wires code t (RecvMsg msg # evs) s = (case decode_header msg of
      Inl e \<Rightarrow> None
    | Inr (hdr, msg) \<Rightarrow>
        if hdr_magic hdr \<noteq> k_magic \<or> hdr_type hdr = mt_shutdown then None
        else if hdr_type hdr = mt_init_ack then served wires code t evs s
        else (case handle_message wires code hdr msg t s of
            (Inl e, s) \<Rightarrow> None
          | (Inr _, s) \<Rightarrow> served wires code t evs s))"
| "served wires code t (_ # evs) s = None"

lemma client_loop_from_served:
  "served wires code t pre s = Some s' \<Longrightarrow>
    client_loop_from wires code t (pre @ evs) s = client_loop_from wires code t evs s'"
  by (induction wires code t pre s rule: served.induct) (auto split: sum.splits prod.splits if_splits)

text \<open>The size of the header that a handler decodes from the payload.\<close>

definition header_width :: "msg_type \<Rightarrow> nat" where
  "header_width ty =
    (if ty = mt_call then 4
     else if ty = mt_create \<or> ty = mt_release then 8
     else if ty = mt_prop_get \<or> ty = mt_prop_set \<or> ty = mt_object_call \<or> ty = mt_prop_subscribe
       \<or> ty = mt_prop_unsubscribe then 12
     else 0)"

lemma handle_message_short:
  assumes "buffer_ok payload" and "length (unread payload) < header_width (hdr_type hdr)"
  shows "handle_message wires code hdr payload t s
    = (Inl (RuntimeError ''Buffer underflow: attempted to read beyond buffer size''), s)"
proof -
  have "hdr_type hdr \<in> {mt_call, mt_create, mt_release, mt_prop_get, mt_prop_set, mt_object_call, mt_prop_subscribe,
      mt_prop_unsubscribe}"
    using assms(2) by (auto simp: header_width_def split: if_splits)
  then show ?thesis
    using assms
    by (cases s) (auto simp: handle_message_def Let_def msg_type_defs header_width_def on_rt_def handle_call_def
        handle_create_def handle_release_def handle_prop_get_def handle_prop_set_def handle_object_call_def
        handle_subscribe_def handle_unsubscribe_def call_header.dec_short create_header.dec_short
        release_header.dec_short property_hdr.dec_short method_header.dec_short)
qed

text \<open>Claim C39. The way out that cleans up nothing: after any messages that were handled, a message of
  a type with a header of its own (a call, a create, a release, a property get or set, an object
  call, a subscribe or an unsubscribe) whose payload is too short for that header makes the loop
  end with an exception. \<^verbatim>\<open>run_tcp\<close> swallows it and goes on to its next client with the runtime
  exactly as the handled messages left it: the objects the connection made are still alive and
  its subscriptions still name the transport that is destroyed; had the client disconnected
  instead, the loop would have cleaned up.\<close>

theorem malformed_message_skips_cleanup:
  assumes "send_init_confirmation_transport wires t rt = (Inr (), rt0)"
    and "served wires code t pre (rt0, conn_new) = Some (rt1, c1)"
    and "buffer_ok msg" and "unread msg = wire_message ty seq p" and "length p < header_width ty"
  shows "client_loop wires code t (pre @ RecvMsg msg # evs) rt
      = (Inl (RuntimeError ''Buffer underflow: attempted to read beyond buffer size''), rt1)
    \<and> run_tcp_clients wires code ((t, pre @ RecvMsg msg # evs) # clients) rt = run_tcp_clients wires code clients rt1
    \<and> run_tcp_clients wires code ((t, pre @ RecvEnd # evs) # clients) rt
      = run_tcp_clients wires code clients (disconnect t (rt1, c1))"
proof -
  have h: "decode_header msg = Inr (plain_header ty seq (length p), advance 16 msg)"
    using assms(3,4) by (simp add: decode_header_message)
  have "buffer_ok (advance 16 msg)" "length (unread (advance 16 msg)) < header_width ty"
    using assms(3-5) by simp_all
  then have short: "handle_message wires code (plain_header ty seq (length p)) (advance 16 msg) t s
      = (Inl (RuntimeError ''Buffer underflow: attempted to read beyond buffer size''), s)" for s
    by (intro handle_message_short) simp_all
  have "ty \<noteq> mt_shutdown" "ty \<noteq> mt_init_ack"
    using assms(5) by (auto simp: header_width_def msg_type_defs split: if_splits)
  then have loop: "client_loop wires code t (pre @ RecvMsg msg # evs) rt
      = (Inl (RuntimeError ''Buffer underflow: attempted to read beyond buffer size''), rt1)"
    using client_loop_from_served [OF assms(2)] short by (simp add: client_loop_def assms(1) h)
  moreover have "client_loop wires code t (pre @ RecvEnd # evs) rt = (Inr (), disconnect t (rt1, c1))"
    using client_loop_from_served [OF assms(2)] by (simp add: client_loop_def assms(1))
  ultimately show ?thesis by (simp add: sbind_apply scatch_apply sret_def)
qed

text \<open>A client subscribes and then sends a property get without a header.\<close>

theorem malformed_message_skips_cleanup_witness:
  "let sub = message_buffer mt_prop_subscribe 1
         (property_header_repr \<lparr>ph_type_id = 7, ph_object_id = -1, ph_property_id = 5, ph_reserved = 0\<rparr>);
       rt' = snd (run_tcp_clients net_wires no_code [(3, [RecvMsg sub, RecvMsg (message_buffer mt_prop_get 9 [])])] demo_objects);
       rt'' = snd (run_tcp_clients net_wires no_code [(3, [RecvMsg sub, RecvEnd])] demo_objects)
   in (3, 3, -1, 5) \<in> subscribed (rt_subs rt') \<and> (3, 3, -1, 5) \<notin> subscribed (rt_subs rt'')"
proof -
  let ?h = "\<lparr>ph_type_id = 7, ph_object_id = -1, ph_property_id = 5, ph_reserved = 0\<rparr>"
  let ?sub = "message_buffer mt_prop_subscribe 1 (property_header_repr ?h)"
  obtain rt0 where i: "send_init_confirmation_transport net_wires 3 demo_objects = (Inr (), rt0)"
    "rt_subs rt0 = rt_subs demo_objects"
    by (simp add: send_init_confirmation_transport_def create_init_message_methods_run
        demo_objects_def runtime_new_def quiet_net_def sbind_apply slift_def scatch_apply lift_io_def
        net_wires_def net_send_def k_max_capacity_eq)
  have sub: "buffer_ok ?sub" "unread ?sub = wire_message mt_prop_subscribe 1 (property_header_repr ?h)"
    by (simp_all add: k_max_capacity_eq property_hdr.width)
  have dec: "decode_property_header (advance 16 ?sub) = Inr (?h, advance 12 (advance 16 ?sub))"
    using property_hdr.dec_consumes [OF TrueI, where x = ?h and b = "advance 16 ?sub" and rest = "[]"] sub
    by (simp add: property_hdr.width)
  obtain rt1 c1 where s: "served net_wires no_code 3 [RecvMsg ?sub] (rt0, conn_new) = Some (rt1, c1)"
    "rt_subs rt1 = subscribe 3 (-1) 5 3 (rt_subs rt0)"
    using decode_header_message [OF sub] dec
    by (simp add: handle_message_def Let_def msg_type_defs handle_subscribe_def)
  have m: "buffer_ok (message_buffer mt_prop_get 9 [])" "unread (message_buffer mt_prop_get 9 []) = wire_message mt_prop_get 9 []"
    "length ([] :: byte list) < header_width mt_prop_get"
    by (simp_all add: k_max_capacity_eq header_width_def msg_type_defs)
  note R = malformed_message_skips_cleanup [OF i(1) s(1) m, where clients = "[]" and evs = "[]"]
  have ok: "subs_ok (rt_subs rt0)" using i(2) by (simp add: demo_objects_def subscribe_ok)
  have "subscribed (rt_subs rt0) = {(4, 4, -1, 5)}"
    using i(2) subscribe_ok(2) [OF subs_ok_Nil, of 4 "-1" 5 4] by (simp add: demo_objects_def)
  then have "(3, 3, -1, 5) \<in> subscribed (rt_subs rt1)"
    using subscribe_ok(2) [OF ok, of 3 "-1" 5 3] s(2) by simp
  moreover have "(3, 3, -1, 5) \<notin> subscribed (rt_subs (disconnect 3 (rt1, c1)))"
    by (simp add: disconnect_def unsubscribe_all_ok s(2) subscribe_ok ok)
  ultimately show ?thesis
    using R unfolding Let_def append.simps by simp
qed

lemma cap_bits:
  "bit (cap_streaming :: u32) n \<longleftrightarrow> n = 0" "bit (cap_objects :: u32) n \<longleftrightarrow> n = 4"
proof -
  show "bit (cap_streaming :: u32) n \<longleftrightarrow> n = 0" by (simp add: cap_streaming_def bit_1_iff)
  have e: "(cap_objects :: u32) = push_bit 4 1" by (simp add: cap_objects_def)
  show "bit (cap_objects :: u32) n \<longleftrightarrow> n = 4"
    unfolding e bit_push_bit_iff bit_1_iff by auto
qed

text \<open>A service advertises the capabilities that were set by hand, plus streaming exactly
  when a streaming dispatcher is registered and objects exactly when a factory is, and no
  other; setting a capability and clearing it again leaves it clear and the others as they
  were.\<close>

theorem capabilities_advertised:
  "(bit (capabilities rt) n \<longleftrightarrow> bit (rt_local_caps rt) n
      \<or> n = 0 \<and> rt_stream_dispatchers rt \<noteq> [] \<or> n = 4 \<and> factories (rt_registry rt) \<noteq> [])
   \<and> (bit (rt_local_caps (clear_capability cap (set_capability cap rt))) n
      \<longleftrightarrow> bit (rt_local_caps rt) n \<and> \<not> bit cap n)
   \<and> (bit (rt_local_caps (set_capability cap rt)) n \<longleftrightarrow> bit (rt_local_caps rt) n \<or> bit cap n)"
  by (auto simp: capabilities_def Let_def has_factories_def cap_bits set_capability_def
      clear_capability_def bit_simps dest: bit_imp_le_length)

lemma find_slot_append:
  "find_slot name (ns @ ms) = (case find_slot name ns of Some i \<Rightarrow> Some i
    | None \<Rightarrow> map_option (\<lambda>i. length ns + i) (find_slot name ms))"
  by (cases "find_slot name ms"; induction ns) (auto split: option.splits)

lemma find_slot_less: "find_slot name ns = Some i \<Longrightarrow> i < length ns"
  by (induction ns arbitrary: i) (auto split: if_splits)

text \<open>Registering an extension gives it one of the eight capability bits 16 to 23, which
  the service then advertises, and registering the name again gives the same bit and changes
  nothing, but only while a slot is free: once all eight are used, registering a name that is
  already registered throws instead of returning its bit.\<close>

theorem register_extension_again:
  assumes "register_extension name rt = (Inr b, rt')" and "length (rt_ext_names rt) = 8"
  shows "has_extension name rt' \<and> (\<exists>i < 8. b = push_bit i cap_ext_0)
    \<and> register_extension name rt' = (if rt_next_slot rt' < 8 then (Inr b, rt')
        else (Inl (RuntimeError ''All 8 extension capability slots are in use''), rt'))"
proof (cases "find_slot name (take (rt_next_slot rt) (rt_ext_names rt))")
  case None
  let ?s = "rt_next_slot rt"
  have s: "?s < 8" using assms(1) by (auto simp: register_extension_def split: if_splits)
  have rt': "rt' = set_capability (push_bit ?s cap_ext_0) (rt\<lparr>rt_next_slot := ?s + 1,
      rt_ext_names := (rt_ext_names rt)[?s := name]\<rparr>)" "b = push_bit ?s cap_ext_0"
    using assms(1) None s by (auto simp: register_extension_def Let_def)
  have "take (?s + 1) ((rt_ext_names rt)[?s := name]) = take ?s (rt_ext_names rt) @ [name]"
    using s assms(2) by (simp add: take_Suc_conv_app_nth)
  then have "find_slot name (take (rt_next_slot rt') (rt_ext_names rt')) = Some ?s"
    using None s assms(2) by (simp add: rt' set_capability_def find_slot_append)
  with s show ?thesis by (auto simp: has_extension_def register_extension_def rt')
next
  case (Some i)
  then have "rt' = rt" "b = push_bit i cap_ext_0" "rt_next_slot rt < 8"
    using assms(1) by (auto simp: register_extension_def split: if_splits)
  with Some find_slot_less [OF Some] assms(2) show ?thesis
    by (auto simp: has_extension_def register_extension_def intro!: exI [of _ i])
qed

end
