(* ===== verification/Song_Pipe_Mode.thy ===== *)
theory Song_Pipe_Mode
  imports Song_Runtime
begin

text \<open>
  The main loop of the pipe mode (\<^verbatim>\<open>ServiceRuntime::run\<close>): no handler touches the input, every
  round consumes at least the 16 bytes of a header, and so the loop ends; which fuel it is
  given does not matter once it exceeds the number of bytes to come.
\<close>

section \<open>Handlers leave the input alone\<close>

definition input_kept :: "('s \<Rightarrow> sys) \<Rightarrow> 's \<Rightarrow> 's \<Rightarrow> bool" where
  "input_kept f s s' \<longleftrightarrow> reads (f s') = reads (f s)"

interpretation input: step_preorder "input_kept f" for f
  by unfold_locales (auto simp: input_kept_def)

abbreviation rt_input :: "('o, 'u, sys) runtime \<Rightarrow> ('o, 'u, sys) runtime \<Rightarrow> bool" where
  "rt_input \<equiv> input_kept rt_io"

abbreviation conn_input :: "('o, 'u, sys) runtime \<times> conn \<Rightarrow> ('o, 'u, sys) runtime \<times> conn \<Rightarrow> bool" where
  "conn_input \<equiv> input_kept (\<lambda>s. rt_io (fst s))"

lemma input_write_all: "keeps (input_kept (\<lambda>s. s)) (write_all data)"
  by (auto simp: keeps_def input_kept_def write_all_def split: prod.splits)

lemma input_fd_reply: "keeps (input_kept (\<lambda>s. s)) (fd_reply msg)"
  by (rule keepsI) (simp add: fd_reply_def input.keeps_pure input.keeps_sbind input_write_all keeps_apply)

lemma input_lift: "keeps (input_kept (\<lambda>s. s)) m \<Longrightarrow> keeps rt_input (lift_io m)"
  by (auto simp: keeps_def input_kept_def lift_io_def split: prod.splits) (metis snd_conv)

lemma input_send: "keeps rt_input (send_error fd_reply seq code msg)" "keeps rt_input (send_result fd_reply seq b)"
  unfolding send_error_def send_result_def
  by (intro input.keeps_sbind input.keeps_pure input_lift input_fd_reply)+

lemma input_write_all_D: "write_all data io = (r, io') \<Longrightarrow> reads io' = reads io"
  using keepsD [OF input_write_all] by (fastforce simp: input_kept_def)

lemma input_writer:
  "keeps (input_kept snd) (writer_write fd_wires chunk)"
  "keeps (input_kept snd) (writer_end fd_wires)"
  "keeps (input_kept snd) (writer_destroy fd_wires)"
proof -
  show "keeps (input_kept snd) (writer_write fd_wires chunk)"
    by (auto simp: keeps_def input_kept_def writer_write_def fd_wires_def sret_def
        split: prod.splits sum.splits option.splits dest: input_write_all_D)
  show e: "keeps (input_kept snd) (writer_end fd_wires)"
    by (auto simp: keeps_def input_kept_def writer_end_def fd_wires_def sret_def Let_def
        split: prod.splits sum.splits option.splits dest: input_write_all_D)
  have "keeps (input_kept snd) (scatch catchable (writer_end fd_wires) (\<lambda>e. sret ()))"
    by (intro input.keeps_scatch e input.keeps_pure)
  then show "keeps (input_kept snd) (writer_destroy fd_wires)"
    by (auto simp: keeps_def writer_destroy_def input.R_refl)
qed

lemma input_run_stream_ops: "keeps (input_kept snd) (run_stream_ops fd_wires ops)"
proof (induction "fd_wires" ops rule: run_stream_ops.induct)
  case (4 ops)
  have "keeps (input_kept snd) (smodify (\<lambda>(w, io). (writer_abort w, io)))"
    by (auto simp: keeps_def smodify_def input_kept_def)
  with 4 show ?case by (simp add: input.keeps_sbind)
qed (simp_all add: input.keeps_pure input.keeps_sbind input_writer)

lemma rt_input_updates [simp]:
  "rt_input rt (rt\<lparr>rt_user := u\<rparr>)" "reads io = reads (rt_io rt) \<Longrightarrow> rt_input rt (rt\<lparr>rt_user := u, rt_io := io\<rparr>)"
  "rt_input rt (rt\<lparr>rt_registry := reg, rt_user := u\<rparr>)"
  by (simp_all add: input_kept_def)

lemma input_stream_call: "keeps rt_input (stream_call fd_wires fd_reply w d mid payload)"
proof (rule keepsI)
  fix rt :: "('a, 'b, sys) runtime"
  obtain ops outcome u where d: "d mid payload (rt_user rt) = ((ops, outcome), u)" by (metis surj_pair)
  obtain r w' io where m: "sbind (run_stream_ops fd_wires ops) (\<lambda>_. slift outcome) (w, rt_io rt) = (r, w', io)"
    by (rule prod_cases3)
  have "keeps (input_kept snd) (sbind (run_stream_ops fd_wires ops) (\<lambda>_. slift outcome))"
    by (intro input.keeps_sbind input_run_stream_ops input.keeps_pure)
  from keepsD [OF this m] have io: "reads io = reads (rt_io rt)" by (simp add: input_kept_def)
  obtain r2 w2 io2 where wd: "writer_destroy fd_wires (w', io) = (r2, w2, io2)" by (rule prod_cases3)
  have "reads io2 = reads (rt_io rt)"
    using keepsD [OF input_writer(3) wd] io by (simp add: input_kept_def)
  moreover have "rt_input rt (snd (send_error fd_reply seq code e (rt\<lparr>rt_user := u, rt_io := io\<rparr>)))" for seq code e
    by (rule input.R_trans [OF _ keeps_apply [OF input_send(1)]]) (simp add: io)
  ultimately show "rt_input rt (snd (stream_call fd_wires fd_reply w d mid payload rt))"
    using io wd by (auto simp: stream_call_def d m Let_def split: sum.splits)
qed

lemma input_handle_call: "keeps rt_input (handle_call fd_wires fd_reply mk hdr payload)"
proof (rule keepsI)
  fix rt :: "('a, 'b, sys) runtime"
  have "keeps rt_input (run_dispatcher d mid b)" for d :: "'b dispatcher" and mid b
    by (auto simp: keeps_def run_dispatcher_def split: prod.splits)
  then have "keeps rt_input (scatch std_exception (sbind (run_dispatcher d mid b) (send_result fd_reply seq))
      (\<lambda>e. send_error fd_reply seq code (what e)))" for d :: "'b dispatcher" and mid b seq code
    by (intro input.keeps_scatch input.keeps_sbind input_send)
  note this [THEN keeps_apply, simp] and keeps_apply [OF input_send(1), simp] and keeps_apply [OF input_stream_call, simp]
  show "rt_input rt (snd (handle_call fd_wires fd_reply mk hdr payload rt))"
    by (auto simp: handle_call_def input.R_refl split: sum.splits option.splits)
qed

lemma input_sub_notify: "keeps (input_kept (\<lambda>s. s)) (sub_notify (on_transport fd_wires) ty oid pid val m)"
proof -
  have t: "keeps (input_kept (\<lambda>s. s)) (send_targets (on_transport fd_wires) msg ts)" for msg ts
    by (induction ts) (simp_all add: fd_wires_def input.keeps_pure input.keeps_sbind input.keeps_scatch)
  have "keeps (input_kept (\<lambda>s. s)) (case map_of m (oid, pid) of
      None \<Rightarrow> sret () | Some v \<Rightarrow> send_targets (on_transport fd_wires) msg (map snd v))" for msg
    by (simp add: t input.keeps_pure split: option.split)
  then show ?thesis unfolding sub_notify_def by (intro input.keeps_sbind input.keeps_pure)
qed

lemma input_run_notes: "keeps rt_input (run_notes fd_wires obj ns)"
proof (induction "fd_wires" obj ns rule: run_notes.induct)
  case (2 obj pid val ns)
  have n: "keeps rt_input (\<lambda>rt. case notify_property (on_transport fd_wires) (rt_subs rt) obj pid val (rt_io rt, rt_user rt) of
        (r, io, u) \<Rightarrow> (r, rt\<lparr>rt_io := io, rt_user := u\<rparr>))"
    using keepsD [OF input_sub_notify]
    by (auto simp: keeps_def input_kept_def notify_property_def split: prod.splits option.splits)
  show ?case unfolding run_notes.simps by (rule input.keeps_sbind [OF n 2])
qed (simp add: input.keeps_pure)

lemma input_object_request: "keeps rt_input (object_request fd_wires fd_reply seq code oid op)"
proof -
  have "keeps rt_input (object_op fd_wires op obj)" for op :: "'a \<Rightarrow> 'b \<Rightarrow> ('a, 'b) op_result" and obj
  proof (rule keepsI)
    fix rt :: "('a, 'b, sys) runtime"
    obtain ns r st u where op: "op (ob_state obj) (rt_user rt) = (ns, r, st, u)" by (metis prod_cases4)
    have "keeps rt_input (sbind (run_notes fd_wires obj ns) (\<lambda>_. slift r))"
      by (intro input.keeps_sbind input_run_notes input.keeps_pure)
    then have "rt_input rt (snd (sbind (run_notes fd_wires obj ns) (\<lambda>_. slift r) (rt\<lparr>rt_registry := reg, rt_user := u\<rparr>)))" for reg
      by (metis input.R_trans keeps_apply rt_input_updates(3))
    then show "rt_input rt (snd (object_op fd_wires op obj rt))"
      by (simp add: object_op_def op)
  qed
  then have b: "keeps rt_input (sbind (object_op fd_wires op obj) (send_result fd_reply seq))"
      for op :: "'a \<Rightarrow> 'b \<Rightarrow> ('a, 'b) op_result" and obj
    by (intro input.keeps_sbind input_send)
  have "keeps rt_input (\<lambda>rt. case get_object oid (rt_registry rt) of
          None \<Rightarrow> send_error fd_reply seq ec_object_not_found ''Object not found'' rt
        | Some obj \<Rightarrow> sbind (object_op fd_wires op obj) (send_result fd_reply seq) rt)"
    by (rule keepsI) (simp add: keeps_apply [OF b] keeps_apply [OF input_send(1)] split: option.split)
  then show ?thesis unfolding object_request_def by (intro input.keeps_scatch input_send)
qed

lemma input_on_rt: "keeps rt_input m \<Longrightarrow> keeps conn_input (on_rt m)"
  by (auto simp: keeps_def input_kept_def on_rt_def split: prod.splits) (metis snd_conv)

lemma input_object_handlers:
  "keeps rt_input (handle_prop_get fd_wires code fd_reply hdr payload)"
  "keeps rt_input (handle_prop_set fd_wires code fd_reply hdr payload)"
  "keeps rt_input (handle_object_call fd_wires code fd_reply hdr payload)"
  by (rule keepsI;
      auto simp: handle_prop_get_def handle_prop_set_def handle_object_call_def input.R_refl
        keeps_apply [OF input_object_request] split: sum.splits prod.splits)+

lemma input_handle_create: "keeps conn_input (handle_create fd_reply hdr payload)"
proof (rule keepsI)
  fix s :: "('a, 'b, sys) runtime \<times> conn"
  have tr: "keeps conn_input (create_tracked h p :: (('a, 'b, sys) runtime \<times> conn, i32) step)" for h p
    unfolding create_tracked_def
    by (intro input.keeps_sbind input_on_rt input.keeps_pure)
      (auto simp: keeps_def input_kept_def smodify_def split: prod.splits)
  have "keeps conn_input (scatch std_exception
          (sbind (create_tracked h p) (\<lambda>oid.
           sbind (slift (encode_object_ref \<lparr>or_type_id = och_type_id h, or_object_id = oid\<rparr> buffer_new)) (\<lambda>response.
           on_rt (send_result fd_reply (hdr_sequence_id hdr) response))))
          (\<lambda>e. on_rt (send_error fd_reply (hdr_sequence_id hdr) ec_object_creation_failed (what e)))
       :: (('a, 'b, sys) runtime \<times> conn, unit) step)" for h p
    by (intro input.keeps_scatch input.keeps_sbind tr input.keeps_pure input_on_rt input_send)
  note k = keeps_apply [OF this]
  show "conn_input s (snd (handle_create fd_reply hdr payload s))"
    by (cases "decode_object_create_header payload") (simp_all add: handle_create_def input.R_refl k split_beta)
qed

lemma input_handle_message_fd: "keeps conn_input (handle_message_fd code hdr payload fd)"
proof -
  have "keeps conn_input (handle_release payload)"
    by (rule keepsI) (auto simp: handle_release_def input_kept_def split: sum.splits prod.splits)
  moreover have "keeps conn_input (on_rt (smodify (\<lambda>rt. rt\<lparr>rt_warnings := rt_warnings rt @ [x]\<rparr>)))" for x
    by (intro input_on_rt) (auto simp: keeps_def input_kept_def smodify_def)
  ultimately show ?thesis
    unfolding handle_message_fd_def
    by (auto intro: input_on_rt input_handle_call input_object_handlers input_handle_create input.keeps_pure)
qed

section \<open>The loop ends\<close>

text \<open>The bytes that the input can still bring, whatever errors lie between them, and whether it
  ends at all.\<close>

fun volume :: "read_event list \<Rightarrow> nat" where
  "volume [] = 0"
| "volume (RdData bs # es) = length bs + volume es"
| "volume (_ # es) = volume es"

definition ends :: "read_event list \<Rightarrow> bool" where
  "ends es \<longleftrightarrow> RdData [] \<in> set es"

lemma sys_read_volume:
  assumes "sys_read n es = (r, es')"
  shows "volume es = (case r of IoData bs \<Rightarrow> length bs | _ \<Rightarrow> 0) + volume es'"
    and "ends es \<Longrightarrow> 0 < n \<Longrightarrow> r \<noteq> IoBlocks \<and> ends es'"
  using assms by (cases "(n, es)" rule: sys_read.cases; auto simp: ends_def split: if_splits)+

lemma tcp_fill_volume:
  "tcp_fill n got es = (f, es') \<Longrightarrow> volume es' \<le> volume es
    \<and> (\<forall>bs. f = Filled bs \<longrightarrow> volume es + length got = volume es' + length bs \<and> n \<le> length bs)
    \<and> (ends es \<longrightarrow> f \<noteq> FillBlocks \<and> ends es')"
proof (induction n got es rule: tcp_fill.induct)
  case (1 n got es)
  show ?case
  proof (cases "n \<le> length got")
    case True
    with 1(3) show ?thesis by (auto simp: tcp_fill.simps)
  next
    case False
    obtain r es1 where r: "sys_read (n - length got) es = (r, es1)" by fastforce
    note v = sys_read_volume [OF r]
    show ?thesis
    proof (cases r)
      case (IoData bs)
      show ?thesis
      proof (cases "bs = []")
        case True
        with 1(3) False r IoData v show ?thesis by (auto simp: tcp_fill.simps)
      next
        case ne: False
        with 1(3) False r IoData have "tcp_fill n (got @ bs) es1 = (f, es')" by (simp add: tcp_fill.simps)
        from 1(1) [OF False r [symmetric] IoData ne this] v IoData False show ?thesis by auto
      qed
    next
      case IoIntr
      with 1(3) False r have "tcp_fill n got es1 = (f, es')" by (simp add: tcp_fill.simps)
      from 1(2) [OF False r [symmetric] IoIntr this] v IoIntr False show ?thesis by auto
    next
      case (IoFail e)
      with 1(3) False r v show ?thesis by (auto simp: tcp_fill.simps)
    next
      case IoBlocks
      with 1(3) False r v show ?thesis by (auto simp: tcp_fill.simps)
    qed
  qed
qed

abbreviation to_read :: "('o, 'u, sys) runtime \<Rightarrow> nat" where
  "to_read rt \<equiv> volume (reads (rt_io rt))"

abbreviation input_ends :: "('o, 'u, sys) runtime \<Rightarrow> bool" where
  "input_ends rt \<equiv> ends (reads (rt_io rt))"

lemma read_all_input:
  assumes "lift_io (read_all n) rt = (r, rt')"
  shows "to_read rt' \<le> to_read rt" and "r = Inr (Some bs) \<Longrightarrow> n + to_read rt' \<le> to_read rt"
    and "input_ends rt \<Longrightarrow> input_ends rt' \<and> (\<exists>x. r = Inr x)"
proof -
  obtain f es where f: "tcp_fill n [] (reads (rt_io rt)) = (f, es)" by fastforce
  note v = tcp_fill_volume [OF f]
  show "to_read rt' \<le> to_read rt" and "r = Inr (Some bs) \<Longrightarrow> n + to_read rt' \<le> to_read rt"
    and "input_ends rt \<Longrightarrow> input_ends rt' \<and> (\<exists>x. r = Inr x)"
    using assms f v by (cases f; auto simp: lift_io_def read_all_def)+
qed

lemma handle_message_fd_input:
  "handle_message_fd code hdr payload fd (rt, c) = (r, rt', c') \<Longrightarrow> reads (rt_io rt') = reads (rt_io rt)"
  using keepsD [OF input_handle_message_fd, of code hdr payload fd "(rt, c)" r "(rt', c')"]
  by (simp add: input_kept_def)

text \<open>One round of the loop: its end, or the state in which the next one starts.\<close>

definition read_payload :: "header \<Rightarrow> (('o, 'u, sys) runtime, byte list option) step" where
  "read_payload hdr rt = (if hdr_payload_size hdr > 0 then lift_io (read_all (unat (hdr_payload_size hdr))) rt
     else (Inr (Some []), rt))"

definition round :: "('o, 'u) object_code \<Rightarrow> ('o, 'u, sys) runtime \<times> conn
    \<Rightarrow> (nat res \<times> ('o, 'u, sys) runtime) + ('o, 'u, sys) runtime \<times> conn" where
  "round code = (\<lambda>(rt, c). case lift_io (read_all 16) rt of
      (Inl e, rt) \<Rightarrow> Inl (Inl e, rt)
    | (Inr None, rt) \<Rightarrow> Inl (Inr 0, release_all (rt, c))
    | (Inr (Some bs), rt) \<Rightarrow>
      (case rbind (buffer_write bs buffer_new) (\<lambda>b. decode_header (reset_read b)) of
        Inl e \<Rightarrow> Inl (Inl e, rt)
      | Inr (hdr, _) \<Rightarrow>
        if hdr_magic hdr \<noteq> k_magic then Inl (Inr 1, release_all (rt, c))
        else if hdr_type hdr = mt_shutdown then Inl (Inr 0, release_all (rt, c))
        else (case read_payload hdr rt of
            (Inl e, rt) \<Rightarrow> Inl (Inl e, rt)
          | (Inr None, rt) \<Rightarrow> if hdr_type hdr = mt_init_ack then Inr (rt, c) else Inl (Inr 1, release_all (rt, c))
          | (Inr (Some payload_buf), rt) \<Rightarrow>
            if hdr_type hdr = mt_init_ack then Inr (rt, c)
            else (case (if hdr_payload_size hdr > 0
                   then rbind (buffer_write payload_buf buffer_new) (\<lambda>b. Inr (reset_read b)) else Inr buffer_new) of
              Inl e \<Rightarrow> Inl (Inl e, rt)
            | Inr payload \<Rightarrow>
              (case handle_message_fd code hdr payload 1 (rt, c) of
                (Inl e, rt, c) \<Rightarrow> Inl (Inl e, rt)
              | (Inr _, s) \<Rightarrow> Inr s)))))"

lemma run_loop_round:
  "run_loop (Suc n) code s = (case round code s of Inl x \<Rightarrow> x | Inr s' \<Rightarrow> run_loop n code s')"
  by (cases s) (auto simp: round_def read_payload_def split: prod.splits sum.splits option.splits)

lemma read_payload_input:
  assumes "read_payload hdr rt = (r, rt')"
  shows "to_read rt' \<le> to_read rt \<and> (input_ends rt \<longrightarrow> input_ends rt' \<and> (\<exists>x. r = Inr x))"
  using assms read_all_input(1,3) [of "unat (hdr_payload_size hdr)" rt r rt']
  by (auto simp: read_payload_def split: if_splits)

lemma buffer_write_returns: "buffer_write bs buffer_new \<noteq> Inl Diverges"
proof (cases "length bs \<le> k_max_capacity")
  case True
  then show ?thesis by (simp add: buffer_write_appended room_new)
next
  case False
  then show ?thesis by (auto simp: buffer_write_def ensure_capacity_def buffer_new_def k_inline_size_def k_max_capacity_eq)
qed

lemma header_bytes_returns:
  "rbind (buffer_write bs buffer_new) (\<lambda>b. decode_header (reset_read b)) \<noteq> Inl Diverges"
  "rbind (buffer_write bs buffer_new) (\<lambda>b. Inr (reset_read b)) \<noteq> Inl Diverges"
proof -
  have "buffer_write bs buffer_new = Inr b \<Longrightarrow> buffer_ok b" for b
  proof (cases "length bs \<le> k_max_capacity")
    case True
    then show "buffer_write bs buffer_new = Inr b \<Longrightarrow> buffer_ok b" by (auto simp: buffer_write_appended room_new)
  next
    case False
    then show "buffer_write bs buffer_new = Inr b \<Longrightarrow> buffer_ok b"
      by (auto simp: buffer_write_def ensure_capacity_def buffer_new_def k_inline_size_def k_max_capacity_eq split: if_splits)
  qed
  then have "buffer_write bs buffer_new = Inr b \<Longrightarrow> decode_header (reset_read b) \<noteq> Inl Diverges" for b
    using header.dec_Inl [of "reset_read b" Diverges] by auto
  then show "rbind (buffer_write bs buffer_new) (\<lambda>b. decode_header (reset_read b)) \<noteq> Inl Diverges"
    using buffer_write_returns [of bs] by (auto simp: rbind_eq_Inl)
  show "rbind (buffer_write bs buffer_new) (\<lambda>b. Inr (reset_read b)) \<noteq> Inl Diverges"
    using buffer_write_returns [of bs] by (auto simp: rbind_eq_Inl)
qed

lemma round_input:
  assumes "round code (rt, c) = Inr (rt', c')"
  shows "to_read rt' + 16 \<le> to_read rt \<and> (input_ends rt \<longrightarrow> input_ends rt')"
proof -
  obtain r1 rt1 where r1: "lift_io (read_all 16) rt = (r1, rt1)" by fastforce
  show ?thesis
    using assms read_all_input [OF r1]
    by (auto simp: round_def r1 split: sum.splits option.splits prod.splits if_splits
        dest!: read_payload_input handle_message_fd_input)
qed

section \<open>Where a handler can block\<close>

text \<open>\<open>honest I f m\<close>: from a state with the invariant \<open>I\<close>, the step \<open>m\<close> keeps it, and it only
  fails to return when the output, found in the state by \<open>f\<close>, takes no more writes.\<close>

definition honest :: "('s \<Rightarrow> bool) \<Rightarrow> ('s \<Rightarrow> sys) \<Rightarrow> ('s, 'a) step \<Rightarrow> bool" where
  "honest I f m \<longleftrightarrow> (\<forall>s. I s \<longrightarrow> I (snd (m s)) \<and> (fst (m s) = Inl Diverges \<longrightarrow> writes (f (snd (m s))) = []))"

lemma honestI:
  "(\<And>s. I s \<Longrightarrow> I (snd (m s)) \<and> (fst (m s) = Inl Diverges \<longrightarrow> writes (f (snd (m s))) = [])) \<Longrightarrow> honest I f m"
  by (simp add: honest_def)

lemma honestD:
  assumes "honest I f m" and "m s = (r, s')" and "I s"
  shows "I s'" and "r = Inl Diverges \<Longrightarrow> writes (f s') = []"
  using assms by (auto simp: honest_def dest!: spec [of _ s])

lemma honest_sbind [intro]:
  assumes "honest I f m" and "\<And>x. honest I f (g x)"
  shows "honest I f (sbind m g)"
proof (rule honestI)
  fix s assume I: "I s"
  obtain r s1 where m: "m s = (r, s1)" by (rule prod.exhaust)
  note M = honestD [OF assms(1) m I]
  show "I (snd (sbind m g s)) \<and> (fst (sbind m g s) = Inl Diverges \<longrightarrow> writes (f (snd (sbind m g s))) = [])"
    using M assms(2) by (cases r) (auto simp: sbind_apply m honest_def)
qed

lemma honest_scatch [intro]:
  assumes "\<not> p Diverges" and "honest I f m" and "\<And>e. honest I f (h e)"
  shows "honest I f (scatch p m h)"
proof (rule honestI)
  fix s assume I: "I s"
  obtain r s1 where m: "m s = (r, s1)" by (rule prod.exhaust)
  note M = honestD [OF assms(2) m I]
  show "I (snd (scatch p m h s)) \<and> (fst (scatch p m h s) = Inl Diverges \<longrightarrow> writes (f (snd (scatch p m h s))) = [])"
    using M assms(1,3) by (cases r) (auto simp: scatch_apply m honest_def)
qed

lemma honest_pure [intro]:
  "honest I f (sret x)" "r \<noteq> Inl Diverges \<Longrightarrow> honest I f (slift r)" "e \<noteq> Diverges \<Longrightarrow> honest I f (sthrow e)"
  by (simp_all add: honest_def monad_defs)

text \<open>Building a message always returns.\<close>

lemma write_returns:
  assumes "buffer_ok b"
  shows "buffer_write xs b \<noteq> Inl Diverges \<and> (\<forall>b'. buffer_write xs b = Inr b' \<longrightarrow> buffer_ok b')"
proof (cases "room (length xs) b")
  case True
  then show ?thesis by (simp add: buffer_write_appended)
next
  case False
  with assms show ?thesis
    by (auto simp: room_def buffer_write_def ensure_capacity_def buffer_ok_def)
qed

lemma rbind_returns:
  assumes "m \<noteq> Inl Diverges \<and> (\<forall>b. m = Inr b \<longrightarrow> buffer_ok b)"
    and "\<And>b. buffer_ok b \<Longrightarrow> g b \<noteq> Inl Diverges \<and> (\<forall>b'. g b = Inr b' \<longrightarrow> buffer_ok b')"
  shows "rbind m g \<noteq> Inl Diverges \<and> (\<forall>b. rbind m g = Inr b \<longrightarrow> buffer_ok b)"
  using assms by (cases m) auto

lemma encode_string_returns:
  "buffer_ok b \<Longrightarrow> encode_string v b \<noteq> Inl Diverges \<and> (\<forall>b'. encode_string v b = Inr b' \<longrightarrow> buffer_ok b')"
  unfolding encode_string_def encode_u32_def by (auto intro!: rbind_returns write_returns)

lemma encode_header_returns:
  "buffer_ok b \<Longrightarrow> encode_header h b \<noteq> Inl Diverges \<and> (\<forall>b'. encode_header h b = Inr b' \<longrightarrow> buffer_ok b')"
  unfolding encode_header_def encode_u32_def encode_u8_def encode_u16_def
  by (intro rbind_returns write_returns)

lemma framed_returns: "framed t s p \<noteq> Inl Diverges \<and> (\<forall>b. framed t s p = Inr b \<longrightarrow> buffer_ok b)"
  unfolding framed_def by (intro rbind_returns write_returns encode_header_returns buffer_ok_new)

lemma messages_return:
  "create_error_message seq code text \<noteq> Inl Diverges"
  "create_result_message seq b \<noteq> Inl Diverges"
  "create_stream_message seq b \<noteq> Inl Diverges"
  "create_stream_end_message seq \<noteq> Inl Diverges"
  "create_property_notify_message ty oid pid val \<noteq> Inl Diverges"
  "encode_object_ref ref buffer_new \<noteq> Inl Diverges"
proof -
  show "create_error_message seq code text \<noteq> Inl Diverges"
    unfolding create_error_message_def encode_u16_def
    by (intro rbind_returns [THEN conjunct1] rbind_returns write_returns encode_string_returns framed_returns buffer_ok_new)
  show "create_result_message seq b \<noteq> Inl Diverges"
    using framed_returns unfolding create_result_message_def by blast
  show "create_stream_message seq b \<noteq> Inl Diverges"
    unfolding create_stream_message_def
    by (rule rbind_returns [THEN conjunct1, OF encode_header_returns]) (auto simp: write_returns)
  show "create_stream_end_message seq \<noteq> Inl Diverges"
    unfolding create_stream_end_message_def header_only_def using encode_header_returns [OF buffer_ok_new] by blast
  show "create_property_notify_message ty oid pid val \<noteq> Inl Diverges"
    unfolding create_property_notify_message_def encode_property_set_def encode_property_header_def
      encode_u32_def encode_i32_def encode_u16_def
    by (intro rbind_returns [THEN conjunct1] rbind_returns write_returns framed_returns buffer_ok_new)
  show "encode_object_ref ref buffer_new \<noteq> Inl Diverges"
    unfolding encode_object_ref_def encode_u32_def encode_i32_def
    by (intro rbind_returns [THEN conjunct1] rbind_returns write_returns buffer_ok_new)
qed

text \<open>The output.\<close>

lemma write_all_loop_blocks: "write_all_loop ds es out = (Inl Diverges, es', out') \<Longrightarrow> es' = []"
  by (induction ds es out rule: write_all_loop.induct) (auto split: if_splits)

lemma honest_write_all: "honest (\<lambda>_. True) (\<lambda>s. s) (write_all data)"
  by (auto simp: honest_def write_all_def split: prod.splits dest: write_all_loop_blocks)

lemma honest_fd_reply: "honest (\<lambda>_. True) (\<lambda>s. s) (fd_reply msg)"
proof -
  have "fd_reply msg = sbind (write_all (contents msg)) (\<lambda>_. sret ())" by (simp add: fun_eq_iff fd_reply_def)
  then show ?thesis by (simp add: honest_sbind honest_write_all honest_pure)
qed

lemma write_all_blocks: "write_all data io = (Inl Diverges, io') \<Longrightarrow> writes io' = []"
  using honestD(2) [OF honest_write_all] by fastforce

lemma honest_writer:
  "honest (\<lambda>_. True) snd (writer_write fd_wires chunk)"
  "honest (\<lambda>_. True) snd (writer_end fd_wires)"
  "honest (\<lambda>_. True) snd (writer_destroy fd_wires)"
proof -
  show "honest (\<lambda>_. True) snd (writer_write fd_wires chunk)"
    by (auto simp: honest_def writer_write_def fd_wires_def sret_def messages_return
        split: prod.splits sum.splits option.splits if_splits dest: write_all_blocks)
  show e: "honest (\<lambda>_. True) snd (writer_end fd_wires)"
    by (auto simp: honest_def writer_end_def fd_wires_def sret_def Let_def messages_return
        split: prod.splits sum.splits option.splits if_splits dest: write_all_blocks)
  have "honest (\<lambda>_. True) snd (scatch catchable (writer_end fd_wires) (\<lambda>e. sret ()))"
    by (intro honest_scatch e honest_pure) simp
  then show "honest (\<lambda>_. True) snd (writer_destroy fd_wires)"
    by (auto simp: honest_def writer_destroy_def)
qed

lemma honest_run_stream_ops: "honest (\<lambda>_. True) snd (run_stream_ops fd_wires ops)"
proof (induction ops)
  case (Cons op ops)
  have "honest (\<lambda>_. True) snd (smodify (\<lambda>(w, io). (writer_abort w, io)))"
    by (auto simp: honest_def smodify_def)
  with Cons show ?case by (cases op) (simp_all add: honest_sbind honest_writer)
qed (simp add: honest_pure)


section \<open>Code that returns\<close>

text \<open>The service's own code never hangs: the dispatchers, the factories, the virtual methods, and
  the notification callbacks of the objects there are and of those the factories make.\<close>

definition callback_returns :: "('o, 'u) object \<Rightarrow> bool" where
  "callback_returns obj \<longleftrightarrow> (\<forall>cb ty oid pid v u. ob_callback obj = Some cb \<longrightarrow> fst (cb ty oid pid v u) \<noteq> Inl Diverges)"

definition factory_returns :: "('o, 'u) factory \<Rightarrow> bool" where
  "factory_returns f \<longleftrightarrow> (\<forall>c args u. fst (f c args u) \<noteq> Inl Diverges
     \<and> (\<forall>obj. fst (f c args u) = Inr (Some obj) \<longrightarrow> callback_returns obj))"

definition op_returns :: "('o \<Rightarrow> 'u \<Rightarrow> ('o, 'u) op_result) \<Rightarrow> bool" where
  "op_returns op \<longleftrightarrow> (\<forall>st u. fst (snd (op st u)) \<noteq> Inl Diverges)"

definition code_returns :: "('o, 'u) object_code \<Rightarrow> ('o, 'u, 'io) runtime \<Rightarrow> bool" where
  "code_returns code rt \<longleftrightarrow>
     (\<forall>sid d m b u. map_of (rt_dispatchers rt) sid = Some d \<longrightarrow> fst (d m b u) \<noteq> Inl Diverges)
   \<and> (\<forall>sid d m b u. map_of (rt_stream_dispatchers rt) sid = Some d \<longrightarrow> snd (fst (d m b u)) \<noteq> Inl Diverges)
   \<and> (\<forall>ty f. map_of (factories (rt_registry rt)) ty = Some f \<longrightarrow> factory_returns f)
   \<and> (\<forall>oid obj. get_object oid (rt_registry rt) = Some obj \<longrightarrow> callback_returns obj)
   \<and> (\<forall>p. op_returns (oc_prop_get code p)) \<and> (\<forall>p v. op_returns (oc_prop_set code p v))
   \<and> (\<forall>m v. op_returns (oc_dispatch code m v))"

lemma code_returns_updates [simp]:
  "code_returns code (rt\<lparr>rt_io := io\<rparr>) = code_returns code rt"
  "code_returns code (rt\<lparr>rt_user := u\<rparr>) = code_returns code rt"
  "code_returns code (rt\<lparr>rt_warnings := ws\<rparr>) = code_returns code rt"
  by (simp_all add: code_returns_def)

lemma code_returns_object:
  assumes "code_returns code rt" and "callback_returns obj"
  shows "code_returns code (rt\<lparr>rt_registry := add_object oid obj (rt_registry rt)\<rparr>)"
  using assms by (auto simp: code_returns_def add_object_def get_object_def update_conv')

abbreviation rt_honest :: "('o, 'u) object_code \<Rightarrow> (('o, 'u, sys) runtime, 'a) step \<Rightarrow> bool" where
  "rt_honest code \<equiv> honest (code_returns code) rt_io"

lemma honest_lift_io: "honest (\<lambda>_. True) (\<lambda>s. s) m \<Longrightarrow> rt_honest code (lift_io m)"
  by (auto simp: honest_def lift_io_def split: prod.splits) (metis fst_conv snd_conv)

lemma honest_send:
  "rt_honest code (send_error fd_reply seq ec text)" "rt_honest code (send_result fd_reply seq b)"
  unfolding send_error_def send_result_def
  by (intro honest_sbind honest_pure messages_return honest_lift_io honest_fd_reply)+

lemma honest_stream_call:
  fixes code :: "('o, 'u) object_code"
  assumes "\<And>m b u. snd (fst (d m b u)) \<noteq> Inl Diverges"
  shows "rt_honest code (stream_call fd_wires fd_reply w d mid payload)"
proof (rule honestI)
  fix rt :: "('o, 'u, sys) runtime"
  assume I: "code_returns code rt"
  obtain ops outcome u where d: "d mid payload (rt_user rt) = ((ops, outcome), u)" by (metis surj_pair)
  have "outcome \<noteq> Inl Diverges" using assms [of mid payload "rt_user rt"] d by simp
  then have h: "honest (\<lambda>_. True) snd (sbind (run_stream_ops fd_wires ops) (\<lambda>_. slift outcome))"
    by (intro honest_sbind honest_run_stream_ops honest_pure)
  obtain r w' io where m: "sbind (run_stream_ops fd_wires ops) (\<lambda>_. slift outcome) (w, rt_io rt) = (r, w', io)"
    by (rule prod_cases3)
  have io: "r = Inl Diverges \<Longrightarrow> writes io = []" using honestD(2) [OF h m] by simp
  obtain r2 w2 io2 where wd: "writer_destroy fd_wires (w', io) = (r2, w2, io2)" by (rule prod_cases3)
  have io2: "r2 = Inl Diverges \<Longrightarrow> writes io2 = []" using honestD(2) [OF honest_writer(3) wd] by simp
  let ?err = "\<lambda>e. send_error fd_reply (w_sequence_id w') ec_unknown_method (what e) (rt\<lparr>rt_user := u, rt_io := io\<rparr>)"
  have sent: "code_returns code (snd (?err e)) \<and> (fst (?err e) = Inl Diverges \<longrightarrow> writes (rt_io (snd (?err e))) = [])" for e
    using honest_send(1) [of code] I unfolding honest_def by simp
  show "code_returns code (snd (stream_call fd_wires fd_reply w d mid payload rt))
    \<and> (fst (stream_call fd_wires fd_reply w d mid payload rt) = Inl Diverges
      \<longrightarrow> writes (rt_io (snd (stream_call fd_wires fd_reply w d mid payload rt))) = [])"
    using I io io2 wd sent
    by (auto simp: stream_call_def d m Let_def writer_abort_def split: sum.splits)
qed


lemma honest_handle_call:
  fixes code :: "('o, 'u) object_code"
  assumes payload: "buffer_ok payload"
  shows "rt_honest code (handle_call fd_wires fd_reply mk hdr payload)"
proof (rule honestI)
  fix rt :: "('o, 'u, sys) runtime" assume I: "code_returns code rt"
  let ?seq = "hdr_sequence_id hdr"
  have dec: "decode_method_call_header payload \<noteq> Inl Diverges"
    using call_header.dec_Inl [OF payload] by auto
  have plain: "rt_honest code (scatch std_exception (sbind (run_dispatcher d mid b) (send_result fd_reply ?seq))
      (\<lambda>e. send_error fd_reply ?seq ec_unknown_method (what e)))"
    if "map_of (rt_dispatchers rt) sid = Some d" for sid d mid b
  proof -
    have "fst (d m b u) \<noteq> Inl Diverges" for m b u using I that by (auto simp: code_returns_def)
    then have "rt_honest code (run_dispatcher d mid b)"
      by (auto simp: honest_def run_dispatcher_def split: prod.splits) (metis fst_conv)
    then show ?thesis by (intro honest_scatch honest_sbind honest_send) simp_all
  qed
  have stream: "rt_honest code (stream_call fd_wires fd_reply w d mid b)"
    if "map_of (rt_stream_dispatchers rt) sid = Some d" for sid d w mid b
    using I that by (intro honest_stream_call) (auto simp: code_returns_def)
  show "code_returns code (snd (handle_call fd_wires fd_reply mk hdr payload rt))
    \<and> (fst (handle_call fd_wires fd_reply mk hdr payload rt) = Inl Diverges
      \<longrightarrow> writes (rt_io (snd (handle_call fd_wires fd_reply mk hdr payload rt))) = [])"
    using I dec plain [unfolded honest_def] stream [unfolded honest_def] honest_send(1) [of code, unfolded honest_def]
    by (auto simp: handle_call_def split: sum.splits option.splits)
qed

lemma honest_run_notes:
  assumes "callback_returns obj"
  shows "rt_honest code (run_notes fd_wires obj ns)"
proof (induction ns)
  case Nil
  then show ?case by (simp add: honest_pure)
next
  case (Cons a ns)
  obtain pid val where a: "a = (pid, val)" by fastforce
  have t: "send_targets (on_transport fd_wires) msg ts s = (Inr (), s)" for msg ts s
    by (induction ts) (simp_all add: fd_wires_def sret_def sbind_apply scatch_apply)
  have n: "fst (sub_notify (on_transport fd_wires) ty oid pid val m s) \<noteq> Inl Diverges" for ty oid m s
    using messages_return(5) [of ty oid pid val]
    by (auto simp: sub_notify_def sbind_apply slift_def sret_def t split: sum.splits option.splits)
  have "rt_honest code (\<lambda>rt. case notify_property (on_transport fd_wires) (rt_subs rt) obj pid val (rt_io rt, rt_user rt) of
        (r, io, u) \<Rightarrow> (r, rt\<lparr>rt_io := io, rt_user := u\<rparr>))"
    using n assms
    by (auto simp: honest_def notify_property_def callback_returns_def split: prod.splits option.splits if_splits)
      (metis fst_conv)+
  then show ?case using Cons by (simp add: a honest_sbind)
qed

lemma honest_object_request:
  fixes code :: "('o, 'u) object_code"
  assumes op: "op_returns op"
  shows "rt_honest code (object_request fd_wires fd_reply seq ec oid op)"
proof -
  have "rt_honest code (\<lambda>rt. case get_object oid (rt_registry rt) of
          None \<Rightarrow> send_error fd_reply seq ec_object_not_found ''Object not found'' rt
        | Some obj \<Rightarrow> sbind (object_op fd_wires op obj) (send_result fd_reply seq) rt)"
    (is "rt_honest code ?m")
  proof (rule honestI)
    fix rt :: "('o, 'u, sys) runtime" assume I: "code_returns code rt"
    show "code_returns code (snd (?m rt)) \<and> (fst (?m rt) = Inl Diverges \<longrightarrow> writes (rt_io (snd (?m rt))) = [])"
    proof (cases "get_object oid (rt_registry rt)")
      case None
      then show ?thesis using I honest_send(1) [of code, unfolded honest_def] by simp
    next
      case (Some obj)
      then have cb: "callback_returns obj" using I by (auto simp: code_returns_def)
      obtain ns r st u where o: "op (ob_state obj) (rt_user rt) = (ns, r, st, u)" by (metis prod_cases4)
      then have "r \<noteq> Inl Diverges" using op unfolding op_returns_def by (metis fst_conv snd_conv)
      then have h: "rt_honest code (sbind (sbind (run_notes fd_wires obj ns) (\<lambda>_. slift r)) (send_result fd_reply seq))"
        by (intro honest_sbind honest_run_notes cb honest_pure honest_send)
      let ?rt = "rt\<lparr>rt_registry := add_object (ob_id obj) (obj\<lparr>ob_state := st\<rparr>) (rt_registry rt), rt_user := u\<rparr>"
      have "callback_returns (obj\<lparr>ob_state := st\<rparr>)" using cb by (simp add: callback_returns_def)
      then have "code_returns code ?rt" using code_returns_object [OF I, of "obj\<lparr>ob_state := st\<rparr>"] by simp
      moreover have "?m rt = sbind (sbind (run_notes fd_wires obj ns) (\<lambda>_. slift r)) (send_result fd_reply seq) ?rt"
        by (simp add: Some sbind_def object_op_def o)
      ultimately show ?thesis using h by (simp add: honest_def)
    qed
  qed
  then show ?thesis unfolding object_request_def by (intro honest_scatch honest_send) simp_all
qed


abbreviation conn_honest :: "('o, 'u) object_code \<Rightarrow> (('o, 'u, sys) runtime \<times> conn, 'a) step \<Rightarrow> bool" where
  "conn_honest code \<equiv> honest (\<lambda>s. code_returns code (fst s)) (\<lambda>s. rt_io (fst s))"

lemma honest_on_rt: "rt_honest code m \<Longrightarrow> conn_honest code (on_rt m)"
  by (auto simp: honest_def on_rt_def split: prod.splits)

lemma honest_object_handlers:
  fixes code :: "('o, 'u) object_code"
  assumes payload: "buffer_ok payload"
  shows "rt_honest code (handle_prop_get fd_wires code fd_reply hdr payload)"
    and "rt_honest code (handle_prop_set fd_wires code fd_reply hdr payload)"
    and "rt_honest code (handle_object_call fd_wires code fd_reply hdr payload)"
proof -
  have dec: "decode_property_header payload \<noteq> Inl Diverges" "decode_object_method_header payload \<noteq> Inl Diverges"
    using property_hdr.dec_Inl [OF payload] method_header.dec_Inl [OF payload] by auto
  have req: "code_returns code (snd (object_request fd_wires fd_reply seq ec oid op rt))
      \<and> (fst (object_request fd_wires fd_reply seq ec oid op rt) = Inl Diverges
        \<longrightarrow> writes (rt_io (snd (object_request fd_wires fd_reply seq ec oid op rt))) = [])"
    if "code_returns code rt" "op_returns op" for seq ec oid op and rt :: "('o, 'u, sys) runtime"
    using honest_object_request [OF that(2), of code] that(1) by (simp add: honest_def)
  have ops: "op_returns (oc_prop_get code p)" "op_returns (oc_prop_set code p v)" "op_returns (oc_dispatch code p v)"
    if "code_returns code rt" for p v and rt :: "('o, 'u, sys) runtime"
    using that by (simp_all add: code_returns_def)
  show "rt_honest code (handle_prop_get fd_wires code fd_reply hdr payload)"
    using dec by (intro honestI) (auto simp: handle_prop_get_def req ops split: sum.splits)
  show "rt_honest code (handle_prop_set fd_wires code fd_reply hdr payload)"
    using dec by (intro honestI) (auto simp: handle_prop_set_def req ops split: sum.splits)
  show "rt_honest code (handle_object_call fd_wires code fd_reply hdr payload)"
    using dec by (intro honestI) (auto simp: handle_object_call_def req ops split: sum.splits)
qed

lemma create_object_returns:
  assumes "code_returns code rt" and "create_object ty k args (rt_registry rt, rt_user rt) = (r, reg, u)"
  shows "r \<noteq> Inl Diverges \<and> code_returns code (rt\<lparr>rt_registry := reg, rt_user := u\<rparr>)"
proof (cases r)
  case (Inl e)
  from create_object_Inl [OF assms(2) [unfolded Inl]] have "reg = rt_registry rt" .
  moreover have "e \<noteq> Diverges"
  proof (cases "map_of (factories (rt_registry rt)) ty")
    case None
    then show ?thesis using assms(2) Inl by (auto simp: create_object_def)
  next
    case (Some f)
    then have "fst (f k args (rt_user rt)) \<noteq> Inl Diverges"
      using assms(1) by (auto simp: code_returns_def factory_returns_def)
    then show ?thesis using assms(2) Inl Some
      by (auto simp: create_object_def take_id_def split: prod.splits sum.splits option.splits if_splits)
  qed
  ultimately show ?thesis using Inl assms(1) by simp
next
  case (Inr oid)
  with assms(2) obtain f obj r1 where f: "map_of (factories (rt_registry rt)) ty = Some f"
    "f k args (rt_user rt) = (Inr (Some obj), u)" "take_id (rt_registry rt) = (Inr oid, r1)"
    "reg = add_object oid (object_init oid ty obj) r1"
    by (auto elim: create_object_Inr)
  have "factory_returns f" using f(1) assms(1) by (auto simp: code_returns_def)
  then have "callback_returns obj" using f(2) unfolding factory_returns_def by (metis fst_conv)
  then have "callback_returns (object_init oid ty obj)" by (simp add: callback_returns_def object_init_def)
  moreover have "factories r1 = factories (rt_registry rt)" "objects r1 = objects (rt_registry rt)"
    using f(3) by (auto simp: take_id_def split: if_splits)
  ultimately show ?thesis
    using Inr assms(1) f(4) by (auto simp: code_returns_def add_object_def get_object_def update_conv')
qed

lemma honest_handle_create:
  fixes code :: "('o, 'u) object_code"
  assumes payload: "buffer_ok payload"
  shows "conn_honest code (handle_create fd_reply hdr payload)"
proof -
  have "rt_honest code (\<lambda>rt. case create_object (och_type_id h) (och_constructor_id h) p
          (rt_registry rt, rt_user rt) of (r, reg, u) \<Rightarrow> (r, rt\<lparr>rt_registry := reg, rt_user := u\<rparr>))" for h p
    by (auto simp: honest_def split: prod.splits dest: create_object_returns)
  then have tr: "conn_honest code (create_tracked h p)" for h p
    unfolding create_tracked_def
    by (intro honest_sbind honest_on_rt honest_pure) (auto simp: honest_def smodify_def)
  have "conn_honest code (scatch std_exception
          (sbind (create_tracked h p) (\<lambda>oid.
           sbind (slift (encode_object_ref \<lparr>or_type_id = och_type_id h, or_object_id = oid\<rparr> buffer_new)) (\<lambda>response.
           on_rt (send_result fd_reply (hdr_sequence_id hdr) response))))
          (\<lambda>e. on_rt (send_error fd_reply (hdr_sequence_id hdr) ec_object_creation_failed (what e))))" for h p
    by (intro honest_scatch honest_sbind tr honest_pure messages_return honest_on_rt honest_send) simp
  moreover have "decode_object_create_header payload \<noteq> Inl Diverges"
    using create_header.dec_Inl [OF payload] by auto
  ultimately show ?thesis
    by (intro honestI) (auto simp: handle_create_def honest_def split: sum.splits prod.splits)
qed

lemma code_returns_release:
  "code_returns code rt \<Longrightarrow> code_returns code (rt\<lparr>rt_registry := registry_release oid (rt_registry rt)\<rparr>)"
proof -
  have "callback_returns obj'" if "code_returns code rt" "get_object j (registry_release oid (rt_registry rt)) = Some obj'" for j obj'
  proof (cases "get_object oid (rt_registry rt)")
    case None
    then show ?thesis using that by (auto simp: registry_release_def get_object_def code_returns_def)
  next
    case (Some obj)
    then have "callback_returns obj" using that(1) by (auto simp: code_returns_def)
    then have "callback_returns (obj\<lparr>ob_refs := n\<rparr>)" for n by (simp add: callback_returns_def)
    moreover have "\<And>j obj. map_of (objects (rt_registry rt)) j = Some obj \<Longrightarrow> callback_returns obj"
      using that(1) by (auto simp: code_returns_def get_object_def)
    ultimately show ?thesis
      using that(2) Some
      by (cases "ob_refs obj = 1") (auto simp: registry_release_def get_object_def object_release_def add_object_def update_conv' delete_conv'
          split: if_splits)
  qed
  then show "code_returns code rt \<Longrightarrow> code_returns code (rt\<lparr>rt_registry := registry_release oid (rt_registry rt)\<rparr>)"
    by (auto simp: code_returns_def factories_unchanged)
qed

lemma honest_handle_message_fd:
  fixes code :: "('o, 'u) object_code"
  assumes payload: "buffer_ok payload"
  shows "conn_honest code (handle_message_fd code hdr payload fd)"
proof -
  have "decode_object_release_header payload \<noteq> Inl Diverges"
    using release_header.dec_Inl [OF payload] by auto
  then have "conn_honest code (handle_release payload)"
    by (intro honestI) (auto simp: handle_release_def code_returns_release split: sum.splits)
  moreover have "conn_honest code (on_rt (smodify (\<lambda>rt. rt\<lparr>rt_warnings := rt_warnings rt @ [x]\<rparr>)))" for x
    by (intro honest_on_rt) (auto simp: honest_def smodify_def)
  ultimately show ?thesis
    unfolding handle_message_fd_def
    by (auto intro: honest_on_rt honest_handle_call honest_object_handlers honest_handle_create honest_pure payload)
qed

lemma code_returns_lift_io: "lift_io m rt = (r, rt') \<Longrightarrow> code_returns code rt' = code_returns code rt"
  by (auto simp: lift_io_def split: prod.splits)

lemma payload_ok:
  assumes "rbind (buffer_write bs buffer_new) (\<lambda>b. Inr (reset_read b)) = Inr payload"
  shows "buffer_ok payload"
proof -
  obtain b where "buffer_write bs buffer_new = Inr b" "payload = reset_read b" using assms by (auto simp: rbind_eq_Inr)
  with write_returns [OF buffer_ok_new, of bs] show ?thesis by auto
qed

text \<open>A round keeps the code's promise; and when it does not return, the input has not ended, or
  the output takes no more writes.\<close>

lemma round_blocks:
  assumes "code_returns code rt"
  shows "round code (rt, c) = Inr (rt', c') \<Longrightarrow> code_returns code rt'"
    and "round code (rt, c) = Inl (Inl Diverges, rt') \<Longrightarrow> input_ends rt \<Longrightarrow> writes (rt_io rt') = []"
proof -
  obtain r1 rt1 where r1: "lift_io (read_all 16) rt = (r1, rt1)" by fastforce
  have I1: "code_returns code rt1" using assms code_returns_lift_io [OF r1] by simp
  have I2: "code_returns code rt2" if "read_payload hdr rt1 = (r, rt2)" for hdr r rt2
    using that I1 by (auto simp: read_payload_def split: if_splits dest!: code_returns_lift_io [where code = code])
  have h: "code_returns code rt3 \<and> (r = Inl Diverges \<longrightarrow> writes (rt_io rt3) = [])"
    if "read_payload hdr rt1 = (q, rt2)" "handle_message_fd code hdr payload 1 (rt2, c) = (r, rt3, c3)" "buffer_ok payload"
    for hdr q rt2 payload r rt3 c3
    using honestD [OF honest_handle_message_fd [OF that(3)] that(2)] I2 [OF that(1)] by simp
  show "round code (rt, c) = Inr (rt', c') \<Longrightarrow> code_returns code rt'"
    using I1 I2 h by (auto simp: round_def r1 payload_ok split: sum.splits option.splits prod.splits if_splits)
  show "round code (rt, c) = Inl (Inl Diverges, rt') \<Longrightarrow> input_ends rt \<Longrightarrow> writes (rt_io rt') = []"
    using read_all_input [OF r1] h
    by (auto simp: round_def r1 header_bytes_returns payload_ok split: sum.splits option.splits prod.splits if_splits
        dest!: read_payload_input)
qed

section \<open>Properties\<close>

text \<open>Claim C35. The pipe mode's loop returns. Whatever the host writes, in whatever pieces and with
  whatever read errors: a fuel of one round for every 16 bytes of input, and one more, is enough,
  since any more gives the same result. And if the service's own code returns (its dispatchers,
  its factories, the virtual methods of its objects and their callbacks), then once the input
  ends the loop ends too, unless the host has stopped taking output: where the loop hangs, it
  hangs in a write, with no event of the output left.\<close>

theorem pipe_loop_returns:
  assumes "to_read rt div 16 < fuel"
  shows "(to_read rt div 16 < fuel' \<longrightarrow> run_loop fuel' code (rt, c) = run_loop fuel code (rt, c))
    \<and> (code_returns code rt \<longrightarrow> ends (reads (rt_io rt)) \<longrightarrow> fst (run_loop fuel code (rt, c)) = Inl Diverges
        \<longrightarrow> writes (rt_io (snd (run_loop fuel code (rt, c)))) = [])"
  using assms
proof (induction fuel arbitrary: fuel' rt c)
  case 0
  then show ?case by simp
next
  case (Suc fuel)
  show ?case
  proof (cases "round code (rt, c)")
    case (Inl x)
    then obtain r rt' where x: "x = (r, rt')" by fastforce
    have "run_loop fuel' code (rt, c) = x" if "to_read rt div 16 < fuel'"
      using that Inl by (cases fuel') (simp_all add: run_loop_round)
    then show ?thesis
      using Inl x round_blocks(2) [of code rt c rt'] by (auto simp: run_loop_round)
  next
    case (Inr s)
    then obtain rt' c' where s: "round code (rt, c) = Inr (rt', c')" by (cases s) auto
    note next_round = round_input [OF s]
    then have less: "to_read rt' div 16 < to_read rt div 16" by (auto simp: less_eq_div_iff_mult_less_eq)
    have "run_loop fuel' code (rt, c) = run_loop (Suc fuel) code (rt, c)" if enough: "to_read rt div 16 < fuel'"
    proof -
      obtain n where n: "fuel' = Suc n" using enough by (cases fuel') auto
      show ?thesis
        using Suc.IH [of rt' n c'] Suc.prems less enough n by (simp add: run_loop_round s)
    qed
    then show ?thesis
      using Suc.IH [of rt' fuel c'] Suc.prems less next_round round_blocks(1) [OF _ s] by (simp add: run_loop_round s)
  qed
qed

lemma no_code_returns:
  "code_returns no_code (runtime_new () io)" "code_returns code (rt\<lparr>rt_io := io'\<rparr>) = code_returns code rt"
  by (simp_all add: code_returns_def no_code_def op_returns_def runtime_new_def get_object_def registry_new_def)

text \<open>A service whose code returns, a request to shut down and then the end of the input: the loop
  cannot hang while the host takes output, and indeed returns with exit code 0.\<close>

theorem pipe_loop_returns_witness:
  "let rt = (runtime_new () wide_fd :: (unit, unit, sys) runtime)
       \<lparr>rt_io := wide_fd\<lparr>reads := [RdData (wire_message mt_shutdown 0 []), RdData []]\<rparr>\<rparr>
   in run_loop 9 no_code (rt, conn_new) = run_loop 2 no_code (rt, conn_new)
     \<and> code_returns no_code rt \<and> ends (reads (rt_io rt))
     \<and> (fst (run_loop 9 no_code (rt, conn_new)) = Inl Diverges \<longrightarrow> writes (rt_io (snd (run_loop 9 no_code (rt, conn_new)))) = [])
     \<and> fst (run_loop 9 no_code (rt, conn_new)) = Inr 0"
proof -
  let ?io = "wide_fd\<lparr>reads := [RdData (wire_message mt_shutdown 0 []), RdData []]\<rparr>"
  let ?rt = "(runtime_new () wide_fd :: (unit, unit, sys) runtime)\<lparr>rt_io := ?io\<rparr>"
  have "to_read ?rt div 16 < 2" and nine: "to_read ?rt div 16 < 9" by simp_all
  from pipe_loop_returns [OF this(1), of 9 no_code conn_new] nine
  have eq: "run_loop 9 no_code (?rt, conn_new) = run_loop 2 no_code (?rt, conn_new)" by blast
  have "wire_message mt_shutdown 0 [] \<noteq> []" by (rule wire_message_nonempty)
  then have r: "lift_io (read_all 16) ?rt = (Inr (Some (wire_message mt_shutdown 0 [])), ?rt\<lparr>rt_io := ?io\<lparr>reads := [RdData []]\<rparr>\<rparr>)"
    by (simp add: lift_io_def read_all_def tcp_fill.simps)
  have m: "buffer_write (wire_message mt_shutdown 0 []) buffer_new = Inr (message_buffer mt_shutdown 0 [])"
    by (simp add: buffer_write_appended room_new message_buffer_def k_max_capacity_eq)
  have d: "decode_header (reset_read (message_buffer mt_shutdown 0 [])) = Inr (plain_header mt_shutdown 0 0,
      advance 16 (reset_read (message_buffer mt_shutdown 0 [])))"
    by (subst decode_header_message [where p = "[]"]) (simp_all add: k_max_capacity_eq)
  have "fst (run_loop 2 no_code (?rt, conn_new)) = Inr 0"
    by (simp add: numeral_2_eq_2 r m d)
  moreover have "code_returns no_code ?rt" "ends (reads (rt_io ?rt))"
    by (simp_all add: no_code_returns ends_def)
  moreover from this pipe_loop_returns [OF nine, of 9 no_code conn_new]
  have "fst (run_loop 9 no_code (?rt, conn_new)) = Inl Diverges \<longrightarrow> writes (rt_io (snd (run_loop 9 no_code (?rt, conn_new)))) = []"
    by blast
  moreover note \<open>fst (run_loop 2 no_code (?rt, conn_new)) = Inr 0\<close>
  ultimately show ?thesis unfolding Let_def by (simp only: eq)
qed

end
