(* ===== verification/Song_Security.thy ===== *)
theory Song_Security
  imports Song_Transport
begin

text \<open>
  \<^verbatim>\<open>include/song/security.hpp\<close> and \<^verbatim>\<open>src/security.cpp\<close>: the security configuration, the
  truncated HMAC and the transport that authenticates every message with it. HMAC-SHA256 is
  the cryptographic library's: it is the parameter \<open>mac\<close>, of which only the length of its
  result is assumed, where anything is.
\<close>

unbundle bit_operations_syntax

section \<open>Configuration\<close>

datatype security_level = SecNone | SharedSecret | Tls

record security_config =
  sc_key :: string
  sc_level :: security_level

definition config_new :: security_config where
  "config_new = \<lparr>sc_key = [], sc_level = SecNone\<rparr>"

definition config_with_key :: "string \<Rightarrow> security_config" where
  "config_with_key key = \<lparr>sc_key = key, sc_level = SharedSecret\<rparr>"

definition config_is_enabled :: "security_config \<Rightarrow> bool" where
  "config_is_enabled c \<longleftrightarrow> sc_level c \<noteq> SecNone"

definition config_set_level :: "security_level \<Rightarrow> security_config \<Rightarrow> security_config" where
  "config_set_level l c = c\<lparr>sc_level := l\<rparr>"

definition config_set_key :: "string \<Rightarrow> security_config \<Rightarrow> security_config" where
  "config_set_key key c =
    (let c = c\<lparr>sc_key := key\<rparr> in if sc_key c \<noteq> [] then c\<lparr>sc_level := SharedSecret\<rparr> else c)"

definition config_disable :: "security_config \<Rightarrow> security_config" where
  "config_disable c = c\<lparr>sc_level := SecNone\<rparr>"

section \<open>Tags\<close>

definition k_hmac_tag_size :: nat where
  "k_hmac_tag_size = 8"

type_synonym mac = "byte list \<Rightarrow> byte list \<Rightarrow> byte list"

definition compute_hmac :: "mac \<Rightarrow> string \<Rightarrow> byte list \<Rightarrow> byte list" where
  "compute_hmac mac key data = take k_hmac_tag_size (mac (bytes_of key) data)"

text \<open>The comparison accumulates the differences of all eight bytes.\<close>

definition verify_hmac :: "mac \<Rightarrow> string \<Rightarrow> byte list \<Rightarrow> byte list \<Rightarrow> bool" where
  "verify_hmac mac key data tag =
    (let computed = compute_hmac mac key data
     in foldl (\<lambda>result i. result OR (computed ! i XOR tag ! i)) 0 [0..<k_hmac_tag_size] = 0)"

section \<open>The transport\<close>

text \<open>The \<^verbatim>\<open>memcpy\<close> of a 32-bit integer into a buffer at an offset, and out of it. The code
  reads storage past the end of a short message; such a read has no meaning here.\<close>

definition patch_u32 :: "nat \<Rightarrow> u32 \<Rightarrow> byte list \<Rightarrow> byte list" where
  "patch_u32 off v bs = take off bs @ le_bytes 4 v @ drop (off + 4) bs"

definition raw_bytes :: "nat \<Rightarrow> nat \<Rightarrow> byte list \<Rightarrow> byte list res" where
  "raw_bytes off n bs = (if off + n \<le> length bs then Inr (take n (drop off bs))
     else Inl (Undefined ''read past the end of the message''))"

definition secure_message :: "mac \<Rightarrow> security_config \<Rightarrow> buffer \<Rightarrow> buffer res" where
  "secure_message mac config msg =
    (let tag = compute_hmac mac (sc_key config) (contents msg) in
     rbind (raw_bytes 8 4 (contents msg)) (\<lambda>raw.
     let payload_size = of_le raw :: u32 in
     if unat payload_size > k_max_payload_size - k_hmac_tag_size
     then Inl (SecurityError ''payload too large for HMAC authentication'')
     else
     rbind (raw_bytes 0 16 (contents msg)) (\<lambda>hdr.
     rbind (buffer_write hdr buffer_new) (\<lambda>secure_msg.
     let new_payload_size = payload_size + word_of_nat k_hmac_tag_size;
         secure_msg = secure_msg\<lparr>contents := patch_u32 8 new_payload_size (contents secure_msg)\<rparr> in
     rbind (if payload_size > 0
       then rbind (raw_bytes 16 (unat payload_size) (contents msg)) (\<lambda>payload. buffer_write payload secure_msg)
       else Inr secure_msg) (\<lambda>secure_msg.
     buffer_write tag secure_msg)))))"

definition secure_send :: "mac \<Rightarrow> (buffer \<Rightarrow> ('s, unit) step) option \<Rightarrow> security_config
    \<Rightarrow> buffer \<Rightarrow> ('s, unit) step" where
  "secure_send mac inner config msg = (case inner of
      None \<Rightarrow> sthrow (ServiceError ''SecureTransport: no underlying transport'')
    | Some send \<Rightarrow>
        if \<not> config_is_enabled config then send msg
        else sbind (slift (secure_message mac config msg)) send)"

text \<open>What \<^verbatim>\<open>receive\<close> does with a message from below: the caller's buffer keeps the message
  even when the tag is wrong.\<close>

definition open_message :: "mac \<Rightarrow> security_config \<Rightarrow> buffer \<Rightarrow> buffer \<Rightarrow> bool res \<times> buffer" where
  "open_message mac config secure_msg msg =
    (case raw_bytes 8 4 (contents secure_msg) of
      Inl e \<Rightarrow> (Inl e, msg)
    | Inr raw \<Rightarrow>
      let ext_payload_size = of_le raw :: u32 in
      if unat ext_payload_size < k_hmac_tag_size
      then (Inl (SecurityError ''message payload too short for HMAC verification''), msg)
      else
        let orig_payload_size = ext_payload_size - word_of_nat k_hmac_tag_size in
        (case raw_bytes (16 + unat orig_payload_size) k_hmac_tag_size (contents secure_msg) of
          Inl e \<Rightarrow> (Inl e, msg)
        | Inr received_tag \<Rightarrow>
          let msg = buffer_reset msg in
          (case rbind (raw_bytes 0 (16 + unat orig_payload_size) (contents secure_msg)) (\<lambda>raw. buffer_write raw msg) of
            Inl e \<Rightarrow> (Inl e, msg)
          | Inr msg \<Rightarrow>
            let msg = msg\<lparr>contents := patch_u32 8 orig_payload_size (contents msg)\<rparr> in
            if \<not> verify_hmac mac (sc_key config) (contents msg) received_tag
            then (Inl (SecurityError ''HMAC verification failed - message may be tampered''), msg)
            else (Inr True, reset_read msg))))"

definition secure_receive :: "mac \<Rightarrow> (int \<Rightarrow> (buffer \<times> 's, bool) step) option \<Rightarrow> security_config
    \<Rightarrow> int \<Rightarrow> (buffer \<times> 's, bool) step" where
  "secure_receive mac inner config timeout_ms = (\<lambda>(msg, s). case inner of
      None \<Rightarrow> (Inr False, msg, s)
    | Some receive \<Rightarrow>
        if \<not> config_is_enabled config then receive timeout_ms (msg, s)
        else (case receive timeout_ms (buffer_new, s) of
          (Inl e, _, s) \<Rightarrow> (Inl e, msg, s)
        | (Inr False, _, s) \<Rightarrow> (Inr False, msg, s)
        | (Inr True, secure_msg, s) \<Rightarrow>
            (case open_message mac config secure_msg msg of (r, msg) \<Rightarrow> (r, msg, s))))"

definition secure_close :: "('s \<Rightarrow> 's) option \<Rightarrow> 's \<Rightarrow> 's" where
  "secure_close inner s = (case inner of None \<Rightarrow> s | Some close \<Rightarrow> close s)"

definition secure_is_connected :: "bool option \<Rightarrow> bool" where
  "secure_is_connected inner = (case inner of None \<Rightarrow> False | Some c \<Rightarrow> c)"

section \<open>Laws\<close>

lemma or_eq_0_iff: "(x :: 'a::len word) OR y = 0 \<longleftrightarrow> x = 0 \<and> y = 0"
  by (auto simp: bit_eq_iff bit_simps)

lemma xor_eq_0_iff: "(x :: 'a::len word) XOR y = 0 \<longleftrightarrow> x = y"
  by (auto simp: bit_eq_iff bit_simps)

lemma foldl_or_eq_0:
  "foldl (\<lambda>r i. r OR f i) (z :: 'a::len word) is = 0 \<longleftrightarrow> z = 0 \<and> (\<forall>i\<in>set is. f i = 0)"
  by (induction "is" arbitrary: z) (auto simp: or_eq_0_iff)

lemma verify_hmac_iff:
  assumes "8 \<le> length (mac (bytes_of key) data)" and "length tag = 8"
  shows "verify_hmac mac key data tag \<longleftrightarrow> compute_hmac mac key data = tag"
  using assms
  by (auto simp: verify_hmac_def foldl_or_eq_0 xor_eq_0_iff k_hmac_tag_size_def compute_hmac_def
      list_eq_iff_nth_eq min_def)

definition mac_ok :: "mac \<Rightarrow> bool" where
  "mac_ok mac \<longleftrightarrow> (\<forall>key data. length (mac key data) = 32)"

text \<open>The message on the wire for a message \<open>m\<close>: the payload size grows by eight, and the tag of
  the original bytes follows.\<close>

definition secure_frame :: "mac \<Rightarrow> string \<Rightarrow> byte list \<Rightarrow> byte list" where
  "secure_frame mac key m =
    patch_u32 8 (word_of_nat (declared_payload m + 8)) m @ compute_hmac mac key m"

definition is_small_frame :: "byte list \<Rightarrow> bool" where
  "is_small_frame m \<longleftrightarrow> is_frame m \<and> declared_payload m + 8 \<le> k_max_payload_size"

lemma length_compute_hmac [simp]: "mac_ok mac \<Longrightarrow> length (compute_hmac mac key m) = 8"
  by (simp add: mac_ok_def compute_hmac_def k_hmac_tag_size_def)

lemma length_patch_u32 [simp]: "off + 4 \<le> length bs \<Longrightarrow> length (patch_u32 off v bs) = length bs"
  by (simp add: patch_u32_def)

lemma declared_payload_patch: "8 \<le> length bs \<Longrightarrow> declared_payload (patch_u32 8 v bs @ rest) = unat v"
  by (simp add: declared_payload_def patch_u32_def)

lemma patch_patch: "off + 4 \<le> length bs \<Longrightarrow> patch_u32 off v (patch_u32 off w bs) = patch_u32 off v bs"
  by (simp add: patch_u32_def)

lemma patch_same: "length bs \<ge> off + 4 \<Longrightarrow> patch_u32 off (of_le (take 4 (drop off bs))) bs = bs"
  by (simp add: patch_u32_def le_bytes_of_le flip: append_assoc take_add)

lemma patch_take:
  assumes "length bs = 16 + n"
  shows "patch_u32 8 v (take 16 bs) @ take n (drop 16 bs) = patch_u32 8 v bs"
proof -
  have "take 4 (drop 12 bs) @ drop 16 bs = drop 12 bs"
    using append_take_drop_id [of 4 "drop 12 bs"] by simp
  with assms show ?thesis by (simp add: patch_u32_def drop_take)
qed

lemma unat_small: "n \<le> k_max_payload_size \<Longrightarrow> unat (word_of_nat n :: u32) = n"
  by (simp add: unat_of_nat k_max_payload_size_def)

lemma secure_frame_is_frame:
  assumes "mac_ok mac" and "is_small_frame m"
  shows "is_frame (secure_frame mac key m)"
    and "declared_payload (secure_frame mac key m) = declared_payload m + 8"
proof -
  have "16 \<le> length m" "declared_payload m + 8 \<le> k_max_payload_size" "length m = 16 + declared_payload m"
    using assms(2) by (auto simp: is_small_frame_def is_frame_def)
  moreover from this have "unat (word_of_nat (declared_payload m + 8) :: u32) = declared_payload m + 8"
    by (intro unat_small) simp_all
  ultimately show d: "declared_payload (secure_frame mac key m) = declared_payload m + 8"
    and "is_frame (secure_frame mac key m)"
    using assms(1) by (simp_all add: secure_frame_def declared_payload_patch is_frame_def)
qed

lemma buffer_ok_contents: "buffer_ok b \<Longrightarrow> length xs = size_of b \<Longrightarrow> buffer_ok (b\<lparr>contents := xs\<rparr>)"
  by (simp add: buffer_ok_def)

lemma secure_message_run:
  assumes "mac_ok mac" and "is_small_frame (contents msg)"
  shows "\<exists>b. secure_message mac config msg = Inr b
    \<and> contents b = secure_frame mac (sc_key config) (contents msg)"
proof -
  let ?m = "contents msg" and ?n = "declared_payload (contents msg)"
  let ?v = "word_of_nat (?n + 8) :: u32"
  have m: "length ?m = 16 + ?n" "?n + 8 \<le> k_max_payload_size"
    using assms(2) by (auto simp: is_small_frame_def is_frame_def)
  have ps: "unat (of_le (take 4 (drop 8 ?m)) :: u32) = ?n"
    by (simp add: declared_payload_def)
  have v: "of_le (take 4 (drop 8 ?m)) + 8 = ?v"
    by (simp flip: ps)
  let ?h = "appended (take 16 ?m) buffer_new"
  let ?p = "?h\<lparr>contents := patch_u32 8 ?v (take 16 ?m)\<rparr>"
  have h: "buffer_write (take 16 ?m) buffer_new = Inr ?h" "buffer_ok ?h"
    using m(1) by (simp_all add: codec_simps k_max_capacity_eq)
  then have p: "buffer_ok ?p" "size_of ?p = 16"
    using m(1) by (simp_all add: buffer_ok_contents)
  let ?d = "take ?n (drop 16 ?m)"
  have d: "buffer_write ?d ?p = Inr (appended ?d ?p)" "buffer_ok (appended ?d ?p)" "length ?d = ?n"
    using p m by (simp_all add: codec_simps k_max_capacity_eq k_max_payload_size_def)
  let ?q = "if 0 < (of_le (take 4 (drop 8 ?m)) :: u32) then appended ?d ?p else ?p"
  have q: "buffer_ok ?q" "contents ?q = patch_u32 8 ?v (take 16 ?m) @ ?d"
    using p d ps m(1) by (auto simp: word_less_nat_alt)
  have "buffer_write (compute_hmac mac (sc_key config) ?m) ?q
      = Inr (appended (compute_hmac mac (sc_key config) ?m) ?q)"
    using q m p(2) d(3) assms(1) by (intro write_run) (simp_all add: k_max_capacity_eq k_max_payload_size_def)
  moreover have "patch_u32 8 ?v (take 16 ?m) @ ?d = patch_u32 8 ?v ?m"
    using m(1) by (rule patch_take)
  ultimately show ?thesis
    using h d p q m ps v
    by (simp add: secure_message_def raw_bytes_def Let_def k_hmac_tag_size_def secure_frame_def split: if_splits)
qed

text \<open>Opening: exactly the frames made by \<open>secure_frame\<close> under the same key are accepted.\<close>

lemma open_message_run:
  assumes "mac_ok mac" and "is_frame (contents sm)" and "buffer_ok msg"
  shows "(\<exists>m msg'. is_small_frame m \<and> contents sm = secure_frame mac (sc_key config) m
      \<and> open_message mac config sm msg = (Inr True, msg') \<and> contents msg' = m \<and> read_pos msg' = 0
      \<and> buffer_ok msg')
    \<or> (\<nexists>m. is_small_frame m \<and> contents sm = secure_frame mac (sc_key config) m)
      \<and> (\<exists>e. fst (open_message mac config sm msg) = Inl (SecurityError e))"
proof -
  let ?c = "contents sm" and ?x = "declared_payload (contents sm)"
  have c: "length ?c = 16 + ?x" "?x \<le> k_max_payload_size"
    using assms(2) by (auto simp: is_frame_def)
  have ps: "unat (of_le (take 4 (drop 8 ?c)) :: u32) = ?x"
    by (simp add: declared_payload_def)
  show ?thesis
  proof (cases "?x < 8")
    case True
    have "\<nexists>m. is_small_frame m \<and> ?c = secure_frame mac (sc_key config) m"
      using True secure_frame_is_frame(2) [OF assms(1)] by fastforce
    moreover have "fst (open_message mac config sm msg)
        = Inl (SecurityError ''message payload too short for HMAC verification'')"
      using True c ps by (simp add: open_message_def raw_bytes_def Let_def k_hmac_tag_size_def)
    ultimately show ?thesis by blast
  next
    case False
    let ?n = "?x - 8"
    let ?o = "of_le (take 4 (drop 8 ?c)) - 8 :: u32"
    have o: "unat ?o = ?n"
      using False ps by (simp add: unat_sub word_le_nat_alt)
    let ?t = "take 8 (drop (16 + ?n) ?c)"
    let ?b = "appended (take (16 + ?n) ?c) (buffer_reset msg)"
    let ?m = "patch_u32 8 ?o (take (16 + ?n) ?c)"
    let ?b' = "?b\<lparr>contents := ?m\<rparr>"
    have lens: "length (take (16 + ?n) ?c) = 16 + ?n" "length ?t = 8" "length ?m = 16 + ?n"
      using c False by simp_all
    have b: "buffer_write (take (16 + ?n) ?c) (buffer_reset msg) = Inr ?b" "buffer_ok ?b"
      using assms(3) c False by (simp_all add: codec_simps k_max_capacity_eq k_max_payload_size_def)
    then have b': "buffer_ok ?b'" using lens by (intro buffer_ok_contents) simp_all
    have run: "open_message mac config sm msg = (if verify_hmac mac (sc_key config) ?m ?t
        then (Inr True, reset_read ?b')
        else (Inl (SecurityError ''HMAC verification failed - message may be tampered''), ?b'))"
      using False c ps o b lens by (simp add: open_message_def raw_bytes_def Let_def k_hmac_tag_size_def)
    have decl: "declared_payload ?m = ?n"
      using declared_payload_patch [of "take (16 + ?n) ?c" ?o "[]"] lens o by simp
    have small: "is_small_frame ?m"
      using decl lens c False by (simp add: is_small_frame_def is_frame_def)
    have x: "word_of_nat (?n + 8) = (of_le (take 4 (drop 8 ?c)) :: u32)"
      using False by (simp flip: ps)
    have restored: "patch_u32 8 (word_of_nat (?n + 8)) ?m @ ?t = ?c"
    proof -
      have "patch_u32 8 (word_of_nat (?n + 8)) ?m = patch_u32 8 (of_le (take 4 (drop 8 (take (16 + ?n) ?c)))) (take (16 + ?n) ?c)"
        using lens x by (simp add: patch_patch drop_take)
      also have "\<dots> = take (16 + ?n) ?c" using lens by (intro patch_same) simp
      finally show ?thesis using c False by simp
    qed
    have v: "verify_hmac mac (sc_key config) ?m ?t \<longleftrightarrow> compute_hmac mac (sc_key config) ?m = ?t"
      using assms(1) lens by (intro verify_hmac_iff) (simp_all add: mac_ok_def)
    show ?thesis
    proof (cases "compute_hmac mac (sc_key config) ?m = ?t")
      case True
      then have "?c = secure_frame mac (sc_key config) ?m"
        using restored decl by (simp add: secure_frame_def)
      then show ?thesis using True v run small b' by (intro disjI1 exI [of _ ?m] exI [of _ "reset_read ?b'"] conjI) simp_all
    next
      case wrong: False
      have "?c \<noteq> secure_frame mac (sc_key config) m" if m: "is_small_frame m" for m
      proof
        assume eq: "?c = secure_frame mac (sc_key config) m"
        have dm: "declared_payload m = ?n" "length m = 16 + declared_payload m"
          using secure_frame_is_frame(2) [OF assms(1) m] eq m by (auto simp: is_small_frame_def is_frame_def)
        have "take (16 + declared_payload m) (secure_frame mac (sc_key config) m)
            = patch_u32 8 (word_of_nat (declared_payload m + 8)) m"
          "take 8 (drop (16 + declared_payload m) (secure_frame mac (sc_key config) m))
            = compute_hmac mac (sc_key config) m"
          using dm(2) assms(1) by (simp_all add: secure_frame_def)
        then have parts: "take (16 + ?n) ?c = patch_u32 8 (word_of_nat (?n + 8)) m"
          "?t = compute_hmac mac (sc_key config) m"
          using eq dm(1) by metis+
        from parts(1) have "?m = patch_u32 8 ?o m" using dm by (simp add: patch_patch)
        moreover have "?o = of_le (take 4 (drop 8 m))"
          using dm(1) o by (simp add: word_unat_eq_iff declared_payload_def)
        ultimately have "?m = m" using dm patch_same [of 8 m] by simp
        then show False using wrong parts(2) by simp
      qed
      then show ?thesis using wrong v run by auto
    qed
  qed
qed

section \<open>A secure transport over any message source\<close>

definition secure_holds :: "mac \<Rightarrow> string \<Rightarrow> ('s \<Rightarrow> byte list \<Rightarrow> bool) \<Rightarrow> 's \<Rightarrow> byte list \<Rightarrow> bool" where
  "secure_holds mac key holds s bs \<longleftrightarrow> (\<exists>ms. list_all is_small_frame ms \<and> bs = concat ms
     \<and> holds s (concat (map (secure_frame mac key) ms)))"

lemma buffer_read_pos_reset [simp]: "read_pos (buffer_reset b) = 0"
  by (simp add: buffer_reset_def)

text \<open>The secure form determines the message.\<close>

lemma patch_inject:
  assumes "patch_u32 8 v m = patch_u32 8 v n" and "declared_payload m = declared_payload n"
    and "16 \<le> length m" and "16 \<le> length n"
  shows "m = n"
proof -
  let ?w = "of_le (take 4 (drop 8 m)) :: u32"
  have w: "of_le (take 4 (drop 8 n)) = ?w"
    using assms(2) by (simp add: declared_payload_def word_unat_eq_iff)
  have "m = patch_u32 8 ?w m" using assms(3) by (intro patch_same [symmetric]) simp
  also have "\<dots> = patch_u32 8 ?w (patch_u32 8 v m)" using assms(3) by (intro patch_patch [symmetric]) simp
  also have "\<dots> = patch_u32 8 ?w (patch_u32 8 v n)" by (simp only: assms(1))
  also have "\<dots> = patch_u32 8 ?w n" using assms(4) by (intro patch_patch) simp
  also have "\<dots> = n" unfolding w [symmetric] using assms(4) by (intro patch_same) simp
  finally show ?thesis .
qed

lemma secure_frame_inject:
  assumes "mac_ok mac" and "is_small_frame m" and "is_small_frame n"
    and "secure_frame mac key m = secure_frame mac key n"
  shows "m = n"
proof -
  have len: "length m = 16 + declared_payload m" "length n = 16 + declared_payload n"
    using assms(2,3) by (auto simp: is_small_frame_def is_frame_def)
  have d: "declared_payload m = declared_payload n"
    using secure_frame_is_frame(2) [OF assms(1,2), of key] secure_frame_is_frame(2) [OF assms(1,3), of key]
      assms(4) by simp
  let ?v = "word_of_nat (declared_payload m + 8) :: u32"
  have "patch_u32 8 ?v m = patch_u32 8 ?v n"
    using assms(4) d len by (simp add: secure_frame_def)
  moreover have "16 \<le> length m" "16 \<le> length n" using len by simp_all
  ultimately show ?thesis using d by (metis patch_inject)
qed

context message_source
begin

lemma secure_source:
  assumes "mac_ok mac" and "config_is_enabled config"
  shows "message_source (secure_receive mac (Some (\<lambda>_. recv)) config timeout_ms)
    (secure_holds mac (sc_key config) holds)"
proof
  fix msg m s rest
  assume msg: "buffer_ok msg" and m: "is_frame m"
    and "secure_holds mac (sc_key config) holds s (m @ rest)"
  then obtain ms where ms: "list_all is_small_frame ms" "m @ rest = concat ms"
    "holds s (concat (map (secure_frame mac (sc_key config)) ms))"
    by (auto simp: secure_holds_def)
  from m ms(2) obtain m' ms' where ms': "ms = m' # ms'"
    by (cases ms) (auto simp: is_frame_def)
  with is_frame_prefix [OF m, of m' rest "concat ms'"] ms have eq: "m' = m" "rest = concat ms'"
    and small: "is_small_frame m"
    by (auto simp: is_small_frame_def)
  let ?f = "secure_frame mac (sc_key config) m"
  have f: "is_frame ?f" using secure_frame_is_frame [OF assms(1) small] by simp
  obtain sm s' where r: "recv (buffer_new, s) = (Inr True, sm, s')" "contents sm = ?f"
    "holds s' (concat (map (secure_frame mac (sc_key config)) ms'))"
    using recv_frame [OF buffer_ok_new f] ms(3) ms' eq(1) by fastforce
  with open_message_run [OF assms(1) _ msg, of sm config] f small
  obtain n msg' where o: "is_small_frame n" "?f = secure_frame mac (sc_key config) n"
    "open_message mac config sm msg = (Inr True, msg')" "contents msg' = n" "read_pos msg' = 0" "buffer_ok msg'"
    by (metis (no_types, lifting))
  have "n = m" using secure_frame_inject [OF assms(1) o(1) small o(2) [symmetric]] .
  with o r assms(2) ms ms' eq
  show "\<exists>msg' s'. secure_receive mac (Some (\<lambda>_. recv)) config timeout_ms (msg, s) = (Inr True, msg', s')
      \<and> contents msg' = m \<and> read_pos msg' = 0 \<and> buffer_ok msg'
      \<and> secure_holds mac (sc_key config) holds s' rest"
    by (auto simp: secure_receive_def secure_holds_def)
next
  fix msg s
  assume "buffer_ok msg" and "secure_holds mac (sc_key config) holds s []"
  then obtain ms where ms: "list_all is_small_frame ms" "[] = concat ms"
    "holds s (concat (map (secure_frame mac (sc_key config)) ms))"
    by (auto simp: secure_holds_def)
  then have "ms = []" by (cases ms) (auto simp: is_small_frame_def is_frame_def)
  with ms recv_end [OF buffer_ok_new, of s] assms(2)
  show "fst (secure_receive mac (Some (\<lambda>_. recv)) config timeout_ms (msg, s)) = Inr False"
    by (auto simp: secure_receive_def split: prod.splits)
qed

end

section \<open>Properties\<close>

text \<open>A stand-in for the library's function, of the right length.\<close>

definition toy_mac :: mac where
  "toy_mac key data = take 32 (key @ [foldl (+) 0 data] @ replicate 32 7)"

lemma toy_mac_ok: "mac_ok toy_mac"
  by (auto simp: mac_ok_def toy_mac_def min_def)

lemma small_shutdown: "is_small_frame (wire_message mt_shutdown 0 [])"
  using declared_payload_wire [of "[]" mt_shutdown 0 "[]"]
  by (simp add: is_small_frame_def is_frame_shutdown k_max_payload_size_def)

text \<open>Claim C5. Authentication: with security enabled, \<^verbatim>\<open>SecureTransport::receive\<close> accepts a
  message from below exactly when it is the secure form of some message under the configured
  key, and then delivers that message; any other message, with a tag that differs in a
  single bit for instance, is refused with a \<^verbatim>\<open>SecurityError\<close>.\<close>

theorem secure_receive_accepts:
  assumes "mac_ok mac" and "config_is_enabled config" and "buffer_ok msg"
    and "recv timeout_ms (buffer_new, s) = (Inr True, sm, s')" and "is_frame (contents sm)"
  shows "case secure_receive mac (Some recv) config timeout_ms (msg, s) of
      (Inr b, msg', s'') \<Rightarrow> b \<and> s'' = s' \<and> is_small_frame (contents msg')
        \<and> contents sm = secure_frame mac (sc_key config) (contents msg') \<and> read_pos msg' = 0
    | (Inl e, msg', s'') \<Rightarrow> s'' = s' \<and> (\<exists>text. e = SecurityError text)
        \<and> (\<nexists>m. is_small_frame m \<and> contents sm = secure_frame mac (sc_key config) m)"
proof -
  have run: "secure_receive mac (Some recv) config timeout_ms (msg, s)
      = (case open_message mac config sm msg of (r, msg) \<Rightarrow> (r, msg, s'))"
    using assms(2,4) by (simp add: secure_receive_def)
  from open_message_run [OF assms(1,5,3), of config] show ?thesis
  proof
    assume "\<exists>m msg'. is_small_frame m \<and> contents sm = secure_frame mac (sc_key config) m
      \<and> open_message mac config sm msg = (Inr True, msg') \<and> contents msg' = m \<and> read_pos msg' = 0
      \<and> buffer_ok msg'"
    then show ?thesis using run by auto
  next
    assume *: "(\<nexists>m. is_small_frame m \<and> contents sm = secure_frame mac (sc_key config) m)
      \<and> (\<exists>e. fst (open_message mac config sm msg) = Inl (SecurityError e))"
    then obtain e msg' where "open_message mac config sm msg = (Inl (SecurityError e), msg')"
      by (metis prod.collapse)
    with * run show ?thesis by simp
  qed
qed

theorem secure_receive_accepts_witness:
  "\<exists>e. fst (secure_receive toy_mac (Some (\<lambda>_ _. (Inr True, message_buffer mt_shutdown 0 [], ())))
     (config_with_key ''k'') 0 (buffer_new, ())) = Inl (SecurityError e)"
proof -
  let ?r = "secure_receive toy_mac (Some (\<lambda>_ _. (Inr True, message_buffer mt_shutdown 0 [], ())))
     (config_with_key ''k'') 0 (buffer_new, ())"
  have "\<not> (\<exists>m. is_small_frame m \<and> wire_message mt_shutdown 0 [] = secure_frame toy_mac ''k'' m)"
  proof
    assume "\<exists>m. is_small_frame m \<and> wire_message mt_shutdown 0 [] = secure_frame toy_mac ''k'' m"
    then obtain m where m: "is_small_frame m" "wire_message mt_shutdown 0 [] = secure_frame toy_mac ''k'' m" by blast
    from secure_frame_is_frame(2) [OF toy_mac_ok m(1), of "''k''"] m(2)
    have "declared_payload (wire_message mt_shutdown 0 []) \<ge> 8" by simp
    then show False using declared_payload_wire [of "[]" mt_shutdown 0 "[]"] by simp
  qed
  moreover have "case ?r of
      (Inr b, msg', s'') \<Rightarrow> b \<and> s'' = () \<and> is_small_frame (contents msg')
        \<and> contents (message_buffer mt_shutdown 0 [])
          = secure_frame toy_mac (sc_key (config_with_key ''k'')) (contents msg') \<and> read_pos msg' = 0
    | (Inl e, msg', s'') \<Rightarrow> s'' = () \<and> (\<exists>text. e = SecurityError text)
        \<and> (\<nexists>m. is_small_frame m \<and> contents (message_buffer mt_shutdown 0 [])
          = secure_frame toy_mac (sc_key (config_with_key ''k'')) m)"
    by (rule secure_receive_accepts)
      (simp_all add: toy_mac_ok config_is_enabled_def config_with_key_def is_frame_shutdown)
  ultimately show ?thesis
    by (cases ?r) (auto simp: config_with_key_def split: sum.splits)
qed

text \<open>What \<^verbatim>\<open>SecureTransport::send\<close> hands to the transport below: with security off
  the message itself; with security on, for a message whose payload leaves room for the tag,
  exactly its secure form; and a message whose payload does not is refused before anything
  is sent.\<close>

lemma secure_send_wraps:
  assumes "mac_ok mac" and "is_frame (contents msg)"
  shows "if \<not> config_is_enabled config then secure_send mac (Some send) config msg s = send msg s
    else if is_small_frame (contents msg)
    then \<exists>b. secure_send mac (Some send) config msg s = send b s
      \<and> contents b = secure_frame mac (sc_key config) (contents msg)
    else secure_send mac (Some send) config msg s
      = (Inl (SecurityError ''payload too large for HMAC authentication''), s)"
proof (cases "config_is_enabled config \<and> is_small_frame (contents msg)")
  case True
  then obtain b where "secure_message mac config msg = Inr b"
    "contents b = secure_frame mac (sc_key config) (contents msg)"
    using secure_message_run [OF assms(1)] by blast
  with True show ?thesis by (auto simp: secure_send_def sbind_apply slift_def)
next
  case False
  have "16 \<le> length (contents msg)" using assms(2) by (simp add: is_frame_def)
  with False assms show ?thesis
    by (auto simp: secure_send_def sbind_apply slift_def secure_message_def raw_bytes_def Let_def
        is_small_frame_def declared_payload_def k_hmac_tag_size_def k_max_payload_size_def)
qed

text \<open>A sequence of sends that all return leaves the secure forms of the messages, in order, on
  the stream of whatever sink is below.\<close>

context message_sink
begin

lemma secure_sends:
  assumes "mac_ok mac" and "config_is_enabled config" and "image = contents"
    and "list_all (\<lambda>b. is_frame (contents b)) msgs"
    and "send_many (secure_send mac (Some send) config) msgs s = (Inr (), s')"
  shows "list_all is_small_frame (map contents msgs)
    \<and> out s' = out s @ concat (map (secure_frame mac (sc_key config)) (map contents msgs))"
  using assms(4,5)
proof (induction msgs arbitrary: s)
  case Nil
  then show ?case by simp
next
  case (Cons m ms)
  then obtain s1 where s1: "secure_send mac (Some send) config m s = (Inr (), s1)"
    "send_many (secure_send mac (Some send) config) ms s1 = (Inr (), s')"
    by (auto simp: sbind_apply split: prod.splits sum.splits)
  have "is_frame (contents m)" using Cons.prems(1) by simp
  from secure_send_wraps [OF assms(1) this, of config send s] s1(1) assms(2)
  obtain b where small: "is_small_frame (contents m)"
    and b: "send b s = (Inr (), s1)" "contents b = secure_frame mac (sc_key config) (contents m)"
    by (auto split: if_splits)
  have "out s1 = out s @ secure_frame mac (sc_key config) (contents m)"
    using send_done [OF b(1)] b(2) assms(3) by simp
  with Cons.IH [OF _ s1(2)] Cons.prems(1) small show ?case by simp
qed

end

text \<open>Claim C36. End to end through \<^verbatim>\<open>SecureTransport\<close> over TCP with security enabled: if every
  \<^verbatim>\<open>SecureTransport::send\<close> of a list of well-formed messages returned, then a peer with the same
  configuration that reads the written bytes, however the kernels cut the writes and the reads
  into pieces and interrupt them, gets from \<^verbatim>\<open>SecureTransport::receive\<close> exactly these messages,
  complete, in order and each once, and then the end of the stream.\<close>

theorem secure_transfer:
  assumes "mac_ok mac" and "config_is_enabled config"
    and "send_many (secure_send mac (Some (tcp_send a)) config) msgs s = (Inr (), s')" and "written s = []"
    and "list_all (\<lambda>b. is_frame (contents b)) msgs"
    and "buffered (reads r) = written s'" and "stream_end (reads r) = FillEof"
    and "tcp_is_connected t" and "buffer_ok buf" and "length msgs < n"
  shows "fst (receive_many (secure_receive mac (Some (\<lambda>_. tcp_receive t (-1))) config timeout_ms) n (buf, r))
    = Inr (map contents msgs)"
proof -
  have src: "message_source (tcp_receive t (-1)) tcp_holds"
    using assms(8) by (intro tcp_message_source) (simp_all add: tcp_is_connected_def)
  have sent: "list_all is_small_frame (map contents msgs)"
    "written s' = concat (map (secure_frame mac (sc_key config)) (map contents msgs))"
    using tcp_snk.secure_sends [OF assms(1,2) refl assms(5,3)] assms(4) by simp_all
  then have "secure_holds mac (sc_key config) tcp_holds r (concat (map contents msgs))"
    unfolding secure_holds_def tcp_holds_def using assms(6,7) by metis
  moreover have "list_all is_frame (map contents msgs)"
    using assms(5) by (simp add: list.pred_map comp_def)
  ultimately show ?thesis
    using message_source.receive_all [OF message_source.secure_source [OF src assms(1,2)]] assms(9,10)
    by simp
qed

text \<open>Two messages, cut by the sender's kernel after ten bytes and by the receiver's after five.\<close>

theorem secure_transfer_witness:
  "let m = message_buffer mt_shutdown 0 []; f = secure_frame toy_mac ''k'' (wire_message mt_shutdown 0 [])
   in fst (receive_many (secure_receive toy_mac
      (Some (\<lambda>_. tcp_receive \<lparr>tcp_sock = 3, tcp_peer_addr = [], tcp_peer_port = 0\<rparr> (-1)))
      (config_with_key ''k'') (-1)) 3 (buffer_new,
     \<lparr>reads = [RdData (take 5 f), RdIntr, RdData (drop 5 f @ f), RdData []],
       writes = [], polls = [], written = [], closed = [], options = []\<rparr>))
   = Inr [contents m, contents m]"
proof -
  let ?m = "message_buffer mt_shutdown 0 []" and ?w = "wire_message mt_shutdown 0 []"
  let ?f = "secure_frame toy_mac ''k'' ?w" and ?c = "config_with_key ''k''"
  let ?a = "\<lparr>tcp_sock = 4, tcp_peer_addr = [], tcp_peer_port = 0\<rparr>"
  let ?s = "\<lparr>reads = [], writes = [WrIntr, WrAccept 10, WrAccept 100, WrAccept 24], polls = [], written = [],
         closed = [], options = []\<rparr>"
  have key: "sc_key ?c = ''k''" "config_is_enabled ?c"
    by (simp_all add: config_with_key_def config_is_enabled_def)
  obtain b where b: "secure_message toy_mac ?c ?m = Inr b" "contents b = ?f"
    using secure_message_run [OF toy_mac_ok, of ?m ?c] key small_shutdown by auto
  have len: "length ?f = 24"
    by (simp add: secure_frame_def shutdown_bytes toy_mac_ok)
  have ne: "?f \<noteq> []" "drop 5 ?f \<noteq> []" "take 5 ?f \<noteq> []"
    using len by (auto simp flip: length_greater_0_conv)
  have loop: "tcp_send_loop xs (WrIntr # es) out = tcp_send_loop xs es out"
    "0 < k \<Longrightarrow> tcp_send_loop xs (WrAccept k # es) out = tcp_send_loop (drop k xs) es (out @ take k xs)"
    if "xs \<noteq> []" for xs es out k
    using that by (cases xs; simp)+
  have send: "secure_send toy_mac (Some (tcp_send ?a)) ?c ?m = tcp_send ?a b"
    using b(1) key by (simp add: secure_send_def sbind_apply slift_def fun_eq_iff)
  have sends: "send_many (secure_send toy_mac (Some (tcp_send ?a)) ?c) [?m, ?m] ?s
      = (Inr (), ?s\<lparr>writes := [], written := ?f @ ?f\<rparr>)"
    using b(2) len ne by (simp add: send tcp_send_def sbind_apply loop flip: append_assoc)
  from secure_transfer [OF toy_mac_ok key(2) sends, where t = "\<lparr>tcp_sock = 3, tcp_peer_addr = [], tcp_peer_port = 0\<rparr>"
      and buf = buffer_new and n = 3 and timeout_ms = "-1"]
  show ?thesis
    unfolding Let_def using ne by (simp add: is_frame_shutdown tcp_is_connected_def)
qed

end
