(* ===== verification/Song_Process.thy ===== *)
theory Song_Process
  imports Song_Net Song_Stream
begin

text \<open>
  \<^verbatim>\<open>include/song/process.hpp\<close> and \<^verbatim>\<open>src/process.cpp\<close>: the host's handle on a spawned service
  process, and the client's connection to a service, local (through the pipes of such a
  process) or remote (through a transport): handshake and version negotiation, calls,
  streaming calls, object and property operations and the notifications that may arrive in
  between. The client's callbacks are functions over a state \<open>'c\<close> of their own.
\<close>

unbundle bit_operations_syntax

section \<open>The process handle\<close>

text \<open>The operating system around a process: its pipes, what the coming calls of
  \<^verbatim>\<open>waitpid(pid, .., WNOHANG)\<close> return (0, still running, when none is left) and the signals
  sent.\<close>

datatype signal = SIGTERM | SIGKILL

record world =
  w_sys :: sys
  w_waits :: "int list"
  w_kills :: "(int \<times> signal) list"

record process =
  pid :: int
  to_service :: pipe
  from_service :: pipe
  reusable :: bool
  p_version :: u16
  p_peer_caps :: u32
  p_negotiated_caps :: u32
  p_methods :: "method_descriptor list"

definition no_pipe :: pipe where
  "no_pipe = \<lparr>read_fd = -1, write_fd = -1\<rparr>"

definition process_new :: "int \<Rightarrow> pipe \<Rightarrow> pipe \<Rightarrow> process" where
  "process_new p to_s from_s = \<lparr>pid = p, to_service = to_s, from_service = from_s, reusable = True,
     p_version = 0, p_peer_caps = 0, p_negotiated_caps = 0, p_methods = []\<rparr>"

definition process_default :: process where
  "process_default = process_new (-1) no_pipe no_pipe"

definition wait_nohang :: "(world, int) step" where
  "wait_nohang w = (case w_waits w of [] \<Rightarrow> (Inr 0, w) | r # rs \<Rightarrow> (Inr r, w\<lparr>w_waits := rs\<rparr>))"

definition send_signal :: "int \<Rightarrow> signal \<Rightarrow> world \<Rightarrow> world" where
  "send_signal p sig w = w\<lparr>w_kills := w_kills w @ [(p, sig)]\<rparr>"

definition process_alive :: "process \<Rightarrow> (world, bool) step" where
  "process_alive p w =
    (if pid p \<le> 0 then (Inr False, w)
     else sbind wait_nohang (\<lambda>result. sret (result = 0)) w)"

definition process_available :: "process \<Rightarrow> (world, bool) step" where
  "process_available p w = (if \<not> reusable p \<or> pid p \<le> 0 then (Inr False, w) else process_alive p w)"

definition set_reusable :: "bool \<Rightarrow> process \<Rightarrow> process" where
  "set_reusable r p = p\<lparr>reusable := r\<rparr>"

text \<open>The ten attempts of \<^verbatim>\<open>terminate\<close>: whether the process was reaped.\<close>

fun wait_loop :: "nat \<Rightarrow> int \<Rightarrow> (world, bool) step" where
  "wait_loop 0 p = sret False"
| "wait_loop (Suc n) p = sbind wait_nohang (\<lambda>result. if result = p then sret True else wait_loop n p)"

definition process_terminate :: "(process \<times> world, unit) step" where
  "process_terminate = (\<lambda>(p, w).
    if pid p \<le> 0 then (Inr (), p, w)
    else case wait_loop 10 (pid p) (send_signal (pid p) SIGTERM w) of
      (Inl e, w) \<Rightarrow> (Inl e, p, w)
    | (Inr True, w) \<Rightarrow> (Inr (), p\<lparr>pid := -1\<rparr>, w)
    | (Inr False, w) \<Rightarrow> (Inr (), p\<lparr>pid := -1\<rparr>, send_signal (pid p) SIGKILL w))"

text \<open>The move constructor gives the new handle and what is left of the old one.\<close>

definition process_move :: "process \<Rightarrow> process \<times> process" where
  "process_move other =
    (\<lparr>pid = pid other, to_service = fst (pipe_move (to_service other)),
      from_service = fst (pipe_move (from_service other)), reusable = reusable other,
      p_version = p_version other, p_peer_caps = 0, p_negotiated_caps = 0, p_methods = p_methods other\<rparr>,
     other\<lparr>pid := -1, to_service := snd (pipe_move (to_service other)),
      from_service := snd (pipe_move (from_service other)), p_version := 0, p_methods := []\<rparr>)"

definition process_move_assign :: "bool \<Rightarrow> process \<Rightarrow> process \<Rightarrow> (world, process \<times> process) step" where
  "process_move_assign same this other w =
    (if same then (Inr (this, this), w)
     else case (if pid this > 0 then process_terminate (this, w) else (Inr (), this, w)) of
       (Inl e, _, w) \<Rightarrow> (Inl e, w)
     | (Inr _, this, w) \<Rightarrow>
       (case pipe_move_assign False (to_service this) (to_service other) (w_sys w) of
         ((to_s, to_o), s) \<Rightarrow>
          (case pipe_move_assign False (from_service this) (from_service other) s of
            ((from_s, from_o), s) \<Rightarrow>
              (Inr (this\<lparr>pid := pid other, to_service := to_s, from_service := from_s,
                  reusable := reusable other, p_version := p_version other, p_methods := p_methods other\<rparr>,
                other\<lparr>pid := -1, to_service := to_o, from_service := from_o, p_version := 0, p_methods := []\<rparr>),
               w\<lparr>w_sys := s\<rparr>))))"

function process_send_loop :: "pipe \<Rightarrow> byte list \<Rightarrow> write_event list \<Rightarrow> byte list
    \<Rightarrow> unit res \<times> write_event list \<times> byte list" where
  "process_send_loop p data es out =
    (if data = [] then (Inr (), es, out)
     else case pipe_write p (length data) es of
       (WrFail e, es') \<Rightarrow> (Inl (ServiceError ''Failed to write to service pipe''), es', out)
     | (WrBlocks, es') \<Rightarrow> (Inl Diverges, es', out)
     | (Wrote k, es') \<Rightarrow> process_send_loop p (drop k data) es' (out @ take k data))"
  by pat_completeness auto
termination
  by (relation "measure (\<lambda>(p, data, es, out). length es)") (auto dest!: pipe_write_shorter [OF sym])

declare process_send_loop.simps [simp del]

definition process_send :: "process \<Rightarrow> buffer \<Rightarrow> (world, unit) step" where
  "process_send p msg w =
    (if pid p \<le> 0 then (Inl (ServiceError ''Cannot send to dead service''), w)
     else case process_send_loop (to_service p) (contents msg) (writes (w_sys w)) (written (w_sys w)) of
       (r, ws, out) \<Rightarrow> (r, w\<lparr>w_sys := (w_sys w)\<lparr>writes := ws, written := out\<rparr>\<rparr>))"

text \<open>\<^verbatim>\<open>receive\<close>: like the pipe transport's, with its own errors; every failure of a payload read
  is the same one.\<close>

definition process_receive :: "process \<Rightarrow> int \<Rightarrow> (world, buffer option) step" where
  "process_receive p timeout_ms w =
    (if pid p \<le> 0 then (Inr None, w)
     else
      let (n, s) = (if timeout_ms \<ge> 0 then pipe_read_timeout (from_service p) 16 (w_sys w)
            else case pipe_read (from_service p) 16 (reads (w_sys w)) of (n, es) \<Rightarrow> (n, (w_sys w)\<lparr>reads := es\<rparr>));
          w = w\<lparr>w_sys := s\<rparr>
      in case n of
        IoFail e \<Rightarrow> (Inl (ServiceError ''Failed to read header from service''), w)
      | IoData bs \<Rightarrow>
          if bs = [] then (Inr None, w)
          else if length bs \<noteq> 16 then (Inl (ProtocolError ''Incomplete header received''), w)
          else (case store_header bs buffer_new of
            Inl e \<Rightarrow> (Inl e, w)
          | Inr (hdr, msg) \<Rightarrow>
              if hdr_payload_size hdr > 0 then
                if unat (hdr_payload_size hdr) > k_max_payload_size
                then (Inl (ProtocolError ''Payload size exceeds maximum''), w)
                else (case pt_fill (from_service p) (unat (hdr_payload_size hdr)) [] (reads s) of
                  (Filled payload, es) \<Rightarrow>
                    (case buffer_write payload msg of
                      Inl e \<Rightarrow> (Inl e, w\<lparr>w_sys := s\<lparr>reads := es\<rparr>\<rparr>)
                    | Inr msg \<Rightarrow> (Inr (Some (reset_read msg)), w\<lparr>w_sys := s\<lparr>reads := es\<rparr>\<rparr>))
                | (FillBlocks, es) \<Rightarrow> (Inl Diverges, w\<lparr>w_sys := s\<lparr>reads := es\<rparr>\<rparr>)
                | (_, es) \<Rightarrow>
                    (Inl (ServiceError ''Failed to read payload from service''), w\<lparr>w_sys := s\<lparr>reads := es\<rparr>\<rparr>))
              else (Inr (Some (reset_read msg)), w))
      | _ \<Rightarrow> (Inl Diverges, w))"

section \<open>Version negotiation\<close>

definition version_text :: "u16 \<Rightarrow> string" where
  "version_text v = dec_string (unat (drop_bit 8 v)) @ ''.'' @ dec_string (unat (v AND 0xFF))"

text \<open>The init message of the service, decoded and checked; \<open>who\<close> is how this side calls
  itself in the error.\<close>

definition negotiate :: "string \<Rightarrow> string \<Rightarrow> init_message decoder" where
  "negotiate Who who = dbind decode_header_validated (\<lambda>hdr.
    if hdr_type hdr \<noteq> mt_init then dfail (ProtocolError ''Expected init message from service'')
    else dbind decode_init (\<lambda>init.
    if im_current_version init < k_first_version
    then dfail (VersionMismatchError (''Service version too old: service='' @ version_text (im_current_version init)
        @ '', minimum required='' @ version_text k_first_version))
    else if im_first_version init > k_current_version
    then dfail (VersionMismatchError (Who @ '' version too old: '' @ who @ ''='' @ version_text k_current_version
        @ '', service requires='' @ version_text (im_first_version init)))
    else dreturn init))"

fun read_methods :: "nat \<Rightarrow> buffer \<Rightarrow> method_descriptor list \<Rightarrow> unit res \<times> method_descriptor list" where
  "read_methods 0 b ms = (Inr (), ms)"
| "read_methods (Suc n) b ms = (case decode_method_descriptor b of
      Inl e \<Rightarrow> (Inl e, ms)
    | Inr (m, b) \<Rightarrow> read_methods n b (ms @ [m]))"

definition process_init_handshake :: "(process \<times> world, unit) step" where
  "process_init_handshake = (\<lambda>(p, w). case process_receive p 5000 w of
      (Inl e, w) \<Rightarrow> (Inl e, p, w)
    | (Inr None, w) \<Rightarrow> (Inl (ServiceError ''Service failed to send init message''), p, w)
    | (Inr (Some init_msg), w) \<Rightarrow>
      (case negotiate ''Host'' ''host'' init_msg of
        Inl e \<Rightarrow> (Inl e, p, w)
      | Inr (init, b) \<Rightarrow>
        let p = p\<lparr>p_version := min k_current_version (im_current_version init),
            p_peer_caps := im_capabilities init, p_negotiated_caps := im_capabilities init\<rparr>
        in (case read_methods (unat (im_method_count init)) b [] of
          (r, ms) \<Rightarrow> (r, p\<lparr>p_methods := ms\<rparr>, w))))"

text \<open>\<^verbatim>\<open>spawn\<close>, in the parent: what the two \<^verbatim>\<open>pipe\<close> calls and \<^verbatim>\<open>fork\<close> return. Leaving by an
  exception closes the pipes and terminates the process.\<close>

definition spawn :: "(int \<times> int) option \<Rightarrow> (int \<times> int) option \<Rightarrow> int \<Rightarrow> (world, process) step" where
  "spawn fds1 fds2 fork_pid w =
    (case pipe_create_pair fds1 of
      Inl e \<Rightarrow> (Inl e, w)
    | Inr (parent_read, child_write) \<Rightarrow>
      (case pipe_create_pair fds2 of
        Inl e \<Rightarrow>
          (Inl e, w\<lparr>w_sys := snd (pipe_close parent_read (snd (pipe_close child_write (w_sys w))))\<rparr>)
      | Inr (child_read, parent_write) \<Rightarrow>
          let w = w\<lparr>w_sys := snd (pipe_close child_write (snd (pipe_close child_read (w_sys w))))\<rparr> in
          if fork_pid < 0
          then (Inl (ServiceError ''Failed to fork service process''),
            w\<lparr>w_sys := snd (pipe_close parent_read (snd (pipe_close parent_write (w_sys w))))\<rparr>)
          else (case process_init_handshake (process_new fork_pid parent_write parent_read, w) of
            (Inr _, p, w) \<Rightarrow> (Inr p, w)
          | (Inl e, p, w) \<Rightarrow>
            if \<not> catchable e then (Inl e, w)
            else (case process_terminate (p, w) of
              (Inl e', _, w) \<Rightarrow> (Inl e', w)
            | (Inr _, p, w) \<Rightarrow>
                (Inl e, w\<lparr>w_sys := snd (pipe_close (to_service p) (snd (pipe_close (from_service p) (w_sys w))))\<rparr>)))))"

section \<open>The connection\<close>

datatype peer = NoPeer | Local | Remote

type_synonym 'c prop_callback = "buffer \<Rightarrow> 'c \<Rightarrow> unit res \<times> 'c"

record 'c client =
  cn_peer :: peer
  cn_proc :: process
  cn_world :: world
  cn_link :: link
  cn_owned :: bool
  cn_next_seq :: u32
  cn_version :: u16
  cn_peer_caps :: u32
  cn_negotiated_caps :: u32
  cn_local_caps :: u32
  cn_methods :: "method_descriptor list"
  cn_callbacks :: "((i32 \<times> u16) \<times> 'c prop_callback) list"
  cn_user :: 'c

definition client_new :: "peer \<Rightarrow> process \<Rightarrow> world \<Rightarrow> link \<Rightarrow> bool \<Rightarrow> 'c \<Rightarrow> 'c client" where
  "client_new peer p w l owned u = \<lparr>cn_peer = peer, cn_proc = p, cn_world = w, cn_link = l, cn_owned = owned,
     cn_next_seq = 1, cn_version = 0, cn_peer_caps = 0, cn_negotiated_caps = 0, cn_local_caps = 0,
     cn_methods = [], cn_callbacks = [], cn_user = u\<rparr>"

text \<open>Moving a connection moves everything but the callbacks: a new one has none, and an assigned
  one keeps its own.\<close>

definition client_moved_from :: "'c client \<Rightarrow> 'c client" where
  "client_moved_from c = c\<lparr>cn_peer := NoPeer, cn_owned := False, cn_next_seq := 1, cn_version := 0,
     cn_peer_caps := 0, cn_negotiated_caps := 0, cn_local_caps := 0, cn_methods := []\<rparr>"

definition client_move :: "'c client \<Rightarrow> 'c client \<times> 'c client" where
  "client_move other = (other\<lparr>cn_callbacks := []\<rparr>, client_moved_from other)"

definition client_move_assign :: "bool \<Rightarrow> 'c client \<Rightarrow> 'c client \<Rightarrow> 'c client \<times> 'c client" where
  "client_move_assign same this other =
    (if same then (this, this)
     else (other\<lparr>cn_callbacks := cn_callbacks this\<rparr>, client_moved_from other))"

definition client_methods :: "'c client \<Rightarrow> method_descriptor list" where
  "client_methods c = (if cn_peer c = Local then p_methods (cn_proc c) else cn_methods c)"

definition client_version :: "'c client \<Rightarrow> u16" where
  "client_version c = (if cn_peer c = Local then p_version (cn_proc c) else cn_version c)"

definition client_peer_capabilities :: "'c client \<Rightarrow> u32" where
  "client_peer_capabilities c = (if cn_peer c = Local then p_peer_caps (cn_proc c) else cn_peer_caps c)"

definition client_negotiated_capabilities :: "'c client \<Rightarrow> u32" where
  "client_negotiated_capabilities c =
    (if cn_peer c = Local then p_negotiated_caps (cn_proc c) else cn_negotiated_caps c)"

definition client_has_capability :: "capability \<Rightarrow> 'c client \<Rightarrow> bool" where
  "client_has_capability cap c \<longleftrightarrow> has_capability (client_negotiated_capabilities c) cap"

definition supports :: "u16 \<Rightarrow> u16 \<Rightarrow> 'c client \<Rightarrow> bool" where
  "supports service method c \<longleftrightarrow>
    list_ex (\<lambda>m. md_service_id m = service \<and> md_method_id m = method) (client_methods c)"

definition set_local_capabilities :: "u32 \<Rightarrow> 'c client \<Rightarrow> 'c client" where
  "set_local_capabilities caps c = c\<lparr>cn_local_caps := caps\<rparr>"

text \<open>Talking to whichever peer there is.\<close>

definition on_world :: "(world, 'a) step \<Rightarrow> ('c client, 'a) step" where
  "on_world m c = (case m (cn_world c) of (r, w) \<Rightarrow> (r, c\<lparr>cn_world := w\<rparr>))"

definition on_link :: "(link, 'a) step \<Rightarrow> ('c client, 'a) step" where
  "on_link m c = (case m (cn_link c) of (r, l) \<Rightarrow> (r, c\<lparr>cn_link := l\<rparr>))"

definition null_transport :: exn where
  "null_transport = Undefined ''call through a null transport''"

definition check_connection :: "('c client, unit) step" where
  "check_connection c = (case cn_peer c of
      Local \<Rightarrow> sbind (on_world (process_alive (cn_proc c))) (\<lambda>alive.
        if alive then sret () else sthrow (ServiceError ''Service not running'')) c
    | Remote \<Rightarrow> if l_up (cn_link c) then (Inr (), c) else (Inl (ServiceError ''Transport not connected''), c)
    | NoPeer \<Rightarrow> (Inl (ServiceError ''ServiceConnection: no transport or process''), c))"

definition conn_send :: "buffer \<Rightarrow> ('c client, unit) step" where
  "conn_send msg c = (case cn_peer c of
      Local \<Rightarrow> on_world (process_send (cn_proc c) msg) c
    | Remote \<Rightarrow> on_link (link_send msg) c
    | NoPeer \<Rightarrow> (Inl null_transport, c))"

definition conn_receive :: "int \<Rightarrow> ('c client, buffer option) step" where
  "conn_receive timeout_ms c = (case cn_peer c of
      Local \<Rightarrow> on_world (process_receive (cn_proc c) timeout_ms) c
    | Remote \<Rightarrow> on_link link_receive c
    | NoPeer \<Rightarrow> (Inl null_transport, c))"

definition client_init_handshake :: "('c client, unit) step" where
  "client_init_handshake c =
    (if cn_peer c \<noteq> Remote \<or> \<not> l_up (cn_link c)
     then (Inl (ServiceError ''ServiceConnection: not connected for init handshake''), c)
     else case on_link link_receive c of
       (Inl e, c) \<Rightarrow> (Inl e, c)
     | (Inr None, c) \<Rightarrow> (Inl (ServiceError ''Service failed to send init message''), c)
     | (Inr (Some init_msg), c) \<Rightarrow>
       (case negotiate ''Client'' ''client'' init_msg of
         Inl e \<Rightarrow> (Inl e, c)
       | Inr (init, b) \<Rightarrow>
         let c = c\<lparr>cn_version := min k_current_version (im_current_version init),
             cn_peer_caps := im_capabilities init,
             cn_negotiated_caps := cn_local_caps c AND im_capabilities init\<rparr>
         in (case read_methods (unat (im_method_count init)) b [] of
           (Inl e, ms) \<Rightarrow> (Inl e, c\<lparr>cn_methods := ms\<rparr>)
         | (Inr _, ms) \<Rightarrow>
             let c = c\<lparr>cn_methods := ms\<rparr> in
             if cn_version c \<ge> make_version 1 1
             then sbind (slift (create_init_ack_message k_first_version k_current_version (cn_local_caps c)))
                 (\<lambda>ack. on_link (link_send ack)) c
             else (Inr (), c))))"

text \<open>A notification goes to the callback of its property, if there is one. The message is at the
  property header.\<close>

definition dispatch_notification :: "buffer \<Rightarrow> ('c client, unit) step" where
  "dispatch_notification msg c = (case decode_property_header msg of
      Inl e \<Rightarrow> (Inl e, c)
    | Inr (h, msg) \<Rightarrow>
      (case map_of (cn_callbacks c) (ph_object_id h, ph_property_id h) of
        None \<Rightarrow> (Inr (), c)
      | Some cb \<Rightarrow>
        (case (if remaining msg > 0
               then rbind (buffer_write (drop (read_pos msg) (contents msg)) buffer_new) (\<lambda>b. Inr (reset_read b))
               else Inr buffer_new) of
          Inl e \<Rightarrow> (Inl e, c)
        | Inr val \<Rightarrow> (case cb val (cn_user c) of (r, u) \<Rightarrow> (r, c\<lparr>cn_user := u\<rparr>)))))"

section \<open>Waiting for a reply\<close>

text \<open>Every message received shortens what is still to come from the peer, so the loops below
  end.\<close>

definition incoming :: "'c client \<Rightarrow> nat" where
  "incoming c = (case cn_peer c of
      Local \<Rightarrow> length (buffered (reads (w_sys (cn_world c))))
    | Remote \<Rightarrow> length (l_inbox (cn_link c))
    | NoPeer \<Rightarrow> 0)"

lemma pipe_read_spec: "0 < n \<Longrightarrow> pipe_read p n es = (IoData bs, es') \<Longrightarrow> read_spec n (IoData bs, es') es \<and> 0 \<le> read_fd p"
  by (metis Pair_inject io.distinct(3) linorder_not_less pipe_read_def read_spec_uninterrupted)

lemma pipe_read_timeout_spec:
  "0 < n \<Longrightarrow> pipe_read_timeout p n s = (IoData bs, s') \<Longrightarrow> read_spec n (IoData bs, reads s') (reads s) \<and> 0 \<le> read_fd p"
  using read_spec_uninterrupted [of n "reads s"]
  by (auto simp: pipe_read_timeout_def split: if_splits prod.splits poll_event.splits)

lemma pt_fill_filled:
  "0 \<le> read_fd p \<Longrightarrow> pt_fill p n got es = (Filled x, es') \<Longrightarrow> length (buffered es') \<le> length (buffered es)"
  using pt_fill_spec [of p n got es] by (auto simp: fill_spec_def split: if_splits dest: sym)

lemma process_receive_shorter:
  assumes "process_receive p timeout_ms w = (Inr (Some m), w')"
  shows "length (buffered (reads (w_sys w'))) < length (buffered (reads (w_sys w)))"
proof -
  define h where "h = (if timeout_ms \<ge> 0 then pipe_read_timeout (from_service p) 16 (w_sys w)
            else case pipe_read (from_service p) 16 (reads (w_sys w)) of (n, es) \<Rightarrow> (n, (w_sys w)\<lparr>reads := es\<rparr>))"
  obtain n s where h': "h = (n, s)" by fastforce
  note * = assms [unfolded process_receive_def h_def [symmetric] h' Let_def]
  obtain bs where n: "n = IoData bs" "length bs = 16"
    using * by (auto split: if_splits io.splits)
  then have "read_spec 16 (IoData bs, reads s) (reads (w_sys w)) \<and> 0 \<le> read_fd (from_service p)"
    using h' by (auto simp: h_def split: if_splits prod.splits dest: pipe_read_spec [rotated] pipe_read_timeout_spec [rotated])
  then have b: "buffered (reads (w_sys w)) = bs @ buffered (reads s)" and fd: "0 \<le> read_fd (from_service p)"
    using n(2) by (auto simp: read_spec_def split: if_splits)
  have "length (buffered (reads (w_sys w'))) \<le> length (buffered (reads s))"
    using * n pt_fill_filled [OF fd]
    by (auto split: if_splits sum.splits prod.splits fill.splits)
  with b n(2) show ?thesis by simp
qed

lemma conn_receive_shorter:
  assumes "conn_receive timeout_ms c = (Inr (Some m), c')"
  shows "incoming c' < incoming c"
proof (cases "cn_peer c")
  case Local
  then show ?thesis
    using assms process_receive_shorter [of "cn_proc c" timeout_ms "cn_world c" m]
    by (auto simp: conn_receive_def on_world_def incoming_def split: prod.splits)
next
  case Remote
  then show ?thesis
    using assms
    by (auto simp: conn_receive_def on_link_def link_receive_def incoming_def split: prod.splits list.splits recv_event.splits)
qed (use assms in \<open>simp add: conn_receive_def\<close>)

lemma incoming_dispatch: "dispatch_notification msg c = (r, c') \<Longrightarrow> incoming c' = incoming c"
  by (cases "cn_peer c")
    (auto simp: dispatch_notification_def incoming_def split: sum.splits prod.splits option.splits)

function recv_reply :: "u32 \<Rightarrow> int \<Rightarrow> ('c client, buffer) step" where
  "recv_reply seq timeout_ms c = (case conn_receive timeout_ms c of
      (Inl e, c1) \<Rightarrow> (Inl e, c1)
    | (Inr None, c1) \<Rightarrow> (Inl (ServiceError ''Service died or timed out''), c1)
    | (Inr (Some response), c1) \<Rightarrow>
      (case decode_header_validated (reset_read response) of
        Inl e \<Rightarrow> (Inl e, c1)
      | Inr (hdr, response) \<Rightarrow>
          if hdr_type hdr = mt_prop_notify
          then (case dispatch_notification response c1 of
              (Inl e, c2) \<Rightarrow> (Inl e, c2)
            | (Inr _, c2) \<Rightarrow> recv_reply seq timeout_ms c2)
          else if hdr_sequence_id hdr \<noteq> seq then (Inl (ProtocolError ''Sequence ID mismatch''), c1)
          else (Inr (reset_read response), c1)))"
  by pat_completeness auto
termination
  by (relation "measure (\<lambda>(seq, t, c). incoming c)")
    (auto dest!: conn_receive_shorter [OF sym] incoming_dispatch [OF sym])

declare recv_reply.simps [simp del]

text \<open>The parts that every request has: it is checked that there is somebody to talk to, a
  sequence id is drawn, the message is built with it and sent.\<close>

definition request :: "(u32 \<Rightarrow> buffer res) \<Rightarrow> ('c client, u32) step" where
  "request build = sbind check_connection (\<lambda>_ c.
    let seq = cn_next_seq c; c = c\<lparr>cn_next_seq := seq + 1\<rparr>
    in sbind (slift (build seq)) (\<lambda>msg. sbind (conn_send msg) (\<lambda>_. sret seq)) c)"

text \<open>And of a reply: the error it carries is thrown, with a text of the operation, anything but
  a result refused. The header is left behind.\<close>

definition thrown_by_service :: "string \<Rightarrow> buffer \<Rightarrow> 'a res" where
  "thrown_by_service failed response =
    rbind (decode_u16 response) (\<lambda>(code, response).
    rbind (decode_string response) (\<lambda>(msg, response).
    Inl (ServiceError (failed @ '' (code '' @ dec_string (unat code) @ ''): '' @ msg))))"

definition check_reply :: "string \<Rightarrow> string \<Rightarrow> buffer \<Rightarrow> buffer res" where
  "check_reply failed unexpected response =
    rbind (decode_header_validated response) (\<lambda>(hdr, response).
    if hdr_type hdr = mt_error then thrown_by_service failed response
    else if hdr_type hdr \<noteq> mt_result then Inl (ProtocolError unexpected)
    else Inr response)"

definition copy_payload :: "buffer \<Rightarrow> buffer res" where
  "copy_payload response = rbind (buffer_write (drop 16 (contents response)) buffer_new) (\<lambda>b. Inr (reset_read b))"

definition reply_payload :: "string \<Rightarrow> string \<Rightarrow> u32 \<Rightarrow> ('c client, buffer) step" where
  "reply_payload failed unexpected seq =
    sbind (recv_reply seq 5000) (\<lambda>response. slift (rbind (check_reply failed unexpected response) copy_payload))"

definition call :: "u16 \<Rightarrow> u16 \<Rightarrow> buffer \<Rightarrow> ('c client, buffer) step" where
  "call service_id method_id args =
    sbind (request (\<lambda>seq. create_call_message seq service_id method_id args))
      (reply_payload ''Service error'' ''Unexpected message type in response'')"

definition call_oneway :: "u16 \<Rightarrow> u16 \<Rightarrow> buffer \<Rightarrow> ('c client, unit) step" where
  "call_oneway service_id method_id args =
    sbind (request (\<lambda>seq. create_call_message seq service_id method_id args)) (\<lambda>_. sret ())"

definition conn_create_object :: "u32 \<Rightarrow> u16 \<Rightarrow> buffer \<Rightarrow> ('c client, object_ref) step" where
  "conn_create_object type_id constructor_id args =
    sbind (request (\<lambda>seq. create_object_create_message seq type_id constructor_id args)) (\<lambda>seq.
    sbind (recv_reply seq 5000) (\<lambda>response.
    slift (rbind (check_reply ''Object creation error'' ''Unexpected message type in object creation response''
        response) (\<lambda>response. rbind (decode_object_ref response) (\<lambda>(ref, _). Inr ref)))))"

definition get_property :: "u32 \<Rightarrow> i32 \<Rightarrow> u16 \<Rightarrow> ('c client, buffer) step" where
  "get_property type_id object_id property_id =
    sbind (request (\<lambda>seq. create_property_get_message seq type_id object_id property_id))
      (reply_payload ''Property get error'' ''Unexpected message type in property get response'')"

definition set_property :: "u32 \<Rightarrow> i32 \<Rightarrow> u16 \<Rightarrow> buffer \<Rightarrow> ('c client, buffer) step" where
  "set_property type_id object_id property_id val =
    sbind (request (\<lambda>seq. create_property_set_message seq type_id object_id property_id val))
      (reply_payload ''Property set error'' ''Unexpected message type in property set response'')"

definition call_object :: "u32 \<Rightarrow> i32 \<Rightarrow> u16 \<Rightarrow> buffer \<Rightarrow> ('c client, buffer) step" where
  "call_object type_id object_id method_id args =
    sbind (request (\<lambda>seq. create_object_method_message seq type_id object_id method_id args))
      (reply_payload ''Object method error'' ''Unexpected message type in object method response'')"

text \<open>A release is sent when there is somebody to send it to, and every exception of that is
  dropped.\<close>

definition conn_release_object :: "u32 \<Rightarrow> i32 \<Rightarrow> ('c client, unit) step" where
  "conn_release_object type_id object_id c =
    (if object_id = 0 then (Inr (), c)
     else case create_object_release_message type_id object_id of
       Inl e \<Rightarrow> (Inl e, c)
     | Inr msg \<Rightarrow> scatch catchable
         (\<lambda>c. case cn_peer c of
             Local \<Rightarrow> sbind (on_world (process_alive (cn_proc c)))
               (\<lambda>alive. if alive then conn_send msg else sret ()) c
           | Remote \<Rightarrow> if l_up (cn_link c) then conn_send msg c else (Inr (), c)
           | NoPeer \<Rightarrow> (Inr (), c))
         (\<lambda>e. sret ()) c)"

definition send_if_peer :: "buffer \<Rightarrow> ('c client, unit) step" where
  "send_if_peer msg c = (if cn_peer c = NoPeer then (Inr (), c) else conn_send msg c)"

definition subscribe_property :: "u32 \<Rightarrow> i32 \<Rightarrow> u16 \<Rightarrow> 'c prop_callback \<Rightarrow> ('c client, unit) step" where
  "subscribe_property type_id object_id property_id callback c =
    sbind (slift (create_property_subscribe_message type_id object_id property_id)) send_if_peer
      (c\<lparr>cn_callbacks := AList.update (object_id, property_id) callback (cn_callbacks c)\<rparr>)"

definition unsubscribe_property :: "u32 \<Rightarrow> i32 \<Rightarrow> u16 \<Rightarrow> ('c client, unit) step" where
  "unsubscribe_property type_id object_id property_id c =
    sbind (slift (create_property_unsubscribe_message type_id object_id property_id)) send_if_peer
      (c\<lparr>cn_callbacks := AList.delete (object_id, property_id) (cn_callbacks c)\<rparr>)"

text \<open>One message is received, and dropped if it is no notification; its magic number and size
  are not checked.\<close>

definition poll_notifications :: "int \<Rightarrow> ('c client, unit) step" where
  "poll_notifications timeout_ms =
    sbind (\<lambda>c. if cn_peer c = NoPeer then (Inr None, c) else conn_receive timeout_ms c) (\<lambda>received.
    case received of
      None \<Rightarrow> sret ()
    | Some msg \<Rightarrow> (case decode_header (reset_read msg) of
        Inl e \<Rightarrow> sthrow e
      | Inr (hdr, msg) \<Rightarrow> if hdr_type hdr = mt_prop_notify then dispatch_notification msg else sret ()))"

section \<open>Streaming calls\<close>

text \<open>The loop gives every chunk to \<open>on_chunk\<close>, which has a state \<open>'h\<close> of its own. A chunk is
  as long as its header says: the bytes behind the message are nobody's.\<close>

definition chunk_of :: "header \<Rightarrow> buffer \<Rightarrow> buffer res" where
  "chunk_of hdr response =
    (let n = unat (hdr_payload_size hdr) in
     if n = 0 then Inr buffer_new
     else if size_of response < 16 + n then Inl (Undefined ''chunk read beyond the message'')
     else rbind (buffer_write (take n (drop 16 (contents response))) buffer_new) (\<lambda>b. Inr (reset_read b)))"

function stream_loop :: "u32 \<Rightarrow> (buffer \<Rightarrow> 'h \<Rightarrow> unit res \<times> 'h) \<Rightarrow> int \<Rightarrow> 'c client \<times> 'h
    \<Rightarrow> u32 res \<times> 'c client \<times> 'h" where
  "stream_loop seq on_chunk chunk_timeout_ms (c, h) =
    (case conn_receive chunk_timeout_ms c of
      (Inl e, c1) \<Rightarrow>
        (Inl (if std_exception e
           then ServiceError (''Streaming receive failed (chunk timeout '' @ int_string chunk_timeout_ms @ '' ms): ''
             @ what e)
           else e), c1, h)
    | (Inr None, c1) \<Rightarrow>
        (Inl (ServiceError (''Service died or timed out during streaming (chunk timeout ''
           @ int_string chunk_timeout_ms @ '' ms)'')), c1, h)
    | (Inr (Some response), c1) \<Rightarrow>
      (case decode_header_validated response of
        Inl e \<Rightarrow> (Inl e, c1, h)
      | Inr (hdr, rest) \<Rightarrow>
          if hdr_sequence_id hdr \<noteq> seq then (Inl (ProtocolError ''Sequence ID mismatch in stream''), c1, h)
          else if hdr_type hdr = mt_stream
          then (case chunk_of hdr response of
              Inl e \<Rightarrow> (Inl e, c1, h)
            | Inr chunk \<Rightarrow> (case on_chunk chunk h of
                (Inl e, h) \<Rightarrow> (Inl e, c1, h)
              | (Inr _, h) \<Rightarrow> stream_loop seq on_chunk chunk_timeout_ms (c1, h)))
          else if hdr_type hdr = mt_stream_end then (Inr seq, c1, h)
          else if hdr_type hdr = mt_error then (thrown_by_service ''Service error'' rest, c1, h)
          else (Inl (ProtocolError ''Unexpected message type during streaming''), c1, h)))"
  by pat_completeness auto
termination
  by (relation "measure (\<lambda>(seq, f, t, c, h). incoming c)") (auto dest!: conn_receive_shorter [OF sym])

declare stream_loop.simps [simp del]

definition call_streaming :: "u16 \<Rightarrow> u16 \<Rightarrow> buffer \<Rightarrow> (buffer \<Rightarrow> 'h \<Rightarrow> unit res \<times> 'h) \<Rightarrow> int
    \<Rightarrow> 'c client \<times> 'h \<Rightarrow> u32 res \<times> 'c client \<times> 'h" where
  "call_streaming service_id method_id args on_chunk chunk_timeout_ms = (\<lambda>(c, h).
    case request (\<lambda>seq. create_call_message seq service_id method_id args) c of
      (Inl e, c) \<Rightarrow> (Inl e, c, h)
    | (Inr seq, c) \<Rightarrow> stream_loop seq on_chunk chunk_timeout_ms (c, h))"

text \<open>The overload that collects the chunks first.\<close>

definition call_streaming_reader :: "u16 \<Rightarrow> u16 \<Rightarrow> buffer \<Rightarrow> int \<Rightarrow> ('c client, reader) step" where
  "call_streaming_reader service_id method_id args chunk_timeout_ms c =
    (case call_streaming service_id method_id args (\<lambda>chunk chunks. (Inr (), chunks @ [chunk]))
        chunk_timeout_ms (c, []) of
      (Inl e, c, chunks) \<Rightarrow> (Inl e, c)
    | (Inr seq, c, chunks) \<Rightarrow>
        (Inr (reader_set_complete (fold reader_add_chunk chunks (reader_new seq))), c))"

section \<open>What a client does over a remote connection\<close>

text \<open>A buffer that carries these bytes, wherever its capacity and read position are.\<close>

definition carries :: "buffer \<Rightarrow> byte list \<Rightarrow> bool" where
  "carries b bs \<longleftrightarrow> buffer_ok b \<and> contents b = bs"

lemma carries_message [simp]: "length p + 16 \<le> k_max_capacity \<Longrightarrow> carries (message_buffer t s p) (wire_message t s p)"
  by (simp add: carries_def)

text \<open>A buffer of its own for some bytes, ready to be read.\<close>

definition holding :: "byte list \<Rightarrow> buffer" where
  "holding bs = reset_read (appended bs buffer_new)"

lemma holding_Nil [simp]: "holding [] = buffer_new"
proof -
  have "buffer_ok buffer_new" by (rule room_ok [OF room_new [of 0]]) simp
  then show ?thesis by (simp add: holding_def) (simp add: reset_read_def buffer_new_def)
qed

lemma write_holding:
  "length bs \<le> k_max_capacity \<Longrightarrow> rbind (buffer_write bs buffer_new) (\<lambda>b. Inr (reset_read b)) = Inr (holding bs)"
  by (simp add: holding_def buffer_write_appended room_new)

lemma contents_holding [simp]: "contents (holding bs) = bs"
  by (simp add: holding_def)

lemma payload_fits: "length p \<le> k_max_payload_size \<Longrightarrow> length p + 64 \<le> k_max_capacity"
  by (simp add: k_max_capacity_eq k_max_payload_size_def)

lemma carries_reset [simp]: "carries (reset_read b) bs = carries b bs" if "read_pos b \<le> size_of b"
  using that by (auto simp: carries_def buffer_ok_def reset_read_def)

lemma validated_carried:
  assumes "carries b (wire_message t s p)" and "length p \<le> k_max_payload_size"
  shows "decode_header_validated (reset_read b) = Inr (plain_header t s (length p), advance 16 (reset_read b))"
    and "buffer_ok (advance 16 (reset_read b))" and "unread (advance 16 (reset_read b)) = p"
proof -
  have b: "buffer_ok (reset_read b)" "unread (reset_read b) = wire_message t s p"
    using assms(1) by (simp_all add: carries_def)
  then show "decode_header_validated (reset_read b) = Inr (plain_header t s (length p), advance 16 (reset_read b))"
    using assms(2) by (rule decode_header_validated_message)
  show "buffer_ok (advance 16 (reset_read b))" using b by simp
  show "unread (advance 16 (reset_read b)) = p" using b by simp
qed

lemma reset_advance [simp]: "reset_read (advance n b) = reset_read b" "reset_read (reset_read b) = reset_read b"
  by (simp_all add: reset_read_def advance_def)

definition ready_remote :: "'c client \<Rightarrow> bool" where
  "ready_remote c \<longleftrightarrow> cn_peer c = Remote \<and> l_up (cn_link c) \<and> l_faults (cn_link c) = []"

lemma request_remote:
  assumes "ready_remote c" and "build (cn_next_seq c) = Inr msg"
  shows "request build c = (Inr (cn_next_seq c), c\<lparr>cn_next_seq := cn_next_seq c + 1,
    cn_link := (cn_link c)\<lparr>l_sent := l_sent (cn_link c) @ [msg]\<rparr>\<rparr>)"
  using assms
  by (simp add: request_def check_connection_def ready_remote_def sbind_apply slift_def conn_send_def
      on_link_def link_send_def sret_def Let_def)

lemma receive_remote:
  "cn_peer c = Remote \<Longrightarrow> l_inbox (cn_link c) = RecvMsg b # es \<Longrightarrow>
    conn_receive t c = (Inr (Some b), c\<lparr>cn_link := (cn_link c)\<lparr>l_inbox := es\<rparr>\<rparr>)"
  by (simp add: conn_receive_def on_link_def link_receive_def)

text \<open>A notification: type, object, property and value. Delivering some runs the callbacks of
  those that have one, up to the first that throws.\<close>

type_synonym notification = "u32 \<times> i32 \<times> u16 \<times> byte list"

fun notification_bytes :: "notification \<Rightarrow> byte list" where
  "notification_bytes (t, i, p, v) = wire_message mt_prop_notify 0
     (property_header_repr \<lparr>ph_type_id = t, ph_object_id = i, ph_property_id = p, ph_reserved = 0\<rparr> @ v)"

definition notifies :: "notification \<Rightarrow> recv_event \<Rightarrow> bool" where
  "notifies n ev \<longleftrightarrow> (\<exists>b. ev = RecvMsg b \<and> carries b (notification_bytes n))
     \<and> length (notification_bytes n) \<le> k_max_payload_size"

fun deliver :: "((i32 \<times> u16) \<times> 'c prop_callback) list \<Rightarrow> notification list \<Rightarrow> 'c \<Rightarrow> unit res \<times> 'c" where
  "deliver cbs [] u = (Inr (), u)"
| "deliver cbs ((t, i, p, v) # ns) u = (case map_of cbs (i, p) of
      None \<Rightarrow> deliver cbs ns u
    | Some cb \<Rightarrow> (case cb (holding v) u of (Inl e, u) \<Rightarrow> (Inl e, u) | (Inr _, u) \<Rightarrow> deliver cbs ns u))"

lemma dispatch_run:
  assumes "buffer_ok b" and "unread b = property_header_repr \<lparr>ph_type_id = t, ph_object_id = i, ph_property_id = p,
      ph_reserved = 0\<rparr> @ v" and "length v \<le> k_max_capacity"
  shows "dispatch_notification b c = (case deliver (cn_callbacks c) [(t, i, p, v)] (cn_user c) of
      (r, u) \<Rightarrow> (r, c\<lparr>cn_user := u\<rparr>))"
proof -
  let ?b = "advance 12 b"
  have u: "unread ?b = v" using assms(2) by (simp add: property_hdr.width)
  have d: "decode_property_header b = Inr (\<lparr>ph_type_id = t, ph_object_id = i, ph_property_id = p, ph_reserved = 0\<rparr>, ?b)"
    using property_hdr.dec_consumes [OF _ assms(1,2)] by (simp add: property_hdr.width)
  have v: "drop (read_pos ?b) (contents ?b) = v" "remaining ?b = length v"
    using u by (auto simp: unread_def remaining_def)
  have w: "rbind (buffer_write v buffer_new) (\<lambda>b. Inr (reset_read b)) = Inr (holding v)"
    using assms(3) by (rule write_holding)
  show ?thesis
    by (cases "v = []")
      (auto simp: dispatch_notification_def d v [simplified] w split: option.splits prod.splits sum.splits)
qed

lemma deliver_Cons:
  "deliver cbs (n # ns) u = (case deliver cbs [n] u of (Inl e, u) \<Rightarrow> (Inl e, u) | (Inr _, u) \<Rightarrow> deliver cbs ns u)"
  by (cases n) (auto split: option.splits prod.splits sum.splits)

lemma recv_reply_notification:
  assumes "cn_peer c = Remote" and "l_inbox (cn_link c) = ev # es" and "notifies n ev"
    and "deliver (cn_callbacks c) [n] (cn_user c) = (Inr (), u)"
  shows "recv_reply seq timeout c
    = recv_reply seq timeout (c\<lparr>cn_link := (cn_link c)\<lparr>l_inbox := es\<rparr>, cn_user := u\<rparr>)"
proof -
  obtain t i p v where n: "n = (t, i, p, v)" by (metis prod_cases4)
  let ?pl = "property_header_repr \<lparr>ph_type_id = t, ph_object_id = i, ph_property_id = p, ph_reserved = 0\<rparr> @ v"
  obtain b where b: "ev = RecvMsg b" "carries b (wire_message mt_prop_notify 0 ?pl)" "length ?pl \<le> k_max_payload_size"
    using assms(3) n by (auto simp: notifies_def)
  note v = validated_carried [OF b(2,3)]
  let ?c = "c\<lparr>cn_link := (cn_link c)\<lparr>l_inbox := es\<rparr>\<rparr>"
  have "length v \<le> k_max_capacity" using b(3) by (simp add: k_max_capacity_eq k_max_payload_size_def)
  with dispatch_run [OF v(2,3), of ?c] assms(4) n
  have d: "dispatch_notification (advance 16 (reset_read b)) ?c = (Inr (), ?c\<lparr>cn_user := u\<rparr>)"
    by simp
  have r: "conn_receive timeout c = (Inr (Some b), ?c)"
    using assms(1,2) b(1) by (simp add: receive_remote)
  show ?thesis
    by (subst recv_reply.simps) (simp add: r v(1) d)
qed

lemma recv_reply_notifications:
  assumes "list_all2 notifies ns evs" and "cn_peer c = Remote" and "l_inbox (cn_link c) = evs @ es"
    and "deliver (cn_callbacks c) ns (cn_user c) = (Inr (), u)"
  shows "recv_reply seq timeout c
    = recv_reply seq timeout (c\<lparr>cn_link := (cn_link c)\<lparr>l_inbox := es\<rparr>, cn_user := u\<rparr>)"
  using assms
proof (induction ns evs arbitrary: c rule: list_all2_induct)
  case Nil
  then show ?case by (cases c; cases "cn_link c") simp
next
  case (Cons n ns ev evs)
  obtain u1 where u1: "deliver (cn_callbacks c) [n] (cn_user c) = (Inr (), u1)"
      "deliver (cn_callbacks c) ns u1 = (Inr (), u)"
    using Cons.prems(3) deliver_Cons [of "cn_callbacks c" n ns "cn_user c"]
    by (auto split: prod.splits sum.splits)
  have "recv_reply seq timeout c = recv_reply seq timeout (c\<lparr>cn_link := (cn_link c)\<lparr>l_inbox := evs @ es\<rparr>, cn_user := u1\<rparr>)"
    using Cons.prems(1,2) Cons.hyps(1) u1(1) by (intro recv_reply_notification) simp_all
  also have "\<dots> = recv_reply seq timeout (c\<lparr>cn_link := (cn_link c)\<lparr>l_inbox := es\<rparr>, cn_user := u\<rparr>)"
    using Cons.IH [of "c\<lparr>cn_link := (cn_link c)\<lparr>l_inbox := evs @ es\<rparr>, cn_user := u1\<rparr>"] Cons.prems(1) u1(2) by simp
  finally show ?case .
qed

lemma recv_reply_message:
  assumes "cn_peer c = Remote" and "l_inbox (cn_link c) = RecvMsg b # es"
    and "carries b (wire_message ty s p)" and "length p \<le> k_max_payload_size" and "ty \<noteq> mt_prop_notify"
  shows "recv_reply seq timeout c =
    (if s = seq then Inr (reset_read b) else Inl (ProtocolError ''Sequence ID mismatch''),
     c\<lparr>cn_link := (cn_link c)\<lparr>l_inbox := es\<rparr>\<rparr>)"
  using assms(5) validated_carried(1) [OF assms(3,4)]
  by (subst recv_reply.simps) (simp add: receive_remote [OF assms(1,2)])

text \<open>What a reply makes of a request.\<close>

definition reply_outcome :: "string \<Rightarrow> string \<Rightarrow> msg_type \<Rightarrow> byte list \<Rightarrow> u16 \<Rightarrow> string \<Rightarrow> buffer res" where
  "reply_outcome failed unexpected ty p code m =
    (if ty = mt_error then Inl (ServiceError (failed @ '' (code '' @ dec_string (unat code) @ ''): '' @ m))
     else if ty = mt_result then Inr (holding p) else Inl (ProtocolError unexpected))"

definition error_payload :: "msg_type \<Rightarrow> byte list \<Rightarrow> u16 \<Rightarrow> string \<Rightarrow> bool" where
  "error_payload ty p code m \<longleftrightarrow> (ty = mt_error \<longrightarrow> p = le_bytes 2 code @ string_repr m \<and> string_ok m)"

lemma thrown_run:
  fixes code :: u16
  assumes "buffer_ok b" and "unread b = le_bytes 2 code @ string_repr m" and "string_ok m"
  shows "thrown_by_service failed b
    = Inl (ServiceError (failed @ '' (code '' @ dec_string (unat code) @ ''): '' @ m))"
proof -
  have "decode_u16 b = Inr (code, advance 2 b)"
    using u16.dec_consumes [OF _ assms(1,2)] by simp
  moreover have "decode_string (advance 2 b) = Inr (m, advance (length (string_repr m)) (advance 2 b))"
    using assms by (intro str.dec_consumes [where rest = "[]"]) simp_all
  ultimately show ?thesis by (simp add: thrown_by_service_def)
qed

lemma check_reply_run:
  assumes "carries b (wire_message ty s p)" and "length p \<le> k_max_payload_size" and "error_payload ty p code m"
  shows "rbind (check_reply failed unexpected (reset_read b)) copy_payload = reply_outcome failed unexpected ty p code m"
proof -
  note v = validated_carried [OF assms(1,2)]
  have "length p \<le> k_max_capacity" using payload_fits [OF assms(2)] by simp
  moreover have "contents b = wire_message ty s p" using assms(1) by (simp add: carries_def)
  ultimately have cp: "copy_payload (advance 16 (reset_read b)) = Inr (holding p)"
    by (simp add: copy_payload_def write_holding)
  have "ty = mt_error \<Longrightarrow> (thrown_by_service failed (advance 16 (reset_read b)) :: buffer res)
      = Inl (ServiceError (failed @ '' (code '' @ dec_string (unat code) @ ''): '' @ m))"
    using assms(3) v(2,3) by (intro thrown_run) (simp_all add: error_payload_def)
  then show ?thesis
    by (simp add: check_reply_def v(1) reply_outcome_def cp)
qed

text \<open>Every request that answers with a payload, at once.\<close>

lemma round_trip_remote:
  assumes c: "ready_remote c" and build: "build (cn_next_seq c) = Inr msg"
    and inbox: "l_inbox (cn_link c) = evs @ RecvMsg reply # rest" and ns: "list_all2 notifies ns evs"
    and u: "deliver (cn_callbacks c) ns (cn_user c) = (Inr (), u)"
    and reply: "carries reply (wire_message ty (cn_next_seq c) p)" "length p \<le> k_max_payload_size"
      "ty \<noteq> mt_prop_notify" "error_payload ty p code m"
  shows "sbind (request build) (reply_payload failed unexpected) c
    = (reply_outcome failed unexpected ty p code m,
       c\<lparr>cn_next_seq := cn_next_seq c + 1, cn_user := u,
         cn_link := (cn_link c)\<lparr>l_sent := l_sent (cn_link c) @ [msg], l_inbox := rest\<rparr>\<rparr>)"
proof -
  let ?c = "c\<lparr>cn_next_seq := cn_next_seq c + 1, cn_link := (cn_link c)\<lparr>l_sent := l_sent (cn_link c) @ [msg]\<rparr>\<rparr>"
  let ?d = "?c\<lparr>cn_link := (cn_link ?c)\<lparr>l_inbox := RecvMsg reply # rest\<rparr>, cn_user := u\<rparr>"
  have peer: "cn_peer c = Remote" using c by (simp add: ready_remote_def)
  have "recv_reply (cn_next_seq c) 5000 ?c = recv_reply (cn_next_seq c) 5000 ?d"
    by (rule recv_reply_notifications [OF ns]) (simp_all add: peer inbox u)
  also have "\<dots> = (Inr (reset_read reply), ?d\<lparr>cn_link := (cn_link ?d)\<lparr>l_inbox := rest\<rparr>\<rparr>)"
    by (subst recv_reply_message [OF _ _ reply(1-3)]) (simp_all add: peer)
  finally have r: "recv_reply (cn_next_seq c) 5000 ?c = (Inr (reset_read reply), ?d\<lparr>cn_link := (cn_link ?d)\<lparr>l_inbox := rest\<rparr>\<rparr>)" .
  show ?thesis
    by (simp add: sbind_apply request_remote [where build = build, OF c build] reply_payload_def r slift_def
        check_reply_run [OF reply(1,2,4)])
qed

section \<open>Properties of requests\<close>

text \<open>Claim C3. A call over a remote connection with notifications arriving before its reply: one
  call message is sent, every notification is delivered, in order, to the callback of its
  property, and the call returns the reply's payload, or throws the service's error with its
  code and text, or throws on any other message type; the connection is then ready for the
  next call, with the next sequence id and the rest of the stream unread.\<close>

theorem call_outcome:
  assumes "ready_remote c" and "sendable (contents args)"
    and "l_inbox (cn_link c) = evs @ RecvMsg reply # rest" and "list_all2 notifies ns evs"
    and "deliver (cn_callbacks c) ns (cn_user c) = (Inr (), u)"
    and "carries reply (wire_message ty (cn_next_seq c) p)" and "length p \<le> k_max_payload_size"
    and "ty \<noteq> mt_prop_notify" and "error_payload ty p code m"
  shows "call sid mid args c
    = (reply_outcome ''Service error'' ''Unexpected message type in response'' ty p code m,
       c\<lparr>cn_next_seq := cn_next_seq c + 1, cn_user := u,
         cn_link := (cn_link c)\<lparr>l_sent := l_sent (cn_link c)
            @ [message_buffer mt_call (cn_next_seq c) (call_header_repr (sid, mid) @ contents args)],
           l_inbox := rest\<rparr>\<rparr>)"
  unfolding call_def
  by (rule round_trip_remote [OF assms(1) _ assms(3-9)]) (simp add: create_messages assms(2))

text \<open>A client that counts the notifications of property 7 of object 1.\<close>

definition count_note :: "nat prop_callback" where
  "count_note val n = (Inr (), n + 1)"

definition demo_client :: "recv_event list \<Rightarrow> nat client" where
  "demo_client evs = (client_new Remote process_default
      \<lparr>w_sys = \<lparr>reads = [], writes = [], polls = [], written = [], closed = [], options = []\<rparr>,
        w_waits = [], w_kills = []\<rparr>
      \<lparr>l_up = True, l_sent = [], l_faults = [], l_inbox = evs\<rparr> True 0)
     \<lparr>cn_callbacks := [((1, 7), count_note)]\<rparr>"

definition demo_note :: notification where
  "demo_note = (4, 1, 7, [42])"

definition demo_note_event :: recv_event where
  "demo_note_event = RecvMsg (message_buffer mt_prop_notify 0
     (property_header_repr \<lparr>ph_type_id = 4, ph_object_id = 1, ph_property_id = 7, ph_reserved = 0\<rparr> @ [42]))"

lemma demo_notifies: "notifies demo_note demo_note_event"
  by (simp add: notifies_def demo_note_def demo_note_event_def property_hdr.width k_max_capacity_eq
      k_max_payload_size_def)

lemma demo_client_simps [simp]:
  "cn_peer (demo_client evs) = Remote" "l_inbox (cn_link (demo_client evs)) = evs"
  "cn_next_seq (demo_client evs) = 1" "cn_user (demo_client evs) = 0"
  "cn_callbacks (demo_client evs) = [((1, 7), count_note)]" "ready_remote (demo_client evs)"
  "l_sent (cn_link (demo_client evs)) = []"
  by (simp_all add: demo_client_def client_new_def ready_remote_def)

lemma demo_deliver: "deliver [((1, 7), count_note)] [demo_note] 0 = (Inr (), 1)"
  by (simp add: demo_note_def count_note_def)

lemma sendable_new [simp]: "sendable []"
  by (simp add: sendable_def k_max_capacity_eq)

lemma demo_carries: "carries (message_buffer mt_result 1 [9]) (wire_message mt_result 1 [9])"
  by (simp add: k_max_capacity_eq)

theorem call_outcome_witness:
  "let r = call 5 0 buffer_new (demo_client [demo_note_event, RecvMsg (message_buffer mt_result 1 [9]), RecvEnd])
   in fst r = Inr (holding [9]) \<and> cn_user (snd r) = 1 \<and> l_inbox (cn_link (snd r)) = [RecvEnd]"
proof -
  let ?c = "demo_client [demo_note_event, RecvMsg (message_buffer mt_result 1 [9]), RecvEnd]"
  have "call 5 0 buffer_new ?c
    = (reply_outcome ''Service error'' ''Unexpected message type in response'' mt_result [9] 0 [],
       ?c\<lparr>cn_next_seq := cn_next_seq ?c + 1, cn_user := 1,
         cn_link := (cn_link ?c)\<lparr>l_sent := l_sent (cn_link ?c)
            @ [message_buffer mt_call (cn_next_seq ?c) (call_header_repr (5, 0) @ contents buffer_new)],
           l_inbox := [RecvEnd]\<rparr>\<rparr>)"
    by (rule call_outcome [where evs = "[demo_note_event]" and ns = "[demo_note]"
        and reply = "message_buffer mt_result 1 [9]"])
      (simp_all add: demo_notifies demo_deliver demo_carries error_payload_def k_max_payload_size_def,
        simp_all add: msg_type_defs)
  then show ?thesis by (simp add: Let_def reply_outcome_def msg_type_defs)
qed

text \<open>Calls made one after the other, whatever becomes of each.\<close>

fun calls_in_a_row :: "(u16 \<times> u16 \<times> buffer) list \<Rightarrow> 'c client \<Rightarrow> buffer res list \<times> 'c client" where
  "calls_in_a_row [] c = ([], c)"
| "calls_in_a_row ((sid, mid, args) # calls) c = (case call sid mid args c of
      (r, c) \<Rightarrow> (case calls_in_a_row calls c of (rs, c) \<Rightarrow> (r # rs, c)))"

lemma call_wrong_reply:
  assumes "ready_remote c" and "sendable (contents args)" and "l_inbox (cn_link c) = RecvMsg b # es"
    and "carries b (wire_message ty s p)" and "length p \<le> k_max_payload_size" and "ty \<noteq> mt_prop_notify"
    and "s \<noteq> cn_next_seq c"
  shows "\<exists>c'. call sid mid args c = (Inl (ProtocolError ''Sequence ID mismatch''), c') \<and> ready_remote c'
    \<and> cn_next_seq c' = cn_next_seq c + 1 \<and> l_inbox (cn_link c') = es"
proof -
  let ?msg = "message_buffer mt_call (cn_next_seq c) (call_header_repr (sid, mid) @ contents args)"
  let ?c = "c\<lparr>cn_next_seq := cn_next_seq c + 1, cn_link := (cn_link c)\<lparr>l_sent := l_sent (cn_link c) @ [?msg]\<rparr>\<rparr>"
  have "request (\<lambda>seq. create_call_message seq sid mid args) c = (Inr (cn_next_seq c), ?c)"
    by (rule request_remote [OF assms(1)]) (simp add: create_messages assms(2))
  moreover have "recv_reply (cn_next_seq c) 5000 ?c
      = (Inl (ProtocolError ''Sequence ID mismatch''), ?c\<lparr>cn_link := (cn_link ?c)\<lparr>l_inbox := es\<rparr>\<rparr>)"
    using assms(1,3,7) by (subst recv_reply_message [OF _ _ assms(4-6)]) (simp_all add: ready_remote_def)
  ultimately show ?thesis
    using assms(1) by (simp add: call_def sbind_apply reply_payload_def ready_remote_def)
qed

lemma calls_lag_behind:
  assumes "ready_remote c" and "list_all (\<lambda>(sid, mid, args). sendable (contents args)) calls"
    and "l_inbox (cn_link c) = map RecvMsg replies" and "length replies = length calls"
    and "cn_next_seq c = s + 1"
    and "\<forall>i < length replies. \<exists>p. carries (replies ! i) (wire_message mt_result (s + word_of_nat i) p)
      \<and> length p \<le> k_max_payload_size"
  shows "fst (calls_in_a_row calls c) = replicate (length calls) (Inl (ProtocolError ''Sequence ID mismatch''))"
  using assms
proof (induction calls arbitrary: c replies s)
  case Nil
  then show ?case by simp
next
  case (Cons a calls)
  obtain sid mid args where a: "a = (sid, mid, args)" by (metis prod_cases3)
  obtain b bs where b: "replies = b # bs" "length bs = length calls"
    using Cons.prems(4) by (cases replies) auto
  obtain p where p: "carries b (wire_message mt_result s p)" "length p \<le> k_max_payload_size"
    using Cons.prems(6) b(1) by (auto dest: spec [of _ 0])
  have "s \<noteq> cn_next_seq c" using Cons.prems(5) by simp
  with call_wrong_reply [OF Cons.prems(1) _ _ p, of args "map RecvMsg bs" sid mid] Cons.prems(2,3) a b(1)
  obtain c' where c': "call sid mid args c = (Inl (ProtocolError ''Sequence ID mismatch''), c')"
    "ready_remote c'" "cn_next_seq c' = cn_next_seq c + 1" "l_inbox (cn_link c') = map RecvMsg bs"
    by (auto simp: msg_type_defs)
  have "\<forall>i < length bs. \<exists>p. carries (bs ! i) (wire_message mt_result (s + 1 + word_of_nat i) p)
      \<and> length p \<le> k_max_payload_size"
  proof (intro allI impI)
    fix i assume "i < length bs"
    then have "Suc i < length replies" using b(1) by simp
    with Cons.prems(6) b(1)
    show "\<exists>p. carries (bs ! i) (wire_message mt_result (s + 1 + word_of_nat i) p) \<and> length p \<le> k_max_payload_size"
      by (metis add.assoc nth_Cons_Suc of_nat_Suc)
  qed
  then have "fst (calls_in_a_row calls c') = replicate (length calls) (Inl (ProtocolError ''Sequence ID mismatch''))"
    using Cons.prems(2,5) c' b(2) by (intro Cons.IH [of c' bs "s + 1"]) simp_all
  then show ?case by (simp add: a c'(1) split_beta)
qed

text \<open>Claim C38. A reply that arrives after its call has timed out is never skipped: it answers the
  next call, whose own reply answers the one after, and so on, so that from the timeout on
  every call on the connection throws \<^verbatim>\<open>Sequence ID mismatch\<close>, although the service answers
  each of them.\<close>

theorem late_reply_breaks_connection:
  assumes "ready_remote c" and "sendable (contents args)"
    and "list_all (\<lambda>(sid, mid, args). sendable (contents args)) calls"
    and "l_inbox (cn_link c) = RecvThrow (ServiceError m) # map RecvMsg replies" and "length replies = length calls"
    and "\<forall>i < length replies. \<exists>p. carries (replies ! i) (wire_message mt_result (cn_next_seq c + word_of_nat i) p)
      \<and> length p \<le> k_max_payload_size"
  shows "fst (calls_in_a_row ((sid, mid, args) # calls) c)
    = Inl (ServiceError m) # replicate (length calls) (Inl (ProtocolError ''Sequence ID mismatch''))"
proof -
  let ?msg = "message_buffer mt_call (cn_next_seq c) (call_header_repr (sid, mid) @ contents args)"
  let ?c = "c\<lparr>cn_next_seq := cn_next_seq c + 1, cn_link := (cn_link c)\<lparr>l_sent := l_sent (cn_link c) @ [?msg]\<rparr>\<rparr>"
  let ?d = "?c\<lparr>cn_link := (cn_link ?c)\<lparr>l_inbox := map RecvMsg replies\<rparr>\<rparr>"
  have "request (\<lambda>seq. create_call_message seq sid mid args) c = (Inr (cn_next_seq c), ?c)"
    by (rule request_remote [OF assms(1)]) (simp add: create_messages assms(2))
  moreover have "recv_reply (cn_next_seq c) 5000 ?c = (Inl (ServiceError m), ?d)"
    using assms(1,4)
    by (subst recv_reply.simps) (simp add: conn_receive_def on_link_def link_receive_def ready_remote_def)
  ultimately have c1: "call sid mid args c = (Inl (ServiceError m), ?d)"
    by (simp add: call_def sbind_apply reply_payload_def)
  have "fst (calls_in_a_row calls ?d) = replicate (length calls) (Inl (ProtocolError ''Sequence ID mismatch''))"
    using assms(1) by (intro calls_lag_behind [OF _ assms(3) _ assms(5) _ assms(6)]) (simp_all add: ready_remote_def)
  then show ?thesis by (simp add: c1 split_beta)
qed

theorem late_reply_breaks_connection_witness:
  "fst (calls_in_a_row [(5, 0, buffer_new), (5, 0, buffer_new)]
      (demo_client [RecvThrow (ServiceError ''TcpTransport: read timeout''), RecvMsg (message_buffer mt_result 1 [9])]))
    = [Inl (ServiceError ''TcpTransport: read timeout''), Inl (ProtocolError ''Sequence ID mismatch'')]"
proof -
  have "fst (calls_in_a_row [(5, 0, buffer_new), (5, 0, buffer_new)]
      (demo_client [RecvThrow (ServiceError ''TcpTransport: read timeout''), RecvMsg (message_buffer mt_result 1 [9])]))
    = Inl (ServiceError ''TcpTransport: read timeout'')
      # replicate (length [(5 :: u16, 0 :: u16, buffer_new)]) (Inl (ProtocolError ''Sequence ID mismatch''))"
  proof (rule late_reply_breaks_connection [where replies = "[message_buffer mt_result 1 [9]]"])
    show "\<forall>i<length [message_buffer mt_result 1 [9]]. \<exists>p. carries ([message_buffer mt_result 1 [9]] ! i)
        (wire_message mt_result
          (cn_next_seq (demo_client [RecvThrow (ServiceError ''TcpTransport: read timeout''),
            RecvMsg (message_buffer mt_result 1 [9])]) + word_of_nat i) p)
        \<and> length p \<le> k_max_payload_size"
      by (auto simp: k_max_payload_size_def demo_carries intro!: exI [of _ "[9]"])
  qed simp_all
  then show ?thesis by simp
qed

section \<open>Properties of streaming calls\<close>

definition collect :: "buffer \<Rightarrow> buffer list \<Rightarrow> unit res \<times> buffer list" where
  "collect chunk chunks = (Inr (), chunks @ [chunk])"

text \<open>An event that brings a chunk of this stream. The streaming loop, unlike the others, reads
  where the transport left the read position, which is at the start.\<close>

definition brings :: "msg_type \<Rightarrow> u32 \<Rightarrow> byte list \<Rightarrow> recv_event \<Rightarrow> bool" where
  "brings ty seq p ev \<longleftrightarrow> (\<exists>b. ev = RecvMsg b \<and> carries b (wire_message ty seq p) \<and> read_pos b = 0)
     \<and> length p \<le> k_max_payload_size"

lemma reset_read_0: "read_pos b = 0 \<Longrightarrow> reset_read b = b"
  by (simp add: reset_read_def)

text \<open>What one message of another type makes of the stream.\<close>

definition stream_outcome :: "u32 \<Rightarrow> msg_type \<Rightarrow> u32 \<Rightarrow> u16 \<Rightarrow> string \<Rightarrow> u32 res" where
  "stream_outcome seq ty s code m =
    (if s \<noteq> seq then Inl (ProtocolError ''Sequence ID mismatch in stream'')
     else if ty = mt_stream_end then Inr seq
     else if ty = mt_error then Inl (ServiceError (''Service error'' @ '' (code '' @ dec_string (unat code) @ ''): '' @ m))
     else Inl (ProtocolError ''Unexpected message type during streaming''))"

lemma stream_loop_message:
  assumes "cn_peer c = Remote" and "l_inbox (cn_link c) = ev # es" and "brings ty s p ev" and "error_payload ty p code m"
  shows "stream_loop seq f timeout (c, h) =
    (let c1 = c\<lparr>cn_link := (cn_link c)\<lparr>l_inbox := es\<rparr>\<rparr> in
     if s = seq \<and> ty = mt_stream
     then (case f (holding p) h of (Inl e, h) \<Rightarrow> (Inl e, c1, h) | (Inr _, h) \<Rightarrow> stream_loop seq f timeout (c1, h))
     else (stream_outcome seq ty s code m, c1, h))"
proof -
  obtain b where b: "ev = RecvMsg b" "carries b (wire_message ty s p)" "read_pos b = 0" "length p \<le> k_max_payload_size"
    using assms(3) by (auto simp: brings_def)
  note v = validated_carried [OF b(2,4), unfolded reset_read_0 [OF b(3)]]
  have n: "unat (word_of_nat (length p) :: u32) = length p"
    using b(4) by (simp add: unat_of_nat k_max_payload_size_def)
  have "contents b = wire_message ty s p" using b(2) by (simp add: carries_def)
  then have ch: "chunk_of (plain_header ty' s' (length p)) b = Inr (holding p)" for ty' s'
    using write_holding [of p] payload_fits [OF b(4)] by (auto simp: chunk_of_def Let_def n)
  have e: "ty = mt_error \<Longrightarrow> (thrown_by_service ''Service error'' (advance 16 b) :: u32 res)
      = Inl (ServiceError (''Service error'' @ '' (code '' @ dec_string (unat code) @ ''): '' @ m))"
    using v(2,3) assms(4) by (intro thrown_run) (simp_all add: error_payload_def)
  have "mt_stream \<noteq> mt_error" "mt_stream \<noteq> mt_stream_end" "mt_error \<noteq> mt_stream_end" by (simp_all add: msg_type_defs)
  then show ?thesis
    using receive_remote [OF assms(1), of b es timeout] assms(2) b(1)
    by (subst stream_loop.simps) (auto simp: v(1) ch e Let_def stream_outcome_def)
qed

lemma not_an_error [simp]: "error_payload mt_stream p 0 []" "error_payload mt_stream_end p code m"
    "error_payload mt_prop_notify p code m" "error_payload mt_result p code m"
  by (simp_all add: error_payload_def msg_type_defs)

lemma stream_loop_chunks:
  assumes "list_all2 (brings mt_stream seq) ps evs" and "cn_peer c = Remote" and "l_inbox (cn_link c) = evs @ es"
  shows "stream_loop seq collect timeout (c, h)
    = stream_loop seq collect timeout (c\<lparr>cn_link := (cn_link c)\<lparr>l_inbox := es\<rparr>\<rparr>, h @ map holding ps)"
  using assms
proof (induction ps evs arbitrary: c h rule: list_all2_induct)
  case Nil
  then show ?case by (cases c; cases "cn_link c") simp
next
  case (Cons p ps ev evs)
  have "stream_loop seq collect timeout (c, h)
      = stream_loop seq collect timeout (c\<lparr>cn_link := (cn_link c)\<lparr>l_inbox := evs @ es\<rparr>\<rparr>, h @ [holding p])"
    by (subst stream_loop_message [OF Cons.prems(1) _ Cons.hyps(1) not_an_error(1), of "evs @ es"])
      (simp_all add: Cons.prems(2) Let_def collect_def)
  with Cons.IH [of "c\<lparr>cn_link := (cn_link c)\<lparr>l_inbox := evs @ es\<rparr>\<rparr>" "h @ [holding p]"] Cons.prems(1)
  show ?case by simp
qed

lemma call_streaming_loop:
  assumes "ready_remote c" and "sendable (contents args)"
  shows "call_streaming sid mid args f timeout (c, h) = stream_loop (cn_next_seq c) f timeout
    (c\<lparr>cn_next_seq := cn_next_seq c + 1, cn_link := (cn_link c)\<lparr>l_sent := l_sent (cn_link c)
      @ [message_buffer mt_call (cn_next_seq c) (call_header_repr (sid, mid) @ contents args)]\<rparr>\<rparr>, h)"
  using request_remote [where build = "\<lambda>seq. create_call_message seq sid mid args", OF assms(1)] assms(2)
  by (simp add: call_streaming_def create_messages)

lemma fold_add_chunk: "r_chunks (fold reader_add_chunk cs r) = r_chunks r @ cs"
    "r_index (fold reader_add_chunk cs r) = r_index r"
    "r_sequence_id (fold reader_add_chunk cs r) = r_sequence_id r"
  by (induction cs arbitrary: r) (simp_all add: reader_add_chunk_def)

lemma stream_call_collects:
  assumes "ready_remote c" and "sendable (contents args)"
    and "l_inbox (cn_link c) = evs @ ev # rest" and "list_all2 (brings mt_stream (cn_next_seq c)) ps evs"
    and "brings ty s p ev" and "error_payload ty p code m" and "\<not> (s = cn_next_seq c \<and> ty = mt_stream)"
  shows "\<exists>c'. l_inbox (cn_link c') = rest \<and> call_streaming sid mid args collect timeout (c, [])
    = (stream_outcome (cn_next_seq c) ty s code m, c', map holding ps)"
proof -
  let ?c = "c\<lparr>cn_next_seq := cn_next_seq c + 1, cn_link := (cn_link c)\<lparr>l_sent := l_sent (cn_link c)
      @ [message_buffer mt_call (cn_next_seq c) (call_header_repr (sid, mid) @ contents args)]\<rparr>\<rparr>"
  let ?d = "?c\<lparr>cn_link := (cn_link ?c)\<lparr>l_inbox := ev # rest\<rparr>\<rparr>"
  have peer: "cn_peer c = Remote" using assms(1) by (simp add: ready_remote_def)
  have l: "call_streaming sid mid args collect timeout (c, []) = stream_loop (cn_next_seq c) collect timeout (?d, map holding ps)"
    using stream_loop_chunks [OF assms(4), of ?c "ev # rest" timeout "[]"] assms(3) peer
    by (simp add: call_streaming_loop [OF assms(1,2)])
  have d: "cn_peer ?d = Remote" "l_inbox (cn_link ?d) = ev # rest" using peer by simp_all
  show ?thesis
    using stream_loop_message [OF d assms(5,6), of "cn_next_seq c" collect timeout "map holding ps"] assms(7)
    by (auto simp: l Let_def)
qed

lemma streaming_reader_collect:
  "call_streaming_reader sid mid args timeout c = (case call_streaming sid mid args collect timeout (c, []) of
      (Inl e, c, chunks) \<Rightarrow> (Inl e, c)
    | (Inr seq, c, chunks) \<Rightarrow>
        (Inr \<lparr>r_chunks = chunks, r_index = 0, r_sequence_id = seq, r_complete = True\<rparr>, c))"
proof -
  have col: "(\<lambda>chunk chunks. (Inr (), chunks @ [chunk])) = collect" by (simp add: collect_def fun_eq_iff)
  have "reader_set_complete (fold reader_add_chunk chunks (reader_new seq))
      = \<lparr>r_chunks = chunks, r_index = 0, r_sequence_id = seq, r_complete = True\<rparr>" for chunks seq
    by (simp add: fold_add_chunk reader_set_complete_def reader_new_def)
  then show ?thesis
    by (simp add: call_streaming_reader_def col split: prod.splits sum.splits)
qed

text \<open>A streaming call whose service sends chunks and the end of the stream gives a
  reader that holds exactly these chunks, in order, is complete and stands at its first chunk;
  a service error after some chunks is thrown with its code and text.\<close>

theorem streaming_call_collects:
  assumes "ready_remote c" and "sendable (contents args)"
    and "l_inbox (cn_link c) = evs @ ev # rest" and "list_all2 (brings mt_stream (cn_next_seq c)) ps evs"
    and "brings ty (cn_next_seq c) p ev" and "ty \<noteq> mt_stream" and "error_payload ty p code m"
  shows "fst (call_streaming_reader sid mid args timeout c) =
    (if ty = mt_stream_end
     then Inr \<lparr>r_chunks = map holding ps, r_index = 0, r_sequence_id = cn_next_seq c, r_complete = True\<rparr>
     else if ty = mt_error then Inl (ServiceError (''Service error'' @ '' (code '' @ dec_string (unat code) @ ''): '' @ m))
     else Inl (ProtocolError ''Unexpected message type during streaming''))
    \<and> l_inbox (cn_link (snd (call_streaming_reader sid mid args timeout c))) = rest"
  using stream_call_collects [OF assms(1-5,7), of sid mid timeout] assms(6)
  by (auto simp: streaming_reader_collect stream_outcome_def)

lemma read_pos_message [simp]: "read_pos (message_buffer t s p) = 0"
  by (simp add: message_buffer_def) (simp add: buffer_new_def)

lemma demo_brings: "brings mt_stream_end 1 [] (RecvMsg (message_buffer mt_stream_end 1 []))"
    "brings mt_stream 1 [9] (RecvMsg (message_buffer mt_stream 1 [9]))"
    "brings mt_prop_notify 0 (property_header_repr \<lparr>ph_type_id = 4, ph_object_id = 1, ph_property_id = 7, ph_reserved = 0\<rparr>
      @ [42]) demo_note_event"
  by (auto simp: brings_def demo_note_event_def k_max_payload_size_def k_max_capacity_eq property_hdr.width)

lemma stream_types: "mt_stream_end \<noteq> mt_stream"
  by (simp add: msg_type_defs)

text \<open>A property notification that arrives while a streaming call is running does not
  reach its callback, and ends the call with a \<^verbatim>\<open>Sequence ID mismatch in stream\<close>: the loop of
  the streaming calls lacks the case that the other requests have for it. (The first sequence
  id is 1, so 0, the one of a notification, is none of a call's until they wrap around.)\<close>

theorem notification_ends_stream:
  assumes "ready_remote c" and "sendable (contents args)" and "cn_next_seq c \<noteq> 0"
    and "l_inbox (cn_link c) = evs @ ev # rest" and "list_all2 (brings mt_stream (cn_next_seq c)) ps evs"
    and "brings mt_prop_notify 0 p ev"
  shows "fst (call_streaming_reader sid mid args timeout c) = Inl (ProtocolError ''Sequence ID mismatch in stream'')
    \<and> l_inbox (cn_link (snd (call_streaming_reader sid mid args timeout c))) = rest"
  using stream_call_collects [OF assms(1,2,4-6) not_an_error(3), of sid mid timeout] assms(3)
  by (auto simp: streaming_reader_collect stream_outcome_def)

section \<open>Properties of the handshake\<close>

lemma read_methods_run:
  "buffer_ok b \<Longrightarrow> unread b = concat (map descriptor_repr ds) @ rest \<Longrightarrow> read_methods (length ds) b ms = (Inr (), ms @ ds)"
proof (induction ds arbitrary: b ms)
  case Nil
  then show ?case by simp
next
  case (Cons d ds)
  have "decode_method_descriptor b = Inr (d, advance 8 b)"
    using descriptor.dec_consumes [where x = d and b = b and rest = "concat (map descriptor_repr ds) @ rest"] Cons.prems
    by (simp add: descriptor.width)
  moreover have "buffer_ok (advance 8 b)" "unread (advance 8 b) = concat (map descriptor_repr ds) @ rest"
    using Cons.prems by (simp_all add: descriptor.width)
  ultimately show ?case by (simp add: Cons.IH)
qed

text \<open>Whether the two sides' version ranges overlap, with the error of the side that is too old.\<close>

definition version_check :: "string \<Rightarrow> string \<Rightarrow> init_message \<Rightarrow> exn option" where
  "version_check Who who m =
    (if im_current_version m < k_first_version
     then Some (VersionMismatchError (''Service version too old: service='' @ version_text (im_current_version m)
        @ '', minimum required='' @ version_text k_first_version))
     else if im_first_version m > k_current_version
     then Some (VersionMismatchError (Who @ '' version too old: '' @ who @ ''='' @ version_text k_current_version
        @ '', service requires='' @ version_text (im_first_version m)))
     else None)"

lemma negotiate_run:
  assumes "carries b (wire_message mt_init q (init_repr m @ rest))" and "read_pos b = 0"
    and "length (init_repr m @ rest) \<le> k_max_payload_size" and "im_magic m = k_magic"
  shows "negotiate Who who b = (case version_check Who who m of Some e \<Rightarrow> Inl e | None \<Rightarrow> Inr (m, advance 32 b))"
    and "buffer_ok (advance 32 b)" and "unread (advance 32 b) = rest"
proof -
  note v = validated_carried [OF assms(1,3), unfolded reset_read_0 [OF assms(2)]]
  have i: "decode_init (advance 16 b) = Inr (m, advance 16 (advance 16 b))"
    using init.dec_consumes [OF assms(4) v(2,3)] by simp
  show "negotiate Who who b = (case version_check Who who m of Some e \<Rightarrow> Inl e | None \<Rightarrow> Inr (m, advance 32 b))"
    using i by (simp add: negotiate_def dbind_simps v(1) version_check_def)
  have "buffer_ok (advance 16 (advance 16 b))" "unread (advance 16 (advance 16 b)) = rest"
    using v(2,3) by (auto simp del: advance_advance unread_advance) (simp_all add: v(3) [simplified] del: advance_advance)
  then show "buffer_ok (advance 32 b)" and "unread (advance 32 b) = rest" by simp_all
qed

lemma client_handshake_run:
  assumes "ready_remote c" and "l_inbox (cn_link c) = RecvMsg b # rest"
    and "carries b (wire_message mt_init q (init_repr m @ concat (map descriptor_repr ds)))" and "read_pos b = 0"
    and "length (init_repr m @ concat (map descriptor_repr ds)) \<le> k_max_payload_size"
    and "im_magic m = k_magic" and "unat (im_method_count m) = length ds"
  shows "client_init_handshake c = (case version_check ''Client'' ''client'' m of
      Some e \<Rightarrow> (Inl e, c\<lparr>cn_link := (cn_link c)\<lparr>l_inbox := rest\<rparr>\<rparr>)
    | None \<Rightarrow> (Inr (), c\<lparr>cn_version := min k_current_version (im_current_version m),
        cn_peer_caps := im_capabilities m, cn_negotiated_caps := cn_local_caps c AND im_capabilities m,
        cn_methods := ds, cn_link := (cn_link c)\<lparr>l_inbox := rest,
          l_sent := l_sent (cn_link c) @ (if im_current_version m \<ge> make_version 1 1
            then [message_buffer mt_init_ack 0 (init_repr \<lparr>im_magic = k_magic, im_first_version = k_first_version,
                im_current_version = k_current_version, im_capabilities = cn_local_caps c, im_method_count = 0\<rparr>)]
            else [])\<rparr>\<rparr>))"
proof -
  note n = negotiate_run [OF assms(3-6)]
  have r: "read_methods (unat (im_method_count m)) (advance 32 b) [] = (Inr (), ds)"
    using read_methods_run [OF n(2), of ds "[]" "[]"] n(3) assms(7) by simp
  have ge: "make_version 1 1 \<le> min k_current_version (im_current_version m) \<longleftrightarrow> im_current_version m \<ge> make_version 1 1"
    and le: "make_version 1 1 \<le> k_current_version"
    by (simp_all add: k_current_version_def min_def)
  show ?thesis
    using assms(1,2)
    by (cases "version_check ''Client'' ''client'' m"; cases c; cases "cn_link c")
      (simp_all add: client_init_handshake_def ready_remote_def on_link_def link_receive_def n(1) r Let_def ge le
        sbind_apply slift_def create_init_messages link_send_def)
qed

text \<open>The client's handshake with a service that sends an init message: disjoint version
  ranges are refused, with the side that is too old named, and otherwise the connection has the
  lower of the two current versions, the capabilities of both sides and the service's method
  list, and the service is told the client's capabilities exactly when it speaks version 1.1.\<close>

theorem client_handshake:
  assumes "ready_remote c" and "l_inbox (cn_link c) = RecvMsg b # rest"
    and "carries b (wire_message mt_init q (init_repr m @ concat (map descriptor_repr ds)))" and "read_pos b = 0"
    and "length (init_repr m @ concat (map descriptor_repr ds)) \<le> k_max_payload_size"
    and "im_magic m = k_magic" and "unat (im_method_count m) = length ds"
  shows "client_init_handshake c = (case version_check ''Client'' ''client'' m of
      Some e \<Rightarrow> (Inl e, c\<lparr>cn_link := (cn_link c)\<lparr>l_inbox := rest\<rparr>\<rparr>)
    | None \<Rightarrow> (Inr (), c\<lparr>cn_version := min k_current_version (im_current_version m),
        cn_peer_caps := im_capabilities m, cn_negotiated_caps := cn_local_caps c AND im_capabilities m,
        cn_methods := ds, cn_link := (cn_link c)\<lparr>l_inbox := rest,
          l_sent := l_sent (cn_link c) @ (if im_current_version m \<ge> make_version 1 1
            then [message_buffer mt_init_ack 0 (init_repr \<lparr>im_magic = k_magic, im_first_version = k_first_version,
                im_current_version = k_current_version, im_capabilities = cn_local_caps c, im_method_count = 0\<rparr>)]
            else [])\<rparr>\<rparr>))"
  by (rule client_handshake_run [OF assms])

section \<open>Properties of the process handle\<close>

lemma wait_loop_run:
  "0 < p \<Longrightarrow> \<exists>k. wait_loop n p w = (Inr (p \<in> set (take n (w_waits w))), w\<lparr>w_waits := drop k (w_waits w)\<rparr>)"
proof (induction n arbitrary: w)
  case 0
  show ?case by (cases w) (auto simp: sret_def intro!: exI [of _ 0])
next
  case (Suc n)
  show ?case
  proof (cases "w_waits w")
    case Nil
    then show ?thesis
      using Suc.IH [OF Suc.prems, of w] Suc.prems by (simp add: sbind_apply wait_nohang_def)
  next
    case (Cons r rs)
    then show ?thesis
      using Suc.IH [OF Suc.prems, of "w\<lparr>w_waits := rs\<rparr>"] Suc.prems
      by (auto simp: sbind_apply wait_nohang_def sret_def intro: exI [of _ 1] exI [of _ "Suc _"])
  qed
qed

text \<open>Terminating a live handle always returns: the process is asked to stop, killed
  exactly when none of ten waits reaps it, and the handle is dead afterwards, so that
  terminating it again, as the destructor does, signals nobody.\<close>

lemma terminate_stops_process:
  assumes "0 < pid p"
  shows "\<exists>w'. process_terminate (p, w) = (Inr (), p\<lparr>pid := -1\<rparr>, w')
    \<and> w_kills w' = w_kills w @ (pid p, SIGTERM) # (if pid p \<in> set (take 10 (w_waits w)) then [] else [(pid p, SIGKILL)])
    \<and> w_sys w' = w_sys w \<and> process_terminate (p\<lparr>pid := -1\<rparr>, w') = (Inr (), p\<lparr>pid := -1\<rparr>, w')"
  using wait_loop_run [OF assms, of 10 "send_signal (pid p) SIGTERM w"] assms
  by (auto simp: process_terminate_def send_signal_def)

text \<open>Moving a process handle hands over the process, its pipes, version and methods and
  leaves a dead handle behind, but drops the capabilities that the handshake negotiated: a
  connection over the moved handle has no capability at all, whatever the service offers.
  Move assignment keeps the capabilities of the handle it overwrites.\<close>

theorem process_move_drops_capabilities:
  "(case process_move p of (q, old) \<Rightarrow>
      pid q = pid p \<and> to_service q = to_service p \<and> from_service q = from_service p
      \<and> p_version q = p_version p \<and> p_methods q = p_methods p
      \<and> pid old = -1 \<and> \<not> pipe_valid (to_service old) \<and> \<not> pipe_valid (from_service old)
      \<and> \<not> client_has_capability cap (c\<lparr>cn_peer := Local, cn_proc := q\<rparr>))
   \<and> (case process_move_assign False this p w of
        (Inr (q, old), w') \<Rightarrow> pid q = pid p \<and> p_methods q = p_methods p
          \<and> p_negotiated_caps q = p_negotiated_caps this \<and> p_peer_caps q = p_peer_caps this
      | (Inl e, w') \<Rightarrow> False)"
proof -
  obtain p' w' where t: "(if pid this > 0 then process_terminate (this, w) else (Inr (), this, w)) = (Inr (), p', w')"
    "p_negotiated_caps p' = p_negotiated_caps this" "p_peer_caps p' = p_peer_caps this"
  proof (cases "0 < pid this")
    case True
    then show ?thesis
      using terminate_stops_process [OF True, of w] that by fastforce
  qed (use that in auto)
  then show ?thesis
    by (auto simp: process_move_def pipe_move_def pipe_valid_def client_has_capability_def has_capability_def
        client_negotiated_capabilities_def cap_none_def process_move_assign_def split: prod.splits)
qed

text \<open>Moving a connection loses its subscriptions on the client's side: the new connection
  still receives the notifications, and drops every one of them, and a connection that is
  assigned to goes on with the callbacks of the connection it replaced.\<close>

theorem client_move_loses_callbacks:
  assumes "buffer_ok b" and "unread b = property_header_repr h @ v"
  shows "dispatch_notification b (fst (client_move c)) = (Inr (), fst (client_move c))
    \<and> cn_link (fst (client_move c)) = cn_link c \<and> cn_next_seq (fst (client_move c)) = cn_next_seq c
    \<and> cn_callbacks (fst (client_move_assign False this c)) = cn_callbacks this"
proof -
  have "decode_property_header b = Inr (h, advance 12 b)"
    using property_hdr.dec_consumes [OF _ assms] by (simp add: property_hdr.width)
  then show ?thesis by (simp add: dispatch_notification_def client_move_def client_move_assign_def)
qed

text \<open>What a receive leaves alone.\<close>

definition same_handles :: "world \<Rightarrow> world \<Rightarrow> bool" where
  "same_handles w w' \<longleftrightarrow> closed (w_sys w') = closed (w_sys w) \<and> w_kills w' = w_kills w \<and> w_waits w' = w_waits w"

lemma pipe_read_timeout_closed: "pipe_read_timeout p n s = (r, s') \<Longrightarrow> closed s' = closed s"
  by (auto simp: pipe_read_timeout_def split: if_splits prod.splits poll_event.splits)

lemma process_receive_handles:
  assumes "process_receive p t w = (r, w')"
  shows "same_handles w w'"
proof -
  define h where "h = (if t \<ge> 0 then pipe_read_timeout (from_service p) 16 (w_sys w)
            else case pipe_read (from_service p) 16 (reads (w_sys w)) of (n, es) \<Rightarrow> (n, (w_sys w)\<lparr>reads := es\<rparr>))"
  obtain n s where h': "h = (n, s)" by fastforce
  have "closed s = closed (w_sys w)"
    using h' by (auto simp: h_def split: if_splits prod.splits dest: pipe_read_timeout_closed)
  with assms [unfolded process_receive_def h_def [symmetric] h' Let_def] show ?thesis
    by (auto simp: same_handles_def split: if_splits io.splits sum.splits prod.splits fill.splits)
qed

lemma process_init_handshake_handles:
  assumes "process_init_handshake (p, w) = (r, p', w')"
  shows "same_handles w w' \<and> pid p' = pid p \<and> to_service p' = to_service p \<and> from_service p' = from_service p"
proof -
  obtain r1 w1 where r1: "process_receive p 5000 w = (r1, w1)" by fastforce
  with assms process_receive_handles [OF r1] show ?thesis
    by (auto simp: process_init_handshake_def Let_def split: sum.splits option.splits prod.splits)
qed

lemma pipe_close_ends:
  "0 \<le> fd \<Longrightarrow> pipe_close \<lparr>read_fd = fd, write_fd = -1\<rparr> s = (\<lparr>read_fd = -1, write_fd = -1\<rparr>, sys_close fd s)"
  "0 \<le> fd \<Longrightarrow> pipe_close \<lparr>read_fd = -1, write_fd = fd\<rparr> s = (\<lparr>read_fd = -1, write_fd = -1\<rparr>, sys_close fd s)"
  by (simp_all add: pipe_close_def pipe_close_read_def pipe_close_write_def)

lemma process_terminate_world:
  "\<exists>w'. process_terminate (p, w) = (Inr (), p\<lparr>pid := if 0 < pid p then -1 else pid p\<rparr>, w')
    \<and> w_sys w' = w_sys w \<and> (0 < pid p \<longrightarrow> (pid p, SIGTERM) \<in> set (w_kills w'))"
proof (cases "0 < pid p")
  case True
  with wait_loop_run [OF True, of 10 "send_signal (pid p) SIGTERM w"] show ?thesis
    by (cases "pid p \<in> set (take 10 (w_waits w))") (auto simp: process_terminate_def send_signal_def)
qed (simp add: process_terminate_def)

lemma wait_loop_quiet: "w_waits w = [] \<Longrightarrow> p \<noteq> 0 \<Longrightarrow> wait_loop n p w = (Inr False, w)"
  by (induction n) (auto simp: sret_def sbind_apply wait_nohang_def)

text \<open>Spawning closes the child's two pipe ends and, when it succeeds, gives a handle
  that owns the other two; when the fork or the handshake fails with an exception, all four
  are closed and a process that was started is signalled, so a failed spawn leaks neither a
  descriptor nor an untold child.\<close>

theorem spawn_leaks_nothing:
  assumes "0 \<le> r1" "0 \<le> w1" "0 \<le> r2" "0 \<le> w2"
    and "spawn (Some (r1, w1)) (Some (r2, w2)) fork_pid w = (r, w')"
  shows "case r of
      Inr p \<Rightarrow> set (closed (w_sys w')) = set (closed (w_sys w)) \<union> {w1, r2} \<and> pid p = fork_pid
        \<and> from_service p = \<lparr>read_fd = r1, write_fd = -1\<rparr> \<and> to_service p = \<lparr>read_fd = -1, write_fd = w2\<rparr>
    | Inl e \<Rightarrow> catchable e \<longrightarrow> set (closed (w_sys w')) = set (closed (w_sys w)) \<union> {r1, w1, r2, w2}
        \<and> (0 < fork_pid \<longrightarrow> (fork_pid, SIGTERM) \<in> set (w_kills w'))"
proof -
  let ?w = "w\<lparr>w_sys := sys_close w1 (sys_close r2 (w_sys w))\<rparr>"
  let ?p = "process_new fork_pid \<lparr>read_fd = -1, write_fd = w2\<rparr> \<lparr>read_fd = r1, write_fd = -1\<rparr>"
  show ?thesis
  proof (cases "fork_pid < 0")
    case True
    with assms show ?thesis
      by (auto simp: spawn_def pipe_create_pair_def pipe_close_ends Let_def sys_close_def)
  next
    case False
    obtain r' p' w2' where h: "process_init_handshake (?p, ?w) = (r', p', w2')" by (rule prod_cases3)
    have s: "spawn (Some (r1, w1)) (Some (r2, w2)) fork_pid w = (case (r', p', w2') of
            (Inr _, p, w) \<Rightarrow> (Inr p, w)
          | (Inl e, p, w) \<Rightarrow>
            if \<not> catchable e then (Inl e, w)
            else (case process_terminate (p, w) of
              (Inl e', _, w) \<Rightarrow> (Inl e', w)
            | (Inr _, p, w) \<Rightarrow>
                (Inl e, w\<lparr>w_sys := snd (pipe_close (to_service p) (snd (pipe_close (from_service p) (w_sys w))))\<rparr>)))"
      using False assms(1-4) h by (simp add: spawn_def pipe_create_pair_def pipe_close_ends Let_def)
    have k: "pid p' = fork_pid" "to_service p' = \<lparr>read_fd = -1, write_fd = w2\<rparr>"
        "from_service p' = \<lparr>read_fd = r1, write_fd = -1\<rparr>" "closed (w_sys w2') = w1 # r2 # closed (w_sys w)"
      using process_init_handshake_handles [OF h] by (auto simp: process_new_def same_handles_def sys_close_def)
    obtain w3 where w3: "process_terminate (p', w2') = (Inr (), p'\<lparr>pid := if 0 < pid p' then -1 else pid p'\<rparr>, w3)"
        "w_sys w3 = w_sys w2'" "0 < pid p' \<Longrightarrow> (pid p', SIGTERM) \<in> set (w_kills w3)"
      using process_terminate_world [of p' w2'] by auto
    show ?thesis
    proof (cases r')
      case (Inl e)
      with assms(1-5) s k w3 show ?thesis
        by (cases "catchable e") (auto simp: pipe_close_ends sys_close_def)
    next
      case (Inr x)
      with assms(5) s k show ?thesis by auto
    qed
  qed
qed

text \<open>Receiving through a process handle is receiving through a pipe transport on its two
  pipes: the same messages, the same end of the stream, the same bytes consumed, and an
  exception exactly when the transport has one.\<close>

theorem process_receive_is_pipe_receive:
  assumes "0 < pid p" and "pipe_valid (to_service p)" and "pipe_valid (from_service p)"
  shows "case pt_receive \<lparr>to_peer = to_service p, from_peer = from_service p\<rparr> t (buffer_new, w_sys w) of
      (Inr True, msg, s) \<Rightarrow> process_receive p t w = (Inr (Some msg), w\<lparr>w_sys := s\<rparr>)
    | (Inr False, msg, s) \<Rightarrow> process_receive p t w = (Inr None, w\<lparr>w_sys := s\<rparr>)
    | (Inl e, msg, s) \<Rightarrow> \<exists>e'. process_receive p t w = (Inl e', w\<lparr>w_sys := s\<rparr>)
        \<and> (std_exception e' \<longleftrightarrow> std_exception e) \<and> (catchable e' \<longleftrightarrow> catchable e)"
proof -
  have new: "buffer_reset buffer_new = buffer_new" by (simp add: buffer_reset_def buffer_new_def)
  define h where "h = (if t \<ge> 0 then pipe_read_timeout (from_service p) 16 (w_sys w)
            else case pipe_read (from_service p) 16 (reads (w_sys w)) of (n, es) \<Rightarrow> (n, (w_sys w)\<lparr>reads := es\<rparr>))"
  obtain n s where h': "h = (n, s)" by fastforce
  have c: "pt_is_connected \<lparr>to_peer = to_service p, from_peer = from_service p\<rparr>"
    using assms by (simp add: pt_is_connected_def)
  note unf = pt_receive_def process_receive_def prod.case pipe_transport.simps new h_def [symmetric] h' Let_def
  show ?thesis
    unfolding unf using assms(1) c
    by (auto split: io.splits sum.splits prod.splits fill.splits)
qed

definition demo_init :: init_message where
  "demo_init = \<lparr>im_magic = k_magic, im_first_version = k_first_version, im_current_version = k_current_version,
     im_capabilities = 0x11, im_method_count = 1\<rparr>"

definition demo_method :: method_descriptor where
  "demo_method = \<lparr>md_service_id = 5, md_method_id = 1, md_flags = 0, md_reserved = 0\<rparr>"

section \<open>Starting a service\<close>

lemma pt_receive_ready:
  assumes "0 \<le> timeout_ms" and "polls s = PollReady err inp # ps" and "pt_is_connected t" and "0 \<le> read_fd (from_peer t)"
  shows "pt_receive t timeout_ms (msg, s) = pt_receive t (-1) (msg, s\<lparr>polls := ps\<rparr>)"
  using assms by (simp add: pt_receive_def pipe_read_timeout_def pipe_read_def Let_def split: prod.split)

lemma process_receive_frame:
  assumes "0 < pid p" "pipe_valid (to_service p)" "pipe_valid (from_service p)" "0 \<le> read_fd (from_service p)"
    and "0 \<le> timeout_ms" "polls (w_sys w) = PollReady err inp # ps"
    and "is_frame m" "uninterrupted (reads (w_sys w)) = RdData m # tail"
  shows "\<exists>b w'. process_receive p timeout_ms w = (Inr (Some b), w') \<and> carries b m \<and> read_pos b = 0
    \<and> w_waits w' = w_waits w"
proof -
  let ?t = "\<lparr>to_peer = to_service p, from_peer = from_service p\<rparr>"
  have c: "pt_is_connected ?t" using assms(2,3) by (simp add: pt_is_connected_def)
  note ready = pt_receive_ready [OF assms(5,6) this, of buffer_new]
  have "buffer_ok buffer_new" by (rule room_ok [OF room_new [of 0]]) simp
  with c obtain b s' where "pt_receive ?t (-1) (buffer_new, (w_sys w)\<lparr>polls := ps\<rparr>) = (Inr True, b, s')"
      "contents b = m" "read_pos b = 0" "buffer_ok b"
    using pt_receive_piece [of ?t "-1" buffer_new m "(w_sys w)\<lparr>polls := ps\<rparr>" tail] assms(4,7,8) by auto
  with process_receive_is_pipe_receive [OF assms(1-3), of timeout_ms w] ready assms(4) show ?thesis
    by (simp add: carries_def)
qed

text \<open>What a child has to send for \<^verbatim>\<open>spawn\<close> to return: a poll that finds the pipe readable and an init
  message with as many method descriptors as it announces.\<close>

definition says_hello :: "init_message \<Rightarrow> method_descriptor list \<Rightarrow> world \<Rightarrow> bool" where
  "says_hello m ds w \<longleftrightarrow> im_magic m = k_magic \<and> unat (im_method_count m) = length ds
    \<and> length (init_repr m @ concat (map descriptor_repr ds)) \<le> k_max_payload_size
    \<and> (\<exists>err inp ps. polls (w_sys w) = PollReady err inp # ps)
    \<and> (\<exists>q tail. uninterrupted (reads (w_sys w)) = RdData (wire_message mt_init q (init_repr m @ concat (map descriptor_repr ds))) # tail)"

text \<open>Spawning a service that says hello gives a handle with its process, the lower of the two
  current versions, its capabilities and its methods, if their versions overlap; if not,
  \<^verbatim>\<open>spawn\<close> throws the error that names the side that is too old.\<close>

lemma spawn_says_hello:
  assumes "0 < k" "0 \<le> r1" "0 \<le> w1" "0 \<le> r2" "0 \<le> w2" and "says_hello m ds w"
  shows "\<exists>w'. spawn (Some (r1, w1)) (Some (r2, w2)) k w = (case version_check ''Host'' ''host'' m of
      Some e \<Rightarrow> (Inl e, w')
    | None \<Rightarrow> (Inr \<lparr>pid = k, to_service = \<lparr>read_fd = -1, write_fd = w2\<rparr>, from_service = \<lparr>read_fd = r1, write_fd = -1\<rparr>,
        reusable = True, p_version = min k_current_version (im_current_version m), p_peer_caps = im_capabilities m,
        p_negotiated_caps = im_capabilities m, p_methods = ds\<rparr>, w')) \<and> (version_check ''Host'' ''host'' m = None \<longrightarrow> w_waits w' = w_waits w)"
proof -
  let ?p = "process_new k \<lparr>read_fd = -1, write_fd = w2\<rparr> \<lparr>read_fd = r1, write_fd = -1\<rparr>"
  define w0 where "w0 = w\<lparr>w_sys := sys_close w1 (sys_close r2 (w_sys w))\<rparr>"
  obtain q err inp ps tail where h: "im_magic m = k_magic" "unat (im_method_count m) = length ds"
      "length (init_repr m @ concat (map descriptor_repr ds)) \<le> k_max_payload_size"
      "polls (w_sys w) = PollReady err inp # ps"
      "uninterrupted (reads (w_sys w)) = RdData (wire_message mt_init q (init_repr m @ concat (map descriptor_repr ds))) # tail"
    using assms(6) by (auto simp: says_hello_def)
  let ?m = "wire_message mt_init q (init_repr m @ concat (map descriptor_repr ds))"
  have "is_frame ?m"
    using h(3) declared_payload_wire [OF h(3), of mt_init q "[]"] by (simp add: is_frame_def)
  then obtain b w' where r: "process_receive ?p 5000 w0 = (Inr (Some b), w')" and b: "carries b ?m" "read_pos b = 0"
      and w': "w_waits w' = w_waits w"
    using process_receive_frame [of ?p 5000 w0 err inp ps ?m tail] assms(1-5) h(4,5)
    by (auto simp: w0_def sys_close_def process_new_def pipe_valid_def)
  note n = negotiate_run [OF b h(3,1)]
  have rd: "read_methods (unat (im_method_count m)) (advance 32 b) [] = (Inr (), ds)"
    using read_methods_run [OF n(2), of ds "[]" "[]"] n(3) h(2) by simp
  have hs: "process_init_handshake (?p, w0) = (case version_check ''Host'' ''host'' m of
      Some e \<Rightarrow> (Inl e, ?p, w')
    | None \<Rightarrow> (Inr (), ?p\<lparr>p_version := min k_current_version (im_current_version m),
        p_peer_caps := im_capabilities m, p_negotiated_caps := im_capabilities m, p_methods := ds\<rparr>, w'))"
    by (cases "version_check ''Host'' ''host'' m") (simp_all add: process_init_handshake_def r n(1) rd Let_def)
  obtain w4 where w4: "process_terminate (?p, w') = (Inr (), ?p\<lparr>pid := -1\<rparr>, w4)"
    using process_terminate_world [of ?p w'] assms(1) by (auto simp: process_new_def)
  show ?thesis
  proof (cases "version_check ''Host'' ''host'' m")
    case None
    then show ?thesis using assms(1-5) hs w'
      by (simp add: spawn_def pipe_create_pair_def pipe_close_ends Let_def w0_def process_new_def)
  next
    case (Some e)
    then have "catchable e" by (auto simp: version_check_def split: if_splits)
    with Some show ?thesis using assms(1-5) hs w4
      by (simp add: spawn_def pipe_create_pair_def pipe_close_ends Let_def w0_def)
  qed
qed

definition demo_hello :: world where
  "demo_hello = \<lparr>w_sys = \<lparr>reads = [RdData (wire_message mt_init 0 (init_repr demo_init @ descriptor_repr demo_method))],
     writes = [], polls = [PollReady False True], written = [], closed = [], options = []\<rparr>, w_waits = [], w_kills = []\<rparr>"

lemma demo_says_hello: "says_hello demo_init [demo_method] demo_hello" "version_check ''Host'' ''host'' demo_init = None"
proof -
  have "uninterrupted (reads (w_sys demo_hello))
      = [RdData (wire_message mt_init 0 (init_repr demo_init @ descriptor_repr demo_method))]"
    by (simp add: demo_hello_def uninterrupted_def)
  then show "says_hello demo_init [demo_method] demo_hello"
    by (auto simp: says_hello_def demo_init_def demo_hello_def descriptor.width k_max_payload_size_def)
qed (simp add: version_check_def demo_init_def k_first_version_def k_current_version_def make_version_def)

end
