(* ===== verification/Song_Rpc.thy ===== *)
theory Song_Rpc
  imports Song_Runtime Song_Process
begin

text \<open>
  The two ends together: a client connection of \<^theory_text>\<open>Song_Process\<close> and a service runtime of
  \<^theory_text>\<open>Song_Runtime\<close>, with the messages that one sends carried to the other.
\<close>

section \<open>Calls\<close>

text \<open>What a caller gets for what the service's dispatcher returned or threw.\<close>

definition call_result :: "buffer res \<Rightarrow> buffer res" where
  "call_result r = (case r of
      Inr response \<Rightarrow> Inr (holding (contents response))
    | Inl e \<Rightarrow> Inl (ServiceError (''Service error'' @ '' (code '' @ dec_string 3 @ ''): '' @ what e)))"

definition answer_type :: "buffer res \<Rightarrow> msg_type" where
  "answer_type r = (case r of Inr b \<Rightarrow> mt_result | Inl e \<Rightarrow> mt_error)"

definition answer_payload :: "buffer res \<Rightarrow> byte list" where
  "answer_payload r = (case r of Inr b \<Rightarrow> contents b | Inl e \<Rightarrow> le_bytes 2 ec_unknown_method @ string_repr (what e))"

lemma answer_message: "answer seq ec_unknown_method r = wire_message (answer_type r) seq (answer_payload r)"
  by (cases r) (simp_all add: answer_def answer_type_def answer_payload_def error_bytes_def)

lemma answer_outcome:
  assumes "answerable r"
  shows "answer_type r \<noteq> mt_prop_notify"
    and "error_payload (answer_type r) (answer_payload r) ec_unknown_method (case r of Inl e \<Rightarrow> what e | _ \<Rightarrow> [])"
    and "reply_outcome ''Service error'' u (answer_type r) (answer_payload r) ec_unknown_method (case r of Inl e \<Rightarrow> what e | _ \<Rightarrow> [])
      = call_result r"
proof -
  have t: "mt_result \<noteq> mt_prop_notify" "mt_error \<noteq> mt_prop_notify" "mt_result \<noteq> mt_error"
    by (simp_all add: msg_type_defs)
  show "answer_type r \<noteq> mt_prop_notify" by (cases r) (simp_all add: answer_type_def t)
  show "error_payload (answer_type r) (answer_payload r) ec_unknown_method (case r of Inl e \<Rightarrow> what e | _ \<Rightarrow> [])"
    using assms by (cases r) (simp_all add: answer_type_def answer_payload_def error_payload_def answerable_def t)
  show "reply_outcome ''Service error'' u (answer_type r) (answer_payload r) ec_unknown_method (case r of Inl e \<Rightarrow> what e | _ \<Rightarrow> [])
      = call_result r"
    by (cases r) (simp_all add: answer_type_def answer_payload_def reply_outcome_def call_result_def t ec_unknown_method_def)
qed

text \<open>Claim C1. A remote call, end to end: the message the client sends, however it is stored when
  the service has received it, is handled by running the registered dispatcher once on the
  arguments, and what the service then sends makes the client's call return the dispatcher's
  response, or throw its exception's text with code 3.\<close>

theorem remote_call:
  assumes client: "ready_remote c" "sendable (contents args)" "l_inbox (cn_link c) = RecvMsg reply # rest"
    and request: "carries b (contents (message_buffer mt_call (cn_next_seq c) (call_header_repr (sid, mid) @ contents args)))"
      "read_pos b = 0" "length (contents args) + 4 \<le> k_max_payload_size"
    and service: "map_of (rt_stream_dispatchers rt) sid = None" "map_of (rt_dispatchers rt) sid = Some d"
      "d mid (advance 20 b) (rt_user rt) = (r, u)" "answerable r" "n_faults (rt_io rt) = []"
    and reply: "carries reply (answer (cn_next_seq c) ec_unknown_method r)" "length (answer_payload r) \<le> k_max_payload_size"
  shows "\<exists>hdr m io. decode_header_validated b = Inr (hdr, m) \<and> unread (advance 20 b) = contents args
    \<and> handle_message net_wires code hdr m t (rt, cn) = (Inr (), rt\<lparr>rt_user := u, rt_io := io\<rparr>, cn)
    \<and> sent_to t io = sent_to t (rt_io rt) @ contents reply
    \<and> call sid mid args c = (call_result r, c\<lparr>cn_next_seq := cn_next_seq c + 1, cn_link := (cn_link c)\<lparr>
        l_sent := l_sent (cn_link c) @ [message_buffer mt_call (cn_next_seq c) (call_header_repr (sid, mid) @ contents args)],
        l_inbox := rest\<rparr>\<rparr>)"
proof -
  let ?p = "call_header_repr (sid, mid) @ contents args"
  let ?hdr = "plain_header mt_call (cn_next_seq c) (length ?p)"
  have p: "length ?p \<le> k_max_payload_size" using request(3) by (simp add: call_header.width)
  note v = validated_carried [OF request(1) [unfolded contents_message_buffer] p, unfolded reset_read_0 [OF request(2)]]
  have d: "d mid (advance 4 (advance 16 b)) (rt_user rt) = (r, u)" using service(3) by simp
  obtain io where io: "handle_message net_wires code ?hdr (advance 16 b) t (rt, cn) = (Inr (), rt\<lparr>rt_user := u, rt_io := io\<rparr>, cn)"
    "sent_to t io = sent_to t (rt_io rt) @ answer (cn_next_seq c) ec_unknown_method r"
    using net_port.handle_call_reply [OF v(2,3) service(1,2) d service(4), where hdr = ?hdr and wires = net_wires
        and mk = "writer_on_transport t" and t = t] service(5)
    by (auto simp: handle_message_def on_rt_def msg_type_defs net_wires_def)
  have "call sid mid args c = (reply_outcome ''Service error'' ''Unexpected message type in response'' (answer_type r)
        (answer_payload r) ec_unknown_method (case r of Inl e \<Rightarrow> what e | _ \<Rightarrow> []),
      c\<lparr>cn_next_seq := cn_next_seq c + 1, cn_user := cn_user c, cn_link := (cn_link c)\<lparr>
        l_sent := l_sent (cn_link c) @ [message_buffer mt_call (cn_next_seq c) ?p], l_inbox := rest\<rparr>\<rparr>)"
    unfolding call_def
    using reply answer_outcome(1,2) [OF service(4)]
    by (intro round_trip_remote [where evs = "[]" and ns = "[]" and reply = reply, OF client(1)])
      (simp_all add: create_messages client answer_message)
  moreover have "unread (advance 20 b) = contents args" using arg_cong [where f = "drop 4", OF v(3)] by (simp add: call_header.width)
  moreover have "contents reply = answer (cn_next_seq c) ec_unknown_method r"
    using reply(1) by (simp add: carries_def)
  ultimately show ?thesis
    using v(1) io answer_outcome(3) [OF service(4)] by (intro exI [of _ ?hdr] exI [of _ "advance 16 b"] exI [of _ io]) (cases c, simp)
qed

theorem remote_call_witness:
  "let c = demo_client [RecvMsg (message_buffer mt_error 1 (le_bytes 2 ec_unknown_method @ string_repr ''no such method''))];
       rt = register_dispatcher 5 echo (runtime_new () quiet_net)
   in \<exists>hdr m io. decode_header_validated (message_buffer mt_call 1 (call_header_repr (5, 1))) = Inr (hdr, m)
     \<and> handle_message net_wires no_code hdr m 4 (rt, conn_new) = (Inr (), rt\<lparr>rt_io := io\<rparr>, conn_new)
     \<and> sent_to 4 io = wire_message mt_error 1 (le_bytes 2 ec_unknown_method @ string_repr ''no such method'')
     \<and> fst (call 5 1 buffer_new c) = Inl (ServiceError (''Service error'' @ '' (code '' @ dec_string 3 @ ''): '' @ ''no such method''))"
proof -
  let ?e = "le_bytes 2 ec_unknown_method @ string_repr ''no such method''"
  let ?c = "demo_client [RecvMsg (message_buffer mt_error 1 ?e)]"
  let ?rt = "register_dispatcher 5 echo (runtime_new () quiet_net) :: (unit, unit, net) runtime"
  let ?r = "Inl (RuntimeError ''no such method'') :: buffer res"
  let ?b = "message_buffer mt_call 1 (call_header_repr (5, 1))"
  have a: "answer 1 ec_unknown_method ?r = wire_message mt_error 1 ?e" "answer_payload ?r = ?e"
    by (simp_all add: answer_def error_bytes_def answer_payload_def)
  have "\<exists>hdr m io. decode_header_validated ?b = Inr (hdr, m) \<and> unread (advance 20 ?b) = contents buffer_new
    \<and> handle_message net_wires no_code hdr m 4 (?rt, conn_new) = (Inr (), ?rt\<lparr>rt_user := (), rt_io := io\<rparr>, conn_new)
    \<and> sent_to 4 io = sent_to 4 (rt_io ?rt) @ contents (message_buffer mt_error 1 ?e)
    \<and> call 5 1 buffer_new ?c = (call_result ?r, ?c\<lparr>cn_next_seq := cn_next_seq ?c + 1, cn_link := (cn_link ?c)\<lparr>
        l_sent := l_sent (cn_link ?c) @ [message_buffer mt_call (cn_next_seq ?c) (call_header_repr (5, 1) @ contents buffer_new)],
        l_inbox := []\<rparr>\<rparr>)"
  proof (rule remote_call [where d = echo])
    show "carries ?b (contents (message_buffer mt_call (cn_next_seq ?c) (call_header_repr (5, 1) @ contents buffer_new)))"
      by (simp add: call_header.width k_max_capacity_eq)
    show "carries (message_buffer mt_error 1 ?e) (answer (cn_next_seq ?c) ec_unknown_method ?r)"
      by (simp add: a string_repr_def k_max_capacity_eq)
    show "answerable ?r" by (simp add: answerable_def string_ok_def size_limits)
    show "length (answer_payload ?r) \<le> k_max_payload_size" by (simp add: a string_repr_def k_max_payload_size_def)
    show "length (contents buffer_new) + 4 \<le> k_max_payload_size" by (simp add: k_max_payload_size_def)
  qed (simp_all add: register_dispatcher_def runtime_new_def quiet_net_def echo_def)
  moreover have "?rt\<lparr>rt_user := (), rt_io := io\<rparr> = ?rt\<lparr>rt_io := io\<rparr>" for io
    by (simp add: register_dispatcher_def runtime_new_def)
  moreover have "sent_to 4 (rt_io ?rt) = []" by (simp add: register_dispatcher_def runtime_new_def quiet_net_def sent_to_def)
  ultimately show ?thesis
    unfolding Let_def by (auto simp: call_result_def)
qed

section \<open>Handshake\<close>

lemma version_check_same: "version_check W w \<lparr>im_magic = k_magic, im_first_version = k_first_version,
    im_current_version = k_current_version, im_capabilities = caps, im_method_count = n\<rparr> = None"
  by (simp add: version_check_def k_first_version_def k_current_version_def make_version_def)

text \<open>The acknowledgement that a client with capabilities \<open>caps\<close> owes the service.\<close>

definition ack_message :: "u32 \<Rightarrow> buffer" where
  "ack_message caps = message_buffer mt_init_ack 0 (init_repr \<lparr>im_magic = k_magic, im_first_version = k_first_version,
     im_current_version = k_current_version, im_capabilities = caps, im_method_count = 0\<rparr>)"

text \<open>The service's loop takes an acknowledgement, however it is stored, and goes on.\<close>

lemma service_takes_ack:
  assumes "carries a (contents (ack_message caps))" and "read_pos a = 0"
  shows "client_loop_from wires code t (RecvMsg a # evs) s = client_loop_from wires code t evs s"
proof -
  let ?p = "init_repr \<lparr>im_magic = k_magic, im_first_version = k_first_version,
     im_current_version = k_current_version, im_capabilities = caps, im_method_count = 0\<rparr>"
  have p: "length ?p \<le> k_max_payload_size" by (simp add: k_max_payload_size_def)
  have "carries a (wire_message mt_init_ack 0 ?p)" using assms(1) by (simp add: ack_message_def)
  then have "decode_header a = Inr (plain_header mt_init_ack 0 (length ?p), advance 16 a)"
    using assms(2) by (intro decode_header_message) (simp_all add: carries_def unread_def)
  then show ?thesis by (simp add: msg_type_defs)
qed

text \<open>Claim C30. The handshake, end to end: a client that gets what a service sends when it connects,
  however it is stored, accepts it. The connection then speaks the library's version, its methods
  are the ones registered with the service, its capabilities are those that both the client has
  and the service advertises; exactly one message was consumed and exactly one was sent, the
  acknowledgement with the client's own capabilities, and nothing else of the connection
  changed. The service's loop takes that acknowledgement, however it is stored, and goes on.\<close>

theorem handshake_with_service:
  assumes "ready_remote c" and "n_faults (rt_io rt) = []" and "sent_to t (rt_io rt) = []"
    and "16 + 8 * length (rt_methods rt) \<le> k_max_payload_size"
    and "send_init_confirmation_transport net_wires t rt = (Inr (), rt')"
    and "carries b (sent_to t (rt_io rt'))" and "read_pos b = 0" and "l_inbox (cn_link c) = RecvMsg b # rest"
  shows "client_init_handshake c = (Inr (), c\<lparr>cn_version := k_current_version, cn_methods := rt_methods rt,
      cn_peer_caps := capabilities rt, cn_negotiated_caps := cn_local_caps c AND capabilities rt,
      cn_link := (cn_link c)\<lparr>l_inbox := rest, l_sent := l_sent (cn_link c) @ [ack_message (cn_local_caps c)]\<rparr>\<rparr>)
    \<and> (\<forall>service method. supports service method (snd (client_init_handshake c)) = has_method service method rt)
    \<and> (\<forall>a evs st. carries a (contents (ack_message (cn_local_caps c))) \<longrightarrow> read_pos a = 0
        \<longrightarrow> client_loop_from net_wires code t (RecvMsg a # evs) st = client_loop_from net_wires code t evs st)"
proof -
  let ?m = "\<lparr>im_magic = k_magic, im_first_version = k_first_version, im_current_version = k_current_version,
      im_capabilities = capabilities rt, im_method_count = word_of_nat (length (rt_methods rt))\<rparr>"
  let ?p = "init_repr ?m @ concat (map descriptor_repr (rt_methods rt))"
  have "8 * length (rt_methods rt) + 64 \<le> k_max_capacity"
    using assms(4) by (simp add: k_max_capacity_eq k_max_payload_size_def)
  from create_init_message_methods_run [OF this, of k_first_version k_current_version "capabilities rt"]
  have "sent_to t (rt_io rt') = wire_message mt_init 0 ?p"
    using assms(2,3,5)
    by (auto simp: send_init_confirmation_transport_def sbind_apply slift_def scatch_apply lift_io_def net_wires_def
        net_send_def sent_to_def)
  then have b: "carries b (wire_message mt_init 0 ?p)" using assms(6) by simp
  have n: "unat (im_method_count ?m) = length (rt_methods rt)"
    using assms(4) by (simp add: unat_of_nat k_max_payload_size_def)
  have le: "make_version 1 1 \<le> k_current_version" by (simp add: k_current_version_def)
  have run: "client_init_handshake c = (Inr (), c\<lparr>cn_version := k_current_version, cn_methods := rt_methods rt,
      cn_peer_caps := capabilities rt, cn_negotiated_caps := cn_local_caps c AND capabilities rt,
      cn_link := (cn_link c)\<lparr>l_inbox := rest, l_sent := l_sent (cn_link c) @ [ack_message (cn_local_caps c)]\<rparr>\<rparr>)"
    using client_handshake_run [OF assms(1,8) b assms(7) _ _ n] assms(4)
    by (cases c) (simp add: version_check_same le ack_message_def)
  have "cn_peer c = Remote" using assms(1) by (simp add: ready_remote_def)
  then have "\<forall>service method. supports service method (snd (client_init_handshake c)) = has_method service method rt"
    by (simp add: run supports_def client_methods_def has_method_def)
  with run service_takes_ack show ?thesis by blast
qed

theorem handshake_with_service_witness:
  "\<exists>b. carries b (sent_to 4 (rt_io (snd (send_init_confirmation_transport net_wires 4
        (register_method 5 1 0 (runtime_new () quiet_net :: (unit, unit, net) runtime))))))
    \<and> (let c' = snd (client_init_handshake (set_local_capabilities 6 (demo_client [RecvMsg b]))) in cn_version c' = k_current_version
        \<and> supports 5 1 c' \<and> \<not> supports 5 2 c'
        \<and> l_sent (cn_link c') = [ack_message 6])"
proof -
  let ?rt = "register_method 5 1 0 (runtime_new () quiet_net :: (unit, unit, net) runtime)"
  let ?m = "\<lparr>im_magic = k_magic, im_first_version = k_first_version, im_current_version = k_current_version,
      im_capabilities = capabilities ?rt, im_method_count = 1\<rparr>"
  let ?ds = "[\<lparr>md_service_id = 5, md_method_id = 1, md_flags = 0, md_reserved = 0\<rparr>]"
  let ?b = "message_buffer mt_init 0 (init_repr ?m @ concat (map descriptor_repr ?ds))"
  let ?c = "set_local_capabilities 6 (demo_client [RecvMsg ?b])"
  have ms: "rt_methods ?rt = ?ds" "n_faults (rt_io ?rt) = []" "sent_to 4 (rt_io ?rt) = []"
    by (simp_all add: register_method_def runtime_new_def quiet_net_def sent_to_def)
  obtain rt' where s: "send_init_confirmation_transport net_wires 4 ?rt = (Inr (), rt')" "n_sent (rt_io rt') = [(4, ?b)]"
    using create_init_message_methods_run [of ?ds k_first_version k_current_version "capabilities ?rt"] ms(1)
    by (simp add: send_init_confirmation_transport_def sbind_apply slift_def scatch_apply lift_io_def net_wires_def
        net_send_def register_method_def runtime_new_def quiet_net_def k_max_capacity_eq)
  have b: "carries ?b (sent_to 4 (rt_io rt'))"
    by (simp add: s(2) sent_to_def k_max_capacity_eq descriptor.width)
  have c: "ready_remote ?c" "16 + 8 * length (rt_methods ?rt) \<le> k_max_payload_size" "read_pos ?b = 0"
    "l_inbox (cn_link ?c) = RecvMsg ?b # []" "l_sent (cn_link ?c) = []"
    "cn_local_caps ?c = 6"
    by (simp_all add: ms k_max_payload_size_def demo_client_def client_new_def ready_remote_def set_local_capabilities_def)
  note h = handshake_with_service [OF c(1) ms(2,3) c(2) s(1) b c(3,4)]
  have "has_method 5 1 ?rt" "\<not> has_method 5 2 ?rt" by (simp_all add: has_method_def ms(1))
  with h have "supports 5 1 (snd (client_init_handshake ?c))" "\<not> supports 5 2 (snd (client_init_handshake ?c))"
    by metis+
  moreover have "cn_version (snd (client_init_handshake ?c)) = k_current_version"
    "l_sent (cn_link (snd (client_init_handshake ?c))) = [ack_message 6]"
    by (simp_all only: h [THEN conjunct1] snd_conv)
      (simp_all add: set_local_capabilities_def demo_client_def client_new_def)
  ultimately show ?thesis
    using b s(1) by (intro exI [of _ ?b]) simp
qed

end
