(* ===== verification/Song_Registry.thy ===== *)
theory Song_Registry
  imports Song_Rpc
begin

text \<open>
  The service registry (\<^verbatim>\<open>src/registry.cpp\<close>): the encoding of a service's address, the client that
  talks to a remote registry over TCP and reconnects, the dispatcher in front of the interface
  \<^verbatim>\<open>IRegistry\<close>, and the in-memory implementation, whose entries go stale without heartbeats.
  The lemmas: what the client returns for every answer of the server, the dispatcher and the
  client composed, the availability of a service that keeps up its heartbeats.
\<close>

section \<open>Service addresses\<close>

record service_info =
  si_name :: string
  si_host :: string
  si_port :: u16

definition no_service :: service_info where
  "no_service = \<lparr>si_name = [], si_host = [], si_port = 0\<rparr>"

definition is_valid :: "service_info \<Rightarrow> bool" where
  "is_valid i = (si_name i \<noteq> [] \<and> si_host i \<noteq> [] \<and> si_port i \<noteq> 0)"

definition encode_service_info :: "service_info encoder" where
  "encode_service_info i b = rbind (encode_string (si_name i) b) (\<lambda>b.
    rbind (encode_string (si_host i) b) (\<lambda>b. encode_u16 (si_port i) b))"

definition decode_service_info :: "service_info decoder" where
  "decode_service_info = dbind decode_string (\<lambda>name. dbind decode_string (\<lambda>host. dbind decode_u16 (\<lambda>port.
    dreturn \<lparr>si_name = name, si_host = host, si_port = port\<rparr>)))"

definition k_service_registry :: u16 where "k_service_registry = 0xFFFE"
definition k_method_register :: u16 where "k_method_register = 1"
definition k_method_unregister :: u16 where "k_method_unregister = 2"
definition k_method_discover :: u16 where "k_method_discover = 3"
definition k_method_list_all :: u16 where "k_method_list_all = 4"
definition k_method_heartbeat :: u16 where "k_method_heartbeat = 5"

lemmas registry_ids = k_method_register_def k_method_unregister_def k_method_discover_def
  k_method_list_all_def k_method_heartbeat_def

section \<open>The client\<close>

text \<open>\<open>rc_dials\<close> scripts the coming connection attempts: what the system calls return and what the
  new socket will take and deliver. A client made without an address leaves \<^verbatim>\<open>timeout_ms_\<close>
  uninitialised; it is set before its first use. The mutex makes the operations of one
  client atomic.\<close>

record registry_client =
  rc_transport :: "tcp option"
  rc_seq :: u32
  rc_timeout :: int
  rc_host :: string
  rc_port :: u16
  rc_sys :: sys
  rc_dials :: "(connect_calls \<times> read_event list \<times> write_event list) list"

text \<open>\<open>dial\<close> is the block both \<^verbatim>\<open>connect\<close> and \<^verbatim>\<open>ensure_connected\<close> have: the new transport replaces the
  old one, whose destructor closes it, only when the connection was made.\<close>

definition drop_transport :: "registry_client \<Rightarrow> sys \<Rightarrow> sys" where
  "drop_transport c s = (case rc_transport c of None \<Rightarrow> s | Some old \<Rightarrow> snd (tcp_close (old, s)))"

definition dial :: "string \<Rightarrow> u16 \<Rightarrow> int \<Rightarrow> (registry_client, bool) step" where
  "dial host port timeout_ms c =
    (case rc_dials c of
       [] \<Rightarrow> (Inl Diverges, c)
     | (calls, rs, ws) # ds \<Rightarrow>
       (case tcp_connect calls host port timeout_ms (tcp_new, rc_sys c) of
          (Inr u, t, s) \<Rightarrow> (Inr True, c\<lparr>rc_transport := Some t,
             rc_sys := (drop_transport c s)\<lparr>reads := rs, writes := ws\<rparr>, rc_dials := ds\<rparr>)
        | (Inl e, t, s) \<Rightarrow>
            (if std_exception e then Inr False else Inl e, c\<lparr>rc_sys := snd (tcp_close (t, s)), rc_dials := ds\<rparr>)))"

definition rc_connect :: "string \<Rightarrow> u16 \<Rightarrow> int \<Rightarrow> (registry_client, bool) step" where
  "rc_connect host port timeout_ms c = dial host port timeout_ms (c\<lparr>rc_host := host, rc_port := port, rc_timeout := timeout_ms\<rparr>)"

definition rc_is_connected :: "registry_client \<Rightarrow> bool" where
  "rc_is_connected c = (case rc_transport c of None \<Rightarrow> False | Some t \<Rightarrow> tcp_is_connected t)"

definition rc_new :: "sys \<Rightarrow> (connect_calls \<times> read_event list \<times> write_event list) list \<Rightarrow> registry_client" where
  "rc_new s ds = \<lparr>rc_transport = None, rc_seq = 0, rc_timeout = 0, rc_host = [], rc_port = 0, rc_sys = s, rc_dials = ds\<rparr>"

definition rc_new_connected :: "string \<Rightarrow> u16 \<Rightarrow> int \<Rightarrow> sys \<Rightarrow> (connect_calls \<times> read_event list \<times> write_event list) list
    \<Rightarrow> bool res \<times> registry_client" where
  "rc_new_connected host port timeout_ms s ds = rc_connect host port timeout_ms (rc_new s ds)"

definition rc_close :: "registry_client \<Rightarrow> registry_client" where
  "rc_close c = c\<lparr>rc_transport := None, rc_sys := drop_transport c (rc_sys c)\<rparr>"

definition ensure_connected :: "(registry_client, bool) step" where
  "ensure_connected c =
    (if rc_is_connected c then (Inr True, c)
     else if rc_host c = [] \<or> rc_port c = 0 then (Inr False, c)
     else dial (rc_host c) (rc_port c) (rc_timeout c) c)"

text \<open>The body of the \<^verbatim>\<open>try\<close> block of \<^verbatim>\<open>call\<close>: \<open>None\<close> where it returns false.\<close>

definition rc_response :: "u32 \<Rightarrow> buffer \<Rightarrow> buffer option res" where
  "rc_response seq resp =
    (case decode_header resp of
       Inl e \<Rightarrow> Inl e
     | Inr (hdr, resp') \<Rightarrow>
         if hdr_sequence_id hdr \<noteq> seq then Inr None
         else if hdr_type hdr = mt_error then Inr None
         else if hdr_type hdr \<noteq> mt_result then Inr None
         else if hdr_payload_size hdr > 0
         then (if size_of resp < 16 + unat (hdr_payload_size hdr) then Inl (Undefined ''read behind the message'')
           else rbind (buffer_write (take (unat (hdr_payload_size hdr)) (drop 16 (contents resp))) buffer_new)
             (\<lambda>b. Inr (Some (reset_read b))))
         else Inr (Some buffer_new))"

definition rc_exchange :: "tcp \<Rightarrow> int \<Rightarrow> u32 \<Rightarrow> buffer \<Rightarrow> (sys, buffer option) step" where
  "rc_exchange t timeout_ms seq msg = sbind (tcp_send t msg) (\<lambda>_. (\<lambda>s.
    case tcp_receive t timeout_ms (buffer_new, s) of
      (Inl e, resp, s') \<Rightarrow> (Inl e, s')
    | (Inr False, resp, s') \<Rightarrow> (Inr None, s')
    | (Inr True, resp, s') \<Rightarrow> (rc_response seq resp, s')))"

definition rc_call :: "u16 \<Rightarrow> buffer \<Rightarrow> (registry_client, buffer option) step" where
  "rc_call method_id args = sbind ensure_connected (\<lambda>connected. (\<lambda>c.
    if \<not> connected then (Inr None, c)
    else
      let seq = rc_seq c + 1; c = c\<lparr>rc_seq := seq\<rparr> in
      case create_call_message seq k_service_registry method_id args of
        Inl e \<Rightarrow> (Inl e, c)
      | Inr msg \<Rightarrow>
        (case rc_transport c of
           None \<Rightarrow> (Inl (Undefined ''null transport''), c)
         | Some t \<Rightarrow>
           (case rc_exchange t (rc_timeout c) seq msg (rc_sys c) of
              (Inr r, s) \<Rightarrow> (Inr r, c\<lparr>rc_sys := s\<rparr>)
            | (Inl e, s) \<Rightarrow>
                if std_exception e then (Inr None, rc_close (c\<lparr>rc_sys := s\<rparr>))
                else (Inl e, c\<lparr>rc_sys := s\<rparr>)))))"

text \<open>The operations encode their argument, call, and decode the response outside any handler. The
  vector of \<^verbatim>\<open>list_all\<close> reserves room for as many entries as the response says.\<close>

definition with_response :: "u16 \<Rightarrow> buffer res \<Rightarrow> 'a \<Rightarrow> 'a decoder \<Rightarrow> (registry_client, 'a) step" where
  "with_response method_id args failed dec = sbind (slift args) (\<lambda>args.
    sbind (rc_call method_id args) (\<lambda>resp. case resp of
        None \<Rightarrow> sret failed
      | Some b \<Rightarrow> (case dec b of Inl e \<Rightarrow> sthrow e | Inr (x, b') \<Rightarrow> sret x)))"

definition decode_flag :: "bool decoder" where
  "decode_flag = dbind decode_u8 (\<lambda>v. dreturn (v \<noteq> 0))"

definition rc_register_service :: "service_info \<Rightarrow> (registry_client, bool) step" where
  "rc_register_service info = with_response k_method_register (encode_service_info info buffer_new) False decode_flag"

definition rc_unregister_service :: "string \<Rightarrow> (registry_client, bool) step" where
  "rc_unregister_service name = with_response k_method_unregister (encode_string name buffer_new) False decode_flag"

definition rc_discover :: "string \<Rightarrow> (registry_client, service_info) step" where
  "rc_discover name = with_response k_method_discover (encode_string name buffer_new) no_service decode_service_info"

definition rc_list_all :: "(registry_client, service_info list) step" where
  "rc_list_all = with_response k_method_list_all (Inr buffer_new) []
    (dbind decode_u32 (\<lambda>count. decode_seq decode_service_info (unat count)))"

definition rc_heartbeat :: "string \<Rightarrow> (registry_client, bool) step" where
  "rc_heartbeat name = with_response k_method_heartbeat (encode_string name buffer_new) False decode_flag"

section \<open>The dispatcher\<close>

text \<open>The virtual methods of \<^verbatim>\<open>IRegistry\<close>, on a state \<open>'m\<close> of the implementation.\<close>

record 'm iregistry =
  ir_register :: "service_info \<Rightarrow> ('m, bool) step"
  ir_unregister :: "string \<Rightarrow> ('m, bool) step"
  ir_discover :: "string \<Rightarrow> ('m, service_info) step"
  ir_list_all :: "('m, service_info list) step"
  ir_heartbeat :: "string \<Rightarrow> ('m, bool) step"

definition encode_flag :: "bool encoder" where
  "encode_flag r = encode_u8 (if r then 1 else 0)"

definition dispatch_with :: "'a decoder \<Rightarrow> ('a \<Rightarrow> ('m, 'b) step) \<Rightarrow> ('b encoder) \<Rightarrow> buffer \<Rightarrow> buffer \<Rightarrow> ('m, buffer) step" where
  "dispatch_with dec f enc args response =
    (case dec args of
       Inl e \<Rightarrow> sthrow e
     | Inr (x, args') \<Rightarrow> sbind (f x) (\<lambda>r. slift (enc r response)))"

definition dispatch_Registry :: "'m iregistry \<Rightarrow> u16 \<Rightarrow> buffer \<Rightarrow> buffer \<Rightarrow> ('m, buffer) step" where
  "dispatch_Registry impl method_id args response =
    (if method_id = k_method_register then dispatch_with decode_service_info (ir_register impl) encode_flag args response
     else if method_id = k_method_unregister then dispatch_with decode_string (ir_unregister impl) encode_flag args response
     else if method_id = k_method_discover
       then dispatch_with decode_string (ir_discover impl) encode_service_info args response
     else if method_id = k_method_list_all
       then sbind (ir_list_all impl) (\<lambda>services. slift (rbind (encode_u32 (word_of_nat (length services)) response)
         (encode_seq encode_service_info services)))
     else if method_id = k_method_heartbeat then dispatch_with decode_string (ir_heartbeat impl) encode_flag args response
     else sthrow (ProtocolError (''Unknown registry method: '' @ dec_string (unat method_id))))"

section \<open>The registry in memory\<close>

text \<open>Times are nanoseconds of the steady clock, as integers; the expiry is given in seconds. The
  hash map is an association list with one entry per name, whose order stands for the
  unspecified order of iteration. \<open>now\<close> is what the clock returns in the call.\<close>

record entry =
  en_info :: service_info
  en_last_heartbeat :: int

record mem_registry =
  mr_services :: "(string \<times> entry) list"
  mr_expiry :: int

definition mem_new :: mem_registry where
  "mem_new = \<lparr>mr_services = [], mr_expiry = 60\<rparr>"

definition stale :: "int \<Rightarrow> int \<Rightarrow> entry \<Rightarrow> bool" where
  "stale expiry now x = (now - en_last_heartbeat x > expiry * 10 ^ 9)"

definition mem_register :: "int \<Rightarrow> service_info \<Rightarrow> (mem_registry, bool) step" where
  "mem_register now info m =
    (if \<not> is_valid info then (Inr False, m)
     else if map_of (mr_services m) (si_name info) \<noteq> None then (Inr False, m)
     else (Inr True, m\<lparr>mr_services := AList.update (si_name info) \<lparr>en_info = info, en_last_heartbeat = now\<rparr> (mr_services m)\<rparr>))"

definition mem_unregister :: "string \<Rightarrow> (mem_registry, bool) step" where
  "mem_unregister name m = (Inr (map_of (mr_services m) name \<noteq> None), m\<lparr>mr_services := AList.delete name (mr_services m)\<rparr>)"

definition mem_discover :: "int \<Rightarrow> string \<Rightarrow> (mem_registry, service_info) step" where
  "mem_discover now name m =
    (case map_of (mr_services m) name of
       None \<Rightarrow> (Inr no_service, m)
     | Some x \<Rightarrow> if stale (mr_expiry m) now x
         then (Inr no_service, m\<lparr>mr_services := AList.delete name (mr_services m)\<rparr>)
         else (Inr (en_info x), m))"

definition cleanup_stale :: "int \<Rightarrow> mem_registry \<Rightarrow> mem_registry" where
  "cleanup_stale now m = m\<lparr>mr_services := filter (\<lambda>(n, x). \<not> stale (mr_expiry m) now x) (mr_services m)\<rparr>"

definition mem_list_all :: "int \<Rightarrow> (mem_registry, service_info list) step" where
  "mem_list_all now m =
    (let kept = filter (\<lambda>(n, x). \<not> stale (mr_expiry m) now x) (mr_services m)
     in (Inr (map (\<lambda>(n, x). en_info x) kept), m\<lparr>mr_services := kept\<rparr>))"

definition mem_heartbeat :: "int \<Rightarrow> string \<Rightarrow> (mem_registry, bool) step" where
  "mem_heartbeat now name m =
    (case map_of (mr_services m) name of
       None \<Rightarrow> (Inr False, m)
     | Some x \<Rightarrow> (Inr True, m\<lparr>mr_services := AList.update name (x\<lparr>en_last_heartbeat := now\<rparr>) (mr_services m)\<rparr>))"

definition mem_size :: "mem_registry \<Rightarrow> nat" where
  "mem_size m = length (mr_services m)"

definition set_expiry_time :: "int \<Rightarrow> mem_registry \<Rightarrow> mem_registry" where
  "set_expiry_time seconds m = m\<lparr>mr_expiry := seconds\<rparr>"

definition memory_registry :: "int \<Rightarrow> mem_registry iregistry" where
  "memory_registry now = \<lparr>ir_register = mem_register now, ir_unregister = mem_unregister, ir_discover = mem_discover now,
    ir_list_all = mem_list_all now, ir_heartbeat = mem_heartbeat now\<rparr>"

section \<open>Codecs\<close>

definition service_repr :: "service_info \<Rightarrow> byte list" where
  "service_repr i = string_repr (si_name i) @ string_repr (si_host i) @ le_bytes 2 (si_port i)"

definition service_ok :: "service_info \<Rightarrow> bool" where
  "service_ok i = (string_ok (si_name i) \<and> string_ok (si_host i))"

interpretation service: codec encode_service_info decode_service_info service_repr service_ok
proof
  fix i b
  assume ok: "service_ok i" and "room (length (service_repr i)) b"
  then have r: "room (length (string_repr (si_name i)) + (length (string_repr (si_host i)) + length (le_bytes 2 (si_port i)))) b"
    by (simp add: service_repr_def)
  note r1 = room_appended [OF r]
  from ok r r1 show "encode_service_info i b = Inr (appended (service_repr i) b)"
    by (simp add: encode_service_info_def service_ok_def service_repr_def str.enc_appends u16.enc_appends room_mono
        appended_appended)
next
  fix i b rest
  assume ok: "service_ok i" and b: "buffer_ok b" "unread b = service_repr i @ rest"
  let ?n = "length (string_repr (si_name i))" and ?h = "length (string_repr (si_host i))"
  have u: "unread b = string_repr (si_name i) @ string_repr (si_host i) @ le_bytes 2 (si_port i) @ rest"
    using b by (simp add: service_repr_def)
  have n: "decode_string b = Inr (si_name i, advance ?n b)"
    using ok b u by (intro str.dec_consumes) (simp_all add: service_ok_def)
  have h: "decode_string (advance ?n b) = Inr (si_host i, advance ?h (advance ?n b))"
    using ok b u by (intro str.dec_consumes) (simp_all add: service_ok_def)
  have "decode_u16 (advance ?h (advance ?n b)) = Inr (si_port i, advance (length (le_bytes 2 (si_port i))) (advance ?h (advance ?n b)))"
    using b u by (intro u16.dec_consumes [where rest = rest]) simp_all
  with n h show "decode_service_info b = Inr (i, advance (length (service_repr i)) b)"
    by (simp add: decode_service_info_def dbind_simps service_repr_def add.assoc)
qed

definition flag_repr :: "bool \<Rightarrow> byte list" where
  "flag_repr r = [if r then 1 else 0]"

interpretation flag: codec encode_flag decode_flag flag_repr "\<lambda>_. True"
proof
  fix r b
  assume "room (length (flag_repr r)) b"
  then show "encode_flag r b = Inr (appended (flag_repr r) b)"
    using u8.enc_appends [where x = "if r then 1 else 0" and b = b] by (simp add: encode_flag_def flag_repr_def le_compute)
next
  fix r b rest
  assume "buffer_ok b" "unread b = flag_repr r @ rest"
  then show "decode_flag b = Inr (r, advance (length (flag_repr r)) b)"
    using u8.dec_consumes [where x = "if r then 1 else 0" and b = b and rest = rest] by (simp add: decode_flag_def flag_repr_def dbind_simps le_compute)
qed

section \<open>Requests and replies\<close>

text \<open>The five operations as data, with their arguments and replies on the wire.\<close>

datatype registry_op = RegisterOp service_info | UnregisterOp string | DiscoverOp string | ListAllOp | HeartbeatOp string

datatype registry_reply = Flag bool | Address service_info | Addresses "service_info list"

fun op_method :: "registry_op \<Rightarrow> u16" where
  "op_method (RegisterOp i) = k_method_register"
| "op_method (UnregisterOp n) = k_method_unregister"
| "op_method (DiscoverOp n) = k_method_discover"
| "op_method ListAllOp = k_method_list_all"
| "op_method (HeartbeatOp n) = k_method_heartbeat"

fun op_args :: "registry_op \<Rightarrow> byte list" where
  "op_args (RegisterOp i) = service_repr i"
| "op_args (UnregisterOp n) = string_repr n"
| "op_args (DiscoverOp n) = string_repr n"
| "op_args ListAllOp = []"
| "op_args (HeartbeatOp n) = string_repr n"

fun op_ok :: "registry_op \<Rightarrow> bool" where
  "op_ok (RegisterOp i) = service_ok i"
| "op_ok (UnregisterOp n) = string_ok n"
| "op_ok (DiscoverOp n) = string_ok n"
| "op_ok ListAllOp = True"
| "op_ok (HeartbeatOp n) = string_ok n"

fun reply_repr :: "registry_reply \<Rightarrow> byte list" where
  "reply_repr (Flag r) = flag_repr r"
| "reply_repr (Address i) = service_repr i"
| "reply_repr (Addresses is) = counted_repr service_repr is"

fun reply_ok :: "registry_reply \<Rightarrow> bool" where
  "reply_ok (Flag r) = True"
| "reply_ok (Address i) = service_ok i"
| "reply_ok (Addresses is) = (list_all service_ok is \<and> length is < 2 ^ 32)"

definition mapr :: "('a \<Rightarrow> 'b) \<Rightarrow> 'a res \<times> 's \<Rightarrow> 'b res \<times> 's" where
  "mapr f rs = (map_sum id f (fst rs), snd rs)"

fun mem_op :: "int \<Rightarrow> registry_op \<Rightarrow> (mem_registry, registry_reply) step" where
  "mem_op now (RegisterOp i) m = mapr Flag (mem_register now i m)"
| "mem_op now (UnregisterOp n) m = mapr Flag (mem_unregister n m)"
| "mem_op now (DiscoverOp n) m = mapr Address (mem_discover now n m)"
| "mem_op now ListAllOp m = mapr Addresses (mem_list_all now m)"
| "mem_op now (HeartbeatOp n) m = mapr Flag (mem_heartbeat now n m)"

fun client_op :: "registry_op \<Rightarrow> (registry_client, registry_reply) step" where
  "client_op (RegisterOp i) c = mapr Flag (rc_register_service i c)"
| "client_op (UnregisterOp n) c = mapr Flag (rc_unregister_service n c)"
| "client_op (DiscoverOp n) c = mapr Address (rc_discover n c)"
| "client_op ListAllOp c = mapr Addresses (rc_list_all c)"
| "client_op (HeartbeatOp n) c = mapr Flag (rc_heartbeat n c)"

lemmas mem_op_defs = mem_register_def mem_unregister_def mem_discover_def mem_list_all_def mem_heartbeat_def

text \<open>The registry's operations never throw.\<close>

lemma mem_op_returns: "\<exists>r m'. mem_op now op m = (Inr r, m')"
  by (cases op) (auto simp: mapr_def mem_op_defs Let_def split: option.split)

text \<open>The dispatcher runs the operation the request names, on the arguments it carries, and
  encodes what it returns.\<close>

lemma dispatch_runs_op:
  assumes ok: "op_ok op" and b: "buffer_ok b" "unread b = op_args op"
    and run: "mem_op now op m = (Inr r, m')" and r: "reply_ok r" "room (length (reply_repr r)) response"
  shows "dispatch_Registry (memory_registry now) (op_method op) b response m = (Inr (appended (reply_repr r) response), m')"
proof (cases op)
  case (RegisterOp i)
  have d: "decode_service_info b = Inr (i, advance (length (service_repr i)) b)"
    using ok b RegisterOp by (intro service.dec_consumes [where rest = "[]"]) simp_all
  from run RegisterOp obtain v where v: "mem_register now i m = (Inr v, m')" "r = Flag v"
    by (cases "mem_register now i m") (auto simp: mapr_def map_sum_def split: sum.splits)
  show ?thesis
    using d v r(2) RegisterOp flag.enc_appends [where x = v and b = response]
    by (simp add: dispatch_Registry_def dispatch_with_def memory_registry_def sbind_apply slift_def)
next
  case (UnregisterOp n)
  have d: "decode_string b = Inr (n, advance (length (string_repr n)) b)"
    using ok b UnregisterOp by (intro str.dec_consumes [where rest = "[]"]) simp_all
  from run UnregisterOp obtain v where v: "mem_unregister n m = (Inr v, m')" "r = Flag v"
    by (cases "mem_unregister n m") (auto simp: mapr_def map_sum_def split: sum.splits)
  show ?thesis
    using d v r(2) UnregisterOp flag.enc_appends [where x = v and b = response]
    by (simp add: dispatch_Registry_def dispatch_with_def memory_registry_def sbind_apply slift_def registry_ids)
next
  case (DiscoverOp n)
  have d: "decode_string b = Inr (n, advance (length (string_repr n)) b)"
    using ok b DiscoverOp by (intro str.dec_consumes [where rest = "[]"]) simp_all
  from run DiscoverOp obtain v where v: "mem_discover now n m = (Inr v, m')" "r = Address v"
    by (cases "mem_discover now n m") (auto simp: mapr_def map_sum_def split: sum.splits)
  show ?thesis
    using d v r DiscoverOp service.enc_appends [where x = v and b = response]
    by (simp add: dispatch_Registry_def dispatch_with_def memory_registry_def sbind_apply slift_def registry_ids)
next
  case ListAllOp
  from run ListAllOp obtain v where v: "mem_list_all now m = (Inr v, m')" "r = Addresses v"
    by (cases "mem_list_all now m") (auto simp: mapr_def map_sum_def split: sum.splits)
  have rm: "room (length (length_prefix (length v)) + length (concat (map service_repr v))) response"
    using r(2) v by (simp add: counted_repr_def)
  have "encode_u32 (word_of_nat (length v)) response = Inr (appended (length_prefix (length v)) response)"
    using rm u32.enc_appends [where x = "word_of_nat (length v)" and b = response]
    by (simp add: length_prefix_def room_mono)
  moreover have "encode_seq encode_service_info v (appended (length_prefix (length v)) response)
      = Inr (appended (reply_repr r) response)"
    using r(1) v(2) service.encode_seq_appends [OF _ room_appended [OF rm]] appended_appended [OF rm]
    by (simp add: counted_repr_def)
  ultimately show ?thesis
    using v ListAllOp
    by (simp add: dispatch_Registry_def memory_registry_def sbind_apply slift_def registry_ids)
next
  case (HeartbeatOp n)
  have d: "decode_string b = Inr (n, advance (length (string_repr n)) b)"
    using ok b HeartbeatOp by (intro str.dec_consumes [where rest = "[]"]) simp_all
  from run HeartbeatOp obtain v where v: "mem_heartbeat now n m = (Inr v, m')" "r = Flag v"
    by (cases "mem_heartbeat now n m") (auto simp: mapr_def map_sum_def split: sum.splits)
  show ?thesis
    using d v r(2) HeartbeatOp flag.enc_appends [where x = v and b = response]
    by (simp add: dispatch_Registry_def dispatch_with_def memory_registry_def sbind_apply slift_def registry_ids)
qed

section \<open>What the client makes of an answer\<close>

lemma tcp_send_accepted:
  assumes "0 \<le> tcp_sock t" and "accepting (size_of msg) (writes s)"
  shows "\<exists>ws. tcp_send t msg s = (Inr (), s\<lparr>writes := ws, written := written s @ contents msg\<rparr>)"
proof -
  have "\<exists>es'. tcp_send_loop data es out = (Inr (), es', out @ data)" if "accepting (length data) es" for data es out
    using that
  proof (induction data es out rule: tcp_send_loop.induct)
    case (5 d ds k es out)
    then have k: "0 < k" and acc: "accepting (length ds) es" by auto
    have "accepting (length (drop k (d # ds))) es"
      using acc k by (elim accepting_mono) auto
    with 5 k show ?case by simp
  qed auto
  from this [of "contents msg" "writes s" "written s"] assms show ?thesis
    by (auto simp: tcp_send_def)
qed

lemma tcp_receive_waited:
  assumes "0 \<le> tcp_sock t" "tcp_wait timeout_ms s = (Inr True, s1)"
  shows "tcp_receive t timeout_ms (msg, s) = tcp_receive t (-1) (msg, s1)"
  using assms by (simp add: tcp_receive_def) (simp add: tcp_wait_def)

text \<open>The client has a connection whose kernel takes the next message and then delivers the bytes \<open>bs\<close>.\<close>

definition answered_with :: "registry_client \<Rightarrow> nat \<Rightarrow> byte list \<Rightarrow> bool" where
  "answered_with c n bs \<longleftrightarrow> (\<exists>t. rc_transport c = Some t \<and> 0 \<le> tcp_sock t)
    \<and> accepting n (writes (rc_sys c))
    \<and> fst (tcp_wait (rc_timeout c) (rc_sys c)) = Inr True
    \<and> (\<exists>rest. tcp_holds (rc_sys c) (bs @ rest))"

lemma tcp_wait_parts:
  "tcp_wait timeout_ms s = (r, s') \<Longrightarrow> s' = s\<lparr>polls := polls s'\<rparr>"
  "tcp_wait timeout_ms (s\<lparr>writes := ws, written := out\<rparr>)
    = (fst (tcp_wait timeout_ms s), (snd (tcp_wait timeout_ms s))\<lparr>writes := ws, written := out\<rparr>)"
  by (auto simp: tcp_wait_def split: prod.splits poll_event.splits if_splits)

lemma rc_response_message:
  assumes "carries resp (wire_message ty q p)" "read_pos resp = 0" "length p \<le> k_max_payload_size"
  shows "rc_response seq resp = Inr (if q = seq \<and> ty = mt_result then Some (holding p) else None)"
proof -
  have r: "reset_read resp = resp" using assms(2) by (rule reset_read_0)
  have b: "buffer_ok resp" "unread resp = wire_message ty q p @ []"
    using assms(1,2) by (simp_all add: carries_def unread_def)
  have h: "decode_header resp = Inr (plain_header ty q (length p), advance 16 resp)"
    using b by (intro decode_header_message) simp_all
  have n: "unat (word_of_nat (length p) :: u32) = length p"
    using assms(3) by (simp add: unat_of_nat k_max_payload_size_def)
  have c: "contents resp = wire_message ty q p" using assms(1) by (simp add: carries_def)
  have w: "rbind (buffer_write p buffer_new) (\<lambda>b. Inr (Some (reset_read b))) = Inr (Some (holding p))"
    using assms(3) by (simp add: holding_def buffer_write_appended room_new k_max_capacity_eq k_max_payload_size_def)
  have z: "(word_of_nat (length p) :: u32) > 0 \<longleftrightarrow> p \<noteq> []"
    using n by (auto simp: word_less_nat_alt)
  have d: "drop 16 (wire_message ty q p) = p" by (simp add: wire_message_def)
  show ?thesis
    using w by (cases "p = []") (auto simp: rc_response_def h plain_header_def n c z d mt_error_def mt_result_def)
qed

lemma rc_call_answered:
  assumes c: "answered_with c (size_of args + 20) (wire_message ty q p)" and args: "sendable (contents args)"
    and p: "length p \<le> k_max_payload_size"
  shows "\<exists>s. rc_call mid args c
      = (Inr (if q = rc_seq c + 1 \<and> ty = mt_result then Some (holding p) else None), c\<lparr>rc_seq := rc_seq c + 1, rc_sys := s\<rparr>)
    \<and> written s = written (rc_sys c) @ wire_message mt_call (rc_seq c + 1) (call_header_repr (k_service_registry, mid) @ contents args)"
proof -
  let ?seq = "rc_seq c + 1"
  let ?p = "call_header_repr (k_service_registry, mid) @ contents args"
  let ?msg = "message_buffer mt_call ?seq ?p"
  let ?s = "rc_sys c"
  from c obtain t rest where t: "rc_transport c = Some t" "0 \<le> tcp_sock t" and acc: "accepting (size_of args + 20) (writes ?s)"
    and w: "fst (tcp_wait (rc_timeout c) ?s) = Inr True" and h: "tcp_holds ?s (wire_message ty q p @ rest)"
    by (auto simp: answered_with_def)
  have "accepting (size_of ?msg) (writes ?s)" using acc by (simp add: call_header.width add.commute)
  then obtain ws where sent: "tcp_send t ?msg ?s = (Inr (), ?s\<lparr>writes := ws, written := written ?s @ contents ?msg\<rparr>)"
    using tcp_send_accepted [OF t(2), of ?msg ?s] by auto
  let ?s1 = "?s\<lparr>writes := ws, written := written ?s @ contents ?msg\<rparr>"
  obtain s0 where s0: "tcp_wait (rc_timeout c) ?s = (Inr True, s0)" using w by (cases "tcp_wait (rc_timeout c) ?s") simp
  let ?s2 = "s0\<lparr>writes := ws, written := written ?s @ contents ?msg\<rparr>"
  have w1: "tcp_wait (rc_timeout c) ?s1 = (Inr True, ?s2)" by (simp add: tcp_wait_parts(2) s0)
  have "s0 = ?s\<lparr>polls := polls s0\<rparr>" using tcp_wait_parts(1) [OF s0] .
  then have r0: "reads s0 = reads ?s" by (metis sys.select_convs(1) sys.surjective sys.update_convs(3))
  have src: "message_source (tcp_receive t (-1)) tcp_holds" by (rule tcp_message_source [OF t(2)]) simp
  have h2: "tcp_holds ?s2 (wire_message ty q p @ rest)" using h r0 by (simp add: tcp_holds_def)
  obtain resp s3 where got: "tcp_receive t (-1) (buffer_new, ?s2) = (Inr True, resp, s3)" "contents resp = wire_message ty q p"
      "read_pos resp = 0" "buffer_ok resp"
    using message_source.recv_frame [OF src buffer_ok_new is_frame_wire_message [OF p] h2] by auto
  have w3: "written s3 = written ?s2"
    using got(1) t(2) by (auto simp: tcp_receive_def tcp_wait_def Let_def split: prod.splits fill.splits sum.splits if_splits)
  have resp: "rc_response ?seq resp = Inr (if q = ?seq \<and> ty = mt_result then Some (holding p) else None)"
    using got p by (intro rc_response_message) (simp_all add: carries_def)
  have recv: "tcp_receive t (rc_timeout c) (buffer_new, ?s1) = (Inr True, resp, s3)"
    using tcp_receive_waited [OF t(2) w1, of buffer_new] got(1) by simp
  have ex: "rc_exchange t (rc_timeout c) ?seq ?msg ?s = (Inr (if q = ?seq \<and> ty = mt_result then Some (holding p) else None), s3)"
    using sent recv resp by (simp add: rc_exchange_def sbind_apply)
  have "rc_call mid args c
      = (Inr (if q = ?seq \<and> ty = mt_result then Some (holding p) else None), c\<lparr>rc_seq := ?seq, rc_sys := s3\<rparr>)"
    using t ex create_messages(1) [OF args]
    by (simp add: rc_call_def sbind_apply ensure_connected_def rc_is_connected_def tcp_is_connected_def Let_def)
  with w3 show ?thesis by auto
qed

lemma holding_parts: "length bs \<le> k_max_payload_size \<Longrightarrow> buffer_ok (holding bs) \<and> unread (holding bs) = bs"
  by (simp add: holding_def room_new k_max_capacity_eq k_max_payload_size_def)

lemma with_response_answered:
  assumes c: "answered_with c (length bs + 20) (wire_message mt_result (rc_seq c + 1) p)"
    and args: "args = Inr b" "contents b = bs" "sendable bs" and p: "length p \<le> k_max_payload_size"
    and dec: "dec (holding p) = Inr (x, b')"
  shows "\<exists>s. with_response mid args failed dec c = (Inr x, c\<lparr>rc_seq := rc_seq c + 1, rc_sys := s\<rparr>)
    \<and> written s = written (rc_sys c) @ wire_message mt_call (rc_seq c + 1) (call_header_repr (k_service_registry, mid) @ bs)"
  using rc_call_answered [of c b mt_result "rc_seq c + 1" p mid] assms
  by (auto simp: with_response_def sbind_apply slift_def sret_def)

text \<open>Every operation of the client encodes its argument, sends it and decodes the reply.\<close>

lemma client_op_answered:
  assumes ok: "op_ok op" "sendable (op_args op)"
    and c: "answered_with c (length (op_args op) + 20) (wire_message mt_result (rc_seq c + 1) (reply_repr r))"
    and r: "reply_ok r" "length (reply_repr r) \<le> k_max_payload_size"
    and kind: "case op of DiscoverOp n \<Rightarrow> \<exists>i. r = Address i | ListAllOp \<Rightarrow> \<exists>is. r = Addresses is | _ \<Rightarrow> \<exists>f. r = Flag f"
  shows "\<exists>s. client_op op c = (Inr r, c\<lparr>rc_seq := rc_seq c + 1, rc_sys := s\<rparr>)
    \<and> written s = written (rc_sys c) @ wire_message mt_call (rc_seq c + 1)
        (call_header_repr (k_service_registry, op_method op) @ op_args op)"
proof -
  have rm: "room (length (op_args op)) buffer_new"
    using ok(2) by (intro room_new) (simp add: sendable_def)
  have h: "buffer_ok (holding (reply_repr r))" "unread (holding (reply_repr r)) = reply_repr r @ []"
    using holding_parts [OF r(2)] by simp_all
  have ct: "contents (appended (op_args op) buffer_new) = op_args op" by simp
  note step = with_response_answered [OF c _ _ ok(2) r(2)]
  have flag: "\<exists>b'. decode_flag (holding (reply_repr r)) = Inr (f, b')" if "r = Flag f" for f
    using flag.dec_consumes [where x = f and b = "holding (reply_repr r)" and rest = "[]"] h that by simp
  show ?thesis
  proof (cases op)
    case (RegisterOp i)
    then obtain f where f: "r = Flag f" using kind by auto
    from flag [OF f] obtain b' where d: "decode_flag (holding (reply_repr r)) = Inr (f, b')" by blast
    have e: "encode_service_info i buffer_new = Inr (appended (op_args op) buffer_new)"
      using service.enc_appends [where x = i and b = buffer_new] ok(1) rm RegisterOp by simp
    from step [where dec = decode_flag, OF e ct d, of k_method_register False] show ?thesis
      using RegisterOp f by (auto simp: rc_register_service_def mapr_def)
  next
    case (UnregisterOp n)
    then obtain f where f: "r = Flag f" using kind by auto
    from flag [OF f] obtain b' where d: "decode_flag (holding (reply_repr r)) = Inr (f, b')" by blast
    have e: "encode_string n buffer_new = Inr (appended (op_args op) buffer_new)"
      using str.enc_appends [where x = n and b = buffer_new] ok(1) rm UnregisterOp by simp
    from step [where dec = decode_flag, OF e ct d, of k_method_unregister False] show ?thesis
      using UnregisterOp f by (auto simp: rc_unregister_service_def mapr_def)
  next
    case (DiscoverOp n)
    then obtain i where f: "r = Address i" using kind by auto
    then obtain b' where d: "decode_service_info (holding (reply_repr r)) = Inr (i, b')"
      using service.dec_consumes [where x = i and b = "holding (reply_repr r)" and rest = "[]"] h r(1) by auto
    have e: "encode_string n buffer_new = Inr (appended (op_args op) buffer_new)"
      using str.enc_appends [where x = n and b = buffer_new] ok(1) rm DiscoverOp by simp
    from step [where dec = decode_service_info, OF e ct d, of k_method_discover no_service] show ?thesis
      using DiscoverOp f by (auto simp: rc_discover_def mapr_def)
  next
    case ListAllOp
    then obtain "is" where f: "r = Addresses is" using kind by auto
    have n: "unat (word_of_nat (length is) :: u32) = length is" using r(1) f by (simp add: unat_of_nat)
    have u: "unread (holding (reply_repr r)) = length_prefix (length is) @ concat (map service_repr is) @ []"
      using h(2) f by (simp add: counted_repr_def)
    have c: "decode_u32 (holding (reply_repr r)) = Inr (word_of_nat (length is), advance 4 (holding (reply_repr r)))"
      using decode_length_run [OF h(1) u] .
    have "decode_seq decode_service_info (length is) (advance 4 (holding (reply_repr r)))
        = Inr (is, advance (length (concat (map service_repr is))) (advance 4 (holding (reply_repr r))))"
      using h(1) u r(1) f by (intro service.decode_seq_consumes [where rest = "[]"]) simp_all
    with c n obtain b' where d: "dbind decode_u32 (\<lambda>count. decode_seq decode_service_info (unat count)) (holding (reply_repr r))
        = Inr (is, b')"
      by (simp add: dbind_simps)
    have e: "Inr buffer_new = (Inr (appended (op_args op) buffer_new) :: buffer res)"
      using ListAllOp by simp
    from step [where dec = "dbind decode_u32 (\<lambda>count. decode_seq decode_service_info (unat count))", OF e ct d, of k_method_list_all "[]"] show ?thesis
      using ListAllOp f by (auto simp: rc_list_all_def mapr_def)
  next
    case (HeartbeatOp n)
    then obtain f where f: "r = Flag f" using kind by auto
    from flag [OF f] obtain b' where d: "decode_flag (holding (reply_repr r)) = Inr (f, b')" by blast
    have e: "encode_string n buffer_new = Inr (appended (op_args op) buffer_new)"
      using str.enc_appends [where x = n and b = buffer_new] ok(1) rm HeartbeatOp by simp
    from step [where dec = decode_flag, OF e ct d, of k_method_heartbeat False] show ?thesis
      using HeartbeatOp f by (auto simp: rc_heartbeat_def mapr_def)
  qed
qed

section \<open>The client and the registry together\<close>

lemma mem_op_kind:
  "mem_op now op m = (Inr r, m') \<Longrightarrow>
    case op of DiscoverOp n \<Rightarrow> \<exists>i. r = Address i | ListAllOp \<Rightarrow> \<exists>is. r = Addresses is | _ \<Rightarrow> \<exists>f. r = Flag f"
  by (cases op) (auto simp: mapr_def map_sum_def split: sum.splits)

text \<open>Claim C20. A registry operation, end to end: for each of the five operations the client sends one
  call message with the method's number and its encoded argument; if the service dispatches
  that argument to a registry in memory and the answer it produces reaches the client, the
  client's function returns exactly what the registry's function returned, and the registry
  is in the state that function left.\<close>

theorem registry_call_end_to_end:
  assumes op: "op_ok op" "sendable (op_args op)" "buffer_ok b" "unread b = op_args op"
    and run: "mem_op now op m = (Inr r, m')" "reply_ok r" "length (reply_repr r) \<le> k_max_payload_size"
    and served: "dispatch_Registry (memory_registry now) (op_method op) b buffer_new m = (d, m'')"
    and answered: "answered_with c (length (op_args op) + 20) (answer (rc_seq c + 1) ec_unknown_method d)"
  shows "m'' = m' \<and> (\<exists>s. client_op op c = (Inr r, c\<lparr>rc_seq := rc_seq c + 1, rc_sys := s\<rparr>)
    \<and> written s = written (rc_sys c) @ wire_message mt_call (rc_seq c + 1)
        (call_header_repr (k_service_registry, op_method op) @ op_args op))"
proof -
  have "room (length (reply_repr r)) buffer_new"
    using run(3) by (intro room_new) (simp add: k_max_capacity_eq k_max_payload_size_def)
  from dispatch_runs_op [OF op(1,3,4) run(1,2) this] served
  have d: "d = Inr (appended (reply_repr r) buffer_new)" "m'' = m'" by simp_all
  then have "answer (rc_seq c + 1) ec_unknown_method d = wire_message mt_result (rc_seq c + 1) (reply_repr r)"
    by (simp add: answer_message answer_type_def answer_payload_def)
  with client_op_answered [OF op(1,2) _ run(2,3) mem_op_kind [OF run(1)], of c] answered d(2) show ?thesis by simp
qed

definition demo_service :: service_info where
  "demo_service = \<lparr>si_name = ''calc'', si_host = ''h'', si_port = 80\<rparr>"

definition demo_registry :: mem_registry where
  "demo_registry = snd (mem_register 0 demo_service mem_new)"

definition demo_registry_client :: "byte list \<Rightarrow> registry_client" where
  "demo_registry_client bs = (rc_new \<lparr>reads = [RdData bs, RdData []], writes = replicate 28 (WrAccept 1),
     polls = [PollReady False True], written = [], closed = [], options = []\<rparr> [])
     \<lparr>rc_transport := Some \<lparr>tcp_sock = 3, tcp_peer_addr = [], tcp_peer_port = 0\<rparr>, rc_timeout := 5000\<rparr>"

lemma demo_registry_discovers: "mem_op 5 (DiscoverOp ''calc'') demo_registry = (Inr (Address demo_service), demo_registry)"
  by (simp add: demo_registry_def mem_register_def demo_service_def is_valid_def mem_new_def mapr_def mem_discover_def stale_def)

theorem registry_call_end_to_end_witness:
  "\<exists>c'. rc_discover ''calc'' (demo_registry_client (wire_message mt_result 1 (service_repr demo_service))) = (Inr demo_service, c')"
proof -
  let ?a = "wire_message mt_result 1 (service_repr demo_service)"
  let ?b = "appended (string_repr ''calc'') buffer_new"
  let ?c = "demo_registry_client ?a"
  have b: "buffer_ok ?b" "unread ?b = string_repr ''calc''"
    by (simp_all add: string_repr_def room_new k_max_capacity_eq unread_appended room_ok [OF room_new [of 0]])
  have ok: "service_ok demo_service" "string_ok ''calc''" "length (service_repr demo_service) = 15"
    by (simp_all add: service_ok_def string_ok_def size_limits demo_service_def service_repr_def string_repr_def)
  have d: "dispatch_Registry (memory_registry 5) k_method_discover ?b buffer_new demo_registry
      = (Inr (appended (service_repr demo_service) buffer_new), demo_registry)"
    using dispatch_runs_op [OF _ b(1) _ demo_registry_discovers, of buffer_new] ok b(2)
    by (simp add: room_new k_max_capacity_eq)
  have ans: "answer (rc_seq ?c + 1) ec_unknown_method (Inr (appended (service_repr demo_service) buffer_new)) = ?a"
    by (simp add: answer_message answer_type_def answer_payload_def demo_registry_client_def rc_new_def)
  have "?a \<noteq> []" by (rule wire_message_nonempty)
  then have with_a: "answered_with ?c 28 ?a"
    by (auto simp: answered_with_def demo_registry_client_def rc_new_def tcp_wait_def tcp_holds_def accepting_replicate)
  have "\<exists>s. client_op (DiscoverOp ''calc'') ?c = (Inr (Address demo_service), ?c\<lparr>rc_seq := rc_seq ?c + 1, rc_sys := s\<rparr>)"
    using registry_call_end_to_end [where op = "DiscoverOp ''calc''" and b = ?b and now = 5 and m = demo_registry
        and r = "Address demo_service" and m' = demo_registry and c = ?c] demo_registry_discovers b ok d with_a
    by (auto simp: ans sendable_def string_repr_def k_max_capacity_eq k_max_payload_size_def)
  then show ?thesis by (cases "rc_discover ''calc'' ?c") (auto simp: mapr_def map_sum_def split: sum.splits)
qed

section \<open>Runs of the registry\<close>

text \<open>What happens to a registry, with the time at which it happens.\<close>

datatype registry_event = Do registry_op | Cleanup

fun mem_event :: "int \<times> registry_event \<Rightarrow> mem_registry \<Rightarrow> mem_registry" where
  "mem_event (now, Do op) m = snd (mem_op now op m)"
| "mem_event (now, Cleanup) m = cleanup_stale now m"

definition mem_run :: "(int \<times> registry_event) list \<Rightarrow> mem_registry \<Rightarrow> mem_registry" where
  "mem_run evs m = fold mem_event evs m"

text \<open>Nobody unregisters the service, and at every event its last heartbeat is recent enough.\<close>

fun kept_alive :: "int \<Rightarrow> string \<Rightarrow> int \<Rightarrow> (int \<times> registry_event) list \<Rightarrow> bool" where
  "kept_alive expiry n beat [] = True"
| "kept_alive expiry n beat ((now, ev) # evs) = (now - beat \<le> expiry * 10 ^ 9 \<and> ev \<noteq> Do (UnregisterOp n)
    \<and> kept_alive expiry n (if ev = Do (HeartbeatOp n) then now else beat) evs)"

fun last_beat :: "string \<Rightarrow> int \<Rightarrow> (int \<times> registry_event) list \<Rightarrow> int" where
  "last_beat n beat [] = beat"
| "last_beat n beat ((now, ev) # evs) = last_beat n (if ev = Do (HeartbeatOp n) then now else beat) evs"

definition names_ok :: "mem_registry \<Rightarrow> bool" where
  "names_ok m = (distinct (map fst (mr_services m)) \<and> (\<forall>(n, x)\<in>set (mr_services m). si_name (en_info x) = n \<and> is_valid (en_info x)))"

lemma names_ok_update:
  "names_ok m \<Longrightarrow> si_name (en_info x) = n \<Longrightarrow> is_valid (en_info x) \<Longrightarrow> names_ok (m\<lparr>mr_services := AList.update n x (mr_services m)\<rparr>)"
  by (auto simp: names_ok_def distinct_update set_update_distinct)

lemma names_ok_filter: "names_ok m \<Longrightarrow> names_ok (m\<lparr>mr_services := filter P (mr_services m)\<rparr>)"
  by (auto simp: names_ok_def distinct_map_fst_filter)

lemma names_ok_delete: "names_ok m \<Longrightarrow> names_ok (m\<lparr>mr_services := AList.delete n (mr_services m)\<rparr>)"
  by (simp add: AList.delete_eq names_ok_filter)

lemma names_okD: "names_ok m \<Longrightarrow> map_of (mr_services m) n = Some x \<Longrightarrow> si_name (en_info x) = n \<and> is_valid (en_info x)"
  by (auto simp: names_ok_def dest!: map_of_SomeD)

lemma mem_event_ok: "names_ok m \<Longrightarrow> names_ok (mem_event (now, ev) m) \<and> mr_expiry (mem_event (now, ev) m) = mr_expiry m"
proof (cases ev)
  case Cleanup
  assume "names_ok m"
  then show ?thesis using Cleanup by (simp add: cleanup_stale_def names_ok_filter)
next
  case (Do op)
  assume ok: "names_ok m"
  then show ?thesis
    using Do names_okD [OF ok]
    by (cases op) (auto simp: mapr_def mem_op_defs Let_def names_ok_update names_ok_delete names_ok_filter split: option.split)
qed

lemma mem_event_keeps:
  assumes ok: "names_ok m" and x: "map_of (mr_services m) n = Some x" "\<not> stale (mr_expiry m) now x"
    and ev: "ev \<noteq> Do (UnregisterOp n)"
  shows "map_of (mr_services (mem_event (now, ev) m)) n
    = Some (if ev = Do (HeartbeatOp n) then x\<lparr>en_last_heartbeat := now\<rparr> else x)"
proof -
  have kept: "map_of (filter (\<lambda>(k, y). \<not> stale (mr_expiry m) now y) (mr_services m)) n = Some x"
    using ok x by (simp add: names_ok_def map_of_filter_distinct)
  show ?thesis
  proof (cases ev)
    case Cleanup
    then show ?thesis using kept by (simp add: cleanup_stale_def)
  next
    case (Do op)
    then show ?thesis
      using x ev kept
      by (cases op) (auto simp: mapr_def mem_op_defs Let_def update_conv' delete_conv' split: option.split)
  qed
qed

lemma mem_run_keeps:
  assumes "names_ok m" "map_of (mr_services m) n = Some x" "kept_alive (mr_expiry m) n (en_last_heartbeat x) evs"
  shows "map_of (mr_services (mem_run evs m)) n = Some (x\<lparr>en_last_heartbeat := last_beat n (en_last_heartbeat x) evs\<rparr>)
    \<and> mr_expiry (mem_run evs m) = mr_expiry m"
  using assms
proof (induction evs arbitrary: m x)
  case Nil
  then show ?case by (simp add: mem_run_def)
next
  case (Cons e evs)
  obtain now ev where e: "e = (now, ev)" by (cases e)
  let ?m = "mem_event (now, ev) m" and ?x = "if ev = Do (HeartbeatOp n) then x\<lparr>en_last_heartbeat := now\<rparr> else x"
  have "map_of (mr_services ?m) n = Some ?x"
    using Cons.prems e by (intro mem_event_keeps) (simp_all add: stale_def)
  moreover have "names_ok ?m \<and> mr_expiry ?m = mr_expiry m" using Cons.prems(1) by (rule mem_event_ok)
  ultimately have "map_of (mr_services (mem_run evs ?m)) n = Some (?x\<lparr>en_last_heartbeat := last_beat n (en_last_heartbeat ?x) evs\<rparr>)
    \<and> mr_expiry (mem_run evs ?m) = mr_expiry m"
    using Cons.IH [of ?m ?x] Cons.prems(3) e by (auto split: if_splits)
  then show ?case using e by (auto simp: mem_run_def)
qed

text \<open>A service that keeps up its heartbeats stays available: once it is registered, and as
  long as nobody unregisters it and at every event its last heartbeat is no older than the
  expiry time, any run of registrations, lookups, listings, heartbeats and cleanups leaves it
  registered, and \<^verbatim>\<open>discover\<close> and \<^verbatim>\<open>list_all\<close> return its address.\<close>

theorem registry_keeps_service:
  assumes "names_ok m0" and "mem_register t0 info m0 = (Inr True, m)"
    and "kept_alive (mr_expiry m) (si_name info) t0 evs"
    and "now - last_beat (si_name info) t0 evs \<le> mr_expiry m * 10 ^ 9"
  shows "fst (mem_discover now (si_name info) (mem_run evs m)) = Inr info
    \<and> (\<exists>is. fst (mem_list_all now (mem_run evs m)) = Inr is \<and> info \<in> set is)"
proof -
  let ?n = "si_name info" and ?m = "mem_run evs m" and ?x = "\<lparr>en_info = info, en_last_heartbeat = last_beat (si_name info) t0 evs\<rparr>"
  have reg: "is_valid info" "m = m0\<lparr>mr_services := AList.update ?n \<lparr>en_info = info, en_last_heartbeat = t0\<rparr> (mr_services m0)\<rparr>"
    using assms(2) by (auto simp: mem_register_def split: if_splits)
  have "names_ok m" using names_ok_update [OF assms(1), of "\<lparr>en_info = info, en_last_heartbeat = t0\<rparr>" ?n] reg by simp
  moreover have "map_of (mr_services m) ?n = Some \<lparr>en_info = info, en_last_heartbeat = t0\<rparr>"
    using reg(2) by (simp add: update_conv')
  ultimately have x: "map_of (mr_services ?m) ?n = Some ?x" "mr_expiry ?m = mr_expiry m"
    using mem_run_keeps [of m ?n "\<lparr>en_info = info, en_last_heartbeat = t0\<rparr>" evs] assms(3) by simp_all
  have fresh: "\<not> stale (mr_expiry ?m) now ?x" using assms(4) x(2) by (simp add: stale_def)
  with x have found: "fst (mem_discover now ?n ?m) = Inr info" by (simp add: mem_discover_def)
  have "(?n, ?x) \<in> set (mr_services ?m)" using x(1) by (rule map_of_SomeD)
  with fresh have "\<exists>is. fst (mem_list_all now ?m) = Inr is \<and> info \<in> set is"
    by (force simp: mem_list_all_def Let_def)
  with found show ?thesis by blast
qed

lemma names_ok_new: "names_ok mem_new"
  by (simp add: names_ok_def mem_new_def)

text \<open>Where an entry comes from: a registration of its address, and a heartbeat or that registration
  at the time it carries.\<close>

definition entry_from :: "(int \<times> registry_event) list \<Rightarrow> string \<Rightarrow> entry \<Rightarrow> bool" where
  "entry_from evs n x = ((\<exists>t. (t, Do (RegisterOp (en_info x))) \<in> set evs) \<and> si_name (en_info x) = n \<and> is_valid (en_info x)
    \<and> (\<exists>ev. (en_last_heartbeat x, ev) \<in> set evs \<and> (ev = Do (HeartbeatOp n) \<or> ev = Do (RegisterOp (en_info x)))))"

lemma mem_event_from:
  assumes "\<And>n x. map_of (mr_services m) n = Some x \<Longrightarrow> entry_from evs n x" and ok: "names_ok m"
    and x: "map_of (mr_services (mem_event (now, ev) m)) n = Some x"
  shows "entry_from (evs @ [(now, ev)]) n x"
proof -
  have old: "map_of (mr_services m) n = Some y \<Longrightarrow> entry_from (evs @ [(now, ev)]) n y" for n y
    using assms(1) [of n y] by (auto simp: entry_from_def)
  have sub: "map_of (filter P (mr_services m)) n = Some y \<Longrightarrow> map_of (mr_services m) n = Some y" for P y
    using ok by (auto simp: names_ok_def map_of_filter_distinct split: option.splits if_splits)
  show ?thesis
  proof (cases ev)
    case Cleanup
    with x sub old show ?thesis by (auto simp: cleanup_stale_def)
  next
    case (Do op)
    show ?thesis
    proof (cases op)
      case (RegisterOp i)
      with Do x old [of n x] show ?thesis
        by (auto simp: mapr_def mem_register_def update_conv' entry_from_def split: if_splits)
    next
      case (HeartbeatOp k)
      show ?thesis
      proof (cases "map_of (mr_services m) k")
        case None
        with Do HeartbeatOp x old show ?thesis by (simp add: mapr_def mem_heartbeat_def)
      next
        case (Some y)
        with Do HeartbeatOp x old [of n x] old [OF Some] show ?thesis
          by (auto simp: mapr_def mem_heartbeat_def update_conv' entry_from_def split: if_splits)
      qed
    next
      case (UnregisterOp k)
      with Do x old sub show ?thesis by (auto simp: mapr_def mem_unregister_def AList.delete_eq)
    next
      case (DiscoverOp k)
      with Do x old sub show ?thesis
        by (auto simp: mapr_def mem_discover_def AList.delete_eq split: option.splits if_splits)
    next
      case ListAllOp
      with Do x old sub show ?thesis by (auto simp: mapr_def mem_list_all_def Let_def)
    qed
  qed
qed

lemma mem_run_from: "map_of (mr_services (mem_run evs mem_new)) n = Some x \<Longrightarrow> entry_from evs n x"
proof -
  have "names_ok (mem_run evs mem_new) \<and> mr_expiry (mem_run evs mem_new) = mr_expiry mem_new
      \<and> (\<forall>n x. map_of (mr_services (mem_run evs mem_new)) n = Some x \<longrightarrow> entry_from evs n x)" for evs
  proof (induction evs rule: rev_induct)
    case Nil
    show ?case using names_ok_new by (simp add: mem_run_def) (simp add: mem_new_def)
  next
    case (snoc e evs)
    obtain now ev where e: "e = (now, ev)" by (cases e)
    have r: "mem_run (evs @ [(now, ev)]) mem_new = mem_event (now, ev) (mem_run evs mem_new)" by (simp add: mem_run_def)
    let ?m = "mem_run evs mem_new"
    from snoc have ok: "names_ok ?m" and ex: "mr_expiry ?m = mr_expiry mem_new"
      and from_evs: "\<And>n x. map_of (mr_services ?m) n = Some x \<Longrightarrow> entry_from evs n x" by blast+
    from mem_event_ok [OF ok, of now ev] ex
    have "names_ok (mem_event (now, ev) ?m) \<and> mr_expiry (mem_event (now, ev) ?m) = mr_expiry mem_new" by simp
    moreover from mem_event_from [OF from_evs ok]
    have "entry_from (evs @ [(now, ev)]) n x" if "map_of (mr_services (mem_event (now, ev) ?m)) n = Some x" for n x
      using that by blast
    ultimately show ?case unfolding e r by blast
  qed
  then show "map_of (mr_services (mem_run evs mem_new)) n = Some x \<Longrightarrow> entry_from evs n x" by blast
qed

text \<open>The registry never makes an address up and never gives out a stale one: after any run
  of operations on a new registry, what \<^verbatim>\<open>discover\<close> returns for a name is the empty address or
  a valid one that was registered under that name, and the last heartbeat or registration of
  it happened within the expiry time, whose value the run does not change.\<close>

theorem discover_is_fresh:
  assumes "fst (mem_discover now n (mem_run evs mem_new)) = Inr i"
  shows "i = no_service \<or> (si_name i = n \<and> is_valid i \<and> (\<exists>t. (t, Do (RegisterOp i)) \<in> set evs)
    \<and> (\<exists>t ev. (t, ev) \<in> set evs \<and> now - t \<le> mr_expiry (mem_run evs mem_new) * 10 ^ 9
          \<and> (ev = Do (HeartbeatOp n) \<or> ev = Do (RegisterOp i))))"
proof (cases "map_of (mr_services (mem_run evs mem_new)) n")
  case None
  with assms show ?thesis by (simp add: mem_discover_def)
next
  case (Some x)
  show ?thesis
  proof (cases "stale (mr_expiry (mem_run evs mem_new)) now x")
    case True
    with Some assms show ?thesis by (simp add: mem_discover_def)
  next
    case False
    with Some assms have "i = en_info x" by (simp add: mem_discover_def)
    with False mem_run_from [OF Some] show ?thesis by (force simp: entry_from_def stale_def)
  qed
qed

text \<open>A registration is refused as long as an entry of that name is there, also a stale one that no
  lookup has removed yet, and a heartbeat revives such an entry.\<close>

lemma stale_entry_blocks_registration:
  "map_of (mr_services m) (si_name i) = Some x \<Longrightarrow> mem_register now i m = (Inr False, m)"
  by (simp add: mem_register_def)

end
