(* ===== verification/Song_Manager.thy ===== *)
theory Song_Manager
  imports Song_Registry "HOL-Library.Multiset"
begin

text \<open>
  The service manager (\<^verbatim>\<open>src/manager.cpp\<close>, \<^verbatim>\<open>include/song/manager.hpp\<close>): the table of local, remote
  and discoverable services, their processes, the monitor that restarts what has crashed, and
  the lookup of discoverable services through mDNS and the registry. Every operation is the
  body between taking and releasing \<^verbatim>\<open>mutex_\<close>; the two that spawn outside the lock, \<^verbatim>\<open>start\<close> and
  \<^verbatim>\<open>check_and_restart\<close>, are split where the lock is released, and the last section interleaves
  the parts of several threads.
\<close>

section \<open>State\<close>

text \<open>A process of the manager comes with the world it lives in: what its pipes will deliver and
  what the coming \<^verbatim>\<open>waitpid\<close> calls on it return.\<close>

record service_entry =
  se_name :: string
  se_executable :: string
  se_host :: string
  se_port :: u16
  se_type :: string
  se_is_remote :: bool
  se_is_discoverable :: bool
  se_version :: u32
  se_process :: "(process \<times> world) option"
  se_auto_restart :: bool
  se_restart_count :: i32
  se_max_restarts :: i32

text \<open>The environment: what the coming calls of \<^verbatim>\<open>spawn\<close> meet (the two \<^verbatim>\<open>pipe\<close> calls, \<^verbatim>\<open>fork\<close> and the
  world of the new process), the coming outgoing connections with the peer behind each, the
  answers of the discovery backend, which is a library of the platform, and the dials of
  the registry client. \<open>sm_spawned\<close> are the executables \<^verbatim>\<open>spawn\<close> was called with and \<open>sm_ended\<close> the
  processes whose handle was destroyed, with the world they left.\<close>

record spawn_event =
  sp_pipe1 :: "(int \<times> int) option"
  sp_pipe2 :: "(int \<times> int) option"
  sp_fork :: int
  sp_world :: world

datatype mdns = MdnsUnavailable | MdnsFound "(string \<times> u16) option" | MdnsThrows exn

type_synonym 'u restart_callback = "string \<Rightarrow> i32 \<Rightarrow> 'u \<Rightarrow> unit res \<times> 'u"

record 'u manager =
  sm_services :: "service_entry list"
  sm_monitor_running :: bool
  sm_monitor_interval :: int
  sm_on_restart :: "'u restart_callback option"
  sm_registry_client :: "registry_client option"
  sm_registry_host :: string
  sm_registry_port :: u16
  sm_user :: 'u
  sm_spawns :: "spawn_event list"
  sm_spawned :: "string list"
  sm_ended :: "(int \<times> world) list"
  sm_sys :: sys
  sm_dials :: "(connect_calls \<times> link) list"
  sm_mdns :: "(string \<Rightarrow> string \<Rightarrow> int \<Rightarrow> mdns) list"
  sm_registry_dials :: "(connect_calls \<times> read_event list \<times> write_event list) list"

definition entry_new :: "string \<Rightarrow> u32 \<Rightarrow> service_entry" where
  "entry_new name version = \<lparr>se_name = name, se_executable = [], se_host = [], se_port = 0, se_type = [],
     se_is_remote = False, se_is_discoverable = False, se_version = version, se_process = None,
     se_auto_restart = False, se_restart_count = 0, se_max_restarts = 5\<rparr>"

definition sys_idle :: sys where
  "sys_idle = \<lparr>reads = [], writes = [], polls = [], written = [], closed = [], options = []\<rparr>"

definition manager_new :: "'u \<Rightarrow> 'u manager" where
  "manager_new u = \<lparr>sm_services = [], sm_monitor_running = False, sm_monitor_interval = 1000, sm_on_restart = None,
     sm_registry_client = None, sm_registry_host = [], sm_registry_port = 0, sm_user = u, sm_spawns = [],
     sm_spawned = [], sm_ended = [], sm_sys = sys_idle, sm_dials = [], sm_mdns = [], sm_registry_dials = []\<rparr>"

section \<open>The table\<close>

definition find_service :: "string \<Rightarrow> service_entry list \<Rightarrow> service_entry option" where
  "find_service name es = find (\<lambda>e. se_name e = name) es"

text \<open>A change through the pointer \<^verbatim>\<open>find_service\<close> returned.\<close>

fun on_service :: "string \<Rightarrow> (service_entry \<Rightarrow> service_entry) \<Rightarrow> service_entry list \<Rightarrow> service_entry list" where
  "on_service name f [] = []"
| "on_service name f (e # es) = (if se_name e = name then f e # es else e # on_service name f es)"

definition set_entry :: "string \<Rightarrow> (service_entry \<Rightarrow> service_entry) \<Rightarrow> 'u manager \<Rightarrow> 'u manager" where
  "set_entry name f m = m\<lparr>sm_services := on_service name f (sm_services m)\<rparr>"

definition with_entry :: "string \<Rightarrow> (service_entry \<Rightarrow> ('u manager, 'a) step) \<Rightarrow> ('u manager, 'a) step" where
  "with_entry name k m = (case find_service name (sm_services m) of
      None \<Rightarrow> (Inl (ServiceError (''Service not found: '' @ name)), m)
    | Some e \<Rightarrow> k e m)"

definition add_entry :: "service_entry \<Rightarrow> ('u manager, unit) step" where
  "add_entry e m = (Inr (), m\<lparr>sm_services := sm_services m @ [e]\<rparr>)"

definition unregistered :: "string \<Rightarrow> ('u manager, unit) step \<Rightarrow> ('u manager, unit) step" where
  "unregistered name k m = (case find_service name (sm_services m) of
      None \<Rightarrow> k m
    | Some e \<Rightarrow> (Inl (ServiceError (''Service '' @ quoted name @ '' is already registered'')), m))"

definition manager_register_service :: "string \<Rightarrow> string \<Rightarrow> u32 \<Rightarrow> ('u manager, unit) step" where
  "manager_register_service name executable version =
    unregistered name (add_entry ((entry_new name version)\<lparr>se_executable := executable\<rparr>))"

definition register_remote_service :: "string \<Rightarrow> string \<Rightarrow> u16 \<Rightarrow> u32 \<Rightarrow> ('u manager, unit) step" where
  "register_remote_service name host port version =
    unregistered name (add_entry ((entry_new name version)\<lparr>se_host := host, se_port := port, se_is_remote := True\<rparr>))"

definition register_discoverable_service :: "string \<Rightarrow> string \<Rightarrow> u32 \<Rightarrow> ('u manager, unit) step" where
  "register_discoverable_service name type version =
    add_entry ((entry_new name version)\<lparr>se_type := type, se_is_discoverable := True\<rparr>)"

definition is_remote :: "string \<Rightarrow> ('u manager, bool) step" where
  "is_remote name = with_entry name (\<lambda>e. sret (se_is_remote e))"

definition is_discoverable :: "string \<Rightarrow> ('u manager, bool) step" where
  "is_discoverable name = with_entry name (\<lambda>e. sret (se_is_discoverable e))"

text \<open>The guards of the operations that only local services have.\<close>

definition with_local :: "string \<Rightarrow> string \<Rightarrow> string \<Rightarrow> (service_entry \<Rightarrow> ('u manager, 'a) step) \<Rightarrow> ('u manager, 'a) step" where
  "with_local verb name hint k = with_entry name (\<lambda>e.
    if se_is_remote e then sthrow (ServiceError (''Cannot '' @ verb @ '' remote service: '' @ name @ hint))
    else if se_is_discoverable e
    then sthrow (ServiceError (''Cannot '' @ verb @ '' discoverable service: '' @ name @ hint))
    else k e)"

definition set_auto_restart :: "string \<Rightarrow> bool \<Rightarrow> ('u manager, unit) step" where
  "set_auto_restart name enable = with_local ''set auto-restart for'' name [] (\<lambda>e.
    smodify (set_entry name (\<lambda>e. e\<lparr>se_auto_restart := enable\<rparr>)))"

definition set_max_restarts :: "string \<Rightarrow> i32 \<Rightarrow> ('u manager, unit) step" where
  "set_max_restarts name n = with_local ''set max-restarts for'' name [] (\<lambda>e.
    smodify (set_entry name (\<lambda>e. e\<lparr>se_max_restarts := n\<rparr>)))"

definition restart_count :: "string \<Rightarrow> ('u manager, i32) step" where
  "restart_count name = with_entry name (\<lambda>e. sret (se_restart_count e))"

definition reset_restart_count :: "string \<Rightarrow> ('u manager, unit) step" where
  "reset_restart_count name = with_entry name (\<lambda>e. smodify (set_entry name (\<lambda>e. e\<lparr>se_restart_count := 0\<rparr>)))"

section \<open>Processes\<close>

text \<open>\<^verbatim>\<open>~ServiceProcess\<close>, and the destructors of its pipes.\<close>

definition process_destroy :: "process \<Rightarrow> world \<Rightarrow> world" where
  "process_destroy p w = (case (if pid p > 0 then process_terminate (p, w) else (Inr (), p, w)) of (r, p, w) \<Rightarrow>
     w\<lparr>w_sys := snd (pipe_close (to_service p) (snd (pipe_close (from_service p) (w_sys w))))\<rparr>)"

text \<open>Whether \<^verbatim>\<open>spawn\<close> gets as far as starting a child.\<close>

definition forked :: "spawn_event \<Rightarrow> bool" where
  "forked ev \<longleftrightarrow> sp_pipe1 ev \<noteq> None \<and> sp_pipe2 ev \<noteq> None \<and> 0 < sp_fork ev"

text \<open>\<^verbatim>\<open>std::make_unique<ServiceProcess>(ServiceProcess::spawn(..))\<close> moves the new handle to the heap.\<close>

definition make_process :: "string \<Rightarrow> ('u manager, process \<times> world) step" where
  "make_process executable m = (case sm_spawns m of
      [] \<Rightarrow> (Inl Diverges, m)
    | ev # evs \<Rightarrow>
        let m = m\<lparr>sm_spawns := evs, sm_spawned := sm_spawned m @ [executable]\<rparr> in
        case spawn (sp_pipe1 ev) (sp_pipe2 ev) (sp_fork ev) (sp_world ev) of
          (Inr p, w) \<Rightarrow> (Inr (fst (process_move p), w), m)
        | (Inl e, w) \<Rightarrow> (Inl e, m\<lparr>sm_ended := sm_ended m @ [(if forked ev then sp_fork ev else -1, w)]\<rparr>))"

text \<open>Assigning the \<^verbatim>\<open>unique_ptr\<close> of an entry destroys the process it owned.\<close>

definition ended_process :: "(process \<times> world) option \<Rightarrow> (int \<times> world) list" where
  "ended_process q = (case q of None \<Rightarrow> [] | Some (p, w) \<Rightarrow> [(pid p, process_destroy p w)])"

definition put_process :: "string \<Rightarrow> (process \<times> world) option \<Rightarrow> 'u manager \<Rightarrow> 'u manager" where
  "put_process name q m = (case find_service name (sm_services m) of
      None \<Rightarrow> m
    | Some e \<Rightarrow> (set_entry name (\<lambda>e. e\<lparr>se_process := q\<rparr>) m)\<lparr>sm_ended := sm_ended m @ ended_process (se_process e)\<rparr>)"

text \<open>\<^verbatim>\<open>entry->process->alive()\<close>, which reaps the child when it has exited.\<close>

definition entry_alive :: "service_entry \<Rightarrow> bool res \<times> service_entry" where
  "entry_alive e = (case se_process e of
      None \<Rightarrow> (Inr False, e)
    | Some (p, w) \<Rightarrow> (case process_alive p w of (r, w) \<Rightarrow> (r, e\<lparr>se_process := Some (p, w)\<rparr>)))"

definition check_alive :: "service_entry \<Rightarrow> ('u manager, bool) step" where
  "check_alive e m = (case entry_alive e of (r, e') \<Rightarrow> (r, set_entry (se_name e) (\<lambda>_. e') m))"

text \<open>\<^verbatim>\<open>start\<close> up to the release of the lock: the running process, or the executable to spawn; and
  from the second lock on.\<close>

definition entry_process :: "string \<Rightarrow> ('u manager, process \<times> world) step" where
  "entry_process name m = (case Option.bind (find_service name (sm_services m)) se_process of
      Some q \<Rightarrow> (Inr q, m)
    | None \<Rightarrow> (Inl (Undefined ''null process''), m))"

definition start_lookup :: "string \<Rightarrow> ('u manager, string option) step" where
  "start_lookup name = with_local ''start'' name '' (use connect() instead)'' (\<lambda>e.
    sbind (check_alive e) (\<lambda>alive. sret (if alive then None else Some (se_executable e))))"

definition start_install :: "string \<Rightarrow> process \<times> world \<Rightarrow> ('u manager, unit) step" where
  "start_install name q m = (case find_service name (sm_services m) of
      None \<Rightarrow> (Inl (ServiceError (''Service removed during start: '' @ name)),
        m\<lparr>sm_ended := sm_ended m @ ended_process (Some q)\<rparr>)
    | Some e \<Rightarrow> (Inr (), put_process name (Some q) m))"

definition manager_start :: "string \<Rightarrow> ('u manager, process \<times> world) step" where
  "manager_start name = sbind (start_lookup name) (\<lambda>need. case need of
      None \<Rightarrow> entry_process name
    | Some executable \<Rightarrow> sbind (make_process executable) (\<lambda>q.
        sbind (start_install name q) (\<lambda>_. entry_process name)))"

text \<open>\<^verbatim>\<open>terminate\<close> and \<^verbatim>\<open>reset\<close>.\<close>

definition stopped_process :: "process \<Rightarrow> world \<Rightarrow> int \<times> world" where
  "stopped_process p w = (case process_terminate (p, w) of (r, p', w') \<Rightarrow> (pid p, process_destroy p' w'))"

definition shut_down :: "string \<Rightarrow> ('u manager, unit) step" where
  "shut_down name = with_entry name (\<lambda>e. case se_process e of
      None \<Rightarrow> sret ()
    | Some (p, w) \<Rightarrow> smodify (\<lambda>m.
        (set_entry name (\<lambda>e. e\<lparr>se_process := None\<rparr>) m)\<lparr>sm_ended := sm_ended m @ [stopped_process p w]\<rparr>))"

definition spawn_into :: "string \<Rightarrow> string \<Rightarrow> ('u manager, unit) step" where
  "spawn_into name executable = sbind (make_process executable) (\<lambda>q. smodify (put_process name (Some q)))"

definition manager_stop :: "string \<Rightarrow> ('u manager, unit) step" where
  "manager_stop name = with_local ''stop'' name [] (\<lambda>e. shut_down name)"

definition manager_restart :: "string \<Rightarrow> ('u manager, unit) step" where
  "manager_restart name = with_local ''restart'' name [] (\<lambda>e.
    sbind (shut_down name) (\<lambda>_. spawn_into name (se_executable e)))"

definition manager_replace :: "string \<Rightarrow> string \<Rightarrow> ('u manager, unit) step" where
  "manager_replace name new_executable = with_local ''replace'' name [] (\<lambda>e.
    sbind (shut_down name) (\<lambda>_.
    sbind (smodify (set_entry name (\<lambda>e. e\<lparr>se_executable := new_executable\<rparr>))) (\<lambda>_.
      spawn_into name new_executable)))"

section \<open>The registry client\<close>

definition has_registry :: "'u manager \<Rightarrow> bool" where
  "has_registry m \<longleftrightarrow> sm_registry_host m \<noteq> [] \<and> sm_registry_port m \<noteq> 0"

text \<open>The destructor of the old client closes its connection.\<close>

definition set_registry :: "string \<Rightarrow> u16 \<Rightarrow> ('u manager, unit) step" where
  "set_registry host port m =
    (let m = m\<lparr>sm_registry_host := host, sm_registry_port := port\<rparr> in
     case sm_registry_client m of
       None \<Rightarrow> (Inr (), m)
     | Some c \<Rightarrow> (Inr (), m\<lparr>sm_registry_client := None, sm_registry_dials := rc_dials c,
         sm_sys := (sm_sys m)\<lparr>closed := closed (sm_sys m) @ closed (rc_sys (rc_close c))\<rparr>\<rparr>))"

text \<open>The constructor of the client connects; it swallows the failure of that.\<close>

definition registry_client_unlocked :: "('u manager, registry_client option) step" where
  "registry_client_unlocked m =
    (if \<not> has_registry m then (Inr None, m)
     else case sm_registry_client m of
       Some c \<Rightarrow> (Inr (Some c), m)
     | None \<Rightarrow>
       (case rc_new_connected (sm_registry_host m) (sm_registry_port m) 5000 sys_idle (sm_registry_dials m) of
          (Inl e, c) \<Rightarrow> (Inl e, m\<lparr>sm_registry_dials := rc_dials c\<rparr>)
        | (Inr r, c) \<Rightarrow> (Inr (Some c), m\<lparr>sm_registry_client := Some c, sm_registry_dials := []\<rparr>)))"

definition manager_registry_client :: "('u manager, registry_client option) step" where
  "manager_registry_client = registry_client_unlocked"

section \<open>Connecting\<close>

text \<open>\<^verbatim>\<open>TcpTransport::connect\<close> on a new transport, which its destructor closes when that throws.\<close>

definition dial_service :: "string \<Rightarrow> u16 \<Rightarrow> int \<Rightarrow> ('u manager, tcp \<times> link) step" where
  "dial_service host port timeout_ms m = (case sm_dials m of
      [] \<Rightarrow> (Inl Diverges, m)
    | (calls, l) # ds \<Rightarrow>
      (case tcp_connect calls host port timeout_ms (tcp_new, sm_sys m) of
         (Inr u, t, s) \<Rightarrow> (Inr (t, l\<lparr>l_up := True\<rparr>), m\<lparr>sm_sys := s, sm_dials := ds\<rparr>)
       | (Inl e, t, s) \<Rightarrow> (Inl e, m\<lparr>sm_sys := snd (tcp_close (t, s)), sm_dials := ds\<rparr>)))"

definition hang_up :: "tcp \<Rightarrow> 'u manager \<Rightarrow> 'u manager" where
  "hang_up t m = m\<lparr>sm_sys := snd (tcp_close (t, sm_sys m))\<rparr>"

definition world_idle :: world where
  "world_idle = \<lparr>w_sys = sys_idle, w_waits = [], w_kills = []\<rparr>"

definition connect_remote :: "string \<Rightarrow> u16 \<Rightarrow> ('u manager, unit client) step" where
  "connect_remote host port = sbind (dial_service host port 5000) (\<lambda>(t, l) m.
    case client_init_handshake (client_new Remote process_default world_idle l True ()) of
      (Inr u, c) \<Rightarrow> (Inr c, m)
    | (Inl e, c) \<Rightarrow> (Inl e, if catchable e then hang_up t m else m))"

definition mdns_discover :: "string \<Rightarrow> string \<Rightarrow> int \<Rightarrow> ('u manager, (string \<times> u16) option option) step" where
  "mdns_discover name type timeout_ms m = (case sm_mdns m of
      [] \<Rightarrow> (Inl Diverges, m)
    | backend # bs \<Rightarrow>
      (let m = m\<lparr>sm_mdns := bs\<rparr> in case backend name type timeout_ms of
         MdnsUnavailable \<Rightarrow> (Inr None, m)
       | MdnsFound found \<Rightarrow> (Inr (Some found), m)
       | MdnsThrows e \<Rightarrow> (Inl e, m)))"

definition registry_lookup :: "string \<Rightarrow> string \<times> u16 \<Rightarrow> ('u manager, string \<times> u16) step" where
  "registry_lookup name addr = sbind registry_client_unlocked (\<lambda>client. case client of
      None \<Rightarrow> sret addr
    | Some c \<Rightarrow>
        if \<not> rc_is_connected c then sret addr
        else (\<lambda>m. case rc_discover name c of (r, c) \<Rightarrow>
          (rbind r (\<lambda>info. Inr (if is_valid info then (si_host info, si_port info) else addr)),
           m\<lparr>sm_registry_client := Some c\<rparr>)))"

definition locate_service :: "string \<Rightarrow> string \<Rightarrow> ('u manager, string \<times> u16) step" where
  "locate_service name type = sbind (mdns_discover name type 3000) (\<lambda>answer.
    let addr = (case answer of Some (Some a) \<Rightarrow> a | _ \<Rightarrow> ([], 0)) in
    sbind (sget has_registry) (\<lambda>registry.
    sbind (if snd addr = 0 \<and> registry then registry_lookup name addr else sret addr) (\<lambda>addr.
      if snd addr = 0
      then if answer = None \<and> \<not> registry
        then sthrow (ServiceError ''Service discovery not available: no mDNS and no registry configured'')
        else sthrow (ServiceError (''Service not found: '' @ name))
      else sret addr)))"

text \<open>A connection to a local service keeps a pointer to the process of the entry; the client has
  the process as it is when \<^verbatim>\<open>connect\<close> returns.\<close>

definition link_none :: link where
  "link_none = \<lparr>l_up = False, l_sent = [], l_faults = [], l_inbox = []\<rparr>"

definition connect_local :: "string \<Rightarrow> service_entry \<Rightarrow> ('u manager, unit client) step" where
  "connect_local name e = sbind (check_alive e) (\<lambda>alive.
    sbind (if alive then sret () else spawn_into name (se_executable e)) (\<lambda>_.
    sbind (entry_process name) (\<lambda>(p, w). sret (client_new Local p w link_none False ()))))"

definition manager_connect :: "string \<Rightarrow> ('u manager, unit client) step" where
  "manager_connect name = with_entry name (\<lambda>e.
    if se_is_remote e then connect_remote (se_host e) (se_port e)
    else if se_is_discoverable e
    then sbind (locate_service name (se_type e)) (\<lambda>(host, port). connect_remote host port)
    else connect_local name e)"

definition manager_is_alive :: "string \<Rightarrow> ('u manager, bool) step" where
  "manager_is_alive name m = (case find_service name (sm_services m) of
      None \<Rightarrow> (Inr False, m)
    | Some e \<Rightarrow>
      (if se_is_remote e
       then scatch catchable
         (sbind (dial_service (se_host e) (se_port e) 1000) (\<lambda>(t, l) m. (Inr True, hang_up t m))) (\<lambda>_. sret False)
       else if se_is_discoverable e
       then scatch catchable
         (sbind (mdns_discover name (se_type e) 1000) (\<lambda>answer. sret (case answer of
            None \<Rightarrow> False | Some found \<Rightarrow> found \<noteq> None))) (\<lambda>_. sret False)
       else check_alive e) m)"

section \<open>The monitor\<close>

definition set_restart_callback :: "'u restart_callback option \<Rightarrow> ('u manager, unit) step" where
  "set_restart_callback callback = smodify (\<lambda>m. m\<lparr>sm_on_restart := callback\<rparr>)"

record restart_info =
  ri_name :: string
  ri_executable :: string
  ri_count :: i32

text \<open>Whether \<^verbatim>\<open>check_and_restart\<close> restarts a service, with what its call of \<^verbatim>\<open>waitpid\<close> does.\<close>

definition gave_up :: "service_entry \<Rightarrow> bool" where
  "gave_up e \<longleftrightarrow> 0 <s se_max_restarts e \<and> se_max_restarts e \<le>s se_restart_count e"

definition restart_due :: "service_entry \<Rightarrow> bool \<times> service_entry" where
  "restart_due e =
    (if se_is_remote e \<or> se_is_discoverable e \<or> \<not> se_auto_restart e then (False, e)
     else if se_process e = None then (False, e)
     else case entry_alive e of
       (Inr False, e') \<Rightarrow> (\<not> gave_up e', e')
     | (_, e') \<Rightarrow> (False, e'))"

text \<open>The collection, under the lock; an overflow of the counter is undefined behaviour.\<close>

fun collect_restarts :: "service_entry list \<Rightarrow> restart_info list res \<times> service_entry list" where
  "collect_restarts [] = (Inr [], [])"
| "collect_restarts (e # es) = (case restart_due e of
      (False, e) \<Rightarrow> (case collect_restarts es of (r, es) \<Rightarrow> (r, e # es))
    | (True, e) \<Rightarrow>
        if se_restart_count e = 0x7FFFFFFF then (Inl (Undefined ''restart_count overflows''), e # es)
        else
          let e = e\<lparr>se_restart_count := se_restart_count e + 1\<rparr>;
              info = \<lparr>ri_name = se_name e, ri_executable = se_executable e, ri_count = se_restart_count e\<rparr>
          in (case collect_restarts es of (r, es) \<Rightarrow> (rbind r (\<lambda>infos. Inr (info # infos)), e # es)))"

definition collect_step :: "('u manager, restart_info list) step" where
  "collect_step m = (case collect_restarts (sm_services m) of (r, es) \<Rightarrow> (r, m\<lparr>sm_services := es\<rparr>))"

text \<open>What follows a spawn, again under the lock: the new process takes the place of the old and
  the callback is called; and the handler of a \<^verbatim>\<open>std::exception\<close>, also one of the callback.\<close>

definition restart_install :: "string \<Rightarrow> process \<times> world \<Rightarrow> ('u manager, unit) step" where
  "restart_install name q m = (case find_service name (sm_services m) of
      None \<Rightarrow> (Inr (), m\<lparr>sm_ended := sm_ended m @ ended_process (Some q)\<rparr>)
    | Some e \<Rightarrow>
        let m = put_process name (Some q) m in
        case sm_on_restart m of
          None \<Rightarrow> (Inr (), m)
        | Some callback \<Rightarrow> (case callback (se_name e) (se_restart_count e) (sm_user m) of (r, u) \<Rightarrow> (r, m\<lparr>sm_user := u\<rparr>)))"

definition restart_failed :: "string \<Rightarrow> ('u manager, unit) step" where
  "restart_failed name = smodify (put_process name None)"

definition restart_one :: "restart_info \<Rightarrow> ('u manager, unit) step" where
  "restart_one info = scatch std_exception
    (sbind (make_process (ri_executable info)) (restart_install (ri_name info)))
    (\<lambda>_. restart_failed (ri_name info))"

fun restart_each :: "restart_info list \<Rightarrow> ('u manager, unit) step" where
  "restart_each [] = sret ()"
| "restart_each (info # infos) = sbind (restart_one info) (\<lambda>_. restart_each infos)"

definition check_and_restart :: "('u manager, unit) step" where
  "check_and_restart = sbind collect_step restart_each"

definition start_monitor :: "int \<Rightarrow> 'u manager \<Rightarrow> 'u manager" where
  "start_monitor interval_ms m = (if sm_monitor_running m then m
     else m\<lparr>sm_monitor_interval := interval_ms, sm_monitor_running := True\<rparr>)"

definition stop_monitor :: "'u manager \<Rightarrow> 'u manager" where
  "stop_monitor m = (if \<not> sm_monitor_running m then m else m\<lparr>sm_monitor_running := False\<rparr>)"

text \<open>The thread: each round has what the loads of \<^verbatim>\<open>monitor_running_\<close> and the readings of the clock
  (in milliseconds) gave. \<open>monitor_sleep\<close> counts the sleeps of 100 milliseconds.\<close>

fun monitor_sleep :: "int \<Rightarrow> (bool \<times> int) list \<Rightarrow> nat option" where
  "monitor_sleep end_time [] = None"
| "monitor_sleep end_time ((running, now) # ls) =
    (if running \<and> now < end_time then map_option Suc (monitor_sleep end_time ls) else Some 0)"

fun monitor_loop :: "(bool \<times> int \<times> (bool \<times> int) list) list \<Rightarrow> ('u manager, unit) step" where
  "monitor_loop [] = sthrow Diverges"
| "monitor_loop ((running, now, ls) # rounds) =
    (if \<not> running then sret ()
     else sbind check_and_restart (\<lambda>_. sbind (sget sm_monitor_interval) (\<lambda>interval.
       case monitor_sleep (now + interval) ls of None \<Rightarrow> sthrow Diverges | Some n \<Rightarrow> monitor_loop rounds)))"

text \<open>The destructor.\<close>

definition manager_destroy :: "'u manager \<Rightarrow> 'u manager" where
  "manager_destroy m = (let m = stop_monitor m in m\<lparr>sm_services := [], sm_registry_client := None,
     sm_ended := sm_ended m @ concat (map (\<lambda>e. case se_process e of
         None \<Rightarrow> [] | Some (p, w) \<Rightarrow> [stopped_process p w]) (sm_services m))\<rparr>)"

section \<open>The table as a map\<close>

text \<open>\<open>find_service\<close> sees the first entry of a name, and a change through it touches only that one.\<close>

lemma find_service_simps [simp]:
  "find_service n [] = None"
  "find_service n (e # es) = (if se_name e = n then Some e else find_service n es)"
  by (simp_all add: find_service_def)

lemma find_service_append: "find_service n (es @ fs) = (case find_service n es of None \<Rightarrow> find_service n fs | e \<Rightarrow> e)"
  by (induction es) auto

lemma find_service_Some: "find_service n es = Some e \<Longrightarrow> e \<in> set es \<and> se_name e = n"
  by (induction es) (auto split: if_splits)

lemma find_on_service:
  assumes "\<And>e. se_name (f e) = se_name e"
  shows "find_service n (on_service k f es) = (if n = k then map_option f (find_service n es) else find_service n es)"
  by (induction es) (auto simp: assms)

lemma on_service_split:
  "find_service n es = Some e \<Longrightarrow> \<exists>as bs. es = as @ e # bs \<and> on_service n f es = as @ f e # bs"
proof (induction es)
  case (Cons a es)
  show ?case
  proof (cases "se_name a = n")
    case True
    with Cons.prems have "a # es = [] @ e # es \<and> on_service n f (a # es) = [] @ f e # es" by simp
    then show ?thesis by blast
  next
    case False
    with Cons obtain as bs where "es = as @ e # bs" "on_service n f es = as @ f e # bs" by auto
    with False have "a # es = (a # as) @ e # bs \<and> on_service n f (a # es) = (a # as) @ f e # bs" by simp
    then show ?thesis by blast
  qed
qed simp

lemma on_service_absent: "find_service n es = None \<Longrightarrow> on_service n f es = es"
  by (induction es) (auto split: if_splits)

definition is_local :: "service_entry \<Rightarrow> bool" where
  "is_local e \<longleftrightarrow> \<not> se_is_remote e \<and> \<not> se_is_discoverable e"

definition has_local :: "string \<Rightarrow> 'u manager \<Rightarrow> bool" where
  "has_local n m \<longleftrightarrow> (\<exists>e. find_service n (sm_services m) = Some e \<and> is_local e)"

section \<open>Steps that end\<close>

text \<open>A thread whose step is undefined or never ends does not come back with a state; \<open>ends R\<close> says
  what a step that returns or throws does to the state.\<close>

definition comes_back :: "'a res \<Rightarrow> bool" where
  "comes_back r \<longleftrightarrow> (\<forall>e. r = Inl e \<longrightarrow> catchable e)"

definition ends :: "('s \<Rightarrow> 's \<Rightarrow> bool) \<Rightarrow> ('s, 'a) step \<Rightarrow> bool" where
  "ends R m \<longleftrightarrow> (\<forall>s r s'. m s = (r, s') \<longrightarrow> comes_back r \<longrightarrow> R s s')"

lemma endsI: "(\<And>s r s'. m s = (r, s') \<Longrightarrow> comes_back r \<Longrightarrow> R s s') \<Longrightarrow> ends R m"
  by (simp add: ends_def)

lemma endsD: "ends R m \<Longrightarrow> m s = (r, s') \<Longrightarrow> comes_back r \<Longrightarrow> R s s'"
  by (auto simp: ends_def)

lemma comes_back_Inr [simp]: "comes_back (Inr x)"
  by (simp add: comes_back_def)

lemma ends_mono: "ends R m \<Longrightarrow> (\<And>s s'. R s s' \<Longrightarrow> Q s s') \<Longrightarrow> ends Q m"
  by (auto simp: ends_def)

locale ending_preorder = step_preorder R for R :: "'s \<Rightarrow> 's \<Rightarrow> bool"
begin

lemma ends_pure: "ends R (sret x)" "ends R (sthrow e)" "ends R (slift r)" "ends R (sget f)"
  by (auto simp: ends_def monad_defs R_refl)

lemma ends_modify: "(\<And>s. R s (f s)) \<Longrightarrow> ends R (smodify f)"
  by (auto simp: ends_def smodify_def)

lemma ends_sbind: "ends R m \<Longrightarrow> (\<And>x. ends R (k x)) \<Longrightarrow> ends R (sbind m k)"
  unfolding ends_def sbind_apply
  by (auto simp: comes_back_def split: prod.splits sum.splits) (meson R_trans sum.simps(4))

lemma ends_scatch:
  assumes "ends R m" "\<And>e. ends R (h e)" "\<And>e. p e \<Longrightarrow> catchable e"
  shows "ends R (scatch p m h)"
proof (rule endsI)
  fix s r s'
  assume s: "scatch p m h s = (r, s')" and r: "comes_back r"
  obtain r1 s1 where m: "m s = (r1, s1)" by fastforce
  show "R s s'"
  proof (cases "\<exists>e. r1 = Inl e \<and> p e")
    case True
    then obtain e where e: "r1 = Inl e" "p e" by blast
    then have "R s s1" using endsD [OF assms(1) m] assms(3) by (simp add: comes_back_def)
    moreover have "R s1 s'" using endsD [OF assms(2), of e s1 r s'] s m e r by (simp add: scatch_apply)
    ultimately show ?thesis by (rule R_trans)
  next
    case False
    with s m have "r1 = r" "s1 = s'" by (auto simp: scatch_apply split: sum.splits if_splits)
    with endsD [OF assms(1) m] r show ?thesis by simp
  qed
qed

end

section \<open>Where the processes are\<close>

text \<open>
  A process that was started is held by an entry of the table, by a thread between its two
  critical sections, or it is in \<open>sm_ended\<close>. \<open>evolves held held'\<close> says of a step of a thread
  that holds the processes \<open>held\<close> before and \<open>held'\<close> after it: entries stay what they are, only
  local ones get a process, a handle is destroyed only after a SIGTERM, and the processes
  the step started and found are all still there afterwards.
\<close>

definition procs :: "(process \<times> world) option \<Rightarrow> int multiset" where
  "procs q = (case q of None \<Rightarrow> {#} | Some (p, w) \<Rightarrow> {#pid p#})"

definition owned :: "service_entry list \<Rightarrow> int multiset" where
  "owned es = sum_list (map (\<lambda>e. procs (se_process e)) es)"

definition account :: "int multiset \<Rightarrow> 'u manager \<Rightarrow> int multiset" where
  "account held m = filter_mset (\<lambda>k. 0 < k) (held + owned (sm_services m) + mset (map fst (sm_ended m)))"

definition forks :: "spawn_event list \<Rightarrow> int multiset" where
  "forks evs = mset (map sp_fork (filter forked evs))"

definition only_local :: "service_entry list \<Rightarrow> bool" where
  "only_local es \<longleftrightarrow> (\<forall>e \<in> set es. se_process e \<noteq> None \<longrightarrow> is_local e)"

definition signalled :: "(int \<times> world) list \<Rightarrow> bool" where
  "signalled ps \<longleftrightarrow> (\<forall>(k, w) \<in> set ps. 0 < k \<longrightarrow> (k, SIGTERM) \<in> set (w_kills w))"

text \<open>A local service is registered only under a name that is free, so no other entry of its name
  comes before it.\<close>

definition kinds :: "service_entry list \<Rightarrow> (string \<times> bool) list" where
  "kinds es = map (\<lambda>e. (se_name e, is_local e)) es"

fun lead :: "(string \<times> bool) list \<Rightarrow> bool" where
  "lead [] = True"
| "lead ((n, l) # ks) = (lead ks \<and> (n, True) \<notin> set ks)"

definition evolves :: "int multiset \<Rightarrow> int multiset \<Rightarrow> 'u manager \<Rightarrow> 'u manager \<Rightarrow> bool" where
  "evolves held held' m m' \<longleftrightarrow>
     (\<exists>added. kinds (sm_services m') = kinds (sm_services m) @ added)
   \<and> (lead (kinds (sm_services m)) \<longrightarrow> lead (kinds (sm_services m')))
   \<and> (only_local (sm_services m) \<longrightarrow> only_local (sm_services m'))
   \<and> (signalled (sm_ended m) \<longrightarrow> signalled (sm_ended m'))
   \<and> (\<exists>used. sm_spawns m = used @ sm_spawns m' \<and> account held' m' = account held m + forks used)"

lemma owned_simps [simp]:
  "owned [] = {#}" "owned (e # es) = procs (se_process e) + owned es" "owned (es @ fs) = owned es + owned fs"
  by (simp_all add: owned_def)

lemma procs_simps [simp]: "procs None = {#}" "procs (Some q) = {#pid (fst q)#}"
  by (simp_all add: procs_def split: prod.split)

lemma owned_on_service:
  "find_service n es = Some e \<Longrightarrow>
    owned (on_service n f es) + procs (se_process e) = owned es + procs (se_process (f e))"
  using on_service_split [of n es e f] by (auto simp: ac_simps)

lemma only_local_on_service:
  "only_local es \<Longrightarrow> find_service n es = Some e \<Longrightarrow> (se_process (f e) \<noteq> None \<longrightarrow> is_local (f e))
    \<Longrightarrow> only_local (on_service n f es)"
  using on_service_split [of n es e f] by (auto simp: only_local_def)

lemma map_of_kinds: "map_of (kinds es) n = map_option is_local (find_service n es)"
  by (induction es) (auto simp: kinds_def)

lemma has_local_kinds: "has_local n m \<longleftrightarrow> map_of (kinds (sm_services m)) n = Some True"
  by (auto simp: has_local_def map_of_kinds)

lemma kinds_on_service:
  "find_service n es = Some e \<Longrightarrow> se_name (f e) = n \<Longrightarrow> is_local (f e) = is_local e \<Longrightarrow>
    kinds (on_service n f es) = kinds es"
  using on_service_split [of n es e f] find_service_Some [of n es e] by (auto simp: kinds_def)

lemma lead_append: "lead (ks @ [(n, l)]) \<longleftrightarrow> lead ks \<and> (l \<longrightarrow> map_of ks n = None)"
  by (induction ks rule: lead.induct) (auto simp: map_of_eq_None_iff image_iff)

lemma lead_local:
  "lead (kinds es) \<Longrightarrow> e \<in> set es \<Longrightarrow> is_local e \<Longrightarrow> map_of (kinds es) (se_name e) = Some True"
proof (induction es)
  case (Cons a es)
  then show ?case by (cases "e \<in> set es") (auto simp: kinds_def image_iff)
qed simp

lemma forks_simps [simp]:
  "forks [] = {#}" "forks (as @ bs) = forks as + forks bs"
  "forks [ev] = (if forked ev then {#sp_fork ev#} else {#})"
  by (simp_all add: forks_def)

lemma evolves_refl [simp]: "evolves held held m m"
  by (auto simp: evolves_def)

lemma evolves_trans:
  assumes 1: "evolves a b m1 m2" and 2: "evolves b c m2 m3"
  shows "evolves a c m1 m3"
proof -
  have kind: "\<exists>added. kinds (sm_services m3) = kinds (sm_services m1) @ added"
    using 1 2 unfolding evolves_def by (metis append_assoc)
  obtain u1 where u1: "sm_spawns m1 = u1 @ sm_spawns m2" "account b m2 = account a m1 + forks u1"
    using 1 unfolding evolves_def by blast
  obtain u2 where u2: "sm_spawns m2 = u2 @ sm_spawns m3" "account c m3 = account b m2 + forks u2"
    using 2 unfolding evolves_def by blast
  have "sm_spawns m1 = (u1 @ u2) @ sm_spawns m3 \<and> account c m3 = account a m1 + forks (u1 @ u2)"
    using u1 u2 by simp
  then have "\<exists>u. sm_spawns m1 = u @ sm_spawns m3 \<and> account c m3 = account a m1 + forks u" by blast
  with kind 1 2 show ?thesis unfolding evolves_def by blast
qed

lemma evolves_frame: "evolves a b m m' \<Longrightarrow> evolves (a + h) (b + h) m m'"
  by (auto simp: evolves_def account_def ac_simps)

lemma evolves_env:
  "sm_services m' = sm_services m \<Longrightarrow> sm_spawns m' = sm_spawns m \<Longrightarrow> sm_ended m' = sm_ended m \<Longrightarrow> evolves h h m m'"
  by (auto simp: evolves_def account_def)

text \<open>An entry may change in everything but its name and its kind, and give its process up only to
  \<open>sm_ended\<close> or to the thread.\<close>

lemma find_on_service_found:
  "find_service k es = Some e \<Longrightarrow> se_name (f e) = k \<Longrightarrow>
    find_service n (on_service k f es) = (if n = k then Some (f e) else find_service n es)"
  by (induction es) (auto split: if_splits)

lemma evolves_set_entry:
  assumes "\<And>e. find_service n (sm_services m) = Some e \<Longrightarrow>
    se_name (f e) = n \<and> is_local (f e) = is_local e \<and> procs (se_process (f e)) = procs (se_process e)"
  shows "evolves h h m (set_entry n f m)"
proof (cases "find_service n (sm_services m)")
  case None
  then show ?thesis by (simp add: set_entry_def on_service_absent)
next
  case (Some e)
  with assms have p: "procs (se_process (f e)) = procs (se_process e)"
    and l: "is_local (f e) = is_local e" and n: "se_name (f e) = n" by simp_all
  from p have "se_process (f e) = None \<longleftrightarrow> se_process e = None"
    by (cases "se_process e"; cases "se_process (f e)") auto
  moreover have "e \<in> set (sm_services m)" using find_service_Some [OF Some] by simp
  ultimately have "only_local (sm_services m) \<longrightarrow> only_local (on_service n f (sm_services m))"
    using only_local_on_service [OF _ Some, of f] l by (auto simp: only_local_def)
  moreover have "owned (on_service n f (sm_services m)) = owned (sm_services m)"
    using owned_on_service [OF Some, of f] p by simp
  ultimately show ?thesis
    using kinds_on_service [where f = f, OF Some n l] by (auto simp: evolves_def set_entry_def account_def)
qed

lemma evolves_add_entry:
  "se_process e = None \<Longrightarrow> is_local e \<longrightarrow> find_service (se_name e) (sm_services m) = None \<Longrightarrow>
    evolves h h m (m\<lparr>sm_services := sm_services m @ [e]\<rparr>)"
  by (auto simp: evolves_def account_def only_local_def kinds_def lead_append map_of_kinds [unfolded kinds_def])

subsection \<open>Destroying and starting\<close>

lemma process_destroy_signals: "0 < pid p \<Longrightarrow> (pid p, SIGTERM) \<in> set (w_kills (process_destroy p w))"
  using process_terminate_world [of p w] by (auto simp: process_destroy_def)

lemma stopped_process_signals:
  "fst (stopped_process p w) = pid p" "0 < pid p \<Longrightarrow> (pid p, SIGTERM) \<in> set (w_kills (snd (stopped_process p w)))"
  using process_terminate_world [of p w] by (auto simp: stopped_process_def process_destroy_def)

lemma signalled_append: "signalled (ps @ qs) \<longleftrightarrow> signalled ps \<and> signalled qs"
  by (auto simp: signalled_def)

lemma signalled_ended [simp]: "signalled (ended_process q)"
  using process_destroy_signals by (auto simp: signalled_def ended_process_def split: option.splits)

lemma fst_ended [simp]: "image_mset fst (mset (ended_process q)) = procs q"
  by (auto simp: ended_process_def split: option.splits)

lemma spawn_outcome:
  assumes "spawn f1 f2 k w = (r, w')"
  shows "case r of Inr p \<Rightarrow> f1 \<noteq> None \<and> f2 \<noteq> None \<and> 0 \<le> k \<and> pid p = k
    | Inl e \<Rightarrow> catchable e \<longrightarrow> f1 \<noteq> None \<longrightarrow> f2 \<noteq> None \<longrightarrow> 0 < k \<longrightarrow> (k, SIGTERM) \<in> set (w_kills w')"
proof (cases "f1 = None \<or> f2 = None \<or> k < 0")
  case True
  with assms show ?thesis
    by (auto simp: spawn_def pipe_create_pair_def Let_def split: option.splits)
next
  case False
  then obtain r1 w1 r2 w2 where f: "f1 = Some (r1, w1)" "f2 = Some (r2, w2)" and k: "\<not> k < 0"
    by (cases f1; cases f2) auto
  define p where "p = process_new k \<lparr>read_fd = -1, write_fd = w2\<rparr> \<lparr>read_fd = r1, write_fd = -1\<rparr>"
  obtain wo where wo: "spawn f1 f2 k w = (case process_init_handshake (p, wo) of
            (Inr _, p, w) \<Rightarrow> (Inr p, w)
          | (Inl e, p, w) \<Rightarrow>
            if \<not> catchable e then (Inl e, w)
            else (case process_terminate (p, w) of
              (Inl e', _, w) \<Rightarrow> (Inl e', w)
            | (Inr _, p, w) \<Rightarrow>
                (Inl e, w\<lparr>w_sys := snd (pipe_close (to_service p) (snd (pipe_close (from_service p) (w_sys w))))\<rparr>)))"
    using k by (simp add: spawn_def pipe_create_pair_def f Let_def p_def)
  obtain r' p' w3 where h: "process_init_handshake (p, wo) = (r', p', w3)" by (rule prod_cases3)
  have "pid p' = k" using process_init_handshake_handles [OF h] by (simp add: p_def process_new_def)
  moreover obtain w4 where "process_terminate (p', w3) = (Inr (), p'\<lparr>pid := if 0 < pid p' then -1 else pid p'\<rparr>, w4)"
      "0 < pid p' \<longrightarrow> (pid p', SIGTERM) \<in> set (w_kills w4)"
    using process_terminate_world [of p' w3] by blast
  ultimately show ?thesis using assms wo h k f by (auto split: sum.splits if_splits)
qed

lemma make_process_outcome:
  assumes "make_process x m = (r, m')" and "comes_back r"
  shows "evolves {#} (case r of Inl e \<Rightarrow> {#} | Inr q \<Rightarrow> procs (Some q)) m m' \<and> sm_services m' = sm_services m"
proof (cases "sm_spawns m")
  case Nil
  with assms show ?thesis by (auto simp: make_process_def comes_back_def)
next
  case (Cons ev evs)
  obtain r' w' where s: "spawn (sp_pipe1 ev) (sp_pipe2 ev) (sp_fork ev) (sp_world ev) = (r', w')" by fastforce
  have u: "sm_spawns m = [ev] @ evs" using Cons by simp
  note out = spawn_outcome [OF s]
  show ?thesis
  proof (cases r')
    case (Inl e)
    with assms s Cons have m': "m' = m\<lparr>sm_spawns := evs, sm_spawned := sm_spawned m @ [x],
        sm_ended := sm_ended m @ [(if forked ev then sp_fork ev else -1, w')]\<rparr>" and r: "r = Inl e" and "catchable e"
      by (auto simp: make_process_def Let_def comes_back_def)
    with out Inl have "forked ev \<Longrightarrow> (sp_fork ev, SIGTERM) \<in> set (w_kills w')" by (auto simp: forked_def)
    then show ?thesis using u r m'
      by (auto simp: evolves_def account_def signalled_append intro!: exI [of _ "[ev]"])
        (auto simp: signalled_def forked_def)
  next
    case (Inr p)
    with assms s Cons have "m' = m\<lparr>sm_spawns := evs, sm_spawned := sm_spawned m @ [x]\<rparr>"
        and "r = Inr (fst (process_move p), w')"
      by (auto simp: make_process_def Let_def)
    then show ?thesis using u out Inr
      by (auto simp: evolves_def account_def forked_def process_move_def intro!: exI [of _ "[ev]"])
  qed
qed

lemma has_local_evolves: "evolves a b m m' \<Longrightarrow> has_local n m \<Longrightarrow> has_local n m'"
  by (auto simp: evolves_def has_local_kinds map_add_Some_iff)

subsection \<open>The operations\<close>

text \<open>The operations of one critical section, as a preorder; and the same for the steps behind the
  guard that the service is a local one.\<close>

definition evolves_at :: "string \<Rightarrow> 'u manager \<Rightarrow> 'u manager \<Rightarrow> bool" where
  "evolves_at n m m' \<longleftrightarrow> (has_local n m \<longrightarrow> evolves {#} {#} m m')"

interpretation ev: ending_preorder "evolves {#} {#}"
  by unfold_locales (simp, rule evolves_trans)

interpretation evl: ending_preorder "evolves_at n" for n
  by unfold_locales (auto simp: evolves_at_def intro: evolves_trans has_local_evolves)

lemma evolves_at: "ends (evolves {#} {#}) op \<Longrightarrow> ends (evolves_at n) op"
  by (erule ends_mono) (simp add: evolves_at_def)

lemma ends_with_entry:
  "(\<And>e. ends (evolves {#} {#}) (k e)) \<Longrightarrow> ends (evolves {#} {#}) (with_entry n k)"
  by (auto simp: ends_def with_entry_def split: option.splits)

lemma ends_with_local:
  assumes "\<And>e. ends (evolves_at n) (k e)"
  shows "ends (evolves {#} {#}) (with_local verb n hint k)"
proof (rule endsI)
  fix m r m'
  assume s: "with_local verb n hint k m = (r, m')" and r: "comes_back r"
  show "evolves {#} {#} m m'"
  proof (cases "has_local n m")
    case True
    then obtain e where "find_service n (sm_services m) = Some e" "is_local e" by (auto simp: has_local_def)
    with s have "k e m = (r, m')" by (simp add: with_local_def with_entry_def is_local_def)
    from endsD [OF assms this r] True show ?thesis by (simp add: evolves_at_def)
  next
    case False
    with s have "m' = m"
      by (auto simp: with_local_def with_entry_def has_local_def is_local_def sthrow_def split: option.splits if_splits)
    then show ?thesis by simp
  qed
qed

lemma evolves_put:
  assumes "q \<noteq> None \<Longrightarrow> has_local n m" and "find_service n (sm_services m) = None \<Longrightarrow> q = None"
  shows "evolves (procs q) {#} m (put_process n q m)"
proof (cases "find_service n (sm_services m)")
  case None
  with assms show ?thesis by (simp add: put_process_def)
next
  case (Some e)
  define m' where "m' = put_process n q m"
  let ?f = "\<lambda>e. e\<lparr>se_process := q\<rparr>"
  have m': "m' = (set_entry n ?f m)\<lparr>sm_ended := sm_ended m @ ended_process (se_process e)\<rparr>"
    by (simp add: m'_def put_process_def Some)
  have loc: "q \<noteq> None \<longrightarrow> is_local e" using assms(1) Some by (auto simp: has_local_def)
  have "owned (sm_services m') + procs (se_process e) = owned (sm_services m) + procs q"
    using owned_on_service [OF Some, of ?f] by (simp add: m' set_entry_def)
  then have "owned (sm_services m') + procs (se_process e) + mset (map fst (sm_ended m))
      = owned (sm_services m) + procs q + mset (map fst (sm_ended m))" by simp
  moreover have "mset (map fst (sm_ended m')) = procs (se_process e) + mset (map fst (sm_ended m))" by (simp add: m')
  ultimately have "{#} + owned (sm_services m') + mset (map fst (sm_ended m'))
      = procs q + owned (sm_services m) + mset (map fst (sm_ended m))" by (simp add: ac_simps)
  then have "account {#} m' = account (procs q) m" by (simp only: account_def)
  then show ?thesis unfolding m'_def [symmetric]
    using loc only_local_on_service [OF _ Some, of ?f] kinds_on_service [OF Some, of ?f] find_service_Some [OF Some]
    by (auto simp: evolves_def m' set_entry_def is_local_def signalled_append)
qed

lemma ends_set_entry:
  assumes "\<And>e. se_name (f e) = se_name e" "\<And>e. is_local (f e) = is_local e" "\<And>e. se_process (f e) = se_process e"
  shows "ends (evolves {#} {#}) (smodify (set_entry n f))"
  by (rule ev.ends_modify, rule evolves_set_entry) (auto simp: assms dest: find_service_Some)

lemma entry_alive_keeps: "entry_alive e = (r, e') \<Longrightarrow> procs (se_process e') = procs (se_process e)
    \<and> se_name e' = se_name e \<and> is_local e' = is_local e \<and> se_executable e' = se_executable e"
  by (auto simp: entry_alive_def is_local_def split: option.splits prod.splits)

lemma evolves_check_alive:
  assumes "find_service n (sm_services m) = Some e" and "check_alive e m = (r, m')"
  shows "evolves {#} {#} m m'"
proof -
  obtain e' where e': "entry_alive e = (r, e')" and m': "m' = set_entry n (\<lambda>_. e') m"
    using assms find_service_Some [OF assms(1)] by (auto simp: check_alive_def split: prod.splits)
  with entry_alive_keeps [OF e'] assms(1) find_service_Some [OF assms(1)] show ?thesis
    by (auto intro!: evolves_set_entry)
qed

lemma ends_table:
  "ends (evolves {#} {#}) (manager_register_service n x v)"
  "ends (evolves {#} {#}) (register_remote_service n h p v)"
  "ends (evolves {#} {#}) (register_discoverable_service n t v)"
  "ends (evolves {#} {#}) (is_remote n)"
  "ends (evolves {#} {#}) (is_discoverable n)"
  "ends (evolves {#} {#}) (set_auto_restart n b)"
  "ends (evolves {#} {#}) (set_max_restarts n k)"
  "ends (evolves {#} {#}) (restart_count n)"
  "ends (evolves {#} {#}) (reset_restart_count n)"
  unfolding manager_register_service_def register_remote_service_def register_discoverable_service_def is_remote_def
    is_discoverable_def set_auto_restart_def set_max_restarts_def restart_count_def reset_restart_count_def
  by (auto simp: ends_def unregistered_def add_entry_def entry_new_def is_local_def intro!: evolves_add_entry split: option.splits)[3]
    (intro ends_with_entry ends_with_local evolves_at ends_set_entry ev.ends_pure; simp add: is_local_def)+

lemma ends_shut_down: "ends (evolves {#} {#}) (shut_down n)"
proof (rule endsI)
  fix m :: "'u manager" and r m'
  assume s: "shut_down n m = (r, m')"
  show "evolves {#} {#} m m'"
  proof (cases "Option.bind (find_service n (sm_services m)) se_process")
    case None
    with s show ?thesis
      by (auto simp: shut_down_def with_entry_def sret_def split: option.splits)
  next
    case (Some q)
    then obtain e p w where e: "find_service n (sm_services m) = Some e" "se_process e = Some (p, w)"
      by (cases q) (auto split: option.splits bind_splits)
    let ?f = "\<lambda>e. e\<lparr>se_process := None\<rparr>"
    from s e have m': "m' = (set_entry n ?f m)\<lparr>sm_ended := sm_ended m @ [stopped_process p w]\<rparr>"
      by (simp add: shut_down_def with_entry_def smodify_def)
    have "owned (sm_services m') + {#pid p#} = owned (sm_services m)"
      using owned_on_service [OF e(1), of ?f] e(2) by (simp add: m' set_entry_def)
    then have "{#} + owned (sm_services m') + mset (map fst (sm_ended m'))
        = {#} + owned (sm_services m) + mset (map fst (sm_ended m))"
      by (simp add: m' stopped_process_signals)
    then have "account {#} m' = account {#} m" by (simp only: account_def)
    then show ?thesis
      using only_local_on_service [OF _ e(1), of ?f] stopped_process_signals [of p w]
        kinds_on_service [OF e(1), of ?f] find_service_Some [OF e(1)]
      by (auto simp: evolves_def m' set_entry_def is_local_def signalled_def)
  qed
qed

lemma ends_spawn_into: "ends (evolves_at n) (spawn_into n x)"
proof (rule endsI)
  fix m :: "'u manager" and r m'
  assume s: "spawn_into n x m = (r, m')" and r: "comes_back r"
  obtain r1 m1 where m1: "make_process x m = (r1, m1)" by fastforce
  with s r have r1: "comes_back r1" by (auto simp: spawn_into_def sbind_apply comes_back_def split: sum.splits)
  note out = make_process_outcome [OF m1 r1]
  show "evolves_at n m m'"
  proof (cases r1)
    case (Inl e)
    with s m1 out show ?thesis by (auto simp: spawn_into_def sbind_apply evolves_at_def)
  next
    case (Inr q)
    with s m1 have m': "m' = put_process n (Some q) m1" by (simp add: spawn_into_def sbind_apply smodify_def)
    show ?thesis unfolding evolves_at_def
    proof
      assume loc: "has_local n m"
      from out Inr have e1: "evolves {#} (procs (Some q)) m m1" by simp
      have "evolves (procs (Some q)) {#} m1 m'" unfolding m'
        by (rule evolves_put) (use has_local_evolves [OF e1 loc] in \<open>auto simp: has_local_def\<close>)
      with e1 show "evolves {#} {#} m m'" by (rule evolves_trans)
    qed
  qed
qed

lemma ends_lifecycle:
  "ends (evolves {#} {#}) (manager_stop n)"
  "ends (evolves {#} {#}) (manager_restart n)"
  "ends (evolves {#} {#}) (manager_replace n x)"
  unfolding manager_stop_def manager_restart_def manager_replace_def
  by (intro ends_with_local evl.ends_sbind ends_spawn_into evolves_at [OF ends_shut_down]
      evolves_at [OF ends_set_entry]; simp add: is_local_def)+

lemma start_lookup_cases:
  assumes "start_lookup n m = (r, m')"
  shows "evolves {#} {#} m m' \<and> (\<forall>x. r = Inr (Some x) \<longrightarrow> has_local n m)"
proof (cases "has_local n m")
  case True
  then obtain e where e: "find_service n (sm_services m) = Some e" "is_local e" by (auto simp: has_local_def)
  obtain r1 m1 where c: "check_alive e m = (r1, m1)" by fastforce
  from assms e c have "m' = m1"
    by (auto simp: start_lookup_def with_local_def with_entry_def is_local_def sbind_apply sret_def split: sum.splits)
  with evolves_check_alive [OF e(1) c] True show ?thesis by simp
next
  case False
  with assms have "m' = m \<and> (\<exists>e. r = Inl e)"
    by (auto simp: start_lookup_def with_local_def with_entry_def has_local_def is_local_def sthrow_def
        split: option.splits if_splits)
  then show ?thesis by auto
qed

lemma start_install_evolves:
  "has_local n m \<Longrightarrow> start_install n q m = (r, m') \<Longrightarrow> evolves (procs (Some q)) {#} m m' \<and> r = Inr ()"
  using evolves_put [of "Some q" n m] by (auto simp: start_install_def has_local_def split: option.splits)

lemma ends_connect_local:
  assumes "find_service n (sm_services m) = Some e" "is_local e"
    and "connect_local n e m = (r, m')" "comes_back r"
  shows "evolves {#} {#} m m'"
proof -
  obtain r1 m1 where c: "check_alive e m = (r1, m1)" by fastforce
  have e1: "evolves {#} {#} m m1" by (rule evolves_check_alive [OF assms(1) c])
  have loc: "has_local n m1" using has_local_evolves [OF e1, of n] assms(1,2) by (auto simp: has_local_def)
  have fin: "ends (evolves_at n) (\<lambda>m. case r1 of Inl e \<Rightarrow> (Inl e, m) | Inr alive \<Rightarrow>
      sbind (if alive then sret () else spawn_into n (se_executable e)) (\<lambda>_.
      sbind (entry_process n) (\<lambda>(p, w). sret (client_new Local p w link_none False ()))) m)"
  proof (cases r1)
    case (Inr alive)
    have "ends (evolves_at n) (entry_process n)"
      by (auto simp: ends_def entry_process_def evolves_at_def split: option.splits)
    then have "ends (evolves_at n) (sbind (if alive then sret () else spawn_into n (se_executable e)) (\<lambda>_.
      sbind (entry_process n) (\<lambda>(p, w). sret (client_new Local p w link_none False ()))))"
      by (intro evl.ends_sbind) (auto intro: evl.ends_pure ends_spawn_into split: prod.split)
    then show ?thesis using Inr by simp
  qed (auto simp: ends_def evolves_at_def)
  from assms(3) c have "(case r1 of Inl e \<Rightarrow> (Inl e, m1) | Inr alive \<Rightarrow>
      sbind (if alive then sret () else spawn_into n (se_executable e)) (\<lambda>_.
      sbind (entry_process n) (\<lambda>(p, w). sret (client_new Local p w link_none False ()))) m1) = (r, m')"
    by (auto simp: connect_local_def sbind_apply split: sum.splits)
  from endsD [OF fin this assms(4)] loc e1 show ?thesis by (auto simp: evolves_at_def intro: evolves_trans)
qed

text \<open>What only talks to the network leaves the table and the processes alone.\<close>

definition quiet :: "'u manager \<Rightarrow> 'u manager \<Rightarrow> bool" where
  "quiet m m' \<longleftrightarrow> sm_services m' = sm_services m \<and> sm_spawns m' = sm_spawns m \<and> sm_ended m' = sm_ended m
     \<and> sm_spawned m' = sm_spawned m"

interpretation qt: ending_preorder quiet
  by unfold_locales (auto simp: quiet_def)

lemma quiet_evolves: "quiet m m' \<Longrightarrow> evolves h h m m'"
  by (rule evolves_env) (auto simp: quiet_def)

lemma ends_network:
  "ends quiet (dial_service h p t)"
  "ends quiet (mdns_discover n ty t)"
  "ends quiet registry_client_unlocked"
  "ends quiet (set_registry h p)"
  by (auto simp: ends_def quiet_def dial_service_def mdns_discover_def registry_client_unlocked_def set_registry_def Let_def
      split: list.splits prod.splits sum.splits mdns.splits if_splits option.splits)

lemma ends_connect_remote: "ends quiet (connect_remote h p)"
  unfolding connect_remote_def
  by (rule qt.ends_sbind [OF ends_network(1)])
    (auto simp: ends_def quiet_def hang_up_def split: prod.splits sum.splits if_splits)

lemma ends_registry_lookup: "ends quiet (registry_lookup n a)"
  unfolding registry_lookup_def
  by (rule qt.ends_sbind [OF ends_network(3)])
    (auto simp: ends_def quiet_def sret_def split: option.splits if_splits prod.splits)

lemma ends_locate_service: "ends quiet (locate_service n ty)"
  unfolding locate_service_def Let_def
  by (intro qt.ends_sbind ends_network) (auto intro!: qt.ends_sbind ends_registry_lookup qt.ends_pure)

lemma ends_manager_connect: "ends (evolves {#} {#}) (manager_connect n)"
proof (rule endsI)
  fix m :: "'u manager" and r m'
  assume s: "manager_connect n m = (r, m')" and r: "comes_back r"
  show "evolves {#} {#} m m'"
  proof (cases "find_service n (sm_services m)")
    case None
    with s show ?thesis by (simp add: manager_connect_def with_entry_def)
  next
    case (Some e)
    consider "is_local e" | "se_is_remote e" | "\<not> se_is_remote e" "se_is_discoverable e" by (auto simp: is_local_def)
    then show ?thesis
    proof cases
      case 1
      with s Some have "connect_local n e m = (r, m')"
        by (simp add: manager_connect_def with_entry_def is_local_def)
      with ends_connect_local [OF Some 1 this r] show ?thesis by simp
    next
      case 2
      with s Some have "connect_remote (se_host e) (se_port e) m = (r, m')"
        by (simp add: manager_connect_def with_entry_def)
      from endsD [OF ends_connect_remote this r] show ?thesis by (rule quiet_evolves)
    next
      case 3
      have q: "ends quiet (sbind (locate_service n (se_type e)) (\<lambda>(host, port). connect_remote host port))"
        by (rule qt.ends_sbind [OF ends_locate_service]) (simp add: ends_connect_remote split: prod.split)
      from 3 s Some have "sbind (locate_service n (se_type e)) (\<lambda>(host, port). connect_remote host port) m = (r, m')"
        by (simp add: manager_connect_def with_entry_def)
      from endsD [OF q this r] show ?thesis by (rule quiet_evolves)
    qed
  qed
qed

lemma ends_is_alive: "ends (evolves {#} {#}) (manager_is_alive n)"
proof (rule endsI)
  fix m :: "'u manager" and r m'
  assume s: "manager_is_alive n m = (r, m')" and r: "comes_back r"
  have remote: "ends quiet (scatch catchable
         (sbind (dial_service h p 1000) (\<lambda>(t, l) m. (Inr True, hang_up t m))) (\<lambda>_. sret False))" for h p
    by (intro qt.ends_scatch qt.ends_sbind ends_network qt.ends_pure)
      (auto simp: ends_def quiet_def hang_up_def split: prod.splits)
  have mdns: "ends quiet (scatch catchable
         (sbind (mdns_discover n ty 1000) (\<lambda>answer. sret (case answer of
            None \<Rightarrow> False | Some found \<Rightarrow> found \<noteq> None))) (\<lambda>_. sret False))" for ty
    by (intro qt.ends_scatch qt.ends_sbind ends_network qt.ends_pure) auto
  show "evolves {#} {#} m m'"
  proof (cases "find_service n (sm_services m)")
    case (Some e)
    show ?thesis
      using s r Some endsD [OF remote [of "se_host e" "se_port e"], of m r m', THEN quiet_evolves]
        endsD [OF mdns [of "se_type e"], of m r m', THEN quiet_evolves] evolves_check_alive [OF Some, of r m']
      by (auto simp: manager_is_alive_def split: if_splits)
  qed (use s in \<open>simp add: manager_is_alive_def\<close>)
qed

lemma restart_due_keeps:
  assumes "restart_due e = (due, e')"
  shows "se_name e' = se_name e \<and> is_local e' = is_local e \<and> procs (se_process e') = procs (se_process e)
    \<and> se_executable e' = se_executable e \<and> (due \<longrightarrow> is_local e)"
proof (cases "entry_alive e")
  case (Pair r e2)
  with assms entry_alive_keeps [OF Pair] show ?thesis
    by (auto simp: restart_due_def is_local_def split: if_splits sum.splits bool.splits)
qed

text \<open>What the invariants read of the table.\<close>

definition shape :: "service_entry list \<Rightarrow> (string \<times> bool \<times> int multiset) list" where
  "shape es = map (\<lambda>e. (se_name e, is_local e, procs (se_process e))) es"

lemma procs_none: "procs q = {#} \<longleftrightarrow> q = None"
  by (cases q) auto

lemma by_shape:
  "kinds es = map (\<lambda>(n, l, p). (n, l)) (shape es)"
  "owned es = sum_list (map (\<lambda>(n, l, p). p) (shape es))"
  "only_local es \<longleftrightarrow> (\<forall>(n, l, p) \<in> set (shape es). p \<noteq> {#} \<longrightarrow> l)"
  by (auto simp: shape_def kinds_def owned_def only_local_def comp_def procs_none)

lemma collect_restarts_keeps:
  "collect_restarts es = (r, es') \<Longrightarrow>
    shape es' = shape es \<and> (\<forall>infos. r = Inr infos \<longrightarrow> (\<forall>i \<in> set infos. (ri_name i, True) \<in> set (kinds es)))"
proof (induction es arbitrary: r es')
  case (Cons e es)
  obtain due e1 where d: "restart_due e = (due, e1)" by fastforce
  obtain r2 es2 where c: "collect_restarts es = (r2, es2)" by fastforce
  from Cons.prems d c restart_due_keeps [OF d] Cons.IH [OF c] show ?case
    by (auto simp: shape_def kinds_def is_local_def Let_def rbind_eq_Inr split: if_splits bool.splits)
qed simp

lemma collect_step_evolves:
  assumes "collect_step m = (r, m')" and "lead (kinds (sm_services m))"
  shows "evolves {#} {#} m m' \<and> (\<forall>infos. r = Inr infos \<longrightarrow> (\<forall>i \<in> set infos. has_local (ri_name i) m'))"
proof -
  obtain es where c: "collect_restarts (sm_services m) = (r, es)" and m': "m' = m\<lparr>sm_services := es\<rparr>"
    using assms by (auto simp: collect_step_def split: prod.splits)
  note keep = collect_restarts_keeps [OF c]
  then have k: "kinds es = kinds (sm_services m)" "owned es = owned (sm_services m)" "only_local es = only_local (sm_services m)"
    by (simp_all add: by_shape)
  moreover have "map_of (kinds (sm_services m)) (ri_name i) = Some True" if "r = Inr infos" "i \<in> set infos" for i infos
  proof -
    from keep that have "(ri_name i, True) \<in> set (kinds (sm_services m))" by blast
    then obtain e where "e \<in> set (sm_services m)" "is_local e" "se_name e = ri_name i" by (auto simp: kinds_def)
    with lead_local [OF assms(2)] show ?thesis by metis
  qed
  ultimately show ?thesis by (auto simp: evolves_def m' account_def has_local_kinds)
qed

lemma restart_install_evolves:
  assumes "has_local n m" and "restart_install n q m = (r, m')"
  shows "evolves (procs (Some q)) {#} m m'"
proof -
  obtain u where "quiet (put_process n (Some q) m) m'"
    using assms by (auto simp: restart_install_def has_local_def quiet_def Let_def split: option.splits prod.splits)
  moreover have "evolves (procs (Some q)) {#} m (put_process n (Some q) m)"
    using assms(1) by (intro evolves_put) (auto simp: has_local_def)
  ultimately show ?thesis by (blast intro: evolves_trans quiet_evolves)
qed

lemma restart_failed_evolves: "restart_failed n m = (r, m') \<Longrightarrow> evolves {#} {#} m m'"
  using evolves_put [of None n m] by (auto simp: restart_failed_def smodify_def)

section \<open>Threads\<close>

text \<open>
  Several threads use one manager, the monitor among them. The operations that never release
  the lock are single steps; a thread inside \<^verbatim>\<open>start\<close> or \<^verbatim>\<open>check_and_restart\<close> is somewhere between
  its critical sections.
\<close>

datatype 'u locked =
    DoRegister string string u32
  | DoRegisterRemote string string u16 u32
  | DoRegisterDiscoverable string string u32
  | DoStop string
  | DoRestart string
  | DoReplace string string
  | DoConnect string
  | DoIsAlive string
  | DoSetAutoRestart string bool
  | DoSetMaxRestarts string i32
  | DoResetCount string
  | DoSetRegistry string u16
  | DoSetCallback "'u restart_callback option"

definition forget :: "('s, 'a) step \<Rightarrow> ('s, unit) step" where
  "forget m = sbind m (\<lambda>_. sret ())"

fun run_locked :: "'u locked \<Rightarrow> ('u manager, unit) step" where
  "run_locked (DoRegister n x v) = manager_register_service n x v"
| "run_locked (DoRegisterRemote n h p v) = register_remote_service n h p v"
| "run_locked (DoRegisterDiscoverable n t v) = register_discoverable_service n t v"
| "run_locked (DoStop n) = manager_stop n"
| "run_locked (DoRestart n) = manager_restart n"
| "run_locked (DoReplace n x) = manager_replace n x"
| "run_locked (DoConnect n) = forget (manager_connect n)"
| "run_locked (DoIsAlive n) = forget (manager_is_alive n)"
| "run_locked (DoSetAutoRestart n b) = set_auto_restart n b"
| "run_locked (DoSetMaxRestarts n k) = set_max_restarts n k"
| "run_locked (DoResetCount n) = reset_restart_count n"
| "run_locked (DoSetRegistry h p) = set_registry h p"
| "run_locked (DoSetCallback f) = set_restart_callback f"

lemma ends_run_locked: "ends (evolves {#} {#}) (run_locked op)"
proof -
  have "ends quiet (set_restart_callback f)" for f :: "'u restart_callback option"
    by (auto simp: ends_def set_restart_callback_def smodify_def quiet_def)
  with ends_network(4) show ?thesis
    by (cases op) (auto simp: forget_def intro: ends_table ends_lifecycle ends_manager_connect ends_is_alive
        ev.ends_sbind ev.ends_pure ends_mono quiet_evolves)
qed

datatype thread =
    Starting string string
  | Started string "process \<times> world"
  | Restarting "restart_info list"
  | Restarted string "process \<times> world" "restart_info list"
  | GivingUp string "restart_info list"

inductive thread_step :: "'u manager \<times> thread list \<Rightarrow> 'u manager \<times> thread list \<Rightarrow> bool" where
  locked: "run_locked op m = (r, m') \<Longrightarrow> comes_back r \<Longrightarrow> thread_step (m, ts) (m', ts)"
| start: "start_lookup n m = (r, m') \<Longrightarrow> comes_back r \<Longrightarrow>
    thread_step (m, ts) (m', (case r of Inr (Some x) \<Rightarrow> [Starting n x] | _ \<Rightarrow> []) @ ts)"
| start_spawned: "make_process x m = (r, m') \<Longrightarrow> comes_back r \<Longrightarrow>
    thread_step (m, as @ Starting n x # bs) (m', as @ (case r of Inr q \<Rightarrow> [Started n q] | Inl e \<Rightarrow> []) @ bs)"
| start_installed: "start_install n q m = (r, m') \<Longrightarrow> thread_step (m, as @ Started n q # bs) (m', as @ bs)"
| collected: "collect_step m = (Inr infos, m') \<Longrightarrow> thread_step (m, ts) (m', Restarting infos # ts)"
| respawned: "make_process (ri_executable i) m = (r, m') \<Longrightarrow> comes_back r \<Longrightarrow>
    thread_step (m, as @ Restarting (i # infos) # bs) (m', as @ (case r of
      Inr q \<Rightarrow> [Restarted (ri_name i) q infos]
    | Inl e \<Rightarrow> if std_exception e then [GivingUp (ri_name i) infos] else []) @ bs)"
| restart_installed: "restart_install n q m = (r, m') \<Longrightarrow> comes_back r \<Longrightarrow>
    thread_step (m, as @ Restarted n q infos # bs) (m', as @ (case r of
      Inr u \<Rightarrow> [Restarting infos]
    | Inl e \<Rightarrow> if std_exception e then [GivingUp n infos] else []) @ bs)"
| restart_dropped: "restart_failed n m = (r, m') \<Longrightarrow>
    thread_step (m, as @ GivingUp n infos # bs) (m', as @ Restarting infos # bs)"
| restarts_done: "thread_step (m, as @ Restarting [] # bs) (m, as @ bs)"

definition thread_held :: "thread \<Rightarrow> int multiset" where
  "thread_held t = (case t of Started n q \<Rightarrow> procs (Some q) | Restarted n q infos \<Rightarrow> procs (Some q) | _ \<Rightarrow> {#})"

definition thread_names :: "thread \<Rightarrow> string set" where
  "thread_names t = (case t of Starting n x \<Rightarrow> {n} | Started n q \<Rightarrow> {n} | Restarting infos \<Rightarrow> ri_name ` set infos
     | Restarted n q infos \<Rightarrow> insert n (ri_name ` set infos) | GivingUp n infos \<Rightarrow> insert n (ri_name ` set infos))"

definition held_by :: "thread list \<Rightarrow> int multiset" where
  "held_by ts = sum_list (map thread_held ts)"

lemma held_simps [simp]:
  "held_by [] = {#}" "held_by (t # ts) = thread_held t + held_by ts" "held_by (as @ bs) = held_by as + held_by bs"
  by (simp_all add: held_by_def)

lemma thread_held_simps [simp]:
  "thread_held (Starting n x) = {#}" "thread_held (Started n q) = procs (Some q)" "thread_held (Restarting infos) = {#}"
  "thread_held (Restarted n q infos) = procs (Some q)" "thread_held (GivingUp n infos) = {#}"
  by (simp_all add: thread_held_def)

definition threads_ok :: "'u manager \<Rightarrow> thread list \<Rightarrow> bool" where
  "threads_ok m ts \<longleftrightarrow> (\<forall>t \<in> set ts. \<forall>n \<in> thread_names t. has_local n m)"

lemma threads_ok_simps [simp]:
  "threads_ok m []"
  "threads_ok m (t # ts) \<longleftrightarrow> (\<forall>n \<in> thread_names t. has_local n m) \<and> threads_ok m ts"
  "threads_ok m (as @ bs) \<longleftrightarrow> threads_ok m as \<and> threads_ok m bs"
  by (auto simp: threads_ok_def)

lemma thread_names_simps [simp]:
  "thread_names (Starting n x) = {n}" "thread_names (Started n q) = {n}"
  "thread_names (Restarting infos) = ri_name ` set infos"
  "thread_names (Restarted n q infos) = insert n (ri_name ` set infos)"
  "thread_names (GivingUp n infos) = insert n (ri_name ` set infos)"
  by (simp_all add: thread_names_def)

lemma threads_ok_evolves: "evolves a b m m' \<Longrightarrow> threads_ok m ts \<Longrightarrow> threads_ok m' ts"
  by (auto simp: threads_ok_def intro: has_local_evolves)

text \<open>A thread that goes from \<open>old\<close> to \<open>new\<close> beside the others.\<close>

lemma thread_frame:
  assumes "evolves (held_by old) (held_by new) m m'" "threads_ok m (as @ old @ bs)"
    and "threads_ok m' old \<Longrightarrow> threads_ok m' new"
  shows "evolves (held_by (as @ old @ bs)) (held_by (as @ new @ bs)) m m' \<and> threads_ok m' (as @ new @ bs)"
  using evolves_frame [OF assms(1), of "held_by as + held_by bs"] threads_ok_evolves [OF assms(1)] assms(2,3)
  by (auto simp: ac_simps)

lemma thread_step_evolves:
  assumes "thread_step (m, ts) (m', ts')" and "lead (kinds (sm_services m))" and "threads_ok m ts"
  shows "evolves (held_by ts) (held_by ts') m m' \<and> threads_ok m' ts'"
  using assms(1)
proof (cases rule: thread_step.cases)
  case (locked op r)
  then have "evolves {#} {#} m m'" using endsD [OF ends_run_locked] by blast
  with thread_frame [of "[]" "[]" m m' "[]" ts] assms(3) locked show ?thesis by simp
next
  case (start n r)
  define new where "new = (case r of Inr (Some x) \<Rightarrow> [Starting n x] | _ \<Rightarrow> [])"
  have e: "evolves {#} {#} m m'" and l: "\<And>x. r = Inr (Some x) \<Longrightarrow> has_local n m"
    using start_lookup_cases [OF start(2)] by auto
  have "held_by new = {#}" and "threads_ok m' new"
    using l has_local_evolves [OF e] by (auto simp: new_def split: sum.splits option.splits)
  with thread_frame [of "[]" new m m' "[]" ts] e assms(3) start(1) show ?thesis by (simp add: new_def)
next
  case (start_spawned x r as n bs)
  note out = make_process_outcome [OF start_spawned(3,4)]
  with thread_frame [of "[Starting n x]" "case r of Inr q \<Rightarrow> [Started n q] | Inl e \<Rightarrow> []" m m' as bs] start_spawned assms(3)
  show ?thesis by (cases r) auto
next
  case (start_installed n q r as bs)
  then have "evolves (procs (Some q)) {#} m m'" using start_install_evolves [of n m q r m'] assms(3) by simp
  with thread_frame [of "[Started n q]" "[]" m m' as bs] start_installed assms(3) show ?thesis by simp
next
  case (collected infos)
  note e = collect_step_evolves [OF collected(2) assms(2)]
  with thread_frame [of "[]" "[Restarting infos]" m m' "[]" ts] collected assms(3) show ?thesis by simp
next
  case (respawned i r as infos bs)
  note out = make_process_outcome [OF respawned(3,4)]
  with thread_frame [of "[Restarting (i # infos)]" "case r of Inr q \<Rightarrow> [Restarted (ri_name i) q infos]
      | Inl e \<Rightarrow> if std_exception e then [GivingUp (ri_name i) infos] else []" m m' as bs] respawned assms(3)
  show ?thesis by (cases r) auto
next
  case (restart_installed n q r as infos bs)
  then have "evolves (procs (Some q)) {#} m m'" using restart_install_evolves [of n m q r m'] assms(3) by simp
  with thread_frame [of "[Restarted n q infos]" "case r of Inr u \<Rightarrow> [Restarting infos]
      | Inl e \<Rightarrow> if std_exception e then [GivingUp n infos] else []" m m' as bs] restart_installed assms(3)
  show ?thesis by (cases r) auto
next
  case (restart_dropped n r as infos bs)
  with thread_frame [of "[GivingUp n infos]" "[Restarting infos]" m m' as bs] restart_failed_evolves assms(3)
  show ?thesis by auto
next
  case (restarts_done as bs)
  with thread_frame [of "[Restarting []]" "[]" m m as bs] assms(3) show ?thesis by auto
qed

text \<open>A manager nobody has used yet, in any environment.\<close>

definition fresh :: "'u manager \<Rightarrow> bool" where
  "fresh m \<longleftrightarrow> sm_services m = [] \<and> sm_ended m = []"

lemma reachable_evolves:
  assumes "thread_step\<^sup>*\<^sup>* (m0, []) (m, ts)" and "fresh m0"
  shows "evolves {#} (held_by ts) m0 m \<and> lead (kinds (sm_services m)) \<and> threads_ok m ts"
  using assms(1)
proof (induction rule: rtranclp_induct2)
  case refl
  from assms(2) show ?case by (simp add: fresh_def kinds_def)
next
  case (step m1 ts1 m ts)
  then have 1: "evolves {#} (held_by ts1) m0 m1" "lead (kinds (sm_services m1))" "threads_ok m1 ts1" by blast+
  note 2 = thread_step_evolves [OF step(2) 1(2,3)]
  from 2 1(2) have "lead (kinds (sm_services m))" unfolding evolves_def by blast
  with 1 2 show ?case by (blast intro: evolves_trans)
qed

text \<open>Claim C13. However the operations of several threads on one manager interleave, no service process
  is lost: every child that was started is held by an entry of a local service, by a thread
  that is about to install it, or its handle was destroyed after the child had been sent a
  SIGTERM. Each is in one of these places exactly once.\<close>

theorem no_process_lost:
  assumes "thread_step\<^sup>*\<^sup>* (m0, []) (m, ts)" and "fresh m0"
  shows "\<exists>used. sm_spawns m0 = used @ sm_spawns m
    \<and> forks used = filter_mset (\<lambda>k. 0 < k) (held_by ts + owned (sm_services m) + mset (map fst (sm_ended m)))
    \<and> (\<forall>(k, w) \<in> set (sm_ended m). 0 < k \<longrightarrow> (k, SIGTERM) \<in> set (w_kills w))
    \<and> (\<forall>e \<in> set (sm_services m). se_process e \<noteq> None \<longrightarrow> \<not> se_is_remote e \<and> \<not> se_is_discoverable e)"
proof -
  have e: "evolves {#} (held_by ts) m0 m" using reachable_evolves [OF assms] by blast
  then obtain used where "sm_spawns m0 = used @ sm_spawns m" "account (held_by ts) m = account {#} m0 + forks used"
    by (auto simp: evolves_def)
  moreover have "signalled (sm_ended m)" "only_local (sm_services m)"
    using e assms(2) by (auto simp: evolves_def fresh_def signalled_def only_local_def)
  ultimately show ?thesis using assms(2)
    by (auto simp: account_def fresh_def signalled_def only_local_def is_local_def)
qed

text \<open>A thread that has started a process always finds its service again.\<close>

lemma never_removed_during_start:
  assumes "thread_step\<^sup>*\<^sup>* (m0, []) (m, as @ Started n q # bs)" and "fresh m0"
  shows "fst (start_install n q m) = Inr ()"
  using reachable_evolves [OF assms] by (auto simp: start_install_def has_local_def)

section \<open>The restart budget\<close>

text \<open>How many restarts a service still has, when their number is limited.\<close>

definition restarts_left :: "service_entry \<Rightarrow> nat" where
  "restarts_left e = nat (sint (se_max_restarts e) - sint (se_restart_count e))"

definition total_left :: "service_entry list \<Rightarrow> nat" where
  "total_left es = sum_list (map restarts_left es)"

definition limited :: "service_entry list \<Rightarrow> bool" where
  "limited es \<longleftrightarrow> (\<forall>e \<in> set es. 0 <s se_max_restarts e)"

lemma sint_suc_i32:
  assumes "sint (c :: i32) < 2147483647"
  shows "sint (c + 1) = sint c + 1"
proof -
  have "- 2147483648 \<le> sint c" using sint_ge [of c] by simp
  with assms have "signed_take_bit 31 (sint c + 1) = sint c + 1"
    by (intro signed_take_bit_int_eq_self) auto
  then show ?thesis by (simp add: sint_word_ariths(1))
qed

lemma counted:
  assumes "\<not> gave_up e" and "0 <s se_max_restarts e"
  shows "restarts_left e = Suc (restarts_left (e\<lparr>se_restart_count := se_restart_count e + 1\<rparr>))"
proof -
  have lt: "sint (se_restart_count e) < sint (se_max_restarts e)"
    using assms by (auto simp: gave_up_def word_sle_eq word_sless_alt)
  moreover have "sint (se_max_restarts e) < 2147483648" using sint_lt [of "se_max_restarts e"] by simp
  ultimately show ?thesis using sint_suc_i32 [of "se_restart_count e"] by (simp add: restarts_left_def)
qed

text \<open>What the monitor never changes of an entry.\<close>

lemma restart_due_settings:
  "restart_due e = (due, e') \<Longrightarrow> se_max_restarts e' = se_max_restarts e \<and> se_restart_count e' = se_restart_count e
    \<and> se_auto_restart e' = se_auto_restart e \<and> (due \<longrightarrow> \<not> gave_up e')"
  by (auto simp: restart_due_def entry_alive_def process_alive_def sbind_apply sret_def
      split: if_splits option.splits prod.splits sum.splits bool.splits)

lemma collect_restarts_budget:
  "collect_restarts es = (r, es') \<Longrightarrow> limited es \<Longrightarrow>
    limited es' \<and> (case r of Inr infos \<Rightarrow> length infos | Inl e \<Rightarrow> 0) + total_left es' \<le> total_left es"
proof (induction es arbitrary: r es')
  case (Cons e es)
  obtain due e1 where d: "restart_due e = (due, e1)" by fastforce
  obtain r2 es2 where c: "collect_restarts es = (r2, es2)" by fastforce
  have lim: "limited es" "0 <s se_max_restarts e" using Cons.prems(2) by (auto simp: limited_def)
  note IH = Cons.IH [OF c lim(1)]
  have s: "se_max_restarts e1 = se_max_restarts e" "restarts_left e1 = restarts_left e" "due \<Longrightarrow> \<not> gave_up e1"
    using restart_due_settings [OF d] by (simp_all add: restarts_left_def)
  show ?case
  proof (cases due)
    case False
    with Cons.prems(1) d c IH s lim show ?thesis by (auto simp: limited_def total_left_def)
  next
    case True
    with s lim have "restarts_left e = Suc (restarts_left (e1\<lparr>se_restart_count := se_restart_count e1 + 1\<rparr>))"
      using counted [of e1] by simp
    with True Cons.prems d c IH s lim show ?thesis
      by (cases r2) (auto simp: limited_def total_left_def Let_def split: if_splits)
  qed
qed (simp add: limited_def total_left_def)

text \<open>A step on the processes spends at most one spawn and leaves the settings and counters alone.\<close>

definition counters :: "service_entry list \<Rightarrow> (i32 \<times> i32) list" where
  "counters es = map (\<lambda>e. (se_max_restarts e, se_restart_count e)) es"

lemma by_counters:
  "total_left es = sum_list (map (\<lambda>(b, c). nat (sint b - sint c)) (counters es))"
  "limited es \<longleftrightarrow> (\<forall>(b, c) \<in> set (counters es). 0 <s b)"
  by (auto simp: total_left_def limited_def counters_def restarts_left_def [abs_def] comp_def)

lemma counters_on_service:
  "(\<And>e. se_max_restarts (f e) = se_max_restarts e \<and> se_restart_count (f e) = se_restart_count e) \<Longrightarrow>
    counters (on_service n f es) = counters es"
  by (induction es) (auto simp: counters_def)

lemma put_process_counters:
  "counters (sm_services (put_process n q m)) = counters (sm_services m) \<and> sm_spawned (put_process n q m) = sm_spawned m
    \<and> sm_monitor_interval (put_process n q m) = sm_monitor_interval m"
  by (auto simp: put_process_def set_entry_def counters_on_service split: option.splits)

lemma make_process_counters:
  "make_process x m = (r, m') \<Longrightarrow> sm_services m' = sm_services m \<and> length (sm_spawned m') \<le> Suc (length (sm_spawned m))"
  by (auto simp: make_process_def Let_def split: list.splits prod.splits sum.splits)

lemma restart_install_counters:
  "restart_install n q m = (r, m') \<Longrightarrow> counters (sm_services m') = counters (sm_services m) \<and> sm_spawned m' = sm_spawned m"
  using put_process_counters [of n "Some q" m]
  by (auto simp: restart_install_def Let_def split: option.splits prod.splits)

lemma restart_one_counters:
  assumes "restart_one i m = (r, m')"
  shows "counters (sm_services m') = counters (sm_services m) \<and> length (sm_spawned m') \<le> Suc (length (sm_spawned m))"
proof -
  obtain r1 m1 where m1: "make_process (ri_executable i) m = (r1, m1)" by fastforce
  show ?thesis
  proof (cases r1)
    case (Inl e)
    with assms m1 make_process_counters [OF m1] put_process_counters [of "ri_name i" None m1] show ?thesis
      by (auto simp: restart_one_def scatch_apply sbind_apply restart_failed_def smodify_def split: if_splits)
  next
    case (Inr q)
    obtain r2 m2 where m2: "restart_install (ri_name i) q m1 = (r2, m2)" by fastforce
    with assms m1 Inr make_process_counters [OF m1] restart_install_counters [OF m2]
      put_process_counters [of "ri_name i" None m2]
    show ?thesis
      by (auto simp: restart_one_def scatch_apply sbind_apply restart_failed_def smodify_def split: if_splits sum.splits)
  qed
qed

lemma restart_each_counters:
  "restart_each infos m = (r, m') \<Longrightarrow>
    counters (sm_services m') = counters (sm_services m) \<and> length (sm_spawned m') \<le> length infos + length (sm_spawned m)"
proof (induction infos arbitrary: m r m')
  case (Cons i infos)
  obtain r1 m1 where m1: "restart_one i m = (r1, m1)" by fastforce
  with Cons.prems Cons.IH [of m1 r m'] restart_one_counters [OF m1] show ?case
    by (auto simp: sbind_apply split: sum.splits)
qed (simp add: sret_def)

definition within_budget :: "'u manager \<Rightarrow> 'u manager \<Rightarrow> bool" where
  "within_budget m m' \<longleftrightarrow> (limited (sm_services m) \<longrightarrow> limited (sm_services m')
     \<and> length (sm_spawned m') + total_left (sm_services m') \<le> length (sm_spawned m) + total_left (sm_services m))"

interpretation wb: step_preorder within_budget
  by unfold_locales (auto simp: within_budget_def)

lemma check_and_restart_budget: "keeps within_budget check_and_restart"
proof (rule keepsI)
  fix m :: "'u manager"
  obtain r1 es where c: "collect_restarts (sm_services m) = (r1, es)" by fastforce
  show "within_budget m (snd (check_and_restart m))"
  proof (cases r1)
    case (Inl e)
    with c collect_restarts_budget [OF c] show ?thesis
      by (auto simp: check_and_restart_def sbind_apply collect_step_def within_budget_def)
  next
    case (Inr infos)
    obtain r2 m2 where m2: "restart_each infos (m\<lparr>sm_services := es\<rparr>) = (r2, m2)" by fastforce
    with Inr c collect_restarts_budget [OF c] restart_each_counters [OF m2] show ?thesis
      by (auto simp: check_and_restart_def sbind_apply collect_step_def within_budget_def by_counters)
  qed
qed

lemma monitor_loop_budget: "keeps within_budget (monitor_loop rounds)"
proof (induction rounds rule: monitor_loop.induct)
  case (2 running now ls rounds)
  then show ?case
    by (auto intro!: wb.keeps_pure wb.keeps_sbind check_and_restart_budget split: option.splits)
qed (simp add: wb.keeps_pure)

text \<open>The monitor is bounded by the restart limits: however long it runs, and whatever the
  services and the operating system do, it starts at most as many processes as the services
  had restarts left when it began, provided every limit is positive (0 means no limit).\<close>

theorem monitor_spawns_bounded:
  assumes "\<forall>e \<in> set (sm_services m). 0 <s se_max_restarts e"
  shows "length (sm_spawned (snd (monitor_loop rounds m)))
    \<le> length (sm_spawned m) + (\<Sum>e \<leftarrow> sm_services m. nat (sint (se_max_restarts e) - sint (se_restart_count e)))"
  using keeps_apply [OF monitor_loop_budget [of rounds], of m] assms
  by (auto simp: within_budget_def limited_def total_left_def restarts_left_def [abs_def])

section \<open>What the monitor does for a crashed service\<close>

definition crashed :: "service_entry \<Rightarrow> bool" where
  "crashed e \<longleftrightarrow> is_local e \<and> se_auto_restart e \<and> \<not> gave_up e
    \<and> (\<exists>p w. se_process e = Some (p, w) \<and> fst (process_alive p w) = Inr False)"

definition after_check :: "service_entry \<Rightarrow> service_entry" where
  "after_check e = (let e' = snd (restart_due e) in
     if crashed e then e'\<lparr>se_restart_count := se_restart_count e' + 1\<rparr> else e')"

definition restart_info_of :: "service_entry \<Rightarrow> restart_info" where
  "restart_info_of e = \<lparr>ri_name = se_name e, ri_executable = se_executable e, ri_count = se_restart_count e + 1\<rparr>"

lemma restart_due_crashed: "restart_due e = (due, e') \<Longrightarrow> due \<longleftrightarrow> crashed e"
  by (auto simp: restart_due_def crashed_def is_local_def gave_up_def entry_alive_def split: if_splits option.splits
      prod.splits sum.splits bool.splits)

lemma after_check_keeps: "se_name (after_check e) = se_name e" "is_local (after_check e) = is_local e"
    "se_executable (after_check e) = se_executable e" "(se_process (after_check e) = None) = (se_process e = None)"
    "se_restart_count (after_check e) = (if crashed e then se_restart_count e + 1 else se_restart_count e)"
proof -
  obtain due e' where d: "restart_due e = (due, e')" by fastforce
  have "procs (se_process e') = procs (se_process e)" using restart_due_keeps [OF d] by simp
  then have "(se_process e' = None) = (se_process e = None)" by (cases "se_process e'"; cases "se_process e") auto
  with d restart_due_keeps [OF d] restart_due_settings [OF d]
  show "se_name (after_check e) = se_name e" "is_local (after_check e) = is_local e"
    "se_executable (after_check e) = se_executable e" "(se_process (after_check e) = None) = (se_process e = None)"
    "se_restart_count (after_check e) = (if crashed e then se_restart_count e + 1 else se_restart_count e)"
    by (auto simp: after_check_def Let_def is_local_def)
qed

text \<open>The collection, when no counter is at its end.\<close>

lemma collect_restarts_crashed:
  assumes "\<forall>e \<in> set es. se_restart_count e \<noteq> 0x7FFFFFFF"
  shows "collect_restarts es = (Inr (map restart_info_of (filter crashed es)), map after_check es)"
  using assms
proof (induction es)
  case (Cons e es)
  obtain due e' where d: "restart_due e = (due, e')" by fastforce
  from Cons d restart_due_crashed [OF d] restart_due_keeps [OF d] restart_due_settings [OF d] show ?case
    by (auto simp: after_check_def restart_info_of_def Let_def split: bool.splits)
qed simp

text \<open>The spawns that succeed with a service that keeps running.\<close>

definition starts_well :: "spawn_event \<Rightarrow> bool" where
  "starts_well ev \<longleftrightarrow> 0 < sp_fork ev \<and> w_waits (sp_world ev) = []
    \<and> (\<exists>r1 w1 r2 w2. sp_pipe1 ev = Some (r1, w1) \<and> sp_pipe2 ev = Some (r2, w2) \<and> 0 \<le> r1 \<and> 0 \<le> w1 \<and> 0 \<le> r2 \<and> 0 \<le> w2)
    \<and> (\<exists>m ds. says_hello m ds (sp_world ev) \<and> version_check ''Host'' ''host'' m = None)"

definition running :: "process \<times> world \<Rightarrow> bool" where
  "running q \<longleftrightarrow> 0 < pid (fst q) \<and> w_waits (snd q) = []"

lemma make_process_starts_well:
  assumes "sm_spawns m = ev # evs" and "starts_well ev"
  shows "\<exists>q. make_process x m = (Inr q, m\<lparr>sm_spawns := evs, sm_spawned := sm_spawned m @ [x]\<rparr>) \<and> running q"
proof -
  obtain r1 w1 r2 w2 i ds where ev: "sp_pipe1 ev = Some (r1, w1)" "sp_pipe2 ev = Some (r2, w2)"
      "0 \<le> r1" "0 \<le> w1" "0 \<le> r2" "0 \<le> w2" "says_hello i ds (sp_world ev)" "version_check ''Host'' ''host'' i = None"
      "0 < sp_fork ev" "w_waits (sp_world ev) = []"
    using assms(2) by (auto simp: starts_well_def)
  with spawn_says_hello [OF ev(9,3-6,7)] obtain p w where
      "spawn (Some (r1, w1)) (Some (r2, w2)) (sp_fork ev) (sp_world ev) = (Inr p, w)" "pid p = sp_fork ev" "w_waits w = []"
    by auto
  with assms(1) ev show ?thesis by (auto simp: make_process_def Let_def running_def process_move_def)
qed

definition callback_returns :: "'u manager \<Rightarrow> bool" where
  "callback_returns m \<longleftrightarrow> (\<forall>cb n c u. sm_on_restart m = Some cb \<longrightarrow> (\<exists>u'. cb n c u = (Inr (), u')))"

lemma find_put:
  "find_service k (sm_services m) = Some e \<Longrightarrow>
    find_service n (sm_services (put_process k q m)) =
      (if n = k then Some (e\<lparr>se_process := q\<rparr>) else find_service n (sm_services m))"
  by (auto simp: put_process_def set_entry_def find_on_service)

lemma put_process_keeps [simp]:
  "sm_spawns (put_process k q m) = sm_spawns m" "sm_on_restart (put_process k q m) = sm_on_restart m"
  "sm_user (put_process k q m) = sm_user m"
  by (auto simp: put_process_def set_entry_def split: option.splits)

lemma restart_one_starts_well:
  assumes "sm_spawns m = ev # evs" "starts_well ev" "callback_returns m"
    and "find_service (ri_name i) (sm_services m) = Some e"
  shows "\<exists>m' q. restart_one i m = (Inr (), m') \<and> running q \<and> sm_spawns m' = evs \<and> callback_returns m'
    \<and> (\<forall>n. find_service n (sm_services m') =
        (if n = ri_name i then Some (e\<lparr>se_process := Some q\<rparr>) else find_service n (sm_services m)))"
proof -
  let ?m1 = "m\<lparr>sm_spawns := evs, sm_spawned := sm_spawned m @ [ri_executable i]\<rparr>"
  obtain q where q: "make_process (ri_executable i) m = (Inr q, ?m1)" "running q"
    using make_process_starts_well [OF assms(1,2)] by blast
  have e: "find_service (ri_name i) (sm_services ?m1) = Some e" using assms(4) by simp
  obtain u where "restart_install (ri_name i) q ?m1 = (Inr (), (put_process (ri_name i) (Some q) ?m1)\<lparr>sm_user := u\<rparr>)"
  proof (cases "sm_on_restart m")
    case None
    then show ?thesis using that [of "sm_user m"] e by (simp add: restart_install_def Let_def)
  next
    case (Some cb)
    then obtain u where "cb (se_name e) (se_restart_count (e\<lparr>se_process := Some q\<rparr>)) (sm_user m) = (Inr (), u)"
      using assms(3) unfolding callback_returns_def by metis
    then show ?thesis using that [of u] e Some by (simp add: restart_install_def Let_def)
  qed
  with q e find_put [OF e] assms(3) show ?thesis
    by (cases q) (auto simp: restart_one_def scatch_apply sbind_apply callback_returns_def)
qed

lemma restart_each_starts_well:
  assumes "\<forall>ev \<in> set (sm_spawns m). starts_well ev" "length infos \<le> length (sm_spawns m)" "callback_returns m"
    and "\<forall>i \<in> set infos. find_service (ri_name i) (sm_services m) \<noteq> None"
  shows "\<exists>m'. restart_each infos m = (Inr (), m') \<and> (\<forall>n e. find_service n (sm_services m) = Some e \<longrightarrow>
    (\<exists>e'. find_service n (sm_services m') = Some e'
      \<and> (if n \<in> ri_name ` set infos then \<exists>q. running q \<and> e' = e\<lparr>se_process := Some q\<rparr> else e' = e)))"
  using assms
proof (induction infos arbitrary: m)
  case Nil
  then show ?case by (simp add: sret_def)
next
  case (Cons i infos)
  obtain ev evs where evs: "sm_spawns m = ev # evs" "starts_well ev" using Cons.prems(1,2) by (cases "sm_spawns m") auto
  obtain e where e: "find_service (ri_name i) (sm_services m) = Some e" using Cons.prems(4) by auto
  obtain m1 q where m1: "restart_one i m = (Inr (), m1)" "running q" "sm_spawns m1 = evs" "callback_returns m1"
      and f: "\<And>n. find_service n (sm_services m1) =
        (if n = ri_name i then Some (e\<lparr>se_process := Some q\<rparr>) else find_service n (sm_services m))"
    using restart_one_starts_well [OF evs Cons.prems(3) e] by blast
  obtain m' where m': "restart_each infos m1 = (Inr (), m')"
      and g: "\<And>n e. find_service n (sm_services m1) = Some e \<Longrightarrow> \<exists>e'. find_service n (sm_services m') = Some e'
      \<and> (if n \<in> ri_name ` set infos then \<exists>q. running q \<and> e' = e\<lparr>se_process := Some q\<rparr> else e' = e)"
  proof -
    have "\<forall>i \<in> set infos. find_service (ri_name i) (sm_services m1) \<noteq> None" using Cons.prems(4) f by simp
    moreover have "\<forall>ev \<in> set (sm_spawns m1). starts_well ev" "length infos \<le> length (sm_spawns m1)"
      using Cons.prems(1,2) evs m1(3) by auto
    ultimately show thesis using Cons.IH [of m1] m1(4) that by blast
  qed
  have "\<exists>e'. find_service n (sm_services m') = Some e'
      \<and> (if n \<in> ri_name ` set (i # infos) then \<exists>q. running q \<and> e' = x\<lparr>se_process := Some q\<rparr> else e' = x)"
    if x: "find_service n (sm_services m) = Some x" for n x
  proof (cases "n = ri_name i")
    case True
    with x e have "x = e" by simp
    with g [of n "e\<lparr>se_process := Some q\<rparr>"] f [of n] True m1(2) show ?thesis by (cases q) (auto split: if_splits)
  next
    case False
    with g [of n x] f [of n] x show ?thesis by auto
  qed
  with m1(1) m' show ?case by (auto simp: sbind_apply)
qed

lemma lead_find: "lead (kinds es) \<Longrightarrow> e \<in> set es \<Longrightarrow> is_local e \<Longrightarrow> find_service (se_name e) es = Some e"
proof (induction es)
  case (Cons a es)
  then show ?case by (cases "e \<in> set es") (auto simp: kinds_def image_iff)
qed simp

lemma find_after_check: "find_service n (map after_check es) = map_option after_check (find_service n es)"
  by (induction es) (auto simp: after_check_keeps)

lemma is_alive_running:
  assumes "find_service n (sm_services m) = Some e" "is_local e" "se_process e = Some q" "running q"
  shows "fst (manager_is_alive n m) = Inr True"
  using assms by (cases q) (simp add: manager_is_alive_def is_local_def check_alive_def entry_alive_def process_alive_def
      running_def wait_nohang_def sbind_apply sret_def)

text \<open>Claim C14. Crashed services come back: after one check of the monitor, every local service with
  auto-restart whose process had exited and that had restarts left is alive again, and its
  restart count has gone up by one, provided the spawns succeed with services that keep
  running, the callback returns and no counter is at its end.\<close>

theorem crashed_services_come_back:
  assumes "lead (kinds (sm_services m))" and "\<forall>e \<in> set (sm_services m). se_restart_count e \<noteq> 0x7FFFFFFF"
    and "\<forall>ev \<in> set (sm_spawns m). starts_well ev"
    and "length (filter crashed (sm_services m)) \<le> length (sm_spawns m)"
    and "callback_returns m"
  shows "\<exists>m'. check_and_restart m = (Inr (), m') \<and> (\<forall>e \<in> set (sm_services m). crashed e \<longrightarrow>
    fst (manager_is_alive (se_name e) m') = Inr True \<and> fst (restart_count (se_name e) m') = Inr (se_restart_count e + 1))"
proof -
  let ?infos = "map restart_info_of (filter crashed (sm_services m))"
  let ?m1 = "m\<lparr>sm_services := map after_check (sm_services m)\<rparr>"
  have c: "collect_step m = (Inr ?infos, ?m1)"
    by (simp add: collect_step_def collect_restarts_crashed [OF assms(2)])
  have found: "find_service (se_name e) (sm_services m) = Some e" if "e \<in> set (sm_services m)" "crashed e" for e
    using lead_find [OF assms(1)] that by (simp add: crashed_def)
  obtain m' where m': "restart_each ?infos ?m1 = (Inr (), m')"
      and f: "\<And>n e. find_service n (sm_services ?m1) = Some e \<Longrightarrow> \<exists>e'. find_service n (sm_services m') = Some e'
      \<and> (if n \<in> ri_name ` set ?infos then \<exists>q. running q \<and> e' = e\<lparr>se_process := Some q\<rparr> else e' = e)"
  proof -
    have "\<forall>i \<in> set ?infos. find_service (ri_name i) (sm_services ?m1) \<noteq> None"
      using found by (auto simp: restart_info_of_def find_after_check)
    moreover have "callback_returns ?m1" using assms(5) by (simp add: callback_returns_def)
    ultimately show thesis using restart_each_starts_well [of ?m1 ?infos] assms(3,4) that by auto
  qed
  have "fst (manager_is_alive (se_name e) m') = Inr True \<and> fst (restart_count (se_name e) m') = Inr (se_restart_count e + 1)"
    if e: "e \<in> set (sm_services m)" "crashed e" for e
  proof -
    have "se_name e \<in> ri_name ` set ?infos" using e by (force simp: restart_info_of_def)
    moreover have "find_service (se_name e) (sm_services ?m1) = Some (after_check e)"
      using found [OF e] by (simp add: find_after_check)
    ultimately obtain q where q: "running q"
        "find_service (se_name e) (sm_services m') = Some ((after_check e)\<lparr>se_process := Some q\<rparr>)"
      using f [of "se_name e"] by auto
    moreover have "is_local ((after_check e)\<lparr>se_process := Some q\<rparr>)"
      using e(2) after_check_keeps(2) [of e] by (simp add: crashed_def is_local_def)
    ultimately show ?thesis using e(2) is_alive_running [OF q(2)]
      by (simp add: restart_count_def with_entry_def sret_def after_check_keeps)
  qed
  with c m' show ?thesis by (auto simp: check_and_restart_def sbind_apply)
qed

text \<open>What the monitor does to the services it does not restart.\<close>

lemma put_process_other:
  "n \<noteq> k \<Longrightarrow> find_service n (sm_services (put_process k q m)) = find_service n (sm_services m)"
  "kinds (sm_services (put_process k q m)) = kinds (sm_services m)"
  using kinds_on_service [of k "sm_services m" _ "\<lambda>e. e\<lparr>se_process := q\<rparr>"] find_service_Some [of k "sm_services m"]
  by (auto simp: put_process_def set_entry_def find_on_service is_local_def split: option.splits)

definition leaves :: "string \<Rightarrow> 'u manager \<Rightarrow> 'u manager \<Rightarrow> bool" where
  "leaves n m m' \<longleftrightarrow> find_service n (sm_services m') = find_service n (sm_services m)
     \<and> kinds (sm_services m') = kinds (sm_services m)"

interpretation lv: step_preorder "leaves n" for n
  by unfold_locales (auto simp: leaves_def)

lemma make_process_services [simp]: "sm_services (snd (make_process x m)) = sm_services m"
  using make_process_counters [of x m] by (cases "make_process x m") simp

lemma leaves_restart_one: "n \<noteq> ri_name i \<Longrightarrow> keeps (leaves n) (restart_one i)"
  unfolding restart_one_def
  by (intro lv.keeps_scatch lv.keeps_sbind)
    (auto simp: keeps_def leaves_def put_process_other restart_failed_def smodify_def restart_install_def Let_def
      split: option.splits prod.splits)

lemma leaves_restart_each: "n \<notin> ri_name ` set infos \<Longrightarrow> keeps (leaves n) (restart_each infos)"
  by (induction infos) (auto simp: lv.keeps_pure intro: lv.keeps_sbind leaves_restart_one)

text \<open>A service without a process is never in the collection, so the monitor never starts it.\<close>

definition dormant :: "string \<Rightarrow> service_entry \<Rightarrow> 'u manager \<Rightarrow> bool" where
  "dormant n e m \<longleftrightarrow> find_service n (sm_services m) = Some e \<and> is_local e \<and> se_process e = None
     \<and> lead (kinds (sm_services m))"

definition running_names :: "service_entry list \<Rightarrow> string set" where
  "running_names es = se_name ` {e \<in> set es. is_local e \<and> se_process e \<noteq> None}"

lemma running_names_simps [simp]:
  "running_names [] = {}"
  "running_names (e # es) =
    (if is_local e \<and> se_process e \<noteq> None then insert (se_name e) (running_names es) else running_names es)"
  by (auto simp: running_names_def)

lemma collect_restarts_running:
  assumes "collect_restarts es = (r, es')"
  shows "kinds es' = kinds es \<and> (\<forall>n e. find_service n es = Some e \<longrightarrow> se_process e = None \<longrightarrow> find_service n es' = Some e)
    \<and> (\<forall>infos. r = Inr infos \<longrightarrow> ri_name ` set infos \<subseteq> running_names es)"
  using assms
proof (induction es arbitrary: r es')
  case (Cons e es)
  obtain due e1 where d: "restart_due e = (due, e1)" by fastforce
  obtain r2 es2 where c: "collect_restarts es = (r2, es2)" by fastforce
  have "se_process e = None \<Longrightarrow> \<not> due \<and> e1 = e" and "due \<Longrightarrow> se_process e \<noteq> None"
    using d by (auto simp: restart_due_def split: if_splits)
  moreover have "is_local (e1\<lparr>se_restart_count := k\<rparr>) = is_local e1" for k by (simp add: is_local_def)
  ultimately show ?case using Cons.prems d c restart_due_keeps [OF d] Cons.IH [OF c]
    by (cases due; cases r2) (auto simp: kinds_def Let_def image_subset_iff split: if_splits)
qed simp

definition stays_dormant :: "string \<Rightarrow> service_entry \<Rightarrow> 'u manager \<Rightarrow> 'u manager \<Rightarrow> bool" where
  "stays_dormant n e m m' \<longleftrightarrow> (dormant n e m \<longrightarrow> dormant n e m')"

interpretation sd: step_preorder "stays_dormant n e" for n e
  by unfold_locales (auto simp: stays_dormant_def)

lemma check_keeps_dormant: "keeps (stays_dormant n e) check_and_restart"
proof (rule keepsI)
  fix m :: "'u manager"
  obtain r es where c: "collect_restarts (sm_services m) = (r, es)" by fastforce
  note run = collect_restarts_running [OF c]
  let ?m1 = "m\<lparr>sm_services := es\<rparr>"
  have "dormant n e (snd (check_and_restart m))" if d: "dormant n e m"
  proof (cases r)
    case (Inl x)
    with c run d show ?thesis by (simp add: check_and_restart_def sbind_apply collect_step_def dormant_def)
  next
    case (Inr infos)
    have "n \<notin> ri_name ` set infos"
    proof
      assume "n \<in> ri_name ` set infos"
      then obtain x where x: "x \<in> set (sm_services m)" "se_name x = n" "is_local x" "se_process x \<noteq> None"
        using run Inr by (auto simp: running_names_def)
      with d lead_find [of "sm_services m" x] show False by (simp add: dormant_def)
    qed
    then have "leaves n ?m1 (snd (restart_each infos ?m1))" by (rule keeps_apply [OF leaves_restart_each])
    with Inr c run d show ?thesis
      by (simp add: check_and_restart_def sbind_apply collect_step_def dormant_def leaves_def)
  qed
  then show "stays_dormant n e m (snd (check_and_restart m))" by (simp add: stays_dormant_def)
qed

lemma monitor_keeps_dormant: "keeps (stays_dormant n e) (monitor_loop rounds)"
proof (induction rounds rule: monitor_loop.induct)
  case (2 running now ls rounds)
  then show ?case
    by (auto intro!: sd.keeps_pure sd.keeps_sbind check_keeps_dormant split: option.splits)
qed (simp add: sd.keeps_pure)

text \<open>The monitor gives a service up after the first restart that fails, whatever its restart
  limit: the failed spawn drops the old process, a service without a process is passed over
  by every later check, and so its entry stays as it is however long the monitor runs.\<close>

theorem failed_restart_gives_up:
  assumes "lead (kinds (sm_services m))" and "\<forall>e \<in> set (sm_services m). se_restart_count e \<noteq> 0x7FFFFFFF"
    and "filter crashed (sm_services m) = [e]" and "sm_spawns m = ev # evs"
    and "spawn (sp_pipe1 ev) (sp_pipe2 ev) (sp_fork ev) (sp_world ev) = (Inl x, w)" and "std_exception x"
  shows "\<exists>m' e'. check_and_restart m = (Inr (), m') \<and> se_process e' = None
    \<and> se_restart_count e' = se_restart_count e + 1 \<and> find_service (se_name e) (sm_services m') = Some e'
    \<and> (\<forall>rounds. find_service (se_name e) (sm_services (snd (monitor_loop rounds m'))) = Some e')"
proof -
  let ?n = "se_name e" and ?e = "(after_check e)\<lparr>se_process := None\<rparr>"
  let ?m1 = "m\<lparr>sm_services := map after_check (sm_services m)\<rparr>"
  define m2 where "m2 = ?m1\<lparr>sm_spawns := evs, sm_spawned := sm_spawned m @ [se_executable e],
    sm_ended := sm_ended m @ [(if forked ev then sp_fork ev else -1, w)]\<rparr>"
  have "e \<in> set (filter crashed (sm_services m))" using assms(3) by simp
  then have e: "e \<in> set (sm_services m)" "crashed e" by auto
  then have loc: "is_local e" by (simp add: crashed_def)
  have "make_process (se_executable e) ?m1 = (Inl x, m2)"
    using assms(4,5) by (simp add: make_process_def Let_def m2_def)
  then have r: "check_and_restart m = (Inr (), put_process ?n None m2)"
    using assms(3,6) by (simp add: check_and_restart_def sbind_apply collect_step_def
        collect_restarts_crashed [OF assms(2)] restart_info_of_def restart_one_def scatch_apply restart_failed_def
        smodify_def sret_def)
  have f2: "find_service ?n (sm_services m2) = Some (after_check e)"
    using lead_find [OF assms(1) e(1) loc] by (simp add: m2_def find_after_check)
  then have f: "find_service ?n (sm_services (put_process ?n None m2)) = Some ?e" by (simp add: find_put)
  have "kinds (sm_services (put_process ?n None m2)) = kinds (sm_services m)"
    by (simp add: put_process_other(2)) (simp add: m2_def kinds_def comp_def after_check_keeps)
  then have d: "dormant ?n ?e (put_process ?n None m2)"
    using f loc assms(1) after_check_keeps(2) [of e] by (simp add: dormant_def is_local_def)
  have "dormant ?n ?e (snd (monitor_loop rounds (put_process ?n None m2)))" for rounds
    using keeps_apply [OF monitor_keeps_dormant [of ?n ?e rounds], of "put_process ?n None m2"] d
    by (simp add: stays_dormant_def)
  then have "find_service ?n (sm_services (snd (monitor_loop rounds (put_process ?n None m2)))) = Some ?e" for rounds
    by (simp add: dormant_def)
  with r f e(2) show ?thesis by (auto simp: after_check_keeps)
qed

section \<open>Starting a service by name\<close>

text \<open>\<^verbatim>\<open>start\<close> on an unknown, remote or discoverable service throws the error for it and
  changes nothing. Otherwise it returns the process that the entry then has: the one that
  was running, with nothing spawned, or else a new one, for which the entry's executable
  was spawned once and the old process destroyed; when that spawn throws, the entry keeps
  the process it had.\<close>

theorem start_outcome:
  assumes "manager_start n m = (r, m')" and "comes_back r"
  shows "case find_service n (sm_services m) of
      None \<Rightarrow> r = Inl (ServiceError (''Service not found: '' @ n)) \<and> m' = m
    | Some e \<Rightarrow>
        if se_is_remote e
        then r = Inl (ServiceError (''Cannot start remote service: '' @ n @ '' (use connect() instead)'')) \<and> m' = m
        else if se_is_discoverable e
        then r = Inl (ServiceError (''Cannot start discoverable service: '' @ n @ '' (use connect() instead)'')) \<and> m' = m
        else (case entry_alive e of (alive, e1) \<Rightarrow>
          if alive = Inr True
          then (\<exists>q. r = Inr q \<and> se_process e1 = Some q \<and> find_service n (sm_services m') = Some e1
            \<and> sm_spawned m' = sm_spawned m \<and> sm_ended m' = sm_ended m)
          else sm_spawned m' = sm_spawned m @ [se_executable e] \<and> (case r of
              Inr q \<Rightarrow> find_service n (sm_services m') = Some (e1\<lparr>se_process := Some q\<rparr>)
                \<and> sm_ended m' = sm_ended m @ ended_process (se_process e1)
            | Inl x \<Rightarrow> find_service n (sm_services m') = Some e1))"
proof (cases "find_service n (sm_services m)")
  case None
  with assms show ?thesis
    by (simp add: manager_start_def start_lookup_def with_local_def with_entry_def sbind_apply)
next
  case (Some e)
  show ?thesis
  proof (cases "is_local e")
    case False
    with Some assms show ?thesis
      by (auto simp: manager_start_def start_lookup_def with_local_def with_entry_def sbind_apply sthrow_def is_local_def)
  next
    case True
    obtain alive e1 where a: "entry_alive e = (alive, e1)" by fastforce
    have name: "se_name e1 = n" "se_name e = n"
      using entry_alive_keeps [OF a] find_service_Some [OF Some] by auto
    have alive: "alive = Inr True \<or> alive = Inr False"
      using a by (auto simp: entry_alive_def process_alive_def sbind_apply wait_nohang_def sret_def
          split: option.splits prod.splits if_splits list.splits)
    let ?m1 = "set_entry n (\<lambda>_. e1) m"
    have f1: "find_service n (sm_services ?m1) = Some e1"
      using find_on_service_found [OF Some, of "\<lambda>_. e1" n] name by (simp add: set_entry_def)
    have s: "start_lookup n m = (Inr (if alive = Inr True then None else Some (se_executable e)), ?m1)"
      using True Some a name alive
      by (auto simp: start_lookup_def with_local_def with_entry_def sbind_apply sret_def is_local_def check_alive_def)
    show ?thesis
    proof (cases "alive = Inr True")
      case T: True
      then have "se_process e1 \<noteq> None"
        using a by (auto simp: entry_alive_def split: option.splits prod.splits)
      with T s assms(1) Some True a f1 show ?thesis
        by (auto simp: manager_start_def sbind_apply entry_process_def is_local_def set_entry_def)
    next
      case F: False
      obtain r2 m2 where m2: "make_process (se_executable e) ?m1 = (r2, m2)" by fastforce
      have sp: "sm_spawns ?m1 \<noteq> []"
        using assms m2 s F by (auto simp: make_process_def manager_start_def sbind_apply comes_back_def)
      with m2 have k: "sm_services m2 = sm_services ?m1" "sm_spawned m2 = sm_spawned m @ [se_executable e]"
          "\<And>q. r2 = Inr q \<Longrightarrow> sm_ended m2 = sm_ended m"
        by (auto simp: make_process_def Let_def set_entry_def split: list.splits prod.splits sum.splits)
      show ?thesis
      proof (cases r2)
        case (Inl x)
        with assms(1) s F m2 k f1 Some True a show ?thesis
          by (auto simp: manager_start_def sbind_apply is_local_def)
      next
        case (Inr q)
        have f2: "find_service n (sm_services m2) = Some e1" using k f1 by simp
        then have "start_install n q m2 = (Inr (), put_process n (Some q) m2)" by (simp add: start_install_def)
        moreover have "find_service n (sm_services (put_process n (Some q) m2)) = Some (e1\<lparr>se_process := Some q\<rparr>)"
          using f2 by (simp add: find_put)
        moreover have "sm_ended (put_process n (Some q) m2) = sm_ended m @ ended_process (se_process e1)"
          using f2 k(3) [OF Inr] by (simp add: put_process_def)
        ultimately show ?thesis using assms(1) s F m2 Inr k(2) Some True a put_process_counters [of n "Some q" m2]
          by (auto simp: manager_start_def sbind_apply is_local_def entry_process_def)
      qed
    qed
  qed
qed

text \<open>Two threads that start the same service one after the other both spawn it; the second one
  destroys the process that the first \<^verbatim>\<open>start\<close> has returned a pointer to.\<close>

lemma second_start_ends_first:
  assumes "start_install n q1 m = (Inr (), m1)" and "start_install n q2 m1 = (Inr (), m2)"
  shows "(pid (fst q1), process_destroy (fst q1) (snd q1)) \<in> set (sm_ended m2)"
proof -
  obtain e where e: "find_service n (sm_services m) = Some e"
    using assms(1) by (auto simp: start_install_def split: option.splits)
  with assms have "m2 = put_process n (Some q2) (put_process n (Some q1) m)"
    by (auto simp: start_install_def find_put split: option.splits)
  with find_put [OF e, of n "Some q1"] show ?thesis
    by (cases q1) (simp add: put_process_def [of n "Some q2"] ended_process_def)
qed

text \<open>Replacing a process that has exited signals its old number once more: \<^verbatim>\<open>alive\<close> has reaped the
  child, but the handle still carries its \<^verbatim>\<open>pid\<close>, and the wait for it fails ten times.\<close>

lemma reaped_process_is_signalled:
  assumes "0 < pid p" and "w_waits w = pid p # replicate 10 (-1)" and "process_alive p w = (r, w1)"
  shows "r = Inr False \<and> w_kills (process_destroy p w1) = w_kills w @ [(pid p, SIGTERM), (pid p, SIGKILL)]"
proof -
  have w1: "r = Inr False" "w1 = w\<lparr>w_waits := replicate 10 (-1)\<rparr>"
    using assms by (auto simp: process_alive_def sbind_apply wait_nohang_def sret_def)
  have "pid p \<notin> set (take 10 (w_waits w1))" using assms(1) w1 by auto
  with terminate_stops_process [OF assms(1), of w1] w1 assms(1) show ?thesis
    by (auto simp: process_destroy_def)
qed

text \<open>A registry that could not be reached when it was first needed is never tried again: the
  client exists, but only its own calls would reconnect it, and \<^verbatim>\<open>connect\<close> makes none before
  \<^verbatim>\<open>is_connected\<close>.\<close>

lemma registry_never_retried:
  assumes "sm_registry_client m = Some c" and "\<not> rc_is_connected c" and "has_registry m"
    and "find_service n (sm_services m) = Some e" "\<not> se_is_remote e" "se_is_discoverable e"
    and "sm_mdns m = backend # bs" "backend n (se_type e) 3000 = MdnsUnavailable"
  shows "manager_connect n m = (Inl (ServiceError (''Service not found: '' @ n)), m\<lparr>sm_mdns := bs\<rparr>)"
  using assms
  by (simp add: manager_connect_def with_entry_def locate_service_def mdns_discover_def sbind_apply sget_def
      registry_lookup_def registry_client_unlocked_def has_registry_def sret_def sthrow_def Let_def)

section \<open>Examples\<close>

definition demo_spawn :: spawn_event where
  "demo_spawn = \<lparr>sp_pipe1 = Some (3, 4), sp_pipe2 = Some (5, 6), sp_fork = 77, sp_world = demo_hello\<rparr>"

definition no_spawn :: spawn_event where
  "no_spawn = \<lparr>sp_pipe1 = None, sp_pipe2 = None, sp_fork = 0, sp_world = world_idle\<rparr>"

definition demo_dead :: service_entry where
  "demo_dead = (entry_new ''calc'' 1)\<lparr>se_executable := ''./calc'', se_auto_restart := True,
     se_process := Some (process_new 70 no_pipe no_pipe, world_idle\<lparr>w_waits := [70]\<rparr>)\<rparr>"

definition demo_manager :: "spawn_event list \<Rightarrow> unit manager" where
  "demo_manager evs = (manager_new ())\<lparr>sm_services := [demo_dead], sm_spawns := evs\<rparr>"

lemma demo_starts_well: "starts_well demo_spawn"
  using demo_says_hello by (auto simp: starts_well_def demo_spawn_def demo_hello_def)

lemma demo_crashed: "crashed demo_dead" "is_local demo_dead" "se_name demo_dead = ''calc''"
    "se_restart_count demo_dead = 0" "se_max_restarts demo_dead = 5"
  by (simp_all add: crashed_def demo_dead_def entry_new_def is_local_def gave_up_def process_alive_def process_new_def
      sbind_apply wait_nohang_def sret_def word_sle_eq word_sless_alt)

lemma demo_table: "sm_services (demo_manager evs) = [demo_dead]" "sm_spawns (demo_manager evs) = evs"
    "sm_spawned (demo_manager evs) = []" "callback_returns (demo_manager evs)" "lead (kinds [demo_dead])"
  by (simp_all add: demo_manager_def manager_new_def callback_returns_def kinds_def)

theorem crashed_services_come_back_witness:
  "\<exists>m'. check_and_restart (demo_manager [demo_spawn]) = (Inr (), m')
    \<and> fst (manager_is_alive ''calc'' m') = Inr True \<and> fst (restart_count ''calc'' m') = Inr 1"
  using crashed_services_come_back [of "demo_manager [demo_spawn]"] demo_crashed demo_starts_well
  by (auto simp: demo_table)

theorem no_process_lost_witness:
  "\<exists>m q. thread_step\<^sup>*\<^sup>* ((manager_new ())\<lparr>sm_spawns := [demo_spawn]\<rparr>, []) (m, [Started ''calc'' q]) \<and> pid (fst q) = 77"
proof -
  let ?m0 = "(manager_new ())\<lparr>sm_spawns := [demo_spawn]\<rparr>"
  let ?e = "(entry_new ''calc'' 1)\<lparr>se_executable := ''./calc''\<rparr>"
  let ?m1 = "?m0\<lparr>sm_services := [?e]\<rparr>"
  have "run_locked (DoRegister ''calc'' ''./calc'' 1) ?m0 = (Inr (), ?m1)"
    by (simp add: manager_register_service_def unregistered_def add_entry_def manager_new_def)
  then have s1: "thread_step (?m0, []) (?m1, [])" by (rule thread_step.locked) simp
  have "start_lookup ''calc'' ?m1 = (Inr (Some ''./calc''), ?m1)"
    by (simp add: start_lookup_def with_local_def with_entry_def sbind_apply sret_def check_alive_def entry_alive_def
        entry_new_def set_entry_def)
  then have s2: "thread_step (?m1, []) (?m1, [Starting ''calc'' ''./calc''])"
    using thread_step.start [of "''calc''" ?m1 "Inr (Some ''./calc'')" ?m1 "[]"] by simp
  obtain q m3 where q: "make_process ''./calc'' ?m1 = (Inr q, m3)" and m3: "sm_services m3 = [?e]" "sm_spawns m3 = []"
      "sm_ended m3 = []"
    using make_process_starts_well [of ?m1 demo_spawn "[]" "''./calc''"] demo_starts_well by (auto simp: manager_new_def)
  then have s3: "thread_step (?m1, [Starting ''calc'' ''./calc'']) (m3, [Started ''calc'' q])"
    using thread_step.start_spawned [OF q, of "[]" "''calc''" "[]"] by simp
  have run: "thread_step\<^sup>*\<^sup>* (?m0, []) (m3, [Started ''calc'' q])"
    using s1 s2 s3 by (meson converse_rtranclp_into_rtranclp rtranclp.rtrancl_refl)
  have "forks [demo_spawn] = filter_mset (\<lambda>k. 0 < k) {#pid (fst q)#}"
    using no_process_lost [OF run] m3 by (auto simp: fresh_def manager_new_def entry_new_def)
  then have "pid (fst q) = 77"
    by (auto simp: forked_def demo_spawn_def split: if_splits)
  with run show ?thesis by blast
qed

end
