(* ===== verification/Song_Syntax.thy ===== *)
theory Song_Syntax
  imports Song_Prelude
begin

text \<open>
  The abstract syntax of the interface language (\<^verbatim>\<open>compiler/ast.hpp\<close>): types, the five kinds of
  definitions with their members, a namespace, a file. Documentation comments and source
  locations are members, as in the code. The C++ spelling of types, which the generators
  share, is here as well.
\<close>

text \<open>Lines and columns are counted in a file that has fewer than \<open>2 ^ 31\<close> of either.\<close>

record source_loc =
  loc_line :: int
  loc_column :: int
  loc_file :: string

datatype primitive_type =
    PBool | PI8 | PI16 | PI32 | PI64 | PU8 | PU16 | PU32 | PU64 | PF32 | PF64 | PString | PBytes | PVoid

text \<open>The variant of a primitive type and a name.\<close>

datatype base_type = Primitive primitive_type | User string

record idl_type =
  ty_base :: base_type
  ty_is_array :: bool
  ty_is_optional :: bool
  ty_dims :: nat

record field_def =
  fd_name :: string
  fd_type :: idl_type
  fd_doc :: string
  fd_loc :: source_loc

record struct_def =
  sd_name :: string
  sd_base :: "string option"
  sd_fields :: "field_def list"
  sd_doc :: string
  sd_loc :: source_loc

record enum_item =
  ei_name :: string
  ei_value :: "i64 option"
  ei_doc :: string
  ei_loc :: source_loc

record enum_def =
  ed_name :: string
  ed_items :: "enum_item list"
  ed_is_flags :: bool
  ed_doc :: string
  ed_loc :: source_loc

record param =
  pm_name :: string
  pm_type :: idl_type
  pm_loc :: source_loc

record property_def =
  pr_name :: string
  pr_type :: idl_type
  pr_readonly :: bool
  pr_doc :: string
  pr_loc :: source_loc

record constructor_def =
  ct_params :: "param list"
  ct_doc :: string
  ct_loc :: source_loc

record method_def =
  md_name :: string
  md_params :: "param list"
  md_return :: idl_type
  md_is_optional :: bool
  md_is_stream :: bool
  md_throws :: "string list"
  md_doc :: string
  md_loc :: source_loc

record class_def =
  cd_name :: string
  cd_base :: "string option"
  cd_properties :: "property_def list"
  cd_constructors :: "constructor_def list"
  cd_methods :: "method_def list"
  cd_doc :: string
  cd_loc :: source_loc

record service_def =
  sv_name :: string
  sv_methods :: "method_def list"
  sv_doc :: string
  sv_loc :: source_loc

record error_def =
  er_name :: string
  er_base :: "string option"
  er_fields :: "field_def list"
  er_doc :: string
  er_loc :: source_loc

record namespace_def =
  ns_name :: string
  ns_enums :: "enum_def list"
  ns_structs :: "struct_def list"
  ns_classes :: "class_def list"
  ns_services :: "service_def list"
  ns_errors :: "error_def list"
  ns_loc :: source_loc

record ast =
  ast_namespaces :: "namespace_def list"

definition in_quotes :: "string \<Rightarrow> string" where
  "in_quotes s = [CHR 0x27] @ s @ [CHR 0x27]"

definition is_primitive :: "idl_type \<Rightarrow> bool" where
  "is_primitive t = (case ty_base t of Primitive p \<Rightarrow> True | User n \<Rightarrow> False)"

fun primitive_to_string :: "primitive_type \<Rightarrow> string" where
  "primitive_to_string PBool = ''bool''"
| "primitive_to_string PI8 = ''i8''"
| "primitive_to_string PI16 = ''i16''"
| "primitive_to_string PI32 = ''i32''"
| "primitive_to_string PI64 = ''i64''"
| "primitive_to_string PU8 = ''u8''"
| "primitive_to_string PU16 = ''u16''"
| "primitive_to_string PU32 = ''u32''"
| "primitive_to_string PU64 = ''u64''"
| "primitive_to_string PF32 = ''f32''"
| "primitive_to_string PF64 = ''f64''"
| "primitive_to_string PString = ''string''"
| "primitive_to_string PBytes = ''bytes''"
| "primitive_to_string PVoid = ''void''"

fun primitive_to_cpp :: "primitive_type \<Rightarrow> string" where
  "primitive_to_cpp PBool = ''bool''"
| "primitive_to_cpp PI8 = ''i8''"
| "primitive_to_cpp PI16 = ''i16''"
| "primitive_to_cpp PI32 = ''i32''"
| "primitive_to_cpp PI64 = ''i64''"
| "primitive_to_cpp PU8 = ''u8''"
| "primitive_to_cpp PU16 = ''u16''"
| "primitive_to_cpp PU32 = ''u32''"
| "primitive_to_cpp PU64 = ''u64''"
| "primitive_to_cpp PF32 = ''f32''"
| "primitive_to_cpp PF64 = ''f64''"
| "primitive_to_cpp PString = ''std::string''"
| "primitive_to_cpp PBytes = ''std::vector<std::byte>''"
| "primitive_to_cpp PVoid = ''void''"

text \<open>An optional array loses its optional mark here: the array case returns first.\<close>

definition type_to_cpp :: "idl_type \<Rightarrow> string" where
  "type_to_cpp t =
    (let base_type = (case ty_base t of Primitive p \<Rightarrow> primitive_to_cpp p | User n \<Rightarrow> n)
     in if ty_is_array t
        then (let dims = (if ty_dims t > 0 then ty_dims t else 1)
              in concat (replicate dims ''std::vector<'') @ base_type @ concat (replicate dims ''>''))
        else if ty_is_optional t then ''std::optional<'' @ base_type @ ''>''
        else base_type)"

definition type_to_param :: "idl_type \<Rightarrow> string \<Rightarrow> string" where
  "type_to_param t name =
    (let by_ref = (ty_is_array t \<or> ty_is_optional t \<or>
       (case ty_base t of Primitive p \<Rightarrow> p = PString \<or> p = PBytes | User n \<Rightarrow> True))
     in if by_ref then ''const '' @ type_to_cpp t @ ''& '' @ name
        else type_to_cpp t @ '' '' @ name)"

end
