(* ===== verification/Song_Lexer.thy ===== *)
theory Song_Lexer
  imports Song_Syntax
begin

text \<open>
  The lexer of the interface compiler (\<^verbatim>\<open>compiler/lexer.cpp\<close>). Its state is the text that is
  left and the position; \<open>next_token\<close> gives a token or throws. The lemmas: every token but the
  end consumes text, so a parser over the lexer terminates, and a printed token is lexed as
  that token.
\<close>

section \<open>Tokens\<close>

datatype token_type =
    Identifier | Integer | DocComment
  | KwNamespace | KwStruct | KwClass | KwEnum | KwFlags | KwService | KwError
  | KwReadonly | KwOptional | KwStream | KwThrows
  | KwBool | KwI8 | KwI16 | KwI32 | KwI64 | KwU8 | KwU16 | KwU32 | KwU64 | KwF32 | KwF64
  | KwString | KwBytes | KwVoid
  | Semicolon | Comma | Colon | Dot | LBrace | RBrace | LParen | RParen | LBracket | RBracket
  | Question | Arrow | Equals | Eof

definition keyword_table :: "(string \<times> token_type) list" where
  "keyword_table = [
    (''namespace'', KwNamespace), (''struct'', KwStruct), (''class'', KwClass), (''enum'', KwEnum),
    (''flags'', KwFlags), (''service'', KwService), (''error'', KwError),
    (''readonly'', KwReadonly), (''optional'', KwOptional), (''stream'', KwStream), (''throws'', KwThrows),
    (''bool'', KwBool), (''i8'', KwI8), (''i16'', KwI16), (''i32'', KwI32), (''i64'', KwI64),
    (''u8'', KwU8), (''u16'', KwU16), (''u32'', KwU32), (''u64'', KwU64), (''f32'', KwF32), (''f64'', KwF64),
    (''string'', KwString), (''bytes'', KwBytes), (''void'', KwVoid)]"

fun token_type_to_string :: "token_type \<Rightarrow> string" where
  "token_type_to_string Identifier = ''Identifier''"
| "token_type_to_string Integer = ''Integer''"
| "token_type_to_string DocComment = ''DocComment''"
| "token_type_to_string KwNamespace = ''namespace''"
| "token_type_to_string KwStruct = ''struct''"
| "token_type_to_string KwClass = ''class''"
| "token_type_to_string KwEnum = ''enum''"
| "token_type_to_string KwFlags = ''flags''"
| "token_type_to_string KwService = ''service''"
| "token_type_to_string KwError = ''error''"
| "token_type_to_string KwReadonly = ''readonly''"
| "token_type_to_string KwOptional = ''optional''"
| "token_type_to_string KwStream = ''stream''"
| "token_type_to_string KwThrows = ''throws''"
| "token_type_to_string KwBool = ''bool''"
| "token_type_to_string KwI8 = ''i8''"
| "token_type_to_string KwI16 = ''i16''"
| "token_type_to_string KwI32 = ''i32''"
| "token_type_to_string KwI64 = ''i64''"
| "token_type_to_string KwU8 = ''u8''"
| "token_type_to_string KwU16 = ''u16''"
| "token_type_to_string KwU32 = ''u32''"
| "token_type_to_string KwU64 = ''u64''"
| "token_type_to_string KwF32 = ''f32''"
| "token_type_to_string KwF64 = ''f64''"
| "token_type_to_string KwString = ''string''"
| "token_type_to_string KwBytes = ''bytes''"
| "token_type_to_string KwVoid = ''void''"
| "token_type_to_string Semicolon = '';''"
| "token_type_to_string Comma = '',''"
| "token_type_to_string Colon = '':''"
| "token_type_to_string Dot = ''.''"
| "token_type_to_string LBrace = ''{''"
| "token_type_to_string RBrace = ''}''"
| "token_type_to_string LParen = ''(''"
| "token_type_to_string RParen = '')''"
| "token_type_to_string LBracket = ''[''"
| "token_type_to_string RBracket = '']''"
| "token_type_to_string Question = ''?''"
| "token_type_to_string Arrow = ''->''"
| "token_type_to_string Equals = ''=''"
| "token_type_to_string Eof = ''EOF''"

record token =
  t_type :: token_type
  t_value :: string
  t_line :: nat
  t_column :: nat
  t_int_value :: i64

definition make_token :: "token_type \<Rightarrow> string \<Rightarrow> nat \<Rightarrow> nat \<Rightarrow> token" where
  "make_token ty v line col = \<lparr>t_type = ty, t_value = v, t_line = line, t_column = col, t_int_value = 0\<rparr>"

text \<open>What the compiler throws: the two exceptions of its own, with message and position, and
  the \<^verbatim>\<open>std::out_of_range\<close> of \<^verbatim>\<open>std::stoll\<close>, which is neither of them.\<close>

datatype compile_error =
    LexerError string nat nat
  | ParserError string nat nat
  | OutOfRange string

fun error_text :: "compile_error \<Rightarrow> string" where
  "error_text (LexerError m line col) =
    ''Lexer error at line '' @ dec_string line @ '', column '' @ dec_string col @ '': '' @ m"
| "error_text (ParserError m line col) =
    ''Parse error at line '' @ dec_string line @ '', column '' @ dec_string col @ '': '' @ m"
| "error_text (OutOfRange m) = m"

section \<open>Characters\<close>

text \<open>The predicates of \<^verbatim>\<open>cctype\<close> in the C locale, which accept ASCII characters only.\<close>

definition is_digit :: "char \<Rightarrow> bool" where
  "is_digit c = (48 \<le> (of_char c :: nat) \<and> (of_char c :: nat) \<le> 57)"

definition is_alpha :: "char \<Rightarrow> bool" where
  "is_alpha c = (65 \<le> (of_char c :: nat) \<and> (of_char c :: nat) \<le> 90
    \<or> 97 \<le> (of_char c :: nat) \<and> (of_char c :: nat) \<le> 122)"

definition is_alnum :: "char \<Rightarrow> bool" where
  "is_alnum c = (is_alpha c \<or> is_digit c)"

definition is_xdigit :: "char \<Rightarrow> bool" where
  "is_xdigit c = (is_digit c \<or> 65 \<le> (of_char c :: nat) \<and> (of_char c :: nat) \<le> 70
    \<or> 97 \<le> (of_char c :: nat) \<and> (of_char c :: nat) \<le> 102)"

abbreviation newline :: char where "newline \<equiv> CHR 0x0A"

text \<open>The value of a digit, and \<^verbatim>\<open>std::stoll\<close> of a text of digits: what does not fit into 64 signed
  bits is out of range.\<close>

definition digit_value :: "char \<Rightarrow> nat" where
  "digit_value c = (if is_digit c then of_char c - 48
     else if (of_char c :: nat) \<ge> 97 then of_char c - 87 else of_char c - 55)"

definition digits_value :: "nat \<Rightarrow> string \<Rightarrow> nat" where
  "digits_value base ds = foldl (\<lambda>n d. n * base + digit_value d) 0 ds"

definition stoll :: "string \<Rightarrow> nat \<Rightarrow> compile_error + i64" where
  "stoll ds base =
    (let n = digits_value base ds
     in if n < 2 ^ 63 then Inr (word_of_nat n) else Inl (OutOfRange ''stoll''))"

section \<open>The lexer\<close>

text \<open>\<^verbatim>\<open>m_current\<close> is an index into the input; the state holds the text from there on.\<close>

record lexer =
  lx_rest :: string
  lx_line :: nat
  lx_column :: nat

definition lexer_new :: "string \<Rightarrow> lexer" where
  "lexer_new input = \<lparr>lx_rest = input, lx_line = 1, lx_column = 1\<rparr>"

definition lx_at_end :: "lexer \<Rightarrow> bool" where
  "lx_at_end L = (lx_rest L = [])"

definition lx_advance :: "lexer \<Rightarrow> lexer" where
  "lx_advance L = (if lx_at_end L then L
     else L\<lparr>lx_rest := tl (lx_rest L), lx_column := lx_column L + 1\<rparr>)"

definition peek :: "lexer \<Rightarrow> char" where
  "peek L = (case lx_rest L of [] \<Rightarrow> CHR 0x00 | c # cs \<Rightarrow> c)"

definition peek_next :: "lexer \<Rightarrow> char" where
  "peek_next L = (case lx_rest L of c # d # cs \<Rightarrow> d | _ \<Rightarrow> CHR 0x00)"

lemma lx_advance_simps [simp]:
  "lx_rest (lx_advance L) = tl (lx_rest L)"
  "lx_line (lx_advance L) = lx_line L"
  by (simp_all add: lx_advance_def lx_at_end_def)

function skip_whitespace :: "lexer \<Rightarrow> lexer" where
  "skip_whitespace L =
    (if lx_at_end L then L
     else let c = peek L in
       if c = CHR '' '' \<or> c = CHR 0x09 \<or> c = CHR 0x0D then skip_whitespace (lx_advance L)
       else if c = newline
       then skip_whitespace ((lx_advance L)\<lparr>lx_line := lx_line L + 1, lx_column := 1\<rparr>)
       else L)"
  by pat_completeness auto
termination
  by (relation "measure (\<lambda>L. length (lx_rest L))") (auto simp: lx_at_end_def)

declare skip_whitespace.simps [simp del]

function skip_line_comment :: "lexer \<Rightarrow> lexer" where
  "skip_line_comment L =
    (if \<not> lx_at_end L \<and> peek L \<noteq> newline then skip_line_comment (lx_advance L) else L)"
  by pat_completeness auto
termination
  by (relation "measure (\<lambda>L. length (lx_rest L))") (auto simp: lx_at_end_def)

declare skip_line_comment.simps [simp del]

text \<open>The loops that collect the characters of a token while a condition holds.\<close>

function collect_while :: "(char \<Rightarrow> bool) \<Rightarrow> lexer \<Rightarrow> string \<times> lexer" where
  "collect_while P L =
    (if \<not> lx_at_end L \<and> P (peek L)
     then (case collect_while P (lx_advance L) of (v, L') \<Rightarrow> (peek L # v, L'))
     else ([], L))"
  by pat_completeness auto
termination
  by (relation "measure (\<lambda>(P, L). length (lx_rest L))") (auto simp: lx_at_end_def)

declare collect_while.simps [simp del]

definition lex_identifier_or_keyword :: "lexer \<Rightarrow> token \<times> lexer" where
  "lex_identifier_or_keyword L =
    (case collect_while (\<lambda>c. is_alnum c \<or> c = CHR ''_'') L of (value, L') \<Rightarrow>
      (case map_of keyword_table value of
         Some kw \<Rightarrow> (make_token kw value (lx_line L') (lx_column L), L')
       | None \<Rightarrow> (make_token Identifier value (lx_line L') (lx_column L), L')))"

definition lex_integer :: "lexer \<Rightarrow> compile_error + token \<times> lexer" where
  "lex_integer L =
    (if peek L = CHR ''0'' \<and> (peek_next L = CHR ''x'' \<or> peek_next L = CHR ''X'')
     then (case collect_while is_xdigit (lx_advance (lx_advance L)) of (digits, L') \<Rightarrow>
       let value = [peek L, peek_next L] @ digits in
       if length value = 2
       then Inl (LexerError ''Invalid hex literal: missing digits'' (lx_line L') (lx_column L))
       else (case stoll digits 16 of
           Inl e \<Rightarrow> Inl e
         | Inr n \<Rightarrow> Inr ((make_token Integer value (lx_line L') (lx_column L))\<lparr>t_int_value := n\<rparr>, L')))
     else (case collect_while is_digit L of (value, L') \<Rightarrow>
       (case stoll value 10 of
           Inl e \<Rightarrow> Inl e
         | Inr n \<Rightarrow> Inr ((make_token Integer value (lx_line L') (lx_column L))\<lparr>t_int_value := n\<rparr>, L'))))"

definition lex_doc_comment :: "lexer \<Rightarrow> token \<times> lexer" where
  "lex_doc_comment L =
    (let L1 = lx_advance (lx_advance (lx_advance L));
         L2 = (if \<not> lx_at_end L1 \<and> peek L1 = CHR '' '' then lx_advance L1 else L1)
     in case collect_while (\<lambda>c. c \<noteq> newline) L2 of (value, L') \<Rightarrow>
          (make_token DocComment value (lx_line L') (lx_column L), L'))"

definition punctuation :: "(char \<times> token_type) list" where
  "punctuation = [(CHR '';'', Semicolon), (CHR '','', Comma), (CHR '':'', Colon), (CHR ''.'', Dot),
    (CHR ''{'', LBrace), (CHR ''}'', RBrace), (CHR ''('', LParen), (CHR '')'', RParen),
    (CHR ''['', LBracket), (CHR '']'', RBracket), (CHR ''?'', Question), (CHR ''='', Equals)]"

text \<open>A regular comment is skipped by calling \<open>next_token\<close> again.\<close>

lemma skip_whitespace_shorter: "length (lx_rest (skip_whitespace L)) \<le> length (lx_rest L)"
  by (induction L rule: skip_whitespace.induct)
    (subst skip_whitespace.simps, force simp: Let_def intro: le_trans)

lemma skip_line_comment_shorter: "length (lx_rest (skip_line_comment L)) \<le> length (lx_rest L)"
  by (induction L rule: skip_line_comment.induct)
    (subst skip_line_comment.simps, force intro: le_trans)

lemma skip_line_comment_less:
  "peek L = CHR ''/'' \<Longrightarrow> length (lx_rest (skip_line_comment L)) < length (lx_rest L)"
  using skip_line_comment_shorter [of "lx_advance L"]
  by (subst skip_line_comment.simps) (cases "lx_rest L", auto simp: lx_at_end_def peek_def)

function next_token :: "lexer \<Rightarrow> compile_error + token \<times> lexer" where
  "next_token L0 =
    (let L = skip_whitespace L0 in
     if lx_at_end L then Inr (make_token Eof '''' (lx_line L) (lx_column L), L)
     else let c = peek L in
       if c = CHR ''/'' \<and> peek_next L = CHR ''/''
       then if length (lx_rest L) > 2 \<and> lx_rest L ! 2 = CHR ''/'' then Inr (lex_doc_comment L)
         else next_token (skip_line_comment L)
       else (case map_of punctuation c of
         Some ty \<Rightarrow> Inr (make_token ty [c] (lx_line L) (lx_column L), lx_advance L)
       | None \<Rightarrow>
         if c = CHR ''-'' \<and> peek_next L = CHR ''>''
         then Inr (make_token Arrow ''->'' (lx_line L) (lx_column L), lx_advance (lx_advance L))
         else if is_digit c then lex_integer L
         else if is_alpha c \<or> c = CHR ''_'' then Inr (lex_identifier_or_keyword L)
         else Inl (LexerError (''Unexpected character: '' @ [CHR 0x27, c, CHR 0x27]) (lx_line L) (lx_column L))))"
  by pat_completeness auto
termination
  by (relation "measure (\<lambda>L. length (lx_rest L))")
    (auto intro: less_le_trans [OF skip_line_comment_less skip_whitespace_shorter])

declare next_token.simps [simp del]

section \<open>What a token consumes\<close>

lemma collect_run:
  "collect_while P L = (takeWhile P (lx_rest L),
     L\<lparr>lx_rest := dropWhile P (lx_rest L), lx_column := lx_column L + length (takeWhile P (lx_rest L))\<rparr>)"
proof (induction P L rule: collect_while.induct)
  case (1 P L)
  then show ?case
    by (subst collect_while.simps, cases L, cases "lx_rest L")
      (auto simp: lx_at_end_def peek_def lx_advance_def)
qed

lemma collect_shorter: "collect_while P L = (v, L') \<Longrightarrow> length (lx_rest L') \<le> length (lx_rest L)"
  by (auto simp: collect_run length_dropWhile_le)

lemma collect_less:
  "collect_while P L = (v, L') \<Longrightarrow> lx_rest L \<noteq> [] \<Longrightarrow> P (peek L) \<Longrightarrow> length (lx_rest L') < length (lx_rest L)"
  by (cases "lx_rest L") (auto simp: collect_run peek_def length_dropWhile_le le_imp_less_Suc)

lemma keyword_types: "map_of keyword_table v = Some ty \<Longrightarrow> ty \<noteq> Eof \<and> ty \<noteq> DocComment"
  by (drule map_of_SomeD) (auto simp: keyword_table_def)

lemma punctuation_types: "map_of punctuation c = Some ty \<Longrightarrow> ty \<noteq> Eof \<and> ty \<noteq> DocComment"
  by (drule map_of_SomeD) (auto simp: punctuation_def)

lemma make_token_simps [simp]:
  "t_type (make_token ty v l c) = ty" "t_value (make_token ty v l c) = v" "t_int_value (make_token ty v l c) = 0"
  by (simp_all add: make_token_def)

lemma lex_identifier_less:
  "lex_identifier_or_keyword L = (t, L') \<Longrightarrow> lx_rest L \<noteq> [] \<Longrightarrow> is_alpha (peek L) \<or> peek L = CHR ''_''
    \<Longrightarrow> t_type t \<noteq> Eof \<and> length (lx_rest L') < length (lx_rest L)"
  by (auto simp: lex_identifier_or_keyword_def is_alnum_def split: prod.splits option.splits
      dest!: collect_less keyword_types)

lemma lex_integer_less:
  assumes "lex_integer L = Inr (t, L')" and "lx_rest L \<noteq> []" and "is_digit (peek L)"
  shows "t_type t \<noteq> Eof \<and> length (lx_rest L') < length (lx_rest L)"
proof -
  have "length (lx_rest K) < length (lx_rest L)" if "collect_while is_xdigit (lx_advance (lx_advance L)) = (v, K)" for v K
    using collect_shorter [OF that] assms(2) by (cases "lx_rest L") auto
  moreover have "length (lx_rest K) < length (lx_rest L)" if "collect_while is_digit L = (v, K)" for v K
    using collect_less [OF that assms(2,3)] .
  ultimately show ?thesis
    using assms(1) by (auto simp: lex_integer_def Let_def split: if_splits prod.splits sum.splits)
qed

lemma lex_doc_comment_less:
  assumes "lex_doc_comment L = (t, L')" and "lx_rest L \<noteq> []"
  shows "t_type t \<noteq> Eof \<and> length (lx_rest L') < length (lx_rest L)"
proof -
  have "length (lx_rest K) < length (lx_rest L)"
    if "collect_while Q M = (v, K)" "length (lx_rest M) < length (lx_rest L)" for Q M v K
    using collect_shorter [OF that(1)] that(2) by simp
  moreover have "length (tl (tl (tl (lx_rest L)))) < length (lx_rest L)"
    "length (tl (tl (tl (tl (lx_rest L))))) < length (lx_rest L)"
    using assms(2) by (cases "lx_rest L", auto)+
  ultimately show ?thesis
    using assms(1) by (auto simp: lex_doc_comment_def Let_def split: if_splits prod.splits)
qed

text \<open>Every token but the end of the file takes some text away.\<close>

lemma next_token_consumes:
  "next_token L = Inr (t, L') \<Longrightarrow> length (lx_rest L') \<le> length (lx_rest L)
    \<and> (t_type t \<noteq> Eof \<longrightarrow> length (lx_rest L') < length (lx_rest L))"
proof (induction L rule: next_token.induct)
  case (1 L0)
  let ?L = "skip_whitespace L0"
  note le = skip_whitespace_shorter [of L0]
  note run = 1(2) [unfolded next_token.simps [of L0]]
  show ?case
  proof (cases "lx_at_end ?L")
    case True
    with run le show ?thesis by (auto simp: Let_def)
  next
    case False
    then have ne: "lx_rest ?L \<noteq> []" by (simp add: lx_at_end_def)
    have adv: "length (tl (lx_rest ?L)) < length (lx_rest L0)" "length (tl (tl (lx_rest ?L))) < length (lx_rest L0)"
      using le ne by (cases "lx_rest ?L"; auto)+
    consider (regular) "peek ?L = CHR ''/'' \<and> peek_next ?L = CHR ''/''"
          "\<not> (length (lx_rest ?L) > 2 \<and> lx_rest ?L ! 2 = CHR ''/'')" "next_token (skip_line_comment ?L) = Inr (t, L')"
      | (doc) "lex_doc_comment ?L = (t, L')"
      | (punct) ty where "map_of punctuation (peek ?L) = Some ty" "t_type t = ty" "L' = lx_advance ?L"
      | (arrow) "t_type t = Arrow" "L' = lx_advance (lx_advance ?L)"
      | (int) "is_digit (peek ?L)" "lex_integer ?L = Inr (t, L')"
      | (ident) "is_alpha (peek ?L) \<or> peek ?L = CHR ''_''" "lex_identifier_or_keyword ?L = (t, L')"
      using run False by (auto simp: Let_def split: if_splits option.splits)
    then show ?thesis
    proof cases
      case regular
      have "length (lx_rest (skip_line_comment ?L)) < length (lx_rest L0)"
        using skip_line_comment_less [of ?L] regular(1) le by simp
      with 1(1) [OF refl False refl regular] show ?thesis by simp
    next
      case doc
      with lex_doc_comment_less [OF doc ne] le show ?thesis by simp
    next
      case punct
      with adv show ?thesis by simp
    next
      case arrow
      with adv show ?thesis by simp
    next
      case int
      with lex_integer_less [OF int(2) ne int(1)] le show ?thesis by simp
    next
      case ident
      with lex_identifier_less [OF ident(2) ne ident(1)] le show ?thesis by simp
    qed
  qed
qed

section \<open>Printed tokens\<close>

text \<open>A lexeme is a token without its position. Printed, a comment takes a line of its own and
  every other token is followed by a space.\<close>

type_synonym lexeme = "token_type \<times> string \<times> i64"

definition lexeme_of :: "token \<Rightarrow> lexeme" where
  "lexeme_of t = (t_type t, t_value t, t_int_value t)"

fun spelled :: "lexeme \<Rightarrow> string" where
  "spelled (ty, v, i) = (if ty = DocComment then ''/// '' @ v @ [newline] else v @ '' '')"

definition is_identifier :: "string \<Rightarrow> bool" where
  "is_identifier v = (v \<noteq> [] \<and> (is_alpha (hd v) \<or> hd v = CHR ''_'')
    \<and> list_all (\<lambda>c. is_alnum c \<or> c = CHR ''_'') v \<and> map_of keyword_table v = None)"

fun lexeme_ok :: "lexeme \<Rightarrow> bool" where
  "lexeme_ok (ty, v, i) =
    (if ty = Identifier then is_identifier v \<and> i = 0
     else if ty = Integer then (\<exists>n < 2 ^ 63. v = dec_string n \<and> i = word_of_nat n)
     else if ty = DocComment then newline \<notin> set v \<and> i = 0
     else if ty = Arrow then v = ''->'' \<and> i = 0
     else ((v, ty) \<in> set keyword_table \<or> (\<exists>c. v = [c] \<and> (c, ty) \<in> set punctuation)) \<and> i = 0)"

definition is_space :: "char \<Rightarrow> bool" where
  "is_space c = (c = CHR '' '' \<or> c = CHR 0x09 \<or> c = CHR 0x0D \<or> c = newline)"

lemma skip_whitespace_rest: "lx_rest (skip_whitespace L) = dropWhile is_space (lx_rest L)"
proof (induction L rule: skip_whitespace.induct)
  case (1 L)
  show ?case
  proof (cases "lx_rest L")
    case Nil
    then show ?thesis by (subst skip_whitespace.simps) (simp add: lx_at_end_def)
  next
    case (Cons c cs)
    have "is_space c \<longleftrightarrow> c = CHR '' '' \<or> c = CHR 0x09 \<or> c = CHR 0x0D \<or> c = newline" by (simp add: is_space_def)
    with 1 Cons show ?thesis
      by (subst skip_whitespace.simps) (simp add: lx_at_end_def peek_def Let_def)
  qed
qed

lemma dropWhile_space_idem [simp]: "dropWhile is_space (dropWhile is_space xs) = dropWhile is_space xs"
  by (induction xs) auto

text \<open>Digits: what \<open>dec_string\<close> writes is read back by \<open>stoll\<close>.\<close>

lemma is_digit_char [simp]: "n < (10::nat) \<Longrightarrow> is_digit (char_of (48 + n))"
  by (simp add: is_digit_def)

lemma digit_value_char [simp]: "n < (10::nat) \<Longrightarrow> digit_value (char_of (48 + n)) = n"
  by (simp add: digit_value_def is_digit_def)

lemma dec_string_digits: "dec_string n \<noteq> [] \<and> list_all is_digit (dec_string n)"
proof (induction n rule: dec_string.induct)
  case (1 n)
  then show ?case by (subst (1 2) dec_string.simps) auto
qed

lemma digits_value_dec_string: "digits_value 10 (dec_string n) = n"
proof (induction n rule: dec_string.induct)
  case (1 n)
  then show ?case by (subst dec_string.simps) (auto simp: digits_value_def)
qed

lemma stoll_dec_string: "n < 2 ^ 63 \<Longrightarrow> stoll (dec_string n) 10 = Inr (word_of_nat n)"
  by (simp add: stoll_def digits_value_dec_string)

lemma char_classes:
  "is_digit c \<Longrightarrow> \<not> is_space c \<and> map_of punctuation c = None \<and> c \<noteq> CHR ''/'' \<and> c \<noteq> CHR ''-'' \<and> c \<noteq> CHR ''x'' \<and> c \<noteq> CHR ''X''"
  "is_alpha c \<or> c = CHR ''_'' \<Longrightarrow> \<not> is_space c \<and> map_of punctuation c = None \<and> c \<noteq> CHR ''/'' \<and> c \<noteq> CHR ''-'' \<and> \<not> is_digit c"
proof -
  have other: "list_all (\<lambda>d. \<not> is_digit d \<and> \<not> is_alpha d)
      ([CHR '' '', CHR 0x09, CHR 0x0D, newline, CHR ''/'', CHR ''-''] @ map fst punctuation)"
    by (simp add: is_digit_def is_alpha_def punctuation_def)
  have under: "CHR ''_'' \<notin> set ([CHR '' '', CHR 0x09, CHR 0x0D, newline, CHR ''/'', CHR ''-''] @ map fst punctuation)"
    by (simp add: punctuation_def)
  have "\<not> is_digit (CHR ''x'')" "\<not> is_digit (CHR ''X'')" "\<not> is_digit (CHR ''_'')"
    by (simp_all add: is_digit_def)
  then show "is_digit c \<Longrightarrow> \<not> is_space c \<and> map_of punctuation c = None \<and> c \<noteq> CHR ''/'' \<and> c \<noteq> CHR ''-'' \<and> c \<noteq> CHR ''x'' \<and> c \<noteq> CHR ''X''"
    using other by (auto simp: is_space_def map_of_eq_None_iff list_all_iff)
  show "is_alpha c \<or> c = CHR ''_'' \<Longrightarrow> \<not> is_space c \<and> map_of punctuation c = None \<and> c \<noteq> CHR ''/'' \<and> c \<noteq> CHR ''-'' \<and> \<not> is_digit c"
    using other under \<open>\<not> is_digit (CHR ''_'')\<close>
    by (auto simp: is_space_def map_of_eq_None_iff list_all_iff is_alpha_def is_digit_def)
qed

lemma takeWhile_before: "list_all P v \<Longrightarrow> \<not> P c \<Longrightarrow> takeWhile P (v @ c # cs) = v \<and> dropWhile P (v @ c # cs) = c # cs"
  by (induction v) auto

lemma takeWhile_line:
  "c \<notin> set v \<Longrightarrow> takeWhile (\<lambda>d. d \<noteq> c) (v @ c # cs) = v \<and> dropWhile (\<lambda>d. d \<noteq> c) (v @ c # cs) = c # cs"
  by (induction v) auto

lemma keyword_words:
  "list_all (\<lambda>(v, ty). v \<noteq> [] \<and> is_alpha (hd v) \<and> list_all (\<lambda>c. is_alnum c \<or> c = CHR ''_'') v
    \<and> map_of keyword_table v = Some ty) keyword_table"
  by (simp add: keyword_table_def is_alnum_def is_alpha_def is_digit_def)

lemma keyword_word:
  "(v, ty) \<in> set keyword_table \<Longrightarrow> v \<noteq> [] \<and> is_alpha (hd v) \<and> list_all (\<lambda>c. is_alnum c \<or> c = CHR ''_'') v
    \<and> map_of keyword_table v = Some ty"
  using keyword_words unfolding list_all_iff by fast

lemma punctuation_chars:
  "list_all (\<lambda>(c, ty). \<not> is_space c \<and> c \<noteq> CHR ''/'' \<and> map_of punctuation c = Some ty) punctuation"
  by (simp add: punctuation_def is_space_def)

lemma punctuation_char:
  "(c, ty) \<in> set punctuation \<Longrightarrow> \<not> is_space c \<and> c \<noteq> CHR ''/'' \<and> map_of punctuation c = Some ty"
  using punctuation_chars unfolding list_all_iff by fast

lemma not_word_space: "\<not> (is_alnum (CHR '' '') \<or> CHR '' '' = CHR ''_'')" "\<not> is_digit (CHR '' '')"
  by (simp_all add: is_alnum_def is_alpha_def is_digit_def)

lemma next_token_word:
  assumes "dropWhile is_space (lx_rest L) = v @ CHR '' '' # cs" and "v \<noteq> []"
    and "is_alpha (hd v) \<or> hd v = CHR ''_''" and "list_all (\<lambda>c. is_alnum c \<or> c = CHR ''_'') v"
  shows "\<exists>t L'. next_token L = Inr (t, L') \<and> lexeme_of t = (case map_of keyword_table v of Some ty \<Rightarrow> ty | None \<Rightarrow> Identifier, v, 0)
    \<and> lx_rest L' = CHR '' '' # cs"
proof -
  have r: "lx_rest (skip_whitespace L) = v @ CHR '' '' # cs" using assms(1) by (simp add: skip_whitespace_rest)
  then have p: "peek (skip_whitespace L) = hd v" using assms(2) by (cases v) (simp_all add: peek_def)
  have i: "lex_identifier_or_keyword (skip_whitespace L) = (t, L') \<Longrightarrow> lexeme_of t =
      (case map_of keyword_table v of Some ty \<Rightarrow> ty | None \<Rightarrow> Identifier, v, 0) \<and> lx_rest L' = CHR '' '' # cs" for t L'
    using r takeWhile_before [OF assms(4) not_word_space(1), of cs]
    by (auto simp: lex_identifier_or_keyword_def collect_run lexeme_of_def split: option.splits)
  have "next_token L = Inr (lex_identifier_or_keyword (skip_whitespace L))"
    using char_classes(2) [OF assms(3)] assms(2,3) r
    by (subst next_token.simps) (simp add: p Let_def lx_at_end_def)
  with i show ?thesis by (cases "lex_identifier_or_keyword (skip_whitespace L)") simp
qed

lemma next_token_spelled:
  assumes "lexeme_ok l" and "dropWhile is_space (lx_rest L) = spelled l @ cs"
  shows "\<exists>t L'. next_token L = Inr (t, L') \<and> lexeme_of t = l \<and> dropWhile is_space (lx_rest L') = dropWhile is_space cs"
proof -
  obtain ty v i where l: "l = (ty, v, i)" by (cases l)
  let ?L = "skip_whitespace L"
  have r: "lx_rest ?L = spelled l @ cs" using assms(2) by (simp add: skip_whitespace_rest)
  consider (ident) "ty = Identifier" | (int) n where "ty = Integer" "n < 2 ^ 63" "v = dec_string n" "i = word_of_nat n"
    | (doc) "ty = DocComment" "newline \<notin> set v" "i = 0" | (arrow) "ty = Arrow" "v = ''->''" "i = 0"
    | (kw) "(v, ty) \<in> set keyword_table" "i = 0" "ty \<noteq> DocComment"
    | (punct) c where "v = [c]" "(c, ty) \<in> set punctuation" "i = 0" "ty \<noteq> DocComment"
    using assms(1) l by (auto split: if_splits)
  then show ?thesis
  proof cases
    case ident
    with assms l show ?thesis
      using next_token_word [of L v cs] by (auto simp: is_identifier_def is_space_def)
  next
    case kw
    with assms l keyword_word [OF kw(1)] show ?thesis
      using next_token_word [of L v cs] by (auto simp: is_space_def)
  next
    case int
    note d = dec_string_digits [of n]
    have v: "v \<noteq> []" "is_digit (hd v)" "list_all is_digit v"
      using int(3) d by (auto simp: list_all_iff)
    have rr: "lx_rest ?L = v @ CHR '' '' # cs" using r l int(1) by simp
    have nx: "\<not> (peek_next ?L = CHR ''x'' \<or> peek_next ?L = CHR ''X'')"
      using rr v char_classes(1) by (cases v; cases "tl v") (auto simp: peek_next_def)
    note tw = takeWhile_before [of is_digit v "CHR '' ''" cs, OF v(3) not_word_space(2)]
    have col: "collect_while is_digit ?L = (v, K) \<Longrightarrow> lx_rest K = CHR '' '' # cs" for K
      using rr tw by (auto simp: collect_run)
    have "fst (collect_while is_digit ?L) = v"
      using rr tw by (simp add: collect_run)
    then obtain K where K: "collect_while is_digit ?L = (v, K)" by (cases "collect_while is_digit ?L") auto
    have "next_token L = lex_integer ?L"
      using rr v char_classes(1) [OF v(2)]
      by (subst next_token.simps, cases v) (simp_all add: Let_def lx_at_end_def peek_def)
    then show ?thesis
      using nx K col [OF K] int l by (auto simp: lex_integer_def stoll_dec_string lexeme_of_def is_space_def)
  next
    case doc
    have rr: "lx_rest ?L = CHR ''/'' # CHR ''/'' # CHR ''/'' # CHR '' '' # v @ newline # cs" using r l doc(1) by simp
    have "next_token L = Inr (lex_doc_comment ?L)"
      by (subst next_token.simps) (simp add: Let_def lx_at_end_def peek_def peek_next_def rr)
    moreover have "takeWhile (\<lambda>c. c \<noteq> newline) (v @ newline # cs) = v"
      "dropWhile (\<lambda>c. c \<noteq> newline) (v @ newline # cs) = newline # cs"
      using takeWhile_line [OF doc(2)] by simp_all
    ultimately show ?thesis
      by (auto simp: lex_doc_comment_def lx_at_end_def peek_def rr collect_run lexeme_of_def l doc is_space_def Let_def)
  next
    case arrow
    have "\<not> is_digit (CHR ''-'')" "map_of punctuation (CHR ''-'') = None" by (simp_all add: is_digit_def punctuation_def)
    then show ?thesis
      using r l arrow by (subst next_token.simps)
        (auto simp: Let_def lx_at_end_def peek_def peek_next_def lexeme_of_def is_space_def)
  next
    case punct
    then show ?thesis
      using r l punctuation_char [OF punct(2)]
      by (subst next_token.simps) (auto simp: Let_def lx_at_end_def peek_def lexeme_of_def is_space_def)
  qed
qed

end
