(* ===== verification/Song_Parser.thy ===== *)
theory Song_Parser
  imports Song_Lexer
begin

text \<open>
  The recursive descent parser of the interface compiler (\<^verbatim>\<open>compiler/parser.cpp\<close>), one definition
  per member function, over the lexer of \<open>Song_Lexer\<close>. An exception leaves the parser without
  a state: nothing of it is used afterwards. The loops terminate because every round consumes
  text, which the predicates \<open>eats\<close> and \<open>saves\<close> state and propagate.
\<close>

section \<open>The parser's state\<close>

text \<open>\<^verbatim>\<open>next_token\<close> gives a token on every path that returns, so the optional \<^verbatim>\<open>m_current_token\<close>
  always holds one once the constructor has returned.\<close>

record parser =
  p_lexer :: lexer
  p_token :: token
  p_doc :: string

type_synonym 'a pm = "parser \<Rightarrow> compile_error + 'a \<times> parser"

definition pret :: "'a \<Rightarrow> 'a pm" where
  "pret x = (\<lambda>p. Inr (x, p))"

definition pbind :: "'a pm \<Rightarrow> ('a \<Rightarrow> 'b pm) \<Rightarrow> 'b pm" where
  "pbind m k = (\<lambda>p. case m p of Inl e \<Rightarrow> Inl e | Inr (x, p') \<Rightarrow> k x p')"

lemma pbind_apply: "pbind m k p = (case m p of Inl e \<Rightarrow> Inl e | Inr (x, p') \<Rightarrow> k x p')"
  by (simp add: pbind_def)

lemma pbind_cong [fundef_cong]:
  "m p = m' p' \<Longrightarrow> (\<And>x q. m' p' = Inr (x, q) \<Longrightarrow> k x q = k' x q) \<Longrightarrow> p = p'
    \<Longrightarrow> pbind m k p = pbind m' k' p'"
  by (auto simp: pbind_apply split: sum.splits)

lemma pbind_Inr: "pbind m k p = Inr r \<longleftrightarrow> (\<exists>x p'. m p = Inr (x, p') \<and> k x p' = Inr r)"
  by (auto simp: pbind_apply split: sum.splits)

section \<open>Advancing\<close>

function read_past_docs :: "lexer \<Rightarrow> string \<Rightarrow> compile_error + parser" where
  "read_past_docs L doc = (case next_token L of
      Inl e \<Rightarrow> Inl e
    | Inr (t, L') \<Rightarrow>
        if t_type t = DocComment
        then read_past_docs L' ((if doc = [] then doc else doc @ [newline]) @ t_value t)
        else Inr \<lparr>p_lexer = L', p_token = t, p_doc = doc\<rparr>)"
  by pat_completeness auto
termination
  by (relation "measure (\<lambda>(L, doc). length (lx_rest L))") (auto dest: next_token_consumes)

declare read_past_docs.simps [simp del]

definition parser_new :: "string \<Rightarrow> compile_error + parser" where
  "parser_new input = read_past_docs (lexer_new input) []"

definition p_advance :: "unit pm" where
  "p_advance p = (case read_past_docs (p_lexer p) (p_doc p) of Inl e \<Rightarrow> Inl e | Inr p' \<Rightarrow> Inr ((), p'))"

definition check :: "token_type \<Rightarrow> parser \<Rightarrow> bool" where
  "check ty p = (t_type (p_token p) = ty)"

definition p_at_end :: "parser \<Rightarrow> bool" where
  "p_at_end p = (t_type (p_token p) = Eof)"

definition parse_fail :: "string \<Rightarrow> 'a pm" where
  "parse_fail msg p = Inl (ParserError msg (t_line (p_token p)) (t_column (p_token p)))"

definition expect :: "token_type \<Rightarrow> string \<Rightarrow> token pm" where
  "expect ty msg p =
    (if \<not> check ty p
     then parse_fail (msg @ '' (got '' @ token_type_to_string (t_type (p_token p)) @ '')'') p
     else pbind p_advance (\<lambda>_. pret (p_token p)) p)"

definition take_doc :: "string pm" where
  "take_doc p = Inr (p_doc p, p\<lparr>p_doc := []\<rparr>)"

definition current_loc :: "source_loc pm" where
  "current_loc p = Inr (\<lparr>loc_line = int (t_line (p_token p)), loc_column = int (t_column (p_token p)),
     loc_file = []\<rparr>, p)"

section \<open>Input is consumed\<close>

definition left :: "parser \<Rightarrow> nat" where
  "left p = length (lx_rest (p_lexer p)) + (if p_at_end p then 0 else 1)"

definition saves :: "'a pm \<Rightarrow> bool" where
  "saves m \<longleftrightarrow> (\<forall>p x p'. m p = Inr (x, p') \<longrightarrow> left p' \<le> left p)"

definition eats :: "'a pm \<Rightarrow> bool" where
  "eats m \<longleftrightarrow> (\<forall>p x p'. m p = Inr (x, p') \<longrightarrow> left p' < left p)"

named_theorems input_intros \<open>how much input the parts of a parser consume\<close>

lemma savesD: "saves m \<Longrightarrow> m p = Inr (x, p') \<Longrightarrow> left p' \<le> left p"
  by (auto simp: saves_def)

lemma eatsD: "eats m \<Longrightarrow> m p = Inr (x, p') \<Longrightarrow> left p' < left p"
  by (auto simp: eats_def)

lemma eats_saves: "eats m \<Longrightarrow> saves m"
  by (auto simp: eats_def saves_def less_imp_le)

lemma saves_pret [input_intros]: "saves (pret x)"
  by (simp add: saves_def pret_def)

lemma eats_fail: "eats (parse_fail m)"
  by (simp add: eats_def parse_fail_def)

lemma saves_pbind [input_intros]: "saves m \<Longrightarrow> (\<And>x. saves (k x)) \<Longrightarrow> saves (pbind m k)"
  unfolding saves_def pbind_Inr by (meson le_trans)

lemma eats_pbind_first: "eats m \<Longrightarrow> (\<And>x. saves (k x)) \<Longrightarrow> eats (pbind m k)"
  unfolding saves_def eats_def pbind_Inr by (meson le_less_trans)

lemma eats_pbind_then: "saves m \<Longrightarrow> (\<And>x. eats (k x)) \<Longrightarrow> eats (pbind m k)"
  unfolding saves_def eats_def pbind_Inr by (meson less_le_trans)

lemma saves_if [input_intros]: "saves m \<Longrightarrow> saves n \<Longrightarrow> saves (\<lambda>p. if c p then m p else n p)"
  by (simp add: saves_def)

lemma eats_if: "eats m \<Longrightarrow> eats n \<Longrightarrow> eats (\<lambda>p. if c p then m p else n p)"
  by (simp add: eats_def)

lemma read_past_docs_less:
  "read_past_docs L doc = Inr p' \<Longrightarrow> left p' \<le> length (lx_rest L)"
proof (induction L doc rule: read_past_docs.induct)
  case (1 L doc)
  note run = 1(2) [unfolded read_past_docs.simps [of L doc]]
  then obtain t L' where t: "next_token L = Inr (t, L')"
    by (auto split: sum.splits)
  note c = next_token_consumes [OF t]
  show ?case
  proof (cases "t_type t = DocComment")
    case True
    with 1(1) [OF t refl True] run c t show ?thesis by simp
  next
    case False
    with run c t show ?thesis by (auto simp: left_def p_at_end_def)
  qed
qed

lemma saves_advance [input_intros]: "saves p_advance"
  by (auto simp: saves_def p_advance_def left_def split: sum.splits dest!: read_past_docs_less)

lemma eats_expect: "ty \<noteq> Eof \<Longrightarrow> eats (expect ty msg)"
  by (auto simp: eats_def expect_def parse_fail_def check_def pbind_Inr pret_def p_advance_def left_def p_at_end_def
      split: sum.splits if_splits dest!: read_past_docs_less)

lemma saves_take_doc [input_intros]: "saves take_doc"
  by (auto simp: saves_def take_doc_def left_def p_at_end_def)

lemma saves_current_loc [input_intros]: "saves current_loc"
  by (auto simp: saves_def current_loc_def)

lemmas saves_expect [input_intros] = eats_saves [OF eats_expect]
lemmas saves_fail [input_intros] = eats_saves [OF eats_fail]

section \<open>Types and parameters\<close>


fun token_to_primitive :: "token_type \<Rightarrow> primitive_type option" where
  "token_to_primitive KwBool = Some PBool"
| "token_to_primitive KwI8 = Some PI8"
| "token_to_primitive KwI16 = Some PI16"
| "token_to_primitive KwI32 = Some PI32"
| "token_to_primitive KwI64 = Some PI64"
| "token_to_primitive KwU8 = Some PU8"
| "token_to_primitive KwU16 = Some PU16"
| "token_to_primitive KwU32 = Some PU32"
| "token_to_primitive KwU64 = Some PU64"
| "token_to_primitive KwF32 = Some PF32"
| "token_to_primitive KwF64 = Some PF64"
| "token_to_primitive KwString = Some PString"
| "token_to_primitive KwBytes = Some PBytes"
| "token_to_primitive KwVoid = Some PVoid"
| "token_to_primitive _ = None"

definition is_primitive_type :: "parser \<Rightarrow> bool" where
  "is_primitive_type p = (token_to_primitive (t_type (p_token p)) \<noteq> None)"

definition parse_base_type :: "base_type pm" where
  "parse_base_type p =
    (case token_to_primitive (t_type (p_token p)) of
       Some prim \<Rightarrow> pbind p_advance (\<lambda>_. pret (Primitive prim)) p
     | None \<Rightarrow>
         if check Identifier p then pbind p_advance (\<lambda>_. pret (User (t_value (p_token p)))) p
         else parse_fail ''Expected type'' p)"

function parse_brackets :: "idl_type \<Rightarrow> idl_type pm" where
  "parse_brackets t p =
    (if check LBracket p
     then pbind p_advance (\<lambda>_. pbind (expect RBracket (''Expected ']' after '' @ in_quotes ''['')) (\<lambda>_.
       parse_brackets (t\<lparr>ty_is_array := True, ty_dims := ty_dims t + 1\<rparr>))) p
     else Inr (t, p))"
  by pat_completeness auto
termination
  by (relation "measure (\<lambda>(t, p). left p)")
    (auto dest!: eatsD [OF eats_expect, rotated] savesD [OF saves_advance])

declare parse_brackets.simps [simp del]

definition parse_optional_mark :: "idl_type \<Rightarrow> idl_type pm" where
  "parse_optional_mark t p =
    (if check Question p then pbind p_advance (\<lambda>_. pret (t\<lparr>ty_is_optional := True\<rparr>)) p else Inr (t, p))"

definition type_of_base :: "base_type \<Rightarrow> idl_type" where
  "type_of_base b = \<lparr>ty_base = b, ty_is_array = False, ty_is_optional = False, ty_dims = 0\<rparr>"

definition parse_type :: "idl_type pm" where
  "parse_type = pbind parse_base_type (\<lambda>b. pbind (parse_brackets (type_of_base b)) parse_optional_mark)"

lemma eats_advance_if: "(\<And>p. c p \<Longrightarrow> \<not> p_at_end p) \<Longrightarrow> eats n \<Longrightarrow>
    eats (\<lambda>p. if c p then pbind p_advance (\<lambda>_. pret (f p)) p else n p)"
  by (force simp: eats_def pbind_Inr pret_def p_advance_def left_def split: sum.splits dest!: read_past_docs_less)

lemma advance_less: "p_advance p = Inr (u, p') \<Longrightarrow> \<not> p_at_end p \<Longrightarrow> left p' < left p"
  by (auto simp: p_advance_def left_def split: sum.splits dest!: read_past_docs_less)

lemma eats_parse_base_type: "eats parse_base_type"
  by (auto simp: eats_def parse_base_type_def pbind_Inr pret_def parse_fail_def check_def p_at_end_def
      split: option.splits if_splits dest!: advance_less)

lemma saves_parse_brackets [input_intros]: "saves (parse_brackets t)"
proof -
  have "left p' \<le> left p" if "parse_brackets t p = Inr (x, p')" for p x p'
    using that
  proof (induction t p rule: parse_brackets.induct)
    case (1 t p)
    note run = 1(2) [unfolded parse_brackets.simps [of t p]]
    show ?case
    proof (cases "check LBracket p")
      case True
      with run obtain u q v r where s: "p_advance p = Inr (u, q)"
          "expect RBracket (''Expected ']' after '' @ in_quotes ''['') q = Inr (v, r)"
          "parse_brackets (t\<lparr>ty_is_array := True, ty_dims := ty_dims t + 1\<rparr>) r = Inr (x, p')"
        by (auto simp: pbind_Inr)
      have "left p' \<le> left r" using 1(1) [OF True s(1,2)] s(3) by simp
      with savesD [OF saves_advance s(1)] eatsD [OF eats_expect s(2)] show ?thesis by simp
    next
      case False
      with run show ?thesis by simp
    qed
  qed
  then show ?thesis by (simp add: saves_def)
qed

lemma saves_parse_optional_mark [input_intros]: "saves (parse_optional_mark t)"
  by (auto simp: saves_def parse_optional_mark_def pbind_Inr pret_def dest!: savesD [OF saves_advance])

lemma eats_parse_type: "eats parse_type"
  unfolding parse_type_def by (intro eats_pbind_first eats_parse_base_type input_intros)

definition parse_param :: "param pm" where
  "parse_param = pbind current_loc (\<lambda>loc. pbind parse_type (\<lambda>t.
    pbind (expect Identifier ''Expected parameter name'') (\<lambda>name.
    pret \<lparr>pm_name = t_value name, pm_type = t, pm_loc = loc\<rparr>)))"

lemma eats_parse_param: "eats parse_param"
  unfolding parse_param_def
  by (intro eats_pbind_then [OF saves_current_loc] eats_pbind_first eats_parse_type input_intros) simp

text \<open>The rest of a list after its first element: a comma and an element, as often as there is a
  comma. The parameters and the error names of a method are read like this.\<close>

function parse_params_more :: "param list \<Rightarrow> param list pm" where
  "parse_params_more ps p =
    (if check Comma p
     then pbind p_advance (\<lambda>_. pbind parse_param (\<lambda>x. parse_params_more (ps @ [x]))) p
     else Inr (ps, p))"
  by pat_completeness auto
termination
  by (relation "measure (\<lambda>(ps, p). left p)")
    (auto dest!: eatsD [OF eats_parse_param] savesD [OF saves_advance])

declare parse_params_more.simps [simp del]

definition parse_params :: "param list pm" where
  "parse_params p =
    (if \<not> check RParen p then pbind parse_param (\<lambda>x. parse_params_more [x]) p else Inr ([], p))"

function parse_throws_more :: "string list \<Rightarrow> string list pm" where
  "parse_throws_more es p =
    (if check Comma p
     then pbind p_advance (\<lambda>_. pbind (expect Identifier ''Expected error type'') (\<lambda>t.
       parse_throws_more (es @ [t_value t]))) p
     else Inr (es, p))"
  by pat_completeness auto
termination
  by (relation "measure (\<lambda>(ps, p). left p)")
    (auto dest!: eatsD [OF eats_expect, rotated] savesD [OF saves_advance])

declare parse_throws_more.simps [simp del]

definition parse_throws :: "string list pm" where
  "parse_throws p =
    (if check KwThrows p
     then pbind p_advance (\<lambda>_. pbind (expect Identifier ''Expected error type'') (\<lambda>t.
       parse_throws_more [t_value t])) p
     else Inr ([], p))"

lemma saves_loop:
  assumes run: "\<And>a p. f a p = (if c p then pbind p_advance (\<lambda>_. pbind m (\<lambda>x. f (g a x))) p else Inr (a, p))"
    and m: "eats m"
  shows "saves (f a)"
proof -
  have "left p' \<le> left p" if "f a p = Inr (x, p')" for a p x p'
    using that
  proof (induction p arbitrary: a rule: measure_induct_rule [where f = left])
    case (less p)
    show ?case
    proof (cases "c p")
      case True
      with less(2) run [of a p] obtain u q y r where s: "p_advance p = Inr (u, q)" "m q = Inr (y, r)"
          "f (g a y) r = Inr (x, p')"
        by (auto simp: pbind_Inr)
      have "left r < left p" using savesD [OF saves_advance s(1)] eatsD [OF m s(2)] by simp
      with less(1) [OF _ s(3)] show ?thesis by simp
    next
      case False
      with less(2) run [of a p] show ?thesis by simp
    qed
  qed
  then show ?thesis by (simp add: saves_def)
qed

lemma saves_params_more [input_intros]: "saves (parse_params_more ps)"
  by (rule saves_loop [where m = parse_param and g = "\<lambda>ps x. ps @ [x]"])
    (subst parse_params_more.simps, simp_all add: eats_parse_param)

lemma saves_throws_more [input_intros]: "saves (parse_throws_more es)"
  by (rule saves_loop [where m = "expect Identifier ''Expected error type''" and g = "\<lambda>es x. es @ [t_value x]"])
    (subst parse_throws_more.simps, simp_all add: eats_expect)

lemma saves_parse_params [input_intros]: "saves parse_params"
proof -
  have "saves (pbind parse_param (\<lambda>x. parse_params_more [x]))"
    by (intro input_intros eats_saves [OF eats_parse_param])
  then show ?thesis by (auto simp: saves_def parse_params_def)
qed

lemma saves_parse_throws [input_intros]: "saves parse_throws"
proof -
  have "saves (pbind p_advance (\<lambda>_. pbind (expect Identifier ''Expected error type'') (\<lambda>t. parse_throws_more [t_value t])))"
    by (intro input_intros) simp
  then show ?thesis by (auto simp: saves_def parse_throws_def)
qed

section \<open>Members\<close>

definition parse_field :: "field_def pm" where
  "parse_field = pbind current_loc (\<lambda>loc. pbind take_doc (\<lambda>doc. pbind parse_type (\<lambda>t.
    pbind (expect Identifier ''Expected field name'') (\<lambda>name.
    pbind (expect Semicolon ''Expected ';' after field'') (\<lambda>_.
    pret \<lparr>fd_name = t_value name, fd_type = t, fd_doc = doc, fd_loc = loc\<rparr>)))))"

definition parse_enum_value :: "i64 option pm" where
  "parse_enum_value p =
    (if check Equals p
     then pbind p_advance (\<lambda>_. pbind (expect Integer ''Expected integer value'') (\<lambda>value.
       pret (Some (t_int_value value)))) p
     else Inr (None, p))"

definition parse_enum_item :: "enum_item pm" where
  "parse_enum_item = pbind current_loc (\<lambda>loc. pbind take_doc (\<lambda>doc.
    pbind (expect Identifier ''Expected enum item name'') (\<lambda>name.
    pbind parse_enum_value (\<lambda>value.
    pret \<lparr>ei_name = t_value name, ei_value = value, ei_doc = doc, ei_loc = loc\<rparr>))))"

definition parse_readonly :: "bool pm" where
  "parse_readonly p = (if check KwReadonly p then pbind p_advance (\<lambda>_. pret True) p else Inr (False, p))"

definition parse_property :: "property_def pm" where
  "parse_property = pbind current_loc (\<lambda>loc. pbind take_doc (\<lambda>doc. pbind parse_readonly (\<lambda>readonly.
    pbind parse_type (\<lambda>t. pbind (expect Identifier ''Expected property name'') (\<lambda>name.
    pbind (expect Semicolon ''Expected ';' after property'') (\<lambda>_.
    pret \<lparr>pr_name = t_value name, pr_type = t, pr_readonly = readonly, pr_doc = doc, pr_loc = loc\<rparr>))))))"

definition parse_constructor :: "constructor_def pm" where
  "parse_constructor = pbind current_loc (\<lambda>loc. pbind take_doc (\<lambda>doc.
    pbind (expect Identifier ''Expected constructor name'') (\<lambda>_.
    pbind (expect LParen ''Expected '(' after constructor name'') (\<lambda>_.
    pbind parse_params (\<lambda>params.
    pbind (expect RParen ''Expected ')' after parameters'') (\<lambda>_.
    pbind (expect Semicolon ''Expected ';' after constructor'') (\<lambda>_.
    pret \<lparr>ct_params = params, ct_doc = doc, ct_loc = loc\<rparr>)))))))"

text \<open>The part of a method from its opening parenthesis, which \<^verbatim>\<open>parse_class\<close> repeats for the
  methods whose name it has already read.\<close>

definition parse_method_rest :: "string \<Rightarrow> string \<Rightarrow> source_loc \<Rightarrow> bool \<Rightarrow> bool \<Rightarrow> method_def pm" where
  "parse_method_rest name doc loc is_optional is_stream =
    pbind (expect LParen ''Expected '(' after method name'') (\<lambda>_.
    pbind parse_params (\<lambda>params.
    pbind (expect RParen ''Expected ')' after parameters'') (\<lambda>_.
    pbind (expect Arrow ''Expected '->' after parameters'') (\<lambda>_.
    pbind parse_type (\<lambda>return_type.
    pbind parse_throws (\<lambda>throws.
    pbind (expect Semicolon ''Expected ';' after method'') (\<lambda>_.
    pret \<lparr>md_name = name, md_params = params, md_return = return_type, md_is_optional = is_optional,
      md_is_stream = is_stream, md_throws = throws, md_doc = doc, md_loc = loc\<rparr>)))))))"

definition parse_modifier :: "(bool \<times> bool) pm" where
  "parse_modifier p =
    (if check KwOptional p then pbind p_advance (\<lambda>_. pret (True, False)) p
     else if check KwStream p then pbind p_advance (\<lambda>_. pret (False, True)) p
     else Inr ((False, False), p))"

definition parse_method :: "method_def pm" where
  "parse_method = pbind current_loc (\<lambda>loc. pbind take_doc (\<lambda>doc.
    pbind parse_modifier (\<lambda>(is_optional, is_stream).
    pbind (expect Identifier ''Expected method name'') (\<lambda>name.
    parse_method_rest (t_value name) doc loc is_optional is_stream))))"

lemma saves_cond: "saves m \<Longrightarrow> saves (\<lambda>p. if c p then m p else Inr (x, p))"
  by (simp add: saves_def)

lemma saves_parse_enum_value [input_intros]: "saves parse_enum_value"
  unfolding parse_enum_value_def by (intro saves_cond input_intros) simp

lemma saves_parse_readonly [input_intros]: "saves parse_readonly"
  unfolding parse_readonly_def by (intro saves_cond input_intros)

lemma saves_parse_modifier [input_intros]: "saves parse_modifier"
  unfolding parse_modifier_def by (intro saves_if saves_cond input_intros)

lemmas saves_parse_type [input_intros] = eats_saves [OF eats_parse_type]

lemma eats_parse_field: "eats parse_field"
  unfolding parse_field_def
  by (rule eats_pbind_then [OF saves_current_loc], rule eats_pbind_then [OF saves_take_doc])
    (intro eats_pbind_first eats_parse_type input_intros; simp)

lemma eats_parse_enum_item: "eats parse_enum_item"
  unfolding parse_enum_item_def
  by (rule eats_pbind_then [OF saves_current_loc], rule eats_pbind_then [OF saves_take_doc])
    (intro eats_pbind_first eats_expect input_intros; simp)

lemma eats_parse_property: "eats parse_property"
  unfolding parse_property_def
  by (rule eats_pbind_then [OF saves_current_loc], rule eats_pbind_then [OF saves_take_doc],
      rule eats_pbind_then [OF saves_parse_readonly])
    (intro eats_pbind_first eats_parse_type input_intros; simp)

lemma eats_parse_constructor: "eats parse_constructor"
  unfolding parse_constructor_def
  by (rule eats_pbind_then [OF saves_current_loc], rule eats_pbind_then [OF saves_take_doc])
    (intro eats_pbind_first eats_expect input_intros; simp)

lemma eats_parse_method_rest: "eats (parse_method_rest name doc loc opt str)"
  unfolding parse_method_rest_def by (intro eats_pbind_first eats_expect input_intros; simp)

lemma eats_parse_method: "eats parse_method"
  unfolding parse_method_def
  by (intro eats_pbind_then [OF saves_current_loc] eats_pbind_then [OF saves_take_doc]
      eats_pbind_then [OF saves_parse_modifier])
    (auto intro!: eats_pbind_first eats_expect eats_saves [OF eats_parse_method_rest])

section \<open>Definitions\<close>

definition parse_base :: "string \<Rightarrow> string option pm" where
  "parse_base msg p =
    (if check Colon p
     then pbind p_advance (\<lambda>_. pbind (expect Identifier msg) (\<lambda>base. pret (Some (t_value base)))) p
     else Inr (None, p))"

text \<open>The loops over the members of a definition: until the closing brace or the end.\<close>

function parse_fields :: "field_def list \<Rightarrow> field_def list pm" where
  "parse_fields fs p =
    (if \<not> check RBrace p \<and> \<not> p_at_end p then pbind parse_field (\<lambda>f. parse_fields (fs @ [f])) p
     else Inr (fs, p))"
  by pat_completeness auto
termination
  by (relation "measure (\<lambda>(fs, p). left p)") (auto dest!: eatsD [OF eats_parse_field])

declare parse_fields.simps [simp del]

definition parse_struct :: "struct_def pm" where
  "parse_struct = pbind current_loc (\<lambda>loc. pbind take_doc (\<lambda>doc.
    pbind (expect KwStruct (''Expected '' @ in_quotes ''struct'')) (\<lambda>_.
    pbind (expect Identifier ''Expected struct name'') (\<lambda>name.
    pbind (parse_base ''Expected base type name'') (\<lambda>base.
    pbind (expect LBrace ''Expected '{' after struct name'') (\<lambda>_.
    pbind (parse_fields []) (\<lambda>fields.
    pbind (expect RBrace ''Expected '}' at end of struct'') (\<lambda>_.
    pret \<lparr>sd_name = t_value name, sd_base = base, sd_fields = fields, sd_doc = doc, sd_loc = loc\<rparr>))))))))"

function parse_enum_items_more :: "enum_item list \<Rightarrow> enum_item list pm" where
  "parse_enum_items_more es p =
    (if check Comma p
     then pbind p_advance (\<lambda>_. (\<lambda>q.
       if check RBrace q then Inr (es, q)
       else pbind parse_enum_item (\<lambda>e. parse_enum_items_more (es @ [e])) q)) p
     else Inr (es, p))"
  by pat_completeness auto
termination
  by (relation "measure (\<lambda>(fs, p). left p)")
    (auto dest!: eatsD [OF eats_parse_enum_item] savesD [OF saves_advance])

declare parse_enum_items_more.simps [simp del]

definition parse_enum_items :: "enum_item list pm" where
  "parse_enum_items p =
    (if \<not> check RBrace p then pbind parse_enum_item (\<lambda>e. parse_enum_items_more [e]) p else Inr ([], p))"

definition parse_enum :: "bool \<Rightarrow> enum_def pm" where
  "parse_enum is_flags = pbind current_loc (\<lambda>loc. pbind take_doc (\<lambda>doc.
    pbind (if is_flags then expect KwFlags (''Expected '' @ in_quotes ''flags'')
           else expect KwEnum (''Expected '' @ in_quotes ''enum'')) (\<lambda>_.
    pbind (expect Identifier ''Expected enum name'') (\<lambda>name.
    pbind (expect LBrace ''Expected '{' after enum name'') (\<lambda>_.
    pbind parse_enum_items (\<lambda>items.
    pbind (expect RBrace ''Expected '}' at end of enum'') (\<lambda>_.
    pret \<lparr>ed_name = t_value name, ed_items = items, ed_is_flags = is_flags, ed_doc = doc, ed_loc = loc\<rparr>)))))))"

text \<open>\<^verbatim>\<open>if (x.doc.empty()) x.doc = doc\<close>.\<close>

definition or_doc :: "string \<Rightarrow> string \<Rightarrow> string" where
  "or_doc own doc = (if own = [] then doc else own)"

function parse_service_methods :: "method_def list \<Rightarrow> method_def list pm" where
  "parse_service_methods ms p =
    (if \<not> check RBrace p \<and> \<not> p_at_end p
     then pbind take_doc (\<lambda>doc. pbind parse_method (\<lambda>m.
       parse_service_methods (ms @ [m\<lparr>md_doc := or_doc (md_doc m) doc\<rparr>]))) p
     else Inr (ms, p))"
  by pat_completeness auto
termination
  by (relation "measure (\<lambda>(fs, p). left p)")
    (auto dest!: eatsD [OF eats_parse_method] savesD [OF saves_take_doc])

declare parse_service_methods.simps [simp del]

definition parse_service :: "service_def pm" where
  "parse_service = pbind current_loc (\<lambda>loc. pbind take_doc (\<lambda>doc.
    pbind (expect KwService (''Expected '' @ in_quotes ''service'')) (\<lambda>_.
    pbind (expect Identifier ''Expected service name'') (\<lambda>name.
    pbind (expect LBrace ''Expected '{' after service name'') (\<lambda>_.
    pbind (parse_service_methods []) (\<lambda>methods.
    pbind (expect RBrace ''Expected '}' at end of service'') (\<lambda>_.
    pret \<lparr>sv_name = t_value name, sv_methods = methods, sv_doc = doc, sv_loc = loc\<rparr>)))))))"

definition parse_error :: "error_def pm" where
  "parse_error = pbind current_loc (\<lambda>loc. pbind take_doc (\<lambda>doc.
    pbind (expect KwError (''Expected '' @ in_quotes ''error'')) (\<lambda>_.
    pbind (expect Identifier ''Expected error name'') (\<lambda>name.
    pbind (parse_base ''Expected base error type name'') (\<lambda>base.
    pbind (expect LBrace ''Expected '{' after error name'') (\<lambda>_.
    pbind (parse_fields []) (\<lambda>fields.
    pbind (expect RBrace ''Expected '}' at end of error'') (\<lambda>_.
    pret \<lparr>er_name = t_value name, er_base = base, er_fields = fields, er_doc = doc, er_loc = loc\<rparr>))))))))"

text \<open>A member that begins with an identifier other than the class's name: a method, whose
  modifiers are then absent, or a property of a user-defined type, whose brackets and optional
  mark the code expects behind the property's name.\<close>

definition parse_ident_member :: "string \<Rightarrow> (method_def + property_def) pm" where
  "parse_ident_member member_doc p =
    (let first_ident = t_value (p_token p) in
     pbind p_advance (\<lambda>_. (\<lambda>q.
       if check LParen q
       then pbind current_loc (\<lambda>loc. pbind (parse_method_rest first_ident member_doc loc False False)
         (\<lambda>m. pret (Inl m))) q
       else pbind (expect Identifier ''Expected property name'') (\<lambda>prop_name.
         pbind current_loc (\<lambda>loc.
         pbind (parse_brackets (type_of_base (User first_ident))) (\<lambda>t.
         pbind (parse_optional_mark t) (\<lambda>t.
         pbind (expect Semicolon ''Expected ';' after property'') (\<lambda>_.
         pret (Inr \<lparr>pr_name = t_value prop_name, pr_type = t, pr_readonly = False, pr_doc = member_doc,
           pr_loc = loc\<rparr>)))))) q)) p)"

definition parse_primitive_property :: "string \<Rightarrow> property_def pm" where
  "parse_primitive_property member_doc =
    pbind parse_type (\<lambda>t. pbind (expect Identifier ''Expected property name'') (\<lambda>name.
    pbind current_loc (\<lambda>loc. pbind (expect Semicolon ''Expected ';' after property'') (\<lambda>_.
    pret \<lparr>pr_name = t_value name, pr_type = t, pr_readonly = False, pr_doc = member_doc, pr_loc = loc\<rparr>))))"

definition add_property :: "property_def \<Rightarrow> class_def \<Rightarrow> class_def" where
  "add_property x d = d\<lparr>cd_properties := cd_properties d @ [x]\<rparr>"

definition add_constructor :: "constructor_def \<Rightarrow> class_def \<Rightarrow> class_def" where
  "add_constructor x d = d\<lparr>cd_constructors := cd_constructors d @ [x]\<rparr>"

definition add_method :: "method_def \<Rightarrow> class_def \<Rightarrow> class_def" where
  "add_method x d = d\<lparr>cd_methods := cd_methods d @ [x]\<rparr>"

text \<open>One round of the loop over the members.\<close>

definition parse_member :: "class_def \<Rightarrow> class_def pm" where
  "parse_member d = pbind take_doc (\<lambda>member_doc. (\<lambda>p.
     if check KwReadonly p
     then pbind parse_property (\<lambda>x. pret (add_property (x\<lparr>pr_doc := or_doc (pr_doc x) member_doc\<rparr>) d)) p
     else if check Identifier p \<and> t_value (p_token p) = cd_name d
     then pbind parse_constructor (\<lambda>x. pret (add_constructor (x\<lparr>ct_doc := or_doc (ct_doc x) member_doc\<rparr>) d)) p
     else if check KwStream p \<or> check KwOptional p
     then pbind parse_method (\<lambda>x. pret (add_method (x\<lparr>md_doc := or_doc (md_doc x) member_doc\<rparr>) d)) p
     else if check Identifier p
     then pbind (parse_ident_member member_doc)
       (\<lambda>x. pret (case x of Inl m \<Rightarrow> add_method m d | Inr r \<Rightarrow> add_property r d)) p
     else if is_primitive_type p
     then pbind (parse_primitive_property member_doc) (\<lambda>x. pret (add_property x d)) p
     else parse_fail ''Expected property, constructor, or method in class'' p))"

lemma eats_parse_ident_member: "\<not> p_at_end p \<Longrightarrow> parse_ident_member doc p = Inr (x, p') \<Longrightarrow> left p' < left p"
proof -
  assume ne: "\<not> p_at_end p" and run: "parse_ident_member doc p = Inr (x, p')"
  let ?id = "t_value (p_token p)"
  let ?m = "pbind current_loc (\<lambda>loc. pbind (parse_method_rest ?id doc loc False False) (\<lambda>m. pret (Inl m)))"
  let ?r = "pbind (expect Identifier ''Expected property name'') (\<lambda>prop_name.
         pbind current_loc (\<lambda>loc.
         pbind (parse_brackets (type_of_base (User ?id))) (\<lambda>t.
         pbind (parse_optional_mark t) (\<lambda>t.
         pbind (expect Semicolon ''Expected ';' after property'') (\<lambda>_.
         pret (Inr \<lparr>pr_name = t_value prop_name, pr_type = t, pr_readonly = False, pr_doc = doc, pr_loc = loc\<rparr>))))))"
  have m: "saves ?m" by (intro input_intros eats_saves [OF eats_parse_method_rest])
  have r: "saves ?r" by (intro input_intros; simp)
  from run obtain u q where q: "p_advance p = Inr (u, q)" "?m q = Inr (x, p') \<or> ?r q = Inr (x, p')"
    by (auto simp: parse_ident_member_def Let_def pbind_Inr split: if_splits)
  from q(2) have "left p' \<le> left q" using savesD [OF m] savesD [OF r] by blast
  with advance_less [OF q(1) ne] show ?thesis by simp
qed

lemma eats_parse_primitive_property: "eats (parse_primitive_property doc)"
  unfolding parse_primitive_property_def
  by (intro eats_pbind_first eats_parse_type input_intros; simp)

lemma eats_parse_member: "eats (parse_member d)"
proof -
  have "left p' < left p" if run: "parse_member d p = Inr (x, p')" for p x p'
  proof -
    let ?q = "p\<lparr>p_doc := []\<rparr>"
    have l: "left ?q = left p" by (simp add: left_def p_at_end_def)
    from run consider (a) y where "parse_property ?q = Inr (y, p')" | (b) y where "parse_constructor ?q = Inr (y, p')"
      | (c) y where "parse_method ?q = Inr (y, p')"
      | (d) y where "check Identifier ?q" "parse_ident_member (p_doc p) ?q = Inr (y, p')"
      | (e) y where "parse_primitive_property (p_doc p) ?q = Inr (y, p')"
      by (auto simp: parse_member_def pbind_Inr take_doc_def pret_def parse_fail_def split: if_splits)
    then show ?thesis
    proof cases
      case a then show ?thesis using eatsD [OF eats_parse_property] l by metis
    next
      case b then show ?thesis using eatsD [OF eats_parse_constructor] l by metis
    next
      case c then show ?thesis using eatsD [OF eats_parse_method] l by metis
    next
      case d then show ?thesis
        using eats_parse_ident_member [OF _ d(2)] l by (simp add: check_def p_at_end_def)
    next
      case e then show ?thesis using eatsD [OF eats_parse_primitive_property] l by metis
    qed
  qed
  then show ?thesis by (simp add: eats_def)
qed

function parse_members :: "class_def \<Rightarrow> class_def pm" where
  "parse_members d p =
    (if \<not> check RBrace p \<and> \<not> p_at_end p then pbind (parse_member d) parse_members p
     else Inr (d, p))"
  by pat_completeness auto
termination
  by (relation "measure (\<lambda>(fs, p). left p)") (auto dest!: eatsD [OF eats_parse_member])

declare parse_members.simps [simp del]

definition parse_class :: "class_def pm" where
  "parse_class = pbind current_loc (\<lambda>loc. pbind take_doc (\<lambda>doc.
    pbind (expect KwClass (''Expected '' @ in_quotes ''class'')) (\<lambda>_.
    pbind (expect Identifier ''Expected class name'') (\<lambda>name.
    pbind (parse_base ''Expected base type name'') (\<lambda>base.
    pbind (expect LBrace ''Expected '{' after class name'') (\<lambda>_.
    pbind (parse_members \<lparr>cd_name = t_value name, cd_base = base, cd_properties = [], cd_constructors = [],
      cd_methods = [], cd_doc = doc, cd_loc = loc\<rparr>) (\<lambda>d.
    pbind (expect RBrace ''Expected '}' at end of class'') (\<lambda>_. pret d))))))))"

section \<open>The file\<close>

definition parse_namespace :: "namespace_def pm" where
  "parse_namespace = pbind current_loc (\<lambda>loc.
    pbind (expect KwNamespace (''Expected '' @ in_quotes ''namespace'')) (\<lambda>_.
    pbind (expect Identifier ''Expected namespace name'') (\<lambda>name.
    pbind (expect Semicolon ''Expected ';' after namespace'') (\<lambda>_.
    pret \<lparr>ns_name = t_value name, ns_enums = [], ns_structs = [], ns_classes = [], ns_services = [],
      ns_errors = [], ns_loc = loc\<rparr>))))"

definition parse_definition :: "namespace_def \<Rightarrow> namespace_def pm" where
  "parse_definition ns = pbind take_doc (\<lambda>doc. (\<lambda>p.
     if check KwStruct p
     then pbind parse_struct (\<lambda>x. pret (ns\<lparr>ns_structs := ns_structs ns @ [x\<lparr>sd_doc := or_doc (sd_doc x) doc\<rparr>]\<rparr>)) p
     else if check KwEnum p
     then pbind (parse_enum False) (\<lambda>x. pret (ns\<lparr>ns_enums := ns_enums ns @ [x\<lparr>ed_doc := or_doc (ed_doc x) doc\<rparr>]\<rparr>)) p
     else if check KwFlags p
     then pbind (parse_enum True) (\<lambda>x. pret (ns\<lparr>ns_enums := ns_enums ns @ [x\<lparr>ed_doc := or_doc (ed_doc x) doc\<rparr>]\<rparr>)) p
     else if check KwClass p
     then pbind parse_class (\<lambda>x. pret (ns\<lparr>ns_classes := ns_classes ns @ [x\<lparr>cd_doc := or_doc (cd_doc x) doc\<rparr>]\<rparr>)) p
     else if check KwService p
     then pbind parse_service (\<lambda>x. pret (ns\<lparr>ns_services := ns_services ns @ [x\<lparr>sv_doc := or_doc (sv_doc x) doc\<rparr>]\<rparr>)) p
     else if check KwError p
     then pbind parse_error (\<lambda>x. pret (ns\<lparr>ns_errors := ns_errors ns @ [x\<lparr>er_doc := or_doc (er_doc x) doc\<rparr>]\<rparr>)) p
     else parse_fail ''Expected definition (struct, enum, flags, class, service, or error)'' p))"

lemma saves_member_loop:
  assumes run: "\<And>a p. f a p = (if c p then pbind (m a) f p else Inr (h a, p))"
    and m: "\<And>a. eats (m a)"
  shows "saves (f a)"
proof -
  have "left p' \<le> left p" if "f a p = Inr (x, p')" for a p x p'
    using that
  proof (induction p arbitrary: a rule: measure_induct_rule [where f = left])
    case (less p)
    show ?case
    proof (cases "c p")
      case True
      with less(2) run [of a p] obtain y r where s: "m a p = Inr (y, r)" "f y r = Inr (x, p')"
        by (auto simp: pbind_Inr)
      with less(1) [OF _ s(2)] eatsD [OF m s(1)] show ?thesis by simp
    next
      case False
      with less(2) run [of a p] show ?thesis by simp
    qed
  qed
  then show ?thesis by (simp add: saves_def)
qed

lemma pbind_pret: "pbind (pbind m (\<lambda>x. pret (g x))) f = pbind m (\<lambda>x. f (g x))"
  by (auto simp: fun_eq_iff pbind_apply pret_def split: sum.splits)

lemma saves_parse_fields [input_intros]: "saves (parse_fields fs)"
  by (rule saves_member_loop [where c = "\<lambda>p. \<not> check RBrace p \<and> \<not> p_at_end p" and m = "\<lambda>fs. pbind parse_field (\<lambda>f. pret (fs @ [f]))" and h = "\<lambda>x. x"])
    (subst parse_fields.simps, auto simp: pbind_pret intro: eats_pbind_first eats_parse_field saves_pret)

lemma pbind_assoc: "pbind (pbind m k) h = pbind m (\<lambda>x. pbind (k x) h)"
  by (auto simp: fun_eq_iff pbind_apply split: sum.splits)

lemma saves_parse_service_methods [input_intros]: "saves (parse_service_methods ms)"
  by (rule saves_member_loop [where c = "\<lambda>p. \<not> check RBrace p \<and> \<not> p_at_end p" and m = "\<lambda>ms. pbind take_doc (\<lambda>doc. pbind parse_method (\<lambda>m.
        pret (ms @ [m\<lparr>md_doc := or_doc (md_doc m) doc\<rparr>])))" and h = "\<lambda>x. x"])
    (subst parse_service_methods.simps,
      auto simp: pbind_pret pbind_assoc intro!: eats_pbind_then [OF saves_take_doc] eats_pbind_first eats_parse_method saves_pret)

lemma saves_parse_members [input_intros]: "saves (parse_members d)"
  by (rule saves_member_loop [where c = "\<lambda>p. \<not> check RBrace p \<and> \<not> p_at_end p" and m = parse_member and h = "\<lambda>x. x"])
    (subst parse_members.simps, simp_all add: eats_parse_member)

lemma saves_parse_enum_items [input_intros]: "saves parse_enum_items"
proof -
  have more: "left p' \<le> left p" if "parse_enum_items_more es p = Inr (x, p')" for es p x p'
    using that
  proof (induction es p rule: parse_enum_items_more.induct)
    case (1 es p)
    note run = 1(2) [unfolded parse_enum_items_more.simps [of es p]]
    show ?case
    proof (cases "check Comma p")
      case True
      with run obtain u q where q: "p_advance p = Inr (u, q)" by (auto simp: pbind_Inr)
      note le = savesD [OF saves_advance q]
      show ?thesis
      proof (cases "check RBrace q")
        case True
        with run q le \<open>check Comma p\<close> show ?thesis by (auto simp: pbind_Inr)
      next
        case False
        with run q \<open>check Comma p\<close> obtain e r where r: "parse_enum_item q = Inr (e, r)"
            "parse_enum_items_more (es @ [e]) r = Inr (x, p')"
          by (auto simp: pbind_Inr)
        with 1(1) [OF \<open>check Comma p\<close> q False r(1)] le eatsD [OF eats_parse_enum_item r(1)] show ?thesis by simp
      qed
    next
      case False
      with run show ?thesis by simp
    qed
  qed
  have "saves (pbind parse_enum_item (\<lambda>e. parse_enum_items_more [e]))"
    using more by (intro input_intros eats_saves [OF eats_parse_enum_item]) (auto simp: saves_def)
  then show ?thesis by (auto simp: saves_def parse_enum_items_def)
qed

lemma saves_parse_base [input_intros]: "saves (parse_base msg)"
proof -
  have "saves (pbind p_advance (\<lambda>_. pbind (expect Identifier msg) (\<lambda>base. pret (Some (t_value base)))))"
    by (intro input_intros) simp
  then show ?thesis by (auto simp: saves_def parse_base_def)
qed

text \<open>Every definition begins with its keyword.\<close>

lemma eats_definition:
  "eats m \<Longrightarrow> (\<And>loc doc t. saves (k loc doc t))
    \<Longrightarrow> eats (pbind current_loc (\<lambda>loc. pbind take_doc (\<lambda>doc. pbind m (k loc doc))))"
  by (rule eats_pbind_then [OF saves_current_loc], rule eats_pbind_then [OF saves_take_doc], rule eats_pbind_first)

lemma eats_parse_struct: "eats parse_struct"
  unfolding parse_struct_def by (rule eats_definition) (auto intro!: eats_expect input_intros)

lemma eats_parse_enum: "eats (parse_enum b)"
  unfolding parse_enum_def by (rule eats_definition) (auto intro!: eats_expect input_intros)

lemma eats_parse_class: "eats parse_class"
  unfolding parse_class_def by (rule eats_definition) (auto intro!: eats_expect input_intros)

lemma eats_parse_service: "eats parse_service"
  unfolding parse_service_def by (rule eats_definition) (auto intro!: eats_expect input_intros)

lemma eats_parse_error: "eats parse_error"
  unfolding parse_error_def by (rule eats_definition) (auto intro!: eats_expect input_intros)

lemmas eats_definitions = eats_parse_struct eats_parse_enum eats_parse_class eats_parse_service eats_parse_error

lemma eats_parse_definition: "eats (parse_definition ns)"
  unfolding parse_definition_def
  by (intro eats_pbind_then [OF saves_take_doc] eats_if eats_fail eats_pbind_first saves_pret eats_definitions)

function parse_definitions :: "namespace_def \<Rightarrow> namespace_def pm" where
  "parse_definitions ns p =
    (if \<not> p_at_end p then pbind (parse_definition ns) parse_definitions p else Inr (ns, p))"
  by pat_completeness auto
termination
  by (relation "measure (\<lambda>(fs, p). left p)") (auto dest!: eatsD [OF eats_parse_definition])

declare parse_definitions.simps [simp del]

definition parse_ast :: "ast pm" where
  "parse_ast = pbind parse_namespace (\<lambda>ns. pbind (parse_definitions ns) (\<lambda>ns.
    pret \<lparr>ast_namespaces = [ns]\<rparr>))"

definition parse :: "string \<Rightarrow> compile_error + ast" where
  "parse input = (case parser_new input of
      Inl e \<Rightarrow> Inl e
    | Inr p \<Rightarrow> (case parse_ast p of Inl e \<Rightarrow> Inl e | Inr (a, p') \<Rightarrow> Inr a))"

end
