(* ===== verification/Song_Print.thy ===== *)
theory Song_Print
  imports Song_Parser
begin

text \<open>
  A printer for the abstract syntax, the well-formedness of what can be printed, and the
  equality of syntax up to source locations: what the theorems on the parser are stated with.
\<close>

section \<open>Printing\<close>

definition symb :: "token_type \<Rightarrow> lexeme" where
  "symb ty = (ty, token_type_to_string ty, 0)"

definition ident :: "string \<Rightarrow> lexeme" where
  "ident v = (Identifier, v, 0)"

definition number :: "i64 \<Rightarrow> lexeme" where
  "number i = (Integer, dec_string (unat i), i)"

fun doc_lines :: "string \<Rightarrow> string list" where
  "doc_lines [] = [[]]"
| "doc_lines (c # cs) = (if c = newline then [] # doc_lines cs
     else (c # hd (doc_lines cs)) # tl (doc_lines cs))"

definition pp_doc :: "string \<Rightarrow> lexeme list" where
  "pp_doc d = (if d = [] then [] else map (\<lambda>l. (DocComment, l, 0)) (doc_lines d))"

fun primitive_token :: "primitive_type \<Rightarrow> token_type" where
  "primitive_token PBool = KwBool"
| "primitive_token PI8 = KwI8"
| "primitive_token PI16 = KwI16"
| "primitive_token PI32 = KwI32"
| "primitive_token PI64 = KwI64"
| "primitive_token PU8 = KwU8"
| "primitive_token PU16 = KwU16"
| "primitive_token PU32 = KwU32"
| "primitive_token PU64 = KwU64"
| "primitive_token PF32 = KwF32"
| "primitive_token PF64 = KwF64"
| "primitive_token PString = KwString"
| "primitive_token PBytes = KwBytes"
| "primitive_token PVoid = KwVoid"

fun pp_base :: "base_type \<Rightarrow> lexeme" where
  "pp_base (Primitive p) = symb (primitive_token p)"
| "pp_base (User n) = ident n"

definition pp_marks :: "idl_type \<Rightarrow> lexeme list" where
  "pp_marks t = concat (replicate (ty_dims t) [symb LBracket, symb RBracket])
    @ (if ty_is_optional t then [symb Question] else [])"

definition pp_type :: "idl_type \<Rightarrow> lexeme list" where
  "pp_type t = pp_base (ty_base t) # pp_marks t"

definition pp_param :: "param \<Rightarrow> lexeme list" where
  "pp_param x = pp_type (pm_type x) @ [ident (pm_name x)]"

fun commas :: "lexeme list list \<Rightarrow> lexeme list" where
  "commas [] = []"
| "commas (x # xs) = x @ concat (map (\<lambda>y. symb Comma # y) xs)"

definition pp_params :: "param list \<Rightarrow> lexeme list" where
  "pp_params ps = symb LParen # commas (map pp_param ps) @ [symb RParen]"

text \<open>The members are printed without their documentation, which \<open>documented\<close> puts in front.\<close>

definition documented :: "string \<Rightarrow> lexeme list \<Rightarrow> lexeme list" where
  "documented d ts = pp_doc d @ ts"

definition pp_field :: "field_def \<Rightarrow> lexeme list" where
  "pp_field f = pp_type (fd_type f) @ [ident (fd_name f), symb Semicolon]"

definition pp_fields :: "field_def list \<Rightarrow> lexeme list" where
  "pp_fields fs = concat (map (\<lambda>f. documented (fd_doc f) (pp_field f)) fs)"

definition pp_item :: "enum_item \<Rightarrow> lexeme list" where
  "pp_item e = ident (ei_name e) # (case ei_value e of None \<Rightarrow> [] | Some v \<Rightarrow> [symb Equals, number v])"

definition pp_inherited :: "string option \<Rightarrow> lexeme list" where
  "pp_inherited b = (case b of None \<Rightarrow> [] | Some n \<Rightarrow> [symb Colon, ident n])"

definition pp_struct :: "struct_def \<Rightarrow> lexeme list" where
  "pp_struct s = [symb KwStruct, ident (sd_name s)] @ pp_inherited (sd_base s) @ [symb LBrace]
    @ pp_fields (sd_fields s) @ [symb RBrace]"

definition pp_error :: "error_def \<Rightarrow> lexeme list" where
  "pp_error s = [symb KwError, ident (er_name s)] @ pp_inherited (er_base s) @ [symb LBrace]
    @ pp_fields (er_fields s) @ [symb RBrace]"

definition pp_enum :: "enum_def \<Rightarrow> lexeme list" where
  "pp_enum e = [symb (if ed_is_flags e then KwFlags else KwEnum), ident (ed_name e), symb LBrace]
    @ commas (map (\<lambda>x. documented (ei_doc x) (pp_item x)) (ed_items e)) @ [symb RBrace]"

definition pp_throws :: "string list \<Rightarrow> lexeme list" where
  "pp_throws es = (if es = [] then [] else symb KwThrows # commas (map (\<lambda>e. [ident e]) es))"

definition pp_method_rest :: "method_def \<Rightarrow> lexeme list" where
  "pp_method_rest m = pp_params (md_params m) @ [symb Arrow] @ pp_type (md_return m)
    @ pp_throws (md_throws m) @ [symb Semicolon]"

definition pp_method :: "method_def \<Rightarrow> lexeme list" where
  "pp_method m = (if md_is_optional m then [symb KwOptional] else if md_is_stream m then [symb KwStream] else [])
    @ [ident (md_name m)] @ pp_method_rest m"

definition pp_methods :: "method_def list \<Rightarrow> lexeme list" where
  "pp_methods ms = concat (map (\<lambda>m. documented (md_doc m) (pp_method m)) ms)"

definition pp_service :: "service_def \<Rightarrow> lexeme list" where
  "pp_service s = [symb KwService, ident (sv_name s), symb LBrace] @ pp_methods (sv_methods s) @ [symb RBrace]"

text \<open>A writable property of a user-defined type has its brackets and optional mark behind the
  name, as the parser wants them.\<close>

definition pp_property :: "property_def \<Rightarrow> lexeme list" where
  "pp_property x =
    (case (pr_readonly x, ty_base (pr_type x)) of
       (False, User n) \<Rightarrow> [ident n, ident (pr_name x)] @ pp_marks (pr_type x) @ [symb Semicolon]
     | (ro, _) \<Rightarrow> (if ro then [symb KwReadonly] else []) @ pp_type (pr_type x) @ [ident (pr_name x), symb Semicolon])"

definition pp_constructor :: "string \<Rightarrow> constructor_def \<Rightarrow> lexeme list" where
  "pp_constructor name c = ident name # pp_params (ct_params c) @ [symb Semicolon]"

definition pp_class :: "class_def \<Rightarrow> lexeme list" where
  "pp_class c = [symb KwClass, ident (cd_name c)] @ pp_inherited (cd_base c) @ [symb LBrace]
    @ concat (map (\<lambda>x. documented (pr_doc x) (pp_property x)) (cd_properties c))
    @ concat (map (\<lambda>x. documented (ct_doc x) (pp_constructor (cd_name c) x)) (cd_constructors c))
    @ pp_methods (cd_methods c) @ [symb RBrace]"

definition pp_namespace :: "namespace_def \<Rightarrow> lexeme list" where
  "pp_namespace n = [symb KwNamespace, ident (ns_name n), symb Semicolon]
    @ concat (map (\<lambda>x. documented (sd_doc x) (pp_struct x)) (ns_structs n))
    @ concat (map (\<lambda>x. documented (ed_doc x) (pp_enum x)) (ns_enums n))
    @ concat (map (\<lambda>x. documented (cd_doc x) (pp_class x)) (ns_classes n))
    @ concat (map (\<lambda>x. documented (sv_doc x) (pp_service x)) (ns_services n))
    @ concat (map (\<lambda>x. documented (er_doc x) (pp_error x)) (ns_errors n))"

definition pp_text :: "lexeme list \<Rightarrow> string" where
  "pp_text ts = concat (map spelled ts)"

section \<open>What can be printed\<close>

definition doc_ok :: "string \<Rightarrow> bool" where
  "doc_ok d = (d = [] \<or> hd d \<noteq> newline)"

definition type_ok :: "idl_type \<Rightarrow> bool" where
  "type_ok t = (ty_is_array t = (0 < ty_dims t) \<and> (case ty_base t of Primitive p \<Rightarrow> True | User n \<Rightarrow> is_identifier n))"

definition base_ok :: "string option \<Rightarrow> bool" where
  "base_ok b = (case b of None \<Rightarrow> True | Some n \<Rightarrow> is_identifier n)"

definition param_ok :: "param \<Rightarrow> bool" where
  "param_ok x = (is_identifier (pm_name x) \<and> type_ok (pm_type x))"

definition field_ok :: "field_def \<Rightarrow> bool" where
  "field_ok f = (is_identifier (fd_name f) \<and> type_ok (fd_type f) \<and> doc_ok (fd_doc f))"

definition item_ok :: "enum_item \<Rightarrow> bool" where
  "item_ok e = (is_identifier (ei_name e) \<and> doc_ok (ei_doc e)
    \<and> (case ei_value e of None \<Rightarrow> True | Some v \<Rightarrow> unat v < 2 ^ 63))"

definition struct_ok :: "struct_def \<Rightarrow> bool" where
  "struct_ok s = (is_identifier (sd_name s) \<and> base_ok (sd_base s) \<and> list_all field_ok (sd_fields s) \<and> doc_ok (sd_doc s))"

definition error_ok :: "error_def \<Rightarrow> bool" where
  "error_ok s = (is_identifier (er_name s) \<and> base_ok (er_base s) \<and> list_all field_ok (er_fields s) \<and> doc_ok (er_doc s))"

definition enum_ok :: "enum_def \<Rightarrow> bool" where
  "enum_ok e = (is_identifier (ed_name e) \<and> list_all item_ok (ed_items e) \<and> doc_ok (ed_doc e))"

definition method_ok :: "method_def \<Rightarrow> bool" where
  "method_ok m = (is_identifier (md_name m) \<and> list_all param_ok (md_params m) \<and> type_ok (md_return m)
    \<and> list_all is_identifier (md_throws m) \<and> \<not> (md_is_optional m \<and> md_is_stream m) \<and> doc_ok (md_doc m))"

definition property_ok :: "string \<Rightarrow> property_def \<Rightarrow> bool" where
  "property_ok cls x = (is_identifier (pr_name x) \<and> type_ok (pr_type x) \<and> doc_ok (pr_doc x)
    \<and> (pr_readonly x \<or> ty_base (pr_type x) \<noteq> User cls))"

definition constructor_ok :: "constructor_def \<Rightarrow> bool" where
  "constructor_ok c = (list_all param_ok (ct_params c) \<and> doc_ok (ct_doc c))"

text \<open>A method that has its class's name and no modifier would be read as a constructor.\<close>

definition class_ok :: "class_def \<Rightarrow> bool" where
  "class_ok c = (is_identifier (cd_name c) \<and> base_ok (cd_base c) \<and> doc_ok (cd_doc c)
    \<and> list_all (property_ok (cd_name c)) (cd_properties c) \<and> list_all constructor_ok (cd_constructors c)
    \<and> list_all (\<lambda>m. method_ok m \<and> (md_name m = cd_name c \<longrightarrow> md_is_optional m \<or> md_is_stream m)) (cd_methods c))"

definition service_ok :: "service_def \<Rightarrow> bool" where
  "service_ok s = (is_identifier (sv_name s) \<and> list_all method_ok (sv_methods s) \<and> doc_ok (sv_doc s))"

definition namespace_ok :: "namespace_def \<Rightarrow> bool" where
  "namespace_ok n = (is_identifier (ns_name n) \<and> list_all enum_ok (ns_enums n) \<and> list_all struct_ok (ns_structs n)
    \<and> list_all class_ok (ns_classes n) \<and> list_all service_ok (ns_services n) \<and> list_all error_ok (ns_errors n))"

section \<open>Locations apart\<close>

definition nowhere :: source_loc where
  "nowhere = \<lparr>loc_line = 0, loc_column = 0, loc_file = []\<rparr>"

definition erase_param :: "param \<Rightarrow> param" where "erase_param x = x\<lparr>pm_loc := nowhere\<rparr>"
definition erase_field :: "field_def \<Rightarrow> field_def" where "erase_field x = x\<lparr>fd_loc := nowhere\<rparr>"
definition erase_item :: "enum_item \<Rightarrow> enum_item" where "erase_item x = x\<lparr>ei_loc := nowhere\<rparr>"
definition erase_property :: "property_def \<Rightarrow> property_def" where "erase_property x = x\<lparr>pr_loc := nowhere\<rparr>"

definition erase_constructor :: "constructor_def \<Rightarrow> constructor_def" where
  "erase_constructor x = x\<lparr>ct_loc := nowhere, ct_params := map erase_param (ct_params x)\<rparr>"

definition erase_method :: "method_def \<Rightarrow> method_def" where
  "erase_method x = x\<lparr>md_loc := nowhere, md_params := map erase_param (md_params x)\<rparr>"

definition erase_struct :: "struct_def \<Rightarrow> struct_def" where
  "erase_struct x = x\<lparr>sd_loc := nowhere, sd_fields := map erase_field (sd_fields x)\<rparr>"

definition erase_error :: "error_def \<Rightarrow> error_def" where
  "erase_error x = x\<lparr>er_loc := nowhere, er_fields := map erase_field (er_fields x)\<rparr>"

definition erase_enum :: "enum_def \<Rightarrow> enum_def" where
  "erase_enum x = x\<lparr>ed_loc := nowhere, ed_items := map erase_item (ed_items x)\<rparr>"

definition erase_class :: "class_def \<Rightarrow> class_def" where
  "erase_class x = x\<lparr>cd_loc := nowhere, cd_properties := map erase_property (cd_properties x),
    cd_constructors := map erase_constructor (cd_constructors x), cd_methods := map erase_method (cd_methods x)\<rparr>"

definition erase_service :: "service_def \<Rightarrow> service_def" where
  "erase_service x = x\<lparr>sv_loc := nowhere, sv_methods := map erase_method (sv_methods x)\<rparr>"

definition erase_namespace :: "namespace_def \<Rightarrow> namespace_def" where
  "erase_namespace x = x\<lparr>ns_loc := nowhere, ns_enums := map erase_enum (ns_enums x),
    ns_structs := map erase_struct (ns_structs x), ns_classes := map erase_class (ns_classes x),
    ns_services := map erase_service (ns_services x), ns_errors := map erase_error (ns_errors x)\<rparr>"

end
