(* ===== verification/Song_Parse_Print.thy ===== *)
theory Song_Parse_Print
  imports Song_Print
begin

text \<open>
  The parser reads back what the printer writes: the lexer and the parser together are a left
  inverse of printing, locations apart. The triple \<open>parses m d ts Q d' us\<close> says that the parser
  \<open>m\<close>, with pending documentation \<open>d\<close> and the lexemes \<open>ts\<close> to come, returns a result that
  satisfies \<open>Q\<close> with \<open>d'\<close> pending and \<open>us\<close> to come.
\<close>

section \<open>What a parser sees\<close>

definition reads :: "lexer \<Rightarrow> lexeme list \<Rightarrow> bool" where
  "reads L ts \<longleftrightarrow> list_all lexeme_ok ts \<and> dropWhile is_space (lx_rest L) = concat (map spelled ts)"

fun absorb :: "string \<Rightarrow> lexeme list \<Rightarrow> string \<times> lexeme list" where
  "absorb d ((ty, v, i) # ts) =
    (if ty = DocComment then absorb ((if d = [] then d else d @ [newline]) @ v) ts else (d, (ty, v, i) # ts))"
| "absorb d [] = (d, [])"

definition la :: "lexeme list \<Rightarrow> token_type" where
  "la ts = (case ts of [] \<Rightarrow> Eof | l # us \<Rightarrow> fst l)"

definition sees :: "parser \<Rightarrow> string \<Rightarrow> lexeme list \<Rightarrow> bool" where
  "sees p d ts \<longleftrightarrow> p_doc p = d \<and> t_type (p_token p) = la ts \<and> la ts \<noteq> DocComment \<and>
    (case ts of [] \<Rightarrow> reads (p_lexer p) []
     | l # us \<Rightarrow> lexeme_of (p_token p) = l \<and> lexeme_ok l \<and> reads (p_lexer p) us)"

definition parses :: "'a pm \<Rightarrow> string \<Rightarrow> lexeme list \<Rightarrow> ('a \<Rightarrow> bool) \<Rightarrow> string \<Rightarrow> lexeme list \<Rightarrow> bool" where
  "parses m d ts Q d' us \<longleftrightarrow> (\<forall>p. sees p d ts \<longrightarrow> (\<exists>x p'. m p = Inr (x, p') \<and> Q x \<and> sees p' d' us))"

lemma spelled_first: "lexeme_ok l \<Longrightarrow> \<exists>c cs. spelled l = c # cs \<and> \<not> is_space c"
proof -
  assume ok: "lexeme_ok l"
  obtain ty v i where l: "l = (ty, v, i)" by (cases l)
  consider "ty = DocComment" | "ty = Arrow" "v = ''->''" | "v \<noteq> []" "is_alpha (hd v) \<or> hd v = CHR ''_''" "ty \<noteq> DocComment"
    | n where "ty = Integer" "v = dec_string n" | c where "v = [c]" "(c, ty) \<in> set punctuation" "ty \<noteq> DocComment"
    using ok l keyword_word [of v ty] by (auto simp: is_identifier_def split: if_splits)
  then show ?thesis
  proof cases
    case 1 then show ?thesis by (simp add: l is_space_def)
  next
    case 2 then show ?thesis by (simp add: l is_space_def)
  next
    case 3 then show ?thesis using char_classes(2) by (cases v) (auto simp: l)
  next
    case 4
    obtain c cs where c: "dec_string n = c # cs" "is_digit c"
      using dec_string_digits [of n] by (cases "dec_string n") auto
    with 4 char_classes(1) [OF c(2)] show ?thesis by (simp add: l)
  next
    case 5 then show ?thesis using punctuation_char by (auto simp: l)
  qed
qed

lemma skip_spelled: "list_all lexeme_ok ts \<Longrightarrow> dropWhile is_space (concat (map spelled ts)) = concat (map spelled ts)"
proof (cases ts)
  case (Cons l us)
  assume "list_all lexeme_ok ts"
  with Cons spelled_first [of l] obtain c cs where "spelled l = c # cs" "\<not> is_space c" by auto
  with Cons show ?thesis by simp
qed simp

lemma reads_next: "reads L (l # ts) \<Longrightarrow> \<exists>t L'. next_token L = Inr (t, L') \<and> lexeme_of t = l \<and> reads L' ts"
  using next_token_spelled [of l L "concat (map spelled ts)"] skip_spelled [of ts] by (auto simp: reads_def)

lemma reads_end: "reads L [] \<Longrightarrow> \<exists>t L'. next_token L = Inr (t, L') \<and> t_type t = Eof \<and> reads L' []"
  by (subst next_token.simps)
    (simp add: reads_def skip_whitespace_rest lx_at_end_def Let_def del: dropWhile_eq_Nil_conv)

lemma lexeme_type: "lexeme_of t = l \<Longrightarrow> t_type t = fst l"
  by (auto simp: lexeme_of_def)

lemma read_past_docs_sees:
  "reads L ts \<Longrightarrow> absorb d ts = (d', us) \<Longrightarrow> \<exists>p. read_past_docs L d = Inr p \<and> sees p d' us"
proof (induction d ts arbitrary: L rule: absorb.induct)
  case (1 d ty v i ts)
  then obtain t L' where t: "next_token L = Inr (t, L')" "lexeme_of t = (ty, v, i)" "reads L' ts"
    using reads_next by blast
  then have f: "t_type t = ty" "t_value t = v" by (auto simp: lexeme_of_def)
  show ?case
  proof (cases "ty = DocComment")
    case True
    with 1(1) [OF True t(3)] 1(3) t(1) f show ?thesis
      by (subst read_past_docs.simps) simp
  next
    case False
    with 1(2,3) t f show ?thesis
      by (subst read_past_docs.simps) (auto simp: sees_def la_def reads_def)
  qed
next
  case (2 d)
  with reads_end [OF 2(1)] show ?case
    by (subst read_past_docs.simps) (auto simp: sees_def la_def)
qed

lemma advance_sees: "sees p d (l # ts) \<Longrightarrow> absorb d ts = (d', us) \<Longrightarrow> \<exists>p'. p_advance p = Inr ((), p') \<and> sees p' d' us"
  using read_past_docs_sees [of "p_lexer p" ts d d' us] by (auto simp: sees_def p_advance_def)

section \<open>The rules\<close>

lemma parses_pbind:
  "parses m d ts Q d1 us \<Longrightarrow> (\<And>x. Q x \<Longrightarrow> parses (k x) d1 us R d2 vs) \<Longrightarrow> parses (pbind m k) d ts R d2 vs"
  unfolding parses_def pbind_Inr by (meson)

lemma parses_pret: "R x \<Longrightarrow> parses (pret x) d ts R d ts"
  by (auto simp: parses_def pret_def)

lemma pret_apply: "pret x p = Inr (x, p)"
  by (simp add: pret_def)

lemma parses_current_loc: "parses current_loc d ts (\<lambda>_. True) d ts"
  by (auto simp: parses_def current_loc_def)

lemma parses_take_doc: "parses take_doc d ts (\<lambda>x. x = d) [] ts"
  by (auto simp: parses_def take_doc_def sees_def split: list.splits)

lemma parses_advance: "absorb d us = (d', vs) \<Longrightarrow> parses p_advance d (l # us) (\<lambda>_. True) d' vs"
  unfolding parses_def using advance_sees by blast

lemma parses_expect:
  "fst l = ty \<Longrightarrow> absorb d us = (d', vs) \<Longrightarrow> parses (expect ty msg) d (l # us) (\<lambda>t. lexeme_of t = l) d' vs"
  unfolding parses_def
proof (intro allI impI)
  fix p assume ty: "fst l = ty" and ab: "absorb d us = (d', vs)" and s: "sees p d (l # us)"
  then obtain p' where "p_advance p = Inr ((), p')" "sees p' d' vs" using advance_sees by blast
  with s ty show "\<exists>x p'. expect ty msg p = Inr (x, p') \<and> lexeme_of x = l \<and> sees p' d' vs"
    by (simp add: expect_def check_def pbind_apply pret_def sees_def la_def)
qed

lemma parses_eq:
  "(\<And>p. t_type (p_token p) = la ts \<Longrightarrow> (\<And>l us. ts = l # us \<Longrightarrow> lexeme_of (p_token p) = l) \<Longrightarrow> p_doc p = d \<Longrightarrow> m p = n p)
    \<Longrightarrow> parses n d ts Q d' us \<Longrightarrow> parses m d ts Q d' us"
  unfolding parses_def sees_def by (smt (verit) list.simps(5))

lemma parses_weaken: "parses m d ts Q d' us \<Longrightarrow> (\<And>x. Q x \<Longrightarrow> R x) \<Longrightarrow> parses m d ts R d' us"
  unfolding parses_def by blast

lemma la_Cons [simp]: "la (symb ty # us) = ty" "la (ident v # us) = Identifier" "la (number n # us) = Integer" "la [] = Eof"
  by (simp_all add: la_def symb_def ident_def number_def)

lemma lexeme_fst [simp]: "fst (symb ty) = ty" "fst (ident v) = Identifier" "fst (number n) = Integer"
  by (simp_all add: symb_def ident_def number_def)

lemma absorb_other: "fst l \<noteq> DocComment \<Longrightarrow> absorb d (l # us) = (d, l # us)"
  by (cases l) simp

lemma absorb_la: "la us \<noteq> DocComment \<Longrightarrow> absorb d us = (d, us)"
  by (cases us) (auto simp: la_def absorb_other)

lemma lexeme_of_ident [simp]: "lexeme_of t = ident v \<Longrightarrow> t_value t = v"
  by (simp add: lexeme_of_def ident_def)

lemma lexeme_of_number [simp]: "lexeme_of t = number v \<Longrightarrow> t_int_value t = v"
  by (simp add: lexeme_of_def number_def)

section \<open>Types and parameters are read back\<close>

lemma token_to_primitive_token [simp]: "token_to_primitive (primitive_token p) = Some p"
  by (cases p) simp_all

lemma parses_base_type:
  assumes "la us \<noteq> DocComment"
  shows "parses parse_base_type d (pp_base b # us) (\<lambda>x. x = b) d us"
proof (rule parses_eq [where n = "pbind p_advance (\<lambda>_. pret b)"])
  show "parses (pbind p_advance (\<lambda>_. pret b)) d (pp_base b # us) (\<lambda>x. x = b) d us"
    by (rule parses_pbind, rule parses_advance, rule absorb_la [OF assms], rule parses_pret) simp
  fix p :: parser assume ty: "t_type (p_token p) = la (pp_base b # us)"
    and l: "\<And>l vs. pp_base b # us = l # vs \<Longrightarrow> lexeme_of (p_token p) = l"
  show "parse_base_type p = pbind p_advance (\<lambda>_. pret b) p"
  proof (cases b)
    case (Primitive prim)
    with ty show ?thesis by (simp add: parse_base_type_def)
  next
    case (User n)
    with ty l have "t_type (p_token p) = Identifier" "t_value (p_token p) = n" by simp_all
    with User show ?thesis by (simp add: parse_base_type_def check_def)
  qed
qed

lemma parses_brackets:
  assumes "la us \<noteq> DocComment" and "la us \<noteq> LBracket"
  shows "parses (parse_brackets t) d (concat (replicate n [symb LBracket, symb RBracket]) @ us)
    (\<lambda>x. x = t\<lparr>ty_is_array := ty_is_array t \<or> 0 < n, ty_dims := ty_dims t + n\<rparr>) d us"
proof (induction n arbitrary: t)
  case 0
  show ?case
  proof (rule parses_eq [where n = "pret t"])
    show "parse_brackets t p = pret t p" if "t_type (p_token p) = la (concat (replicate 0 [symb LBracket, symb RBracket]) @ us)" for p
      using assms(2) that by (subst parse_brackets.simps) (simp add: check_def pret_def)
  qed (auto intro!: parses_pret)
next
  case (Suc n)
  let ?more = "\<lambda>_. pbind (expect RBracket (''Expected ']' after '' @ in_quotes ''['')) (\<lambda>_.
       parse_brackets (t\<lparr>ty_is_array := True, ty_dims := ty_dims t + 1\<rparr>))"
  show ?case
  proof (rule parses_eq [where n = "pbind p_advance ?more"])
    show "parse_brackets t p = pbind p_advance ?more p"
      if "t_type (p_token p) = la (concat (replicate (Suc n) [symb LBracket, symb RBracket]) @ us)" for p
      using that by (subst parse_brackets.simps) (simp add: check_def)
    have "la (concat (replicate n [symb LBracket, symb RBracket]) @ us) \<noteq> DocComment"
      using assms(1) by (cases n) simp_all
    then show "parses (pbind p_advance ?more) d (concat (replicate (Suc n) [symb LBracket, symb RBracket]) @ us)
      (\<lambda>x. x = t\<lparr>ty_is_array := ty_is_array t \<or> 0 < Suc n, ty_dims := ty_dims t + Suc n\<rparr>) d us"
      using parses_weaken [OF Suc.IH [of "t\<lparr>ty_is_array := True, ty_dims := ty_dims t + 1\<rparr>"]]
      by (auto simp: absorb_other intro!: parses_pbind [OF parses_advance] parses_pbind [OF parses_expect] absorb_la)
  qed
qed

lemma parses_optional_mark:
  assumes "la us \<noteq> DocComment" and "la us \<noteq> Question"
  shows "parses (parse_optional_mark t) d ((if b then [symb Question] else []) @ us)
    (\<lambda>x. x = t\<lparr>ty_is_optional := ty_is_optional t \<or> b\<rparr>) d us"
proof (rule parses_eq [where n = "if b then pbind p_advance (\<lambda>_. pret (t\<lparr>ty_is_optional := True\<rparr>)) else pret t"])
  show "parses (if b then pbind p_advance (\<lambda>_. pret (t\<lparr>ty_is_optional := True\<rparr>)) else pret t) d
    ((if b then [symb Question] else []) @ us) (\<lambda>x. x = t\<lparr>ty_is_optional := ty_is_optional t \<or> b\<rparr>) d us"
    using assms by (auto intro!: parses_pret parses_pbind [OF parses_advance] absorb_la)
qed (use assms in \<open>auto simp: parse_optional_mark_def check_def pret_def split: if_splits\<close>)

lemma parses_marks:
  assumes "type_ok t" and "la us \<notin> {DocComment, Question, LBracket}"
  shows "parses (pbind (parse_brackets (type_of_base (ty_base t))) parse_optional_mark) d (pp_marks t @ us) (\<lambda>x. x = t) d us"
proof -
  let ?opt = "(if ty_is_optional t then [symb Question] else []) @ us"
  let ?t = "(type_of_base (ty_base t))\<lparr>ty_is_array := 0 < ty_dims t, ty_dims := ty_dims t\<rparr>"
  have o: "la ?opt \<noteq> DocComment" "la ?opt \<noteq> LBracket" using assms(2) by auto
  have b: "parses (parse_brackets (type_of_base (ty_base t))) d
      (concat (replicate (ty_dims t) [symb LBracket, symb RBracket]) @ ?opt) (\<lambda>x. x = ?t) d ?opt"
    using parses_weaken [OF parses_brackets [OF o, of "type_of_base (ty_base t)" d "ty_dims t"]]
    by (simp add: type_of_base_def)
  have t: "t = ?t\<lparr>ty_is_optional := ty_is_optional t\<rparr>" using assms(1) by (simp add: type_ok_def type_of_base_def)
  have "parses (parse_optional_mark ?t) d ?opt (\<lambda>x. x = t) d us"
    using parses_weaken [OF parses_optional_mark [of us ?t d "ty_is_optional t"]] assms(2) t
    by (simp add: type_of_base_def)
  with b show ?thesis by (auto simp: pp_marks_def intro!: parses_pbind)
qed

lemma la_marks: "la (pp_marks t @ us) \<in> {LBracket, Question, la us}"
  by (cases "ty_dims t") (auto simp: pp_marks_def)

lemma parses_type:
  assumes "type_ok t" and "la us \<notin> {DocComment, Question, LBracket}"
  shows "parses parse_type d (pp_type t @ us) (\<lambda>x. x = t) d us"
  using assms la_marks [of t us]
  by (auto simp: parse_type_def pp_type_def intro!: parses_pbind [OF parses_base_type] parses_marks)

lemma la_type: "la (pp_type t @ us) \<notin> {DocComment, Comma, RBrace, RParen, LParen, Eof, KwReadonly}"
proof (cases "ty_base t")
  case (Primitive p)
  then show ?thesis by (cases p) (simp_all add: pp_type_def)
qed (simp add: pp_type_def)

lemma la_param [simp]: "la (pp_param x @ us) \<notin> {DocComment, Comma, RBrace, RParen}"
  using la_type by (simp add: pp_param_def)

lemma parses_param:
  assumes "param_ok x" and "la us \<noteq> DocComment"
  shows "parses parse_param d (pp_param x @ us) (\<lambda>y. erase_param y = erase_param x) d us"
  using assms unfolding parse_param_def pp_param_def append_assoc append.simps
  by (intro parses_pbind [OF parses_current_loc] parses_pbind [OF parses_type] parses_pbind [OF parses_expect [OF _ absorb_la]] parses_pret)
    (auto simp: param_ok_def erase_param_def)

text \<open>A token inside a definition, where no comment follows.\<close>

lemmas parses_next = parses_pbind [OF parses_expect [OF _ absorb_la]]
lemmas parses_step = parses_pbind [OF parses_advance [OF absorb_la]]

lemma parses_params_more:
  assumes "list_all param_ok ps" and "la us \<notin> {DocComment, Comma}"
  shows "parses (parse_params_more acc) d (concat (map (\<lambda>y. symb Comma # y) (map pp_param ps)) @ us)
    (\<lambda>r. map erase_param r = map erase_param (acc @ ps)) d us"
  using assms(1)
proof (induction ps arbitrary: acc)
  case Nil
  show ?case
  proof (rule parses_eq [where n = "pret acc"])
    show "parse_params_more acc p = pret acc p"
      if "t_type (p_token p) = la (concat (map (\<lambda>y. symb Comma # y) (map pp_param [])) @ us)" for p
      using that assms(2) by (subst parse_params_more.simps) (simp add: check_def pret_def)
  qed (auto intro: parses_pret)
next
  case (Cons x ps)
  let ?rest = "concat (map (\<lambda>y. symb Comma # y) (map pp_param ps)) @ us"
  have rest: "la ?rest \<noteq> DocComment" using assms(2) by (cases ps) simp_all
  show ?case
  proof (rule parses_eq [where n = "pbind p_advance (\<lambda>_. pbind parse_param (\<lambda>x. parse_params_more (acc @ [x])))"])
    show "parse_params_more acc p = pbind p_advance (\<lambda>_. pbind parse_param (\<lambda>x. parse_params_more (acc @ [x]))) p"
      if "t_type (p_token p) = la (concat (map (\<lambda>y. symb Comma # y) (map pp_param (x # ps))) @ us)" for p
      using that by (subst parse_params_more.simps) (simp add: check_def)
    have more: "parses (parse_params_more (acc @ [y])) d ?rest
        (\<lambda>r. map erase_param r = map erase_param (acc @ x # ps)) d us" if "erase_param y = erase_param x" for y
      using parses_weaken [OF Cons.IH [of "acc @ [y]"]] Cons.prems that by simp
    have "parses (pbind parse_param (\<lambda>x. parse_params_more (acc @ [x]))) d (pp_param x @ ?rest)
        (\<lambda>r. map erase_param r = map erase_param (acc @ x # ps)) d us"
      by (rule parses_pbind [OF parses_param [OF _ rest]]) (use Cons.prems more in simp_all)
    then show "parses (pbind p_advance (\<lambda>_. pbind parse_param (\<lambda>x. parse_params_more (acc @ [x])))) d
        (concat (map (\<lambda>y. symb Comma # y) (map pp_param (x # ps))) @ us)
        (\<lambda>r. map erase_param r = map erase_param (acc @ x # ps)) d us"
      using la_param [of x ?rest] by (auto intro!: parses_step)
  qed
qed

lemma parses_params:
  assumes "list_all param_ok ps"
  shows "parses parse_params d (commas (map pp_param ps) @ symb RParen # us)
    (\<lambda>r. map erase_param r = map erase_param ps) d (symb RParen # us)"
proof (cases ps)
  case Nil
  then show ?thesis
    by (auto simp: parse_params_def check_def pret_def intro!: parses_eq [where n = "pret []"] parses_pret)
next
  case (Cons x xs)
  let ?rest = "concat (map (\<lambda>y. symb Comma # y) (map pp_param xs)) @ symb RParen # us"
  show ?thesis
  proof (rule parses_eq [where n = "pbind parse_param (\<lambda>x. parse_params_more [x])"])
    show "parse_params p = pbind parse_param (\<lambda>x. parse_params_more [x]) p"
      if "t_type (p_token p) = la (commas (map pp_param ps) @ symb RParen # us)" for p
      using that la_param [of x ?rest] by (simp add: parse_params_def check_def Cons)
    have rest: "la ?rest \<noteq> DocComment" by (cases xs) simp_all
    show "parses (pbind parse_param (\<lambda>x. parse_params_more [x])) d (commas (map pp_param ps) @ symb RParen # us)
        (\<lambda>r. map erase_param r = map erase_param ps) d (symb RParen # us)"
    proof -
      have more: "parses (parse_params_more [y]) d ?rest (\<lambda>r. map erase_param r = map erase_param ps) d (symb RParen # us)"
        if "erase_param y = erase_param x" for y
        using parses_weaken [OF parses_params_more [of xs "symb RParen # us" "[y]"]] assms that by (simp add: Cons)
      have "parses (pbind parse_param (\<lambda>x. parse_params_more [x])) d (pp_param x @ ?rest)
          (\<lambda>r. map erase_param r = map erase_param ps) d (symb RParen # us)"
        by (rule parses_pbind [OF parses_param [OF _ rest]]) (use assms more in \<open>simp_all add: Cons\<close>)
      then show ?thesis by (simp add: Cons)
    qed
  qed
qed

lemma parses_throws_more:
  assumes "list_all is_identifier es" and "la us \<notin> {DocComment, Comma}"
  shows "parses (parse_throws_more acc) d (concat (map (\<lambda>y. symb Comma # y) (map (\<lambda>e. [ident e]) es)) @ us)
    (\<lambda>r. r = acc @ es) d us"
  using assms(1)
proof (induction es arbitrary: acc)
  case Nil
  show ?case
  proof (rule parses_eq [where n = "pret acc"])
    show "parse_throws_more acc p = pret acc p"
      if "t_type (p_token p) = la (concat (map (\<lambda>y. symb Comma # y) (map (\<lambda>e. [ident e]) [])) @ us)" for p
      using that assms(2) by (subst parse_throws_more.simps) (simp add: check_def pret_def)
  qed (auto intro: parses_pret)
next
  case (Cons x es)
  let ?rest = "concat (map (\<lambda>y. symb Comma # y) (map (\<lambda>e. [ident e]) es)) @ us"
  let ?m = "pbind p_advance (\<lambda>_. pbind (expect Identifier ''Expected error type'') (\<lambda>t. parse_throws_more (acc @ [t_value t])))"
  have rest: "la ?rest \<noteq> DocComment" using assms(2) by (cases es) simp_all
  show ?case
  proof (rule parses_eq [where n = ?m])
    show "parse_throws_more acc p = ?m p"
      if "t_type (p_token p) = la (concat (map (\<lambda>y. symb Comma # y) (map (\<lambda>e. [ident e]) (x # es))) @ us)" for p
      using that by (subst parse_throws_more.simps) (simp add: check_def)
    show "parses ?m d (concat (map (\<lambda>y. symb Comma # y) (map (\<lambda>e. [ident e]) (x # es))) @ us) (\<lambda>r. r = acc @ x # es) d us"
      using rest parses_weaken [OF Cons.IH [of "acc @ [x]"]] Cons.prems
      by (auto intro!: parses_step parses_next)
  qed
qed

lemma parses_throws:
  assumes "list_all is_identifier es" and "la us \<notin> {DocComment, Comma, KwThrows}"
  shows "parses parse_throws d (pp_throws es @ us) (\<lambda>r. r = es) d us"
proof (cases es)
  case Nil
  then show ?thesis using assms(2)
    by (auto simp: parse_throws_def check_def pret_def pp_throws_def intro!: parses_eq [where n = "pret []"] parses_pret)
next
  case (Cons x xs)
  let ?m = "pbind p_advance (\<lambda>_. pbind (expect Identifier ''Expected error type'') (\<lambda>t. parse_throws_more [t_value t]))"
  have rest: "la (concat (map (\<lambda>y. symb Comma # y) (map (\<lambda>e. [ident e]) xs)) @ us) \<noteq> DocComment"
    using assms(2) by (cases xs) simp_all
  show ?thesis
  proof (rule parses_eq [where n = ?m])
    show "parse_throws p = ?m p" if "t_type (p_token p) = la (pp_throws es @ us)" for p
      using that by (simp add: parse_throws_def check_def Cons pp_throws_def)
    show "parses ?m d (pp_throws es @ us) (\<lambda>r. r = es) d us"
      using assms rest parses_weaken [OF parses_throws_more [of xs us "[x]"]]
      by (auto simp: Cons pp_throws_def intro!: parses_step parses_next)
  qed
qed

section \<open>Documentation is read back\<close>

lemma absorb_lines:
  "la ts \<noteq> DocComment \<Longrightarrow> absorb d (map (\<lambda>l. (DocComment, l, 0)) ls @ ts)
    = (foldl (\<lambda>d l. (if d = [] then d else d @ [newline]) @ l) d ls, ts)"
  by (induction ls arbitrary: d) (simp_all add: absorb_la)

lemma join_lines: "acc \<noteq> [] \<Longrightarrow> foldl (\<lambda>d l. (if d = [] then d else d @ [newline]) @ l) acc ls
    = acc @ concat (map (\<lambda>l. newline # l) ls)"
  by (induction ls arbitrary: acc) simp_all

lemma doc_lines_ne: "doc_lines d \<noteq> []"
  by (cases d) simp_all

lemma doc_lines_join: "concat (map (\<lambda>l. newline # l) (doc_lines d)) = newline # d"
proof (induction d)
  case (Cons c cs)
  with doc_lines_ne [of cs] show ?case by (cases "doc_lines cs") auto
qed simp

lemma doc_lines_clean: "\<forall>l \<in> set (doc_lines d). newline \<notin> set l"
proof (induction d)
  case (Cons c cs)
  with doc_lines_ne [of cs] show ?case by (cases "doc_lines cs") auto
qed simp

lemma absorb_documented:
  assumes "doc_ok d" and "la (ts @ us) \<noteq> DocComment"
  shows "absorb [] (documented d ts @ us) = (d, ts @ us)"
proof (cases "d = []")
  case True
  with assms(2) show ?thesis by (simp add: documented_def pp_doc_def absorb_la)
next
  case False
  then obtain c cs where d: "d = c # cs" "c \<noteq> newline" using assms(1) by (cases d) (auto simp: doc_ok_def)
  obtain l ls where ls: "doc_lines d = l # ls" using doc_lines_ne by (cases "doc_lines d") auto
  have "l \<noteq> []" using ls d doc_lines_ne [of cs] by (auto simp: d)
  moreover have "l @ concat (map (\<lambda>l. newline # l) ls) = d" using doc_lines_join [of d] ls by simp
  ultimately have "foldl (\<lambda>d l. (if d = [] then d else d @ [newline]) @ l) [] (doc_lines d) = d"
    using join_lines [of l ls] ls by simp
  with False absorb_lines [OF assms(2), of "[]" "doc_lines d"] show ?thesis
    by (simp add: documented_def pp_doc_def)
qed

section \<open>Members are read back\<close>

lemma la_params [simp]: "la (commas (map pp_param ps) @ symb RParen # us) \<noteq> DocComment"
proof (cases ps)
  case (Cons x xs)
  then show ?thesis
    using la_param [of x "concat (map (\<lambda>y. symb Comma # y) (map pp_param xs)) @ symb RParen # us"] by simp
qed simp

lemma la_throws: "la (pp_throws es @ symb Semicolon # us) \<notin> {DocComment, Question, LBracket}"
  by (simp add: pp_throws_def)

lemma parses_parens:
  assumes "list_all param_ok ps" and "la us \<noteq> DocComment"
    and "\<And>r. map erase_param r = map erase_param ps \<Longrightarrow> parses (k r) d us Q d' vs"
  shows "parses (pbind (expect LParen m1) (\<lambda>_. pbind parse_params (\<lambda>params. pbind (expect RParen m2) (\<lambda>_. k params))))
    d (pp_params ps @ us) Q d' vs"
  unfolding pp_params_def append_assoc append.simps
  by (intro parses_next parses_pbind [OF parses_params [OF assms(1)]]) (use assms(2,3) in simp_all)

lemma parses_method_rest:
  assumes "method_ok m" and "absorb d us = (d', vs)"
  shows "parses (parse_method_rest name doc loc opt str) d (pp_method_rest m @ us)
    (\<lambda>r. erase_method r = erase_method (m\<lparr>md_name := name, md_doc := doc, md_is_optional := opt, md_is_stream := str\<rparr>)) d' vs"
  unfolding parse_method_rest_def pp_method_rest_def append_assoc append.simps
  by (intro parses_parens parses_next parses_pbind [OF parses_type] parses_pbind [OF parses_throws]
      parses_pbind [OF parses_expect [OF _ assms(2)]] parses_pret)
    (use assms(1) la_type [of "md_return m"] la_throws [of "md_throws m"] in \<open>auto simp: method_ok_def erase_method_def\<close>)

lemma parses_modifier:
  "\<not> (opt \<and> str) \<Longrightarrow> parses parse_modifier d
    ((if opt then [symb KwOptional] else if str then [symb KwStream] else []) @ ident n # us)
    (\<lambda>r. r = (opt, str)) d (ident n # us)"
  by (rule parses_eq [where n = "if opt then pbind p_advance (\<lambda>_. pret (True, False))
        else if str then pbind p_advance (\<lambda>_. pret (False, True)) else pret (False, False)"])
    (auto simp: parse_modifier_def check_def pret_apply intro!: parses_step parses_pret split: if_splits)

lemma parses_method:
  assumes "method_ok m" and "absorb [] us = (d', vs)"
  shows "parses parse_method d (pp_method m @ us) (\<lambda>r. erase_method r = erase_method (m\<lparr>md_doc := d\<rparr>)) d' vs"
proof -
  have la: "la (pp_method_rest m @ us) \<noteq> DocComment" by (simp add: pp_method_rest_def pp_params_def)
  have rest: "parses (parse_method_rest (md_name m) d loc (md_is_optional m) (md_is_stream m)) [] (pp_method_rest m @ us)
      (\<lambda>r. erase_method r = erase_method (m\<lparr>md_doc := d\<rparr>)) d' vs" for loc
    by (rule parses_weaken [OF parses_method_rest [OF assms]]) simp
  have mods: "\<not> (md_is_optional m \<and> md_is_stream m)" using assms(1) by (simp add: method_ok_def)
  show ?thesis
    unfolding parse_method_def pp_method_def append_assoc append.simps
    by (intro parses_pbind [OF parses_current_loc] parses_pbind [OF parses_take_doc]
        parses_pbind [OF parses_modifier [OF mods]])
      (use la rest in \<open>auto intro!: parses_next\<close>)
qed

lemma parses_constructor:
  assumes "constructor_ok c" and "absorb [] us = (d', vs)"
  shows "parses parse_constructor d (pp_constructor name c @ us)
    (\<lambda>r. erase_constructor r = erase_constructor (c\<lparr>ct_doc := d\<rparr>)) d' vs"
proof -
  have la: "la (pp_params (ct_params c) @ symb Semicolon # us) \<noteq> DocComment" by (simp add: pp_params_def)
  show ?thesis
    unfolding parse_constructor_def pp_constructor_def append_assoc append.simps
    by (intro parses_pbind [OF parses_current_loc] parses_pbind [OF parses_take_doc] parses_next parses_parens
        parses_pbind [OF parses_expect [OF _ assms(2)]] parses_pret)
      (use assms(1) la in \<open>auto simp: constructor_ok_def erase_constructor_def\<close>)
qed

lemma parses_field:
  assumes "field_ok f" and "absorb [] us = (d', vs)"
  shows "parses parse_field d (pp_field f @ us) (\<lambda>r. erase_field r = erase_field (f\<lparr>fd_doc := d\<rparr>)) d' vs"
  unfolding parse_field_def pp_field_def append_assoc append.simps
  by (intro parses_pbind [OF parses_current_loc] parses_pbind [OF parses_take_doc] parses_pbind [OF parses_type]
      parses_next parses_pbind [OF parses_expect [OF _ assms(2)]] parses_pret)
    (use assms(1) in \<open>auto simp: field_ok_def erase_field_def\<close>)

section \<open>Lists of members are read back\<close>

lemma la_field: "la (pp_field f @ us) \<notin> {DocComment, RBrace, Eof}"
  using la_type [of "fd_type f" "[ident (fd_name f), symb Semicolon] @ us"] by (simp add: pp_field_def)

lemma la_method: "la (pp_method m @ us) \<notin> {DocComment, RBrace, Eof, KwReadonly}"
  by (simp add: pp_method_def)

lemma parses_fields:
  assumes "list_all field_ok fs" and "absorb [] (pp_fields fs @ symb RBrace # us) = (d, ts)"
  shows "parses (parse_fields acc) d ts (\<lambda>r. map erase_field r = map erase_field (acc @ fs)) [] (symb RBrace # us)"
  using assms
proof (induction fs arbitrary: acc d ts)
  case Nil
  then have s: "d = []" "ts = symb RBrace # us" by (simp_all add: pp_fields_def absorb_la)
  show ?case
  proof (rule parses_eq [where n = "pret acc"])
    show "parse_fields acc p = pret acc p" if "t_type (p_token p) = la ts" for p
      using that by (subst parse_fields.simps) (simp add: check_def pret_apply s)
  qed (auto intro: parses_pret simp: s)
next
  case (Cons f fs)
  let ?rest = "pp_fields fs @ symb RBrace # us"
  obtain d' vs where ab: "absorb [] ?rest = (d', vs)" by fastforce
  have s: "d = fd_doc f" "ts = pp_field f @ ?rest"
    using Cons.prems absorb_documented [of "fd_doc f" "pp_field f" ?rest] la_field [of f ?rest]
    by (simp_all add: pp_fields_def field_ok_def)
  show ?case
  proof (rule parses_eq [where n = "pbind parse_field (\<lambda>f. parse_fields (acc @ [f]))"])
    show "parse_fields acc p = pbind parse_field (\<lambda>f. parse_fields (acc @ [f])) p" if "t_type (p_token p) = la ts" for p
      using that la_field [of f ?rest] by (subst parse_fields.simps) (simp add: check_def p_at_end_def s)
    have f: "field_ok f" using Cons.prems by simp
    have more: "parses (parse_fields (acc @ [y])) d' vs (\<lambda>r. map erase_field r = map erase_field (acc @ f # fs)) [] (symb RBrace # us)"
      if "erase_field y = erase_field (f\<lparr>fd_doc := d\<rparr>)" for y
    proof -
      have "erase_field y = erase_field f" using that by (cases f) (simp add: s(1))
      then show ?thesis
        using parses_weaken [OF Cons.IH [OF _ ab, of "acc @ [y]"]] Cons.prems by simp
    qed
    show "parses (pbind parse_field (\<lambda>f. parse_fields (acc @ [f]))) d ts
        (\<lambda>r. map erase_field r = map erase_field (acc @ f # fs)) [] (symb RBrace # us)"
      unfolding s(2) by (rule parses_pbind [OF parses_field [OF f ab]]) (rule more)
  qed
qed

lemma redocumented_method:
  "erase_method r = erase_method (m\<lparr>md_doc := []\<rparr>) \<Longrightarrow>
    erase_method (r\<lparr>md_doc := or_doc (md_doc r) (md_doc m)\<rparr>) = erase_method m"
  by (cases r; cases m) (simp add: erase_method_def or_doc_def)

lemma parses_service_methods:
  assumes "list_all method_ok ms" and "absorb [] (pp_methods ms @ symb RBrace # us) = (d, ts)"
  shows "parses (parse_service_methods acc) d ts (\<lambda>r. map erase_method r = map erase_method (acc @ ms)) [] (symb RBrace # us)"
  using assms
proof (induction ms arbitrary: acc d ts)
  case Nil
  then have s: "d = []" "ts = symb RBrace # us" by (simp_all add: pp_methods_def absorb_la)
  show ?case
  proof (rule parses_eq [where n = "pret acc"])
    show "parse_service_methods acc p = pret acc p" if "t_type (p_token p) = la ts" for p
      using that by (subst parse_service_methods.simps) (simp add: check_def pret_apply s)
  qed (auto intro: parses_pret simp: s)
next
  case (Cons m ms)
  let ?rest = "pp_methods ms @ symb RBrace # us"
  let ?k = "pbind take_doc (\<lambda>doc. pbind parse_method (\<lambda>m.
       parse_service_methods (acc @ [m\<lparr>md_doc := or_doc (md_doc m) doc\<rparr>])))"
  obtain d' vs where ab: "absorb [] ?rest = (d', vs)" by fastforce
  have s: "d = md_doc m" "ts = pp_method m @ ?rest"
    using Cons.prems absorb_documented [of "md_doc m" "pp_method m" ?rest] la_method [of m ?rest]
    by (simp_all add: pp_methods_def method_ok_def)
  show ?case
  proof (rule parses_eq [where n = ?k])
    show "parse_service_methods acc p = ?k p" if "t_type (p_token p) = la ts" for p
      using that la_method [of m ?rest] by (subst parse_service_methods.simps) (simp add: check_def p_at_end_def s)
    have m: "method_ok m" using Cons.prems by simp
    have more: "parses (parse_service_methods (acc @ [y\<lparr>md_doc := or_doc (md_doc y) d\<rparr>])) d' vs
        (\<lambda>r. map erase_method r = map erase_method (acc @ m # ms)) [] (symb RBrace # us)"
      if "erase_method y = erase_method (m\<lparr>md_doc := []\<rparr>)" for y
      using parses_weaken [OF Cons.IH [OF _ ab, of "acc @ [y\<lparr>md_doc := or_doc (md_doc y) d\<rparr>]"]]
        Cons.prems redocumented_method [OF that] by (simp add: s)
    show "parses ?k d ts (\<lambda>r. map erase_method r = map erase_method (acc @ m # ms)) [] (symb RBrace # us)"
      unfolding s(2)
      by (rule parses_pbind [OF parses_take_doc], rule parses_pbind [OF parses_method [OF m ab]]) (use more in simp)
  qed
qed

lemma unat_number: "unat v < 2 ^ 63 \<Longrightarrow> lexeme_ok (number v)"
  by (auto simp: number_def intro!: exI [of _ "unat v"])

lemma parses_enum_value:
  assumes "absorb d us = (d', vs)" and "la us \<noteq> Equals"
  shows "la us \<noteq> DocComment \<Longrightarrow> parses parse_enum_value d
    ((case v of None \<Rightarrow> [] | Some v \<Rightarrow> [symb Equals, number v]) @ us) (\<lambda>r. r = v) d us"
proof (rule parses_eq [where n = "if v = None then pret None
    else pbind p_advance (\<lambda>_. pbind (expect Integer ''Expected integer value'') (\<lambda>value. pret (Some (t_int_value value))))"])
qed (use assms in \<open>auto simp: parse_enum_value_def check_def pret_apply intro!: parses_pret parses_step parses_next split: option.splits\<close>)

lemma parses_item:
  assumes "la us \<notin> {DocComment, Equals}"
  shows "parses parse_enum_item d (pp_item e @ us) (\<lambda>r. erase_item r = erase_item (e\<lparr>ei_doc := d\<rparr>)) [] us"
proof -
  have la: "la ((case ei_value e of None \<Rightarrow> [] | Some v \<Rightarrow> [symb Equals, number v]) @ us) \<noteq> DocComment"
    using assms by (cases "ei_value e") simp_all
  show ?thesis
    unfolding parse_enum_item_def pp_item_def append_assoc append.simps
    by (intro parses_pbind [OF parses_current_loc] parses_pbind [OF parses_take_doc] parses_next
        parses_pbind [OF parses_enum_value [OF absorb_la]] parses_pret)
      (use assms la in \<open>auto simp: erase_item_def\<close>)
qed

abbreviation pp_items :: "enum_item list \<Rightarrow> lexeme list list" where
  "pp_items es \<equiv> map (\<lambda>x. documented (ei_doc x) (pp_item x)) es"

lemma la_item: "la (pp_item e @ us) = Identifier"
  by (simp add: pp_item_def)

lemma redocumented_item: "erase_item y = erase_item (e\<lparr>ei_doc := ei_doc e\<rparr>) \<Longrightarrow> erase_item y = erase_item e"
  by (cases e) simp

lemma parses_items_more:
  assumes "list_all item_ok es"
  shows "parses (parse_enum_items_more acc) [] (concat (map (\<lambda>y. symb Comma # y) (pp_items es)) @ symb RBrace # us)
    (\<lambda>r. map erase_item r = map erase_item (acc @ es)) [] (symb RBrace # us)"
  using assms
proof (induction es arbitrary: acc)
  case Nil
  show ?case
  proof (rule parses_eq [where n = "pret acc"])
    show "parse_enum_items_more acc p = pret acc p"
      if "t_type (p_token p) = la (concat (map (\<lambda>y. symb Comma # y) (pp_items [])) @ symb RBrace # us)" for p
      using that by (subst parse_enum_items_more.simps) (simp add: check_def pret_apply)
  qed (auto intro: parses_pret)
next
  case (Cons e es)
  let ?rest = "concat (map (\<lambda>y. symb Comma # y) (pp_items es)) @ symb RBrace # us"
  let ?Q = "\<lambda>r. map erase_item r = map erase_item (acc @ e # es)"
  let ?k = "\<lambda>q. if check RBrace q then Inr (acc, q)
       else pbind parse_enum_item (\<lambda>e. parse_enum_items_more (acc @ [e])) q"
  have rest: "la ?rest \<notin> {DocComment, Equals}" by (cases es) simp_all
  have more: "parses (parse_enum_items_more (acc @ [y])) [] ?rest ?Q [] (symb RBrace # us)"
    if "erase_item y = erase_item (e\<lparr>ei_doc := ei_doc e\<rparr>)" for y
    using parses_weaken [OF Cons.IH [of "acc @ [y]"]] Cons.prems redocumented_item [OF that] by simp
  have k: "parses ?k (ei_doc e) (pp_item e @ ?rest) ?Q [] (symb RBrace # us)"
  proof (rule parses_eq [where n = "pbind parse_enum_item (\<lambda>e. parse_enum_items_more (acc @ [e]))"])
    show "parses (pbind parse_enum_item (\<lambda>e. parse_enum_items_more (acc @ [e]))) (ei_doc e) (pp_item e @ ?rest) ?Q
        [] (symb RBrace # us)"
      by (rule parses_pbind [OF parses_item [OF rest]]) (rule more)
  qed (simp add: la_item check_def)
  have ab: "absorb [] (documented (ei_doc e) (pp_item e) @ ?rest) = (ei_doc e, pp_item e @ ?rest)"
    using Cons.prems la_item [of e ?rest] by (intro absorb_documented) (simp_all add: item_ok_def)
  show ?case
  proof (rule parses_eq [where n = "pbind p_advance (\<lambda>_. ?k)"])
    show "parse_enum_items_more acc p = pbind p_advance (\<lambda>_. ?k) p"
      if "t_type (p_token p) = la (concat (map (\<lambda>y. symb Comma # y) (pp_items (e # es))) @ symb RBrace # us)" for p
      using that by (subst parse_enum_items_more.simps) (simp add: check_def)
    have "parses (pbind p_advance (\<lambda>_. ?k)) [] (symb Comma # documented (ei_doc e) (pp_item e) @ ?rest) ?Q [] (symb RBrace # us)"
      by (rule parses_pbind [OF parses_advance [OF ab]]) (rule k)
    then show "parses (pbind p_advance (\<lambda>_. ?k)) []
        (concat (map (\<lambda>y. symb Comma # y) (pp_items (e # es))) @ symb RBrace # us) ?Q [] (symb RBrace # us)"
      by simp
  qed
qed

lemma parses_items:
  assumes "list_all item_ok es" and "absorb [] (commas (pp_items es) @ symb RBrace # us) = (d, ts)"
  shows "parses parse_enum_items d ts (\<lambda>r. map erase_item r = map erase_item es) [] (symb RBrace # us)"
proof (cases es)
  case Nil
  with assms(2) have s: "d = []" "ts = symb RBrace # us" by (simp_all add: absorb_la)
  show ?thesis
  proof (rule parses_eq [where n = "pret []"])
    show "parse_enum_items p = pret [] p" if "t_type (p_token p) = la ts" for p
      using that by (simp add: parse_enum_items_def check_def pret_apply s)
  qed (auto intro: parses_pret simp: s Nil)
next
  case (Cons e xs)
  let ?rest = "concat (map (\<lambda>y. symb Comma # y) (pp_items xs)) @ symb RBrace # us"
  have rest: "la ?rest \<notin> {DocComment, Equals}" by (cases xs) simp_all
  have "absorb [] (documented (ei_doc e) (pp_item e) @ ?rest) = (ei_doc e, pp_item e @ ?rest)"
    using assms(1) la_item [of e ?rest] by (intro absorb_documented) (simp_all add: item_ok_def Cons)
  with assms(2) have s: "d = ei_doc e" "ts = pp_item e @ ?rest" by (simp_all add: Cons)
  show ?thesis
  proof (rule parses_eq [where n = "pbind parse_enum_item (\<lambda>e. parse_enum_items_more [e])"])
    show "parse_enum_items p = pbind parse_enum_item (\<lambda>e. parse_enum_items_more [e]) p"
      if "t_type (p_token p) = la ts" for p
      using that la_item [of e ?rest] by (simp add: parse_enum_items_def check_def s)
    have more: "parses (parse_enum_items_more [y]) [] ?rest (\<lambda>r. map erase_item r = map erase_item es) [] (symb RBrace # us)"
      if "erase_item y = erase_item (e\<lparr>ei_doc := ei_doc e\<rparr>)" for y
      using parses_weaken [OF parses_items_more [of xs "[y]" us]] assms(1) redocumented_item [OF that] by (simp add: Cons)
    show "parses (pbind parse_enum_item (\<lambda>e. parse_enum_items_more [e])) d ts
        (\<lambda>r. map erase_item r = map erase_item es) [] (symb RBrace # us)"
      unfolding s by (rule parses_pbind [OF parses_item [OF rest]]) (rule more)
  qed
qed

section \<open>Definitions are read back\<close>

lemma parses_inherited:
  assumes "la us \<notin> {DocComment, Colon}"
  shows "parses (parse_base msg) d (pp_inherited b @ us) (\<lambda>r. r = b) d us"
proof (rule parses_eq [where n = "if b = None then pret None
    else pbind p_advance (\<lambda>_. pbind (expect Identifier msg) (\<lambda>base. pret (Some (t_value base))))"])
qed (use assms in \<open>auto simp: parse_base_def check_def pret_apply pp_inherited_def
      intro!: parses_pret parses_step parses_next split: option.splits\<close>)

lemma la_inherited [simp]: "la (pp_inherited b @ symb LBrace # us) \<noteq> DocComment"
  by (cases b) (simp_all add: pp_inherited_def)

lemmas parses_last = parses_pbind [OF parses_expect]

lemma parses_struct:
  assumes "struct_ok s" and "absorb [] us = (d', vs)"
  shows "parses parse_struct d (pp_struct s @ us) (\<lambda>r. erase_struct r = erase_struct (s\<lparr>sd_doc := d\<rparr>)) d' vs"
proof -
  obtain d1 ts where ab: "absorb [] (pp_fields (sd_fields s) @ symb RBrace # us) = (d1, ts)" by fastforce
  show ?thesis
    unfolding parse_struct_def pp_struct_def append_assoc append.simps
    by (rule parses_pbind [OF parses_current_loc], rule parses_pbind [OF parses_take_doc], rule parses_next, simp, simp,
        rule parses_next, simp, simp, rule parses_pbind [OF parses_inherited], simp, rule parses_last [OF _ ab], simp,
        rule parses_pbind [OF parses_fields [OF _ ab]], use assms in \<open>simp add: struct_ok_def\<close>,
        rule parses_last [OF _ assms(2)], simp, rule parses_pret)
      (simp add: erase_struct_def)
qed

lemma parses_error:
  assumes "error_ok s" and "absorb [] us = (d', vs)"
  shows "parses parse_error d (pp_error s @ us) (\<lambda>r. erase_error r = erase_error (s\<lparr>er_doc := d\<rparr>)) d' vs"
proof -
  obtain d1 ts where ab: "absorb [] (pp_fields (er_fields s) @ symb RBrace # us) = (d1, ts)" by fastforce
  show ?thesis
    unfolding parse_error_def pp_error_def append_assoc append.simps
    by (rule parses_pbind [OF parses_current_loc], rule parses_pbind [OF parses_take_doc], rule parses_next, simp, simp,
        rule parses_next, simp, simp, rule parses_pbind [OF parses_inherited], simp, rule parses_last [OF _ ab], simp,
        rule parses_pbind [OF parses_fields [OF _ ab]], use assms in \<open>simp add: error_ok_def\<close>,
        rule parses_last [OF _ assms(2)], simp, rule parses_pret)
      (simp add: erase_error_def)
qed

lemma parses_service:
  assumes "service_ok s" and "absorb [] us = (d', vs)"
  shows "parses parse_service d (pp_service s @ us) (\<lambda>r. erase_service r = erase_service (s\<lparr>sv_doc := d\<rparr>)) d' vs"
proof -
  obtain d1 ts where ab: "absorb [] (pp_methods (sv_methods s) @ symb RBrace # us) = (d1, ts)" by fastforce
  show ?thesis
    unfolding parse_service_def pp_service_def append_assoc append.simps
    by (rule parses_pbind [OF parses_current_loc], rule parses_pbind [OF parses_take_doc], rule parses_next, simp, simp,
        rule parses_next, simp, simp, rule parses_last [OF _ ab], simp,
        rule parses_pbind [OF parses_service_methods [OF _ ab]], use assms in \<open>simp add: service_ok_def\<close>,
        rule parses_last [OF _ assms(2)], simp, rule parses_pret)
      (simp add: erase_service_def)
qed

lemma parses_enum:
  assumes "enum_ok e" and "absorb [] us = (d', vs)"
  shows "parses (parse_enum (ed_is_flags e)) d (pp_enum e @ us) (\<lambda>r. erase_enum r = erase_enum (e\<lparr>ed_doc := d\<rparr>)) d' vs"
proof -
  obtain d1 ts where ab: "absorb [] (commas (pp_items (ed_items e)) @ symb RBrace # us) = (d1, ts)" by fastforce
  have kw: "parses (if ed_is_flags e then expect KwFlags m else expect KwEnum n) []
      (symb (if ed_is_flags e then KwFlags else KwEnum) # us) (\<lambda>_. True) [] us" if "la us \<noteq> DocComment" for us m n
    using that by (auto intro: parses_weaken [OF parses_expect [OF _ absorb_la]])
  show ?thesis
    unfolding parse_enum_def pp_enum_def append_assoc append.simps
    by (rule parses_pbind [OF parses_current_loc], rule parses_pbind [OF parses_take_doc], rule parses_pbind [OF kw], simp,
        rule parses_next, simp, simp, rule parses_last [OF _ ab], simp,
        rule parses_pbind [OF parses_items [OF _ ab]], use assms in \<open>simp add: enum_ok_def\<close>,
        rule parses_last [OF _ assms(2)], simp, rule parses_pret)
      (simp add: erase_enum_def)
qed

text \<open>The members of a class: what each kind adds to the class.\<close>

lemma parse_member_doc:
  assumes "parses k [] ts Q d' us"
    and "\<And>p. t_type (p_token p) = la ts \<Longrightarrow> (\<And>l vs. ts = l # vs \<Longrightarrow> lexeme_of (p_token p) = l)
      \<Longrightarrow> parse_member D (p\<lparr>p_doc := d\<rparr>) = k (p\<lparr>p_doc := []\<rparr>)"
  shows "parses (parse_member D) d ts Q d' us"
  unfolding parses_def
proof (intro allI impI)
  fix p assume s: "sees p d ts"
  then have "sees (p\<lparr>p_doc := []\<rparr>) [] ts" by (auto simp: sees_def split: list.splits)
  moreover have "parse_member D p = k (p\<lparr>p_doc := []\<rparr>)"
    using assms(2) [of p] s by (auto simp: sees_def split: list.splits)
  ultimately show "\<exists>x p'. parse_member D p = Inr (x, p') \<and> Q x \<and> sees p' d' us"
    using assms(1) by (auto simp: parses_def)
qed

lemma member_cases:
  "parse_member D (p\<lparr>p_doc := d\<rparr>) = (let q = p\<lparr>p_doc := []\<rparr> in
     if check KwReadonly q
     then pbind parse_property (\<lambda>x. pret (add_property (x\<lparr>pr_doc := or_doc (pr_doc x) d\<rparr>) D)) q
     else if check Identifier q \<and> t_value (p_token q) = cd_name D
     then pbind parse_constructor (\<lambda>x. pret (add_constructor (x\<lparr>ct_doc := or_doc (ct_doc x) d\<rparr>) D)) q
     else if check KwStream q \<or> check KwOptional q
     then pbind parse_method (\<lambda>x. pret (add_method (x\<lparr>md_doc := or_doc (md_doc x) d\<rparr>) D)) q
     else if check Identifier q
     then pbind (parse_ident_member d) (\<lambda>x. pret (case x of Inl m \<Rightarrow> add_method m D | Inr r \<Rightarrow> add_property r D)) q
     else if is_primitive_type q
     then pbind (parse_primitive_property d) (\<lambda>x. pret (add_property x D)) q
     else parse_fail ''Expected property, constructor, or method in class'' q)"
  by (simp add: parse_member_def pbind_apply take_doc_def Let_def)

lemma member_checks [simp]:
  "check ty (p\<lparr>p_doc := d\<rparr>) = (t_type (p_token p) = ty)"
  "is_primitive_type (p\<lparr>p_doc := d\<rparr>) = (token_to_primitive (t_type (p_token p)) \<noteq> None)"
  by (simp_all add: check_def is_primitive_type_def)

lemma erase_add_property:
  "erase_property x = erase_property y \<Longrightarrow> erase_class (add_property x D) = erase_class (add_property y D)"
  by (simp add: erase_class_def add_property_def)

lemma erase_add_constructor:
  "erase_constructor x = erase_constructor y \<Longrightarrow> erase_class (add_constructor x D) = erase_class (add_constructor y D)"
  by (simp add: erase_class_def add_constructor_def)

lemma erase_add_method:
  "erase_method x = erase_method y \<Longrightarrow> erase_class (add_method x D) = erase_class (add_method y D)"
  by (simp add: erase_class_def add_method_def)

lemma redocumented_property:
  "erase_property r = erase_property (x\<lparr>pr_doc := []\<rparr>) \<Longrightarrow> erase_property (r\<lparr>pr_doc := or_doc (pr_doc r) (pr_doc x)\<rparr>) = erase_property x"
  by (cases r; cases x) (simp add: erase_property_def or_doc_def)

lemma redocumented_constructor:
  "erase_constructor r = erase_constructor (x\<lparr>ct_doc := []\<rparr>) \<Longrightarrow>
    erase_constructor (r\<lparr>ct_doc := or_doc (ct_doc r) (ct_doc x)\<rparr>) = erase_constructor x"
  by (cases r; cases x) (simp add: erase_constructor_def or_doc_def)

lemma parses_constructor_member:
  assumes "constructor_ok c" and "absorb [] us = (d', vs)"
  shows "parses (parse_member D) (ct_doc c) (pp_constructor (cd_name D) c @ us)
    (\<lambda>r. erase_class r = erase_class (add_constructor c D)) d' vs"
proof (rule parse_member_doc [where k = "pbind parse_constructor (\<lambda>x. pret (add_constructor (x\<lparr>ct_doc := or_doc (ct_doc x) (ct_doc c)\<rparr>) D))"])
  show "parses (pbind parse_constructor (\<lambda>x. pret (add_constructor (x\<lparr>ct_doc := or_doc (ct_doc x) (ct_doc c)\<rparr>) D))) []
      (pp_constructor (cd_name D) c @ us) (\<lambda>r. erase_class r = erase_class (add_constructor c D)) d' vs"
    by (rule parses_pbind [OF parses_constructor [OF assms]])
      (auto intro!: parses_pret erase_add_constructor redocumented_constructor)
qed (simp add: member_cases Let_def pp_constructor_def)

lemma parses_modified_method_member:
  assumes "method_ok m" and "absorb [] us = (d', vs)" and "md_is_optional m \<or> md_is_stream m"
  shows "parses (parse_member D) (md_doc m) (pp_method m @ us) (\<lambda>r. erase_class r = erase_class (add_method m D)) d' vs"
proof (rule parse_member_doc [where k = "pbind parse_method (\<lambda>x. pret (add_method (x\<lparr>md_doc := or_doc (md_doc x) (md_doc m)\<rparr>) D))"])
  show "parses (pbind parse_method (\<lambda>x. pret (add_method (x\<lparr>md_doc := or_doc (md_doc x) (md_doc m)\<rparr>) D))) []
      (pp_method m @ us) (\<lambda>r. erase_class r = erase_class (add_method m D)) d' vs"
    by (rule parses_pbind [OF parses_method [OF assms(1,2)]])
      (auto intro!: parses_pret erase_add_method redocumented_method)
qed (use assms(3) in \<open>auto simp: member_cases Let_def pp_method_def\<close>)

text \<open>What follows the first identifier of a member.\<close>

definition ident_rest :: "string \<Rightarrow> string \<Rightarrow> (method_def + property_def) pm" where
  "ident_rest n d q = (if check LParen q
     then pbind current_loc (\<lambda>loc. pbind (parse_method_rest n d loc False False) (\<lambda>m. pret (Inl m))) q
     else pbind (expect Identifier ''Expected property name'') (\<lambda>prop_name.
         pbind current_loc (\<lambda>loc.
         pbind (parse_brackets (type_of_base (User n))) (\<lambda>t.
         pbind (parse_optional_mark t) (\<lambda>t.
         pbind (expect Semicolon ''Expected ';' after property'') (\<lambda>_.
         pret (Inr \<lparr>pr_name = t_value prop_name, pr_type = t, pr_readonly = False, pr_doc = d, pr_loc = loc\<rparr>)))))) q)"

lemma parses_ident_member:
  assumes "la us \<noteq> DocComment" and "parses (ident_rest n doc) d us Q d' vs"
  shows "parses (parse_ident_member doc) d (ident n # us) Q d' vs"
proof (rule parses_eq [where n = "pbind p_advance (\<lambda>_. ident_rest n doc)"])
  show "parses (pbind p_advance (\<lambda>_. ident_rest n doc)) d (ident n # us) Q d' vs"
    by (rule parses_step) (use assms in simp_all)
qed (simp add: parse_ident_member_def Let_def ident_rest_def [abs_def])

lemma parses_ident_method:
  assumes "method_ok m" and "absorb [] us = (d', vs)" and "\<not> md_is_optional m" and "\<not> md_is_stream m"
  shows "parses (parse_ident_member (md_doc m)) [] (pp_method m @ us) (\<lambda>r. \<exists>x. r = Inl x \<and> erase_method x = erase_method m) d' vs"
proof -
  let ?rest = "pp_method_rest m @ us"
  let ?k = "pbind current_loc (\<lambda>loc. pbind (parse_method_rest (md_name m) (md_doc m) loc False False) (\<lambda>m. pret (Inl m)))"
  have la: "la ?rest = LParen" by (simp add: pp_method_rest_def pp_params_def)
  have same: "m\<lparr>md_name := md_name m, md_doc := md_doc m, md_is_optional := False, md_is_stream := False\<rparr> = m"
    using assms(3,4) by (cases m) simp
  have "parses ?k [] ?rest (\<lambda>r. \<exists>x. r = Inl x \<and> erase_method x = erase_method m) d' vs"
    by (rule parses_pbind [OF parses_current_loc], rule parses_pbind [OF parses_method_rest [OF assms(1,2)]],
        unfold same, rule parses_pret) auto
  then have "parses (ident_rest (md_name m) (md_doc m)) [] ?rest (\<lambda>r. \<exists>x. r = Inl x \<and> erase_method x = erase_method m) d' vs"
    by (rule parses_eq [rotated]) (simp add: ident_rest_def check_def la)
  then show ?thesis
    using assms(3,4) by (simp add: pp_method_def parses_ident_member la)
qed

lemma parses_plain_method_member:
  assumes "method_ok m" and "absorb [] us = (d', vs)" and "\<not> md_is_optional m" and "\<not> md_is_stream m"
    and "md_name m \<noteq> cd_name D"
  shows "parses (parse_member D) (md_doc m) (pp_method m @ us) (\<lambda>r. erase_class r = erase_class (add_method m D)) d' vs"
proof (rule parse_member_doc [where k = "pbind (parse_ident_member (md_doc m))
    (\<lambda>x. pret (case x of Inl m \<Rightarrow> add_method m D | Inr r \<Rightarrow> add_property r D))"])
  show "parses (pbind (parse_ident_member (md_doc m)) (\<lambda>x. pret (case x of Inl m \<Rightarrow> add_method m D | Inr r \<Rightarrow> add_property r D)))
      [] (pp_method m @ us) (\<lambda>r. erase_class r = erase_class (add_method m D)) d' vs"
    by (rule parses_pbind [OF parses_ident_method [OF assms(1-4)]]) (auto intro!: parses_pret erase_add_method)
qed (use assms(3-5) in \<open>simp add: member_cases Let_def pp_method_def\<close>)

lemma parses_user_property_member:
  assumes "property_ok (cd_name D) x" and "absorb [] us = (d', vs)"
    and "\<not> pr_readonly x" and "ty_base (pr_type x) = User n"
  shows "parses (parse_member D) (pr_doc x) (pp_property x @ us) (\<lambda>r. erase_class r = erase_class (add_property x D)) d' vs"
proof -
  let ?rest = "ident (pr_name x) # pp_marks (pr_type x) @ symb Semicolon # us"
  let ?k = "pbind (expect Identifier ''Expected property name'') (\<lambda>prop_name.
         pbind current_loc (\<lambda>loc.
         pbind (parse_brackets (type_of_base (User n))) (\<lambda>t.
         pbind (parse_optional_mark t) (\<lambda>t.
         pbind (expect Semicolon ''Expected ';' after property'') (\<lambda>_.
         pret (Inr \<lparr>pr_name = t_value prop_name, pr_type = t, pr_readonly = False, pr_doc = pr_doc x, pr_loc = loc\<rparr>))))))"
  let ?Q = "\<lambda>r :: method_def + property_def. \<exists>y. r = Inr y \<and> erase_property y = erase_property x"
  have t: "type_ok (pr_type x)" using assms(1) by (simp add: property_ok_def)
  have pp: "pp_property x @ us = ident n # ?rest" using assms(3,4) by (simp add: pp_property_def)
  have "la (pp_marks (pr_type x) @ symb Semicolon # us) \<noteq> DocComment"
    using la_marks [of "pr_type x" "symb Semicolon # us"] by auto
  then have "parses ?k [] ?rest ?Q d' vs"
    unfolding pbind_assoc [symmetric, of _ parse_optional_mark] assms(4) [symmetric]
    by (intro parses_next parses_pbind [OF parses_current_loc] parses_pbind [OF parses_marks [OF t]]
        parses_last [OF _ assms(2)] parses_pret)
      (use assms(3) in \<open>auto simp: erase_property_def\<close>)
  then have "parses (ident_rest n (pr_doc x)) [] ?rest ?Q d' vs"
    by (rule parses_eq [rotated]) (simp add: ident_rest_def check_def)
  then have id: "parses (parse_ident_member (pr_doc x)) [] (ident n # ?rest) ?Q d' vs"
    by (simp add: parses_ident_member)
  show ?thesis
    unfolding pp
  proof (rule parse_member_doc [where k = "pbind (parse_ident_member (pr_doc x))
      (\<lambda>x. pret (case x of Inl m \<Rightarrow> add_method m D | Inr r \<Rightarrow> add_property r D))"])
    show "parses (pbind (parse_ident_member (pr_doc x)) (\<lambda>x. pret (case x of Inl m \<Rightarrow> add_method m D | Inr r \<Rightarrow> add_property r D)))
        [] (ident n # ?rest) (\<lambda>r. erase_class r = erase_class (add_property x D)) d' vs"
      by (rule parses_pbind [OF id]) (auto intro!: parses_pret erase_add_property)
  qed (use assms(1,3,4) in \<open>auto simp: member_cases Let_def property_ok_def\<close>)
qed

lemma parses_property:
  assumes "type_ok (pr_type x)" and "absorb [] us = (d', vs)" and "pr_readonly x"
  shows "parses parse_property d (pp_property x @ us) (\<lambda>r. erase_property r = erase_property (x\<lparr>pr_doc := d\<rparr>)) d' vs"
proof -
  let ?rest = "pp_type (pr_type x) @ ident (pr_name x) # symb Semicolon # us"
  have pp: "pp_property x @ us = symb KwReadonly # ?rest" using assms(3) by (simp add: pp_property_def)
  have ro: "parses parse_readonly [] (symb KwReadonly # ?rest) (\<lambda>r. r) [] ?rest"
    by (rule parses_eq [where n = "pbind p_advance (\<lambda>_. pret True)"])
      (use la_type [of "pr_type x"] in \<open>auto simp: parse_readonly_def check_def intro!: parses_step parses_pret\<close>)
  show ?thesis
    unfolding parse_property_def pp
    by (intro parses_pbind [OF parses_current_loc] parses_pbind [OF parses_take_doc] parses_pbind [OF ro]
        parses_pbind [OF parses_type] parses_next parses_last [OF _ assms(2)] parses_pret)
      (use assms(1,3) in \<open>auto simp: erase_property_def\<close>)
qed

lemma parses_readonly_member:
  assumes "property_ok (cd_name D) x" and "absorb [] us = (d', vs)" and "pr_readonly x"
  shows "parses (parse_member D) (pr_doc x) (pp_property x @ us) (\<lambda>r. erase_class r = erase_class (add_property x D)) d' vs"
proof (rule parse_member_doc [where k = "pbind parse_property (\<lambda>y. pret (add_property (y\<lparr>pr_doc := or_doc (pr_doc y) (pr_doc x)\<rparr>) D))"])
  have t: "type_ok (pr_type x)" using assms(1) by (simp add: property_ok_def)
  show "parses (pbind parse_property (\<lambda>y. pret (add_property (y\<lparr>pr_doc := or_doc (pr_doc y) (pr_doc x)\<rparr>) D))) []
      (pp_property x @ us) (\<lambda>r. erase_class r = erase_class (add_property x D)) d' vs"
    by (rule parses_pbind [OF parses_property [OF t assms(2,3)]])
      (auto intro!: parses_pret erase_add_property redocumented_property)
qed (use assms(3) in \<open>simp add: member_cases Let_def pp_property_def\<close>)

lemma parses_primitive_property_member:
  assumes "property_ok (cd_name D) x" and "absorb [] us = (d', vs)" and "\<not> pr_readonly x"
    and "ty_base (pr_type x) = Primitive p"
  shows "parses (parse_member D) (pr_doc x) (pp_property x @ us) (\<lambda>r. erase_class r = erase_class (add_property x D)) d' vs"
proof -
  let ?rest = "pp_type (pr_type x) @ ident (pr_name x) # symb Semicolon # us"
  have pp: "pp_property x @ us = ?rest" using assms(3,4) by (simp add: pp_property_def)
  have la: "la ?rest = primitive_token p" by (simp add: pp_type_def assms(4))
  have prim: "parses (parse_primitive_property (pr_doc x)) [] ?rest (\<lambda>r. erase_property r = erase_property x) d' vs"
    unfolding parse_primitive_property_def
    by (intro parses_pbind [OF parses_type] parses_next parses_pbind [OF parses_current_loc] parses_last [OF _ assms(2)] parses_pret)
      (use assms(1,3) in \<open>auto simp: erase_property_def property_ok_def\<close>)
  have not_kw: "primitive_token p \<notin> {KwReadonly, Identifier, KwStream, KwOptional}" by (cases p) simp_all
  show ?thesis
    unfolding pp
  proof (rule parse_member_doc [where k = "pbind (parse_primitive_property (pr_doc x)) (\<lambda>y. pret (add_property y D))"])
    show "parses (pbind (parse_primitive_property (pr_doc x)) (\<lambda>y. pret (add_property y D))) [] ?rest
        (\<lambda>r. erase_class r = erase_class (add_property x D)) d' vs"
      by (rule parses_pbind [OF prim]) (auto intro!: parses_pret erase_add_property)
  qed (use not_kw in \<open>simp add: member_cases Let_def la\<close>)
qed

section \<open>Classes and files are read back\<close>

text \<open>A list of printed members, each with its documentation and what it adds.\<close>

definition member_reads :: "string \<Rightarrow> string \<times> lexeme list \<times> (class_def \<Rightarrow> class_def) \<Rightarrow> bool" where
  "member_reads name = (\<lambda>(doc, body, f). doc_ok doc
    \<and> (\<forall>us. la (body @ us) \<notin> {DocComment, RBrace, Eof})
    \<and> (\<forall>D E. erase_class D = erase_class E \<longrightarrow> erase_class (f D) = erase_class (f E) \<and> cd_name (f D) = cd_name D)
    \<and> (\<forall>D us d' vs. cd_name D = name \<longrightarrow> absorb [] us = (d', vs)
        \<longrightarrow> parses (parse_member D) doc (body @ us) (\<lambda>r. erase_class r = erase_class (f D)) d' vs))"

lemma erase_class_name: "erase_class D = erase_class E \<Longrightarrow> cd_name D = cd_name E"
  by (cases D; cases E) (simp add: erase_class_def)

lemma parses_members:
  assumes "list_all (member_reads name) ms" and "cd_name D = name" and "erase_class D = erase_class E"
    and "absorb [] (concat (map (\<lambda>(doc, body, f). documented doc body) ms) @ symb RBrace # us) = (d, ts)"
  shows "parses (parse_members D) d ts (\<lambda>r. erase_class r = erase_class (fold (\<lambda>(doc, body, f). f) ms E)) [] (symb RBrace # us)"
  using assms
proof (induction ms arbitrary: D E d ts)
  case Nil
  then have s: "d = []" "ts = symb RBrace # us" by (simp_all add: absorb_la)
  show ?case
  proof (rule parses_eq [where n = "pret D"])
    show "parse_members D p = pret D p" if "t_type (p_token p) = la ts" for p
      using that by (subst parse_members.simps) (simp add: check_def pret_apply s)
  qed (use Nil.prems(3) in \<open>auto intro: parses_pret simp: s\<close>)
next
  case (Cons m ms)
  obtain doc body f where m: "m = (doc, body, f)" by (cases m)
  let ?rest = "concat (map (\<lambda>(doc, body, f). documented doc body) ms) @ symb RBrace # us"
  obtain d' vs where ab: "absorb [] ?rest = (d', vs)" by fastforce
  have "member_reads name (doc, body, f)" using Cons.prems(1) by (simp add: m)
  then have reads: "doc_ok doc" "\<And>us. la (body @ us) \<notin> {DocComment, RBrace, Eof}"
    "\<And>D E. erase_class D = erase_class E \<Longrightarrow> erase_class (f D) = erase_class (f E) \<and> cd_name (f D) = cd_name D"
    "parses (parse_member D) doc (body @ ?rest) (\<lambda>r. erase_class r = erase_class (f D)) d' vs"
    using ab Cons.prems(2) unfolding member_reads_def prod.case by blast+
  have s: "d = doc" "ts = body @ ?rest"
    using Cons.prems(4) absorb_documented [OF reads(1), of body ?rest] reads(2) [of ?rest] by (simp_all add: m)
  show ?case
  proof (rule parses_eq [where n = "pbind (parse_member D) parse_members"])
    show "parse_members D p = pbind (parse_member D) parse_members p" if "t_type (p_token p) = la ts" for p
      using that reads(2) [of ?rest] by (subst parse_members.simps) (simp add: check_def p_at_end_def s)
    have "parses (parse_members x) d' vs
        (\<lambda>r. erase_class r = erase_class (fold (\<lambda>(doc, body, f). f) ms (f E))) [] (symb RBrace # us)"
      if "erase_class x = erase_class (f D)" for x
      using that Cons.IH [OF _ _ _ ab, of x "f E"] Cons.prems(1-3) reads(3) [of D E] erase_class_name [OF that] by simp
    then show "parses (pbind (parse_member D) parse_members) d ts
        (\<lambda>r. erase_class r = erase_class (fold (\<lambda>(doc, body, f). f) (m # ms) E)) [] (symb RBrace # us)"
      unfolding s by (auto simp: m intro!: parses_pbind [OF reads(4)])
  qed
qed

definition class_members :: "class_def \<Rightarrow> (string \<times> lexeme list \<times> (class_def \<Rightarrow> class_def)) list" where
  "class_members c = map (\<lambda>x. (pr_doc x, pp_property x, add_property x)) (cd_properties c)
    @ map (\<lambda>x. (ct_doc x, pp_constructor (cd_name c) x, add_constructor x)) (cd_constructors c)
    @ map (\<lambda>m. (md_doc m, pp_method m, add_method m)) (cd_methods c)"

lemma fold_members:
  "fold (\<lambda>(doc, body, f). f) (map (\<lambda>x. (g x, h x, add_property x)) xs) D = D\<lparr>cd_properties := cd_properties D @ xs\<rparr>"
  "fold (\<lambda>(doc, body, f). f) (map (\<lambda>x. (g2 x, h2 x, add_constructor x)) ys) D = D\<lparr>cd_constructors := cd_constructors D @ ys\<rparr>"
  "fold (\<lambda>(doc, body, f). f) (map (\<lambda>x. (g3 x, h3 x, add_method x)) zs) D = D\<lparr>cd_methods := cd_methods D @ zs\<rparr>"
  subgoal by (induction xs arbitrary: D) (simp_all add: add_property_def)
  subgoal by (induction ys arbitrary: D) (simp_all add: add_constructor_def)
  subgoal by (induction zs arbitrary: D) (simp_all add: add_method_def)
  done

lemma erase_adds:
  "erase_class D = erase_class E \<Longrightarrow> erase_class (add_property x D) = erase_class (add_property x E) \<and> cd_name (add_property x D) = cd_name D"
  "erase_class D = erase_class E \<Longrightarrow> erase_class (add_constructor y D) = erase_class (add_constructor y E) \<and> cd_name (add_constructor y D) = cd_name D"
  "erase_class D = erase_class E \<Longrightarrow> erase_class (add_method z D) = erase_class (add_method z E) \<and> cd_name (add_method z D) = cd_name D"
  by (cases D; cases E; simp add: erase_class_def add_property_def add_constructor_def add_method_def)+

lemma la_property: "la (pp_property x @ us) \<notin> {DocComment, RBrace, Eof}"
  using la_type [of "pr_type x" "ident (pr_name x) # symb Semicolon # us"]
  by (auto simp: pp_property_def split: bool.splits base_type.splits)

lemma la_constructor: "la (pp_constructor name x @ us) \<notin> {DocComment, RBrace, Eof}"
  by (simp add: pp_constructor_def)

lemma class_members_read: "class_ok c \<Longrightarrow> list_all (member_reads (cd_name c)) (class_members c)"
proof -
  assume ok: "class_ok c"
  have p: "member_reads (cd_name c) (pr_doc x, pp_property x, add_property x)" if "x \<in> set (cd_properties c)" for x
  proof -
    have x: "property_ok (cd_name c) x" using ok that by (simp add: class_ok_def list_all_iff)
    then have "doc_ok (pr_doc x)" by (simp add: property_ok_def)
    moreover have "parses (parse_member D) (pr_doc x) (pp_property x @ us) (\<lambda>r. erase_class r = erase_class (add_property x D)) d' vs"
      if "cd_name D = cd_name c" "absorb [] us = (d', vs)" for D us d' vs
    proof -
      have xD: "property_ok (cd_name D) x" using x that(1) by simp
      show ?thesis
      proof (cases "pr_readonly x")
        case True
        then show ?thesis by (rule parses_readonly_member [OF xD that(2)])
      next
        case False
        show ?thesis
        proof (cases "ty_base (pr_type x)")
          case (Primitive q)
          with False show ?thesis by (rule parses_primitive_property_member [OF xD that(2)])
        next
          case (User n)
          with False show ?thesis by (rule parses_user_property_member [OF xD that(2)])
        qed
      qed
    qed
    ultimately show ?thesis
      unfolding member_reads_def prod.case using la_property [of x] erase_adds(1) by blast
  qed
  have t: "member_reads (cd_name c) (ct_doc x, pp_constructor (cd_name c) x, add_constructor x)"
    if "x \<in> set (cd_constructors c)" for x
  proof -
    have x: "constructor_ok x" using ok that by (simp add: class_ok_def list_all_iff)
    then have "doc_ok (ct_doc x)" by (simp add: constructor_ok_def)
    moreover have "parses (parse_member D) (ct_doc x) (pp_constructor (cd_name c) x @ us)
        (\<lambda>r. erase_class r = erase_class (add_constructor x D)) d' vs"
      if "cd_name D = cd_name c" "absorb [] us = (d', vs)" for D us d' vs
      using parses_constructor_member [OF x that(2), of D] that(1) by simp
    ultimately show ?thesis
      unfolding member_reads_def prod.case using la_constructor [of "cd_name c" x] erase_adds(2) by blast
  qed
  have m: "member_reads (cd_name c) (md_doc x, pp_method x, add_method x)" if "x \<in> set (cd_methods c)" for x
  proof -
    have x: "method_ok x" "md_name x = cd_name c \<longrightarrow> md_is_optional x \<or> md_is_stream x"
      using ok that by (auto simp: class_ok_def list_all_iff)
    then have "doc_ok (md_doc x)" by (simp add: method_ok_def)
    moreover have "parses (parse_member D) (md_doc x) (pp_method x @ us) (\<lambda>r. erase_class r = erase_class (add_method x D)) d' vs"
      if "cd_name D = cd_name c" "absorb [] us = (d', vs)" for D us d' vs
      using x parses_modified_method_member [OF x(1) that(2)] parses_plain_method_member [OF x(1) that(2)] that(1)
      by (cases "md_is_optional x \<or> md_is_stream x") auto
    ultimately show ?thesis
      unfolding member_reads_def prod.case using la_method [of x] erase_adds(3) by blast
  qed
  from p t m show ?thesis by (auto simp: class_members_def list_all_iff)
qed

lemma pp_class_members:
  "pp_class c = [symb KwClass, ident (cd_name c)] @ pp_inherited (cd_base c) @ [symb LBrace]
    @ concat (map (\<lambda>(doc, body, f). documented doc body) (class_members c)) @ [symb RBrace]"
  by (simp add: pp_class_def class_members_def pp_methods_def comp_def)

lemma parses_class:
  assumes "class_ok c" and "absorb [] us = (d', vs)"
  shows "parses parse_class d (pp_class c @ us) (\<lambda>r. erase_class r = erase_class (c\<lparr>cd_doc := d\<rparr>)) d' vs"
proof -
  obtain d1 ts where ab: "absorb [] (concat (map (\<lambda>(doc, body, f). documented doc body) (class_members c)) @ symb RBrace # us) = (d1, ts)"
    by fastforce
  let ?new = "\<lambda>loc. \<lparr>cd_name = cd_name c, cd_base = cd_base c, cd_properties = [], cd_constructors = [],
    cd_methods = [], cd_doc = d, cd_loc = loc\<rparr>"
  have all: "fold (\<lambda>(doc, body, f). f) (class_members c) (?new (cd_loc c)) = c\<lparr>cd_doc := d\<rparr>"
    by (cases c) (simp add: class_members_def fold_members)
  have "parses (parse_members (?new loc)) d1 ts (\<lambda>r. erase_class r = erase_class (c\<lparr>cd_doc := d\<rparr>)) [] (symb RBrace # us)" for loc
    using parses_members [OF class_members_read [OF assms(1)] _ _ ab, of "?new loc" "?new (cd_loc c)"]
    by (simp add: all erase_class_def)
  then have members: "parses (parse_members \<lparr>cd_name = t_value name, cd_base = b, cd_properties = [], cd_constructors = [],
    cd_methods = [], cd_doc = doc, cd_loc = loc\<rparr>) d1 ts (\<lambda>r. erase_class r = erase_class (c\<lparr>cd_doc := d\<rparr>)) [] (symb RBrace # us)"
    if "lexeme_of name = ident (cd_name c)" "b = cd_base c" "doc = d" for name b doc loc
    using that by simp
  show ?thesis
    unfolding parse_class_def pp_class_members append_assoc append.simps
    by (rule parses_pbind [OF parses_current_loc], rule parses_pbind [OF parses_take_doc], rule parses_next, simp, simp,
        rule parses_next, simp, simp, rule parses_pbind [OF parses_inherited], simp, rule parses_last [OF _ ab], simp,
        rule parses_pbind [OF members], assumption, assumption, assumption,
        rule parses_last [OF _ assms(2)], simp, rule parses_pret)
qed

text \<open>The definitions of a file.\<close>

definition add_struct :: "struct_def \<Rightarrow> namespace_def \<Rightarrow> namespace_def" where
  "add_struct x n = n\<lparr>ns_structs := ns_structs n @ [x]\<rparr>"
definition add_enum :: "enum_def \<Rightarrow> namespace_def \<Rightarrow> namespace_def" where
  "add_enum x n = n\<lparr>ns_enums := ns_enums n @ [x]\<rparr>"
definition add_class :: "class_def \<Rightarrow> namespace_def \<Rightarrow> namespace_def" where
  "add_class x n = n\<lparr>ns_classes := ns_classes n @ [x]\<rparr>"
definition add_service :: "service_def \<Rightarrow> namespace_def \<Rightarrow> namespace_def" where
  "add_service x n = n\<lparr>ns_services := ns_services n @ [x]\<rparr>"
definition add_error :: "error_def \<Rightarrow> namespace_def \<Rightarrow> namespace_def" where
  "add_error x n = n\<lparr>ns_errors := ns_errors n @ [x]\<rparr>"

lemmas add_defs = add_struct_def add_enum_def add_class_def add_service_def add_error_def

lemma parses_definition:
  assumes "parses m [] (body @ us) Q d' vs" and "\<And>x. Q x \<Longrightarrow> erase_namespace (h x) = erase_namespace (f D)"
    and "\<And>p. t_type (p_token p) = la (body @ us) \<Longrightarrow> parse_definition D (p\<lparr>p_doc := d\<rparr>) = pbind m (\<lambda>x. pret (h x)) (p\<lparr>p_doc := []\<rparr>)"
  shows "parses (parse_definition D) d (body @ us) (\<lambda>r. erase_namespace r = erase_namespace (f D)) d' vs"
  unfolding parses_def
proof (intro allI impI)
  fix p assume s: "sees p d (body @ us)"
  then have "sees (p\<lparr>p_doc := []\<rparr>) [] (body @ us)" by (auto simp: sees_def split: list.splits)
  then obtain x p' where x: "m (p\<lparr>p_doc := []\<rparr>) = Inr (x, p')" "Q x" "sees p' d' vs"
    using assms(1) by (auto simp: parses_def)
  have "parse_definition D p = pbind m (\<lambda>x. pret (h x)) (p\<lparr>p_doc := []\<rparr>)"
    using assms(3) [of p] s by (auto simp: sees_def split: list.splits)
  with x assms(2) show "\<exists>x p'. parse_definition D p = Inr (x, p') \<and> erase_namespace x = erase_namespace (f D) \<and> sees p' d' vs"
    by (simp add: pbind_apply pret_apply)
qed

definition definition_reads :: "string \<times> lexeme list \<times> (namespace_def \<Rightarrow> namespace_def) \<Rightarrow> bool" where
  "definition_reads = (\<lambda>(doc, body, f). doc_ok doc \<and> (\<forall>us. la (body @ us) \<notin> {DocComment, Eof})
    \<and> (\<forall>D E. erase_namespace D = erase_namespace E \<longrightarrow> erase_namespace (f D) = erase_namespace (f E))
    \<and> (\<forall>D us d' vs. absorb [] us = (d', vs)
        \<longrightarrow> parses (parse_definition D) doc (body @ us) (\<lambda>r. erase_namespace r = erase_namespace (f D)) d' vs))"

lemma parse_definition_doc:
  "parse_definition D (p\<lparr>p_doc := d\<rparr>) = (let q = p\<lparr>p_doc := []\<rparr> in
     if check KwStruct q then pbind parse_struct (\<lambda>x. pret (add_struct (x\<lparr>sd_doc := or_doc (sd_doc x) d\<rparr>) D)) q
     else if check KwEnum q then pbind (parse_enum False) (\<lambda>x. pret (add_enum (x\<lparr>ed_doc := or_doc (ed_doc x) d\<rparr>) D)) q
     else if check KwFlags q then pbind (parse_enum True) (\<lambda>x. pret (add_enum (x\<lparr>ed_doc := or_doc (ed_doc x) d\<rparr>) D)) q
     else if check KwClass q then pbind parse_class (\<lambda>x. pret (add_class (x\<lparr>cd_doc := or_doc (cd_doc x) d\<rparr>) D)) q
     else if check KwService q then pbind parse_service (\<lambda>x. pret (add_service (x\<lparr>sv_doc := or_doc (sv_doc x) d\<rparr>) D)) q
     else if check KwError q then pbind parse_error (\<lambda>x. pret (add_error (x\<lparr>er_doc := or_doc (er_doc x) d\<rparr>) D)) q
     else parse_fail ''Expected definition (struct, enum, flags, class, service, or error)'' q)"
  by (simp add: parse_definition_def pbind_apply take_doc_def Let_def add_defs)

lemma erase_add:
  "erase_namespace D = erase_namespace E \<Longrightarrow> erase_namespace (add_struct s D) = erase_namespace (add_struct s E)"
  "erase_namespace D = erase_namespace E \<Longrightarrow> erase_namespace (add_enum e D) = erase_namespace (add_enum e E)"
  "erase_namespace D = erase_namespace E \<Longrightarrow> erase_namespace (add_class c D) = erase_namespace (add_class c E)"
  "erase_namespace D = erase_namespace E \<Longrightarrow> erase_namespace (add_service v D) = erase_namespace (add_service v E)"
  "erase_namespace D = erase_namespace E \<Longrightarrow> erase_namespace (add_error x D) = erase_namespace (add_error x E)"
  by (cases D; cases E; simp add: erase_namespace_def add_defs)+

lemma redocumented:
  "erase_struct x = erase_struct (s\<lparr>sd_doc := []\<rparr>) \<Longrightarrow>
    erase_namespace (add_struct (x\<lparr>sd_doc := or_doc (sd_doc x) (sd_doc s)\<rparr>) D) = erase_namespace (add_struct s D)"
  "erase_enum y = erase_enum (e\<lparr>ed_doc := []\<rparr>) \<Longrightarrow>
    erase_namespace (add_enum (y\<lparr>ed_doc := or_doc (ed_doc y) (ed_doc e)\<rparr>) D) = erase_namespace (add_enum e D)"
  "erase_class z = erase_class (c\<lparr>cd_doc := []\<rparr>) \<Longrightarrow>
    erase_namespace (add_class (z\<lparr>cd_doc := or_doc (cd_doc z) (cd_doc c)\<rparr>) D) = erase_namespace (add_class c D)"
  "erase_service u = erase_service (v\<lparr>sv_doc := []\<rparr>) \<Longrightarrow>
    erase_namespace (add_service (u\<lparr>sv_doc := or_doc (sv_doc u) (sv_doc v)\<rparr>) D) = erase_namespace (add_service v D)"
  "erase_error w = erase_error (r\<lparr>er_doc := []\<rparr>) \<Longrightarrow>
    erase_namespace (add_error (w\<lparr>er_doc := or_doc (er_doc w) (er_doc r)\<rparr>) D) = erase_namespace (add_error r D)"
  subgoal by (cases x; cases s) (simp add: erase_namespace_def add_defs erase_struct_def or_doc_def)
  subgoal by (cases y; cases e) (simp add: erase_namespace_def add_defs erase_enum_def or_doc_def)
  subgoal by (cases z; cases c) (simp add: erase_namespace_def add_defs erase_class_def or_doc_def)
  subgoal by (cases u; cases v) (simp add: erase_namespace_def add_defs erase_service_def or_doc_def)
  subgoal by (cases w; cases r) (simp add: erase_namespace_def add_defs erase_error_def or_doc_def)
  done

lemma struct_reads:
  assumes ok: "struct_ok s"
  shows "definition_reads (sd_doc s, pp_struct s, add_struct s)"
proof -
  have reads: "parses (parse_definition D) (sd_doc s) (pp_struct s @ us)
      (\<lambda>r. erase_namespace r = erase_namespace (add_struct s D)) d' vs" if "absorb [] us = (d', vs)" for D us d' vs
    by (rule parses_definition [where h = "\<lambda>y. add_struct (y\<lparr>sd_doc := or_doc (sd_doc y) (sd_doc s)\<rparr>) D" and f = "add_struct s",
          OF parses_struct [OF ok that] redocumented(1)])
      (auto simp: parse_definition_doc Let_def pp_struct_def)
  show ?thesis
    unfolding definition_reads_def prod.case
    by (intro conjI allI impI)
      (use ok in \<open>simp add: struct_ok_def\<close>, simp add: pp_struct_def, erule erase_add, erule reads)
qed

lemma enum_reads:
  assumes ok: "enum_ok e"
  shows "definition_reads (ed_doc e, pp_enum e, add_enum e)"
proof -
  have reads: "parses (parse_definition D) (ed_doc e) (pp_enum e @ us)
      (\<lambda>r. erase_namespace r = erase_namespace (add_enum e D)) d' vs" if "absorb [] us = (d', vs)" for D us d' vs
    by (rule parses_definition [where h = "\<lambda>y. add_enum (y\<lparr>ed_doc := or_doc (ed_doc y) (ed_doc e)\<rparr>) D" and f = "add_enum e",
          OF parses_enum [OF ok that] redocumented(2)])
      (auto simp: parse_definition_doc Let_def pp_enum_def)
  show ?thesis
    unfolding definition_reads_def prod.case
    by (intro conjI allI impI)
      (use ok in \<open>simp add: enum_ok_def\<close>, simp add: pp_enum_def, erule erase_add, erule reads)
qed

lemma class_reads:
  assumes ok: "class_ok c"
  shows "definition_reads (cd_doc c, pp_class c, add_class c)"
proof -
  have reads: "parses (parse_definition D) (cd_doc c) (pp_class c @ us)
      (\<lambda>r. erase_namespace r = erase_namespace (add_class c D)) d' vs" if "absorb [] us = (d', vs)" for D us d' vs
    by (rule parses_definition [where h = "\<lambda>y. add_class (y\<lparr>cd_doc := or_doc (cd_doc y) (cd_doc c)\<rparr>) D" and f = "add_class c",
          OF parses_class [OF ok that] redocumented(3)])
      (auto simp: parse_definition_doc Let_def pp_class_def)
  show ?thesis
    unfolding definition_reads_def prod.case
    by (intro conjI allI impI)
      (use ok in \<open>simp add: class_ok_def\<close>, simp add: pp_class_def, erule erase_add, erule reads)
qed

lemma service_reads:
  assumes ok: "service_ok v"
  shows "definition_reads (sv_doc v, pp_service v, add_service v)"
proof -
  have reads: "parses (parse_definition D) (sv_doc v) (pp_service v @ us)
      (\<lambda>r. erase_namespace r = erase_namespace (add_service v D)) d' vs" if "absorb [] us = (d', vs)" for D us d' vs
    by (rule parses_definition [where h = "\<lambda>y. add_service (y\<lparr>sv_doc := or_doc (sv_doc y) (sv_doc v)\<rparr>) D" and f = "add_service v",
          OF parses_service [OF ok that] redocumented(4)])
      (auto simp: parse_definition_doc Let_def pp_service_def)
  show ?thesis
    unfolding definition_reads_def prod.case
    by (intro conjI allI impI)
      (use ok in \<open>simp add: service_ok_def\<close>, simp add: pp_service_def, erule erase_add, erule reads)
qed

lemma error_reads:
  assumes ok: "error_ok x"
  shows "definition_reads (er_doc x, pp_error x, add_error x)"
proof -
  have reads: "parses (parse_definition D) (er_doc x) (pp_error x @ us)
      (\<lambda>r. erase_namespace r = erase_namespace (add_error x D)) d' vs" if "absorb [] us = (d', vs)" for D us d' vs
    by (rule parses_definition [where h = "\<lambda>y. add_error (y\<lparr>er_doc := or_doc (er_doc y) (er_doc x)\<rparr>) D" and f = "add_error x",
          OF parses_error [OF ok that] redocumented(5)])
      (auto simp: parse_definition_doc Let_def pp_error_def)
  show ?thesis
    unfolding definition_reads_def prod.case
    by (intro conjI allI impI)
      (use ok in \<open>simp add: error_ok_def\<close>, simp add: pp_error_def, erule erase_add, erule reads)
qed

lemma parses_definitions:
  assumes "list_all definition_reads ms" and "erase_namespace D = erase_namespace E"
    and "absorb [] (concat (map (\<lambda>(doc, body, f). documented doc body) ms)) = (d, ts)"
  shows "parses (parse_definitions D) d ts (\<lambda>r. erase_namespace r = erase_namespace (fold (\<lambda>(doc, body, f). f) ms E)) [] []"
  using assms
proof (induction ms arbitrary: D E d ts)
  case Nil
  then have s: "d = []" "ts = []" by simp_all
  show ?case
  proof (rule parses_eq [where n = "pret D"])
    show "parse_definitions D p = pret D p" if "t_type (p_token p) = la ts" for p
      using that by (subst parse_definitions.simps) (simp add: p_at_end_def pret_apply s)
  qed (use Nil.prems(2) in \<open>auto intro: parses_pret simp: s\<close>)
next
  case (Cons m ms)
  obtain doc body f where m: "m = (doc, body, f)" by (cases m)
  let ?rest = "concat (map (\<lambda>(doc, body, f). documented doc body) ms)"
  obtain d' vs where ab: "absorb [] ?rest = (d', vs)" by fastforce
  have "definition_reads (doc, body, f)" using Cons.prems(1) by (simp add: m)
  then have reads: "doc_ok doc" "\<And>us. la (body @ us) \<notin> {DocComment, Eof}"
    "\<And>D E. erase_namespace D = erase_namespace E \<Longrightarrow> erase_namespace (f D) = erase_namespace (f E)"
    "parses (parse_definition D) doc (body @ ?rest) (\<lambda>r. erase_namespace r = erase_namespace (f D)) d' vs"
    using ab unfolding definition_reads_def prod.case by blast+
  have s: "d = doc" "ts = body @ ?rest"
    using Cons.prems(3) absorb_documented [OF reads(1), of body ?rest] reads(2) [of ?rest] by (simp_all add: m)
  show ?case
  proof (rule parses_eq [where n = "pbind (parse_definition D) parse_definitions"])
    show "parse_definitions D p = pbind (parse_definition D) parse_definitions p" if "t_type (p_token p) = la ts" for p
      using that reads(2) [of ?rest] by (subst parse_definitions.simps) (simp add: p_at_end_def s)
    have "parses (parse_definitions x) d' vs
        (\<lambda>r. erase_namespace r = erase_namespace (fold (\<lambda>(doc, body, f). f) ms (f E))) [] []"
      if "erase_namespace x = erase_namespace (f D)" for x
      using that Cons.IH [OF _ _ ab, of x "f E"] Cons.prems(1,2) reads(3) [of D E] by simp
    then show "parses (pbind (parse_definition D) parse_definitions) d ts
        (\<lambda>r. erase_namespace r = erase_namespace (fold (\<lambda>(doc, body, f). f) (m # ms) E)) [] []"
      unfolding s by (auto simp: m intro!: parses_pbind [OF reads(4)])
  qed
qed

section \<open>The printed text is lexed\<close>

lemma symb_ok: "ty \<notin> {Identifier, Integer, DocComment, Eof} \<Longrightarrow> lexeme_ok (symb ty)"
  by (cases ty) (simp_all add: symb_def keyword_table_def punctuation_def)

lemma ident_ok [simp]: "lexeme_ok (ident n) = is_identifier n"
  by (simp add: ident_def)

lemma doc_lexemes [simp]: "list_all lexeme_ok (pp_doc d)"
  using doc_lines_clean [of d] by (simp add: pp_doc_def list_all_iff)

lemma documented_lexemes [simp]: "list_all lexeme_ok (documented d ts) = list_all lexeme_ok ts"
  by (simp add: documented_def)

lemma list_all_concat_map: "list_all P (concat (map f xs)) = list_all (\<lambda>x. list_all P (f x)) xs"
  by (induction xs) auto

lemma commas_lexemes: "list_all (\<lambda>x. list_all lexeme_ok x) xss \<Longrightarrow> list_all lexeme_ok (commas xss)"
  by (cases xss) (auto simp: list_all_iff symb_ok)

lemma marks_lexemes [simp]: "list_all lexeme_ok (pp_marks t)"
  by (auto simp: pp_marks_def list_all_iff symb_ok)

lemma type_lexemes: "type_ok t \<Longrightarrow> list_all lexeme_ok (pp_type t)"
proof (cases "ty_base t")
  case (Primitive p)
  then show ?thesis by (cases p) (simp_all add: pp_type_def symb_ok)
qed (simp add: type_ok_def pp_type_def)

lemma params_lexemes: "list_all param_ok ps \<Longrightarrow> list_all lexeme_ok (pp_params ps)"
  by (auto simp: pp_params_def symb_ok list_all_iff [of param_ok] list_all_iff [of "list_all lexeme_ok"]
      param_ok_def pp_param_def type_lexemes intro!: commas_lexemes)

lemma fields_lexemes: "list_all field_ok fs \<Longrightarrow> list_all lexeme_ok (pp_fields fs)"
  unfolding pp_fields_def list_all_concat_map
  by (erule list.pred_mono_strong) (simp add: field_ok_def pp_field_def symb_ok type_lexemes)

lemma inherited_lexemes: "base_ok b \<Longrightarrow> list_all lexeme_ok (pp_inherited b)"
  by (auto simp: base_ok_def pp_inherited_def symb_ok split: option.splits)

lemma throws_lexemes: "list_all is_identifier es \<Longrightarrow> list_all lexeme_ok (pp_throws es)"
  by (auto simp: pp_throws_def symb_ok list_all_iff [of "list_all lexeme_ok"] list_all_iff [of is_identifier] intro!: commas_lexemes)

lemma method_lexemes: "method_ok m \<Longrightarrow> list_all lexeme_ok (pp_method m)"
  by (auto simp: method_ok_def pp_method_def pp_method_rest_def symb_ok params_lexemes type_lexemes throws_lexemes)

lemma methods_lexemes: "list_all method_ok ms \<Longrightarrow> list_all lexeme_ok (pp_methods ms)"
  unfolding pp_methods_def list_all_concat_map
  by (erule list.pred_mono_strong) (simp add: method_lexemes)

lemma struct_lexemes: "struct_ok s \<Longrightarrow> list_all lexeme_ok (pp_struct s)"
  by (simp add: struct_ok_def pp_struct_def symb_ok inherited_lexemes fields_lexemes)

lemma error_lexemes: "error_ok s \<Longrightarrow> list_all lexeme_ok (pp_error s)"
  by (simp add: error_ok_def pp_error_def symb_ok inherited_lexemes fields_lexemes)

lemma service_lexemes: "service_ok s \<Longrightarrow> list_all lexeme_ok (pp_service s)"
  by (simp add: service_ok_def pp_service_def symb_ok methods_lexemes)

lemma item_lexemes: "item_ok e \<Longrightarrow> list_all lexeme_ok (pp_item e)"
  by (auto simp: item_ok_def pp_item_def symb_ok unat_number split: option.splits)

lemma enum_lexemes: "enum_ok e \<Longrightarrow> list_all lexeme_ok (pp_enum e)"
  by (auto simp: enum_ok_def pp_enum_def symb_ok list_all_iff [of item_ok] list_all_iff [of "list_all lexeme_ok"]
      item_lexemes intro!: commas_lexemes)

lemma property_lexemes: "property_ok n x \<Longrightarrow> list_all lexeme_ok (pp_property x)"
  by (auto simp: property_ok_def pp_property_def symb_ok type_lexemes type_ok_def split: bool.splits base_type.splits)

lemma class_lexemes: "class_ok c \<Longrightarrow> list_all lexeme_ok (pp_class c)"
proof -
  assume ok: "class_ok c"
  have "list_all lexeme_ok (concat (map (\<lambda>x. documented (pr_doc x) (pp_property x)) (cd_properties c)))"
    "list_all lexeme_ok (concat (map (\<lambda>x. documented (ct_doc x) (pp_constructor (cd_name c) x)) (cd_constructors c)))"
    "list_all lexeme_ok (pp_methods (cd_methods c))"
    using ok by (auto simp: class_ok_def list_all_concat_map list_all_iff [of "property_ok (cd_name c)"]
        list_all_iff [of constructor_ok] list_all_iff [of "\<lambda>x. list_all lexeme_ok (f x)" for f] property_lexemes
        constructor_ok_def pp_constructor_def symb_ok params_lexemes list_all_iff [of "\<lambda>m. method_ok m \<and> P m" for P]
        list_all_iff [of method_ok] intro!: methods_lexemes)
  with ok show ?thesis by (simp add: class_ok_def pp_class_def symb_ok inherited_lexemes)
qed

lemma namespace_lexemes: "namespace_ok n \<Longrightarrow> list_all lexeme_ok (pp_namespace n)"
  by (auto simp: namespace_ok_def pp_namespace_def symb_ok list_all_concat_map
      struct_lexemes enum_lexemes class_lexemes service_lexemes error_lexemes elim!: list.pred_mono_strong)

definition namespace_parts :: "namespace_def \<Rightarrow> (string \<times> lexeme list \<times> (namespace_def \<Rightarrow> namespace_def)) list" where
  "namespace_parts n = map (\<lambda>x. (sd_doc x, pp_struct x, add_struct x)) (ns_structs n)
    @ map (\<lambda>x. (ed_doc x, pp_enum x, add_enum x)) (ns_enums n)
    @ map (\<lambda>x. (cd_doc x, pp_class x, add_class x)) (ns_classes n)
    @ map (\<lambda>x. (sv_doc x, pp_service x, add_service x)) (ns_services n)
    @ map (\<lambda>x. (er_doc x, pp_error x, add_error x)) (ns_errors n)"

lemma fold_parts:
  "fold (\<lambda>(doc, body, f). f) (map (\<lambda>x. (g1 x, h1 x, add_struct x)) ss) D = D\<lparr>ns_structs := ns_structs D @ ss\<rparr>"
  "fold (\<lambda>(doc, body, f). f) (map (\<lambda>x. (g2 x, h2 x, add_enum x)) es) D = D\<lparr>ns_enums := ns_enums D @ es\<rparr>"
  "fold (\<lambda>(doc, body, f). f) (map (\<lambda>x. (g3 x, h3 x, add_class x)) cs) D = D\<lparr>ns_classes := ns_classes D @ cs\<rparr>"
  "fold (\<lambda>(doc, body, f). f) (map (\<lambda>x. (g4 x, h4 x, add_service x)) vs) D = D\<lparr>ns_services := ns_services D @ vs\<rparr>"
  "fold (\<lambda>(doc, body, f). f) (map (\<lambda>x. (g5 x, h5 x, add_error x)) rs) D = D\<lparr>ns_errors := ns_errors D @ rs\<rparr>"
  subgoal by (induction ss arbitrary: D) (simp_all add: add_defs)
  subgoal by (induction es arbitrary: D) (simp_all add: add_defs)
  subgoal by (induction cs arbitrary: D) (simp_all add: add_defs)
  subgoal by (induction vs arbitrary: D) (simp_all add: add_defs)
  subgoal by (induction rs arbitrary: D) (simp_all add: add_defs)
  done

lemma namespace_parts_read: "namespace_ok n \<Longrightarrow> list_all definition_reads (namespace_parts n)"
  by (auto simp: namespace_ok_def namespace_parts_def list_all_iff
      intro: struct_reads enum_reads class_reads service_reads error_reads)

lemma parses_ast:
  assumes "namespace_ok n"
  shows "parses parse_ast [] (pp_namespace n) (\<lambda>a. map erase_namespace (ast_namespaces a) = [erase_namespace n]) [] []"
proof -
  let ?parts = "concat (map (\<lambda>(doc, body, f). documented doc body) (namespace_parts n))"
  let ?new = "\<lambda>loc. \<lparr>ns_name = ns_name n, ns_enums = [], ns_structs = [], ns_classes = [], ns_services = [],
      ns_errors = [], ns_loc = loc\<rparr>"
  obtain d ts where ab: "absorb [] ?parts = (d, ts)" by fastforce
  have pp: "pp_namespace n = symb KwNamespace # ident (ns_name n) # symb Semicolon # ?parts"
    by (simp add: pp_namespace_def namespace_parts_def comp_def)
  have ns: "parses parse_namespace [] (pp_namespace n) (\<lambda>r. \<exists>loc. r = ?new loc) d ts"
    unfolding parse_namespace_def pp
    by (intro parses_pbind [OF parses_current_loc] parses_next parses_last [OF _ ab] parses_pret) auto
  have "fold (\<lambda>(doc, body, f). f) (namespace_parts n) (?new (ns_loc n)) = n"
    by (cases n) (simp add: namespace_parts_def fold_parts)
  then have "parses (parse_definitions (?new loc)) d ts (\<lambda>r. erase_namespace r = erase_namespace n) [] []" for loc
    using parses_definitions [OF namespace_parts_read [OF assms] _ ab, of "?new loc" "?new (ns_loc n)"]
    by (simp add: erase_namespace_def)
  then have "parses (pbind (parse_definitions x) (\<lambda>ns. pret \<lparr>ast_namespaces = [ns]\<rparr>)) d ts
      (\<lambda>a. map erase_namespace (ast_namespaces a) = [erase_namespace n]) [] []" if "\<exists>loc. x = ?new loc" for x
    using that by (auto intro!: parses_pbind [where Q = "\<lambda>r. erase_namespace r = erase_namespace n"] parses_pret)
  then show ?thesis
    unfolding parse_ast_def by (rule parses_pbind [OF ns])
qed

text \<open>Claim C10. Printing and parsing are inverse: the text that the printer makes of a well-formed
  namespace, with its documentation comments, is lexed and parsed without an error, and the
  result is that namespace, source locations apart, with everything in its order. A well-formed
  namespace may have every kind of definition, with inheritance, error clauses, constructors and
  modifiers, and types with any number of array dimensions and an optional mark; left out are
  the class members that the parser takes for constructors: a writable property whose type is
  its own class, and a method without a modifier that has the name of its class. The
  printer writes what the parser reads, which is not all that is documented: the brackets and the
  mark of a writable property of user-defined type stand behind its name, since the parser
  looks for them only there, and the documented \<^verbatim>\<open>M[] m;\<close> is a syntax error in a class.\<close>

theorem parse_print:
  assumes "namespace_ok n"
  shows "\<exists>a. parse (pp_text (pp_namespace n)) = Inr a \<and> map erase_namespace (ast_namespaces a) = [erase_namespace n]"
proof -
  have "reads (lexer_new (pp_text (pp_namespace n))) (pp_namespace n)"
    using skip_spelled namespace_lexemes [OF assms] by (simp add: reads_def lexer_new_def pp_text_def)
  moreover have "absorb [] (pp_namespace n) = ([], pp_namespace n)"
    by (rule absorb_la) (simp add: pp_namespace_def)
  ultimately obtain p where p: "parser_new (pp_text (pp_namespace n)) = Inr p" "sees p [] (pp_namespace n)"
    unfolding parser_new_def using read_past_docs_sees by blast
  with parses_ast [OF assms] show ?thesis
    by (auto simp: parses_def parse_def)
qed

text \<open>A namespace with every kind of definition.\<close>

definition demo :: namespace_def where
  "demo =
    (let t = \<lambda>b d opt. \<lparr>ty_base = b, ty_is_array = 0 < d, ty_is_optional = opt, ty_dims = d\<rparr>;
         field = \<lambda>n ty. \<lparr>fd_name = n, fd_type = ty, fd_doc = [], fd_loc = nowhere\<rparr>;
         meth = \<lambda>n ps ty. \<lparr>md_name = n, md_params = ps, md_return = ty, md_is_optional = False, md_is_stream = True,
           md_throws = [''Bad''], md_doc = '' a stream'', md_loc = nowhere\<rparr> in
     \<lparr>ns_name = ''geo'',
      ns_enums = [\<lparr>ed_name = ''Kind'', ed_items = [\<lparr>ei_name = ''A'', ei_value = Some 3, ei_doc = [], ei_loc = nowhere\<rparr>,
          \<lparr>ei_name = ''B'', ei_value = None, ei_doc = [], ei_loc = nowhere\<rparr>],
        ed_is_flags = False, ed_doc = [], ed_loc = nowhere\<rparr>],
      ns_structs = [\<lparr>sd_name = ''Point'', sd_base = None, sd_fields = [field ''x'' (t (Primitive PI32) 0 False),
          field ''tags'' (t (Primitive PString) 2 True)], sd_doc = '' a point'', sd_loc = nowhere\<rparr>],
      ns_classes = [\<lparr>cd_name = ''Shape'', cd_base = Some ''Base'',
        cd_properties = [\<lparr>pr_name = ''origin'', pr_type = t (User ''Point'') 1 False, pr_readonly = False, pr_doc = [],
          pr_loc = nowhere\<rparr>],
        cd_constructors = [\<lparr>ct_params = [\<lparr>pm_name = ''k'', pm_type = t (User ''Kind'') 0 True, pm_loc = nowhere\<rparr>],
          ct_doc = [], ct_loc = nowhere\<rparr>],
        cd_methods = [meth ''outline'' [] (t (User ''Point'') 0 False)], cd_doc = [], cd_loc = nowhere\<rparr>],
      ns_services = [\<lparr>sv_name = ''Draw'', sv_methods = [meth ''run'' [] (t (Primitive PVoid) 0 False)], sv_doc = [],
        sv_loc = nowhere\<rparr>],
      ns_errors = [\<lparr>er_name = ''Bad'', er_base = None, er_fields = [], er_doc = [], er_loc = nowhere\<rparr>],
      ns_loc = nowhere\<rparr>)"

lemma demo_ok: "namespace_ok demo"
  by (simp add: demo_def namespace_ok_def enum_ok_def item_ok_def struct_ok_def field_ok_def class_ok_def property_ok_def
      constructor_ok_def param_ok_def method_ok_def service_ok_def error_ok_def base_ok_def doc_ok_def type_ok_def
      is_identifier_def keyword_table_def is_alpha_def is_alnum_def is_digit_def)

theorem parse_print_witness:
  "\<exists>a. parse (pp_text (pp_namespace demo)) = Inr a \<and> map erase_namespace (ast_namespaces a) = [erase_namespace demo]"
  by (rule parse_print [OF demo_ok])

end
