(* ===== verification/Song_Logging.thy ===== *)
theory Song_Logging
  imports Song_Prelude
begin

text \<open>
  Logging (\<^verbatim>\<open>src/logging.cpp\<close>): levels, the table of handlers, the dispatch of a message, the
  built-in handlers, and the lazy initialization that the first enabled message triggers, alone
  and by several threads at once. A handler acts on a world of its own and on the standard
  error stream; it does not log, since \<^verbatim>\<open>emit\<close> holds the table's mutex while it runs.
  Whether the library is built with \<^verbatim>\<open>NDEBUG\<close> and whether the standard error stream is a
  terminal are arguments.
\<close>

section \<open>Levels and entries\<close>

text \<open>An \<^verbatim>\<open>enum class\<close> over \<^verbatim>\<open>int\<close> can hold any of its values.\<close>

type_synonym log_level = i32

definition ll_debug :: log_level where "ll_debug = 0"
definition ll_info :: log_level where "ll_info = 1"
definition ll_warn :: log_level where "ll_warn = 2"
definition ll_error :: log_level where "ll_error = 3"
definition ll_fatal :: log_level where "ll_fatal = 4"

lemmas levels = ll_debug_def ll_info_def ll_warn_def ll_error_def ll_fatal_def

definition log_level_name :: "log_level \<Rightarrow> string" where
  "log_level_name level =
    (if level = ll_debug then ''DEBUG'' else if level = ll_info then ''INFO''
     else if level = ll_warn then ''WARN'' else if level = ll_error then ''ERROR''
     else if level = ll_fatal then ''FATAL'' else ''UNKNOWN'')"

record source_location =
  sl_file :: string
  sl_function :: string
  sl_line :: u32

record log_entry =
  le_level :: log_level
  le_message :: string
  le_location :: source_location

section \<open>Handlers\<close>

type_synonym 'u log_handler = "log_entry \<Rightarrow> (string \<times> 'u, unit) step"

text \<open>A \<^verbatim>\<open>std::function\<close> in the table may be empty.\<close>

record 'u log_state =
  lg_handlers :: "(string \<times> 'u log_handler option) list"
  lg_min_level :: log_level
  lg_initialized :: bool
  lg_world :: "string \<times> 'u"

record log_build =
  lb_ndebug :: bool
  lb_isatty :: bool

definition log_new :: "string \<times> 'u \<Rightarrow> 'u log_state" where
  "log_new w = \<lparr>lg_handlers = [], lg_min_level = ll_info, lg_initialized = False, lg_world = w\<rparr>"

definition add_handler :: "string \<Rightarrow> 'u log_handler option \<Rightarrow> 'u log_state \<Rightarrow> 'u log_state" where
  "add_handler name h s = s\<lparr>lg_handlers := AList.update name h (lg_handlers s)\<rparr>"

definition remove_handler :: "string \<Rightarrow> 'u log_state \<Rightarrow> bool \<times> 'u log_state" where
  "remove_handler name s =
    (map_of (lg_handlers s) name \<noteq> None, s\<lparr>lg_handlers := AList.delete name (lg_handlers s)\<rparr>)"

definition has_handler :: "string \<Rightarrow> 'u log_state \<Rightarrow> bool" where
  "has_handler name s \<longleftrightarrow> map_of (lg_handlers s) name \<noteq> None"

definition clear_handlers :: "'u log_state \<Rightarrow> 'u log_state" where
  "clear_handlers s = s\<lparr>lg_handlers := []\<rparr>"

definition set_level :: "log_level \<Rightarrow> 'u log_state \<Rightarrow> 'u log_state" where
  "set_level level s = s\<lparr>lg_min_level := level\<rparr>"

definition get_level :: "'u log_state \<Rightarrow> log_level" where
  "get_level s = lg_min_level s"

definition is_enabled :: "log_level \<Rightarrow> 'u log_state \<Rightarrow> bool" where
  "is_enabled level s \<longleftrightarrow> sint (get_level s) \<le> sint level"

section \<open>The built-in handlers\<close>

text \<open>What \<^verbatim>\<open>%s\<close> and \<^verbatim>\<open>c_str\<close> see of a string: the part before the first null character.\<close>

definition c_string :: "string \<Rightarrow> string" where
  "c_string s = takeWhile (\<lambda>c. c \<noteq> CHR 0x00) s"

definition color_of :: "log_level \<Rightarrow> string" where
  "color_of level =
    (if level = ll_debug then CHR 0x1B # ''[36m'' else if level = ll_info then CHR 0x1B # ''[32m''
     else if level = ll_warn then CHR 0x1B # ''[33m'' else if level = ll_error then CHR 0x1B # ''[31m''
     else if level = ll_fatal then CHR 0x1B # ''[35m'' else [])"

text \<open>The part of a path behind its last slash.\<close>

definition file_of_path :: "string \<Rightarrow> string" where
  "file_of_path path = rev (takeWhile (\<lambda>c. c \<noteq> CHR ''/'') (rev path))"

text \<open>\<^verbatim>\<open>%5s\<close>, and \<^verbatim>\<open>%.*s\<close> with the size of a view converted to \<^verbatim>\<open>int\<close>: a negative precision counts as
  none, and then the view is read beyond its size.\<close>

definition padded :: "string \<Rightarrow> string" where
  "padded s = replicate (5 - length s) CHR '' '' @ s"

definition with_precision :: "string \<Rightarrow> string res" where
  "with_precision s = (let precision = sint (word_of_nat (length s) :: i32) in
    if precision < 0 then Inl (Undefined ''read beyond a string_view'') else Inr (c_string (take (nat precision) s)))"

definition console_line :: "bool \<Rightarrow> log_entry \<Rightarrow> string res" where
  "console_line colors_enabled e =
    rbind (with_precision (le_message e)) (\<lambda>message.
    rbind (with_precision (file_of_path (sl_file (le_location e)))) (\<lambda>file.
    Inr ((if colors_enabled then color_of (le_level e) else []) @ ''['' @ padded (log_level_name (le_level e)) @ '']''
      @ (if colors_enabled then CHR 0x1B # ''[0m'' else []) @ '' '' @ message @ '' ('' @ file @ '':''
      @ dec_string (unat (sl_line (le_location e))) @ '')'' @ [CHR 0x0A])))"

definition make_console_handler :: "log_build \<Rightarrow> bool \<Rightarrow> 'u log_handler" where
  "make_console_handler env use_colors = (\<lambda>entry (err, u).
    case console_line (use_colors \<and> lb_isatty env) entry of
      Inl e \<Rightarrow> (Inl e, err, u)
    | Inr l \<Rightarrow> (Inr (), err @ l, u))"

definition make_null_handler :: "'u log_handler" where
  "make_null_handler = (\<lambda>entry. sret ())"

definition make_callback_handler :: "(log_level \<Rightarrow> string \<Rightarrow> (string \<times> 'u, unit) step) \<Rightarrow> 'u log_handler" where
  "make_callback_handler callback = (\<lambda>entry. callback (le_level entry) (c_string (le_message entry)))"

section \<open>Initialization and dispatch\<close>

definition default_level :: "log_build \<Rightarrow> log_level" where
  "default_level env = (if lb_ndebug env then ll_info else ll_debug)"

definition init_logging :: "log_build \<Rightarrow> 'u log_state \<Rightarrow> 'u log_state" where
  "init_logging env s =
    (if lg_initialized s then s
     else (add_handler ''console'' (Some (make_console_handler env True)) s)
       \<lparr>lg_min_level := default_level env, lg_initialized := True\<rparr>)"

definition ensure_init :: "log_build \<Rightarrow> 'u log_state \<Rightarrow> 'u log_state" where
  "ensure_init env s = (if \<not> lg_initialized s then init_logging env s else s)"

text \<open>The loop of \<^verbatim>\<open>emit\<close>: what a handler throws is dropped.\<close>

fun dispatch_handlers :: "log_entry \<Rightarrow> (string \<times> 'u log_handler option) list \<Rightarrow> (string \<times> 'u, unit) step" where
  "dispatch_handlers entry [] = sret ()"
| "dispatch_handlers entry ((name, None) # hs) = dispatch_handlers entry hs"
| "dispatch_handlers entry ((name, Some h) # hs) =
    sbind (scatch catchable (h entry) (\<lambda>_. sret ())) (\<lambda>_. dispatch_handlers entry hs)"

definition emit :: "log_build \<Rightarrow> log_level \<Rightarrow> string \<Rightarrow> source_location \<Rightarrow> ('u log_state, unit) step" where
  "emit env level msg loc s =
    (if \<not> is_enabled level s then (Inr (), s)
     else (let s = ensure_init env s;
         entry = \<lparr>le_level = level, le_message = msg, le_location = loc\<rparr>
       in case dispatch_handlers entry (lg_handlers s) (lg_world s) of (r, w) \<Rightarrow> (r, s\<lparr>lg_world := w\<rparr>)))"

definition log_debug :: "log_build \<Rightarrow> string \<Rightarrow> source_location \<Rightarrow> ('u log_state, unit) step" where
  "log_debug env msg loc = emit env ll_debug msg loc"

definition log_info :: "log_build \<Rightarrow> string \<Rightarrow> source_location \<Rightarrow> ('u log_state, unit) step" where
  "log_info env msg loc = emit env ll_info msg loc"

definition log_warn :: "log_build \<Rightarrow> string \<Rightarrow> source_location \<Rightarrow> ('u log_state, unit) step" where
  "log_warn env msg loc = emit env ll_warn msg loc"

definition log_error :: "log_build \<Rightarrow> string \<Rightarrow> source_location \<Rightarrow> ('u log_state, unit) step" where
  "log_error env msg loc = emit env ll_error msg loc"

definition log_fatal :: "log_build \<Rightarrow> string \<Rightarrow> source_location \<Rightarrow> ('u log_state, unit) step" where
  "log_fatal env msg loc = emit env ll_fatal msg loc"

definition log_message :: "log_build \<Rightarrow> log_level \<Rightarrow> string \<Rightarrow> source_location \<Rightarrow> ('u log_state, unit) step" where
  "log_message env level msg loc = emit env level msg loc"

section \<open>What a message does\<close>

text \<open>The world after every handler has run on an entry, whatever each of them throws.\<close>

definition delivered :: "log_entry \<Rightarrow> (string \<times> 'u log_handler option) list \<Rightarrow> string \<times> 'u \<Rightarrow> string \<times> 'u" where
  "delivered entry hs w = fold (\<lambda>h w. snd (h entry w)) (List.map_filter snd hs) w"

lemma dispatch_delivered:
  assumes "\<And>n h w e. (n, Some h) \<in> set hs \<Longrightarrow> fst (h entry w) = Inl e \<Longrightarrow> catchable e"
  shows "dispatch_handlers entry hs w = (Inr (), delivered entry hs w)"
  using assms
proof (induction entry hs arbitrary: w rule: dispatch_handlers.induct)
  case (3 entry name h hs)
  have "dispatch_handlers entry hs w' = (Inr (), delivered entry hs w')" for w'
    using 3(1) 3(2) by (metis list.set_intros(2))
  moreover have "catchable e" if "h entry w = (Inl e, w')" for e w' using 3(2) [of name h w e] that by simp
  ultimately show ?case
    by (auto simp: sbind_apply scatch_apply delivered_def map_filter_simps sret_def split: prod.splits sum.splits)
qed (simp_all add: delivered_def sret_def map_filter_simps)

text \<open>A message of an enabled level reaches every handler of the table, each once and in the order
  of the table, even when handlers before it throw, whatever they throw; nothing is thrown to
  the caller, and level and table stay as they are. A message below the level changes nothing at all.\<close>

theorem message_delivered:
  assumes "lg_initialized s" and e: "entry = \<lparr>le_level = level, le_message = msg, le_location = loc\<rparr>"
    and "\<forall>h \<in> set (List.map_filter snd (lg_handlers s)). \<forall>w x. fst (h entry w) = Inl x \<longrightarrow> catchable x"
  shows "emit env level msg loc s = (Inr (), if sint level < sint (lg_min_level s) then s
    else s\<lparr>lg_world := delivered entry (lg_handlers s) (lg_world s)\<rparr>)"
proof -
  have "dispatch_handlers entry (lg_handlers s) w = (Inr (), delivered entry (lg_handlers s) w)" for w
    using assms(3) by (intro dispatch_delivered) (force simp: List.map_filter_def)
  with assms(1) show ?thesis by (simp add: emit_def is_enabled_def get_level_def ensure_init_def e [symmetric])
qed

text \<open>The first enabled message overrides what was set up before it. However the level was set and
  whatever handler was added under the name \<^verbatim>\<open>console\<close> or removed from it before, the message
  finds the built-in console handler installed and leaves the level at the default of the
  build; only the handlers of other names stay. (\<^verbatim>\<open>logging.hpp\<close> tells users to disable logging by
  \<^verbatim>\<open>remove_handler("console")\<close>, and to set the level at the start.)\<close>

theorem first_message_resets:
  assumes "\<not> lg_initialized s" and "is_enabled level s"
  shows "lg_min_level (snd (emit env level msg loc s)) = default_level env
    \<and> map_of (lg_handlers (snd (emit env level msg loc s))) = (map_of (lg_handlers s))
        (''console'' \<mapsto> Some (make_console_handler env True))
    \<and> lg_initialized (snd (emit env level msg loc s))"
  using assms by (auto simp: emit_def ensure_init_def init_logging_def add_handler_def update_conv' Let_def split: prod.splits)

text \<open>A message below the level does not initialize: in a debug build, whose default level is debug, a
  debug message before the first info message is lost.\<close>

lemma disabled_message_skips_init: "\<not> is_enabled level s \<Longrightarrow> emit env level msg loc s = (Inr (), s)"
  by (simp add: emit_def)

lemma first_debug_lost: "emit env ll_debug msg loc (log_new w) = (Inr (), log_new w)"
  by (rule disabled_message_skips_init) (simp add: is_enabled_def get_level_def log_new_def levels)

lemma init_logging_idem: "init_logging env (init_logging env s) = init_logging env s"
  by (simp add: init_logging_def)

lemma handler_table:
  "has_handler name (add_handler name h s)" "\<not> has_handler name (snd (remove_handler name s))"
  "fst (remove_handler name s) \<longleftrightarrow> has_handler name s" "\<not> has_handler name (clear_handlers s)"
  "m \<noteq> name \<Longrightarrow> has_handler m (add_handler name h s) \<longleftrightarrow> has_handler m s"
  "m \<noteq> name \<Longrightarrow> has_handler m (snd (remove_handler name s)) \<longleftrightarrow> has_handler m s"
  by (simp_all add: has_handler_def add_handler_def remove_handler_def clear_handlers_def hm.find_put hm.find_erase)

section \<open>Initialization by several threads\<close>

text \<open>
  Where a thread is in \<^verbatim>\<open>init_logging\<close>. The tests and stores are steps of their own, since the level
  and the flag are atomics that other threads read and write without the mutex; everything
  else that uses the table takes the mutex first.
\<close>

datatype init_point = Outside | Waiting | Recheck | PutHandler | PutLevel | PutFlag | Unlock | Returned

record 'u log_threads =
  lt_state :: "'u log_state"
  lt_owner :: "nat option"
  lt_point :: "nat \<Rightarrow> init_point"
  lt_installs :: nat

definition at_point :: "nat \<Rightarrow> init_point \<Rightarrow> 'u log_threads \<Rightarrow> 'u log_threads" where
  "at_point t p x = x\<lparr>lt_point := (lt_point x)(t := p)\<rparr>"

datatype 'u log_op = AddHandler string "'u log_handler option" | RemoveHandler string | ClearHandlers
  | Dispatch log_entry

definition run_log_op :: "'u log_op \<Rightarrow> 'u log_state \<Rightarrow> 'u log_state" where
  "run_log_op op s = (case op of
      AddHandler n h \<Rightarrow> add_handler n h s
    | RemoveHandler n \<Rightarrow> snd (remove_handler n s)
    | ClearHandlers \<Rightarrow> clear_handlers s
    | Dispatch e \<Rightarrow> s\<lparr>lg_world := snd (dispatch_handlers e (lg_handlers s) (lg_world s))\<rparr>)"

inductive log_step :: "log_build \<Rightarrow> 'u log_threads \<Rightarrow> 'u log_threads \<Rightarrow> bool" for env where
  test: "lt_point x t \<in> {Outside, Returned} \<Longrightarrow>
    log_step env x (at_point t (if lg_initialized (lt_state x) then Returned else Waiting) x)"
| lock: "lt_point x t = Waiting \<Longrightarrow> lt_owner x = None \<Longrightarrow>
    log_step env x (at_point t Recheck (x\<lparr>lt_owner := Some t\<rparr>))"
| test_again: "lt_point x t = Recheck \<Longrightarrow>
    log_step env x (at_point t (if lg_initialized (lt_state x) then Unlock else PutHandler) x)"
| put_handler: "lt_point x t = PutHandler \<Longrightarrow>
    log_step env x (at_point t PutLevel (x\<lparr>lt_installs := lt_installs x + 1,
      lt_state := add_handler ''console'' (Some (make_console_handler env True)) (lt_state x)\<rparr>))"
| put_level: "lt_point x t = PutLevel \<Longrightarrow>
    log_step env x (at_point t PutFlag (x\<lparr>lt_state := (lt_state x)\<lparr>lg_min_level := default_level env\<rparr>\<rparr>))"
| put_flag: "lt_point x t = PutFlag \<Longrightarrow>
    log_step env x (at_point t Unlock (x\<lparr>lt_state := (lt_state x)\<lparr>lg_initialized := True\<rparr>\<rparr>))"
| unlock: "lt_point x t = Unlock \<Longrightarrow> log_step env x (at_point t Returned (x\<lparr>lt_owner := None\<rparr>))"
| locked: "lt_owner x = None \<Longrightarrow> log_step env x (x\<lparr>lt_state := run_log_op op (lt_state x)\<rparr>)"
| level: "log_step env x (x\<lparr>lt_state := set_level l (lt_state x)\<rparr>)"

inductive_cases log_stepE: "log_step env x y"

definition threads_new :: "'u log_state \<Rightarrow> 'u log_threads" where
  "threads_new s = \<lparr>lt_state = s, lt_owner = None, lt_point = (\<lambda>t. Outside), lt_installs = 0\<rparr>"

text \<open>The mutex is held by the one thread that is inside, and the flag says what has been installed.\<close>

definition inside :: "init_point set" where
  "inside = {Recheck, PutHandler, PutLevel, PutFlag, Unlock}"

lemma inside_simps [simp]:
  "Outside \<notin> inside" "Waiting \<notin> inside" "Returned \<notin> inside" "Recheck \<in> inside" "PutHandler \<in> inside"
  "PutLevel \<in> inside" "PutFlag \<in> inside" "Unlock \<in> inside"
  by (simp_all add: inside_def)

definition installed_by :: "'u log_threads \<Rightarrow> nat" where
  "installed_by x = (if lg_initialized (lt_state x) then 1 else case lt_owner x of None \<Rightarrow> 0
     | Some t \<Rightarrow> if lt_point x t \<in> {PutLevel, PutFlag} then 1 else 0)"

definition point_ok :: "bool \<Rightarrow> nat option \<Rightarrow> nat \<Rightarrow> init_point \<Rightarrow> bool" where
  "point_ok ready owner t p \<longleftrightarrow> (p \<in> inside \<longleftrightarrow> owner = Some t)
    \<and> (p \<in> {PutHandler, PutLevel, PutFlag} \<longrightarrow> \<not> ready) \<and> (p \<in> {Unlock, Returned} \<longrightarrow> ready)"

definition log_ok :: "'u log_threads \<Rightarrow> bool" where
  "log_ok x \<longleftrightarrow> (\<forall>t. point_ok (lg_initialized (lt_state x)) (lt_owner x) t (lt_point x t))
    \<and> lt_installs x = installed_by x"

lemma run_log_op_initialized [simp]: "lg_initialized (run_log_op op s) = lg_initialized s"
  by (cases op) (simp_all add: run_log_op_def add_handler_def remove_handler_def clear_handlers_def)

lemma handler_ops_initialized [simp]:
  "lg_initialized (add_handler n h s) = lg_initialized s" "lg_initialized (set_level l s) = lg_initialized s"
  by (simp_all add: add_handler_def set_level_def)

text \<open>A thread that moves leaves the others where they are.\<close>

lemma log_ok_move:
  assumes ok: "log_ok x" and y: "lt_point y = lt_point x"
    and moved: "point_ok (lg_initialized (lt_state x)) (lt_owner x) t (lt_point x t) \<Longrightarrow>
      point_ok (lg_initialized (lt_state y)) (lt_owner y) t p"
    and other: "\<And>u q. u \<noteq> t \<Longrightarrow> point_ok (lg_initialized (lt_state x)) (lt_owner x) t (lt_point x t) \<Longrightarrow>
      point_ok (lg_initialized (lt_state x)) (lt_owner x) u q \<Longrightarrow> point_ok (lg_initialized (lt_state y)) (lt_owner y) u q"
    and count: "point_ok (lg_initialized (lt_state x)) (lt_owner x) t (lt_point x t) \<Longrightarrow>
      lt_installs x = installed_by x \<Longrightarrow> lt_installs y = installed_by (at_point t p y)"
  shows "log_ok (at_point t p y)"
proof -
  have t: "point_ok (lg_initialized (lt_state x)) (lt_owner x) u (lt_point x u)" for u using ok by (simp add: log_ok_def)
  with moved other have "point_ok (lg_initialized (lt_state y)) (lt_owner y) u (if u = t then p else lt_point x u)" for u
    by auto
  moreover have "lt_installs y = installed_by (at_point t p y)" using count [OF t] ok by (simp add: log_ok_def)
  ultimately show ?thesis by (simp add: log_ok_def at_point_def y fun_upd_def)
qed

lemma log_step_ok: "log_step env x y \<Longrightarrow> log_ok x \<Longrightarrow> log_ok y"
proof (induction rule: log_step.induct)
  case (test x t)
  then show ?case by (elim log_ok_move) (auto simp: point_ok_def installed_by_def at_point_def split: option.splits)
next
  case (lock x t)
  then show ?case by (elim log_ok_move) (auto simp: point_ok_def installed_by_def at_point_def split: option.splits)
next
  case (test_again x t)
  then show ?case by (elim log_ok_move) (auto simp: point_ok_def installed_by_def at_point_def split: option.splits)
next
  case (put_handler x t)
  then show ?case by (elim log_ok_move) (auto simp: point_ok_def installed_by_def at_point_def split: option.splits)
next
  case (put_level x t)
  then show ?case by (elim log_ok_move) (auto simp: point_ok_def installed_by_def at_point_def split: option.splits)
next
  case (put_flag x t)
  then show ?case by (elim log_ok_move) (auto simp: point_ok_def installed_by_def at_point_def split: option.splits)
next
  case (unlock x t)
  then show ?case by (elim log_ok_move) (auto simp: point_ok_def installed_by_def at_point_def split: option.splits)qed (auto simp: log_ok_def point_ok_def installed_by_def split: option.split)

lemma log_reachable_ok: "(log_step env)\<^sup>*\<^sup>* x y \<Longrightarrow> log_ok x \<Longrightarrow> log_ok y"
  by (induction rule: rtranclp_induct) (blast intro: log_step_ok)+

text \<open>Claim C28. Initialization happens once. However threads interleave in \<^verbatim>\<open>init_logging\<close>, with changes of the
  table, messages and changes of the level between their steps, the built-in handler is
  installed at most once, at most one thread is inside, a thread that has returned finds logging
  initialized with the handler installed exactly once, and from then on no thread installs it again: what
  a user removes stays removed.\<close>

theorem initialized_once:
  assumes "(log_step env)\<^sup>*\<^sup>* (threads_new s) x" and "\<not> lg_initialized s"
  shows "lt_installs x \<le> 1
    \<and> (\<forall>t u. lt_point x t \<in> inside \<and> lt_point x u \<in> inside \<longrightarrow> t = u)
    \<and> (\<forall>t. lt_point x t = Returned \<longrightarrow> lg_initialized (lt_state x) \<and> lt_installs x = 1)
    \<and> (lg_initialized (lt_state x) \<longrightarrow> (\<forall>t. lt_point x t \<noteq> PutHandler \<and> lt_point x t \<noteq> PutLevel))"
proof -
  have "log_ok (threads_new s)"
    using assms(2) by (simp add: log_ok_def point_ok_def installed_by_def threads_new_def)
  with assms(1) have ok: "log_ok x" by (rule log_reachable_ok)
  then have p: "point_ok (lg_initialized (lt_state x)) (lt_owner x) t (lt_point x t)" for t by (simp add: log_ok_def)
  from ok have "lt_installs x \<le> 1" by (simp add: log_ok_def installed_by_def split: option.split)
  moreover have "t = u" if "lt_point x t \<in> inside" "lt_point x u \<in> inside" for t u
    using p [of t] p [of u] that by (auto simp: point_ok_def)
  moreover have "lg_initialized (lt_state x) \<and> lt_installs x = 1" if "lt_point x t = Returned" for t
    using p [of t] that ok by (simp add: point_ok_def log_ok_def installed_by_def)
  moreover have "lt_point x t \<noteq> PutHandler \<and> lt_point x t \<noteq> PutLevel" if "lg_initialized (lt_state x)" for t
    using p [of t] that by (auto simp: point_ok_def)
  ultimately show ?thesis by blast
qed

section \<open>Examples\<close>

definition demo_location :: source_location where
  "demo_location = \<lparr>sl_file = ''src/app/main.cpp'', sl_function = ''main'', sl_line = 12\<rparr>"

definition counting_handler :: "nat log_handler" where
  "counting_handler = (\<lambda>entry (err, n). (Inl ForeignExn, err, n + 1))"

definition demo_log :: "nat log_state" where
  "demo_log = add_handler ''count'' (Some counting_handler) (init_logging \<lparr>lb_ndebug = True, lb_isatty = False\<rparr> (log_new ([], 0)))"

definition demo_build :: log_build where
  "demo_build = \<lparr>lb_ndebug = True, lb_isatty = False\<rparr>"

lemma message_delivered_demo:
  "emit demo_build ll_warn ''low disk'' demo_location demo_log
    = (Inr (), demo_log\<lparr>lg_world := (''[ WARN] low disk (main.cpp:12)'' @ [CHR 0x0A], 1)\<rparr>)"
proof -
  let ?e = "\<lparr>le_level = ll_warn, le_message = ''low disk'', le_location = demo_location\<rparr>"
  have hs: "List.map_filter snd (lg_handlers demo_log) = [make_console_handler demo_build True, counting_handler]"
    by (simp add: demo_log_def add_handler_def init_logging_def log_new_def demo_build_def map_filter_simps)
  have digits: "char_of (49 :: nat) = CHR ''1''" "char_of (50 :: nat) = CHR ''2''" by code_simp+
  have console: "make_console_handler demo_build True ?e (err, u) = (Inr (), err @ ''[ WARN] low disk (main.cpp:12)'' @ [CHR 0x0A], u)"
    for err and u :: nat
    by (simp add: make_console_handler_def console_line_def demo_build_def demo_location_def with_precision_def
        c_string_def file_of_path_def padded_def log_level_name_def levels dec_string.simps digits)
  have "\<forall>h \<in> set (List.map_filter snd (lg_handlers demo_log)). \<forall>w x. fst (h ?e w) = Inl x \<longrightarrow> catchable x"
    by (simp add: hs console counting_handler_def split_paired_all)
  moreover have "\<not> sint ll_warn < sint ll_info" by (simp add: levels)
  moreover have "lg_initialized demo_log" "lg_min_level demo_log = ll_info" "lg_world demo_log = ([], 0)"
    by (simp_all add: demo_log_def add_handler_def init_logging_def log_new_def default_level_def)
  ultimately show ?thesis
    using message_delivered [of demo_log ?e ll_warn "''low disk''" demo_location demo_build]
    by (simp add: delivered_def hs console counting_handler_def)
qed

text \<open>The level is set to error; the first error sets it back to info.\<close>

text \<open>Two threads: the second waits until the first has installed the handler.\<close>

theorem initialized_once_witness:
  "\<exists>x. (log_step demo_build)\<^sup>*\<^sup>* (threads_new (log_new ([], 0 :: nat))) x \<and> lt_point x 0 = Returned \<and> lt_point x 1 = Waiting
    \<and> lt_installs x = 1 \<and> lg_initialized (lt_state x)"
proof -
  let ?x0 = "threads_new (log_new ([], 0 :: nat))"
  have run: "(log_step demo_build)\<^sup>*\<^sup>* ?x0 y \<Longrightarrow> log_step demo_build y z \<Longrightarrow> (log_step demo_build)\<^sup>*\<^sup>* ?x0 z" for y z
    by (rule rtranclp.rtrancl_into_rtrancl)
  note start = rtranclp.rtrancl_refl [of "log_step demo_build" ?x0]
  note r1 = run [OF start log_step.test [of _ 0]]
  note r2 = run [OF r1 log_step.test [of _ 1]]
  note r3 = run [OF r2 log_step.lock [of _ 0]]
  note r4 = run [OF r3 log_step.test_again [of _ 0]]
  note r5 = run [OF r4 log_step.put_handler [of _ 0]]
  note r6 = run [OF r5 log_step.put_level [of _ 0]]
  note r7 = run [OF r6 log_step.put_flag [of _ 0]]
  note r8 = run [OF r7 log_step.unlock [of _ 0]]
  obtain x where x: "(log_step demo_build)\<^sup>*\<^sup>* ?x0 x" "lt_point x 0 = Returned" "lt_point x 1 = Waiting"
    by (rule that [OF r8]) (simp_all add: threads_new_def at_point_def log_new_def add_handler_def)
  moreover have "\<not> lg_initialized (log_new ([], 0 :: nat))" by (simp add: log_new_def)
  ultimately show ?thesis using initialized_once [OF x(1)] by blast
qed

end
