(* ===== verification/Song_Parse_Type.thy ===== *)
theory Song_Parse_Type
  imports Song_Print
begin

text \<open>
  What the parser returns is well formed: names are identifiers and no keywords, the marks of a
  type agree with each other, enum values are in range, no member of a class is one that would
  be read as something else. The predicate \<open>gives m Q\<close> says that the parser \<open>m\<close>, started on a state
  with a well-formed token, returns results with \<open>Q\<close> and states of that kind.
\<close>

section \<open>Tokens\<close>

definition token_ok :: "token \<Rightarrow> bool" where
  "token_ok t = (case t_type t of
      Identifier \<Rightarrow> is_identifier (t_value t)
    | Integer \<Rightarrow> unat (t_int_value t) < 2 ^ 63
    | DocComment \<Rightarrow> newline \<notin> set (t_value t)
    | _ \<Rightarrow> True)"

lemma token_ok_other: "t_type t \<notin> {Identifier, Integer, DocComment} \<Longrightarrow> token_ok t"
  by (simp add: token_ok_def split: token_type.splits)

lemma keyword_types2: "map_of keyword_table v = Some ty \<Longrightarrow> ty \<notin> {Identifier, Integer, DocComment}"
  by (drule map_of_SomeD) (auto simp: keyword_table_def)

lemma punctuation_types2: "map_of punctuation v = Some ty \<Longrightarrow> ty \<notin> {Identifier, Integer, DocComment}"
  by (drule map_of_SomeD) (auto simp: punctuation_def)

lemma keyword_token_ok: "map_of keyword_table v = Some ty \<Longrightarrow> token_ok (make_token ty v l c)"
  using keyword_types2 by (intro token_ok_other) simp

lemma punctuation_token_ok: "map_of punctuation v = Some ty \<Longrightarrow> token_ok (make_token ty w l c)"
  using punctuation_types2 by (intro token_ok_other) simp

lemma lex_identifier_ok:
  assumes "lex_identifier_or_keyword L = (t, L')" and "lx_rest L \<noteq> []" and "is_alpha (peek L) \<or> peek L = CHR ''_''"
  shows "token_ok t"
proof -
  let ?v = "takeWhile (\<lambda>c. is_alnum c \<or> c = CHR ''_'') (lx_rest L)"
  obtain c cs where r: "lx_rest L = c # cs" using assms(2) by (cases "lx_rest L") auto
  then have v: "?v \<noteq> []" "is_alpha (hd ?v) \<or> hd ?v = CHR ''_''"
    using assms(3) by (auto simp: peek_def is_alnum_def)
  have "list_all (\<lambda>c. is_alnum c \<or> c = CHR ''_'') ?v"
    by (auto simp: list_all_iff dest: set_takeWhileD)
  with v have "map_of keyword_table ?v = None \<Longrightarrow> is_identifier ?v" by (simp add: is_identifier_def)
  have "t = make_token (case map_of keyword_table ?v of Some ty \<Rightarrow> ty | None \<Rightarrow> Identifier) ?v (lx_line L) (lx_column L)"
    using assms(1) by (auto simp: lex_identifier_or_keyword_def collect_run split: option.splits)
  with \<open>map_of keyword_table ?v = None \<Longrightarrow> is_identifier ?v\<close> show ?thesis
    using keyword_token_ok [of ?v] by (cases "map_of keyword_table ?v") (simp add: token_ok_def, simp)
qed

lemma stoll_bound: "stoll ds b = Inr n \<Longrightarrow> unat n < 2 ^ 63"
  by (auto simp: stoll_def Let_def unat_of_nat split: if_splits)

lemma lex_integer_ok: "lex_integer L = Inr (t, L') \<Longrightarrow> token_ok t"
  by (auto simp: lex_integer_def Let_def token_ok_def dest!: stoll_bound split: if_splits prod.splits sum.splits)

lemma lex_doc_comment_ok: "lex_doc_comment L = (t, L') \<Longrightarrow> token_ok t"
  by (auto simp: lex_doc_comment_def Let_def token_ok_def collect_run dest!: set_takeWhileD split: if_splits)

lemma next_token_ok: "next_token L = Inr (t, L') \<Longrightarrow> token_ok t"
proof (induction L rule: next_token.induct)
  case (1 L0)
  let ?L = "skip_whitespace L0"
  note run = 1(2) [unfolded next_token.simps [of L0]]
  show ?case
  proof (cases "lx_at_end ?L")
    case True
    with run show ?thesis by (auto simp: Let_def intro: token_ok_other)
  next
    case False
    then have ne: "lx_rest ?L \<noteq> []" by (simp add: lx_at_end_def)
    consider (regular) "peek ?L = CHR ''/'' \<and> peek_next ?L = CHR ''/''"
          "\<not> (length (lx_rest ?L) > 2 \<and> lx_rest ?L ! 2 = CHR ''/'')" "next_token (skip_line_comment ?L) = Inr (t, L')"
      | (doc) "lex_doc_comment ?L = (t, L')"
      | (punct) ty where "map_of punctuation (peek ?L) = Some ty" "t = make_token ty [peek ?L] (lx_line ?L) (lx_column ?L)"
      | (arrow) "t_type t = Arrow"
      | (int) "lex_integer ?L = Inr (t, L')"
      | (ident) "is_alpha (peek ?L) \<or> peek ?L = CHR ''_''" "lex_identifier_or_keyword ?L = (t, L')"
      using run False by (auto simp: Let_def split: if_splits option.splits)
    then show ?thesis
    proof cases
      case regular
      then show ?thesis using 1(1) [OF refl False refl regular] by simp
    next
      case doc then show ?thesis by (rule lex_doc_comment_ok)
    next
      case punct then show ?thesis by (simp add: punctuation_token_ok)
    next
      case arrow then show ?thesis by (intro token_ok_other) simp
    next
      case int then show ?thesis by (rule lex_integer_ok)
    next
      case ident then show ?thesis using lex_identifier_ok [OF ident(2) ne ident(1)] by simp
    qed
  qed
qed

section \<open>States and results\<close>

definition parser_ok :: "parser \<Rightarrow> bool" where
  "parser_ok p = (token_ok (p_token p) \<and> doc_ok (p_doc p))"

definition gives :: "'a pm \<Rightarrow> ('a \<Rightarrow> bool) \<Rightarrow> bool" where
  "gives m Q \<longleftrightarrow> (\<forall>p x p'. parser_ok p \<longrightarrow> m p = Inr (x, p') \<longrightarrow> Q x \<and> parser_ok p')"

lemma read_past_docs_ok: "read_past_docs L d = Inr p \<Longrightarrow> doc_ok d \<Longrightarrow> parser_ok p"
proof (induction L d rule: read_past_docs.induct)
  case (1 L d)
  note run = 1(2) [unfolded read_past_docs.simps [of L d]]
  then obtain t L' where t: "next_token L = Inr (t, L')" by (auto split: sum.splits)
  note ok = next_token_ok [OF t]
  show ?case
  proof (cases "t_type t = DocComment")
    case True
    then have "newline \<notin> set (t_value t)" using ok by (simp add: token_ok_def)
    then have "doc_ok ((if d = [] then d else d @ [newline]) @ t_value t)"
      using 1(3) by (cases "t_value t") (auto simp: doc_ok_def hd_append)
    with 1(1) [OF t refl True] run t True show ?thesis by simp
  next
    case False
    with run t ok 1(3) show ?thesis by (auto simp: parser_ok_def)
  qed
qed

lemma givesD: "gives m Q \<Longrightarrow> parser_ok p \<Longrightarrow> m p = Inr (x, p') \<Longrightarrow> Q x \<and> parser_ok p'"
  by (auto simp: gives_def)

lemma gives_pbind: "gives m Q \<Longrightarrow> (\<And>x. Q x \<Longrightarrow> gives (k x) R) \<Longrightarrow> gives (pbind m k) R"
  unfolding gives_def pbind_Inr by blast

lemma gives_pret: "Q x \<Longrightarrow> gives (pret x) Q"
  by (simp add: gives_def pret_def)

lemma gives_weaken: "gives m Q \<Longrightarrow> (\<And>x. Q x \<Longrightarrow> R x) \<Longrightarrow> gives m R"
  by (simp add: gives_def)

lemma gives_fail: "gives (parse_fail m) Q"
  by (simp add: gives_def parse_fail_def)

lemma gives_if: "gives m Q \<Longrightarrow> gives n Q \<Longrightarrow> gives (\<lambda>p. if c p then m p else n p) Q"
  unfolding gives_def by metis

lemma gives_cond: "gives m Q \<Longrightarrow> Q x \<Longrightarrow> gives (\<lambda>p. if c p then m p else Inr (x, p)) Q"
  by (rule gives_if [OF _ gives_pret, unfolded pret_def])

lemma gives_current_loc: "gives current_loc (\<lambda>_. True)"
  by (simp add: gives_def current_loc_def)

lemma gives_take_doc: "gives take_doc doc_ok"
  by (simp add: gives_def take_doc_def parser_ok_def) (simp add: doc_ok_def)

lemma advance_ok: "parser_ok p \<Longrightarrow> p_advance p = Inr (u, p') \<Longrightarrow> parser_ok p'"
  using read_past_docs_ok [of "p_lexer p" "p_doc p" p'] by (simp add: p_advance_def parser_ok_def split: sum.splits)

lemma gives_advance: "gives p_advance (\<lambda>_. True)"
  using advance_ok by (auto simp: gives_def)

lemma expect_run: "expect ty msg p = Inr (t, p') \<longleftrightarrow> check ty p \<and> t = p_token p \<and> p_advance p = Inr ((), p')"
  by (auto simp: expect_def parse_fail_def pbind_Inr pret_def)

lemma gives_expect: "gives (expect ty msg) (\<lambda>t. token_ok t \<and> t_type t = ty)"
  using advance_ok by (simp add: gives_def expect_run) (metis check_def parser_ok_def)

lemmas gives_steps = gives_pbind [OF gives_current_loc] gives_pbind [OF gives_take_doc] gives_pbind [OF gives_advance]
  gives_pbind [OF gives_expect]

text \<open>Loops, by the amount of input left.\<close>

lemma gives_member_loop:
  assumes run: "\<And>a p. f a p = (if c p then pbind (m a) f p else Inr (h a, p))"
    and eats: "\<And>a. eats (m a)" and m: "\<And>a. I a \<Longrightarrow> gives (m a) I" and "\<And>a. I a \<Longrightarrow> Q (h a)"
    and start: "I a"
  shows "gives (f a) Q"
proof -
  have "Q x \<and> parser_ok p'" if "I a" "parser_ok p" "f a p = Inr (x, p')" for a p x p'
    using that
  proof (induction p arbitrary: a rule: measure_induct_rule [where f = left])
    case (less p)
    show ?case
    proof (cases "c p")
      case True
      with less.prems(3) run [of a p] obtain y r where s: "m a p = Inr (y, r)" "f y r = Inr (x, p')"
        by (auto simp: pbind_Inr)
      have "I y" "parser_ok r" using givesD [OF m [OF less.prems(1)] less.prems(2) s(1)] by simp_all
      with less.IH [OF eatsD [OF eats s(1)]] s(2) show ?thesis by blast
    next
      case False
      with less.prems run [of a p] assms(4) show ?thesis by auto
    qed
  qed
  with start show ?thesis by (simp add: gives_def)
qed

lemma pbind_pret_first: "pbind (pret x) f = f x"
  by (simp add: fun_eq_iff pbind_apply pret_def)

lemmas loop_simps = pbind_assoc pbind_pret_first

section \<open>The parts of the grammar\<close>

definition base_type_ok :: "base_type \<Rightarrow> bool" where
  "base_type_ok b = (case b of Primitive p \<Rightarrow> True | User n \<Rightarrow> is_identifier n)"

lemma type_ok_iff: "type_ok t \<longleftrightarrow> ty_is_array t = (0 < ty_dims t) \<and> base_type_ok (ty_base t)"
  by (simp add: type_ok_def base_type_ok_def)

lemma token_okD: "token_ok t \<Longrightarrow> t_type t = Identifier \<Longrightarrow> is_identifier (t_value t)"
  "token_ok t \<Longrightarrow> t_type t = Integer \<Longrightarrow> unat (t_int_value t) < 2 ^ 63"
  by (simp_all add: token_ok_def)

lemma gives_base_type: "gives parse_base_type base_type_ok"
proof -
  have "base_type_ok b \<and> parser_ok p'" if ok: "parser_ok p" and run: "parse_base_type p = Inr (b, p')" for p b p'
  proof -
    from run have adv: "p_advance p = Inr ((), p')"
      and b: "(\<exists>x. b = Primitive x) \<or> check Identifier p \<and> b = User (t_value (p_token p))"
      by (auto simp: parse_base_type_def pbind_Inr pret_def parse_fail_def split: option.splits if_splits)
    from b ok have "base_type_ok b" by (auto simp: base_type_ok_def parser_ok_def check_def token_okD)
    with advance_ok [OF ok adv] show ?thesis by simp
  qed
  then show ?thesis by (simp add: gives_def)
qed

lemma gives_brackets_base:
  assumes "type_ok t" and b: "ty_base t = b"
  shows "gives (parse_brackets t) (\<lambda>u. type_ok u \<and> ty_base u = b)"
proof (rule gives_member_loop [where c = "check LBracket" and h = "\<lambda>x. x" and I = "\<lambda>u. type_ok u \<and> ty_base u = b"
      and m = "\<lambda>t. pbind p_advance (\<lambda>_. pbind (expect RBracket (''Expected ']' after '' @ in_quotes ''[''))
        (\<lambda>_. pret (t\<lparr>ty_is_array := True, ty_dims := ty_dims t + 1\<rparr>)))"])
  show "type_ok t \<and> ty_base t = b" using assms by simp
qed (subst parse_brackets.simps, simp add: loop_simps,
    intro eats_pbind_then [OF saves_advance] eats_pbind_first eats_expect saves_pret, simp,
    intro gives_steps gives_pret, auto simp: type_ok_iff)

lemma gives_optional_base:
  "type_ok t \<and> ty_base t = b \<Longrightarrow> gives (parse_optional_mark t) (\<lambda>u. type_ok u \<and> ty_base u = b)"
  unfolding parse_optional_mark_def by (intro gives_cond gives_steps gives_pret) (auto simp: type_ok_iff)

lemma gives_brackets: "type_ok t \<Longrightarrow> gives (parse_brackets t) type_ok"
  by (rule gives_weaken [OF gives_brackets_base [OF _ refl]]) simp_all

lemma gives_optional_mark: "type_ok t \<Longrightarrow> gives (parse_optional_mark t) type_ok"
  by (rule gives_weaken [OF gives_optional_base [where b = "ty_base t"]]) simp_all

lemma gives_type: "gives parse_type type_ok"
  unfolding parse_type_def
  by (intro gives_pbind [OF gives_base_type] gives_pbind [OF gives_brackets] gives_optional_mark)
    (simp_all add: type_of_base_def type_ok_iff)

lemma gives_param: "gives parse_param param_ok"
  unfolding parse_param_def
  by (intro gives_steps gives_pbind [OF gives_type] gives_pret) (simp add: param_ok_def token_okD)

lemma gives_params: "gives parse_params (list_all param_ok)"
proof -
  have more: "gives (parse_params_more ps) (list_all param_ok)" if "list_all param_ok ps" for ps
    using that
  proof (rule gives_member_loop [where c = "check Comma" and h = "\<lambda>x. x" and I = "list_all param_ok"
        and m = "\<lambda>ps. pbind p_advance (\<lambda>_. pbind parse_param (\<lambda>x. pret (ps @ [x])))", rotated 4])
  qed (subst parse_params_more.simps, simp add: loop_simps,
      intro eats_pbind_then [OF saves_advance] eats_pbind_first eats_parse_param saves_pret,
      intro gives_steps gives_pbind [OF gives_param] gives_pret, simp_all)
  show ?thesis
    unfolding parse_params_def
    by (intro gives_if gives_cond gives_pbind [OF gives_param] more) simp_all
qed

lemma gives_throws: "gives parse_throws (list_all is_identifier)"
proof -
  have more: "gives (parse_throws_more es) (list_all is_identifier)" if "list_all is_identifier es" for es
    using that
  proof (rule gives_member_loop [where c = "check Comma" and h = "\<lambda>x. x" and I = "list_all is_identifier"
        and m = "\<lambda>es. pbind p_advance (\<lambda>_. pbind (expect Identifier ''Expected error type'')
          (\<lambda>t. pret (es @ [t_value t])))", rotated 4])
  qed (subst parse_throws_more.simps, simp add: loop_simps,
      intro eats_pbind_then [OF saves_advance] eats_pbind_first eats_expect saves_pret, simp,
      intro gives_steps gives_pret, simp_all add: token_okD)
  show ?thesis
    unfolding parse_throws_def by (intro gives_cond gives_steps more) (simp_all add: token_okD)
qed

section \<open>Members and definitions\<close>

lemma gives_field: "gives parse_field field_ok"
  unfolding parse_field_def
  by (intro gives_steps gives_pbind [OF gives_type] gives_pret) (simp add: field_ok_def token_okD)

lemma gives_enum_value: "gives parse_enum_value (\<lambda>v. case v of None \<Rightarrow> True | Some i \<Rightarrow> unat i < 2 ^ 63)"
  unfolding parse_enum_value_def by (intro gives_cond gives_steps gives_pret) (auto dest: token_okD)

lemma gives_enum_item: "gives parse_enum_item item_ok"
  unfolding parse_enum_item_def
  by (intro gives_steps gives_pbind [OF gives_enum_value] gives_pret) (simp add: item_ok_def token_okD)

lemma gives_readonly: "gives parse_readonly (\<lambda>_. True)"
  unfolding parse_readonly_def by (intro gives_cond gives_steps gives_pret) simp_all

text \<open>\<open>parse_property\<close> is called at the keyword \<^verbatim>\<open>readonly\<close> only.\<close>

lemma property_run:
  assumes ok: "parser_ok p" and at: "check KwReadonly p" and run: "parse_property p = Inr (x, p')"
  shows "property_ok cls x \<and> parser_ok p'"
proof -
  let ?rest = "\<lambda>loc doc readonly. pbind parse_type (\<lambda>t. pbind (expect Identifier ''Expected property name'') (\<lambda>name.
    pbind (expect Semicolon ''Expected ';' after property'') (\<lambda>_.
    pret \<lparr>pr_name = t_value name, pr_type = t, pr_readonly = readonly, pr_doc = doc, pr_loc = loc\<rparr>)))"
  let ?p = "p\<lparr>p_doc := []\<rparr>"
  obtain loc q where s: "p_advance ?p = Inr ((), q)" "?rest loc (p_doc p) True q = Inr (x, p')"
    using run at
    by (auto simp: parse_property_def pbind_Inr current_loc_def take_doc_def parse_readonly_def pret_def check_def)
  have q: "parser_ok q" and d: "doc_ok (p_doc p)"
    using advance_ok [OF _ s(1)] ok by (simp_all add: parser_ok_def doc_ok_def)
  have "gives (?rest loc (p_doc p) True) (property_ok cls)"
    by (intro gives_steps gives_pbind [OF gives_type] gives_pret) (simp add: property_ok_def token_okD d)
  from givesD [OF this q s(2)] show ?thesis .
qed

lemma gives_constructor: "gives parse_constructor constructor_ok"
  unfolding parse_constructor_def
  by (intro gives_steps gives_pbind [OF gives_params] gives_pret) (simp add: constructor_ok_def)

lemma gives_method_rest:
  assumes "is_identifier name" "doc_ok doc" "\<not> (opt \<and> str)"
  shows "gives (parse_method_rest name doc loc opt str)
    (\<lambda>m. method_ok m \<and> md_name m = name \<and> md_is_optional m = opt \<and> md_is_stream m = str)"
  unfolding parse_method_rest_def
  by (intro gives_steps gives_pbind [OF gives_params] gives_pbind [OF gives_type] gives_pbind [OF gives_throws] gives_pret)
    (use assms in \<open>simp add: method_ok_def\<close>)

lemma gives_modifier: "gives parse_modifier (\<lambda>(opt, str). \<not> (opt \<and> str))"
  unfolding parse_modifier_def by (intro gives_if gives_cond gives_steps gives_pret) simp_all

lemma gives_method: "gives parse_method method_ok"
  unfolding parse_method_def
  by (intro gives_steps gives_pbind [OF gives_modifier], clarify, intro gives_steps, rule gives_weaken [OF gives_method_rest])
    (simp_all add: token_okD)

text \<open>A method that begins with a modifier, as \<open>parse_class\<close> calls it.\<close>

lemma modified_method_run:
  assumes ok: "parser_ok p" and at: "check KwStream p \<or> check KwOptional p" and run: "parse_method p = Inr (m, p')"
  shows "md_is_optional m \<or> md_is_stream m"
proof -
  obtain loc d b q where s: "parse_modifier (p\<lparr>p_doc := []\<rparr>) = Inr (b, q)"
      "(case b of (opt, str) \<Rightarrow> pbind (expect Identifier ''Expected method name'') (\<lambda>name.
          parse_method_rest (t_value name) d loc opt str)) q = Inr (m, p')"
    using run
    by (auto simp: parse_method_def pbind_Inr [where m = current_loc] pbind_Inr [where m = take_doc]
        pbind_Inr [where m = parse_modifier] current_loc_def take_doc_def)
  have "fst b \<or> snd b"
    using s(1) at by (auto simp: parse_modifier_def pbind_Inr pret_def check_def split: if_splits)
  with s(2) show ?thesis by (auto simp: parse_method_rest_def pbind_Inr pret_def split: prod.splits)
qed

lemma gives_base: "gives (parse_base msg) base_ok"
  unfolding parse_base_def by (intro gives_cond gives_steps gives_pret) (simp_all add: base_ok_def token_okD)

lemma gives_fields: "gives (parse_fields []) (list_all field_ok)"
proof (rule gives_member_loop [where c = "\<lambda>p. \<not> check RBrace p \<and> \<not> p_at_end p" and h = "\<lambda>x. x"
      and I = "list_all field_ok" and m = "\<lambda>fs. pbind parse_field (\<lambda>f. pret (fs @ [f]))"])
qed (subst parse_fields.simps, simp add: loop_simps, intro eats_pbind_first eats_parse_field saves_pret,
    intro gives_pbind [OF gives_field] gives_pret, simp_all)

lemma gives_struct: "gives parse_struct struct_ok"
  unfolding parse_struct_def
  by (intro gives_steps gives_pbind [OF gives_base] gives_pbind [OF gives_fields] gives_pret) (simp add: struct_ok_def token_okD)

lemma gives_error: "gives parse_error error_ok"
  unfolding parse_error_def
  by (intro gives_steps gives_pbind [OF gives_base] gives_pbind [OF gives_fields] gives_pret) (simp add: error_ok_def token_okD)

lemma enum_items_more_run:
  "parse_enum_items_more es p = Inr (x, p') \<Longrightarrow> parser_ok p \<Longrightarrow> list_all item_ok es
    \<Longrightarrow> list_all item_ok x \<and> parser_ok p'"
proof (induction es p rule: parse_enum_items_more.induct)
  case (1 es p)
  note run = 1(2) [unfolded parse_enum_items_more.simps [of es p]]
  show ?case
  proof (cases "check Comma p")
    case True
    with run obtain q where q: "p_advance p = Inr ((), q)" by (auto simp: pbind_Inr)
    note ok = advance_ok [OF 1(3) q]
    show ?thesis
    proof (cases "check RBrace q")
      case True
      with run q ok 1(4) \<open>check Comma p\<close> show ?thesis by (auto simp: pbind_Inr)
    next
      case False
      with run q \<open>check Comma p\<close> obtain e r where r: "parse_enum_item q = Inr (e, r)"
          "parse_enum_items_more (es @ [e]) r = Inr (x, p')"
        by (auto simp: pbind_Inr)
      have "item_ok e" "parser_ok r" using givesD [OF gives_enum_item ok r(1)] by simp_all
      with 1(1) [OF True q False r] 1(4) show ?thesis by simp
    qed
  next
    case False
    with run 1 show ?thesis by simp
  qed
qed

lemma gives_enum_items: "gives parse_enum_items (list_all item_ok)"
proof -
  have "gives (parse_enum_items_more [e]) (list_all item_ok)" if "item_ok e" for e
    unfolding gives_def using enum_items_more_run that by fastforce
  then show ?thesis
    unfolding parse_enum_items_def by (intro gives_if gives_cond gives_pbind [OF gives_enum_item]) simp_all
qed

lemma gives_enum: "gives (parse_enum flags) enum_ok"
  unfolding parse_enum_def
  by (cases flags) (simp_all, (intro gives_steps gives_pbind [OF gives_enum_items] gives_pret, simp add: enum_ok_def token_okD)+)

lemma or_doc_ok: "doc_ok a \<Longrightarrow> doc_ok b \<Longrightarrow> doc_ok (or_doc a b)"
  by (simp add: or_doc_def)

lemma gives_service: "gives parse_service service_ok"
proof -
  have "gives (parse_service_methods []) (list_all method_ok)"
  proof (rule gives_member_loop [where c = "\<lambda>p. \<not> check RBrace p \<and> \<not> p_at_end p" and h = "\<lambda>x. x"
        and I = "list_all method_ok" and m = "\<lambda>ms. pbind take_doc (\<lambda>doc. pbind parse_method (\<lambda>m.
          pret (ms @ [m\<lparr>md_doc := or_doc (md_doc m) doc\<rparr>])))"])
  qed (subst parse_service_methods.simps, simp add: loop_simps,
      intro eats_pbind_then [OF saves_take_doc] eats_pbind_first eats_parse_method saves_pret,
      intro gives_steps gives_pbind [OF gives_method] gives_pret, simp_all add: method_ok_def or_doc_ok)
  then show ?thesis
    unfolding parse_service_def
    by (intro gives_steps gives_pbind [where m = "parse_service_methods []"] gives_pret) (auto simp: service_ok_def token_okD)
qed

section \<open>Classes\<close>

definition ident_member_ok :: "string \<Rightarrow> (method_def + property_def) \<Rightarrow> bool" where
  "ident_member_ok cls x =
    (case x of Inl m \<Rightarrow> method_ok m \<and> md_name m \<noteq> cls | Inr r \<Rightarrow> property_ok cls r)"

lemma ident_member_run:
  assumes ok: "parser_ok p" and doc: "doc_ok doc" and at: "check Identifier p" "t_value (p_token p) \<noteq> cls"
    and run: "parse_ident_member doc p = Inr (x, p')"
  shows "ident_member_ok cls x \<and> parser_ok p'"
proof -
  let ?id = "t_value (p_token p)"
  let ?m = "pbind current_loc (\<lambda>loc. pbind (parse_method_rest ?id doc loc False False) (\<lambda>m. pret (Inl m)))"
  let ?r = "pbind (expect Identifier ''Expected property name'') (\<lambda>prop_name.
         pbind current_loc (\<lambda>loc.
         pbind (parse_brackets (type_of_base (User ?id))) (\<lambda>t.
         pbind (parse_optional_mark t) (\<lambda>t.
         pbind (expect Semicolon ''Expected ';' after property'') (\<lambda>_.
         pret (Inr \<lparr>pr_name = t_value prop_name, pr_type = t, pr_readonly = False, pr_doc = doc, pr_loc = loc\<rparr>))))))"
  have id: "is_identifier ?id" using ok at(1) by (simp add: parser_ok_def check_def token_okD)
  have m: "gives ?m (ident_member_ok cls)"
    by (intro gives_steps gives_pbind [OF gives_method_rest] gives_pret) (use id doc at in \<open>simp_all add: ident_member_ok_def\<close>)
  have based: "gives (parse_brackets (type_of_base (User ?id))) (\<lambda>t. type_ok t \<and> ty_base t = User ?id)"
    by (rule gives_brackets_base) (simp_all add: type_of_base_def type_ok_def id)
  have r: "gives ?r (ident_member_ok cls)"
    by (intro gives_steps gives_pbind [OF based] gives_pbind [OF gives_optional_base] gives_pret)
      (use doc at in \<open>auto simp: ident_member_ok_def property_ok_def token_okD\<close>)
  from run obtain q where q: "p_advance p = Inr ((), q)" "?m q = Inr (x, p') \<or> ?r q = Inr (x, p')"
    by (auto simp: parse_ident_member_def Let_def pbind_Inr split: if_splits)
  from q(2) givesD [OF m advance_ok [OF ok q(1)]] givesD [OF r advance_ok [OF ok q(1)]] show ?thesis by blast
qed

lemma primitive_property_run:
  assumes ok: "parser_ok p" and doc: "doc_ok doc" and at: "is_primitive_type p"
    and run: "parse_primitive_property doc p = Inr (x, p')"
  shows "property_ok cls x \<and> parser_ok p'"
proof -
  let ?rest = "\<lambda>b. pbind (parse_brackets (type_of_base b)) (\<lambda>t. pbind (parse_optional_mark t) (\<lambda>t.
    pbind (expect Identifier ''Expected property name'') (\<lambda>name.
    pbind current_loc (\<lambda>loc. pbind (expect Semicolon ''Expected ';' after property'') (\<lambda>_.
    pret \<lparr>pr_name = t_value name, pr_type = t, pr_readonly = False, pr_doc = doc, pr_loc = loc\<rparr>)))))"
  obtain prim where prim: "token_to_primitive (t_type (p_token p)) = Some prim"
    using at by (auto simp: is_primitive_type_def)
  have "pbind parse_base_type k p = pbind p_advance (\<lambda>_. k (Primitive prim)) p" for k :: "base_type \<Rightarrow> property_def pm"
    using prim by (simp add: pbind_apply parse_base_type_def pret_def split: sum.split)
  with run have rest: "pbind p_advance (\<lambda>_. ?rest (Primitive prim)) p = Inr (x, p')"
    by (simp add: parse_primitive_property_def parse_type_def pbind_assoc)
  have based: "gives (parse_brackets (type_of_base (Primitive prim))) (\<lambda>t. type_ok t \<and> ty_base t = Primitive prim)"
    by (rule gives_brackets_base) (simp_all add: type_of_base_def type_ok_def)
  have "gives (pbind p_advance (\<lambda>_. ?rest (Primitive prim))) (property_ok cls)"
    by (intro gives_steps gives_pbind [OF based] gives_pbind [OF gives_optional_base] gives_pret)
      (auto simp: property_ok_def token_okD doc)
  from givesD [OF this ok rest] show ?thesis .
qed

definition class_named :: "string \<Rightarrow> class_def \<Rightarrow> bool" where
  "class_named n d = (class_ok d \<and> cd_name d = n)"

lemma class_named_add [simp]:
  "property_ok n x \<Longrightarrow> class_named n d \<Longrightarrow> class_named n (add_property x d)"
  "constructor_ok y \<Longrightarrow> class_named n d \<Longrightarrow> class_named n (add_constructor y d)"
  "method_ok m \<Longrightarrow> md_name m = n \<longrightarrow> md_is_optional m \<or> md_is_stream m \<Longrightarrow> class_named n d
    \<Longrightarrow> class_named n (add_method m d)"
  by (auto simp: class_named_def class_ok_def add_property_def add_constructor_def add_method_def)

lemma set_doc_ok [simp]:
  "property_ok n x \<Longrightarrow> doc_ok d \<Longrightarrow> property_ok n (x\<lparr>pr_doc := or_doc (pr_doc x) d\<rparr>)"
  "constructor_ok y \<Longrightarrow> doc_ok d \<Longrightarrow> constructor_ok (y\<lparr>ct_doc := or_doc (ct_doc y) d\<rparr>)"
  "method_ok m \<Longrightarrow> doc_ok d \<Longrightarrow> method_ok (m\<lparr>md_doc := or_doc (md_doc m) d\<rparr>)"
  by (simp_all add: property_ok_def constructor_ok_def method_ok_def or_doc_ok)

lemma gives_member:
  assumes d: "class_named n d"
  shows "gives (parse_member d) (class_named n)"
proof -
  have "class_named n x \<and> parser_ok p'" if ok: "parser_ok p" and run: "parse_member d p = Inr (x, p')" for p x p'
  proof -
    let ?q = "p\<lparr>p_doc := []\<rparr>" and ?doc = "p_doc p"
    have q: "parser_ok ?q" and doc: "doc_ok ?doc" using ok by (simp_all add: parser_ok_def doc_ok_def)
    from run consider
        (readonly) y where "check KwReadonly ?q" "parse_property ?q = Inr (y, p')"
          "x = add_property (y\<lparr>pr_doc := or_doc (pr_doc y) ?doc\<rparr>) d"
      | (constr) y where "parse_constructor ?q = Inr (y, p')" "x = add_constructor (y\<lparr>ct_doc := or_doc (ct_doc y) ?doc\<rparr>) d"
      | (mod) y where "check KwStream ?q \<or> check KwOptional ?q" "parse_method ?q = Inr (y, p')"
          "x = add_method (y\<lparr>md_doc := or_doc (md_doc y) ?doc\<rparr>) d"
      | (ident) y where "check Identifier ?q" "t_value (p_token ?q) \<noteq> cd_name d" "parse_ident_member ?doc ?q = Inr (y, p')"
          "x = (case y of Inl m \<Rightarrow> add_method m d | Inr r \<Rightarrow> add_property r d)"
      | (prim) y where "is_primitive_type ?q" "parse_primitive_property ?doc ?q = Inr (y, p')" "x = add_property y d"
      by (auto simp: parse_member_def pbind_Inr take_doc_def pret_def parse_fail_def split: if_splits)
    then show ?thesis
    proof cases
      case readonly with property_run [OF q readonly(1,2), of n] d doc show ?thesis by simp
    next
      case constr with givesD [OF gives_constructor q constr(1)] d doc show ?thesis by simp
    next
      case mod
      with givesD [OF gives_method q mod(2)] modified_method_run [OF q mod(1,2)] d doc show ?thesis by simp
    next
      case ident
      with d ident_member_run [OF q doc ident(1) _ ident(3), of n] show ?thesis
        by (auto simp: class_named_def [of n d] ident_member_ok_def split: sum.splits)
    next
      case prim with primitive_property_run [OF q doc prim(1,2), of n] d show ?thesis by simp
    qed
  qed
  then show ?thesis by (simp add: gives_def)
qed

lemma gives_class: "gives parse_class class_ok"
proof -
  have members: "gives (parse_members d) (class_named n)" if "class_named n d" for d n
    using that
  proof (rule gives_member_loop [where c = "\<lambda>p. \<not> check RBrace p \<and> \<not> p_at_end p" and h = "\<lambda>x. x"
        and m = parse_member, rotated 4])
  qed (subst parse_members.simps, simp, rule eats_parse_member, erule gives_member, simp)
  show ?thesis
    unfolding parse_class_def
    by (intro gives_steps gives_pbind [OF gives_base] gives_pbind [OF members] gives_pret)
      (auto simp: class_named_def class_ok_def token_okD)
qed

section \<open>The file\<close>

lemma gives_definition:
  assumes ns: "namespace_ok n"
  shows "gives (parse_definition n) namespace_ok"
  unfolding parse_definition_def
  by (intro gives_pbind [OF gives_take_doc] gives_if gives_fail gives_pret gives_pbind [OF gives_struct]
      gives_pbind [OF gives_enum] gives_pbind [OF gives_class] gives_pbind [OF gives_service] gives_pbind [OF gives_error])
    (use ns in \<open>simp_all add: namespace_ok_def struct_ok_def enum_ok_def class_ok_def service_ok_def error_ok_def or_doc_ok\<close>)

lemma gives_ast: "gives parse_ast (\<lambda>a. \<exists>n. ast_namespaces a = [n] \<and> namespace_ok n)"
proof -
  have first: "gives parse_namespace namespace_ok"
    unfolding parse_namespace_def by (intro gives_steps gives_pret) (simp add: namespace_ok_def token_okD)
  have rest: "gives (parse_definitions n) namespace_ok" if "namespace_ok n" for n
    using that
  proof (rule gives_member_loop [where c = "\<lambda>p. \<not> p_at_end p" and h = "\<lambda>x. x"
        and m = parse_definition and I = namespace_ok, rotated 4])
  qed (subst parse_definitions.simps, simp, rule eats_parse_definition, erule gives_definition, simp)
  show ?thesis
    unfolding parse_ast_def by (intro gives_pbind [OF first] gives_pbind [OF rest] gives_pret) simp_all
qed

lemma parse_gives_namespace: "parse s = Inr a \<Longrightarrow> \<exists>n. ast_namespaces a = [n] \<and> namespace_ok n"
proof -
  assume "parse s = Inr a"
  then obtain p p' where s: "read_past_docs (lexer_new s) [] = Inr p" "parse_ast p = Inr (a, p')"
    by (auto simp: parse_def parser_new_def split: sum.splits)
  have "parser_ok p" using read_past_docs_ok [OF s(1)] by (simp add: doc_ok_def)
  from givesD [OF gives_ast this s(2)] show ?thesis by simp
qed

text \<open>Claim C12. Whatever text the parser accepts, the abstract syntax it returns is well formed: it
  is one namespace; every name in it is an identifier and no keyword; a type is marked as an
  array exactly when it has brackets; every explicit enum value is between 0 and
  \<open>2 ^ 63 - 1\<close>; no method is both optional and streaming; no member of a class could have been
  read as a constructor of it; no documentation begins with an empty line.\<close>

theorem parse_well_formed:
  assumes "parse s = Inr a"
  shows "\<exists>n. ast_namespaces a = [n] \<and> namespace_ok n"
  by (rule parse_gives_namespace [OF assms])

lemma sample_accepted:
  "(case parse ''namespace n; struct P { i32 x; }'' of Inl e \<Rightarrow> False | Inr a \<Rightarrow> length (ns_structs (hd (ast_namespaces a))) = 1)"
  by code_simp

theorem parse_well_formed_witness:
  "\<exists>a n. parse ''namespace n; struct P { i32 x; }'' = Inr a \<and> ast_namespaces a = [n] \<and> namespace_ok n
    \<and> length (ns_structs n) = 1"
  using sample_accepted parse_well_formed [of "''namespace n; struct P { i32 x; }''"]
  by (fastforce split: sum.splits)

section \<open>Declarations the parser does not accept\<close>

text \<open>A writable property whose type is the class itself is taken for a constructor; a writable
  property of a user-defined type has its brackets behind the name, not behind the type.\<close>

lemma self_typed_property_rejected:
  "parse ''namespace n; class N { N m; }''
    = Inl (ParserError (''Expected '' @ in_quotes ''('' @ '' after constructor name (got Identifier)'') 1 26)"
  by code_simp

lemma array_typed_property_rejected:
  "parse ''namespace n; class N { M[] m; }'' = Inl (ParserError ''Expected property name (got [)'' 1 25)"
  by code_simp

lemma optional_typed_property_rejected:
  "parse ''namespace n; class N { M? m; }'' = Inl (ParserError ''Expected property name (got ?)'' 1 25)"
  by code_simp

end
