(* ===== verification/Song_Resolver.thy ===== *)
theory Song_Resolver
  imports Song_Syntax
begin

text \<open>
  The semantic analysis of the interface compiler (\<^verbatim>\<open>compiler/resolver.cpp\<close>): the symbol table,
  the registration pass, the validation pass with one definition per check, inheritance cycles.
  The lemmas lead to an equivalence: the resolver accepts a file exactly when the file is well
  formed in the declarative sense of \<open>well_resolved\<close>.
\<close>

section \<open>The symbol table\<close>

datatype type_kind = EnumKind | StructKind | ClassKind | ServiceKind | ErrorKind

fun type_kind_to_string :: "type_kind \<Rightarrow> string" where
  "type_kind_to_string EnumKind = ''enum''"
| "type_kind_to_string StructKind = ''struct''"
| "type_kind_to_string ClassKind = ''class''"
| "type_kind_to_string ServiceKind = ''service''"
| "type_kind_to_string ErrorKind = ''error''"

record type_info =
  ti_name :: string
  ti_kind :: type_kind
  ti_loc :: source_loc
  ti_base :: "string option"

record resolver_error =
  re_message :: string
  re_line :: int
  re_column :: int

text \<open>\<open>rs_overflow\<close> records that a signed addition of the run had no defined value.\<close>

record resolver =
  rs_ast :: ast
  rs_types :: "(string \<times> type_info) list"
  rs_errors :: "resolver_error list"
  rs_overflow :: bool

definition resolver_what :: "resolver_error \<Rightarrow> string" where
  "resolver_what e = ''Resolve error at line '' @ int_string (re_line e) @ '', column '' @ int_string (re_column e)
    @ '': '' @ re_message e"

definition resolver_new :: "ast \<Rightarrow> resolver" where
  "resolver_new a = \<lparr>rs_ast = a, rs_types = [], rs_errors = [], rs_overflow = False\<rparr>"

definition type_exists :: "resolver \<Rightarrow> string \<Rightarrow> bool" where
  "type_exists st name = (map_of (rs_types st) name \<noteq> None)"

definition lookup :: "resolver \<Rightarrow> string \<Rightarrow> type_info option" where
  "lookup st name = map_of (rs_types st) name"

definition resolve_error :: "source_loc \<Rightarrow> string \<Rightarrow> resolver \<Rightarrow> resolver" where
  "resolve_error loc msg st = st\<lparr>rs_errors := rs_errors st
     @ [\<lparr>re_message = msg, re_line = loc_line loc, re_column = loc_column loc\<rparr>]\<rparr>"

section \<open>Registration\<close>

definition register_type :: "string \<Rightarrow> type_kind \<Rightarrow> source_loc \<Rightarrow> string option \<Rightarrow> resolver \<Rightarrow> resolver" where
  "register_type name kind loc base st =
    (case lookup st name of
       Some first \<Rightarrow> resolve_error loc (''Duplicate type '' @ in_quotes name @ '' (first defined at line ''
         @ int_string (loc_line (ti_loc first)) @ '')'') st
     | None \<Rightarrow> st\<lparr>rs_types := (name, \<lparr>ti_name = name, ti_kind = kind, ti_loc = loc, ti_base = base\<rparr>) # rs_types st\<rparr>)"

definition register_namespace :: "namespace_def \<Rightarrow> resolver \<Rightarrow> resolver" where
  "register_namespace ns st =
    fold (\<lambda>e. register_type (er_name e) ErrorKind (er_loc e) (er_base e)) (ns_errors ns)
    (fold (\<lambda>s. register_type (sv_name s) ServiceKind (sv_loc s) None) (ns_services ns)
    (fold (\<lambda>c. register_type (cd_name c) ClassKind (cd_loc c) (cd_base c)) (ns_classes ns)
    (fold (\<lambda>s. register_type (sd_name s) StructKind (sd_loc s) (sd_base s)) (ns_structs ns)
    (fold (\<lambda>e. register_type (ed_name e) EnumKind (ed_loc e) None) (ns_enums ns) st))))"

definition register_types :: "resolver \<Rightarrow> resolver" where
  "register_types st = fold register_namespace (ast_namespaces (rs_ast st)) st"

section \<open>References\<close>

definition validate_type :: "idl_type \<Rightarrow> source_loc \<Rightarrow> resolver \<Rightarrow> resolver" where
  "validate_type t loc st =
    (case ty_base t of
       Primitive p \<Rightarrow> st
     | User name \<Rightarrow> if type_exists st name then st
         else resolve_error loc (''Undefined type '' @ in_quotes name) st)"

definition validate_throw :: "source_loc \<Rightarrow> string \<Rightarrow> resolver \<Rightarrow> resolver" where
  "validate_throw loc name st =
    (case lookup st name of
       None \<Rightarrow> resolve_error loc (''Undefined error type '' @ in_quotes name @ '' in throws clause'') st
     | Some info \<Rightarrow> if ti_kind info \<noteq> ErrorKind
         then resolve_error loc (''Type '' @ in_quotes name @ '' in throws clause is not an error type'') st
         else st)"

definition validate_params :: "param list \<Rightarrow> resolver \<Rightarrow> resolver" where
  "validate_params ps = fold (\<lambda>x. validate_type (pm_type x) (pm_loc x)) ps"

definition validate_method :: "method_def \<Rightarrow> resolver \<Rightarrow> resolver" where
  "validate_method m st =
    fold (validate_throw (md_loc m)) (md_throws m)
      (validate_type (md_return m) (md_loc m) (validate_params (md_params m) st))"

definition validate_inheritance :: "string \<Rightarrow> string \<Rightarrow> type_kind \<Rightarrow> source_loc \<Rightarrow> resolver \<Rightarrow> resolver" where
  "validate_inheritance name base expected loc st =
    (case lookup st base of
       None \<Rightarrow> resolve_error loc (''Undefined base type '' @ in_quotes base @ '' for '' @ type_kind_to_string expected
         @ '' '' @ in_quotes name) st
     | Some info \<Rightarrow> if ti_kind info \<noteq> expected
         then resolve_error loc (''Type '' @ in_quotes name @ '' cannot inherit from '' @ type_kind_to_string (ti_kind info)
           @ '' '' @ in_quotes base @ '' (expected '' @ type_kind_to_string expected @ '')'') st
         else st)"

definition validate_base :: "string \<Rightarrow> string option \<Rightarrow> type_kind \<Rightarrow> source_loc \<Rightarrow> resolver \<Rightarrow> resolver" where
  "validate_base name base kind loc st =
    (case base of None \<Rightarrow> st | Some b \<Rightarrow> validate_inheritance name b kind loc st)"

section \<open>Duplicates\<close>

text \<open>The loop over the members of a definition that remembers the names it has seen, which the
  code has for fields, methods and enum items.\<close>

fun report_repeated :: "('a \<Rightarrow> string) \<Rightarrow> ('a \<Rightarrow> source_loc) \<Rightarrow> string \<Rightarrow> string \<Rightarrow> string list \<Rightarrow> 'a list
    \<Rightarrow> resolver \<Rightarrow> resolver" where
  "report_repeated nm lc noun parent seen [] st = st"
| "report_repeated nm lc noun parent seen (x # xs) st =
    report_repeated nm lc noun parent (nm x # seen) xs
      (if nm x \<in> set seen
       then resolve_error (lc x) (''Duplicate '' @ noun @ '' '' @ in_quotes (nm x) @ '' in '' @ parent) st
       else st)"

definition fields_named :: "ast \<Rightarrow> string \<Rightarrow> field_def list" where
  "fields_named a name = concat (map (\<lambda>ns.
      concat (map sd_fields (filter (\<lambda>s. sd_name s = name) (ns_structs ns)))
    @ concat (map er_fields (filter (\<lambda>e. er_name e = name) (ns_errors ns)))) (ast_namespaces a))"

text \<open>The walk up the chain of bases; it ends because it stops at a name it has visited and only
  goes on from a name in the table.\<close>

lemma table_shrinks:
  "map_of kvs k = Some v \<Longrightarrow> k \<notin> S \<Longrightarrow> card (fst ` set kvs - insert k S) < card (fst ` set kvs - S)"
proof (rule psubset_card_mono)
  assume "map_of kvs k = Some v" "k \<notin> S"
  then have "k \<in> fst ` set kvs - S" by (auto dest!: map_of_SomeD simp: image_iff intro: rev_bexI)
  then show "fst ` set kvs - insert k S \<subset> fst ` set kvs - S" by blast
qed simp

function ancestor_fields :: "resolver \<Rightarrow> string set \<Rightarrow> string \<Rightarrow> string list" where
  "ancestor_fields st visited current =
    (if current \<in> visited then []
     else map fd_name (fields_named (rs_ast st) current)
       @ (case lookup st current of
            None \<Rightarrow> []
          | Some info \<Rightarrow> (case ti_base info of
              None \<Rightarrow> []
            | Some b \<Rightarrow> ancestor_fields st (insert current visited) b)))"
  by pat_completeness auto
termination
  by (relation "measure (\<lambda>(st, visited, current). card (fst ` set (rs_types st) - visited))")
    (auto simp: lookup_def table_shrinks)

declare ancestor_fields.simps [simp del]

definition report_shadowed :: "string list \<Rightarrow> string \<Rightarrow> field_def list \<Rightarrow> resolver \<Rightarrow> resolver" where
  "report_shadowed inherited parent fs =
    fold (\<lambda>f st. if fd_name f \<in> set inherited
      then resolve_error (fd_loc f) (''Field '' @ in_quotes (fd_name f) @ '' in '' @ parent
        @ '' shadows inherited field from base type'') st
      else st) fs"

definition check_duplicate_fields :: "field_def list \<Rightarrow> string \<Rightarrow> resolver \<Rightarrow> resolver" where
  "check_duplicate_fields fs parent st0 =
    (let st = report_repeated fd_name fd_loc ''field'' parent [] fs st0 in
     case lookup st parent of
       None \<Rightarrow> st
     | Some info \<Rightarrow> (case ti_base info of
         None \<Rightarrow> st
       | Some b \<Rightarrow> report_shadowed (ancestor_fields st {} b) parent fs st))"

definition check_duplicate_methods :: "method_def list \<Rightarrow> string \<Rightarrow> resolver \<Rightarrow> resolver" where
  "check_duplicate_methods ms parent = report_repeated md_name md_loc ''method'' parent [] ms"

text \<open>The second loop over enum items: \<^verbatim>\<open>seen_values\<close> is a map whose entry a collision replaces,
  \<^verbatim>\<open>auto_value\<close> the value of the next item without one. Its increment is signed.\<close>

fun report_colliding :: "string \<Rightarrow> (i64 \<times> string) list \<Rightarrow> i64 \<Rightarrow> enum_item list \<Rightarrow> resolver \<Rightarrow> resolver" where
  "report_colliding parent seen auto [] st = st"
| "report_colliding parent seen auto (x # xs) st =
    (let v = (case ei_value x of Some i \<Rightarrow> i | None \<Rightarrow> auto);
         st1 = (case map_of seen v of
             Some other \<Rightarrow> resolve_error (ei_loc x) (''Enum value '' @ int_string (sint v) @ '' for '' @ in_quotes (ei_name x)
               @ '' collides with '' @ in_quotes other @ '' in '' @ parent) st
           | None \<Rightarrow> st);
         st2 = (if sint v = 2 ^ 63 - 1 then st1\<lparr>rs_overflow := True\<rparr> else st1)
     in report_colliding parent ((v, ei_name x) # seen) (v + 1) xs st2)"

definition check_duplicate_enum_items :: "enum_item list \<Rightarrow> string \<Rightarrow> resolver \<Rightarrow> resolver" where
  "check_duplicate_enum_items items parent st =
    report_colliding parent [] 0 items (report_repeated ei_name ei_loc ''enum item'' parent [] items st)"

section \<open>Inheritance cycles\<close>

function detect_cycle :: "resolver \<Rightarrow> string \<Rightarrow> string set \<Rightarrow> string set \<Rightarrow> bool \<times> string set \<times> string set" where
  "detect_cycle st name visiting visited =
    (if name \<in> visited then (False, visiting, visited)
     else if name \<in> visiting then (True, visiting, visited)
     else case lookup st name of
         None \<Rightarrow> (False, visiting, insert name visited)
       | Some info \<Rightarrow> (case ti_base info of
           None \<Rightarrow> (False, visiting, insert name visited)
         | Some b \<Rightarrow>
             (let (has_cycle, visiting', visited') = detect_cycle st b (insert name visiting) visited
              in (has_cycle, visiting' - {name}, insert name visited'))))"
  by pat_completeness auto
termination
  by (relation "measure (\<lambda>(st, name, visiting, visited). card (fst ` set (rs_types st) - visiting))")
    (auto simp: lookup_def table_shrinks)

declare detect_cycle.simps [simp del]

definition has_inheritance_cycle :: "resolver \<Rightarrow> string \<Rightarrow> bool" where
  "has_inheritance_cycle st name = fst (detect_cycle st name {} {})"

definition check_cycle :: "string \<Rightarrow> string \<Rightarrow> source_loc \<Rightarrow> resolver \<Rightarrow> resolver" where
  "check_cycle noun name loc st =
    (if has_inheritance_cycle st name
     then resolve_error loc (''Inheritance cycle detected for '' @ noun @ '' '' @ in_quotes name) st else st)"

section \<open>Validation\<close>

definition validate_enum :: "enum_def \<Rightarrow> resolver \<Rightarrow> resolver" where
  "validate_enum e = check_duplicate_enum_items (ed_items e) (ed_name e)"

definition validate_fields :: "field_def list \<Rightarrow> resolver \<Rightarrow> resolver" where
  "validate_fields fs = fold (\<lambda>f. validate_type (fd_type f) (fd_loc f)) fs"

definition validate_struct :: "struct_def \<Rightarrow> resolver \<Rightarrow> resolver" where
  "validate_struct s st =
    check_duplicate_fields (sd_fields s) (sd_name s)
    (validate_fields (sd_fields s)
    (check_cycle ''struct'' (sd_name s) (sd_loc s)
    (validate_base (sd_name s) (sd_base s) StructKind (sd_loc s) st)))"

definition validate_class :: "class_def \<Rightarrow> resolver \<Rightarrow> resolver" where
  "validate_class c st =
    check_duplicate_methods (cd_methods c) (cd_name c)
    (fold validate_method (cd_methods c)
    (fold (\<lambda>k. validate_params (ct_params k)) (cd_constructors c)
    (fold (\<lambda>x. validate_type (pr_type x) (pr_loc x)) (cd_properties c)
    (check_cycle ''class'' (cd_name c) (cd_loc c)
    (validate_base (cd_name c) (cd_base c) ClassKind (cd_loc c) st)))))"

definition validate_service :: "service_def \<Rightarrow> resolver \<Rightarrow> resolver" where
  "validate_service s st =
    check_duplicate_methods (sv_methods s) (sv_name s) (fold validate_method (sv_methods s) st)"

definition validate_error_def :: "error_def \<Rightarrow> resolver \<Rightarrow> resolver" where
  "validate_error_def e st =
    check_duplicate_fields (er_fields e) (er_name e)
    (validate_fields (er_fields e)
    (check_cycle ''error'' (er_name e) (er_loc e)
    (validate_base (er_name e) (er_base e) ErrorKind (er_loc e) st)))"

definition validate_namespace :: "namespace_def \<Rightarrow> resolver \<Rightarrow> resolver" where
  "validate_namespace ns st =
    fold validate_error_def (ns_errors ns)
    (fold validate_service (ns_services ns)
    (fold validate_class (ns_classes ns)
    (fold validate_struct (ns_structs ns)
    (fold validate_enum (ns_enums ns) st))))"

definition validate_types :: "resolver \<Rightarrow> resolver" where
  "validate_types st = fold validate_namespace (ast_namespaces (rs_ast st)) st"

definition resolve :: "resolver \<Rightarrow> bool \<times> resolver" where
  "resolve st =
    (let st' = validate_types (register_types (st\<lparr>rs_errors := [], rs_types := []\<rparr>))
     in (rs_errors st' = [], st'))"

section \<open>What a check does\<close>

text \<open>\<open>checks f C O\<close>: the step \<open>f\<close> leaves the table and the file as they are, adds no error exactly
  when \<open>C\<close> holds of them, and evaluates an undefined addition exactly when \<open>O\<close>.\<close>

definition checks :: "(resolver \<Rightarrow> resolver) \<Rightarrow> (ast \<Rightarrow> (string \<times> type_info) list \<Rightarrow> bool) \<Rightarrow> bool \<Rightarrow> bool" where
  "checks f C ov \<longleftrightarrow> (\<forall>st. rs_types (f st) = rs_types st \<and> rs_ast (f st) = rs_ast st
    \<and> (rs_errors (f st) = [] \<longleftrightarrow> rs_errors st = [] \<and> C (rs_ast st) (rs_types st))
    \<and> (rs_overflow (f st) \<longleftrightarrow> rs_overflow st \<or> ov))"

lemma resolve_error_simps [simp]:
  "rs_types (resolve_error loc m st) = rs_types st" "rs_ast (resolve_error loc m st) = rs_ast st"
  "rs_errors (resolve_error loc m st) \<noteq> []" "rs_overflow (resolve_error loc m st) = rs_overflow st"
  by (simp_all add: resolve_error_def)

lemma checks_comp:
  "checks f C p \<Longrightarrow> checks g D q \<Longrightarrow> checks (\<lambda>st. g (f st)) (\<lambda>a T. C a T \<and> D a T) (p \<or> q)"
  by (auto simp: checks_def)

lemma checks_fold:
  "(\<And>x. checks (f x) (C x) (ov x)) \<Longrightarrow> checks (fold f xs) (\<lambda>a T. \<forall>x\<in>set xs. C x a T) (\<exists>x\<in>set xs. ov x)"
proof (induction xs)
  case Nil
  then show ?case by (simp add: checks_def)
next
  case (Cons x xs)
  from checks_comp [OF Cons.prems Cons.IH [OF Cons.prems], of x] show ?case by (simp add: checks_def)
qed

lemma checks_iff: "checks f C p \<Longrightarrow> (\<And>a T. C a T = D a T) \<Longrightarrow> p = q \<Longrightarrow> checks f D q"
  by (simp add: checks_def)

section \<open>The bases of a type\<close>

definition inh :: "(string \<times> type_info) list \<Rightarrow> (string \<times> string) set" where
  "inh T = {(x, y). \<exists>i. map_of T x = Some i \<and> ti_base i = Some y}"

lemma inh_single: "(x, y) \<in> inh T \<Longrightarrow> (x, z) \<in> inh T \<Longrightarrow> y = z"
  by (auto simp: inh_def)

lemma inh_rtrancl: "(x, y) \<in> inh T \<Longrightarrow> (x, c) \<in> (inh T)\<^sup>* \<longleftrightarrow> c = x \<or> (y, c) \<in> (inh T)\<^sup>*"
  by (metis converse_rtranclE converse_rtrancl_into_rtrancl inh_single rtrancl.rtrancl_refl)

lemma inh_trancl: "(x, y) \<in> inh T \<Longrightarrow> (x, c) \<in> (inh T)\<^sup>+ \<longleftrightarrow> (y, c) \<in> (inh T)\<^sup>*"
  by (metis inh_single rtrancl_into_trancl2 tranclD)

lemma no_base_rtrancl: "\<forall>y. (x, y) \<notin> inh T \<Longrightarrow> (x, c) \<in> (inh T)\<^sup>* \<longleftrightarrow> c = x"
  by (metis converse_rtranclE rtrancl.rtrancl_refl)

lemma detect_cycle_iff:
  "fst (detect_cycle st name visiting {}) \<longleftrightarrow>
    (\<exists>c\<in>visiting. (name, c) \<in> (inh (rs_types st))\<^sup>*)
    \<or> (\<exists>c. (name, c) \<in> (inh (rs_types st))\<^sup>* \<and> (c, c) \<in> (inh (rs_types st))\<^sup>+)"
proof (induction "card (fst ` set (rs_types st) - visiting)" arbitrary: name visiting rule: less_induct)
  case less
  let ?r = "inh (rs_types st)"
  note run = detect_cycle.simps [of st name visiting "{}"]
  show ?case
  proof (cases "name \<in> visiting")
    case True
    then show ?thesis by (auto simp: run)
  next
    case out: False
    show ?thesis
    proof (cases "\<exists>b. (name, b) \<in> ?r")
      case True
      then obtain b i where b: "map_of (rs_types st) name = Some i" "ti_base i = Some b" by (auto simp: inh_def)
      then have step: "(name, b) \<in> ?r" by (auto simp: inh_def)
      have "fst (detect_cycle st name visiting {}) = fst (detect_cycle st b (insert name visiting) {})"
        using out b by (simp add: run lookup_def split: prod.split)
      also have "\<dots> \<longleftrightarrow> (\<exists>c\<in>insert name visiting. (b, c) \<in> ?r\<^sup>*) \<or> (\<exists>c. (b, c) \<in> ?r\<^sup>* \<and> (c, c) \<in> ?r\<^sup>+)"
        by (rule less) (rule table_shrinks [OF b(1) out])
      also have "\<dots> \<longleftrightarrow> (\<exists>c\<in>visiting. (name, c) \<in> ?r\<^sup>*) \<or> (\<exists>c. (name, c) \<in> ?r\<^sup>* \<and> (c, c) \<in> ?r\<^sup>+)"
        unfolding inh_rtrancl [OF step] using out inh_trancl [OF step] by auto
      finally show ?thesis .
    next
      case False
      then have "\<not> fst (detect_cycle st name visiting {})"
        using out by (auto simp: run lookup_def inh_def split: option.splits)
      moreover have "(name, c) \<in> ?r\<^sup>* \<longleftrightarrow> c = name" for c
        using False by (intro no_base_rtrancl) blast
      moreover have "(name, name) \<notin> ?r\<^sup>+"
        using False by (metis tranclD)
      ultimately show ?thesis using out by auto
    qed
  qed
qed

lemma has_inheritance_cycle_iff:
  "has_inheritance_cycle st name \<longleftrightarrow> (\<exists>c. (name, c) \<in> (inh (rs_types st))\<^sup>* \<and> (c, c) \<in> (inh (rs_types st))\<^sup>+)"
  by (simp add: has_inheritance_cycle_def detect_cycle_iff)

text \<open>The walk that collects the inherited fields reaches every ancestor.\<close>

lemma leaves_start:
  "(x, c) \<in> r\<^sup>* \<Longrightarrow> c = x \<or> (\<exists>b. (x, b) \<in> r \<and> b \<noteq> x \<and> (b, c) \<in> {(u, v). (u, v) \<in> r \<and> v \<noteq> x}\<^sup>*)"
proof (induction rule: rtrancl_induct)
  case (step c d)
  show ?case
  proof (cases "d = x")
    case False
    with step show ?thesis by (auto intro: rtrancl_into_rtrancl)
  qed simp
qed simp

lemma ancestor_fields_set:
  "set (ancestor_fields st V x) = (if x \<in> V then {} else
    (\<Union>c\<in>{c. (x, c) \<in> {(u, v). (u, v) \<in> inh (rs_types st) \<and> v \<notin> V}\<^sup>*}. fd_name ` set (fields_named (rs_ast st) c)))"
proof (induction "card (fst ` set (rs_types st) - V)" arbitrary: x V rule: less_induct)
  case less
  let ?r = "\<lambda>V. {(u, v). (u, v) \<in> inh (rs_types st) \<and> v \<notin> V}"
  let ?n = "\<lambda>c. fd_name ` set (fields_named (rs_ast st) c)"
  show ?case
  proof (cases "x \<in> V")
    case out: False
    show ?thesis
    proof (cases "\<exists>b. (x, b) \<in> inh (rs_types st)")
      case True
      then obtain b i where b: "map_of (rs_types st) x = Some i" "ti_base i = Some b" by (auto simp: inh_def)
      then have step: "(x, b) \<in> inh (rs_types st)" by (auto simp: inh_def)
      have split: "{c. (x, c) \<in> (?r V)\<^sup>*} = insert x (if b \<in> insert x V then {} else {c. (b, c) \<in> (?r (insert x V))\<^sup>*})"
        (is "?L = ?R")
      proof
        have eq: "{(u, v). (u, v) \<in> ?r V \<and> v \<noteq> x} = ?r (insert x V)" by auto
        show "?L \<subseteq> ?R"
          using leaves_start [where r = "?r V" and x = x, unfolded eq] inh_single [OF step] by fastforce
        show "?R \<subseteq> ?L"
          using step rtrancl_mono [of "?r (insert x V)" "?r V"] by (auto intro: converse_rtrancl_into_rtrancl)
      qed
      have "set (ancestor_fields st V x) = ?n x \<union> set (ancestor_fields st (insert x V) b)"
        using out b by (simp add: ancestor_fields.simps [of st V x] lookup_def)
      also have "set (ancestor_fields st (insert x V) b)
          = (if b \<in> insert x V then {} else (\<Union>c\<in>{c. (b, c) \<in> (?r (insert x V))\<^sup>*}. ?n c))"
        by (rule less) (rule table_shrinks [OF b(1) out])
      also have "?n x \<union> \<dots> = (\<Union>c\<in>{c. (x, c) \<in> (?r V)\<^sup>*}. ?n c)"
        unfolding split by (simp split: if_split)
      finally show ?thesis using out by simp
    next
      case False
      then have "map_of (rs_types st) x = Some i \<Longrightarrow> ti_base i = None" for i
        by (cases "ti_base i") (auto simp: inh_def)
      then have "set (ancestor_fields st V x) = ?n x"
        using out by (cases "map_of (rs_types st) x") (simp_all add: ancestor_fields.simps [of st V x] lookup_def)
      moreover have "(x, c) \<in> (?r V)\<^sup>* \<longleftrightarrow> c = x" for c
        using False by (auto elim: converse_rtranclE)
      ultimately show ?thesis using out by simp
    qed
  qed (simp add: ancestor_fields.simps [of st V x])
qed

section \<open>The single checks\<close>

named_theorems check_rules \<open>what the single checks of the resolver do\<close>

definition type_known :: "(string \<times> type_info) list \<Rightarrow> idl_type \<Rightarrow> bool" where
  "type_known T t = (case ty_base t of Primitive p \<Rightarrow> True | User n \<Rightarrow> map_of T n \<noteq> None)"

definition kind_of :: "(string \<times> type_info) list \<Rightarrow> string \<Rightarrow> type_kind option" where
  "kind_of T n = map_option ti_kind (map_of T n)"

lemma checks_type [check_rules]: "checks (validate_type t loc) (\<lambda>a T. type_known T t) False"
  by (auto simp: checks_def validate_type_def type_known_def type_exists_def split: base_type.splits)

lemma checks_throw [check_rules]: "checks (validate_throw loc n) (\<lambda>a T. kind_of T n = Some ErrorKind) False"
  by (auto simp: checks_def validate_throw_def lookup_def kind_of_def split: option.splits)

lemma checks_inheritance [check_rules]:
  "checks (validate_base n b k loc) (\<lambda>a T. \<forall>x. b = Some x \<longrightarrow> kind_of T x = Some k) False"
  by (auto simp: checks_def validate_base_def validate_inheritance_def lookup_def kind_of_def split: option.splits)

lemma checks_cycle [check_rules]:
  "checks (check_cycle noun n loc) (\<lambda>a T. \<not> (\<exists>c. (n, c) \<in> (inh T)\<^sup>* \<and> (c, c) \<in> (inh T)\<^sup>+)) False"
  by (auto simp: checks_def check_cycle_def has_inheritance_cycle_iff)

lemma checks_params [check_rules]: "checks (validate_params ps) (\<lambda>a T. \<forall>p\<in>set ps. type_known T (pm_type p)) False"
  unfolding validate_params_def by (rule checks_iff [OF checks_fold [OF checks_type]]) simp_all

lemma checks_fields [check_rules]: "checks (validate_fields fs) (\<lambda>a T. \<forall>f\<in>set fs. type_known T (fd_type f)) False"
  unfolding validate_fields_def by (rule checks_iff [OF checks_fold [OF checks_type]]) simp_all

lemma checks_throws [check_rules]:
  "checks (fold (validate_throw loc) es) (\<lambda>a T. \<forall>e\<in>set es. kind_of T e = Some ErrorKind) False"
  by (rule checks_iff [OF checks_fold [OF checks_throw]]) simp_all

definition method_known :: "(string \<times> type_info) list \<Rightarrow> method_def \<Rightarrow> bool" where
  "method_known T m = ((\<forall>p\<in>set (md_params m). type_known T (pm_type p)) \<and> type_known T (md_return m)
    \<and> (\<forall>e\<in>set (md_throws m). kind_of T e = Some ErrorKind))"

lemma checks_method [check_rules]: "checks (validate_method m) (\<lambda>a T. method_known T m) False"
  unfolding validate_method_def
  by (rule checks_iff [OF checks_comp [OF checks_comp [OF checks_params checks_type] checks_throws]])
    (auto simp: method_known_def)

lemma checks_repeated:
  "checks (report_repeated nm lc noun parent seen xs)
    (\<lambda>a T. distinct (map nm xs) \<and> nm ` set xs \<inter> set seen = {}) False"
proof (induction xs arbitrary: seen)
  case Nil
  then show ?case by (simp add: checks_def)
next
  case (Cons x xs)
  have "checks (\<lambda>st. if nm x \<in> set seen
      then resolve_error (lc x) (''Duplicate '' @ noun @ '' '' @ in_quotes (nm x) @ '' in '' @ parent) st
      else st) (\<lambda>a T. nm x \<notin> set seen) False"
    by (simp add: checks_def)
  from checks_comp [OF this Cons [of "nm x # seen"]]
  have "checks (\<lambda>st. report_repeated nm lc noun parent seen (x # xs) st)
      (\<lambda>a T. nm x \<notin> set seen \<and> distinct (map nm xs) \<and> nm ` set xs \<inter> set (nm x # seen) = {}) False"
    by simp
  then show ?case by (rule checks_iff) auto
qed

lemma checks_methods [check_rules]:
  "checks (check_duplicate_methods ms parent) (\<lambda>a T. distinct (map md_name ms)) False"
  unfolding check_duplicate_methods_def by (rule checks_iff [OF checks_repeated]) simp_all

subsection \<open>Fields\<close>

definition shadows :: "ast \<Rightarrow> (string \<times> type_info) list \<Rightarrow> string \<Rightarrow> field_def list \<Rightarrow> bool" where
  "shadows a T n fs = (\<exists>c. (n, c) \<in> (inh T)\<^sup>+ \<and> fd_name ` set fs \<inter> fd_name ` set (fields_named a c) \<noteq> {})"

lemma checks_shadowed:
  "checks (report_shadowed names parent fs) (\<lambda>a T. fd_name ` set fs \<inter> set names = {}) False"
  unfolding report_shadowed_def
  by (rule checks_iff [OF checks_fold [where C = "\<lambda>f a T. fd_name f \<notin> set names" and ov = "\<lambda>_. False"]])
    (auto simp: checks_def)

lemma checks_duplicate_fields [check_rules]:
  "checks (check_duplicate_fields fs parent) (\<lambda>a T. distinct (map fd_name fs) \<and> \<not> shadows a T parent fs) False"
proof -
  let ?rest = "\<lambda>st. case lookup st parent of
       None \<Rightarrow> st
     | Some info \<Rightarrow> (case ti_base info of
         None \<Rightarrow> st
       | Some b \<Rightarrow> report_shadowed (ancestor_fields st {} b) parent fs st)"
  have "checks ?rest (\<lambda>a T. \<not> shadows a T parent fs) False"
    unfolding checks_def
  proof
    fix st :: resolver
    let ?T = "rs_types st"
    show "rs_types (?rest st) = rs_types st \<and> rs_ast (?rest st) = rs_ast st
      \<and> (rs_errors (?rest st) = [] \<longleftrightarrow> rs_errors st = [] \<and> \<not> shadows (rs_ast st) (rs_types st) parent fs)
      \<and> (rs_overflow (?rest st) \<longleftrightarrow> rs_overflow st \<or> False)"
    proof (cases "\<exists>b. (parent, b) \<in> inh ?T")
      case True
      then obtain b i where b: "map_of ?T parent = Some i" "ti_base i = Some b" by (auto simp: inh_def)
      then have step: "(parent, b) \<in> inh ?T" by (auto simp: inh_def)
      have "set (ancestor_fields st {} b) = (\<Union>c\<in>{c. (parent, c) \<in> (inh ?T)\<^sup>+}. fd_name ` set (fields_named (rs_ast st) c))"
        by (simp add: ancestor_fields_set inh_trancl [OF step])
      then have "shadows (rs_ast st) ?T parent fs \<longleftrightarrow> fd_name ` set fs \<inter> set (ancestor_fields st {} b) \<noteq> {}"
        by (auto simp: shadows_def)
      with b checks_shadowed [of "ancestor_fields st {} b" parent fs] show ?thesis
        by (simp add: checks_def lookup_def)
    next
      case False
      then have "map_of ?T parent = Some i \<Longrightarrow> ti_base i = None" for i
        by (cases "ti_base i") (auto simp: inh_def)
      moreover have "\<not> shadows (rs_ast st) ?T parent fs"
        using False by (auto simp: shadows_def dest: tranclD)
      ultimately show ?thesis by (cases "map_of ?T parent") (simp_all add: lookup_def)
    qed
  qed
  from checks_comp [OF checks_repeated this, of fd_name fd_loc "''field''" parent "[]" fs]
  have "checks (check_duplicate_fields fs parent)
      (\<lambda>a T. (distinct (map fd_name fs) \<and> fd_name ` set fs \<inter> set [] = {}) \<and> \<not> shadows a T parent fs) (False \<or> False)"
    by (simp add: check_duplicate_fields_def [abs_def] Let_def)
  then show ?thesis by (rule checks_iff) auto
qed

subsection \<open>Enum items\<close>

fun enum_words :: "i64 \<Rightarrow> enum_item list \<Rightarrow> i64 list" where
  "enum_words auto [] = []"
| "enum_words auto (x # xs) = (let v = (case ei_value x of Some i \<Rightarrow> i | None \<Rightarrow> auto) in v # enum_words (v + 1) xs)"

definition top_value :: "i64 list \<Rightarrow> bool" where
  "top_value vs = (\<exists>v\<in>set vs. sint v = 2 ^ 63 - 1)"

lemma checks_colliding:
  "checks (report_colliding parent seen auto xs)
    (\<lambda>a T. distinct (enum_words auto xs) \<and> set (enum_words auto xs) \<inter> dom (map_of seen) = {})
    (top_value (enum_words auto xs))"
proof (induction xs arbitrary: seen auto)
  case Nil
  then show ?case by (simp add: checks_def top_value_def)
next
  case (Cons x xs)
  define v where "v = (case ei_value x of Some i \<Rightarrow> i | None \<Rightarrow> auto)"
  let ?one = "\<lambda>st. let st1 = (case map_of seen v of
             Some other \<Rightarrow> resolve_error (ei_loc x) (''Enum value '' @ int_string (sint v) @ '' for '' @ in_quotes (ei_name x)
               @ '' collides with '' @ in_quotes other @ '' in '' @ parent) st
           | None \<Rightarrow> st)
         in (if sint v = 2 ^ 63 - 1 then st1\<lparr>rs_overflow := True\<rparr> else st1)"
  have "checks ?one (\<lambda>a T. v \<notin> dom (map_of seen)) (sint v = 2 ^ 63 - 1)"
    by (auto simp: checks_def Let_def split: option.splits)
  from checks_comp [OF this Cons [of "(v, ei_name x) # seen" "v + 1"]]
  have "checks (\<lambda>st. report_colliding parent ((v, ei_name x) # seen) (v + 1) xs (?one st))
      (\<lambda>a T. v \<notin> dom (map_of seen) \<and> distinct (enum_words (v + 1) xs)
        \<and> set (enum_words (v + 1) xs) \<inter> dom (map_of ((v, ei_name x) # seen)) = {})
      (sint v = 2 ^ 63 - 1 \<or> top_value (enum_words (v + 1) xs))" .
  moreover have "report_colliding parent seen auto (x # xs)
      = (\<lambda>st. report_colliding parent ((v, ei_name x) # seen) (v + 1) xs (?one st))"
    by (rule ext) (simp only: report_colliding.simps Let_def v_def)
  ultimately have "checks (report_colliding parent seen auto (x # xs))
      (\<lambda>a T. v \<notin> dom (map_of seen) \<and> distinct (enum_words (v + 1) xs)
        \<and> set (enum_words (v + 1) xs) \<inter> dom (map_of ((v, ei_name x) # seen)) = {})
      (sint v = 2 ^ 63 - 1 \<or> top_value (enum_words (v + 1) xs))"
    by (simp only:)
  then show ?case by (rule checks_iff) (auto simp: v_def [symmetric] top_value_def)
qed

lemma checks_enum [check_rules]:
  "checks (validate_enum e) (\<lambda>a T. distinct (map ei_name (ed_items e)) \<and> distinct (enum_words 0 (ed_items e)))
    (top_value (enum_words 0 (ed_items e)))"
  unfolding validate_enum_def check_duplicate_enum_items_def
  by (rule checks_iff [OF checks_comp [OF checks_repeated checks_colliding]]) auto

section \<open>Whole definitions\<close>

definition based_on :: "(string \<times> type_info) list \<Rightarrow> string option \<Rightarrow> type_kind \<Rightarrow> bool" where
  "based_on T b k = (\<forall>x. b = Some x \<longrightarrow> kind_of T x = Some k)"

definition chain_ends :: "(string \<times> type_info) list \<Rightarrow> string \<Rightarrow> bool" where
  "chain_ends T n = (\<not> (\<exists>c. (n, c) \<in> (inh T)\<^sup>* \<and> (c, c) \<in> (inh T)\<^sup>+))"

definition fields_good :: "ast \<Rightarrow> (string \<times> type_info) list \<Rightarrow> string \<Rightarrow> string option \<Rightarrow> type_kind \<Rightarrow> field_def list \<Rightarrow> bool" where
  "fields_good a T n b k fs = (based_on T b k \<and> chain_ends T n \<and> (\<forall>f\<in>set fs. type_known T (fd_type f))
    \<and> distinct (map fd_name fs) \<and> \<not> shadows a T n fs)"

definition class_good :: "(string \<times> type_info) list \<Rightarrow> class_def \<Rightarrow> bool" where
  "class_good T c = (based_on T (cd_base c) ClassKind \<and> chain_ends T (cd_name c)
    \<and> (\<forall>x\<in>set (cd_properties c). type_known T (pr_type x))
    \<and> (\<forall>k\<in>set (cd_constructors c). \<forall>p\<in>set (ct_params k). type_known T (pm_type p))
    \<and> (\<forall>m\<in>set (cd_methods c). method_known T m) \<and> distinct (map md_name (cd_methods c)))"

definition service_good :: "(string \<times> type_info) list \<Rightarrow> service_def \<Rightarrow> bool" where
  "service_good T s = ((\<forall>m\<in>set (sv_methods s). method_known T m) \<and> distinct (map md_name (sv_methods s)))"

definition enum_good :: "enum_def \<Rightarrow> bool" where
  "enum_good e = (distinct (map ei_name (ed_items e)) \<and> distinct (enum_words 0 (ed_items e)))"

lemma checks_struct:
  "checks (validate_struct s) (\<lambda>a T. fields_good a T (sd_name s) (sd_base s) StructKind (sd_fields s)) False"
  unfolding validate_struct_def
  by (rule checks_iff [OF checks_comp [OF checks_comp [OF checks_comp [OF checks_inheritance checks_cycle] checks_fields]
        checks_duplicate_fields]])
    (auto simp: fields_good_def based_on_def chain_ends_def)

lemma checks_error_def:
  "checks (validate_error_def e) (\<lambda>a T. fields_good a T (er_name e) (er_base e) ErrorKind (er_fields e)) False"
  unfolding validate_error_def_def
  by (rule checks_iff [OF checks_comp [OF checks_comp [OF checks_comp [OF checks_inheritance checks_cycle] checks_fields]
        checks_duplicate_fields]])
    (auto simp: fields_good_def based_on_def chain_ends_def)

lemma checks_class: "checks (validate_class c) (\<lambda>a T. class_good T c) False"
proof -
  have props: "checks (fold (\<lambda>x. validate_type (pr_type x) (pr_loc x)) xs) (\<lambda>a T. \<forall>x\<in>set xs. type_known T (pr_type x)) False" for xs
    by (rule checks_iff [OF checks_fold [OF checks_type]]) simp_all
  have constrs: "checks (fold (\<lambda>k. validate_params (ct_params k)) xs)
      (\<lambda>a T. \<forall>k\<in>set xs. \<forall>p\<in>set (ct_params k). type_known T (pm_type p)) False" for xs
    by (rule checks_iff [OF checks_fold [OF checks_params]]) simp_all
  have meths: "checks (fold validate_method ms) (\<lambda>a T. \<forall>m\<in>set ms. method_known T m) False" for ms
    by (rule checks_iff [OF checks_fold [OF checks_method]]) simp_all
  show ?thesis
    unfolding validate_class_def
    by (rule checks_iff [OF checks_comp [OF checks_comp [OF checks_comp [OF checks_comp [OF checks_comp
          [OF checks_inheritance checks_cycle] props] constrs] meths] checks_methods]])
      (auto simp: class_good_def based_on_def chain_ends_def)
qed

lemma checks_service: "checks (validate_service s) (\<lambda>a T. service_good T s) False"
proof -
  have meths: "checks (fold validate_method ms) (\<lambda>a T. \<forall>m\<in>set ms. method_known T m) False" for ms
    by (rule checks_iff [OF checks_fold [OF checks_method]]) simp_all
  show ?thesis
    unfolding validate_service_def
    by (rule checks_iff [OF checks_comp [OF meths checks_methods]]) (auto simp: service_good_def)
qed

definition namespace_good :: "ast \<Rightarrow> (string \<times> type_info) list \<Rightarrow> namespace_def \<Rightarrow> bool" where
  "namespace_good a T ns =
    ((\<forall>e\<in>set (ns_enums ns). enum_good e)
     \<and> (\<forall>s\<in>set (ns_structs ns). fields_good a T (sd_name s) (sd_base s) StructKind (sd_fields s))
     \<and> (\<forall>c\<in>set (ns_classes ns). class_good T c)
     \<and> (\<forall>s\<in>set (ns_services ns). service_good T s)
     \<and> (\<forall>e\<in>set (ns_errors ns). fields_good a T (er_name e) (er_base e) ErrorKind (er_fields e)))"

definition enum_overflows :: "namespace_def \<Rightarrow> bool" where
  "enum_overflows ns = (\<exists>e\<in>set (ns_enums ns). top_value (enum_words 0 (ed_items e)))"

lemma checks_namespace: "checks (validate_namespace ns) (\<lambda>a T. namespace_good a T ns) (enum_overflows ns)"
  unfolding validate_namespace_def
  by (rule checks_iff [OF checks_comp [OF checks_comp [OF checks_comp [OF checks_comp
        [OF checks_fold [OF checks_enum] checks_fold [OF checks_struct]] checks_fold [OF checks_class]]
        checks_fold [OF checks_service]] checks_fold [OF checks_error_def]]])
    (auto simp: namespace_good_def enum_good_def enum_overflows_def)

lemma validate_types_result:
  "rs_ast (validate_types st) = rs_ast st \<and> rs_types (validate_types st) = rs_types st
    \<and> (rs_errors (validate_types st) = [] \<longleftrightarrow> rs_errors st = []
        \<and> (\<forall>ns\<in>set (ast_namespaces (rs_ast st)). namespace_good (rs_ast st) (rs_types st) ns))
    \<and> (rs_overflow (validate_types st) \<longleftrightarrow> rs_overflow st \<or> (\<exists>ns\<in>set (ast_namespaces (rs_ast st)). enum_overflows ns))"
  using checks_fold [OF checks_namespace, of "\<lambda>x. x" "ast_namespaces (rs_ast st)"]
  by (simp add: checks_def validate_types_def)

section \<open>Registration\<close>

definition declared_in :: "namespace_def \<Rightarrow> type_info list" where
  "declared_in ns =
    map (\<lambda>e. \<lparr>ti_name = ed_name e, ti_kind = EnumKind, ti_loc = ed_loc e, ti_base = None\<rparr>) (ns_enums ns)
    @ map (\<lambda>s. \<lparr>ti_name = sd_name s, ti_kind = StructKind, ti_loc = sd_loc s, ti_base = sd_base s\<rparr>) (ns_structs ns)
    @ map (\<lambda>c. \<lparr>ti_name = cd_name c, ti_kind = ClassKind, ti_loc = cd_loc c, ti_base = cd_base c\<rparr>) (ns_classes ns)
    @ map (\<lambda>s. \<lparr>ti_name = sv_name s, ti_kind = ServiceKind, ti_loc = sv_loc s, ti_base = None\<rparr>) (ns_services ns)
    @ map (\<lambda>e. \<lparr>ti_name = er_name e, ti_kind = ErrorKind, ti_loc = er_loc e, ti_base = er_base e\<rparr>) (ns_errors ns)"

definition declared :: "ast \<Rightarrow> type_info list" where
  "declared a = concat (map declared_in (ast_namespaces a))"

definition register_info :: "type_info \<Rightarrow> resolver \<Rightarrow> resolver" where
  "register_info i = register_type (ti_name i) (ti_kind i) (ti_loc i) (ti_base i)"

lemma fold_map_comp: "fold f (map g xs) = fold (\<lambda>x. f (g x)) xs"
  by (induction xs) simp_all

lemma register_namespace_fold: "register_namespace ns = fold register_info (declared_in ns)"
  by (rule ext) (simp add: register_namespace_def declared_in_def fold_map_comp register_info_def)

lemma fold_concat: "fold f (concat xss) = fold (fold f) xss"
  by (induction xss) (simp_all add: fun_eq_iff)

lemma register_types_fold: "register_types st = fold register_info (declared (rs_ast st)) st"
  by (simp add: register_types_def declared_def fold_concat fold_map_comp register_namespace_fold [abs_def])

lemma register_info_step:
  "rs_ast (register_info x st) = rs_ast st" "rs_overflow (register_info x st) = rs_overflow st"
  "map_of (rs_types (register_info x st)) n
    = (case map_of (rs_types st) n of Some i \<Rightarrow> Some i | None \<Rightarrow> if ti_name x = n then Some x else None)"
  "rs_errors (register_info x st) = [] \<longleftrightarrow> rs_errors st = [] \<and> map_of (rs_types st) (ti_name x) = None"
  by (auto simp: register_info_def register_type_def lookup_def split: option.splits)

lemma register_info_fold [simp]:
  "rs_ast (fold register_info xs st) = rs_ast st" "rs_overflow (fold register_info xs st) = rs_overflow st"
  by (induction xs arbitrary: st) (simp_all add: register_info_step)

lemma register_info_table:
  "map_of (rs_types (fold register_info xs st)) n
    = (case map_of (rs_types st) n of Some i \<Rightarrow> Some i | None \<Rightarrow> find (\<lambda>i. ti_name i = n) xs)"
  by (induction xs arbitrary: st) (simp_all add: register_info_step split: option.split)

lemma register_info_errors:
  "rs_errors (fold register_info xs st) = [] \<longleftrightarrow> rs_errors st = [] \<and> distinct (map ti_name xs)
    \<and> (\<forall>i\<in>set xs. map_of (rs_types st) (ti_name i) = None)"
proof (induction xs arbitrary: st)
  case (Cons x xs)
  have "(\<forall>i\<in>set xs. map_of (rs_types (register_info x st)) (ti_name i) = None)
      \<longleftrightarrow> ti_name x \<notin> ti_name ` set xs \<and> (\<forall>i\<in>set xs. map_of (rs_types st) (ti_name i) = None)"
    by (auto simp: register_info_step split: option.splits)
  with Cons [of "register_info x st"] show ?case by (auto simp: register_info_step)
qed simp

section \<open>Well-formed files\<close>

text \<open>The declarative side: what is declared, what inherits from what, which values the items of
  an enum have, as mathematical integers.\<close>

definition declares :: "ast \<Rightarrow> string \<Rightarrow> type_kind \<Rightarrow> bool" where
  "declares a n k = (\<exists>i\<in>set (declared a). ti_name i = n \<and> ti_kind i = k)"

definition inherits :: "ast \<Rightarrow> (string \<times> string) set" where
  "inherits a = {(x, y). \<exists>i\<in>set (declared a). ti_name i = x \<and> ti_base i = Some y}"

fun enum_values :: "int \<Rightarrow> enum_item list \<Rightarrow> int list" where
  "enum_values auto [] = []"
| "enum_values auto (x # xs) = (let v = (case ei_value x of Some i \<Rightarrow> sint i | None \<Rightarrow> auto) in v # enum_values (v + 1) xs)"

definition type_resolved :: "ast \<Rightarrow> idl_type \<Rightarrow> bool" where
  "type_resolved a t = (\<forall>n. ty_base t = User n \<longrightarrow> n \<in> ti_name ` set (declared a))"

definition method_resolved :: "ast \<Rightarrow> method_def \<Rightarrow> bool" where
  "method_resolved a m = ((\<forall>p\<in>set (md_params m). type_resolved a (pm_type p)) \<and> type_resolved a (md_return m)
    \<and> (\<forall>e\<in>set (md_throws m). declares a e ErrorKind))"

definition methods_resolved :: "ast \<Rightarrow> method_def list \<Rightarrow> bool" where
  "methods_resolved a ms = ((\<forall>m\<in>set ms. method_resolved a m) \<and> distinct (map md_name ms))"

definition base_resolved :: "ast \<Rightarrow> string option \<Rightarrow> type_kind \<Rightarrow> bool" where
  "base_resolved a b k = (\<forall>n. b = Some n \<longrightarrow> declares a n k)"

definition fields_resolved :: "ast \<Rightarrow> string \<Rightarrow> field_def list \<Rightarrow> bool" where
  "fields_resolved a n fs = ((\<forall>f\<in>set fs. type_resolved a (fd_type f)) \<and> distinct (map fd_name fs)
    \<and> (\<forall>c. (n, c) \<in> (inherits a)\<^sup>+ \<longrightarrow> fd_name ` set fs \<inter> fd_name ` set (fields_named a c) = {}))"

definition class_resolved :: "ast \<Rightarrow> class_def \<Rightarrow> bool" where
  "class_resolved a c = (base_resolved a (cd_base c) ClassKind \<and> (\<forall>x\<in>set (cd_properties c). type_resolved a (pr_type x))
    \<and> (\<forall>k\<in>set (cd_constructors c). \<forall>p\<in>set (ct_params k). type_resolved a (pm_type p))
    \<and> methods_resolved a (cd_methods c))"

definition well_resolved :: "ast \<Rightarrow> bool" where
  "well_resolved a = (distinct (map ti_name (declared a)) \<and> acyclic (inherits a)
    \<and> (\<forall>ns\<in>set (ast_namespaces a).
        (\<forall>e\<in>set (ns_enums ns). distinct (map ei_name (ed_items e)) \<and> distinct (enum_values 0 (ed_items e)))
      \<and> (\<forall>s\<in>set (ns_structs ns). base_resolved a (sd_base s) StructKind \<and> fields_resolved a (sd_name s) (sd_fields s))
      \<and> (\<forall>c\<in>set (ns_classes ns). class_resolved a c)
      \<and> (\<forall>s\<in>set (ns_services ns). methods_resolved a (sv_methods s))
      \<and> (\<forall>e\<in>set (ns_errors ns). base_resolved a (er_base e) ErrorKind \<and> fields_resolved a (er_name e) (er_fields e))))"

lemma find_distinct:
  "distinct (map f xs) \<Longrightarrow> find (\<lambda>x. f x = n) xs = Some i \<longleftrightarrow> i \<in> set xs \<and> f i = n"
  by (induction xs) auto

lemma enum_values_words:
  "\<not> top_value (enum_words auto xs) \<Longrightarrow> map sint (enum_words auto xs) = enum_values (sint auto) xs"
proof (induction xs arbitrary: auto)
  case (Cons x xs)
  let ?v = "case ei_value x of Some i \<Rightarrow> i | None \<Rightarrow> auto"
  have v: "sint ?v \<noteq> 2 ^ 63 - 1" and rest: "\<not> top_value (enum_words (?v + 1) xs)"
    using Cons.prems by (auto simp: top_value_def Let_def)
  have "sint ?v < 2 ^ 63" and "- (2 ^ 63) \<le> sint ?v"
    using sint_lt [of ?v] sint_ge [of ?v] by simp_all
  with v have "sint (?v + 1) = sint ?v + 1"
    by (subst sint_word_ariths) (simp add: signed_take_bit_int_eq_self)
  with Cons.IH [OF rest] show ?case by (simp add: Let_def split: option.splits)
qed simp

text \<open>A table that holds what is declared.\<close>

definition holds_declared :: "(string \<times> type_info) list \<Rightarrow> ast \<Rightarrow> bool" where
  "holds_declared T a = (distinct (map ti_name (declared a))
    \<and> (\<forall>n. map_of T n = find (\<lambda>i. ti_name i = n) (declared a)))"

lemma table_lookup:
  "holds_declared T a \<Longrightarrow> map_of T n = Some i \<longleftrightarrow> i \<in> set (declared a) \<and> ti_name i = n"
  by (simp add: holds_declared_def find_distinct)

lemma table_kind: "holds_declared T a \<Longrightarrow> kind_of T n = Some k \<longleftrightarrow> declares a n k"
  by (auto simp: kind_of_def declares_def table_lookup)

lemma table_inh: "holds_declared T a \<Longrightarrow> inh T = inherits a"
  by (auto simp: inh_def inherits_def table_lookup)

lemma table_type: "holds_declared T a \<Longrightarrow> type_known T t \<longleftrightarrow> type_resolved a t"
  by (auto simp: type_known_def type_resolved_def table_lookup simp flip: not_None_eq split: base_type.splits)

lemma table_method: "holds_declared T a \<Longrightarrow> method_known T m \<longleftrightarrow> method_resolved a m"
  by (simp add: method_known_def method_resolved_def table_type table_kind)

lemma table_base: "holds_declared T a \<Longrightarrow> based_on T b k \<longleftrightarrow> base_resolved a b k"
  by (simp add: based_on_def base_resolved_def table_kind)

lemma table_fields:
  "holds_declared T a \<Longrightarrow> fields_good a T n b k fs
    \<longleftrightarrow> base_resolved a b k \<and> chain_ends T n \<and> fields_resolved a n fs"
  by (auto simp: fields_good_def fields_resolved_def shadows_def table_type table_base table_inh)

lemma table_class:
  "holds_declared T a \<Longrightarrow> class_good T c \<longleftrightarrow> chain_ends T (cd_name c) \<and> class_resolved a c"
  by (auto simp: class_good_def class_resolved_def methods_resolved_def table_type table_base table_method)

lemma table_service: "holds_declared T a \<Longrightarrow> service_good T s \<longleftrightarrow> methods_resolved a (sv_methods s)"
  by (simp add: service_good_def methods_resolved_def table_method)

text \<open>No cycle, and no chain of bases that reaches one.\<close>

definition heirs :: "namespace_def \<Rightarrow> string set" where
  "heirs ns = sd_name ` set (ns_structs ns) \<union> cd_name ` set (ns_classes ns) \<union> er_name ` set (ns_errors ns)"

lemma inherits_heir: "(x, y) \<in> inherits a \<Longrightarrow> \<exists>ns\<in>set (ast_namespaces a). x \<in> heirs ns"
  by (force simp: inherits_def declared_def declared_in_def heirs_def)

lemma chains_end_iff:
  assumes "holds_declared T a"
  shows "(\<forall>ns\<in>set (ast_namespaces a). \<forall>n\<in>heirs ns. chain_ends T n) \<longleftrightarrow> acyclic (inherits a)"
proof
  assume ends: "\<forall>ns\<in>set (ast_namespaces a). \<forall>n\<in>heirs ns. chain_ends T n"
  show "acyclic (inherits a)"
    unfolding acyclic_def
  proof (intro allI notI)
    fix x
    assume cyc: "(x, x) \<in> (inherits a)\<^sup>+"
    then obtain y where "(x, y) \<in> inherits a" by (meson tranclD)
    then have "chain_ends T x" using inherits_heir ends by blast
    with cyc show False by (auto simp: chain_ends_def table_inh [OF assms])
  qed
qed (auto simp: acyclic_def chain_ends_def table_inh [OF assms])

lemma namespaces_good_iff:
  assumes T: "holds_declared T a" and no: "\<And>ns. ns \<in> set (ast_namespaces a) \<Longrightarrow> \<not> enum_overflows ns"
  shows "(\<forall>ns\<in>set (ast_namespaces a). namespace_good a T ns) \<longleftrightarrow> well_resolved a"
proof -
  have enum: "distinct (enum_words 0 (ed_items e)) \<longleftrightarrow> distinct (enum_values 0 (ed_items e))"
    if "ns \<in> set (ast_namespaces a)" "e \<in> set (ns_enums ns)" for ns e
  proof -
    have "\<not> top_value (enum_words 0 (ed_items e))" using no that by (auto simp: enum_overflows_def)
    from enum_values_words [OF this] have "enum_values 0 (ed_items e) = map sint (enum_words 0 (ed_items e))" by simp
    then show ?thesis by (simp add: distinct_map inj_on_def signed_word_eqI)
  qed
  have "(\<forall>ns\<in>set (ast_namespaces a). namespace_good a T ns) \<longleftrightarrow>
    (\<forall>ns\<in>set (ast_namespaces a). \<forall>n\<in>heirs ns. chain_ends T n) \<and>
    (\<forall>ns\<in>set (ast_namespaces a).
        (\<forall>e\<in>set (ns_enums ns). distinct (map ei_name (ed_items e)) \<and> distinct (enum_values 0 (ed_items e)))
      \<and> (\<forall>s\<in>set (ns_structs ns). base_resolved a (sd_base s) StructKind \<and> fields_resolved a (sd_name s) (sd_fields s))
      \<and> (\<forall>c\<in>set (ns_classes ns). class_resolved a c)
      \<and> (\<forall>s\<in>set (ns_services ns). methods_resolved a (sv_methods s))
      \<and> (\<forall>e\<in>set (ns_errors ns). base_resolved a (er_base e) ErrorKind \<and> fields_resolved a (er_name e) (er_fields e)))"
    unfolding ball_conj_distrib [symmetric]
    by (rule ball_cong [OF refl])
      (auto simp: namespace_good_def enum_good_def enum heirs_def table_fields [OF T] table_class [OF T] table_service [OF T])
  also have "\<dots> \<longleftrightarrow> well_resolved a"
    using T unfolding chains_end_iff [OF T] well_resolved_def holds_declared_def by simp
  finally show ?thesis .
qed

section \<open>The resolver\<close>

lemma resolve_result:
  assumes "resolve (resolver_new a) = (ok, st)"
  shows "rs_ast st = a" "rs_overflow st \<longleftrightarrow> (\<exists>ns\<in>set (ast_namespaces a). enum_overflows ns)"
    "map_of (rs_types st) n = find (\<lambda>i. ti_name i = n) (declared a)"
    "ok \<longleftrightarrow> distinct (map ti_name (declared a)) \<and> (\<forall>ns\<in>set (ast_namespaces a). namespace_good a (rs_types st) ns)"
proof -
  let ?reg = "register_types (resolver_new a)"
  have new: "(resolver_new a)\<lparr>rs_errors := [], rs_types := []\<rparr> = resolver_new a" by (simp add: resolver_new_def)
  have st: "st = validate_types ?reg" "ok = (rs_errors st = [])"
    using assms by (auto simp: resolve_def new Let_def)
  have reg: "rs_ast ?reg = a" "rs_overflow ?reg = False" "\<And>n. map_of (rs_types ?reg) n = find (\<lambda>i. ti_name i = n) (declared a)"
    "rs_errors ?reg = [] \<longleftrightarrow> distinct (map ti_name (declared a))"
    by (simp_all add: register_types_fold register_info_table register_info_errors) (simp_all add: resolver_new_def)
  from validate_types_result [of ?reg] show "rs_ast st = a"
    "rs_overflow st \<longleftrightarrow> (\<exists>ns\<in>set (ast_namespaces a). enum_overflows ns)"
    "map_of (rs_types st) n = find (\<lambda>i. ti_name i = n) (declared a)"
    "ok \<longleftrightarrow> distinct (map ti_name (declared a)) \<and> (\<forall>ns\<in>set (ast_namespaces a). namespace_good a (rs_types st) ns)"
    unfolding st by (simp_all add: reg)
qed

text \<open>Claim C11. The resolver accepts a file exactly when the file is well formed in the declarative
  sense: all types have different names; the inheritance relation has no cycle; every base is
  declared with the kind of its heir; every type used in a field, property, parameter or
  return type is declared; every name in a throws clause is that of an error type; the fields
  of a struct or error differ from each other and from the fields of all its ancestors; the
  methods of a class or service and the items of an enum have different names, and the
  items different values. Excluded are only the runs in which the counter of the enum
  values overflows, whose behaviour C++ leaves undefined.\<close>

theorem resolver_accepts_iff:
  assumes "\<not> rs_overflow (snd (resolve (resolver_new a)))"
  shows "fst (resolve (resolver_new a)) \<longleftrightarrow> well_resolved a"
proof -
  obtain ok st where r: "resolve (resolver_new a) = (ok, st)" by fastforce
  note res = resolve_result [OF r]
  have no: "\<not> enum_overflows ns" if "ns \<in> set (ast_namespaces a)" for ns
    using assms that res(2) by (auto simp: r)
  show ?thesis
  proof (cases "distinct (map ti_name (declared a))")
    case True
    with res(3) have "holds_declared (rs_types st) a" by (simp add: holds_declared_def)
    from namespaces_good_iff [OF this no] True res(4) show ?thesis by (simp add: r)
  next
    case False
    with res(4) show ?thesis by (simp add: r well_resolved_def)
  qed
qed

text \<open>A sample: an enum, a struct that extends another, a class whose method uses them.\<close>

definition sample_ast :: ast where
  "sample_ast =
    (let loc = \<lparr>loc_line = 1, loc_column = 1, loc_file = []\<rparr>;
         ty = \<lambda>b. \<lparr>ty_base = b, ty_is_array = False, ty_is_optional = False, ty_dims = 0\<rparr>;
         field = \<lambda>n t. \<lparr>fd_name = n, fd_type = ty t, fd_doc = [], fd_loc = loc\<rparr> in
     \<lparr>ast_namespaces = [\<lparr>ns_name = ''n'',
      ns_enums = [\<lparr>ed_name = ''E'', ed_items = [\<lparr>ei_name = ''A'', ei_value = Some 3, ei_doc = [], ei_loc = loc\<rparr>,
        \<lparr>ei_name = ''B'', ei_value = None, ei_doc = [], ei_loc = loc\<rparr>], ed_is_flags = False, ed_doc = [], ed_loc = loc\<rparr>],
      ns_structs = [\<lparr>sd_name = ''P'', sd_base = None, sd_fields = [field ''x'' (User ''E'')], sd_doc = [], sd_loc = loc\<rparr>,
        \<lparr>sd_name = ''Q'', sd_base = Some ''P'', sd_fields = [field ''y'' (User ''P'')], sd_doc = [], sd_loc = loc\<rparr>],
      ns_classes = [\<lparr>cd_name = ''C'', cd_base = None, cd_properties = [], cd_constructors = [],
        cd_methods = [\<lparr>md_name = ''f'', md_params = [], md_return = ty (User ''Q''), md_is_optional = False,
          md_is_stream = False, md_throws = [''X''], md_doc = [], md_loc = loc\<rparr>], cd_doc = [], cd_loc = loc\<rparr>],
      ns_services = [], ns_errors = [\<lparr>er_name = ''X'', er_base = None, er_fields = [], er_doc = [], er_loc = loc\<rparr>],
      ns_loc = loc\<rparr>]\<rparr>)"

lemma sample_resolved: "fst (resolve (resolver_new sample_ast)) \<and> \<not> rs_overflow (snd (resolve (resolver_new sample_ast)))"
  by code_simp

theorem resolver_accepts_iff_witness: "fst (resolve (resolver_new sample_ast)) \<and> well_resolved sample_ast"
  using sample_resolved resolver_accepts_iff [of sample_ast] by simp

text \<open>Claim C40. The search for an inheritance cycle ends for every symbol table, also for one with
  cycles, and answers yes exactly when the chain of bases from the given type reaches a type
  that is its own ancestor.\<close>

theorem detect_cycle_correct:
  "has_inheritance_cycle st name \<longleftrightarrow> (\<exists>c. (name, c) \<in> (inh (rs_types st))\<^sup>* \<and> (c, c) \<in> (inh (rs_types st))\<^sup>+)"
  by (rule has_inheritance_cycle_iff)

text \<open>The first declaration of a name is the one that counts, whether the file is accepted or not.\<close>

lemma lookup_first:
  "lookup (snd (resolve (resolver_new a))) n = find (\<lambda>i. ti_name i = n) (declared a)"
proof -
  obtain ok st where r: "resolve (resolver_new a) = (ok, st)" by fastforce
  from resolve_result(3) [OF r] show ?thesis by (simp add: r lookup_def)
qed

end
