(* ===== verification/Song_Codegen.thy ===== *)
theory Song_Codegen
  imports Song_Syntax "HOL-Library.Sublist"
begin

text \<open>
  The C++ generator of the interface compiler (\<^verbatim>\<open>compiler/codegen.cpp\<close>): one function per generated
  construct, from the syntax tree to the text that the output stream receives.
  \<open>line\<close> is a chain of \<open><<\<close> that ends in a newline, \<open>each\<close> a loop over a vector.
  The lemmas: identifiers are assigned without clashes as long as they fit their width,
  comments never leak into the code, and the generated text is well bracketed.
\<close>

section \<open>Output\<close>

definition newline :: string where
  "newline = [CHR 0x0A]"

definition quote :: string where
  "quote = [CHR 0x22]"

definition line :: "string list \<Rightarrow> string" where
  "line ss = concat ss @ newline"

definition each :: "('a \<Rightarrow> string) \<Rightarrow> 'a list \<Rightarrow> string" where
  "each f xs = concat (map f xs)"

text \<open>A loop that puts \<open>, \<close> between its items.\<close>

fun comma_separated :: "string list \<Rightarrow> string" where
  "comma_separated [] = []"
| "comma_separated [x] = x"
| "comma_separated (x # y # xs) = x @ '', '' @ comma_separated (y # xs)"

definition number :: "'a::len word \<Rightarrow> string" where
  "number n = dec_string (unat n)"

text \<open>The pieces between the newlines; there is always one more than there are newlines.\<close>

fun split_doc :: "string \<Rightarrow> string list" where
  "split_doc [] = [[]]"
| "split_doc (c # cs) = (if c = CHR 0x0A then [] # split_doc cs
     else (case split_doc cs of [] \<Rightarrow> [[c]] | l # ls \<Rightarrow> (c # l) # ls))"

definition emit_doc :: "string \<Rightarrow> string \<Rightarrow> string \<Rightarrow> string" where
  "emit_doc doc indent ending =
    (if doc = [] then []
     else each (\<lambda>l. line [indent, ''/// '', l]) (butlast (split_doc doc))
       @ line [indent, ''/// '', last (split_doc doc), ending])"

section \<open>Types\<close>

definition user_type :: "idl_type \<Rightarrow> string" where
  "user_type t = (case ty_base t of User n \<Rightarrow> n | Primitive p \<Rightarrow> [])"

definition is_void :: "idl_type \<Rightarrow> bool" where
  "is_void t \<longleftrightarrow> ty_base t = Primitive PVoid"

text \<open>The element type of an array keeps the optional mark of the array.\<close>

definition element_type :: "idl_type \<Rightarrow> idl_type" where
  "element_type t = (let dims = (if ty_dims t > 0 then ty_dims t else 1)
     in t\<lparr>ty_dims := dims - 1, ty_is_array := (dims - 1 > 0)\<rparr>)"

text \<open>For \<^verbatim>\<open>void\<close> both calls are empty.\<close>

function encode_call :: "idl_type \<Rightarrow> string \<Rightarrow> string \<Rightarrow> string" where
  "encode_call t expr buf_name =
    (if ty_is_array t
     then (let elem = element_type t in
       if \<not> ty_is_array elem \<and> \<not> is_primitive elem
       then ''encode_array_'' @ user_type elem @ ''('' @ buf_name @ '', '' @ expr @ '')''
       else ''encode_array<'' @ type_to_cpp elem @ ''>('' @ buf_name @ '', '' @ expr @ '')'')
     else if ty_is_optional t
     then ''encode_optional('' @ buf_name @ '', '' @ expr @ '', [&](const auto& v) { ''
       @ encode_call (t\<lparr>ty_is_optional := False\<rparr>) ''v'' buf_name @ ''; })''
     else (case ty_base t of
         Primitive p \<Rightarrow> (if p = PVoid then []
           else ''encode_'' @ primitive_to_string p @ ''('' @ buf_name @ '', '' @ expr @ '')'')
       | User n \<Rightarrow> ''encode_'' @ n @ ''('' @ buf_name @ '', '' @ expr @ '')''))"
  by pat_completeness auto
termination by (relation "measure (\<lambda>(t, e, b). if ty_is_optional t then 1 else 0)") auto

function decode_call :: "idl_type \<Rightarrow> string \<Rightarrow> string" where
  "decode_call t buf_name =
    (if ty_is_array t
     then (let elem = element_type t in
       if \<not> ty_is_array elem \<and> \<not> is_primitive elem
       then ''decode_array_'' @ user_type elem @ ''('' @ buf_name @ '')''
       else ''decode_array<'' @ type_to_cpp elem @ ''>('' @ buf_name @ '')'')
     else if ty_is_optional t
     then ''decode_optional<'' @ type_to_cpp (t\<lparr>ty_is_optional := False\<rparr>) @ ''>('' @ buf_name
       @ '', [&]() { return '' @ decode_call (t\<lparr>ty_is_optional := False\<rparr>) buf_name @ ''; })''
     else (case ty_base t of
         Primitive p \<Rightarrow> (if p = PVoid then [] else ''decode_'' @ primitive_to_string p @ ''('' @ buf_name @ '')'')
       | User n \<Rightarrow> ''decode_'' @ n @ ''('' @ buf_name @ '')''))"
  by pat_completeness auto
termination by (relation "measure (\<lambda>(t, b). if ty_is_optional t then 1 else 0)") auto

declare encode_call.simps [simp del] and decode_call.simps [simp del]

section \<open>Structs\<close>

definition generate_struct_def :: "struct_def \<Rightarrow> string" where
  "generate_struct_def s =
    emit_doc (sd_doc s) [] []
    @ line [''struct '', sd_name s, '' {'']
    @ each (\<lambda>f. emit_doc (fd_doc f) ''    '' []
        @ line [''    '', type_to_cpp (fd_type f), '' '', fd_name f, '';'']) (sd_fields s)
    @ line [''};'']"

definition generate_struct_encode :: "struct_def \<Rightarrow> string" where
  "generate_struct_encode s =
    line [''inline void encode_'', sd_name s, ''(Buffer& buf, const '', sd_name s, ''& val) {'']
    @ each (\<lambda>f. line [''    '', encode_call (fd_type f) (''val.'' @ fd_name f) ''buf'', '';'']) (sd_fields s)
    @ line [''}'']"

definition generate_struct_decode :: "struct_def \<Rightarrow> string" where
  "generate_struct_decode s =
    line [''inline '', sd_name s, '' decode_'', sd_name s, ''(Buffer& buf) {'']
    @ line [''    '', sd_name s, '' val;'']
    @ each (\<lambda>f. line [''    val.'', fd_name f, '' = '', decode_call (fd_type f) ''buf'', '';'']) (sd_fields s)
    @ line [''    return val;'']
    @ line [''}'']"

text \<open>The array helpers of structs and of enums are the same text.\<close>

definition generate_array_encode :: "string \<Rightarrow> string" where
  "generate_array_encode name =
    line [''inline void encode_array_'', name, ''(Buffer& buf, const std::vector<'', name, ''>& arr) {'']
    @ line [''    encode_u32(buf, static_cast<u32>(arr.size()));'']
    @ line [''    for (const auto& val : arr) {'']
    @ line [''        encode_'', name, ''(buf, val);'']
    @ line [''    }'']
    @ line [''}'']"

definition generate_array_decode :: "string \<Rightarrow> string" where
  "generate_array_decode name =
    line [''inline std::vector<'', name, ''> decode_array_'', name, ''(Buffer& buf) {'']
    @ line [''    u32 count = decode_u32(buf);'']
    @ line [''    std::vector<'', name, ''> arr;'']
    @ line [''    arr.reserve(count);'']
    @ line [''    for (u32 i = 0; i < count; ++i) {'']
    @ line [''        arr.push_back(decode_'', name, ''(buf));'']
    @ line [''    }'']
    @ line [''    return arr;'']
    @ line [''}'']"

definition generate_struct_array_encode :: "struct_def \<Rightarrow> string" where
  "generate_struct_array_encode s = generate_array_encode (sd_name s)"

definition generate_struct_array_decode :: "struct_def \<Rightarrow> string" where
  "generate_struct_array_decode s = generate_array_decode (sd_name s)"

section \<open>Enums\<close>

definition enum_wire_suffix :: "enum_def \<Rightarrow> string" where
  "enum_wire_suffix e = (if ed_is_flags e then ''u32'' else ''i32'')"

definition generate_enum_encode :: "enum_def \<Rightarrow> string" where
  "generate_enum_encode e =
    line [''inline void encode_'', ed_name e, ''(Buffer& buf, '', ed_name e, '' val) {'']
    @ line [''    encode_'', enum_wire_suffix e, ''(buf, static_cast<'', enum_wire_suffix e, ''>(val));'']
    @ line [''}'']"

definition generate_enum_decode :: "enum_def \<Rightarrow> string" where
  "generate_enum_decode e =
    line [''inline '', ed_name e, '' decode_'', ed_name e, ''(Buffer& buf) {'']
    @ line [''    return static_cast<'', ed_name e, ''>(decode_'', enum_wire_suffix e, ''(buf));'']
    @ line [''}'']"

text \<open>The cases of the \<^verbatim>\<open>_name\<close> function: an item is left out when its value has occurred. (The next
  implicit value is computed in 64 bits; the overflow at the largest one wraps here.)\<close>

fun enum_cases :: "enum_item list \<Rightarrow> i64 list \<Rightarrow> i64 \<Rightarrow> (enum_item \<times> i64) list" where
  "enum_cases [] seen next_value = []"
| "enum_cases (item # items) seen next_value =
    (let v = (case ei_value item of Some v \<Rightarrow> v | None \<Rightarrow> next_value)
     in if v \<in> set seen then enum_cases items seen (v + 1)
        else (item, v) # enum_cases items (seen @ [v]) (v + 1))"

definition generate_enum_name :: "enum_def \<Rightarrow> string" where
  "generate_enum_name e =
    line [''inline const char* '', ed_name e, ''_name('', ed_name e, '' v) {'']
    @ line [''    switch (v) {'']
    @ each (\<lambda>(item, v). line [''        case '', ed_name e, ''::'', ei_name item, '': return '', quote, ei_name item, quote, '';''])
        (enum_cases (ed_items e) [] 0)
    @ line [''    }'']
    @ line [''    return '', quote, ''<unknown>'', quote, '';'']
    @ line [''}'']"

definition generate_enum_array_encode :: "enum_def \<Rightarrow> string" where
  "generate_enum_array_encode e = generate_array_encode (ed_name e)"

definition generate_enum_array_decode :: "enum_def \<Rightarrow> string" where
  "generate_enum_array_decode e = generate_array_decode (ed_name e)"

text \<open>The loop over the items, with a comma after all but the last.\<close>

fun generate_enum_items :: "enum_item list \<Rightarrow> string" where
  "generate_enum_items [] = []"
| "generate_enum_items (item # items) =
    emit_doc (ei_doc item) ''    '' []
    @ line [''    '', ei_name item, (case ei_value item of None \<Rightarrow> [] | Some v \<Rightarrow> '' = '' @ int_string (sint v)),
        if items = [] then [] else '','']
    @ generate_enum_items items"

definition generate_enum_def :: "enum_def \<Rightarrow> string" where
  "generate_enum_def e =
    emit_doc (ed_doc e) [] []
    @ line [''enum class '', ed_name e, '' : '', if ed_is_flags e then ''u32'' else ''i32'', '' {'']
    @ generate_enum_items (ed_items e)
    @ line [''};'']"

section \<open>Services\<close>

text \<open>The constants with their values; the counters are of type \<^verbatim>\<open>u16\<close>.\<close>

fun numbered :: "'a::len word \<Rightarrow> string list \<Rightarrow> (string \<times> 'a word) list" where
  "numbered n [] = []"
| "numbered n (x # xs) = (x, n) # numbered (n + 1) xs"

definition constexpr :: "string \<Rightarrow> string \<times> 'a::len word \<Rightarrow> string" where
  "constexpr type c = line [''constexpr '', type, '' '', fst c, '' = '', number (snd c), '';'']"

definition has_stream :: "service_def \<Rightarrow> bool" where
  "has_stream s \<longleftrightarrow> list_ex md_is_stream (sv_methods s)"

definition service_constant :: "service_def \<Rightarrow> string" where
  "service_constant s = ''kService_'' @ sv_name s"

definition stream_constant :: "service_def \<Rightarrow> string" where
  "stream_constant s = ''kService_'' @ sv_name s @ ''_Stream''"

definition method_constant :: "string \<Rightarrow> string \<Rightarrow> string" where
  "method_constant owner name = ''kMethod_'' @ owner @ ''_'' @ name"

definition service_methods :: "service_def \<Rightarrow> (string \<times> u16) list" where
  "service_methods s = numbered 1 (map (\<lambda>m. method_constant (sv_name s) (md_name m)) (sv_methods s))"

definition service_numbers :: "u16 \<Rightarrow> service_def \<Rightarrow> (string \<times> u16) list" where
  "service_numbers service_id s =
    numbered service_id (service_constant s # (if has_stream s then [stream_constant s] else []))"

fun generate_services_from :: "u16 \<Rightarrow> service_def list \<Rightarrow> string" where
  "generate_services_from service_id [] = []"
| "generate_services_from service_id (s # ss) =
    each (constexpr ''u16'') (service_numbers service_id s)
    @ each (constexpr ''u16'') (service_methods s)
    @ newline
    @ generate_services_from (service_id + (if has_stream s then 2 else 1)) ss"

definition generate_service_ids :: "namespace_def \<Rightarrow> string" where
  "generate_service_ids ns = line [''// Service and method IDs''] @ generate_services_from 1 (ns_services ns)"

definition generate_method_params :: "param list \<Rightarrow> string" where
  "generate_method_params params = comma_separated (map (\<lambda>p. type_to_param (pm_type p) (pm_name p)) params)"

definition generate_encode_params :: "param list \<Rightarrow> string" where
  "generate_encode_params params =
    each (\<lambda>p. line [''        '', encode_call (pm_type p) (pm_name p) ''buf'', '';'']) params"

definition generate_decode_params :: "param list \<Rightarrow> string" where
  "generate_decode_params params =
    each (\<lambda>p. line [''        '', type_to_cpp (pm_type p), '' '', pm_name p, '' = '', decode_call (pm_type p) ''buf'', '';'']) params"

text \<open>The loops that encode the arguments into a buffer and decode them from one.\<close>

definition encode_args :: "string \<Rightarrow> string \<Rightarrow> param list \<Rightarrow> string" where
  "encode_args indent buf_name params =
    each (\<lambda>p. line [indent, encode_call (pm_type p) (pm_name p) buf_name, '';'']) params"

definition decode_args :: "string \<Rightarrow> string \<Rightarrow> param list \<Rightarrow> string" where
  "decode_args indent buf_name params =
    each (\<lambda>p. line [indent, type_to_cpp (pm_type p), '' '', pm_name p, '' = '', decode_call (pm_type p) buf_name, '';'']) params"

definition arg_names :: "param list \<Rightarrow> string" where
  "arg_names params = comma_separated (map pm_name params)"

definition proxy_stream_method :: "string \<Rightarrow> method_def \<Rightarrow> string" where
  "proxy_stream_method n m =
    line [''    void '', md_name m, ''('', generate_method_params (md_params m),
      if md_params m = [] then [] else '', '',
      ''const std::function<void('', type_to_cpp (md_return m), ''&)>& on_chunk'', '', int chunk_timeout_ms = 30000) {'']
    @ line [''        Buffer req;'']
    @ encode_args ''        '' ''req'' (md_params m)
    @ line [''        m_conn.call_streaming(kService_'', n, ''_Stream, kMethod_'', n, ''_'', md_name m, '', req,'']
    @ line [''            [&on_chunk](Buffer& song_chunk) {'']
    @ line [''                '', type_to_cpp (md_return m), '' value = '', decode_call (md_return m) ''song_chunk'', '';'']
    @ line [''                on_chunk(value);'']
    @ line [''            },'']
    @ line [''            chunk_timeout_ms);'']
    @ line [''    }''] @ newline"

definition proxy_call_method :: "string \<Rightarrow> method_def \<Rightarrow> string" where
  "proxy_call_method n m =
    line [''    '', type_to_cpp (md_return m), '' '', md_name m, ''('', generate_method_params (md_params m), '') {'']
    @ line [''        Buffer req;'']
    @ encode_args ''        '' ''req'' (md_params m)
    @ line [''        Buffer resp = m_conn.call(kService_'', n, '', kMethod_'', n, ''_'', md_name m, '', req);'']
    @ (if is_void (md_return m) then [] else line [''        return '', decode_call (md_return m) ''resp'', '';''])
    @ line [''    }''] @ newline"

definition generate_service_proxy :: "service_def \<Rightarrow> string" where
  "generate_service_proxy s =
    emit_doc (sv_doc s) [] []
    @ line [''class '', sv_name s, ''Proxy {'']
    @ line [''    ServiceConnection& m_conn;'']
    @ line [''public:'']
    @ line [''    explicit '', sv_name s, ''Proxy(ServiceConnection& conn) : m_conn(conn) {}''] @ newline
    @ each (\<lambda>m. emit_doc (md_doc m) ''    '' []
        @ (if md_is_stream m then proxy_stream_method (sv_name s) m else proxy_call_method (sv_name s) m)) (sv_methods s)
    @ line [''};'']"

definition interface_method :: "method_def \<Rightarrow> string" where
  "interface_method m =
    emit_doc (md_doc m) ''    '' []
    @ (if md_is_stream m
       then line [''    virtual void '', md_name m, ''('', generate_method_params (md_params m),
         if md_params m = [] then [] else '', '', ''StreamWriter& writer) = 0;'']
       else line [''    virtual '', type_to_cpp (md_return m), '' '', md_name m, ''('',
         generate_method_params (md_params m), '') = 0;''])"

definition generate_service_interface :: "service_def \<Rightarrow> string" where
  "generate_service_interface s =
    emit_doc (sv_doc s) [] '' (interface)''
    @ line [''class I'', sv_name s, '' {'']
    @ line [''public:'']
    @ line [''    virtual ~I'', sv_name s, ''() = default;''] @ newline
    @ each interface_method (sv_methods s)
    @ line [''};'']"

text \<open>What a dispatcher does for one method: decode, call, encode, with the names of its two buffers.\<close>

definition dispatch_case :: "string \<Rightarrow> string \<Rightarrow> string \<Rightarrow> string \<Rightarrow> method_def \<Rightarrow> string" where
  "dispatch_case owner callee req resp m =
    line [''        case kMethod_'', owner, ''_'', md_name m, '': {'']
    @ decode_args ''            '' req (md_params m)
    @ line [''            '', if is_void (md_return m) then [] else ''auto result = '',
        callee, md_name m, ''('', arg_names (md_params m), '');'']
    @ (if is_void (md_return m) then [] else line [''            '', encode_call (md_return m) ''result'' resp, '';''])
    @ line [''            break;'']
    @ line [''        }'']"

definition stream_dispatch_case :: "string \<Rightarrow> method_def \<Rightarrow> string" where
  "stream_dispatch_case owner m =
    line [''        case kMethod_'', owner, ''_'', md_name m, '': {'']
    @ decode_args ''            '' ''request'' (md_params m)
    @ line [''            impl.'', md_name m, ''('', each (\<lambda>p. pm_name p @ '', '') (md_params m), ''writer);'']
    @ line [''            break;'']
    @ line [''        }'']"

definition generate_service_dispatcher :: "service_def \<Rightarrow> string" where
  "generate_service_dispatcher s =
    line [''inline void dispatch_'', sv_name s, ''(I'', sv_name s, ''& impl, '', ''u16 method_id, Buffer& request, Buffer& response) {'']
    @ line [''    switch (method_id) {'']
    @ each (dispatch_case (sv_name s) ''impl.'' ''request'' ''response'') (filter (\<lambda>m. \<not> md_is_stream m) (sv_methods s))
    @ line [''        default:'']
    @ line [''            throw std::runtime_error('', quote, ''Unknown method ID: '', quote, '' + std::to_string(method_id));'']
    @ line [''    }'']
    @ line [''}'']
    @ (if \<not> has_stream s then [] else
        newline @ line [''inline void dispatch_'', sv_name s, ''_stream(I'', sv_name s, ''& impl, u16 method_id, Buffer& request, StreamWriter& writer) {'']
        @ line [''    switch (method_id) {'']
        @ each (stream_dispatch_case (sv_name s)) (filter md_is_stream (sv_methods s))
        @ line [''        default:'']
        @ line [''            throw std::runtime_error('', quote, ''Unknown streaming method ID: '', quote, '' + std::to_string(method_id));'']
        @ line [''    }'']
        @ line [''}''])"

section \<open>Classes\<close>

definition class_properties :: "class_def \<Rightarrow> (string \<times> u16) list" where
  "class_properties c = numbered 1 (map (\<lambda>p. ''kProp_'' @ cd_name c @ ''_'' @ pr_name p) (cd_properties c))"

text \<open>The constant of a constructor has the counter in its name and the index as its value.\<close>

definition class_constructors :: "class_def \<Rightarrow> string" where
  "class_constructors c = each (\<lambda>i. line [''constexpr u16 kCtor_'', cd_name c, ''_'', number (word_of_nat i :: u16),
     '' = '', dec_string i, '';'']) [0..<length (cd_constructors c)]"

definition class_methods :: "class_def \<Rightarrow> (string \<times> u16) list" where
  "class_methods c = numbered 1 (map (\<lambda>m. method_constant (cd_name c) (md_name m)) (cd_methods c))"

fun generate_classes_from :: "u16 \<Rightarrow> class_def list \<Rightarrow> string" where
  "generate_classes_from type_id [] = []"
| "generate_classes_from type_id (c # cs) =
    constexpr ''u32'' (''kType_'' @ cd_name c, type_id)
    @ each (constexpr ''u16'') (class_properties c)
    @ class_constructors c
    @ each (constexpr ''u16'') (class_methods c)
    @ newline
    @ generate_classes_from (type_id + 1) cs"

definition generate_class_ids :: "namespace_def \<Rightarrow> string" where
  "generate_class_ids ns =
    line [''// Class type IDs, property IDs, and method IDs''] @ generate_classes_from 1 (ns_classes ns)"

definition proxy_lifetime :: "class_def \<Rightarrow> string" where
  "proxy_lifetime c = (let n = cd_name c in
    line [''class '', n, ''Proxy {'']
    @ line [''    ServiceConnection& m_conn;'']
    @ line [''    u32 m_type_id;'']
    @ line [''    i32 m_object_id;'']
    @ newline
    @ line [''public:'']
    @ line [''    '', n, ''Proxy(ServiceConnection& conn, u32 type_id, i32 object_id)'']
    @ line [''        : m_conn(conn), m_type_id(type_id), m_object_id(object_id) {}''] @ newline
    @ line [''    '', n, ''Proxy('', n, ''Proxy&& other) noexcept'']
    @ line [''        : m_conn(other.m_conn), m_type_id(other.m_type_id), m_object_id(other.m_object_id) {'']
    @ line [''        other.m_object_id = 0;  // Prevent double-release'']
    @ line [''    }''] @ newline
    @ line [''    '', n, ''Proxy& operator=('', n, ''Proxy&& other) noexcept {'']
    @ line [''        if (this != &other) {'']
    @ line [''            release();'']
    @ line [''            m_type_id = other.m_type_id;'']
    @ line [''            m_object_id = other.m_object_id;'']
    @ line [''            other.m_object_id = 0;'']
    @ line [''        }'']
    @ line [''        return *this;'']
    @ line [''    }''] @ newline
    @ line [''    '', n, ''Proxy(const '', n, ''Proxy&) = delete;'']
    @ line [''    '', n, ''Proxy& operator=(const '', n, ''Proxy&) = delete;''] @ newline
    @ line [''    ~'', n, ''Proxy() { release(); }''] @ newline
    @ line [''    void release() {'']
    @ line [''        if (m_object_id != 0) {'']
    @ line [''            m_conn.release_object(m_type_id, m_object_id);'']
    @ line [''            m_object_id = 0;'']
    @ line [''        }'']
    @ line [''    }''] @ newline
    @ line [''    bool is_null() const { return m_object_id == 0; }'']
    @ line [''    explicit operator bool() const { return !is_null(); }''] @ newline
    @ line [''    u32 type_id() const { return m_type_id; }'']
    @ line [''    i32 object_id() const { return m_object_id; }''] @ newline)"

definition proxy_property :: "string \<Rightarrow> property_def \<Rightarrow> string" where
  "proxy_property n p =
    emit_doc (pr_doc p) ''    '' []
    @ line [''    '', type_to_cpp (pr_type p), '' '', pr_name p, ''() const {'']
    @ line [''        Buffer resp = m_conn.get_property(m_type_id, m_object_id, kProp_'', n, ''_'', pr_name p, '');'']
    @ line [''        return '', decode_call (pr_type p) ''resp'', '';'']
    @ line [''    }'']
    @ (if pr_readonly p then [] else
        line [''    void set_'', pr_name p, ''('', type_to_param (pr_type p) ''value'', '') {'']
        @ line [''        Buffer val;'']
        @ line [''        '', encode_call (pr_type p) ''value'' ''val'', '';'']
        @ line [''        m_conn.set_property(m_type_id, m_object_id, kProp_'', n, ''_'', pr_name p, '', val);'']
        @ line [''    }''])
    @ newline"

definition proxy_method :: "string \<Rightarrow> method_def \<Rightarrow> string" where
  "proxy_method n m =
    emit_doc (md_doc m) ''    '' []
    @ line [''    '', type_to_cpp (md_return m), '' '', md_name m, ''('', generate_method_params (md_params m), '') {'']
    @ line [''        Buffer args;'']
    @ encode_args ''        '' ''args'' (md_params m)
    @ line [''        Buffer resp = m_conn.call_object(m_type_id, m_object_id, kMethod_'', n, ''_'', md_name m, '', args);'']
    @ (if is_void (md_return m) then [] else line [''        return '', decode_call (md_return m) ''resp'', '';''])
    @ line [''    }''] @ newline"

definition more_params :: "param list \<Rightarrow> string" where
  "more_params params = each (\<lambda>p. '', '' @ type_to_param (pm_type p) (pm_name p)) params"

definition proxy_factory :: "string \<Rightarrow> nat \<times> constructor_def \<Rightarrow> string" where
  "proxy_factory n = (\<lambda>(i, ctor).
    newline @ line [''/// Create a new '', n, '' object'']
    @ line [''inline '', n, ''Proxy create_'', n, ''(ServiceConnection& conn'',
        more_params (ct_params ctor), '') {'']
    @ line [''    Buffer args;'']
    @ encode_args ''    '' ''args'' (ct_params ctor)
    @ line [''    auto ref = conn.create_object(kType_'', n, '', '', dec_string i, '', args);'']
    @ line [''    return '', n, ''Proxy(conn, ref.type_id, ref.object_id);'']
    @ line [''}''])"

definition generate_class_proxy :: "class_def \<Rightarrow> string" where
  "generate_class_proxy c =
    emit_doc (cd_doc c) [] []
    @ proxy_lifetime c
    @ each (proxy_property (cd_name c)) (cd_properties c)
    @ each (proxy_method (cd_name c)) (cd_methods c)
    @ line [''};'']
    @ each (proxy_factory (cd_name c)) (enumerate 0 (cd_constructors c))"

text \<open>\<^verbatim>\<open>std::toupper\<close> in the C locale.\<close>

definition to_upper :: "char \<Rightarrow> char" where
  "to_upper c = (let k = of_char c :: nat in if 97 \<le> k \<and> k \<le> 122 then char_of (k - 32) else c)"

definition skeleton_property :: "string \<Rightarrow> property_def \<Rightarrow> string" where
  "skeleton_property n p =
    emit_doc (pr_doc p) ''    '' []
    @ line [''    virtual '', type_to_cpp (pr_type p), '' get_'', pr_name p, ''() const { return '', pr_name p, ''_; }'']
    @ (if pr_readonly p then [] else
        line [''    virtual void set_'', pr_name p, ''('', type_to_param (pr_type p) ''value'', '') {'']
        @ line [''        '', pr_name p, ''_ = value;'']
        @ line [''        Buffer song_notify_buf;'']
        @ line [''        '', encode_call (pr_type p) ''value'' ''song_notify_buf'', '';'']
        @ line [''        notify_property(kProp_'', n, ''_'', pr_name p, '', song_notify_buf);'']
        @ line [''    }''])
    @ newline"

definition generate_class_skeleton :: "class_def \<Rightarrow> string" where
  "generate_class_skeleton c = (let n = cd_name c; upper_name = map to_upper n;
      base_class = (case cd_base c of Some b \<Rightarrow> b @ ''Base'' | None \<Rightarrow> ''song::Object'') in
    emit_doc (cd_doc c) [] '' (server implementation base)''
    @ line [''class '', n, ''Base : public '', base_class, '' {'']
    @ line [''protected:'']
    @ each (\<lambda>p. line [''    '', type_to_cpp (pr_type p), '' '', pr_name p, ''_{};'']) (cd_properties c)
    @ newline
    @ line [''    // User extension point: define '', upper_name, ''_SERVER_PRIVATE before including'']
    @ line [''    // to add private members/methods to this class'']
    @ line [''#ifdef '', upper_name, ''_SERVER_PRIVATE'']
    @ line [''    '', upper_name, ''_SERVER_PRIVATE'']
    @ line [''#endif'']
    @ newline @ line [''public:'']
    @ line [''    virtual ~'', n, ''Base() = default;''] @ newline
    @ each (skeleton_property n) (cd_properties c)
    @ each (\<lambda>m. emit_doc (md_doc m) ''    '' []
        @ line [''    virtual '', type_to_cpp (md_return m), '' '', md_name m, ''('', generate_method_params (md_params m), '') = 0;''])
        (cd_methods c)
    @ newline @ line [''    // Object interface implementation (generated)'']
    @ line [''    void prop_get(u16 prop_id, Buffer& resp) override;'']
    @ line [''    void prop_set(u16 prop_id, Buffer& req, Buffer& resp) override;'']
    @ line [''    void dispatch(u16 method_id, Buffer& req, Buffer& resp) override;'']
    @ line [''};''])"

text \<open>What the switches do for an id of none of the class's own: the base class, or an error.\<close>

definition delegate :: "class_def \<Rightarrow> string \<Rightarrow> string \<Rightarrow> string \<Rightarrow> string" where
  "delegate c call error id_name =
    line [''        default:'']
    @ (case cd_base c of
        Some b \<Rightarrow> line [''            '', b, ''Base::'', call, '';''] @ line [''            break;'']
      | None \<Rightarrow> line [''            throw std::runtime_error('', quote, error, quote, '' + std::to_string('', id_name, ''));''])
    @ line [''    }'']
    @ line [''}'']"

definition generate_class_dispatcher :: "class_def \<Rightarrow> string" where
  "generate_class_dispatcher c = (let n = cd_name c in
    line [''inline void '', n, ''Base::prop_get(u16 prop_id, Buffer& resp) {'']
    @ line [''    switch (prop_id) {'']
    @ each (\<lambda>p. line [''        case kProp_'', n, ''_'', pr_name p, '': {'']
        @ line [''            '', encode_call (pr_type p) (''get_'' @ pr_name p @ ''()'') ''resp'', '';'']
        @ line [''            break;'']
        @ line [''        }'']) (cd_properties c)
    @ delegate c ''prop_get(prop_id, resp)'' ''Unknown property ID: '' ''prop_id''
    @ newline
    @ line [''inline void '', n, ''Base::prop_set(u16 prop_id, Buffer& req, Buffer& resp) {'']
    @ line [''    switch (prop_id) {'']
    @ each (\<lambda>p. line [''        case kProp_'', n, ''_'', pr_name p, '': {'']
        @ line [''            auto value = '', decode_call (pr_type p) ''req'', '';'']
        @ line [''            set_'', pr_name p, ''(value);'']
        @ line [''            '', encode_call (pr_type p) (''get_'' @ pr_name p @ ''()'') ''resp'', '';'']
        @ line [''            break;'']
        @ line [''        }'']) (filter (\<lambda>p. \<not> pr_readonly p) (cd_properties c))
    @ delegate c ''prop_set(prop_id, req, resp)'' ''Unknown or readonly property ID: '' ''prop_id''
    @ newline
    @ line [''inline void '', n, ''Base::dispatch(u16 method_id, Buffer& req, Buffer& resp) {'']
    @ line [''    switch (method_id) {'']
    @ each (dispatch_case n [] ''req'' ''resp'') (cd_methods c)
    @ delegate c ''dispatch(method_id, req, resp)'' ''Unknown method ID: '' ''method_id'')"

definition factory_case :: "string \<Rightarrow> nat \<times> constructor_def \<Rightarrow> string" where
  "factory_case n = (\<lambda>(i, ctor).
    line [''        case kCtor_'', n, ''_'', dec_string i, '': {'']
    @ (if ct_params ctor = [] then line [''            (void)args;''] else [])
    @ decode_args ''            '' ''args'' (ct_params ctor)
    @ line [''            return new Impl('', arg_names (ct_params ctor), '');'']
    @ line [''        }''])"

definition generate_class_factory :: "class_def \<Rightarrow> string" where
  "generate_class_factory c = (let n = cd_name c in
    line [''// Register a concrete '', n, '' implementation with a runtime.'']
    @ line [''// Impl must derive from '', n, ''Base and expose constructors'']
    @ line [''// matching the IDL constructor list.'']
    @ line [''template <typename Impl>'']
    @ line [''inline void register_'', n, ''(song::ServiceRuntime& runtime) {'']
    @ line [''    runtime.register_factory(kType_'', n, '', [](u16 constructor_id, Buffer& args) -> song::Object* {'']
    @ (if cd_constructors c = [] then
        line [''        (void)args;'']
        @ line [''        if (constructor_id == 0) {'']
        @ line [''            return new Impl();'']
        @ line [''        }'']
      else
        line [''        switch (constructor_id) {'']
        @ each (factory_case n) (enumerate 0 (cd_constructors c))
        @ line [''        default: break;'']
        @ line [''        }''])
    @ line [''        throw std::runtime_error('', quote, ''Unknown constructor ID for '', n, '': '', quote, '' + std::to_string(constructor_id));'']
    @ line [''    });'']
    @ line [''}''])"

section \<open>Headers\<close>

text \<open>The parts of the all-in-one header: forward declarations, enums, structs, services, classes.\<close>

definition header_forward :: "namespace_def \<Rightarrow> string" where
  "header_forward ns =
    each (\<lambda>s. line [''struct '', sd_name s, '';'']) (ns_structs ns)
    @ (if ns_structs ns = [] then [] else newline)
    @ each (\<lambda>c. line [''class '', cd_name c, ''Proxy;''] @ line [''class '', cd_name c, ''Base;'']) (ns_classes ns)
    @ (if ns_classes ns = [] then [] else newline)"

definition header_enums :: "namespace_def \<Rightarrow> string" where
  "header_enums ns =
    each (\<lambda>e. generate_enum_def e @ newline) (ns_enums ns)
    @ each (\<lambda>e. generate_enum_name e @ newline @ generate_enum_encode e @ newline @ generate_enum_decode e @ newline
        @ generate_enum_array_encode e @ newline @ generate_enum_array_decode e @ newline) (ns_enums ns)"

definition header_structs :: "namespace_def \<Rightarrow> string" where
  "header_structs ns =
    each (\<lambda>s. generate_struct_def s @ newline) (ns_structs ns)
    @ (if ns_structs ns = [] then [] else
        line [''// Forward declare array helpers'']
        @ each (\<lambda>s. line [''inline void encode_array_'', sd_name s, ''(Buffer& buf, const std::vector<'', sd_name s, ''>& arr);'']
            @ line [''inline std::vector<'', sd_name s, ''> decode_array_'', sd_name s, ''(Buffer& buf);'']) (ns_structs ns)
        @ newline
        @ line [''// Serialization'']
        @ each (\<lambda>s. generate_struct_encode s @ newline @ generate_struct_decode s @ newline) (ns_structs ns)
        @ each (\<lambda>s. generate_struct_array_encode s @ newline @ generate_struct_array_decode s @ newline) (ns_structs ns))"

definition header_services :: "namespace_def \<Rightarrow> string" where
  "header_services ns =
    each (\<lambda>s. generate_service_proxy s @ newline) (ns_services ns)
    @ each (\<lambda>s. generate_service_interface s @ newline) (ns_services ns)
    @ each (\<lambda>s. generate_service_dispatcher s @ newline) (ns_services ns)"

definition header_classes :: "namespace_def \<Rightarrow> string" where
  "header_classes ns =
    each (\<lambda>c. generate_class_proxy c @ newline) (ns_classes ns)
    @ each (\<lambda>c. generate_class_skeleton c @ newline) (ns_classes ns)
    @ each (\<lambda>c. generate_class_dispatcher c @ newline) (ns_classes ns)
    @ each (\<lambda>c. generate_class_factory c @ newline) (ns_classes ns)"

definition generate_header :: "namespace_def \<Rightarrow> string" where
  "generate_header ns =
    line [''// Generated by songc - DO NOT EDIT'']
    @ line [''// Source: '', ns_name ns, ''.song''] @ newline
    @ line [''#pragma once''] @ newline
    @ line [''#include <song/song.hpp>'']
    @ line [''#include <string>'']
    @ line [''#include <vector>'']
    @ line [''#include <optional>'']
    @ line [''#include <stdexcept>'']
    @ line [''#include <functional>''] @ newline
    @ line [''namespace song::'', ns_name ns, '' {''] @ newline
    @ line [''using namespace song;''] @ newline
    @ (if ns_services ns = [] then [] else generate_service_ids ns)
    @ (if ns_classes ns = [] then [] else generate_class_ids ns)
    @ header_forward ns @ header_enums ns @ header_structs ns @ header_services ns @ header_classes ns
    @ line [''} // namespace song::'', ns_name ns]"

definition generate_types_header :: "namespace_def \<Rightarrow> string" where
  "generate_types_header ns =
    line [''// Generated by songc - DO NOT EDIT'']
    @ line [''// Source: '', ns_name ns] @ newline
    @ line [''#pragma once''] @ newline
    @ line [''#include <song/song.hpp>'']
    @ line [''#include <string>'']
    @ line [''#include <vector>'']
    @ line [''#include <optional>''] @ newline
    @ line [''namespace song::'', ns_name ns, '' {''] @ newline
    @ each (\<lambda>s. line [''struct '', sd_name s, '';'']) (ns_structs ns)
    @ (if ns_structs ns = [] then [] else newline)
    @ each (\<lambda>e. generate_enum_def e @ newline) (ns_enums ns)
    @ each (\<lambda>e. generate_enum_encode e @ newline @ generate_enum_decode e @ newline
        @ generate_enum_array_encode e @ newline @ generate_enum_array_decode e @ newline) (ns_enums ns)
    @ each (\<lambda>s. generate_struct_def s @ newline) (ns_structs ns)
    @ line [''// Serialization functions'']
    @ each (\<lambda>s. line [''void encode_'', sd_name s, ''(Buffer& buf, const '', sd_name s, ''& val);'']
        @ line [sd_name s, '' decode_'', sd_name s, ''(Buffer& buf);'']) (ns_structs ns)
    @ newline
    @ line [''} // namespace song::'', ns_name ns]"

definition generate_wire_impl :: "namespace_def \<Rightarrow> string" where
  "generate_wire_impl ns =
    line [''// Generated by songc - DO NOT EDIT'']
    @ line [''// Source: '', ns_name ns] @ newline
    @ line [''#include '', quote, ns_name ns, ''_types.hpp'', quote] @ newline
    @ line [''namespace song::'', ns_name ns, '' {''] @ newline
    @ line [''using namespace song;''] @ newline
    @ each (\<lambda>s. generate_struct_encode s @ newline @ generate_struct_decode s @ newline) (ns_structs ns)
    @ line [''} // namespace song::'', ns_name ns]"

definition generate_client_header :: "namespace_def \<Rightarrow> string" where
  "generate_client_header ns =
    line [''// Generated by songc - DO NOT EDIT'']
    @ line [''// Client proxies for '', ns_name ns]
    @ line [''#pragma once''] @ newline
    @ line [''#include '', quote, ns_name ns, ''_types.hpp'', quote] @ newline
    @ line [''namespace song::'', ns_name ns, '' {''] @ newline
    @ line [''using namespace song;''] @ newline
    @ generate_service_ids ns
    @ each (\<lambda>s. generate_service_proxy s @ newline) (ns_services ns)
    @ line [''} // namespace song::'', ns_name ns]"

definition generate_server_header :: "namespace_def \<Rightarrow> string" where
  "generate_server_header ns =
    line [''// Generated by songc - DO NOT EDIT'']
    @ line [''// Server skeletons for '', ns_name ns]
    @ line [''#pragma once''] @ newline
    @ line [''#include '', quote, ns_name ns, ''_types.hpp'', quote]
    @ line [''#include <stdexcept>''] @ newline
    @ line [''namespace song::'', ns_name ns, '' {''] @ newline
    @ line [''using namespace song;''] @ newline
    @ generate_service_ids ns
    @ each (\<lambda>s. generate_service_interface s @ newline @ generate_service_dispatcher s @ newline) (ns_services ns)
    @ line [''} // namespace song::'', ns_name ns]"

section \<open>Numbers\<close>

text \<open>The service constants of a header with their values, as the generator counts them.\<close>

fun all_service_numbers :: "u16 \<Rightarrow> service_def list \<Rightarrow> (string \<times> u16) list" where
  "all_service_numbers service_id [] = []"
| "all_service_numbers service_id (s # ss) =
    service_numbers service_id s @ all_service_numbers (service_id + (if has_stream s then 2 else 1)) ss"

lemma map_fst_numbered [simp]: "map fst (numbered n xs) = xs"
  by (induction xs arbitrary: n) simp_all

lemma numbered_append: "numbered n (xs @ ys) = numbered n xs @ numbered (n + word_of_nat (length xs)) ys"
  by (induction xs arbitrary: n) (simp_all add: algebra_simps)

lemma nth_numbered: "i < length xs \<Longrightarrow> map snd (numbered n xs) ! i = n + word_of_nat i"
  by (induction xs arbitrary: n i) (auto simp: nth_Cons algebra_simps split: nat.splits)

lemma length_numbered [simp]: "length (numbered n xs) = length xs"
  by (induction xs arbitrary: n) simp_all

text \<open>Counting from one, a counter of \<open>w\<close> bits tells apart as many things as it has nonzero values.\<close>

lemma numbered_distinct:
  assumes "length xs < 2 ^ LENGTH('a::len)"
  shows "distinct (map snd (numbered (1 :: 'a word) xs)) \<and> 0 \<notin> snd ` set (numbered (1 :: 'a word) xs)"
proof -
  have v: "unat (map snd (numbered (1 :: 'a word) xs) ! i) = Suc i" if "i < length xs" for i
  proof -
    have "map snd (numbered (1 :: 'a word) xs) ! i = word_of_nat (Suc i)" using nth_numbered [OF that, of 1] by simp
    moreover have "Suc i < 2 ^ LENGTH('a)" using that assms by simp
    ultimately show ?thesis by (simp only: unat_of_nat mod_less)
  qed
  have "distinct (map snd (numbered (1 :: 'a word) xs))"
    unfolding distinct_conv_nth using v by (metis length_map length_numbered Suc_inject)
  moreover have "0 \<notin> set (map snd (numbered (1 :: 'a word) xs))"
    using v by (metis in_set_conv_nth length_map length_numbered nat.distinct(1) unat_0)
  ultimately show ?thesis by simp
qed

lemma all_service_numbers_numbered:
  "all_service_numbers k ss =
    numbered k (concat (map (\<lambda>s. service_constant s # (if has_stream s then [stream_constant s] else [])) ss))"
proof (induction ss arbitrary: k)
  case (Cons s ss)
  then show ?case
    using numbered_append [of k "service_constant s # (if has_stream s then [stream_constant s] else [])"]
    by (simp add: service_numbers_def)
qed simp

lemma sublist_before: "sublist x a \<Longrightarrow> sublist x (a @ b)"
  unfolding sublist_def by (metis append.assoc)

lemma sublist_behind: "sublist x b \<Longrightarrow> sublist x (a @ b)"
  unfolding sublist_def by (metis append.assoc)

lemma sublist_each: "x \<in> set xs \<Longrightarrow> sublist (f x) (each f xs)"
  by (induction xs) (auto simp: each_def intro: sublist_before sublist_behind)

lemma generate_services_split:
  "c \<in> set (all_service_numbers k ss) \<Longrightarrow> sublist (constexpr ''u16'' c) (generate_services_from k ss)"
proof (induction ss arbitrary: k)
  case (Cons s ss)
  from Cons.prems consider "c \<in> set (service_numbers k s)"
    | "c \<in> set (all_service_numbers (k + (if has_stream s then 2 else 1)) ss)" by auto
  then show ?case
  proof cases
    case 1
    then show ?thesis unfolding generate_services_from.simps by (intro sublist_before sublist_each)
  next
    case 2
    then have "sublist (constexpr ''u16'' c) (generate_services_from (k + (if has_stream s then 2 else 1)) ss)"
      by (rule Cons.IH)
    then show ?thesis unfolding generate_services_from.simps by (intro sublist_behind)
  qed
qed simp

text \<open>Claim C15. The service and method numbers of a generated header do not clash: each service and
  each streaming half of one has a constant in the header, their values are different and not
  0, and so are the values of the methods of one service, as long as there are fewer than
  65536 of them, which is what the counters of type u16 can tell apart.\<close>

theorem generated_ids_distinct:
  assumes "length (concat (map (\<lambda>s. service_constant s # (if has_stream s then [stream_constant s] else [])) (ns_services ns))) < 65536"
    and "\<forall>s \<in> set (ns_services ns). length (sv_methods s) < 65536"
  shows "distinct (map snd (all_service_numbers 1 (ns_services ns))) \<and> 0 \<notin> snd ` set (all_service_numbers 1 (ns_services ns))
    \<and> (\<forall>c \<in> set (all_service_numbers 1 (ns_services ns)). sublist (constexpr ''u16'' c) (generate_service_ids ns))
    \<and> (\<forall>s \<in> set (ns_services ns). distinct (map snd (service_methods s)) \<and> 0 \<notin> snd ` set (service_methods s))"
proof -
  have "sublist (constexpr ''u16'' c) (generate_service_ids ns)" if "c \<in> set (all_service_numbers 1 (ns_services ns))" for c
    using generate_services_split [OF that] by (auto simp: generate_service_ids_def intro: sublist_behind)
  moreover have "distinct (map snd (service_methods s)) \<and> 0 \<notin> snd ` set (service_methods s)"
    if "s \<in> set (ns_services ns)" for s
    using numbered_distinct [where 'a = 16, of "map (\<lambda>m. method_constant (sv_name s) (md_name m)) (sv_methods s)"] that assms(2)
    by (simp add: service_methods_def)
  ultimately show ?thesis using numbered_distinct [where 'a = 16, of "concat (map (\<lambda>s. service_constant s # (if has_stream s then [stream_constant s] else [])) (ns_services ns))"] assms(1)
    by (simp add: all_service_numbers_numbered)
qed

section \<open>Brackets and comments\<close>

text \<open>
  A reader of C++ text as far as brackets go: comments run to the end of their line, or further
  when the line ends in a backslash, string literals run to the next quote on the line, and
  outside of them every closing bracket must be the one of the innermost open bracket.
  \<open>Comment b\<close> says whether the last character was a backslash.
\<close>

datatype mode = Code | Slash | Comment bool | Quoted

fun bracket :: "char \<Rightarrow> string \<Rightarrow> string option" where
  "bracket c k =
    (if c = CHR ''{'' then Some (CHR ''}'' # k)
     else if c = CHR ''('' then Some (CHR '')'' # k)
     else if c = CHR ''['' then Some (CHR '']'' # k)
     else if c = CHR ''}'' \<or> c = CHR '')'' \<or> c = CHR '']''
     then (case k of [] \<Rightarrow> None | d # k' \<Rightarrow> if c = d then Some k' else None)
     else Some k)"

fun scan_char :: "char \<Rightarrow> mode \<Rightarrow> string \<Rightarrow> (mode \<times> string) option" where
  "scan_char c Code k =
    (if c = CHR 0x22 then Some (Quoted, k) else if c = CHR ''/'' then Some (Slash, k)
     else map_option (Pair Code) (bracket c k))"
| "scan_char c Slash k =
    (if c = CHR ''/'' then Some (Comment False, k) else if c = CHR 0x22 then Some (Quoted, k)
     else map_option (Pair Code) (bracket c k))"
| "scan_char c (Comment b) k =
    (if c = CHR 0x0A \<and> \<not> b then Some (Code, k) else Some (Comment (c = CHR 0x5C), k))"
| "scan_char c Quoted k =
    (if c = CHR 0x22 then Some (Code, k) else if c = CHR 0x0A then None else Some (Quoted, k))"

fun scan :: "string \<Rightarrow> mode \<times> string \<Rightarrow> (mode \<times> string) option" where
  "scan [] st = Some st"
| "scan (c # cs) st = (case scan_char c (fst st) (snd st) of None \<Rightarrow> None | Some st' \<Rightarrow> scan cs st')"

text \<open>Text that is code from its first to its last character and closes what it opens.\<close>

definition well_bracketed :: "string \<Rightarrow> bool" where
  "well_bracketed s \<longleftrightarrow> scan s (Code, []) = Some (Code, [])"

definition neutral :: "string \<Rightarrow> bool" where
  "neutral s \<longleftrightarrow> (\<forall>k. scan s (Code, k) = Some (Code, k))"

text \<open>Characters that mean nothing to the reader; names of the interface language have no others.\<close>

definition plain_char :: "char \<Rightarrow> bool" where
  "plain_char c \<longleftrightarrow> c \<notin> {CHR ''{'', CHR ''}'', CHR ''('', CHR '')'', CHR ''['', CHR '']'', CHR ''/'', CHR 0x22, CHR 0x5C, CHR 0x0A}"

definition plain :: "string \<Rightarrow> bool" where
  "plain s \<longleftrightarrow> (\<forall>c \<in> set s. plain_char c)"

lemma plain_simps [simp]:
  "plain []" "plain (c # cs) \<longleftrightarrow> plain_char c \<and> plain cs" "plain (s @ t) \<longleftrightarrow> plain s \<and> plain t"
  by (auto simp: plain_def)

lemma scan_append [simp]: "scan (s @ t) st = (case scan s st of None \<Rightarrow> None | Some st' \<Rightarrow> scan t st')"
  by (induction s arbitrary: st) (auto split: option.splits)

lemma scan_char_plain:
  "plain_char c \<Longrightarrow> scan_char c Code k = Some (Code, k)"
  "plain_char c \<Longrightarrow> scan_char c (Comment b) k = Some (Comment False, k)"
  "plain_char c \<Longrightarrow> scan_char c Quoted k = Some (Quoted, k)"
  by (auto simp: plain_char_def)

lemma scan_plain [simp]:
  "plain s \<Longrightarrow> scan s (Code, k) = Some (Code, k)"
  "plain s \<Longrightarrow> scan s (Comment False, k) = Some (Comment False, k)"
  "plain s \<Longrightarrow> scan s (Quoted, k) = Some (Quoted, k)"
  by (induction s) (auto simp: scan_char_plain simp del: scan_char.simps)

lemma scan_newline [simp]: "scan newline (Code, k) = Some (Code, k)"
  by (simp add: newline_def)

lemma scan_neutral [simp]: "neutral s \<Longrightarrow> scan s (Code, k) = Some (Code, k)"
  by (simp add: neutral_def)

lemma neutralI: "(\<And>k. scan s (Code, k) = Some (Code, k)) \<Longrightarrow> neutral s"
  by (simp add: neutral_def)

lemma neutral_append: "neutral s \<Longrightarrow> neutral t \<Longrightarrow> neutral (s @ t)"
  by (simp add: neutral_def)

lemma neutral_plain: "plain s \<Longrightarrow> neutral s"
  by (simp add: neutral_def)

lemma neutral_Nil [simp]: "neutral []"
  by (simp add: neutral_def)

lemma neutral_newline [simp]: "neutral newline"
  by (simp add: neutral_def)

lemma neutral_each: "(\<And>x. x \<in> set xs \<Longrightarrow> neutral (f x)) \<Longrightarrow> neutral (each f xs)"
  by (induction xs) (auto simp: each_def neutral_append neutral_plain)

lemma neutral_if: "(b \<Longrightarrow> neutral s) \<Longrightarrow> (\<not> b \<Longrightarrow> neutral t) \<Longrightarrow> neutral (if b then s else t)"
  by simp

lemma scan_line [simp]: "scan (line ss) st = (case scan (concat ss) st of None \<Rightarrow> None | Some st' \<Rightarrow> scan newline st')"
  by (simp add: line_def)

lemma scan_concat [simp]:
  "scan (concat []) st = Some st"
  "scan (concat (s # ss)) st = (case scan s st of None \<Rightarrow> None | Some st' \<Rightarrow> scan (concat ss) st')"
  by simp_all

lemma comment_newline [simp]: "scan newline (Comment False, k) = Some (Code, k)"
  by (simp add: newline_def)

text \<open>A comment takes any text without newlines, if it does not end in a backslash.\<close>

definition comment_ok :: "string \<Rightarrow> bool" where
  "comment_ok l \<longleftrightarrow> CHR 0x0A \<notin> set l \<and> (l \<noteq> [] \<longrightarrow> last l \<noteq> CHR 0x5C)"

definition doc_ok :: "string \<Rightarrow> bool" where
  "doc_ok doc \<longleftrightarrow> (\<forall>l \<in> set (split_doc doc). comment_ok l)"

lemma scan_comment:
  "CHR 0x0A \<notin> set l \<Longrightarrow> scan l (Comment b, k) = Some (Comment (if l = [] then b else last l = CHR 0x5C), k)"
  by (induction l arbitrary: b) auto

lemma scan_comment_ok [simp]: "comment_ok l \<Longrightarrow> scan l (Comment False, k) = Some (Comment False, k)"
  by (auto simp: comment_ok_def scan_comment)

lemma split_doc_ne [simp]: "split_doc doc \<noteq> []"
  by (cases doc) (auto split: list.splits)

lemma neutral_emit_doc:
  assumes "doc_ok doc" "plain indent" "comment_ok ending"
  shows "neutral (emit_doc doc indent ending)"
proof -
  have ok: "comment_ok l" if "l \<in> set (split_doc doc)" for l using that assms(1) by (simp add: doc_ok_def)
  have "neutral (each (\<lambda>l. line [indent, ''/// '', l]) (butlast (split_doc doc)))"
    using ok assms by (intro neutral_each) (auto simp: neutral_def dest: in_set_butlastD)
  moreover have "neutral (line [indent, ''/// '', last (split_doc doc), ending])"
    using ok [of "last (split_doc doc)"] assms by (simp add: neutral_def)
  ultimately show ?thesis by (simp add: emit_doc_def neutral_append neutral_plain)
qed

lemma scan_emit_doc [simp]:
  "doc_ok doc \<Longrightarrow> plain indent \<Longrightarrow> comment_ok ending \<Longrightarrow> scan (emit_doc doc indent ending) (Code, k) = Some (Code, k)"
  using neutral_emit_doc by simp

lemma scan_each [simp]:
  "\<forall>x \<in> set xs. neutral (f x) \<Longrightarrow> scan (each f xs) (Code, k) = Some (Code, k)"
  by (simp add: neutral_each)

lemma scan_if [simp]: "scan (if b then s else t) st = (if b then scan s st else scan t st)"
  by simp

subsection \<open>Names and types\<close>

definition type_ok :: "idl_type \<Rightarrow> bool" where
  "type_ok t \<longleftrightarrow> (case ty_base t of User n \<Rightarrow> plain n | Primitive p \<Rightarrow> True)"

definition field_ok :: "field_def \<Rightarrow> bool" where
  "field_ok f \<longleftrightarrow> plain (fd_name f) \<and> type_ok (fd_type f) \<and> doc_ok (fd_doc f)"

definition struct_ok :: "struct_def \<Rightarrow> bool" where
  "struct_ok s \<longleftrightarrow> plain (sd_name s) \<and> doc_ok (sd_doc s) \<and> (\<forall>f \<in> set (sd_fields s). field_ok f)"

definition enum_ok :: "enum_def \<Rightarrow> bool" where
  "enum_ok e \<longleftrightarrow> plain (ed_name e) \<and> doc_ok (ed_doc e)
     \<and> (\<forall>i \<in> set (ed_items e). plain (ei_name i) \<and> doc_ok (ei_doc i))"

definition params_ok :: "param list \<Rightarrow> bool" where
  "params_ok ps \<longleftrightarrow> (\<forall>p \<in> set ps. plain (pm_name p) \<and> type_ok (pm_type p))"

definition method_ok :: "method_def \<Rightarrow> bool" where
  "method_ok m \<longleftrightarrow> plain (md_name m) \<and> params_ok (md_params m) \<and> type_ok (md_return m) \<and> doc_ok (md_doc m)"

definition service_ok :: "service_def \<Rightarrow> bool" where
  "service_ok s \<longleftrightarrow> plain (sv_name s) \<and> doc_ok (sv_doc s) \<and> (\<forall>m \<in> set (sv_methods s). method_ok m)"

definition property_ok :: "property_def \<Rightarrow> bool" where
  "property_ok p \<longleftrightarrow> plain (pr_name p) \<and> type_ok (pr_type p) \<and> doc_ok (pr_doc p)"

definition class_ok :: "class_def \<Rightarrow> bool" where
  "class_ok c \<longleftrightarrow> plain (cd_name c) \<and> (\<forall>b. cd_base c = Some b \<longrightarrow> plain b) \<and> doc_ok (cd_doc c)
     \<and> (\<forall>p \<in> set (cd_properties c). property_ok p) \<and> (\<forall>ctor \<in> set (cd_constructors c). params_ok (ct_params ctor))
     \<and> (\<forall>m \<in> set (cd_methods c). method_ok m)"

definition namespace_ok :: "namespace_def \<Rightarrow> bool" where
  "namespace_ok ns \<longleftrightarrow> plain (ns_name ns) \<and> (\<forall>e \<in> set (ns_enums ns). enum_ok e) \<and> (\<forall>s \<in> set (ns_structs ns). struct_ok s)
     \<and> (\<forall>c \<in> set (ns_classes ns). class_ok c) \<and> (\<forall>s \<in> set (ns_services ns). service_ok s)"

lemmas ok_defs = field_ok_def struct_ok_def enum_ok_def method_ok_def service_ok_def property_ok_def class_ok_def
  namespace_ok_def

lemma params_ok_Nil [simp]: "params_ok []"
  by (simp add: params_ok_def)

lemma plain_dec_string [simp]: "plain (dec_string n)"
proof (induction n rule: dec_string.induct)
  case (1 n)
  have "\<forall>k \<in> set [0..<10]. plain_char (char_of (48 + k))" by code_simp
  then have digit: "plain_char (char_of (48 + k))" if "k < 10" for k :: nat using that by simp
  show ?case using 1 digit by (subst dec_string.simps) simp
qed

lemma plain_int_string [simp]: "plain (int_string i)"
  by (simp add: int_string_def plain_char_def)

lemma plain_number [simp]: "plain (number n)"
  by (simp add: number_def)

lemma plain_concat: "\<forall>s \<in> set ss. plain s \<Longrightarrow> plain (concat ss)"
  by (induction ss) auto

lemma plain_replicate: "plain_char c \<Longrightarrow> plain (replicate n c)"
  by (induction n) auto

lemma plain_primitive [simp]: "plain (primitive_to_cpp p)" "plain (primitive_to_string p)"
  by (cases p; simp add: plain_char_def)+

lemma plain_type_to_cpp [simp]: "type_ok t \<Longrightarrow> plain (type_to_cpp t)"
  by (auto simp: type_to_cpp_def Let_def type_ok_def plain_char_def intro!: plain_concat plain_replicate split: base_type.splits)

lemma plain_type_to_param [simp]: "type_ok t \<Longrightarrow> plain n \<Longrightarrow> plain (type_to_param t n)"
  by (simp add: type_to_param_def Let_def plain_char_def)

lemma plain_comma_separated: "\<forall>s \<in> set ss. plain s \<Longrightarrow> plain (comma_separated ss)"
  by (induction ss rule: comma_separated.induct) (auto simp: plain_char_def)

lemma plain_method_params [simp]: "params_ok ps \<Longrightarrow> plain (generate_method_params ps)"
  by (auto simp: generate_method_params_def params_ok_def intro!: plain_comma_separated)

lemma plain_arg_names [simp]: "params_ok ps \<Longrightarrow> plain (arg_names ps)"
  by (auto simp: arg_names_def params_ok_def intro!: plain_comma_separated)

lemma type_ok_element [simp]: "type_ok (element_type t) = type_ok t"
  by (simp add: type_ok_def element_type_def Let_def)

lemma type_ok_update [simp]: "type_ok (t\<lparr>ty_is_optional := b\<rparr>) = type_ok t"
  by (simp add: type_ok_def)

lemma plain_user_type [simp]: "type_ok t \<Longrightarrow> plain (user_type t)"
  by (simp add: user_type_def type_ok_def split: base_type.splits)

text \<open>The calls of the codecs open and close their own brackets.\<close>

lemma neutral_encode_call:
  "type_ok t \<Longrightarrow> neutral expr \<Longrightarrow> plain b \<Longrightarrow> neutral (encode_call t expr b)"
proof (induction t expr b rule: encode_call.induct)
  case (1 t expr b)
  have v: "neutral ''v''" by (intro neutral_plain) (simp add: plain_char_def)
  note [simp] = "1.prems"
  show ?case
  proof (cases "ty_is_array t")
    case True
    then show ?thesis by (intro neutralI, subst encode_call.simps) (simp add: Let_def)
  next
    case A: False
    show ?thesis
    proof (cases "ty_is_optional t")
      case True
      with A "1.IH" [OF A True _ v] have "neutral (encode_call (t\<lparr>ty_is_optional := False\<rparr>) ''v'' b)" by simp
      with A True show ?thesis by (intro neutralI, subst encode_call.simps) simp
    next
      case False
      with A False "1.prems"(1) show ?thesis
        by (intro neutralI, subst encode_call.simps) (auto simp: type_ok_def split: base_type.splits)
    qed
  qed
qed

lemma neutral_decode_call: "type_ok t \<Longrightarrow> plain b \<Longrightarrow> neutral (decode_call t b)"
proof (induction t b rule: decode_call.induct)
  case (1 t b)
  note [simp] = "1.prems"
  show ?case
  proof (cases "ty_is_array t")
    case True
    then show ?thesis by (intro neutralI, subst decode_call.simps) (simp add: Let_def)
  next
    case A: False
    show ?thesis
    proof (cases "ty_is_optional t")
      case True
      with A "1.IH" [OF A True] have "neutral (decode_call (t\<lparr>ty_is_optional := False\<rparr>) b)" by simp
      with A True show ?thesis by (intro neutralI, subst decode_call.simps) simp
    next
      case False
      with A "1.prems"(1) show ?thesis
        by (intro neutralI, subst decode_call.simps) (auto simp: type_ok_def split: base_type.splits)
    qed
  qed
qed

lemma scan_calls [simp]:
  "type_ok t \<Longrightarrow> neutral expr \<Longrightarrow> plain b \<Longrightarrow> scan (encode_call t expr b) (Code, k) = Some (Code, k)"
  "type_ok t \<Longrightarrow> plain b \<Longrightarrow> scan (decode_call t b) (Code, k) = Some (Code, k)"
  using neutral_encode_call neutral_decode_call by auto

lemma neutral_args [simp]:
  "params_ok ps \<Longrightarrow> plain i \<Longrightarrow> plain b \<Longrightarrow> neutral (encode_args i b ps)"
  "params_ok ps \<Longrightarrow> plain i \<Longrightarrow> plain b \<Longrightarrow> neutral (decode_args i b ps)"
  unfolding encode_args_def decode_args_def
  by (rule neutral_each, rule neutralI, simp add: params_ok_def neutral_plain)+

subsection \<open>The generators\<close>

text \<open>Compound text is opened up for the reader; the loops and the parts with a lemma of their own
  stay closed.\<close>

lemma neutral_open [simp]:
  "neutral (line ss) \<longleftrightarrow> (\<forall>k. scan (line ss) (Code, k) = Some (Code, k))"
  "neutral (s @ t) \<longleftrightarrow> (\<forall>k. scan (s @ t) (Code, k) = Some (Code, k))"
  "neutral (if b then s else t) \<longleftrightarrow> (if b then neutral s else neutral t)"
  by (simp_all add: neutral_def)

lemmas bracket_simps = Let_def comment_ok_def [of "[]"] comment_ok_def [of "x # xs" for x xs] neutral_plain neutral_emit_doc neutral_each plain_char_def

lemma neutral_struct_def: "struct_ok s \<Longrightarrow> neutral (generate_struct_def s)"
  by (rule neutralI) (simp add: generate_struct_def_def ok_defs bracket_simps)

lemma neutral_struct_encode: "struct_ok s \<Longrightarrow> neutral (generate_struct_encode s)"
  by (rule neutralI) (simp add: generate_struct_encode_def ok_defs bracket_simps)

lemma neutral_struct_decode: "struct_ok s \<Longrightarrow> neutral (generate_struct_decode s)"
  by (rule neutralI) (simp add: generate_struct_decode_def ok_defs bracket_simps)

lemma neutral_array_helpers:
  "plain n \<Longrightarrow> neutral (generate_array_encode n)" "plain n \<Longrightarrow> neutral (generate_array_decode n)"
  by (rule neutralI; simp add: generate_array_encode_def generate_array_decode_def bracket_simps)+

lemma enum_cases_subset: "fst ` set (enum_cases items seen v) \<subseteq> set items"
  by (induction items seen v rule: enum_cases.induct) (auto simp: Let_def split: if_splits)

lemma plain_enum_suffix [simp]: "plain (enum_wire_suffix e)"
  by (simp add: enum_wire_suffix_def plain_char_def)

lemma neutral_enum_codecs:
  "enum_ok e \<Longrightarrow> neutral (generate_enum_encode e)" "enum_ok e \<Longrightarrow> neutral (generate_enum_decode e)"
  by (rule neutralI; simp add: generate_enum_encode_def generate_enum_decode_def ok_defs bracket_simps)+

lemma scan_quote [simp]: "scan quote (Code, k) = Some (Quoted, k)" "scan quote (Quoted, k) = Some (Code, k)"
  by (simp_all add: quote_def)

lemma neutral_enum_name: "enum_ok e \<Longrightarrow> neutral (generate_enum_name e)"
proof -
  assume e: "enum_ok e"
  then have "\<forall>x \<in> set (enum_cases (ed_items e) [] 0). plain (ei_name (fst x))"
    using enum_cases_subset [of "ed_items e" "[]" 0] by (auto simp: enum_ok_def)
  with e show ?thesis
    by (intro neutralI) (simp add: generate_enum_name_def ok_defs bracket_simps case_prod_beta)
qed

lemma neutral_enum_items:
  "\<forall>i \<in> set items. plain (ei_name i) \<and> doc_ok (ei_doc i) \<Longrightarrow> neutral (generate_enum_items items)"
proof (induction items)
  case (Cons i items)
  then show ?case by (intro neutralI) (auto simp: bracket_simps split: option.splits)
qed (simp add: neutral_plain)

lemma neutral_enum_def: "enum_ok e \<Longrightarrow> neutral (generate_enum_def e)"
  using neutral_enum_items [of "ed_items e"]
  by (intro neutralI) (simp add: generate_enum_def_def ok_defs bracket_simps)

lemma plain_constants [simp]:
  "plain n \<Longrightarrow> plain (method_constant n m) = plain m"
  by (simp add: method_constant_def plain_char_def)

lemma neutral_constexpr: "plain t \<Longrightarrow> plain (fst c) \<Longrightarrow> neutral (constexpr t c)"
  by (rule neutralI) (simp add: constexpr_def plain_char_def)

lemma fst_numbered: "c \<in> set (numbered n xs) \<Longrightarrow> fst c \<in> set xs"
  by (metis image_eqI list.set_map map_fst_numbered)

lemma neutral_services:
  "\<forall>s \<in> set ss. service_ok s \<Longrightarrow> neutral (generate_services_from n ss)"
proof (induction ss arbitrary: n)
  case (Cons s ss)
  then have s: "plain (sv_name s)" "\<forall>m \<in> set (sv_methods s). plain (md_name m)" by (auto simp: ok_defs)
  have "neutral (each (constexpr ''u16'') (service_numbers n s))"
    using s by (intro neutral_each neutral_constexpr)
      (auto simp: service_numbers_def service_constant_def stream_constant_def plain_char_def dest!: fst_numbered split: if_splits)
  moreover have "neutral (each (constexpr ''u16'') (service_methods s))"
    using s by (intro neutral_each neutral_constexpr)
      (auto simp: service_methods_def plain_char_def dest!: fst_numbered)
  ultimately show ?case using Cons by (intro neutralI) simp
qed (simp add: neutral_plain)

lemma neutral_service_ids: "\<forall>s \<in> set (ns_services ns). service_ok s \<Longrightarrow> neutral (generate_service_ids ns)"
  using neutral_services [of "ns_services ns" 1]
  by (intro neutralI) (simp add: generate_service_ids_def plain_char_def)

lemma neutral_proxy_methods:
  "plain n \<Longrightarrow> method_ok m \<Longrightarrow> neutral (proxy_stream_method n m)"
  "plain n \<Longrightarrow> method_ok m \<Longrightarrow> neutral (proxy_call_method n m)"
  by (rule neutralI; simp add: proxy_stream_method_def proxy_call_method_def method_ok_def bracket_simps)+

lemma neutral_service_proxy: "service_ok s \<Longrightarrow> neutral (generate_service_proxy s)"
  by (rule neutralI) (simp add: generate_service_proxy_def service_ok_def method_ok_def [of m for m] bracket_simps
      neutral_proxy_methods [unfolded method_ok_def])

lemma neutral_interface_method: "method_ok m \<Longrightarrow> neutral (interface_method m)"
  by (rule neutralI) (simp add: interface_method_def method_ok_def bracket_simps)

lemma neutral_service_interface: "service_ok s \<Longrightarrow> neutral (generate_service_interface s)"
  by (rule neutralI) (simp add: generate_service_interface_def service_ok_def bracket_simps neutral_interface_method)

lemma neutral_dispatch_case:
  "plain n \<Longrightarrow> plain callee \<Longrightarrow> plain req \<Longrightarrow> plain resp \<Longrightarrow> method_ok m \<Longrightarrow> neutral (dispatch_case n callee req resp m)"
  by (rule neutralI) (simp add: dispatch_case_def method_ok_def bracket_simps)

lemma neutral_stream_case: "plain n \<Longrightarrow> method_ok m \<Longrightarrow> neutral (stream_dispatch_case n m)"
  by (rule neutralI) (simp add: stream_dispatch_case_def method_ok_def params_ok_def bracket_simps)

lemma neutral_service_dispatcher: "service_ok s \<Longrightarrow> neutral (generate_service_dispatcher s)"
  by (rule neutralI) (simp add: generate_service_dispatcher_def service_ok_def bracket_simps
      neutral_dispatch_case neutral_stream_case)

lemma neutral_class_ids: "\<forall>c \<in> set cs. class_ok c \<Longrightarrow> neutral (generate_classes_from n cs)"
proof (induction cs arbitrary: n)
  case (Cons c cs)
  then have c: "plain (cd_name c)" "\<forall>p \<in> set (cd_properties c). plain (pr_name p)" "\<forall>m \<in> set (cd_methods c). plain (md_name m)"
    by (auto simp: ok_defs)
  have "neutral (each (constexpr ''u16'') (class_properties c))"
    using c by (intro neutral_each neutral_constexpr) (auto simp: class_properties_def plain_char_def dest!: fst_numbered)
  moreover have "neutral (each (constexpr ''u16'') (class_methods c))"
    using c by (intro neutral_each neutral_constexpr) (auto simp: class_methods_def plain_char_def dest!: fst_numbered)
  moreover have "neutral (class_constructors c)"
    unfolding class_constructors_def by (rule neutral_each, rule neutralI) (simp add: c plain_char_def)
  moreover have "neutral (constexpr ''u32'' (''kType_'' @ cd_name c, n))"
    using c by (intro neutral_constexpr) (simp_all add: plain_char_def)
  ultimately show ?case using Cons by (intro neutralI) simp
qed (simp add: neutral_plain)

lemma neutral_generate_class_ids: "\<forall>c \<in> set (ns_classes ns). class_ok c \<Longrightarrow> neutral (generate_class_ids ns)"
  using neutral_class_ids [of "ns_classes ns" 1]
  by (intro neutralI) (simp add: generate_class_ids_def plain_char_def)

lemma scan_proxy_lifetime:
  "plain (cd_name c) \<Longrightarrow> scan (proxy_lifetime c) (Code, k) = Some (Code, CHR ''}'' # k)"
  by (simp add: proxy_lifetime_def bracket_simps)

lemma neutral_proxy_property: "plain n \<Longrightarrow> property_ok p \<Longrightarrow> neutral (proxy_property n p)"
  by (rule neutralI) (simp add: proxy_property_def property_ok_def bracket_simps)

lemma neutral_proxy_method: "plain n \<Longrightarrow> method_ok m \<Longrightarrow> neutral (proxy_method n m)"
  by (rule neutralI) (simp add: proxy_method_def method_ok_def bracket_simps)

lemma plain_more_params:
  "params_ok ps \<Longrightarrow> plain (more_params ps)"
  unfolding more_params_def each_def by (rule plain_concat) (auto simp: params_ok_def plain_char_def)

lemma neutral_proxy_factory:
  "plain n \<Longrightarrow> params_ok (ct_params (snd x)) \<Longrightarrow> neutral (proxy_factory n x)"
  by (cases x, rule neutralI) (simp add: proxy_factory_def bracket_simps plain_more_params)

lemma enumerate_snd: "x \<in> set (enumerate n xs) \<Longrightarrow> snd x \<in> set xs"
  by (metis enumerate_eq_zip prod.collapse set_zip_rightD)

lemma neutral_class_proxy:
  assumes "class_ok c"
  shows "neutral (generate_class_proxy c)"
proof (rule neutralI)
  fix k
  have "neutral (each (proxy_factory (cd_name c)) (enumerate 0 (cd_constructors c)))"
    using assms by (intro neutral_each neutral_proxy_factory) (auto simp: class_ok_def dest: enumerate_snd)
  with assms show "scan (generate_class_proxy c) (Code, k) = Some (Code, k)"
    by (simp add: generate_class_proxy_def class_ok_def bracket_simps scan_proxy_lifetime neutral_proxy_property
        neutral_proxy_method)
qed

lemma plain_upper: "plain n \<Longrightarrow> plain (map to_upper n)"
proof -
  have *: "\<forall>k \<in> set [97..<123]. plain_char (char_of (k - 32))" by code_simp
  have "plain_char (char_of (k - 32))" if "97 \<le> k" "k \<le> 122" for k :: nat
  proof -
    have "k < 123" using that by linarith
    with that(1) have "k \<in> set [97..<123]" by (simp only: set_upt atLeastLessThan_iff)
    with * show ?thesis by blast
  qed
  then have "plain_char (to_upper c)" if "plain_char c" for c
    using that by (simp add: to_upper_def Let_def)
  then show "plain n \<Longrightarrow> plain (map to_upper n)" by (auto simp: plain_def)
qed

lemma neutral_skeleton_property: "plain n \<Longrightarrow> property_ok p \<Longrightarrow> neutral (skeleton_property n p)"
  by (rule neutralI) (simp add: skeleton_property_def property_ok_def bracket_simps)

lemma neutral_class_skeleton:
  assumes "class_ok c"
  shows "neutral (generate_class_skeleton c)"
proof (rule neutralI)
  fix k
  have b: "plain (case cd_base c of Some b \<Rightarrow> b @ ''Base'' | None \<Rightarrow> ''song::Object'')"
    using assms by (auto simp: class_ok_def plain_char_def split: option.splits)
  have p: "neutral (each (\<lambda>p. line [''    '', type_to_cpp (pr_type p), '' '', pr_name p, ''_{};'']) (cd_properties c))"
    using assms by (intro neutral_each neutralI) (simp add: class_ok_def property_ok_def bracket_simps)
  have m: "neutral (each (\<lambda>m. emit_doc (md_doc m) ''    '' []
        @ line [''    virtual '', type_to_cpp (md_return m), '' '', md_name m, ''('', generate_method_params (md_params m), '') = 0;''])
        (cd_methods c))"
    using assms by (intro neutral_each neutralI) (simp add: class_ok_def method_ok_def bracket_simps)
  show "scan (generate_class_skeleton c) (Code, k) = Some (Code, k)"
    using assms b p m
    by (simp add: generate_class_skeleton_def class_ok_def bracket_simps plain_upper neutral_skeleton_property
        del: neutral_open)
qed

lemma scan_delegate:
  assumes "class_ok c" "neutral call" "plain error" "plain i"
  shows "scan (delegate c call error i) (Code, CHR ''}'' # CHR ''}'' # k) = Some (Code, k)"
  using assms by (cases "cd_base c") (simp_all add: delegate_def class_ok_def plain_char_def)

lemma scan_getter:
  assumes "property_ok p" "plain b"
  shows "scan (encode_call (pr_type p) (''get_'' @ pr_name p @ ''()'') b) (Code, k) = Some (Code, k)"
proof -
  have "neutral (''get_'' @ pr_name p @ ''()'')"
    using assms by (intro neutralI) (simp add: property_ok_def plain_char_def)
  with assms show ?thesis by (simp add: property_ok_def del: append_Cons neutral_open)
qed

lemma neutral_class_dispatcher:
  assumes "class_ok c"
  shows "neutral (generate_class_dispatcher c)"
proof (rule neutralI)
  fix k
  let ?n = "cd_name c"
  have g: "neutral (each (\<lambda>p. line [''        case kProp_'', ?n, ''_'', pr_name p, '': {'']
        @ line [''            '', encode_call (pr_type p) (''get_'' @ pr_name p @ ''()'') ''resp'', '';'']
        @ line [''            break;'']
        @ line [''        }'']) (cd_properties c))"
    using assms by (intro neutral_each neutralI)
      (simp add: class_ok_def property_ok_def [of p for p] bracket_simps scan_getter [simplified property_ok_def, simplified]
        del: neutral_open)
  have s: "neutral (each (\<lambda>p. line [''        case kProp_'', ?n, ''_'', pr_name p, '': {'']
        @ line [''            auto value = '', decode_call (pr_type p) ''req'', '';'']
        @ line [''            set_'', pr_name p, ''(value);'']
        @ line [''            '', encode_call (pr_type p) (''get_'' @ pr_name p @ ''()'') ''resp'', '';'']
        @ line [''            break;'']
        @ line [''        }'']) (filter (\<lambda>p. \<not> pr_readonly p) (cd_properties c)))"
    using assms by (intro neutral_each neutralI)
      (simp add: class_ok_def property_ok_def [of p for p] bracket_simps scan_getter [simplified property_ok_def, simplified]
        del: neutral_open)
  have d: "neutral (each (dispatch_case ?n [] ''req'' ''resp'') (cd_methods c))"
    using assms by (intro neutral_each neutral_dispatch_case) (simp_all add: class_ok_def plain_char_def)
  have calls: "neutral ''prop_get(prop_id, resp)''" "neutral ''prop_set(prop_id, req, resp)''"
      "neutral ''dispatch(method_id, req, resp)''"
    by (rule neutralI; simp)+
  show "scan (generate_class_dispatcher c) (Code, k) = Some (Code, k)"
    using assms g s d calls
    by (simp add: generate_class_dispatcher_def class_ok_def [of c] bracket_simps scan_delegate del: neutral_open)
qed

lemma neutral_factory_case:
  "plain n \<Longrightarrow> params_ok (ct_params (snd x)) \<Longrightarrow> neutral (factory_case n x)"
  by (cases x, rule neutralI) (simp add: factory_case_def bracket_simps)

lemma neutral_class_factory:
  assumes "class_ok c"
  shows "neutral (generate_class_factory c)"
proof (rule neutralI)
  fix k
  have "neutral (each (factory_case (cd_name c)) (enumerate 0 (cd_constructors c)))"
    using assms by (intro neutral_each neutral_factory_case) (auto simp: class_ok_def dest: enumerate_snd)
  with assms show "scan (generate_class_factory c) (Code, k) = Some (Code, k)"
    by (simp add: generate_class_factory_def class_ok_def bracket_simps)
qed

subsection \<open>The header\<close>

lemmas generators_neutral = neutral_struct_def neutral_struct_encode neutral_struct_decode neutral_enum_codecs
  neutral_enum_name neutral_enum_def neutral_service_proxy neutral_service_interface neutral_service_dispatcher
  neutral_class_proxy neutral_class_skeleton neutral_class_dispatcher neutral_class_factory

lemma neutral_then_newline: "neutral s \<Longrightarrow> neutral (s @ newline)"
  by simp

lemma neutral_each_newline: "(\<And>x. x \<in> set xs \<Longrightarrow> neutral (f x)) \<Longrightarrow> neutral (each (\<lambda>x. f x @ newline) xs)"
  by (rule neutral_each, rule neutral_then_newline)

lemma neutral_header_parts:
  assumes "namespace_ok ns"
  shows "neutral (header_forward ns)" "neutral (header_enums ns)" "neutral (header_structs ns)"
    "neutral (header_services ns)" "neutral (header_classes ns)"
proof -
  note ok = assms [unfolded namespace_ok_def]
  have new: "neutral (if b then [] else newline)" for b by (simp add: neutral_plain)
  show "neutral (header_forward ns)" unfolding header_forward_def
    by (intro neutral_append neutral_each new) (use ok in \<open>simp_all add: struct_ok_def class_ok_def plain_char_def\<close>)
  show "neutral (header_enums ns)" unfolding header_enums_def generate_enum_array_encode_def generate_enum_array_decode_def
    by (intro neutral_append neutral_each neutral_newline generators_neutral neutral_array_helpers)
      (use ok in \<open>simp_all add: enum_ok_def\<close>)
  show "neutral (header_services ns)" unfolding header_services_def
    by (intro neutral_append neutral_each neutral_newline generators_neutral) (use ok in simp_all)
  show "neutral (header_classes ns)" unfolding header_classes_def
    by (intro neutral_append neutral_each neutral_newline generators_neutral) (use ok in simp_all)
  have "neutral (each (\<lambda>s. generate_struct_def s @ newline) (ns_structs ns))"
    "neutral (each (\<lambda>s. generate_struct_encode s @ newline @ generate_struct_decode s @ newline) (ns_structs ns))"
    "neutral (each (\<lambda>s. generate_struct_array_encode s @ newline @ generate_struct_array_decode s @ newline) (ns_structs ns))"
    unfolding generate_struct_array_encode_def generate_struct_array_decode_def
    by (intro neutral_append neutral_each neutral_newline generators_neutral neutral_array_helpers;
        use ok in \<open>simp add: struct_ok_def\<close>)+
  moreover have "neutral (each (\<lambda>s. line [''inline void encode_array_'', sd_name s, ''(Buffer& buf, const std::vector<'', sd_name s, ''>& arr);'']
            @ line [''inline std::vector<'', sd_name s, ''> decode_array_'', sd_name s, ''(Buffer& buf);'']) (ns_structs ns))"
    using ok by (intro neutral_each) (simp add: struct_ok_def plain_char_def)
  moreover have "neutral (line [''// Forward declare array helpers''])" "neutral (line [''// Serialization''])"
    by (simp_all add: plain_char_def)
  ultimately show "neutral (header_structs ns)" unfolding header_structs_def
    by (intro neutral_append neutral_if neutral_newline neutral_Nil)
qed

text \<open>Whatever the interface file, the generated header is well bracketed C++: every brace,
  parenthesis and bracket outside comments and string literals is closed by its partner, no
  string literal runs over the end of its line and the text ends outside of all of them, so
  no documentation comment ever leaks into the code. It is assumed of names that they have
  no bracket, slash, quote, backslash or newline, and of comments that no line of
  them ends in a backslash, which would splice the next line of code into the comment.\<close>

lemma well_bracketed_header:
  assumes "namespace_ok ns"
  shows "well_bracketed (generate_header ns)"
proof -
  have "neutral (if ns_services ns = [] then [] else generate_service_ids ns)"
    "neutral (if ns_classes ns = [] then [] else generate_class_ids ns)"
    using assms by (simp_all add: namespace_ok_def neutral_service_ids neutral_generate_class_ids neutral_plain)
  moreover have "plain (ns_name ns)" using assms by (simp add: namespace_ok_def)
  ultimately have "scan (generate_header ns) (Code, []) = Some (Code, [])"
    using neutral_header_parts [OF assms]
    by (simp add: generate_header_def plain_char_def del: neutral_open scan_if)
  then show ?thesis by (simp add: well_bracketed_def)
qed

text \<open>The four files of the split mode have the same property.\<close>

lemma well_bracketed_split:
  assumes "namespace_ok ns"
  shows "well_bracketed (generate_types_header ns)" "well_bracketed (generate_wire_impl ns)"
    "well_bracketed (generate_client_header ns)" "well_bracketed (generate_server_header ns)"
proof -
  note ok = assms [unfolded namespace_ok_def]
  have name: "plain (ns_name ns)" and ids: "neutral (generate_service_ids ns)" using ok by (simp_all add: neutral_service_ids)
  have forward: "neutral (each (\<lambda>s. line [''struct '', sd_name s, '';'']) (ns_structs ns))"
    "neutral (each (\<lambda>s. line [''void encode_'', sd_name s, ''(Buffer& buf, const '', sd_name s, ''& val);'']
        @ line [sd_name s, '' decode_'', sd_name s, ''(Buffer& buf);'']) (ns_structs ns))"
    using ok by (intro neutral_each; simp add: struct_ok_def plain_char_def neutral_plain)+
  have gap: "neutral (if ns_structs ns = [] then [] else newline)" by (simp add: neutral_plain)
  have defs: "neutral (each (\<lambda>e. generate_enum_def e @ newline) (ns_enums ns))"
    "neutral (each (\<lambda>s. generate_struct_def s @ newline) (ns_structs ns))"
    "neutral (each (\<lambda>s. generate_struct_encode s @ newline @ generate_struct_decode s @ newline) (ns_structs ns))"
    "neutral (each (\<lambda>s. generate_service_proxy s @ newline) (ns_services ns))"
    "neutral (each (\<lambda>s. generate_service_interface s @ newline @ generate_service_dispatcher s @ newline) (ns_services ns))"
    by (intro neutral_append neutral_each neutral_newline generators_neutral; use ok in simp)+
  have codecs: "neutral (each (\<lambda>e. generate_enum_encode e @ newline @ generate_enum_decode e @ newline
        @ generate_enum_array_encode e @ newline @ generate_enum_array_decode e @ newline) (ns_enums ns))"
    unfolding generate_enum_array_encode_def generate_enum_array_decode_def
    by (intro neutral_append neutral_each neutral_newline generators_neutral neutral_array_helpers)
      (use ok in \<open>simp_all add: enum_ok_def\<close>)
  have "scan (generate_types_header ns) (Code, []) = Some (Code, [])"
    using name forward gap defs codecs by (simp add: generate_types_header_def plain_char_def del: neutral_open scan_if)
  moreover have "scan (generate_wire_impl ns) (Code, []) = Some (Code, [])"
    using name defs by (simp add: generate_wire_impl_def plain_char_def quote_def del: neutral_open scan_if)
  moreover have "scan (generate_client_header ns) (Code, []) = Some (Code, [])"
    using name ids defs by (simp add: generate_client_header_def plain_char_def quote_def del: neutral_open scan_if)
  moreover have "scan (generate_server_header ns) (Code, []) = Some (Code, [])"
    using name ids defs by (simp add: generate_server_header_def plain_char_def quote_def del: neutral_open scan_if)
  ultimately show "well_bracketed (generate_types_header ns)" "well_bracketed (generate_wire_impl ns)"
    "well_bracketed (generate_client_header ns)" "well_bracketed (generate_server_header ns)"
    by (simp_all add: well_bracketed_def)
qed

text \<open>A line of a comment that ends in a backslash takes the next line of code with it.\<close>

lemma doc_backslash_takes_next_line:
  "scan (emit_doc [CHR 0x5C] [] [] @ line [''int x = (1'']) (Code, k) = Some (Code, k)"
  by (simp add: emit_doc_def newline_def)

section \<open>Enum names\<close>

text \<open>The values of the items as C++ assigns them.\<close>

fun enum_values :: "enum_item list \<Rightarrow> i64 \<Rightarrow> i64 list" where
  "enum_values [] next_value = []"
| "enum_values (item # items) next_value =
    (let v = (case ei_value item of Some v \<Rightarrow> v | None \<Rightarrow> next_value) in v # enum_values items (v + 1))"

lemma enum_cases_values:
  "distinct (map snd (enum_cases items seen v)) \<and> snd ` set (enum_cases items seen v) = set (enum_values items v) - set seen"
  by (induction items seen v rule: enum_cases.induct) (auto simp: Let_def)

lemma enum_cases_first:
  "enum_cases items seen v = map (\<lambda>i. (items ! i, enum_values items v ! i))
     (filter (\<lambda>i. enum_values items v ! i \<notin> set seen \<union> set (take i (enum_values items v))) [0..<length items])"
proof (induction items seen v rule: enum_cases.induct)
  case (2 item items seen v)
  define w where "w = (case ei_value item of Some v \<Rightarrow> v | None \<Rightarrow> v)"
  have upt: "[0..<Suc n] = 0 # map Suc [0..<n]" for n
    by (simp add: map_Suc_upt upt_conv_Cons del: upt_Suc)
  show ?case
  proof (cases "w \<in> set seen")
    case True
    then have "a \<notin> set seen \<and> a \<noteq> w \<and> q \<longleftrightarrow> a \<notin> set seen \<and> q" for a q by auto
    with True show ?thesis
      using 2(1) [OF w_def] by (simp add: w_def [symmetric] Let_def upt filter_map comp_def del: upt_Suc)
  next
    case False
    have "a \<noteq> w \<and> a \<notin> set seen \<and> q \<longleftrightarrow> a \<notin> set seen \<and> a \<noteq> w \<and> q" for a q by auto
    with False show ?thesis
      using 2(2) [OF w_def] by (simp add: w_def [symmetric] Let_def upt filter_map comp_def del: upt_Suc)
  qed
qed simp

text \<open>The switch of the generated name function of an enum is legal and complete: no two of
  its cases have the same value, every value that an item has is the value of a case, and the
  cases are the items, in their order, whose value no item before them has.\<close>

theorem enum_switch_legal:
  "distinct (map snd (enum_cases items [] 0)) \<and> snd ` set (enum_cases items [] 0) = set (enum_values items 0)
    \<and> enum_cases items [] 0 = map (\<lambda>i. (items ! i, enum_values items 0 ! i))
        (filter (\<lambda>i. enum_values items 0 ! i \<notin> set (take i (enum_values items 0))) [0..<length items])"
  using enum_cases_values [of items "[]" 0] enum_cases_first [of items "[]" 0] by simp

section \<open>What the generated code loses\<close>

text \<open>The base of a struct appears nowhere in the generated code, so the fields it inherits are neither
  members nor sent.\<close>

lemma struct_base_ignored:
  "generate_struct_def (s\<lparr>sd_base := b\<rparr>) = generate_struct_def s"
  "generate_struct_encode (s\<lparr>sd_base := b\<rparr>) = generate_struct_encode s"
  "generate_struct_decode (s\<lparr>sd_base := b\<rparr>) = generate_struct_decode s"
  by (simp_all add: generate_struct_def_def generate_struct_encode_def generate_struct_decode_def)

text \<open>Every class counts its methods and properties from one, derived ones too; the dispatcher of a
  derived class handles its own numbers before it asks the base, so it never reaches the
  methods of the base that have the same numbers.\<close>

lemma inherited_numbers_clash:
  assumes "cd_methods c \<noteq> []" "cd_methods b \<noteq> []"
  shows "snd (hd (class_methods c)) = snd (hd (class_methods b))"
  using assms by (cases "cd_methods c"; cases "cd_methods b") (simp_all add: class_methods_def)

text \<open>Two methods of different services can get the same constant, since names contain underscores.\<close>

lemma method_constants_clash: "method_constant ''a'' ''b_c'' = method_constant ''a_b'' ''c''"
  by (simp add: method_constant_def)

section \<open>Examples\<close>

definition no_loc :: source_loc where
  "no_loc = \<lparr>loc_line = 1, loc_column = 1, loc_file = []\<rparr>"

definition plain_type :: "base_type \<Rightarrow> idl_type" where
  "plain_type b = \<lparr>ty_base = b, ty_is_array = False, ty_is_optional = False, ty_dims = 0\<rparr>"

definition demo_method_def :: "string \<Rightarrow> bool \<Rightarrow> method_def" where
  "demo_method_def n stream = \<lparr>md_name = n, md_params = [\<lparr>pm_name = ''id'', pm_type = plain_type (Primitive PI32), pm_loc = no_loc\<rparr>],
     md_return = plain_type (User ''point''), md_is_optional = False, md_is_stream = stream, md_throws = [],
     md_doc = ''Find {one'', md_loc = no_loc\<rparr>"

definition demo_namespace :: namespace_def where
  "demo_namespace = \<lparr>ns_name = ''geo'', ns_enums = [], ns_structs = [\<lparr>sd_name = ''point'', sd_base = None,
       sd_fields = [\<lparr>fd_name = ''x'', fd_type = (plain_type (Primitive PI32))\<lparr>ty_is_optional := True\<rparr>, fd_doc = [], fd_loc = no_loc\<rparr>],
       sd_doc = ''A point'', sd_loc = no_loc\<rparr>], ns_classes = [],
     ns_services = [\<lparr>sv_name = ''map'', sv_methods = [demo_method_def ''find'' False, demo_method_def ''watch'' True],
       sv_doc = [], sv_loc = no_loc\<rparr>], ns_errors = [], ns_loc = no_loc\<rparr>"

theorem generated_ids_distinct_witness:
  "map snd (all_service_numbers 1 (ns_services demo_namespace)) = [1, 2]
    \<and> sublist (constexpr ''u16'' (''kService_map_Stream'', 2 :: u16)) (generate_service_ids demo_namespace)"
proof -
  have n: "all_service_numbers 1 (ns_services demo_namespace) = [(''kService_map'', 1), (''kService_map_Stream'', 2)]"
    by (simp add: demo_namespace_def demo_method_def_def has_stream_def service_numbers_def service_constant_def
        stream_constant_def)
  have "length (concat (map (\<lambda>s. service_constant s # (if has_stream s then [stream_constant s] else [])) (ns_services demo_namespace))) < 65536"
    and "\<forall>s \<in> set (ns_services demo_namespace). length (sv_methods s) < 65536"
    by (simp_all add: demo_namespace_def has_stream_def)
  from generated_ids_distinct [OF this] n show ?thesis by simp
qed

end
