(* ===== verification/Song_Python_Codegen.thy ===== *)
theory Song_Python_Codegen
  imports Song_Codegen
begin

text \<open>
  The Python generator of the interface compiler (\<^verbatim>\<open>compiler/python_codegen.cpp\<close>), with the output
  helpers of \<open>Song_Codegen\<close>. It writes an encode call for a buffer named \<^verbatim>\<open>req\<close> and, where the
  buffer has another name, replaces these letters in the finished text.
  The lemmas: what the replacement does, and where the numbers of the generated module are
  those of the generated C++ header.
\<close>

section \<open>Types\<close>

fun primitive_to_python :: "primitive_type \<Rightarrow> string" where
  "primitive_to_python PBool = ''bool''"
| "primitive_to_python PI8 = ''int''"
| "primitive_to_python PI16 = ''int''"
| "primitive_to_python PI32 = ''int''"
| "primitive_to_python PI64 = ''int''"
| "primitive_to_python PU8 = ''int''"
| "primitive_to_python PU16 = ''int''"
| "primitive_to_python PU32 = ''int''"
| "primitive_to_python PU64 = ''int''"
| "primitive_to_python PF32 = ''float''"
| "primitive_to_python PF64 = ''float''"
| "primitive_to_python PString = ''str''"
| "primitive_to_python PBytes = ''bytes''"
| "primitive_to_python PVoid = ''None''"

definition type_to_python :: "idl_type \<Rightarrow> string" where
  "type_to_python t =
    (let base_type = (case ty_base t of Primitive p \<Rightarrow> primitive_to_python p | User n \<Rightarrow> n);
         dims = (if ty_dims t > 0 then ty_dims t else 1)
     in if ty_is_array t then concat (replicate dims ''list['') @ base_type @ concat (replicate dims '']'')
        else if ty_is_optional t then ''Optional['' @ base_type @ '']''
        else base_type)"

definition type_to_type_hint :: "idl_type \<Rightarrow> string" where
  "type_to_type_hint t = type_to_python t"

text \<open>The array helpers that the Python buffer has.\<close>

fun array_helper :: "primitive_type \<Rightarrow> string option" where
  "array_helper PI32 = Some ''i32''"
| "array_helper PI64 = Some ''i64''"
| "array_helper PString = Some ''string''"
| "array_helper p = None"

definition array_helper_of :: "idl_type \<Rightarrow> string option" where
  "array_helper_of elem = (case ty_base elem of
      Primitive p \<Rightarrow> (if ty_is_array elem then None else array_helper p) | User n \<Rightarrow> None)"

text \<open>The length of an array and the head of the loop over its elements.\<close>

definition python_loop :: "string \<Rightarrow> string \<Rightarrow> string" where
  "python_loop expr indent =
    line [''req.encode_u32(len('', expr, ''))''] @ line [indent, ''for _item in '', expr, '':''] @ indent @ ''    ''"

definition type_size :: "idl_type \<Rightarrow> nat" where
  "type_size t = (if ty_is_array t then Suc (ty_dims t) else 0) + (if ty_is_optional t then 1 else 0)"

lemma element_type_smaller: "ty_is_array t \<Longrightarrow> type_size (element_type t) < type_size t"
  by (auto simp: type_size_def element_type_def Let_def)

lemma inner_type_smaller: "ty_is_optional t \<Longrightarrow> type_size (t\<lparr>ty_is_optional := False\<rparr>) < type_size t"
  by (auto simp: type_size_def)

function python_encode_call :: "idl_type \<Rightarrow> string \<Rightarrow> string \<Rightarrow> string" where
  "python_encode_call t expr indent =
    (if ty_is_array t
     then (let elem = element_type t in case array_helper_of elem of
         Some h \<Rightarrow> ''req.encode_array_'' @ h @ ''('' @ expr @ '')''
       | None \<Rightarrow>
         if \<not> is_primitive elem \<and> \<not> ty_is_array elem
         then python_loop expr indent @ ''encode_'' @ user_type elem @ ''(req, _item)''
         else python_loop expr indent @ python_encode_call elem ''_item'' (indent @ ''    ''))
     else if ty_is_optional t
     then ''req.encode_optional('' @ expr @ '', lambda b, v: ''
       @ python_encode_call (t\<lparr>ty_is_optional := False\<rparr>) ''v'' ''        '' @ '')''
     else (case ty_base t of
         Primitive p \<Rightarrow> (if p = PVoid then [] else ''req.encode_'' @ primitive_to_string p @ ''('' @ expr @ '')'')
       | User n \<Rightarrow> ''encode_'' @ n @ ''(req, '' @ expr @ '')''))"
  by pat_completeness auto
termination
  by (relation "measure (\<lambda>(t, e, i). type_size t)") (auto intro: element_type_smaller inner_type_smaller)

function python_decode_call :: "idl_type \<Rightarrow> string" where
  "python_decode_call t =
    (if ty_is_array t
     then (let elem = element_type t in case array_helper_of elem of
         Some h \<Rightarrow> ''resp.decode_array_'' @ h @ ''()''
       | None \<Rightarrow>
         if \<not> is_primitive elem \<and> \<not> ty_is_array elem
         then ''[decode_'' @ user_type elem @ ''(resp) for _ in range(resp.decode_u32())]''
         else ''['' @ python_decode_call elem @ '' for _ in range(resp.decode_u32())]'')
     else if ty_is_optional t
     then ''resp.decode_optional(lambda b: '' @ python_decode_call (t\<lparr>ty_is_optional := False\<rparr>) @ '')''
     else (case ty_base t of
         Primitive p \<Rightarrow> (if p = PVoid then [] else ''resp.decode_'' @ primitive_to_string p @ ''()'')
       | User n \<Rightarrow> ''decode_'' @ n @ ''(resp)''))"
  by pat_completeness auto
termination
  by (relation "measure type_size") (auto intro: element_type_smaller inner_type_smaller)

declare python_encode_call.simps [simp del] and python_decode_call.simps [simp del]

section \<open>Structs\<close>

text \<open>The loop over \<^verbatim>\<open>find\<close> and \<^verbatim>\<open>replace\<close>, which goes on behind what it has put in.\<close>

fun replace_all :: "string \<Rightarrow> string \<Rightarrow> string \<Rightarrow> string" where
  "replace_all old new [] = []"
| "replace_all old new (c # cs) =
    (if take (length old) (c # cs) = old then new @ replace_all old new (drop (length old - 1) cs)
     else c # replace_all old new cs)"

definition doc_string :: "string \<Rightarrow> string \<Rightarrow> string" where
  "doc_string indent doc = line [indent, quote, quote, quote, doc, quote, quote, quote]"

definition python_field :: "field_def \<Rightarrow> string" where
  "python_field f = line [''    '', fd_name f, '': '', type_to_type_hint (fd_type f),
     if ty_is_optional (fd_type f) then '' = None'' else []]"

definition python_field_encode :: "field_def \<Rightarrow> string" where
  "python_field_encode f =
    line [''    '', replace_all ''req'' ''buf'' (python_encode_call (fd_type f) (''val.'' @ fd_name f) ''    '')]"

fun python_field_decodes :: "field_def list \<Rightarrow> string" where
  "python_field_decodes [] = []"
| "python_field_decodes (f # fs) =
    line [''        '', fd_name f, ''='', replace_all ''resp'' ''buf'' (python_decode_call (fd_type f)),
      if fs = [] then [] else '','']
    @ python_field_decodes fs"

definition python_struct_def :: "struct_def \<Rightarrow> string" where
  "python_struct_def s =
    line [''@dataclass'']
    @ line [''class '', sd_name s, '':'']
    @ (if sd_doc s = [] then [] else doc_string ''    '' (sd_doc s))
    @ (if sd_fields s = [] then line [''    pass''] else each python_field (sd_fields s))
    @ newline
    @ line [''def encode_'', sd_name s, ''(buf: Buffer, val: '', sd_name s, '') -> None:'']
    @ doc_string ''    '' (''Encode '' @ sd_name s @ '' to buffer.'')
    @ each python_field_encode (sd_fields s)
    @ newline
    @ line [''def decode_'', sd_name s, ''(buf: Buffer) -> '', sd_name s, '':'']
    @ doc_string ''    '' (''Decode '' @ sd_name s @ '' from buffer.'')
    @ line [''    return '', sd_name s, ''('']
    @ python_field_decodes (sd_fields s)
    @ line [''    )'']"

section \<open>Enums\<close>

text \<open>Every item is written with its value. (The overflow of the next value wraps here.)\<close>

fun python_enum_items :: "enum_item list \<Rightarrow> i64 \<Rightarrow> string" where
  "python_enum_items [] next_value = []"
| "python_enum_items (item # items) next_value = (case ei_value item of
      Some v \<Rightarrow> line [''    '', ei_name item, '' = '', int_string (sint v)] @ python_enum_items items (v + 1)
    | None \<Rightarrow> line [''    '', ei_name item, '' = '', int_string (sint next_value)]
        @ python_enum_items items (next_value + 1))"

definition python_enum_def :: "enum_def \<Rightarrow> string" where
  "python_enum_def e =
    line [''class '', ed_name e, ''(IntEnum):'']
    @ (if ed_doc e = [] then [] else doc_string ''    '' (ed_doc e))
    @ python_enum_items (ed_items e) 0"

section \<open>Services\<close>

definition python_constant :: "string \<times> u16 \<Rightarrow> string" where
  "python_constant c = line [fst c, '' = '', number (snd c)]"

definition python_service_constant :: "service_def \<Rightarrow> string" where
  "python_service_constant s = ''SERVICE_'' @ sv_name s"

definition python_method_constant :: "service_def \<Rightarrow> method_def \<Rightarrow> string" where
  "python_method_constant s m = ''METHOD_'' @ sv_name s @ ''_'' @ md_name m"

definition python_methods :: "service_def \<Rightarrow> (string \<times> u16) list" where
  "python_methods s = numbered 1 (map (python_method_constant s) (sv_methods s))"

fun python_services_from :: "u16 \<Rightarrow> service_def list \<Rightarrow> string" where
  "python_services_from service_id [] = []"
| "python_services_from service_id (s # ss) =
    python_constant (python_service_constant s, service_id)
    @ each python_constant (python_methods s)
    @ newline
    @ python_services_from (service_id + 1) ss"

definition python_service_ids :: "namespace_def \<Rightarrow> string" where
  "python_service_ids ns = line [''# Service and method IDs''] @ python_services_from 1 (ns_services ns)"

definition python_method_params :: "param list \<Rightarrow> string" where
  "python_method_params params = each (\<lambda>p. '', '' @ pm_name p @ '': '' @ type_to_type_hint (pm_type p)) params"

definition python_method :: "service_def \<Rightarrow> method_def \<Rightarrow> string" where
  "python_method s m =
    line [''    def '', md_name m, ''(self'', python_method_params (md_params m), '') -> '', type_to_type_hint (md_return m), '':'']
    @ (if md_doc m = [] then [] else doc_string ''        '' (md_doc m))
    @ line [''        req = Buffer()'']
    @ each (\<lambda>p. line [''        '', python_encode_call (pm_type p) (pm_name p) ''        '']) (md_params m)
    @ line [''        resp = self._conn.call('', python_service_constant s, '', '', python_method_constant s m, '', req)'']
    @ (if is_void (md_return m) then [] else line [''        return '', python_decode_call (md_return m)])
    @ newline"

definition python_service_proxy :: "service_def \<Rightarrow> string" where
  "python_service_proxy s =
    line [''class '', sv_name s, ''Proxy:'']
    @ doc_string ''    '' (if sv_doc s \<noteq> [] then sv_doc s else ''Client proxy for '' @ sv_name s @ '' service.'')
    @ newline
    @ line [''    def __init__(self, conn: ServiceConnection):'']
    @ line [''        self._conn = conn'']
    @ newline
    @ each (python_method s) (sv_methods s)"

section \<open>The module\<close>

definition generate_module :: "namespace_def \<Rightarrow> string" where
  "generate_module ns =
    line [''# Generated by songc - DO NOT EDIT'']
    @ line [''# Source: '', ns_name ns, ''.song''] @ newline
    @ line [''from dataclasses import dataclass'']
    @ line [''from enum import IntEnum'']
    @ line [''from typing import Optional, List'']
    @ newline
    @ line [''from song.buffer import Buffer'']
    @ line [''from song.connection import ServiceConnection'']
    @ newline @ newline
    @ (if ns_services ns = [] then [] else python_service_ids ns @ newline)
    @ each (\<lambda>e. python_enum_def e @ newline @ newline) (ns_enums ns)
    @ each (\<lambda>s. python_struct_def s @ newline @ newline) (ns_structs ns)
    @ each (\<lambda>s. python_service_proxy s @ newline) (ns_services ns)"

definition generate_client :: "namespace_def \<Rightarrow> string" where
  "generate_client ns = generate_module ns"

section \<open>The replacement\<close>

lemma replace_all_skip: "set xs \<inter> set old = {} \<Longrightarrow> old \<noteq> [] \<Longrightarrow> replace_all old new (xs @ ys) = xs @ replace_all old new ys"
  by (induction xs) (auto simp: neq_Nil_conv)

lemma take_match_before:
  assumes "c \<notin> set old"
  shows "take (length old) (xs @ c # ys) = old \<longleftrightarrow> take (length old) xs = old"
proof
  assume match: "take (length old) (xs @ c # ys) = old"
  have "length old \<le> length xs"
  proof (rule ccontr)
    assume "\<not> length old \<le> length xs"
    then have "c \<in> set (take (length old) (xs @ c # ys))" by (auto simp: take_Cons' split: if_splits)
    with match assms show False by simp
  qed
  with match show "take (length old) xs = old" by simp
next
  assume match: "take (length old) xs = old"
  then have "length old \<le> length xs" by (metis nat_le_linear take_all)
  with match show "take (length old) (xs @ c # ys) = old" by simp
qed

text \<open>The replacement does not reach across a character that the searched text does not contain.\<close>

lemma replace_all_separator:
  assumes "c \<notin> set old" "old \<noteq> []"
  shows "replace_all old new (xs @ c # ys) = replace_all old new xs @ c # replace_all old new ys"
  using assms
proof (induction old new xs rule: replace_all.induct)
  case (1 old new)
  then have "take (length old) (c # ys) \<noteq> old" by (cases old) auto
  then show ?case by simp
next
  case (2 old new x xs)
  show ?case
  proof (cases "take (length old) (x # xs) = old")
    case True
    then have "length old \<le> Suc (length xs)" by (metis length_Cons nat_le_linear take_all)
    then have "length old - 1 \<le> length xs" by simp
    with 2(1) [OF True 2(3) 2(4)] True take_match_before [OF 2(3), of "x # xs" ys] show ?thesis by simp
  next
    case False
    with 2(2) [OF False 2(3) 2(4)] take_match_before [OF 2(3), of "x # xs" ys] show ?thesis by simp
  qed
qed

lemma replace_all_id_iff:
  assumes "old \<noteq> []" "new \<noteq> []" "hd new \<noteq> hd old"
  shows "replace_all old new s = s \<longleftrightarrow> \<not> sublist old s"
proof (induction s)
  case Nil
  then show ?case using assms by simp
next
  case (Cons c s)
  have "prefix old (c # s) \<longleftrightarrow> take (length old) (c # s) = old"
    by (metis append_eq_conv_conj prefix_def take_is_prefix)
  moreover have "new @ zs \<noteq> c # s" if "take (length old) (c # s) = old" for zs
    using that assms by (cases old; cases new) auto
  ultimately show ?case using Cons by (auto simp: sublist_Cons_right)
qed

lemma length_replace_all: "length new \<le> length old \<Longrightarrow> old \<noteq> [] \<Longrightarrow> length (replace_all old new s) \<le> length s"
proof (induction old new s rule: replace_all.induct)
  case (2 old new c cs)
  show ?case
  proof (cases "take (length old) (c # cs) = old")
    case True
    then have "length old \<le> Suc (length cs)" by (metis length_Cons nat_le_linear take_all)
    with 2(1) [OF True 2(3) 2(4)] True 2(3,4) show ?thesis by (cases old) auto
  qed (use 2 in simp)
qed simp

lemma length_replace_same: "length new = length old \<Longrightarrow> old \<noteq> [] \<Longrightarrow> length (replace_all old new s) = length s"
proof (induction old new s rule: replace_all.induct)
  case (2 old new c cs)
  show ?case
  proof (cases "take (length old) (c # cs) = old")
    case True
    then have "length old \<le> Suc (length cs)" by (metis length_Cons nat_le_linear take_all)
    with 2(1) [OF True 2(3) 2(4)] True 2(3,4) show ?thesis by (cases old) auto
  qed (use 2 in simp)
qed simp

text \<open>What the calls are to be: the reference has the name of the buffer as an argument.\<close>

definition encode_loop :: "string \<Rightarrow> string \<Rightarrow> string \<Rightarrow> string" where
  "encode_loop b expr indent = b @ ''.encode_u32(len('' @ expr @ ''))'' @ newline
     @ indent @ ''for _item in '' @ expr @ '':'' @ newline @ indent @ ''    ''"

function encode_into :: "string \<Rightarrow> idl_type \<Rightarrow> string \<Rightarrow> string \<Rightarrow> string" where
  "encode_into b t expr indent =
    (if ty_is_array t
     then (let elem = element_type t in case array_helper_of elem of
         Some h \<Rightarrow> b @ ''.encode_array_'' @ h @ ''('' @ expr @ '')''
       | None \<Rightarrow>
         if \<not> is_primitive elem \<and> \<not> ty_is_array elem
         then encode_loop b expr indent @ ''encode_'' @ user_type elem @ ''('' @ b @ '', _item)''
         else encode_loop b expr indent @ encode_into b elem ''_item'' (indent @ ''    ''))
     else if ty_is_optional t
     then b @ ''.encode_optional('' @ expr @ '', lambda b, v: ''
       @ encode_into b (t\<lparr>ty_is_optional := False\<rparr>) ''v'' ''        '' @ '')''
     else (case ty_base t of
         Primitive p \<Rightarrow> (if p = PVoid then [] else b @ ''.encode_'' @ primitive_to_string p @ ''('' @ expr @ '')'')
       | User n \<Rightarrow> ''encode_'' @ n @ ''('' @ b @ '', '' @ expr @ '')''))"
  by pat_completeness auto
termination
  by (relation "measure (\<lambda>(b, t, e, i). type_size t)") (auto intro: element_type_smaller inner_type_smaller)

function decode_from :: "string \<Rightarrow> idl_type \<Rightarrow> string" where
  "decode_from b t =
    (if ty_is_array t
     then (let elem = element_type t in case array_helper_of elem of
         Some h \<Rightarrow> b @ ''.decode_array_'' @ h @ ''()''
       | None \<Rightarrow>
         if \<not> is_primitive elem \<and> \<not> ty_is_array elem
         then ''[decode_'' @ user_type elem @ ''('' @ b @ '') for _ in range('' @ b @ ''.decode_u32())]''
         else ''['' @ decode_from b elem @ '' for _ in range('' @ b @ ''.decode_u32())]'')
     else if ty_is_optional t
     then b @ ''.decode_optional(lambda b: '' @ decode_from b (t\<lparr>ty_is_optional := False\<rparr>) @ '')''
     else (case ty_base t of
         Primitive p \<Rightarrow> (if p = PVoid then [] else b @ ''.decode_'' @ primitive_to_string p @ ''()'')
       | User n \<Rightarrow> ''decode_'' @ n @ ''('' @ b @ '')''))"
  by pat_completeness auto
termination
  by (relation "measure (\<lambda>(b, t). type_size t)") (auto intro: element_type_smaller inner_type_smaller)

declare encode_into.simps [simp del] and decode_from.simps [simp del]

text \<open>A type with the replacement made in its name.\<close>

definition renamed :: "string \<Rightarrow> string \<Rightarrow> idl_type \<Rightarrow> idl_type" where
  "renamed old new t = (case ty_base t of
      User n \<Rightarrow> t\<lparr>ty_base := User (replace_all old new n)\<rparr> | Primitive p \<Rightarrow> t)"

lemma renamed_simps [simp]:
  "ty_is_array (renamed old new t) = ty_is_array t"
  "ty_is_optional (renamed old new t) = ty_is_optional t"
  "is_primitive (renamed old new t) = is_primitive t"
  "element_type (renamed old new t) = renamed old new (element_type t)"
  "array_helper_of (renamed old new t) = array_helper_of t"
  "(renamed old new t)\<lparr>ty_is_optional := False\<rparr> = renamed old new (t\<lparr>ty_is_optional := False\<rparr>)"
  "ty_base (renamed old new t) = (case ty_base t of User n \<Rightarrow> User (replace_all old new n) | Primitive p \<Rightarrow> Primitive p)"
  "user_type (renamed old new t) = replace_all old new (user_type t)"
  by (auto simp: renamed_def is_primitive_def element_type_def array_helper_of_def user_type_def Let_def
      split: base_type.splits)

lemma no_req [simp]:
  "replace_all ''req'' new (primitive_to_string p) = primitive_to_string p"
  "replace_all ''resp'' new (primitive_to_string p) = primitive_to_string p"
  by (cases p; simp)+

lemma array_helper_cases: "array_helper_of t = Some h \<Longrightarrow> h \<in> {''i32'', ''i64'', ''string''}"
  by (auto simp: array_helper_of_def elim: array_helper.elims split: base_type.splits if_splits)

lemma helper_unchanged [simp]:
  "array_helper_of t = Some h \<Longrightarrow> replace_all ''req'' new h = h"
  "array_helper_of t = Some h \<Longrightarrow> replace_all ''resp'' new h = h"
  by (auto dest: array_helper_cases)

lemmas replace_req = replace_all_separator [of _ "''req''" "''buf''", simplified]
  replace_all_skip [of _ "''req''" "''buf''", simplified]

lemma replace_encode_call:
  "set indent \<subseteq> {CHR '' ''} \<Longrightarrow> replace_all ''req'' ''buf'' (python_encode_call t expr indent)
    = encode_into ''buf'' (renamed ''req'' ''buf'' t) (replace_all ''req'' ''buf'' expr) indent"
proof (induction t expr indent rule: python_encode_call.induct)
  case (1 t expr indent)
  have indent: "replace_all ''req'' ''buf'' (indent @ s) = indent @ replace_all ''req'' ''buf'' s" for s
    using 1(3) by (intro replace_all_skip) auto
  show ?case
    by (subst python_encode_call.simps, subst encode_into.simps)
      (use 1 in \<open>auto simp: Let_def python_loop_def encode_loop_def line_def newline_def indent replace_req
        split: option.splits base_type.splits\<close>)
qed

lemmas replace_resp = replace_all_separator [of _ "''resp''" "''buf''", simplified]

lemma replace_decode_call:
  "replace_all ''resp'' ''buf'' (python_decode_call t) = decode_from ''buf'' (renamed ''resp'' ''buf'' t)"
proof (induction t rule: python_decode_call.induct)
  case (1 t)
  show ?case
    by (subst python_decode_call.simps, subst decode_from.simps)
      (use 1 in \<open>auto simp: Let_def replace_resp split: option.splits base_type.splits\<close>)
qed

text \<open>What is encoded and the type's name can be read off a call.\<close>

lemma user_type_simps [simp]:
  "user_type (element_type t) = user_type t" "is_void (element_type t) = is_void t"
  "user_type (t\<lparr>ty_is_optional := c\<rparr>) = user_type t" "is_void (t\<lparr>ty_is_optional := c\<rparr>) = is_void t"
  by (simp_all add: user_type_def is_void_def element_type_def Let_def)

lemma user_type_primitive [simp]: "is_primitive t \<Longrightarrow> user_type t = []" "array_helper_of t = Some h \<Longrightarrow> user_type t = []"
  by (auto simp: user_type_def is_primitive_def array_helper_of_def split: base_type.splits)

lemma encode_loop_inject:
  "length e' = length e \<Longrightarrow> encode_loop b e' i @ x = encode_loop b e i @ y \<longleftrightarrow> e' = e \<and> x = y"
  "length e' = length e \<Longrightarrow> encode_loop b e' i = encode_loop b e i \<longleftrightarrow> e' = e"
  by (auto simp: encode_loop_def newline_def)

lemma encode_into_inject:
  assumes "length e' = length e" "\<not> is_void t"
  shows "encode_into b (renamed ''req'' ''buf'' t) e' indent = encode_into b t e indent
    \<longleftrightarrow> e' = e \<and> replace_all ''req'' ''buf'' (user_type t) = user_type t"
  using assms
proof (induction b t e indent arbitrary: e' rule: encode_into.induct)
  case (1 b t e indent)
  have l: "length (replace_all ''req'' ''buf'' n) = length n" for n by (rule length_replace_same) simp_all
  show ?case
  proof (cases "ty_is_array t")
    case True
    let ?el = "element_type t" and ?r = "renamed ''req'' ''buf''"
    show ?thesis
    proof (cases "array_helper_of ?el")
      case (Some h)
      then have "user_type t = []" using user_type_primitive(2) by fastforce
      with Some True 1(3) show ?thesis by (simp add: encode_into.simps [of b _ _ indent])
    next
      case None
      show ?thesis
      proof (cases "\<not> is_primitive ?el \<and> \<not> ty_is_array ?el")
        case u: True
        with None True 1(3) l [of "user_type t"] show ?thesis
          by (simp add: encode_into.simps [of b _ _ indent] encode_loop_inject)
      next
        case u: False
        have "encode_into b (?r ?el) ''_item'' (indent @ ''    '') = encode_into b ?el ''_item'' (indent @ ''    '')
            \<longleftrightarrow> replace_all ''req'' ''buf'' (user_type t) = user_type t"
          using 1(1) [OF True refl None u, of "''_item''"] 1(4) by simp
        moreover have "encode_into b t e indent = encode_loop b e indent @ encode_into b ?el ''_item'' (indent @ ''    '')" for e
          using True None u by (subst encode_into.simps) (auto simp: Let_def)
        moreover have "encode_into b (?r t) e' indent = encode_loop b e' indent @ encode_into b (?r ?el) ''_item'' (indent @ ''    '')"
          using True None u by (subst encode_into.simps) (auto simp: Let_def)
        ultimately show ?thesis using 1(3) by (simp only: encode_loop_inject)
      qed
    qed
  next
    case False
    note arr = this
    show ?thesis
    proof (cases "ty_is_optional t")
      case True
      then show ?thesis
        using 1(2) [OF arr True] 1(3,4) arr by (subst (1 2) encode_into.simps) auto
    next
      case False
      then show ?thesis
        using arr 1(3,4) l by (subst (1 2) encode_into.simps) (auto simp: user_type_def is_void_def split: base_type.splits)
    qed
  qed
qed

text \<open>When the call is decoded, the new name is shorter than the one it replaces.\<close>

lemma decode_from_inject:
  "decode_from b (renamed ''resp'' ''buf'' t) = decode_from b t
    \<longleftrightarrow> replace_all ''resp'' ''buf'' (user_type t) = user_type t"
proof (induction b t rule: decode_from.induct)
  case (1 b t)
  let ?el = "element_type t" and ?r = "renamed ''resp'' ''buf''"
  have "length (replace_all ''resp'' ''buf'' n) \<le> length n" for n by (rule length_replace_all) simp_all
  then have same: "replace_all ''resp'' ''buf'' n @ x = n @ x \<longleftrightarrow> replace_all ''resp'' ''buf'' n = n" for n x by simp
  show ?case
  proof (cases "ty_is_array t")
    case True
    show ?thesis
    proof (cases "array_helper_of ?el")
      case (Some h)
      then have "user_type t = []" using user_type_primitive(2) by fastforce
      with Some True show ?thesis by (simp add: decode_from.simps [of b t] decode_from.simps [of b "?r t"])
    next
      case None
      show ?thesis
      proof (cases "\<not> is_primitive ?el \<and> \<not> ty_is_array ?el")
        case u: True
        with None True same [of "user_type t"] show ?thesis
          by (simp add: decode_from.simps [of b t] decode_from.simps [of b "?r t"])
      next
        case u: False
        have "decode_from b t = ''['' @ decode_from b ?el @ '' for _ in range('' @ b @ ''.decode_u32())]''"
          using True None u by (subst decode_from.simps) (auto simp: Let_def)
        moreover have "decode_from b (?r t) = ''['' @ decode_from b (?r ?el) @ '' for _ in range('' @ b @ ''.decode_u32())]''"
          using True None u by (subst decode_from.simps) (auto simp: Let_def)
        ultimately show ?thesis using 1(1) [OF True refl None u] by simp
      qed
    qed
  next
    case False
    note arr = this
    show ?thesis
    proof (cases "ty_is_optional t")
      case True
      then show ?thesis using 1(2) [OF arr True] arr
        by (simp add: decode_from.simps [of b t] decode_from.simps [of b "?r t"])
    next
      case False
      with arr same show ?thesis
        by (simp add: decode_from.simps [of b t] decode_from.simps [of b "?r t"])
          (auto simp: user_type_def split: base_type.splits)
    qed
  qed
qed

lemma python_encode_call_req: "python_encode_call t expr indent = encode_into ''req'' t expr indent"
proof (induction t expr indent rule: python_encode_call.induct)
  case (1 t expr indent)
  then show ?case
    by (subst python_encode_call.simps, subst encode_into.simps)
      (auto simp: Let_def python_loop_def encode_loop_def line_def split: option.splits base_type.splits)
qed

text \<open>The generator writes the calls that encode and decode a field for buffers named
  \<^verbatim>\<open>req\<close> and \<^verbatim>\<open>resp\<close>, as a proxy needs them, and replaces these letters for the functions of a struct.
  The encoding line is the one meant, the same call on the buffer \<^verbatim>\<open>buf\<close>, exactly when neither the
  field's name nor its type's name contains \<^verbatim>\<open>req\<close>, and the decoding call exactly when the type's
  name does not contain \<^verbatim>\<open>resp\<close>; otherwise the generated module names a field or function that does
  not exist.\<close>

theorem python_codec_names:
  assumes "\<not> is_void (fd_type f)"
  shows "(python_field_encode f = line [''    '', encode_into ''buf'' (fd_type f) (''val.'' @ fd_name f) ''    '']
      \<longleftrightarrow> \<not> sublist ''req'' (fd_name f) \<and> \<not> sublist ''req'' (user_type (fd_type f)))
    \<and> (replace_all ''resp'' ''buf'' (python_decode_call (fd_type f)) = decode_from ''buf'' (fd_type f)
      \<longleftrightarrow> \<not> sublist ''resp'' (user_type (fd_type f)))"
proof -
  have "replace_all ''req'' ''buf'' s = s \<longleftrightarrow> \<not> sublist ''req'' s" for s by (rule replace_all_id_iff) simp_all
  moreover have "replace_all ''resp'' ''buf'' s = s \<longleftrightarrow> \<not> sublist ''resp'' s" for s by (rule replace_all_id_iff) simp_all
  moreover have "length (replace_all ''req'' ''buf'' s) = length s" for s by (rule length_replace_same) simp_all
  ultimately show ?thesis
    using encode_into_inject [OF _ assms, of "replace_all ''req'' ''buf'' (''val.'' @ fd_name f)" "''val.'' @ fd_name f"]
    by (simp add: python_field_encode_def line_def replace_encode_call replace_decode_call decode_from_inject)
qed

section \<open>Numbers and values\<close>

lemma service_number_nth:
  "i < length ss \<Longrightarrow> (service_constant (ss ! i), n + word_of_nat (i + length (filter has_stream (take i ss))))
    \<in> set (all_service_numbers n ss)"
proof (induction ss arbitrary: n i)
  case (Cons s ss)
  show ?case
  proof (cases i)
    case 0
    then show ?thesis by (simp add: service_numbers_def)
  next
    case (Suc j)
    with Cons.prems have "(service_constant (ss ! j), (n + (if has_stream s then 2 else 1))
        + word_of_nat (j + length (filter has_stream (take j ss)))) \<in> set (all_service_numbers (n + (if has_stream s then 2 else 1)) ss)"
      by (intro Cons.IH) simp
    with Suc show ?thesis by (auto simp: algebra_simps)
  qed
qed simp

lemma python_services_split:
  "c \<in> set (numbered n (map python_service_constant ss)) \<Longrightarrow> sublist (python_constant c) (python_services_from n ss)"
  by (induction ss arbitrary: n) (auto intro: sublist_before sublist_behind)

text \<open>Claim C16. The numbers of the Python module and of the C++ header. Both give the methods of a
  service the same numbers. The service at position i has number i + 1 in Python, and in C++
  that plus the number of services before it that have streaming methods, whose second
  constant Python does not count: the two agree, and a Python client reaches the service it
  means, exactly when no service before it has a streaming method.\<close>

theorem python_service_numbers:
  assumes "i < length (ns_services ns)" "length (ns_services ns) < 65536"
    and s: "s = ns_services ns ! i" and k: "k = length (filter has_stream (take i (ns_services ns)))"
  shows "sublist (python_constant (python_service_constant s, word_of_nat (i + 1))) (python_service_ids ns)
    \<and> sublist (constexpr ''u16'' (service_constant s, word_of_nat (i + 1 + k) :: u16)) (generate_service_ids ns)
    \<and> ((word_of_nat (i + 1) :: u16) = word_of_nat (i + 1 + k) \<longleftrightarrow> k = 0)
    \<and> map snd (python_methods s) = map snd (service_methods s)"
proof -
  have "map snd (numbered 1 (map python_service_constant (ns_services ns))) ! i = (1 + word_of_nat i :: u16)"
    using nth_numbered [of i "map python_service_constant (ns_services ns)" 1] assms(1) by simp
  moreover have "map fst (numbered (1 :: u16) (map python_service_constant (ns_services ns))) ! i = python_service_constant s"
    using assms(1) by (simp add: s)
  ultimately have "numbered (1 :: u16) (map python_service_constant (ns_services ns)) ! i = (python_service_constant s, word_of_nat (i + 1))"
    using assms(1) by (simp add: prod_eq_iff del: map_fst_numbered)
  then have "(python_service_constant s, word_of_nat (i + 1)) \<in> set (numbered (1 :: u16) (map python_service_constant (ns_services ns)))"
    using assms(1) by (metis length_map length_numbered nth_mem)
  then have python: "sublist (python_constant (python_service_constant s, word_of_nat (i + 1))) (python_service_ids ns)"
    by (auto simp: python_service_ids_def intro: sublist_behind python_services_split)
  have "(service_constant s, word_of_nat (i + 1 + k)) \<in> set (all_service_numbers 1 (ns_services ns))"
    using service_number_nth [OF assms(1), of 1] by (simp add: s k add.assoc)
  then have cpp: "sublist (constexpr ''u16'' (service_constant s, word_of_nat (i + 1 + k) :: u16)) (generate_service_ids ns)"
    unfolding generate_service_ids_def by (rule sublist_behind [OF generate_services_split])
  have "k \<le> i" unfolding k using length_filter_le [of has_stream "take i (ns_services ns)"] by simp
  then have "unat (word_of_nat k :: u16) = k" using assms by (simp add: unat_of_nat)
  then have "(word_of_nat k :: u16) = 0 \<longleftrightarrow> k = 0" using unat_eq_zero [of "word_of_nat k :: u16"] by simp
  then have agree: "(word_of_nat (i + 1) :: u16) = word_of_nat (i + 1 + k) \<longleftrightarrow> k = 0"
    by (simp only: of_nat_add [of "i + 1" k] add_cancel_right_right)
  have numbers: "map snd (numbered n xs) = map snd (numbered n ys)" if "length xs = length ys" for n and xs ys :: "string list"
    using that by (induction xs ys arbitrary: n rule: list_induct2) simp_all
  have "map snd (python_methods s) = map snd (service_methods s)"
    unfolding python_methods_def service_methods_def by (rule numbers) simp
  with python cpp agree show ?thesis by blast
qed

text \<open>An enum means the same in both languages: Python writes every item with the value that
  the C++ rule for implicit values assigns to it.\<close>

theorem python_enum_values_agree:
  "python_enum_def e = line [''class '', ed_name e, ''(IntEnum):'']
    @ (if ed_doc e = [] then [] else doc_string ''    '' (ed_doc e))
    @ each (\<lambda>(item, v). line [''    '', ei_name item, '' = '', int_string (sint v)]) (zip (ed_items e) (enum_values (ed_items e) 0))"
proof -
  have "python_enum_items items n = each (\<lambda>(item, v). line [''    '', ei_name item, '' = '', int_string (sint v)])
      (zip items (enum_values items n))" for items n
    by (induction items n rule: python_enum_items.induct) (simp_all add: each_def Let_def split: option.split)
  then show ?thesis by (simp add: python_enum_def_def)
qed

section \<open>Examples\<close>

definition request_field :: field_def where
  "request_field = \<lparr>fd_name = ''request'', fd_type = plain_type (Primitive PI32), fd_doc = [], fd_loc = no_loc\<rparr>"

definition demo_services :: namespace_def where
  "demo_services = demo_namespace\<lparr>ns_services := ns_services demo_namespace @
     [\<lparr>sv_name = ''tiles'', sv_methods = [demo_method_def ''find'' False], sv_doc = [], sv_loc = no_loc\<rparr>]\<rparr>"

theorem python_service_numbers_witness:
  "sublist (python_constant (''SERVICE_tiles'', 2)) (python_service_ids demo_services)
    \<and> sublist (constexpr ''u16'' (''kService_tiles'', 3 :: u16)) (generate_service_ids demo_services)"
proof -
  have l: "1 < length (ns_services demo_services)" "length (ns_services demo_services) < 65536"
    by (simp_all add: demo_services_def demo_namespace_def)
  have "service_constant (ns_services demo_services ! 1) = ''kService_tiles''"
    "python_service_constant (ns_services demo_services ! 1) = ''SERVICE_tiles''"
    "length (filter has_stream (take 1 (ns_services demo_services))) = 1"
    by (simp_all add: demo_services_def demo_namespace_def demo_method_def_def has_stream_def service_constant_def
        python_service_constant_def)
  with python_service_numbers [OF l refl refl] show ?thesis by simp
qed

end
