(* ===== verification/Song_Regex.thy ===== *)
theory Song_Regex
  imports Song_Prelude
begin

text \<open>
  The part of \<^verbatim>\<open>std::regex\<close> (ECMAScript grammar) that \<^verbatim>\<open>compiler/scaffold.cpp\<close> uses. A pattern gives
  the list of its matches at a place, in the order in which a backtracking matcher tries them, so
  that the first is the one that \<^verbatim>\<open>regex_search\<close> reports. Only character classes are repeated, as
  in all the patterns there; the patterns that are replaced or iterated never match
  the empty string. The lemmas: the rules of \<open>first_match\<close>, with which the result of a
  greedy match is derived piece by piece, and \<open>needs\<close>, characters without which a pattern cannot match.
\<close>

section \<open>Patterns\<close>

datatype regex =
    Class "char \<Rightarrow> bool"
  | Many "char \<Rightarrow> bool"
  | ManyLazy "char \<Rightarrow> bool"
  | Seq regex regex
  | Alt regex regex
  | Opt regex
  | Group nat regex
  | AtStart
  | AtEnd

text \<open>Where a matcher is: whether at the start of the text, the rest of the text, the groups so far.\<close>

type_synonym cursor = "bool \<times> string \<times> (nat \<times> string) list"

text \<open>Greedy and lazy repetition: every number of characters of the class, most or fewest first.\<close>

fun many :: "(char \<Rightarrow> bool) \<Rightarrow> bool \<Rightarrow> string \<Rightarrow> (bool \<times> string) list" where
  "many p b [] = [(b, [])]"
| "many p b (c # cs) = (if p c then many p False cs @ [(b, c # cs)] else [(b, c # cs)])"

fun matches :: "regex \<Rightarrow> cursor \<Rightarrow> cursor list" where
  "matches (Class p) (b, cs, caps) = (case cs of [] \<Rightarrow> [] | c # cs \<Rightarrow> if p c then [(False, cs, caps)] else [])"
| "matches (Many p) (b, cs, caps) = map (\<lambda>(b, cs). (b, cs, caps)) (many p b cs)"
| "matches (ManyLazy p) (b, cs, caps) = map (\<lambda>(b, cs). (b, cs, caps)) (rev (many p b cs))"
| "matches (Seq r s) x = concat (map (matches s) (matches r x))"
| "matches (Alt r s) x = matches r x @ matches s x"
| "matches (Opt r) x = matches r x @ [x]"
| "matches (Group i r) (b, cs, caps) =
    map (\<lambda>(b', cs', caps'). (b', cs', (i, take (length cs - length cs') cs) # caps')) (matches r (b, cs, caps))"
| "matches AtStart (b, cs, caps) = (if b then [(b, cs, caps)] else [])"
| "matches AtEnd (b, cs, caps) = (if cs = [] then [(b, cs, caps)] else [])"

definition Some1 :: "(char \<Rightarrow> bool) \<Rightarrow> regex" where
  "Some1 p = Seq (Class p) (Many p)"

definition Some1Lazy :: "(char \<Rightarrow> bool) \<Rightarrow> regex" where
  "Some1Lazy p = Seq (Class p) (ManyLazy p)"

definition Char :: "char \<Rightarrow> regex" where
  "Char c = Class (\<lambda>d. d = c)"

fun Word :: "string \<Rightarrow> regex" where
  "Word [] = Many (\<lambda>c. False)"
| "Word [c] = Char c"
| "Word (c # cs) = Seq (Char c) (Word cs)"

text \<open>The classes \<^verbatim>\<open>\s\<close>, \<^verbatim>\<open>\d\<close> and \<^verbatim>\<open>\w\<close> of the C locale.\<close>

definition is_white :: "char \<Rightarrow> bool" where
  "is_white c \<longleftrightarrow> c \<in> {CHR '' '', CHR 0x09, CHR 0x0A, CHR 0x0B, CHR 0x0C, CHR 0x0D}"

definition is_decimal :: "char \<Rightarrow> bool" where
  "is_decimal c \<longleftrightarrow> (let k = of_char c :: nat in 48 \<le> k \<and> k \<le> 57)"

definition is_word :: "char \<Rightarrow> bool" where
  "is_word c \<longleftrightarrow> (let k = of_char c :: nat in
     48 \<le> k \<and> k \<le> 57 \<or> 65 \<le> k \<and> k \<le> 90 \<or> 97 \<le> k \<and> k \<le> 122 \<or> k = 95)"

section \<open>Searching and replacing\<close>

text \<open>The text before the match, its groups with 0 for the whole match, and the text behind it.\<close>

record match =
  mt_prefix :: string
  mt_groups :: "(nat \<times> string) list"
  mt_rest :: string

fun search_from :: "regex \<Rightarrow> bool \<Rightarrow> string \<Rightarrow> match option" where
  "search_from r b cs = (case matches (Group 0 r) (b, cs, []) of
      (b', cs', caps) # _ \<Rightarrow> Some \<lparr>mt_prefix = [], mt_groups = caps, mt_rest = cs'\<rparr>
    | [] \<Rightarrow> (case cs of
        [] \<Rightarrow> None
      | c # cs \<Rightarrow> map_option (\<lambda>m. m\<lparr>mt_prefix := c # mt_prefix m\<rparr>) (search_from r False cs)))"

declare search_from.simps [simp del]

definition regex_search :: "regex \<Rightarrow> string \<Rightarrow> match option" where
  "regex_search r s = search_from r True s"

definition submatch :: "nat \<Rightarrow> match \<Rightarrow> string" where
  "submatch i m = (case map_of (mt_groups m) i of Some s \<Rightarrow> s | None \<Rightarrow> [])"

definition matched :: "nat \<Rightarrow> match \<Rightarrow> bool" where
  "matched i m \<longleftrightarrow> map_of (mt_groups m) i \<noteq> None"

text \<open>
  Every match in turn, each sought behind the one before it. A pattern that matches the empty
  string would stop the recursion; \<open>consuming\<close> patterns never do.
\<close>

function regex_iterate :: "regex \<Rightarrow> bool \<Rightarrow> string \<Rightarrow> match list" where
  "regex_iterate r b cs = (case search_from r b cs of None \<Rightarrow> []
     | Some m \<Rightarrow> m # (if length (mt_rest m) < length cs then regex_iterate r False (mt_rest m) else []))"
  by pat_completeness auto
termination by (relation "measure (\<lambda>(r, b, cs). length cs)") auto

function replace_from :: "regex \<Rightarrow> string \<Rightarrow> bool \<Rightarrow> string \<Rightarrow> string" where
  "replace_from r new b cs = (case search_from r b cs of None \<Rightarrow> cs
     | Some m \<Rightarrow> mt_prefix m @ new
       @ (if length (mt_rest m) < length cs then replace_from r new False (mt_rest m) else mt_rest m))"
  by pat_completeness auto
termination by (relation "measure (\<lambda>(r, new, b, cs). length cs)") auto

declare regex_iterate.simps [simp del] and replace_from.simps [simp del]

definition regex_replace :: "regex \<Rightarrow> string \<Rightarrow> string \<Rightarrow> string" where
  "regex_replace r new s = replace_from r new True s"

section \<open>What matches consume\<close>

lemma many_suffix: "(b', cs') \<in> set (many p b cs) \<Longrightarrow> \<exists>xs. cs = xs @ cs' \<and> (\<forall>c \<in> set xs. p c)"
  by (induction p b cs rule: many.induct) (auto split: if_splits intro: exI [of _ "_ # _"])

lemma many_suffix': "(b', cs') \<in> set (many p b cs) \<Longrightarrow> \<exists>xs. cs = xs @ cs'"
  using many_suffix by blast

lemma matches_suffix: "(b', cs', caps') \<in> set (matches r (b, cs, caps)) \<Longrightarrow> \<exists>xs. cs = xs @ cs'"
proof (induction r arbitrary: b cs caps b' cs' caps')
  case (Seq r s)
  then show ?case by fastforce
qed (auto split: list.splits if_splits dest: many_suffix')

text \<open>Nothing appears in a group, or in a text after a replacement, that was not there before.\<close>

lemma matches_groups:
  "(b', cs', caps') \<in> set (matches r (b, cs, caps)) \<Longrightarrow> (i, t) \<in> set caps' \<Longrightarrow> (i, t) \<in> set caps \<or> set t \<subseteq> set cs"
proof (induction r arbitrary: b cs caps b' cs' caps')
  case (Seq r s)
  from Seq.prems(1) obtain b1 cs1 caps1 where 1: "(b1, cs1, caps1) \<in> set (matches r (b, cs, caps))"
    and 2: "(b', cs', caps') \<in> set (matches s (b1, cs1, caps1))" by auto
  have "set cs1 \<subseteq> set cs" using matches_suffix [OF 1] by auto
  with Seq.IH(2) [OF 2 Seq.prems(2)] Seq.IH(1) [OF 1] show ?case by blast
next
  case (Group j r)
  from Group.prems obtain caps1 where 1: "(b', cs', caps1) \<in> set (matches r (b, cs, caps))"
    and caps': "caps' = (j, take (length cs - length cs') cs) # caps1" by auto
  have "set (take (length cs - length cs') cs) \<subseteq> set cs" by (rule set_take_subset)
  with Group.IH [OF 1] Group.prems(2) show ?case by (auto simp: caps')
next
  case (Alt r s)
  then show ?case unfolding matches.simps set_append Un_iff by blast
next
  case (Opt r)
  then consider "(b', cs', caps') \<in> set (matches r (b, cs, caps))" | "caps' = caps" by auto
  then show ?case using Opt.IH Opt.prems(2) by cases blast+
qed (auto split: list.splits if_splits)

lemma search_parts:
  "search_from r b cs = Some m \<Longrightarrow> set (mt_prefix m) \<subseteq> set cs \<and> set (mt_rest m) \<subseteq> set cs
    \<and> (\<forall>(i, t) \<in> set (mt_groups m). set t \<subseteq> set cs)"
proof (induction r b cs arbitrary: m rule: search_from.induct)
  case (1 r b cs)
  show ?case
  proof (cases "matches (Group 0 r) (b, cs, [])")
    case Nil
    then obtain c cs' m' where cs: "cs = c # cs'" and m': "search_from r False cs' = Some m'"
        "m = m'\<lparr>mt_prefix := c # mt_prefix m'\<rparr>"
      using 1(2) by (subst (asm) search_from.simps) (auto split: list.splits)
    from 1(1) [OF Nil cs m'(1)] show ?thesis by (auto simp: cs m'(2))
  next
    case (Cons x xs)
    obtain b' cs' caps where x: "x = (b', cs', caps)" by (cases x)
    have "(b', cs', caps) \<in> set (matches (Group 0 r) (b, cs, []))" unfolding Cons x by simp
    moreover have "m = \<lparr>mt_prefix = [], mt_groups = caps, mt_rest = cs'\<rparr>"
      using 1(2) by (subst (asm) search_from.simps) (simp only: Cons x list.case prod.case option.inject)
    ultimately show ?thesis using matches_suffix matches_groups by fastforce
  qed
qed

lemma search_group: "search_from r b cs = Some m \<Longrightarrow> set (submatch i m) \<subseteq> set cs"
proof (cases "map_of (mt_groups m) i")
  case (Some t)
  assume "search_from r b cs = Some m"
  from search_parts [OF this] map_of_SomeD [OF Some] show ?thesis by (auto simp: submatch_def Some)
qed (simp add: submatch_def)

lemma replace_from_set: "set (replace_from r new b cs) \<subseteq> set cs \<union> set new"
proof (induction r new b cs rule: replace_from.induct)
  case (1 r new b cs)
  show ?case
  proof (cases "search_from r b cs")
    case (Some m)
    with 1 [OF Some] search_parts [OF Some] show ?thesis
      by (subst replace_from.simps) (auto split: if_splits)
  qed (subst replace_from.simps, simp)
qed

fun consuming :: "regex \<Rightarrow> bool" where
  "consuming (Class p) = True"
| "consuming (Seq r s) = (consuming r \<or> consuming s)"
| "consuming (Alt r s) = (consuming r \<and> consuming s)"
| "consuming (Group i r) = consuming r"
| "consuming _ = False"

lemma matches_consuming:
  "(b', cs', caps') \<in> set (matches r (b, cs, caps)) \<Longrightarrow> consuming r \<Longrightarrow> length cs' < length cs"
proof (induction r arbitrary: b cs caps b' cs' caps')
  case (Seq r s)
  from Seq.prems(1) obtain b1 cs1 caps1 where 1: "(b1, cs1, caps1) \<in> set (matches r (b, cs, caps))"
    and 2: "(b', cs', caps') \<in> set (matches s (b1, cs1, caps1))" by auto
  have "length cs1 \<le> length cs" "length cs' \<le> length cs1"
    using matches_suffix [OF 1] matches_suffix [OF 2] by auto
  with Seq.IH(1) [OF 1] Seq.IH(2) [OF 2] Seq.prems(2) show ?case by fastforce
qed (auto split: list.splits if_splits)

text \<open>A character that every match of a pattern contains.\<close>

fun needs :: "char \<Rightarrow> regex \<Rightarrow> bool" where
  "needs c (Seq r s) = (needs c r \<or> needs c s)"
| "needs c (Alt r s) = (needs c r \<and> needs c s)"
| "needs c (Group i r) = needs c r"
| "needs c (Class p) = (\<forall>d. p d \<longrightarrow> d = c)"
| "needs c _ = False"

lemma matches_needs: "needs c r \<Longrightarrow> c \<notin> set cs \<Longrightarrow> matches r (b, cs, caps) = []"
proof (induction r arbitrary: b cs caps)
  case (Seq r s)
  show ?case
  proof (cases "needs c r")
    case False
    with Seq.prems have "needs c s" by simp
    moreover have "c \<notin> set cs'" if "(b', cs', caps') \<in> set (matches r (b, cs, caps))" for b' cs' caps'
      using matches_suffix [OF that] Seq.prems(2) by auto
    ultimately have "matches s y = []" if "y \<in> set (matches r (b, cs, caps))" for y
      using Seq.IH(2) that by (cases y) auto
    then show ?thesis by simp
  qed (use Seq in simp)
qed (auto split: list.splits)

lemma search_needs: "needs c r \<Longrightarrow> c \<notin> set cs \<Longrightarrow> search_from r b cs = None"
proof (induction cs arbitrary: b)
  case Nil
  then show ?case by (subst search_from.simps) (simp add: matches_needs)
next
  case (Cons d cs)
  then show ?case by (subst search_from.simps) (simp add: matches_needs [of c])
qed

text \<open>A pattern that begins with \<^verbatim>\<open>^\<close> is found at the start or not at all.\<close>

lemma search_anchored: "search_from (Seq AtStart r) False cs = None"
  by (induction cs) (subst search_from.simps, simp)+

lemma search_anchored_None: "matches r (True, cs, []) = [] \<Longrightarrow> regex_search (Seq AtStart r) cs = None"
  unfolding regex_search_def by (subst search_from.simps) (simp add: search_anchored split: list.split)

section \<open>The first match\<close>

definition first_match :: "regex \<Rightarrow> cursor \<Rightarrow> cursor \<Rightarrow> bool" where
  "first_match r x y \<longleftrightarrow> (\<exists>ys. matches r x = y # ys)"

lemma first_Class [intro]: "p c \<Longrightarrow> first_match (Class p) (b, c # cs, caps) (False, cs, caps)"
  by (simp add: first_match_def)

lemma first_Char [intro]: "first_match (Char c) (b, c # cs, caps) (False, cs, caps)"
  by (simp add: first_match_def Char_def)

lemma many_first: "\<forall>c \<in> set xs. p c \<Longrightarrow> ys = [] \<or> \<not> p (hd ys) \<Longrightarrow> \<exists>zs. many p b (xs @ ys) = (b \<and> xs = [], ys) # zs"
proof (induction xs arbitrary: b)
  case Nil
  then show ?case by (cases ys) auto
next
  case (Cons x xs)
  from Cons.IH [of False] Cons.prems show ?case by auto
qed

lemma first_Many: "\<forall>c \<in> set xs. p c \<Longrightarrow> ys = [] \<or> \<not> p (hd ys) \<Longrightarrow>
    first_match (Many p) (b, xs @ ys, caps) (b \<and> xs = [], ys, caps)"
  using many_first [of xs p ys b] by (auto simp: first_match_def)

lemma first_Seq: "first_match r x y \<Longrightarrow> first_match s y z \<Longrightarrow> first_match (Seq r s) x z"
  by (auto simp: first_match_def)

lemma first_Some1:
  assumes "xs \<noteq> []" "\<forall>c \<in> set xs. p c" "ys = [] \<or> \<not> p (hd ys)"
  shows "first_match (Some1 p) (b, xs @ ys, caps) (False, ys, caps)"
proof -
  obtain x xs' where x: "xs = x # xs'" using assms(1) by (cases xs) auto
  have "first_match (Class p) (b, xs @ ys, caps) (False, xs' @ ys, caps)" using assms(2) by (auto simp: x)
  moreover have "first_match (Many p) (False, xs' @ ys, caps) (False \<and> xs' = [], ys, caps)"
    using assms(2,3) by (intro first_Many) (simp_all add: x)
  ultimately show ?thesis unfolding Some1_def by (auto intro: first_Seq)
qed

lemma first_Opt: "first_match r x y \<Longrightarrow> first_match (Opt r) x y"
  by (cases x) (auto simp: first_match_def)

lemma first_Opt_none: "matches r x = [] \<Longrightarrow> first_match (Opt r) x x"
  by (cases x) (auto simp: first_match_def)

lemma first_Group: "first_match r (b, xs @ ys, caps) (b', ys, caps') \<Longrightarrow>
    first_match (Group i r) (b, xs @ ys, caps) (b', ys, (i, xs) # caps')"
  by (auto simp: first_match_def)

lemma first_AtStart: "first_match AtStart (True, cs, caps) (True, cs, caps)"
  by (simp add: first_match_def)

lemma first_Word: "w \<noteq> [] \<Longrightarrow> first_match (Word w) (b, w @ cs, caps) (False, cs, caps)"
  by (induction w arbitrary: b rule: Word.induct) (auto intro: first_Seq)

lemma search_first:
  assumes "first_match r (b, xs @ ys, []) (b', ys, caps)"
  shows "search_from r b (xs @ ys) = Some \<lparr>mt_prefix = [], mt_groups = (0, xs) # caps, mt_rest = ys\<rparr>"
  using assms by (subst search_from.simps) (auto simp: first_match_def)

end
