(* ===== verification/Song_Scaffold.thy ===== *)
theory Song_Scaffold
  imports Song_Regex Song_Codegen
begin

text \<open>
  The scaffold generator of the interface compiler (\<^verbatim>\<open>compiler/scaffold.cpp\<close>): the skeleton of an
  implementation, the recognition of methods, structs and enums in files that exist, with the
  regular expressions of \<open>Song_Regex\<close>, their comparison with the interface file and the report
  that is appended. The time stamp of the report is an argument.
  The lemmas: what the comparison reports, that a report consists of comment lines only, and
  that a fresh skeleton is recognized as up to date.
\<close>

section \<open>Records\<close>

record existing_method =
  em_name :: string
  em_return_type :: string
  em_params :: string
  em_line_number :: nat

record existing_field =
  ef_name :: string
  ef_type :: string

record existing_struct =
  es_name :: string
  es_fields :: "existing_field list"

record existing_enum_value =
  xv_name :: string
  xv_value :: "i64 option"

record existing_enum =
  xe_name :: string
  xe_is_flags :: bool
  xe_values :: "existing_enum_value list"

record sync_report =
  new_methods :: "method_def list"
  removed_methods :: "existing_method list"
  modified_methods :: "(existing_method \<times> method_def) list"
  new_structs :: "struct_def list"
  removed_structs :: "existing_struct list"
  modified_structs :: "(existing_struct \<times> struct_def) list"
  new_enums :: "enum_def list"
  removed_enums :: "existing_enum list"
  modified_enums :: "(existing_enum \<times> enum_def) list"

definition has_changes :: "sync_report \<Rightarrow> bool" where
  "has_changes r \<longleftrightarrow> new_methods r \<noteq> [] \<or> removed_methods r \<noteq> [] \<or> modified_methods r \<noteq> []
    \<or> new_structs r \<noteq> [] \<or> removed_structs r \<noteq> [] \<or> modified_structs r \<noteq> []
    \<or> new_enums r \<noteq> [] \<or> removed_enums r \<noteq> [] \<or> modified_enums r \<noteq> []"

definition no_changes :: sync_report where
  "no_changes = \<lparr>new_methods = [], removed_methods = [], modified_methods = [], new_structs = [], removed_structs = [],
     modified_structs = [], new_enums = [], removed_enums = [], modified_enums = []\<rparr>"

section \<open>Texts to compare\<close>

fun separated :: "string \<Rightarrow> string list \<Rightarrow> string" where
  "separated sep [] = []"
| "separated sep [x] = x"
| "separated sep (x # y # xs) = x @ sep @ separated sep (y # xs)"

definition params_to_string :: "param list \<Rightarrow> string" where
  "params_to_string params = separated '', '' (map (\<lambda>p. type_to_param (pm_type p) (pm_name p)) params)"

definition fields_to_string :: "field_def list \<Rightarrow> string" where
  "fields_to_string fs = separated '', '' (map (\<lambda>f. type_to_cpp (fd_type f) @ '' '' @ fd_name f) fs)"

definition normalize_existing_fields :: "existing_field list \<Rightarrow> string" where
  "normalize_existing_fields fs =
    separated '';'' (map (\<lambda>f. regex_replace (Some1 is_white) '' '' (ef_type f) @ '' '' @ ef_name f) fs)"

definition normalize_fields :: "field_def list \<Rightarrow> string" where
  "normalize_fields fs = separated '';'' (map (\<lambda>f. type_to_cpp (fd_type f) @ '' '' @ fd_name f) fs)"

definition value_text :: "string \<Rightarrow> i64 option \<Rightarrow> string" where
  "value_text sep v = (case v of None \<Rightarrow> [] | Some v \<Rightarrow> sep @ int_string (sint v))"

definition normalize_existing_enum_values :: "existing_enum_value list \<Rightarrow> string" where
  "normalize_existing_enum_values vs = separated '';'' (map (\<lambda>v. xv_name v @ value_text ''='' (xv_value v)) vs)"

definition normalize_enum_values :: "enum_item list \<Rightarrow> string" where
  "normalize_enum_values vs = separated '';'' (map (\<lambda>v. ei_name v @ value_text ''='' (ei_value v)) vs)"

definition around :: "char \<Rightarrow> regex" where
  "around c = Seq (Many is_white) (Seq (Char c) (Many is_white))"

definition normalize_signature :: "string \<Rightarrow> string \<Rightarrow> string" where
  "normalize_signature return_type params =
    (let sig = return_type @ ''('' @ params @ '')'';
         sig = regex_replace (Some1 is_white) '' '' sig;
         sig = regex_replace (around CHR '','') '', '' sig;
         sig = regex_replace (around CHR ''('') ''('' sig;
         sig = regex_replace (around CHR '')'') '')'' sig
     in regex_replace (around CHR ''&'') ''& '' sig)"

section \<open>The skeleton\<close>

definition todo_throw :: "string \<Rightarrow> string \<Rightarrow> string" where
  "todo_throw indent name =
    line [indent, ''throw std::runtime_error('', quote, name, '' not implemented'', quote, '');'']"

text \<open>The documentation goes out as it is, behind one comment mark. (Both branches for
  \<^verbatim>\<open>is_void\<close> print the same.)\<close>

definition skeleton_method :: "method_def \<Rightarrow> string" where
  "skeleton_method m =
    (if md_doc m = [] then [] else line [''    /// '', md_doc m])
    @ line [''    '', type_to_cpp (md_return m), '' '', md_name m, ''('', params_to_string (md_params m), '') override {'']
    @ line [''        // TODO: implement'']
    @ todo_throw ''        '' (md_name m)
    @ line [''    }''] @ newline"

definition generate_skeleton :: "namespace_def \<Rightarrow> service_def \<Rightarrow> string" where
  "generate_skeleton ns service =
    line [''// '', sv_name service, '' Implementation'']
    @ line [''// Generated scaffold - safe to edit'']
    @ line [''// Source: '', ns_name ns, ''.song''] @ newline
    @ line [''#include '', quote, ns_name ns, ''.hpp'', quote] @ newline
    @ line [''namespace song::'', ns_name ns, '' {''] @ newline
    @ line [''class '', sv_name service, ''Impl : public I'', sv_name service, '' {'']
    @ line [''public:'']
    @ each skeleton_method (sv_methods service)
    @ line [''};''] @ newline
    @ line [''} // namespace song::'', ns_name ns]"

section \<open>What is there already\<close>

text \<open>\<^verbatim>\<open>std::getline\<close> until the stream ends.\<close>

fun getlines :: "string \<Rightarrow> string list" where
  "getlines [] = []"
| "getlines (c # cs) = (if c = CHR 0x0A then [] # getlines cs
     else (case getlines cs of [] \<Rightarrow> [[c]] | l # ls \<Rightarrow> (c # l) # ls))"

definition is_type_char :: "char \<Rightarrow> bool" where
  "is_type_char c \<longleftrightarrow> is_word c \<or> c \<in> {CHR '':'', CHR ''<'', CHR ''>''}"

text \<open>\<^verbatim>\<open>([\w:<>]+(?:\s*<[^>]+>)?)\<close>, and the whole pattern of a method.\<close>

definition type_regex :: regex where
  "type_regex = Seq (Some1 is_type_char)
     (Opt (Seq (Many is_white) (Seq (Char CHR ''<'') (Seq (Some1 (\<lambda>c. c \<noteq> CHR ''>'')) (Char CHR ''>'')))))"

definition method_rest_regex :: regex where
  "method_rest_regex = Seq (Some1 is_white) (Seq (Group 2 (Some1 is_word)) (Seq (Many is_white) (Seq (Char CHR ''('')
     (Seq (Group 3 (Many (\<lambda>c. c \<noteq> CHR '')''))) (Seq (Char CHR '')'') (Seq (Many is_white)
     (Seq (Opt (Seq (Word ''const'') (Many is_white))) (Word ''override''))))))))"

definition method_regex :: regex where
  "method_regex = Seq AtStart (Seq (Many is_white) (Seq (Group 1 type_regex) method_rest_regex))"

definition trim_regex :: regex where
  "trim_regex = Alt (Seq AtStart (Some1 is_white)) (Seq (Some1 is_white) AtEnd)"

text \<open>A line that is blank, or whose first character after the blanks is a slash or a star.\<close>

definition skip_line :: "string \<Rightarrow> bool" where
  "skip_line l = (let rest = dropWhile (\<lambda>c. c = CHR '' '' \<or> c = CHR 0x09) l; trimmed = (if rest = [] then l else rest)
     in trimmed = [] \<or> hd trimmed = CHR ''/'' \<or> hd trimmed = CHR ''*'')"

definition method_of_line :: "nat \<Rightarrow> string \<Rightarrow> existing_method list" where
  "method_of_line line_num l =
    (if skip_line l then []
     else (case regex_search method_regex l of None \<Rightarrow> []
       | Some m \<Rightarrow> [\<lparr>em_name = submatch 2 m, em_return_type = regex_replace trim_regex [] (submatch 1 m),
           em_params = regex_replace trim_regex [] (submatch 3 m), em_line_number = line_num\<rparr>]))"

definition parse_existing_impl :: "string \<Rightarrow> existing_method list" where
  "parse_existing_impl content = concat (map (\<lambda>(i, l). method_of_line i l) (enumerate 1 (getlines content)))"

definition body_regex :: regex where
  "body_regex = Seq (Char CHR ''{'') (Seq (Group 2 (Many (\<lambda>c. c \<noteq> CHR ''}''))) (Char CHR ''}''))"

definition struct_regex :: regex where
  "struct_regex = Seq (Word ''struct'') (Seq (Some1 is_white) (Seq (Group 1 (Some1 is_word)) (Seq (Many is_white) body_regex)))"

definition field_regex :: regex where
  "field_regex = Seq (Group 1 (Some1Lazy (\<lambda>c. c \<noteq> CHR '';''))) (Seq (Some1 is_white) (Seq (Group 2 (Some1 is_word))
     (Seq (Many is_white) (Char CHR '';''))))"

fun has_text :: "string \<Rightarrow> string \<Rightarrow> bool" where
  "has_text t [] \<longleftrightarrow> t = []"
| "has_text t (c # cs) \<longleftrightarrow> take (length t) (c # cs) = t \<or> has_text t cs"

definition field_of_match :: "match \<Rightarrow> existing_field list" where
  "field_of_match m =
    (let f = \<lparr>ef_name = submatch 2 m, ef_type = regex_replace trim_regex [] (submatch 1 m)\<rparr>
     in if ef_type f \<noteq> [] \<and> hd (ef_type f) \<noteq> CHR ''/'' \<and> \<not> has_text ''//'' (ef_type f) then [f] else [])"

definition struct_of_match :: "match \<Rightarrow> existing_struct" where
  "struct_of_match m = \<lparr>es_name = submatch 1 m, es_fields = concat (map field_of_match (regex_iterate field_regex True (submatch 2 m)))\<rparr>"

definition parse_existing_structs :: "string \<Rightarrow> existing_struct list" where
  "parse_existing_structs content = map struct_of_match (regex_iterate struct_regex True content)"

definition enum_regex :: regex where
  "enum_regex = Seq (Word ''enum'') (Seq (Some1 is_white) (Seq (Word ''class'') (Seq (Some1 is_white)
     (Seq (Group 1 (Some1 is_word)) (Seq (Many is_white) (Seq (Char CHR '':'') (Seq (Many is_white) (Seq (Some1 is_word)
     (Seq (Many is_white) body_regex)))))))))"

definition value_regex :: regex where
  "value_regex = Seq (Group 1 (Some1 is_word)) (Opt (Seq (Many is_white) (Seq (Char CHR ''='') (Seq (Many is_white)
     (Group 2 (Seq (Opt (Char CHR ''-'')) (Some1 is_decimal)))))))"

text \<open>\<^verbatim>\<open>std::stoll\<close> of an optional minus and digits; what does not fit is thrown.\<close>

definition signed_stoll :: "string \<Rightarrow> i64 res" where
  "signed_stoll s =
    (let negative = (s \<noteq> [] \<and> hd s = CHR ''-'');
         n = foldl (\<lambda>n d. n * 10 + (int (of_char d) - 48)) 0 (if negative then tl s else s);
         v = (if negative then - n else n)
     in if - (2 ^ 63) \<le> v \<and> v < 2 ^ 63 then Inr (word_of_int v) else Inl (RuntimeError ''stoll''))"

fun values_of_matches :: "match list \<Rightarrow> (bool \<times> existing_enum_value list) res" where
  "values_of_matches [] = Inr (False, [])"
| "values_of_matches (m # ms) =
    (if submatch 1 m \<in> {''class'', ''enum'', ''struct''} then values_of_matches ms
     else rbind (if matched 2 m then map_sum id Some (signed_stoll (submatch 2 m)) else Inr None) (\<lambda>v.
       rbind (values_of_matches ms) (\<lambda>(flags, vs).
         Inr (flags \<or> (case v of None \<Rightarrow> False | Some n \<Rightarrow> 0 < sint n \<and> (n AND (n - 1)) = 0),
           \<lparr>xv_name = submatch 1 m, xv_value = v\<rparr> # vs))))"

definition enum_of_match :: "match \<Rightarrow> existing_enum res" where
  "enum_of_match m = rbind (values_of_matches (regex_iterate value_regex True (submatch 2 m))) (\<lambda>(flags, vs).
    Inr \<lparr>xe_name = submatch 1 m, xe_is_flags = flags, xe_values = vs\<rparr>)"

fun enums_of_matches :: "match list \<Rightarrow> existing_enum list res" where
  "enums_of_matches [] = Inr []"
| "enums_of_matches (m # ms) = rbind (enum_of_match m) (\<lambda>e. rbind (enums_of_matches ms) (\<lambda>es. Inr (e # es)))"

definition parse_existing_enums :: "string \<Rightarrow> existing_enum list res" where
  "parse_existing_enums content = enums_of_matches (regex_iterate enum_regex True content)"

section \<open>Comparison\<close>

text \<open>\<^verbatim>\<open>std::map\<close> keeps its keys in the order of \<^verbatim>\<open>std::string\<close>, which compares unsigned characters.\<close>

fun str_less :: "string \<Rightarrow> string \<Rightarrow> bool" where
  "str_less xs [] \<longleftrightarrow> False"
| "str_less [] (y # ys) \<longleftrightarrow> True"
| "str_less (x # xs) (y # ys) \<longleftrightarrow> (of_char x :: nat) < of_char y \<or> x = y \<and> str_less xs ys"

fun map_put :: "string \<Rightarrow> 'v \<Rightarrow> (string \<times> 'v) list \<Rightarrow> (string \<times> 'v) list" where
  "map_put k v [] = [(k, v)]"
| "map_put k v ((j, w) # m) =
    (if k = j then (k, v) # m else if str_less k j then (k, v) # (j, w) # m else (j, w) # map_put k v m)"

definition existing_map :: "('e \<Rightarrow> string) \<Rightarrow> 'e list \<Rightarrow> (string \<times> 'e) list" where
  "existing_map name es = fold (\<lambda>e. map_put (name e) e) es []"

text \<open>The loop that \<^verbatim>\<open>compare\<close>, \<^verbatim>\<open>compare_structs\<close> and \<^verbatim>\<open>compare_enums\<close> share: what is new, what is changed, and
  what is left in the map at the end.\<close>

fun compare_items :: "('i \<Rightarrow> string) \<Rightarrow> ('e \<Rightarrow> 'i \<Rightarrow> bool) \<Rightarrow> 'i list \<Rightarrow> (string \<times> 'e) list
    \<Rightarrow> 'i list \<times> ('e \<times> 'i) list \<times> 'e list" where
  "compare_items name differs [] m = ([], [], map snd m)"
| "compare_items name differs (x # xs) m = (case map_of m (name x) of
      None \<Rightarrow> (case compare_items name differs xs m of (n, d, r) \<Rightarrow> (x # n, d, r))
    | Some e \<Rightarrow> (case compare_items name differs xs (AList.delete (name x) m) of
        (n, d, r) \<Rightarrow> (n, if differs e x then (e, x) # d else d, r)))"

definition method_differs :: "existing_method \<Rightarrow> method_def \<Rightarrow> bool" where
  "method_differs e m \<longleftrightarrow> normalize_signature (type_to_cpp (md_return m)) (params_to_string (md_params m))
    \<noteq> normalize_signature (em_return_type e) (em_params e)"

definition struct_differs :: "existing_struct \<Rightarrow> struct_def \<Rightarrow> bool" where
  "struct_differs e s \<longleftrightarrow> normalize_fields (sd_fields s) \<noteq> normalize_existing_fields (es_fields e)"

definition enum_differs :: "existing_enum \<Rightarrow> enum_def \<Rightarrow> bool" where
  "enum_differs x e \<longleftrightarrow> normalize_enum_values (ed_items e) \<noteq> normalize_existing_enum_values (xe_values x)"

definition compare :: "service_def \<Rightarrow> existing_method list \<Rightarrow> sync_report" where
  "compare service existing =
    (case compare_items md_name method_differs (sv_methods service) (existing_map em_name existing) of (n, d, r) \<Rightarrow>
      no_changes\<lparr>new_methods := n, modified_methods := d, removed_methods := r\<rparr>)"

definition compare_structs :: "namespace_def \<Rightarrow> existing_struct list \<Rightarrow> sync_report \<Rightarrow> sync_report" where
  "compare_structs ns existing report =
    (case compare_items sd_name struct_differs (ns_structs ns) (existing_map es_name existing) of (n, d, r) \<Rightarrow>
      report\<lparr>new_structs := n, modified_structs := d, removed_structs := r\<rparr>)"

definition compare_enums :: "namespace_def \<Rightarrow> existing_enum list \<Rightarrow> sync_report \<Rightarrow> sync_report" where
  "compare_enums ns existing report =
    (case compare_items ed_name enum_differs (ns_enums ns) (existing_map xe_name existing) of (n, d, r) \<Rightarrow>
      report\<lparr>new_enums := n, modified_enums := d, removed_enums := r\<rparr>)"

section \<open>The report\<close>

definition report_section :: "string list \<Rightarrow> string" where
  "report_section titles = line [''//''] @ each (\<lambda>t. line [t]) titles @ line [''//'']"

definition report_new_method :: "method_def \<Rightarrow> string" where
  "report_new_method m =
    (if md_doc m = [] then [] else line [''//     /// '', md_doc m])
    @ line [''//     '', type_to_cpp (md_return m), '' '', md_name m, ''('', params_to_string (md_params m), '') override {'']
    @ line [''//         // TODO: implement'']
    @ todo_throw ''//         '' (md_name m)
    @ line [''//     }'']
    @ line [''//'']"

definition report_removed_method :: "existing_method \<Rightarrow> string" where
  "report_removed_method m =
    line [''//     '', em_return_type m, '' '', em_name m, ''('', em_params m, '')'']
    @ line [''//     ^ Line '', dec_string (em_line_number m), '' - consider removing'']
    @ line [''//'']"

definition report_modified_method :: "existing_method \<times> method_def \<Rightarrow> string" where
  "report_modified_method = (\<lambda>(e, m).
    line [''//     '', md_name m, '':'']
    @ line [''//       WAS: '', em_return_type e, '' '', em_name e, ''('', em_params e, '')'']
    @ line [''//       NOW: '', type_to_cpp (md_return m), '' '', md_name m, ''('', params_to_string (md_params m), '')'']
    @ line [''//       Line '', dec_string (em_line_number e), '' in your implementation'']
    @ line [''//''])"

definition report_field :: "field_def \<Rightarrow> string" where
  "report_field f = line [''//         '', type_to_cpp (fd_type f), '' '', fd_name f]"

definition report_new_struct :: "struct_def \<Rightarrow> string" where
  "report_new_struct s = line [''//     '', sd_name s, '':''] @ each report_field (sd_fields s) @ line [''//'']"

definition report_modified_struct :: "existing_struct \<times> struct_def \<Rightarrow> string" where
  "report_modified_struct = (\<lambda>(e, s).
    line [''//     '', sd_name s, '':'']
    @ line [''//       WAS:'']
    @ each (\<lambda>f. line [''//         '', ef_type f, '' '', ef_name f]) (es_fields e)
    @ line [''//       NOW:'']
    @ each report_field (sd_fields s)
    @ line [''//''])"

definition report_item :: "enum_item \<Rightarrow> string" where
  "report_item v = line [''//         '', ei_name v, value_text '' = '' (ei_value v)]"

definition report_new_enum :: "enum_def \<Rightarrow> string" where
  "report_new_enum e = line [''//     '', if ed_is_flags e then ''flags '' else ''enum '', ed_name e, '':'']
    @ each report_item (ed_items e) @ line [''//'']"

definition report_modified_enum :: "existing_enum \<times> enum_def \<Rightarrow> string" where
  "report_modified_enum = (\<lambda>(x, e).
    line [''//     '', ed_name e, '':'']
    @ line [''//       WAS:'']
    @ each (\<lambda>v. line [''//         '', xv_name v, value_text '' = '' (xv_value v)]) (xe_values x)
    @ line [''//       NOW:'']
    @ each report_item (ed_items e)
    @ line [''//''])"

definition generate_sync_report :: "string \<Rightarrow> namespace_def \<Rightarrow> sync_report \<Rightarrow> string" where
  "generate_sync_report now ns report =
    newline
    @ line [''// ============================================================'']
    @ line [''// SCAFFOLD SYNC REPORT - '', ns_name ns, ''.song'']
    @ line [''// Generated: '', now]
    @ line [''// ============================================================'']
    @ (if new_methods report = [] then [] else
        report_section [''// ----- NEW METHODS (add to your class) ----------------------'']
        @ each report_new_method (new_methods report))
    @ (if removed_methods report = [] then [] else
        report_section [''// ----- REMOVED FROM IDL (consider deleting) -----------------'']
        @ each report_removed_method (removed_methods report))
    @ (if modified_methods report = [] then [] else
        report_section [''// ----- SIGNATURE CHANGED (update your implementation) -------'']
        @ each report_modified_method (modified_methods report))
    @ (if new_structs report = [] then [] else
        report_section [''// ----- NEW STRUCTS -----------------------------------------'']
        @ each report_new_struct (new_structs report))
    @ (if removed_structs report = [] then [] else
        report_section [''// ----- STRUCTS REMOVED FROM IDL ----------------------------'', ''//     ^ Your code may reference these types'']
        @ each (\<lambda>s. line [''//     '', es_name s]) (removed_structs report) @ line [''//''])
    @ (if modified_structs report = [] then [] else
        report_section [''// ----- STRUCT FIELDS CHANGED -------------------------------'']
        @ each report_modified_struct (modified_structs report))
    @ (if new_enums report = [] then [] else
        report_section [''// ----- NEW ENUMS -------------------------------------------'']
        @ each report_new_enum (new_enums report))
    @ (if removed_enums report = [] then [] else
        report_section [''// ----- ENUMS REMOVED FROM IDL ------------------------------'', ''//     ^ Your code may reference these types'']
        @ each (\<lambda>e. line [''//     '', xe_name e]) (removed_enums report) @ line [''//''])
    @ (if modified_enums report = [] then [] else
        report_section [''// ----- ENUM VALUES CHANGED ---------------------------------'']
        @ each report_modified_enum (modified_enums report))
    @ line [''// ============================================================'']"

definition scaffold_report :: "namespace_def \<Rightarrow> service_def \<Rightarrow> string \<Rightarrow> string option \<Rightarrow> sync_report res" where
  "scaffold_report ns service impl header =
    (let report = compare service (parse_existing_impl impl) in case header of
      None \<Rightarrow> Inr report
    | Some h \<Rightarrow> rbind (parse_existing_enums h) (\<lambda>enums.
        Inr (compare_enums ns enums (compare_structs ns (parse_existing_structs h) report))))"

definition generate_scaffold :: "string \<Rightarrow> namespace_def \<Rightarrow> service_def \<Rightarrow> string option \<Rightarrow> string option \<Rightarrow> string res" where
  "generate_scaffold now ns service impl header = (case impl of
      None \<Rightarrow> Inr (generate_skeleton ns service)
    | Some content \<Rightarrow> rbind (scaffold_report ns service content header) (\<lambda>report.
        if \<not> has_changes report then Inr (content @ newline @ line [''// Scaffold sync: all methods up to date''])
        else Inr (content @ generate_sync_report now ns report)))"

section \<open>Lines\<close>

definition one_line :: "string \<Rightarrow> bool" where
  "one_line s \<longleftrightarrow> CHR 0x0A \<notin> set s"

lemma one_line_simps [simp]: "one_line []" "one_line (c # cs) \<longleftrightarrow> c \<noteq> CHR 0x0A \<and> one_line cs"
  "one_line (xs @ ys) \<longleftrightarrow> one_line xs \<and> one_line ys" "one_line (concat ss) \<longleftrightarrow> (\<forall>s \<in> set ss. one_line s)"
  by (auto simp: one_line_def)

lemma getlines_line: "one_line s \<Longrightarrow> getlines (s @ CHR 0x0A # rest) = s # getlines rest"
  by (induction s) auto

lemma getlines_lines: "\<forall>l \<in> set ls. one_line l \<Longrightarrow> getlines (each (\<lambda>l. line [l]) ls @ rest) = ls @ getlines rest"
  by (induction ls) (simp_all add: each_def line_def newline_def getlines_line)

lemma getlines_one_line: "l \<in> set (getlines s) \<Longrightarrow> one_line l"
  by (induction s arbitrary: l rule: getlines.induct) (auto split: if_splits list.splits)

lemma one_line_replicate [simp]: "one_line (replicate n c) \<longleftrightarrow> n = 0 \<or> c \<noteq> CHR 0x0A"
  by (auto simp: one_line_def)

text \<open>A text that consists of whole lines, each of which has a property.\<close>

definition made_of :: "(string \<Rightarrow> bool) \<Rightarrow> string \<Rightarrow> bool" where
  "made_of P s \<longleftrightarrow> (\<exists>ls. s = each (\<lambda>l. line [l]) ls \<and> (\<forall>l \<in> set ls. one_line l \<and> P l))"

lemma made_of_Nil [simp, intro]: "made_of P []"
  unfolding made_of_def by (intro exI [of _ "[]"]) (simp add: each_def)

lemma made_of_line [intro]: "one_line (concat ss) \<Longrightarrow> P (concat ss) \<Longrightarrow> made_of P (line ss)"
  unfolding made_of_def by (intro exI [of _ "[concat ss]"]) (simp add: each_def line_def)

lemma made_of_newline [intro]: "P [] \<Longrightarrow> made_of P newline"
  unfolding made_of_def by (intro exI [of _ "[[]]"]) (simp add: each_def line_def)

lemma made_of_append [intro]: "made_of P s \<Longrightarrow> made_of P t \<Longrightarrow> made_of P (s @ t)"
  unfolding made_of_def by (elim exE) (rename_tac ls ks, rule_tac x = "ls @ ks" in exI, auto simp: each_def)

lemma made_of_each [intro]: "(\<And>x. x \<in> set xs \<Longrightarrow> made_of P (f x)) \<Longrightarrow> made_of P (each f xs)"
  by (induction xs) (auto simp: each_def)

lemma made_of_if [intro]: "(c \<Longrightarrow> made_of P s) \<Longrightarrow> (\<not> c \<Longrightarrow> made_of P t) \<Longrightarrow> made_of P (if c then s else t)"
  by simp

lemma made_of_getlines: "made_of P s \<Longrightarrow> l \<in> set (getlines s) \<Longrightarrow> P l"
  unfolding made_of_def using getlines_lines [of _ "[]"] by fastforce

lemma one_line_separated [simp]: "one_line sep \<Longrightarrow> one_line (separated sep xs) \<longleftrightarrow> (\<forall>x \<in> set xs. one_line x)"
  by (induction sep xs rule: separated.induct) auto

section \<open>The report is a comment\<close>

definition comment_line :: "string \<Rightarrow> bool" where
  "comment_line l \<longleftrightarrow> l = [] \<or> take 2 l = ''//''"

text \<open>Types and names of an interface file, and documentation of one line.\<close>

definition type_one_line :: "idl_type \<Rightarrow> bool" where
  "type_one_line t \<longleftrightarrow> (case ty_base t of User n \<Rightarrow> one_line n | Primitive p \<Rightarrow> True)"

definition param_one_line :: "param \<Rightarrow> bool" where
  "param_one_line p \<longleftrightarrow> one_line (pm_name p) \<and> type_one_line (pm_type p)"

definition method_one_line :: "method_def \<Rightarrow> bool" where
  "method_one_line m \<longleftrightarrow> one_line (md_name m) \<and> one_line (md_doc m) \<and> type_one_line (md_return m)
    \<and> (\<forall>p \<in> set (md_params m). param_one_line p)"

definition existing_one_line :: "existing_method \<Rightarrow> bool" where
  "existing_one_line e \<longleftrightarrow> one_line (em_name e) \<and> one_line (em_return_type e) \<and> one_line (em_params e)"

lemma one_line_primitive [simp]: "one_line (primitive_to_cpp p)"
  by (cases p) simp_all

lemma one_line_type [simp]: "type_one_line t \<Longrightarrow> one_line (type_to_cpp t)"
  by (auto simp: type_to_cpp_def type_one_line_def Let_def split: base_type.splits)

lemma one_line_param [simp]: "param_one_line p \<Longrightarrow> one_line (type_to_param (pm_type p) (pm_name p))"
  by (auto simp: type_to_param_def param_one_line_def Let_def)

lemma one_line_params [simp]: "\<forall>p \<in> set ps. param_one_line p \<Longrightarrow> one_line (params_to_string ps)"
  by (simp add: params_to_string_def)

lemma one_line_subset: "set s \<subseteq> set t \<Longrightarrow> one_line t \<Longrightarrow> one_line s"
  by (auto simp: one_line_def)

lemma one_line_method_of_line: "one_line l \<Longrightarrow> e \<in> set (method_of_line n l) \<Longrightarrow> existing_one_line e"
proof -
  assume l: "one_line l" and e: "e \<in> set (method_of_line n l)"
  then obtain m where m: "regex_search method_regex l = Some m"
    and e: "e = \<lparr>em_name = submatch 2 m, em_return_type = regex_replace trim_regex [] (submatch 1 m),
           em_params = regex_replace trim_regex [] (submatch 3 m), em_line_number = n\<rparr>"
    by (cases "regex_search method_regex l") (auto simp: method_of_line_def split: if_splits)
  have "set (submatch i m) \<subseteq> set l" for i using search_group [OF m [unfolded regex_search_def]] .
  moreover have "set (regex_replace trim_regex [] s) \<subseteq> set s" for s
    using replace_from_set [of trim_regex "[]" True s] by (simp add: regex_replace_def)
  ultimately have "set (submatch i m) \<subseteq> set l" "set (regex_replace trim_regex [] (submatch i m)) \<subseteq> set l" for i
    by (blast intro: order_trans)+
  then show ?thesis by (simp add: e existing_one_line_def one_line_subset [OF _ l])
qed

lemma one_line_existing: "e \<in> set (parse_existing_impl content) \<Longrightarrow> existing_one_line e"
  by (auto simp: parse_existing_impl_def enumerate_eq_zip dest!: set_zip_rightD
      intro: one_line_method_of_line getlines_one_line)

lemma existing_map_range: "(k, e) \<in> set (existing_map name es) \<Longrightarrow> e \<in> set es"
proof -
  have put: "(k, e) \<in> set (map_put j v m) \<Longrightarrow> e = v \<or> (k, e) \<in> set m" for k e j v m
    by (induction j v m rule: map_put.induct) (auto split: if_splits)
  have "(k, e) \<in> set (fold (\<lambda>e. map_put (name e) e) es m) \<Longrightarrow> e \<in> set es \<or> (k, e) \<in> set m" for m
    by (induction es arbitrary: m) (auto dest: put)
  then show "(k, e) \<in> set (existing_map name es) \<Longrightarrow> e \<in> set es" by (fastforce simp: existing_map_def)
qed

lemma compare_items_set:
  assumes "compare_items name differs xs m = (n, d, r)"
  shows "set n \<subseteq> set xs \<and> set d \<subseteq> (snd ` set m) \<times> set xs \<and> set r \<subseteq> snd ` set m"
  using assms
proof (induction name differs xs m arbitrary: n d r rule: compare_items.induct)
  case (2 name differs x xs m)
  show ?case
  proof (cases "map_of m (name x)")
    case None
    obtain n' d' r' where rest: "compare_items name differs xs m = (n', d', r')" by (metis prod_cases3)
    with 2(1) [OF None rest] 2(3) None show ?thesis by auto
  next
    case (Some e)
    have sub: "snd ` set (AList.delete (name x) m) \<subseteq> snd ` set m" by (auto simp: AList.delete_eq)
    obtain n' d' r' where rest: "compare_items name differs xs (AList.delete (name x) m) = (n', d', r')"
      by (metis prod_cases3)
    have e: "e \<in> snd ` set m" using map_of_SomeD [OF Some] by (metis image_eqI snd_conv)
    have "n = n'" "r = r'" "d = (if differs e x then (e, x) # d' else d')" using 2(3) Some rest by auto
    moreover have "set n' \<subseteq> set xs" "set d' \<subseteq> (snd ` set (AList.delete (name x) m)) \<times> set xs"
        "set r' \<subseteq> snd ` set (AList.delete (name x) m)"
      using 2(2) [OF Some rest] by blast+
    ultimately show ?thesis using e sub by (cases "differs e x") (simp_all, blast+)
  qed
qed simp

lemma one_line_numbers [simp]: "one_line (dec_string n)" "one_line (int_string i)"
  using plain_dec_string [of n] plain_int_string [of i] by (auto simp: one_line_def plain_def plain_char_def)

text \<open>The lines of a report about methods, when neither the interface file nor the implementation
  brings a line break into a name.\<close>

definition commented :: "string \<Rightarrow> bool" where
  "commented s \<longleftrightarrow> made_of comment_line s"

lemma commented_simps [intro]:
  "commented []" "commented newline" "commented s \<Longrightarrow> commented t \<Longrightarrow> commented (s @ t)"
  "(\<And>x. x \<in> set xs \<Longrightarrow> commented (f x)) \<Longrightarrow> commented (each f xs)"
  "one_line (concat ss) \<Longrightarrow> comment_line (concat ss) \<Longrightarrow> commented (line ss)"
  "(\<not> c \<Longrightarrow> commented s) \<Longrightarrow> commented (if c then [] else s)"
  by (auto simp: commented_def comment_line_def)

lemma commented_methods:
  "method_one_line m \<Longrightarrow> commented (report_new_method m)"
  "existing_one_line e \<Longrightarrow> commented (report_removed_method e)"
  "existing_one_line e \<Longrightarrow> method_one_line m \<Longrightarrow> commented (report_modified_method (e, m))"
  unfolding report_new_method_def report_removed_method_def report_modified_method_def todo_throw_def case_prod_conv
  by (intro commented_simps(1,3,6) commented_simps(5);
      simp add: comment_line_def method_one_line_def existing_one_line_def quote_def)+

text \<open>Synchronizing never touches the code of an implementation: for an interface whose names
  and documentation have no line breaks, the generator returns the file as it is, a line break, and after it
  only blank lines and lines that begin with two slashes.\<close>

theorem sync_appends_comments:
  assumes "\<forall>m \<in> set (sv_methods service). method_one_line m" "one_line (ns_name ns)" "one_line now"
  shows "\<exists>rest. generate_scaffold now ns service (Some content) None = Inr (content @ newline @ rest)
    \<and> (\<forall>l \<in> set (getlines rest). comment_line l)"
proof -
  define r where "r = compare service (parse_existing_impl content)"
  obtain n d m where c: "compare_items md_name method_differs (sv_methods service)
      (existing_map em_name (parse_existing_impl content)) = (n, d, m)" by (metis prod_cases3)
  have ex: "\<forall>e \<in> snd ` set (existing_map em_name (parse_existing_impl content)). existing_one_line e"
    by (auto intro: one_line_existing [OF existing_map_range])
  have r: "new_methods r = n" "modified_methods r = d" "removed_methods r = m" "new_structs r = []" "removed_structs r = []"
      "modified_structs r = []" "new_enums r = []" "removed_enums r = []" "modified_enums r = []"
    by (simp_all add: r_def compare_def c no_changes_def)
  have "\<forall>x \<in> set n. method_one_line x" "\<forall>x \<in> set d. existing_one_line (fst x) \<and> method_one_line (snd x)"
      "\<forall>x \<in> set m. existing_one_line x"
    using compare_items_set [OF c] assms(1) ex by fastforce+
  then have parts: "commented (each report_new_method n)" "commented (each report_modified_method d)"
      "commented (each report_removed_method m)"
    using commented_methods by (auto intro!: commented_simps(4))
  define rest where "rest = (if \<not> has_changes r then line [''// Scaffold sync: all methods up to date'']
    else tl (generate_sync_report now ns r))"
  have "commented rest"
    unfolding rest_def generate_sync_report_def r report_section_def newline_def using parts assms(2,3)
    by (auto intro!: commented_simps simp: comment_line_def)
  moreover have "generate_scaffold now ns service (Some content) None = Inr (content @ newline @ rest)"
    by (simp add: generate_scaffold_def scaffold_report_def r_def [symmetric] rest_def generate_sync_report_def newline_def)
  ultimately show ?thesis using made_of_getlines by (auto simp: commented_def)
qed

section \<open>What a comparison reports\<close>

lemma compare_items_spec:
  assumes "distinct (map name xs)"
  shows "compare_items name differs xs m =
    (filter (\<lambda>x. map_of m (name x) = None) xs,
     concat (map (\<lambda>x. case map_of m (name x) of None \<Rightarrow> [] | Some e \<Rightarrow> if differs e x then [(e, x)] else []) xs),
     map snd (filter (\<lambda>(k, e). k \<notin> name ` set xs) m))"
  using assms
proof (induction xs arbitrary: m)
  case (Cons x xs)
  have same: "map_of (AList.delete (name x) m) (name y) = map_of m (name y)" if "y \<in> set xs" for y
    using Cons.prems that by (auto simp: delete_conv' image_iff)
  have keys: "filter (\<lambda>(k, e). k \<notin> name ` set xs) (AList.delete (name x) m) = filter (\<lambda>(k, e). k \<notin> name ` set (x # xs)) m"
    by (auto simp: AList.delete_eq intro!: filter_cong)
  have absent: "map_of m (name x) = None \<Longrightarrow> filter (\<lambda>(k, e). k \<notin> name ` set xs) m = filter (\<lambda>(k, e). k \<notin> name ` set (x # xs)) m"
  proof (rule filter_cong [OF refl])
    fix p assume absent: "map_of m (name x) = None" and "p \<in> set m"
    then have "fst p \<noteq> name x" by (metis map_of_eq_None_iff imageI)
    then show "(case p of (k, e) \<Rightarrow> k \<notin> name ` set xs) = (case p of (k, e) \<Rightarrow> k \<notin> name ` set (x # xs))"
      by (cases p) simp
  qed
  have "filter (\<lambda>y. map_of (AList.delete (name x) m) (name y) = None) xs = filter (\<lambda>y. map_of m (name y) = None) xs"
    "concat (map (\<lambda>y. case map_of (AList.delete (name x) m) (name y) of None \<Rightarrow> [] | Some e \<Rightarrow> if differs e y then [(e, y)] else []) xs)
      = concat (map (\<lambda>y. case map_of m (name y) of None \<Rightarrow> [] | Some e \<Rightarrow> if differs e y then [(e, y)] else []) xs)"
    using same by (simp_all cong: filter_cong map_cong)
  with Cons.IH Cons.prems keys absent show ?case by (cases "map_of m (name x)") simp_all
qed simp

text \<open>Fields of a header that carry documentation are not recognized: the type that the pattern finds
  begins with the comment.\<close>

lemma documented_field_dropped:
  "map es_fields (parse_existing_structs (''struct p {'' @ newline @ ''/// d'' @ newline @ ''i32 x; i32 y;};''))
    = [[\<lparr>ef_name = ''y'', ef_type = ''i32''\<rparr>]]"
  by code_simp

section \<open>A fresh skeleton is up to date\<close>

text \<open>Names are words, types are built from them; the characters of both are in the classes of the
  pattern, and none of them is white.\<close>

definition ident :: "string \<Rightarrow> bool" where
  "ident s \<longleftrightarrow> s \<noteq> [] \<and> (\<forall>c \<in> set s. is_word c)"

definition type_named :: "idl_type \<Rightarrow> bool" where
  "type_named t \<longleftrightarrow> (case ty_base t of User n \<Rightarrow> ident n | Primitive p \<Rightarrow> True)"

definition method_named :: "method_def \<Rightarrow> bool" where
  "method_named m \<longleftrightarrow> ident (md_name m) \<and> type_named (md_return m)
    \<and> (\<forall>p \<in> set (md_params m). ident (pm_name p) \<and> type_named (pm_type p))"

lemma word_chars:
  assumes "is_word c"
  shows "is_type_char c" "\<not> is_white c" "c \<noteq> CHR ''('' \<and> c \<noteq> CHR '')'' \<and> c \<noteq> CHR 0x0A \<and> c \<noteq> CHR ''<'' \<and> c \<noteq> CHR '' ''"
  using assms by (auto simp: is_type_char_def is_word_def is_white_def)

lemma type_char: "is_type_char c \<Longrightarrow> \<not> is_white c \<and> c \<noteq> CHR '')''"
  by (auto simp: is_type_char_def is_word_def is_white_def)

lemma type_text: "type_named t \<Longrightarrow> type_to_cpp t \<noteq> [] \<and> (\<forall>c \<in> set (type_to_cpp t). is_type_char c)"
proof -
  assume t: "type_named t"
  have p: "primitive_to_cpp p \<noteq> [] \<and> (\<forall>c \<in> set (primitive_to_cpp p). is_type_char c)" for p
    by (cases p) (simp_all add: is_type_char_def is_word_def)
  have chars: "\<forall>c \<in> set ''std::vector<>''. is_type_char c" "\<forall>c \<in> set ''std::optional<>''. is_type_char c"
    by (simp_all add: is_type_char_def is_word_def)
  define b where "b = (case ty_base t of Primitive p \<Rightarrow> primitive_to_cpp p | User n \<Rightarrow> n)"
  have b: "b \<noteq> []" "\<forall>c \<in> set b. is_type_char c"
    using t p word_chars(1) by (auto simp: b_def type_named_def ident_def split: base_type.splits)
  show ?thesis
    unfolding type_to_cpp_def b_def [symmetric] Let_def using b chars by auto
qed

text \<open>Trimming leaves a text alone that neither begins nor ends in white space.\<close>

lemma some1_then_end: "cs = [] \<or> \<not> p (last cs) \<Longrightarrow> matches (Seq (Some1 p) AtEnd) (b, cs, caps) = []"
proof (rule ccontr)
  assume last: "cs = [] \<or> \<not> p (last cs)" and "matches (Seq (Some1 p) AtEnd) (b, cs, caps) \<noteq> []"
  then obtain c xs b' where cs: "cs = c # xs" and p: "p c" and m: "(b', []) \<in> set (many p False xs)"
    by (auto simp: Some1_def split: list.splits if_splits)
  from many_suffix [OF m] p last cs show False by (auto split: if_splits)
qed

lemma trim_none: "b \<longrightarrow> cs = [] \<or> \<not> is_white (hd cs) \<Longrightarrow> cs = [] \<or> \<not> is_white (last cs) \<Longrightarrow> search_from trim_regex b cs = None"
proof (induction cs arbitrary: b)
  case Nil
  have "matches trim_regex (b, [], []) = []" by (simp add: trim_regex_def Some1_def)
  then show ?case by (subst search_from.simps) simp
next
  case (Cons c cs)
  have "matches (Seq AtStart (Some1 is_white)) (b, c # cs, []) = []" using Cons.prems(1) by (auto simp: Some1_def)
  moreover have "matches (Seq (Some1 is_white) AtEnd) (b, c # cs, []) = []" using Cons.prems(2) by (intro some1_then_end) simp
  ultimately have "matches trim_regex (b, c # cs, []) = []" by (simp only: trim_regex_def matches.simps append_Nil)
  moreover have "search_from trim_regex False cs = None"
    using Cons.prems(2) by (intro Cons.IH) (auto split: if_splits)
  ultimately show ?case by (subst search_from.simps) simp
qed

lemma trim_unchanged: "s = [] \<or> \<not> is_white (hd s) \<and> \<not> is_white (last s) \<Longrightarrow> regex_replace trim_regex [] s = s"
  unfolding regex_replace_def using trim_none [of True s] by (subst replace_from.simps) auto

text \<open>The line of a method, and what the pattern finds in it.\<close>

definition method_line :: "string \<Rightarrow> string \<Rightarrow> string \<Rightarrow> string" where
  "method_line t n ps = ''    '' @ t @ '' '' @ n @ ''('' @ ps @ '') override {''"

lemma method_line_found:
  assumes t: "t \<noteq> []" "\<forall>c \<in> set t. is_type_char c" and n: "ident n" and ps: "CHR '')'' \<notin> set ps"
  shows "\<exists>m. regex_search method_regex (method_line t n ps) = Some m
    \<and> submatch 1 m = t \<and> submatch 2 m = n \<and> submatch 3 m = ps"
proof -
  have n_ne: "n \<noteq> []" and n_word: "\<forall>c \<in> set n. is_word c" using n by (auto simp: ident_def)
  have hd_t: "\<not> is_white (hd t)" using t type_char by (cases t) auto
  have hd_n: "\<not> is_white (hd n)" "hd n \<noteq> CHR ''<''" using n_ne n_word word_chars by (cases n; auto)+
  let ?r7 = "''override {''" let ?r6 = "'' '' @ ?r7" let ?r5 = "'')'' @ ?r6" let ?r4 = "ps @ ?r5"
  let ?r3 = "''('' @ ?r4" let ?r2 = "n @ ?r3" let ?r1 = "'' '' @ ?r2" let ?c1 = "[(1, t)]" let ?c2 = "(2, n) # ?c1" let ?c3 = "(3, ps) # ?c2"
  have 1: "first_match (Group 1 type_regex) (False, t @ ?r1, []) (False, ?r1, ?c1)"
  proof (rule first_Group)
    have "first_match (Some1 is_type_char) (False, t @ ?r1, []) (False, ?r1, [])"
      using t by (intro first_Some1) (simp_all add: is_type_char_def is_word_def)
    moreover have "matches (Seq (Many is_white) (Seq (Char CHR ''<'') (Seq (Some1 (\<lambda>c. c \<noteq> CHR ''>'')) (Char CHR ''>'')))) (False, ?r1, []) = []"
      using hd_n n_ne by (cases n) (auto simp: Char_def is_white_def)
    ultimately show "first_match type_regex (False, t @ ?r1, []) (False, ?r1, [])"
      unfolding type_regex_def by (blast intro: first_Seq first_Opt_none)
  qed
  have 2: "first_match (Some1 is_white) (False, ?r1, ?c1) (False, ?r2, ?c1)"
    using hd_n n_ne by (intro first_Some1) (auto simp: is_white_def)
  have 3: "first_match (Group 2 (Some1 is_word)) (False, ?r2, ?c1) (False, ?r3, ?c2)"
    using n_ne n_word by (intro first_Group first_Some1) (simp_all add: is_word_def)
  have 4: "first_match (Many is_white) (False, ?r3, ?c2) (False, ?r3, ?c2)"
    using first_Many [of "[]" is_white ?r3 False ?c2] by (simp add: is_white_def)
  have 5: "first_match (Char CHR ''('') (False, ?r3, ?c2) (False, ?r4, ?c2)" by auto
  have 6: "first_match (Group 3 (Many (\<lambda>c. c \<noteq> CHR '')''))) (False, ?r4, ?c2) (False, ?r5, ?c3)"
    using first_Many [of ps "\<lambda>c. c \<noteq> CHR '')''" ?r5 False ?c2] ps by (intro first_Group) auto
  have 7: "first_match (Char CHR '')'') (False, ?r5, ?c3) (False, ?r6, ?c3)" by auto
  have 8: "first_match (Many is_white) (False, ?r6, ?c3) (False, ?r7, ?c3)"
    using first_Many [of "'' ''" is_white ?r7 False ?c3] by (simp add: is_white_def)
  have 9: "first_match (Opt (Seq (Word ''const'') (Many is_white))) (False, ?r7, ?c3) (False, ?r7, ?c3)"
    by (rule first_Opt_none) (simp add: Char_def)
  have 10: "first_match (Word ''override'') (False, ?r7, ?c3) (False, '' {'', ?c3)"
    using first_Word [of "''override''" False "'' {''" ?c3] by simp
  have rest: "first_match method_rest_regex (False, ?r1, ?c1) (False, '' {'', ?c3)"
    unfolding method_rest_regex_def by (rule first_Seq 2 3 4 5 6 7 8 9 10)+
  have white: "first_match (Many is_white) (True, ''    '' @ t @ ?r1, []) (False, t @ ?r1, [])"
    using first_Many [of "''    ''" is_white "t @ ?r1" True "[]"] hd_t t(1) by (simp add: is_white_def)
  have "first_match method_regex (True, ''    '' @ t @ ?r1, []) (False, '' {'', ?c3)"
    unfolding method_regex_def by (rule first_Seq first_AtStart white 1 rest)+
  then obtain m where "search_from method_regex True (method_line t n ps) = Some m" "mt_groups m = (0, butlast (butlast (method_line t n ps))) # ?c3"
    using search_first [of method_regex True "butlast (butlast (method_line t n ps))" "'' {''" False ?c3]
    by (auto simp: method_line_def butlast_append)
  then show ?thesis by (auto simp: regex_search_def submatch_def)
qed

interpretation sm: key_store map_of map_put AList.delete "[]"
proof
  show "map_of (map_put k v m) = (map_of m)(k \<mapsto> v)" for k and v :: 'v and m
    by (induction k v m rule: map_put.induct) auto
qed (simp_all add: delete_conv')

lemma existing_map_finds:
  assumes "distinct (map name es)" "e \<in> set es"
  shows "map_of (existing_map name es) (name e) = Some e"
  using assms
proof (induction es rule: rev_induct)
  case (snoc x es)
  then show ?case by (cases "e = x") (auto simp: existing_map_def sm.find_put image_iff)
qed simp

lemma existing_map_keys: "(k, e) \<in> set (existing_map name es) \<Longrightarrow> k = name e"
proof -
  have put: "(k, e) \<in> set (map_put j v m) \<Longrightarrow> k = j \<and> e = v \<or> (k, e) \<in> set m" for k e j v m
    by (induction j v m rule: map_put.induct) (auto split: if_splits)
  have "(k, e) \<in> set (fold (\<lambda>e. map_put (name e) e) es m) \<Longrightarrow> k = name e \<or> (k, e) \<in> set m" for m
    by (induction es arbitrary: m) (auto dest: put)
  then show "(k, e) \<in> set (existing_map name es) \<Longrightarrow> k = name e" by (fastforce simp: existing_map_def)
qed

lemma compare_unchanged:
  assumes "distinct (map name xs)" and "\<forall>x \<in> set xs. \<exists>e. map_of m (name x) = Some e \<and> \<not> differs e x"
    and "fst ` set m \<subseteq> name ` set xs"
  shows "compare_items name differs xs m = ([], [], [])"
  using assms
proof (induction xs arbitrary: m)
  case (Cons x xs)
  obtain e where e: "map_of m (name x) = Some e" "\<not> differs e x" using Cons.prems(2) by auto
  have "compare_items name differs xs (AList.delete (name x) m) = ([], [], [])"
  proof (rule Cons.IH)
    show "\<forall>y \<in> set xs. \<exists>e. map_of (AList.delete (name x) m) (name y) = Some e \<and> \<not> differs e y"
      using Cons.prems(1,2) by (auto simp: delete_conv' image_iff)
    show "fst ` set (AList.delete (name x) m) \<subseteq> name ` set xs"
      using Cons.prems(3) by (auto simp: AList.delete_eq)
  qed (use Cons.prems in simp)
  with e show ?case by simp
qed simp

text \<open>Name, type and parameters of the methods that a line declares; the line's number plays no part.\<close>

definition sig_of :: "existing_method \<Rightarrow> string \<times> string \<times> string" where
  "sig_of e = (em_name e, em_return_type e, em_params e)"

definition line_sigs :: "string \<Rightarrow> (string \<times> string \<times> string) list" where
  "line_sigs l = map sig_of (method_of_line 0 l)"

lemma line_sigs_number: "map sig_of (method_of_line n l) = line_sigs l"
  by (simp add: line_sigs_def method_of_line_def sig_of_def split: option.split)

lemma parse_sigs: "map sig_of (parse_existing_impl content) = concat (map line_sigs (getlines content))"
proof -
  have "map sig_of (concat (map (\<lambda>(i, l). method_of_line i l) (enumerate n ls))) = concat (map line_sigs ls)" for n ls
    by (induction ls arbitrary: n) (simp_all add: line_sigs_number)
  then show ?thesis by (simp add: parse_existing_impl_def)
qed

lemma sigs_skip [simp]: "skip_line l \<Longrightarrow> line_sigs l = []"
  by (simp add: line_sigs_def method_of_line_def)

lemma sigs_no_paren: "CHR ''('' \<notin> set l \<Longrightarrow> line_sigs l = []"
proof -
  have "needs CHR ''('' method_regex" by (simp add: method_regex_def method_rest_regex_def Char_def)
  then show "CHR ''('' \<notin> set l \<Longrightarrow> line_sigs l = []"
    using search_needs by (simp add: line_sigs_def method_of_line_def regex_search_def)
qed

text \<open>In the line that throws, no name is followed by a parenthesis.\<close>

lemma white_first: "\<not> is_white (hd cs) \<Longrightarrow> cs \<noteq> [] \<Longrightarrow> (\<And>b. matches r (b, cs, caps) = []) \<Longrightarrow>
    (\<And>b c cs. is_white c \<Longrightarrow> matches r (b, c # cs, caps) = []) \<Longrightarrow> \<forall>c \<in> set xs. is_white c \<Longrightarrow>
    matches (Seq (Many is_white) r) (b, xs @ cs, caps) = []"
  by (induction xs arbitrary: b) (cases cs, auto)

lemma type_regex_white: "is_white c \<Longrightarrow> matches type_regex (b, c # cs, caps) = []"
  using type_char [of c] by (auto simp: type_regex_def Some1_def)

lemma rest_regex_black: "\<not> is_white c \<Longrightarrow> matches method_rest_regex (b, c # cs, caps) = []"
  by (simp add: method_rest_regex_def Some1_def)

lemma throw_chars:
  "is_type_char CHR ''t''" "is_type_char CHR ''h''" "is_type_char CHR ''r''" "is_type_char CHR ''o''" "is_type_char CHR ''w''"
  "is_word CHR ''s''" "is_word CHR ''t''" "is_word CHR ''d''" "\<not> is_word CHR '':''" "is_white CHR '' ''" "\<not> is_white CHR '':''"
  "\<not> is_white CHR ''t''" "\<not> is_white CHR ''h''" "\<not> is_white CHR ''r''" "\<not> is_white CHR ''o''" "\<not> is_white CHR ''w''"
  "\<not> is_white CHR ''s''" "\<not> is_white CHR ''d''" "\<not> is_type_char CHR '' ''"
  by (simp_all add: is_white_def is_type_char_def is_word_def)

lemma type_of_throw:
  "matches type_regex (b, ''throw '' @ CHR ''s'' # u, caps)
    = map (\<lambda>cs. (False, cs @ CHR ''s'' # u, caps)) ['' '', ''w '', ''ow '', ''row '', ''hrow '']"
  by (simp add: type_regex_def Some1_def throw_chars) (simp add: Char_def throw_chars)

lemma rest_of_throw: "matches method_rest_regex (b, '' std:'' @ u, caps) = []"
  by (simp add: method_rest_regex_def Some1_def throw_chars) (simp add: Char_def throw_chars)

lemma type_then_rest: "matches (Seq (Group 1 type_regex) method_rest_regex) (b, ''throw std:'' @ u, []) = []"
proof -
  have "matches (Group 1 type_regex) (b, ''throw '' @ CHR ''s'' # ''td:'' @ u, [])
      = map (\<lambda>cs. (False, cs @ ''std:'' @ u, [(1, take (11 + length u - (length cs + 5 + length u)) (''throw std:'' @ u))]))
          ['' '', ''w '', ''ow '', ''row '', ''hrow '']"
    unfolding matches.simps type_of_throw by simp
  then show ?thesis using rest_of_throw [of False u] by (simp add: rest_regex_black throw_chars)
qed

lemma sigs_throw: "line_sigs (''        throw std:'' @ s) = []"
proof -
  have "matches (Seq (Many is_white) (Seq (Group 1 type_regex) method_rest_regex))
      (True, ''        '' @ ''throw std:'' @ s, []) = []"
    by (rule white_first) (simp_all add: type_then_rest [simplified] type_regex_white throw_chars)
  then have "regex_search method_regex (''        throw std:'' @ s) = None"
    unfolding method_regex_def by (intro search_anchored_None) simp
  then show ?thesis by (simp add: line_sigs_def method_of_line_def)
qed

lemma code_line: "c \<notin> {CHR '' '', CHR 0x09, CHR ''/'', CHR ''*''} \<Longrightarrow> \<not> skip_line (''    '' @ c # cs)"
  by (simp add: skip_line_def)

lemma sigs_method:
  assumes t: "t \<noteq> []" "\<forall>c \<in> set t. is_type_char c" and n: "ident n" and ps: "CHR '')'' \<notin> set ps"
    and trim: "ps = [] \<or> \<not> is_white (hd ps) \<and> \<not> is_white (last ps)"
  shows "line_sigs (method_line t n ps) = [(n, t, ps)]"
proof -
  have "regex_replace trim_regex [] t = t" using t type_char by (intro trim_unchanged) simp
  moreover have "regex_replace trim_regex [] ps = ps" using trim by (rule trim_unchanged)
  moreover have "\<not> skip_line (method_line t n ps)"
  proof -
    obtain c cs where c: "t = c # cs" using t(1) by (cases t) auto
    have "\<not> is_type_char CHR '' ''" "\<not> is_type_char CHR 0x09" "\<not> is_type_char CHR ''/''" "\<not> is_type_char CHR ''*''"
      by (simp_all add: is_type_char_def is_word_def)
    then have "c \<notin> {CHR '' '', CHR 0x09, CHR ''/'', CHR ''*''}" using t(2) by (auto simp: c)
    from code_line [OF this] show ?thesis by (simp add: method_line_def c)
  qed
  moreover obtain m where "regex_search method_regex (method_line t n ps) = Some m"
      "submatch 1 m = t" "submatch 2 m = n" "submatch 3 m = ps"
    using method_line_found [OF t n ps] by blast
  ultimately show ?thesis by (simp add: line_sigs_def method_of_line_def sig_of_def)
qed

text \<open>Parameters are written without a closing parenthesis, and neither begin nor end in white space.\<close>

definition black_ends :: "string \<Rightarrow> bool" where
  "black_ends s \<longleftrightarrow> s \<noteq> [] \<and> CHR '')'' \<notin> set s \<and> \<not> is_white (hd s) \<and> \<not> is_white (last s)"

lemma black_append: "black_ends s \<Longrightarrow> black_ends t \<Longrightarrow> CHR '')'' \<notin> set sep \<Longrightarrow> black_ends (s @ sep @ t)"
  by (auto simp: black_ends_def)

lemma black_separated: "\<forall>x \<in> set xs. black_ends x \<Longrightarrow> CHR '')'' \<notin> set sep \<Longrightarrow> xs \<noteq> [] \<Longrightarrow> black_ends (separated sep xs)"
  by (induction sep xs rule: separated.induct) (auto intro: black_append)

lemma black_param:
  assumes "ident n" "type_named t"
  shows "black_ends (type_to_param t n)"
proof -
  have n: "black_ends n" using assms(1) word_chars by (auto simp: black_ends_def ident_def)
  have t: "black_ends (type_to_cpp t)" using type_text [OF assms(2)] type_char by (auto simp: black_ends_def)
  have const: "black_ends ''const''" by (simp add: black_ends_def is_white_def)
  have "black_ends (type_to_cpp t @ '' '' @ n)" using t n by (intro black_append) simp_all
  moreover have "black_ends (''const'' @ '' '' @ type_to_cpp t @ ''& '' @ n)"
    using const t n by (intro black_append) simp_all
  ultimately show ?thesis by (simp add: type_to_param_def)
qed

lemma sigs_of_method: "method_named m \<Longrightarrow>
    line_sigs (method_line (type_to_cpp (md_return m)) (md_name m) (params_to_string (md_params m)))
      = [(md_name m, type_to_cpp (md_return m), params_to_string (md_params m))]"
proof (rule sigs_method)
  assume m: "method_named m"
  have "md_params m = [] \<or> black_ends (params_to_string (md_params m))"
    using m unfolding params_to_string_def method_named_def by (auto intro!: black_separated black_param)
  then show "CHR '')'' \<notin> set (params_to_string (md_params m))"
    and "params_to_string (md_params m) = [] \<or> \<not> is_white (hd (params_to_string (md_params m)))
      \<and> \<not> is_white (last (params_to_string (md_params m)))"
    by (auto simp: black_ends_def params_to_string_def)
qed (use type_text in \<open>auto simp: method_named_def\<close>)

text \<open>The methods that the lines of a text declare.\<close>

definition text_sigs :: "string \<Rightarrow> (string \<times> string \<times> string) list" where
  "text_sigs s = concat (map line_sigs (getlines s))"

lemma text_sigs_line [simp]: "one_line (concat ss) \<Longrightarrow> text_sigs (line ss @ rest) = line_sigs (concat ss) @ text_sigs rest"
  by (simp add: text_sigs_def line_def newline_def getlines_line)

lemma text_sigs_newline [simp]: "text_sigs (newline @ rest) = text_sigs rest" "text_sigs [] = []"
  by (simp_all add: text_sigs_def newline_def skip_line_def)

lemma text_sigs_last: "one_line (concat ss) \<Longrightarrow> text_sigs (line ss) = line_sigs (concat ss)"
  using text_sigs_line [of ss "[]"] by simp

lemma one_line_ident [simp]: "ident s \<Longrightarrow> one_line s"
  using word_chars(3) by (auto simp: one_line_def ident_def)

lemma ident_no_paren: "ident s \<Longrightarrow> CHR ''('' \<notin> set s"
  using word_chars(3) by (auto simp: ident_def)

lemma named_one_line: "method_named m \<Longrightarrow> one_line (md_doc m) \<Longrightarrow> method_one_line m"
  by (auto simp: method_named_def method_one_line_def param_one_line_def type_named_def type_one_line_def split: base_type.splits)

lemma text_sigs_method:
  assumes "method_named m" "one_line (md_doc m)"
  shows "text_sigs (skeleton_method m @ rest)
    = (md_name m, type_to_cpp (md_return m), params_to_string (md_params m)) # text_sigs rest"
proof -
  have one: "method_one_line m" using named_one_line [OF assms] .
  have doc: "text_sigs ((if md_doc m = [] then [] else line [''    /// '', md_doc m]) @ s) = text_sigs s" for s
    using assms(2) by (simp add: skip_line_def)
  have decl: "concat [''    '', type_to_cpp (md_return m), '' '', md_name m, ''('', params_to_string (md_params m), '') override {'']
      = method_line (type_to_cpp (md_return m)) (md_name m) (params_to_string (md_params m))"
    by (simp add: method_line_def)
  have throw: "line_sigs (concat [''        '', ''throw std::runtime_error('', quote, md_name m, '' not implemented'', quote, '');'']) = []"
    using sigs_throw [of "'':runtime_error('' @ quote @ md_name m @ '' not implemented'' @ quote @ '');''"] by simp
  have lines: "one_line (concat [''    '', type_to_cpp (md_return m), '' '', md_name m, ''('', params_to_string (md_params m), '') override {''])"
      "one_line (concat [''        '', ''throw std::runtime_error('', quote, md_name m, '' not implemented'', quote, '');''])"
    using one by (simp_all add: method_one_line_def quote_def)
  have todo: "text_sigs (line [''        // TODO: implement''] @ s) = text_sigs s" for s by (simp add: skip_line_def)
  have "line_sigs ''    }'' = []" by (rule sigs_no_paren) simp
  then show ?thesis
    unfolding skeleton_method_def todo_throw_def append_assoc doc
    by (simp only: text_sigs_line [OF lines(1)] text_sigs_line [OF lines(2)] decl todo throw sigs_of_method [OF assms(1)])
      simp
qed

lemma text_sigs_methods:
  assumes "\<forall>m \<in> set ms. method_named m \<and> one_line (md_doc m)"
  shows "text_sigs (each skeleton_method ms @ rest)
    = map (\<lambda>m. (md_name m, type_to_cpp (md_return m), params_to_string (md_params m))) ms @ text_sigs rest"
  using assms by (induction ms) (simp_all add: each_def text_sigs_method)

lemma text_sigs_skeleton:
  assumes "ident (sv_name service)" "ident (ns_name ns)" "\<forall>m \<in> set (sv_methods service). method_named m \<and> one_line (md_doc m)"
  shows "text_sigs (generate_skeleton ns service)
    = map (\<lambda>m. (md_name m, type_to_cpp (md_return m), params_to_string (md_params m))) (sv_methods service)"
proof -
  have skip: "skip_line (''//'' @ s)" for s by (simp add: skip_line_def)
  show ?thesis
    unfolding generate_skeleton_def append_assoc
    using assms(1,2) skip [of "'' Generated scaffold - safe to edit''"]
    by (simp add: text_sigs_methods [OF assms(3)] text_sigs_last quote_def skip_line_def sigs_no_paren ident_no_paren)
qed

lemma skeleton_no_changes:
  assumes "ident (sv_name service)" "ident (ns_name ns)" "\<forall>m \<in> set (sv_methods service). method_named m \<and> one_line (md_doc m)"
    and distinct: "distinct (map md_name (sv_methods service))"
  shows "compare_items md_name method_differs (sv_methods service)
    (existing_map em_name (parse_existing_impl (generate_skeleton ns service))) = ([], [], [])"
proof (rule compare_unchanged [OF distinct])
  define es where "es = parse_existing_impl (generate_skeleton ns service)"
  have sigs: "map sig_of es = map (\<lambda>m. (md_name m, type_to_cpp (md_return m), params_to_string (md_params m))) (sv_methods service)"
    using text_sigs_skeleton [OF assms(1-3)] by (simp add: es_def parse_sigs text_sigs_def)
  have "map em_name es = map fst (map sig_of es)" by (simp add: sig_of_def comp_def)
  then have names: "map em_name es = map md_name (sv_methods service)" by (simp add: sigs comp_def)
  then have dist: "distinct (map em_name es)" using distinct by simp
  show "\<forall>m \<in> set (sv_methods service). \<exists>e. map_of (existing_map em_name es) (md_name m) = Some e \<and> \<not> method_differs e m"
  proof
    fix m assume "m \<in> set (sv_methods service)"
    then have "(md_name m, type_to_cpp (md_return m), params_to_string (md_params m)) \<in> set (map sig_of es)"
      unfolding sigs by force
    then obtain e where e: "e \<in> set es" "sig_of e = (md_name m, type_to_cpp (md_return m), params_to_string (md_params m))"
      by auto
    then have "map_of (existing_map em_name es) (md_name m) = Some e"
      using existing_map_finds [OF dist e(1)] by (simp add: sig_of_def)
    with e(2) show "\<exists>e. map_of (existing_map em_name es) (md_name m) = Some e \<and> \<not> method_differs e m"
      by (auto simp: method_differs_def sig_of_def)
  qed
  have "set (map em_name es) = set (map md_name (sv_methods service))" by (simp only: names)
  then show "fst ` set (existing_map em_name es) \<subseteq> md_name ` set (sv_methods service)"
    using existing_map_keys existing_map_range by fastforce
qed

text \<open>A fresh skeleton is up to date: for an interface whose names are words, whose methods have
  different names and documentation of one line each, generating the scaffold again over the file
  that it has generated finds every method in it with its signature unchanged, and only
  adds the line that says so.\<close>

theorem skeleton_up_to_date:
  assumes "ident (sv_name service)" "ident (ns_name ns)" "\<forall>m \<in> set (sv_methods service). method_named m \<and> one_line (md_doc m)"
    and "distinct (map md_name (sv_methods service))"
  shows "generate_scaffold now ns service None None = Inr (generate_skeleton ns service)
    \<and> generate_scaffold now ns service (Some (generate_skeleton ns service)) None
      = Inr (generate_skeleton ns service @ newline @ line [''// Scaffold sync: all methods up to date''])"
  using skeleton_no_changes [OF assms]
  by (simp add: generate_scaffold_def scaffold_report_def compare_def has_changes_def no_changes_def)

section \<open>Examples\<close>

definition demo_service :: service_def where
  "demo_service = hd (ns_services demo_namespace)"

lemma demo_service_named:
  "ident (sv_name demo_service)" "ident (ns_name demo_namespace)" "distinct (map md_name (sv_methods demo_service))"
  "\<forall>m \<in> set (sv_methods demo_service). method_named m \<and> one_line (md_doc m) \<and> method_one_line m"
  by (simp_all add: demo_service_def demo_namespace_def demo_method_def_def ident_def method_named_def type_named_def
      plain_type_def method_one_line_def param_one_line_def type_one_line_def is_word_def)

end
