(* ===== verification/Song_Driver.thy ===== *)
theory Song_Driver
  imports Song_Parse_Type Song_Resolver Song_Python_Codegen Song_Scaffold
begin

text \<open>
  The compiler as a program (\<^verbatim>\<open>compiler/main.cpp\<close>): the arguments, the source file, parser, resolver
  and the generators one after the other, and the files that are written. The disk is a map from paths
  to contents with a list of directories; what the operating system permits, and how much of a
  text the device takes, are the parameter \<open>env\<close>. A value \<open>Inl\<close> of the whole run is an
  exception that leaves \<^verbatim>\<open>main\<close>.
  The lemmas: which files a run can change, what a successful run leaves in them, and two theorems about the
  whole compiler, from the source text to the generated file.
\<close>

section \<open>The world of the program\<close>

datatype message = Out string | Err string

record disk =
  dk_files :: "string \<rightharpoonup> string"
  dk_dirs :: "string list"
  dk_output :: "message list"

record environment =
  can_read :: "string \<Rightarrow> bool"
  can_write :: "string \<Rightarrow> bool"
  can_create :: "string \<Rightarrow> bool"
  room_for :: "string \<Rightarrow> nat"

definition say :: "message list \<Rightarrow> (disk, unit) step" where
  "say ms = smodify (\<lambda>d. d\<lparr>dk_output := dk_output d @ ms\<rparr>)"

definition path_exists :: "string \<Rightarrow> disk \<Rightarrow> bool" where
  "path_exists path d \<longleftrightarrow> dk_files d path \<noteq> None \<or> path \<in> set (dk_dirs d)"

definition read_file :: "environment \<Rightarrow> string \<Rightarrow> (disk, string) step" where
  "read_file env path = (\<lambda>d. case dk_files d path of
      Some content \<Rightarrow> if can_read env path then (Inr content, d) else (Inl (RuntimeError (''Cannot open file: '' @ path)), d)
    | None \<Rightarrow> (Inl (RuntimeError (''Cannot open file: '' @ path)), d))"

text \<open>Whether the stream took the whole text is not asked.\<close>

definition write_file :: "environment \<Rightarrow> string \<Rightarrow> string \<Rightarrow> (disk, unit) step" where
  "write_file env path content =
    (if can_write env path then smodify (\<lambda>d. d\<lparr>dk_files := (dk_files d)(path \<mapsto> take (room_for env path) content)\<rparr>)
     else sthrow (RuntimeError (''Cannot write file: '' @ path)))"

text \<open>\<^verbatim>\<open>fs::create_directories\<close> makes every directory on the way.\<close>

definition dir_prefixes :: "string \<Rightarrow> string list" where
  "dir_prefixes path = map (\<lambda>i. take i path) (filter (\<lambda>i. path ! i = CHR ''/'') [1..<length path]) @ [path]"

definition create_directories :: "environment \<Rightarrow> string \<Rightarrow> (disk, unit) step" where
  "create_directories env path =
    (if can_create env path then smodify (\<lambda>d. d\<lparr>dk_dirs := dk_dirs d @ dir_prefixes path\<rparr>)
     else sthrow (RuntimeError (''filesystem error: cannot create directories ['' @ path @ '']'')))"

section \<open>Arguments\<close>

record options =
  op_input :: string
  op_output_dir :: string
  op_lang :: string
  op_split :: bool
  op_scaffold :: bool

definition default_options :: options where
  "default_options = \<lparr>op_input = [], op_output_dir = ''.'', op_lang = ''cpp'', op_split = False, op_scaffold = False\<rparr>"

definition print_usage :: "string \<Rightarrow> message list" where
  "print_usage program = map Err
    [''songc - Song IDL Compiler'', ''Usage: '' @ program @ '' [options] <input.song>'', [], ''Options:'',
     ''  -o, --output <dir>  Output directory (default: current)'',
     ''  --lang <lang>       Output language: cpp (default), python'',
     ''  --single            Generate single header file (default, C++ only)'',
     ''  --split             Generate separate files (C++ only)'',
     ''  --scaffold          Generate implementation skeleton (C++ only)'',
     ''                      Creates new file or appends sync report to existing'',
     ''  -h, --help          Show this help'', [], ''C++ Output:'',
     ''  Single mode: <name>.hpp (all-in-one header)'',
     ''  Split mode:  <name>_types.hpp, <name>_wire.cpp,'',
     ''               <name>_client.hpp, <name>_server.hpp'',
     ''  Scaffold:    <name>_impl.cpp (implementation skeleton)'', [], ''Python Output:'',
     ''  <name>.py (client proxies and type definitions)'']"

text \<open>The loop over \<^verbatim>\<open>argv\<close>: options, or what is printed and returned at once.\<close>

fun parse_args :: "string \<Rightarrow> options \<Rightarrow> string list \<Rightarrow> (message list \<times> int) + options" where
  "parse_args program o1 [] = (if op_input o1 = [] then Inl (print_usage program, 1) else Inr o1)"
| "parse_args program o1 (arg # args) =
    (if arg \<in> {''-h'', ''--help''} then Inl (print_usage program, 0)
     else if arg \<in> {''-o'', ''--output''} then (case args of
         [] \<Rightarrow> Inl ([Err ''Error: -o requires an argument''], 1)
       | dir # args \<Rightarrow> parse_args program (o1\<lparr>op_output_dir := dir\<rparr>) args)
     else if arg = ''--lang'' then (case args of
         [] \<Rightarrow> Inl ([Err ''Error: --lang requires an argument (cpp or python)''], 1)
       | lang # args \<Rightarrow> if lang \<noteq> ''cpp'' \<and> lang \<noteq> ''python''
           then Inl ([Err (''Error: Unknown language: '' @ lang @ '' (use cpp or python)'')], 1)
           else parse_args program (o1\<lparr>op_lang := lang\<rparr>) args)
     else if arg = ''--single'' then parse_args program (o1\<lparr>op_split := False\<rparr>) args
     else if arg = ''--split'' then parse_args program (o1\<lparr>op_split := True\<rparr>) args
     else if arg = ''--scaffold'' then parse_args program (o1\<lparr>op_scaffold := True\<rparr>) args
     else if arg \<noteq> [] \<and> hd arg = CHR ''-'' then Inl (Err (''Error: Unknown option: '' @ arg) # print_usage program, 1)
     else if op_input o1 = [] then parse_args program (o1\<lparr>op_input := arg\<rparr>) args
     else Inl ([Err ''Error: Multiple input files not supported''], 1))"

section \<open>Output\<close>

definition out_path :: "options \<Rightarrow> namespace_def \<Rightarrow> string \<Rightarrow> string" where
  "out_path o1 ns ext = op_output_dir o1 @ ''/'' @ ns_name ns @ ext"

definition impl_path :: "options \<Rightarrow> namespace_def \<Rightarrow> service_def \<Rightarrow> string" where
  "impl_path o1 ns service = out_path o1 ns (''_'' @ sv_name service @ ''_impl.cpp'')"

definition emit_python :: "environment \<Rightarrow> options \<Rightarrow> namespace_def \<Rightarrow> (disk, unit) step" where
  "emit_python env o1 ns =
    sbind (write_file env (out_path o1 ns ''.py'') (generate_module ns)) (\<lambda>_.
    say [Out (''Generated: '' @ out_path o1 ns ''.py'')])"

text \<open>The text of a file that exists; a file that cannot be opened is an error.\<close>

definition read_if_exists :: "environment \<Rightarrow> string \<Rightarrow> (disk, string option) step" where
  "read_if_exists env path =
    sbind (sget (path_exists path)) (\<lambda>found.
      if found then sbind (read_file env path) (\<lambda>content. sret (Some content)) else sret None)"

definition emit_service :: "string \<Rightarrow> environment \<Rightarrow> options \<Rightarrow> namespace_def \<Rightarrow> string option \<Rightarrow> service_def \<Rightarrow> (disk, unit) step" where
  "emit_service now env o1 ns header service =
    sbind (read_if_exists env (impl_path o1 ns service)) (\<lambda>impl.
    sbind (slift (generate_scaffold now ns service impl header)) (\<lambda>content.
    sbind (write_file env (impl_path o1 ns service) content) (\<lambda>_.
    say [Out (case impl of
        Some _ \<Rightarrow> ''Updated: '' @ impl_path o1 ns service @ '' (sync report appended)''
      | None \<Rightarrow> ''Generated: '' @ impl_path o1 ns service @ '' (new skeleton)'')])))"

fun emit_services :: "string \<Rightarrow> environment \<Rightarrow> options \<Rightarrow> namespace_def \<Rightarrow> string option \<Rightarrow> service_def list \<Rightarrow> (disk, unit) step" where
  "emit_services now env o1 ns header [] = sret ()"
| "emit_services now env o1 ns header (s # ss) =
    sbind (emit_service now env o1 ns header s) (\<lambda>_. emit_services now env o1 ns header ss)"

definition emit_scaffold :: "string \<Rightarrow> environment \<Rightarrow> options \<Rightarrow> namespace_def \<Rightarrow> (disk, unit) step" where
  "emit_scaffold now env o1 ns =
    sbind (read_if_exists env (out_path o1 ns ''.hpp'')) (\<lambda>header.
    sbind (emit_services now env o1 ns header (ns_services ns)) (\<lambda>_.
      if ns_services ns = [] then say [Err (''Warning: No services found in '' @ op_input o1)] else sret ()))"

definition emit_split :: "environment \<Rightarrow> options \<Rightarrow> namespace_def \<Rightarrow> (disk, unit) step" where
  "emit_split env o1 ns =
    sbind (write_file env (out_path o1 ns ''_types.hpp'') (generate_types_header ns)) (\<lambda>_.
    sbind (write_file env (out_path o1 ns ''_wire.cpp'') (generate_wire_impl ns)) (\<lambda>_.
    sbind (write_file env (out_path o1 ns ''_client.hpp'') (generate_client_header ns)) (\<lambda>_.
    sbind (write_file env (out_path o1 ns ''_server.hpp'') (generate_server_header ns)) (\<lambda>_.
    say (Out ''Generated:'' # map (\<lambda>ext. Out (''  '' @ out_path o1 ns ext))
      [''_types.hpp'', ''_wire.cpp'', ''_client.hpp'', ''_server.hpp''])))))"

definition emit_single :: "environment \<Rightarrow> options \<Rightarrow> namespace_def \<Rightarrow> (disk, unit) step" where
  "emit_single env o1 ns =
    sbind (write_file env (out_path o1 ns ''.hpp'') (generate_header ns)) (\<lambda>_.
    say [Out (''Generated: '' @ out_path o1 ns ''.hpp'')])"

definition emit_all :: "string \<Rightarrow> environment \<Rightarrow> options \<Rightarrow> namespace_def \<Rightarrow> (disk, unit) step" where
  "emit_all now env o1 ns =
    (if op_lang o1 = ''python'' then emit_python env o1 ns
     else if op_scaffold o1 then emit_scaffold now env o1 ns
     else if op_split o1 then emit_split env o1 ns
     else emit_single env o1 ns)"

definition make_output_dir :: "environment \<Rightarrow> options \<Rightarrow> (disk, unit) step" where
  "make_output_dir env o1 = sbind (sget (path_exists (op_output_dir o1))) (\<lambda>found.
    if found then sret () else create_directories env (op_output_dir o1))"

definition generate_code :: "string \<Rightarrow> environment \<Rightarrow> options \<Rightarrow> namespace_def \<Rightarrow> (disk, int) step" where
  "generate_code now env o1 ns =
    sbind (make_output_dir env o1) (\<lambda>_.
    scatch std_exception (sbind (emit_all now env o1 ns) (\<lambda>_. sret 0))
      (\<lambda>e. sbind (say [Err (''Error writing output: '' @ what e)]) (\<lambda>_. sret 1)))"

section \<open>The program\<close>

definition at_position :: "string \<Rightarrow> string \<Rightarrow> string \<Rightarrow> string \<Rightarrow> message" where
  "at_position path line_text column_text text =
    Err (path @ '':'' @ line_text @ '':'' @ column_text @ '': error: '' @ text)"

text \<open>Only a \<^verbatim>\<open>ParserError\<close> is caught around the parser.\<close>

definition parse_source :: "options \<Rightarrow> string \<Rightarrow> (disk, ast option) step" where
  "parse_source o1 source = (case parse source of
      Inr a \<Rightarrow> sret (Some a)
    | Inl (ParserError m l c) \<Rightarrow> sbind (say [at_position (op_input o1) (dec_string l) (dec_string c) (error_text (ParserError m l c))])
        (\<lambda>_. sret None)
    | Inl e \<Rightarrow> sthrow (RuntimeError (error_text e)))"

text \<open>The resolver computes enum values with a signed addition that must not overflow.\<close>

definition resolve_ast :: "options \<Rightarrow> ast \<Rightarrow> (disk, bool) step" where
  "resolve_ast o1 a = (case resolve (resolver_new a) of (ok, st) \<Rightarrow>
     if rs_overflow st then sthrow (Undefined ''signed overflow'')
     else if ok then sret True
     else sbind (say (map (\<lambda>e. at_position (op_input o1) (int_string (re_line e)) (int_string (re_column e)) (resolver_what e))
         (rs_errors st))) (\<lambda>_. sret False))"

definition run_compiler :: "string \<Rightarrow> environment \<Rightarrow> options \<Rightarrow> (disk, int) step" where
  "run_compiler now env o1 =
    sbind (scatch std_exception (sbind (read_file env (op_input o1)) (\<lambda>source. sret (Some source)))
        (\<lambda>e. sbind (say [Err (''Error: '' @ what e)]) (\<lambda>_. sret None)))
      (\<lambda>source. case source of None \<Rightarrow> sret 1 | Some source \<Rightarrow>
    sbind (parse_source o1 source) (\<lambda>parsed. case parsed of None \<Rightarrow> sret 1 | Some a \<Rightarrow>
    sbind (resolve_ast o1 a) (\<lambda>ok. if \<not> ok then sret 1 else generate_code now env o1 (hd (ast_namespaces a)))))"

definition main_run :: "string \<Rightarrow> environment \<Rightarrow> string \<Rightarrow> string list \<Rightarrow> (disk, int) step" where
  "main_run now env program args = (case parse_args program default_options args of
      Inl (ms, code) \<Rightarrow> sbind (say ms) (\<lambda>_. sret code)
    | Inr o1 \<Rightarrow> run_compiler now env o1)"

section \<open>Which files a run can change\<close>

definition output_paths :: "options \<Rightarrow> namespace_def \<Rightarrow> string list" where
  "output_paths o1 ns =
    (if op_lang o1 = ''python'' then [out_path o1 ns ''.py'']
     else if op_scaffold o1 then map (impl_path o1 ns) (ns_services ns)
     else if op_split o1 then map (out_path o1 ns) [''_types.hpp'', ''_wire.cpp'', ''_client.hpp'', ''_server.hpp'']
     else [out_path o1 ns ''.hpp''])"

text \<open>What the compiler makes of the source file: nothing, or the namespace for which code is generated.\<close>

definition accepted :: "environment \<Rightarrow> options \<Rightarrow> disk \<Rightarrow> namespace_def option" where
  "accepted env o1 d = (case dk_files d (op_input o1) of None \<Rightarrow> None
     | Some source \<Rightarrow> if \<not> can_read env (op_input o1) then None
       else (case parse source of Inl e \<Rightarrow> None
         | Inr a \<Rightarrow> if fst (resolve (resolver_new a)) \<and> \<not> rs_overflow (snd (resolve (resolver_new a)))
             then Some (hd (ast_namespaces a)) else None))"

definition touches :: "string list \<Rightarrow> disk \<Rightarrow> disk \<Rightarrow> bool" where
  "touches paths d d' \<longleftrightarrow> (\<forall>p. p \<notin> set paths \<longrightarrow> dk_files d' p = dk_files d p)"

interpretation touching: step_preorder "touches paths" for paths
  by unfold_locales (simp_all add: touches_def)

lemma touches_steps:
  "keeps (touches ps) (say ms)" "keeps (touches ps) (read_file env path)" "keeps (touches ps) (create_directories env path)"
  "path \<in> set ps \<Longrightarrow> keeps (touches ps) (write_file env path content)"
  by (auto simp: keeps_def touches_def say_def read_file_def create_directories_def write_file_def smodify_def sthrow_def
      split: option.split)

lemmas touches_rules = touches_steps touching.keeps_pure touching.keeps_sbind touching.keeps_scatch

lemma touches_read_if_exists: "keeps (touches ps) (read_if_exists env path)"
  unfolding read_if_exists_def by (intro touches_rules) (auto intro: touches_rules)

lemma touches_emit_services:
  "impl_path o1 ns ` set ss \<subseteq> set ps \<Longrightarrow> keeps (touches ps) (emit_services now env o1 ns header ss)"
  by (induction ss) (auto intro!: touches_rules touches_read_if_exists simp: emit_service_def)

lemma touches_emit_all: "keeps (touches (output_paths o1 ns)) (emit_all now env o1 ns)"
  unfolding emit_all_def emit_python_def emit_scaffold_def emit_split_def emit_single_def
  by (auto intro!: touches_rules touches_read_if_exists touches_emit_services simp: output_paths_def)

lemma touches_generate_code: "keeps (touches (output_paths o1 ns)) (generate_code now env o1 ns)"
  unfolding generate_code_def make_output_dir_def by (auto intro!: touches_rules touches_emit_all)

lemma run_compiler_accepted:
  assumes "accepted env o1 d = Some ns"
  shows "run_compiler now env o1 d = generate_code now env o1 ns d"
  using assms unfolding accepted_def run_compiler_def
  by (auto simp: sbind_apply scatch_apply read_file_def parse_source_def resolve_ast_def sret_def
      split: option.splits sum.splits if_splits prod.splits)

lemma run_compiler_rejected:
  assumes "accepted env o1 d = None" "run_compiler now env o1 d = (r, d')"
  shows "dk_files d' = dk_files d \<and> dk_dirs d' = dk_dirs d \<and> r \<noteq> Inr 0"
  using assms unfolding accepted_def run_compiler_def
  by (auto simp: sbind_apply scatch_apply read_file_def parse_source_def resolve_ast_def monad_defs say_def
      split: option.splits sum.splits if_splits prod.splits compile_error.splits)

text \<open>Claim C19. Whatever its arguments and whatever is on the disk, the compiler changes no file but those that it
  announces: a file that differs after the run is one of the outputs of a namespace that was read,
  parsed and resolved without an error; in particular an erroneous source file changes
  nothing. And the exit code 0 means that there was such a namespace, or that help was asked for.\<close>

theorem songc_writes_only_outputs:
  assumes "main_run now env program args d = (r, d')"
  shows "(dk_files d' p \<noteq> dk_files d p \<longrightarrow>
      (\<exists>o1 ns. parse_args program default_options args = Inr o1 \<and> accepted env o1 d = Some ns \<and> p \<in> set (output_paths o1 ns)))
    \<and> (r = Inr 0 \<longrightarrow> (\<exists>o1 ns. parse_args program default_options args = Inr o1 \<and> accepted env o1 d = Some ns)
        \<or> (\<exists>ms. parse_args program default_options args = Inl (ms, 0)))"
proof (cases "parse_args program default_options args")
  case (Inl x)
  then show ?thesis
    using assms by (cases x) (auto simp: main_run_def sbind_apply say_def monad_defs)
next
  case (Inr o1)
  then have run: "run_compiler now env o1 d = (r, d')" using assms by (simp add: main_run_def)
  show ?thesis
  proof (cases "accepted env o1 d")
    case None
    with run_compiler_rejected [OF None run] show ?thesis by simp
  next
    case (Some ns)
    have "touches (output_paths o1 ns) d d'"
      using run keepsD [OF touches_generate_code] by (simp add: run_compiler_accepted [OF Some])
    with Inr Some show ?thesis by (auto simp: touches_def)
  qed
qed

section \<open>What a successful run writes\<close>

definition outputs :: "options \<Rightarrow> namespace_def \<Rightarrow> (string \<times> string) list" where
  "outputs o1 ns =
    (if op_lang o1 = ''python'' then [(out_path o1 ns ''.py'', generate_module ns)]
     else if op_split o1 then
       [(out_path o1 ns ''_types.hpp'', generate_types_header ns), (out_path o1 ns ''_wire.cpp'', generate_wire_impl ns),
        (out_path o1 ns ''_client.hpp'', generate_client_header ns), (out_path o1 ns ''_server.hpp'', generate_server_header ns)]
     else [(out_path o1 ns ''.hpp'', generate_header ns)])"

text \<open>The system lets the file be written and takes all of its text.\<close>

definition storable :: "environment \<Rightarrow> string \<Rightarrow> string \<Rightarrow> bool" where
  "storable env path content \<longleftrightarrow> can_write env path \<and> length content \<le> room_for env path"

lemma write_storable:
  "storable env path content \<Longrightarrow> write_file env path content d = (Inr (), d\<lparr>dk_files := (dk_files d)(path \<mapsto> content)\<rparr>)"
  by (simp add: storable_def write_file_def smodify_def)

lemma say_apply: "say ms d = (Inr (), d\<lparr>dk_output := dk_output d @ ms\<rparr>)"
  by (simp add: say_def smodify_def)

lemma emit_all_outputs:
  assumes "op_lang o1 = ''python'' \<or> \<not> op_scaffold o1" "\<forall>(p, c) \<in> set (outputs o1 ns). storable env p c"
  shows "\<exists>d'. emit_all now env o1 ns d = (Inr (), d') \<and> dk_dirs d' = dk_dirs d
    \<and> dk_files d' = dk_files d ++ map_of (rev (outputs o1 ns))"
  using assms
  by (auto simp: emit_all_def emit_python_def emit_split_def emit_single_def outputs_def sbind_apply write_storable say_apply)

lemma make_output_dir_result:
  assumes "path_exists (op_output_dir o1) d \<or> can_create env (op_output_dir o1)"
  shows "\<exists>dirs. make_output_dir env o1 d = (Inr (), d\<lparr>dk_dirs := dk_dirs d @ dirs\<rparr>)
    \<and> (path_exists (op_output_dir o1) d \<longrightarrow> dirs = [])"
  using assms
  by (cases "path_exists (op_output_dir o1) d")
    (auto simp: make_output_dir_def sbind_apply sget_def sret_def create_directories_def smodify_def)

text \<open>Names that the parser accepts are words, and plain text for the generators.\<close>

lemma word_iff: "is_word c \<longleftrightarrow> is_alnum c \<or> c = CHR ''_''"
proof -
  have "(of_char c :: nat) = of_char (CHR ''_'') \<longleftrightarrow> c = CHR ''_''" by (rule of_char_eq_iff)
  then have "(of_char c :: nat) = 95 \<longleftrightarrow> c = CHR ''_''" by simp
  then show ?thesis by (auto simp: is_word_def is_alnum_def is_alpha_def is_digit_def Let_def)
qed

lemma identifier_ident: "is_identifier s \<Longrightarrow> ident s"
  by (auto simp: is_identifier_def ident_def word_iff is_alnum_def list_all_iff)

lemma identifier_plain: "is_identifier s \<Longrightarrow> plain s"
proof -
  have "is_word c \<Longrightarrow> plain_char c" for c by (auto simp: plain_char_def is_word_def)
  then show "is_identifier s \<Longrightarrow> plain s" using identifier_ident by (auto simp: ident_def plain_def)
qed

definition all_docs :: "namespace_def \<Rightarrow> string list" where
  "all_docs ns =
    concat (map (\<lambda>e. ed_doc e # map ei_doc (ed_items e)) (ns_enums ns))
    @ concat (map (\<lambda>s. sd_doc s # map fd_doc (sd_fields s)) (ns_structs ns))
    @ concat (map (\<lambda>c. cd_doc c # map pr_doc (cd_properties c) @ map md_doc (cd_methods c)) (ns_classes ns))
    @ concat (map (\<lambda>s. sv_doc s # map md_doc (sv_methods s)) (ns_services ns))"

text \<open>No line of a comment takes the next line of code with it.\<close>

definition unspliced :: "namespace_def \<Rightarrow> bool" where
  "unspliced ns \<longleftrightarrow> (\<forall>doc \<in> set (all_docs ns). \<forall>l \<in> set (split_doc doc). l = [] \<or> last l \<noteq> CHR 0x5C)"

lemma split_doc_lines: "l \<in> set (split_doc doc) \<Longrightarrow> CHR 0x0A \<notin> set l"
  by (induction doc arbitrary: l rule: split_doc.induct) (auto split: if_splits list.splits)

lemma unspliced_doc: "unspliced ns \<Longrightarrow> doc \<in> set (all_docs ns) \<Longrightarrow> Song_Codegen.doc_ok doc"
  using split_doc_lines by (auto simp: unspliced_def Song_Codegen.doc_ok_def comment_ok_def)

lemma type_ok_plain: "Song_Print.type_ok t \<Longrightarrow> Song_Codegen.type_ok t"
  using identifier_plain by (auto simp: Song_Print.type_ok_def Song_Codegen.type_ok_def split: base_type.splits)

lemma params_ok_plain: "list_all param_ok ps \<Longrightarrow> params_ok ps"
  using identifier_plain type_ok_plain by (auto simp: params_ok_def param_ok_def list_all_iff)

lemma method_ok_plain: "Song_Print.method_ok m \<Longrightarrow> Song_Codegen.doc_ok (md_doc m) \<Longrightarrow> Song_Codegen.method_ok m"
  using identifier_plain type_ok_plain params_ok_plain by (simp add: Song_Print.method_ok_def Song_Codegen.method_ok_def)

lemma enum_ok_plain: "Song_Print.enum_ok e \<Longrightarrow> \<forall>doc \<in> set (ed_doc e # map ei_doc (ed_items e)). Song_Codegen.doc_ok doc
    \<Longrightarrow> Song_Codegen.enum_ok e"
  using identifier_plain by (auto simp: Song_Print.enum_ok_def Song_Codegen.enum_ok_def item_ok_def list_all_iff)

lemma struct_ok_plain: "Song_Print.struct_ok s \<Longrightarrow> \<forall>doc \<in> set (sd_doc s # map fd_doc (sd_fields s)). Song_Codegen.doc_ok doc
    \<Longrightarrow> Song_Codegen.struct_ok s"
  using identifier_plain type_ok_plain
  by (auto simp: Song_Print.struct_ok_def Song_Codegen.struct_ok_def Song_Print.field_ok_def Song_Codegen.field_ok_def list_all_iff)

lemma class_ok_plain:
  "Song_Print.class_ok c \<Longrightarrow> \<forall>doc \<in> set (cd_doc c # map pr_doc (cd_properties c) @ map md_doc (cd_methods c)). Song_Codegen.doc_ok doc
    \<Longrightarrow> Song_Codegen.class_ok c"
  using identifier_plain type_ok_plain params_ok_plain [unfolded list_all_iff] method_ok_plain
  by (simp add: Song_Print.class_ok_def Song_Codegen.class_ok_def Song_Print.property_ok_def Song_Codegen.property_ok_def
      constructor_ok_def base_ok_def list_all_iff split: option.splits)

lemma service_ok_plain:
  "Song_Print.service_ok s \<Longrightarrow> \<forall>doc \<in> set (sv_doc s # map md_doc (sv_methods s)). Song_Codegen.doc_ok doc
    \<Longrightarrow> Song_Codegen.service_ok s"
  using identifier_plain method_ok_plain by (simp add: Song_Print.service_ok_def Song_Codegen.service_ok_def list_all_iff)

lemma namespace_ok_plain:
  assumes "Song_Print.namespace_ok ns" "unspliced ns"
  shows "Song_Codegen.namespace_ok ns"
proof -
  have ok: "is_identifier (ns_name ns)" "\<forall>e \<in> set (ns_enums ns). Song_Print.enum_ok e"
    "\<forall>s \<in> set (ns_structs ns). Song_Print.struct_ok s" "\<forall>c \<in> set (ns_classes ns). Song_Print.class_ok c"
    "\<forall>s \<in> set (ns_services ns). Song_Print.service_ok s"
    using assms(1) by (simp_all add: Song_Print.namespace_ok_def list_all_iff)
  have "\<forall>doc \<in> set (all_docs ns). Song_Codegen.doc_ok doc" using unspliced_doc [OF assms(2)] by blast
  then have docs: "\<forall>e \<in> set (ns_enums ns). \<forall>doc \<in> set (ed_doc e # map ei_doc (ed_items e)). Song_Codegen.doc_ok doc"
    "\<forall>s \<in> set (ns_structs ns). \<forall>doc \<in> set (sd_doc s # map fd_doc (sd_fields s)). Song_Codegen.doc_ok doc"
    "\<forall>c \<in> set (ns_classes ns). \<forall>doc \<in> set (cd_doc c # map pr_doc (cd_properties c) @ map md_doc (cd_methods c)). Song_Codegen.doc_ok doc"
    "\<forall>s \<in> set (ns_services ns). \<forall>doc \<in> set (sv_doc s # map md_doc (sv_methods s)). Song_Codegen.doc_ok doc"
    by (simp_all add: all_docs_def ball_Un)
  show ?thesis
    unfolding Song_Codegen.namespace_ok_def
  proof (intro conjI ballI)
    show "plain (ns_name ns)" using ok(1) by (rule identifier_plain)
  qed (rule enum_ok_plain struct_ok_plain class_ok_plain service_ok_plain; use ok docs in simp)+
qed

lemma accepted_facts:
  assumes "accepted env o1 d = Some ns"
  shows "Song_Print.namespace_ok ns" "distinct (map sv_name (ns_services ns))"
    "\<forall>s \<in> set (ns_services ns). distinct (map md_name (sv_methods s))"
    "dk_files d (op_input o1) \<noteq> None"
proof -
  obtain source a where src: "dk_files d (op_input o1) = Some source" and p: "parse source = Inr a"
    and r: "fst (resolve (resolver_new a))" and ns: "ns = hd (ast_namespaces a)"
    using assms by (auto simp: accepted_def split: option.splits if_splits sum.splits)
  obtain n where n: "ast_namespaces a = [n]" "Song_Print.namespace_ok n" using parse_gives_namespace [OF p] by auto
  then have [simp]: "n = ns" by (simp add: ns)
  obtain st where st: "resolve (resolver_new a) = (True, st)" using r by (metis prod.collapse)
  from resolve_result(4) [OF st] n
  have d: "distinct (map ti_name (declared_in ns))" and g: "namespace_good a (rs_types st) ns"
    by (simp_all add: declared_def)
  from n show "Song_Print.namespace_ok ns" by simp
  from d show "distinct (map sv_name (ns_services ns))" by (simp add: declared_in_def comp_def)
  from g show "\<forall>s \<in> set (ns_services ns). distinct (map md_name (sv_methods s))"
    by (simp add: namespace_good_def service_good_def)
  from src show "dk_files d (op_input o1) \<noteq> None" by simp
qed

section \<open>From the source text to the generated files\<close>

text \<open>Claim C17. The whole compiler: for a source file that is read, parsed and resolved, and a system that lets
  the output be written, every run without the scaffold option ends with code 0, leaves in each output file exactly the text of
  its generator, leaves every other file alone, and each C++ file it writes is well bracketed. The only
  condition on the source is that no line of its comments ends in a backslash.\<close>

theorem songc_generates:
  assumes args: "parse_args program default_options args = Inr o1" and acc: "accepted env o1 d = Some ns"
    and mode: "op_lang o1 = ''python'' \<or> \<not> op_scaffold o1"
    and dir: "path_exists (op_output_dir o1) d \<or> can_create env (op_output_dir o1)"
    and room: "\<forall>(p, c) \<in> set (outputs o1 ns). storable env p c" and docs: "unspliced ns"
  shows "\<exists>d'. main_run now env program args d = (Inr 0, d') \<and> dk_files d' = dk_files d ++ map_of (rev (outputs o1 ns))
    \<and> (\<forall>(p, c) \<in> set (outputs o1 ns). dk_files d' p = Some c \<and> (op_lang o1 = ''python'' \<or> well_bracketed c))"
proof -
  have ok: "Song_Codegen.namespace_ok ns" using namespace_ok_plain accepted_facts(1) [OF acc] docs .
  obtain dirs where made: "make_output_dir env o1 d = (Inr (), d\<lparr>dk_dirs := dk_dirs d @ dirs\<rparr>)"
    using make_output_dir_result [OF dir] by blast
  obtain d' where emit: "emit_all now env o1 ns (d\<lparr>dk_dirs := dk_dirs d @ dirs\<rparr>) = (Inr (), d')"
    and files: "dk_files d' = dk_files d ++ map_of (rev (outputs o1 ns))"
    using emit_all_outputs [OF mode room, of now "d\<lparr>dk_dirs := dk_dirs d @ dirs\<rparr>"] by auto
  have "main_run now env program args d = (Inr 0, d')"
    using made emit by (simp add: main_run_def args run_compiler_accepted [OF acc] generate_code_def sbind_apply scatch_apply sret_def)
  moreover have "\<forall>(p, c) \<in> set (outputs o1 ns). dk_files d' p = Some c"
    unfolding files by (auto simp: outputs_def out_path_def)
  moreover have "op_lang o1 = ''python'' \<or> (\<forall>(p, c) \<in> set (outputs o1 ns). well_bracketed c)"
    using well_bracketed_header [OF ok] well_bracketed_split [OF ok] by (simp add: outputs_def)
  ultimately show ?thesis using files by auto
qed

section \<open>Scaffolds\<close>

lemma read_if_exists_apply:
  assumes "dk_files d path = content" "content = None \<longrightarrow> path \<notin> set (dk_dirs d)" "content \<noteq> None \<longrightarrow> can_read env path"
  shows "read_if_exists env path d = (Inr content, d)"
  using assms by (cases content) (auto simp: read_if_exists_def sbind_apply sget_def sret_def path_exists_def read_file_def)

text \<open>What the loop over the services writes, when each of them has its own file.\<close>

lemma emit_services_result:
  assumes "distinct (map (impl_path o1 ns) ss)"
    and "\<forall>s \<in> set ss. dk_files d (impl_path o1 ns s) = old s
      \<and> (old s = None \<longrightarrow> impl_path o1 ns s \<notin> set (dk_dirs d)) \<and> (old s \<noteq> None \<longrightarrow> can_read env (impl_path o1 ns s))
      \<and> generate_scaffold now ns s (old s) header = Inr (new s) \<and> storable env (impl_path o1 ns s) (new s)"
  shows "\<exists>d'. emit_services now env o1 ns header ss d = (Inr (), d') \<and> dk_dirs d' = dk_dirs d
    \<and> (\<forall>s \<in> set ss. dk_files d' (impl_path o1 ns s) = Some (new s))
    \<and> (\<forall>p. p \<notin> impl_path o1 ns ` set ss \<longrightarrow> dk_files d' p = dk_files d p)"
  using assms
proof (induction ss arbitrary: d)
  case (Cons s ss)
  have s: "read_if_exists env (impl_path o1 ns s) d = (Inr (old s), d)"
    using Cons.prems(2) by (intro read_if_exists_apply) simp_all
  define msg where "msg = [Out (case old s of
        Some _ \<Rightarrow> ''Updated: '' @ impl_path o1 ns s @ '' (sync report appended)''
      | None \<Rightarrow> ''Generated: '' @ impl_path o1 ns s @ '' (new skeleton)'')]"
  define d1 where "d1 = d\<lparr>dk_files := (dk_files d)(impl_path o1 ns s \<mapsto> new s), dk_output := dk_output d @ msg\<rparr>"
  have emit: "emit_service now env o1 ns header s d = (Inr (), d1)"
    using s Cons.prems(2)
    by (simp add: emit_service_def sbind_apply slift_def write_storable say_apply d1_def msg_def)
  have d1: "dk_dirs d1 = dk_dirs d" "dk_files d1 = (dk_files d)(impl_path o1 ns s \<mapsto> new s)" by (simp_all add: d1_def)
  have "\<exists>d'. emit_services now env o1 ns header ss d1 = (Inr (), d') \<and> dk_dirs d' = dk_dirs d1
    \<and> (\<forall>s \<in> set ss. dk_files d' (impl_path o1 ns s) = Some (new s))
    \<and> (\<forall>p. p \<notin> impl_path o1 ns ` set ss \<longrightarrow> dk_files d' p = dk_files d1 p)"
    by (rule Cons.IH) (use Cons.prems d1 in \<open>auto simp: image_iff\<close>)
  then obtain d' where d': "emit_services now env o1 ns header ss d1 = (Inr (), d')" "dk_dirs d' = dk_dirs d1"
      "\<forall>s \<in> set ss. dk_files d' (impl_path o1 ns s) = Some (new s)"
      "\<forall>p. p \<notin> impl_path o1 ns ` set ss \<longrightarrow> dk_files d' p = dk_files d1 p" by blast
  have "dk_files d' (impl_path o1 ns s) = Some (new s)" using d'(4) Cons.prems(1) by (auto simp: d1)
  with d' emit show ?case by (intro exI [of _ d']) (auto simp: sbind_apply d1)
qed (simp add: sret_def)

lemma impl_paths_distinct: "distinct (map sv_name ss) \<Longrightarrow> distinct (map (impl_path o1 ns) ss)"
  by (simp add: distinct_map inj_on_def impl_path_def out_path_def)

lemma impl_path_not_header: "impl_path o1 ns s \<noteq> out_path o1 ns ''.hpp''"
proof
  assume "impl_path o1 ns s = out_path o1 ns ''.hpp''"
  then have "''_'' @ sv_name s @ ''_impl.cpp'' = ''.hpp''" by (simp add: impl_path_def out_path_def)
  then show False by simp
qed

lemma method_ok_named: "Song_Print.method_ok m \<Longrightarrow> method_named m"
  using identifier_ident
  by (auto simp: Song_Print.method_ok_def method_named_def type_named_def param_ok_def list_all_iff Song_Print.type_ok_def
      split: base_type.splits)

text \<open>A run with the scaffold option, from the files that are there to those that are written.\<close>

lemma scaffold_run:
  assumes args: "parse_args program default_options args = Inr o1" and acc: "accepted env o1 d = Some ns"
    and mode: "op_lang o1 \<noteq> ''python''" "op_scaffold o1" and dir: "path_exists (op_output_dir o1) d"
    and header: "\<not> path_exists (out_path o1 ns ''.hpp'') d"
    and old: "\<forall>s \<in> set (ns_services ns). dk_files d (impl_path o1 ns s) = old s
      \<and> (old s = None \<longrightarrow> impl_path o1 ns s \<notin> set (dk_dirs d)) \<and> (old s \<noteq> None \<longrightarrow> can_read env (impl_path o1 ns s))
      \<and> generate_scaffold now ns s (old s) None = Inr (new s) \<and> storable env (impl_path o1 ns s) (new s)"
  shows "\<exists>d'. main_run now env program args d = (Inr 0, d') \<and> dk_dirs d' = dk_dirs d
    \<and> (\<forall>s \<in> set (ns_services ns). dk_files d' (impl_path o1 ns s) = Some (new s))
    \<and> (\<forall>p. p \<notin> impl_path o1 ns ` set (ns_services ns) \<longrightarrow> dk_files d' p = dk_files d p)"
proof -
  have made: "make_output_dir env o1 d = (Inr (), d)" using dir by (simp add: make_output_dir_def sbind_apply sget_def sret_def)
  have no_header: "read_if_exists env (out_path o1 ns ''.hpp'') d = (Inr None, d)"
    using header by (intro read_if_exists_apply) (auto simp: path_exists_def)
  obtain d' where d': "emit_services now env o1 ns None (ns_services ns) d = (Inr (), d')" "dk_dirs d' = dk_dirs d"
      "\<forall>s \<in> set (ns_services ns). dk_files d' (impl_path o1 ns s) = Some (new s)"
      "\<forall>p. p \<notin> impl_path o1 ns ` set (ns_services ns) \<longrightarrow> dk_files d' p = dk_files d p"
    using emit_services_result [OF impl_paths_distinct [OF accepted_facts(2) [OF acc]] old] by blast
  obtain d2 where "emit_all now env o1 ns d = (Inr (), d2)" "dk_dirs d2 = dk_dirs d'" "dk_files d2 = dk_files d'"
    using mode d'(1) no_header
    by (cases "ns_services ns = []") (auto simp: emit_all_def emit_scaffold_def sbind_apply say_apply sret_def)
  then show ?thesis
    using made d'(2,3,4)
    by (intro exI [of _ d2]) (simp add: main_run_def args run_compiler_accepted [OF acc] generate_code_def sbind_apply scatch_apply sret_def)
qed

definition up_to_date :: string where
  "up_to_date = newline @ line [''// Scaffold sync: all methods up to date'']"

text \<open>Claim C18. Scaffolding is stable, for the whole compiler. In an output directory that exists and
  has neither an implementation file of one of the services nor a header named after the namespace (with
  a header the second run compares its structs too, and takes a documented field for a changed
  one), and with room on the device, the first run with the scaffold option writes the skeleton of every
  service into a file of its own, and a second run with the same options on the same interface
  finds every skeleton up to date and only appends the line that says so. The interface is any
  that the compiler accepts whose method comments have one line.\<close>

theorem songc_scaffold_twice:
  assumes args: "parse_args program default_options args = Inr o1" and acc: "accepted env o1 d = Some ns"
    and mode: "op_lang o1 \<noteq> ''python''" "op_scaffold o1" and dir: "path_exists (op_output_dir o1) d"
    and fresh: "\<not> path_exists (out_path o1 ns ''.hpp'') d" "\<forall>s \<in> set (ns_services ns). \<not> path_exists (impl_path o1 ns s) d"
    and docs: "\<forall>s \<in> set (ns_services ns). \<forall>m \<in> set (sv_methods s). one_line (md_doc m)"
    and room: "\<forall>s \<in> set (ns_services ns). can_read env (impl_path o1 ns s)
      \<and> storable env (impl_path o1 ns s) (generate_skeleton ns s @ up_to_date)"
  shows "\<exists>d1 d2. main_run now env program args d = (Inr 0, d1) \<and> main_run now' env program args d1 = (Inr 0, d2)
    \<and> (\<forall>s \<in> set (ns_services ns). dk_files d1 (impl_path o1 ns s) = Some (generate_skeleton ns s)
        \<and> dk_files d2 (impl_path o1 ns s) = Some (generate_skeleton ns s @ up_to_date))"
proof -
  let ?impls = "impl_path o1 ns ` set (ns_services ns)"
  have "\<exists>d1. main_run now env program args d = (Inr 0, d1) \<and> dk_dirs d1 = dk_dirs d
    \<and> (\<forall>s \<in> set (ns_services ns). dk_files d1 (impl_path o1 ns s) = Some (generate_skeleton ns s))
    \<and> (\<forall>p. p \<notin> ?impls \<longrightarrow> dk_files d1 p = dk_files d p)"
    by (rule scaffold_run [OF args acc mode dir fresh(1), where old = "\<lambda>s. None"])
      (use fresh(2) room in \<open>auto simp: path_exists_def generate_scaffold_def storable_def\<close>)
  then obtain d1 where d1: "main_run now env program args d = (Inr 0, d1)" "dk_dirs d1 = dk_dirs d"
    "\<forall>s \<in> set (ns_services ns). dk_files d1 (impl_path o1 ns s) = Some (generate_skeleton ns s)"
    "\<forall>p. p \<notin> ?impls \<longrightarrow> dk_files d1 p = dk_files d p" by blast
  have "op_input o1 \<notin> ?impls" using accepted_facts(4) [OF acc] fresh(2) by (auto simp: path_exists_def)
  then have acc1: "accepted env o1 d1 = Some ns" using acc d1(4) by (simp add: accepted_def)
  have outside: "out_path o1 ns ''.hpp'' \<notin> ?impls" using impl_path_not_header by (metis imageE)
  have dir1: "path_exists (op_output_dir o1) d1"
  proof (cases "op_output_dir o1 \<in> ?impls")
    case True
    then have "dk_files d1 (op_output_dir o1) \<noteq> None" using d1(3) by auto
    then show ?thesis by (simp add: path_exists_def)
  next
    case False
    with dir d1(2,4) show ?thesis by (simp add: path_exists_def)
  qed
  have header1: "\<not> path_exists (out_path o1 ns ''.hpp'') d1" using fresh(1) d1(2,4) outside by (simp add: path_exists_def)
  have again: "generate_scaffold now' ns s (Some (generate_skeleton ns s)) None = Inr (generate_skeleton ns s @ up_to_date)"
    if s: "s \<in> set (ns_services ns)" for s
  proof -
    have "Song_Print.service_ok s" "is_identifier (ns_name ns)"
      using accepted_facts(1) [OF acc] s by (simp_all add: Song_Print.namespace_ok_def list_all_iff)
    then have "compare_items md_name method_differs (sv_methods s)
        (existing_map em_name (parse_existing_impl (generate_skeleton ns s))) = ([], [], [])"
      using s docs accepted_facts(3) [OF acc] identifier_ident method_ok_named
      by (intro skeleton_no_changes) (simp_all add: Song_Print.service_ok_def list_all_iff)
    then show ?thesis
      by (simp add: generate_scaffold_def scaffold_report_def compare_def has_changes_def no_changes_def up_to_date_def)
  qed
  have "\<exists>d2. main_run now' env program args d1 = (Inr 0, d2) \<and> dk_dirs d2 = dk_dirs d1
    \<and> (\<forall>s \<in> set (ns_services ns). dk_files d2 (impl_path o1 ns s) = Some (generate_skeleton ns s @ up_to_date))
    \<and> (\<forall>p. p \<notin> ?impls \<longrightarrow> dk_files d2 p = dk_files d1 p)"
    by (rule scaffold_run [OF args acc1 mode dir1 header1, where old = "\<lambda>s. Some (generate_skeleton ns s)"])
      (use again d1(3) room in simp)
  with d1(1,3) show ?thesis by blast
qed

section \<open>Examples\<close>

definition demo_env :: "nat \<Rightarrow> environment" where
  "demo_env n = \<lparr>can_read = \<lambda>_. True, can_write = \<lambda>_. True, can_create = \<lambda>_. True, room_for = \<lambda>_. n\<rparr>"

definition demo_disk :: "string \<Rightarrow> disk" where
  "demo_disk source = \<lparr>dk_files = [''n.song'' \<mapsto> source], dk_dirs = [''.''], dk_output = []\<rparr>"

definition demo_source :: string where
  "demo_source = ''namespace n; struct P { i32 x; } service S { find(i32 id) -> P; }''"

lemma demo_accepted:
  "case accepted (demo_env n) (default_options\<lparr>op_input := ''n.song''\<rparr>) (demo_disk demo_source) of None \<Rightarrow> False
    | Some ns \<Rightarrow> ns_name ns = ''n'' \<and> map sv_name (ns_services ns) = [''S''] \<and> all_docs ns = [[], [], [], []]"
  by code_simp

lemma demo_args:
  "parse_args ''songc'' default_options [''n.song''] = Inr (default_options\<lparr>op_input := ''n.song''\<rparr>)"
  "parse_args ''songc'' default_options [''--scaffold'', ''n.song'']
    = Inr (default_options\<lparr>op_input := ''n.song'', op_scaffold := True\<rparr>)"
  by (simp_all add: default_options_def)

text \<open>A character that is no token, or a number that does not fit, ends the compiler with an exception: only a
  \<^verbatim>\<open>ParserError\<close> is caught.\<close>

lemma lexer_error_escapes:
  "fst (main_run now (demo_env 9) ''songc'' [''n.song''] (demo_disk ''namespace @''))
    = Inl (RuntimeError (error_text (LexerError (''Unexpected character: '' @ [CHR 0x27, CHR ''@'', CHR 0x27]) 1 11)))"
  by code_simp

text \<open>A device that is full: the file is empty, the message says that it was generated, and the exit code is 0.\<close>

lemma short_write_unnoticed:
  "case main_run now (demo_env 0) ''songc'' [''n.song''] (demo_disk demo_source) of (r, d) \<Rightarrow>
     r = Inr 0 \<and> dk_files d ''./n.hpp'' = Some [] \<and> dk_output d = [Out ''Generated: ./n.hpp'']"
  by code_simp

lemma accepted_same: "can_read e1 = can_read e2 \<Longrightarrow> op_input o1 = op_input o2 \<Longrightarrow> accepted e1 o1 d = accepted e2 o2 d"
  by (simp add: accepted_def split: option.split)

definition demo_result :: "namespace_def \<Rightarrow> bool" where
  "demo_result ns \<longleftrightarrow> ns_name ns = ''n'' \<and> map sv_name (ns_services ns) = [''S''] \<and> all_docs ns = [[], [], [], []]"

lemma demo_namespace_accepted:
  obtains ns where "\<And>n o1. op_input o1 = ''n.song'' \<Longrightarrow> accepted (demo_env n) o1 (demo_disk demo_source) = Some ns" "demo_result ns"
proof -
  let ?o = "default_options\<lparr>op_input := ''n.song''\<rparr>"
  obtain ns where ns: "accepted (demo_env 0) ?o (demo_disk demo_source) = Some ns"
      "ns_name ns = ''n'' \<and> map sv_name (ns_services ns) = [''S''] \<and> all_docs ns = [[], [], [], []]"
    using demo_accepted [of 0] by (auto split: option.splits)
  have "accepted (demo_env n) o1 (demo_disk demo_source) = Some ns" if "op_input o1 = ''n.song''" for n o1
    using ns(1) accepted_same [of "demo_env n" "demo_env 0" o1 ?o "demo_disk demo_source"] that by (simp add: demo_env_def)
  with ns(2) show thesis using that by (simp add: demo_result_def)
qed

theorem songc_writes_only_outputs_witness:
  "\<exists>r d' o1 ns. main_run [] (demo_env 0) ''songc'' [''n.song''] (demo_disk demo_source) = (r, d')
    \<and> dk_files d' ''./n.hpp'' = Some [] \<and> accepted (demo_env 0) o1 (demo_disk demo_source) = Some ns
    \<and> ''./n.hpp'' \<in> set (output_paths o1 ns)"
proof -
  obtain r d' where run: "main_run [] (demo_env 0) ''songc'' [''n.song''] (demo_disk demo_source) = (r, d')" by fastforce
  have new: "dk_files d' ''./n.hpp'' = Some []" using short_write_unnoticed [of "[]"] by (simp add: run)
  moreover have "dk_files (demo_disk demo_source) ''./n.hpp'' = None" by (simp add: demo_disk_def)
  ultimately have "dk_files d' ''./n.hpp'' \<noteq> dk_files (demo_disk demo_source) ''./n.hpp''" by simp
  with songc_writes_only_outputs [OF run, of "''./n.hpp''"] new run show ?thesis by blast
qed

theorem songc_generates_witness:
  "\<exists>n ns d'. accepted (demo_env n) (default_options\<lparr>op_input := ''n.song''\<rparr>) (demo_disk demo_source) = Some ns
    \<and> main_run [] (demo_env n) ''songc'' [''n.song''] (demo_disk demo_source) = (Inr 0, d')
    \<and> dk_files d' ''./n.hpp'' = Some (generate_header ns) \<and> well_bracketed (generate_header ns)"
proof -
  let ?o = "default_options\<lparr>op_input := ''n.song''\<rparr>"
  obtain ns where all: "\<And>n o1. op_input o1 = ''n.song'' \<Longrightarrow> accepted (demo_env n) o1 (demo_disk demo_source) = Some ns"
      and "demo_result ns"
    by (rule demo_namespace_accepted) (rule that; assumption)
  then have ns: "ns_name ns = ''n''" "unspliced ns" by (simp_all add: demo_result_def unspliced_def)
  have acc: "accepted (demo_env n) ?o (demo_disk demo_source) = Some ns" for n by (rule all) simp
  have out: "outputs ?o ns = [(''./n.hpp'', generate_header ns)]"
    by (simp add: outputs_def default_options_def out_path_def ns)
  define n where "n = length (generate_header ns)"
  have room: "\<forall>(p, c) \<in> set (outputs ?o ns). storable (demo_env n) p c"
    by (simp add: out storable_def demo_env_def n_def)
  have "op_lang ?o = ''cpp'' \<and> \<not> op_scaffold ?o" "can_create (demo_env n) (op_output_dir ?o)"
    by (simp_all add: default_options_def demo_env_def)
  with songc_generates [OF demo_args(1) acc _ _ room ns(2), of "[]"] acc show ?thesis by (auto simp: out)
qed

theorem songc_scaffold_twice_witness:
  "\<exists>n d1 d2. main_run ''today'' (demo_env n) ''songc'' [''--scaffold'', ''n.song''] (demo_disk demo_source) = (Inr 0, d1)
    \<and> main_run ''tomorrow'' (demo_env n) ''songc'' [''--scaffold'', ''n.song''] d1 = (Inr 0, d2)
    \<and> (\<exists>s. dk_files d1 ''./n_S_impl.cpp'' = Some s \<and> dk_files d2 ''./n_S_impl.cpp'' = Some (s @ up_to_date))"
proof -
  let ?o = "default_options\<lparr>op_input := ''n.song'', op_scaffold := True\<rparr>"
  obtain ns where all: "\<And>n o1. op_input o1 = ''n.song'' \<Longrightarrow> accepted (demo_env n) o1 (demo_disk demo_source) = Some ns"
      and "demo_result ns"
    by (rule demo_namespace_accepted) (rule that; assumption)
  then have ns: "ns_name ns = ''n''" and sv: "map sv_name (ns_services ns) = [''S'']" and docs: "all_docs ns = [[], [], [], []]"
    by (simp_all add: demo_result_def)
  have acc: "accepted (demo_env n) ?o (demo_disk demo_source) = Some ns" for n by (rule all) simp
  obtain s where s: "ns_services ns = [s]" "sv_name s = ''S''" using sv by auto
  have path: "impl_path ?o ns s = ''./n_S_impl.cpp''" "out_path ?o ns ''.hpp'' = ''./n.hpp''"
    by (simp_all add: impl_path_def out_path_def default_options_def ns s)
  have opts: "op_lang ?o = ''cpp''" "op_scaffold ?o" "op_output_dir ?o = ''.''" by (simp_all add: default_options_def)
  have lines: "one_line (md_doc m)" if "m \<in> set (sv_methods s)" for m
  proof -
    have "md_doc m \<in> set (all_docs ns)" using that by (auto simp: all_docs_def s)
    then show ?thesis by (simp add: docs)
  qed
  define n where "n = length (generate_skeleton ns s @ up_to_date)"
  have "\<exists>d1 d2. main_run ''today'' (demo_env n) ''songc'' [''--scaffold'', ''n.song''] (demo_disk demo_source) = (Inr 0, d1)
    \<and> main_run ''tomorrow'' (demo_env n) ''songc'' [''--scaffold'', ''n.song''] d1 = (Inr 0, d2)
    \<and> (\<forall>s \<in> set (ns_services ns). dk_files d1 (impl_path ?o ns s) = Some (generate_skeleton ns s)
        \<and> dk_files d2 (impl_path ?o ns s) = Some (generate_skeleton ns s @ up_to_date))"
    by (rule songc_scaffold_twice [OF demo_args(2) acc])
      (use lines in \<open>simp_all add: s path storable_def path_exists_def demo_env_def demo_disk_def n_def opts [simplified]\<close>)
  then show ?thesis by (auto simp: s path)
qed

end
