(* ===== verification/Song_Tls.thy ===== *)
theory Song_Tls
  imports Song_Security
begin

text \<open>
  \<^verbatim>\<open>src/tls.cpp\<close>, \<^verbatim>\<open>TlsConfig\<close> of \<^verbatim>\<open>include/song/security.hpp\<close> and \<^verbatim>\<open>TlsTransport\<close> and
  \<^verbatim>\<open>TlsListener\<close> of \<^verbatim>\<open>include/song/transport.hpp\<close>. mbedTLS is not part of the repository: what
  its calls return is a script, as the kernel's are. The \<open>reads\<close> and \<open>writes\<close> of the state of a
  session are the results of \<^verbatim>\<open>mbedtls_ssl_read\<close> and \<^verbatim>\<open>mbedtls_ssl_write\<close>: \<open>RdIntr\<close> and \<open>WrIntr\<close>
  stand for \<^verbatim>\<open>WANT_READ\<close> and \<^verbatim>\<open>WANT_WRITE\<close>, \<open>RdError ETIMEDOUT\<close> for \<^verbatim>\<open>MBEDTLS_ERR_SSL_TIMEOUT\<close>,
  \<open>RdError peer_close\<close> for \<^verbatim>\<open>MBEDTLS_ERR_SSL_PEER_CLOSE_NOTIFY\<close>, and the other errors carry the
  text \<^verbatim>\<open>mbedtls_strerror\<close> has for them.
\<close>

section \<open>The configuration\<close>

datatype tls_mode = ModeCertificate | ModePsk

datatype verify_mode = VerifyNone | VerifyOptional | VerifyRequired

record tls_config =
  cert_path :: string
  key_path :: string
  ca_path :: string
  psk :: string
  psk_identity :: string
  tls_mode_of :: tls_mode
  verify :: verify_mode
  as_server :: bool

definition tls_config_default :: tls_config where
  "tls_config_default = \<lparr>cert_path = [], key_path = [], ca_path = [], psk = [], psk_identity = [],
     tls_mode_of = ModeCertificate, verify = VerifyRequired, as_server = False\<rparr>"

definition tls_config_certificate :: "string \<Rightarrow> string \<Rightarrow> string \<Rightarrow> tls_config" where
  "tls_config_certificate cert key ca = tls_config_default\<lparr>cert_path := cert, key_path := key,
     ca_path := ca, tls_mode_of := ModeCertificate, verify := VerifyRequired\<rparr>"

definition tls_config_psk :: "string \<Rightarrow> string \<Rightarrow> tls_config" where
  "tls_config_psk key identity = tls_config_default\<lparr>psk := key, psk_identity := identity,
     tls_mode_of := ModePsk, verify := VerifyNone\<rparr>"

definition set_server :: "bool \<Rightarrow> tls_config \<Rightarrow> tls_config" where
  "set_server is_server c = c\<lparr>as_server := is_server\<rparr>"

definition set_verify_mode :: "verify_mode \<Rightarrow> tls_config \<Rightarrow> tls_config" where
  "set_verify_mode m c = c\<lparr>verify := m\<rparr>"

text \<open>The destructor zeroes the key in place.\<close>

definition tls_config_destroy :: "tls_config \<Rightarrow> tls_config" where
  "tls_config_destroy c = c\<lparr>psk := replicate (length (psk c)) (CHR 0x00), key_path := []\<rparr>"

section \<open>The callbacks on the socket\<close>

text \<open>\<^verbatim>\<open>tls_error_string\<close>: the text up to the first NUL of what \<^verbatim>\<open>mbedtls_strerror\<close> left in the
  buffer of 256 characters.\<close>

definition tls_error_string :: "string \<Rightarrow> string" where
  "tls_error_string buf = takeWhile (\<lambda>c. c \<noteq> CHR 0x00) buf"

datatype bio = BioSent nat | BioData "byte list" | WantWrite | WantRead | SendFailed | RecvFailed
  | PeerClosed | BioTimeout | BioBlocks

definition eagain :: errno where
  "eagain = EOther ''Resource temporarily unavailable''"

fun tls_bio_send :: "byte list \<Rightarrow> write_event list \<Rightarrow> bio \<times> write_event list" where
  "tls_bio_send buf [] = (BioBlocks, [])"
| "tls_bio_send buf (WrIntr # es) = (WantWrite, es)"
| "tls_bio_send buf (WrError e # es) = (if e = eagain then WantWrite else SendFailed, es)"
| "tls_bio_send buf (WrAccept k # es) = (BioSent (min k (length buf)), es)"

definition tls_bio_recv :: "nat \<Rightarrow> sys \<Rightarrow> bio \<times> sys" where
  "tls_bio_recv len s = (case sys_read len (reads s) of (r, es) \<Rightarrow>
     ((case r of
         IoIntr \<Rightarrow> WantRead
       | IoFail e \<Rightarrow> if e = eagain then WantRead else RecvFailed
       | IoData bs \<Rightarrow> if bs = [] then PeerClosed else BioData bs
       | IoBlocks \<Rightarrow> BioBlocks), s\<lparr>reads := es\<rparr>))"

definition tls_bio_recv_timeout :: "nat \<Rightarrow> u32 \<Rightarrow> sys \<Rightarrow> bio \<times> sys" where
  "tls_bio_recv_timeout len timeout s =
    (if timeout = 0 then tls_bio_recv len s
     else case poll_loop (polls s) of (ev, ps) \<Rightarrow>
       (case ev of
          PollTimeout \<Rightarrow> (BioTimeout, s\<lparr>polls := ps\<rparr>)
        | PollError e \<Rightarrow> (RecvFailed, s\<lparr>polls := ps\<rparr>)
        | _ \<Rightarrow> tls_bio_recv len (s\<lparr>polls := ps\<rparr>)))"

section \<open>The transport\<close>

text \<open>What the constructor tells mbedTLS to use.\<close>

record ssl_conf =
  conf_server :: bool
  conf_authmode :: verify_mode
  conf_ca :: "string option"
  conf_own_cert :: "(string \<times> string) option"
  conf_psk :: "(string \<times> string) option"
  conf_read_timeout :: u32

definition ssl_conf_init :: ssl_conf where
  "ssl_conf_init = \<lparr>conf_server = False, conf_authmode = VerifyRequired, conf_ca = None,
     conf_own_cert = None, conf_psk = None, conf_read_timeout = 0\<rparr>"

record impl =
  im_conf :: ssl_conf
  im_sock :: int
  im_peer_addr :: string
  im_peer_port :: u16
  im_connected :: bool
  im_handshake_done :: bool
  im_server :: bool

definition impl_new :: impl where
  "impl_new = \<lparr>im_conf = ssl_conf_init, im_sock = -1, im_peer_addr = [], im_peer_port = 0,
     im_connected = False, im_handshake_done = False, im_server = False\<rparr>"

text \<open>\<^verbatim>\<open>impl_\<close>; empty after a move.\<close>

type_synonym tls = "impl option"

text \<open>The world: the kernel, whether \<^verbatim>\<open>psa_crypto_init\<close> has succeeded once, and the sockets on
  which a \<^verbatim>\<open>close_notify\<close> has been sent.\<close>

record tls_world =
  tw_sys :: sys
  tw_psa :: bool
  tw_notified :: "int list"

definition tw_close :: "int \<Rightarrow> tls_world \<Rightarrow> tls_world" where
  "tw_close fd w = w\<lparr>tw_sys := sys_close fd (tw_sys w)\<rparr>"

definition impl_destroy :: "impl \<Rightarrow> tls_world \<Rightarrow> tls_world" where
  "impl_destroy i w =
    (let w = (if im_handshake_done i then w\<lparr>tw_notified := im_sock i # tw_notified w\<rparr> else w)
     in if im_sock i \<ge> 0 then tw_close (im_sock i) w else w)"

definition tls_destroy :: "tls \<Rightarrow> tls_world \<Rightarrow> tls_world" where
  "tls_destroy t w = (case t of None \<Rightarrow> w | Some i \<Rightarrow> impl_destroy i w)"

definition tls_move :: "tls \<Rightarrow> tls \<times> tls" where
  "tls_move other = (other, None)"

definition tls_move_assign :: "bool \<Rightarrow> tls \<Rightarrow> tls \<Rightarrow> tls_world \<Rightarrow> (tls \<times> tls) \<times> tls_world" where
  "tls_move_assign same this other w =
    (if same then ((this, this), w) else (tls_move other, tls_destroy this w))"

text \<open>The answers of mbedTLS to the constructor: \<open>None\<close> is success, else what \<^verbatim>\<open>mbedtls_strerror\<close>
  leaves in the buffer.\<close>

record tls_calls =
  tk_psa :: bool
  tk_defaults :: "string option"
  tk_ca :: "string option"
  tk_cert :: "string option"
  tk_key :: "string option"
  tk_own_cert :: "string option"
  tk_psk :: "string option"
  tk_setup :: "string option"

definition ensure_psa_init :: "tls_calls \<Rightarrow> tls_world \<Rightarrow> bool \<times> tls_world" where
  "ensure_psa_init c w =
    (if tw_psa w then (True, w) else if \<not> tk_psa c then (False, w) else (True, w\<lparr>tw_psa := True\<rparr>))"

text \<open>A call that must succeed, or a \<^verbatim>\<open>SecurityError\<close>.\<close>

definition tls_require :: "string option \<Rightarrow> string \<Rightarrow> unit res" where
  "tls_require ret m = (case ret of None \<Rightarrow> Inr () | Some buf \<Rightarrow> Inl (SecurityError (m @ tls_error_string buf)))"

definition load_credentials :: "tls_calls \<Rightarrow> tls_config \<Rightarrow> ssl_conf \<Rightarrow> ssl_conf res" where
  "load_credentials c config conf =
    (if tls_mode_of config = ModeCertificate then
       rbind (if ca_path config \<noteq> [] then
           rbind (tls_require (tk_ca c) (''TLS: failed to load CA cert '' @ quoted (ca_path config) @ '': ''))
             (\<lambda>_. Inr (conf\<lparr>conf_ca := Some (ca_path config)\<rparr>))
         else Inr conf) (\<lambda>conf.
       if cert_path config \<noteq> [] \<and> key_path config \<noteq> [] then
         rbind (tls_require (tk_cert c) (''TLS: failed to load cert '' @ quoted (cert_path config) @ '': '')) (\<lambda>_.
         rbind (tls_require (tk_key c) (''TLS: failed to load key '' @ quoted (key_path config) @ '': '')) (\<lambda>_.
         rbind (tls_require (tk_own_cert c) ''TLS: failed to configure own cert: '') (\<lambda>_.
         Inr (conf\<lparr>conf_own_cert := Some (cert_path config, key_path config)\<rparr>))))
       else Inr conf)
     else rbind (tls_require (tk_psk c) ''TLS: failed to configure PSK: '') (\<lambda>_.
       Inr (conf\<lparr>conf_psk := Some (psk config, psk_identity config)\<rparr>)))"

text \<open>The constructor takes the socket over: when it throws, \<^verbatim>\<open>impl_\<close> is destroyed, and the
  socket with it.\<close>

definition tls_new :: "tls_calls \<Rightarrow> int \<Rightarrow> tls_config \<Rightarrow> string \<Rightarrow> u16 \<Rightarrow> (tls_world, impl) step" where
  "tls_new c sock config peer_addr peer_port w =
    (case ensure_psa_init c w of
      (False, w) \<Rightarrow> (Inl (SecurityError ''TLS: failed to initialize PSA crypto''), tw_close sock w)
    | (True, w) \<Rightarrow>
      let i = impl_new\<lparr>im_sock := sock, im_peer_addr := peer_addr, im_peer_port := peer_port,
          im_server := as_server config\<rparr>;
          made = rbind (tls_require (tk_defaults c) ''TLS config_defaults failed: '') (\<lambda>_.
            let conf = ssl_conf_init\<lparr>conf_server := as_server config, conf_authmode := verify config\<rparr> in
            rbind (load_credentials c config conf) (\<lambda>conf.
            rbind (tls_require (tk_setup c) ''TLS ssl_setup failed: '') (\<lambda>_. Inr conf)))
      in case made of
        Inl e \<Rightarrow> (Inl e, impl_destroy i w)
      | Inr conf \<Rightarrow> (Inr (i\<lparr>im_conf := conf, im_connected := True\<rparr>), w))"

text \<open>The results of \<^verbatim>\<open>mbedtls_ssl_handshake\<close>; with none left the call blocks.\<close>

datatype handshake_event = HsWant | HsDone | HsFail string

fun handshake_loop :: "handshake_event list \<Rightarrow> string option option" where
  "handshake_loop [] = None"
| "handshake_loop (HsWant # es) = handshake_loop es"
| "handshake_loop (HsDone # es) = Some None"
| "handshake_loop (HsFail buf # es) = Some (Some buf)"

definition tls_handshake :: "handshake_event list \<Rightarrow> (tls, unit) step" where
  "tls_handshake es t = (case t of
      None \<Rightarrow> (Inl (SecurityError ''TLS handshake: not connected''), t)
    | Some i \<Rightarrow>
      if \<not> im_connected i then (Inl (SecurityError ''TLS handshake: not connected''), t)
      else (case handshake_loop es of
          None \<Rightarrow> (Inl Diverges, t)
        | Some (Some buf) \<Rightarrow> (Inl (SecurityError (''TLS handshake failed: '' @ tls_error_string buf)),
            Some (i\<lparr>im_connected := False\<rparr>))
        | Some None \<Rightarrow> (Inr (), Some (i\<lparr>im_handshake_done := True\<rparr>))))"

definition tls_is_connected :: "tls \<Rightarrow> bool" where
  "tls_is_connected t = (case t of None \<Rightarrow> False | Some i \<Rightarrow> im_connected i \<and> im_handshake_done i)"

definition tls_peer_address :: "tls \<Rightarrow> string" where
  "tls_peer_address t = (case t of None \<Rightarrow> [] | Some i \<Rightarrow> im_peer_addr i)"

definition tls_peer_port :: "tls \<Rightarrow> u16" where
  "tls_peer_port t = (case t of None \<Rightarrow> 0 | Some i \<Rightarrow> im_peer_port i)"

text \<open>The flag in the fifth byte of a message that has a whole header.\<close>

definition stamp :: "byte list \<Rightarrow> byte list" where
  "stamp bs = (if length bs \<ge> 16 then bs[4 := bs ! 4 OR mf_encrypted] else bs)"

text \<open>The loop around \<^verbatim>\<open>mbedtls_ssl_write\<close>; a call that takes nothing is tried again.\<close>

fun tls_send_loop :: "byte list \<Rightarrow> write_event list \<Rightarrow> byte list \<Rightarrow> unit res \<times> write_event list \<times> byte list" where
  "tls_send_loop [] es out = (Inr (), es, out)"
| "tls_send_loop (d # ds) [] out = (Inl Diverges, [], out)"
| "tls_send_loop (d # ds) (WrIntr # es) out = tls_send_loop (d # ds) es out"
| "tls_send_loop (d # ds) (WrError e # es) out =
    (Inl (ServiceError (''TlsTransport: write failed: '' @ tls_error_string (strerror e))), es, out)"
| "tls_send_loop (d # ds) (WrAccept k # es) out =
    tls_send_loop (drop k (d # ds)) es (out @ take k (d # ds))"

definition tls_send :: "buffer \<Rightarrow> (tls \<times> sys, unit) step" where
  "tls_send msg = (\<lambda>(t, s). case t of
      None \<Rightarrow> (Inl (ServiceError ''TlsTransport: not connected or handshake incomplete''), t, s)
    | Some i \<Rightarrow>
      if \<not> im_connected i \<or> \<not> im_handshake_done i
      then (Inl (ServiceError ''TlsTransport: not connected or handshake incomplete''), t, s)
      else (case buffer_write (contents msg) buffer_new of
        Inl e \<Rightarrow> (Inl e, t, s)
      | Inr stamped \<Rightarrow>
        (case tls_send_loop (stamp (contents stamped)) (writes s) (written s) of (r, ws, out) \<Rightarrow>
          (r, Some (case r of Inl (ServiceError m) \<Rightarrow> i\<lparr>im_connected := False\<rparr> | _ \<Rightarrow> i),
           s\<lparr>writes := ws, written := out\<rparr>))))"

definition peer_close :: errno where
  "peer_close = EOther ''SSL - The peer notified us that the connection is going to be closed''"

definition read_timeout_of :: "int \<Rightarrow> u32" where
  "read_timeout_of timeout_ms = (if timeout_ms \<ge> 0 then word_of_int timeout_ms else 0)"

text \<open>\<^verbatim>\<open>receive\<close>. The loops around \<^verbatim>\<open>mbedtls_ssl_read\<close> are those of the TCP transport around
  \<^verbatim>\<open>recv\<close>; what differs is what each way out does.\<close>

definition tls_receive :: "int \<Rightarrow> (buffer \<times> tls \<times> sys, bool) step" where
  "tls_receive timeout_ms = (\<lambda>(msg, t, s). case t of
      None \<Rightarrow> (Inr False, msg, t, s)
    | Some i \<Rightarrow>
      if \<not> im_connected i \<or> \<not> im_handshake_done i then (Inr False, msg, t, s)
      else
      let i = i\<lparr>im_conf := (im_conf i)\<lparr>conf_read_timeout := read_timeout_of timeout_ms\<rparr>\<rparr>;
          gone = Some (i\<lparr>im_connected := False\<rparr>);
          msg = buffer_reset msg
      in case tcp_fill 16 [] (reads s) of
        (FillEof, es) \<Rightarrow> (Inr False, msg, gone, s\<lparr>reads := es\<rparr>)
      | (FillFail e, es) \<Rightarrow>
          if e = ETIMEDOUT
          then (Inl (ServiceError ''TlsTransport: read timeout''), msg, Some i, s\<lparr>reads := es\<rparr>)
          else if e = peer_close then (Inr False, msg, gone, s\<lparr>reads := es\<rparr>)
          else (Inl (ServiceError (''TlsTransport: read failed: '' @ tls_error_string (strerror e))), msg, gone,
            s\<lparr>reads := es\<rparr>)
      | (FillBlocks, es) \<Rightarrow> (Inl Diverges, msg, Some i, s\<lparr>reads := es\<rparr>)
      | (Filled bs, es) \<Rightarrow>
        (case store_header bs msg of
          Inl e \<Rightarrow> (Inl e, msg, Some i, s\<lparr>reads := es\<rparr>)
        | Inr (hdr, msg) \<Rightarrow>
          if hdr_payload_size hdr > 0 then
            if unat (hdr_payload_size hdr) > k_max_payload_size
            then (Inl (ProtocolError ''TlsTransport: payload size exceeds maximum''), msg, Some i, s\<lparr>reads := es\<rparr>)
            else (case tcp_fill (unat (hdr_payload_size hdr)) [] es of
              (Filled payload, es) \<Rightarrow>
                (case buffer_write payload msg of
                  Inl e \<Rightarrow> (Inl e, msg, Some i, s\<lparr>reads := es\<rparr>)
                | Inr msg \<Rightarrow> (Inr True, reset_read msg, Some i, s\<lparr>reads := es\<rparr>))
            | (FillEof, es) \<Rightarrow>
                (Inl (ServiceError ''TlsTransport: connection closed during payload read''), msg, Some i,
                 s\<lparr>reads := es\<rparr>)
            | (FillFail e, es) \<Rightarrow>
                (Inl (ServiceError (''TlsTransport: payload read failed: '' @ tls_error_string (strerror e))), msg, gone,
                 s\<lparr>reads := es\<rparr>)
            | (FillBlocks, es) \<Rightarrow> (Inl Diverges, msg, Some i, s\<lparr>reads := es\<rparr>))
          else (Inr True, reset_read msg, Some i, s\<lparr>reads := es\<rparr>)))"

definition tls_close :: "tls \<Rightarrow> tls_world \<Rightarrow> tls \<times> tls_world" where
  "tls_close t w = (case t of
      None \<Rightarrow> (t, w)
    | Some i \<Rightarrow>
      let (i, w) = (if im_handshake_done i
            then (i\<lparr>im_handshake_done := False\<rparr>, w\<lparr>tw_notified := im_sock i # tw_notified w\<rparr>) else (i, w));
          (i, w) = (if im_sock i \<ge> 0 then (i\<lparr>im_sock := -1\<rparr>, tw_close (im_sock i) w) else (i, w))
      in (Some (i\<lparr>im_connected := False\<rparr>), w))"

section \<open>The listener\<close>

text \<open>\<open>tl_config\<close> says whether \<^verbatim>\<open>config_\<close> points to a configuration; the one it points to belongs
  to the caller and is an argument.\<close>

record tls_listener =
  tl_inner :: listener
  tl_config :: bool

definition tls_lst_new :: tls_listener where
  "tls_lst_new = \<lparr>tl_inner = lst_new, tl_config = False\<rparr>"

definition tls_lst_listen :: "listen_calls \<Rightarrow> u16 \<Rightarrow> ((tls_config \<times> tls_listener) \<times> sys, unit) step" where
  "tls_lst_listen c port = (\<lambda>((config, l), s).
     case lst_listen c port [] (tl_inner l, s) of
       (r, inner, s) \<Rightarrow> (r, (set_server True config, \<lparr>tl_inner = inner, tl_config = True\<rparr>), s))"

definition tls_lst_is_listening :: "tls_listener \<Rightarrow> bool" where
  "tls_lst_is_listening l = lst_is_listening (tl_inner l)"

definition tls_lst_bound_port :: "tls_listener \<Rightarrow> u16" where
  "tls_lst_bound_port l = lst_port (tl_inner l)"

text \<open>The configuration of one connection, rebuilt from the listener's.\<close>

definition conn_config :: "tls_config \<Rightarrow> tls_config" where
  "conn_config config = set_verify_mode (verify config) (set_server True
     (if tls_mode_of config = ModeCertificate
      then tls_config_certificate (cert_path config) (key_path config) (ca_path config)
      else tls_config_psk (psk config) (psk_identity config)))"

text \<open>\<open>conn\<close> and \<open>dup'\<close> are what \<^verbatim>\<open>accept\<close> and \<^verbatim>\<open>dup\<close> return.\<close>

definition tls_lst_accept :: "tls_config \<Rightarrow> tls_listener \<Rightarrow> errno + (int \<times> string \<times> u16) \<Rightarrow> errno + int
    \<Rightarrow> tls_calls \<Rightarrow> handshake_event list \<Rightarrow> int \<Rightarrow> (tls_world, tls option) step" where
  "tls_lst_accept config l conn dup' c hs timeout_ms w =
    (if \<not> tl_config l then (Inl (ServiceError ''TlsListener: not configured''), w)
     else case lst_accept (tl_inner l) conn timeout_ms (tw_sys w) of
       (Inl e, s) \<Rightarrow> (Inl e, w\<lparr>tw_sys := s\<rparr>)
     | (Inr None, s) \<Rightarrow> (Inr None, w\<lparr>tw_sys := s\<rparr>)
     | (Inr (Some tcp), s) \<Rightarrow>
       (case dup' of
         Inl e \<Rightarrow> (Inl (ServiceError (''TlsListener: dup() failed: '' @ strerror e)),
                   w\<lparr>tw_sys := snd (tcp_close (tcp, s))\<rparr>)
       | Inr tls_sock \<Rightarrow>
         let s = snd (tcp_close (tcp, s));
             w = w\<lparr>tw_sys := sys_option tls_sock NoDelay s\<rparr>
         in case tls_new c tls_sock (conn_config config) (tcp_peer_addr tcp) (tcp_peer_port tcp) w of
           (Inl e, w) \<Rightarrow> (Inl e, w)
         | (Inr i, w) \<Rightarrow>
           (case tls_handshake hs (Some i) of
             (Inl Diverges, t) \<Rightarrow> (Inl Diverges, w)
           | (Inl e, t) \<Rightarrow> (Inl e, tls_destroy t w)
           | (Inr _, t) \<Rightarrow> (Inr (Some t), w))))"

definition tls_lst_close :: "tls_listener \<Rightarrow> sys \<Rightarrow> tls_listener \<times> sys" where
  "tls_lst_close l s = (case lst_close (tl_inner l, s) of (inner, s) \<Rightarrow> (\<lparr>tl_inner = inner, tl_config = False\<rparr>, s))"

section \<open>The stamped message\<close>

lemma length_stamp [simp]: "length (stamp bs) = length bs"
  by (simp add: stamp_def)

lemma stamp_nil [simp]: "stamp bs = [] \<longleftrightarrow> bs = []"
  by (simp add: stamp_def)

text \<open>Stamping sets the flag in the header and changes nothing else.\<close>

lemma stamp_header:
  "stamp (header_repr h @ p) = header_repr (h\<lparr>hdr_flags := hdr_flags h OR mf_encrypted\<rparr>) @ p"
proof -
  have four: "length (le_bytes 4 (hdr_magic h)) = 4" by simp
  have one: "le_bytes (Suc 0) (x :: msg_flags) = [x]" for x
    by (simp add: le_widths)
  show ?thesis
    by (simp add: stamp_def header_repr_def one list_update_append nth_append)
qed

lemma take_stamp [simp]: "n \<le> 4 \<Longrightarrow> take n (stamp bs) = take n bs"
  by (simp add: stamp_def)

lemma drop_stamp [simp]: "4 < n \<Longrightarrow> drop n (stamp bs) = drop n bs"
  by (simp add: stamp_def)

lemma declared_payload_stamp [simp]: "declared_payload (stamp bs) = declared_payload bs"
  by (simp add: declared_payload_def)

lemma is_frame_stamp [simp]: "is_frame (stamp m) = is_frame m"
  by (simp add: is_frame_def)

lemma is_small_frame_stamp [simp]: "is_small_frame (stamp m) = is_small_frame m"
  by (simp add: is_small_frame_def)

lemma stamp_patch:
  assumes "16 \<le> length m"
  shows "stamp (patch_u32 8 v m @ tag) = patch_u32 8 v (stamp m) @ tag"
  using assms
  by (simp add: stamp_def patch_u32_def list_update_append nth_append take_update_swap)

section \<open>Sending and receiving\<close>

lemma tls_send_loop_prefix:
  "tls_send_loop data es out = (r, es', out') \<Longrightarrow>
    \<exists>sent rest. data = sent @ rest \<and> out' = out @ sent \<and> (r = Inr () \<longleftrightarrow> rest = [])"
proof (induction data es out rule: tls_send_loop.induct)
  case (5 d ds k es out)
  then obtain sent rest where "drop k (d # ds) = sent @ rest" "out' = (out @ take k (d # ds)) @ sent"
    "r = Inr () \<longleftrightarrow> rest = []" by auto
  then show ?case by (rule sent_more)
qed auto

definition tls_written :: "tls \<times> sys \<Rightarrow> byte list" where
  "tls_written = (\<lambda>(t, s). written s)"

definition tls_image :: "buffer \<Rightarrow> byte list" where
  "tls_image b = stamp (contents b)"

lemma contents_written:
  "buffer_write xs b = Inr b' \<Longrightarrow> contents b' = contents b @ xs"
  by (auto simp: buffer_write_def ensure_capacity_def rbind_eq_Inr split: if_splits option.splits)

lemma tls_send_prefix: "sent_prefix tls_written (tls_image msg) ts (tls_send msg ts)"
proof -
  obtain t s where ts: "ts = (t, s)" by fastforce
  show ?thesis
  proof (cases "tls_is_connected t")
    case False
    then show ?thesis
      by (auto simp: ts tls_send_def tls_is_connected_def sent_prefix_def tls_written_def tls_image_def
          split: option.splits)
  next
    case True
    then obtain i where i: "t = Some i" "im_connected i" "im_handshake_done i"
      by (auto simp: tls_is_connected_def split: option.splits)
    show ?thesis
    proof (cases "buffer_write (contents msg) buffer_new")
      case (Inl e)
      then show ?thesis
        using i by (simp add: ts tls_send_def sent_prefix_def tls_written_def tls_image_def)
    next
      case (Inr b)
      then have b: "contents b = contents msg"
        using contents_written by fastforce
      obtain r ws out where "tls_send_loop (stamp (contents msg)) (writes s) (written s) = (r, ws, out)"
        by (metis prod_cases3)
      with i Inr b tls_send_loop_prefix [OF this] show ?thesis
        by (auto simp: ts tls_send_def sent_prefix_def tls_written_def tls_image_def)
    qed
  qed
qed

interpretation tls_snk: message_sink tls_send tls_written tls_image
  by unfold_locales (rule tls_send_prefix)

lemma fill_exact:
  assumes "buffered es = p @ rest"
  obtains es' where "tcp_fill (length p) [] es = (Filled p, es')" "buffered es' = rest"
    "stream_end es' = stream_end es"
proof -
  obtain f es' where f: "tcp_fill (length p) [] es = (f, es')" by fastforce
  have "fill_spec (length p) [] es (f, es')"
    using tcp_fill_spec [of "length p" "[]" es] f by simp
  then have "f = Filled p \<and> buffered es' = rest \<and> stream_end es' = stream_end es"
    using assms by (simp add: fill_spec_def)
  with f show ?thesis by (intro that [of es']) simp_all
qed

definition tls_holds :: "tls \<times> sys \<Rightarrow> byte list \<Rightarrow> bool" where
  "tls_holds = (\<lambda>(t, s) bs. tls_is_connected t \<and> buffered (reads s) = bs
     \<and> (stream_end (reads s) = FillEof \<or> stream_end (reads s) = FillFail peer_close))"

lemma tls_receive_frame:
  assumes msg: "buffer_ok msg" and m: "is_frame m" and holds: "tls_holds (t, s) (m @ rest)"
  shows "\<exists>msg' ts'. tls_receive timeout_ms (msg, t, s) = (Inr True, msg', ts') \<and> contents msg' = m
    \<and> read_pos msg' = 0 \<and> buffer_ok msg' \<and> tls_holds ts' rest"
proof -
  have len: "length m = 16 + declared_payload m" "declared_payload m \<le> k_max_payload_size"
    using m by (auto simp: is_frame_def)
  obtain i where i: "t = Some i" "im_connected i" "im_handshake_done i"
    using holds by (auto simp: tls_holds_def tls_is_connected_def split: option.splits)
  have "buffered (reads s) = take 16 m @ (drop 16 m @ rest)" "length (take 16 m) = 16"
    using holds len by (simp_all add: tls_holds_def)
  then obtain es1 where es1: "tcp_fill 16 [] (reads s) = (Filled (take 16 m), es1)"
    "buffered es1 = drop 16 m @ rest" "stream_end es1 = stream_end (reads s)"
    by (metis fill_exact)
  then obtain es2 where es2: "tcp_fill (length (drop 16 m)) [] es1 = (Filled (drop 16 m), es2)"
    "buffered es2 = rest" "stream_end es2 = stream_end (reads s)"
    by (metis fill_exact)
  obtain h where h: "store_header (take 16 m) (buffer_reset msg)
      = Inr (h, advance 16 (reset_read (appended (take 16 m) (buffer_reset msg))))"
    and n: "unat (hdr_payload_size h) = declared_payload m"
    using store_header_run [of "buffer_reset msg" "take 16 m"] len(1) msg
    by (auto simp: declared_payload_take)
  have hb: "length (take 16 m) = 16" using len(1) by simp
  note W = after_header [OF msg hb, of "drop 16 m"]
  show ?thesis
  proof (cases "declared_payload m = 0")
    case True
    then have "m = take 16 m" "\<not> hdr_payload_size h > 0"
      using len(1) n by (simp_all add: word_less_nat_alt)
    then show ?thesis
      using True i es1 h W len holds hb msg
      by (simp add: tls_receive_def tls_holds_def tls_is_connected_def Let_def codec_simps k_max_capacity_eq)
  next
    case False
    then have "hdr_payload_size h > 0" using n by (simp add: word_less_nat_alt)
    then show ?thesis
      using False i es1 es2 h n W len holds
      by (simp add: tls_receive_def tls_holds_def tls_is_connected_def Let_def)
  qed
qed

lemma tls_receive_end:
  assumes "tls_holds (t, s) []"
  shows "fst (tls_receive timeout_ms (msg, t, s)) = Inr False"
proof -
  obtain f es where f: "tcp_fill 16 [] (reads s) = (f, es)" by fastforce
  have "f = stream_end (reads s)"
    using tcp_fill_spec [of 16 "[]" "reads s"] f assms by (simp add: fill_spec_def tls_holds_def)
  then show ?thesis
    using assms f
    by (auto simp: tls_holds_def tls_receive_def tls_is_connected_def Let_def peer_close_def split: option.splits)
qed

interpretation tls_src: message_source "tls_receive timeout_ms" tls_holds for timeout_ms
proof (unfold_locales, goal_cases)
  case (1 msg m ts rest)
  then show ?case by (cases ts) (use tls_receive_frame in blast)
next
  case (2 msg ts)
  then show ?case by (cases ts) (simp add: tls_receive_end)
qed

section \<open>The constructor and the listener\<close>

definition credentials_of :: "tls_config \<Rightarrow> ssl_conf \<Rightarrow> ssl_conf" where
  "credentials_of config conf =
    (if tls_mode_of config = ModePsk then conf\<lparr>conf_psk := Some (psk config, psk_identity config)\<rparr>
     else conf\<lparr>conf_ca := (if ca_path config = [] then conf_ca conf else Some (ca_path config)),
       conf_own_cert := (if cert_path config = [] \<or> key_path config = [] then conf_own_cert conf
         else Some (cert_path config, key_path config))\<rparr>)"

lemma tls_require_cases: "tls_require ret m = (case ret of None \<Rightarrow> Inr () | Some buf \<Rightarrow> Inl (SecurityError (m @ tls_error_string buf)))"
  by (simp add: tls_require_def)

lemma load_credentials_cases:
  "case load_credentials c config conf of
     Inl e \<Rightarrow> \<exists>m. e = SecurityError m
   | Inr conf' \<Rightarrow> conf' = credentials_of config conf"
  by (cases "tls_mode_of config")
    (auto simp: load_credentials_def credentials_of_def tls_require_cases rbind_def split: option.splits)

lemma tls_new_cases:
  assumes "tls_new c sock config addr port w = (r, w')" and "0 \<le> sock"
  shows "case r of
      Inl e \<Rightarrow> (\<exists>m. e = SecurityError m) \<and> closed (tw_sys w') = sock # closed (tw_sys w)
    | Inr i \<Rightarrow> tw_sys w' = tw_sys w
        \<and> i = impl_new\<lparr>im_sock := sock, im_peer_addr := addr, im_peer_port := port,
            im_server := as_server config, im_connected := True,
            im_conf := credentials_of config
              (ssl_conf_init\<lparr>conf_server := as_server config, conf_authmode := verify config\<rparr>)\<rparr>"
proof (cases "fst (ensure_psa_init c w)")
  case False
  then show ?thesis
    using assms by (auto simp: tls_new_def ensure_psa_init_def tw_close_def split: if_splits)
next
  case True
  then obtain v where v: "ensure_psa_init c w = (True, v)" "tw_sys v = tw_sys w"
    by (auto simp: ensure_psa_init_def split: if_splits)
  let ?conf = "ssl_conf_init\<lparr>conf_server := as_server config, conf_authmode := verify config\<rparr>"
  show ?thesis
    using assms v load_credentials_cases [where c = c and config = config and conf = ?conf]
    by (auto simp: tls_new_def tls_require_cases impl_destroy_def impl_new_def tw_close_def Let_def rbind_def
        split: option.splits sum.splits)
qed

lemma conn_config_simps [simp]:
  "verify (conn_config config) = verify config" "as_server (conn_config config)"
  "credentials_of (conn_config config) = credentials_of config"
  by (cases "tls_mode_of config"; auto simp: conn_config_def set_verify_mode_def set_server_def
      tls_config_certificate_def tls_config_psk_def credentials_of_def tls_config_default_def)+

text \<open>The socket the inner listener handed over in a call of \<^verbatim>\<open>accept\<close>, if any.\<close>

definition taken :: "tls_listener \<Rightarrow> errno + (int \<times> string \<times> u16) \<Rightarrow> int \<Rightarrow> sys \<Rightarrow> int list" where
  "taken l conn timeout_ms s = (if \<not> tl_config l then []
     else case fst (lst_accept (tl_inner l) conn timeout_ms s) of Inr (Some tcp) \<Rightarrow> [tcp_sock tcp] | _ \<Rightarrow> [])"

lemma lst_accept_cases:
  "lst_accept l conn timeout_ms s = (r, s') \<Longrightarrow> closed s' = closed s \<and> (case r of
      Inr (Some tcp) \<Rightarrow> conn = Inr (tcp_sock tcp, tcp_peer_addr tcp, tcp_peer_port tcp)
    | _ \<Rightarrow> True)"
  by (auto simp: lst_accept_def Let_def split: if_splits sum.splits prod.splits poll_event.splits)

lemma tls_accept_new:
  assumes "tl_config l" and "lst_accept (tl_inner l) conn timeout_ms (tw_sys w) = (Inr (Some tcp), s)"
    and "dup' = Inr d" and "0 \<le> d" and "0 \<le> tcp_sock tcp"
    and "tls_lst_accept config l conn dup' c hs timeout_ms w = (r, w')"
  shows "case r of
      Inr None \<Rightarrow> False
    | Inr (Some t) \<Rightarrow> tls_is_connected t \<and> closed (tw_sys w') = tcp_sock tcp # closed (tw_sys w)
        \<and> (\<exists>i. t = Some i \<and> im_sock i = d \<and> im_server i
          \<and> im_conf i = credentials_of config (ssl_conf_init\<lparr>conf_server := True, conf_authmode := verify config\<rparr>))
    | Inl e \<Rightarrow>
        if e = Diverges
        then handshake_loop hs = None \<and> closed (tw_sys w') = tcp_sock tcp # closed (tw_sys w)
        else closed (tw_sys w') = d # tcp_sock tcp # closed (tw_sys w)"
proof -
  have s: "closed s = closed (tw_sys w)"
    using lst_accept_cases [OF assms(2)] by simp
  let ?w = "w\<lparr>tw_sys := sys_option d NoDelay (snd (tcp_close (tcp, s)))\<rparr>"
  obtain r1 w1 where n: "tls_new c d (conn_config config) (tcp_peer_addr tcp) (tcp_peer_port tcp) ?w = (r1, w1)"
    by fastforce
  have w: "closed (tw_sys ?w) = tcp_sock tcp # closed (tw_sys w)"
    using s assms(5) by (simp add: tcp_close_def)
  show ?thesis
  proof (cases r1)
    case (Inl e)
    with tls_new_cases [OF n assms(4)] w n assms(1,2,3,6) show ?thesis
      by (auto simp: tls_lst_accept_def Let_def)
  next
    case (Inr i)
    with tls_new_cases [OF n assms(4)] w n assms(1,2,3,4,6) show ?thesis
      by (cases "handshake_loop hs")
        (auto simp: tls_lst_accept_def Let_def tls_handshake_def tls_destroy_def impl_destroy_def impl_new_def
          tw_close_def tls_is_connected_def split: option.splits)
  qed
qed

text \<open>A read timeout inside a header loses the bytes that had arrived, and the transport stays
  connected: the next call takes the middle of the message for a header.\<close>

lemma tls_timeout_loses_bytes:
  assumes "tls_is_connected t" and "bs \<noteq> []" and "length bs < 16"
    and "reads s = RdData bs # RdError ETIMEDOUT # es"
  shows "\<exists>msg' t'. tls_receive timeout_ms (msg, t, s)
      = (Inl (ServiceError ''TlsTransport: read timeout''), msg', t', s\<lparr>reads := es\<rparr>) \<and> tls_is_connected t'"
proof -
  have "tcp_fill 16 [] (reads s) = (FillFail ETIMEDOUT, es)"
    using assms(2-4) by (simp add: tcp_fill.simps)
  with assms(1) show ?thesis
    by (auto simp: tls_is_connected_def tls_receive_def Let_def split: option.splits)
qed

text \<open>A timeout of zero is no timeout for mbedTLS: the socket is read without a poll.\<close>

lemma tls_timeout_zero_blocks: "tls_bio_recv_timeout len (read_timeout_of 0) s = tls_bio_recv len s"
  by (simp add: tls_bio_recv_timeout_def read_timeout_of_def)

lemma tls_bio_no_timeout: "fst (tls_bio_recv len s) \<noteq> BioTimeout"
  by (auto simp: tls_bio_recv_def split: prod.splits io.splits)

lemma stamped_secure_frame:
  assumes "mac_ok mac" and "is_small_frame m" and "is_small_frame n"
    and "stamp (secure_frame mac key m) = secure_frame mac key n"
  shows "compute_hmac mac key (stamp m) = compute_hmac mac key m"
proof -
  have len: "length m = 16 + declared_payload m" "length n = 16 + declared_payload n"
    using assms(2,3) by (auto simp: is_small_frame_def is_frame_def)
  let ?v = "word_of_nat (declared_payload m + 8) :: u32"
  have "declared_payload (secure_frame mac key n) = declared_payload (secure_frame mac key m)"
    using assms(4) [symmetric] by simp
  then have d: "declared_payload n = declared_payload m"
    using secure_frame_is_frame(2) [OF assms(1)] assms(2,3) by simp
  have eq: "patch_u32 8 ?v (stamp m) @ compute_hmac mac key m = patch_u32 8 ?v n @ compute_hmac mac key n"
    using assms(4) len d by (simp add: secure_frame_def stamp_patch)
  have parts: "patch_u32 8 ?v (stamp m) = patch_u32 8 ?v n" "compute_hmac mac key m = compute_hmac mac key n"
    using eq len d by (simp_all add: append_eq_append_conv)
  have "declared_payload (stamp m) = declared_payload n" "16 \<le> length (stamp m)" "16 \<le> length n"
    using d len by simp_all
  then have "stamp m = n" by (rule patch_inject [OF parts(1)])
  with parts(2) show ?thesis by simp
qed

section \<open>Properties\<close>

text \<open>An open session and a kernel with nothing to do, to run the model on concrete data.\<close>

definition open_session :: tls where
  "open_session = Some (impl_new\<lparr>im_sock := 5, im_connected := True, im_handshake_done := True\<rparr>)"

definition idle_sys :: sys where
  "idle_sys = \<lparr>reads = [], writes = [], polls = [], written = [], closed = [], options = []\<rparr>"

lemma open_session_connected: "tls_is_connected open_session"
  by (simp add: open_session_def tls_is_connected_def)

lemma stamped_shutdown:
  "stamp (wire_message mt_shutdown 0 []) = [71, 78, 79, 83, 2, 8, 0, 0, 0, 0, 0, 0, 0, 0, 0, 0]"
  by (simp add: shutdown_bytes stamp_def mf_encrypted_def)

lemma tls_send_open:
  assumes "buffer_write (contents m) buffer_new = Inr b"
    and "contents m \<noteq> []" and "length (contents m) \<le> k"
  shows "tls_send m (open_session, idle_sys\<lparr>writes := [WrAccept k]\<rparr>)
    = (Inr (), open_session, idle_sys\<lparr>written := stamp (contents m)\<rparr>)"
proof -
  have b: "contents b = contents m" using contents_written [OF assms(1)] by simp
  have "tls_send_loop xs [WrAccept k] [] = (Inr (), [], xs)" if "xs \<noteq> []" "length xs \<le> k" for xs
    using that by (cases xs) auto
  then have "tls_send_loop (stamp (contents m)) [WrAccept k] [] = (Inr (), [], stamp (contents m))"
    using assms(2,3) by simp
  with assms(1) b show ?thesis
    by (simp add: tls_send_def open_session_def idle_sys_def)
qed

text \<open>Claim C22. A message sent over TLS arrives at the other side complete, in order and
  each once, however mbedTLS cuts the writes and the reads into pieces, and with one change:
  \<^verbatim>\<open>TlsTransport::send\<close> has set the \<^verbatim>\<open>encrypted\<close> flag in its header.\<close>

theorem tls_transfer:
  assumes "send_many tls_send msgs (t, s) = (Inr (), t', s')" and "written s = []"
    and "list_all (\<lambda>b. is_frame (contents b)) msgs"
    and "tls_holds r (written s')" and "buffer_ok buf" and "length msgs < n"
  shows "fst (receive_many (tls_receive timeout_ms) n (buf, r)) = Inr (map (\<lambda>b. stamp (contents b)) msgs)"
proof -
  have "written s' = concat (map tls_image msgs)"
    using tls_snk.send_all [OF assms(1)] assms(2) by (simp add: tls_written_def)
  then have "tls_holds r (concat (map (\<lambda>b. stamp (contents b)) msgs))"
    using assms(4) by (simp add: tls_image_def [abs_def])
  moreover have "list_all is_frame (map (\<lambda>b. stamp (contents b)) msgs)"
    using assms(3) by (simp add: list.pred_map comp_def)
  ultimately show ?thesis
    using tls_src.receive_all [OF assms(5)] assms(6) by simp
qed

theorem tls_transfer_witness:
  "let m = wire_message mt_shutdown 0 [] in
   fst (receive_many (tls_receive (-1)) 2 (buffer_new, open_session,
     idle_sys\<lparr>reads := [RdData (take 5 (stamp m)), RdIntr, RdData (drop 5 (stamp m)), RdError peer_close]\<rparr>))
   = Inr [stamp m]"
proof -
  let ?m = "wire_message mt_shutdown 0 []" and ?b = "message_buffer mt_shutdown 0 []"
  let ?s = "idle_sys\<lparr>writes := [WrIntr, WrAccept 10, WrAccept 0, WrAccept 16]\<rparr>"
  let ?r = "idle_sys\<lparr>reads := [RdData (take 5 (stamp ?m)), RdIntr, RdData (drop 5 (stamp ?m)), RdError peer_close]\<rparr>"
  have w: "buffer_write ?m buffer_new = Inr (appended ?m buffer_new)"
    by (simp add: codec_simps k_max_capacity_eq)
  have "send_many tls_send [?b] (open_session, ?s) = (Inr (), open_session, ?s\<lparr>writes := [], written := stamp ?m\<rparr>)"
    using w by (simp add: tls_send_def sbind_apply open_session_def idle_sys_def stamped_shutdown del: wire_message_def)
  from tls_transfer [OF this, where r = "(open_session, ?r)" and buf = buffer_new and n = 2 and timeout_ms = "-1"]
  show ?thesis
    by (simp add: idle_sys_def is_frame_shutdown tls_holds_def open_session_connected stamped_shutdown Let_def
        del: drop_stamp take_stamp)
qed

text \<open>Claim C23. \<^verbatim>\<open>TlsListener::accept\<close> leaks no descriptor: when it returns a connection, the
  accepted socket has been closed once and the connection owns its duplicate, runs as a server
  with the listener's credentials and verification mode, and has finished its handshake; when
  it returns none, no socket was taken; when it throws, the socket and its duplicate have both
  been closed, each once. Only a client that never finishes the handshake keeps the duplicate
  open, and the call with it.\<close>

theorem tls_accept_no_leak:
  assumes "tls_lst_accept config l conn dup' c hs timeout_ms w = (r, w')"
    and "\<And>fd a p. conn = Inr (fd, a, p) \<Longrightarrow> 0 \<le> fd" and "\<And>fd. dup' = Inr fd \<Longrightarrow> 0 \<le> fd"
  defines "socks \<equiv> taken l conn timeout_ms (tw_sys w)"
  shows "case r of
      Inr None \<Rightarrow> socks = [] \<and> closed (tw_sys w') = closed (tw_sys w)
    | Inr (Some t) \<Rightarrow> tls_is_connected t \<and> closed (tw_sys w') = socks @ closed (tw_sys w) \<and> socks \<noteq> []
        \<and> (\<exists>i. t = Some i \<and> dup' = Inr (im_sock i) \<and> im_server i
          \<and> im_conf i = credentials_of config (ssl_conf_init\<lparr>conf_server := True, conf_authmode := verify config\<rparr>))
    | Inl e \<Rightarrow>
        if socks = [] then closed (tw_sys w') = closed (tw_sys w)
        else case dup' of
          Inl _ \<Rightarrow> closed (tw_sys w') = socks @ closed (tw_sys w)
        | Inr d \<Rightarrow>
            if e = Diverges then handshake_loop hs = None \<and> closed (tw_sys w') = socks @ closed (tw_sys w)
            else closed (tw_sys w') = d # socks @ closed (tw_sys w)"
proof (cases "tl_config l")
  case False
  then show ?thesis using assms by (auto simp: tls_lst_accept_def taken_def)
next
  case True
  obtain r1 s where a: "lst_accept (tl_inner l) conn timeout_ms (tw_sys w) = (r1, s)" by fastforce
  note A = lst_accept_cases [OF a]
  show ?thesis
  proof (cases "\<exists>tcp. r1 = Inr (Some tcp)")
    case False
    with True a A assms(1) show ?thesis
      by (auto simp: tls_lst_accept_def socks_def taken_def split: sum.splits option.splits)
  next
    case conn: True
    then obtain tcp where r1: "r1 = Inr (Some tcp)" by blast
    then have "0 \<le> tcp_sock tcp" using A assms(2) by auto
    moreover have "socks = [tcp_sock tcp]" using True a r1 by (simp add: socks_def taken_def)
    ultimately show ?thesis
      using True a r1 A assms(1) tls_accept_new [OF True a [unfolded r1] _ _ _ assms(1)] assms(3)
      by (cases dup')
        (auto simp: tls_lst_accept_def tcp_close_def split: sum.splits option.splits if_splits)
  qed
qed

theorem tls_accept_no_leak_witness:
  "let l = \<lparr>tl_inner = \<lparr>lst_sock = 3, lst_port = 80\<rparr>, tl_config = True\<rparr>;
       w = \<lparr>tw_sys = idle_sys, tw_psa = False, tw_notified = []\<rparr>;
       c = \<lparr>tk_psa = True, tk_defaults = None, tk_ca = None, tk_cert = None, tk_key = Some ''bad key'',
         tk_own_cert = None, tk_psk = None, tk_setup = None\<rparr>
   in closed (tw_sys (snd (tls_lst_accept (tls_config_certificate ''c'' ''k'' '''') l (Inr (7, ''h'', 9)) (Inr 8) c [] (-1) w)))
     = [8, 7]"
proof -
  let ?l = "\<lparr>tl_inner = \<lparr>lst_sock = 3, lst_port = 80\<rparr>, tl_config = True\<rparr>"
  let ?w = "\<lparr>tw_sys = idle_sys, tw_psa = False, tw_notified = []\<rparr>"
  let ?c = "\<lparr>tk_psa = True, tk_defaults = None, tk_ca = None, tk_cert = None, tk_key = Some ''bad key'',
         tk_own_cert = None, tk_psk = None, tk_setup = None\<rparr>"
  let ?r = "tls_lst_accept (tls_config_certificate ''c'' ''k'' '''') ?l (Inr (7, ''h'', 9)) (Inr 8) ?c [] (-1) ?w"
  have taken: "taken ?l (Inr (7, ''h'', 9)) (-1) idle_sys = [7]"
    by (simp add: taken_def lst_accept_def)
  have "\<exists>m. fst ?r = Inl (SecurityError m)"
    by (simp add: tls_lst_accept_def lst_accept_def tls_new_def ensure_psa_init_def load_credentials_def
        conn_config_def set_verify_mode_def set_server_def tls_config_certificate_def tls_config_default_def
        tls_require_def Let_def)
  then obtain m w' where "?r = (Inl (SecurityError m), w')" by (metis prod.collapse)
  with tls_accept_no_leak [OF this] taken show ?thesis
    by (simp add: idle_sys_def)
qed

text \<open>Claim C21. \<^verbatim>\<open>SecureTransport\<close> over \<^verbatim>\<open>TlsTransport\<close> does not work: the sender
  computes the tag of the message and then \<^verbatim>\<open>TlsTransport::send\<close> sets a flag in its header, so
  the receiver, which checks the tag of the header it got, refuses every message that was sent,
  unless the two headers happen to have the same tag.\<close>

theorem secure_over_tls_refused:
  assumes "mac_ok mac" and "config_is_enabled config" and "is_small_frame (contents m)"
    and "compute_hmac mac (sc_key config) (stamp (contents m)) \<noteq> compute_hmac mac (sc_key config) (contents m)"
    and "secure_send mac (Some tls_send) config m (t, s) = (Inr (), t', s')" and "written s = []"
    and "tls_holds r (written s' @ rest)" and "buffer_ok msg"
  shows "\<exists>e. fst (secure_receive mac (Some tls_receive) config timeout_ms (msg, r)) = Inl (SecurityError e)"
proof -
  let ?f = "stamp (secure_frame mac (sc_key config) (contents m))"
  obtain b where b: "secure_message mac config m = Inr b" "contents b = secure_frame mac (sc_key config) (contents m)"
    using secure_message_run [OF assms(1,3)] by blast
  then have "tls_send b (t, s) = (Inr (), t', s')"
    using assms(2,5) by (simp add: secure_send_def sbind_apply slift_def)
  with tls_snk.send_done have "written s' = ?f"
    using assms(6) b(2) by (fastforce simp: tls_written_def tls_image_def)
  moreover have f: "is_frame ?f" using secure_frame_is_frame [OF assms(1,3)] by simp
  ultimately obtain sm r' where sm: "tls_receive timeout_ms (buffer_new, r) = (Inr True, sm, r')" "contents sm = ?f"
    using tls_src.recv_frame [OF buffer_ok_new f, of r rest timeout_ms] assms(7) by auto
  have "\<nexists>n. is_small_frame n \<and> contents sm = secure_frame mac (sc_key config) n"
    using stamped_secure_frame [OF assms(1,3)] assms(4) sm(2) by metis
  then obtain e where "fst (open_message mac config sm msg) = Inl (SecurityError e)"
    using open_message_run [OF assms(1), of sm msg config] f sm(2) assms(8) by auto
  then show ?thesis
    using sm(1) assms(2) by (cases "open_message mac config sm msg") (simp add: secure_receive_def)
qed

theorem secure_over_tls_refused_witness:
  "\<exists>e. fst (secure_receive toy_mac (Some tls_receive) (config_with_key ''k'') (-1) (buffer_new, open_session,
      idle_sys\<lparr>reads := [RdData (stamp (secure_frame toy_mac ''k'' (wire_message mt_shutdown 0 []))), RdData []]\<rparr>))
    = Inl (SecurityError e)"
proof -
  let ?m = "wire_message mt_shutdown 0 []" and ?b = "message_buffer mt_shutdown 0 []"
  let ?f = "secure_frame toy_mac ''k'' ?m"
  have key: "sc_key (config_with_key ''k'') = ''k''" "config_is_enabled (config_with_key ''k'')"
    by (simp_all add: config_with_key_def config_is_enabled_def)
  have tags: "compute_hmac toy_mac ''k'' (stamp ?m) \<noteq> compute_hmac toy_mac ''k'' ?m"
    by (simp add: shutdown_bytes stamp_def mf_encrypted_def compute_hmac_def toy_mac_def k_hmac_tag_size_def bytes_of_def)
  obtain c where c: "secure_message toy_mac (config_with_key ''k'') ?b = Inr c" "contents c = ?f"
    using secure_message_run [OF toy_mac_ok, of ?b "config_with_key ''k''"] key small_shutdown by auto
  have len: "length ?f = 24"
    by (simp add: secure_frame_def shutdown_bytes toy_mac_ok)
  then have ne: "?f \<noteq> []" by (metis list.size(3) zero_neq_numeral)
  have "tls_send c (open_session, idle_sys\<lparr>writes := [WrAccept 24]\<rparr>)
      = (Inr (), open_session, idle_sys\<lparr>written := stamp ?f\<rparr>)"
    using tls_send_open [of c "appended ?f buffer_new" 24] c(2) len ne by (simp add: codec_simps k_max_capacity_eq)
  then have send: "secure_send toy_mac (Some tls_send) (config_with_key ''k'') ?b
      (open_session, idle_sys\<lparr>writes := [WrAccept 24]\<rparr>) = (Inr (), open_session, idle_sys\<lparr>written := stamp ?f\<rparr>)"
    using c key by (simp add: secure_send_def sbind_apply slift_def)
  have "stamp ?f \<noteq> []" using ne by simp
  then have holds: "tls_holds (open_session, idle_sys\<lparr>reads := [RdData (stamp ?f), RdData []]\<rparr>)
      (written (idle_sys\<lparr>written := stamp ?f\<rparr>) @ [])"
    by (simp add: tls_holds_def open_session_connected del: stamp_nil)
  show ?thesis
  proof (rule secure_over_tls_refused [OF toy_mac_ok key(2) _ _ send _ holds buffer_ok_new])
    show "is_small_frame (contents ?b)" using small_shutdown by simp
    show "compute_hmac toy_mac (sc_key (config_with_key ''k'')) (stamp (contents ?b))
        \<noteq> compute_hmac toy_mac (sc_key (config_with_key ''k'')) (contents ?b)"
      using tags key by simp
    show "written (idle_sys\<lparr>writes := [WrAccept 24]\<rparr>) = []" by (simp add: idle_sys_def)
  qed
qed

end
