(* ===== verification/Song_Discovery.thy ===== *)
theory Song_Discovery
  imports Song_Prelude "HOL-Library.Sublist"
begin

text \<open>
  Service discovery (\<^verbatim>\<open>src/discovery.cpp\<close>, \<^verbatim>\<open>include/song/discovery.hpp\<close>): the implementations on the dns_sd and the
  Avahi library, the two that do nothing, and the guard \<^verbatim>\<open>ServiceRegistration\<close>. The system libraries are scripted: every call
  that creates a handle takes its answer from a list, every wait takes its length and the callbacks it
  delivers. Time is counted in nanoseconds; handles are numbers, and the set of open ones is kept, with a mark for a
  handle that is closed twice.
  The lemmas: no handle is lost or closed twice, how long a search takes, what it reports, and the contract of the
  interface \<^verbatim>\<open>Discovery\<close> as a locale, with the guard as its client.
\<close>

section \<open>The system library\<close>

text \<open>What the library is asked for.\<close>

datatype mdns_request =
    RegisterRequest string string u16
  | BrowseRequest string
  | ResolveRequest string string string
  | PollRequest
  | ClientRequest
  | GroupRequest

text \<open>A turn of the script: how long a wait lasts and what it delivers.\<close>

record 'e mdns =
  mn_now :: nat
  mn_turns :: "(nat \<times> 'e list) list"
  mn_answers :: "bool list"
  mn_live :: "nat list"
  mn_next :: nat
  mn_bad :: bool
  mn_requests :: "mdns_request list"

definition answer :: "'e mdns \<Rightarrow> bool \<times> 'e mdns" where
  "answer n = (case mn_answers n of [] \<Rightarrow> (False, n) | a # as \<Rightarrow> (a, n\<lparr>mn_answers := as\<rparr>))"

definition open_handle :: "mdns_request \<Rightarrow> 'e mdns \<Rightarrow> nat option \<times> 'e mdns" where
  "open_handle req n0 = (case answer (n0\<lparr>mn_requests := mn_requests n0 @ [req]\<rparr>) of (ok, n) \<Rightarrow>
     if ok then (Some (mn_next n), n\<lparr>mn_live := mn_live n @ [mn_next n], mn_next := mn_next n + 1\<rparr>) else (None, n))"

definition close_handle :: "nat \<Rightarrow> 'e mdns \<Rightarrow> 'e mdns" where
  "close_handle h n = n\<lparr>mn_live := remove1 h (mn_live n), mn_bad := mn_bad n \<or> h \<notin> set (mn_live n)\<rparr>"

text \<open>\<^verbatim>\<open>poll\<close> with a timeout, and the callbacks of what has come in. When the script is over nothing comes any more.\<close>

definition wait :: "nat \<Rightarrow> 'e mdns \<Rightarrow> 'e list \<times> 'e mdns" where
  "wait w n = (case mn_turns n of
      [] \<Rightarrow> ([], n\<lparr>mn_now := mn_now n + w\<rparr>)
    | (t, evs) # ts \<Rightarrow> (evs, n\<lparr>mn_now := mn_now n + min t w, mn_turns := ts\<rparr>))"

definition ns_of_ms :: "int \<Rightarrow> nat" where
  "ns_of_ms ms = nat ms * 1000000"

text \<open>The milliseconds that are left, as the code computes them: a 64-bit count cut down to an \<^verbatim>\<open>int\<close>.\<close>

definition ms_left :: "nat \<Rightarrow> int" where
  "ms_left ns = sint (word_of_nat (ns div 1000000) :: i32)"

text \<open>The loop that every search shares: until it is done or the deadline is there, wait for at most a tenth of a
  second and hand what comes to the callback.\<close>

function event_loop :: "('e \<Rightarrow> 'c \<Rightarrow> 'c) \<Rightarrow> ('c \<Rightarrow> bool) \<Rightarrow> nat \<Rightarrow> 'c \<Rightarrow> 'e mdns \<Rightarrow> 'c \<times> 'e mdns" where
  "event_loop callback finished deadline c n =
    (if finished c \<or> deadline \<le> mn_now n \<or> ms_left (deadline - mn_now n) \<le> 0 then (c, n)
     else (case wait (ns_of_ms (min (ms_left (deadline - mn_now n)) 100)) n of
       (evs, n') \<Rightarrow> event_loop callback finished deadline (fold callback evs c) n'))"
  by pat_completeness auto
termination
  by (relation "measures [\<lambda>(f, g, d, c, n). length (mn_turns n), \<lambda>(f, g, d, c, n). d - mn_now n]")
    (auto simp: wait_def ns_of_ms_def split: list.splits)

declare event_loop.simps [simp del]

section \<open>Services\<close>

record discovered_service =
  dv_name :: string
  dv_host :: string
  dv_port :: u16
  dv_type :: string
  dv_domain :: string

definition make_service_type :: "string \<Rightarrow> string" where
  "make_service_type type = ''_'' @ type @ ''-song._tcp''"

record browse_context =
  bc_names :: "string list"
  bc_domain :: string

record resolve_context =
  rc_host :: string
  rc_port :: u16
  rc_resolved :: bool

definition browse_new :: browse_context where
  "browse_new = \<lparr>bc_names = [], bc_domain = []\<rparr>"

definition resolve_new :: resolve_context where
  "resolve_new = \<lparr>rc_host = [], rc_port = 0, rc_resolved = False\<rparr>"

text \<open>The system's look-up of a host name (\<^verbatim>\<open>getaddrinfo\<close> and \<^verbatim>\<open>inet_ntop\<close>) is a parameter: what it answers for a
  name at a time, and how long that takes. It asks the network, and nothing bounds the time but the system.
  The code takes the first address, or no text at all.\<close>

type_synonym host_lookup = "string \<Rightarrow> nat \<Rightarrow> string option \<times> nat"

definition resolve_hostname :: "host_lookup \<Rightarrow> string \<Rightarrow> 'e mdns \<Rightarrow> string \<times> 'e mdns" where
  "resolve_hostname lookup_host hostname n = (case lookup_host hostname (mn_now n) of (result, t) \<Rightarrow>
     (case result of None \<Rightarrow> [] | Some ip \<Rightarrow> ip, n\<lparr>mn_now := mn_now n + t\<rparr>))"

definition found_service :: "host_lookup \<Rightarrow> string \<Rightarrow> string \<Rightarrow> string \<Rightarrow> resolve_context \<Rightarrow> 'e mdns
    \<Rightarrow> discovered_service option \<times> 'e mdns" where
  "found_service lookup_host name type domain ctx n =
    (if \<not> rc_resolved ctx then (None, n)
     else (case resolve_hostname lookup_host (rc_host ctx) n of (ip, n) \<Rightarrow>
       (Some \<lparr>dv_name = name, dv_host = (if ip = [] then rc_host ctx else ip), dv_port = rc_port ctx, dv_type = type,
         dv_domain = domain\<rparr>, n)))"

text \<open>Resolving the names of a search one after the other, each with the full timeout.\<close>

fun resolve_each :: "(string \<Rightarrow> 's \<Rightarrow> discovered_service option \<times> 's) \<Rightarrow> string list \<Rightarrow> 's \<Rightarrow> discovered_service list \<times> 's" where
  "resolve_each resolve [] s = ([], s)"
| "resolve_each resolve (name # names) s = (case resolve name s of (r, s) \<Rightarrow>
     case resolve_each resolve names s of (rs, s) \<Rightarrow> ((case r of None \<Rightarrow> rs | Some x \<Rightarrow> x # rs), s))"

section \<open>dns_sd\<close>

text \<open>The callbacks with the arguments that the code reads: whether there is no error, whether the service was added
  (or removed), names, host and port.\<close>

datatype dns_event =
    RegisterReply bool
  | BrowseReply bool bool string string
  | ResolveReply bool string u16

fun browse_callback :: "dns_event \<Rightarrow> browse_context \<Rightarrow> browse_context" where
  "browse_callback (BrowseReply no_error add name domain) ctx =
    (if no_error \<and> add then ctx\<lparr>bc_names := bc_names ctx @ [name], bc_domain := domain\<rparr> else ctx)"
| "browse_callback _ ctx = ctx"

fun resolve_callback :: "dns_event \<Rightarrow> resolve_context \<Rightarrow> resolve_context" where
  "resolve_callback (ResolveReply no_error host port) ctx =
    (if no_error then \<lparr>rc_host = host, rc_port = port, rc_resolved = True\<rparr> else ctx)"
| "resolve_callback _ ctx = ctx"

fun register_callback :: "dns_event \<Rightarrow> bool \<Rightarrow> bool" where
  "register_callback (RegisterReply no_error) registered = (no_error \<or> registered)"
| "register_callback _ registered = registered"

record dnssd =
  ds_ref :: "nat option"
  ds_registered :: bool

definition dnssd_new :: dnssd where
  "dnssd_new = \<lparr>ds_ref = None, ds_registered = False\<rparr>"

definition dnssd_unregister :: "dnssd \<times> dns_event mdns \<Rightarrow> dnssd \<times> dns_event mdns" where
  "dnssd_unregister = (\<lambda>(d, n). case ds_ref d of None \<Rightarrow> (d, n)
     | Some h \<Rightarrow> (\<lparr>ds_ref = None, ds_registered = False\<rparr>, close_handle h n))"

definition dnssd_destroy :: "dnssd \<times> dns_event mdns \<Rightarrow> dns_event mdns" where
  "dnssd_destroy s = snd (dnssd_unregister s)"

text \<open>A second registration drops the first. The answer is awaited once, for a second.\<close>

definition dnssd_register :: "string \<Rightarrow> string \<Rightarrow> u16 \<Rightarrow> dnssd \<times> dns_event mdns \<Rightarrow> bool \<times> dnssd \<times> dns_event mdns" where
  "dnssd_register name type port s = (case dnssd_unregister s of (d, n) \<Rightarrow>
     case open_handle (RegisterRequest name (make_service_type type) port) n of
       (None, n) \<Rightarrow> (False, d\<lparr>ds_ref := None\<rparr>, n)
     | (Some h, n) \<Rightarrow> (case wait (ns_of_ms 1000) n of (evs, n) \<Rightarrow>
         let r = fold register_callback evs (ds_registered d)
         in (r, d\<lparr>ds_ref := Some h, ds_registered := r\<rparr>, n)))"

definition dnssd_resolve :: "host_lookup \<Rightarrow> string \<Rightarrow> string \<Rightarrow> int \<Rightarrow> string \<Rightarrow> dns_event mdns
    \<Rightarrow> discovered_service option \<times> dns_event mdns" where
  "dnssd_resolve lookup_host type domain timeout name n =
    (case open_handle (ResolveRequest name type domain) n of
       (None, n) \<Rightarrow> (None, n)
     | (Some h, n) \<Rightarrow> (case event_loop resolve_callback rc_resolved (mn_now n + ns_of_ms timeout) resolve_new n of
         (ctx, n) \<Rightarrow> found_service lookup_host name type domain ctx (close_handle h n)))"

definition dnssd_discover :: "host_lookup \<Rightarrow> string \<Rightarrow> int \<Rightarrow> dns_event mdns \<Rightarrow> discovered_service list \<times> dns_event mdns" where
  "dnssd_discover lookup_host type timeout n =
    (case open_handle (BrowseRequest (make_service_type type)) n of
       (None, n) \<Rightarrow> ([], n)
     | (Some h, n) \<Rightarrow> (case event_loop browse_callback (\<lambda>_. False) (mn_now n + ns_of_ms timeout) browse_new n of
         (ctx, n) \<Rightarrow> resolve_each (dnssd_resolve lookup_host (make_service_type type) (bc_domain ctx) timeout)
           (bc_names ctx) (close_handle h n)))"

definition dnssd_discover_one :: "host_lookup \<Rightarrow> string \<Rightarrow> string \<Rightarrow> int \<Rightarrow> dns_event mdns
    \<Rightarrow> discovered_service option \<times> dns_event mdns" where
  "dnssd_discover_one lookup_host name type timeout n =
    dnssd_resolve lookup_host (make_service_type type) ''local.'' timeout name n"

section \<open>Avahi\<close>

text \<open>All objects of a client share one event loop, so that a search also delivers the events of a registration.
  A domain or a host may be a null pointer.\<close>

datatype avahi_event =
    GroupEvent bool
  | BrowserEvent bool string "string option"
  | ResolverEvent bool "string option" u16

record avahi =
  av_poll :: "nat option"
  av_client :: "nat option"
  av_group :: "nat option"
  av_registered :: bool

fun avahi_entry_group_callback :: "avahi_event \<Rightarrow> bool \<Rightarrow> bool" where
  "avahi_entry_group_callback (GroupEvent established) registered = (established \<or> registered)"
| "avahi_entry_group_callback _ registered = registered"

fun avahi_browse_callback :: "avahi_event \<Rightarrow> browse_context \<Rightarrow> browse_context" where
  "avahi_browse_callback (BrowserEvent new name domain) ctx =
    (if new then ctx\<lparr>bc_names := bc_names ctx @ [name], bc_domain := (case domain of None \<Rightarrow> bc_domain ctx | Some d \<Rightarrow> d)\<rparr> else ctx)"
| "avahi_browse_callback _ ctx = ctx"

fun avahi_resolve_callback :: "avahi_event \<Rightarrow> resolve_context \<Rightarrow> resolve_context" where
  "avahi_resolve_callback (ResolverEvent found host port) ctx =
    (if found then \<lparr>rc_host = (case host of None \<Rightarrow> [] | Some h \<Rightarrow> h), rc_port = port, rc_resolved = True\<rparr> else ctx)"
| "avahi_resolve_callback _ ctx = ctx"

text \<open>A callback of a search together with the one of the registration, which is called while there is a group.\<close>

definition with_group :: "bool \<Rightarrow> (avahi_event \<Rightarrow> 'c \<Rightarrow> 'c) \<Rightarrow> avahi_event \<Rightarrow> bool \<times> 'c \<Rightarrow> bool \<times> 'c" where
  "with_group alive callback e = (\<lambda>(r, c). (if alive then avahi_entry_group_callback e r else r, callback e c))"

definition avahi_poll_until :: "(avahi_event \<Rightarrow> 'c \<Rightarrow> 'c) \<Rightarrow> (bool \<times> 'c \<Rightarrow> bool) \<Rightarrow> int \<Rightarrow> 'c \<Rightarrow> avahi \<times> avahi_event mdns
    \<Rightarrow> 'c \<times> avahi \<times> avahi_event mdns" where
  "avahi_poll_until callback pred timeout c = (\<lambda>(d, n).
    case event_loop (with_group (av_group d \<noteq> None) callback) pred (mn_now n + ns_of_ms timeout) (av_registered d, c) n of
      ((r, c), n) \<Rightarrow> (c, d\<lparr>av_registered := r\<rparr>, n))"

definition avahi_new :: "avahi_event mdns \<Rightarrow> avahi \<times> avahi_event mdns" where
  "avahi_new n = (case open_handle PollRequest n of
      (None, n) \<Rightarrow> (\<lparr>av_poll = None, av_client = None, av_group = None, av_registered = False\<rparr>, n)
    | (Some p, n) \<Rightarrow> (case open_handle ClientRequest n of
        (c, n) \<Rightarrow> (\<lparr>av_poll = Some p, av_client = c, av_group = None, av_registered = False\<rparr>, n)))"

definition avahi_unregister :: "avahi \<times> avahi_event mdns \<Rightarrow> avahi \<times> avahi_event mdns" where
  "avahi_unregister = (\<lambda>(d, n). case av_group d of None \<Rightarrow> (d, n)
     | Some g \<Rightarrow> (d\<lparr>av_group := None, av_registered := False\<rparr>, close_handle g n))"

definition close_option :: "nat option \<Rightarrow> 'e mdns \<Rightarrow> 'e mdns" where
  "close_option h n = (case h of None \<Rightarrow> n | Some h \<Rightarrow> close_handle h n)"

definition avahi_destroy :: "avahi \<times> avahi_event mdns \<Rightarrow> avahi_event mdns" where
  "avahi_destroy s = (case avahi_unregister s of (d, n) \<Rightarrow> close_option (av_poll d) (close_option (av_client d) n))"

text \<open>An entry group, a fresh one or the one of the last registration, emptied.\<close>

definition avahi_group :: "avahi \<times> avahi_event mdns \<Rightarrow> avahi \<times> avahi_event mdns" where
  "avahi_group = (\<lambda>(d, n). case av_group d of
      Some g \<Rightarrow> (d\<lparr>av_registered := False\<rparr>, n)
    | None \<Rightarrow> (case open_handle GroupRequest n of (g, n) \<Rightarrow> (d\<lparr>av_group := g\<rparr>, n)))"

definition request_service :: "string \<Rightarrow> string \<Rightarrow> u16 \<Rightarrow> 'e mdns \<Rightarrow> bool \<times> 'e mdns" where
  "request_service name type port n =
    answer (n\<lparr>mn_requests := mn_requests n @ [RegisterRequest name (make_service_type type) port]\<rparr>)"

definition avahi_register :: "string \<Rightarrow> string \<Rightarrow> u16 \<Rightarrow> avahi \<times> avahi_event mdns \<Rightarrow> bool \<times> avahi \<times> avahi_event mdns" where
  "avahi_register name type port s =
    (if av_client (fst s) = None then (False, s)
     else (case avahi_group s of (d, n) \<Rightarrow>
       if av_group d = None then (False, d, n)
       else (case request_service name type port n of (added, n) \<Rightarrow>
         if \<not> added then (False, d, n)
         else (case answer n of (committed, n) \<Rightarrow>
           if \<not> committed then (False, d, n)
           else (case avahi_poll_until (\<lambda>_ c. c) fst 1000 () (d, n) of (_, d, n) \<Rightarrow> (av_registered d, d, n))))))"

definition avahi_resolve :: "host_lookup \<Rightarrow> string \<Rightarrow> string \<Rightarrow> int \<Rightarrow> string \<Rightarrow> avahi \<times> avahi_event mdns
    \<Rightarrow> discovered_service option \<times> avahi \<times> avahi_event mdns" where
  "avahi_resolve lookup_host type domain timeout name = (\<lambda>(d, n).
    if av_client d = None then (None, d, n)
    else (case open_handle (ResolveRequest name type domain) n of
        (None, n) \<Rightarrow> (None, d, n)
      | (Some h, n) \<Rightarrow> (case avahi_poll_until avahi_resolve_callback (rc_resolved \<circ> snd) timeout resolve_new (d, n) of
          (ctx, d, n) \<Rightarrow> (case found_service lookup_host name type domain ctx (close_handle h n) of (r, n) \<Rightarrow> (r, d, n)))))"

definition avahi_discover :: "host_lookup \<Rightarrow> string \<Rightarrow> int \<Rightarrow> avahi \<times> avahi_event mdns
    \<Rightarrow> discovered_service list \<times> avahi \<times> avahi_event mdns" where
  "avahi_discover lookup_host type timeout = (\<lambda>(d, n).
    if av_client d = None then ([], d, n)
    else (case open_handle (BrowseRequest (make_service_type type)) n of
        (None, n) \<Rightarrow> ([], d, n)
      | (Some h, n) \<Rightarrow> (case avahi_poll_until avahi_browse_callback (\<lambda>(_, ctx). bc_names ctx \<noteq> []) timeout browse_new (d, n) of
          (ctx, d, n) \<Rightarrow> (case avahi_poll_until avahi_browse_callback (\<lambda>_. False) 200 ctx (d, n) of
            (ctx, d, n) \<Rightarrow> resolve_each (avahi_resolve lookup_host (make_service_type type)
                (if bc_domain ctx = [] then ''local'' else bc_domain ctx) timeout)
              (bc_names ctx) (d, close_handle h n)))))"

definition avahi_discover_one :: "host_lookup \<Rightarrow> string \<Rightarrow> string \<Rightarrow> int \<Rightarrow> avahi \<times> avahi_event mdns
    \<Rightarrow> discovered_service option \<times> avahi \<times> avahi_event mdns" where
  "avahi_discover_one lookup_host name type timeout s =
    avahi_resolve lookup_host (make_service_type type) ''local'' timeout name s"

definition avahi_is_available :: "avahi \<Rightarrow> bool" where
  "avahi_is_available d \<longleftrightarrow> av_client d \<noteq> None"

section \<open>No discovery\<close>

text \<open>The stub for Linux without Avahi and the one for other systems.\<close>

definition stub_register :: "string \<Rightarrow> string \<Rightarrow> u16 \<Rightarrow> unit \<Rightarrow> bool \<times> unit" where
  "stub_register name type port d = (False, ())"

definition stub_unregister :: "unit \<Rightarrow> unit" where
  "stub_unregister d = ()"

definition stub_is_registered :: "unit \<Rightarrow> bool" where
  "stub_is_registered d = False"

definition stub_discover :: "string \<Rightarrow> int \<Rightarrow> unit \<Rightarrow> discovered_service list" where
  "stub_discover type timeout d = []"

definition stub_discover_one :: "string \<Rightarrow> string \<Rightarrow> int \<Rightarrow> unit \<Rightarrow> discovered_service option" where
  "stub_discover_one name type timeout d = None"

section \<open>The guard of a registration\<close>

text \<open>\<^verbatim>\<open>ServiceRegistration\<close> for any implementation of the interface; discoveries are elements of a list.\<close>

record guard =
  sr_discovery :: "nat option"
  sr_registered :: bool

definition guard_none :: guard where
  "guard_none = \<lparr>sr_discovery = None, sr_registered = False\<rparr>"

definition guard_new :: "(string \<Rightarrow> string \<Rightarrow> u16 \<Rightarrow> 'd \<Rightarrow> bool \<times> 'd) \<Rightarrow> nat \<Rightarrow> string \<Rightarrow> string \<Rightarrow> u16 \<Rightarrow> 'd list \<Rightarrow> guard \<times> 'd list" where
  "guard_new register i name type port ds = (case register name type port (ds ! i) of (ok, d) \<Rightarrow>
     (\<lparr>sr_discovery = Some i, sr_registered = ok\<rparr>, ds[i := d]))"

definition guard_destroy :: "('d \<Rightarrow> 'd) \<Rightarrow> guard \<Rightarrow> 'd list \<Rightarrow> 'd list" where
  "guard_destroy unregister g ds = (if sr_registered g
     then (case sr_discovery g of None \<Rightarrow> ds | Some i \<Rightarrow> ds[i := unregister (ds ! i)]) else ds)"

text \<open>The new guard and what is left of the old one.\<close>

definition guard_move :: "guard \<Rightarrow> guard \<times> guard" where
  "guard_move other = (other, guard_none)"

definition guard_move_assign :: "('d \<Rightarrow> 'd) \<Rightarrow> guard \<Rightarrow> guard \<Rightarrow> 'd list \<Rightarrow> guard \<times> guard \<times> 'd list" where
  "guard_move_assign unregister g other ds = (other, guard_none, guard_destroy unregister g ds)"

section \<open>Waiting\<close>

lemma ms_left_le: "ms_left ns \<le> int (ns div 1000000)"
proof -
  have "(0 :: int) \<le> uint w" for w :: i32 by (rule unsigned_greater_eq)
  then have "- 2147483648 \<le> uint w" for w :: i32 by (rule order_trans [rotated]) simp
  then have "sint (w :: i32) \<le> uint w" for w by (simp add: sint_uint signed_take_bit_int_less_eq_self_iff)
  also have "uint (word_of_nat k :: i32) \<le> int k" for k
    by (simp add: unsigned_of_nat take_bit_nat_less_eq_self)
  finally show ?thesis by (simp add: ms_left_def)
qed

text \<open>A timeout of \<open>2 ^ 31\<close> milliseconds is negative as an \<^verbatim>\<open>int\<close>: the loop ends at once.\<close>

lemma long_timeout_no_wait: "event_loop callback finished (mn_now n + ns_of_ms (2 ^ 31)) c n = (c, n)"
proof -
  have "ms_left (ns_of_ms (2 ^ 31)) \<le> 0" by (simp add: ms_left_def ns_of_ms_def)
  then show ?thesis by (subst event_loop.simps) simp
qed

text \<open>What is not a matter of time: the handles, the answers and the requests.\<close>

definition same_handles :: "'e mdns \<Rightarrow> 'e mdns \<Rightarrow> bool" where
  "same_handles n n' \<longleftrightarrow> mn_live n' = mn_live n \<and> mn_next n' = mn_next n \<and> mn_bad n' = mn_bad n
    \<and> mn_answers n' = mn_answers n \<and> mn_requests n' = mn_requests n"

lemma same_handles_refl [simp]: "same_handles n n"
  by (simp add: same_handles_def)

lemma same_handles_trans: "same_handles a b \<Longrightarrow> same_handles b c \<Longrightarrow> same_handles a c"
  by (simp add: same_handles_def)

lemma wait_result:
  assumes "wait w n = (evs, n')"
  shows "same_handles n n' \<and> mn_now n \<le> mn_now n' \<and> mn_now n' \<le> mn_now n + w
    \<and> (\<exists>k. evs = concat (map snd (take k (mn_turns n))) \<and> mn_turns n' = drop k (mn_turns n))"
proof (cases "mn_turns n")
  case Nil
  then show ?thesis using assms by (auto simp: wait_def same_handles_def)
next
  case (Cons x ts)
  obtain t es where x: "x = (t, es)" by (cases x)
  have evs: "evs = es" and n': "n' = n\<lparr>mn_now := mn_now n + min t w, mn_turns := ts\<rparr>"
    using assms by (simp_all add: wait_def Cons x)
  have "evs = concat (map snd (take 1 (mn_turns n))) \<and> mn_turns n' = drop 1 (mn_turns n)"
    by (simp add: evs n' Cons x)
  then show ?thesis by (auto simp: n' same_handles_def)
qed

lemma event_loop_result:
  assumes "event_loop callback finished deadline c n = (c', n')"
  shows "same_handles n n' \<and> mn_now n \<le> mn_now n' \<and> mn_now n' \<le> max (mn_now n) deadline
    \<and> (\<exists>k. c' = fold callback (concat (map snd (take k (mn_turns n)))) c \<and> mn_turns n' = drop k (mn_turns n))"
  using assms
proof (induction callback finished deadline c n rule: event_loop.induct)
  case (1 callback finished deadline c n)
  let ?left = "ms_left (deadline - mn_now n)"
  show ?case
  proof (cases "finished c \<or> deadline \<le> mn_now n \<or> ?left \<le> 0")
    case True
    then have "c' = c" "n' = n" using 1(2) by (subst (asm) event_loop.simps, simp)+
    then show ?thesis by (auto intro: exI [of _ 0])
  next
    case False
    obtain evs n1 where w: "wait (ns_of_ms (min ?left 100)) n = (evs, n1)" by fastforce
    have "event_loop callback finished deadline (fold callback evs c) n1 = (c', n')"
      using 1(2) False w by (subst (asm) event_loop.simps) simp
    from 1(1) [OF False w [symmetric] this]
    obtain k where IH: "same_handles n1 n'" "mn_now n1 \<le> mn_now n'" "mn_now n' \<le> max (mn_now n1) deadline"
      "c' = fold callback (concat (map snd (take k (mn_turns n1)))) (fold callback evs c)" "mn_turns n' = drop k (mn_turns n1)"
      by auto
    obtain j where w1: "same_handles n n1" "mn_now n \<le> mn_now n1" "mn_now n1 \<le> mn_now n + ns_of_ms (min ?left 100)"
      "evs = concat (map snd (take j (mn_turns n)))" "mn_turns n1 = drop j (mn_turns n)"
      using wait_result [OF w] by blast
    have "nat ?left \<le> (deadline - mn_now n) div 1000000" using ms_left_le [of "deadline - mn_now n"] by linarith
    then have "ns_of_ms (min ?left 100) \<le> deadline - mn_now n" unfolding ns_of_ms_def by linarith
    then have "mn_now n1 \<le> deadline" using w1(3) False by linarith
    moreover have "c' = fold callback (concat (map snd (take (j + k) (mn_turns n)))) c" "mn_turns n' = drop (j + k) (mn_turns n)"
      using IH(4,5) w1(4,5) by (simp_all add: take_add add.commute)
    ultimately show ?thesis using IH(1-3) w1(1,2) by (auto intro: same_handles_trans)
  qed
qed

section \<open>Handles\<close>

text \<open>Exactly these handles are open, in the order in which they were opened, and none was ever closed twice.\<close>

definition handles :: "nat list \<Rightarrow> 'e mdns \<Rightarrow> bool" where
  "handles hs n \<longleftrightarrow> mn_live n = hs \<and> (\<forall>h \<in> set hs. h < mn_next n) \<and> \<not> mn_bad n"

lemma handles_same: "same_handles n n' \<Longrightarrow> handles hs n \<Longrightarrow> handles hs n'"
  by (simp add: handles_def same_handles_def)

lemma handles_answer: "handles hs n \<Longrightarrow> answer n = (a, n') \<Longrightarrow> handles hs n'"
  by (auto simp: handles_def answer_def split: list.splits)

lemma handles_open:
  assumes "handles hs n" "open_handle req n = (r, n')"
  shows "case r of None \<Rightarrow> handles hs n' | Some h \<Rightarrow> handles (hs @ [h]) n' \<and> h \<notin> set hs"
  using assms by (auto simp: handles_def open_handle_def answer_def less_SucI split: list.splits if_splits)

lemma handles_close: "handles (hs @ [h]) n \<Longrightarrow> h \<notin> set hs \<Longrightarrow> handles hs (close_handle h n)"
  by (auto simp: handles_def close_handle_def remove1_append)

lemma handles_event_loop: "event_loop callback finished deadline c n = (c', n') \<Longrightarrow> handles hs n \<Longrightarrow> handles hs n'"
  by (drule event_loop_result) (auto dest: handles_same)

lemma handles_wait: "wait w n = (evs, n') \<Longrightarrow> handles hs n \<Longrightarrow> handles hs n'"
  by (drule wait_result) (auto dest: handles_same)

lemma handles_found: "found_service lookup_host name type domain ctx n = (r, n') \<Longrightarrow> handles hs n \<Longrightarrow> handles hs n'"
  by (auto simp: found_service_def resolve_hostname_def handles_def split: if_splits prod.splits)

lemma handles_resolve_each:
  assumes "\<And>name s r s'. P s \<Longrightarrow> resolve name s = (r, s') \<Longrightarrow> P s'"
  shows "P s \<Longrightarrow> resolve_each resolve names s = (rs, s') \<Longrightarrow> P s'"
  by (induction names arbitrary: s rs) (auto split: prod.splits dest: assms)

subsection \<open>dns_sd\<close>

definition opt_list :: "nat option \<Rightarrow> nat list" where
  "opt_list h = (case h of None \<Rightarrow> [] | Some h \<Rightarrow> [h])"

definition dnssd_ok :: "dnssd \<times> dns_event mdns \<Rightarrow> bool" where
  "dnssd_ok = (\<lambda>(d, n). handles (opt_list (ds_ref d)) n \<and> (ds_registered d \<longrightarrow> ds_ref d \<noteq> None))"

lemma dnssd_unregister_ok:
  "dnssd_ok s \<Longrightarrow> dnssd_unregister s = (d, n) \<Longrightarrow> ds_ref d = None \<and> \<not> ds_registered d \<and> handles [] n"
  using handles_close [of "[]"] by (auto simp: dnssd_ok_def dnssd_unregister_def opt_list_def split: option.splits)

lemma dnssd_register_ok:
  assumes "dnssd_ok s" "dnssd_register name type port s = (ok, s')"
  shows "dnssd_ok s' \<and> ds_registered (fst s') = ok"
proof -
  obtain d n where u: "dnssd_unregister s = (d, n)" by fastforce
  note d = dnssd_unregister_ok [OF assms(1) u]
  obtain r n1 where o: "open_handle (RegisterRequest name (make_service_type type) port) n = (r, n1)" by fastforce
  have "handles [] n" using d by simp
  from handles_open [OF this o] have h: "case r of None \<Rightarrow> handles [] n1 | Some h \<Rightarrow> handles [h] n1" by (cases r) simp_all
  show ?thesis
  proof (cases r)
    case None
    then show ?thesis using assms(2) u o d h by (auto simp: dnssd_register_def dnssd_ok_def opt_list_def)
  next
    case (Some k)
    obtain evs n2 where w: "wait (ns_of_ms 1000) n1 = (evs, n2)" by fastforce
    have "handles [k] n2" using h handles_wait [OF w] by (simp add: Some)
    then show ?thesis using assms(2) u o w Some by (auto simp: dnssd_register_def dnssd_ok_def opt_list_def Let_def)
  qed
qed

lemma dnssd_resolve_handles:
  assumes "handles hs n" "dnssd_resolve lookup_host type domain timeout name n = (r, n')"
  shows "handles hs n'"
proof -
  obtain h n1 where o: "open_handle (ResolveRequest name type domain) n = (h, n1)" by fastforce
  note h = handles_open [OF assms(1) o]
  show ?thesis
  proof (cases h)
    case None
    then show ?thesis using assms(2) o h by (simp add: dnssd_resolve_def)
  next
    case (Some k)
    obtain c n2 where l: "event_loop resolve_callback rc_resolved (mn_now n1 + ns_of_ms timeout) resolve_new n1 = (c, n2)" by fastforce
    have "handles hs (close_handle k n2)" using h handles_event_loop [OF l] handles_close by (auto simp: Some)
    moreover have "found_service lookup_host name type domain c (close_handle k n2) = (r, n')"
      using assms(2) o l Some by (simp add: dnssd_resolve_def)
    ultimately show ?thesis by (metis handles_found)
  qed
qed

lemma dnssd_discover_handles:
  assumes "handles hs n" "dnssd_discover lookup_host type timeout n = (rs, n')"
  shows "handles hs n'"
proof -
  obtain h n1 where o: "open_handle (BrowseRequest (make_service_type type)) n = (h, n1)" by fastforce
  note h = handles_open [OF assms(1) o]
  show ?thesis
  proof (cases h)
    case None
    then show ?thesis using assms(2) o h by (simp add: dnssd_discover_def)
  next
    case (Some k)
    obtain c n2 where l: "event_loop browse_callback (\<lambda>_. False) (mn_now n1 + ns_of_ms timeout) browse_new n1 = (c, n2)" by fastforce
    have "handles hs (close_handle k n2)" using h handles_event_loop [OF l] handles_close by (auto simp: Some)
    moreover have "resolve_each (dnssd_resolve lookup_host (make_service_type type) (bc_domain c) timeout) (bc_names c)
        (close_handle k n2) = (rs, n')"
      using assms(2) o l Some by (simp add: dnssd_discover_def)
    ultimately show ?thesis
      by (intro handles_resolve_each [where P = "handles hs" and s' = n']) (auto intro: dnssd_resolve_handles)
  qed
qed

subsection \<open>Avahi\<close>

definition avahi_ok :: "avahi \<times> avahi_event mdns \<Rightarrow> bool" where
  "avahi_ok = (\<lambda>(d, n). handles (opt_list (av_poll d) @ opt_list (av_client d) @ opt_list (av_group d)) n
    \<and> distinct (opt_list (av_poll d) @ opt_list (av_client d) @ opt_list (av_group d))
    \<and> (av_registered d \<longrightarrow> av_group d \<noteq> None))"

lemma group_silent: "fst (fold (with_group False callback) evs (r, c)) = r"
  by (induction evs arbitrary: c) (simp_all add: with_group_def)

text \<open>Waiting changes nothing but the mark of the registration, and that only while there is a group.\<close>

lemma avahi_poll_until_result:
  assumes "avahi_poll_until callback pred timeout c (d, n) = (c', d', n')"
  shows "same_handles n n' \<and> d' = d\<lparr>av_registered := av_registered d'\<rparr> \<and> (av_group d = None \<longrightarrow> av_registered d' = av_registered d)"
proof -
  let ?f = "with_group (av_group d \<noteq> None) callback"
  obtain r where l: "event_loop ?f pred (mn_now n + ns_of_ms timeout) (av_registered d, c) n = ((r, c'), n')"
      and d': "d' = d\<lparr>av_registered := r\<rparr>"
    using assms by (auto simp: avahi_poll_until_def split: prod.splits)
  from event_loop_result [OF l] obtain k where same: "same_handles n n'"
      and r: "(r, c') = fold ?f (concat (map snd (take k (mn_turns n)))) (av_registered d, c)" by blast
  have "r = av_registered d" if "av_group d = None"
    using arg_cong [OF r, of fst] that by (simp add: group_silent)
  with same d' show ?thesis by simp
qed

lemma avahi_poll_until_ok:
  assumes "avahi_poll_until callback pred timeout c (d, n) = (c', d', n')"
  shows "av_poll d' = av_poll d" "av_client d' = av_client d" "av_group d' = av_group d" "handles hs n \<Longrightarrow> handles hs n'"
    "(av_registered d \<longrightarrow> av_group d \<noteq> None) \<Longrightarrow> (av_registered d' \<longrightarrow> av_group d' \<noteq> None)"
proof -
  note r = avahi_poll_until_result [OF assms]
  then have d': "d' = d\<lparr>av_registered := av_registered d'\<rparr>" by simp
  show "av_poll d' = av_poll d" "av_client d' = av_client d" "av_group d' = av_group d" by (subst d', simp)+
  then show "handles hs n \<Longrightarrow> handles hs n'"
    "(av_registered d \<longrightarrow> av_group d \<noteq> None) \<Longrightarrow> (av_registered d' \<longrightarrow> av_group d' \<noteq> None)"
    using r handles_same by auto
qed

text \<open>The handles of an Avahi discovery, with any others that are open after them.\<close>

definition avahi_with :: "nat list \<Rightarrow> avahi \<times> avahi_event mdns \<Rightarrow> bool" where
  "avahi_with hs = (\<lambda>(d, n). handles (opt_list (av_poll d) @ opt_list (av_client d) @ opt_list (av_group d) @ hs) n
    \<and> distinct (opt_list (av_poll d) @ opt_list (av_client d) @ opt_list (av_group d) @ hs)
    \<and> (av_registered d \<longrightarrow> av_group d \<noteq> None))"

lemma avahi_ok_with: "avahi_ok s \<longleftrightarrow> avahi_with [] s"
  by (simp add: avahi_ok_def avahi_with_def)

lemma avahi_with_poll: "avahi_poll_until callback pred timeout c s = (c', s') \<Longrightarrow> avahi_with hs s \<Longrightarrow> avahi_with hs s'"
  using avahi_poll_until_ok [of callback pred timeout c "fst s" "snd s" c' "fst s'" "snd s'"]
  by (simp add: avahi_with_def split_beta)

lemma avahi_with_open:
  assumes "avahi_with [] (d, n)" "open_handle req n = (r, n')"
  shows "case r of None \<Rightarrow> avahi_with [] (d, n') | Some h \<Rightarrow> avahi_with [h] (d, n')"
proof -
  let ?hs = "opt_list (av_poll d) @ opt_list (av_client d) @ opt_list (av_group d)"
  have "handles ?hs n" using assms(1) by (simp add: avahi_with_def)
  from handles_open [OF this assms(2)] assms(1) show ?thesis by (cases r) (auto simp: avahi_with_def)
qed

lemma avahi_with_close: "avahi_with [h] (d, n) \<Longrightarrow> avahi_with [] (d, close_handle h n)"
  using handles_close [of "opt_list (av_poll d) @ opt_list (av_client d) @ opt_list (av_group d)" h n]
  by (simp add: avahi_with_def)

lemma avahi_with_answer: "avahi_with hs (d, n) \<Longrightarrow> answer n = (a, n') \<Longrightarrow> avahi_with hs (d, n')"
  using handles_answer by (auto simp: avahi_with_def)

lemma avahi_unregister_ok:
  assumes "avahi_ok s" "avahi_unregister s = (d, n)"
  shows "avahi_ok (d, n) \<and> av_group d = None \<and> \<not> av_registered d"
proof (cases "av_group (fst s)")
  case None
  then show ?thesis using assms by (auto simp: avahi_unregister_def avahi_ok_def split_beta)
next
  case (Some g)
  then have "handles ((opt_list (av_poll (fst s)) @ opt_list (av_client (fst s))) @ [g]) (snd s)"
      and "g \<notin> set (opt_list (av_poll (fst s)) @ opt_list (av_client (fst s)))"
    using assms(1) by (auto simp: avahi_ok_def split_beta opt_list_def [of "Some g"])
  from handles_close [OF this] show ?thesis
    using assms Some by (auto simp: avahi_unregister_def avahi_ok_def split_beta opt_list_def [of None])
qed

lemma avahi_destroy_ok:
  assumes "avahi_ok s"
  shows "handles [] (avahi_destroy s)"
proof -
  obtain d n where u: "avahi_unregister s = (d, n)" by fastforce
  have "avahi_ok (d, n)" "av_group d = None" using avahi_unregister_ok [OF assms u] by simp_all
  then have "handles (opt_list (av_poll d)) (close_option (av_client d) n)"
    using handles_close [of "opt_list (av_poll d)"] by (cases "av_client d") (auto simp: avahi_ok_def opt_list_def close_option_def)
  then have "handles [] (close_option (av_poll d) (close_option (av_client d) n))"
    using handles_close [of "[]"] by (cases "av_poll d") (auto simp: opt_list_def close_option_def)
  then show ?thesis by (simp add: avahi_destroy_def u)
qed

lemma avahi_new_ok:
  assumes "handles [] n" "avahi_new n = (d, n')"
  shows "avahi_ok (d, n')"
proof -
  obtain p n1 where o: "open_handle PollRequest n = (p, n1)" by fastforce
  note p = handles_open [OF assms(1) o]
  show ?thesis
  proof (cases p)
    case None
    then show ?thesis using assms(2) o p by (auto simp: avahi_new_def avahi_ok_def opt_list_def)
  next
    case (Some h)
    obtain c n2 where o2: "open_handle ClientRequest n1 = (c, n2)" by fastforce
    from p have "handles [h] n1" by (simp add: Some)
    from handles_open [OF this o2] show ?thesis
      using assms(2) o o2 Some by (cases c) (auto simp: avahi_new_def avahi_ok_def opt_list_def)
  qed
qed

lemma avahi_group_ok:
  assumes "avahi_ok s" "avahi_group s = (d, n)"
  shows "avahi_ok (d, n) \<and> \<not> av_registered d"
proof (cases "av_group (fst s)")
  case (Some g)
  then show ?thesis using assms by (auto simp: avahi_group_def avahi_ok_def split_beta)
next
  case None
  obtain g n1 where o: "open_handle GroupRequest (snd s) = (g, n1)" by fastforce
  have "handles (opt_list (av_poll (fst s)) @ opt_list (av_client (fst s))) (snd s)"
    using assms(1) None by (simp add: avahi_ok_def split_beta opt_list_def [of None])
  from handles_open [OF this o] show ?thesis
    using assms None o by (cases g) (auto simp: avahi_group_def avahi_ok_def split_beta opt_list_def [of "Some x" for x] opt_list_def [of None])
qed

lemma avahi_register_ok:
  assumes "avahi_ok s" "avahi_register name type port s = (ok, s')"
  shows "avahi_ok s' \<and> (av_client (fst s) \<noteq> None \<longrightarrow> av_registered (fst s') = ok)"
proof (cases "av_client (fst s)")
  case None
  then show ?thesis using assms by (simp add: avahi_register_def)
next
  case (Some c)
  obtain d n where g: "avahi_group s = (d, n)" by fastforce
  note d = avahi_group_ok [OF assms(1) g]
  obtain a n1 where a: "request_service name type port n = (a, n1)" by fastforce
  have "avahi_ok (d, n\<lparr>mn_requests := mn_requests n @ [RegisterRequest name (make_service_type type) port]\<rparr>)"
    using d by (simp add: avahi_ok_def handles_def)
  then have ok1: "avahi_ok (d, n1)" using a avahi_with_answer by (auto simp: request_service_def avahi_ok_with)
  obtain b n2 where b: "answer n1 = (b, n2)" by fastforce
  have ok2: "avahi_ok (d, n2)" using ok1 b avahi_with_answer by (simp add: avahi_ok_with)
  obtain u d3 n3 where w: "avahi_poll_until (\<lambda>_ c. c) fst 1000 () (d, n2) = (u, d3, n3)" by (metis prod_cases3)
  have ok3: "avahi_ok (d3, n3)" using avahi_with_poll [OF w] ok2 by (simp add: avahi_ok_with)
  have "avahi_register name type port s = (if av_group d = None then (False, d, n) else if \<not> a then (False, d, n1)
      else if \<not> b then (False, d, n2) else (av_registered d3, d3, n3))"
    using w by (simp add: avahi_register_def Some g a b)
  then show ?thesis using assms(2) d ok1 ok2 ok3 by (simp split: if_splits)
qed

lemma avahi_resolve_ok:
  assumes "avahi_ok s" "avahi_resolve lookup_host type domain timeout name s = (r, s')"
  shows "avahi_ok s'"
proof (cases "av_client (fst s)")
  case None
  then show ?thesis using assms by (simp add: avahi_resolve_def split_beta)
next
  case (Some c)
  obtain d n where s: "s = (d, n)" by fastforce
  obtain h n1 where o: "open_handle (ResolveRequest name type domain) n = (h, n1)" by fastforce
  have h: "case h of None \<Rightarrow> avahi_with [] (d, n1) | Some h \<Rightarrow> avahi_with [h] (d, n1)"
    using avahi_with_open [OF _ o] assms(1) by (simp add: s avahi_ok_with)
  show ?thesis
  proof (cases h)
    case None
    then show ?thesis using assms(2) o h Some by (simp add: avahi_resolve_def s avahi_ok_with)
  next
    case (Some k)
    obtain ctx d2 n2 where w: "avahi_poll_until avahi_resolve_callback (rc_resolved \<circ> snd) timeout resolve_new (d, n1) = (ctx, d2, n2)"
      by (metis prod_cases3)
    have ok: "avahi_ok (d2, close_handle k n2)"
      using avahi_with_close avahi_with_poll [OF w] h by (simp add: Some avahi_ok_with)
    obtain q n3 where f: "found_service lookup_host name type domain ctx (close_handle k n2) = (q, n3)" by fastforce
    then have "s' = (d2, n3)" using assms(2) o w Some \<open>av_client (fst s) = Some c\<close> by (simp add: avahi_resolve_def s)
    then show ?thesis using ok handles_found [OF f] by (simp add: avahi_ok_def)
  qed
qed

lemma avahi_discover_ok:
  assumes "avahi_ok s" "avahi_discover lookup_host type timeout s = (rs, s')"
  shows "avahi_ok s'"
proof (cases "av_client (fst s)")
  case None
  then show ?thesis using assms by (simp add: avahi_discover_def split_beta)
next
  case (Some c)
  obtain d n where s: "s = (d, n)" by fastforce
  obtain h n1 where o: "open_handle (BrowseRequest (make_service_type type)) n = (h, n1)" by fastforce
  have h: "case h of None \<Rightarrow> avahi_with [] (d, n1) | Some h \<Rightarrow> avahi_with [h] (d, n1)"
    using avahi_with_open [OF _ o] assms(1) by (simp add: s avahi_ok_with)
  show ?thesis
  proof (cases h)
    case None
    then show ?thesis using assms(2) o h Some by (simp add: avahi_discover_def s avahi_ok_with)
  next
    case (Some k)
    obtain ctx d2 n2 where w: "avahi_poll_until avahi_browse_callback (\<lambda>(_, ctx). bc_names ctx \<noteq> []) timeout browse_new (d, n1)
        = (ctx, d2, n2)" by (metis prod_cases3)
    obtain ctx3 d3 n3 where w3: "avahi_poll_until avahi_browse_callback (\<lambda>_. False) 200 ctx (d2, n2) = (ctx3, d3, n3)"
      by (metis prod_cases3)
    have "avahi_ok (d3, close_handle k n3)"
      using avahi_with_close avahi_with_poll [OF w3] avahi_with_poll [OF w] h by (simp add: Some avahi_ok_with)
    moreover have "resolve_each (avahi_resolve lookup_host (make_service_type type)
        (if bc_domain ctx3 = [] then ''local'' else bc_domain ctx3) timeout) (bc_names ctx3) (d3, close_handle k n3) = (rs, s')"
      using assms(2) o w w3 Some \<open>av_client (fst s) = Some c\<close> by (simp add: avahi_discover_def s)
    ultimately show ?thesis
      by (intro handles_resolve_each [where P = avahi_ok and s' = s']) (auto intro: avahi_resolve_ok)
  qed
qed

subsection \<open>Any sequence of operations\<close>

datatype discovery_op =
    OpRegister string string u16
  | OpUnregister
  | OpDiscover string int
  | OpDiscoverOne string string int

fun dnssd_step :: "host_lookup \<Rightarrow> discovery_op \<Rightarrow> dnssd \<times> dns_event mdns \<Rightarrow> dnssd \<times> dns_event mdns" where
  "dnssd_step lookup_host (OpRegister name type port) s = snd (dnssd_register name type port s)"
| "dnssd_step lookup_host OpUnregister s = dnssd_unregister s"
| "dnssd_step lookup_host (OpDiscover type timeout) (d, n) = (d, snd (dnssd_discover lookup_host type timeout n))"
| "dnssd_step lookup_host (OpDiscoverOne name type timeout) (d, n) = (d, snd (dnssd_discover_one lookup_host name type timeout n))"

fun avahi_step :: "host_lookup \<Rightarrow> discovery_op \<Rightarrow> avahi \<times> avahi_event mdns \<Rightarrow> avahi \<times> avahi_event mdns" where
  "avahi_step lookup_host (OpRegister name type port) s = snd (avahi_register name type port s)"
| "avahi_step lookup_host OpUnregister s = avahi_unregister s"
| "avahi_step lookup_host (OpDiscover type timeout) s = snd (avahi_discover lookup_host type timeout s)"
| "avahi_step lookup_host (OpDiscoverOne name type timeout) s = snd (avahi_discover_one lookup_host name type timeout s)"

lemmas dnssd_steps_ok = dnssd_register_ok [OF _ prod.collapse [symmetric]] dnssd_unregister_ok [OF _ prod.collapse [symmetric]]
  dnssd_discover_handles [OF _ prod.collapse [symmetric]] dnssd_resolve_handles [OF _ prod.collapse [symmetric]]

lemmas avahi_steps_ok = avahi_register_ok [OF _ prod.collapse [symmetric]] avahi_unregister_ok [OF _ prod.collapse [symmetric]]
  avahi_discover_ok [OF _ prod.collapse [symmetric]] avahi_resolve_ok [OF _ prod.collapse [symmetric]]

lemma dnssd_step_ok: "dnssd_ok s \<Longrightarrow> dnssd_ok (dnssd_step lookup_host op s)"
  using dnssd_steps_ok(1,2) [of s]
  by (induction lookup_host op s rule: dnssd_step.induct)
    (simp_all add: dnssd_ok_def split_beta opt_list_def dnssd_discover_one_def dnssd_steps_ok(3,4))

lemma avahi_step_ok: "avahi_ok s \<Longrightarrow> avahi_ok (avahi_step lookup_host op s)"
  using avahi_steps_ok [simplified] by (cases op) (simp_all add: avahi_discover_one_def)

text \<open>Claim C26. No handle of the system library is lost and none is closed twice, whatever is asked of a discovery,
  whatever the library answers and whenever its callbacks come: after any sequence of registrations, searches and
  withdrawals, on dns_sd as on Avahi, a registration that counts as registered holds an open handle, and after the destructor
  all handles are closed, each exactly once.\<close>

theorem discovery_handles_closed:
  assumes "handles [] n" "handles [] m"
  shows "(case fold (dnssd_step lookup_host) ops (dnssd_new, n) of (d, n') \<Rightarrow>
        (ds_registered d \<longrightarrow> (\<exists>h \<in> set (mn_live n'). ds_ref d = Some h)) \<and> handles [] (dnssd_destroy (d, n')))
    \<and> (case fold (avahi_step lookup_host) ops (avahi_new m) of (d, m') \<Rightarrow>
        (av_registered d \<longrightarrow> (\<exists>h \<in> set (mn_live m'). av_group d = Some h)) \<and> handles [] (avahi_destroy (d, m')))"
proof -
  have "dnssd_ok (fold (dnssd_step lookup_host) ops s)" if "dnssd_ok s" for s
    using that by (induction ops arbitrary: s) (simp_all add: dnssd_step_ok)
  moreover have "dnssd_ok (dnssd_new, n)" using assms(1) by (simp add: dnssd_ok_def dnssd_new_def opt_list_def)
  ultimately have d: "dnssd_ok (fold (dnssd_step lookup_host) ops (dnssd_new, n))" by blast
  have "avahi_ok (fold (avahi_step lookup_host) ops s)" if "avahi_ok s" for s
    using that by (induction ops arbitrary: s) (simp_all add: avahi_step_ok)
  moreover have "avahi_ok (avahi_new m)" using avahi_new_ok [OF assms(2)] by (metis prod.collapse)
  ultimately have a: "avahi_ok (fold (avahi_step lookup_host) ops (avahi_new m))" by blast
  from d have "handles [] (dnssd_destroy (fold (dnssd_step lookup_host) ops (dnssd_new, n)))"
    using dnssd_unregister_ok by (metis dnssd_destroy_def prod.collapse)
  with d avahi_destroy_ok [OF a] a show ?thesis
    by (auto simp: dnssd_ok_def avahi_ok_def handles_def opt_list_def split: prod.splits option.splits)
qed

section \<open>Searches\<close>

text \<open>The names that a search has been told of: every service that was added, and only once more for each time.\<close>

fun announced :: "dns_event list \<Rightarrow> string list" where
  "announced [] = []"
| "announced (BrowseReply no_error add name domain # evs) = (if no_error \<and> add then name # announced evs else announced evs)"
| "announced (e # evs) = announced evs"

lemma browse_names: "bc_names (fold browse_callback evs c) = bc_names c @ announced evs"
  by (induction evs arbitrary: c rule: announced.induct) simp_all

lemma open_handle_time: "open_handle req n = (r, n') \<Longrightarrow> mn_now n' = mn_now n \<and> mn_requests n' = mn_requests n @ [req] \<and> mn_turns n' = mn_turns n"
  by (auto simp: open_handle_def answer_def split: list.splits if_splits)

lemma close_handle_time [simp]: "mn_now (close_handle h n) = mn_now n" "mn_requests (close_handle h n) = mn_requests n"
  by (simp_all add: close_handle_def)

lemma found_service_result:
  assumes "found_service lookup_host name type domain ctx n = (r, n')" and "\<forall>host t. snd (lookup_host host t) \<le> d"
  shows "mn_requests n' = mn_requests n \<and> mn_now n \<le> mn_now n' \<and> mn_now n' \<le> mn_now n + (case r of None \<Rightarrow> 0 | Some x \<Rightarrow> d)
    \<and> (\<forall>x. r = Some x \<longrightarrow> dv_name x = name \<and> dv_type x = type \<and> dv_domain x = domain)"
proof -
  obtain a t where t: "lookup_host (rc_host ctx) (mn_now n) = (a, t)" by fastforce
  have "t \<le> d" using assms(2) t by (metis snd_conv)
  then show ?thesis
    using assms(1) by (auto simp: found_service_def resolve_hostname_def t split: if_splits)
qed

lemma dnssd_resolve_time:
  assumes "dnssd_resolve lookup_host type domain timeout name n = (r, n')" and "\<forall>host t. snd (lookup_host host t) \<le> d"
  shows "mn_requests n' = mn_requests n @ [ResolveRequest name type domain] \<and> mn_now n \<le> mn_now n'
    \<and> mn_now n' \<le> mn_now n + ns_of_ms timeout + (case r of None \<Rightarrow> 0 | Some x \<Rightarrow> d)
    \<and> (\<forall>x. r = Some x \<longrightarrow> dv_name x = name \<and> dv_type x = type \<and> dv_domain x = domain)"
proof -
  obtain h n1 where o: "open_handle (ResolveRequest name type domain) n = (h, n1)" by fastforce
  note h = open_handle_time [OF o]
  show ?thesis
  proof (cases h)
    case None
    then show ?thesis using assms(1) o h by (auto simp: dnssd_resolve_def)
  next
    case (Some k)
    obtain c n2 where l: "event_loop resolve_callback rc_resolved (mn_now n1 + ns_of_ms timeout) resolve_new n1 = (c, n2)" by fastforce
    have "mn_requests n2 = mn_requests n1" "mn_now n1 \<le> mn_now n2" "mn_now n2 \<le> mn_now n1 + ns_of_ms timeout"
      using event_loop_result [OF l] by (auto simp: same_handles_def)
    moreover have "found_service lookup_host name type domain c (close_handle k n2) = (r, n')"
      using assms(1) o l Some by (simp add: dnssd_resolve_def)
    ultimately show ?thesis using h found_service_result [OF _ assms(2)] by fastforce
  qed
qed

lemma resolve_each_time:
  assumes "resolve_each (dnssd_resolve lookup_host type domain timeout) names n = (rs, n')"
    and "\<forall>host t. snd (lookup_host host t) \<le> d"
  shows "mn_requests n' = mn_requests n @ map (\<lambda>name. ResolveRequest name type domain) names \<and> mn_now n \<le> mn_now n'
    \<and> mn_now n' \<le> mn_now n + length names * ns_of_ms timeout + length rs * d
    \<and> subseq (map dv_name rs) names \<and> (\<forall>x \<in> set rs. dv_type x = type \<and> dv_domain x = domain)"
  using assms(1)
proof (induction names arbitrary: n rs n')
  case (Cons name names)
  obtain r n1 where r: "dnssd_resolve lookup_host type domain timeout name n = (r, n1)" by fastforce
  obtain rs1 n2 where rs1: "resolve_each (dnssd_resolve lookup_host type domain timeout) names n1 = (rs1, n2)" by fastforce
  note t = dnssd_resolve_time [OF r assms(2)] and IH = Cons.IH [OF rs1]
  have "n' = n2" "rs = (case r of None \<Rightarrow> rs1 | Some x \<Rightarrow> x # rs1)" using Cons.prems r rs1 by simp_all
  with t IH show ?case by (cases r) auto
qed simp

text \<open>Claim C27. What a search on dns_sd reports, and how long it takes: the services it returns are among those whose arrival was
  announced while it browsed, in that order, with the type that was asked for; each announced name is
  resolved once; and the whole call lasts at most the timeout times one more than the number of announced
  names, not the timeout alone, and beyond that one look-up of a host name for each service it returns, which no
  timeout bounds: only a bound \<open>d\<close> of the system's look-ups themselves does.\<close>

theorem discover_reports:
  assumes "dnssd_discover lookup_host type timeout n = (rs, n')" and "\<forall>host t. snd (lookup_host host t) \<le> d"
  shows "\<exists>k names domain. names = announced (concat (map snd (take k (mn_turns n))))
    \<and> mn_requests n' = mn_requests n @ BrowseRequest (make_service_type type)
        # map (\<lambda>name. ResolveRequest name (make_service_type type) domain) names
    \<and> mn_now n \<le> mn_now n' \<and> mn_now n' \<le> mn_now n + (1 + length names) * ns_of_ms timeout + length rs * d
    \<and> subseq (map dv_name rs) names \<and> (\<forall>x \<in> set rs. dv_type x = make_service_type type \<and> dv_domain x = domain)"
proof -
  obtain h n1 where o: "open_handle (BrowseRequest (make_service_type type)) n = (h, n1)" by fastforce
  note h = open_handle_time [OF o]
  show ?thesis
  proof (cases h)
    case None
    then show ?thesis using assms(1) o h by (intro exI [of _ 0]) (auto simp: dnssd_discover_def)
  next
    case (Some j)
    obtain c n2 where l: "event_loop browse_callback (\<lambda>_. False) (mn_now n1 + ns_of_ms timeout) browse_new n1 = (c, n2)" by fastforce
    from event_loop_result [OF l] obtain k where c: "c = fold browse_callback (concat (map snd (take k (mn_turns n1)))) browse_new"
      and t: "mn_requests n2 = mn_requests n1" "mn_now n1 \<le> mn_now n2" "mn_now n2 \<le> mn_now n1 + ns_of_ms timeout"
      by (auto simp: same_handles_def)
    have names: "bc_names c = announced (concat (map snd (take k (mn_turns n))))"
      using h by (simp add: c browse_names browse_new_def)
    have "resolve_each (dnssd_resolve lookup_host (make_service_type type) (bc_domain c) timeout) (bc_names c) (close_handle j n2) = (rs, n')"
      using assms(1) o l Some by (simp add: dnssd_discover_def)
    from resolve_each_time [OF this assms(2)] h t show ?thesis
      by (intro exI [of _ k] exI [of _ "bc_names c"] exI [of _ "bc_domain c"]) (auto simp: names)
  qed
qed

section \<open>The interface and its guard\<close>

text \<open>What a client of \<^verbatim>\<open>Discovery\<close> relies on.\<close>

locale discovery_interface =
  fixes register :: "string \<Rightarrow> string \<Rightarrow> u16 \<Rightarrow> 'd \<Rightarrow> bool \<times> 'd" and unregister :: "'d \<Rightarrow> 'd"
    and registered :: "'d \<Rightarrow> bool" and inv :: "'d \<Rightarrow> bool"
  assumes register_says: "inv d \<Longrightarrow> register name type port d = (ok, d') \<Longrightarrow> inv d' \<and> registered d' = ok"
    and unregister_ends: "inv d \<Longrightarrow> inv (unregister d) \<and> \<not> registered (unregister d)"
begin

lemma guard_holds:
  assumes "i < length ds" "inv (ds ! i)" "guard_new register i name type port ds = (g, ds')"
  shows "inv (ds' ! i) \<and> registered (ds' ! i) = sr_registered g \<and> sr_discovery g = Some i \<and> length ds' = length ds"
  using assms register_says by (auto simp: guard_new_def split: prod.splits)

lemma guard_releases:
  assumes "i < length ds" "inv (ds ! i)" "sr_discovery g = Some i" "registered (ds ! i) = sr_registered g"
  shows "\<not> registered (guard_destroy unregister g ds ! i)"
  using assms unregister_ends by (simp add: guard_destroy_def)

text \<open>A guard that is made, moved any number of times and destroyed leaves nothing registered, and the empty guards
  that are left behind do nothing.\<close>

lemma guard_life:
  assumes "i < length ds" "inv (ds ! i)" "guard_new register i name type port ds = (g, ds')"
  shows "\<not> registered (guard_destroy unregister (snd (guard_move g)) (guard_destroy unregister (fst (guard_move g)) ds') ! i)"
  using guard_releases guard_holds [OF assms] assms(1) by (simp add: guard_move_def guard_none_def guard_destroy_def [of _ "\<lparr>sr_discovery = None, sr_registered = False\<rparr>"])

text \<open>Assigning one guard to another withdraws what the other held.\<close>

lemma guard_assigned:
  assumes "i < length ds" "inv (ds ! i)" "sr_discovery g = Some i" "registered (ds ! i) = sr_registered g" "sr_discovery other \<noteq> Some i"
  shows "case guard_move_assign unregister g other ds of (g', other', ds') \<Rightarrow> \<not> registered (ds' ! i) \<and> g' = other \<and> other' = guard_none"
  using guard_releases [OF assms(1-4)] by (simp add: guard_move_assign_def)

end

interpretation dns_sd_service: discovery_interface dnssd_register dnssd_unregister "ds_registered \<circ> fst" dnssd_ok
  using dnssd_register_ok dnssd_steps_ok(2) dnssd_step_ok [of _ _ OpUnregister] by unfold_locales auto

lemma avahi_register_client:
  assumes "avahi_register name type port s = (ok, s')"
  shows "av_client (fst s') = av_client (fst s)"
proof -
  obtain d n where s: "avahi_group s = (d, n)" by fastforce
  have "av_client d = av_client (fst s)" using s by (auto simp: avahi_group_def split_beta split: option.splits)
  moreover have "av_client (fst (snd (avahi_poll_until (\<lambda>_ c. c) fst 1000 () (d, m)))) = av_client d" for m
    using avahi_poll_until_ok(2) by (metis prod.collapse)
  ultimately show ?thesis
    unfolding assms [THEN arg_cong [of _ _ snd], simplified, symmetric] by (simp add: avahi_register_def s split_beta)
qed

interpretation avahi_service: discovery_interface avahi_register avahi_unregister "av_registered \<circ> fst"
    "\<lambda>s. avahi_ok s \<and> (av_client (fst s) = None \<longrightarrow> av_group (fst s) = None)"
proof
  fix d d' :: "avahi \<times> avahi_event mdns" and name type port ok
  assume d: "avahi_ok d \<and> (av_client (fst d) = None \<longrightarrow> av_group (fst d) = None)" and r: "avahi_register name type port d = (ok, d')"
  show "(avahi_ok d' \<and> (av_client (fst d') = None \<longrightarrow> av_group (fst d') = None)) \<and> (av_registered \<circ> fst) d' = ok"
  proof (cases "av_client (fst d)")
    case None
    then show ?thesis using d r by (auto simp: avahi_register_def avahi_ok_def split_beta)
  next
    case (Some c)
    then show ?thesis using d Some avahi_register_ok [OF _ r] avahi_register_client [OF r] by auto
  qed
qed (use avahi_steps_ok(2) in \<open>auto simp: avahi_unregister_def split_beta split: option.splits\<close>)

interpretation stub_service: discovery_interface stub_register stub_unregister stub_is_registered "\<lambda>_. True"
  by unfold_locales (simp_all add: stub_register_def stub_is_registered_def)

text \<open>A guard of a registration never leaves it behind: on dns_sd and on Avahi, whatever the answer to
  the registration, a guard that is made and moved is destroyed with nothing registered any more, and the
  empty guard that the move leaves behind withdraws nothing a second time.\<close>

theorem guard_withdraws:
  assumes "i < length ds" "dnssd_ok (ds ! i)" "guard_new dnssd_register i name type port ds = (g, ds')"
    and "j < length as" "avahi_ok (as ! j)" "av_client (fst (as ! j)) \<noteq> None" "guard_new avahi_register j name type port as = (k, as')"
  shows "\<not> ds_registered (fst (guard_destroy dnssd_unregister (snd (guard_move g))
        (guard_destroy dnssd_unregister (fst (guard_move g)) ds') ! i))
    \<and> \<not> av_registered (fst (guard_destroy avahi_unregister (snd (guard_move k))
        (guard_destroy avahi_unregister (fst (guard_move k)) as') ! j))"
  using dns_sd_service.guard_life [OF assms(1-3)] avahi_service.guard_life [OF assms(4) _ assms(7)] assms(5,6) by simp

section \<open>Examples\<close>

definition demo_net :: "bool list \<Rightarrow> (nat \<times> 'e list) list \<Rightarrow> 'e mdns" where
  "demo_net as ts = \<lparr>mn_now = 0, mn_turns = ts, mn_answers = as, mn_live = [], mn_next = 1, mn_bad = False, mn_requests = []\<rparr>"

lemmas run_defs = dnssd_discover_def dnssd_register_def dnssd_unregister_def dnssd_resolve_def dnssd_new_def open_handle_def close_handle_def
  answer_def wait_def found_service_def resolve_hostname_def resolve_new_def browse_new_def event_loop.simps ms_left_def ns_of_ms_def
  demo_net_def

text \<open>Two announced services of which one answers: the search takes the whole timeout to browse, resolves the first at
  once, waits three seconds for the address of its host, and waits the whole timeout for the second.\<close>

definition demo_answers :: "dns_event mdns" where
  "demo_answers = demo_net [True, True, True]
     [(ns_of_ms 100, [BrowseReply True True ''a'' ''local.'', BrowseReply True True ''b'' ''local.'']), (0, [ResolveReply True ''h'' 80])]"

lemma search_outlasts_timeout:
  "case dnssd_discover (\<lambda>host t. (Some ''10.0.0.1'', ns_of_ms 3000)) ''calc'' 100 demo_answers of (rs, n) \<Rightarrow>
    rs = [\<lparr>dv_name = ''a'', dv_host = ''10.0.0.1'', dv_port = 80, dv_type = make_service_type ''calc'', dv_domain = ''local.''\<rparr>]
    \<and> mn_now n = 2 * ns_of_ms 100 + ns_of_ms 3000"
  by (simp add: run_defs demo_answers_def)

text \<open>A service that is announced on two interfaces is reported twice, and one that has gone again is still looked for.\<close>

lemma search_repeats:
  "map dv_name (fst (dnssd_discover (\<lambda>_ _. (None, 0)) ''calc'' 100 (demo_net [True, True, True]
      [(ns_of_ms 100, [BrowseReply True True ''a'' ''local.'', BrowseReply True True ''a'' ''local.'', BrowseReply True False ''a'' ''local.'']),
       (5, [ResolveReply True ''h'' 80]), (5, [ResolveReply True ''h'' 80])]))) = [''a'', ''a'']"
  by (simp add: run_defs)

text \<open>A registration that is not confirmed in time is reported as failed, but its handle stays open: the library goes on
  to announce the service, and no guard will withdraw it.\<close>

lemma unconfirmed_registration_stays:
  "case guard_new dnssd_register 0 ''calc'' ''calc'' 80 [(dnssd_new, demo_net [True] [])] of (g, ds) \<Rightarrow>
     \<not> sr_registered g \<and> mn_live (snd (guard_destroy dnssd_unregister g ds ! 0)) = [1]"
  by (simp add: run_defs guard_new_def guard_destroy_def)

theorem discover_reports_witness:
  "\<exists>rs n'. dnssd_discover (\<lambda>host t. (Some ''10.0.0.1'', ns_of_ms 3000)) ''calc'' 100 demo_answers = (rs, n')
    \<and> map dv_name rs = [''a''] \<and> mn_now n' = 2 * ns_of_ms 100 + ns_of_ms 3000
    \<and> (\<exists>names. subseq [''a''] names \<and> mn_now n' \<le> (1 + length names) * ns_of_ms 100 + ns_of_ms 3000)"
proof -
  let ?lookup = "\<lambda>host t. (Some ''10.0.0.1'', ns_of_ms 3000)"
  obtain rs n' where d: "dnssd_discover ?lookup ''calc'' 100 demo_answers = (rs, n')" by fastforce
  with search_outlasts_timeout have rs: "map dv_name rs = [''a'']" "mn_now n' = 2 * ns_of_ms 100 + ns_of_ms 3000" by simp_all
  then have "length rs = 1" by (metis length_map length_Cons list.size(3) One_nat_def)
  moreover have "mn_now demo_answers = 0" by (simp add: demo_answers_def demo_net_def)
  moreover have "\<forall>host t. snd (?lookup host t) \<le> ns_of_ms 3000" by simp
  ultimately show ?thesis using discover_reports [OF d, of "ns_of_ms 3000"] d rs by fastforce
qed

theorem discovery_handles_closed_witness:
  "case fold (dnssd_step (\<lambda>_ _. (None, 0))) [OpRegister ''a'' ''calc'' 80, OpDiscover ''calc'' 100]
      (dnssd_new, demo_net [True, True] [(5, [RegisterReply True])]) of (d, n') \<Rightarrow>
    ds_registered d \<and> (\<exists>h \<in> set (mn_live n'). ds_ref d = Some h) \<and> handles [] (dnssd_destroy (d, n'))"
proof -
  obtain d n' where r: "fold (dnssd_step (\<lambda>_ _. (None, 0))) [OpRegister ''a'' ''calc'' 80, OpDiscover ''calc'' 100]
      (dnssd_new, demo_net [True, True] [(5, [RegisterReply True])]) = (d, n')" by fastforce
  have "ds_registered (fst (fold (dnssd_step (\<lambda>_ _. (None, 0))) [OpRegister ''a'' ''calc'' 80, OpDiscover ''calc'' 100]
      (dnssd_new, demo_net [True, True] [(5, [RegisterReply True])])))" by (simp add: run_defs)
  moreover have "handles [] (demo_net [True, True] [(5, [RegisterReply True])] :: dns_event mdns)"
      "handles [] (demo_net [] [] :: avahi_event mdns)"
    by (simp_all add: handles_def demo_net_def)
  ultimately show ?thesis
    using discovery_handles_closed [of "demo_net [True, True] [(5, [RegisterReply True])]" "demo_net [] []" "\<lambda>_ _. (None, 0)"
        "[OpRegister ''a'' ''calc'' 80, OpDiscover ''calc'' 100]"]
    by (simp only: r split: prod.splits) simp
qed

end
