(* ===== verification/Song_Serve.thy ===== *)
theory Song_Serve
  imports Song_Runtime Song_Discovery
begin

text \<open>
  \<^verbatim>\<open>src/runtime.cpp\<close>, from \<^verbatim>\<open>wrap_transport\<close> on: the loops that accept connections. Serially
  (\<^verbatim>\<open>run_tcp\<close>), serially while the service is announced through mDNS until a signal comes
  (\<^verbatim>\<open>run_tcp_discoverable\<close>), and with a thread for each client (\<^verbatim>\<open>run_tcp_multi\<close>), whose
  threads take turns at the granularity of one message. What the listener accepts, what each
  client sends and when signals arrive is a script. The locale \<open>discovery_host\<close> is what
  \<^verbatim>\<open>run_tcp_discoverable\<close> relies on, interpreted for both implementations of \<^verbatim>\<open>Discovery\<close>.
\<close>

section \<open>One client\<close>

text \<open>The wrapper set by \<^verbatim>\<open>set_transport_wrapper\<close> is the service's own code.\<close>

definition wrap_transport :: "(tid \<Rightarrow> tid res) option \<Rightarrow> tid \<Rightarrow> tid res" where
  "wrap_transport wrapper t = (case wrapper of None \<Rightarrow> Inr t | Some f \<Rightarrow> f t)"

text \<open>What a call of \<^verbatim>\<open>accept\<close> gives: an exception, nothing, or a connection and what its
  transport will receive.\<close>

type_synonym accepted = "exn + (tid \<times> recv_event list) option"

definition serve_client :: "'io wires \<Rightarrow> ('o, 'u) object_code \<Rightarrow> (tid \<Rightarrow> tid res) option \<Rightarrow> tid
    \<Rightarrow> recv_event list \<Rightarrow> (('o, 'u, 'io) runtime, unit) step" where
  "serve_client wires code wrapper t evs =
    scatch catchable (sbind (slift (wrap_transport wrapper t)) (\<lambda>t. client_loop wires code t evs))
      (\<lambda>e. sret ())"

text \<open>The overloads that take a port: the listener is closed when the loop is left.\<close>

definition with_listener :: "listen_calls \<Rightarrow> u16 \<Rightarrow> (listener \<Rightarrow> ('s, 'a) step) \<Rightarrow> (sys \<times> 's, 'a) step" where
  "with_listener c port body = (\<lambda>(s, x). case lst_listen c port [] (lst_new, s) of
      (Inl e, l, s) \<Rightarrow> (Inl e, snd (lst_close (l, s)), x)
    | (Inr _, l, s) \<Rightarrow>
      (case body l x of
        (Inl e, x) \<Rightarrow> (Inl e, if catchable e then snd (lst_close (l, s)) else s, x)
      | (Inr y, x) \<Rightarrow> (Inr y, snd (lst_close (l, s)), x)))"

section \<open>Serially\<close>

fun run_tcp :: "'io wires \<Rightarrow> ('o, 'u) object_code \<Rightarrow> (tid \<Rightarrow> tid res) option \<Rightarrow> accepted list
    \<Rightarrow> (('o, 'u, 'io) runtime, unit) step" where
  "run_tcp wires code wrapper [] rt = (Inl Diverges, rt)"
| "run_tcp wires code wrapper (Inl e # as) rt = (Inl e, rt)"
| "run_tcp wires code wrapper (Inr None # as) rt = run_tcp wires code wrapper as rt"
| "run_tcp wires code wrapper (Inr (Some (t, evs)) # as) rt =
    sbind (serve_client wires code wrapper t evs) (\<lambda>_. run_tcp wires code wrapper as) rt"

section \<open>Serially, announced through mDNS\<close>

text \<open>A round of the loop: what \<^verbatim>\<open>accept(250)\<close> gives, and whether a signal has set the flag by
  then, or has while the client was served.\<close>

record serve_round =
  rd_accept :: accepted
  rd_signal :: bool
  rd_signal_client :: bool

fun discoverable_loop :: "'io wires \<Rightarrow> ('o, 'u) object_code \<Rightarrow> (tid \<Rightarrow> tid res) option \<Rightarrow> bool \<Rightarrow> serve_round list
    \<Rightarrow> (('o, 'u, 'io) runtime, unit) step" where
  "discoverable_loop wires code wrapper True rounds rt = (Inr (), rt)"
| "discoverable_loop wires code wrapper False [] rt = (Inl Diverges, rt)"
| "discoverable_loop wires code wrapper False (r # rs) rt =
    (case rd_accept r of
      Inl e \<Rightarrow> if \<not> catchable e then (Inl e, rt) else if rd_signal r then (Inr (), rt)
        else discoverable_loop wires code wrapper (rd_signal r) rs rt
    | Inr None \<Rightarrow> discoverable_loop wires code wrapper (rd_signal r) rs rt
    | Inr (Some (t, evs)) \<Rightarrow>
        sbind (serve_client wires code wrapper t evs)
          (\<lambda>_. discoverable_loop wires code wrapper (rd_signal r \<or> rd_signal_client r) rs) rt)"

definition announce_line :: "string \<Rightarrow> string \<Rightarrow> u16 \<Rightarrow> string" where
  "announce_line name type port = ''['' @ name @ ''] Registered on mDNS as '' @ make_service_type type
     @ '' port '' @ dec_string (unat port)"

definition withdraw_line :: "string \<Rightarrow> string" where
  "withdraw_line name = ''['' @ name @ ''] Deregistering from mDNS''"

text \<open>\<^verbatim>\<open>run_tcp_discoverable\<close> on an open listener, for any implementation of \<^verbatim>\<open>Discovery\<close>: its
  constructor, \<^verbatim>\<open>is_available\<close>, \<^verbatim>\<open>register_service\<close> and destructor. What is left is the network
  after the destructor, or the live implementation while the function has not returned.\<close>

definition run_tcp_discoverable :: "('n \<Rightarrow> 'd) \<Rightarrow> ('d \<Rightarrow> bool)
    \<Rightarrow> (string \<Rightarrow> string \<Rightarrow> u16 \<Rightarrow> 'd \<Rightarrow> bool \<times> 'd) \<Rightarrow> ('d \<Rightarrow> 'n)
    \<Rightarrow> 'io wires \<Rightarrow> ('o, 'u) object_code \<Rightarrow> (tid \<Rightarrow> tid res) option \<Rightarrow> serve_round list
    \<Rightarrow> string \<Rightarrow> string \<Rightarrow> listener \<Rightarrow> 'n \<Rightarrow> ('o, 'u, 'io) runtime \<times> string list
    \<Rightarrow> unit res \<times> ('d + 'n) \<times> ('o, 'u, 'io) runtime \<times> string list" where
  "run_tcp_discoverable create available register destroy wires code wrapper rounds name type l n = (\<lambda>(rt, log).
    let d = create n;
        (registered, d) = (if available d then register name type (lst_port l) d else (False, d));
        log = (if registered then log @ [announce_line name type (lst_port l)] else log)
    in case discoverable_loop wires code wrapper False rounds rt of
      (Inl e, rt) \<Rightarrow> (Inl e, if catchable e then Inr (destroy d) else Inl d, rt, log)
    | (Inr _, rt) \<Rightarrow>
        (Inr (), Inr (destroy d), rt, if registered then log @ [withdraw_line name] else log))"

section \<open>A thread for each client\<close>

text \<open>The body of a thread is \<open>client_loop\<close>, cut into what happens at the start and what happens
  for each result of \<^verbatim>\<open>receive\<close>.\<close>

definition client_step :: "'io wires \<Rightarrow> ('o, 'u) object_code \<Rightarrow> tid \<Rightarrow> recv_event
    \<Rightarrow> ('o, 'u, 'io) runtime \<times> conn \<Rightarrow> (unit res + conn) \<times> ('o, 'u, 'io) runtime" where
  "client_step wires code t ev s = (case ev of
      RecvThrow e \<Rightarrow> (Inl (Inl e), fst s)
    | RecvEnd \<Rightarrow> (Inl (Inr ()), disconnect t s)
    | RecvMsg msg \<Rightarrow>
      (case decode_header msg of
        Inl e \<Rightarrow> (Inl (Inl e), fst s)
      | Inr (hdr, msg) \<Rightarrow>
          if hdr_magic hdr \<noteq> k_magic then (Inl (Inr ()), disconnect t s)
          else if hdr_type hdr = mt_shutdown then (Inl (Inr ()), disconnect t s)
          else if hdr_type hdr = mt_init_ack then (Inr (snd s), fst s)
          else (case handle_message wires code hdr msg t s of
              (Inl e, s) \<Rightarrow> (Inl (Inl e), fst s)
            | (Inr _, s) \<Rightarrow> (Inr (snd s), fst s))))"

datatype progress = Starting | Serving conn | Left "unit res"

record client_thread =
  th_transport :: tid
  th_events :: "recv_event list"
  th_progress :: progress
  th_joinable :: bool

record ('o, 'u, 'io) server =
  sv_runtime :: "('o, 'u, 'io) runtime"
  sv_threads :: "client_thread list"

text \<open>A turn of a thread. It catches whatever its client's loop throws; once that has been left,
  the thread has finished, and is still joinable.\<close>

definition client_turn :: "'io wires \<Rightarrow> ('o, 'u) object_code \<Rightarrow> client_thread \<Rightarrow> ('o, 'u, 'io) runtime
    \<Rightarrow> client_thread \<times> ('o, 'u, 'io) runtime" where
  "client_turn wires code th rt = (case th_progress th of
      Left r \<Rightarrow> (th, rt)
    | Starting \<Rightarrow>
      (case send_init_confirmation_transport wires (th_transport th) rt of
        (Inl e, rt) \<Rightarrow> (th\<lparr>th_progress := Left (Inl e)\<rparr>, rt)
      | (Inr _, rt) \<Rightarrow> (th\<lparr>th_progress := Serving conn_new\<rparr>, rt))
    | Serving c \<Rightarrow>
      (case th_events th of
        [] \<Rightarrow> (th, rt)
      | ev # evs \<Rightarrow>
        (case client_step wires code (th_transport th) ev (rt, c) of
          (Inl r, rt) \<Rightarrow> (th\<lparr>th_events := evs, th_progress := Left r\<rparr>, rt)
        | (Inr c, rt) \<Rightarrow> (th\<lparr>th_events := evs, th_progress := Serving c\<rparr>, rt))))"

text \<open>The end of the loop's body: the threads that are not joinable are erased.\<close>

definition erase_finished :: "client_thread list \<Rightarrow> client_thread list" where
  "erase_finished ths = filter th_joinable ths"

text \<open>What happens next: the main thread's \<^verbatim>\<open>accept\<close> returns, or thread \<open>i\<close> has its turn.\<close>

datatype multi_event = Accepts accepted | Turn nat

text \<open>How \<^verbatim>\<open>run_tcp_multi\<close> goes on. An exception out of it destroys the vector of threads, and a
  joinable thread among them ends the process.\<close>

datatype outcome = Running | Throws exn | Terminated

definition leave_multi :: "exn \<Rightarrow> client_thread list \<Rightarrow> outcome" where
  "leave_multi e ths = (if catchable e \<and> (\<exists>th \<in> set ths. th_joinable th) then Terminated else Throws e)"

definition accept_client :: "(tid \<Rightarrow> tid res) option \<Rightarrow> accepted \<Rightarrow> ('o, 'u, 'io) server
    \<Rightarrow> outcome \<times> ('o, 'u, 'io) server" where
  "accept_client wrapper a sv = (case a of
      Inl e \<Rightarrow> (leave_multi e (sv_threads sv), sv)
    | Inr None \<Rightarrow> (Running, sv)
    | Inr (Some (t, evs)) \<Rightarrow>
      (case wrap_transport wrapper t of
        Inl e \<Rightarrow> (leave_multi e (sv_threads sv), sv)
      | Inr t \<Rightarrow> (Running, sv\<lparr>sv_threads := erase_finished (sv_threads sv
          @ [\<lparr>th_transport = t, th_events = evs, th_progress = Starting, th_joinable = True\<rparr>])\<rparr>)))"

definition take_turn :: "'io wires \<Rightarrow> ('o, 'u) object_code \<Rightarrow> nat \<Rightarrow> ('o, 'u, 'io) server
    \<Rightarrow> ('o, 'u, 'io) server" where
  "take_turn wires code i sv =
    (if i < length (sv_threads sv)
     then case client_turn wires code (sv_threads sv ! i) (sv_runtime sv) of
       (th, rt) \<Rightarrow> \<lparr>sv_runtime = rt, sv_threads = (sv_threads sv)[i := th]\<rparr>
     else sv)"

fun run_tcp_multi :: "'io wires \<Rightarrow> ('o, 'u) object_code \<Rightarrow> (tid \<Rightarrow> tid res) option \<Rightarrow> multi_event list
    \<Rightarrow> ('o, 'u, 'io) server \<Rightarrow> outcome \<times> ('o, 'u, 'io) server" where
  "run_tcp_multi wires code wrapper [] sv = (Running, sv)"
| "run_tcp_multi wires code wrapper (Turn i # evs) sv = run_tcp_multi wires code wrapper evs (take_turn wires code i sv)"
| "run_tcp_multi wires code wrapper (Accepts a # evs) sv =
    (case accept_client wrapper a sv of
      (Running, sv) \<Rightarrow> run_tcp_multi wires code wrapper evs sv
    | (out, sv) \<Rightarrow> (out, sv))"

section \<open>The loops and the loop of a client\<close>

lemma run_tcp_without_wrapper:
  "run_tcp wires code None (map (Inr \<circ> Some) clients) rt = run_tcp_clients wires code clients rt"
proof (induction clients arbitrary: rt)
  case (Cons client clients)
  have "serve_client wires code None t evs = scatch catchable (client_loop wires code t evs) (\<lambda>e. sret ())" for t evs
    by (rule ext) (simp add: serve_client_def wrap_transport_def scatch_apply sbind_apply slift_def)
  with Cons show ?case
    by (cases client) (auto simp: sbind_apply split: prod.splits sum.splits)
qed simp

lemma client_loop_from_step:
  "client_loop_from wires code t (ev # evs) s = (case client_step wires code t ev s of
      (Inl r, rt) \<Rightarrow> (r, rt)
    | (Inr c, rt) \<Rightarrow> client_loop_from wires code t evs (rt, c))"
  by (cases ev) (auto simp: client_step_def split: sum.splits prod.splits)

text \<open>A thread that has all its turns in a row does what \<^verbatim>\<open>client_loop\<close> does.\<close>

definition turn :: "'io wires \<Rightarrow> ('o, 'u) object_code \<Rightarrow> client_thread \<times> ('o, 'u, 'io) runtime
    \<Rightarrow> client_thread \<times> ('o, 'u, 'io) runtime" where
  "turn wires code = (\<lambda>(th, rt). client_turn wires code th rt)"

lemma turn_left: "th_progress th = Left r \<Longrightarrow> (turn wires code ^^ n) (th, rt) = (th, rt)"
  by (induction n) (simp_all add: turn_def client_turn_def)

definition thread_shows :: "unit res \<Rightarrow> client_thread \<Rightarrow> bool" where
  "thread_shows r th \<longleftrightarrow> th_progress th = Left r \<or> r = Inl Diverges \<and> (\<exists>c. th_progress th = Serving c)"

lemma thread_serves:
  assumes "client_loop_from wires code (th_transport th) (th_events th) (rt, c) = (r, rt')"
    and "th_progress th = Serving c"
  shows "\<exists>th'. (turn wires code ^^ length (th_events th)) (th, rt) = (th', rt') \<and> thread_shows r th'"
  using assms
proof (induction "th_events th" arbitrary: th rt c)
  case Nil
  then show ?case by (auto simp: thread_shows_def)
next
  case (Cons ev evs)
  obtain x rt1 where x: "client_step wires code (th_transport th) ev (rt, c) = (x, rt1)" by fastforce
  have run: "client_loop_from wires code (th_transport th) (ev # evs) (rt, c) = (r, rt')"
    using Cons.prems(1) Cons.hyps(2) by simp
  show ?case
  proof (cases x)
    case (Inl r1)
    with run x have r: "r1 = r" "rt1 = rt'" by (simp_all add: client_loop_from_step)
    let ?th = "th\<lparr>th_events := evs, th_progress := Left r\<rparr>"
    have "turn wires code (th, rt) = (?th, rt')"
      using x Inl r Cons.prems(2) Cons.hyps(2) [symmetric] by (simp add: turn_def client_turn_def)
    then have "(turn wires code ^^ Suc (length evs)) (th, rt) = (?th, rt')"
      by (simp add: funpow_Suc_right turn_left del: funpow.simps)
    then show ?thesis using Cons.hyps(2) [symmetric] by (auto simp: thread_shows_def simp del: funpow.simps)
  next
    case (Inr c1)
    let ?th = "th\<lparr>th_events := evs, th_progress := Serving c1\<rparr>"
    have "turn wires code (th, rt) = (?th, rt1)"
      using x Inr Cons.prems(2) Cons.hyps(2) [symmetric] by (simp add: turn_def client_turn_def)
    moreover have "client_loop_from wires code (th_transport ?th) (th_events ?th) (rt1, c1) = (r, rt')"
      using run x Inr by (simp add: client_loop_from_step)
    ultimately show ?thesis
      using Cons.hyps(1) [of ?th rt1 c1] Cons.hyps(2) [symmetric] by (simp add: funpow_swap1)
  qed
qed

lemma thread_alone:
  assumes "client_loop wires code t evs rt = (r, rt')"
    and "th_transport th = t" and "th_events th = evs" and "th_progress th = Starting"
  shows "\<exists>th'. (turn wires code ^^ Suc (length evs)) (th, rt) = (th', rt') \<and> thread_shows r th'"
proof -
  obtain x rt1 where x: "send_init_confirmation_transport wires t rt = (x, rt1)" by fastforce
  show ?thesis
  proof (cases x)
    case (Inl e)
    then have "r = Inl e" "rt' = rt1" using assms(1) x by (simp_all add: client_loop_def)
    then have "turn wires code (th, rt) = (th\<lparr>th_progress := Left r\<rparr>, rt')"
      using assms(2,4) x Inl by (simp add: turn_def client_turn_def)
    then show ?thesis
      by (simp add: funpow_Suc_right turn_left thread_shows_def del: funpow.simps)
  next
    case (Inr u)
    let ?th = "th\<lparr>th_progress := Serving conn_new\<rparr>"
    have "turn wires code (th, rt) = (?th, rt1)"
      using assms x Inr by (simp add: turn_def client_turn_def)
    moreover have "client_loop_from wires code (th_transport ?th) (th_events ?th) (rt1, conn_new) = (r, rt')"
      using assms x Inr by (simp add: client_loop_def)
    ultimately show ?thesis
      using thread_serves [of wires code ?th rt1 conn_new r rt'] assms(3) by (simp add: funpow_swap1)
  qed
qed

section \<open>Subscriptions and the threads\<close>

text \<open>What a message on transport \<open>t\<close> may add to the subscriptions: those of \<open>t\<close>.\<close>

definition same_subs :: "('o, 'u, 'io) runtime \<times> conn \<Rightarrow> ('o, 'u, 'io) runtime \<times> conn \<Rightarrow> bool" where
  "same_subs s s' \<longleftrightarrow> rt_subs (fst s') = rt_subs (fst s)"

interpretation same_subs: step_preorder same_subs
  by unfold_locales (simp_all add: same_subs_def)

lemma same_subs_on_rt: "keeps same_tables m \<Longrightarrow> keeps same_subs (on_rt m)"
  by (simp add: keeps_def same_subs_def on_rt_def same_tables_def split_beta)

lemma same_subs_create: "keeps same_subs (handle_create reply hdr payload)"
proof (rule keepsI)
  fix s :: "('a, 'b, 'c) runtime \<times> conn"
  have tracked: "keeps same_subs (create_tracked h payload :: (('a, 'b, 'c) runtime \<times> conn, i32) step)" for h payload
    by (auto simp: keeps_def same_subs_def create_tracked_def sbind_apply on_rt_def monad_defs
        split: prod.splits sum.splits)
  have "keeps same_subs (scatch std_exception
          (sbind (create_tracked h payload) (\<lambda>oid.
           sbind (slift (encode_object_ref \<lparr>or_type_id = och_type_id h, or_object_id = oid\<rparr> buffer_new)) (\<lambda>response.
           on_rt (send_result reply (hdr_sequence_id hdr) response))))
          (\<lambda>e. on_rt (send_error reply (hdr_sequence_id hdr) ec_object_creation_failed (what e)))
       :: (('a, 'b, 'c) runtime \<times> conn, unit) step)" for h payload
    by (intro same_subs.keeps_scatch same_subs.keeps_sbind tracked same_subs.keeps_pure
        same_subs_on_rt keeps_send_result keeps_send_error)
  note k = keeps_apply [OF this]
  show "same_subs s (snd (handle_create reply hdr payload s))"
    by (cases "decode_object_create_header payload") (simp_all add: handle_create_def same_subs.R_refl k split_beta)
qed

lemma same_subs_object:
  assumes "registry_ok (rt_registry (fst s))"
  shows "same_subs s (snd (on_rt (handle_prop_get wires code reply hdr payload) s))"
    and "same_subs s (snd (on_rt (handle_prop_set wires code reply hdr payload) s))"
    and "same_subs s (snd (on_rt (handle_object_call wires code reply hdr payload) s))"
proof -
  have "rt_subs (snd (object_request wires reply seq c oid op (fst s))) = rt_subs (fst s)" for seq c oid op
    using object_request_tables [OF assms] by (simp add: same_tables_def)
  then show "same_subs s (snd (on_rt (handle_prop_get wires code reply hdr payload) s))"
    and "same_subs s (snd (on_rt (handle_prop_set wires code reply hdr payload) s))"
    and "same_subs s (snd (on_rt (handle_object_call wires code reply hdr payload) s))"
    by (cases s; auto simp: same_subs_def on_rt_def handle_prop_get_def handle_prop_set_def handle_object_call_def
        split_beta split: sum.splits prod.splits)+
qed

text \<open>The part of the session's invariant that does not speak of one connection.\<close>

definition tables_ok :: "('o, 'u, 'io) runtime \<Rightarrow> bool" where
  "tables_ok rt \<longleftrightarrow> registry_ok (rt_registry rt) \<and> subs_ok (rt_subs rt)
     \<and> (\<forall>ty f. map_of (factories (rt_registry rt)) ty = Some f \<longrightarrow> factory_fresh f)"

lemma tables_ok_any: "session_ok UNIV (rt, c) \<longleftrightarrow> tables_ok rt"
  by (simp add: session_ok_def tables_ok_def)

lemma same_tables_ok: "same_tables rt rt' \<Longrightarrow> tables_ok rt \<Longrightarrow> tables_ok rt' \<and> rt_subs rt' = rt_subs rt"
  using session_ok_same [of UNIV rt conn_new rt'] by (simp add: tables_ok_any same_tables_def)

definition others :: "tid \<Rightarrow> ('o, 'u, 'io) runtime \<Rightarrow> (sid \<times> tid \<times> sub_key) set" where
  "others t rt = {x \<in> subscribed (rt_subs rt). fst x \<noteq> t}"

lemma others_same: "rt_subs rt' = rt_subs rt \<Longrightarrow> others t rt' = others t rt"
  by (simp add: others_def)

lemma others_handle_message:
  assumes "session_ok UNIV s"
  shows "others t (fst (snd (handle_message wires code hdr payload t s))) \<subseteq> others t (fst s)"
proof -
  obtain rt c where s: "s = (rt, c)" by fastforce
  have ok: "subs_ok (rt_subs rt)" "registry_ok (rt_registry rt)"
    using assms s by (simp_all add: session_ok_def)
  have sub: "others t (fst (snd (handle_subscribe t payload s))) \<subseteq> others t (fst s)"
    by (cases "decode_property_header payload")
      (auto simp: s handle_subscribe_def others_def subscribe_ok(2) [OF ok(1)] split: if_splits)
  have unsub: "others t (fst (snd (handle_unsubscribe t payload s))) \<subseteq> others t (fst s)"
    by (cases "decode_property_header payload")
      (auto simp: s handle_unsubscribe_def others_def unsubscribe_ok(2) [OF ok(1)])
  have rel: "same_subs s (snd (handle_release payload s))"
    by (cases "decode_object_release_header payload") (auto simp: s same_subs_def handle_release_def)
  have call: "same_subs s (snd (on_rt (handle_call wires reply mk hdr payload) s))" for reply mk
    by (rule keeps_apply [OF same_subs_on_rt [OF keeps_handle_call]])
  have create: "same_subs s (snd (handle_create reply hdr payload s))" for reply
    by (rule keeps_apply [OF same_subs_create])
  have obj: "registry_ok (rt_registry (fst s))" using ok s by simp
  have none: "same_subs s (snd (sret () s))" by (simp add: same_subs_def sret_def)
  have same: "same_subs s s' \<Longrightarrow> others t (fst s') \<subseteq> others t (fst s)" for s'
    by (simp add: same_subs_def others_def)
  show ?thesis
    unfolding handle_message_def Let_def
    using sub unsub same [OF rel] same [OF call] same [OF create] same [OF none]
      same [OF same_subs_object(1) [OF obj]] same [OF same_subs_object(2) [OF obj]]
      same [OF same_subs_object(3) [OF obj]]
    by (simp split: if_split)
qed

lemma disconnect_tables:
  assumes "tables_ok rt"
  shows "tables_ok (disconnect t (rt, c))" and "subscribed (rt_subs (disconnect t (rt, c))) = others t rt"
proof -
  have s: "session_ok UNIV (rt, c)" using assms by (simp add: tables_ok_any)
  have "factories (release_connection_objects oids r) = factories r" for oids and r :: "('a, 'b) object_registry"
    by (induction oids r rule: release_connection_objects.induct) (simp_all add: factories_unchanged)
  then have "factories (rt_registry (disconnect t (rt, c))) = factories (rt_registry rt)"
    by (simp add: disconnect_def)
  with disconnect_cleans(3,4) [OF s, of t] assms show "tables_ok (disconnect t (rt, c))"
    by (simp add: tables_ok_def)
  show "subscribed (rt_subs (disconnect t (rt, c))) = others t rt"
    using disconnect_cleans(2) [OF s, of t] by (auto simp: others_def)
qed

lemma client_step_subs:
  assumes "tables_ok rt" and "client_step wires code t ev (rt, c) = (r, rt')"
  shows "tables_ok rt' \<and> others t rt' \<subseteq> others t rt \<and> (r = Inl (Inr ()) \<longrightarrow> subscribed (rt_subs rt') = others t rt')"
proof -
  have gone: ?thesis if "rt' = disconnect t (rt, c)"
    using that disconnect_tables [OF assms(1), of t c] by (auto simp: others_def)
  have same: ?thesis if "rt' = rt" "r \<noteq> Inl (Inr ())" using that assms(1) by simp
  show ?thesis
  proof (cases ev)
    case (RecvMsg msg)
    show ?thesis
    proof (cases "decode_header msg")
      case (Inl e)
      then show ?thesis using RecvMsg assms(2) by (intro same) (auto simp: client_step_def)
    next
      case (Inr p)
      obtain hdr m where p: "p = (hdr, m)" by fastforce
      obtain x rt1 c1 where h: "handle_message wires code hdr m t (rt, c) = (x, rt1, c1)" by (metis prod_cases3)
      have ok: "session_ok UNIV (rt, c)" using assms(1) by (simp add: tables_ok_any)
      have "tables_ok rt1"
        using keepsD [OF session_handle_message h, of UNIV] ok by (simp add: session_pre_def tables_ok_any)
      moreover have "others t rt1 \<subseteq> others t rt"
        using others_handle_message [OF ok, of t wires code hdr m] h by simp
      ultimately have handled: ?thesis if "rt' = rt1" "r \<noteq> Inl (Inr ())" using that by simp
      consider "rt' = disconnect t (rt, c)" | "rt' = rt" "r \<noteq> Inl (Inr ())" | "rt' = rt1" "r \<noteq> Inl (Inr ())"
        using RecvMsg Inr p h assms(2) by (auto simp: client_step_def split: if_splits sum.splits)
      then show ?thesis by cases (use gone same handled in blast)+
    qed
  next
    case (RecvThrow e)
    then show ?thesis using assms(2) by (intro same) (auto simp: client_step_def)
  next
    case RecvEnd
    then show ?thesis using assms(2) by (intro gone) (auto simp: client_step_def)
  qed
qed

lemma client_turn_subs:
  assumes "tables_ok rt" and "client_turn wires code th rt = (th', rt')"
  shows "tables_ok rt' \<and> others (th_transport th) rt' \<subseteq> others (th_transport th) rt
    \<and> th_transport th' = th_transport th \<and> th_joinable th' = th_joinable th
    \<and> (th_progress th' = Left (Inr ()) \<longrightarrow> th_progress th = Left (Inr ()) \<and> rt' = rt
        \<or> subscribed (rt_subs rt') = others (th_transport th) rt')"
proof (cases "th_progress th")
  case (Left r)
  then show ?thesis using assms by (auto simp: client_turn_def)
next
  case Starting
  obtain x rt1 where x: "send_init_confirmation_transport wires (th_transport th) rt = (x, rt1)" by fastforce
  have "same_tables rt rt1" using keeps_send_init [of wires "th_transport th"] x by (rule keepsD)
  then have rt1: "tables_ok rt1" "rt_subs rt1 = rt_subs rt" using same_tables_ok assms(1) by blast+
  have "(th', rt') = (th\<lparr>th_progress := (case x of Inl e \<Rightarrow> Left (Inl e) | Inr _ \<Rightarrow> Serving conn_new)\<rparr>, rt1)"
    using assms(2) [symmetric] x Starting by (cases x) (simp_all add: client_turn_def)
  then show ?thesis
    using rt1 others_same [OF rt1(2)] by (simp split: sum.splits)
next
  case (Serving c)
  show ?thesis
  proof (cases "th_events th")
    case Nil
    then show ?thesis using assms Serving by (auto simp: client_turn_def)
  next
    case (Cons ev evs)
    obtain x rt1 where x: "client_step wires code (th_transport th) ev (rt, c) = (x, rt1)" by fastforce
    have "rt' = rt1 \<and> th_transport th' = th_transport th \<and> th_joinable th' = th_joinable th
        \<and> (th_progress th' = Left (Inr ()) \<longrightarrow> x = Inl (Inr ()))"
    proof (cases x)
      case (Inl r1)
      then have "(th', rt') = (th\<lparr>th_events := evs, th_progress := Left r1\<rparr>, rt1)"
        using assms(2) [symmetric] x Serving Cons by (simp add: client_turn_def)
      then show ?thesis using Inl by simp
    next
      case (Inr c1)
      then have "(th', rt') = (th\<lparr>th_events := evs, th_progress := Serving c1\<rparr>, rt1)"
        using assms(2) [symmetric] x Serving Cons by (simp add: client_turn_def)
      then show ?thesis by simp
    qed
    with client_step_subs [OF assms(1) x] show ?thesis by simp
  qed
qed

text \<open>The invariant of \<^verbatim>\<open>run_tcp_multi\<close>: each subscription belongs to a client whose thread has
  not taken leave of it.\<close>

definition multi_ok :: "('o, 'u, 'io) server \<Rightarrow> bool" where
  "multi_ok sv \<longleftrightarrow> tables_ok (sv_runtime sv) \<and> (\<forall>th \<in> set (sv_threads sv). th_joinable th)
     \<and> (\<forall>x \<in> subscribed (rt_subs (sv_runtime sv)).
        \<exists>th \<in> set (sv_threads sv). th_transport th = fst x \<and> th_progress th \<noteq> Left (Inr ()))"

definition transports :: "('o, 'u, 'io) server \<Rightarrow> tid list" where
  "transports sv = map th_transport (sv_threads sv)"

lemma take_turn_ok:
  assumes "multi_ok sv" and "distinct (transports sv)"
  shows "multi_ok (take_turn wires code i sv) \<and> transports (take_turn wires code i sv) = transports sv"
proof (cases "i < length (sv_threads sv)")
  case False
  then show ?thesis using assms by (simp add: take_turn_def)
next
  case True
  let ?ths = "sv_threads sv"
  obtain th rt where step: "client_turn wires code (?ths ! i) (sv_runtime sv) = (th, rt)" by fastforce
  have ok: "tables_ok (sv_runtime sv)" and joinable: "\<forall>th \<in> set ?ths. th_joinable th"
    and live: "\<And>x. x \<in> subscribed (rt_subs (sv_runtime sv)) \<Longrightarrow>
      \<exists>th \<in> set ?ths. th_transport th = fst x \<and> th_progress th \<noteq> Left (Inr ())"
    using assms(1) by (auto simp: multi_ok_def)
  note S = client_turn_subs [OF ok step]
  let ?sv = "take_turn wires code i sv"
  have sv: "?sv = \<lparr>sv_runtime = rt, sv_threads = ?ths[i := th]\<rparr>"
    using True step by (simp add: take_turn_def)
  have same: "map th_transport (?ths[i := th]) = map th_transport ?ths"
    using S True by (metis list_update_id map_update)
  have "\<exists>th' \<in> set (?ths[i := th]). th_transport th' = fst x \<and> th_progress th' \<noteq> Left (Inr ())"
    if x: "x \<in> subscribed (rt_subs rt)" for x
  proof (cases "fst x = th_transport (?ths ! i)")
    case False
    then have "x \<in> subscribed (rt_subs (sv_runtime sv))" using x S by (auto simp: others_def)
    then obtain j where j: "j < length ?ths" "th_transport (?ths ! j) = fst x" "th_progress (?ths ! j) \<noteq> Left (Inr ())"
      using live by (metis in_set_conv_nth)
    then have "j \<noteq> i" using False by auto
    then show ?thesis using j by (metis length_list_update nth_list_update_neq nth_mem)
  next
    case own: True
    have "th_progress th \<noteq> Left (Inr ())"
    proof
      assume fin: "th_progress th = Left (Inr ())"
      then have "th_progress (?ths ! i) = Left (Inr ()) \<and> rt = sv_runtime sv"
        using S x own by (auto simp: others_def)
      moreover from this obtain j where "j < length ?ths" "th_transport (?ths ! j) = fst x"
        "th_progress (?ths ! j) \<noteq> Left (Inr ())"
        using live x by (metis in_set_conv_nth)
      ultimately show False
        using assms(2) True own by (metis transports_def distinct_conv_nth length_map nth_map)
    qed
    moreover have "th \<in> set (?ths[i := th])" using True by (rule set_update_memI)
    ultimately show ?thesis using S own by metis
  qed
  moreover have "\<forall>th' \<in> set (?ths[i := th]). th_joinable th'"
    using joinable S True set_update_subset_insert [of ?ths i th] by auto
  ultimately show ?thesis
    using S same by (simp add: sv multi_ok_def transports_def)
qed

text \<open>The transports of the clients that are accepted.\<close>

fun client_transports :: "(tid \<Rightarrow> tid res) option \<Rightarrow> multi_event list \<Rightarrow> tid list" where
  "client_transports wrapper [] = []"
| "client_transports wrapper (Turn i # evs) = client_transports wrapper evs"
| "client_transports wrapper (Accepts a # evs) = (case a of
      Inr (Some (t, _)) \<Rightarrow> (case wrap_transport wrapper t of Inl e \<Rightarrow> [] | Inr t \<Rightarrow> t # client_transports wrapper evs)
    | Inr None \<Rightarrow> client_transports wrapper evs
    | Inl e \<Rightarrow> [])"

lemma run_tcp_multi_ok:
  assumes "run_tcp_multi wires code wrapper evs sv = (out, sv')" and "multi_ok sv"
    and "distinct (transports sv @ client_transports wrapper evs)"
  shows "multi_ok sv' \<and> transports sv' = transports sv @ client_transports wrapper evs"
  using assms
proof (induction wires code wrapper evs sv rule: run_tcp_multi.induct)
  case (2 wires code wrapper i evs sv)
  then show ?case using take_turn_ok [of sv wires code i] by simp
next
  case (3 wires code wrapper a evs sv)
  show ?case
  proof (cases "\<exists>t revs t'. a = Inr (Some (t, revs)) \<and> wrap_transport wrapper t = Inr t'")
    case True
    then obtain t revs t' where a: "a = Inr (Some (t, revs))" "wrap_transport wrapper t = Inr t'" by blast
    let ?th = "\<lparr>th_transport = t', th_events = revs, th_progress = Starting, th_joinable = True\<rparr>"
    let ?sv = "sv\<lparr>sv_threads := sv_threads sv @ [?th]\<rparr>"
    have "erase_finished (sv_threads sv @ [?th]) = sv_threads sv @ [?th]"
      using 3(3) by (auto simp: erase_finished_def multi_ok_def)
    then have "accept_client wrapper a sv = (Running, ?sv)" using a by (simp add: accept_client_def)
    moreover have "multi_ok ?sv" "transports ?sv = transports sv @ [t']"
      using 3(3) by (auto simp: multi_ok_def transports_def)
    ultimately show ?thesis using 3 a by simp
  next
    case False
    then show ?thesis
      using 3 by (auto simp: accept_client_def leave_multi_def split: sum.splits option.splits if_splits)
  qed
qed (simp add: transports_def)

section \<open>The announcement\<close>

text \<open>What \<^verbatim>\<open>run_tcp_discoverable\<close> relies on: \<open>inv\<close> holds from the constructor on, and the
  destructor leaves the network as \<open>clear\<close> says.\<close>

locale discovery_host =
  fixes create :: "'n \<Rightarrow> 'd"
    and register :: "string \<Rightarrow> string \<Rightarrow> u16 \<Rightarrow> 'd \<Rightarrow> bool \<times> 'd"
    and destroy :: "'d \<Rightarrow> 'n"
    and inv :: "'d \<Rightarrow> bool"
    and clear :: "'n \<Rightarrow> bool"
  assumes create_inv: "clear n \<Longrightarrow> inv (create n)"
    and register_inv: "inv d \<Longrightarrow> inv (snd (register name type port d))"
    and destroy_clear: "inv d \<Longrightarrow> clear (destroy d)"
begin

lemma left_clear:
  assumes "clear n"
    and "run_tcp_discoverable create available register destroy wires code wrapper rounds name type l n (rt, log)
      = (r, d, rt', log')"
  shows "case d of Inr n' \<Rightarrow> clear n' | Inl d' \<Rightarrow> \<exists>e. r = Inl e \<and> \<not> catchable e"
proof -
  let ?d = "if available (create n) then snd (register name type (lst_port l) (create n)) else create n"
  have "inv ?d" using create_inv [OF assms(1)] register_inv by simp
  then have "clear (destroy ?d)" by (rule destroy_clear)
  moreover have "d = Inr (destroy ?d) \<or> (\<exists>d'. d = Inl d') \<and> (\<exists>e. r = Inl e \<and> \<not> catchable e)"
  proof -
    obtain q rt1 where q: "discoverable_loop wires code wrapper False rounds rt = (q, rt1)" by fastforce
    show ?thesis
    proof (cases q)
      case (Inl e)
      with q assms(2) show ?thesis by (auto simp: run_tcp_discoverable_def Let_def split_beta split: if_splits)
    next
      case (Inr u)
      with q assms(2) show ?thesis by (auto simp: run_tcp_discoverable_def Let_def split_beta split: if_splits)
    qed
  qed
  ultimately show ?thesis by auto
qed

end

interpretation dns_sd_host: discovery_host "\<lambda>n. (dnssd_new, n)" dnssd_register dnssd_destroy dnssd_ok "handles []"
proof
  show "handles [] n \<Longrightarrow> dnssd_ok (dnssd_new, n)" for n
    by (simp add: dnssd_ok_def dnssd_new_def opt_list_def)
  show "dnssd_ok d \<Longrightarrow> dnssd_ok (snd (dnssd_register name type port d))" for d name type port
    using dnssd_steps_ok(1) by blast
  show "dnssd_ok d \<Longrightarrow> handles [] (dnssd_destroy d)" for d
    using dnssd_unregister_ok by (metis dnssd_destroy_def prod.collapse)
qed

interpretation avahi_host: discovery_host avahi_new avahi_register avahi_destroy avahi_ok "handles []"
proof
  show "handles [] n \<Longrightarrow> avahi_ok (avahi_new n)" for n
    using avahi_new_ok by (metis prod.collapse)
  show "avahi_ok d \<Longrightarrow> avahi_ok (snd (avahi_register name type port d))" for d name type port
    using avahi_steps_ok(1) by blast
qed (rule avahi_destroy_ok)

text \<open>What the rounds do apart from the flag: a client that is accepted is served to its end.
  A round is flagged if a signal has set the flag by the time the loop looks at it next.\<close>

fun serve_rounds :: "'io wires \<Rightarrow> ('o, 'u) object_code \<Rightarrow> (tid \<Rightarrow> tid res) option \<Rightarrow> serve_round list
    \<Rightarrow> (('o, 'u, 'io) runtime, unit) step" where
  "serve_rounds wires code wrapper [] rt = (Inr (), rt)"
| "serve_rounds wires code wrapper (r # rs) rt =
    (case rd_accept r of
      Inl e \<Rightarrow> if \<not> catchable e then (Inl e, rt) else serve_rounds wires code wrapper rs rt
    | Inr None \<Rightarrow> serve_rounds wires code wrapper rs rt
    | Inr (Some (t, evs)) \<Rightarrow>
        sbind (serve_client wires code wrapper t evs) (\<lambda>_. serve_rounds wires code wrapper rs) rt)"

definition flagged :: "serve_round \<Rightarrow> bool" where
  "flagged r \<longleftrightarrow> rd_signal r \<or> rd_signal_client r \<and> (case rd_accept r of Inr (Some _) \<Rightarrow> True | _ \<Rightarrow> False)"

lemma serve_rounds_append:
  "serve_rounds wires code wrapper (xs @ ys) rt
    = sbind (serve_rounds wires code wrapper xs) (\<lambda>_. serve_rounds wires code wrapper ys) rt"
proof (induction xs arbitrary: rt)
  case (Cons x xs)
  then show ?case by (auto simp: sbind_apply split: sum.splits option.splits prod.splits)
qed (simp add: sbind_apply)

lemma discoverable_loop_unflagged:
  "list_all (\<lambda>r. \<not> flagged r) pre \<Longrightarrow> discoverable_loop wires code wrapper False (pre @ rs) rt
    = sbind (serve_rounds wires code wrapper pre) (\<lambda>_. discoverable_loop wires code wrapper False rs) rt"
proof (induction pre arbitrary: rt)
  case (Cons x xs)
  then show ?case by (auto simp: sbind_apply flagged_def split: sum.splits option.splits prod.splits)
qed (simp add: sbind_apply)

lemma discoverable_loop_flagged:
  "flagged r \<Longrightarrow> discoverable_loop wires code wrapper False (r # rs) rt = serve_rounds wires code wrapper [r] rt"
  by (auto simp: sbind_apply flagged_def split: sum.splits option.splits prod.splits)

text \<open>The loop is left by the first flagged round, and by no other.\<close>

lemma discoverable_loop_stops:
  assumes "list_all (\<lambda>r. \<not> flagged r) pre"
  shows "flagged r \<Longrightarrow> discoverable_loop wires code wrapper False (pre @ r # rest) rt
      = serve_rounds wires code wrapper (pre @ [r]) rt"
    and "fst (discoverable_loop wires code wrapper False pre rt) \<noteq> Inr ()"
proof -
  show "flagged r \<Longrightarrow> discoverable_loop wires code wrapper False (pre @ r # rest) rt
      = serve_rounds wires code wrapper (pre @ [r]) rt"
    using discoverable_loop_flagged [of r wires code wrapper rest]
    by (simp only: discoverable_loop_unflagged [OF assms] serve_rounds_append sbind_def)
  show "fst (discoverable_loop wires code wrapper False pre rt) \<noteq> Inr ()"
    using discoverable_loop_unflagged [OF assms, of wires code wrapper "[]" rt]
    by (auto simp: sbind_apply split: sum.splits prod.splits)
qed

text \<open>While a client is served nothing looks at the flag.\<close>

lemma blocked_client_delays_stop:
  assumes "rd_accept r = Inr (Some (t, evs))" and "wrap_transport wrapper t = Inr t'"
    and "client_loop wires code t' evs rt = (Inl Diverges, rt')"
  shows "discoverable_loop wires code wrapper False (r # rs) rt = (Inl Diverges, rt')"
  using assms by (simp add: serve_client_def sbind_apply scatch_apply slift_def)

section \<open>Properties\<close>

text \<open>Claim C25. A service run by \<^verbatim>\<open>run_tcp_discoverable\<close> withdraws its announcement: on
  dns_sd as on Avahi, whatever the network answers, the clients do and the service's code
  throws, once the function has been left every handle of the discovery has been closed,
  exactly once. It is left by the first round in which a signal sets the flag, while it waits for
  a client or while it serves one, and whatever clients it has served before: the rounds up to
  that one are served, each client to the end of its connection, and none after it. Without a
  signal the function does not return.\<close>

theorem discoverable_withdraws:
  assumes "handles [] n" and "handles [] m"
    and "run_tcp_discoverable (\<lambda>n. (dnssd_new, n)) (\<lambda>d. True) dnssd_register dnssd_destroy
        wires code wrapper rounds name type l n (rt, log) = (r, d, rt', log')"
    and "run_tcp_discoverable avahi_new (\<lambda>d. avahi_is_available (fst d)) avahi_register avahi_destroy
        wires code wrapper rounds name type l m (rt, log) = (q, a, rt'', log'')"
  shows "(case d of Inr n' \<Rightarrow> handles [] n' | Inl d' \<Rightarrow> \<exists>e. r = Inl e \<and> \<not> catchable e)
    \<and> (case a of Inr m' \<Rightarrow> handles [] m' | Inl a' \<Rightarrow> \<exists>e. q = Inl e \<and> \<not> catchable e)
    \<and> (\<forall>pre rd rest. rounds = pre @ rd # rest \<and> list_all (\<lambda>r. \<not> flagged r) pre \<and> flagged rd \<longrightarrow>
        (r, rt') = serve_rounds wires code wrapper (pre @ [rd]) rt \<and> (q, rt'') = (r, rt'))
    \<and> (list_all (\<lambda>r. \<not> flagged r) rounds \<longrightarrow> r \<noteq> Inr () \<and> q \<noteq> Inr ())"
proof (intro conjI allI impI)
  show "case d of Inr n' \<Rightarrow> handles [] n' | Inl d' \<Rightarrow> \<exists>e. r = Inl e \<and> \<not> catchable e"
    by (rule dns_sd_host.left_clear [OF assms(1,3)])
  show "case a of Inr m' \<Rightarrow> handles [] m' | Inl a' \<Rightarrow> \<exists>e. q = Inl e \<and> \<not> catchable e"
    by (rule avahi_host.left_clear [OF assms(2,4)])
  have r: "(r, rt') = discoverable_loop wires code wrapper False rounds rt"
    using assms(3) by (auto simp: run_tcp_discoverable_def Let_def split_beta split: sum.splits prod.splits)
  have q: "(q, rt'') = discoverable_loop wires code wrapper False rounds rt"
    using assms(4) by (auto simp: run_tcp_discoverable_def Let_def split_beta split: sum.splits prod.splits)
  show "(q, rt'') = (r, rt')" using r q by simp
  show "(r, rt') = serve_rounds wires code wrapper (pre @ [rd]) rt"
    if "rounds = pre @ rd # rest \<and> list_all (\<lambda>r. \<not> flagged r) pre \<and> flagged rd" for pre rd rest
    using r that discoverable_loop_stops(1) by metis
  show "r \<noteq> Inr ()" "q \<noteq> Inr ()" if "list_all (\<lambda>r. \<not> flagged r) rounds"
    using r q discoverable_loop_stops(2) [OF that, of wires code wrapper rt] by (metis fst_conv)+
qed

text \<open>A signal arrives while a client is served; the accept after it is not made.\<close>

theorem discoverable_withdraws_witness:
  "\<exists>n' rt' log'. run_tcp_discoverable (\<lambda>n. (dnssd_new, n)) (\<lambda>d. True) dnssd_register dnssd_destroy net_wires no_code None
      [\<lparr>rd_accept = Inr None, rd_signal = False, rd_signal_client = False\<rparr>,
       \<lparr>rd_accept = Inr (Some (4, [RecvEnd])), rd_signal = False, rd_signal_client = True\<rparr>,
       \<lparr>rd_accept = Inr (Some (5, [])), rd_signal = False, rd_signal_client = False\<rparr>]
      ''calc'' ''calc'' \<lparr>lst_sock = 3, lst_port = 80\<rparr> (demo_net [True] [(5, [RegisterReply True])])
      (runtime_new () quiet_net, []) = (Inr (), Inr n', rt', log')
    \<and> handles [] n' \<and> (Inr (), rt') = client_loop net_wires no_code 4 [RecvEnd] (runtime_new () quiet_net)"
proof -
  let ?r1 = "\<lparr>rd_accept = Inr None, rd_signal = False, rd_signal_client = False\<rparr>"
  let ?r2 = "\<lparr>rd_accept = Inr (Some (4, [RecvEnd])), rd_signal = False, rd_signal_client = True\<rparr>"
  let ?r3 = "\<lparr>rd_accept = Inr (Some (5, [])), rd_signal = False, rd_signal_client = False\<rparr>"
  let ?rounds = "[?r1, ?r2, ?r3]"
  let ?n = "demo_net [True] [(5, [RegisterReply True])]"
  let ?l = "\<lparr>lst_sock = 3, lst_port = 80\<rparr>" and ?rt = "runtime_new () quiet_net :: (unit, unit, net) runtime"
  have clear: "handles [] ?n" "handles [] (demo_net [] [] :: avahi_event mdns)"
    by (simp_all add: handles_def demo_net_def)
  obtain r d rt' log' where x: "run_tcp_discoverable (\<lambda>n. (dnssd_new, n)) (\<lambda>d. True) dnssd_register dnssd_destroy
      net_wires no_code None ?rounds ''calc'' ''calc'' ?l ?n (?rt, []) = (r, d, rt', log')"
    by (metis prod_cases4)
  obtain q a rt'' log'' where y: "run_tcp_discoverable avahi_new (\<lambda>d. avahi_is_available (fst d)) avahi_register
      avahi_destroy net_wires no_code None ?rounds ''calc'' ''calc'' ?l (demo_net [] []) (?rt, [])
      = (q, a, rt'', log'')"
    by (metis prod_cases4)
  have "?rounds = [?r1] @ ?r2 # [?r3]" "list_all (\<lambda>r. \<not> flagged r) [?r1]" "flagged ?r2"
    by (simp_all add: flagged_def)
  with discoverable_withdraws [OF clear x y]
  have s: "(r, rt') = serve_rounds net_wires no_code None ([?r1] @ [?r2]) ?rt"
    and d: "case d of Inr n' \<Rightarrow> handles [] n' | Inl d' \<Rightarrow> \<exists>e. r = Inl e \<and> \<not> catchable e"
    by blast+
  obtain rt1 where l: "client_loop net_wires no_code 4 [RecvEnd] ?rt = (Inr (), rt1)"
    by (simp add: client_loop_def send_init_confirmation_transport_def create_init_message_methods_run
        runtime_new_def quiet_net_def sbind_apply slift_def scatch_apply lift_io_def
        net_wires_def net_send_def k_max_capacity_eq)
  then have "r = Inr ()" "rt' = rt1"
    using s by (simp_all add: serve_client_def sbind_apply scatch_apply slift_def wrap_transport_def)
  with x d l show ?thesis by (cases d) auto
qed

text \<open>Claim C24. While \<^verbatim>\<open>run_tcp_multi\<close> serves its clients in threads that take turns in any
  order, the tables stay well formed, and a client that has taken leave leaves no subscription
  behind, whatever the others have done meanwhile: every subscription belongs to a thread
  whose client has not. The vector of threads holds every client there has ever been, finished
  or not. (The transports are distinct objects, which is what makes their addresses names.)\<close>

theorem multi_subscriptions_live:
  assumes "run_tcp_multi wires code wrapper evs \<lparr>sv_runtime = rt, sv_threads = []\<rparr> = (out, sv')"
    and "tables_ok rt" and "rt_subs rt = []" and "distinct (client_transports wrapper evs)"
  shows "tables_ok (sv_runtime sv') \<and> map th_transport (sv_threads sv') = client_transports wrapper evs
    \<and> (\<forall>t t' k. (t, t', k) \<in> subscribed (rt_subs (sv_runtime sv')) \<longrightarrow>
        (\<exists>th \<in> set (sv_threads sv'). th_transport th = t \<and> th_progress th \<noteq> Left (Inr ())))"
proof -
  have "subscribed ([] :: subs) = {}" by (simp add: subscribed_def)
  then have "multi_ok \<lparr>sv_runtime = rt, sv_threads = []\<rparr>"
    using assms(2,3) by (simp add: multi_ok_def)
  then have "multi_ok sv' \<and> transports sv' = client_transports wrapper evs"
    using run_tcp_multi_ok [OF assms(1)] assms(4) by (simp add: transports_def)
  then show ?thesis by (fastforce simp: multi_ok_def transports_def)
qed

text \<open>Two clients subscribe to the same property; the first takes leave, the second stays.\<close>

theorem multi_subscriptions_live_witness:
  "let sub = RecvMsg (message_buffer mt_prop_subscribe 1
         (property_header_repr \<lparr>ph_type_id = 7, ph_object_id = -1, ph_property_id = 5, ph_reserved = 0\<rparr>))
   in \<exists>out sv'. run_tcp_multi net_wires no_code None
      [Accepts (Inr (Some (4, [sub, RecvEnd]))), Turn 0, Turn 0, Accepts (Inr (Some (5, [sub]))), Turn 1, Turn 1, Turn 0]
      \<lparr>sv_runtime = runtime_new () quiet_net, sv_threads = []\<rparr> = (out, sv')
    \<and> (5, 5, -1, 5) \<in> subscribed (rt_subs (sv_runtime sv'))
    \<and> (\<forall>t' k. (4, t', k) \<notin> subscribed (rt_subs (sv_runtime sv')))"
proof -
  let ?h = "\<lparr>ph_type_id = 7, ph_object_id = -1, ph_property_id = 5, ph_reserved = 0\<rparr>"
  let ?sub = "message_buffer mt_prop_subscribe 1 (property_header_repr ?h)"
  let ?evs = "[Accepts (Inr (Some (4, [RecvMsg ?sub, RecvEnd]))), Turn 0, Turn 0, Accepts (Inr (Some (5, [RecvMsg ?sub]))),
      Turn 1, Turn 1, Turn 0]"
  let ?start = "\<lparr>sv_runtime = runtime_new () quiet_net, sv_threads = []\<rparr> :: (unit, unit, net) server"
  obtain out sv' where run: "run_tcp_multi net_wires no_code None ?evs ?start = (out, sv')"
    by (rule prod.exhaust)
  have sub: "buffer_ok ?sub" "unread ?sub = wire_message mt_prop_subscribe 1 (property_header_repr ?h)"
    by (simp_all add: k_max_capacity_eq property_hdr.width)
  have dec: "decode_property_header (advance 16 ?sub) = Inr (?h, advance 12 (advance 16 ?sub))"
    using property_hdr.dec_consumes [OF TrueI, where x = ?h and b = "advance 16 ?sub" and rest = "[]"] sub
    by (simp add: property_hdr.width)
  have step: "client_step net_wires no_code t (RecvMsg ?sub) (rt, c)
      = (Inr (c\<lparr>conn_subs := insert (-1, 5) (conn_subs c)\<rparr>), rt\<lparr>rt_subs := subscribe t (-1) 5 t (rt_subs rt),
          rt_registry := set_subscription_registry (-1) (rt_registry rt)\<rparr>)"
    for t c and rt :: "(unit, unit, net) runtime"
    using decode_header_message [OF sub] dec
    by (simp add: client_step_def handle_message_def Let_def msg_type_defs handle_subscribe_def)
  have start: "\<exists>n. send_init_confirmation_transport net_wires t rt = (Inr (), rt\<lparr>rt_io := n\<rparr>) \<and> n_faults n = []"
    if "rt_methods rt = []" "n_faults (rt_io rt) = []" for t and rt :: "(unit, unit, net) runtime"
    using that create_init_message_methods_run [of "[]" k_first_version k_current_version "capabilities rt"]
    by (simp add: send_init_confirmation_transport_def sbind_apply slift_def scatch_apply lift_io_def
        net_wires_def net_send_def k_max_capacity_eq) (rule exI, rule conjI, rule refl, simp)
  let ?rt = "runtime_new () quiet_net :: (unit, unit, net) runtime"
  obtain n1 where n1: "send_init_confirmation_transport net_wires 4 ?rt = (Inr (), ?rt\<lparr>rt_io := n1\<rparr>)" "n_faults n1 = []"
    using start [of ?rt 4] by (auto simp: runtime_new_def quiet_net_def)
  let ?rt1 = "?rt\<lparr>rt_io := n1, rt_subs := subscribe 4 (-1) 5 4 [], rt_registry := set_subscription_registry (-1) (rt_registry ?rt)\<rparr>"
  obtain n2 where n2: "send_init_confirmation_transport net_wires 5 ?rt1 = (Inr (), ?rt1\<lparr>rt_io := n2\<rparr>)"
    using start [of ?rt1 5] n1(2) by (auto simp: runtime_new_def)
  have subs: "rt_subs ?rt = []" by (simp add: runtime_new_def)
  let ?rt2 = "?rt1\<lparr>rt_io := n2, rt_subs := subscribe 5 (-1) 5 5 (subscribe 4 (-1) 5 4 []),
      rt_registry := set_subscription_registry (-1) (rt_registry ?rt1)\<rparr>"
  let ?th = "\<lambda>t es p. \<lparr>th_transport = t, th_events = es, th_progress = p, th_joinable = True\<rparr>"
  let ?c = "conn_new\<lparr>conn_subs := {(-1, 5)}\<rparr>" and ?e = "[RecvMsg ?sub, RecvEnd]"
  have c: "conn_new\<lparr>conn_subs := insert (-1, 5) (conn_subs conn_new)\<rparr> = ?c" by (simp add: conn_new_def)
  have acc: "accept_client None (Inr (Some (t, es))) \<lparr>sv_runtime = rt, sv_threads = ths\<rparr>
      = (Running, \<lparr>sv_runtime = rt, sv_threads = ths @ [?th t es Starting]\<rparr>)"
    if "list_all th_joinable ths" for t es ths and rt :: "(unit, unit, net) runtime"
    using that by (simp add: accept_client_def wrap_transport_def erase_finished_def list_all_iff)
  define m where "m = RecvMsg ?sub"
  define R0 where "R0 = ?rt"
  define R1 where "R1 = ?rt\<lparr>rt_io := n1\<rparr>"
  define R2 where "R2 = ?rt1"
  define R3 where "R3 = ?rt1\<lparr>rt_io := n2\<rparr>"
  define R4 where "R4 = ?rt2"
  define C where "C = ?c"
  have t1: "client_turn net_wires no_code (?th 4 [m, RecvEnd] Starting) R0 = (?th 4 [m, RecvEnd] (Serving conn_new), R1)"
    by (simp add: client_turn_def n1(1) R0_def R1_def)
  have t2: "client_turn net_wires no_code (?th 4 [m, RecvEnd] (Serving conn_new)) R1 = (?th 4 [RecvEnd] (Serving C), R2)"
    by (simp add: client_turn_def step c subs m_def R1_def R2_def C_def)
  have t3: "client_turn net_wires no_code (?th 5 [m] Starting) R2 = (?th 5 [m] (Serving conn_new), R3)"
    unfolding R2_def R3_def client_turn_def client_thread.simps progress.simps n2 prod.case sum.case ..
  have t4: "client_turn net_wires no_code (?th 5 [m] (Serving conn_new)) R3 = (?th 5 [] (Serving C), R4)"
    by (simp add: client_turn_def step c m_def R3_def R4_def C_def)
  have t5: "client_turn net_wires no_code (?th 4 [RecvEnd] (Serving C)) R4
      = (?th 4 [] (Left (Inr ())), disconnect 4 (R4, C))"
    by (simp add: client_turn_def client_step_def)
  have sv': "sv' = \<lparr>sv_runtime = disconnect 4 (R4, C), sv_threads = [?th 4 [] (Left (Inr ())), ?th 5 [] (Serving C)]\<rparr>"
    using run [folded m_def R0_def] by (simp add: acc take_turn_def t1 t2 t3 t4 t5)
  have final: "rt_subs (sv_runtime sv') = unsubscribe_all 4 (subscribe 5 (-1) 5 5 (subscribe 4 (-1) 5 4 []))"
    "map (\<lambda>th. (th_transport th, th_progress th)) (sv_threads sv') = [(4, Left (Inr ())), (5, Serving C)]"
    unfolding sv' by (simp_all add: disconnect_def R4_def)
  have "tables_ok (runtime_new () quiet_net :: (unit, unit, net) runtime)"
    by (simp add: tables_ok_def runtime_new_def registry_new_def registry_ok_def)
  from multi_subscriptions_live [OF run this]
  have live: "\<exists>th \<in> set (sv_threads sv'). th_transport th = t \<and> th_progress th \<noteq> Left (Inr ())"
    if "(t, t', k) \<in> subscribed (rt_subs (sv_runtime sv'))" for t t' k
    using that subs by (fastforce simp: wrap_transport_def)
  have "(4, t', k) \<notin> subscribed (rt_subs (sv_runtime sv'))" for t' k
    using live [of 4 t' k] final(2) by (auto simp: map_eq_Cons_conv)
  moreover have "(5, 5, -1, 5) \<in> subscribed (rt_subs (sv_runtime sv'))"
    by (simp add: final(1) unsubscribe_all_ok subscribe_ok)
  ultimately show ?thesis using run unfolding Let_def by blast
qed

end
