(* ===== verification/Spec2Isabelle.thy ===== *)
theory Spec2Isabelle
  imports Song_Pipe_Mode Song_Security Song_Manager Song_Parse_Print Song_Logging Song_Driver Song_Tls Song_Serve
begin

text \<open>
  A model of the Song remote procedure call library and of its interface compiler: the buffers
  and codecs, the wire protocol, the transports, the service runtime, the client connection,
  the service registry, the service manager, service discovery and logging; and the compiler's
  lexer, parser, resolver, generators and driver; with the theorems that make them correct.

  The program. A service links \<^verbatim>\<open>ServiceRuntime\<close> (\<^verbatim>\<open>src/runtime.cpp\<close>), registers dispatchers,
  streaming dispatchers and object factories, and serves either its standard input and output
  or TCP connections. A client holds a \<^verbatim>\<open>ServiceConnection\<close> (\<^verbatim>\<open>src/process.cpp\<close>), to a process it
  spawned and talks to through pipes, or to a remote service through a \<^verbatim>\<open>Transport\<close>
  (\<^verbatim>\<open>src/transport.cpp\<close>, with \<^verbatim>\<open>src/security.cpp\<close> as a wrapper that authenticates and
  \<^verbatim>\<open>src/tls.cpp\<close> as one that encrypts). What they
  exchange are messages of \<^verbatim>\<open>src/wire.cpp\<close>, a 16 byte header and a payload, built in the buffers
  of \<^verbatim>\<open>src/buffer.cpp\<close>. Objects of the service live in \<^verbatim>\<open>src/object.cpp\<close>; who is notified of
  their properties is in \<^verbatim>\<open>src/subscription.cpp\<close>; a call may answer with the stream of chunks of
  \<^verbatim>\<open>src/stream.cpp\<close>. Services are found through a registry, itself a service
  (\<^verbatim>\<open>src/registry.cpp\<close>), and a \<^verbatim>\<open>ServiceManager\<close> (\<^verbatim>\<open>src/manager.cpp\<close>) starts, stops, replaces and
  restarts them and connects to them; \<^verbatim>\<open>src/discovery.cpp\<close> announces and finds services on the
  local network, and \<^verbatim>\<open>src/logging.cpp\<close> is what the parts report to. What a service offers is written in an interface file,
  which \<^verbatim>\<open>compiler/\<close> reads and turns into the C++ or Python of its proxies, dispatchers and
  codecs, or into the skeleton of an implementation.

  The theories, each on those before it:

  \<^item> \<open>Song_Prelude\<close>: integers, exceptions as values, steps whose state survives an exception,
    little-endian bytes, hash maps (locale \<open>key_store\<close>), the preorders that composite steps
    inherit from their parts (locale \<open>step_preorder\<close>).
  \<^item> \<open>Song_Buffer\<close>: \<^verbatim>\<open>Buffer\<close> and every \<^verbatim>\<open>encode_\<close> and \<^verbatim>\<open>decode_\<close> function, arrays of any element type
    included. The locale \<open>codec\<close> is what an encoder and its decoder promise each other,
    \<open>fixed_codec\<close> what one of fixed width promises besides; both are interpreted for every pair.
  \<^item> \<open>Song_Wire\<close>: the constants, the packed structures, every message builder.
  \<^item> \<open>Song_Transport\<close>: \<^verbatim>\<open>Pipe\<close>, \<^verbatim>\<open>PipeTransport\<close>, \<^verbatim>\<open>TcpTransport\<close>, \<^verbatim>\<open>TcpListener\<close> over a scripted
    kernel: the record \<open>sys\<close> holds what the coming reads, writes and polls do, any of them, and
    what has been written and closed. The locales \<open>message_source\<close> and \<open>message_sink\<close> are the
    contract of a transport.
  \<^item> \<open>Song_Security\<close>: \<^verbatim>\<open>SecurityConfig\<close> and \<^verbatim>\<open>SecureTransport\<close> over any transport, an instance of
    \<open>message_source\<close> again.
  \<^item> \<open>Song_Tls\<close>: \<^verbatim>\<open>TlsConfig\<close>, \<^verbatim>\<open>TlsTransport\<close>, \<^verbatim>\<open>TlsListener\<close>; what mbedTLS answers is a script,
    and the transport an instance of \<open>message_source\<close> and \<open>message_sink\<close>.
  \<^item> \<open>Song_Net\<close>: the ports of the upper layers. Above this theory a transport is a port that
    sends a message or throws, and a list of what each receive gives; the locale
    \<open>message_port\<close> is their contract, met by the network and by a raw descriptor.
  \<^item> \<open>Song_Object\<close>, \<open>Song_Subscription\<close>, \<open>Song_Stream\<close>: the object registry, the subscription
    registry with its abstract view as a set, the stream writer and reader.
  \<^item> \<open>Song_Runtime\<close>: the record \<open>runtime\<close> has the members of \<^verbatim>\<open>ServiceRuntime\<close>; a handler for
    every message type, shared by \<open>handle_message\<close> and \<open>handle_message_fd\<close> as the code repeats
    it; the loops \<open>client_loop\<close>, \<open>run_tcp_clients\<close>, \<open>run_pipe\<close>.
  \<^item> \<open>Song_Serve\<close>: the loops that accept: \<open>run_tcp\<close>, \<open>run_tcp_discoverable\<close> and \<open>run_tcp_multi\<close>,
    whose threads take turns message by message. The locale \<open>discovery_host\<close> is what the second
    relies on.
  \<^item> \<open>Song_Pipe_Mode\<close>: the pipe mode's loop as rounds; what a round leaves of the input, where its
    handlers can block (\<open>honest\<close>), and so that the loop ends.
  \<^item> \<open>Song_Process\<close>: the record \<open>process\<close> is \<^verbatim>\<open>ServiceProcess\<close>, \<open>client\<close> is \<^verbatim>\<open>ServiceConnection\<close>.
  \<^item> \<open>Song_Rpc\<close>: a client and a service together.
  \<^item> \<open>Song_Registry\<close>: \<^verbatim>\<open>RegistryClient\<close> over a TCP transport, the registry's dispatcher for any
    \<^verbatim>\<open>IRegistry\<close>, and \<^verbatim>\<open>MemoryRegistry\<close>, whose clock is an argument.
  \<^item> \<open>Song_Manager\<close>: the record \<open>manager\<close> is \<^verbatim>\<open>ServiceManager\<close>; what its locks delimit are
    steps of their own, so that its threads can be interleaved.
  \<^item> \<open>Song_Discovery\<close>: the implementations of \<^verbatim>\<open>Discovery\<close> on dns_sd and Avahi, the stubs and the
    guard, over a scripted network with its clock and its handles; the locale
    \<open>discovery_interface\<close> is what the guard relies on.
  \<^item> \<open>Song_Logging\<close>: \<^verbatim>\<open>Log\<close>, alone and by interleaved threads.
  \<^item> \<open>Song_Syntax\<close>, \<open>Song_Lexer\<close>, \<open>Song_Parser\<close>, \<open>Song_Resolver\<close>: the syntax tree of
    \<^verbatim>\<open>compiler/ast.hpp\<close>, and the three passes of the compiler, with their error messages.
  \<^item> \<open>Song_Print\<close>, \<open>Song_Parse_Print\<close>, \<open>Song_Parse_Type\<close>: a printer of syntax trees, which the
    compiler does not have and which says what the parser promises; that it is read back; the
    shape of what is parsed.
  \<^item> \<open>Song_Codegen\<close>, \<open>Song_Python_Codegen\<close>: \<^verbatim>\<open>codegen.cpp\<close> and \<^verbatim>\<open>python_codegen.cpp\<close>, function by
    function, as functions from the tree to a string.
  \<^item> \<open>Song_Regex\<close>: the regular expressions the scaffold generator uses, with the first match of a
    backtracking matcher, as \<^verbatim>\<open>std::regex\<close> has it.
  \<^item> \<open>Song_Scaffold\<close>, \<open>Song_Driver\<close>: \<^verbatim>\<open>scaffold.cpp\<close>, and \<^verbatim>\<open>main.cpp\<close> over a file system of which
    only what may be read and written is given.

  What is shown. Codecs: round trips of every value within the limits, and safety of the
  decoders on arbitrary bytes (a standard exception or a value, never a read outside the buffer).
  Wire: which headers are accepted, that every request is read back as meant, that a stream of
  messages can be taken apart in one way only. Transports: receiving depends on the bytes in the
  stream only, not on how the kernel cuts them, whatever is sent arrives, what is written is a
  prefix of the message, nothing is leaked. Security: what is accepted carries a valid tag, and
  the messages that are sent arrive unchanged over TCP. TLS: messages arrive with their flag set, no descriptor is lost on any
  way out of \<^verbatim>\<open>accept\<close>. Registries: invariants of every operation, the refinement of the
  object registry to a table of reference counts and of the subscriptions to a set. Runtime: every request is answered exactly once and
  alike on both paths, exceptions of the service's code included, a disconnected client leaves
  no object and no subscription, and no subscription where threads serve others beside it; the pipe
  mode ends with its input unless the service's own code or the output blocks; a signal stops
  \<open>run_tcp_discoverable\<close> at the next look at the flag, and it withdraws its announcement. Client: the outcome of calls, streaming calls and handshakes,
  with the notifications that arrive in between. Together: a remote call returns what the
  registered dispatcher returns, and client and service accept each other's handshake. Registry: a
  call through client, dispatcher and registry does what the registry does, a service that
  sends heartbeats stays, a stale one is not given out. Manager: no process is lost, whatever the
  threads do, crashed services come back, the monitor spawns no more than its limit. Compiler:
  what is printed is parsed back, what is parsed is well formed, the resolver accepts exactly the
  consistent trees, and its search for cycles is right; the generated header has its brackets
  matched outside of comments and strings, its numbers are distinct, its switches are legal; the
  driver writes its outputs and nothing else, and a scaffold run again changes nothing. Discovery:
  every handle is closed once, a search reports what was announced and lasts no longer than
  its timeouts and the look-ups of host names, whose duration is a parameter, add up to. Logging: the built-in handler is installed once. Some theorems show where the code falls short of its documentation: a late reply, a notification during a
  stream, a malformed message, a split header on a pipe, the moves of handles, the ninth
  extension, authentication over TLS, threads that are never erased.

  Conventions. A C++ function is a step from a state to a result, an exception (\<open>Inl\<close>) or a value
  (\<open>Inr\<close>), and the state it leaves either way. \<open>Diverges\<close> is a call that does not return, because
  a system call blocks for ever; \<open>Undefined\<close> is undefined behaviour. Loops are recursive
  functions with a termination proof, except the doubling of a buffer's capacity, a
  \<open>partial_function\<close> shown to return, and \<open>run_loop\<close>, which has a fuel: one round for every 16
  bytes of input, and one more, is enough. Signed integers are words read with \<open>sint\<close>, \<open>float\<close>
  and \<open>double\<close> their bits. Parameters stand for code outside the library: dispatchers,
  factories, callbacks and the virtual methods of objects are functions over a state of their
  own, and do not call back into the connection or runtime they are called from, except that
  an object's method may notify its properties; HMAC-SHA256 of the system's cryptographic
  library is a function that gives 32 bytes.

  Not modelled: locks as such (what they delimit is one step; the runtime's threads take turns
  at the granularity of one message), the cryptography of mbedTLS and of HMAC-SHA256, the child's
  side of \<^verbatim>\<open>fork\<close>, the Windows branches, allocation failure. The Python package, the examples, the
  demonstrations under \<^verbatim>\<open>sing/\<close>, the tests and the fuzzers use the library and are no part of it.
\<close>

end
